(* ===== verification/Prelude.thy ===== *)
theory Prelude
  imports Main "HOL-Library.AList" "HOL-Library.Multiset"
begin

text \<open>
  Shared vocabulary of the development: Python exceptions as values, the result type and its
  combinators, the pieces of Python's integer and list semantics the compiler uses
  (floor division, \<^verbatim>\<open>range\<close>, indexing with negative indices, decimal formatting), insertion-ordered
  dictionaries as association lists, and the generic lemmas the component theories rewrite with.

  An exception is modelled by its class; the text of its message is not modelled.  \<^verbatim>\<open>MemoryFault\<close> stands
  for an access outside an array through an unchecked view, which has no defined outcome.
\<close>

section \<open>Exceptions and results\<close>

datatype py_error =
    ValueError | TypeError | KeyError | IndexError | ZeroDivisionError | AssertionError
  | AttributeError | StopIteration | OverflowError
  | ScheduleInvariantError | CyclicScheduleError | ProgressError | BarrierError
  | CapabilityError | CaptureError | UnsupportedOperator | LegalityError | ExecutorError
  | DeviceUnavailable | MemoryFault | KernelSelectionError

type_synonym 'a result = "py_error + 'a"

named_theorems result_simps \<open>evaluation of the result combinators\<close>

fun bindr :: "'a result \<Rightarrow> ('a \<Rightarrow> 'b result) \<Rightarrow> 'b result" where
  "bindr (Inl e) f = Inl e"
| "bindr (Inr x) f = f x"

fun mapr :: "('a \<Rightarrow> 'b result) \<Rightarrow> 'a list \<Rightarrow> 'b list result" where
  "mapr f [] = Inr []"
| "mapr f (x # xs) = bindr (f x) (\<lambda>y. bindr (mapr f xs) (\<lambda>ys. Inr (y # ys)))"

fun foldr_res :: "('s \<Rightarrow> 'a \<Rightarrow> 's result) \<Rightarrow> 's \<Rightarrow> 'a list \<Rightarrow> 's result" where
  "foldr_res f s [] = Inr s"
| "foldr_res f s (x # xs) = bindr (f s x) (\<lambda>s'. foldr_res f s' xs)"

definition is_ok :: "'a result \<Rightarrow> bool" where
  "is_ok r = (case r of Inl _ \<Rightarrow> False | Inr _ \<Rightarrow> True)"

definition guardr :: "bool \<Rightarrow> py_error \<Rightarrow> unit result" where
  "guardr b e = (if b then Inr () else Inl e)"

section \<open>Python integers, ranges and indexing\<close>

definition py_floordiv :: "int \<Rightarrow> int \<Rightarrow> int result" where
  "py_floordiv a b = (if b = 0 then Inl ZeroDivisionError else Inr (a div b))"

definition py_mod :: "int \<Rightarrow> int \<Rightarrow> int result" where
  "py_mod a b = (if b = 0 then Inl ZeroDivisionError else Inr (a mod b))"

text \<open>\<^verbatim>\<open>range(lo, hi, step)\<close>; a zero step raises.\<close>

definition py_range :: "int \<Rightarrow> int \<Rightarrow> int \<Rightarrow> int list result" where
  "py_range lo hi step =
     (if step = 0 then Inl ValueError
      else if step > 0
        then Inr (map (\<lambda>i. lo + int i * step) [0..<nat ((hi - lo + step - 1) div step)])
        else Inr (map (\<lambda>i. lo + int i * step) [0..<nat ((lo - hi - step - 1) div (- step))]))"

text \<open>\<^verbatim>\<open>range(n)\<close> and \<^verbatim>\<open>range(lo, hi)\<close>.\<close>

definition urange :: "int \<Rightarrow> int list" where
  "urange n = map int [0..<nat n]"

definition urange2 :: "int \<Rightarrow> int \<Rightarrow> int list" where
  "urange2 lo hi = map (\<lambda>i. lo + int i) [0..<nat (hi - lo)]"

text \<open>Indexing: a negative index counts from the end, out of range raises.\<close>

definition py_nth :: "'a list \<Rightarrow> int \<Rightarrow> 'a result" where
  "py_nth xs i =
     (if i < - int (length xs) \<or> int (length xs) \<le> i then Inl IndexError
      else Inr (xs ! nat (if i < 0 then int (length xs) + i else i)))"

definition prodl :: "int list \<Rightarrow> int" where
  "prodl xs = fold (\<lambda>d n. n * d) xs 1"

section \<open>Decimal formatting\<close>

definition digit_char :: "nat \<Rightarrow> char" where
  "digit_char d = char_of (48 + d)"

fun dec_nat :: "nat \<Rightarrow> string" where
  "dec_nat n = (if n < 10 then [digit_char n] else dec_nat (n div 10) @ [digit_char (n mod 10)])"

declare dec_nat.simps [simp del]

text \<open>\<^verbatim>\<open>f"{i}"\<close> and \<^verbatim>\<open>f"{i:02d}"\<close> (the sign counts towards the width).\<close>

definition dec_int :: "int \<Rightarrow> string" where
  "dec_int i = (if i < 0 then ''-'' @ dec_nat (nat (- i)) else dec_nat (nat i))"

definition dec02 :: "int \<Rightarrow> string" where
  "dec02 i = (if 0 \<le> i \<and> i < 10 then ''0'' @ dec_nat (nat i) else dec_int i)"

section \<open>Insertion-ordered dictionaries\<close>

text \<open>
  A \<^verbatim>\<open>dict\<close> whose iteration order the code uses is an association list with distinct keys;
  \<^const>\<open>AList.update\<close> keeps the position of an existing key and appends a new one, as
  assignment to a Python dictionary does.
\<close>

type_synonym ('k, 'v) dict = "('k \<times> 'v) list"

definition dict_get :: "('k, 'v) dict \<Rightarrow> 'k \<Rightarrow> 'v result" where
  "dict_get d k = (case map_of d k of None \<Rightarrow> Inl KeyError | Some v \<Rightarrow> Inr v)"

definition dict_set :: "'k \<Rightarrow> 'v \<Rightarrow> ('k, 'v) dict \<Rightarrow> ('k, 'v) dict" where
  "dict_set k v d = AList.update k v d"

definition dict_setdefault :: "'k \<Rightarrow> 'v \<Rightarrow> ('k, 'v) dict \<Rightarrow> ('k, 'v) dict" where
  "dict_setdefault k v d = (case map_of d k of None \<Rightarrow> d @ [(k, v)] | Some _ \<Rightarrow> d)"

definition dict_has :: "('k, 'v) dict \<Rightarrow> 'k \<Rightarrow> bool" where
  "dict_has d k = (map_of d k \<noteq> None)"

definition dict_wf :: "('k, 'v) dict \<Rightarrow> bool" where
  "dict_wf d = distinct (map fst d)"

section \<open>Lemmas on results\<close>

lemma bindr_Inr_iff [result_simps]:
  "bindr r f = Inr y \<longleftrightarrow> (\<exists>x. r = Inr x \<and> f x = Inr y)"
  by (cases r) auto

lemma bindr_Inl_iff:
  "bindr r f = Inl e \<longleftrightarrow> r = Inl e \<or> (\<exists>x. r = Inr x \<and> f x = Inl e)"
  by (cases r) auto

lemma bindr_right_id [simp]: "bindr r Inr = r"
  by (cases r) auto

lemma bindr_assoc: "bindr (bindr r f) g = bindr r (\<lambda>x. bindr (f x) g)"
  by (cases r) auto

lemma bindr_cong [fundef_cong]:
  "r = r' \<Longrightarrow> (\<And>x. r' = Inr x \<Longrightarrow> f x = g x) \<Longrightarrow> bindr r f = bindr r' g"
  by (cases r') auto

lemma guardr_Inr_iff [simp]: "guardr b e = Inr u \<longleftrightarrow> b"
  by (simp add: guardr_def)

lemma guardr_True [simp]: "guardr True e = Inr ()"
  by (simp add: guardr_def)

lemma guardr_False [simp]: "guardr False e = Inl e"
  by (simp add: guardr_def)

lemma is_ok_simps [simp]: "is_ok (Inr x)" "\<not> is_ok (Inl e)"
  by (simp_all add: is_ok_def)

lemma is_ok_iff: "is_ok r \<longleftrightarrow> (\<exists>x. r = Inr x)"
  by (cases r) auto

lemma mapr_Inr_iff: "mapr f xs = Inr ys \<longleftrightarrow> list_all2 (\<lambda>x y. f x = Inr y) xs ys"
  by (induction xs arbitrary: ys) (auto simp: result_simps list_all2_Cons1)

lemma mapr_pure [simp]: "mapr (\<lambda>x. Inr (f x)) xs = Inr (map f xs)"
  by (induction xs) auto

lemma mapr_ok_pure: "(\<And>x. x \<in> set xs \<Longrightarrow> f x = Inr (g x)) \<Longrightarrow> mapr f xs = Inr (map g xs)"
  by (induction xs) auto

lemma mapr_length: "mapr f xs = Inr ys \<Longrightarrow> length ys = length xs"
  by (simp add: mapr_Inr_iff list_all2_lengthD)

lemma mapr_nth: "mapr f xs = Inr ys \<Longrightarrow> i < length xs \<Longrightarrow> f (xs ! i) = Inr (ys ! i)"
  by (simp add: mapr_Inr_iff list_all2_conv_all_nth)

lemma mapr_cong [fundef_cong]:
  "xs = ys \<Longrightarrow> (\<And>x. x \<in> set ys \<Longrightarrow> f x = g x) \<Longrightarrow> mapr f xs = mapr g ys"
  by (induction ys arbitrary: xs) auto

lemma foldr_res_append:
  "foldr_res f s (xs @ ys) = bindr (foldr_res f s xs) (\<lambda>s'. foldr_res f s' ys)"
  by (induction xs arbitrary: s) (auto simp: bindr_assoc)

lemma foldr_res_map: "foldr_res f s (map g xs) = foldr_res (\<lambda>s x. f s (g x)) s xs"
  by (induction xs arbitrary: s) (auto intro: bindr_cong)

lemma foldr_res_inv:
  assumes "foldr_res f s xs = Inr s'" and "I s"
    and "\<And>s x t. I s \<Longrightarrow> x \<in> set xs \<Longrightarrow> f s x = Inr t \<Longrightarrow> I t"
  shows "I s'"
  using assms
proof (induction xs arbitrary: s)
  case Nil
  then show ?case by simp
next
  case (Cons x xs)
  from Cons.prems(1) obtain t where t: "f s x = Inr t" "foldr_res f t xs = Inr s'"
    by (auto simp: result_simps)
  have "I t" by (rule Cons.prems(3) [OF Cons.prems(2) _ t(1)]) simp
  then show ?case by (rule Cons.IH [OF t(2)]) (auto intro: Cons.prems(3))
qed

text \<open>What a computation ends with: a value that satisfies \<open>Q\<close> or an exception that satisfies \<open>E\<close>.\<close>

definition outcome :: "('a \<Rightarrow> bool) \<Rightarrow> (py_error \<Rightarrow> bool) \<Rightarrow> 'a result \<Rightarrow> bool" where
  "outcome Q E r = (case r of Inl e \<Rightarrow> E e | Inr x \<Rightarrow> Q x)"

lemma outcome_simps [simp]: "outcome Q E (Inr x) = Q x" "outcome Q E (Inl e) = E e"
  by (simp_all add: outcome_def)

lemma outcome_bind:
  "outcome Q E r \<Longrightarrow> (\<And>x. Q x \<Longrightarrow> outcome R E (f x)) \<Longrightarrow> outcome R E (bindr r f)"
  by (cases r) auto

lemma outcome_mono:
  "outcome Q E r \<Longrightarrow> (\<And>x. Q x \<Longrightarrow> R x) \<Longrightarrow> (\<And>e. E e \<Longrightarrow> F e) \<Longrightarrow> outcome R F r"
  by (cases r) auto

lemma outcome_fold:
  "I s \<Longrightarrow> (\<And>s x. x \<in> set xs \<Longrightarrow> I s \<Longrightarrow> outcome I E (f s x)) \<Longrightarrow> outcome I E (foldr_res f s xs)"
  by (induction xs arbitrary: s) (auto intro: outcome_bind)

section \<open>Lemmas on ranges, products and indexing\<close>

lemma prodl_Nil [simp]: "prodl [] = 1"
  by (simp add: prodl_def)

lemma fold_mult_shift: "fold (\<lambda>d n. n * d) xs (c :: int) = c * fold (\<lambda>d n. n * d) xs 1"
proof (induction xs arbitrary: c)
  case Nil
  then show ?case by simp
next
  case (Cons x xs)
  show ?case using Cons [of "c * x"] Cons [of x] by simp
qed

lemma prodl_Cons [simp]: "prodl (x # xs) = x * prodl xs"
  using fold_mult_shift [of xs x] by (simp add: prodl_def)

lemma prodl_append [simp]: "prodl (xs @ ys) = prodl xs * prodl ys"
  by (induction xs) auto

lemma prodl_rev [simp]: "prodl (rev xs) = prodl xs"
  by (induction xs) auto

lemma prodl_pos: "\<forall>x \<in> set xs. 0 < x \<Longrightarrow> 0 < prodl xs"
  by (induction xs) auto

lemma prodl_nonneg: "\<forall>x \<in> set xs. 0 \<le> x \<Longrightarrow> 0 \<le> prodl xs"
  by (induction xs) auto

lemma set_urange [simp]: "set (urange n) = {0..<n}"
proof -
  have "set (urange n) = int ` {0..<nat n}" by (simp add: urange_def)
  also have "\<dots> = {0..<n}"
    using image_int_atLeastLessThan [of 0 "nat n"] by (cases "0 \<le> n") auto
  finally show ?thesis .
qed

lemma length_urange [simp]: "length (urange n) = nat n"
  by (simp add: urange_def)

lemma distinct_urange [simp]: "distinct (urange n)"
  by (simp add: urange_def distinct_map)

lemma urange_nth [simp]: "i < nat n \<Longrightarrow> urange n ! i = int i"
  by (simp add: urange_def)

lemma py_nth_ok: "0 \<le> i \<Longrightarrow> i < int (length xs) \<Longrightarrow> py_nth xs i = Inr (xs ! nat i)"
  by (simp add: py_nth_def)

section \<open>Lemmas on dictionaries\<close>

lemma map_of_dict_set [simp]: "map_of (dict_set k v d) = (map_of d)(k \<mapsto> v)"
  by (simp add: dict_set_def update_conv')

lemma dict_get_Inr_iff [simp]: "dict_get d k = Inr v \<longleftrightarrow> map_of d k = Some v"
  by (simp add: dict_get_def split: option.split)

lemma dict_wf_set [simp]: "dict_wf d \<Longrightarrow> dict_wf (dict_set k v d)"
  by (simp add: dict_wf_def dict_set_def distinct_update)

lemma dict_keys_set: "set (map fst (dict_set k v d)) = insert k (set (map fst d))"
  by (simp add: dict_set_def dom_update) 

lemma map_of_dict_setdefault:
  "map_of (dict_setdefault k v d) =
     (\<lambda>x. if x = k \<and> map_of d k = None then Some v else map_of d x)"
  by (auto simp: dict_setdefault_def map_add_def fun_eq_iff split: option.split)

lemma dict_wf_setdefault: "dict_wf d \<Longrightarrow> dict_wf (dict_setdefault k v d)"
  by (auto simp: dict_setdefault_def dict_wf_def map_of_eq_None_iff split: option.split)

lemma dict_mem_iff: "dict_wf d \<Longrightarrow> (k, v) \<in> set d \<longleftrightarrow> map_of d k = Some v"
  by (simp add: dict_wf_def)

lemma dict_set_fresh: "map_of d k = None \<Longrightarrow> dict_set k v d = d @ [(k, v)]"
  by (induction d) (auto simp: dict_set_def split: if_splits)

section \<open>Lemmas on lists\<close>

lemma length_filter_less_if:
  assumes "\<And>x. P x \<Longrightarrow> Q x" "x \<in> set xs" "Q x" "\<not> P x"
  shows "length (filter P xs) < length (filter Q xs)"
  using assms(2)
proof (induction xs)
  case (Cons y ys)
  have le: "length (filter P ys) \<le> length (filter Q ys)"
    by (induction ys) (use assms(1) in auto)
  then show ?case using Cons assms by (cases "y = x") auto
qed simp

lemma distinct_concat_map:
  assumes "distinct ws" and "\<And>w. w \<in> set ws \<Longrightarrow> distinct (f w)"
    and "\<And>w w'. w \<in> set ws \<Longrightarrow> w' \<in> set ws \<Longrightarrow> w \<noteq> w' \<Longrightarrow> set (f w) \<inter> set (f w') = {}"
  shows "distinct (concat (map f ws))"
  using assms
proof (induction ws)
  case Nil
  then show ?case by simp
next
  case (Cons w ws)
  have "set (f w) \<inter> set (f w') = {}" if "w' \<in> set ws" for w'
    using Cons.prems that by (metis distinct.simps(2) list.set_intros)
  then have "set (f w) \<inter> set (concat (map f ws)) = {}" by auto
  moreover have "distinct (concat (map f ws))" using Cons by auto
  ultimately show ?case using Cons.prems(2) [of w] by simp
qed

section \<open>Decimal formatting is injective\<close>

definition dec_value :: "string \<Rightarrow> nat" where
  "dec_value s = foldl (\<lambda>n c. 10 * n + (of_char c - 48)) 0 s"

lemma of_char_digit: "d < 10 \<Longrightarrow> of_char (digit_char d) = (48 + d :: nat)"
  by (simp add: digit_char_def)

lemma dec_value_nat: "dec_value (dec_nat n) = n"
proof (induction n rule: dec_nat.induct)
  case (1 n)
  show ?case
  proof (cases "n < 10")
    case True
    then show ?thesis by (simp add: dec_nat.simps [of n] dec_value_def of_char_digit)
  next
    case False
    have "foldl (\<lambda>n c. 10 * n + (of_char c - 48)) 0 (dec_nat (n div 10)) = n div 10"
      using "1.IH" [OF False] by (simp add: dec_value_def)
    with False show ?thesis
      by (subst dec_nat.simps) (simp add: dec_value_def of_char_digit)
  qed
qed

lemma dec_nat_digits: "c \<in> set (dec_nat n) \<Longrightarrow> \<exists>d < 10. c = digit_char d"
proof (induction n rule: dec_nat.induct)
  case (1 n)
  show ?case
  proof (cases "n < 10")
    case True
    with "1.prems" show ?thesis by (auto simp: dec_nat.simps [of n])
  next
    case False
    with "1.prems" have "c \<in> set (dec_nat (n div 10)) \<or> c = digit_char (n mod 10)"
      by (subst (asm) dec_nat.simps) auto
    then show ?thesis
    proof
      assume "c = digit_char (n mod 10)"
      then show ?thesis by (intro exI [of _ "n mod 10"]) simp
    qed (rule "1.IH" [OF False])
  qed
qed

lemma dec02_value: "0 \<le> i \<Longrightarrow> dec_value (dec02 i) = nat i"
proof -
  have "dec_value (CHR ''0'' # s) = dec_value s" for s by (simp add: dec_value_def of_char_def)
  then show "0 \<le> i \<Longrightarrow> dec_value (dec02 i) = nat i"
    by (simp add: dec02_def dec_int_def dec_value_nat)
qed

lemma dec02_inj: "0 \<le> i \<Longrightarrow> 0 \<le> j \<Longrightarrow> dec02 i = dec02 j \<Longrightarrow> i = j"
  using dec02_value [of i] dec02_value [of j] by simp

lemma digit_char_neq_underscore: "d < 10 \<Longrightarrow> digit_char d \<noteq> CHR ''_''"
proof
  assume d: "d < 10" and e: "digit_char d = CHR ''_''"
  have "of_char (CHR ''_'') = (95 :: nat)" by (simp add: of_char_def)
  with of_char_digit [OF d] e d show False by simp
qed

lemma dec02_no_underscore:
  assumes "0 \<le> i"
  shows "CHR ''_'' \<notin> set (dec02 i)"
proof -
  have "CHR ''_'' \<notin> set (dec_nat n)" for n
    using dec_nat_digits [of "CHR ''_''" n] digit_char_neq_underscore by metis
  then show ?thesis using assms by (simp add: dec02_def dec_int_def)
qed

end
