(* ===== verification/Index_Space.thy ===== *)
theory Index_Space
  imports Prelude
begin

text \<open>
  Row-major index spaces: the indices of a box of extents, their linear (row-major) position and
  back.  Tile grids, tensor shapes and address computations all reduce to these two functions.
\<close>

definition idx_in :: "int list \<Rightarrow> int list \<Rightarrow> bool" where
  "idx_in sh idx = list_all2 (\<lambda>d i. 0 \<le> i \<and> i < d) sh idx"

fun flat :: "int list \<Rightarrow> int list \<Rightarrow> int" where
  "flat (d # ds) (i # is) = i * prodl ds + flat ds is"
| "flat _ _ = 0"

fun unflat :: "int list \<Rightarrow> int \<Rightarrow> int list" where
  "unflat [] k = []"
| "unflat (d # ds) k = (k div prodl ds) # unflat ds (k mod prodl ds)"

definition dot :: "int list \<Rightarrow> int list \<Rightarrow> int" where
  "dot idx ss = sum_list (map2 (*) idx ss)"

section \<open>Basic laws\<close>

lemma idx_in_simps [simp]:
  "idx_in [] idx \<longleftrightarrow> idx = []"
  "idx_in sh [] \<longleftrightarrow> sh = []"
  "idx_in (d # ds) (i # is) \<longleftrightarrow> 0 \<le> i \<and> i < d \<and> idx_in ds is"
  by (auto simp: idx_in_def)

lemma idx_in_length: "idx_in sh idx \<Longrightarrow> length idx = length sh"
  by (auto simp: idx_in_def dest: list_all2_lengthD)

lemma idx_in_Cons1: "idx_in (d # ds) idx \<longleftrightarrow> (\<exists>i is. idx = i # is \<and> 0 \<le> i \<and> i < d \<and> idx_in ds is)"
  by (cases idx) auto

lemma idx_in_append:
  "length sh = length a \<Longrightarrow> idx_in (sh @ sh') (a @ b) \<longleftrightarrow> idx_in sh a \<and> idx_in sh' b"
  by (simp add: idx_in_def list_all2_append)

lemma idx_in_pos: "idx_in sh idx \<Longrightarrow> \<forall>d \<in> set sh. 0 < d"
  by (induction sh arbitrary: idx) (auto simp: idx_in_Cons1)

lemma dot_simps [simp]: "dot [] ss = 0" "dot idx [] = 0" "dot (i # is) (s # ss) = i * s + dot is ss"
  by (simp_all add: dot_def)

lemma dot_append: "length a = length s \<Longrightarrow> dot (a @ b) (s @ t) = dot a s + dot b t"
  by (simp add: dot_def)

lemma flat_Nil2 [simp]: "flat sh [] = 0"
  by (cases sh) auto

section \<open>Linearisation is a bijection\<close>

lemma div_less_of_less_mult:
  fixes k :: int
  assumes "0 < p" "k < d * p"
  shows "k div p < d"
proof (rule ccontr)
  assume "\<not> k div p < d"
  then have "d * p \<le> (k div p) * p" using assms(1) by (simp add: mult_right_mono)
  also have "\<dots> = k - k mod p" by (simp add: minus_mod_eq_div_mult)
  also have "\<dots> \<le> k" using assms(1) by simp
  finally show False using assms(2) by simp
qed

lemma flat_bounds:
  assumes "idx_in sh idx"
  shows "0 \<le> flat sh idx \<and> flat sh idx < prodl sh"
  using assms
proof (induction sh arbitrary: idx)
  case Nil
  then show ?case by simp
next
  case (Cons d ds)
  then obtain i "is" where idx: "idx = i # is" "0 \<le> i" "i < d" "idx_in ds is"
    by (auto simp: idx_in_Cons1)
  from Cons.IH [OF idx(4)] have b: "0 \<le> flat ds is" "flat ds is < prodl ds" by auto
  then have "0 < prodl ds" by simp
  with idx have "i * prodl ds + prodl ds \<le> d * prodl ds"
    by (metis add.commute distrib_right mult.commute mult_1 mult_le_cancel_right1 zless_imp_add1_zle
        mult_right_mono less_imp_le)
  with b idx show ?case by auto
qed

lemma unflat_in:
  assumes "\<forall>d \<in> set sh. 0 < d" "0 \<le> k" "k < prodl sh"
  shows "idx_in sh (unflat sh k)"
  using assms
proof (induction sh arbitrary: k)
  case Nil
  then show ?case by simp
next
  case (Cons d ds)
  have pos: "0 < prodl ds" using Cons.prems by (auto intro: prodl_pos)
  moreover have "k div prodl ds < d"
    using Cons.prems pos by (auto intro: div_less_of_less_mult)
  ultimately show ?case using Cons by (simp add: pos_imp_zdiv_nonneg_iff)
qed

lemma flat_unflat:
  assumes "\<forall>d \<in> set sh. 0 < d" "0 \<le> k" "k < prodl sh"
  shows "flat sh (unflat sh k) = k"
  using assms
proof (induction sh arbitrary: k)
  case Nil
  then show ?case by simp
next
  case (Cons d ds)
  have "0 < prodl ds" using Cons.prems by (auto intro: prodl_pos)
  then show ?case using Cons by simp
qed

lemma unflat_flat:
  assumes "idx_in sh idx"
  shows "unflat sh (flat sh idx) = idx"
  using assms
proof (induction sh arbitrary: idx)
  case Nil
  then show ?case by simp
next
  case (Cons d ds)
  then obtain i "is" where idx: "idx = i # is" "idx_in ds is"
    by (auto simp: idx_in_Cons1)
  from flat_bounds [OF idx(2)] have "0 \<le> flat ds is" "flat ds is < prodl ds" by auto
  with Cons.IH [OF idx(2)] idx show ?case by simp
qed

lemma flat_inj:
  assumes "idx_in sh a" "idx_in sh b" "flat sh a = flat sh b"
  shows "a = b"
  by (metis assms unflat_flat)

lemma flat_snoc:
  assumes "length sh = length idx"
  shows "flat (sh @ [d]) (idx @ [i]) = flat sh idx * d + i"
  using assms
  by (induction sh idx rule: list_induct2) (auto simp: algebra_simps)

lemma unflat_length [simp]: "length (unflat sh k) = length sh"
  by (induction sh arbitrary: k) auto

lemma mod_mult_div:
  fixes j g p :: int
  assumes "0 < g" "0 < p"
  shows "j mod (p * g) div g = j div g mod p"
proof -
  have "j mod (g * p) = g * (j div g mod p) + j mod g"
    using assms by (simp add: zmod_zmult2_eq)
  then have "j mod (g * p) div g = j div g mod p + j mod g div g"
    using assms(1) by simp
  then show ?thesis using assms(1) by (simp add: mult.commute)
qed

lemma unflat_snoc:
  assumes "\<forall>x \<in> set gs. 0 < x" "0 < g" "0 \<le> j" "j < prodl gs * g"
  shows "unflat (gs @ [g]) j = unflat gs (j div g) @ [j mod g]"
  using assms
proof (induction gs arbitrary: j)
  case Nil
  then show ?case by simp
next
  case (Cons d ds)
  have p: "0 < prodl ds" using Cons.prems by (auto intro: prodl_pos)
  have "j mod (prodl ds * g) mod g = j mod g" by (simp add: mod_mod_cancel)
  moreover have "0 \<le> j mod (prodl ds * g)" "j mod (prodl ds * g) < prodl ds * g"
    using p Cons.prems(2) by simp_all
  ultimately show ?case
    using Cons.IH [of "j mod (prodl ds * g)"] Cons.prems p mod_mult_div [OF Cons.prems(2) p, of j]
    by (simp add: zdiv_zmult2_eq mult.commute)
qed

lemma int_le_div_iff:
  fixes k m p :: int
  assumes "0 < p"
  shows "k \<le> m div p \<longleftrightarrow> k * p \<le> m"
proof
  assume "k \<le> m div p"
  then have "k * p \<le> (m div p) * p" using assms by (simp add: mult_right_mono)
  also have "\<dots> = m - m mod p" by (simp add: minus_mod_eq_div_mult)
  also have "\<dots> \<le> m" using assms by simp
  finally show "k * p \<le> m" .
next
  assume "k * p \<le> m"
  then have "(k * p) div p \<le> m div p" using assms by (rule zdiv_mono1)
  then show "k \<le> m div p" using assms by simp
qed

end
