(* ===== verification/Operator_IR.thy ===== *)
theory Operator_IR
  imports Index_Space
begin

text \<open>
  The operator IR of \<^verbatim>\<open>compiler/operator_ir.py\<close>: element types, runtime scalars, valid lengths,
  tensor views, memory regions, operators and hazards.  A tensor is a strided view of a storage;
  a region is a box of view indices; two regions overlap when the bounding intervals of the
  addresses they map to meet.  The lemmas give the meaning of these operations in terms of the
  element addresses a view index denotes.
\<close>

section \<open>Data\<close>

record DType =
  dt_name :: string
  dt_size :: int

definition F32 :: DType where "F32 = \<lparr>dt_name = ''f32'', dt_size = 4\<rparr>"
definition F16 :: DType where "F16 = \<lparr>dt_name = ''f16'', dt_size = 2\<rparr>"
definition BF16 :: DType where "BF16 = \<lparr>dt_name = ''bf16'', dt_size = 2\<rparr>"
definition F8_E4M3 :: DType where "F8_E4M3 = \<lparr>dt_name = ''f8e4m3'', dt_size = 1\<rparr>"
definition I32 :: DType where "I32 = \<lparr>dt_name = ''i32'', dt_size = 4\<rparr>"
definition I64 :: DType where "I64 = \<lparr>dt_name = ''i64'', dt_size = 8\<rparr>"

record SymbolicScalar =
  sc_name :: string
  sc_lo :: int
  sc_hi :: int

definition guard :: "SymbolicScalar \<Rightarrow> int \<Rightarrow> unit result" where
  "guard s v = (if \<not> (sc_lo s \<le> v \<and> v < sc_hi s) then Inl ValueError else Inr ())"

datatype vl_expr = EInt int | EStr string

record ValidLength =
  vl_expr :: "vl_expr option"
  vl_row_tensor :: "string option"
  vl_mode :: string

text \<open>The constructor with its \<^verbatim>\<open>__post_init__\<close> checks.\<close>

definition mk_ValidLength :: "vl_expr option \<Rightarrow> string option \<Rightarrow> string \<Rightarrow> ValidLength result" where
  "mk_ValidLength ex row mode =
     (case row of
        None \<Rightarrow> (if ex = None then Inl ValueError
                 else Inr \<lparr>vl_expr = ex, vl_row_tensor = row, vl_mode = mode\<rparr>)
      | Some _ \<Rightarrow>
          if ex \<noteq> None then Inl ValueError
          else if mode \<notin> {''positions'', ''lengths''} then Inl ValueError
          else Inr \<lparr>vl_expr = ex, vl_row_tensor = row, vl_mode = mode\<rparr>)"

definition is_row :: "ValidLength \<Rightarrow> bool" where
  "is_row v = (vl_row_tensor v \<noteq> None)"

definition from_positions :: "string \<Rightarrow> ValidLength result" where
  "from_positions t = mk_ValidLength None (Some t) ''positions''"

definition from_lengths :: "string \<Rightarrow> ValidLength result" where
  "from_lengths t = mk_ValidLength None (Some t) ''lengths''"

definition ends_plus_one :: "string \<Rightarrow> bool" where
  "ends_plus_one s = (2 \<le> length s \<and> drop (length s - 2) s = ''+1'')"

definition resolve :: "ValidLength \<Rightarrow> (string, int) dict \<Rightarrow> int result" where
  "resolve v scalars =
     (if is_row v then Inl ValueError
      else case vl_expr v of
        None \<Rightarrow> Inl AttributeError
      | Some (EInt n) \<Rightarrow> Inr n
      | Some (EStr s) \<Rightarrow>
          (if ends_plus_one s
           then bindr (dict_get scalars (take (length s - 2) s)) (\<lambda>x. Inr (x + 1))
           else dict_get scalars s))"

record TensorValue =
  tv_vid :: "int option"
  tv_name :: string
  tv_shape :: "int list"
  tv_dtype :: DType
  tv_strides :: "int list"
  tv_storage_id :: int
  tv_offset :: int
  tv_valid_length :: "ValidLength option"

definition numel :: "TensorValue \<Rightarrow> int" where
  "numel tv = prodl (tv_shape tv)"

definition nbytes :: "TensorValue \<Rightarrow> int" where
  "nbytes tv = numel tv * dt_size (tv_dtype tv)"

text \<open>\<^verbatim>\<open>_row_major_strides\<close>: the innermost stride is 1, each outer one the next times its extent.\<close>

fun row_major_strides :: "int list \<Rightarrow> int list" where
  "row_major_strides [] = []"
| "row_major_strides [d] = [1]"
| "row_major_strides (d # e # ds) =
     (let ss = row_major_strides (e # ds) in (hd ss * e) # ss)"

text \<open>\<^verbatim>\<open>is_contiguous\<close>: the loop over the reversed dimensions with its running product.\<close>

fun contiguous_loop :: "(int \<times> int) list \<Rightarrow> int \<Rightarrow> bool" where
  "contiguous_loop [] expected = True"
| "contiguous_loop ((d, s) # rest) expected =
     (if d \<noteq> 1 \<and> s \<noteq> expected then False else contiguous_loop rest (expected * d))"

definition is_contiguous :: "TensorValue \<Rightarrow> bool" where
  "is_contiguous tv = contiguous_loop (zip (rev (tv_shape tv)) (rev (tv_strides tv))) 1"

text \<open>The squeeze path of \<^verbatim>\<open>view\<close>: strides of the kept dimensions, unit dimensions filled in.\<close>

fun assign_strides :: "int list \<Rightarrow> int list \<Rightarrow> int list result" where
  "assign_strides [] kept = Inr []"
| "assign_strides (d # ds) kept =
     (if d \<noteq> 1
      then (case kept of [] \<Rightarrow> Inl StopIteration
            | s # rest \<Rightarrow> bindr (assign_strides ds rest) (\<lambda>ss. Inr (s # ss)))
      else bindr (assign_strides ds kept) (\<lambda>ss. Inr (0 # ss)))"

fun fill_unit_strides :: "int list \<Rightarrow> int list" where
  "fill_unit_strides [] = []"
| "fill_unit_strides (s # ss) =
     (let r = fill_unit_strides ss
      in (if s = 0 then (case r of [] \<Rightarrow> 1 | x # _ \<Rightarrow> x) else s) # r)"

definition tv_view :: "TensorValue \<Rightarrow> string \<Rightarrow> int list \<Rightarrow> TensorValue result" where
  "tv_view tv name new_shape =
     (if prodl (tv_shape tv) \<noteq> prodl new_shape then Inl ValueError
      else
        let old_kept = filter (\<lambda>(d, s). d \<noteq> 1) (zip (tv_shape tv) (tv_strides tv)) in
        if map fst old_kept = filter (\<lambda>d. d \<noteq> 1) new_shape
        then bindr (assign_strides new_shape (map snd old_kept)) (\<lambda>ss.
          Inr (tv\<lparr>tv_vid := None, tv_name := name, tv_shape := new_shape,
                 tv_strides := fill_unit_strides ss, tv_valid_length := None\<rparr>))
        else if \<not> is_contiguous tv then Inl ValueError
        else Inr (tv\<lparr>tv_vid := None, tv_name := name, tv_shape := new_shape,
                    tv_strides := row_major_strides new_shape, tv_valid_length := None\<rparr>))"

text \<open>\<^verbatim>\<open>xs[:-2] + (xs[-1], xs[-2])\<close> on a list of at least two elements.\<close>

definition swap_last2 :: "'a list \<Rightarrow> 'a list" where
  "swap_last2 xs = take (length xs - 2) xs @ [xs ! (length xs - 1), xs ! (length xs - 2)]"

text \<open>A view holds as many strides as dimensions wherever the code builds one.\<close>

definition transposed :: "TensorValue \<Rightarrow> string \<Rightarrow> TensorValue result" where
  "transposed tv name =
     (if length (tv_shape tv) < 2 then Inl ValueError
      else if length (tv_strides tv) < 2 then Inl IndexError
      else Inr (tv\<lparr>tv_vid := None, tv_name := name, tv_shape := swap_last2 (tv_shape tv),
                  tv_strides := swap_last2 (tv_strides tv), tv_valid_length := None\<rparr>))"

section \<open>Regions\<close>

datatype hi_bound = HInt int | HSym string | HRow ValidLength | HNone

record Region =
  reg_storage_id :: int
  reg_view :: TensorValue
  reg_boxes :: "(int \<times> hi_bound) list"
  reg_indirect_table :: "TensorValue option"
  reg_indirect_axis :: int

definition plain_region :: "TensorValue \<Rightarrow> (int \<times> hi_bound) list \<Rightarrow> Region" where
  "plain_region v bs =
     \<lparr>reg_storage_id = tv_storage_id v, reg_view = v, reg_boxes = bs,
      reg_indirect_table = None, reg_indirect_axis = -1\<rparr>"

definition region_whole :: "TensorValue \<Rightarrow> Region" where
  "region_whole v = plain_region v (map (\<lambda>d. (0, HInt d)) (tv_shape v))"

text \<open>The upper bound \<^verbatim>\<open>valid.expr\<close> puts in a box.\<close>

definition expr_bound :: "ValidLength \<Rightarrow> hi_bound" where
  "expr_bound v =
     (case vl_expr v of None \<Rightarrow> HNone | Some (EInt n) \<Rightarrow> HInt n | Some (EStr s) \<Rightarrow> HSym s)"

definition boxes_on_axis :: "int list \<Rightarrow> int \<Rightarrow> hi_bound \<Rightarrow> (int \<times> hi_bound) list" where
  "boxes_on_axis sh axis h =
     map (\<lambda>(i, d). (0, if int i = axis then h else HInt d)) (zip [0..<length sh] sh)"

definition region_prefix :: "TensorValue \<Rightarrow> int \<Rightarrow> ValidLength \<Rightarrow> Region" where
  "region_prefix v axis valid =
     plain_region v (boxes_on_axis (tv_shape v) axis
       (if is_row valid then HRow valid else expr_bound valid))"

text \<open>
  \<^verbatim>\<open>Region.indirect\<close> stores \<^verbatim>\<open>valid.expr\<close> even for a per-row length, whose expression is
  \<^verbatim>\<open>None\<close> (the bound \<^const>\<open>HNone\<close>).
\<close>

definition region_indirect ::
  "TensorValue \<Rightarrow> TensorValue \<Rightarrow> int \<Rightarrow> ValidLength option \<Rightarrow> Region result" where
  "region_indirect v table axis valid =
     (if \<not> (0 \<le> axis \<and> axis < int (length (tv_shape v))) then Inl AssertionError
      else
        let bs = (case valid of
                    None \<Rightarrow> map (\<lambda>d. (0, HInt d)) (tv_shape v)
                  | Some vl \<Rightarrow> boxes_on_axis (tv_shape v) axis (expr_bound vl))
        in Inr ((plain_region v bs)\<lparr>reg_indirect_table := Some table,
                                     reg_indirect_axis := axis\<rparr>))"

definition region_tile :: "TensorValue \<Rightarrow> (int \<times> hi_bound) list \<Rightarrow> Region result" where
  "region_tile v bs =
     (if length bs = length (tv_shape v) then Inr (plain_region v bs) else Inl AssertionError)"

text \<open>\<^verbatim>\<open>resolved_boxes\<close>: symbolic bounds resolved against the runtime scalars.\<close>

definition resolved_boxes :: "Region \<Rightarrow> (string, int) dict \<Rightarrow> (int \<times> int option) list result" where
  "resolved_boxes r scalars =
     mapr (\<lambda>((lo, hi), extent).
        case hi of
          HInt n \<Rightarrow> Inr (lo, Some n)
        | HNone \<Rightarrow> Inr (lo, None)
        | HRow _ \<Rightarrow> Inr (lo, Some extent)
        | HSym s \<Rightarrow>
            bindr (mk_ValidLength (Some (EStr s)) None ''positions'') (\<lambda>vl.
            bindr (resolve vl scalars) (\<lambda>n. Inr (lo, Some (min n extent)))))
       (zip (reg_boxes r) (tv_shape (reg_view r)))"

definition hi_eff :: "hi_bound \<Rightarrow> int \<Rightarrow> int" where
  "hi_eff h extent = (case h of HInt n \<Rightarrow> min n extent | _ \<Rightarrow> extent)"

text \<open>The accumulation loop of \<^verbatim>\<open>storage_span\<close> over (box, stride, extent) triples.\<close>

fun span_loop :: "((int \<times> hi_bound) \<times> int \<times> int) list \<Rightarrow> int \<Rightarrow> int \<Rightarrow> int \<times> int" where
  "span_loop [] lo_addr hi_addr = (lo_addr, hi_addr)"
| "span_loop (((lo, hi), stride, extent) # rest) lo_addr hi_addr =
     (let h = hi_eff hi extent;
          (c0, c1) = (if h > lo then (lo * stride, (h - 1) * stride) else (0, 0))
      in span_loop rest (lo_addr + min c0 c1) (hi_addr + max c0 c1))"

definition storage_span :: "Region \<Rightarrow> int \<times> int" where
  "storage_span r =
     (let v = reg_view r in
      case reg_indirect_table r of
        Some _ \<Rightarrow> (tv_offset v, tv_offset v + max (prodl (tv_shape v) - 1) 0)
      | None \<Rightarrow>
          (case span_loop (zip (reg_boxes r) (zip (tv_strides v) (tv_shape v)))
                  (tv_offset v) (tv_offset v)
           of (lo, hi) \<Rightarrow> (lo, max lo hi)))"

definition overlaps :: "Region \<Rightarrow> Region \<Rightarrow> bool" where
  "overlaps r1 r2 =
     (if reg_storage_id r1 \<noteq> reg_storage_id r2 then False
      else case storage_span r1 of (a0, a1) \<Rightarrow> case storage_span r2 of (b0, b1) \<Rightarrow>
        a0 \<le> b1 \<and> b0 \<le> a1)"

section \<open>Operators and hazards\<close>

text \<open>
  Attribute and parameter values.  A Python float is carried symbolically (a literal, or the
  value of \<^verbatim>\<open>n ** -0.5\<close>): the compiler stores floats and never computes with them.
\<close>

datatype pyfloat = FLit int int | FRsqrt int

text \<open>
  \<^term>\<open>FLit m e\<close> is the float of the decimal literal \<open>m * 10 ^ e\<close>.  The \<^verbatim>\<open>numerical_contract\<close>
  dictionary of an operator is documentation text that no pass reads; it is not a field here.
\<close>

datatype pyval = VInt int | VStr string | VBool bool | VFloat pyfloat | VNone

type_synonym attrs = "(string, pyval) dict"

record Operator =
  opid :: int
  op_kind :: string
  op_inputs :: "string list"
  op_outputs :: "string list"
  op_attributes :: attrs
  op_read_regions :: "Region list"
  op_write_regions :: "Region list"
  op_source_location :: string

datatype hazard_kind = HAZARD_RAW | HAZARD_WAR | HAZARD_WAW

record Hazard =
  hz_kind :: hazard_kind
  hz_producer :: int
  hz_consumer :: int
  hz_storage_id :: int

definition mk_Hazard :: "hazard_kind \<Rightarrow> int \<Rightarrow> int \<Rightarrow> int \<Rightarrow> Hazard" where
  "mk_Hazard k p c s =
     \<lparr>hz_kind = k, hz_producer = p, hz_consumer = c, hz_storage_id = s\<rparr>"

definition region_conflicts ::
  "hazard_kind \<Rightarrow> Operator \<Rightarrow> Operator \<Rightarrow> Region list \<Rightarrow> Region list \<Rightarrow> Hazard list" where
  "region_conflicts k u v rs ss =
     concat (map (\<lambda>r. concat (map (\<lambda>s.
        if overlaps r s then [mk_Hazard k (opid u) (opid v) (reg_storage_id r)] else []) ss)) rs)"

definition pair_hazards :: "Operator \<Rightarrow> Operator \<Rightarrow> Hazard list" where
  "pair_hazards u v =
     region_conflicts HAZARD_RAW u v (op_write_regions u) (op_read_regions v) @
     region_conflicts HAZARD_WAR u v (op_read_regions u) (op_write_regions v) @
     region_conflicts HAZARD_WAW u v (op_write_regions u) (op_write_regions v)"

fun all_hazards :: "Operator list \<Rightarrow> Hazard list" where
  "all_hazards [] = []"
| "all_hazards (u # vs) = concat (map (pair_hazards u) vs) @ all_hazards vs"

fun dedupe_loop :: "Hazard list \<Rightarrow> Hazard list \<Rightarrow> Hazard list" where
  "dedupe_loop [] seen = []"
| "dedupe_loop (h # hs) seen =
     (if h \<in> set seen then dedupe_loop hs seen else h # dedupe_loop hs (h # seen))"

definition dedupe_hazards :: "Hazard list \<Rightarrow> Hazard list" where
  "dedupe_hazards hs = dedupe_loop hs []"

definition compute_hazards :: "Operator list \<Rightarrow> Hazard list" where
  "compute_hazards ops = dedupe_hazards (all_hazards ops)"

section \<open>What a view index and a region denote\<close>

text \<open>
  The specification side: the storage address of a view index, the indices a region covers under a
  valuation of its symbolic bounds, and the storage addresses it can touch.  The position axis of
  an indirect region is looked up in a run-time table, so such a region can touch every index of
  its view.
\<close>

definition addr :: "TensorValue \<Rightarrow> int list \<Rightarrow> int" where
  "addr v idx = tv_offset v + dot idx (tv_strides v)"

definition wf_view :: "TensorValue \<Rightarrow> bool" where
  "wf_view v = (length (tv_strides v) = length (tv_shape v))"

definition valuation :: "(hi_bound \<Rightarrow> int) \<Rightarrow> bool" where
  "valuation \<rho> = (\<forall>n. \<rho> (HInt n) = n)"

definition box_idx :: "(hi_bound \<Rightarrow> int) \<Rightarrow> (int \<times> hi_bound) list \<Rightarrow> int list \<Rightarrow> int list \<Rightarrow> bool" where
  "box_idx \<rho> bs sh idx =
     list_all2 (\<lambda>((lo, h), e) i. lo \<le> i \<and> i < min (\<rho> h) e) (zip bs sh) idx"

definition region_idx :: "(hi_bound \<Rightarrow> int) \<Rightarrow> Region \<Rightarrow> int list \<Rightarrow> bool" where
  "region_idx \<rho> r idx =
     (case reg_indirect_table r of
        None \<Rightarrow> box_idx \<rho> (reg_boxes r) (tv_shape (reg_view r)) idx
      | Some _ \<Rightarrow> idx_in (tv_shape (reg_view r)) idx)"

definition region_addrs :: "(hi_bound \<Rightarrow> int) \<Rightarrow> Region \<Rightarrow> int set" where
  "region_addrs \<rho> r = addr (reg_view r) ` {idx. region_idx \<rho> r idx}"

definition wf_region :: "Region \<Rightarrow> bool" where
  "wf_region r = (wf_view (reg_view r)
     \<and> (reg_indirect_table r = None \<longrightarrow> length (reg_boxes r) = length (tv_shape (reg_view r)))
     \<and> (reg_indirect_table r \<noteq> None \<longrightarrow> is_contiguous (reg_view r)))"

section \<open>Views\<close>

lemma contiguous_dot:
  assumes "contiguous_loop (zip (rev sh) (rev st)) e" "length st = length sh" "idx_in sh idx"
  shows "dot idx st = e * flat sh idx"
  using assms
proof (induction sh arbitrary: st idx e rule: rev_induct)
  case Nil
  then show ?case by simp
next
  case (snoc d ds)
  from snoc.prems(2) obtain ss s where st: "st = ss @ [s]" "length ss = length ds"
    by (metis length_append_singleton length_Suc_conv_rev)
  from snoc.prems(3) obtain js j where idx: "idx = js @ [j]" "length js = length ds"
    by (metis idx_in_length length_append_singleton length_Suc_conv_rev)
  from snoc.prems(3) idx have in1: "idx_in ds js" and j: "0 \<le> j" "j < d"
    by (auto simp: idx_in_append)
  from snoc.prems(1) st have c: "d = 1 \<or> s = e" and
    loop: "contiguous_loop (zip (rev ds) (rev ss)) (e * d)"
    by (auto split: if_splits)
  from snoc.IH [OF loop st(2) in1] have "dot js ss = e * d * flat ds js" .
  moreover have "j * s = e * j" using c j by auto
  ultimately show ?case
    using st idx by (simp add: dot_append flat_snoc algebra_simps)
qed

lemma contiguous_addr:
  assumes "is_contiguous v" "wf_view v" "idx_in (tv_shape v) idx"
  shows "addr v idx = tv_offset v + flat (tv_shape v) idx"
  using contiguous_dot [of "tv_shape v" "tv_strides v" 1 idx] assms
  by (simp add: addr_def is_contiguous_def wf_view_def)

lemma length_row_major [simp]: "length (row_major_strides sh) = length sh"
  by (induction sh rule: row_major_strides.induct) (auto simp: Let_def)

lemma row_major_dot:
  "idx_in sh idx \<Longrightarrow> dot idx (row_major_strides sh) = flat sh idx"
  and row_major_hd: "sh \<noteq> [] \<Longrightarrow> hd (row_major_strides sh) = prodl (tl sh)"
proof (induction sh arbitrary: idx rule: row_major_strides.induct)
  case 1
  { case 1 then show ?case by simp next case 2 then show ?case by simp }
next
  case (2 d)
  { case 1 then show ?case by (auto simp: idx_in_Cons1)
  next case 2 then show ?case by simp }
next
  case (3 d e ds)
  have hd: "hd (row_major_strides (e # ds)) = prodl ds" using "3.IH"(2) by simp
  { case 1
    then obtain i "is" where "idx = i # is" "idx_in (e # ds) is"
      by (subst (asm) idx_in_Cons1) auto
    with "3.IH"(1) [of "is"] hd show ?case
      by (simp add: Let_def algebra_simps)
  next
    case 2
    from hd show ?case by (simp add: Let_def mult.commute) }
qed

lemma row_major_contiguous_addr:
  assumes "tv_strides v = row_major_strides (tv_shape v)" "idx_in (tv_shape v) idx"
  shows "addr v idx = tv_offset v + flat (tv_shape v) idx"
  using assms by (simp add: addr_def row_major_dot)

text \<open>Dropping unit dimensions changes neither the linear position nor the address.\<close>

definition keep_dims :: "int list \<Rightarrow> 'a list \<Rightarrow> 'a list" where
  "keep_dims sh xs = map snd (filter (\<lambda>(d, x). d \<noteq> 1) (zip sh xs))"

lemma keep_dims_simps [simp]:
  "keep_dims [] xs = []" "keep_dims sh [] = []"
  "keep_dims (d # ds) (x # xs) = (if d \<noteq> 1 then x # keep_dims ds xs else keep_dims ds xs)"
  by (simp_all add: keep_dims_def)

lemma prodl_filter_units: "prodl (filter (\<lambda>d. d \<noteq> 1) sh) = prodl sh"
  by (induction sh) auto

lemma idx_in_keep: "idx_in sh idx \<Longrightarrow> idx_in (filter (\<lambda>d. d \<noteq> 1) sh) (keep_dims sh idx)"
  by (induction sh arbitrary: idx) (auto simp: idx_in_Cons1)

lemma flat_keep:
  "idx_in sh idx \<Longrightarrow> flat (filter (\<lambda>d. d \<noteq> 1) sh) (keep_dims sh idx) = flat sh idx"
  by (induction sh arbitrary: idx) (auto simp: idx_in_Cons1 prodl_filter_units)

lemma dot_keep:
  assumes "idx_in sh idx" "length st = length sh"
  shows "dot (keep_dims sh idx) (keep_dims sh st) = dot idx st"
  using assms
proof (induction sh arbitrary: idx st)
  case Nil
  then show ?case by simp
next
  case (Cons d ds)
  then obtain s ss i "is" where "st = s # ss" "idx = i # is"
    by (cases st; cases idx) auto
  with Cons show ?case by auto
qed

lemma length_fill_unit [simp]: "length (fill_unit_strides ss) = length ss"
  by (induction ss) (auto simp: Let_def)

lemma assign_strides_length:
  "assign_strides sh ks = Inr ss \<Longrightarrow> length ss = length sh"
  by (induction sh arbitrary: ks ss) (auto simp: result_simps split: if_splits list.splits)

lemma assign_strides_keep:
  assumes "assign_strides sh ks = Inr ss" "length ks = length (filter (\<lambda>d. d \<noteq> 1) sh)"
    "0 \<notin> set ks"
  shows "keep_dims sh (fill_unit_strides ss) = ks"
  using assms
  by (induction sh arbitrary: ks ss)
     (auto simp: result_simps Let_def split: if_splits list.splits)

lemma assign_strides_ok:
  "length ks = length (filter (\<lambda>d. d \<noteq> 1) sh) \<Longrightarrow> \<exists>ss. assign_strides sh ks = Inr ss"
proof (induction sh arbitrary: ks)
  case Nil
  then show ?case by simp
next
  case (Cons d ds)
  show ?case
  proof (cases "d = 1")
    case True
    with Cons.prems Cons.IH [of ks] show ?thesis by auto
  next
    case False
    with Cons.prems obtain s ks' where ks: "ks = s # ks'" by (cases ks) auto
    with Cons.prems False Cons.IH [of ks'] show ?thesis by auto
  qed
qed

lemma old_kept_fst:
  "length sh = length st \<Longrightarrow>
   map fst (filter (\<lambda>(d, s). d \<noteq> 1) (zip sh st)) = filter (\<lambda>d. d \<noteq> 1) sh"
  by (induction sh st rule: list_induct2) auto

lemma old_kept_snd: "map snd (filter (\<lambda>(d, s). d \<noteq> 1) (zip sh st)) = keep_dims sh st"
  by (simp add: keep_dims_def)

lemma length_keep_dims:
  "length sh = length st \<Longrightarrow> length (keep_dims sh st) = length (filter (\<lambda>d. d \<noteq> 1) sh)"
  by (induction sh st rule: list_induct2) auto

lemma view_squeeze_addr:
  assumes wf: "wf_view v" and nz: "0 \<notin> set (keep_dims (tv_shape v) (tv_strides v))"
    and eq: "filter (\<lambda>d. d \<noteq> 1) (tv_shape v) = filter (\<lambda>d. d \<noteq> 1) sh"
    and ss: "assign_strides sh (keep_dims (tv_shape v) (tv_strides v)) = Inr ss"
    and idx: "idx_in (tv_shape v) idx" "idx_in sh idx'"
    and flat: "flat (tv_shape v) idx = flat sh idx'"
  shows "dot idx (tv_strides v) = dot idx' (fill_unit_strides ss)"
proof -
  let ?ks = "keep_dims (tv_shape v) (tv_strides v)"
  have "length ?ks = length (filter (\<lambda>d. d \<noteq> 1) (tv_shape v))"
    using wf by (simp add: wf_view_def length_keep_dims)
  then have keep: "keep_dims sh (fill_unit_strides ss) = ?ks"
    using assign_strides_keep [OF ss _ nz] eq by simp
  have "keep_dims (tv_shape v) idx = keep_dims sh idx'"
    using flat_inj [OF idx_in_keep [OF idx(1)]] idx_in_keep [OF idx(2)] flat_keep [OF idx(1)]
      flat_keep [OF idx(2)] flat eq by simp
  then have "dot (keep_dims (tv_shape v) idx) ?ks = dot (keep_dims sh idx') (keep_dims sh (fill_unit_strides ss))"
    by (simp add: keep)
  with dot_keep [OF idx(1)] dot_keep [OF idx(2), of "fill_unit_strides ss"] wf
    assign_strides_length [OF ss]
  show ?thesis by (simp add: wf_view_def)
qed


lemma tv_view_cases:
  assumes "tv_view v n sh = Inr v'" "wf_view v"
  obtains
    (squeeze) ss where "filter (\<lambda>d. d \<noteq> 1) (tv_shape v) = filter (\<lambda>d. d \<noteq> 1) sh"
      "assign_strides sh (keep_dims (tv_shape v) (tv_strides v)) = Inr ss"
      "v' = v\<lparr>tv_vid := None, tv_name := n, tv_shape := sh,
              tv_strides := fill_unit_strides ss, tv_valid_length := None\<rparr>"
  | (contiguous) "is_contiguous v"
      "v' = v\<lparr>tv_vid := None, tv_name := n, tv_shape := sh,
              tv_strides := row_major_strides sh, tv_valid_length := None\<rparr>"
  using assms
  by (auto simp: tv_view_def Let_def result_simps wf_view_def old_kept_fst old_kept_snd
           split: if_splits)

lemma tv_view_frame:
  assumes "tv_view v n sh = Inr v'" "wf_view v"
  shows "tv_shape v' = sh" "tv_offset v' = tv_offset v" "tv_storage_id v' = tv_storage_id v"
    "tv_dtype v' = tv_dtype v" "wf_view v'" "tv_name v' = n"
  using assms(1,2)
  by (auto elim!: tv_view_cases simp: wf_view_def dest!: assign_strides_length)

lemma row_major_inj:
  assumes "tv_strides v = row_major_strides (tv_shape v)"
    and "idx_in (tv_shape v) a" "idx_in (tv_shape v) b" "addr v a = addr v b"
  shows "a = b"
  using assms by (auto simp: row_major_contiguous_addr intro: flat_inj)

text \<open>
  C1: Reshaping a view is layout exact.  Whenever \<^verbatim>\<open>TensorValue.view\<close> accepts a new shape, an
  index of the new view and an index of the old one at the same row-major position denote the
  same storage address, provided no dimension longer than 1 has stride 0.
\<close>

theorem view_layout_exact:
  assumes "tv_view v n sh = Inr v'" and "wf_view v"
    and "0 \<notin> set (keep_dims (tv_shape v) (tv_strides v))"
    and "idx_in (tv_shape v) idx" and "idx_in sh idx'"
    and "flat (tv_shape v) idx = flat sh idx'"
  shows "addr v' idx' = addr v idx"
  using assms(1,2)
proof (cases rule: tv_view_cases)
  case (squeeze ss)
  from view_squeeze_addr [OF assms(2,3) squeeze(1,2) assms(4-6)] squeeze(3)
  show ?thesis by (simp add: addr_def)
next
  case contiguous
  with contiguous_addr [OF contiguous(1) assms(2,4)] row_major_dot [OF assms(5)] assms(6)
  show ?thesis by (simp add: addr_def)
qed

definition demo_tv :: "int list \<Rightarrow> int list \<Rightarrow> int \<Rightarrow> TensorValue" where
  "demo_tv sh st off = \<lparr>tv_vid = Some 0, tv_name = ''t'', tv_shape = sh, tv_dtype = F32,
     tv_strides = st, tv_storage_id = 7, tv_offset = off, tv_valid_length = None\<rparr>"

theorem view_layout_exact_witness:
  "\<exists>v'. tv_view (demo_tv [2, 1, 3] [12, 6, 2] 5) ''u'' [2, 3] = Inr v'
      \<and> addr v' [1, 2] = addr (demo_tv [2, 1, 3] [12, 6, 2] 5) [1, 0, 2]"
proof -
  let ?v = "demo_tv [2, 1, 3] [12, 6, 2] 5"
  obtain v' where v': "tv_view ?v ''u'' [2, 3] = Inr v'"
    by (simp add: tv_view_def demo_tv_def)
  have "addr v' [1, 2] = addr ?v [1, 0, 2]"
    by (rule view_layout_exact [OF v']) (simp_all add: demo_tv_def wf_view_def)
  with v' show ?thesis by blast
qed

text \<open>
  The stride-0 side condition is needed: the squeeze path overwrites a stride of 0 even on a
  dimension it keeps, so a broadcast view comes back with another layout.
\<close>

lemma view_broadcast_not_exact:
  "\<exists>v'. tv_view (demo_tv [2, 1, 3] [3, 3, 0] 0) ''u'' [2, 3] = Inr v'
      \<and> addr v' [0, 2] \<noteq> addr (demo_tv [2, 1, 3] [3, 3, 0] 0) [0, 0, 2]"
  by (simp add: tv_view_def demo_tv_def addr_def)

lemma swap_last2_snoc [simp]: "swap_last2 (xs @ [a, b]) = xs @ [b, a]"
  by (simp add: swap_last2_def nth_append)

lemma length_ge2_snoc: "2 \<le> length xs \<Longrightarrow> \<exists>ys a b. xs = ys @ [a, b]"
  by (rule exI [of _ "take (length xs - 2) xs"], rule exI [of _ "xs ! (length xs - 2)"],
      rule exI [of _ "xs ! (length xs - 1)"])
     (simp add: list_eq_iff_nth_eq nth_append, auto simp: nth_Cons split: nat.split
       intro: arg_cong [where f = "(!) xs"])

lemma transposed_addr:
  assumes "transposed v n = Inr v'" and "wf_view v" and "length idx = length (tv_shape v)"
  shows "addr v' (swap_last2 idx) = addr v idx"
proof -
  from assms(1) have two: "2 \<le> length (tv_shape v)" "2 \<le> length (tv_strides v)"
    and v': "v' = v\<lparr>tv_vid := None, tv_name := n, tv_shape := swap_last2 (tv_shape v),
                    tv_strides := swap_last2 (tv_strides v), tv_valid_length := None\<rparr>"
    by (auto simp: transposed_def split: if_splits)
  obtain ii i j where idx: "idx = ii @ [i, j]"
    using length_ge2_snoc [of idx] two assms(3) by auto
  obtain ss s t where st: "tv_strides v = ss @ [s, t]"
    using length_ge2_snoc [OF two(2)] by auto
  have "length ii = length ss" using assms(2,3) idx st by (simp add: wf_view_def)
  then show ?thesis using v' idx st by (simp add: addr_def dot_append)
qed


section \<open>Overlap of regions\<close>

lemma hi_eff_le: "valuation \<rho> \<Longrightarrow> min (\<rho> h) e \<le> hi_eff h e"
  by (cases h) (auto simp: hi_eff_def valuation_def)

lemma mult_between:
  fixes a b i s :: int
  assumes "a \<le> i" "i \<le> b"
  shows "min (a * s) (b * s) \<le> i * s \<and> i * s \<le> max (a * s) (b * s)"
proof (cases "0 \<le> s")
  case True
  with assms have "a * s \<le> i * s" "i * s \<le> b * s" by (auto intro: mult_right_mono)
  then show ?thesis by auto
next
  case False
  with assms have "b * s \<le> i * s" "i * s \<le> a * s" by (auto intro: mult_right_mono_neg)
  then show ?thesis by auto
qed

lemma span_loop_bounds:
  assumes "valuation \<rho>" "length bs = length sh" "length st = length sh"
    and "box_idx \<rho> bs sh idx" "span_loop (zip bs (zip st sh)) a b = (l, h)"
  shows "l \<le> a + dot idx st \<and> b + dot idx st \<le> h"
  using assms(2-)
proof (induction bs arbitrary: sh st idx a b)
  case Nil
  then show ?case by (simp add: box_idx_def)
next
  case (Cons bx bs)
  obtain lo hb where bx: "bx = (lo, hb)" by force
  from Cons.prems obtain e sh' s st' where sh: "sh = e # sh'" "st = s # st'"
    by (cases sh; cases st) auto
  from Cons.prems sh bx obtain i ii where idx: "idx = i # ii" "lo \<le> i" "i < min (\<rho> hb) e"
    "box_idx \<rho> bs sh' ii"
    by (auto simp: box_idx_def list_all2_Cons1)
  let ?h = "hi_eff hb e"
  have i: "i \<le> ?h - 1" and ne: "lo < ?h"
    using idx hi_eff_le [OF assms(1), of hb e] by auto
  let ?c = "min (lo * s) ((?h - 1) * s)" and ?d = "max (lo * s) ((?h - 1) * s)"
  have "span_loop (zip bs (zip st' sh')) (a + ?c) (b + ?d) = (l, h)"
    using Cons.prems(4) sh bx ne by (simp add: Let_def)
  from Cons.IH [OF _ _ idx(4) this] Cons.prems sh
  have "l \<le> a + ?c + dot ii st'" "b + ?d + dot ii st' \<le> h" by auto
  with mult_between [OF idx(2) i, of s] idx sh show ?case by auto
qed

lemma region_span_bounds:
  assumes "valuation \<rho>" "wf_region r" "a \<in> region_addrs \<rho> r"
  shows "fst (storage_span r) \<le> a \<and> a \<le> snd (storage_span r)"
proof (cases "reg_indirect_table r")
  case None
  obtain l h where sp: "span_loop (zip (reg_boxes r) (zip (tv_strides (reg_view r)) (tv_shape (reg_view r))))
      (tv_offset (reg_view r)) (tv_offset (reg_view r)) = (l, h)" by force
  from assms(3) None obtain idx where "a = addr (reg_view r) idx"
    "box_idx \<rho> (reg_boxes r) (tv_shape (reg_view r)) idx"
    by (auto simp: region_addrs_def region_idx_def)
  with span_loop_bounds [OF assms(1) _ _ _ sp] assms(2) None sp show ?thesis
    by (auto simp: wf_region_def wf_view_def addr_def storage_span_def le_max_iff_disj)
next
  case (Some t)
  with assms(3) obtain idx where idx: "a = addr (reg_view r) idx" "idx_in (tv_shape (reg_view r)) idx"
    by (auto simp: region_addrs_def region_idx_def)
  with contiguous_addr [of "reg_view r"] assms(2) Some
  have "a = tv_offset (reg_view r) + flat (tv_shape (reg_view r)) idx"
    by (auto simp: wf_region_def)
  with flat_bounds [OF idx(2)] Some show ?thesis by (auto simp: storage_span_def Let_def)
qed

text \<open>
  C2: Overlap testing never misses a conflict: when two regions of one storage can touch a common
  element address, under any value of the symbolic bounds, \<^verbatim>\<open>Region.overlaps\<close> answers true.
  (An indirect region must have a contiguous view; see \<open>indirect_strided_missed\<close>.)
\<close>

theorem overlaps_sound:
  assumes "valuation \<rho>" and "wf_region r" and "wf_region s"
    and "reg_storage_id r = reg_storage_id s"
    and "a \<in> region_addrs \<rho> r" and "a \<in> region_addrs \<rho> s"
  shows "overlaps r s"
  using region_span_bounds [OF assms(1,2,5)] region_span_bounds [OF assms(1,3,6)] assms(4)
  by (auto simp: overlaps_def split: prod.split)

theorem overlaps_sound_witness:
  "overlaps (plain_region (demo_tv [2, 3] [3, 1] 0) [(0, HInt 2), (1, HInt 2)])
            (plain_region (demo_tv [3, 2] [1, 3] 0) [(1, HSym ''p+1''), (0, HInt 1)])"
proof (rule overlaps_sound [where \<rho> = "\<lambda>h. case h of HInt n \<Rightarrow> n | _ \<Rightarrow> 3" and a = 1])
  show "1 \<in> region_addrs (\<lambda>h. case h of HInt n \<Rightarrow> n | _ \<Rightarrow> 3)
      (plain_region (demo_tv [2, 3] [3, 1] 0) [(0, HInt 2), (1, HInt 2)])"
    unfolding region_addrs_def
    by (rule image_eqI [where x = "[0, 1]"])
       (simp_all add: region_idx_def plain_region_def box_idx_def addr_def demo_tv_def)
  show "1 \<in> region_addrs (\<lambda>h. case h of HInt n \<Rightarrow> n | _ \<Rightarrow> 3)
      (plain_region (demo_tv [3, 2] [1, 3] 0) [(1, HSym ''p+1''), (0, HInt 1)])"
    unfolding region_addrs_def
    by (rule image_eqI [where x = "[1, 0]"])
       (simp_all add: region_idx_def plain_region_def box_idx_def addr_def demo_tv_def)
qed (simp_all add: valuation_def wf_region_def wf_view_def plain_region_def demo_tv_def)

text \<open>
  The documentation calls the bounding interval exact for dense layouts.  It is not: two disjoint
  column tiles of one row-major matrix are reported as overlapping.
\<close>

lemma column_tiles_overlap:
  "overlaps (plain_region (demo_tv [2, 4] [4, 1] 0) [(0, HInt 2), (0, HInt 2)])
            (plain_region (demo_tv [2, 4] [4, 1] 0) [(0, HInt 2), (2, HInt 4)])
   \<and> region_addrs (\<lambda>h. case h of HInt n \<Rightarrow> n | _ \<Rightarrow> 0)
       (plain_region (demo_tv [2, 4] [4, 1] 0) [(0, HInt 2), (0, HInt 2)]) \<inter>
     region_addrs (\<lambda>h. case h of HInt n \<Rightarrow> n | _ \<Rightarrow> 0)
       (plain_region (demo_tv [2, 4] [4, 1] 0) [(0, HInt 2), (2, HInt 4)]) = {}"
  by (auto simp: overlaps_def storage_span_def plain_region_def demo_tv_def hi_eff_def
      region_addrs_def region_idx_def box_idx_def addr_def list_all2_Cons1) presburger

text \<open>
  The indirect span ignores the strides, so for a view that is not contiguous it is smaller than
  what the region can touch: the overlap with a plain write to the last row is missed.
\<close>

lemma indirect_strided_missed:
  "\<exists>r s a. region_indirect (demo_tv [3, 2] [8, 1] 0) (demo_tv [1, 1] [1, 1] 0) 0 None = Inr r
     \<and> region_tile (demo_tv [3, 2] [8, 1] 0) [(2, HInt 3), (0, HInt 2)] = Inr s
     \<and> a \<in> region_addrs (\<lambda>h. case h of HInt n \<Rightarrow> n | _ \<Rightarrow> 0) r
     \<and> a \<in> region_addrs (\<lambda>h. case h of HInt n \<Rightarrow> n | _ \<Rightarrow> 0) s
     \<and> \<not> overlaps r s"
proof -
  let ?v = "demo_tv [3, 2] [8, 1] 0"
  let ?r = "(plain_region ?v [(0, HInt 3), (0, HInt 2)])
      \<lparr>reg_indirect_table := Some (demo_tv [1, 1] [1, 1] 0), reg_indirect_axis := 0\<rparr>"
  let ?s = "plain_region ?v [(2, HInt 3), (0, HInt 2)]"
  have "16 \<in> region_addrs (\<lambda>h. case h of HInt n \<Rightarrow> n | _ \<Rightarrow> 0) ?r"
    unfolding region_addrs_def
    by (rule image_eqI [where x = "[2, 0]"])
       (simp_all add: region_idx_def plain_region_def addr_def demo_tv_def)
  moreover have "16 \<in> region_addrs (\<lambda>h. case h of HInt n \<Rightarrow> n | _ \<Rightarrow> 0) ?s"
    unfolding region_addrs_def
    by (rule image_eqI [where x = "[2, 0]"])
       (simp_all add: region_idx_def plain_region_def box_idx_def addr_def demo_tv_def)
  moreover have "\<not> overlaps ?r ?s"
    by (simp add: overlaps_def storage_span_def plain_region_def demo_tv_def hi_eff_def)
  moreover have "region_indirect ?v (demo_tv [1, 1] [1, 1] 0) 0 None = Inr ?r"
    by (simp add: region_indirect_def demo_tv_def)
  moreover have "region_tile ?v [(2, HInt 3), (0, HInt 2)] = Inr ?s"
    by (simp add: region_tile_def demo_tv_def)
  ultimately show ?thesis by blast
qed

section \<open>Hazards\<close>

lemma overlaps_sym: "overlaps r s = overlaps s r"
  by (auto simp: overlaps_def split: prod.split)

lemma set_dedupe_loop: "set (dedupe_loop hs seen) = set hs - set seen"
  by (induction hs arbitrary: seen) auto

lemma distinct_dedupe_loop: "distinct (dedupe_loop hs seen)"
  by (induction hs arbitrary: seen) (auto simp: set_dedupe_loop)

definition conflict_on :: "hazard_kind \<Rightarrow> Operator \<Rightarrow> Operator \<Rightarrow> int \<Rightarrow> bool" where
  "conflict_on k u v sid =
     (case k of
        HAZARD_RAW \<Rightarrow> \<exists>r \<in> set (op_write_regions u). \<exists>s \<in> set (op_read_regions v).
          overlaps r s \<and> reg_storage_id r = sid
      | HAZARD_WAR \<Rightarrow> \<exists>r \<in> set (op_read_regions u). \<exists>s \<in> set (op_write_regions v).
          overlaps r s \<and> reg_storage_id r = sid
      | HAZARD_WAW \<Rightarrow> \<exists>r \<in> set (op_write_regions u). \<exists>s \<in> set (op_write_regions v).
          overlaps r s \<and> reg_storage_id r = sid)"

lemma set_region_conflicts:
  "h \<in> set (region_conflicts k u v rs ss) \<longleftrightarrow>
     (\<exists>r \<in> set rs. \<exists>s \<in> set ss. overlaps r s \<and> h = mk_Hazard k (opid u) (opid v) (reg_storage_id r))"
  by (auto simp: region_conflicts_def split: if_splits)

lemma mk_Hazard_inject [simp]:
  "mk_Hazard k p c s = mk_Hazard k' p' c' s' \<longleftrightarrow> k = k' \<and> p = p' \<and> c = c' \<and> s = s'"
  by (simp add: mk_Hazard_def)

lemma ex_hazard_kind: "(\<exists>k. P k) \<longleftrightarrow> P HAZARD_RAW \<or> P HAZARD_WAR \<or> P HAZARD_WAW"
  by (metis hazard_kind.exhaust)

lemma pair_hazards_iff:
  "h \<in> set (pair_hazards u v) \<longleftrightarrow>
     (\<exists>k sid. conflict_on k u v sid \<and> h = mk_Hazard k (opid u) (opid v) sid)"
  unfolding ex_hazard_kind pair_hazards_def set_append Un_iff set_region_conflicts conflict_on_def
    hazard_kind.case by blast

lemma all_hazards_iff:
  "h \<in> set (all_hazards ops) \<longleftrightarrow>
     (\<exists>i j. i < j \<and> j < length ops \<and> h \<in> set (pair_hazards (ops ! i) (ops ! j)))"
proof (induction ops)
  case Nil
  then show ?case by simp
next
  case (Cons u vs)
  have "h \<in> set (all_hazards (u # vs)) \<longleftrightarrow>
      (\<exists>j < length vs. h \<in> set (pair_hazards u (vs ! j))) \<or>
      (\<exists>i j. i < j \<and> j < length vs \<and> h \<in> set (pair_hazards (vs ! i) (vs ! j)))"
    using Cons by (auto simp: in_set_conv_nth) (metis nth_mem)+
  also have "\<dots> \<longleftrightarrow> (\<exists>i j. i < j \<and> j < length (u # vs) \<and>
      h \<in> set (pair_hazards ((u # vs) ! i) ((u # vs) ! j)))" (is "?L \<longleftrightarrow> ?R")
  proof
    assume ?L
    then show ?R
      by (elim disjE exE conjE) (metis Suc_less_eq length_Cons nth_Cons_0 nth_Cons_Suc zero_less_Suc)+
  next
    assume ?R
    then obtain i j where ij: "i < j" "j < length (u # vs)"
      "h \<in> set (pair_hazards ((u # vs) ! i) ((u # vs) ! j))" by blast
    then obtain j' where "j = Suc j'" by (cases j) auto
    with ij show ?L by (cases i) auto
  qed
  finally show ?case .
qed

lemma compute_hazards_iff:
  "h \<in> set (compute_hazards ops) \<longleftrightarrow>
     (\<exists>i j k sid. i < j \<and> j < length ops \<and> conflict_on k (ops ! i) (ops ! j) sid
        \<and> h = mk_Hazard k (opid (ops ! i)) (opid (ops ! j)) sid)"
  by (auto simp: compute_hazards_def dedupe_hazards_def set_dedupe_loop all_hazards_iff pair_hazards_iff)

text \<open>
  C3: Hazard analysis is exact at operator granularity: \<^verbatim>\<open>compute_hazards\<close> lists the hazard of kind
  \<open>k\<close> from operator \<open>u\<close> to operator \<open>v\<close> on a storage exactly when \<open>u\<close> stands before \<open>v\<close> in program
  order and their regions conflict that way, and it lists every hazard once.
\<close>

theorem compute_hazards_exact:
  "distinct (compute_hazards ops)
   \<and> (mk_Hazard k p c sid \<in> set (compute_hazards ops) \<longleftrightarrow>
       (\<exists>i j. i < j \<and> j < length ops \<and> opid (ops ! i) = p \<and> opid (ops ! j) = c
              \<and> conflict_on k (ops ! i) (ops ! j) sid))"
  unfolding compute_hazards_iff
  by (auto simp: compute_hazards_def dedupe_hazards_def distinct_dedupe_loop)

end
