(* ===== verification/Task_IR.thy ===== *)
theory Task_IR
  imports Operator_IR
begin

text \<open>
  The task IR of \<^verbatim>\<open>compiler/task_ir.py\<close>: regular tile grids with their task-id decoding, and task
  families.  The lemmas show that the task ids of a domain are exactly the positions of its tile
  grid and that the tiles partition the domain's elements.
\<close>

section \<open>Tile domains\<close>

record TileDomain =
  td_dims :: "(int \<times> int) list"

definition mk_domain :: "(int \<times> int) list \<Rightarrow> TileDomain" where
  "mk_domain ds = \<lparr>td_dims = ds\<rparr>"

definition task_grid :: "TileDomain \<Rightarrow> int list result" where
  "task_grid d = mapr (\<lambda>(e, t). py_floordiv (e + t - 1) t) (td_dims d)"

definition task_count :: "TileDomain \<Rightarrow> int result" where
  "task_count d = bindr (task_grid d) (\<lambda>grid. Inr (prodl grid))"

definition extent :: "TileDomain \<Rightarrow> int list" where
  "extent d = map fst (td_dims d)"

text \<open>The decoding loop of \<^verbatim>\<open>coords\<close>, from the innermost grid dimension outwards.\<close>

fun coords_loop :: "int list \<Rightarrow> int \<Rightarrow> int list \<Rightarrow> (int list \<times> int) result" where
  "coords_loop [] rm out = Inr (out, rm)"
| "coords_loop (g # gs) rm out =
     bindr (py_mod rm g) (\<lambda>m. bindr (py_floordiv rm g) (\<lambda>q. coords_loop gs q (m # out)))"

definition coords :: "TileDomain \<Rightarrow> int \<Rightarrow> int list result" where
  "coords d task_id =
     bindr (task_grid d) (\<lambda>grid.
     bindr (coords_loop (rev grid) task_id []) (\<lambda>(out, rm).
       if rm \<noteq> 0 then bindr (task_count d) (\<lambda>_. Inl IndexError) else Inr out))"

definition box :: "TileDomain \<Rightarrow> int \<Rightarrow> (int \<times> int) list result" where
  "box d task_id =
     bindr (coords d task_id) (\<lambda>cs.
       Inr (map (\<lambda>((e, t), c). let lo = c * t in (lo, min (lo + t) e)) (zip (td_dims d) cs)))"

section \<open>Task families\<close>

definition TASK_CONTRACT :: string where
  "TASK_CONTRACT = ''block-local-finite-reentrant''"

type_synonym region_fn = "int list \<Rightarrow> Region list result"

record TaskFamily =
  fam_id :: string
  fam_kind :: string
  fam_op :: Operator
  fam_domain :: TileDomain
  fam_inputs :: "string list"
  fam_outputs :: "string list"
  fam_params :: attrs
  fam_threads :: int
  fam_scratch_bytes :: int
  fam_read_regions :: "region_fn option"
  fam_write_regions :: "region_fn option"
  fam_completion_contract :: string

definition fam_task_count :: "TaskFamily \<Rightarrow> int result" where
  "fam_task_count f = task_count (fam_domain f)"

definition fam_coords :: "TaskFamily \<Rightarrow> int \<Rightarrow> int list result" where
  "fam_coords f t = coords (fam_domain f) t"

definition fam_box :: "TaskFamily \<Rightarrow> int \<Rightarrow> (int \<times> int) list result" where
  "fam_box f t = box (fam_domain f) t"

definition fam_reads :: "TaskFamily \<Rightarrow> int \<Rightarrow> Region list result" where
  "fam_reads f t =
     (case fam_read_regions f of None \<Rightarrow> Inr [] | Some rf \<Rightarrow> bindr (fam_coords f t) rf)"

definition fam_writes :: "TaskFamily \<Rightarrow> int \<Rightarrow> Region list result" where
  "fam_writes f t =
     (case fam_write_regions f of None \<Rightarrow> Inr [] | Some wfn \<Rightarrow> bindr (fam_coords f t) wfn)"

section \<open>Well-formed domains and their grids\<close>

text \<open>
  A domain is well formed when every tile size is positive and every extent non-negative; then the
  grid is the list of rounded-up quotients.
\<close>

definition wf_domain :: "TileDomain \<Rightarrow> bool" where
  "wf_domain d = (\<forall>(e, t) \<in> set (td_dims d). 0 < t \<and> 0 \<le> e)"

definition grid :: "TileDomain \<Rightarrow> int list" where
  "grid d = map (\<lambda>(e, t). (e + t - 1) div t) (td_dims d)"

definition ntasks :: "TileDomain \<Rightarrow> int" where
  "ntasks d = prodl (grid d)"

lemma task_grid_ok [simp]: "wf_domain d \<Longrightarrow> task_grid d = Inr (grid d)"
  unfolding task_grid_def grid_def
  by (rule mapr_ok_pure) (auto simp: wf_domain_def py_floordiv_def)

lemma task_count_ok [simp]: "wf_domain d \<Longrightarrow> task_count d = Inr (ntasks d)"
  by (simp add: task_count_def ntasks_def)

lemma task_grid_zero_tile: "(e, 0) \<in> set (td_dims d) \<Longrightarrow> task_grid d = Inl ZeroDivisionError"
proof -
  have "(e, 0) \<in> set ds \<Longrightarrow> mapr (\<lambda>(e, t). py_floordiv (e + t - 1) t) ds = Inl ZeroDivisionError" for ds
  proof (induction ds)
    case (Cons x ds)
    show ?case
    proof (cases "snd x = 0")
      case True
      then show ?thesis by (cases x) (simp add: py_floordiv_def)
    next
      case False
      with Cons have "(e, 0) \<in> set ds" by auto
      with Cons.IH False show ?thesis by (cases x) (simp add: py_floordiv_def)
    qed
  qed simp
  then show "(e, 0) \<in> set (td_dims d) \<Longrightarrow> task_grid d = Inl ZeroDivisionError"
    by (simp add: task_grid_def)
qed

lemma grid_nonneg: "wf_domain d \<Longrightarrow> \<forall>g \<in> set (grid d). 0 \<le> g"
  by (auto simp: grid_def wf_domain_def pos_imp_zdiv_nonneg_iff split: prod.splits)

lemma ntasks_nonneg: "wf_domain d \<Longrightarrow> 0 \<le> ntasks d"
  by (simp add: ntasks_def prodl_nonneg grid_nonneg)

lemma length_grid [simp]: "length (grid d) = length (td_dims d)"
  by (simp add: grid_def)

section \<open>Decoding task ids\<close>

lemma prodl_zero_iff: "prodl xs = 0 \<longleftrightarrow> 0 \<in> set xs"
  by (induction xs) auto

text \<open>On a grid without a zero the loop computes the row-major digits of the task id.\<close>

lemma coords_loop_value:
  assumes "\<forall>g \<in> set gs. 0 < g"
  shows "coords_loop (rev gs) k out = Inr (unflat gs (k mod prodl gs) @ out, k div prodl gs)"
  using assms
proof (induction gs arbitrary: k out rule: rev_induct)
  case Nil
  then show ?case by simp
next
  case (snoc g gs)
  have g: "0 < g" using snoc.prems by simp
  have "coords_loop (rev (gs @ [g])) k out = coords_loop (rev gs) (k div g) (k mod g # out)"
    using g by (simp add: py_mod_def py_floordiv_def)
  also have "\<dots> = Inr (unflat gs (k div g mod prodl gs) @ k mod g # out, k div g div prodl gs)"
    using snoc by simp
  also have "k div g mod prodl gs = k mod (prodl gs * g) div g"
    using g snoc.prems by (simp add: mod_mult_div prodl_pos)
  finally have "coords_loop (rev (gs @ [g])) k out =
      Inr (unflat gs (k mod (prodl gs * g) div g) @ k mod g # out, k div g div prodl gs)" .
  moreover have "unflat (gs @ [g]) (k mod (prodl gs * g)) =
      unflat gs (k mod (prodl gs * g) div g) @ [k mod g]"
    using g snoc.prems prodl_pos [of gs]
    by (subst unflat_snoc) (simp_all add: mod_mod_cancel)
  moreover have "k div g div prodl gs = k div (prodl gs * g)"
    using snoc.prems prodl_pos [of gs] by (simp add: mult.commute zdiv_zmult2_eq)
  ultimately show ?case by simp
qed


lemma coords_value:
  assumes "wf_domain d" "\<forall>g \<in> set (grid d). 0 < g"
  shows "coords d k =
     (if 0 \<le> k \<and> k < ntasks d then Inr (unflat (grid d) k) else Inl IndexError)"
proof -
  have pos: "0 < ntasks d" using assms(2) by (simp add: ntasks_def prodl_pos)
  have q: "k div ntasks d = 0 \<longleftrightarrow> 0 \<le> k \<and> k < ntasks d"
    using pos by (auto simp: zdiv_eq_0_iff)
  show ?thesis
    using assms pos q coords_loop_value [of "grid d" k "[]"]
    by (auto simp: coords_def ntasks_def)
qed

lemma coords_loop_zero:
  "0 \<in> set gs \<Longrightarrow> coords_loop gs k out = Inl ZeroDivisionError"
  by (induction gs arbitrary: k out) (auto simp: py_mod_def py_floordiv_def)

lemma coords_empty:
  assumes "wf_domain d" "0 \<in> set (grid d)"
  shows "coords d k = Inl ZeroDivisionError"
  using assms by (simp add: coords_def coords_loop_zero)

lemma ntasks_pos_iff: "wf_domain d \<Longrightarrow> 0 < ntasks d \<longleftrightarrow> (\<forall>g \<in> set (grid d). 0 < g)"
  using grid_nonneg [of d] ntasks_nonneg [of d] prodl_zero_iff [of "grid d"]
  by (auto simp: ntasks_def order_less_le prodl_pos)

lemma coords_ok:
  assumes "wf_domain d" "0 \<le> k" "k < ntasks d"
  shows "coords d k = Inr (unflat (grid d) k)"
  using assms coords_value [of d k] ntasks_pos_iff [of d] by auto

lemma coords_Inr_iff:
  assumes "wf_domain d"
  shows "coords d k = Inr cs \<longleftrightarrow> 0 \<le> k \<and> k < ntasks d \<and> cs = unflat (grid d) k"
proof (cases "0 < ntasks d")
  case True
  with assms coords_value [of d k] ntasks_pos_iff [of d] show ?thesis by auto
next
  case False
  then have "0 \<in> set (grid d)"
    using ntasks_nonneg [OF assms] prodl_zero_iff [of "grid d"] by (simp add: ntasks_def)
  with coords_empty [OF assms] False show ?thesis by auto
qed

lemma coords_in_grid:
  assumes "wf_domain d" "coords d k = Inr cs"
  shows "idx_in (grid d) cs"
  using assms coords_Inr_iff [of d k cs] ntasks_pos_iff [of d] unflat_in [of "grid d" k]
  by (auto simp: ntasks_def)

text \<open>
  C4: Task-id decoding is a bijection.  For a well-formed domain with at least one task, decoding
  succeeds exactly on the ids \<open>0 .. task_count - 1\<close> and raises \<^verbatim>\<open>IndexError\<close> on every other
  integer; the decoded coordinates lie in the grid, distinct ids decode to distinct coordinates,
  and every grid position is decoded from its row-major id.
\<close>

theorem coords_bijection:
  assumes "wf_domain d" and "task_count d = Inr n" and "0 < n"
  shows "(\<forall>k. coords d k = (if 0 \<le> k \<and> k < n then Inr (unflat (grid d) k) else Inl IndexError))
    \<and> bij_betw (\<lambda>k. unflat (grid d) k) {0..<n} {cs. idx_in (grid d) cs}"
proof
  have n: "n = ntasks d" using assms by simp
  have pos: "\<forall>g \<in> set (grid d). 0 < g" using assms n ntasks_pos_iff by blast
  show "\<forall>k. coords d k = (if 0 \<le> k \<and> k < n then Inr (unflat (grid d) k) else Inl IndexError)"
    using coords_value [OF assms(1) pos] n by simp
  show "bij_betw (\<lambda>k. unflat (grid d) k) {0..<n} {cs. idx_in (grid d) cs}"
  proof (rule bij_betw_byWitness [where f' = "flat (grid d)"])
    show "\<forall>k \<in> {0..<n}. flat (grid d) (unflat (grid d) k) = k"
      using flat_unflat [OF pos] n by (simp add: ntasks_def)
    show "\<forall>cs \<in> {cs. idx_in (grid d) cs}. unflat (grid d) (flat (grid d) cs) = cs"
      by (simp add: unflat_flat)
    show "unflat (grid d) ` {0..<n} \<subseteq> {cs. idx_in (grid d) cs}"
      using unflat_in [OF pos] n by (auto simp: ntasks_def)
    show "flat (grid d) ` {cs. idx_in (grid d) cs} \<subseteq> {0..<n}"
      using flat_bounds [of "grid d"] n by (auto simp: ntasks_def)
  qed
qed

theorem coords_bijection_witness:
  "coords (mk_domain [(5, 2), (40, 16)]) 8 = Inr [2, 2]
   \<and> coords (mk_domain [(5, 2), (40, 16)]) 9 = Inl IndexError
   \<and> bij_betw (\<lambda>k. unflat [3, 3] k) {0..<9} {cs. idx_in [3, 3] cs}"
proof -
  let ?d = "mk_domain [(5, 2), (40, 16)]"
  have g: "grid ?d = [3, 3]" by (simp add: grid_def mk_domain_def)
  have wf: "wf_domain ?d" by (simp add: wf_domain_def mk_domain_def)
  have c: "task_count ?d = Inr 9" using wf g by (simp add: ntasks_def)
  from coords_bijection [OF wf c] g show ?thesis by simp
qed

section \<open>Tiles partition the domain\<close>

definition in_box :: "(int \<times> int) list \<Rightarrow> int list \<Rightarrow> bool" where
  "in_box b x = list_all2 (\<lambda>(lo, hi) i. lo \<le> i \<and> i < hi) b x"

definition tile_box :: "(int \<times> int) list \<Rightarrow> int list \<Rightarrow> (int \<times> int) list" where
  "tile_box dims cs = map (\<lambda>((e, t), c). (c * t, min (c * t + t) e)) (zip dims cs)"

lemma tile_box_simps [simp]:
  "tile_box [] cs = []" "tile_box dims [] = []"
  "tile_box ((e, t) # dims) (c # cs) = (c * t, min (c * t + t) e) # tile_box dims cs"
  by (simp_all add: tile_box_def)

lemma in_box_simps [simp]:
  "in_box [] x \<longleftrightarrow> x = []" "in_box b [] \<longleftrightarrow> b = []"
  "in_box ((lo, hi) # b) (i # x) \<longleftrightarrow> lo \<le> i \<and> i < hi \<and> in_box b x"
  by (auto simp: in_box_def)

lemma box_value:
  assumes "wf_domain d" "0 \<le> k" "k < ntasks d"
  shows "box d k = Inr (tile_box (td_dims d) (unflat (grid d) k))"
  using coords_ok [OF assms]
  by (simp add: box_def tile_box_def Let_def)

lemma ceil_div_bound:
  fixes e t i :: int
  assumes "0 < t" "0 \<le> i" "i < e"
  shows "0 \<le> i div t \<and> i div t < (e + t - 1) div t"
proof -
  have "i div t + 1 = (i + t) div t" using assms(1) by (simp add: div_add_self2)
  also have "\<dots> \<le> (e + t - 1) div t" using assms by (intro zdiv_mono1) auto
  finally show ?thesis using assms by (simp add: pos_imp_zdiv_nonneg_iff)
qed

lemma tile_of_element:
  fixes t c i e :: int
  assumes "0 < t" "i < e"
  shows "c * t \<le> i \<and> i < min (c * t + t) e \<longleftrightarrow> c = i div t"
proof
  assume l: "c * t \<le> i \<and> i < min (c * t + t) e"
  have "i = c * t + (i - c * t)" "0 \<le> i - c * t" "i - c * t < t" using l by auto
  then show "c = i div t"
    by (metis assms(1) add.commute div_pos_pos_trivial div_mult_self3 less_irrefl add.left_neutral add.right_neutral)
next
  assume "c = i div t"
  then have "i = c * t + i mod t" by simp
  moreover have "0 \<le> i mod t" "i mod t < t" using assms(1) by auto
  ultimately show "c * t \<le> i \<and> i < min (c * t + t) e" using assms(2) by auto
qed

lemma tile_box_unique:
  assumes "\<forall>(e, t) \<in> set dims. 0 < t" "idx_in (map fst dims) x" "length cs = length dims"
  shows "in_box (tile_box dims cs) x \<longleftrightarrow> cs = map (\<lambda>((e, t), i). i div t) (zip dims x)"
  using assms
proof (induction dims arbitrary: cs x)
  case Nil
  then show ?case by simp
next
  case (Cons et dims)
  obtain e t where et: "et = (e, t)" by force
  from Cons.prems et obtain i x' where x: "x = i # x'" "0 \<le> i" "i < e" "idx_in (map fst dims) x'"
    by (auto simp: idx_in_Cons1)
  from Cons.prems obtain c cs' where cs: "cs = c # cs'" "length cs' = length dims"
    by (cases cs) auto
  from Cons.IH [OF _ x(4) cs(2)] Cons.prems(1) tile_of_element [of t i e c] et x cs
  show ?case by auto
qed

lemma div_coords_in_grid:
  assumes "\<forall>(e, t) \<in> set dims. 0 < t" "idx_in (map fst dims) x"
  shows "idx_in (map (\<lambda>(e, t). (e + t - 1) div t) dims) (map (\<lambda>((e, t), i). i div t) (zip dims x))"
  using assms by (induction dims arbitrary: x) (auto simp: idx_in_Cons1 ceil_div_bound)

lemma tile_coords_in_grid:
  assumes "wf_domain d" "idx_in (extent d) x"
  shows "idx_in (grid d) (map (\<lambda>((e, t), i). i div t) (zip (td_dims d) x))"
  unfolding grid_def
  by (rule div_coords_in_grid) (use assms in \<open>auto simp: wf_domain_def extent_def\<close>)

lemma box_cover:
  assumes "wf_domain d" and "idx_in (extent d) x"
  shows "\<exists>!k. 0 \<le> k \<and> k < ntasks d \<and> (\<exists>b. box d k = Inr b \<and> in_box b x)"
proof -
  let ?cs = "map (\<lambda>((e, t), i). i div t) (zip (td_dims d) x)"
  let ?k = "flat (grid d) ?cs"
  have cs: "idx_in (grid d) ?cs" by (rule tile_coords_in_grid [OF assms])
  have k: "0 \<le> ?k" "?k < ntasks d" using flat_bounds [OF cs] by (auto simp: ntasks_def)
  have tp: "\<forall>(e, t) \<in> set (td_dims d). 0 < t" using assms(1) by (auto simp: wf_domain_def)
  have uniq: "in_box (tile_box (td_dims d) (unflat (grid d) j)) x \<longleftrightarrow> unflat (grid d) j = ?cs" for j
    using tile_box_unique [OF tp, of x "unflat (grid d) j"] assms(2) by (simp add: extent_def)
  show ?thesis
  proof (rule ex1I [of _ ?k])
    show "0 \<le> ?k \<and> ?k < ntasks d \<and> (\<exists>b. box d ?k = Inr b \<and> in_box b x)"
      using k box_value [OF assms(1) k] uniq [of ?k] unflat_flat [OF cs] by simp
  next
    fix j assume j: "0 \<le> j \<and> j < ntasks d \<and> (\<exists>b. box d j = Inr b \<and> in_box b x)"
    then have "unflat (grid d) j = ?cs" using box_value [OF assms(1), of j] uniq by auto
    moreover have "flat (grid d) (unflat (grid d) j) = j"
      using flat_unflat [of "grid d" j] j ntasks_pos_iff [OF assms(1)] by (auto simp: ntasks_def)
    ultimately show "j = ?k" by metis
  qed
qed

text \<open>
  C5: The tiles partition the domain: every element index within the extents lies in the box of
  exactly one task id of the domain (no element is skipped and none is covered twice).
\<close>

theorem boxes_partition:
  assumes "wf_domain d" and "idx_in (extent d) x"
  shows "\<exists>!k. 0 \<le> k \<and> k < ntasks d \<and> (\<exists>b. box d k = Inr b \<and> in_box b x)"
  by (rule box_cover [OF assms])

theorem boxes_partition_witness:
  "\<exists>!k. 0 \<le> k \<and> k < ntasks (mk_domain [(5, 2), (40, 16)])
      \<and> (\<exists>b. box (mk_domain [(5, 2), (40, 16)]) k = Inr b \<and> in_box b [4, 33])"
  by (rule boxes_partition) (simp_all add: wf_domain_def mk_domain_def extent_def)

end
