(* ===== verification/Schedule_Phase.thy ===== *)
theory Schedule_Phase
  imports Task_IR "HOL-Library.List_Lexorder" "HOL-Library.Char_ord"
begin

text \<open>
  The phase-synchronous schedule of \<^verbatim>\<open>compiler/schedule_phase.py\<close>: one phase per recorded operator,
  the strided assignment of task ids to workers, and the run-time check of the coverage, ownership
  and barrier obligations.  The locale \<open>task_partition\<close> states what the executors rely on: the
  workers' id lists split the ids of a phase.
\<close>

section \<open>Model\<close>

record PhasePlan =
  ph_index :: int
  ph_families :: "TaskFamily list"

definition phase_task_count :: "PhasePlan \<Rightarrow> int result" where
  "phase_task_count p = bindr (mapr fam_task_count (ph_families p)) (\<lambda>ns. Inr (sum_list ns))"

fun join_plus :: "string list \<Rightarrow> string" where
  "join_plus [] = ''''"
| "join_plus [s] = s"
| "join_plus (s # t # ss) = s @ ''+'' @ join_plus (t # ss)"

definition phase_kind :: "PhasePlan \<Rightarrow> string" where
  "phase_kind p = join_plus (sorted_list_of_set (set (map fam_kind (ph_families p))))"

fun family_of_loop :: "TaskFamily list \<Rightarrow> int \<Rightarrow> TaskFamily result" where
  "family_of_loop [] t = Inl IndexError"
| "family_of_loop (f # fs) t =
     bindr (fam_task_count f) (\<lambda>n. if t < n then Inr f else family_of_loop fs (t - n))"

definition family_of :: "PhasePlan \<Rightarrow> int \<Rightarrow> TaskFamily result" where
  "family_of p t = family_of_loop (ph_families p) t"

fun local_id_loop :: "TaskFamily list \<Rightarrow> int \<Rightarrow> int result" where
  "local_id_loop [] t = Inl IndexError"
| "local_id_loop (f # fs) t =
     bindr (fam_task_count f) (\<lambda>n. if t < n then Inr t else local_id_loop fs (t - n))"

definition local_id :: "PhasePlan \<Rightarrow> int \<Rightarrow> int result" where
  "local_id p t = local_id_loop (ph_families p) t"

definition worker_task_ids :: "PhasePlan \<Rightarrow> int \<Rightarrow> int \<Rightarrow> int list result" where
  "worker_task_ids p worker workers =
     bindr (phase_task_count p) (\<lambda>n. py_range worker n workers)"

record PhaseSchedule =
  ps_phases :: "PhasePlan list"
  ps_workers :: int

definition num_phases :: "PhaseSchedule \<Rightarrow> int" where
  "num_phases s = int (length (ps_phases s))"

definition total_tasks :: "PhaseSchedule \<Rightarrow> int result" where
  "total_tasks s = bindr (mapr phase_task_count (ps_phases s)) (\<lambda>ns. Inr (sum_list ns))"

text \<open>The inner loop of the coverage check: no id may be assigned twice.\<close>

fun assign_loop :: "int list \<Rightarrow> int set \<Rightarrow> int set result" where
  "assign_loop [] assigned = Inr assigned"
| "assign_loop (tid # tids) assigned =
     (if tid \<in> assigned then Inl ScheduleInvariantError
      else assign_loop tids (insert tid assigned))"

definition check_coverage :: "int \<Rightarrow> PhasePlan \<Rightarrow> unit result" where
  "check_coverage P phase =
     bindr (phase_task_count phase) (\<lambda>n.
     bindr (foldr_res (\<lambda>assigned w.
              bindr (worker_task_ids phase w P) (\<lambda>tids. assign_loop tids assigned))
             {} (urange P)) (\<lambda>assigned.
       if set (urange n) - assigned \<noteq> {} then Inl ScheduleInvariantError else Inr ()))"

definition check_barriers :: "PhaseSchedule \<Rightarrow> int \<Rightarrow> unit result" where
  "check_barriers s w =
     bindr (foldr_res (\<lambda>barriers phase.
              bindr (worker_task_ids phase w (ps_workers s)) (\<lambda>_. Inr (barriers + 1)))
             0 (ps_phases s)) (\<lambda>barriers.
       if barriers \<noteq> num_phases s then Inl ScheduleInvariantError else Inr ())"

definition check_invariants :: "PhaseSchedule \<Rightarrow> unit result" where
  "check_invariants s =
     (if ps_workers s < 1 then Inl ScheduleInvariantError
      else bindr (mapr (check_coverage (ps_workers s)) (ps_phases s)) (\<lambda>_.
           bindr (mapr (check_barriers s) (urange (ps_workers s))) (\<lambda>_. Inr ())))"

text \<open>Grouping by operator id: the insertion order of the ids and the families of each id.\<close>

definition group_step ::
  "int list \<times> (int, TaskFamily list) dict \<Rightarrow> TaskFamily \<Rightarrow> int list \<times> (int, TaskFamily list) dict"
where
  "group_step acc fam =
     (case acc of (order, by_op) \<Rightarrow>
        let k = opid (fam_op fam);
            (order, by_op) =
              (if dict_has by_op k then (order, by_op) else (order @ [k], dict_set k [] by_op));
            old = (case map_of by_op k of None \<Rightarrow> [] | Some fs \<Rightarrow> fs)
        in (order, dict_set k (old @ [fam]) by_op))"

definition group_families ::
  "TaskFamily list \<Rightarrow> int list \<times> (int, TaskFamily list) dict" where
  "group_families fams = foldl group_step ([], []) fams"

definition plan_phases :: "TaskFamily list \<Rightarrow> PhasePlan list result" where
  "plan_phases fams =
     (case group_families fams of (order, by_op) \<Rightarrow>
        mapr (\<lambda>(i, k). bindr (dict_get by_op k) (\<lambda>fs.
                Inr \<lparr>ph_index = int i, ph_families = fs\<rparr>))
          (zip [0..<length order] order))"

definition from_families :: "TaskFamily list \<Rightarrow> int \<Rightarrow> PhaseSchedule result" where
  "from_families fams workers =
     bindr (plan_phases fams) (\<lambda>phases.
       let sched = \<lparr>ps_phases = phases, ps_workers = workers\<rparr>
       in bindr (check_invariants sched) (\<lambda>_. Inr sched))"

section \<open>Strided ranges\<close>

lemma py_range_pos:
  assumes "0 < P" "0 \<le> w" "w < P" "0 \<le> n"
  shows "\<exists>ts. py_range w n P = Inr ts \<and> distinct ts \<and> set ts = {t. 0 \<le> t \<and> t < n \<and> t mod P = w}
    \<and> (\<forall>i < length ts. ts ! i = w + int i * P)"
proof -
  let ?m = "nat ((n - w + P - 1) div P)"
  let ?ts = "map (\<lambda>i. w + int i * P) [0..<?m]"
  have lt: "int i < (n - w + P - 1) div P \<longleftrightarrow> w + int i * P < n" for i
  proof -
    have "int i < (n - w + P - 1) div P \<longleftrightarrow> int i + 1 \<le> (n - w + P - 1) div P" by auto
    also have "\<dots> \<longleftrightarrow> (int i + 1) * P \<le> n - w + P - 1"
      using assms(1) by (simp add: int_le_div_iff)
    finally show ?thesis by (auto simp: algebra_simps)
  qed
  have "set ?ts = {t. 0 \<le> t \<and> t < n \<and> t mod P = w}"
  proof (intro equalityI subsetI)
    fix t assume "t \<in> set ?ts"
    then obtain i where "i < ?m" and it: "t = w + int i * P" by auto
    then have i: "t = w + int i * P" "int i < (n - w + P - 1) div P"
      by (simp_all add: zless_nat_eq_int_zless)
    then show "t \<in> {t. 0 \<le> t \<and> t < n \<and> t mod P = w}" using assms lt [of i] by auto
  next
    fix t assume t: "t \<in> {t. 0 \<le> t \<and> t < n \<and> t mod P = w}"
    then have eq: "t = w + (t div P) * P" by (auto simp: add.commute)
    have q: "0 \<le> t div P" using t assms(1) by (simp add: pos_imp_zdiv_nonneg_iff)
    then have "t = w + int (nat (t div P)) * P" using eq by simp
    moreover from this t lt [of "nat (t div P)"] have "nat (t div P) < ?m"
      by (metis (mono_tags, lifting) mem_Collect_eq zless_nat_eq_int_zless)
    ultimately show "t \<in> set ?ts" unfolding set_map
      by (intro image_eqI [of _ _ "nat (t div P)"]) simp_all
  qed
  moreover have "distinct ?ts"
    using assms(1) by (auto simp: distinct_map inj_on_def)
  ultimately show ?thesis using assms(1) by (intro exI [of _ ?ts]) (auto simp: py_range_def)
qed


section \<open>The partition contract\<close>

text \<open>
  What an executor relies on: for a well-formed phase the id lists of the workers \<open>0 .. P - 1\<close> hold
  every id of the phase once.  The law gives each worker's share; the lemmas give the whole grid.
\<close>

locale task_partition =
  fixes ok :: "'p \<Rightarrow> bool"
    and count :: "'p \<Rightarrow> int result"
    and assign :: "'p \<Rightarrow> int \<Rightarrow> int \<Rightarrow> int list result"
  assumes count_ok: "ok p \<Longrightarrow> \<exists>n \<ge> 0. count p = Inr n"
    and assign_share: "ok p \<Longrightarrow> count p = Inr n \<Longrightarrow> 0 \<le> w \<Longrightarrow> w < P \<Longrightarrow>
      \<exists>ts. assign p w P = Inr ts \<and> distinct ts \<and> set ts = {t. 0 \<le> t \<and> t < n \<and> t mod P = w}"
begin

definition share :: "'p \<Rightarrow> int \<Rightarrow> int \<Rightarrow> int list" where
  "share p w P = (case assign p w P of Inl _ \<Rightarrow> [] | Inr ts \<Rightarrow> ts)"

lemma assign_eq: "ok p \<Longrightarrow> 0 \<le> w \<Longrightarrow> w < P \<Longrightarrow> assign p w P = Inr (share p w P)"
proof -
  assume p: "ok p" and w: "0 \<le> w" "w < P"
  obtain n where n: "count p = Inr n" using count_ok [OF p] by blast
  obtain ts where "assign p w P = Inr ts" using assign_share [OF p n w] by blast
  then show ?thesis by (simp add: share_def)
qed

lemma share_set:
  assumes "ok p" "count p = Inr n" "0 \<le> w" "w < P"
  shows "distinct (share p w P) \<and> set (share p w P) = {t. 0 \<le> t \<and> t < n \<and> t mod P = w}"
proof -
  obtain ts where "assign p w P = Inr ts"
    and ts: "distinct ts" "set ts = {t. 0 \<le> t \<and> t < n \<and> t mod P = w}"
    using assign_share [OF assms] by blast
  then have "share p w P = ts" by (simp add: share_def)
  with ts show ?thesis by blast
qed

lemma shares_disjoint:
  assumes "ok p" "0 \<le> w" "w < P" "0 \<le> w'" "w' < P" "w \<noteq> w'"
  shows "set (share p w P) \<inter> set (share p w' P) = {}"
proof -
  obtain n where "count p = Inr n" using count_ok [OF assms(1)] by blast
  with share_set [OF assms(1) _ assms(2,3)] share_set [OF assms(1) _ assms(4,5)] assms(6)
  show ?thesis by auto
qed

lemma shares_distinct:
  assumes "ok p"
  shows "distinct (concat (map (\<lambda>w. share p w P) (urange P)))"
proof (rule distinct_concat_map)
  obtain n where n: "count p = Inr n" using count_ok [OF assms] by blast
  show "distinct (share p w P)" if "w \<in> set (urange P)" for w
    using share_set [OF assms n, of w P] that by simp
qed (use shares_disjoint [OF assms] in auto)

lemma shares_cover:
  assumes "ok p" "count p = Inr n" "0 < P"
  shows "set (concat (map (\<lambda>w. share p w P) (urange P))) = {0..<n}"
proof (intro equalityI subsetI)
  fix t assume "t \<in> set (concat (map (\<lambda>w. share p w P) (urange P)))"
  then show "t \<in> {0..<n}" using share_set [OF assms(1,2)] by auto
next
  fix t assume t: "t \<in> {0..<n}"
  have "0 \<le> t mod P" "t mod P < P" using assms(3) by auto
  with t share_set [OF assms(1,2), of "t mod P" P]
  show "t \<in> set (concat (map (\<lambda>w. share p w P) (urange P)))" by force
qed

lemma shares_mset:
  assumes "ok p" "count p = Inr n" "0 < P"
  shows "mset (concat (map (\<lambda>w. share p w P) (urange P))) = mset (urange n)"
  using shares_distinct [OF assms(1)] shares_cover [OF assms]
  by (metis distinct_urange set_eq_iff_mset_eq_distinct set_urange)

end

section \<open>Well-formed phases\<close>

definition wf_family :: "TaskFamily \<Rightarrow> bool" where
  "wf_family f = wf_domain (fam_domain f)"

definition wf_phase :: "PhasePlan \<Rightarrow> bool" where
  "wf_phase p = (\<forall>f \<in> set (ph_families p). wf_family f)"

definition fam_ntasks :: "TaskFamily \<Rightarrow> int" where
  "fam_ntasks f = ntasks (fam_domain f)"

definition phase_ntasks :: "PhasePlan \<Rightarrow> int" where
  "phase_ntasks p = sum_list (map fam_ntasks (ph_families p))"

lemma fam_task_count_ok [simp]: "wf_family f \<Longrightarrow> fam_task_count f = Inr (fam_ntasks f)"
  by (simp add: fam_task_count_def wf_family_def fam_ntasks_def)

lemma fam_ntasks_nonneg: "wf_family f \<Longrightarrow> 0 \<le> fam_ntasks f"
  by (simp add: wf_family_def fam_ntasks_def ntasks_nonneg)

lemma phase_task_count_ok [simp]: "wf_phase p \<Longrightarrow> phase_task_count p = Inr (phase_ntasks p)"
  unfolding phase_task_count_def wf_phase_def phase_ntasks_def
  by (subst mapr_ok_pure [where g = fam_ntasks]) auto

lemma phase_ntasks_nonneg: "wf_phase p \<Longrightarrow> 0 \<le> phase_ntasks p"
  by (auto simp: phase_ntasks_def wf_phase_def fam_ntasks_nonneg intro!: sum_list_nonneg)

interpretation phase_ids: task_partition wf_phase phase_task_count worker_task_ids
proof
  fix p :: PhasePlan
  assume "wf_phase p"
  then show "\<exists>n\<ge>0. phase_task_count p = Inr n" by (simp add: phase_ntasks_nonneg)
next
  fix p :: PhasePlan and n w P :: int
  assume "wf_phase p" "phase_task_count p = Inr n" "0 \<le> w" "w < P"
  then show "\<exists>ts. worker_task_ids p w P = Inr ts \<and> distinct ts \<and>
      set ts = {t. 0 \<le> t \<and> t < n \<and> t mod P = w}"
    using py_range_pos [of P w n] phase_ntasks_nonneg [of p] by (auto simp: worker_task_ids_def)
qed

section \<open>The invariant check\<close>

lemma assign_loop_ok:
  "distinct ts \<Longrightarrow> set ts \<inter> A = {} \<Longrightarrow> assign_loop ts A = Inr (A \<union> set ts)"
  by (induction ts arbitrary: A) auto

lemma coverage_fold:
  assumes "\<And>w. w \<in> set ws \<Longrightarrow> g w = Inr (f w)"
    and "distinct (concat (map f ws))" "set (concat (map f ws)) \<inter> A = {}"
  shows "foldr_res (\<lambda>acc w. bindr (g w) (\<lambda>tids. assign_loop tids acc)) A ws
    = Inr (A \<union> set (concat (map f ws)))"
  using assms
proof (induction ws arbitrary: A)
  case Nil
  then show ?case by simp
next
  case (Cons w ws)
  have "assign_loop (f w) A = Inr (A \<union> set (f w))"
    by (rule assign_loop_ok) (use Cons.prems in auto)
  moreover have "foldr_res (\<lambda>acc w. bindr (g w) (\<lambda>tids. assign_loop tids acc)) (A \<union> set (f w)) ws
      = Inr ((A \<union> set (f w)) \<union> set (concat (map f ws)))"
    by (rule Cons.IH) (use Cons.prems in auto)
  ultimately show ?case using Cons.prems(1) [of w] by (simp add: Un_assoc)
qed

lemma check_coverage_ok:
  assumes "wf_phase p" "0 < P"
  shows "check_coverage P p = Inr ()"
proof -
  have "foldr_res (\<lambda>acc w. bindr (worker_task_ids p w P) (\<lambda>tids. assign_loop tids acc)) {} (urange P)
      = Inr ({} \<union> set (concat (map (\<lambda>w. phase_ids.share p w P) (urange P))))"
    by (rule coverage_fold) (simp_all add: phase_ids.assign_eq phase_ids.shares_distinct assms)
  also have "set (concat (map (\<lambda>w. phase_ids.share p w P) (urange P))) = {0..<phase_ntasks p}"
    using phase_ids.shares_cover [OF assms(1) phase_task_count_ok [OF assms(1)] assms(2)] .
  finally show ?thesis using assms by (simp add: check_coverage_def)
qed

lemma barrier_fold:
  "(\<And>p. p \<in> set ps \<Longrightarrow> is_ok (g p)) \<Longrightarrow>
   foldr_res (\<lambda>b p. bindr (g p) (\<lambda>_. Inr (b + 1))) (b :: int) ps = Inr (b + int (length ps))"
proof (induction ps arbitrary: b)
  case Nil
  then show ?case by simp
next
  case (Cons p ps)
  then obtain x where "g p = Inr x" by (metis is_ok_iff list.set_intros(1))
  then show ?case using Cons by simp
qed

lemma check_barriers_ok:
  assumes "\<forall>p \<in> set (ps_phases s). wf_phase p" "0 \<le> w" "w < ps_workers s"
  shows "check_barriers s w = Inr ()"
  using assms by (simp add: check_barriers_def barrier_fold phase_ids.assign_eq num_phases_def)

lemma check_invariants_value:
  assumes "\<forall>p \<in> set (ps_phases s). wf_phase p"
  shows "check_invariants s =
    (if ps_workers s < 1 then Inl ScheduleInvariantError else Inr ())"
proof (cases "ps_workers s < 1")
  case False
  have "mapr (check_coverage (ps_workers s)) (ps_phases s) = Inr (map (\<lambda>_. ()) (ps_phases s))"
    by (rule mapr_ok_pure) (use assms False check_coverage_ok in auto)
  moreover have "mapr (check_barriers s) (urange (ps_workers s)) = Inr (map (\<lambda>_. ()) (urange (ps_workers s)))"
    by (rule mapr_ok_pure) (use assms check_barriers_ok in auto)
  ultimately show ?thesis using False by (simp add: check_invariants_def)
qed (simp add: check_invariants_def)

section \<open>Grouping families into phases\<close>

definition first_occ :: "'a list \<Rightarrow> 'a list" where
  "first_occ xs = rev (remdups (rev xs))"

lemma first_occ_snoc:
  "first_occ (xs @ [x]) = (if x \<in> set xs then first_occ xs else first_occ xs @ [x])"
  by (simp add: first_occ_def)

lemma first_occ_Nil [simp]: "first_occ [] = []"
  by (simp add: first_occ_def)

lemma set_first_occ [simp]: "set (first_occ xs) = set xs"
  by (simp add: first_occ_def)

lemma distinct_first_occ [simp]: "distinct (first_occ xs)"
  by (simp add: first_occ_def)

lemma first_occ_distinct: "distinct xs \<Longrightarrow> first_occ xs = xs"
  by (simp add: first_occ_def distinct_remdups_id)

abbreviation fam_opid :: "TaskFamily \<Rightarrow> int" where
  "fam_opid f \<equiv> opid (fam_op f)"

lemma group_families_value:
  "\<exists>by_op. group_families fams = (first_occ (map fam_opid fams), by_op)
     \<and> (\<forall>k. map_of by_op k =
           (if k \<in> fam_opid ` set fams then Some (filter (\<lambda>f. fam_opid f = k) fams) else None))"
proof (induction fams rule: rev_induct)
  case Nil
  then show ?case by (simp add: group_families_def)
next
  case (snoc f fams)
  then obtain by_op where g: "foldl group_step ([], []) fams = (first_occ (map fam_opid fams), by_op)"
    and m: "\<And>k. map_of by_op k =
           (if k \<in> fam_opid ` set fams then Some (filter (\<lambda>f. fam_opid f = k) fams) else None)"
    by (auto simp: group_families_def)
  have e: "filter (\<lambda>g. fam_opid g = fam_opid f) fams = []" if "fam_opid f \<notin> fam_opid ` set fams"
    using that by (metis (mono_tags, lifting) filter_False imageI)
  show ?case
    using g m e by (auto simp: group_families_def group_step_def dict_has_def first_occ_snoc Let_def)
qed

definition phase_list :: "TaskFamily list \<Rightarrow> PhasePlan list" where
  "phase_list fams =
     map (\<lambda>(i, k). \<lparr>ph_index = int i, ph_families = filter (\<lambda>f. fam_opid f = k) fams\<rparr>)
       (zip [0..<length (first_occ (map fam_opid fams))] (first_occ (map fam_opid fams)))"

lemma plan_phases_value: "plan_phases fams = Inr (phase_list fams)"
proof -
  obtain by_op where g: "group_families fams = (first_occ (map fam_opid fams), by_op)"
    and m: "\<And>k. k \<in> fam_opid ` set fams \<Longrightarrow> map_of by_op k = Some (filter (\<lambda>f. fam_opid f = k) fams)"
    using group_families_value [of fams] by auto
  let ?o = "first_occ (map fam_opid fams)"
  have "bindr (dict_get by_op k) (\<lambda>fs. Inr \<lparr>ph_index = int i, ph_families = fs\<rparr>) =
      Inr \<lparr>ph_index = int i, ph_families = filter (\<lambda>f. fam_opid f = k) fams\<rparr>"
    if "(i, k) \<in> set (zip [0..<length ?o] ?o)" for i k
  proof -
    from that have "k \<in> set ?o" by (rule set_zip_rightD)
    then have "dict_get by_op k = Inr (filter (\<lambda>f. fam_opid f = k) fams)" using m [of k] by (simp add: dict_get_def)
    then show ?thesis by (simp add: dict_get_def)
  qed
  then have "mapr (\<lambda>(i, k). bindr (dict_get by_op k) (\<lambda>fs. Inr \<lparr>ph_index = int i, ph_families = fs\<rparr>))
      (zip [0..<length ?o] ?o) = Inr (phase_list fams)"
    unfolding phase_list_def by (intro mapr_ok_pure) auto
  then show ?thesis by (simp add: plan_phases_def g)
qed

lemma phase_list_wf: "\<forall>f \<in> set fams. wf_family f \<Longrightarrow> \<forall>p \<in> set (phase_list fams). wf_phase p"
  by (auto simp: phase_list_def wf_phase_def)

lemma filter_opid_distinct:
  "distinct (map fam_opid fams) \<Longrightarrow> f \<in> set fams \<Longrightarrow>
   filter (\<lambda>g. fam_opid g = fam_opid f) fams = [f]"
proof (induction fams)
  case (Cons g gs)
  then have "filter (\<lambda>h. fam_opid h = fam_opid g) gs = []"
    by (metis (mono_tags, lifting) distinct.simps(2) filter_False image_set imageI list.simps(9))
  with Cons show ?case by auto
qed simp

lemma phase_list_distinct:
  assumes "distinct (map fam_opid fams)"
  shows "phase_list fams =
    map (\<lambda>(i, f). \<lparr>ph_index = int i, ph_families = [f]\<rparr>) (zip [0..<length fams] fams)"
proof (rule nth_equalityI)
  show "length (phase_list fams) = length (map (\<lambda>(i, f).
      \<lparr>ph_index = int i, ph_families = [f]\<rparr>) (zip [0..<length fams] fams))"
    using assms by (simp add: phase_list_def first_occ_distinct)
next
  fix i assume "i < length (phase_list fams)"
  then have "i < length fams" using assms by (simp add: phase_list_def first_occ_distinct)
  with assms show "phase_list fams ! i = map (\<lambda>(i, f).
      \<lparr>ph_index = int i, ph_families = [f]\<rparr>) (zip [0..<length fams] fams) ! i"
    by (simp add: phase_list_def first_occ_distinct filter_opid_distinct)
qed

lemma from_families_value:
  assumes "\<forall>f \<in> set fams. wf_family f"
  shows "from_families fams workers =
    (if workers < 1 then Inl ScheduleInvariantError
     else Inr \<lparr>ps_phases = phase_list fams, ps_workers = workers\<rparr>)"
  using check_invariants_value [of "\<lparr>ps_phases = phase_list fams, ps_workers = workers\<rparr>"]
    phase_list_wf [OF assms]
  by (simp add: from_families_def plan_phases_value Let_def)

text \<open>
  Building a phase schedule succeeds exactly for a positive worker count.  For families with
  well-formed domains \<^verbatim>\<open>PhaseSchedule.from_families\<close> raises \<^verbatim>\<open>ScheduleInvariantError\<close> when
  \<^verbatim>\<open>workers < 1\<close> and otherwise returns the phases, in the order their operators first
  appear, each holding the families of its operator; the invariant check it runs never rejects
  such a schedule.
\<close>

theorem from_families_total:
  assumes "\<forall>f \<in> set fams. wf_family f"
  shows "from_families fams workers =
    (if workers < 1 then Inl ScheduleInvariantError
     else Inr \<lparr>ps_phases = phase_list fams, ps_workers = workers\<rparr>)"
  by (rule from_families_value [OF assms])

definition demo_op :: "int \<Rightarrow> Operator" where
  "demo_op i = \<lparr>opid = i, op_kind = ''add'', op_inputs = [], op_outputs = [], op_attributes = [],
     op_read_regions = [], op_write_regions = [], op_source_location = ''demo''\<rparr>"

definition demo_fam :: "int \<Rightarrow> (int \<times> int) list \<Rightarrow> TaskFamily" where
  "demo_fam i ds = \<lparr>fam_id = ''f'', fam_kind = ''elementwise'', fam_op = demo_op i,
     fam_domain = mk_domain ds, fam_inputs = [], fam_outputs = [], fam_params = [],
     fam_threads = 256, fam_scratch_bytes = 0, fam_read_regions = None, fam_write_regions = None,
     fam_completion_contract = TASK_CONTRACT\<rparr>"

theorem from_families_total_witness:
  "from_families [demo_fam 3 [(5, 2)], demo_fam 1 [(4, 4)], demo_fam 3 [(7, 2)]] 2 =
     Inr \<lparr>ps_phases = [\<lparr>ph_index = 0, ph_families = [demo_fam 3 [(5, 2)], demo_fam 3 [(7, 2)]]\<rparr>,
                       \<lparr>ph_index = 1, ph_families = [demo_fam 1 [(4, 4)]]\<rparr>], ps_workers = 2\<rparr>"
  by (subst from_families_total)
     (simp_all add: wf_family_def demo_fam_def demo_op_def wf_domain_def mk_domain_def
        phase_list_def first_occ_def)

lemma share_position:
  assumes "wf_phase p" "phase_task_count p = Inr n" "0 < P" "0 \<le> j \<and> j < n"
  shows "nat (j div P) < length (phase_ids.share p (j mod P) P)
    \<and> phase_ids.share p (j mod P) P ! nat (j div P) = j"
proof -
  let ?w = "j mod P"
  have w: "0 \<le> ?w" "?w < P" using assms(3) by auto
  obtain ts where ts: "py_range ?w n P = Inr ts"
    and st: "set ts = {t. 0 \<le> t \<and> t < n \<and> t mod P = ?w}"
    and nth: "\<And>i. i < length ts \<Longrightarrow> ts ! i = ?w + int i * P"
    using py_range_pos [OF assms(3) w, of n] assms(4) by force
  have sh: "phase_ids.share p ?w P = ts"
    by (simp add: phase_ids.share_def worker_task_ids_def assms(2) ts)
  have "j \<in> set ts" unfolding st using assms(4) by simp
  then obtain i where i: "i < length ts" "ts ! i = j" unfolding in_set_conv_nth by blast
  have "j div P * P + ?w = ?w + int i * P" using nth [OF i(1)] i(2) by (metis div_mult_mod_eq)
  then have "j div P * P = int i * P" by linarith
  then have "j div P = int i" using assms(3) by simp
  then show ?thesis using sh i by simp
qed

text \<open>
  C6: Coverage and ownership of the strided assignment.  In a phase of \<open>n\<close> tasks the id lists of
  the workers \<open>0 .. P - 1\<close> together are a permutation of \<open>0 .. n - 1\<close>; id \<open>j\<close> belongs to worker
  \<open>j mod P\<close> and to no other, and it is the \<open>j div P\<close>-th id of that worker's list.
\<close>

theorem worker_ids_partition:
  assumes "wf_phase p" and "phase_task_count p = Inr n" and "0 < P"
  shows "\<exists>f. (\<forall>w. 0 \<le> w \<and> w < P \<longrightarrow> worker_task_ids p w P = Inr (f w))
    \<and> mset (concat (map f (urange P))) = mset (urange n)
    \<and> (\<forall>j w. 0 \<le> j \<and> j < n \<and> 0 \<le> w \<and> w < P \<longrightarrow> (j \<in> set (f w) \<longleftrightarrow> w = j mod P))
    \<and> (\<forall>j. 0 \<le> j \<and> j < n \<longrightarrow> nat (j div P) < length (f (j mod P))
          \<and> f (j mod P) ! nat (j div P) = j)"
proof -
  let ?f = "\<lambda>w. phase_ids.share p w P"
  have a: "\<forall>w. 0 \<le> w \<and> w < P \<longrightarrow> worker_task_ids p w P = Inr (?f w)"
    by (intro allI impI, elim conjE) (rule phase_ids.assign_eq [OF assms(1)])
  have b: "mset (concat (map ?f (urange P))) = mset (urange n)"
    by (rule phase_ids.shares_mset [OF assms])
  have c: "\<forall>j w. 0 \<le> j \<and> j < n \<and> 0 \<le> w \<and> w < P \<longrightarrow> (j \<in> set (?f w) \<longleftrightarrow> w = j mod P)"
  proof (intro allI impI)
    fix j w assume jw: "0 \<le> j \<and> j < n \<and> 0 \<le> w \<and> w < P"
    then have "set (?f w) = {t. 0 \<le> t \<and> t < n \<and> t mod P = w}"
      using phase_ids.share_set [OF assms(1,2)] by (elim conjE) (rule conjunct2)
    then show "j \<in> set (?f w) \<longleftrightarrow> w = j mod P" using jw by (simp only: mem_Collect_eq) metis
  qed
  have d: "\<forall>j. 0 \<le> j \<and> j < n \<longrightarrow> nat (j div P) < length (?f (j mod P))
      \<and> ?f (j mod P) ! nat (j div P) = j"
    by (intro allI impI) (rule share_position [OF assms])
  show ?thesis by (rule exI [of _ ?f]) (intro conjI a b c d)
qed

theorem worker_ids_partition_witness:
  "\<exists>f. (\<forall>w. 0 \<le> w \<and> w < 2 \<longrightarrow>
        worker_task_ids \<lparr>ph_index = 0, ph_families = [demo_fam 1 [(5, 2)]]\<rparr> w 2 = Inr (f w))
    \<and> mset (concat (map f (urange 2))) = mset (urange 3)"
proof -
  let ?p = "\<lparr>ph_index = 0, ph_families = [demo_fam 1 [(5, 2)]]\<rparr>"
  have wf: "wf_phase ?p"
    by (simp add: wf_phase_def wf_family_def demo_fam_def wf_domain_def mk_domain_def)
  have n: "phase_task_count ?p = Inr 3"
    using wf by (simp add: phase_ntasks_def fam_ntasks_def demo_fam_def ntasks_def grid_def mk_domain_def)
  from worker_ids_partition [OF wf n, of 2] show ?thesis by auto
qed

section \<open>Linear ids of a phase\<close>

definition locates :: "TaskFamily list \<Rightarrow> int \<Rightarrow> nat \<Rightarrow> int \<Rightarrow> bool" where
  "locates fs t i l = (i < length fs \<and> 0 \<le> l \<and> l < fam_ntasks (fs ! i)
     \<and> t = sum_list (map fam_ntasks (take i fs)) + l)"

lemma locates_0: "locates (f # fs) t 0 l \<longleftrightarrow> 0 \<le> l \<and> l < fam_ntasks f \<and> t = l"
  by (auto simp: locates_def)

lemma locates_Suc: "locates (f # fs) t (Suc i) l \<longleftrightarrow> locates fs (t - fam_ntasks f) i l"
  by (auto simp: locates_def)

lemma family_local_loop:
  assumes "\<forall>f \<in> set fs. wf_family f" "0 \<le> t"
  shows "if t < sum_list (map fam_ntasks fs)
    then \<exists>i l. locates fs t i l \<and> family_of_loop fs t = Inr (fs ! i) \<and> local_id_loop fs t = Inr l
    else family_of_loop fs t = Inl IndexError \<and> local_id_loop fs t = Inl IndexError"
  using assms
proof (induction fs arbitrary: t)
  case Nil
  then show ?case by simp
next
  case (Cons f fs)
  have ok: "fam_task_count f = Inr (fam_ntasks f)" using Cons.prems by simp
  have nn: "0 \<le> sum_list (map fam_ntasks fs)"
    using Cons.prems by (intro sum_list_nonneg) (auto simp: fam_ntasks_nonneg)
  show ?case
  proof (cases "t < fam_ntasks f")
    case True
    then have "locates (f # fs) t 0 t" using Cons.prems by (simp add: locates_0)
    with True nn ok show ?thesis by (auto intro!: exI [of _ "0 :: nat"] exI [of _ t])
  next
    case False
    with Cons.IH [of "t - fam_ntasks f"] Cons.prems ok show ?thesis
      by (auto simp: algebra_simps split: if_splits)
         (metis locates_Suc nth_Cons_Suc)
  qed
qed

text \<open>
  A linear task id of a phase denotes one family and one task of it: ids \<open>0 .. n - 1\<close> split into
  consecutive runs, one per family, \<^verbatim>\<open>family_of\<close> names the run and \<^verbatim>\<open>local_id\<close> the position in
  it, and both raise \<^verbatim>\<open>IndexError\<close> from \<open>n\<close> on.
\<close>

theorem family_of_local_id:
  assumes "wf_phase p" and "phase_task_count p = Inr n" and "0 \<le> t"
  shows "if t < n
    then \<exists>i l. locates (ph_families p) t i l \<and> family_of p t = Inr (ph_families p ! i)
           \<and> local_id p t = Inr l
    else family_of p t = Inl IndexError \<and> local_id p t = Inl IndexError"
  using family_local_loop [of "ph_families p" t] assms
  by (simp add: wf_phase_def family_of_def local_id_def phase_ntasks_def)

theorem family_of_local_id_witness:
  "local_id \<lparr>ph_index = 0, ph_families = [demo_fam 1 [(5, 2)], demo_fam 1 [(4, 4)]]\<rparr> 3 = Inr 0
   \<and> family_of \<lparr>ph_index = 0, ph_families = [demo_fam 1 [(5, 2)], demo_fam 1 [(4, 4)]]\<rparr> 4 = Inl IndexError"
proof -
  let ?p = "\<lparr>ph_index = 0, ph_families = [demo_fam 1 [(5, 2)], demo_fam 1 [(4, 4)]]\<rparr>"
  have wf: "wf_phase ?p"
    by (simp add: wf_phase_def wf_family_def demo_fam_def wf_domain_def mk_domain_def)
  have n: "phase_task_count ?p = Inr 4"
    using wf by (simp add: phase_ntasks_def fam_ntasks_def demo_fam_def ntasks_def grid_def mk_domain_def)
  have "family_of ?p 4 = Inl IndexError" using family_of_local_id [OF wf n, of 4] by simp
  moreover have "local_id ?p 3 = Inr 0"
    using wf by (simp add: local_id_def wf_phase_def fam_ntasks_def demo_fam_def ntasks_def grid_def mk_domain_def)
  ultimately show ?thesis by simp
qed

end
