(* ===== verification/Kahn.thy ===== *)
theory Kahn
  imports Prelude
begin

text \<open>
  The worklist of Kahn's algorithm as the schedulers and the task queue write it: successor sets
  built from predecessor sets, in-degrees that are counted down, a first-in first-out queue.  The
  locale \<open>kahn_graph\<close> states what a client has to set up; its lemmas say that the loop visits the
  vertices in dependency order, and all of them exactly when the graph has no cycle.

  The iteration order of a Python \<^verbatim>\<open>set\<close> is unspecified.  It is a parameter \<open>iter\<close>: the order in
  which the loop visits the set that belongs to a key.  Each such set is iterated once in a run.
\<close>

section \<open>Model\<close>

type_synonym 'k iter = "'k \<Rightarrow> 'k set \<Rightarrow> 'k list"

definition valid_iter :: "'k iter \<Rightarrow> bool" where
  "valid_iter iter = (\<forall>k S. finite S \<longrightarrow> distinct (iter k S) \<and> set (iter k S) = S)"

lemma valid_iterD: "valid_iter iter \<Longrightarrow> finite S \<Longrightarrow> distinct (iter k S) \<and> set (iter k S) = S"
  by (simp add: valid_iter_def)

text \<open>\<^verbatim>\<open>succ[p].add(k)\<close> for each predecessor \<^verbatim>\<open>p\<close> of \<^verbatim>\<open>k\<close>; an unknown \<^verbatim>\<open>p\<close> raises.\<close>

definition add_succ :: "'k \<Rightarrow> ('k, 'k set) dict \<Rightarrow> 'k \<Rightarrow> ('k, 'k set) dict result" where
  "add_succ k succ p = bindr (dict_get succ p) (\<lambda>S. Inr (dict_set p (insert k S) succ))"

definition add_all_succ ::
  "'k iter \<Rightarrow> ('k, 'k set) dict \<Rightarrow> ('k, 'k set) dict \<Rightarrow> ('k, 'k set) dict result" where
  "add_all_succ iter succ preds =
     foldr_res (\<lambda>succ (k, ps). foldr_res (add_succ k) succ (iter k ps)) succ preds"

definition successors ::
  "'k iter \<Rightarrow> ('k, 'k set) dict \<Rightarrow> ('k, 'k set) dict result" where
  "successors iter preds = add_all_succ iter (map (\<lambda>(k, _). (k, {})) preds) preds"

text \<open>\<^verbatim>\<open>{k: len(ps) for k, ps in preds.items()}\<close>\<close>

definition indegrees :: "('k, 'k set) dict \<Rightarrow> ('k, int) dict" where
  "indegrees preds = map (\<lambda>(k, ps). (k, int (card ps))) preds"

text \<open>The keys of in-degree zero, in dictionary order.\<close>

definition roots :: "('k, int) dict \<Rightarrow> 'k list" where
  "roots indeg = map fst (filter (\<lambda>(k, d). d = 0) indeg)"

text \<open>Counting down the successors of one vertex; a count that reaches zero is enqueued.\<close>

fun notify :: "'k list \<Rightarrow> ('k, int) dict \<Rightarrow> 'k list \<Rightarrow> (('k, int) dict \<times> 'k list) result" where
  "notify [] indeg q = Inr (indeg, q)"
| "notify (s # ss) indeg q =
     bindr (dict_get indeg s) (\<lambda>d.
       notify ss (dict_set s (d - 1) indeg) (if d - 1 = 0 then q @ [s] else q))"

text \<open>
  The loop \<^verbatim>\<open>while q\<close>.  The vertices popped so far are kept in \<open>vis\<close>; the code keeps that list
  (\<^verbatim>\<open>order\<close>) or only its length (\<^verbatim>\<open>seen\<close>).  It ends because every enqueued vertex
  uses up one positive count.
\<close>

definition positive_counts :: "('k, int) dict \<Rightarrow> nat" where
  "positive_counts d = length (filter (\<lambda>(_, n). 0 < n) d)"

lemma positive_counts_dec:
  assumes "map_of d k = Some n"
  shows "positive_counts (dict_set k (n - 1) d) + (if n - 1 = 0 then 1 else 0) = positive_counts d"
  using assms
  by (induction d) (auto simp: positive_counts_def dict_set_def split: if_splits)

lemma notify_measure:
  "notify ss indeg q = Inr (indeg', q') \<Longrightarrow>
   length q' + positive_counts indeg' = length q + positive_counts indeg"
proof (induction ss indeg q rule: notify.induct)
  case (2 s ss indeg q)
  then obtain d where d: "map_of indeg s = Some d"
    and n: "notify ss (dict_set s (d - 1) indeg) (if d - 1 = 0 then q @ [s] else q) = Inr (indeg', q')"
    by (auto simp: result_simps)
  show ?case
    using "2.IH" [OF _ n] d positive_counts_dec [OF d] by (simp split: if_splits)
qed simp

function kahn_loop ::
  "'k iter \<Rightarrow> ('k, 'k set) dict \<Rightarrow> ('k, int) dict \<Rightarrow> 'k list \<Rightarrow> 'k list \<Rightarrow> 'k list result" where
  "kahn_loop iter succ indeg [] vis = Inr vis"
| "kahn_loop iter succ indeg (k # q) vis =
     bindr (dict_get succ k) (\<lambda>S.
     bindr (notify (iter k S) indeg q) (\<lambda>st.
       kahn_loop iter succ (fst st) (snd st) (vis @ [k])))"
  by pat_completeness auto
termination
proof (relation "measure (\<lambda>(_, _, indeg, q, _). length q + positive_counts indeg)", goal_cases)
  case (2 iter succ indeg k q vis S st)
  have "notify (iter k S) indeg q = Inr (fst st, snd st)" using 2 by simp
  from notify_measure [OF this] show ?case by simp
qed simp

section \<open>Topological lists\<close>

definition topo :: "('k \<times> 'k) set \<Rightarrow> 'k list \<Rightarrow> bool" where
  "topo E xs = (\<forall>i < length xs. \<forall>a. (a, xs ! i) \<in> E \<longrightarrow> a \<in> set (take i xs))"

lemma topo_Nil [simp]: "topo E []"
  by (simp add: topo_def)

lemma topo_snoc: "topo E (xs @ [x]) \<longleftrightarrow> topo E xs \<and> {a. (a, x) \<in> E} \<subseteq> set xs"
proof
  assume t: "topo E (xs @ [x])"
  have "topo E xs" unfolding topo_def
  proof (intro allI impI)
    fix i a assume i: "i < length xs" and e: "(a, xs ! i) \<in> E"
    then have "(a, (xs @ [x]) ! i) \<in> E" by (simp add: nth_append)
    with t i have "a \<in> set (take i (xs @ [x]))" by (auto simp: topo_def)
    then show "a \<in> set (take i xs)" using i by simp
  qed
  moreover have "{a. (a, x) \<in> E} \<subseteq> set xs"
  proof
    fix a assume "a \<in> {a. (a, x) \<in> E}"
    then have "(a, (xs @ [x]) ! length xs) \<in> E" by simp
    with t have "a \<in> set (take (length xs) (xs @ [x]))" unfolding topo_def by fastforce
    then show "a \<in> set xs" by simp
  qed
  ultimately show "topo E xs \<and> {a. (a, x) \<in> E} \<subseteq> set xs" ..
next
  assume "topo E xs \<and> {a. (a, x) \<in> E} \<subseteq> set xs"
  then show "topo E (xs @ [x])" by (auto simp: topo_def nth_append less_Suc_eq)
qed

lemma topo_edge_forward:
  assumes "topo E xs" "distinct xs" "(xs ! i, xs ! j) \<in> E" "i < length xs" "j < length xs"
  shows "i < j"
proof -
  have "xs ! i \<in> set (take j xs)" using assms by (auto simp: topo_def)
  then obtain m where "m < j" "m < length xs" "xs ! m = xs ! i" by (auto simp: in_set_conv_nth)
  with assms show ?thesis by (metis nth_eq_iff_index_eq)
qed

text \<open>An edge relation that only goes forward in a numbering has no cycle.\<close>

lemma forward_acyclic:
  assumes "\<And>a b. (a, b) \<in> E \<Longrightarrow> f a < (f b :: nat)"
  shows "acyclic E"
proof (rule acyclicI, intro allI notI)
  fix x assume "(x, x) \<in> E\<^sup>+"
  moreover have "f a < f b" if "(a, b) \<in> E\<^sup>+" for a b
    using that by (induction rule: trancl_induct) (auto dest: assms)
  ultimately show False by blast
qed

definition pos_in :: "'k list \<Rightarrow> 'k \<Rightarrow> nat" where
  "pos_in xs x = length (takeWhile (\<lambda>y. y \<noteq> x) xs)"

lemma pos_in_nth: "distinct xs \<Longrightarrow> i < length xs \<Longrightarrow> pos_in xs (xs ! i) = i"
proof (induction xs arbitrary: i)
  case (Cons x xs)
  then show ?case by (cases i) (auto simp: pos_in_def)
qed simp

lemma pos_in_less: "x \<in> set xs \<Longrightarrow> pos_in xs x < length xs \<and> xs ! pos_in xs x = x"
  by (induction xs) (auto simp: pos_in_def)

lemma topo_pos:
  assumes "topo E xs" "distinct xs" "(a, b) \<in> E" "a \<in> set xs" "b \<in> set xs"
  shows "pos_in xs a < pos_in xs b"
  using topo_edge_forward [OF assms(1,2), of "pos_in xs a" "pos_in xs b"] assms(3)
    pos_in_less [OF assms(4)] pos_in_less [OF assms(5)] by simp

lemma topo_acyclic:
  assumes "topo E xs" "distinct xs" "E \<subseteq> set xs \<times> set xs"
  shows "acyclic E"
  by (rule forward_acyclic [of _ "pos_in xs"]) (use topo_pos [OF assms(1,2)] assms(3) in auto)

lemma sorted_wrt_consecutive:
  "sorted_wrt R xs \<Longrightarrow> (a, b) \<in> set (zip xs (tl xs)) \<Longrightarrow> R a b"
  by (induction xs rule: induct_list012) auto

text \<open>Neighbours in a sublist of a duplicate-free list stand in its order.\<close>

lemma filter_consecutive_pos:
  assumes "distinct xs" "(a, b) \<in> set (zip (filter P xs) (tl (filter P xs)))"
  shows "pos_in xs a < pos_in xs b"
proof -
  have "sorted_wrt (\<lambda>x y. pos_in xs x < pos_in xs y) xs"
    unfolding sorted_wrt_iff_nth_less using assms(1) by (auto simp: pos_in_nth)
  then have "sorted_wrt (\<lambda>x y. pos_in xs x < pos_in xs y) (filter P xs)"
    by (rule sorted_wrt_filter)
  then show ?thesis using assms(2) by (rule sorted_wrt_consecutive)
qed

section \<open>Building successors\<close>

definition wf_preds :: "('k, 'k set) dict \<Rightarrow> bool" where
  "wf_preds preds = (dict_wf preds
     \<and> (\<forall>(k, ps) \<in> set preds. finite ps \<and> ps \<subseteq> fst ` set preds))"

definition dep_edges :: "('k, 'k set) dict \<Rightarrow> ('k \<times> 'k) set" where
  "dep_edges preds = {(p, k). \<exists>ps. (k, ps) \<in> set preds \<and> p \<in> ps}"

lemma add_succ_fold:
  assumes "set ps \<subseteq> dom (map_of succ)"
  shows "\<exists>succ'. foldr_res (add_succ k) succ ps = Inr succ'
    \<and> map fst succ' = map fst succ
    \<and> (\<forall>x. map_of succ' x = map_option (\<lambda>S. S \<union> {k' . k' = k \<and> x \<in> set ps}) (map_of succ x))"
  using assms
proof (induction ps arbitrary: succ)
  case Nil
  then show ?case by (auto simp: map_option.identity)
next
  case (Cons p ps)
  then obtain S where S: "map_of succ p = Some S" by auto
  let ?s = "dict_set p (insert k S) succ"
  have keys: "map fst ?s = map fst succ"
    using S by (simp add: dict_set_def update_keys weak_map_of_SomeI)
       (metis fst_conv image_eqI map_of_SomeD)
  have "set ps \<subseteq> dom (map_of ?s)" using Cons.prems by auto
  from Cons.IH [OF this] obtain succ' where s': "foldr_res (add_succ k) ?s ps = Inr succ'"
    "map fst succ' = map fst ?s"
    "\<And>x. map_of succ' x = map_option (\<lambda>S. S \<union> {k' . k' = k \<and> x \<in> set ps}) (map_of ?s x)" by blast
  have "map_of succ' x = map_option (\<lambda>S. S \<union> {k' . k' = k \<and> x \<in> set (p # ps)}) (map_of succ x)" for x
    using s'(3) [of x] S by (cases "x = p") (auto cong: map_option_cong)
  moreover have "foldr_res (add_succ k) succ (p # ps) = Inr succ'"
    using s'(1) S by (simp add: add_succ_def [of k succ p] dict_get_def)
  moreover have "map fst succ' = map fst succ" using s'(2) keys by simp
  ultimately show ?case by blast
qed

lemma add_all_succ_value:
  assumes "valid_iter iter" "\<forall>(k, ps) \<in> set preds. finite ps \<and> ps \<subseteq> dom (map_of succ)"
  shows "\<exists>succ'. add_all_succ iter succ preds = Inr succ'
    \<and> map fst succ' = map fst succ
    \<and> (\<forall>x. map_of succ' x = map_option (\<lambda>S. S \<union> {k. (x, k) \<in> dep_edges preds}) (map_of succ x))"
  using assms(2)
proof (induction preds arbitrary: succ)
  case Nil
  then show ?case by (simp add: add_all_succ_def dep_edges_def map_option.identity)
next
  case (Cons kp preds)
  obtain k ps where kp: "kp = (k, ps)" by force
  have it: "set (iter k ps) = ps" using assms(1) Cons.prems kp by (auto simp: valid_iter_def)
  from add_succ_fold [of "iter k ps" succ k] it Cons.prems kp obtain s1 where
    s1: "foldr_res (add_succ k) succ (iter k ps) = Inr s1" "map fst s1 = map fst succ"
    "\<And>x. map_of s1 x = map_option (\<lambda>S. S \<union> {k' . k' = k \<and> x \<in> ps}) (map_of succ x)" by auto
  have "dom (map_of s1) = dom (map_of succ)" using s1(2) by (metis dom_map_of_conv_image_fst list.set_map)
  with Cons.IH [of s1] Cons.prems obtain s2 where
    s2: "add_all_succ iter s1 preds = Inr s2" "map fst s2 = map fst s1"
    "\<And>x. map_of s2 x = map_option (\<lambda>S. S \<union> {k. (x, k) \<in> dep_edges preds}) (map_of s1 x)" by auto
  have "{k'. (x, k') \<in> dep_edges (kp # preds)} = {k'. k' = k \<and> x \<in> ps} \<union> {k'. (x, k') \<in> dep_edges preds}" for x
    by (auto simp: dep_edges_def kp)
  then have "map_of s2 x = map_option (\<lambda>S. S \<union> {k'. (x, k') \<in> dep_edges (kp # preds)}) (map_of succ x)" for x
    by (simp add: s2(3) s1(3) option.map_comp comp_def Un_assoc)
  with s1 s2 show ?case by (simp add: add_all_succ_def kp)
qed

lemma wf_preds_finite: "wf_preds preds \<Longrightarrow> (k, ps) \<in> set preds \<Longrightarrow> finite ps"
  by (auto simp: wf_preds_def)

lemma dep_edges_in: "wf_preds preds \<Longrightarrow> dep_edges preds \<subseteq> fst ` set preds \<times> fst ` set preds"
proof (clarsimp simp: dep_edges_def, intro conjI)
  fix p k ps assume "wf_preds preds" "(k, ps) \<in> set preds" "p \<in> ps"
  then show "p \<in> fst ` set preds" "k \<in> fst ` set preds"
    by (auto simp: wf_preds_def intro: rev_image_eqI)
qed

lemma dep_edges_preds:
  assumes "wf_preds preds" "(k, ps) \<in> set preds"
  shows "{p. (p, k) \<in> dep_edges preds} = ps"
  using assms by (auto simp: dep_edges_def wf_preds_def dict_wf_def dest: eq_key_imp_eq_value)

lemma map_of_const: "map_of (map (\<lambda>(k, _). (k, c)) d) x = (if x \<in> fst ` set d then Some c else None)"
  by (induction d) auto

lemma successors_value:
  assumes "valid_iter iter" "wf_preds preds"
  shows "\<exists>succ. successors iter preds = Inr succ
    \<and> (\<forall>k \<in> fst ` set preds. map_of succ k = Some {s. (k, s) \<in> dep_edges preds})"
proof -
  have "\<forall>(k, ps) \<in> set preds. finite ps \<and> ps \<subseteq> dom (map_of (map (\<lambda>(k, _). (k, {} :: 'a set)) preds))"
    using assms(2) by (auto simp: wf_preds_def map_of_const dom_def)
  from add_all_succ_value [OF assms(1) this] show ?thesis
    by (auto simp: successors_def map_of_const)
qed

lemma map_of_indegrees:
  assumes "wf_preds preds" "k \<in> fst ` set preds"
  shows "map_of (indegrees preds) k = Some (int (card {p. (p, k) \<in> dep_edges preds}))"
proof -
  obtain ps where ps: "(k, ps) \<in> set preds" using assms(2) by auto
  then have "map_of preds k = Some ps" using assms(1) by (simp add: wf_preds_def dict_wf_def)
  then show ?thesis using dep_edges_preds [OF assms(1) ps]
    by (simp add: indegrees_def map_of_map comp_def split: option.split)
qed

section \<open>Edge sets and in-degree counts\<close>

text \<open>\<^verbatim>\<open>edges[a].add(b)\<close>; an unknown key raises.\<close>

definition add_edge ::
  "('k, 'k set) dict \<Rightarrow> 'k \<times> 'k \<Rightarrow> ('k, 'k set) dict result" where
  "add_edge es ab = (case ab of (a, b) \<Rightarrow> add_succ b es a)"

text \<open>\<^verbatim>\<open>indeg[o] += 1\<close> for every out-edge.\<close>

definition bump :: "('k, int) dict \<Rightarrow> 'k \<Rightarrow> ('k, int) dict result" where
  "bump indeg x = bindr (dict_get indeg x) (\<lambda>d. Inr (dict_set x (d + 1) indeg))"

definition count_indegrees ::
  "'k iter \<Rightarrow> ('k, 'k set) dict \<Rightarrow> ('k, int) dict result" where
  "count_indegrees iter es =
     foldr_res (\<lambda>indeg (k, outs). foldr_res bump indeg (iter k outs))
       (map (\<lambda>(k, _). (k, 0)) es) es"

lemma key_dict_init:
  "distinct (ks @ map fst d) \<Longrightarrow> foldl (\<lambda>d k. dict_set k c d) d ks = d @ map (\<lambda>k. (k, c)) ks"
proof (induction ks arbitrary: d)
  case (Cons k ks)
  then have "map_of d k = None" by (auto simp: map_of_eq_None_iff)
  then show ?case using Cons by (simp add: dict_set_fresh)
qed simp

lemma add_edge_fold:
  assumes "fst ` set ps \<subseteq> dom (map_of es)"
  shows "\<exists>es'. foldr_res add_edge es ps = Inr es' \<and> map fst es' = map fst es
    \<and> (\<forall>x. map_of es' x = map_option (\<lambda>S. S \<union> {b. (x, b) \<in> set ps}) (map_of es x))"
  using assms
proof (induction ps arbitrary: es)
  case Nil
  then show ?case by (simp add: map_option.identity)
next
  case (Cons p ps)
  obtain a b where p: "p = (a, b)" by (cases p)
  obtain es1 where e1: "add_succ b es a = Inr es1" "map fst es1 = map fst es"
    "\<And>x. map_of es1 x = map_option (\<lambda>S. S \<union> {k'. k' = b \<and> x \<in> set [a]}) (map_of es x)"
    using add_succ_fold [of "[a]" es b] Cons.prems p by auto
  have "dom (map_of es1) = dom (map_of es)" using e1(2) by (metis dom_map_of_conv_image_fst list.set_map)
  then obtain es2 where e2: "foldr_res add_edge es1 ps = Inr es2" "map fst es2 = map fst es1"
    "\<And>x. map_of es2 x = map_option (\<lambda>S. S \<union> {b. (x, b) \<in> set ps}) (map_of es1 x)"
    using Cons.IH [of es1] Cons.prems by auto
  have "{b'. (x, b') \<in> set (p # ps)} = {k'. k' = b \<and> x \<in> set [a]} \<union> {b'. (x, b') \<in> set ps}" for x
    using p by auto
  then have "map_of es2 x = map_option (\<lambda>S. S \<union> {b. (x, b) \<in> set (p # ps)}) (map_of es x)" for x
    by (simp add: e2(3) e1(3) option.map_comp comp_def Un_assoc)
  moreover have "foldr_res add_edge es (p # ps) = Inr es2" using e1(1) e2(1) p by (simp add: add_edge_def [of es])
  ultimately show ?case using e1(2) e2(2) by metis
qed

lemma bump_fold:
  assumes "set xs \<subseteq> dom (map_of d)" "distinct xs"
  shows "\<exists>d'. foldr_res bump d xs = Inr d' \<and> map fst d' = map fst d
    \<and> (\<forall>x. map_of d' x = map_option (\<lambda>n. n + (if x \<in> set xs then 1 else 0)) (map_of d x))"
  using assms
proof (induction xs arbitrary: d)
  case Nil
  then show ?case by (simp add: map_option.identity)
next
  case (Cons a xs)
  then obtain n where n: "map_of d a = Some n" by auto
  let ?d = "dict_set a (n + 1) d"
  have keys: "map fst ?d = map fst d"
    using n by (simp add: dict_set_def update_keys) (metis fst_conv image_eqI map_of_SomeD)
  have "set xs \<subseteq> dom (map_of ?d)" "distinct xs" using Cons.prems by auto
  from Cons.IH [OF this] obtain d' where d': "foldr_res bump ?d xs = Inr d'" "map fst d' = map fst ?d"
    "\<And>x. map_of d' x = map_option (\<lambda>n. n + (if x \<in> set xs then 1 else 0)) (map_of ?d x)" by blast
  have "map_of d' x = map_option (\<lambda>n. n + (if x \<in> set (a # xs) then 1 else 0)) (map_of d x)" for x
    using d'(3) [of x] n Cons.prems(2) by (auto simp: option.map_comp comp_def)
  moreover have "foldr_res bump d (a # xs) = Inr d'" using d'(1) n by (simp add: bump_def [of d a] dict_get_def)
  ultimately show ?case using d'(2) keys by metis
qed

definition in_count :: "('k \<times> 'k set) list \<Rightarrow> 'k \<Rightarrow> int" where
  "in_count es x = int (length (filter (\<lambda>(k, S). x \<in> S) es))"

lemma count_fold:
  assumes "valid_iter iter" "\<forall>(k, S) \<in> set es. finite S \<and> S \<subseteq> dom (map_of d)"
  shows "\<exists>d'. foldr_res (\<lambda>indeg (k, outs). foldr_res bump indeg (iter k outs)) d es = Inr d'
    \<and> map fst d' = map fst d \<and> (\<forall>x. map_of d' x = map_option (\<lambda>n. n + in_count es x) (map_of d x))"
  using assms(2)
proof (induction es arbitrary: d)
  case Nil
  then show ?case by (simp add: in_count_def map_option.identity)
next
  case (Cons e es)
  obtain k S where e: "e = (k, S)" by (cases e)
  have it: "set (iter k S) = S" "distinct (iter k S)"
    using valid_iterD [OF assms(1)] Cons.prems e by auto
  with bump_fold [of "iter k S" d] Cons.prems e obtain d1 where d1:
    "foldr_res bump d (iter k S) = Inr d1" "map fst d1 = map fst d"
    "\<And>x. map_of d1 x = map_option (\<lambda>n. n + (if x \<in> S then 1 else 0)) (map_of d x)" by auto
  have "dom (map_of d1) = dom (map_of d)" using d1(2) by (metis dom_map_of_conv_image_fst list.set_map)
  with Cons.IH [of d1] Cons.prems obtain d2 where d2:
    "foldr_res (\<lambda>indeg (k, outs). foldr_res bump indeg (iter k outs)) d1 es = Inr d2"
    "map fst d2 = map fst d1" "\<And>x. map_of d2 x = map_option (\<lambda>n. n + in_count es x) (map_of d1 x)" by auto
  have "map_of d2 x = map_option (\<lambda>n. n + in_count (e # es) x) (map_of d x)" for x
    by (cases "map_of d x") (auto simp: d2(3) d1(3) in_count_def e)
  moreover have "foldr_res (\<lambda>indeg (k, outs). foldr_res bump indeg (iter k outs)) d (e # es) = Inr d2"
    using d1(1) d2(1) e by simp
  ultimately show ?case using d1(2) d2(2) by metis
qed

lemma in_count_card:
  assumes "dict_wf es"
  shows "in_count es x = int (card {k. \<exists>S. (k, S) \<in> set es \<and> x \<in> S})"
proof -
  have "distinct (map fst (filter (\<lambda>(k, S). x \<in> S) es))"
    using assms by (simp add: dict_wf_def distinct_map_filter)
  then have "card (set (map fst (filter (\<lambda>(k, S). x \<in> S) es))) = length (filter (\<lambda>(k, S). x \<in> S) es)"
    using distinct_card by fastforce
  moreover have "set (map fst (filter (\<lambda>(k, S). x \<in> S) es)) = {k. \<exists>S. (k, S) \<in> set es \<and> x \<in> S}" by force
  ultimately show ?thesis by (simp add: in_count_def)
qed

section \<open>The loop invariant\<close>

lemma notify_value:
  assumes "distinct ss" "set ss \<subseteq> dom (map_of indeg)"
  shows "\<exists>indeg'. notify ss indeg q
      = Inr (indeg', q @ filter (\<lambda>s. map_of indeg s = Some 1) ss)
    \<and> map_of indeg' = (\<lambda>x. map_option (\<lambda>d. if x \<in> set ss then d - 1 else d) (map_of indeg x))"
  using assms
proof (induction ss arbitrary: indeg q)
  case Nil
  then show ?case by (simp add: map_option.identity)
next
  case (Cons s ss)
  then obtain d where d: "map_of indeg s = Some d" by auto
  let ?i = "dict_set s (d - 1) indeg"
  let ?q = "if d - 1 = 0 then q @ [s] else q"
  have "set ss \<subseteq> dom (map_of ?i)" using Cons.prems by auto
  moreover have "distinct ss" using Cons.prems(1) by simp
  ultimately obtain i' where
    n: "notify ss ?i ?q = Inr (i', ?q @ filter (\<lambda>s. map_of ?i s = Some 1) ss)" and
    m: "map_of i' = (\<lambda>x. map_option (\<lambda>d. if x \<in> set ss then d - 1 else d) (map_of ?i x))"
    using Cons.IH [of ?i ?q] by blast
  have f: "filter (\<lambda>s. map_of ?i s = Some 1) ss = filter (\<lambda>s. map_of indeg s = Some 1) ss"
    by (rule filter_cong) (use Cons.prems in auto)
  have "notify (s # ss) indeg q = Inr (i', q @ filter (\<lambda>s. map_of indeg s = Some 1) (s # ss))"
    using n d unfolding f by (simp add: dict_get_def)
  moreover have "map_of i' = (\<lambda>x. map_option (\<lambda>d. if x \<in> set (s # ss) then d - 1 else d) (map_of indeg x))"
    using m d Cons.prems by (auto simp: fun_eq_iff)
  ultimately show ?case by blast
qed

definition pending :: "('k \<times> 'k) set \<Rightarrow> 'k list \<Rightarrow> 'k \<Rightarrow> 'k set" where
  "pending E vis k = {p. (p, k) \<in> E \<and> p \<notin> set vis}"

definition kahn_inv ::
  "'k set \<Rightarrow> ('k \<times> 'k) set \<Rightarrow> ('k, int) dict \<Rightarrow> 'k list \<Rightarrow> 'k list \<Rightarrow> bool" where
  "kahn_inv V E indeg q vis =
     (distinct (vis @ q) \<and> set (vis @ q) \<subseteq> V \<and> topo E vis
      \<and> (\<forall>k \<in> V. map_of indeg k = Some (int (card (pending E vis k))))
      \<and> (\<forall>k \<in> V. k \<in> set (vis @ q) \<longleftrightarrow> pending E vis k = {}))"

lemma pending_finite: "finite V \<Longrightarrow> E \<subseteq> V \<times> V \<Longrightarrow> finite (pending E vis k)"
  by (rule finite_subset [of _ V]) (auto simp: pending_def)

lemma pending_snoc: "pending E (vis @ [k]) s = pending E vis s - {k}"
  by (auto simp: pending_def)

lemma pending_step:
  assumes "finite V" "E \<subseteq> V \<times> V" "k \<notin> set vis"
  shows "int (card (pending E (vis @ [k]) s))
    = int (card (pending E vis s)) - (if (k, s) \<in> E then 1 else 0)"
proof (cases "(k, s) \<in> E")
  case True
  then have k: "k \<in> pending E vis s" using assms(3) by (simp add: pending_def)
  have fin: "finite (pending E vis s)" using pending_finite [OF assms(1,2)] .
  have "card (pending E vis s - {k}) = card (pending E vis s) - 1" using fin k by simp
  moreover have "0 < card (pending E vis s)" using fin k by (auto simp: card_gt_0_iff)
  ultimately show ?thesis using True by (simp add: pending_snoc of_nat_diff)
next
  case False
  then have "pending E vis s - {k} = pending E vis s" by (auto simp: pending_def)
  then show ?thesis using False by (simp add: pending_snoc)
qed

lemma kahn_step:
  assumes "finite V" "E \<subseteq> V \<times> V" and inv: "kahn_inv V E indeg (k # q) vis"
    and ss: "distinct ss" "set ss = {s. (k, s) \<in> E}"
  shows "\<exists>indeg' q'. notify ss indeg q = Inr (indeg', q') \<and> kahn_inv V E indeg' q' (vis @ [k])"
proof -
  have dis: "distinct (vis @ k # q)" and sub: "set (vis @ k # q) \<subseteq> V" and top: "topo E vis"
    and cnt: "\<And>x. x \<in> V \<Longrightarrow> map_of indeg x = Some (int (card (pending E vis x)))"
    and mem: "\<And>x. x \<in> V \<Longrightarrow> x \<in> set (vis @ k # q) \<longleftrightarrow> pending E vis x = {}"
    using inv by (auto simp: kahn_inv_def)
  have ssV: "set ss \<subseteq> V" using ss(2) assms(2) by auto
  have kv: "k \<in> V" "k \<notin> set vis" using dis sub by auto
  have "set ss \<subseteq> dom (map_of indeg)" using ssV cnt by auto
  from notify_value [OF ss(1) this, of q] obtain i' where
    n: "notify ss indeg q = Inr (i', q @ filter (\<lambda>s. map_of indeg s = Some 1) ss)"
    and m: "map_of i' = (\<lambda>x. map_option (\<lambda>d. if x \<in> set ss then d - 1 else d) (map_of indeg x))"
    by blast
  let ?new = "filter (\<lambda>s. map_of indeg s = Some 1) ss"
  have new: "s \<in> set ?new \<longleftrightarrow> (k, s) \<in> E \<and> pending E vis s = {k}" for s
  proof -
    have "s \<in> set ?new \<longleftrightarrow> (k, s) \<in> E \<and> card (pending E vis s) = 1"
      using cnt [of s] ssV ss(2) by auto
    also have "\<dots> \<longleftrightarrow> (k, s) \<in> E \<and> pending E vis s = {k}"
    proof -
      have "(k, s) \<in> E \<Longrightarrow> k \<in> pending E vis s" using kv(2) by (simp add: pending_def)
      then show ?thesis by (auto simp: card_1_singleton_iff)
    qed
    finally show ?thesis .
  qed
  have newV: "set ?new \<subseteq> V" using ssV by auto
  have "x \<notin> set ?new" if "x \<in> set (vis @ k # q)" for x using mem [of x] sub that new [of x] by auto
  then have d': "distinct ((vis @ [k]) @ q @ ?new)" using dis ss(1) by auto
  have "{a. (a, k) \<in> E} \<subseteq> set vis" using mem [OF kv(1)] by (auto simp: pending_def)
  then have t': "topo E (vis @ [k])" using top by (simp add: topo_snoc)
  have c': "map_of i' x = Some (int (card (pending E (vis @ [k]) x)))" if "x \<in> V" for x
    using cnt [OF that] ss(2) pending_step [OF assms(1,2) kv(2), of x] unfolding m by auto
  have m': "x \<in> set ((vis @ [k]) @ q @ ?new) \<longleftrightarrow> pending E (vis @ [k]) x = {}" if "x \<in> V" for x
  proof -
    have "pending E vis x - {k} = {} \<longleftrightarrow> pending E vis x = {} \<or> (k, x) \<in> E \<and> pending E vis x = {k}"
      by (auto simp: pending_def)
    moreover have "x \<in> set ((vis @ [k]) @ q @ ?new) \<longleftrightarrow> x \<in> set (vis @ k # q) \<or> x \<in> set ?new" by auto
    ultimately show ?thesis unfolding new mem [OF that] pending_snoc by simp
  qed
  have "set ((vis @ [k]) @ q @ ?new) \<subseteq> V" using sub newV by auto
  with d' t' c' m' have "kahn_inv V E i' (q @ ?new) (vis @ [k])" unfolding kahn_inv_def by blast
  with n show ?thesis by blast
qed

lemma kahn_loop_inv:
  assumes "valid_iter iter" "finite V" "E \<subseteq> V \<times> V"
    and "\<forall>k \<in> V. map_of succ k = Some {s. (k, s) \<in> E}"
    and "kahn_inv V E indeg q vis"
  shows "\<exists>order indeg'. kahn_loop iter succ indeg q vis = Inr order \<and> kahn_inv V E indeg' [] order"
  using assms(1,4,5)
proof (induction iter succ indeg q vis rule: kahn_loop.induct)
  case (1 iter succ indeg vis)
  then show ?case by auto
next
  case (2 iter succ indeg k q vis)
  let ?S = "{s. (k, s) \<in> E}"
  have "k \<in> V" using "2.prems"(3) by (simp add: kahn_inv_def)
  then have g: "dict_get succ k = Inr ?S" using "2.prems"(2) by simp
  have "finite ?S" by (rule finite_subset [OF _ assms(2)]) (use assms(3) in auto)
  then have it: "distinct (iter k ?S)" "set (iter k ?S) = ?S"
    using "2.prems"(1) by (auto simp: valid_iter_def)
  obtain i' q' where n: "notify (iter k ?S) indeg q = Inr (i', q')"
    and i: "kahn_inv V E i' q' (vis @ [k])"
    using kahn_step [OF assms(2,3) "2.prems"(3) it] by blast
  have "\<exists>order indeg'. kahn_loop iter succ i' q' (vis @ [k]) = Inr order \<and> kahn_inv V E indeg' [] order"
    using "2.IH" [OF g n "2.prems"(1,2)] i by simp
  with g n show ?case by (simp del: dict_get_Inr_iff)
qed

section \<open>What a run computes\<close>

lemma kahn_inv_final:
  assumes "finite V" "E \<subseteq> V \<times> V" "kahn_inv V E indeg [] order"
  shows "distinct order \<and> set order \<subseteq> V \<and> topo E order \<and> (set order = V \<longleftrightarrow> acyclic E)"
proof -
  have o: "distinct order" "set order \<subseteq> V" "topo E order"
    and mem: "\<And>k. k \<in> V \<Longrightarrow> k \<in> set order \<longleftrightarrow> pending E order k = {}"
    using assms(3) by (auto simp: kahn_inv_def)
  have "set order = V" if "acyclic E"
  proof (rule ccontr)
    assume "set order \<noteq> V"
    then obtain x where x: "x \<in> V - set order" using o(2) by auto
    have "wf E"
      by (rule finite_acyclic_wf [OF _ that]) (use assms finite_subset in \<open>blast intro: finite_cartesian_product\<close>)
    then obtain z where z: "z \<in> V - set order" "\<And>y. (y, z) \<in> E \<Longrightarrow> y \<notin> V - set order"
      using x by (rule wfE_min) blast
    then have "pending E order z = {}" using assms(2) by (auto simp: pending_def)
    with z mem show False by auto
  qed
  moreover have "acyclic E" if "set order = V"
    using topo_acyclic [OF o(3,1)] assms(2) that by auto
  ultimately show ?thesis using o by blast
qed

lemma kahn_inv_start:
  assumes "finite V" "E \<subseteq> V \<times> V" "map fst indeg = vs" "distinct vs" "set vs = V"
    and "\<forall>k \<in> V. map_of indeg k = Some (int (card {p. (p, k) \<in> E}))"
    and "mset q = mset (roots indeg)"
  shows "kahn_inv V E indeg q []"
proof -
  have d: "distinct (map fst indeg)" using assms by simp
  have "distinct (roots indeg)" unfolding roots_def using d by (rule distinct_map_filter)
  then have dq: "distinct q" using assms(7) mset_eq_imp_distinct_iff by blast
  have sq: "set q = set (roots indeg)" using assms(7) by (rule mset_eq_setD)
  have fin: "finite {p. (p, k) \<in> E}" for k
    by (rule finite_subset [OF _ assms(1)]) (use assms(2) in auto)
  have r: "k \<in> set (roots indeg) \<longleftrightarrow> k \<in> V \<and> {p. (p, k) \<in> E} = {}" for k
  proof
    assume "k \<in> set (roots indeg)"
    then have k: "(k, 0) \<in> set indeg" by (auto simp: roots_def)
    then have "map_of indeg k = Some 0" using d by simp
    moreover have "k \<in> V" using k assms(3,5) by force
    ultimately show "k \<in> V \<and> {p. (p, k) \<in> E} = {}" using assms(6) fin [of k] by auto
  next
    assume k: "k \<in> V \<and> {p. (p, k) \<in> E} = {}"
    then have "map_of indeg k = Some 0" using assms(6) by simp
    then have "(k, 0) \<in> set indeg" by (rule map_of_SomeD)
    then show "k \<in> set (roots indeg)" by (force simp: roots_def)
  qed
  show ?thesis using dq r sq assms(6) by (auto simp: kahn_inv_def pending_def)
qed

text \<open>
  The contract of a client of the loop: \<open>start\<close> prepares successor sets and in-degrees of a graph
  given by its vertices and edges.
\<close>

locale kahn_graph =
  fixes ok :: "'g \<Rightarrow> bool"
    and verts :: "'g \<Rightarrow> 'k list"
    and edges :: "'g \<Rightarrow> ('k \<times> 'k) set"
    and start :: "'k iter \<Rightarrow> 'g \<Rightarrow> (('k, 'k set) dict \<times> ('k, int) dict) result"
  assumes verts_distinct: "ok g \<Longrightarrow> distinct (verts g)"
    and edges_in: "ok g \<Longrightarrow> edges g \<subseteq> set (verts g) \<times> set (verts g)"
    and start_ok: "ok g \<Longrightarrow> valid_iter iter \<Longrightarrow>
      \<exists>succ indeg. start iter g = Inr (succ, indeg) \<and> map fst indeg = verts g
        \<and> (\<forall>k \<in> set (verts g). map_of succ k = Some {s. (k, s) \<in> edges g}
              \<and> map_of indeg k = Some (int (card {p. (p, k) \<in> edges g})))"
begin

lemma run:
  assumes "ok g" "valid_iter iter" "start iter g = Inr (succ, indeg)" "mset q = mset (roots indeg)"
  shows "\<exists>order. kahn_loop iter succ indeg q [] = Inr order
    \<and> distinct order \<and> set order \<subseteq> set (verts g) \<and> topo (edges g) order
    \<and> (length order = length (verts g) \<longleftrightarrow> acyclic (edges g))"
proof -
  have s: "map fst indeg = verts g" "\<forall>k \<in> set (verts g). map_of succ k = Some {s. (k, s) \<in> edges g}"
    "\<forall>k \<in> set (verts g). map_of indeg k = Some (int (card {p. (p, k) \<in> edges g}))"
    using start_ok [OF assms(1,2)] assms(3) by auto
  have E: "edges g \<subseteq> set (verts g) \<times> set (verts g)" using edges_in [OF assms(1)] .
  have "kahn_inv (set (verts g)) (edges g) indeg q []"
    by (rule kahn_inv_start [OF _ E s(1) verts_distinct [OF assms(1)] refl s(3) assms(4)]) simp
  from kahn_loop_inv [OF assms(2) _ E s(2) this] obtain order i' where
    o: "kahn_loop iter succ indeg q [] = Inr order" "kahn_inv (set (verts g)) (edges g) i' [] order"
    by auto
  have f: "distinct order" "set order \<subseteq> set (verts g)" "topo (edges g) order"
    "set order = set (verts g) \<longleftrightarrow> acyclic (edges g)"
    using kahn_inv_final [OF _ E o(2)] by auto
  have "length order = length (verts g) \<longleftrightarrow> set order = set (verts g)"
    using f(1,2) verts_distinct [OF assms(1)]
    by (metis List.finite_set card_subset_eq distinct_card)
  with o(1) f show ?thesis by blast
qed

lemma run_acyclic:
  assumes "ok g" "valid_iter iter" "start iter g = Inr (succ, indeg)" "mset q = mset (roots indeg)"
    and "acyclic (edges g)"
  shows "\<exists>order. kahn_loop iter succ indeg q [] = Inr order
    \<and> distinct order \<and> set order = set (verts g) \<and> topo (edges g) order"
proof -
  obtain order where o: "kahn_loop iter succ indeg q [] = Inr order" "distinct order"
    "set order \<subseteq> set (verts g)" "topo (edges g) order" "length order = length (verts g)"
    using run [OF assms(1-4)] assms(5) by blast
  then have "set order = set (verts g)"
    using verts_distinct [OF assms(1)] by (metis List.finite_set card_subset_eq distinct_card)
  with o show ?thesis by blast
qed

text \<open>The whole check: prepare, run from the roots, compare the number of visits.\<close>

definition acyclic_check :: "'k iter \<Rightarrow> 'g \<Rightarrow> py_error \<Rightarrow> unit result" where
  "acyclic_check iter g e =
     bindr (start iter g) (\<lambda>(succ, indeg).
     bindr (kahn_loop iter succ indeg (roots indeg) []) (\<lambda>vis.
       if int (length vis) \<noteq> int (length (verts g)) then Inl e else Inr ()))"

lemma acyclic_check_iff:
  assumes "ok g" "valid_iter iter"
  shows "acyclic_check iter g e = (if acyclic (edges g) then Inr () else Inl e)"
proof -
  obtain succ indeg where s: "start iter g = Inr (succ, indeg)" using start_ok [OF assms] by blast
  from run [OF assms s refl] s show ?thesis by (auto simp: acyclic_check_def)
qed

end

end
