(* ===== verification/Schedule_Static.thy ===== *)
theory Schedule_Static
  imports Schedule_Phase Kahn "HOL-Library.Product_Lexorder"
begin

text \<open>
  Static fine-grained scheduling of \<^verbatim>\<open>compiler/schedule_static.py\<close>: the task dependency graph built
  from tile regions, its cycle check, and the round-robin static worker schedule with the check of
  the graph augmented by worker-order edges.  Both checks are clients of Kahn's loop and are
  interpretations of its locale.
\<close>

section \<open>Model\<close>

type_synonym TaskKey = "string \<times> int"

record TaskDependencyGraph =
  td_tasks :: "(TaskKey, int) dict"
  td_preds :: "(TaskKey, TaskKey set) dict"

definition check_acyclic :: "TaskKey iter \<Rightarrow> TaskDependencyGraph \<Rightarrow> unit result" where
  "check_acyclic iter g =
     (let indeg = indegrees (td_preds g) in
      bindr (successors iter (td_preds g)) (\<lambda>succ.
      bindr (kahn_loop iter succ indeg (roots indeg) []) (\<lambda>seen.
        if int (length seen) \<noteq> int (length (td_preds g)) then Inl CyclicScheduleError
        else Inr ())))"

definition td_edges :: "TaskDependencyGraph \<Rightarrow> int" where
  "td_edges g = sum_list (map (\<lambda>(_, ps). int (card ps)) (td_preds g))"

text \<open>
  \<^verbatim>\<open>any(a.overlaps(b) for a in A for b in B)\<close>: the second sequence is computed once per element
  of the first, so it is not computed at all when the first is empty.
\<close>

fun any_overlaps :: "Region list \<Rightarrow> Region list result \<Rightarrow> bool result" where
  "any_overlaps [] ss = Inr False"
| "any_overlaps (r # rs) ss =
     bindr ss (\<lambda>bs. if list_ex (overlaps r) bs then Inr True else any_overlaps rs ss)"

definition task_pair_hazard ::
  "hazard_kind \<Rightarrow> TaskFamily \<Rightarrow> int \<Rightarrow> TaskFamily \<Rightarrow> int \<Rightarrow> bool result" where
  "task_pair_hazard kind u tu v tv =
     (case kind of
        HAZARD_RAW \<Rightarrow> bindr (fam_writes u tu) (\<lambda>ws. any_overlaps ws (fam_reads v tv))
      | HAZARD_WAR \<Rightarrow> bindr (fam_reads u tu) (\<lambda>rs. any_overlaps rs (fam_writes v tv))
      | HAZARD_WAW \<Rightarrow> bindr (fam_writes u tu) (\<lambda>ws. any_overlaps ws (fam_writes v tv)))"

text \<open>The registration loop over phases, families and task ids.\<close>

definition register_task ::
  "string \<Rightarrow> int \<Rightarrow> TaskDependencyGraph \<Rightarrow> int \<Rightarrow> TaskDependencyGraph" where
  "register_task fid ph g tid =
     g\<lparr>td_tasks := dict_set (fid, tid) ph (td_tasks g),
       td_preds := dict_setdefault (fid, tid) {} (td_preds g)\<rparr>"

definition register_family ::
  "int \<Rightarrow> (int, int) dict \<times> TaskDependencyGraph \<Rightarrow> TaskFamily
    \<Rightarrow> ((int, int) dict \<times> TaskDependencyGraph) result" where
  "register_family ph acc fam =
     (case acc of (phase_of, g) \<Rightarrow>
        bindr (fam_task_count fam) (\<lambda>n.
          Inr (dict_set (opid (fam_op fam)) ph phase_of,
               foldl (register_task (fam_id fam) ph) g (urange n))))"

definition register_all ::
  "PhasePlan list \<Rightarrow> ((int, int) dict \<times> TaskDependencyGraph) result" where
  "register_all phases =
     foldr_res (\<lambda>acc p. foldr_res (register_family (ph_index p)) acc (ph_families p))
       ([], \<lparr>td_tasks = [], td_preds = []\<rparr>) phases"

definition over_span ::
  "int option \<Rightarrow> (int, int) dict \<Rightarrow> TaskFamily \<Rightarrow> TaskFamily \<Rightarrow> bool result" where
  "over_span max_span phase_of u v =
     (case max_span of
        None \<Rightarrow> Inr False
      | Some m \<Rightarrow>
          bindr (dict_get phase_of (opid (fam_op v))) (\<lambda>pv.
          bindr (dict_get phase_of (opid (fam_op u))) (\<lambda>pu. Inr (pv - pu > m))))"

definition add_pred ::
  "TaskKey \<Rightarrow> TaskKey \<Rightarrow> (TaskKey, TaskKey set) dict \<Rightarrow> (TaskKey, TaskKey set) dict result" where
  "add_pred kv ku preds =
     bindr (dict_get preds kv) (\<lambda>S. Inr (dict_set kv (insert ku S) preds))"

definition expand_pair ::
  "hazard_kind \<Rightarrow> TaskFamily \<Rightarrow> TaskFamily \<Rightarrow> int \<Rightarrow> (TaskKey, TaskKey set) dict \<Rightarrow> int
    \<Rightarrow> (TaskKey, TaskKey set) dict result" where
  "expand_pair kind u v tu preds tv =
     bindr (task_pair_hazard kind u tu v tv) (\<lambda>b.
       if b then add_pred (fam_id v, tv) (fam_id u, tu) preds else Inr preds)"

definition expand_hazard ::
  "int option \<Rightarrow> (int, TaskFamily) dict \<Rightarrow> (int, int) dict \<Rightarrow> (TaskKey, TaskKey set) dict \<Rightarrow> Hazard
    \<Rightarrow> (TaskKey, TaskKey set) dict result" where
  "expand_hazard max_span fam_by_opid phase_of preds hz =
     bindr (dict_get fam_by_opid (hz_producer hz)) (\<lambda>u.
     bindr (dict_get fam_by_opid (hz_consumer hz)) (\<lambda>v.
     bindr (over_span max_span phase_of u v) (\<lambda>skip.
       if skip then Inr preds
       else bindr (fam_task_count u) (\<lambda>nu.
         foldr_res (\<lambda>preds tu.
           bindr (fam_task_count v) (\<lambda>nv.
             foldr_res (expand_pair (hz_kind hz) u v tu) preds (urange nv)))
           preds (urange nu)))))"

definition sched_families :: "PhaseSchedule \<Rightarrow> TaskFamily list" where
  "sched_families s = concat (map ph_families (ps_phases s))"

definition families_by_opid :: "TaskFamily list \<Rightarrow> (int, TaskFamily) dict" where
  "families_by_opid fams = foldl (\<lambda>d fam. dict_set (opid (fam_op fam)) fam d) [] fams"

definition build_tile_dependencies ::
  "PhaseSchedule \<Rightarrow> int option \<Rightarrow> TaskDependencyGraph result" where
  "build_tile_dependencies schedule max_span =
     (let families = sched_families schedule;
          fam_by_opid = families_by_opid families
      in bindr (register_all (ps_phases schedule)) (\<lambda>(phase_of, g).
         bindr (foldr_res (expand_hazard max_span fam_by_opid phase_of) (td_preds g)
                  (compute_hazards (map fam_op families))) (\<lambda>preds.
           Inr (g\<lparr>td_preds := preds\<rparr>))))"

record StaticWorkerSchedule =
  sw_workers :: int
  sw_order :: "TaskKey list"
  sw_assignment :: "(TaskKey, int) dict"
  sw_deps :: TaskDependencyGraph

definition worker_sequence :: "StaticWorkerSchedule \<Rightarrow> int \<Rightarrow> TaskKey list result" where
  "worker_sequence s w =
     bindr (mapr (\<lambda>k. bindr (dict_get (sw_assignment s) k) (\<lambda>a. Inr (k, a))) (sw_order s)) (\<lambda>kas.
       Inr (map fst (filter (\<lambda>(k, a). a = w) kas)))"

definition augmented_edges ::
  "TaskKey iter \<Rightarrow> StaticWorkerSchedule \<Rightarrow> (TaskKey, TaskKey set) dict result" where
  "augmented_edges iter s =
     bindr (add_all_succ iter (foldl (\<lambda>d k. dict_set k {} d) [] (sw_order s))
              (td_preds (sw_deps s))) (\<lambda>es.
       foldr_res (\<lambda>es w.
         bindr (worker_sequence s w) (\<lambda>sq. foldr_res add_edge es (zip sq (tl sq))))
         es (urange (sw_workers s)))"

definition check_augmented_acyclic :: "TaskKey iter \<Rightarrow> StaticWorkerSchedule \<Rightarrow> unit result" where
  "check_augmented_acyclic iter s =
     bindr (augmented_edges iter s) (\<lambda>es.
     bindr (count_indegrees iter es) (\<lambda>indeg.
     bindr (kahn_loop iter es indeg (roots indeg) []) (\<lambda>seen.
       if int (length seen) \<noteq> int (length es) then Inl CyclicScheduleError else Inr ())))"

text \<open>\<^verbatim>\<open>sorted(..., key=lambda k: (deps.tasks[k], k))\<close> of the roots.\<close>

definition sorted_roots ::
  "(TaskKey, int) dict \<Rightarrow> (TaskKey, int) dict \<Rightarrow> TaskKey list result" where
  "sorted_roots tasks indeg =
     bindr (mapr (\<lambda>k. bindr (dict_get tasks k) (\<lambda>ph. Inr (ph, k))) (roots indeg)) (\<lambda>keyed.
       Inr (map snd (sort_key (\<lambda>pk. pk) keyed)))"

definition round_robin :: "int \<Rightarrow> TaskKey list \<Rightarrow> (TaskKey, int) dict result" where
  "round_robin workers order =
     foldr_res (\<lambda>d (i, k). bindr (py_mod (int i) workers) (\<lambda>w. Inr (dict_set k w d)))
       [] (zip [0..<length order] order)"

definition build_static_worker_schedule ::
  "TaskKey iter \<Rightarrow> TaskDependencyGraph \<Rightarrow> int \<Rightarrow> StaticWorkerSchedule result" where
  "build_static_worker_schedule iter deps workers =
     bindr (check_acyclic iter deps) (\<lambda>_.
     bindr (successors iter (td_preds deps)) (\<lambda>succ.
     let indeg = indegrees (td_preds deps) in
     bindr (sorted_roots (td_tasks deps) indeg) (\<lambda>q.
     bindr (kahn_loop iter succ indeg q []) (\<lambda>order.
       if int (length order) \<noteq> int (length (td_preds deps)) then Inl CyclicScheduleError
       else bindr (round_robin workers order) (\<lambda>assignment.
         let sched = \<lparr>sw_workers = workers, sw_order = order, sw_assignment = assignment,
                      sw_deps = deps\<rparr>
         in bindr (check_augmented_acyclic iter sched) (\<lambda>_. Inr sched))))))"

section \<open>The cycle check\<close>

definition wf_deps :: "TaskDependencyGraph \<Rightarrow> bool" where
  "wf_deps g = wf_preds (td_preds g)"

definition deps_start ::
  "TaskKey iter \<Rightarrow> TaskDependencyGraph \<Rightarrow> ((TaskKey, TaskKey set) dict \<times> (TaskKey, int) dict) result"
where
  "deps_start iter g =
     bindr (successors iter (td_preds g)) (\<lambda>succ. Inr (succ, indegrees (td_preds g)))"

definition task_edges :: "TaskDependencyGraph \<Rightarrow> (TaskKey \<times> TaskKey) set" where
  "task_edges g = dep_edges (td_preds g)"

interpretation tdg: kahn_graph wf_deps "\<lambda>g. map fst (td_preds g)" task_edges deps_start
proof
  fix g assume g: "wf_deps g"
  then show "distinct (map fst (td_preds g))" by (simp add: wf_deps_def wf_preds_def dict_wf_def)
  show "task_edges g \<subseteq> set (map fst (td_preds g)) \<times> set (map fst (td_preds g))"
    using dep_edges_in [of "td_preds g"] g by (simp add: wf_deps_def task_edges_def)
next
  fix g :: TaskDependencyGraph and iter :: "TaskKey iter"
  assume g: "wf_deps g" and i: "valid_iter iter"
  then obtain succ where "successors iter (td_preds g) = Inr succ"
    "\<forall>k \<in> fst ` set (td_preds g). map_of succ k = Some {s. (k, s) \<in> dep_edges (td_preds g)}"
    using successors_value [OF i, of "td_preds g"] by (auto simp: wf_deps_def)
  moreover have "map fst (indegrees (td_preds g)) = map fst (td_preds g)"
    by (simp add: indegrees_def comp_def split_def)
  moreover have "\<forall>k \<in> fst ` set (td_preds g). map_of (indegrees (td_preds g)) k
      = Some (int (card {p. (p, k) \<in> dep_edges (td_preds g)}))"
    by (intro ballI map_of_indegrees) (use g in \<open>simp_all add: wf_deps_def\<close>)
  ultimately show "\<exists>succ indeg. deps_start iter g = Inr (succ, indeg)
      \<and> map fst indeg = map fst (td_preds g)
      \<and> (\<forall>k \<in> set (map fst (td_preds g)). map_of succ k = Some {s. (k, s) \<in> task_edges g}
            \<and> map_of indeg k = Some (int (card {p. (p, k) \<in> task_edges g})))"
    by (simp add: deps_start_def task_edges_def)
qed

lemma check_acyclic_eq: "check_acyclic iter g = tdg.acyclic_check iter g CyclicScheduleError"
  by (simp add: check_acyclic_def tdg.acyclic_check_def deps_start_def bindr_assoc Let_def)

text \<open>
  C7: The cycle check decides acyclicity.  For a well-formed dependency graph and every iteration
  order of the successor sets, \<^verbatim>\<open>TaskDependencyGraph.check_acyclic\<close> terminates, returns normally when the
  dependency relation has no cycle and raises \<^verbatim>\<open>CyclicScheduleError\<close> when it has one.
\<close>

theorem check_acyclic_decides:
  assumes "wf_deps g" "valid_iter iter"
  shows "check_acyclic iter g =
    (if acyclic (task_edges g) then Inr () else Inl CyclicScheduleError)"
  unfolding check_acyclic_eq by (rule tdg.acyclic_check_iff [OF assms])

definition sorted_iter :: "TaskKey iter" where
  "sorted_iter k S = sorted_list_of_set S"

lemma valid_sorted_iter: "valid_iter sorted_iter"
  by (simp add: valid_iter_def sorted_iter_def)

definition demo_deps :: "(TaskKey \<times> TaskKey set) list \<Rightarrow> TaskDependencyGraph" where
  "demo_deps ps = \<lparr>td_tasks = map (\<lambda>(k, _). (k, snd k)) ps, td_preds = ps\<rparr>"

theorem check_acyclic_decides_witness:
  "check_acyclic sorted_iter (demo_deps [((''a'', 0), {(''b'', 1)}), ((''b'', 1), {(''a'', 0)})])
     = Inl CyclicScheduleError
   \<and> check_acyclic sorted_iter (demo_deps [((''a'', 0), {}), ((''b'', 1), {(''a'', 0)})]) = Inr ()"
proof -
  let ?g = "demo_deps [((''a'', 0), {(''b'', 1)}), ((''b'', 1), {(''a'', 0)})]"
  let ?h = "demo_deps [((''a'', 0), {}), ((''b'', 1), {(''a'', 0)})]"
  have g: "wf_deps ?g" "wf_deps ?h"
    by (auto simp: wf_deps_def wf_preds_def dict_wf_def demo_deps_def)
  have "((''a'', 0), (''b'', 1)) \<in> task_edges ?g" "((''b'', 1), (''a'', 0)) \<in> task_edges ?g"
    by (auto simp: task_edges_def dep_edges_def demo_deps_def)
  then have "((''a'', 0), (''a'', 0)) \<in> (task_edges ?g)\<^sup>+" by (meson trancl.intros)
  then have "\<not> acyclic (task_edges ?g)" by (auto simp: acyclic_def)
  moreover have "acyclic (task_edges ?h)"
    by (rule forward_acyclic [of _ "\<lambda>k. nat (snd k)"])
       (auto simp: task_edges_def dep_edges_def demo_deps_def)
  ultimately show ?thesis
    using check_acyclic_decides [OF g(1) valid_sorted_iter]
      check_acyclic_decides [OF g(2) valid_sorted_iter] by simp
qed

section \<open>The augmented graph\<close>

definition seq_of :: "StaticWorkerSchedule \<Rightarrow> int \<Rightarrow> TaskKey list" where
  "seq_of s w = filter (\<lambda>k. map_of (sw_assignment s) k = Some w) (sw_order s)"

definition seq_edges :: "StaticWorkerSchedule \<Rightarrow> (TaskKey \<times> TaskKey) set" where
  "seq_edges s = (\<Union>w \<in> {0..<sw_workers s}. set (zip (seq_of s w) (tl (seq_of s w))))"

definition wf_static :: "StaticWorkerSchedule \<Rightarrow> bool" where
  "wf_static s = (wf_deps (sw_deps s) \<and> distinct (sw_order s)
     \<and> set (sw_order s) = fst ` set (td_preds (sw_deps s))
     \<and> set (sw_order s) \<subseteq> dom (map_of (sw_assignment s)))"

definition aug_edges :: "StaticWorkerSchedule \<Rightarrow> (TaskKey \<times> TaskKey) set" where
  "aug_edges s = task_edges (sw_deps s) \<union> seq_edges s"

lemma worker_sequence_value:
  assumes "set (sw_order s) \<subseteq> dom (map_of (sw_assignment s))"
  shows "worker_sequence s w = Inr (seq_of s w)"
proof -
  let ?g = "\<lambda>k. (k, the (map_of (sw_assignment s) k))"
  have "mapr (\<lambda>k. bindr (dict_get (sw_assignment s) k) (\<lambda>a. Inr (k, a))) (sw_order s)
      = Inr (map ?g (sw_order s))"
    by (rule mapr_ok_pure) (use assms in \<open>auto simp: dict_get_def\<close>)
  moreover have "map fst (filter (\<lambda>(k, a). a = w) (map ?g (sw_order s))) = seq_of s w"
    using assms unfolding seq_of_def
    by (simp add: filter_map comp_def) (rule filter_cong, auto)
  ultimately show ?thesis by (simp add: worker_sequence_def)
qed

lemma worker_edges_fold:
  assumes "set (sw_order s) \<subseteq> dom (map_of (sw_assignment s))" "set (sw_order s) \<subseteq> dom (map_of es)"
  shows "\<exists>es'. foldr_res (\<lambda>es w. bindr (worker_sequence s w)
        (\<lambda>sq. foldr_res add_edge es (zip sq (tl sq)))) es ws = Inr es'
    \<and> map fst es' = map fst es
    \<and> (\<forall>x. map_of es' x = map_option
         (\<lambda>S. S \<union> {b. \<exists>w \<in> set ws. (x, b) \<in> set (zip (seq_of s w) (tl (seq_of s w)))}) (map_of es x))"
  using assms(2)
proof (induction ws arbitrary: es)
  case Nil
  then show ?case by (simp add: map_option.identity)
next
  case (Cons w ws)
  let ?ps = "zip (seq_of s w) (tl (seq_of s w))"
  have "fst ` set ?ps \<subseteq> set (seq_of s w)" by (auto dest: set_zip_leftD)
  also have "\<dots> \<subseteq> set (sw_order s)" by (auto simp: seq_of_def)
  finally have "fst ` set ?ps \<subseteq> dom (map_of es)" using Cons.prems by blast
  from add_edge_fold [OF this] obtain es1 where e1: "foldr_res add_edge es ?ps = Inr es1"
    "map fst es1 = map fst es"
    "\<And>x. map_of es1 x = map_option (\<lambda>S. S \<union> {b. (x, b) \<in> set ?ps}) (map_of es x)" by blast
  have "dom (map_of es1) = dom (map_of es)" using e1(2) by (metis dom_map_of_conv_image_fst list.set_map)
  with Cons.IH [of es1] Cons.prems obtain es2 where
    e2: "foldr_res (\<lambda>es w. bindr (worker_sequence s w)
        (\<lambda>sq. foldr_res add_edge es (zip sq (tl sq)))) es1 ws = Inr es2" "map fst es2 = map fst es1"
    "\<And>x. map_of es2 x = map_option
         (\<lambda>S. S \<union> {b. \<exists>w \<in> set ws. (x, b) \<in> set (zip (seq_of s w) (tl (seq_of s w)))}) (map_of es1 x)"
    by auto
  have "map_of es2 x = map_option
      (\<lambda>S. S \<union> {b. \<exists>w \<in> set (w # ws). (x, b) \<in> set (zip (seq_of s w) (tl (seq_of s w)))}) (map_of es x)" for x
    by (cases "map_of es x") (auto simp: e2(3) e1(3))
  with e1 e2 show ?case using worker_sequence_value [OF assms(1)] by simp
qed

lemma augmented_edges_value:
  assumes "valid_iter iter" "wf_static s"
  shows "\<exists>es. augmented_edges iter s = Inr es \<and> map fst es = sw_order s
    \<and> (\<forall>k \<in> set (sw_order s). map_of es k = Some {b. (k, b) \<in> aug_edges s})"
proof -
  have w: "wf_preds (td_preds (sw_deps s))" "distinct (sw_order s)"
    "set (sw_order s) = fst ` set (td_preds (sw_deps s))"
    "set (sw_order s) \<subseteq> dom (map_of (sw_assignment s))"
    using assms(2) unfolding wf_static_def wf_deps_def by blast+
  let ?e0 = "map (\<lambda>k. (k, {} :: TaskKey set)) (sw_order s)"
  have e0: "foldl (\<lambda>d k. dict_set k {} d) [] (sw_order s) = ?e0"
    using key_dict_init [of "sw_order s" "[]" "{}"] w(2) by simp
  have m0: "map_of ?e0 x = (if x \<in> set (sw_order s) then Some {} else None)" for x
    by (simp add: map_of_map_restrict restrict_map_def comp_def)
  have "\<forall>(k, ps) \<in> set (td_preds (sw_deps s)). finite ps \<and> ps \<subseteq> dom (map_of ?e0)"
    using w(1,3) m0 by (auto simp: wf_preds_def dom_def)
  from add_all_succ_value [OF assms(1) this] obtain e1 where e1:
    "add_all_succ iter ?e0 (td_preds (sw_deps s)) = Inr e1" "map fst e1 = map fst ?e0"
    "\<And>x. map_of e1 x = map_option (\<lambda>S. S \<union> {k. (x, k) \<in> dep_edges (td_preds (sw_deps s))}) (map_of ?e0 x)"
    by blast
  have k1: "map fst e1 = sw_order s" using e1(2) by (simp add: comp_def)
  then have "set (sw_order s) \<subseteq> dom (map_of e1)" by (simp add: dom_map_of_conv_image_fst flip: list.set_map)
  from worker_edges_fold [OF w(4) this, of "urange (sw_workers s)"] obtain e2 where
    e2: "foldr_res (\<lambda>es w. bindr (worker_sequence s w)
        (\<lambda>sq. foldr_res add_edge es (zip sq (tl sq)))) e1 (urange (sw_workers s)) = Inr e2"
    "map fst e2 = map fst e1"
    "\<And>x. map_of e2 x = map_option (\<lambda>S. S \<union> {b. \<exists>w \<in> set (urange (sw_workers s)).
        (x, b) \<in> set (zip (seq_of s w) (tl (seq_of s w)))}) (map_of e1 x)" by blast
  have "map_of e2 k = Some {b. (k, b) \<in> aug_edges s}" if "k \<in> set (sw_order s)" for k
    using that by (auto simp: e2(3) e1(3) m0 aug_edges_def task_edges_def seq_edges_def)
  moreover have "augmented_edges iter s = Inr e2" by (simp add: augmented_edges_def e0 e1(1) e2(1))
  ultimately show ?thesis using e2(2) k1 by auto
qed

definition aug_start ::
  "TaskKey iter \<Rightarrow> StaticWorkerSchedule \<Rightarrow> ((TaskKey, TaskKey set) dict \<times> (TaskKey, int) dict) result"
where
  "aug_start iter s =
     bindr (augmented_edges iter s) (\<lambda>es.
     bindr (count_indegrees iter es) (\<lambda>indeg. Inr (es, indeg)))"

lemma seq_edges_in: "seq_edges s \<subseteq> set (sw_order s) \<times> set (sw_order s)"
proof
  fix e assume "e \<in> seq_edges s"
  then obtain w where "e \<in> set (zip (seq_of s w) (tl (seq_of s w)))" by (auto simp: seq_edges_def)
  then have "fst e \<in> set (seq_of s w)" "snd e \<in> set (tl (seq_of s w))"
    by (metis prod.collapse set_zip_leftD, metis prod.collapse set_zip_rightD)
  then have "fst e \<in> set (seq_of s w)" "snd e \<in> set (seq_of s w)"
    by (auto dest: list.set_sel(2) [rotated])
  then show "e \<in> set (sw_order s) \<times> set (sw_order s)" by (auto simp: seq_of_def mem_Times_iff)
qed

lemma aug_edges_in: "wf_static s \<Longrightarrow> aug_edges s \<subseteq> set (sw_order s) \<times> set (sw_order s)"
  using seq_edges_in [of s] dep_edges_in [of "td_preds (sw_deps s)"]
  by (simp add: aug_edges_def task_edges_def wf_static_def wf_deps_def)

interpretation aug: kahn_graph wf_static sw_order aug_edges aug_start
proof
  fix s assume s: "wf_static s"
  then show "distinct (sw_order s)" by (simp add: wf_static_def)
  show "aug_edges s \<subseteq> set (sw_order s) \<times> set (sw_order s)" using s by (rule aug_edges_in)
next
  fix s :: StaticWorkerSchedule and iter :: "TaskKey iter"
  assume s: "wf_static s" and i: "valid_iter iter"
  then obtain es where es: "augmented_edges iter s = Inr es" "map fst es = sw_order s"
    "\<forall>k \<in> set (sw_order s). map_of es k = Some {b. (k, b) \<in> aug_edges s}"
    using augmented_edges_value by blast
  have dw: "dict_wf es" using es(2) s by (simp add: dict_wf_def wf_static_def)
  have mem: "(k, S) \<in> set es \<longleftrightarrow> k \<in> set (sw_order s) \<and> S = {b. (k, b) \<in> aug_edges s}" for k S
    using dw es(2,3) by (metis (no_types, lifting) dict_wf_def image_eqI list.set_map fst_conv
        map_of_SomeD map_of_is_SomeI option.inject)
  let ?d0 = "map (\<lambda>(k, _). (k, 0 :: int)) es"
  have dom0: "dom (map_of ?d0) = set (sw_order s)"
    using es(2) by (auto simp: dom_def map_of_const simp flip: list.set_map split: if_splits)
  have sub: "{b. (k, b) \<in> aug_edges s} \<subseteq> set (sw_order s)" for k using aug_edges_in [OF s] by blast
  then have "\<forall>(k, S) \<in> set es. finite S \<and> S \<subseteq> dom (map_of ?d0)"
    unfolding dom0 using finite_subset [OF sub finite_set] by (metis (mono_tags, lifting) case_prodI2 mem)
  from count_fold [OF i this] obtain d where d: "count_indegrees iter es = Inr d"
    "map fst d = map fst ?d0" "\<And>x. map_of d x = map_option (\<lambda>n. n + in_count es x) (map_of ?d0 x)"
    by (auto simp: count_indegrees_def)
  have "map_of d k = Some (int (card {p. (p, k) \<in> aug_edges s}))" if k: "k \<in> set (sw_order s)" for k
  proof -
    have "{p. \<exists>S. (p, S) \<in> set es \<and> k \<in> S} = {p. (p, k) \<in> aug_edges s}"
      using aug_edges_in [OF s] by (auto simp: mem)
    moreover have "map_of ?d0 k = Some 0"
      using k es(2) by (simp add: map_of_const flip: list.set_map)
    ultimately show ?thesis using d(3) [of k] in_count_card [OF dw, of k] by simp
  qed
  moreover have "map fst d = sw_order s" using d(2) es(2) by (simp add: comp_def split_def)
  ultimately show "\<exists>succ indeg. aug_start iter s = Inr (succ, indeg) \<and> map fst indeg = sw_order s
      \<and> (\<forall>k \<in> set (sw_order s). map_of succ k = Some {b. (k, b) \<in> aug_edges s}
            \<and> map_of indeg k = Some (int (card {p. (p, k) \<in> aug_edges s})))"
    using es d(1) by (simp add: aug_start_def)
qed

lemma check_augmented_eq:
  assumes "wf_static s" "valid_iter iter"
  shows "check_augmented_acyclic iter s = aug.acyclic_check iter s CyclicScheduleError"
proof -
  obtain es where es: "augmented_edges iter s = Inr es" "map fst es = sw_order s"
    using augmented_edges_value [OF assms(2,1)] by blast
  then have "length es = length (sw_order s)" by (metis length_map)
  then show ?thesis
    by (simp add: check_augmented_acyclic_def aug.acyclic_check_def aug_start_def es(1) bindr_assoc)
qed

text \<open>
  The augmented check decides whether the fixed worker order is feasible: for a static schedule
  whose order enumerates the tasks, \<^verbatim>\<open>check_augmented_acyclic\<close> returns normally exactly when the
  dependencies together with the same-worker sequence edges have no cycle.
\<close>

theorem check_augmented_decides:
  assumes "wf_static s" "valid_iter iter"
  shows "check_augmented_acyclic iter s =
    (if acyclic (task_edges (sw_deps s) \<union> seq_edges s) then Inr () else Inl CyclicScheduleError)"
  using aug.acyclic_check_iff [OF assms] check_augmented_eq [OF assms] by (simp add: aug_edges_def)

definition demo_static :: "(TaskKey \<times> TaskKey set) list \<Rightarrow> TaskKey list \<Rightarrow> StaticWorkerSchedule" where
  "demo_static ps order = \<lparr>sw_workers = 1, sw_order = order, sw_assignment = map (\<lambda>k. (k, 0)) order,
     sw_deps = demo_deps ps\<rparr>"

theorem check_augmented_decides_witness:
  "check_augmented_acyclic sorted_iter
     (demo_static [((''a'', 0), {}), ((''b'', 1), {(''a'', 0)})] [(''b'', 1), (''a'', 0)])
   = Inl CyclicScheduleError"
proof -
  let ?s = "demo_static [((''a'', 0), {}), ((''b'', 1), {(''a'', 0)})] [(''b'', 1), (''a'', 0)]"
  have s: "wf_static ?s"
    by (auto simp: wf_static_def wf_deps_def wf_preds_def dict_wf_def demo_static_def demo_deps_def)
  let ?E = "task_edges (sw_deps ?s) \<union> seq_edges ?s"
  have "((''a'', 0), (''b'', 1)) \<in> ?E"
    by (simp add: demo_static_def task_edges_def dep_edges_def demo_deps_def)
  moreover have "((''b'', 1), (''a'', 0)) \<in> ?E"
    by (simp add: demo_static_def seq_edges_def seq_of_def)
  ultimately have "((''a'', 0), (''a'', 0)) \<in> ?E\<^sup>+" by (meson trancl.intros)
  then have "\<not> acyclic ?E" by (auto simp: acyclic_def)
  then show ?thesis using check_augmented_decides [OF s valid_sorted_iter] by simp
qed

section \<open>The round-robin schedule\<close>

lemma sorted_roots_value:
  assumes "set (roots indeg) \<subseteq> dom (map_of tasks)"
  shows "\<exists>q. sorted_roots tasks indeg = Inr q \<and> mset q = mset (roots indeg)"
proof -
  let ?g = "\<lambda>k. (the (map_of tasks k), k)"
  have "mapr (\<lambda>k. bindr (dict_get tasks k) (\<lambda>ph. Inr (ph, k))) (roots indeg)
      = Inr (map ?g (roots indeg))"
    by (rule mapr_ok_pure) (use assms in \<open>auto simp: dict_get_def\<close>)
  moreover have "mset (map snd (sort_key (\<lambda>pk. pk) (map ?g (roots indeg)))) = mset (roots indeg)"
    by (simp add: multiset.map_comp comp_def)
  ultimately show ?thesis by (simp add: sorted_roots_def)
qed

lemma round_robin_fold:
  assumes "0 < workers" "distinct (map snd iks)" "snd ` set iks \<inter> fst ` set d = {}"
  shows "foldr_res (\<lambda>d (i, k). bindr (py_mod (int i) workers) (\<lambda>w. Inr (dict_set k w d))) d iks
    = Inr (d @ map (\<lambda>(i, k). (k, int i mod workers)) iks)"
  using assms(2,3)
proof (induction iks arbitrary: d)
  case (Cons ik iks)
  obtain i k where ik: "ik = (i, k)" by (cases ik)
  have "map_of d k = None" using Cons.prems ik by (auto simp: map_of_eq_None_iff)
  then have ds: "dict_set k (int i mod workers) d = d @ [(k, int i mod workers)]" by (rule dict_set_fresh)
  have "foldr_res (\<lambda>d (i, k). bindr (py_mod (int i) workers) (\<lambda>w. Inr (dict_set k w d)))
      (d @ [(k, int i mod workers)]) iks
    = Inr ((d @ [(k, int i mod workers)]) @ map (\<lambda>(i, k). (k, int i mod workers)) iks)"
    by (rule Cons.IH) (use Cons.prems ik in auto)
  then show ?case using assms(1) ik ds by (simp add: py_mod_def)
qed simp

lemma round_robin_value:
  assumes "0 < workers" "distinct order"
  shows "round_robin workers order
    = Inr (map (\<lambda>(i, k). (k, int i mod workers)) (zip [0..<length order] order))"
  using round_robin_fold [OF assms(1), of "zip [0..<length order] order" "[]"] assms(2)
  by (simp add: round_robin_def)

lemma round_robin_lookup:
  assumes "distinct order" "i < length order"
  shows "map_of (map (\<lambda>(i, k). (k, int i mod workers)) (zip [0..<length order] order)) (order ! i)
    = Some (int i mod workers)"
proof (rule map_of_is_SomeI)
  show "distinct (map fst (map (\<lambda>(i, k). (k, int i mod workers)) (zip [0..<length order] order)))"
    using assms(1) by (simp add: comp_def split_def)
  show "(order ! i, int i mod workers)
      \<in> set (map (\<lambda>(i, k). (k, int i mod workers)) (zip [0..<length order] order))"
    using assms(2) by (force simp: set_zip)
qed

text \<open>
  A schedule whose order is topological passes the augmented check, whatever the assignment: both
  kinds of edges go forward in the order.
\<close>

lemma topo_order_feasible:
  assumes "wf_static s" "topo (task_edges (sw_deps s)) (sw_order s)"
  shows "acyclic (aug_edges s)"
proof (rule forward_acyclic [of _ "pos_in (sw_order s)"])
  fix a b assume e: "(a, b) \<in> aug_edges s"
  have d: "distinct (sw_order s)" using assms(1) by (simp add: wf_static_def)
  show "pos_in (sw_order s) a < pos_in (sw_order s) b"
  proof (cases "(a, b) \<in> task_edges (sw_deps s)")
    case True
    then show ?thesis using topo_pos [OF assms(2) d] aug_edges_in [OF assms(1)] e by blast
  next
    case False
    then have "(a, b) \<in> seq_edges s" using e by (simp add: aug_edges_def)
    then obtain w where "(a, b) \<in> set (zip (seq_of s w) (tl (seq_of s w)))" by (auto simp: seq_edges_def)
    then show ?thesis unfolding seq_of_def by (rule filter_consecutive_pos [OF d])
  qed
qed

lemma static_schedule_value:
  assumes "wf_deps g" "fst ` set (td_preds g) \<subseteq> dom (map_of (td_tasks g))" "valid_iter iter"
    "0 < workers" "acyclic (task_edges g)"
  shows "\<exists>order. distinct order \<and> set order = fst ` set (td_preds g) \<and> topo (task_edges g) order
    \<and> build_static_worker_schedule iter g workers = Inr \<lparr>sw_workers = workers, sw_order = order,
        sw_assignment = map (\<lambda>(i, k). (k, int i mod workers)) (zip [0..<length order] order),
        sw_deps = g\<rparr>"
proof -
  let ?indeg = "indegrees (td_preds g)"
  have chk: "check_acyclic iter g = Inr ()"
    unfolding check_acyclic_eq using tdg.acyclic_check_iff [OF assms(1,3)] assms(5) by simp
  obtain succ where succ: "successors iter (td_preds g) = Inr succ"
    using successors_value [OF assms(3)] assms(1) by (auto simp: wf_deps_def)
  then have st: "deps_start iter g = Inr (succ, ?indeg)" by (simp add: deps_start_def)
  have "set (roots ?indeg) \<subseteq> fst ` set (td_preds g)"
    unfolding roots_def indegrees_def by (auto intro: rev_image_eqI)
  from sorted_roots_value [OF order.trans [OF this assms(2)]]
  obtain q where q: "sorted_roots (td_tasks g) ?indeg = Inr q" "mset q = mset (roots ?indeg)" by blast
  obtain order where o: "kahn_loop iter succ ?indeg q [] = Inr order" "distinct order"
    "set order = fst ` set (td_preds g)" "topo (task_edges g) order"
    using tdg.run_acyclic [OF assms(1,3) st q(2) assms(5)] unfolding list.set_map by blast
  have len: "length order = length (td_preds g)"
    using distinct_card [OF o(2)] distinct_card [OF tdg.verts_distinct [OF assms(1)]] o(3) by simp
  let ?asg = "map (\<lambda>(i, k). (k, int i mod workers)) (zip [0..<length order] order)"
  let ?s = "\<lparr>sw_workers = workers, sw_order = order, sw_assignment = ?asg, sw_deps = g\<rparr>"
  have "set order \<subseteq> dom (map_of ?asg)"
  proof
    fix k assume "k \<in> set order"
    then obtain i where "i < length order" "k = order ! i" unfolding in_set_conv_nth by blast
    then show "k \<in> dom (map_of ?asg)" using round_robin_lookup [OF o(2)] by (intro domI) simp
  qed
  then have wfs: "wf_static ?s" using assms(1) o(2,3) unfolding wf_static_def by simp
  then have "acyclic (aug_edges ?s)" using topo_order_feasible [of ?s] o(4) by simp
  then have "check_augmented_acyclic iter ?s = Inr ()"
    by (simp only: check_augmented_eq [OF wfs assms(3)] aug.acyclic_check_iff [OF wfs assms(3)] if_True)
  then have "build_static_worker_schedule iter g workers = Inr ?s"
    using chk succ q(1) o(1) len round_robin_value [OF assms(4) o(2)]
    by (simp add: build_static_worker_schedule_def Let_def)
  then show ?thesis by (intro exI [of _ order] conjI o(2-4))
qed

text \<open>
  C8: Static worker schedules are feasible by construction.  For a well-formed dependency graph and at
  least one worker, \<^verbatim>\<open>build_static_worker_schedule\<close> raises \<^verbatim>\<open>CyclicScheduleError\<close> when the dependencies
  have a cycle; otherwise it succeeds (the augmented check never fires), its order lists every task
  once with all predecessors before it, and the task at position \<open>i\<close> goes to worker \<open>i mod workers\<close>.
\<close>

theorem static_schedule_correct:
  assumes "wf_deps g" "fst ` set (td_preds g) \<subseteq> dom (map_of (td_tasks g))" "valid_iter iter"
    "0 < workers"
  shows "if acyclic (task_edges g)
    then \<exists>s. build_static_worker_schedule iter g workers = Inr s
      \<and> sw_workers s = workers \<and> sw_deps s = g
      \<and> distinct (sw_order s) \<and> set (sw_order s) = fst ` set (td_preds g)
      \<and> topo (task_edges g) (sw_order s)
      \<and> (\<forall>i < length (sw_order s).
            map_of (sw_assignment s) (sw_order s ! i) = Some (int i mod workers))
    else build_static_worker_schedule iter g workers = Inl CyclicScheduleError"
proof (cases "acyclic (task_edges g)")
  case True
  from static_schedule_value [OF assms this] obtain order where o: "distinct order"
    "set order = fst ` set (td_preds g)" "topo (task_edges g) order"
    "build_static_worker_schedule iter g workers = Inr \<lparr>sw_workers = workers, sw_order = order,
        sw_assignment = map (\<lambda>(i, k). (k, int i mod workers)) (zip [0..<length order] order),
        sw_deps = g\<rparr>" by blast
  show ?thesis using True o round_robin_lookup [OF o(1)] by simp
next
  case False
  then have "check_acyclic iter g = Inl CyclicScheduleError"
    unfolding check_acyclic_eq using tdg.acyclic_check_iff [OF assms(1,3)] by simp
  then show ?thesis using False by (simp add: build_static_worker_schedule_def)
qed

theorem static_schedule_correct_witness:
  "\<exists>s. build_static_worker_schedule sorted_iter
       (demo_deps [((''a'', 0), {}), ((''b'', 1), {(''a'', 0)})]) 2 = Inr s
     \<and> sw_workers s = 2 \<and> length (sw_order s) = 2"
proof -
  let ?h = "demo_deps [((''a'', 0), {}), ((''b'', 1), {(''a'', 0)})]"
  have h: "wf_deps ?h" "fst ` set (td_preds ?h) \<subseteq> dom (map_of (td_tasks ?h))"
    by (auto simp: wf_deps_def wf_preds_def dict_wf_def demo_deps_def)
  have "acyclic (task_edges ?h)"
    by (rule forward_acyclic [of _ "\<lambda>k. nat (snd k)"])
       (auto simp: task_edges_def dep_edges_def demo_deps_def)
  with static_schedule_correct [OF h valid_sorted_iter, of 2] obtain s where
    s: "build_static_worker_schedule sorted_iter ?h 2 = Inr s" "sw_workers s = 2"
    "distinct (sw_order s)" "set (sw_order s) = fst ` set (td_preds ?h)" by auto
  have "length (sw_order s) = card {(''a'', 0 :: int), (''b'', 1)}"
    using s(3,4) by (simp add: demo_deps_def flip: distinct_card)
  then show ?thesis using s by simp
qed

end
