(* ===== verification/Tile_Dependencies.thy ===== *)
theory Tile_Dependencies
  imports Schedule_Static
begin

text \<open>
  What \<^verbatim>\<open>build_tile_dependencies\<close> computes: the dependency graph has one vertex per task and
  exactly the tile conflicts between tasks of hazardous operators as edges; it is always acyclic, so
  the static schedule built from it always exists.
\<close>

section \<open>Tile conflicts\<close>

definition tile_reads :: "TaskFamily \<Rightarrow> int \<Rightarrow> Region list" where
  "tile_reads f t = (case fam_reads f t of Inl _ \<Rightarrow> [] | Inr rs \<Rightarrow> rs)"

definition tile_writes :: "TaskFamily \<Rightarrow> int \<Rightarrow> Region list" where
  "tile_writes f t = (case fam_writes f t of Inl _ \<Rightarrow> [] | Inr rs \<Rightarrow> rs)"

definition regions_meet :: "Region list \<Rightarrow> Region list \<Rightarrow> bool" where
  "regions_meet rs ss = (\<exists>r \<in> set rs. \<exists>s \<in> set ss. overlaps r s)"

definition tile_conflict :: "hazard_kind \<Rightarrow> TaskFamily \<Rightarrow> int \<Rightarrow> TaskFamily \<Rightarrow> int \<Rightarrow> bool" where
  "tile_conflict kind u tu v tv =
     (case kind of
        HAZARD_RAW \<Rightarrow> regions_meet (tile_writes u tu) (tile_reads v tv)
      | HAZARD_WAR \<Rightarrow> regions_meet (tile_reads u tu) (tile_writes v tv)
      | HAZARD_WAW \<Rightarrow> regions_meet (tile_writes u tu) (tile_writes v tv))"

text \<open>A family whose domain is well formed and whose region callbacks succeed on its tasks.\<close>

definition tile_ok :: "TaskFamily \<Rightarrow> bool" where
  "tile_ok f = (wf_family f \<and> (\<forall>t. 0 \<le> t \<and> t < fam_ntasks f \<longrightarrow>
     is_ok (fam_reads f t) \<and> is_ok (fam_writes f t)))"

lemma any_overlaps_value: "any_overlaps rs (Inr ss) = Inr (regions_meet rs ss)"
  by (induction rs) (auto simp: regions_meet_def list_ex_iff)

lemma tile_access:
  assumes "tile_ok f" "0 \<le> t" "t < fam_ntasks f"
  shows "fam_reads f t = Inr (tile_reads f t)" "fam_writes f t = Inr (tile_writes f t)"
proof -
  have "is_ok (fam_reads f t)" "is_ok (fam_writes f t)" using assms by (auto simp: tile_ok_def)
  then show "fam_reads f t = Inr (tile_reads f t)" "fam_writes f t = Inr (tile_writes f t)"
    by (auto simp: is_ok_iff tile_reads_def tile_writes_def)
qed

lemma task_pair_hazard_value:
  assumes "tile_ok u" "0 \<le> tu" "tu < fam_ntasks u" "tile_ok v" "0 \<le> tv" "tv < fam_ntasks v"
  shows "task_pair_hazard kind u tu v tv = Inr (tile_conflict kind u tu v tv)"
  using tile_access [OF assms(1-3)] tile_access [OF assms(4-6)]
  by (cases kind) (simp_all add: task_pair_hazard_def tile_conflict_def any_overlaps_value)

section \<open>Registration\<close>

definition tagged :: "PhasePlan list \<Rightarrow> (int \<times> TaskFamily) list" where
  "tagged phases = concat (map (\<lambda>p. map (\<lambda>f. (ph_index p, f)) (ph_families p)) phases)"

definition fam_keys :: "TaskFamily \<Rightarrow> TaskKey list" where
  "fam_keys f = map (\<lambda>t. (fam_id f, t)) (urange (fam_ntasks f))"

definition registered :: "(int \<times> TaskFamily) list \<Rightarrow> (int, int) dict \<times> TaskDependencyGraph" where
  "registered ifs =
     (map (\<lambda>(i, f). (fam_opid f, i)) ifs,
      \<lparr>td_tasks = concat (map (\<lambda>(i, f). map (\<lambda>k. (k, i)) (fam_keys f)) ifs),
       td_preds = concat (map (\<lambda>(i, f). map (\<lambda>k. (k, {})) (fam_keys f)) ifs)\<rparr>)"

lemma foldr_res_concat:
  assumes "\<And>s x. x \<in> set xs \<Longrightarrow> f s x = foldr_res g s (h x)"
  shows "foldr_res f s xs = foldr_res g s (concat (map h xs))"
  using assms by (induction xs arbitrary: s) (auto simp: foldr_res_append)

lemma register_all_tagged:
  "register_all phases = foldr_res (\<lambda>acc (i, f). register_family i acc f)
     ([], \<lparr>td_tasks = [], td_preds = []\<rparr>) (tagged phases)"
  unfolding register_all_def tagged_def
  by (rule foldr_res_concat) (simp add: foldr_res_map)

lemma register_tasks_fold:
  assumes "distinct ts" "\<forall>t \<in> set ts. (fid, t) \<notin> fst ` set (td_tasks g) \<and> (fid, t) \<notin> fst ` set (td_preds g)"
  shows "foldl (register_task fid ph) g ts =
    g\<lparr>td_tasks := td_tasks g @ map (\<lambda>t. ((fid, t), ph)) ts,
      td_preds := td_preds g @ map (\<lambda>t. ((fid, t), {})) ts\<rparr>"
  using assms
proof (induction ts arbitrary: g)
  case (Cons t ts)
  have "map_of (td_tasks g) (fid, t) = None" "map_of (td_preds g) (fid, t) = None"
    using Cons.prems by (auto simp: map_of_eq_None_iff)
  then have r: "register_task fid ph g t = g\<lparr>td_tasks := td_tasks g @ [((fid, t), ph)],
      td_preds := td_preds g @ [((fid, t), {})]\<rparr>"
    by (simp add: register_task_def dict_set_fresh dict_setdefault_def)
  show ?case
    unfolding foldl_Cons r by (subst Cons.IH) (use Cons.prems in auto)
qed simp

lemma registered_keys:
  "fst ` set (td_tasks (snd (registered ifs))) = (\<Union>f \<in> snd ` set ifs. set (fam_keys f))"
  "fst ` set (td_preds (snd (registered ifs))) = (\<Union>f \<in> snd ` set ifs. set (fam_keys f))"
  by (force simp: registered_def)+

lemma register_all_value:
  assumes "\<forall>f \<in> snd ` set ifs. wf_family f" "distinct (map (\<lambda>(i, f). fam_opid f) ifs)"
    "distinct (map (\<lambda>(i, f). fam_id f) ifs)"
  shows "foldr_res (\<lambda>acc (i, f). register_family i acc f)
     ([], \<lparr>td_tasks = [], td_preds = []\<rparr>) ifs = Inr (registered ifs)"
  using assms
proof (induction ifs rule: rev_induct)
  case Nil
  then show ?case by (simp add: registered_def)
next
  case (snoc jf ifs)
  obtain i f where jf: "jf = (i, f)" by (cases jf)
  obtain po g where po: "registered ifs = (po, g)" by (cases "registered ifs")
  have IH: "foldr_res (\<lambda>acc (i, f). register_family i acc f)
     ([], \<lparr>td_tasks = [], td_preds = []\<rparr>) ifs = Inr (po, g)"
    using snoc po by auto
  have wf: "wf_family f" using snoc.prems jf by auto
  have "fam_id f \<notin> fam_id ` snd ` set ifs" using snoc.prems(3) jf by (force simp: image_iff)
  then have "\<forall>t \<in> set (urange (fam_ntasks f)).
      (fam_id f, t) \<notin> fst ` set (td_tasks g) \<and> (fam_id f, t) \<notin> fst ` set (td_preds g)"
    using registered_keys [of ifs] po by (auto simp: fam_keys_def)
  note r = register_tasks_fold [OF distinct_urange this, of i]
  have "fam_opid f \<notin> fst ` set po" using snoc.prems(2) jf po by (force simp: registered_def image_iff)
  then have "dict_set (fam_opid f) i po = po @ [(fam_opid f, i)]"
    by (intro dict_set_fresh) (simp add: map_of_eq_None_iff)
  with r wf have "register_family i (po, g) f = Inr (registered (ifs @ [(i, f)]))"
    using po by (simp add: register_family_def registered_def fam_keys_def comp_def)
       (auto simp: comp_def)
  then show ?case using IH jf by (simp add: foldr_res_append)
qed

section \<open>Expansion of hazards\<close>

text \<open>The pairs (consumer task, producer task) one hazard adds.\<close>

definition hazard_pairs :: "hazard_kind \<Rightarrow> TaskFamily \<Rightarrow> TaskFamily \<Rightarrow> (TaskKey \<times> TaskKey) list" where
  "hazard_pairs kind u v =
     concat (map (\<lambda>tu. concat (map (\<lambda>tv.
        if tile_conflict kind u tu v tv then [((fam_id v, tv), (fam_id u, tu))] else [])
       (urange (fam_ntasks v)))) (urange (fam_ntasks u)))"

lemma set_hazard_pairs:
  "(kv, ku) \<in> set (hazard_pairs kind u v) \<longleftrightarrow>
     (\<exists>tu tv. 0 \<le> tu \<and> tu < fam_ntasks u \<and> 0 \<le> tv \<and> tv < fam_ntasks v
        \<and> tile_conflict kind u tu v tv \<and> ku = (fam_id u, tu) \<and> kv = (fam_id v, tv))"
  by (auto simp: hazard_pairs_def split: if_splits)

lemma add_pred_edge: "add_pred kv ku preds = add_edge preds (kv, ku)"
  by (simp add: add_pred_def add_edge_def add_succ_def)

lemma expand_loops:
  assumes "tile_ok u" "tile_ok v"
  shows "bindr (fam_task_count u) (\<lambda>nu. foldr_res (\<lambda>preds tu.
           bindr (fam_task_count v) (\<lambda>nv. foldr_res (expand_pair kind u v tu) preds (urange nv)))
           preds (urange nu))
    = foldr_res add_edge preds (hazard_pairs kind u v)"
proof -
  have c: "fam_task_count u = Inr (fam_ntasks u)" "fam_task_count v = Inr (fam_ntasks v)"
    using assms by (simp_all add: tile_ok_def)
  have inner: "foldr_res (expand_pair kind u v tu) preds (urange (fam_ntasks v))
      = foldr_res add_edge preds (concat (map (\<lambda>tv.
          if tile_conflict kind u tu v tv then [((fam_id v, tv), (fam_id u, tu))] else [])
          (urange (fam_ntasks v))))" if "tu \<in> set (urange (fam_ntasks u))" for tu preds
  proof (rule foldr_res_concat)
    fix preds tv assume "tv \<in> set (urange (fam_ntasks v))"
    with that have "task_pair_hazard kind u tu v tv = Inr (tile_conflict kind u tu v tv)"
      by (intro task_pair_hazard_value assms) auto
    then show "expand_pair kind u v tu preds tv = foldr_res add_edge preds
        (if tile_conflict kind u tu v tv then [((fam_id v, tv), (fam_id u, tu))] else [])"
      by (simp add: expand_pair_def add_pred_edge)
  qed
  show ?thesis unfolding hazard_pairs_def c bindr.simps
    by (rule foldr_res_concat) (rule inner)
qed

text \<open>The hypotheses on a schedule: one family per operator, family names unique, callbacks total.\<close>

definition tile_sched :: "PhaseSchedule \<Rightarrow> bool" where
  "tile_sched s = ((\<forall>f \<in> set (sched_families s). tile_ok f)
     \<and> distinct (map fam_opid (sched_families s)) \<and> distinct (map fam_id (sched_families s)))"

definition task_keys :: "PhaseSchedule \<Rightarrow> TaskKey list" where
  "task_keys s = concat (map fam_keys (sched_families s))"

definition phase_of_fam :: "PhaseSchedule \<Rightarrow> nat \<Rightarrow> int" where
  "phase_of_fam s i = fst (tagged (ps_phases s) ! i)"

definition within_span :: "int option \<Rightarrow> int \<Rightarrow> int \<Rightarrow> bool" where
  "within_span max_span pu pv = (case max_span of None \<Rightarrow> True | Some m \<Rightarrow> pv - pu \<le> m)"

lemma tagged_families: "map snd (tagged (ps_phases s)) = sched_families s"
  by (simp add: tagged_def sched_families_def map_concat comp_def)

lemma length_tagged: "length (tagged (ps_phases s)) = length (sched_families s)"
  using tagged_families [of s] by (metis length_map)

lemma tagged_nth:
  "i < length (sched_families s) \<Longrightarrow>
   tagged (ps_phases s) ! i = (phase_of_fam s i, sched_families s ! i)"
  using tagged_families [of s] length_tagged [of s]
  by (metis nth_map phase_of_fam_def prod.collapse)

lemma families_by_opid_fold:
  "distinct (map fam_opid fams @ map fst d) \<Longrightarrow>
   foldl (\<lambda>d fam. dict_set (fam_opid fam) fam d) d fams = d @ map (\<lambda>f. (fam_opid f, f)) fams"
proof (induction fams arbitrary: d)
  case (Cons f fams)
  then have "map_of d (fam_opid f) = None" by (auto simp: map_of_eq_None_iff)
  then show ?case using Cons by (simp add: dict_set_fresh)
qed simp

lemma families_by_opid_lookup:
  assumes "distinct (map fam_opid fams)" "i < length fams"
  shows "map_of (families_by_opid fams) (fam_opid (fams ! i)) = Some (fams ! i)"
proof -
  have "families_by_opid fams = map (\<lambda>f. (fam_opid f, f)) fams"
    using families_by_opid_fold [of fams "[]"] assms(1) by (simp add: families_by_opid_def)
  then show ?thesis using assms by (intro map_of_is_SomeI) (auto simp: comp_def)
qed

lemma phase_of_lookup:
  assumes "tile_sched s" "i < length (sched_families s)"
  shows "map_of (fst (registered (tagged (ps_phases s)))) (fam_opid (sched_families s ! i))
    = Some (phase_of_fam s i)"
proof (rule map_of_is_SomeI)
  have "map fst (fst (registered (tagged (ps_phases s)))) = map fam_opid (map snd (tagged (ps_phases s)))"
    by (simp add: registered_def comp_def split_def)
  then show "distinct (map fst (fst (registered (tagged (ps_phases s)))))"
    using assms(1) unfolding tagged_families by (simp add: tile_sched_def)
  have "tagged (ps_phases s) ! i \<in> set (tagged (ps_phases s))" using assms(2) by (simp add: length_tagged)
  then show "(fam_opid (sched_families s ! i), phase_of_fam s i) \<in> set (fst (registered (tagged (ps_phases s))))"
    unfolding tagged_nth [OF assms(2)] by (force simp: registered_def)
qed

text \<open>Dependencies as a list of pairs, one block per hazard.\<close>

definition pairs_between :: "PhaseSchedule \<Rightarrow> int option \<Rightarrow> hazard_kind \<Rightarrow> nat \<Rightarrow> nat \<Rightarrow> (TaskKey \<times> TaskKey) list" where
  "pairs_between s max_span kind i j =
     (if within_span max_span (phase_of_fam s i) (phase_of_fam s j)
      then hazard_pairs kind (sched_families s ! i) (sched_families s ! j) else [])"

definition pairs_of :: "PhaseSchedule \<Rightarrow> int option \<Rightarrow> Hazard \<Rightarrow> (TaskKey \<times> TaskKey) list" where
  "pairs_of s max_span hz =
     pairs_between s max_span (hz_kind hz)
       (pos_in (map fam_opid (sched_families s)) (hz_producer hz))
       (pos_in (map fam_opid (sched_families s)) (hz_consumer hz))"

definition all_pairs :: "PhaseSchedule \<Rightarrow> int option \<Rightarrow> (TaskKey \<times> TaskKey) list" where
  "all_pairs s max_span =
     concat (map (pairs_of s max_span) (compute_hazards (map fam_op (sched_families s))))"

lemma fam_opid_pos:
  assumes "tile_sched s" "i < length (sched_families s)"
  shows "pos_in (map fam_opid (sched_families s)) (fam_opid (sched_families s ! i)) = i"
  using pos_in_nth [of "map fam_opid (sched_families s)" i] assms by (simp add: tile_sched_def)

lemma expand_hazard_value:
  assumes "tile_sched s" "hz \<in> set (compute_hazards (map fam_op (sched_families s)))"
  shows "expand_hazard max_span (families_by_opid (sched_families s))
      (fst (registered (tagged (ps_phases s)))) preds hz
    = foldr_res add_edge preds (pairs_of s max_span hz)"
proof -
  let ?F = "sched_families s"
  obtain i j k sid where ij: "i < j" "j < length ?F"
    and hz: "hz = mk_Hazard k (fam_opid (?F ! i)) (fam_opid (?F ! j)) sid"
    using assms(2) by (auto simp: compute_hazards_iff)
  have ok: "tile_ok (?F ! i)" "tile_ok (?F ! j)" and d: "distinct (map fam_opid ?F)"
    using assms(1) ij by (simp_all add: tile_sched_def)
  have u: "dict_get (families_by_opid ?F) (hz_producer hz) = Inr (?F ! i)"
    and v: "dict_get (families_by_opid ?F) (hz_consumer hz) = Inr (?F ! j)"
    using families_by_opid_lookup [OF d] ij by (simp_all add: hz mk_Hazard_def)
  have sp: "over_span max_span (fst (registered (tagged (ps_phases s)))) (?F ! i) (?F ! j)
      = Inr (\<not> within_span max_span (phase_of_fam s i) (phase_of_fam s j))"
    using phase_of_lookup [OF assms(1)] ij
    by (auto simp: over_span_def within_span_def dict_get_def split: option.split)
  have p: "pairs_of s max_span hz = pairs_between s max_span k i j"
    using fam_opid_pos [OF assms(1)] ij by (simp add: pairs_of_def hz mk_Hazard_def)
  show ?thesis
    unfolding p pairs_between_def expand_hazard_def u v bindr.simps sp
    using expand_loops [OF ok] by (simp add: hz mk_Hazard_def)
qed

lemma all_pairs_iff:
  assumes "tile_sched s"
  shows "(kv, ku) \<in> set (all_pairs s max_span) \<longleftrightarrow>
    (\<exists>i j k tu tv. i < j \<and> j < length (sched_families s)
       \<and> (\<exists>sid. conflict_on k (fam_op (sched_families s ! i)) (fam_op (sched_families s ! j)) sid)
       \<and> within_span max_span (phase_of_fam s i) (phase_of_fam s j)
       \<and> 0 \<le> tu \<and> tu < fam_ntasks (sched_families s ! i)
       \<and> 0 \<le> tv \<and> tv < fam_ntasks (sched_families s ! j)
       \<and> tile_conflict k (sched_families s ! i) tu (sched_families s ! j) tv
       \<and> ku = (fam_id (sched_families s ! i), tu) \<and> kv = (fam_id (sched_families s ! j), tv))"
    (is "_ \<longleftrightarrow> ?R")
proof -
  let ?F = "sched_families s"
  have "(kv, ku) \<in> set (all_pairs s max_span) \<longleftrightarrow>
      (\<exists>i j k sid. i < j \<and> j < length ?F \<and> conflict_on k (fam_op (?F ! i)) (fam_op (?F ! j)) sid
        \<and> (kv, ku) \<in> set (pairs_of s max_span (mk_Hazard k (fam_opid (?F ! i)) (fam_opid (?F ! j)) sid)))"
  proof -
    have "(kv, ku) \<in> set (all_pairs s max_span) \<longleftrightarrow>
        (\<exists>hz. hz \<in> set (compute_hazards (map fam_op ?F)) \<and> (kv, ku) \<in> set (pairs_of s max_span hz))"
      by (auto simp: all_pairs_def)
    also have "\<dots> \<longleftrightarrow> (\<exists>hz i j k sid. i < j \<and> j < length ?F
          \<and> conflict_on k (fam_op (?F ! i)) (fam_op (?F ! j)) sid
          \<and> hz = mk_Hazard k (fam_opid (?F ! i)) (fam_opid (?F ! j)) sid
          \<and> (kv, ku) \<in> set (pairs_of s max_span hz))"
      unfolding compute_hazards_iff by (simp cong: conj_cong) blast
    finally show ?thesis by blast
  qed
  also have "\<dots> \<longleftrightarrow> (\<exists>i j k sid. i < j \<and> j < length ?F
        \<and> conflict_on k (fam_op (?F ! i)) (fam_op (?F ! j)) sid
        \<and> (kv, ku) \<in> set (pairs_between s max_span k i j))"
    using fam_opid_pos [OF assms] by (simp add: pairs_of_def mk_Hazard_def cong: conj_cong)
  also have "\<dots> \<longleftrightarrow> ?R"
    unfolding pairs_between_def by (auto simp: set_hazard_pairs split: if_splits)
  finally show ?thesis .
qed

section \<open>The dependency graph\<close>

lemma build_tile_value:
  assumes "tile_sched s"
  shows "\<exists>g. build_tile_dependencies s max_span = Inr g
    \<and> map fst (td_preds g) = task_keys s \<and> fst ` set (td_tasks g) = set (task_keys s)
    \<and> (\<forall>k \<in> set (task_keys s). map_of (td_preds g) k = Some {p. (k, p) \<in> set (all_pairs s max_span)})"
proof -
  let ?T = "tagged (ps_phases s)" and ?F = "sched_families s"
  have "snd ` set ?T = set ?F" using tagged_families [of s] by (metis list.set_map)
  moreover have "distinct (map (\<lambda>(i, f). fam_opid f) ?T)" "distinct (map (\<lambda>(i, f). fam_id f) ?T)"
    using assms unfolding tile_sched_def tagged_families [of s, symmetric]
    by (simp_all add: split_def comp_def)
  ultimately have r: "register_all (ps_phases s) = Inr (registered ?T)"
    unfolding register_all_tagged using assms
    by (intro register_all_value) (auto simp: tile_sched_def tile_ok_def)
  let ?P = "td_preds (snd (registered ?T))"
  have P: "?P = map (\<lambda>k. (k, {})) (task_keys s)"
    unfolding task_keys_def tagged_families [symmetric]
    by (simp add: registered_def map_concat comp_def split_def)
  have "foldr_res (expand_hazard max_span (families_by_opid ?F) (fst (registered ?T))) ?P
      (compute_hazards (map fam_op ?F)) = foldr_res add_edge ?P (all_pairs s max_span)"
    unfolding all_pairs_def by (rule foldr_res_concat) (rule expand_hazard_value [OF assms])
  moreover have "fst ` set (all_pairs s max_span) \<subseteq> set (task_keys s)"
  proof
    fix kv assume "kv \<in> fst ` set (all_pairs s max_span)"
    then obtain ku where "(kv, ku) \<in> set (all_pairs s max_span)" by auto
    then show "kv \<in> set (task_keys s)"
      unfolding all_pairs_iff [OF assms] by (auto simp: task_keys_def fam_keys_def) force
  qed
  then have "fst ` set (all_pairs s max_span) \<subseteq> dom (map_of ?P)"
    by (simp add: P dom_map_of_conv_image_fst image_image)
  from add_edge_fold [OF this] obtain preds where p: "foldr_res add_edge ?P (all_pairs s max_span) = Inr preds"
    "map fst preds = map fst ?P"
    "\<And>x. map_of preds x = map_option (\<lambda>S. S \<union> {b. (x, b) \<in> set (all_pairs s max_span)}) (map_of ?P x)"
    by blast
  ultimately have b: "build_tile_dependencies s max_span = Inr ((snd (registered ?T))\<lparr>td_preds := preds\<rparr>)"
    by (simp add: build_tile_dependencies_def r split_def Let_def)
  have keys: "map fst preds = task_keys s" using p(2) by (simp add: P comp_def)
  have "map_of preds k = Some {b. (k, b) \<in> set (all_pairs s max_span)}" if "k \<in> set (task_keys s)" for k
    using that p(3) [of k] by (simp add: P map_of_map_restrict comp_def restrict_map_def)
  moreover have "fst ` set (td_tasks (snd (registered ?T))) = set (task_keys s)"
    using registered_keys(1) [of ?T] registered_keys(2) [of ?T] by (simp add: P image_image)
  ultimately show ?thesis using b keys by auto
qed

lemma task_keys_distinct: "tile_sched s \<Longrightarrow> distinct (task_keys s)"
  unfolding task_keys_def
proof (rule distinct_concat_map)
  assume "tile_sched s"
  then have d: "distinct (map fam_id (sched_families s))" by (simp add: tile_sched_def)
  then show "distinct (sched_families s)" by (simp add: distinct_map)
  show "distinct (fam_keys f)" for f by (simp add: fam_keys_def distinct_map inj_on_def)
  fix f g assume "f \<in> set (sched_families s)" "g \<in> set (sched_families s)" "f \<noteq> g"
  then have "fam_id f \<noteq> fam_id g" using d by (auto simp: distinct_map inj_on_def)
  then show "set (fam_keys f) \<inter> set (fam_keys g) = {}" by (auto simp: fam_keys_def)
qed

lemma all_pairs_keys:
  assumes "tile_sched s" "(kv, ku) \<in> set (all_pairs s max_span)"
  shows "kv \<in> set (task_keys s)" "ku \<in> set (task_keys s)"
proof -
  obtain i j tu tv where ij: "i < j" "j < length (sched_families s)"
    and t: "0 \<le> tu" "tu < fam_ntasks (sched_families s ! i)" "0 \<le> tv" "tv < fam_ntasks (sched_families s ! j)"
    and k: "ku = (fam_id (sched_families s ! i), tu)" "kv = (fam_id (sched_families s ! j), tv)"
    using assms(2) unfolding all_pairs_iff [OF assms(1)] by blast
  have "sched_families s ! i \<in> set (sched_families s)" "sched_families s ! j \<in> set (sched_families s)"
    using ij by auto
  with t k show "kv \<in> set (task_keys s)" "ku \<in> set (task_keys s)"
    by (force simp: task_keys_def fam_keys_def)+
qed

lemma tile_graph:
  assumes "tile_sched s"
  shows "\<exists>g. build_tile_dependencies s max_span = Inr g \<and> wf_deps g
    \<and> map fst (td_preds g) = task_keys s \<and> fst ` set (td_tasks g) = set (task_keys s)
    \<and> task_edges g = {(ku, kv). (kv, ku) \<in> set (all_pairs s max_span)}"
proof -
  obtain g where g: "build_tile_dependencies s max_span = Inr g" "map fst (td_preds g) = task_keys s"
    "fst ` set (td_tasks g) = set (task_keys s)"
    and m: "\<And>k. k \<in> set (task_keys s) \<Longrightarrow>
        map_of (td_preds g) k = Some {p. (k, p) \<in> set (all_pairs s max_span)}"
    using build_tile_value [OF assms, of max_span] by blast
  have d: "dict_wf (td_preds g)" using task_keys_distinct [OF assms] g(2) by (simp add: dict_wf_def)
  have ks: "fst ` set (td_preds g) = set (task_keys s)" using g(2) by (metis list.set_map)
  have mo: "map_of (td_preds g) k = (if k \<in> set (task_keys s)
      then Some {p. (k, p) \<in> set (all_pairs s max_span)} else None)" for k
    using m [of k] ks by (simp add: map_of_eq_None_iff)
  have mem: "(k, ps) \<in> set (td_preds g) \<longleftrightarrow>
      k \<in> set (task_keys s) \<and> ps = {p. (k, p) \<in> set (all_pairs s max_span)}" for k ps
    unfolding dict_mem_iff [OF d] mo by (simp split: if_split) metis
  have fin: "finite {p. (k, p) \<in> set (all_pairs s max_span)}" for k
    by (rule finite_subset [of _ "Range (set (all_pairs s max_span))"]) (blast, simp add: finite_Range)
  have sub: "{p. (k, p) \<in> set (all_pairs s max_span)} \<subseteq> set (task_keys s)" for k
    by (intro subsetI, unfold mem_Collect_eq) (rule all_pairs_keys(2) [OF assms])
  have "wf_deps g"
    unfolding wf_deps_def wf_preds_def ks
  proof (intro conjI d ballI, clarify)
    fix fid t ps assume "((fid, t), ps) \<in> set (td_preds g)"
    then have "ps = {p. ((fid, t), p) \<in> set (all_pairs s max_span)}" using mem by blast
    then show "finite ps \<and> ps \<subseteq> set (task_keys s)" using fin sub by simp
  qed
  moreover have "task_edges g = {(ku, kv). (kv, ku) \<in> set (all_pairs s max_span)}"
  proof -
    have "(p, k) \<in> task_edges g \<longleftrightarrow> (k, p) \<in> set (all_pairs s max_span)" for p k
      using all_pairs_keys(1) [OF assms, of k p] by (auto simp: task_edges_def dep_edges_def mem)
    then show ?thesis by blast
  qed
  ultimately show ?thesis by (intro exI [of _ g] conjI g(1,2,3))
qed

lemma fam_id_pos:
  assumes "tile_sched s" "i < length (sched_families s)"
  shows "pos_in (map fam_id (sched_families s)) (fam_id (sched_families s ! i)) = i"
  using pos_in_nth [of "map fam_id (sched_families s)" i] assms by (simp add: tile_sched_def)

lemma all_pairs_forward:
  assumes "tile_sched s" "(kv, ku) \<in> set (all_pairs s max_span)"
  shows "pos_in (map fam_id (sched_families s)) (fst ku) < pos_in (map fam_id (sched_families s)) (fst kv)"
proof -
  obtain i j where "i < j" "j < length (sched_families s)"
    "fst ku = fam_id (sched_families s ! i)" "fst kv = fam_id (sched_families s ! j)"
    using assms(2) unfolding all_pairs_iff [OF assms(1)] by auto
  then show ?thesis using fam_id_pos [OF assms(1)] by simp
qed

lemma tile_graph_acyclic:
  assumes "tile_sched s" "task_edges g = {(ku, kv). (kv, ku) \<in> set (all_pairs s max_span)}"
  shows "acyclic (task_edges g)"
  by (rule forward_acyclic [of _ "\<lambda>k. pos_in (map fam_id (sched_families s)) (fst k)"])
     (use all_pairs_forward [OF assms(1)] assms(2) in blast)

lemma all_pairs_at:
  assumes "tile_sched s" "i < length (sched_families s)" "j < length (sched_families s)"
  shows "((fam_id (sched_families s ! j), tv), (fam_id (sched_families s ! i), tu)) \<in> set (all_pairs s max_span)
    \<longleftrightarrow> i < j \<and> within_span max_span (phase_of_fam s i) (phase_of_fam s j)
      \<and> 0 \<le> tu \<and> tu < fam_ntasks (sched_families s ! i)
      \<and> 0 \<le> tv \<and> tv < fam_ntasks (sched_families s ! j)
      \<and> (\<exists>k. (\<exists>sid. conflict_on k (fam_op (sched_families s ! i)) (fam_op (sched_families s ! j)) sid)
            \<and> tile_conflict k (sched_families s ! i) tu (sched_families s ! j) tv)"
proof -
  let ?F = "sched_families s"
  have inj: "fam_id (?F ! a) = fam_id (?F ! b) \<longleftrightarrow> a = b" if "a < length ?F" "b < length ?F" for a b
    using fam_id_pos [OF assms(1)] that by metis
  show ?thesis
    unfolding all_pairs_iff [OF assms(1)] prod.inject
    using inj assms(2,3) by (auto dest: less_trans) (metis less_trans)+
qed

text \<open>
  C9: Tile dependencies are exact.  When every operator has one task family, family names are unique
  and the region callbacks are defined on the tasks, \<^verbatim>\<open>build_tile_dependencies\<close> succeeds with one
  vertex per task, and task \<open>tu\<close> of family \<open>i\<close> precedes task \<open>tv\<close> of family \<open>j\<close> exactly when
  \<open>i\<close> comes before \<open>j\<close>, the phases are within \<^verbatim>\<open>max_span\<close>, and for some hazard kind both the two
  operators conflict and the two tiles conflict.  The graph is always acyclic.
\<close>

theorem tile_dependencies_exact:
  assumes "tile_sched s"
  shows "\<exists>g. build_tile_dependencies s max_span = Inr g \<and> map fst (td_preds g) = task_keys s
    \<and> acyclic (task_edges g)
    \<and> (\<forall>i < length (sched_families s). \<forall>j < length (sched_families s). \<forall>tu tv.
        ((fam_id (sched_families s ! i), tu), (fam_id (sched_families s ! j), tv)) \<in> task_edges g \<longleftrightarrow>
          i < j \<and> within_span max_span (phase_of_fam s i) (phase_of_fam s j)
          \<and> 0 \<le> tu \<and> tu < fam_ntasks (sched_families s ! i)
          \<and> 0 \<le> tv \<and> tv < fam_ntasks (sched_families s ! j)
          \<and> (\<exists>k. (\<exists>sid. conflict_on k (fam_op (sched_families s ! i)) (fam_op (sched_families s ! j)) sid)
                \<and> tile_conflict k (sched_families s ! i) tu (sched_families s ! j) tv))"
proof -
  obtain g where g: "build_tile_dependencies s max_span = Inr g" "map fst (td_preds g) = task_keys s"
    and e: "task_edges g = {(ku, kv). (kv, ku) \<in> set (all_pairs s max_span)}"
    using tile_graph [OF assms, of max_span] by blast
  show ?thesis
    by (rule exI [of _ g], intro conjI allI impI g tile_graph_acyclic [OF assms e])
       (simp only: e mem_Collect_eq prod.case all_pairs_at [OF assms])
qed

text \<open>
  Relaxing phase barriers is always feasible: from such a phase schedule the tile dependencies and
  the static worker schedule for any positive worker count are built without an exception; every
  task appears once in the order, after all its predecessors.
\<close>

theorem tile_static_feasible:
  assumes "tile_sched s" "valid_iter iter" "0 < workers"
  shows "\<exists>g sw. build_tile_dependencies s max_span = Inr g
    \<and> build_static_worker_schedule iter g workers = Inr sw
    \<and> mset (sw_order sw) = mset (task_keys s) \<and> topo (task_edges g) (sw_order sw)"
proof -
  obtain g where g: "build_tile_dependencies s max_span = Inr g" "map fst (td_preds g) = task_keys s"
    and w: "wf_deps g" and t: "fst ` set (td_tasks g) = set (task_keys s)"
    and e: "task_edges g = {(ku, kv). (kv, ku) \<in> set (all_pairs s max_span)}"
    using tile_graph [OF assms(1), of max_span] by blast
  have ks: "fst ` set (td_preds g) = set (task_keys s)" using g(2) by (metis list.set_map)
  then have "fst ` set (td_preds g) \<subseteq> dom (map_of (td_tasks g))"
    by (simp add: dom_map_of_conv_image_fst t)
  from static_schedule_value [OF w this assms(2,3) tile_graph_acyclic [OF assms(1) e]]
  obtain order asg where o: "distinct order" "set order = fst ` set (td_preds g)" "topo (task_edges g) order"
    and b: "build_static_worker_schedule iter g workers
      = Inr \<lparr>sw_workers = workers, sw_order = order, sw_assignment = asg, sw_deps = g\<rparr>" by blast
  have "mset order = mset (task_keys s)"
    using o(1,2) ks task_keys_distinct [OF assms(1)] by (metis set_eq_iff_mset_eq_distinct)
  with g b o(3) show ?thesis by auto
qed

definition tile_fn :: "int \<Rightarrow> region_fn" where
  "tile_fn sid c = (case c of [b] \<Rightarrow>
     Inr [plain_region ((demo_tv [4] [1] 0)\<lparr>tv_storage_id := sid\<rparr>) [(2 * b, HInt (2 * b + 2))]]
   | _ \<Rightarrow> Inl ValueError)"

definition demo_tile_fam :: "string \<Rightarrow> int \<Rightarrow> TaskFamily" where
  "demo_tile_fam fid i =
     (demo_fam i [(4, 2)])\<lparr>fam_id := fid,
        fam_op := (demo_op i)\<lparr>
          op_read_regions := [region_whole ((demo_tv [4] [1] 0)\<lparr>tv_storage_id := i\<rparr>)],
          op_write_regions := [region_whole ((demo_tv [4] [1] 0)\<lparr>tv_storage_id := i + 1\<rparr>)]\<rparr>,
        fam_read_regions := Some (tile_fn i), fam_write_regions := Some (tile_fn (i + 1))\<rparr>"

definition demo_sched :: PhaseSchedule where
  "demo_sched = \<lparr>ps_phases = [\<lparr>ph_index = 0, ph_families = [demo_tile_fam ''u'' 0]\<rparr>,
     \<lparr>ph_index = 1, ph_families = [demo_tile_fam ''v'' 1]\<rparr>], ps_workers = 1\<rparr>"

lemma demo_fams: "sched_families demo_sched = [demo_tile_fam ''u'' 0, demo_tile_fam ''v'' 1]"
  by (simp add: sched_families_def demo_sched_def)

lemma demo_ntasks: "fam_ntasks (demo_tile_fam f i) = 2"
  by (simp add: demo_tile_fam_def demo_fam_def fam_ntasks_def ntasks_def grid_def mk_domain_def)

lemma demo_tile_access:
  assumes "t \<in> {0, 1}"
  shows "fam_reads (demo_tile_fam f i) t = tile_fn i [t]"
    "fam_writes (demo_tile_fam f i) t = tile_fn (i + 1) [t]"
  using assms by (auto simp: fam_reads_def fam_writes_def fam_coords_def demo_tile_fam_def demo_fam_def
      coords_def task_grid_def mk_domain_def py_floordiv_def py_mod_def)

lemma demo_tile_sched: "tile_sched demo_sched"
proof -
  have "tile_ok (demo_tile_fam f i)" for f i
  proof -
    have "t \<in> {0, 1}" if "0 \<le> t \<and> t < 2" for t :: int using that by auto
    moreover have "wf_family (demo_tile_fam f i)"
      by (simp add: wf_family_def demo_tile_fam_def demo_fam_def wf_domain_def mk_domain_def)
    ultimately show ?thesis
      unfolding tile_ok_def demo_ntasks using demo_tile_access by (simp add: tile_fn_def)
  qed
  moreover have "fam_opid (demo_tile_fam f i) = i" "fam_id (demo_tile_fam f i) = f" for f i
    by (simp_all add: demo_tile_fam_def demo_op_def)
  ultimately show ?thesis unfolding tile_sched_def demo_fams by simp
qed

theorem tile_dependencies_exact_witness:
  "\<exists>g. build_tile_dependencies demo_sched None = Inr g
     \<and> ((''u'', 0), (''v'', 0)) \<in> task_edges g \<and> ((''u'', 0), (''v'', 1)) \<notin> task_edges g"
proof -
  let ?u = "demo_tile_fam ''u'' 0" and ?v = "demo_tile_fam ''v'' 1"
  have ids: "fam_id ?u = ''u''" "fam_id ?v = ''v''" by (simp_all add: demo_tile_fam_def)
  obtain g where g: "build_tile_dependencies demo_sched None = Inr g"
    and e: "\<And>i j tu tv. i < 2 \<Longrightarrow> j < 2 \<Longrightarrow>
      ((fam_id ([?u, ?v] ! i), tu), (fam_id ([?u, ?v] ! j), tv)) \<in> task_edges g \<longleftrightarrow>
      i < j \<and> within_span None (phase_of_fam demo_sched i) (phase_of_fam demo_sched j)
      \<and> 0 \<le> tu \<and> tu < fam_ntasks ([?u, ?v] ! i) \<and> 0 \<le> tv \<and> tv < fam_ntasks ([?u, ?v] ! j)
      \<and> (\<exists>k. (\<exists>sid. conflict_on k (fam_op ([?u, ?v] ! i)) (fam_op ([?u, ?v] ! j)) sid)
            \<and> tile_conflict k ([?u, ?v] ! i) tu ([?u, ?v] ! j) tv)"
    using tile_dependencies_exact [OF demo_tile_sched, of None] unfolding demo_fams by auto
  have c: "conflict_on HAZARD_RAW (fam_op ?u) (fam_op ?v) 1"
    by (simp add: conflict_on_def demo_tile_fam_def region_whole_def plain_region_def demo_tv_def
        overlaps_def storage_span_def hi_eff_def)
  have t: "tile_conflict k ?u 0 ?v t \<longleftrightarrow> k = HAZARD_RAW \<and> t = 0" if "t \<in> {0, 1}" for k t
    using demo_tile_access [OF that, of "''v''" 1] demo_tile_access [of 0 "''u''" 0] that
    by (cases k) (auto simp: tile_conflict_def tile_reads_def tile_writes_def tile_fn_def regions_meet_def
        plain_region_def demo_tv_def overlaps_def storage_span_def hi_eff_def)
  have "((''u'', 0), (''v'', 0)) \<in> task_edges g"
    using e [of 0 1 0 0] c t [of 0] by (auto simp: ids within_span_def demo_ntasks)
  moreover have "((''u'', 0), (''v'', 1)) \<notin> task_edges g"
    using e [of 0 1 0 1] t [of 1] by (auto simp: ids)
  ultimately show ?thesis using g by blast
qed

theorem tile_static_feasible_witness:
  "\<exists>g sw. build_tile_dependencies demo_sched None = Inr g
     \<and> build_static_worker_schedule sorted_iter g 3 = Inr sw \<and> size (mset (sw_order sw)) = 4"
proof -
  have "size (mset (task_keys demo_sched)) = 4"
    by (simp add: task_keys_def demo_fams fam_keys_def demo_ntasks)
  with tile_static_feasible [OF demo_tile_sched valid_sorted_iter, of 3 None] show ?thesis
    by (metis zero_less_numeral)
qed

end
