(* ===== verification/Task_Queue.thy ===== *)
theory Task_Queue
  imports Kahn "HOL-Library.List_Lexorder" "HOL-Library.Char_ord" "HOL-Library.Product_Lexorder"
begin

text \<open>
  The ready-task runtime of \<^verbatim>\<open>compiler/runtime/task_queue.py\<close>: remaining counts, the ready queue, the
  claim and complete operations and the CPU simulation of the dispatch loop.  Beside the sequential
  simulation, a step relation lets any number of workers interleave claims and completions; the
  invariant of that relation carries both the safety of every interleaving and the progress of the
  simulation.
\<close>

section \<open>Model\<close>

type_synonym QueueKey = "string \<times> int"

record TaskDeps =
  tq_preds :: "(QueueKey, QueueKey set) dict"

definition tq_successors :: "QueueKey iter \<Rightarrow> TaskDeps \<Rightarrow> (QueueKey, QueueKey set) dict result" where
  "tq_successors iter deps = successors iter (tq_preds deps)"

definition tq_tasks :: "TaskDeps \<Rightarrow> QueueKey list" where
  "tq_tasks deps = map fst (tq_preds deps)"

definition tq_check_acyclic :: "QueueKey iter \<Rightarrow> TaskDeps \<Rightarrow> unit result" where
  "tq_check_acyclic iter deps =
     (let indeg = indegrees (tq_preds deps) in
      bindr (tq_successors iter deps) (\<lambda>succ.
      bindr (kahn_loop iter succ indeg (roots indeg) []) (\<lambda>seen.
        if int (length seen) \<noteq> int (length (tq_preds deps)) then Inl ProgressError else Inr ())))"

record ReadyTaskState =
  rs_deps :: TaskDeps
  rs_remaining :: "(QueueKey, int) dict"
  rs_ready :: "QueueKey list"
  rs_retired :: int
  rs_enqueued :: "QueueKey set"

definition enqueue :: "ReadyTaskState \<Rightarrow> QueueKey \<Rightarrow> ReadyTaskState" where
  "enqueue st key =
     (if key \<notin> rs_enqueued st
      then st\<lparr>rs_enqueued := insert key (rs_enqueued st), rs_ready := rs_ready st @ [key]\<rparr>
      else st)"

definition initialize_step :: "ReadyTaskState \<Rightarrow> QueueKey \<times> QueueKey set \<Rightarrow> ReadyTaskState" where
  "initialize_step st kps =
     (case kps of (k, ps) \<Rightarrow>
        let st = st\<lparr>rs_remaining := dict_set k (int (card ps)) (rs_remaining st)\<rparr>
        in if ps = {} then enqueue st k else st)"

definition initialize :: "ReadyTaskState \<Rightarrow> ReadyTaskState" where
  "initialize st = foldl initialize_step st (tq_preds (rs_deps st))"

definition claim :: "ReadyTaskState \<Rightarrow> ReadyTaskState \<times> QueueKey option" where
  "claim st =
     (case rs_ready st of
        [] \<Rightarrow> (st, None)
      | k # q \<Rightarrow> (st\<lparr>rs_ready := q\<rparr>, Some k))"

definition finished :: "ReadyTaskState \<Rightarrow> bool" where
  "finished st = (rs_retired st = int (length (tq_preds (rs_deps st))))"

fun notify_ready :: "QueueKey list \<Rightarrow> ReadyTaskState \<Rightarrow> ReadyTaskState result" where
  "notify_ready [] st = Inr st"
| "notify_ready (s # ss) st =
     bindr (dict_get (rs_remaining st) s) (\<lambda>d.
       let st = st\<lparr>rs_remaining := dict_set s (d - 1) (rs_remaining st)\<rparr>
       in notify_ready ss (if d - 1 = 0 then enqueue st s else st))"

definition complete ::
  "QueueKey iter \<Rightarrow> ReadyTaskState \<Rightarrow> QueueKey \<Rightarrow> (ReadyTaskState \<times> QueueKey list) result" where
  "complete iter st key =
     bindr (tq_successors iter (rs_deps st)) (\<lambda>succs.
     bindr (dict_get succs key) (\<lambda>S.
     bindr (notify_ready (iter key S) st) (\<lambda>st.
       Inr (st\<lparr>rs_retired := rs_retired st + 1\<rparr>, sorted_list_of_set S))))"

definition new_state :: "TaskDeps \<Rightarrow> ReadyTaskState" where
  "new_state deps = \<lparr>rs_deps = deps, rs_remaining = [], rs_ready = [], rs_retired = 0,
     rs_enqueued = {}\<rparr>"

text \<open>
  One sweep \<^verbatim>\<open>for _ in range(num_workers)\<close>: the state, the count of idle spins and whether a task
  was executed.
\<close>

fun sweep ::
  "QueueKey iter \<Rightarrow> nat \<Rightarrow> ReadyTaskState \<Rightarrow> int \<Rightarrow> bool \<Rightarrow> (ReadyTaskState \<times> int \<times> bool) result" where
  "sweep iter 0 st spins progressed = Inr (st, spins, progressed)"
| "sweep iter (Suc w) st spins progressed =
     (case claim st of
        (st, None) \<Rightarrow> sweep iter w st (spins + 1) progressed
      | (st, Some key) \<Rightarrow>
          bindr (complete iter st key) (\<lambda>(st, _). sweep iter w st spins True))"

text \<open>Every executed task uses up a queue entry or a positive count, so sweeps end.\<close>

definition work_left :: "ReadyTaskState \<Rightarrow> nat" where
  "work_left st = length (rs_ready st) + positive_counts (rs_remaining st)"

lemma notify_ready_work: "notify_ready ss st = Inr st' \<Longrightarrow> work_left st' \<le> work_left st"
proof (induction ss st rule: notify_ready.induct)
  case (2 s ss st)
  then obtain d where d: "map_of (rs_remaining st) s = Some d"
    and n: "notify_ready ss (if d - 1 = 0
        then enqueue (st\<lparr>rs_remaining := dict_set s (d - 1) (rs_remaining st)\<rparr>) s
        else st\<lparr>rs_remaining := dict_set s (d - 1) (rs_remaining st)\<rparr>) = Inr st'"
    by (auto simp: result_simps Let_def)
  have "work_left st' \<le> work_left (if d - 1 = 0
        then enqueue (st\<lparr>rs_remaining := dict_set s (d - 1) (rs_remaining st)\<rparr>) s
        else st\<lparr>rs_remaining := dict_set s (d - 1) (rs_remaining st)\<rparr>)"
    by (rule "2.IH") (use d n in \<open>auto simp: Let_def dict_get_def\<close>)
  also have "\<dots> \<le> work_left st"
    using positive_counts_dec [OF d] by (auto simp: work_left_def enqueue_def split: if_splits)
  finally show ?case .
qed simp

lemma complete_work: "complete iter st key = Inr (st', ks) \<Longrightarrow> work_left st' \<le> work_left st"
  by (auto simp: complete_def result_simps work_left_def dest!: notify_ready_work)

lemma sweep_work:
  "sweep iter w st spins p = Inr (st', spins', p') \<Longrightarrow>
     work_left st' \<le> work_left st \<and> (p' \<and> \<not> p \<longrightarrow> work_left st' < work_left st)"
proof (induction iter w st spins p rule: sweep.induct)
  case (2 iter w st spins p)
  show ?case
  proof (cases "rs_ready st")
    case Nil
    then show ?thesis using 2 by (simp add: claim_def)
  next
    case (Cons k q)
    let ?st = "st\<lparr>rs_ready := q\<rparr>"
    from Cons "2.prems" obtain s1 ks where c: "complete iter ?st k = Inr (s1, ks)"
      and w: "sweep iter w s1 spins True = Inr (st', spins', p')"
      by (auto simp: claim_def result_simps)
    have "work_left st' \<le> work_left s1" using "2.IH"(2) Cons c w by (fastforce simp: claim_def)
    moreover have "work_left s1 < work_left st"
      using complete_work [OF c] Cons by (simp add: work_left_def)
    ultimately show ?thesis by simp
  qed
qed simp

function sim_loop :: "QueueKey iter \<Rightarrow> int \<Rightarrow> int \<Rightarrow> ReadyTaskState \<Rightarrow> ReadyTaskState result" where
  "sim_loop iter num_workers max_spins st =
     (if finished st then Inr st
      else bindr (sweep iter (nat num_workers) st 0 False) (\<lambda>r.
        if \<not> snd (snd r) then (if finished (fst r) then Inr (fst r) else Inl ProgressError)
        else if 0 > max_spins then Inl ProgressError
        else sim_loop iter num_workers max_spins (fst r)))"
  by pat_completeness auto
termination
proof (relation "measure (\<lambda>(_, _, _, st). work_left st)", goal_cases)
  case (2 iter nw ms st r)
  then have "sweep iter (nat nw) st 0 False = Inr (fst r, fst (snd r), True)" by (metis prod.collapse)
  from sweep_work [OF this] show ?case by simp
qed simp

declare sim_loop.simps [simp del]

text \<open>The result dictionary \<^verbatim>\<open>{"retired": ..., "total": ...}\<close> as a pair.\<close>

definition simulate_fifo_execution :: "QueueKey iter \<Rightarrow> TaskDeps \<Rightarrow> int \<Rightarrow> (int \<times> int) result" where
  "simulate_fifo_execution iter deps num_workers =
     bindr (tq_check_acyclic iter deps) (\<lambda>_.
     let st = initialize (new_state deps);
         max_spins = int (length (tq_preds deps)) * num_workers + 16
     in bindr (sim_loop iter num_workers max_spins st) (\<lambda>st.
          Inr (rs_retired st, int (length (tq_preds deps)))))"

section \<open>The cycle check\<close>

definition wf_tq :: "TaskDeps \<Rightarrow> bool" where
  "wf_tq deps = wf_preds (tq_preds deps)"

definition tq_edges :: "TaskDeps \<Rightarrow> (QueueKey \<times> QueueKey) set" where
  "tq_edges deps = dep_edges (tq_preds deps)"

definition tq_start ::
  "QueueKey iter \<Rightarrow> TaskDeps \<Rightarrow> ((QueueKey, QueueKey set) dict \<times> (QueueKey, int) dict) result" where
  "tq_start iter deps =
     bindr (tq_successors iter deps) (\<lambda>succ. Inr (succ, indegrees (tq_preds deps)))"

lemma keys_indegrees [simp]: "map fst (indegrees preds) = map fst preds"
  by (simp add: indegrees_def comp_def split_def)

lemma tq_successors_value:
  assumes "wf_tq deps" "valid_iter iter"
  shows "\<exists>succ. tq_successors iter deps = Inr succ
    \<and> (\<forall>k \<in> set (tq_tasks deps). map_of succ k = Some {s. (k, s) \<in> tq_edges deps})"
  using successors_value [OF assms(2), of "tq_preds deps"] assms(1)
  by (simp add: wf_tq_def tq_successors_def tq_tasks_def tq_edges_def)

lemma tq_indegrees:
  assumes "wf_tq deps" "k \<in> set (tq_tasks deps)"
  shows "map_of (indegrees (tq_preds deps)) k = Some (int (card {p. (p, k) \<in> tq_edges deps}))"
  using map_of_indegrees [of "tq_preds deps" k] assms by (simp add: wf_tq_def tq_tasks_def tq_edges_def)

interpretation tq: kahn_graph wf_tq tq_tasks tq_edges tq_start
proof
  fix g assume g: "wf_tq g"
  then show "distinct (tq_tasks g)" by (simp add: wf_tq_def wf_preds_def dict_wf_def tq_tasks_def)
  show "tq_edges g \<subseteq> set (tq_tasks g) \<times> set (tq_tasks g)"
    using dep_edges_in [of "tq_preds g"] g by (simp add: wf_tq_def tq_edges_def tq_tasks_def)
next
  fix g :: TaskDeps and iter :: "QueueKey iter"
  assume g: "wf_tq g" "valid_iter iter"
  then obtain succ where "tq_successors iter g = Inr succ"
    "\<forall>k \<in> set (tq_tasks g). map_of succ k = Some {s. (k, s) \<in> tq_edges g}"
    using tq_successors_value by blast
  then show "\<exists>succ indeg. tq_start iter g = Inr (succ, indeg) \<and> map fst indeg = tq_tasks g
      \<and> (\<forall>k \<in> set (tq_tasks g). map_of succ k = Some {s. (k, s) \<in> tq_edges g}
            \<and> map_of indeg k = Some (int (card {p. (p, k) \<in> tq_edges g})))"
    using tq_indegrees [OF g(1)] by (simp add: tq_start_def tq_tasks_def [of g, symmetric])
qed

lemma tq_check_eq: "tq_check_acyclic iter deps = tq.acyclic_check iter deps ProgressError"
  by (simp add: tq_check_acyclic_def tq.acyclic_check_def tq_start_def tq_tasks_def bindr_assoc Let_def)

section \<open>Interleavings\<close>

text \<open>
  A configuration: the queue state, the tasks claimed and still running, and the tasks completed, in
  order.  Any worker may claim when the queue is not empty, and any running task may complete.
\<close>

type_synonym config = "ReadyTaskState \<times> QueueKey list \<times> QueueKey list"

inductive rt_step :: "QueueKey iter \<Rightarrow> config \<Rightarrow> config \<Rightarrow> bool" for iter where
  rt_claim: "claim st = (st', Some k) \<Longrightarrow> rt_step iter (st, running, dn) (st', running @ [k], dn)"
| rt_complete: "k \<in> set running \<Longrightarrow> complete iter st k = Inr (st', ks) \<Longrightarrow>
    rt_step iter (st, running, dn) (st', remove1 k running, dn @ [k])"

inductive rt_reach :: "QueueKey iter \<Rightarrow> TaskDeps \<Rightarrow> config \<Rightarrow> bool" for iter deps where
  rt_init: "rt_reach iter deps (initialize (new_state deps), [], [])"
| rt_next: "rt_reach iter deps c \<Longrightarrow> rt_step iter c c' \<Longrightarrow> rt_reach iter deps c'"

inductive_cases rt_stepE: "rt_step iter (st, running, dn) c'"

definition rt_inv :: "TaskDeps \<Rightarrow> config \<Rightarrow> bool" where
  "rt_inv deps c = (case c of (st, running, dn) \<Rightarrow>
     rs_deps st = deps \<and> rs_retired st = int (length dn)
     \<and> rs_enqueued st = set (dn @ running @ rs_ready st)
     \<and> kahn_inv (set (tq_tasks deps)) (tq_edges deps) (rs_remaining st) (running @ rs_ready st) dn)"

lemma kahn_inv_perm:
  assumes "kahn_inv V E indeg q vis" "mset q = mset q'"
  shows "kahn_inv V E indeg q' vis"
proof -
  have "set q' = set q" "distinct q' = distinct q"
    using assms(2) by (metis mset_eq_setD, metis mset_eq_imp_distinct_iff)
  then show ?thesis using assms(1) by (simp add: kahn_inv_def)
qed

lemma notify_prefix: "notify ss d (q @ q') = bindr (notify ss d q') (\<lambda>r. Inr (fst r, q @ snd r))"
  by (induction ss arbitrary: d q') (auto simp: bindr_assoc intro!: bindr_cong)

lemma notify_ready_eq:
  assumes "distinct ss" "\<forall>s \<in> set ss. map_of (rs_remaining st) s = Some 1 \<longrightarrow> s \<notin> rs_enqueued st"
  shows "notify_ready ss st = bindr (notify ss (rs_remaining st) []) (\<lambda>r.
    Inr (st\<lparr>rs_remaining := fst r, rs_ready := rs_ready st @ snd r,
            rs_enqueued := rs_enqueued st \<union> set (snd r)\<rparr>))"
  using assms
proof (induction ss arbitrary: st)
  case (Cons s ss)
  show ?case
  proof (cases "map_of (rs_remaining st) s")
    case None
    then show ?thesis by (simp add: dict_get_def)
  next
    case (Some d)
    let ?r = "dict_set s (d - 1) (rs_remaining st)"
    let ?st = "if d - 1 = 0 then enqueue (st\<lparr>rs_remaining := ?r\<rparr>) s else st\<lparr>rs_remaining := ?r\<rparr>"
    have "notify_ready ss ?st = bindr (notify ss (rs_remaining ?st) []) (\<lambda>r.
        Inr (?st\<lparr>rs_remaining := fst r, rs_ready := rs_ready ?st @ snd r,
            rs_enqueued := rs_enqueued ?st \<union> set (snd r)\<rparr>))"
      by (rule Cons.IH) (use Cons.prems in \<open>auto simp: enqueue_def\<close>)
    then show ?thesis
      using Some Cons.prems(2) notify_prefix [of ss ?r "[s]" "[]"]
      by (cases "d = 1") (simp_all add: dict_get_def enqueue_def Let_def bindr_assoc)
  qed
qed simp

section \<open>The invariant\<close>

lemma initialize_fold:
  assumes "dict_wf (map (\<lambda>(k, ps). (k, int (card ps))) (pre @ kps))"
    "st = \<lparr>rs_deps = deps, rs_remaining = indegrees pre, rs_ready = map fst (filter (\<lambda>(k, ps). ps = {}) pre),
       rs_retired = 0, rs_enqueued = set (map fst (filter (\<lambda>(k, ps). ps = {}) pre))\<rparr>"
  shows "foldl initialize_step st kps = \<lparr>rs_deps = deps, rs_remaining = indegrees (pre @ kps),
    rs_ready = map fst (filter (\<lambda>(k, ps). ps = {}) (pre @ kps)), rs_retired = 0,
    rs_enqueued = set (map fst (filter (\<lambda>(k, ps). ps = {}) (pre @ kps)))\<rparr>"
  using assms
proof (induction kps arbitrary: pre st)
  case (Cons kp kps)
  obtain k ps where kp: "kp = (k, ps)" by (cases kp)
  have k: "k \<notin> fst ` set pre" using Cons.prems(1) kp by (force simp: dict_wf_def split_def)
  then have "map_of (indegrees pre) k = None"
    unfolding map_of_eq_None_iff by (metis keys_indegrees list.set_map)
  then have r: "dict_set k (int (card ps)) (indegrees pre) = indegrees (pre @ [(k, ps)])"
    by (simp add: dict_set_fresh) (simp add: indegrees_def)
  have "initialize_step st kp = \<lparr>rs_deps = deps, rs_remaining = indegrees (pre @ [kp]),
    rs_ready = map fst (filter (\<lambda>(k, ps). ps = {}) (pre @ [kp])), rs_retired = 0,
    rs_enqueued = set (map fst (filter (\<lambda>(k, ps). ps = {}) (pre @ [kp])))\<rparr>"
    using k r by (cases "ps = {}")
      (auto simp: initialize_step_def kp Cons.prems(2) enqueue_def Let_def intro: rev_image_eqI)
  then show ?case using Cons.IH [of "pre @ [kp]"] Cons.prems(1) by simp
qed simp

lemma filter_roots:
  "\<forall>(k, ps) \<in> set preds. finite ps \<Longrightarrow>
   map fst (filter (\<lambda>(k, ps). ps = {}) preds) = roots (indegrees preds)"
  by (induction preds) (auto simp: roots_def indegrees_def)

lemma initialize_value:
  assumes "wf_tq deps"
  shows "initialize (new_state deps) = \<lparr>rs_deps = deps, rs_remaining = indegrees (tq_preds deps),
    rs_ready = roots (indegrees (tq_preds deps)), rs_retired = 0,
    rs_enqueued = set (roots (indegrees (tq_preds deps)))\<rparr>"
proof -
  have "dict_wf (map (\<lambda>(k, ps). (k, int (card ps))) (tq_preds deps))"
    using tq.verts_distinct [OF assms] by (simp add: dict_wf_def tq_tasks_def comp_def split_def)
  moreover have "\<forall>(k, ps) \<in> set (tq_preds deps). finite ps" using assms by (auto simp: wf_tq_def wf_preds_def)
  ultimately show ?thesis
    using initialize_fold [of "[]" "tq_preds deps" "new_state deps" deps] filter_roots [of "tq_preds deps"]
    by (simp add: initialize_def new_state_def indegrees_def)
qed

lemma rt_inv_init:
  assumes "wf_tq deps"
  shows "rt_inv deps (initialize (new_state deps), [], [])"
proof -
  have "kahn_inv (set (tq_tasks deps)) (tq_edges deps) (indegrees (tq_preds deps))
      (roots (indegrees (tq_preds deps))) []"
    by (rule kahn_inv_start [OF _ tq.edges_in [OF assms] _ tq.verts_distinct [OF assms] refl _ refl])
       (use tq_indegrees [OF assms] in \<open>simp_all add: tq_tasks_def\<close>)
  then show ?thesis by (simp add: rt_inv_def initialize_value [OF assms])
qed

lemma rt_inv_claim:
  assumes "rt_inv deps (st, running, dn)" "claim st = (st', Some k)"
  shows "rt_inv deps (st', running @ [k], dn)"
  using assms by (auto simp: rt_inv_def claim_def split: list.splits)

lemma complete_value:
  assumes "wf_tq deps" "valid_iter iter" "rt_inv deps (st, running, dn)" "k \<in> set running"
  shows "\<exists>st' ks. complete iter st k = Inr (st', ks)
    \<and> rt_inv deps (st', remove1 k running, dn @ [k])
    \<and> set ks = {s. (k, s) \<in> tq_edges deps}"
proof -
  let ?V = "set (tq_tasks deps)" and ?E = "tq_edges deps" and ?S = "{s. (k, s) \<in> tq_edges deps}"
  have E: "?E \<subseteq> ?V \<times> ?V" using tq.edges_in [OF assms(1)] .
  have i: "rs_deps st = deps" "rs_retired st = int (length dn)"
    "rs_enqueued st = set (dn @ running @ rs_ready st)"
    "kahn_inv ?V ?E (rs_remaining st) (running @ rs_ready st) dn"
    using assms(3) by (simp_all add: rt_inv_def)
  have kV: "k \<in> ?V" using i(4) assms(4) by (auto simp: kahn_inv_def)
  obtain succ where s: "tq_successors iter deps = Inr succ" "map_of succ k = Some ?S"
    using tq_successors_value [OF assms(1,2)] kV by blast
  have fin: "finite ?S" by (rule finite_subset [of _ ?V]) (use E in auto)
  then have it: "distinct (iter k ?S)" "set (iter k ?S) = ?S" using valid_iterD [OF assms(2)] by auto
  have perm: "mset (running @ rs_ready st) = mset (k # (remove1 k running @ rs_ready st))"
    using assms(4) by simp
  obtain rem' q' where n: "notify (iter k ?S) (rs_remaining st) (remove1 k running @ rs_ready st) = Inr (rem', q')"
    and inv: "kahn_inv ?V ?E rem' q' (dn @ [k])"
    using kahn_step [OF _ E kahn_inv_perm [OF i(4) perm] it] by auto
  have "notify (iter k ?S) (rs_remaining st) ((remove1 k running @ rs_ready st) @ []) =
      bindr (notify (iter k ?S) (rs_remaining st) []) (\<lambda>r. Inr (fst r, (remove1 k running @ rs_ready st) @ snd r))"
    by (rule notify_prefix)
  with n obtain new where n0: "notify (iter k ?S) (rs_remaining st) [] = Inr (rem', new)"
    and q': "q' = (remove1 k running @ rs_ready st) @ new"
    by (cases "notify (iter k ?S) (rs_remaining st) []") auto
  have "x \<notin> rs_enqueued st" if "x \<in> set (iter k ?S)" "map_of (rs_remaining st) x = Some 1" for x
  proof
    assume "x \<in> rs_enqueued st"
    moreover have "x \<in> ?V" using that(1) it(2) E by auto
    ultimately have "map_of (rs_remaining st) x = Some 0" using i(3,4) by (auto simp: kahn_inv_def)
    with that(2) show False by simp
  qed
  then have "notify_ready (iter k ?S) st = Inr (st\<lparr>rs_remaining := rem', rs_ready := rs_ready st @ new,
      rs_enqueued := rs_enqueued st \<union> set new\<rparr>)"
    using notify_ready_eq [OF it(1), of st] n0 by simp
  then have c: "complete iter st k = Inr (st\<lparr>rs_remaining := rem', rs_ready := rs_ready st @ new,
      rs_enqueued := rs_enqueued st \<union> set new, rs_retired := rs_retired st + 1\<rparr>, sorted_list_of_set ?S)"
    using s i(1) by (simp add: complete_def dict_get_def)
  have "insert k (set (remove1 k running)) = set running"
    using assms(4) by (metis insert_DiffM list.simps(15) mset.simps(2) mset_remove1 set_mset_mset perm set_mset_add_mset_insert in_multiset_in_set)
  then have "rt_inv deps (st\<lparr>rs_remaining := rem', rs_ready := rs_ready st @ new,
      rs_enqueued := rs_enqueued st \<union> set new, rs_retired := rs_retired st + 1\<rparr>,
      remove1 k running, dn @ [k])"
    using i inv q' by (auto simp: rt_inv_def)
  with c fin show ?thesis by auto
qed

lemma rt_step_inv:
  assumes "wf_tq deps" "valid_iter iter" "rt_inv deps c" "rt_step iter c c'"
  shows "rt_inv deps c'"
  using assms(4)
proof cases
  case (rt_claim st st' k running dn)
  then show ?thesis using rt_inv_claim assms(3) by simp
next
  case (rt_complete k running st st' ks dn)
  then show ?thesis using complete_value [OF assms(1,2), of st running dn k] assms(3) by auto
qed

lemma rt_reach_inv:
  assumes "wf_tq deps" "valid_iter iter" "rt_reach iter deps c"
  shows "rt_inv deps c"
  using assms(3)
proof induction
  case rt_init
  show ?case by (rule rt_inv_init [OF assms(1)])
next
  case (rt_next c c')
  then show ?case using rt_step_inv [OF assms(1,2)] by blast
qed

text \<open>
  C10: Every interleaving of claims and completions respects the dependencies.  In each reachable
  configuration no task is queued, running or completed twice, every queued or running task has all
  its predecessors completed, the completion order is topological, \<^verbatim>\<open>retired\<close> counts the
  completed tasks, and \<^verbatim>\<open>remaining\<close> holds the number of uncompleted predecessors.
\<close>

theorem queue_interleaving_safe:
  assumes "wf_tq deps" "valid_iter iter" "rt_reach iter deps (st, running, dn)"
  shows "distinct (dn @ running @ rs_ready st) \<and> set (dn @ running @ rs_ready st) \<subseteq> set (tq_tasks deps)
    \<and> topo (tq_edges deps) dn
    \<and> (\<forall>k \<in> set (running @ rs_ready st). \<forall>p. (p, k) \<in> tq_edges deps \<longrightarrow> p \<in> set dn)
    \<and> rs_retired st = int (length dn)
    \<and> (\<forall>k \<in> set (tq_tasks deps). map_of (rs_remaining st) k =
          Some (int (card {p. (p, k) \<in> tq_edges deps \<and> p \<notin> set dn})))"
proof -
  have i: "rs_retired st = int (length dn)"
    "kahn_inv (set (tq_tasks deps)) (tq_edges deps) (rs_remaining st) (running @ rs_ready st) dn"
    using rt_reach_inv [OF assms] by (simp_all add: rt_inv_def)
  have q: "(p, k) \<in> tq_edges deps \<longrightarrow> p \<in> set dn" if "k \<in> set (running @ rs_ready st)" for k p
  proof -
    have "k \<in> set (tq_tasks deps)" using i(2) that by (auto simp: kahn_inv_def)
    then have "pending (tq_edges deps) dn k = {}" using i(2) that by (auto simp: kahn_inv_def)
    then show ?thesis unfolding pending_def by blast
  qed
  have "distinct (dn @ running @ rs_ready st)" "set (dn @ running @ rs_ready st) \<subseteq> set (tq_tasks deps)"
    "topo (tq_edges deps) dn"
    "\<forall>k \<in> set (tq_tasks deps). map_of (rs_remaining st) k =
          Some (int (card {p. (p, k) \<in> tq_edges deps \<and> p \<notin> set dn}))"
    using i(2) unfolding kahn_inv_def pending_def by blast+
  with q i(1) show ?thesis by blast
qed

definition q_iter :: "QueueKey iter" where
  "q_iter k S = sorted_list_of_set S"

lemma valid_q_iter: "valid_iter q_iter"
  by (simp add: valid_iter_def q_iter_def)

definition demo_q :: TaskDeps where
  "demo_q = \<lparr>tq_preds = [((''a'', 0), {}), ((''b'', 1), {(''a'', 0)})]\<rparr>"

lemma demo_q_wf: "wf_tq demo_q" "acyclic (tq_edges demo_q)"
proof -
  show "wf_tq demo_q" by (auto simp: wf_tq_def wf_preds_def dict_wf_def demo_q_def)
  show "acyclic (tq_edges demo_q)"
    by (rule forward_acyclic [of _ "\<lambda>k. nat (snd k)"]) (auto simp: tq_edges_def dep_edges_def demo_q_def)
qed

lemma demo_q_claimed:
  "rt_reach q_iter demo_q ((initialize (new_state demo_q))\<lparr>rs_ready := []\<rparr>, [(''a'', 0)], [])"
proof (rule rt_next [OF rt_init])
  have "claim (initialize (new_state demo_q)) = ((initialize (new_state demo_q))\<lparr>rs_ready := []\<rparr>, Some (''a'', 0))"
    by (simp add: initialize_value demo_q_wf claim_def) (simp add: demo_q_def roots_def indegrees_def)
  from rt_claim [OF this, of q_iter "[]" "[]"]
  show "rt_step q_iter (initialize (new_state demo_q), [], [])
      ((initialize (new_state demo_q))\<lparr>rs_ready := []\<rparr>, [(''a'', 0)], [])" by simp
qed

theorem queue_interleaving_safe_witness:
  "rs_retired ((initialize (new_state demo_q))\<lparr>rs_ready := []\<rparr>) = 0
   \<and> map_of (rs_remaining ((initialize (new_state demo_q))\<lparr>rs_ready := []\<rparr>)) (''b'', 1) = Some 1"
proof -
  have "{p. (p, (''b'', 1)) \<in> tq_edges demo_q \<and> p \<notin> set []} = {(''a'', 0)}"
    by (auto simp: tq_edges_def dep_edges_def demo_q_def)
  moreover have "(''b'', 1) \<in> set (tq_tasks demo_q)" by (simp add: tq_tasks_def demo_q_def)
  ultimately show ?thesis
    using queue_interleaving_safe [OF demo_q_wf(1) valid_q_iter demo_q_claimed] by simp
qed

lemma rt_inv_finished:
  assumes "wf_tq deps" "rt_inv deps (st, running, dn)"
  shows "finished st \<longleftrightarrow> set dn = set (tq_tasks deps)"
proof -
  have i: "rs_deps st = deps" "rs_retired st = int (length dn)" "distinct dn"
    "set dn \<subseteq> set (tq_tasks deps)"
    using assms(2) by (auto simp: rt_inv_def kahn_inv_def)
  have "finished st \<longleftrightarrow> length dn = length (tq_tasks deps)" by (simp add: finished_def i tq_tasks_def)
  also have "\<dots> \<longleftrightarrow> set dn = set (tq_tasks deps)"
    using i(3,4) tq.verts_distinct [OF assms(1)]
    by (metis List.finite_set card_subset_eq distinct_card)
  finally show ?thesis .
qed

lemma rt_inv_stuck:
  assumes "wf_tq deps" "acyclic (tq_edges deps)" "rt_inv deps (st, [], dn)" "rs_ready st = []"
  shows "finished st"
proof -
  have "kahn_inv (set (tq_tasks deps)) (tq_edges deps) (rs_remaining st) [] dn"
    using assms(3,4) by (simp add: rt_inv_def)
  from kahn_inv_final [OF _ tq.edges_in [OF assms(1)] this] assms(2)
  have "set dn = set (tq_tasks deps)" by simp
  with rt_inv_finished [OF assms(1,3)] show ?thesis by simp
qed

lemma rt_steps_count:
  assumes "wf_tq deps" "valid_iter iter"
    and "(rt_step iter ^^ m) (initialize (new_state deps), [], []) (st, running, dn)"
  shows "rt_inv deps (st, running, dn) \<and> m = length running + 2 * length dn"
  using assms(3)
proof (induction m arbitrary: st running dn)
  case 0
  then show ?case using rt_inv_init [OF assms(1)] by auto
next
  case (Suc m)
  then obtain st0 r0 d0 where p: "(rt_step iter ^^ m) (initialize (new_state deps), [], []) (st0, r0, d0)"
    and s: "rt_step iter (st0, r0, d0) (st, running, dn)" by (auto elim: relpowp_Suc_E)
  from Suc.IH [OF p] have i: "rt_inv deps (st0, r0, d0)" "m = length r0 + 2 * length d0" by auto
  from s have "Suc m = length running + 2 * length dn"
    by (cases rule: rt_stepE) (use i(2) length_pos_if_in_set [of _ r0] in \<open>fastforce simp: length_remove1\<close>)+
  with rt_step_inv [OF assms(1,2) i(1) s] show ?case by blast
qed

text \<open>
  C11: The runtime cannot deadlock and every execution is finite.  For an acyclic graph, after any \<open>m\<close>
  interleaved steps from the initial state: \<open>m\<close> is at most twice the number of tasks; the state is
  finished exactly when every task has completed; and an unfinished state always has a step (the
  queue is not empty or a task is running).
\<close>

theorem queue_progress:
  assumes "wf_tq deps" "valid_iter iter" "acyclic (tq_edges deps)"
    and "(rt_step iter ^^ m) (initialize (new_state deps), [], []) (st, running, dn)"
  shows "m \<le> 2 * length (tq_tasks deps)
    \<and> (finished st \<longleftrightarrow> set dn = set (tq_tasks deps))
    \<and> (finished st \<or> (\<exists>c'. rt_step iter (st, running, dn) c'))"
proof -
  have i: "rt_inv deps (st, running, dn)" and m: "m = length running + 2 * length dn"
    using rt_steps_count [OF assms(1,2,4)] by auto
  have "distinct (dn @ running)" "set (dn @ running) \<subseteq> set (tq_tasks deps)"
    using i by (auto simp: rt_inv_def kahn_inv_def)
  then have "length (dn @ running) \<le> length (tq_tasks deps)"
    using tq.verts_distinct [OF assms(1)] by (metis List.finite_set card_mono distinct_card)
  then have "m \<le> 2 * length (tq_tasks deps)" using m by simp
  moreover have "\<exists>c'. rt_step iter (st, running, dn) c'" if "\<not> finished st"
  proof (cases running)
    case (Cons k r)
    then have k: "k \<in> set running" by simp
    from complete_value [OF assms(1,2) i this] obtain st' ks where "complete iter st k = Inr (st', ks)"
      by blast
    from rt_complete [OF k this] show ?thesis by blast
  next
    case Nil
    then have "rs_ready st \<noteq> []" using rt_inv_stuck [OF assms(1,3)] i that by blast
    then obtain k q where "claim st = (st\<lparr>rs_ready := q\<rparr>, Some k)"
      by (auto simp: claim_def neq_Nil_conv)
    from rt_claim [OF this] show ?thesis by blast
  qed
  ultimately show ?thesis using rt_inv_finished [OF assms(1) i] by blast
qed

theorem queue_progress_witness:
  "\<exists>c'. rt_step q_iter (initialize (new_state demo_q), [], []) c'"
proof -
  have "(rt_step q_iter ^^ 0) (initialize (new_state demo_q), [], []) (initialize (new_state demo_q), [], [])"
    by simp
  from queue_progress [OF demo_q_wf(1) valid_q_iter demo_q_wf(2) this]
  have "finished (initialize (new_state demo_q)) \<or> ?thesis" by blast
  moreover have "\<not> finished (initialize (new_state demo_q))"
    by (simp add: initialize_value demo_q_wf finished_def) (simp add: demo_q_def)
  ultimately show ?thesis by blast
qed

section \<open>The simulation\<close>

lemma sweep_inv:
  assumes "wf_tq deps" "valid_iter iter" "rt_inv deps (st, [], dn)"
  shows "\<exists>st' spins' dn'. sweep iter w st spins p = Inr (st', spins', p \<or> (0 < w \<and> rs_ready st \<noteq> []))
    \<and> rt_inv deps (st', [], dn')"
  using assms(3)
proof (induction w arbitrary: st spins p dn)
  case 0
  then show ?case by auto
next
  case (Suc w)
  show ?case
  proof (cases "rs_ready st")
    case Nil
    then show ?thesis using Suc.IH [OF Suc.prems, of "spins + 1" p] by (auto simp: claim_def)
  next
    case (Cons k q)
    let ?st = "st\<lparr>rs_ready := q\<rparr>"
    have c: "claim st = (?st, Some k)" using Cons by (simp add: claim_def)
    have "rt_inv deps (?st, [k], dn)" using rt_inv_claim [OF Suc.prems c] by simp
    from complete_value [OF assms(1,2) this, of k] obtain s1 ks where
      s1: "complete iter ?st k = Inr (s1, ks)" "rt_inv deps (s1, [], dn @ [k])" by auto
    from Suc.IH [OF s1(2), of spins True] show ?thesis using c s1(1) Cons by auto
  qed
qed

lemma sim_loop_finishes:
  assumes "wf_tq deps" "valid_iter iter" "acyclic (tq_edges deps)" "0 < nw" "0 \<le> ms"
    and "rt_inv deps (st, [], dn)"
  shows "\<exists>st' dn'. sim_loop iter nw ms st = Inr st' \<and> rt_inv deps (st', [], dn') \<and> finished st'"
  using assms(2,4,5,6)
proof (induction iter nw ms st arbitrary: dn rule: sim_loop.induct)
  case (1 iter nw ms st)
  show ?case
  proof (cases "finished st")
    case True
    then show ?thesis using "1.prems" by (auto simp: sim_loop.simps [of iter nw ms st])
  next
    case False
    then have r: "rs_ready st \<noteq> []" using rt_inv_stuck [OF assms(1,3) "1.prems"(4)] by blast
    with sweep_inv [OF assms(1) "1.prems"(1,4), of "nat nw" 0 False] "1.prems"(2)
    obtain st1 sp1 dn1 where s: "sweep iter (nat nw) st 0 False = Inr (st1, sp1, True)"
      and i1: "rt_inv deps (st1, [], dn1)" by auto
    have "\<exists>st' dn'. sim_loop iter nw ms (fst (st1, sp1, True)) = Inr st' \<and> rt_inv deps (st', [], dn') \<and> finished st'"
      by (rule "1.IH" [OF False s]) (use "1.prems" i1 in simp_all)
    then obtain st' dn' where
      "sim_loop iter nw ms st1 = Inr st'" "rt_inv deps (st', [], dn')" "finished st'" by auto
    then show ?thesis using False s "1.prems"(3) by (auto simp: sim_loop.simps [of iter nw ms st])
  qed
qed

text \<open>
  C12: The simulated dispatch loop terminates and retires everything.  For a well-formed dependency
  graph and at least one worker, \<^verbatim>\<open>simulate_fifo_execution\<close> returns with \<^verbatim>\<open>retired\<close> equal to
  \<^verbatim>\<open>total\<close>, the number of tasks, when the graph is acyclic, and raises \<^verbatim>\<open>ProgressError\<close> when it
  has a cycle.
\<close>

theorem simulate_retires_all:
  assumes "wf_tq deps" "valid_iter iter" "0 < num_workers"
  shows "simulate_fifo_execution iter deps num_workers =
    (if acyclic (tq_edges deps)
     then Inr (int (length (tq_preds deps)), int (length (tq_preds deps)))
     else Inl ProgressError)"
proof (cases "acyclic (tq_edges deps)")
  case True
  have chk: "tq_check_acyclic iter deps = Inr ()"
    unfolding tq_check_eq using tq.acyclic_check_iff [OF assms(1,2)] True by simp
  have ms: "0 \<le> int (length (tq_preds deps)) * num_workers + 16" using assms(3) by simp
  obtain st' dn' where s: "sim_loop iter num_workers (int (length (tq_preds deps)) * num_workers + 16)
      (initialize (new_state deps)) = Inr st'" "rt_inv deps (st', [], dn')" "finished st'"
    using sim_loop_finishes [OF assms(1,2) True assms(3) ms rt_inv_init [OF assms(1)]] by blast
  have "rs_retired st' = int (length (tq_preds deps))"
    using s(2,3) by (simp add: rt_inv_def finished_def)
  then show ?thesis using True chk s(1) by (simp add: simulate_fifo_execution_def Let_def)
next
  case False
  then show ?thesis
    using tq.acyclic_check_iff [OF assms(1,2)] by (simp add: simulate_fifo_execution_def tq_check_eq)
qed

theorem simulate_retires_all_witness:
  "simulate_fifo_execution q_iter demo_q 3 = Inr (2, 2)"
  using simulate_retires_all [OF demo_q_wf(1) valid_q_iter, of 3] demo_q_wf(2) by (simp add: demo_q_def)

end
