(* ===== verification/Operator_Graph.thy ===== *)
theory Operator_Graph
  imports Operator_IR
begin

text \<open>
  The operator graph of \<^verbatim>\<open>compiler/operator_ir.py\<close>: tensor, storage and scalar tables and the ordered
  list of recorded operators, with the operations that extend them.  The invariant \<open>graph_wf\<close> is kept
  by every operation.
\<close>

section \<open>Model\<close>

record OperatorGraph =
  g_tensors :: "(string, TensorValue) dict"
  g_storage_sizes :: "(int, int) dict"
  g_storage_names :: "(int, string) dict"
  g_scalars :: "(string, SymbolicScalar) dict"
  g_ops :: "Operator list"
  g_fresh_storages :: "int set"
  g_storage_versions :: "(int, int) dict"
  g_row_position_tensors :: "string set"
  g_row_position_capacity :: "(string, int) dict"
  g_next_vid :: int
  g_next_opid :: int
  g_next_storage :: int

definition empty_graph :: OperatorGraph where
  "empty_graph = \<lparr>g_tensors = [], g_storage_sizes = [], g_storage_names = [], g_scalars = [],
     g_ops = [], g_fresh_storages = {}, g_storage_versions = [], g_row_position_tensors = {},
     g_row_position_capacity = [], g_next_vid = 0, g_next_opid = 0, g_next_storage = 0\<rparr>"

definition new_storage :: "OperatorGraph \<Rightarrow> string \<Rightarrow> int \<Rightarrow> int \<times> OperatorGraph" where
  "new_storage g name n =
     (let sid = g_next_storage g in
      (sid, g\<lparr>g_next_storage := g_next_storage g + 1,
              g_storage_sizes := dict_set sid n (g_storage_sizes g),
              g_storage_names := dict_set sid name (g_storage_names g),
              g_storage_versions := dict_set sid 0 (g_storage_versions g),
              g_fresh_storages := insert sid (g_fresh_storages g)\<rparr>))"

definition add_external_storage :: "OperatorGraph \<Rightarrow> int \<Rightarrow> string \<Rightarrow> int \<Rightarrow> OperatorGraph" where
  "add_external_storage g sid name n =
     g\<lparr>g_storage_sizes := dict_setdefault sid n (g_storage_sizes g),
       g_storage_names := dict_setdefault sid name (g_storage_names g),
       g_storage_versions := dict_setdefault sid 0 (g_storage_versions g)\<rparr>"

definition add_tensor ::
  "OperatorGraph \<Rightarrow> string \<Rightarrow> int list \<Rightarrow> DType \<Rightarrow> int \<Rightarrow> int list \<Rightarrow> int \<Rightarrow> ValidLength option
    \<Rightarrow> (TensorValue \<times> OperatorGraph) result" where
  "add_tensor g name shape dtype storage_id strides offset valid_length =
     (if dict_has (g_tensors g) name then Inl ValueError
      else if list_ex (\<lambda>s. s < 0) strides then Inl ValueError
      else
        let tv = \<lparr>tv_vid = Some (g_next_vid g), tv_name = name, tv_shape = shape, tv_dtype = dtype,
                  tv_strides = strides, tv_storage_id = storage_id, tv_offset = offset,
                  tv_valid_length = valid_length\<rparr>
        in Inr (tv, g\<lparr>g_next_vid := g_next_vid g + 1,
                      g_tensors := dict_set name tv (g_tensors g)\<rparr>))"

definition bump_version :: "(int, int) dict \<Rightarrow> Region \<Rightarrow> (int, int) dict" where
  "bump_version vs w =
     dict_set (reg_storage_id w)
       ((case map_of vs (reg_storage_id w) of None \<Rightarrow> 0 | Some v \<Rightarrow> v) + 1) vs"

definition record_op ::
  "OperatorGraph \<Rightarrow> string \<Rightarrow> string list \<Rightarrow> string list \<Rightarrow> attrs \<Rightarrow> Region list \<Rightarrow> Region list \<Rightarrow> string
    \<Rightarrow> Operator \<times> OperatorGraph" where
  "record_op g kind inputs outputs attributes reads writes source_location =
     (let op = \<lparr>opid = g_next_opid g, op_kind = kind, op_inputs = inputs, op_outputs = outputs,
                op_attributes = attributes, op_read_regions = reads, op_write_regions = writes,
                op_source_location = source_location\<rparr>
      in (op, g\<lparr>g_next_opid := g_next_opid g + 1,
                g_ops := g_ops g @ [op],
                g_storage_versions := foldl bump_version (g_storage_versions g) writes\<rparr>))"

definition add_scalar :: "OperatorGraph \<Rightarrow> SymbolicScalar \<Rightarrow> OperatorGraph" where
  "add_scalar g s = g\<lparr>g_scalars := dict_set (sc_name s) s (g_scalars g)\<rparr>"

definition graph_tensor :: "OperatorGraph \<Rightarrow> string \<Rightarrow> TensorValue result" where
  "graph_tensor g name = dict_get (g_tensors g) name"

section \<open>Invariant\<close>

text \<open>
  Operator ids count up from 0 in program order; the tensor table maps each name to a tensor of that
  name with non-negative strides and a unique id; compiler-planned storages are registered
  and have been handed out.
\<close>

definition tensor_entry_ok :: "int \<Rightarrow> string \<times> TensorValue \<Rightarrow> bool" where
  "tensor_entry_ok n e = (case e of (name, tv) \<Rightarrow>
     tv_name tv = name \<and> (\<forall>s \<in> set (tv_strides tv). 0 \<le> s)
     \<and> (\<exists>i. tv_vid tv = Some i \<and> 0 \<le> i \<and> i < n))"

definition graph_wf :: "OperatorGraph \<Rightarrow> bool" where
  "graph_wf g =
     (0 \<le> g_next_vid g \<and> 0 \<le> g_next_opid g \<and> 0 \<le> g_next_storage g
      \<and> map opid (g_ops g) = urange (g_next_opid g)
      \<and> dict_wf (g_tensors g)
      \<and> (\<forall>e \<in> set (g_tensors g). tensor_entry_ok (g_next_vid g) e)
      \<and> distinct (map (tv_vid \<circ> snd) (g_tensors g))
      \<and> g_fresh_storages g = {0..<g_next_storage g}
      \<and> {0..<g_next_storage g} \<subseteq> dom (map_of (g_storage_sizes g))
      \<and> dict_wf (g_storage_sizes g) \<and> dict_wf (g_storage_names g) \<and> dict_wf (g_storage_versions g))"

lemma urange_Suc: "0 \<le> n \<Longrightarrow> urange (n + 1) = urange n @ [n]"
  by (simp add: urange_def nat_add_distrib)

lemma graph_wf_empty: "graph_wf empty_graph"
  by (simp add: graph_wf_def empty_graph_def urange_def dict_wf_def)

lemma range_Suc: "0 \<le> n \<Longrightarrow> {0..<n + 1} = insert n {0..<(n :: int)}"
  by auto

lemma graph_wf_new_storage: "graph_wf g \<Longrightarrow> graph_wf (snd (new_storage g name n))"
  by (auto simp: graph_wf_def new_storage_def Let_def range_Suc)

lemma dom_dict_setdefault: "dom (map_of (dict_setdefault k v d)) = insert k (dom (map_of d))"
  by (auto simp: map_of_dict_setdefault split: if_splits)

lemma graph_wf_add_external_storage: "graph_wf g \<Longrightarrow> graph_wf (add_external_storage g sid name n)"
  by (auto simp: graph_wf_def add_external_storage_def dict_wf_setdefault dom_dict_setdefault)

lemma add_tensor_Inr:
  assumes "add_tensor g name sh dt sid st off vl = Inr (tv, g')"
  shows "tv = \<lparr>tv_vid = Some (g_next_vid g), tv_name = name, tv_shape = sh, tv_dtype = dt,
      tv_strides = st, tv_storage_id = sid, tv_offset = off, tv_valid_length = vl\<rparr>"
    "g' = g\<lparr>g_next_vid := g_next_vid g + 1, g_tensors := g_tensors g @ [(name, tv)]\<rparr>"
    "map_of (g_tensors g) name = None" "\<forall>s \<in> set st. 0 \<le> s"
  using assms
  by (auto simp: add_tensor_def dict_has_def dict_set_fresh list_ex_iff Let_def not_less split: if_splits)

lemma tensor_entry_mono: "tensor_entry_ok n e \<Longrightarrow> n \<le> m \<Longrightarrow> tensor_entry_ok m e"
  by (auto simp: tensor_entry_ok_def)

lemma graph_wf_add_tensor:
  assumes "graph_wf g" "add_tensor g name sh dt sid st off vl = Inr (tv, g')"
  shows "graph_wf g'"
proof -
  note t = add_tensor_Inr [OF assms(2)]
  have w: "\<forall>e \<in> set (g_tensors g). tensor_entry_ok (g_next_vid g) e" "0 \<le> g_next_vid g"
    "distinct (map (tv_vid \<circ> snd) (g_tensors g))" "dict_wf (g_tensors g)"
    using assms(1) by (simp_all add: graph_wf_def)
  have "Some (g_next_vid g) \<notin> (tv_vid \<circ> snd) ` set (g_tensors g)"
    using w(1) by (fastforce simp: tensor_entry_ok_def)
  then have "distinct (map (tv_vid \<circ> snd) (g_tensors g @ [(name, tv)]))"
    using w(3) t(1) by simp
  moreover have "dict_wf (g_tensors g @ [(name, tv)])"
    using w(4) t(3) by (auto simp: dict_wf_def map_of_eq_None_iff)
  moreover have "\<forall>e \<in> set (g_tensors g @ [(name, tv)]). tensor_entry_ok (g_next_vid g + 1) e"
  proof -
    have "tensor_entry_ok (g_next_vid g + 1) (name, tv)"
      using t(1,4) w(2) by (simp add: tensor_entry_ok_def)
    then show ?thesis using w(1) tensor_entry_mono [of "g_next_vid g" _ "g_next_vid g + 1"] by auto
  qed
  ultimately show ?thesis using assms(1) t(2) by (simp add: graph_wf_def)
qed

lemma dict_wf_bump: "dict_wf vs \<Longrightarrow> dict_wf (foldl bump_version vs ws)"
  by (induction ws arbitrary: vs) (simp_all add: bump_version_def)

lemma graph_wf_record_op:
  "graph_wf g \<Longrightarrow> graph_wf (snd (record_op g kind ins outs at rs ws loc))"
  by (simp add: graph_wf_def record_op_def Let_def urange_Suc dict_wf_bump)

lemma graph_wf_add_scalar: "graph_wf g \<Longrightarrow> graph_wf (add_scalar g s)"
  by (simp add: graph_wf_def add_scalar_def)

lemmas graph_wf_intros = graph_wf_empty graph_wf_new_storage graph_wf_add_external_storage
  graph_wf_add_tensor graph_wf_record_op graph_wf_add_scalar

section \<open>Version counters\<close>

definition writes_to :: "int \<Rightarrow> Region list \<Rightarrow> int" where
  "writes_to sid ws = int (length (filter (\<lambda>w. reg_storage_id w = sid) ws))"

definition version_of :: "(int, int) dict \<Rightarrow> int \<Rightarrow> int" where
  "version_of vs sid = (case map_of vs sid of None \<Rightarrow> 0 | Some v \<Rightarrow> v)"

lemma version_of_bump:
  "version_of (foldl bump_version vs ws) sid = version_of vs sid + writes_to sid ws"
  by (induction ws arbitrary: vs) (auto simp: version_of_def writes_to_def bump_version_def)

end
