(* ===== verification/Memory_Plan.thy ===== *)
theory Memory_Plan
  imports Schedule_Phase Operator_Graph "HOL-Library.Product_Lexorder"
begin

text \<open>
  Memory planning of \<^verbatim>\<open>compiler/memory.py\<close>: buffer lifetimes from the recorded effects and the
  schedule, first-fit packing with reuse into one workspace, and the per-worker scratch size.  The
  locale \<open>packer\<close> states what the packing loop needs of the placement of one buffer.
\<close>

section \<open>Model\<close>

definition ALIGN_ELEMENTS :: int where "ALIGN_ELEMENTS = 64"
definition RUNTIME_SCRATCH_BYTES :: int where "RUNTIME_SCRATCH_BYTES = 256"

definition align_up :: "int \<Rightarrow> int \<Rightarrow> int" where
  "align_up x a = (x + a - 1) div a * a"

record BufferPlan =
  buf_name :: string
  buf_storage_id :: int
  buf_numel :: int
  buf_first_phase :: int
  buf_last_phase :: int
  buf_offset :: int
  buf_live_at_end :: bool

definition lifetime :: "BufferPlan \<Rightarrow> int \<times> int" where
  "lifetime b = (buf_first_phase b, buf_last_phase b)"

definition overlaps_lifetime :: "BufferPlan \<Rightarrow> BufferPlan \<Rightarrow> bool" where
  "overlaps_lifetime a b =
     (case lifetime a of (a0, a1) \<Rightarrow> case lifetime b of (b0, b1) \<Rightarrow> a0 \<le> b1 \<and> b0 \<le> a1)"

record WorkspacePlan =
  wp_buffers :: "BufferPlan list"
  wp_total_elements :: int
  wp_element_size :: int

definition total_bytes :: "WorkspacePlan \<Rightarrow> int" where
  "total_bytes p = wp_total_elements p * wp_element_size p"

definition naive_bytes :: "WorkspacePlan \<Rightarrow> int" where
  "naive_bytes p = sum_list (map buf_numel (wp_buffers p)) * wp_element_size p"

record ScratchPlan =
  sp_runtime_bytes :: int
  sp_max_task_scratch :: int

definition per_worker_bytes :: "ScratchPlan \<Rightarrow> int" where
  "per_worker_bytes s = align_up (sp_runtime_bytes s + sp_max_task_scratch s) 128"

fun region_overlaps_storage :: "Region list \<Rightarrow> int \<Rightarrow> bool" where
  "region_overlaps_storage [] sid = False"
| "region_overlaps_storage (r # rs) sid =
     (if reg_storage_id r = sid then True else region_overlaps_storage rs sid)"

definition phase_of_op :: "PhaseSchedule \<Rightarrow> (int, int) dict" where
  "phase_of_op schedule =
     foldl (\<lambda>d phase. foldl (\<lambda>d fam. dict_set (opid (fam_op fam)) (ph_index phase) d) d (ph_families phase))
       [] (ps_phases schedule)"

definition fresh_table :: "OperatorGraph \<Rightarrow> (int, string \<times> int) dict" where
  "fresh_table graph =
     foldl (\<lambda>d (name, tv).
        if tv_storage_id tv \<in> g_fresh_storages graph
        then dict_setdefault (tv_storage_id tv) (name, numel tv) d else d)
       [] (g_tensors graph)"

text \<open>One operator's effect on the lifetime lists: its phase is appended for each storage it touches.\<close>

definition touch_op ::
  "(int, int) dict \<Rightarrow> int list \<Rightarrow> (int, int list) dict \<Rightarrow> Operator \<Rightarrow> (int, int list) dict result" where
  "touch_op phase_of sids lts op =
     bindr (dict_get phase_of (opid op)) (\<lambda>ph.
       foldr_res (\<lambda>lts sid.
         if region_overlaps_storage (op_read_regions op) sid
            \<or> region_overlaps_storage (op_write_regions op) sid
         then bindr (dict_get lts sid) (\<lambda>phs. Inr (dict_set sid (phs @ [ph]) lts))
         else Inr lts) lts sids)"

definition lifetimes_of ::
  "(int, int) dict \<Rightarrow> int list \<Rightarrow> Operator list \<Rightarrow> (int, int list) dict result" where
  "lifetimes_of phase_of sids ops =
     foldr_res (touch_op phase_of sids) (map (\<lambda>sid. (sid, [])) sids) ops"

fun list_min :: "int list \<Rightarrow> int" where
  "list_min [] = 0"
| "list_min [x] = x"
| "list_min (x # y # xs) = min x (list_min (y # xs))"

fun list_max :: "int list \<Rightarrow> int" where
  "list_max [] = 0"
| "list_max [x] = x"
| "list_max (x # y # xs) = max x (list_max (y # xs))"

definition make_buffer :: "int \<Rightarrow> (int, int list) dict \<Rightarrow> int \<times> string \<times> int \<Rightarrow> BufferPlan result" where
  "make_buffer final_phase lts entry =
     (case entry of (sid, name, n) \<Rightarrow>
        bindr (dict_get lts sid) (\<lambda>touched.
          let phs = (if touched = [] then [0] else touched);
              lst = list_max phs
          in Inr \<lparr>buf_name = name, buf_storage_id = sid, buf_numel = n,
                  buf_first_phase = list_min phs, buf_last_phase = lst, buf_offset = 0,
                  buf_live_at_end = (lst = final_phase)\<rparr>))"

text \<open>First fit: skip past the first conflicting buffer until none conflicts.\<close>

definition buf_end :: "BufferPlan \<Rightarrow> int" where
  "buf_end p = buf_offset p + align_up (buf_numel p) ALIGN_ELEMENTS"

definition conflicts_at :: "int \<Rightarrow> int \<Rightarrow> BufferPlan \<Rightarrow> bool" where
  "conflicts_at candidate n p =
     (candidate < buf_end p \<and> buf_offset p < candidate + align_up n ALIGN_ELEMENTS)"

lemma align_up_ge: "0 < a \<Longrightarrow> x \<le> align_up x a"
  unfolding align_up_def using div_mult_mod_eq [of "x + a - 1" a] pos_mod_bound [of a "x + a - 1"]
  by linarith

function first_fit :: "BufferPlan list \<Rightarrow> int \<Rightarrow> int \<Rightarrow> int" where
  "first_fit colliding n candidate =
     (let c = align_up candidate ALIGN_ELEMENTS in
      case find (conflicts_at c n) colliding of
        None \<Rightarrow> c
      | Some p \<Rightarrow> first_fit colliding n (buf_end p))"
  by pat_completeness auto
termination
proof (relation "measure (\<lambda>(ps, n, c). length (filter (\<lambda>p. c < buf_end p) ps))", goal_cases)
  case (2 ps n c c' p)
  then have c: "c \<le> c'" using align_up_ge [of ALIGN_ELEMENTS c] by (simp add: ALIGN_ELEMENTS_def)
  from 2 have p: "p \<in> set ps" "c' < buf_end p" by (auto simp: find_Some_iff conflicts_at_def)
  have "length (filter (\<lambda>q. buf_end p < buf_end q) ps) < length (filter (\<lambda>q. c < buf_end q) ps)"
    using c p by (intro length_filter_less_if) auto
  then show ?case by simp
qed simp

declare first_fit.simps [simp del]

definition place_buffer :: "BufferPlan list \<Rightarrow> BufferPlan \<Rightarrow> BufferPlan" where
  "place_buffer placed b =
     b\<lparr>buf_offset := first_fit (filter (\<lambda>p. overlaps_lifetime p b) placed) (buf_numel b) 0\<rparr>"

definition pack_buffers :: "BufferPlan list \<Rightarrow> BufferPlan list" where
  "pack_buffers bs = foldl (\<lambda>placed b. placed @ [place_buffer placed b]) [] bs"

definition workspace_total :: "BufferPlan list \<Rightarrow> int" where
  "workspace_total placed = foldl (\<lambda>total b. max total (buf_offset b + buf_numel b)) 0 placed"

definition max_scratch :: "TaskFamily list \<Rightarrow> int" where
  "max_scratch fams = list_max (map fam_scratch_bytes fams)"

definition plan_memory ::
  "OperatorGraph \<Rightarrow> PhaseSchedule \<Rightarrow> TaskFamily list \<Rightarrow> (WorkspacePlan \<times> ScratchPlan) result" where
  "plan_memory graph schedule families =
     (let phase_of = phase_of_op schedule; fresh = fresh_table graph in
      bindr (lifetimes_of phase_of (map fst fresh) (g_ops graph)) (\<lambda>lts.
      bindr (mapr (make_buffer (num_phases schedule - 1) lts) fresh) (\<lambda>buffers.
        let placed = pack_buffers (sort_key (\<lambda>b. (buf_first_phase b, - buf_numel b)) buffers)
        in Inr (\<lparr>wp_buffers = placed, wp_total_elements = workspace_total placed,
                 wp_element_size = 4\<rparr>,
                \<lparr>sp_runtime_bytes = RUNTIME_SCRATCH_BYTES,
                 sp_max_task_scratch = max_scratch families\<rparr>))))"

definition kv_cache_bytes :: "int \<Rightarrow> int \<Rightarrow> int \<Rightarrow> int \<Rightarrow> int \<Rightarrow> int" where
  "kv_cache_bytes layers batch capacity hidden element_size =
     2 * layers * batch * capacity * hidden * element_size"

section \<open>Alignment and first fit\<close>

lemma align_up_dvd: "a dvd align_up x a"
  by (simp add: align_up_def)

lemma align_up_least:
  assumes "0 < a" "a dvd y" "x \<le> y"
  shows "align_up x a \<le> y"
proof -
  obtain k where y: "y = a * k" using assms(2) by (rule dvdE)
  have "x + a - 1 < a * (k + 1)" using assms(1,3) y by (simp add: algebra_simps)
  then have "(x + a - 1) div a < k + 1"
    using assms(1) by (intro div_less_of_less_mult) (simp_all add: mult.commute)
  then show ?thesis unfolding align_up_def y using assms(1) by (simp add: mult.commute)
qed

lemma align_up_id: "0 < a \<Longrightarrow> a dvd x \<Longrightarrow> align_up x a = x"
  using align_up_ge [of a x] align_up_least [of a x x] by simp

lemma align_up_nonneg: "0 < a \<Longrightarrow> 0 \<le> x \<Longrightarrow> 0 \<le> align_up x a"
  using align_up_ge [of a x] by simp

lemma ALIGN_pos [simp]: "0 < ALIGN_ELEMENTS"
  by (simp add: ALIGN_ELEMENTS_def)

text \<open>
  The result is aligned, clear of every colliding buffer, and the lowest such offset that is not
  below the starting candidate.
\<close>

lemma first_fit_spec:
  "candidate \<le> first_fit ps n candidate
   \<and> ALIGN_ELEMENTS dvd first_fit ps n candidate
   \<and> (\<forall>p \<in> set ps. \<not> conflicts_at (first_fit ps n candidate) n p)
   \<and> (\<forall>c. ALIGN_ELEMENTS dvd c \<and> candidate \<le> c \<and> c < first_fit ps n candidate \<longrightarrow>
          (\<exists>p \<in> set ps. conflicts_at c n p))"
proof (induction ps n candidate rule: first_fit.induct)
  case (1 ps n candidate)
  let ?c = "align_up candidate ALIGN_ELEMENTS"
  have ge: "candidate \<le> ?c" by (rule align_up_ge) simp
  show ?case
  proof (cases "find (conflicts_at ?c n) ps")
    case None
    have "\<not> (ALIGN_ELEMENTS dvd c \<and> candidate \<le> c \<and> c < ?c)" for c
      using align_up_least [of ALIGN_ELEMENTS c candidate] by auto
    moreover have "first_fit ps n candidate = ?c" using None by (simp add: first_fit.simps [of ps n candidate])
    ultimately show ?thesis using ge None by (auto simp: find_None_iff align_up_dvd)
  next
    case (Some p)
    let ?r = "first_fit ps n (buf_end p)"
    have r: "first_fit ps n candidate = ?r" using Some by (simp add: first_fit.simps [of ps n candidate])
    have IH: "buf_end p \<le> ?r" "ALIGN_ELEMENTS dvd ?r" "\<forall>q \<in> set ps. \<not> conflicts_at ?r n q"
      "\<And>c. ALIGN_ELEMENTS dvd c \<Longrightarrow> buf_end p \<le> c \<Longrightarrow> c < ?r \<Longrightarrow> \<exists>q \<in> set ps. conflicts_at c n q"
      using "1.IH" [OF refl Some] by auto
    have p: "p \<in> set ps" "conflicts_at ?c n p" using Some by (auto simp: find_Some_iff)
    have "\<exists>q \<in> set ps. conflicts_at c n q"
      if c: "ALIGN_ELEMENTS dvd c" "candidate \<le> c" "c < ?r" for c
    proof (cases "buf_end p \<le> c")
      case True
      then show ?thesis using IH(4) c by blast
    next
      case False
      have "?c \<le> c" using align_up_least [OF _ c(1,2)] by simp
      then have "conflicts_at c n p" using p(2) False by (auto simp: conflicts_at_def)
      then show ?thesis using p(1) by blast
    qed
    then show ?thesis unfolding r using IH ge p(2) by (auto simp: conflicts_at_def)
  qed
qed

text \<open>First fit starts at 0 or right after a colliding buffer.\<close>

lemma first_fit_source:
  assumes "ALIGN_ELEMENTS dvd candidate" "\<forall>p \<in> set ps. ALIGN_ELEMENTS dvd buf_offset p"
  shows "first_fit ps n candidate = candidate \<or> (\<exists>p \<in> set ps. first_fit ps n candidate = buf_end p)"
  using assms
proof (induction ps n candidate rule: first_fit.induct)
  case (1 ps n candidate)
  have c: "align_up candidate ALIGN_ELEMENTS = candidate" using "1.prems"(1) by (simp add: align_up_id)
  show ?case
  proof (cases "find (conflicts_at candidate n) ps")
    case None
    then show ?thesis using c by (simp add: first_fit.simps [of ps n candidate])
  next
    case (Some p)
    then have p: "p \<in> set ps" by (auto simp: find_Some_iff)
    then have "ALIGN_ELEMENTS dvd buf_end p" using "1.prems"(2) by (simp add: buf_end_def align_up_dvd)
    then have "first_fit ps n (buf_end p) = buf_end p \<or> (\<exists>q \<in> set ps. first_fit ps n (buf_end p) = buf_end q)"
      using "1.IH" [OF refl, of p] Some c "1.prems"(2) by simp
    then show ?thesis using Some c p by (auto simp: first_fit.simps [of ps n candidate])
  qed
qed

section \<open>The packing contract\<close>

text \<open>
  Placing one buffer keeps its identity and puts it clear of the placed buffers it is alive with;
  then the packing loop separates every pair that is alive together.
\<close>

locale packer =
  fixes alive :: "'b \<Rightarrow> 'b \<Rightarrow> bool"
    and apart :: "'b \<Rightarrow> 'b \<Rightarrow> bool"
    and put :: "'b list \<Rightarrow> 'b \<Rightarrow> 'b"
  assumes put_apart: "p \<in> set placed \<Longrightarrow> alive p (put placed b) \<Longrightarrow> apart p (put placed b)"
begin

definition pack :: "'b list \<Rightarrow> 'b list" where
  "pack bs = foldl (\<lambda>placed b. placed @ [put placed b]) [] bs"

lemma pack_Nil [simp]: "pack [] = []"
  by (simp add: pack_def)

lemma pack_snoc: "pack (bs @ [b]) = pack bs @ [put (pack bs) b]"
  by (simp add: pack_def)

lemma length_pack [simp]: "length (pack bs) = length bs"
  by (induction bs rule: rev_induct) (auto simp: pack_snoc)

lemma pack_apart: "sorted_wrt (\<lambda>p q. alive p q \<longrightarrow> apart p q) (pack bs)"
proof (induction bs rule: rev_induct)
  case Nil
  then show ?case by simp
next
  case (snoc b bs)
  then show ?case using put_apart [of _ "pack bs" b] by (auto simp: pack_snoc sorted_wrt_append)
qed

lemma pack_map:
  assumes "\<And>placed b. f (put placed b) = f b"
  shows "map f (pack bs) = map f bs"
  by (induction bs rule: rev_induct) (auto simp: pack_snoc assms)

lemma pack_all:
  assumes "\<And>placed b. (\<forall>p \<in> set placed. I p) \<Longrightarrow> b \<in> set bs \<Longrightarrow> I (put placed b)"
  shows "\<forall>p \<in> set (pack bs). I p"
  using assms by (induction bs rule: rev_induct) (auto simp: pack_snoc)

end

definition buffers_apart :: "BufferPlan \<Rightarrow> BufferPlan \<Rightarrow> bool" where
  "buffers_apart p q = (buf_end p \<le> buf_offset q \<or> buf_end q \<le> buf_offset p)"

lemma place_buffer_simps [simp]:
  "buf_name (place_buffer placed b) = buf_name b"
  "buf_storage_id (place_buffer placed b) = buf_storage_id b"
  "buf_numel (place_buffer placed b) = buf_numel b"
  "buf_first_phase (place_buffer placed b) = buf_first_phase b"
  "buf_last_phase (place_buffer placed b) = buf_last_phase b"
  "buf_live_at_end (place_buffer placed b) = buf_live_at_end b"
  by (simp_all add: place_buffer_def)

lemma overlaps_lifetime_place [simp]: "overlaps_lifetime p (place_buffer placed b) = overlaps_lifetime p b"
  by (simp add: overlaps_lifetime_def lifetime_def)

interpretation first_fit: packer overlaps_lifetime buffers_apart place_buffer
proof
  fix p b placed assume "p \<in> set placed" "overlaps_lifetime p (place_buffer placed b)"
  then have "p \<in> set (filter (\<lambda>p. overlaps_lifetime p b) placed)" by simp
  then have "\<not> conflicts_at (buf_offset (place_buffer placed b)) (buf_numel b) p"
    using first_fit_spec [of 0 "filter (\<lambda>p. overlaps_lifetime p b) placed" "buf_numel b"]
    by (simp add: place_buffer_def)
  then show "buffers_apart p (place_buffer placed b)"
    by (auto simp: buffers_apart_def conflicts_at_def buf_end_def)
qed

lemma pack_buffers_eq: "pack_buffers bs = first_fit.pack bs"
  by (simp add: pack_buffers_def first_fit.pack_def)

lemma pack_offsets: "\<forall>p \<in> set (first_fit.pack bs). 0 \<le> buf_offset p \<and> ALIGN_ELEMENTS dvd buf_offset p"
proof (rule first_fit.pack_all)
  fix placed b
  show "0 \<le> buf_offset (place_buffer placed b) \<and> ALIGN_ELEMENTS dvd buf_offset (place_buffer placed b)"
    using first_fit_spec [of 0 "filter (\<lambda>p. overlaps_lifetime p b) placed" "buf_numel b"]
    by (simp add: place_buffer_def)
qed

lemma foldl_max:
  fixes f :: "'b \<Rightarrow> int"
  shows "(\<forall>b \<in> set bs. f b \<le> foldl (\<lambda>t b. max t (f b)) t bs) \<and> t \<le> foldl (\<lambda>t b. max t (f b)) t bs
    \<and> (foldl (\<lambda>t b. max t (f b)) t bs = t \<or> (\<exists>b \<in> set bs. foldl (\<lambda>t b. max t (f b)) t bs = f b))"
proof (induction bs arbitrary: t)
  case (Cons b bs)
  let ?T = "foldl (\<lambda>t b. max t (f b)) (max t (f b)) bs"
  have "\<forall>b \<in> set bs. f b \<le> ?T" "max t (f b) \<le> ?T" "?T = max t (f b) \<or> (\<exists>b \<in> set bs. ?T = f b)"
    using Cons.IH [of "max t (f b)"] by blast+
  moreover have "max t (f b) = t \<or> max t (f b) = f b" by linarith
  ultimately show ?case by auto
qed simp

lemmas workspace_total_fold = foldl_max [where f = "\<lambda>b. buf_offset b + buf_numel b"]

lemma workspace_total_bound: "b \<in> set bs \<Longrightarrow> buf_offset b + buf_numel b \<le> workspace_total bs"
  using workspace_total_fold [of bs 0] by (auto simp: workspace_total_def)

lemma workspace_total_tight:
  "workspace_total bs = 0 \<or> (\<exists>b \<in> set bs. workspace_total bs = buf_offset b + buf_numel b)"
  using workspace_total_fold [of bs 0] by (auto simp: workspace_total_def)

section \<open>Lifetimes\<close>

definition touches :: "Operator \<Rightarrow> int \<Rightarrow> bool" where
  "touches op sid = (\<exists>r \<in> set (op_read_regions op) \<union> set (op_write_regions op). reg_storage_id r = sid)"

lemma region_overlaps_storage_iff: "region_overlaps_storage rs sid \<longleftrightarrow> (\<exists>r \<in> set rs. reg_storage_id r = sid)"
  by (induction rs) auto

lemma touches_iff:
  "region_overlaps_storage (op_read_regions op) sid \<or> region_overlaps_storage (op_write_regions op) sid
   \<longleftrightarrow> touches op sid"
  by (auto simp: region_overlaps_storage_iff touches_def)

lemma touch_fold:
  assumes "set sids \<subseteq> dom (map_of lts)" "distinct sids"
  shows "\<exists>lts'. foldr_res (\<lambda>lts sid. if touches op sid
        then bindr (dict_get lts sid) (\<lambda>phs. Inr (dict_set sid (phs @ [ph]) lts)) else Inr lts) lts sids = Inr lts'
    \<and> (\<forall>x. map_of lts' x = map_option (\<lambda>l. if x \<in> set sids \<and> touches op x then l @ [ph] else l) (map_of lts x))"
  using assms
proof (induction sids arbitrary: lts)
  case Nil
  then show ?case by (simp add: map_option.identity)
next
  case (Cons s sids)
  then obtain l where l: "map_of lts s = Some l" by auto
  let ?l = "if touches op s then dict_set s (l @ [ph]) lts else lts"
  have "set sids \<subseteq> dom (map_of ?l)" using Cons.prems by auto
  with Cons.IH [of ?l] Cons.prems obtain lts' where i:
    "foldr_res (\<lambda>lts sid. if touches op sid
        then bindr (dict_get lts sid) (\<lambda>phs. Inr (dict_set sid (phs @ [ph]) lts)) else Inr lts) ?l sids = Inr lts'"
    "\<And>x. map_of lts' x = map_option (\<lambda>l. if x \<in> set sids \<and> touches op x then l @ [ph] else l) (map_of ?l x)"
    by auto
  have "map_of lts' x = map_option (\<lambda>l. if x \<in> set (s # sids) \<and> touches op x then l @ [ph] else l) (map_of lts x)" for x
    using i(2) [of x] l Cons.prems(2) by (cases "x = s") (auto cong: map_option_cong)
  with i(1) l show ?case by (cases "touches op s") (auto simp: dict_get_def)
qed

definition touched_phases :: "(int, int) dict \<Rightarrow> Operator list \<Rightarrow> int \<Rightarrow> int list" where
  "touched_phases phase_of ops sid =
     map (\<lambda>op. the (map_of phase_of (opid op))) (filter (\<lambda>op. touches op sid) ops)"

lemma lifetimes_fold:
  assumes "\<forall>op \<in> set ops. opid op \<in> dom (map_of phase_of)" "set sids \<subseteq> dom (map_of lts)" "distinct sids"
  shows "\<exists>lts'. foldr_res (touch_op phase_of sids) lts ops = Inr lts'
    \<and> (\<forall>x \<in> set sids. map_of lts' x = map_option (\<lambda>l. l @ touched_phases phase_of ops x) (map_of lts x))"
  using assms(1,2)
proof (induction ops arbitrary: lts)
  case Nil
  then show ?case by (simp add: touched_phases_def map_option.identity)
next
  case (Cons op ops)
  then obtain ph where ph: "map_of phase_of (opid op) = Some ph" by auto
  obtain l1 where t: "touch_op phase_of sids lts op = Inr l1"
    and m: "\<And>x. map_of l1 x = map_option (\<lambda>l. if x \<in> set sids \<and> touches op x then l @ [ph] else l) (map_of lts x)"
    using touch_fold [OF Cons.prems(2) assms(3), of op ph] ph
    by (auto simp: touch_op_def touches_iff dict_get_def)
  have "set sids \<subseteq> dom (map_of l1)" using Cons.prems(2) m by auto
  with Cons.IH [of l1] Cons.prems(1) obtain l2 where l2: "foldr_res (touch_op phase_of sids) l1 ops = Inr l2"
    "\<forall>x \<in> set sids. map_of l2 x = map_option (\<lambda>l. l @ touched_phases phase_of ops x) (map_of l1 x)" by auto
  have "map_of l2 x = map_option (\<lambda>l. l @ touched_phases phase_of (op # ops) x) (map_of lts x)"
    if "x \<in> set sids" for x
    using l2(2) that m [of x] ph by (cases "map_of lts x") (auto simp: touched_phases_def)
  with t l2(1) show ?case by auto
qed

lemma lifetimes_of_value:
  assumes "\<forall>op \<in> set ops. opid op \<in> dom (map_of phase_of)" "distinct sids"
  shows "\<exists>lts. lifetimes_of phase_of sids ops = Inr lts
    \<and> (\<forall>x \<in> set sids. map_of lts x = Some (touched_phases phase_of ops x))"
proof -
  let ?l = "map (\<lambda>sid. (sid, [] :: int list)) sids"
  have m: "map_of ?l x = (if x \<in> set sids then Some [] else None)" for x
    by (simp add: map_of_map_restrict restrict_map_def comp_def)
  then have "set sids \<subseteq> dom (map_of ?l)" by auto
  from lifetimes_fold [OF assms(1) this assms(2)] show ?thesis
    by (auto simp: lifetimes_of_def m)
qed

lemma fresh_table_fold:
  fixes F :: "int set"
  defines "step \<equiv> (\<lambda>d (name, tv). if tv_storage_id tv \<in> F
        then dict_setdefault (tv_storage_id tv) (name, numel tv) d else d)"
  assumes "dict_wf d"
  shows "dict_wf (foldl step d ts)
    \<and> fst ` set (foldl step d ts) = fst ` set d \<union> {tv_storage_id tv | tv. tv \<in> snd ` set ts \<and> tv_storage_id tv \<in> F}"
  using assms(2)
proof (induction ts arbitrary: d)
  case (Cons t ts)
  obtain name tv where t: "t = (name, tv)" by (cases t)
  have "dict_wf (step d t)" using Cons.prems t by (simp add: step_def dict_wf_setdefault)
  moreover have "fst ` set (step d t) = fst ` set d \<union> (if tv_storage_id tv \<in> F then {tv_storage_id tv} else {})"
    using dom_dict_setdefault [of "tv_storage_id tv" "(name, numel tv)" d] t
    by (auto simp: step_def dom_map_of_conv_image_fst)
  ultimately show ?case using Cons.IH [of "step d t"] t by auto
qed simp

lemma fresh_table_keys:
  "dict_wf (fresh_table g)"
  "fst ` set (fresh_table g) = {tv_storage_id tv | tv. tv \<in> snd ` set (g_tensors g) \<and> tv_storage_id tv \<in> g_fresh_storages g}"
  using fresh_table_fold [of "[]" "g_fresh_storages g" "g_tensors g"]
  by (auto simp: fresh_table_def dict_wf_def)

lemma list_min_le: "x \<in> set xs \<Longrightarrow> list_min xs \<le> x"
  by (induction xs rule: list_min.induct) auto

lemma list_max_ge: "x \<in> set xs \<Longrightarrow> x \<le> list_max xs"
  by (induction xs rule: list_max.induct) auto

definition planned_buffer :: "int \<Rightarrow> (int, int) dict \<Rightarrow> Operator list \<Rightarrow> int \<times> string \<times> int \<Rightarrow> BufferPlan" where
  "planned_buffer final_phase phase_of ops entry =
     (let sid = fst entry; phs = touched_phases phase_of ops sid; phs = (if phs = [] then [0] else phs) in
      \<lparr>buf_name = fst (snd entry), buf_storage_id = sid, buf_numel = snd (snd entry),
       buf_first_phase = list_min phs, buf_last_phase = list_max phs, buf_offset = 0,
       buf_live_at_end = (list_max phs = final_phase)\<rparr>)"

lemma plan_memory_value:
  assumes "\<forall>op \<in> set (g_ops g). opid op \<in> dom (map_of (phase_of_op s))"
  shows "plan_memory g s fams =
    (let bs = map (planned_buffer (num_phases s - 1) (phase_of_op s) (g_ops g)) (fresh_table g);
         placed = first_fit.pack (sort_key (\<lambda>b. (buf_first_phase b, - buf_numel b)) bs)
     in Inr (\<lparr>wp_buffers = placed, wp_total_elements = workspace_total placed, wp_element_size = 4\<rparr>,
             \<lparr>sp_runtime_bytes = RUNTIME_SCRATCH_BYTES, sp_max_task_scratch = max_scratch fams\<rparr>))"
proof -
  have "distinct (map fst (fresh_table g))" using fresh_table_keys(1) by (simp add: dict_wf_def)
  from lifetimes_of_value [OF assms this] obtain lts where
    l: "lifetimes_of (phase_of_op s) (map fst (fresh_table g)) (g_ops g) = Inr lts"
    "\<forall>x \<in> set (map fst (fresh_table g)). map_of lts x = Some (touched_phases (phase_of_op s) (g_ops g) x)"
    by blast
  have "mapr (make_buffer (num_phases s - 1) lts) (fresh_table g)
      = Inr (map (planned_buffer (num_phases s - 1) (phase_of_op s) (g_ops g)) (fresh_table g))"
  proof (rule mapr_ok_pure)
    fix e assume e: "e \<in> set (fresh_table g)"
    obtain sid name n where e': "e = (sid, name, n)" by (cases e)
    have "map_of lts sid = Some (touched_phases (phase_of_op s) (g_ops g) sid)" using l(2) e e' by force
    then show "make_buffer (num_phases s - 1) lts e
        = Inr (planned_buffer (num_phases s - 1) (phase_of_op s) (g_ops g) e)"
      by (simp add: e' make_buffer_def planned_buffer_def dict_get_def Let_def)
  qed
  with l(1) show ?thesis by (simp add: plan_memory_def pack_buffers_eq Let_def)
qed

section \<open>Properties of the plan\<close>

lemma pack_pair_apart:
  assumes "b \<in> set (first_fit.pack bs)" "b' \<in> set (first_fit.pack bs)" "b \<noteq> b'" "overlaps_lifetime b b'"
  shows "buffers_apart b b'"
proof -
  obtain i j where ij: "i < length (first_fit.pack bs)" "b = first_fit.pack bs ! i"
    "j < length (first_fit.pack bs)" "b' = first_fit.pack bs ! j" "i \<noteq> j"
    using assms(1-3) by (metis in_set_conv_nth)
  have sym: "overlaps_lifetime b' b" using assms(4) by (auto simp: overlaps_lifetime_def split: prod.splits)
  have sw: "\<And>i j. i < j \<Longrightarrow> j < length (first_fit.pack bs) \<Longrightarrow>
      overlaps_lifetime (first_fit.pack bs ! i) (first_fit.pack bs ! j) \<Longrightarrow>
      buffers_apart (first_fit.pack bs ! i) (first_fit.pack bs ! j)"
    using first_fit.pack_apart [of bs] by (auto simp: sorted_wrt_iff_nth_less)
  show ?thesis
    using sw [of i j] sw [of j i] ij assms(4) sym by (cases "i < j") (auto simp: buffers_apart_def)
qed

lemma packed_buffer:
  assumes "b \<in> set (first_fit.pack (sort_key k bs))"
  shows "\<exists>b0 \<in> set bs. buf_storage_id b = buf_storage_id b0 \<and> buf_numel b = buf_numel b0
    \<and> buf_first_phase b = buf_first_phase b0 \<and> buf_last_phase b = buf_last_phase b0
    \<and> buf_live_at_end b = buf_live_at_end b0"
proof -
  let ?f = "\<lambda>b. (buf_storage_id b, buf_numel b, buf_first_phase b, buf_last_phase b, buf_live_at_end b)"
  have "map ?f (first_fit.pack (sort_key k bs)) = map ?f (sort_key k bs)"
    by (rule first_fit.pack_map) simp
  then have "set (map ?f (first_fit.pack (sort_key k bs))) = set (map ?f (sort_key k bs))" by (rule arg_cong)
  then have "?f ` set (first_fit.pack (sort_key k bs)) = ?f ` set bs" unfolding list.set_map set_sort .
  then have "?f b \<in> ?f ` set bs" using assms by blast
  then show ?thesis by auto
qed

lemma planned_lifetime:
  assumes "op \<in> set ops" "touches op (fst e)" "map_of phase_of (opid op) = Some ph"
  shows "buf_first_phase (planned_buffer fp phase_of ops e) \<le> ph
    \<and> ph \<le> buf_last_phase (planned_buffer fp phase_of ops e)"
proof -
  have "ph \<in> set (touched_phases phase_of ops (fst e))"
    using assms by (force simp: touched_phases_def)
  then show ?thesis
    using list_min_le [of ph] list_max_ge [of ph] by (auto simp: planned_buffer_def Let_def)
qed

lemma packed_lifetime:
  assumes "b \<in> set (first_fit.pack (sort_key k (map (planned_buffer fp phase_of ops) es)))"
    "op \<in> set ops" "touches op (buf_storage_id b)" "map_of phase_of (opid op) = Some ph"
  shows "buf_first_phase b \<le> ph \<and> ph \<le> buf_last_phase b"
proof -
  from packed_buffer [OF assms(1)] obtain e where e: "e \<in> set es"
    "buf_storage_id b = buf_storage_id (planned_buffer fp phase_of ops e)"
    "buf_first_phase b = buf_first_phase (planned_buffer fp phase_of ops e)"
    "buf_last_phase b = buf_last_phase (planned_buffer fp phase_of ops e)" by auto
  have "buf_storage_id (planned_buffer fp phase_of ops e) = fst e" by (simp add: planned_buffer_def Let_def)
  then show ?thesis using planned_lifetime [OF assms(2) _ assms(4), of e fp] assms(3) e by simp
qed

lemma packed_ids:
  "mset (map buf_storage_id (first_fit.pack (sort_key k (map (planned_buffer fp phase_of ops) es)))) = mset (map fst es)"
proof -
  have "map buf_storage_id (first_fit.pack (sort_key k bs)) = map buf_storage_id (sort_key k bs)" for bs
    by (rule first_fit.pack_map) simp
  moreover have "buf_storage_id \<circ> planned_buffer fp phase_of ops = fst"
    by (auto simp: planned_buffer_def Let_def)
  ultimately show ?thesis by (simp add: multiset.map_comp)
qed

text \<open>What the buffers of a plan satisfy, for the executor.\<close>

lemma plan_memory_buffers:
  assumes "\<forall>op \<in> set (g_ops g). opid op \<in> dom (map_of (phase_of_op s))"
    and "plan_memory g s fams = Inr (wp, sp)"
  shows "wp_buffers wp = first_fit.pack (sort_key (\<lambda>b. (buf_first_phase b, - buf_numel b))
      (map (planned_buffer (num_phases s - 1) (phase_of_op s) (g_ops g)) (fresh_table g)))"
    and "wp_total_elements wp = workspace_total (wp_buffers wp)"
  using assms(2) unfolding plan_memory_value [OF assms(1)] by (auto simp: Let_def)

lemma plan_storage_ids:
  assumes "\<forall>op \<in> set (g_ops g). opid op \<in> dom (map_of (phase_of_op s))"
    and "plan_memory g s fams = Inr (wp, sp)"
  shows "distinct (map buf_storage_id (wp_buffers wp))"
    and "set (map buf_storage_id (wp_buffers wp)) =
      {tv_storage_id tv | tv. tv \<in> snd ` set (g_tensors g) \<and> tv_storage_id tv \<in> g_fresh_storages g}"
proof -
  have ids: "mset (map buf_storage_id (wp_buffers wp)) = mset (map fst (fresh_table g))"
    unfolding plan_memory_buffers(1) [OF assms] by (rule packed_ids)
  show "distinct (map buf_storage_id (wp_buffers wp))"
    using fresh_table_keys(1) mset_eq_imp_distinct_iff [OF ids] by (simp add: dict_wf_def)
  have "set (map buf_storage_id (wp_buffers wp)) = set (map fst (fresh_table g))" by (rule mset_eq_setD [OF ids])
  then show "set (map buf_storage_id (wp_buffers wp)) =
      {tv_storage_id tv | tv. tv \<in> snd ` set (g_tensors g) \<and> tv_storage_id tv \<in> g_fresh_storages g}"
    using fresh_table_keys(2) [of g] by simp
qed

lemma plan_numel:
  assumes "\<forall>op \<in> set (g_ops g). opid op \<in> dom (map_of (phase_of_op s))"
    and "plan_memory g s fams = Inr (wp, sp)" "b \<in> set (wp_buffers wp)"
  shows "(buf_storage_id b, buf_name b, buf_numel b) \<in> set (fresh_table g)"
proof -
  let ?f = "\<lambda>b. (buf_storage_id b, buf_name b, buf_numel b)"
  let ?bs = "map (planned_buffer (num_phases s - 1) (phase_of_op s) (g_ops g)) (fresh_table g)"
  have "set (map ?f (wp_buffers wp)) = set (map ?f (sort_key (\<lambda>b. (buf_first_phase b, - buf_numel b)) ?bs))"
    unfolding plan_memory_buffers(1) [OF assms(1,2)] by (rule arg_cong [OF first_fit.pack_map]) simp
  also have "\<dots> = set (fresh_table g)" by (simp add: image_image planned_buffer_def Let_def)
  finally show ?thesis using assms(3) by (metis (no_types, lifting) image_eqI list.set_map)
qed

lemma plan_offsets:
  assumes "\<forall>op \<in> set (g_ops g). opid op \<in> dom (map_of (phase_of_op s))"
    and "plan_memory g s fams = Inr (wp, sp)" "b \<in> set (wp_buffers wp)"
  shows "0 \<le> buf_offset b \<and> ALIGN_ELEMENTS dvd buf_offset b \<and> buf_offset b + buf_numel b \<le> wp_total_elements wp"
  using assms(3) unfolding plan_memory_buffers(2) [OF assms(1,2)]
  unfolding plan_memory_buffers(1) [OF assms(1,2)] using pack_offsets workspace_total_bound by blast

lemma plan_apart:
  assumes "\<forall>op \<in> set (g_ops g). opid op \<in> dom (map_of (phase_of_op s))"
    and "plan_memory g s fams = Inr (wp, sp)" "b \<in> set (wp_buffers wp)" "b' \<in> set (wp_buffers wp)"
    and "b \<noteq> b'" "overlaps_lifetime b b'"
  shows "buffers_apart b b'"
  using assms(3,4) unfolding plan_memory_buffers(1) [OF assms(1,2)] by (rule pack_pair_apart [OF _ _ assms(5,6)])

lemma plan_lifetimes:
  assumes "\<forall>op \<in> set (g_ops g). opid op \<in> dom (map_of (phase_of_op s))"
    and "plan_memory g s fams = Inr (wp, sp)" "b \<in> set (wp_buffers wp)"
    and "op \<in> set (g_ops g)" "touches op (buf_storage_id b)" "map_of (phase_of_op s) (opid op) = Some ph"
  shows "buf_first_phase b \<le> ph \<and> ph \<le> buf_last_phase b"
  by (rule packed_lifetime [OF assms(3) [unfolded plan_memory_buffers(1) [OF assms(1,2)]] assms(4-6)])

lemma list_max_mem: "xs \<noteq> [] \<Longrightarrow> list_max xs \<in> set xs"
  by (induction xs rule: list_max.induct) (auto simp: max_def)

lemma plan_lifetime_ends:
  assumes "\<forall>op \<in> set (g_ops g). opid op \<in> dom (map_of (phase_of_op s))"
    and "plan_memory g s fams = Inr (wp, sp)" "b \<in> set (wp_buffers wp)"
    and "ran (map_of (phase_of_op s)) \<subseteq> {0..<n}" "0 < n" "num_phases s = n"
  shows "buf_last_phase b < n \<and> (buf_live_at_end b \<longrightarrow> buf_last_phase b = n - 1)"
proof -
  have "b \<in> set (first_fit.pack (sort_key (\<lambda>b. (buf_first_phase b, - buf_numel b))
      (map (planned_buffer (num_phases s - 1) (phase_of_op s) (g_ops g)) (fresh_table g))))"
    using assms(3) unfolding plan_memory_buffers(1) [OF assms(1,2)] .
  from packed_buffer [OF this] obtain e where
    l: "buf_last_phase b = buf_last_phase (planned_buffer (n - 1) (phase_of_op s) (g_ops g) e)"
       "buf_live_at_end b = buf_live_at_end (planned_buffer (n - 1) (phase_of_op s) (g_ops g) e)"
    unfolding assms(6) by auto
  define t where "t = touched_phases (phase_of_op s) (g_ops g) (fst e)"
  define phs where "phs = (if t = [] then [0] else t)"
  have "x \<in> {0..<n}" if "x \<in> set t" for x
  proof -
    from that obtain op where op: "op \<in> set (g_ops g)" "x = the (map_of (phase_of_op s) (opid op))"
      by (auto simp: touched_phases_def t_def)
    with assms(1) obtain y where "map_of (phase_of_op s) (opid op) = Some y" by blast
    with op(2) have "x \<in> ran (map_of (phase_of_op s))" by (simp add: ranI)
    with assms(4) show ?thesis by blast
  qed
  then have "x \<in> {0..<n}" if "x \<in> set phs" for x
    using that assms(5) by (cases "t = []") (simp_all add: phs_def)
  moreover have "list_max phs \<in> set phs" by (rule list_max_mem) (simp add: phs_def)
  ultimately have m: "list_max phs < n" by simp
  have "buf_last_phase b = list_max phs" "buf_live_at_end b = (list_max phs = n - 1)"
    unfolding l by (simp_all add: planned_buffer_def Let_def phs_def t_def)
  with m show ?thesis by simp
qed


definition mem_graph :: OperatorGraph where
  "mem_graph = empty_graph\<lparr>g_fresh_storages := {0, 1},
     g_tensors := [(''a'', (demo_tv [100] [1] 0)\<lparr>tv_storage_id := 0\<rparr>),
                   (''b'', (demo_tv [10] [1] 0)\<lparr>tv_storage_id := 1\<rparr>)],
     g_ops := [(demo_op 0)\<lparr>op_write_regions := [region_whole ((demo_tv [100] [1] 0)\<lparr>tv_storage_id := 0\<rparr>),
                                                region_whole ((demo_tv [10] [1] 0)\<lparr>tv_storage_id := 1\<rparr>)]\<rparr>]\<rparr>"

definition mem_sched :: PhaseSchedule where
  "mem_sched = \<lparr>ps_phases = [\<lparr>ph_index = 0, ph_families = [demo_fam 0 [(4, 4)]]\<rparr>], ps_workers = 1\<rparr>"

lemma mem_sched_phase: "map_of (phase_of_op mem_sched) = [0 \<mapsto> 0]"
  by (simp add: phase_of_op_def mem_sched_def demo_fam_def demo_op_def)


text \<open>
  First fit terminates at the best offset: a buffer is placed at the lowest aligned offset at which
  it collides with no already-placed buffer whose lifetime overlaps its own.
\<close>

theorem place_buffer_lowest:
  assumes "place_buffer placed b = b'"
  shows "buf_offset b' =
    Least (\<lambda>c. 0 \<le> c \<and> ALIGN_ELEMENTS dvd c
      \<and> (\<forall>p \<in> set placed. overlaps_lifetime p b \<longrightarrow> \<not> conflicts_at c (buf_numel b) p))"
proof (rule Least_equality [symmetric])
  let ?ps = "filter (\<lambda>p. overlaps_lifetime p b) placed"
  note spec = first_fit_spec [of 0 ?ps "buf_numel b"]
  have o: "buf_offset b' = first_fit ?ps (buf_numel b) 0" using assms by (auto simp: place_buffer_def)
  show "0 \<le> buf_offset b' \<and> ALIGN_ELEMENTS dvd buf_offset b'
      \<and> (\<forall>p \<in> set placed. overlaps_lifetime p b \<longrightarrow> \<not> conflicts_at (buf_offset b') (buf_numel b) p)"
    using spec unfolding o by simp
  fix c assume c: "0 \<le> c \<and> ALIGN_ELEMENTS dvd c
      \<and> (\<forall>p \<in> set placed. overlaps_lifetime p b \<longrightarrow> \<not> conflicts_at c (buf_numel b) p)"
  then have "\<not> (\<exists>p \<in> set ?ps. conflicts_at c (buf_numel b) p)" by simp
  then show "buf_offset b' \<le> c" using spec c unfolding o by force
qed

definition demo_buf :: "int \<Rightarrow> int \<Rightarrow> BufferPlan" where
  "demo_buf n off = \<lparr>buf_name = ''b'', buf_storage_id = 0, buf_numel = n, buf_first_phase = 0,
     buf_last_phase = 1, buf_offset = off, buf_live_at_end = False\<rparr>"

theorem place_buffer_lowest_witness:
  "buf_offset (place_buffer [demo_buf 100 0] (demo_buf 10 0)) = 128
   \<and> 128 = Least (\<lambda>c. 0 \<le> c \<and> ALIGN_ELEMENTS dvd c
       \<and> (\<forall>p \<in> set [demo_buf 100 0]. overlaps_lifetime p (demo_buf 10 0) \<longrightarrow>
            \<not> conflicts_at c (buf_numel (demo_buf 10 0)) p))"
proof -
  have "buf_offset (place_buffer [demo_buf 100 0] (demo_buf 10 0)) = 128"
    by (simp add: place_buffer_def overlaps_lifetime_def lifetime_def demo_buf_def first_fit.simps
        align_up_def ALIGN_ELEMENTS_def conflicts_at_def buf_end_def)
  with place_buffer_lowest [OF refl, of "[demo_buf 100 0]" "demo_buf 10 0"] show ?thesis by metis
qed

definition padded :: "BufferPlan \<Rightarrow> int" where
  "padded b = align_up (buf_numel b) ALIGN_ELEMENTS"

lemma padded_nonneg: "0 \<le> buf_numel b \<Longrightarrow> 0 \<le> padded b"
  by (simp add: padded_def align_up_nonneg)

lemma pack_end_bound:
  assumes "\<forall>b \<in> set bs. 0 \<le> buf_numel b"
  shows "\<forall>b \<in> set (first_fit.pack bs). 0 \<le> buf_numel b \<and> buf_end b \<le> sum_list (map padded bs)"
  using assms
proof (induction bs rule: rev_induct)
  case Nil
  then show ?case by simp
next
  case (snoc b bs)
  let ?placed = "first_fit.pack bs" and ?ps = "filter (\<lambda>p. overlaps_lifetime p b) (first_fit.pack bs)"
  have IH: "\<forall>b \<in> set ?placed. 0 \<le> buf_numel b \<and> buf_end b \<le> sum_list (map padded bs)" using snoc by simp
  have n: "0 \<le> buf_numel b" "0 \<le> sum_list (map padded bs)"
    using snoc.prems by (auto intro!: sum_list_nonneg padded_nonneg)
  have "first_fit ?ps (buf_numel b) 0 = 0 \<or> (\<exists>p \<in> set ?ps. first_fit ?ps (buf_numel b) 0 = buf_end p)"
    using pack_offsets [of bs] by (intro first_fit_source) auto
  then have "first_fit ?ps (buf_numel b) 0 \<le> sum_list (map padded bs)" using IH n(2) by auto
  then have "buf_end (place_buffer ?placed b) \<le> sum_list (map padded bs) + padded b"
    by (simp add: place_buffer_def buf_end_def padded_def)
  then show ?case using IH n padded_nonneg [OF n(1)] by (auto simp: first_fit.pack_snoc)
qed

text \<open>
  The workspace is never larger than packing without reuse: its size is at most the sum of the
  aligned buffer sizes, it is attained by some buffer's end (or 0), and the byte counts scale it by
  the element size 4.
\<close>

theorem workspace_bound:
  assumes "\<forall>op \<in> set (g_ops g). opid op \<in> dom (map_of (phase_of_op s))"
    and "plan_memory g s fams = Inr (wp, sp)" and "\<forall>b \<in> set (wp_buffers wp). 0 \<le> buf_numel b"
  shows "wp_total_elements wp \<le> sum_list (map padded (wp_buffers wp))
    \<and> (wp_total_elements wp = 0 \<or> (\<exists>b \<in> set (wp_buffers wp). wp_total_elements wp = buf_offset b + buf_numel b))
    \<and> total_bytes wp = 4 * wp_total_elements wp
    \<and> per_worker_bytes sp = align_up (256 + max_scratch fams) 128"
proof -
  let ?bs = "sort_key (\<lambda>b. (buf_first_phase b, - buf_numel b))
      (map (planned_buffer (num_phases s - 1) (phase_of_op s) (g_ops g)) (fresh_table g))"
  have wp: "wp = \<lparr>wp_buffers = first_fit.pack ?bs, wp_total_elements = workspace_total (first_fit.pack ?bs),
      wp_element_size = 4\<rparr>"
    and sp: "sp = \<lparr>sp_runtime_bytes = RUNTIME_SCRATCH_BYTES, sp_max_task_scratch = max_scratch fams\<rparr>"
    using assms(2) unfolding plan_memory_value [OF assms(1)] by (simp_all add: Let_def)
  have m: "map padded (first_fit.pack ?bs) = map padded ?bs" "map buf_numel (first_fit.pack ?bs) = map buf_numel ?bs"
    by (rule first_fit.pack_map, simp add: padded_def)+
  have "\<forall>n \<in> set (map buf_numel ?bs). 0 \<le> n" using assms(3) unfolding m(2) [symmetric] wp by simp
  then have nn: "\<forall>b \<in> set ?bs. 0 \<le> buf_numel b" by simp
  have s0: "0 \<le> sum_list (map padded ?bs)" using nn by (auto intro!: sum_list_nonneg padded_nonneg)
  have "buf_offset b + buf_numel b \<le> sum_list (map padded ?bs)" if "b \<in> set (first_fit.pack ?bs)" for b
  proof -
    have "buf_numel b \<le> padded b" by (simp add: padded_def align_up_ge)
    then show ?thesis using pack_end_bound [OF nn] that by (force simp: buf_end_def padded_def)
  qed
  then have "workspace_total (first_fit.pack ?bs) \<le> sum_list (map padded (first_fit.pack ?bs))"
    using workspace_total_tight [of "first_fit.pack ?bs"] s0 unfolding m(1) by auto
  then show ?thesis
    using workspace_total_tight [of "first_fit.pack ?bs"] unfolding wp sp
    by (simp add: total_bytes_def per_worker_bytes_def RUNTIME_SCRATCH_BYTES_def)
qed

lemma mem_plan:
  "plan_memory mem_graph mem_sched [] =
     Inr (\<lparr>wp_buffers =
             [\<lparr>buf_name = ''a'', buf_storage_id = 0, buf_numel = 100, buf_first_phase = 0, buf_last_phase = 0,
               buf_offset = 0, buf_live_at_end = True\<rparr>,
              \<lparr>buf_name = ''b'', buf_storage_id = 1, buf_numel = 10, buf_first_phase = 0, buf_last_phase = 0,
               buf_offset = 128, buf_live_at_end = True\<rparr>],
           wp_total_elements = 138, wp_element_size = 4\<rparr>,
          \<lparr>sp_runtime_bytes = 256, sp_max_task_scratch = 0\<rparr>)"
  by code_simp

theorem workspace_bound_witness:
  "\<exists>wp sp. plan_memory mem_graph mem_sched [] = Inr (wp, sp) \<and> total_bytes wp = 552
     \<and> wp_total_elements wp \<le> sum_list (map padded (wp_buffers wp)) \<and> per_worker_bytes sp = 256"
proof -
  have "\<forall>op \<in> set (g_ops mem_graph). opid op \<in> dom (map_of (phase_of_op mem_sched))"
    by (simp add: mem_sched_phase) (simp add: mem_graph_def demo_op_def)
  from workspace_bound [OF this mem_plan] mem_plan show ?thesis
    by (simp add: max_scratch_def align_up_def)
qed

end
