(* ===== verification/Grid_Barrier.thy ===== *)
theory Grid_Barrier
  imports Prelude
begin

text \<open>
  The grid barrier of \<^verbatim>\<open>compiler/runtime/synchronization.py\<close>: the CPU model used by the reference
  executor and the capability flag of the device backend.  The locale \<open>barrier\<close> is the contract the
  executor relies on: workers that arrive once each, in any order, release the barrier and start the
  next generation.
\<close>

section \<open>Model\<close>

definition require_grid_sync_backend :: "bool \<Rightarrow> unit result" where
  "require_grid_sync_backend verified = (if \<not> verified then Inl CapabilityError else Inr ())"

record GridBarrierSpec =
  gb_workers :: int
  gb_name :: string

record SimulatedGridBarrier =
  sb_workers :: int
  sb_generation :: int
  sb_arrivals :: "int set"

definition mk_barrier :: "int \<Rightarrow> SimulatedGridBarrier" where
  "mk_barrier workers = \<lparr>sb_workers = workers, sb_generation = 0, sb_arrivals = {}\<rparr>"

definition arrive :: "SimulatedGridBarrier \<Rightarrow> int \<Rightarrow> SimulatedGridBarrier result" where
  "arrive b worker =
     (if worker \<in> sb_arrivals b then Inl BarrierError
      else if \<not> (0 \<le> worker \<and> worker < sb_workers b) then Inl BarrierError
      else Inr (b\<lparr>sb_arrivals := insert worker (sb_arrivals b)\<rparr>))"

definition release :: "SimulatedGridBarrier \<Rightarrow> (int \<times> SimulatedGridBarrier) result" where
  "release b =
     (if set (urange (sb_workers b)) - sb_arrivals b \<noteq> {} then Inl BarrierError
      else Inr (sb_generation b, b\<lparr>sb_generation := sb_generation b + 1, sb_arrivals := {}\<rparr>))"

definition sync :: "SimulatedGridBarrier \<Rightarrow> (int \<times> SimulatedGridBarrier) result" where
  "sync b = release b"

text \<open>One barrier round: the workers arrive in the given order, then the barrier is released.\<close>

definition barrier_round :: "SimulatedGridBarrier \<Rightarrow> int list \<Rightarrow> (int \<times> SimulatedGridBarrier) result" where
  "barrier_round b ws = bindr (foldr_res arrive b ws) sync"

section \<open>The barrier contract\<close>

locale barrier =
  fixes parties :: "'b \<Rightarrow> int"
    and waiting :: "'b \<Rightarrow> int set"
    and gen :: "'b \<Rightarrow> int"
    and arr :: "'b \<Rightarrow> int \<Rightarrow> 'b result"
    and rel :: "'b \<Rightarrow> (int \<times> 'b) result"
  assumes arr_ok: "w \<notin> waiting b \<Longrightarrow> 0 \<le> w \<Longrightarrow> w < parties b \<Longrightarrow>
      \<exists>b'. arr b w = Inr b' \<and> waiting b' = insert w (waiting b) \<and> parties b' = parties b \<and> gen b' = gen b"
    and arr_bad: "w \<in> waiting b \<or> \<not> (0 \<le> w \<and> w < parties b) \<Longrightarrow> arr b w = Inl BarrierError"
    and rel_ok: "{0..<parties b} \<subseteq> waiting b \<Longrightarrow>
      \<exists>b'. rel b = Inr (gen b, b') \<and> waiting b' = {} \<and> parties b' = parties b \<and> gen b' = gen b + 1"
    and rel_bad: "\<not> {0..<parties b} \<subseteq> waiting b \<Longrightarrow> rel b = Inl BarrierError"
begin

lemma arrivals:
  "if distinct ws \<and> set ws \<inter> waiting b = {} \<and> set ws \<subseteq> {0..<parties b}
   then \<exists>b'. foldr_res arr b ws = Inr b' \<and> waiting b' = waiting b \<union> set ws
          \<and> parties b' = parties b \<and> gen b' = gen b
   else foldr_res arr b ws = Inl BarrierError"
proof (induction ws arbitrary: b)
  case Nil
  then show ?case by simp
next
  case (Cons w ws)
  show ?case
  proof (cases "w \<in> waiting b \<or> \<not> (0 \<le> w \<and> w < parties b)")
    case True
    then show ?thesis using arr_bad [OF True] by auto
  next
    case False
    then obtain b1 where b1: "arr b w = Inr b1" "waiting b1 = insert w (waiting b)"
      "parties b1 = parties b" "gen b1 = gen b" using arr_ok [of w b] by auto
    have c: "(distinct (w # ws) \<and> set (w # ws) \<inter> waiting b = {} \<and> set (w # ws) \<subseteq> {0..<parties b})
        \<longleftrightarrow> (distinct ws \<and> set ws \<inter> waiting b1 = {} \<and> set ws \<subseteq> {0..<parties b1})"
      using False b1 by auto
    show ?thesis using Cons.IH [of b1] b1 unfolding c by (auto split: if_splits)
  qed
qed

lemma round:
  assumes "waiting b = {}"
  shows "if distinct ws \<and> set ws = {0..<parties b}
    then \<exists>b'. bindr (foldr_res arr b ws) rel = Inr (gen b, b')
           \<and> waiting b' = {} \<and> parties b' = parties b \<and> gen b' = gen b + 1
    else bindr (foldr_res arr b ws) rel = Inl BarrierError"
proof (cases "distinct ws \<and> set ws \<subseteq> {0..<parties b}")
  case True
  then obtain b1 where b1: "foldr_res arr b ws = Inr b1" "waiting b1 = set ws"
    "parties b1 = parties b" "gen b1 = gen b" using arrivals [of ws b] assms by auto
  show ?thesis using True b1 rel_ok [of b1] rel_bad [of b1] by (auto split: if_splits)
next
  case False
  then have "foldr_res arr b ws = Inl BarrierError" using arrivals [of ws b] assms by (auto split: if_splits)
  with False show ?thesis by auto
qed

end

interpretation sim_barrier: barrier sb_workers sb_arrivals sb_generation arrive sync
  by unfold_locales (auto simp: arrive_def sync_def release_def)

text \<open>
  C14: A barrier releases exactly under uniform participation.  From an empty barrier of \<open>P\<close> workers,
  the sequence of arrivals \<open>ws\<close> followed by a release succeeds, returns the current generation and
  leaves an empty barrier of the next generation when \<open>ws\<close> holds each of the workers \<open>0 .. P - 1\<close>
  once, in any order; a duplicate, unknown or missing worker raises \<^verbatim>\<open>BarrierError\<close>.
\<close>

theorem barrier_round_iff:
  assumes "sb_arrivals b = {}"
  shows "if mset ws = mset (urange (sb_workers b))
    then barrier_round b ws = Inr (sb_generation b, b\<lparr>sb_generation := sb_generation b + 1\<rparr>)
    else barrier_round b ws = Inl BarrierError"
proof -
  have m: "mset ws = mset (urange (sb_workers b)) \<longleftrightarrow> distinct ws \<and> set ws = {0..<sb_workers b}"
    by (metis distinct_urange mset_eq_imp_distinct_iff mset_eq_setD set_eq_iff_mset_eq_distinct set_urange)
  show ?thesis
  proof (cases "distinct ws \<and> set ws = {0..<sb_workers b}")
    case True
    then obtain b' where b': "barrier_round b ws = Inr (sb_generation b, b')" "sb_arrivals b' = {}"
      "sb_workers b' = sb_workers b" "sb_generation b' = sb_generation b + 1"
      using sim_barrier.round [OF assms, of ws] by (auto simp: barrier_round_def)
    then have "b' = b\<lparr>sb_generation := sb_generation b + 1\<rparr>" using assms by simp
    with b' True show ?thesis unfolding m by simp
  next
    case False
    then have "barrier_round b ws = Inl BarrierError"
      using sim_barrier.round [OF assms, of ws] by (simp add: barrier_round_def split: if_splits)
    with False show ?thesis unfolding m by (simp only: if_False)
  qed
qed

theorem barrier_round_iff_witness:
  "barrier_round (mk_barrier 3) [2, 0, 1] = Inr (0, (mk_barrier 3)\<lparr>sb_generation := 1\<rparr>)
   \<and> barrier_round (mk_barrier 3) [2, 0] = Inl BarrierError"
proof -
  have e: "sb_arrivals (mk_barrier 3) = {}" by (simp add: mk_barrier_def)
  have u: "urange (sb_workers (mk_barrier 3)) = [0, 1, 2]" by (simp add: mk_barrier_def urange_def upt_rec)
  have "mset [2, 0, 1] = mset [0, 1, 2 :: int]" "mset [2, 0] \<noteq> mset [0, 1, 2 :: int]" by simp_all
  then show ?thesis
    using barrier_round_iff [OF e, of "[2, 0, 1]"] barrier_round_iff [OF e, of "[2, 0]"]
    unfolding u by (simp add: mk_barrier_def)
qed

end
