(* ===== verification/Launch.thy ===== *)
theory Launch
  imports Prelude
begin

text \<open>
  Worker-count selection and the launch manifest of \<^verbatim>\<open>compiler/runtime/launch.py\<close>.  The SM count the
  device driver reports is an argument (\<open>device_sms\<close>); \<^verbatim>\<open>query_device_sms\<close> falls back to 16 when it
  is not available.
\<close>

section \<open>Model\<close>

definition FALLBACK_SMS :: int where "FALLBACK_SMS = 16"

text \<open>
  The driver's answer: \<open>None\<close> when torch or the device is missing or the query raises, else the SM
  count.
\<close>

definition query_device_sms :: "int option \<Rightarrow> int" where
  "query_device_sms device_sms = (case device_sms of None \<Rightarrow> FALLBACK_SMS | Some n \<Rightarrow> n)"

record LaunchManifest =
  lm_workers :: int
  lm_threads_per_worker :: int
  lm_cooperative :: bool
  lm_shared_scratch_bytes :: int
  lm_workspace_bytes :: int
  lm_num_sms :: int
  lm_capability_notes :: "string list"

definition lm_grid :: "LaunchManifest \<Rightarrow> int list" where
  "lm_grid m = [lm_workers m, 1, 1]"

definition lm_block :: "LaunchManifest \<Rightarrow> int list" where
  "lm_block m = [lm_threads_per_worker m, 1, 1]"

definition choose_worker_count ::
  "int option \<Rightarrow> int option \<Rightarrow> int option \<Rightarrow> int \<Rightarrow> int result" where
  "choose_worker_count device_sms requested num_sms max_tasks_in_widest_phase =
     (let sms = (case num_sms of Some n \<Rightarrow> n | None \<Rightarrow> query_device_sms device_sms);
          upper = max 1 sms;
          req = (case requested of
                   None \<Rightarrow> min upper (max 1 max_tasks_in_widest_phase)
                 | Some r \<Rightarrow> r)
      in if req < 1 then Inl ValueError else Inr (min req upper))"

section \<open>Properties\<close>

text \<open>
  The chosen worker count is legal.  \<^verbatim>\<open>choose_worker_count\<close> raises \<^verbatim>\<open>ValueError\<close> exactly
  when a count below 1 was requested; otherwise it returns the requested count (by default the width of the widest
  phase, at least 1) capped by one resident block per SM, so the result lies between 1 and that cap.
\<close>

theorem choose_worker_count_legal:
  "case choose_worker_count device_sms requested num_sms widest of
     Inl e \<Rightarrow> e = ValueError \<and> (\<exists>r. requested = Some r \<and> r < 1)
   | Inr p \<Rightarrow>
       (let upper = max 1 (case num_sms of Some n \<Rightarrow> n | None \<Rightarrow> query_device_sms device_sms) in
        1 \<le> p \<and> p \<le> upper
        \<and> p = min upper (case requested of None \<Rightarrow> max 1 widest | Some r \<Rightarrow> r))"
  by (auto simp: choose_worker_count_def Let_def split: option.splits)

end
