(* ===== verification/Lowerings_Common.thy ===== *)
theory Lowerings_Common
  imports Schedule_Phase Operator_Graph
begin

text \<open>
  Shared tile constants, region geometry and access helpers of \<^verbatim>\<open>compiler/lowerings/common.py\<close>, and
  the pieces of Python's tuple unpacking and attribute access the lowerings use.  The
  lemmas at the end say when the unpackings succeed and what the family constructor sets.
\<close>

section \<open>Constants\<close>

definition GEMM_TILE_M :: int where "GEMM_TILE_M = 16"
definition GEMM_TILE_N :: int where "GEMM_TILE_N = 16"
definition ELEM_TILE :: int where "ELEM_TILE = 1024"
definition EMBED_TILE_C :: int where "EMBED_TILE_C = 256"
definition THREADS_PER_WORKER :: int where "THREADS_PER_WORKER = 256"
definition GEMV_FP8_TILE_N :: int where "GEMV_FP8_TILE_N = 16"
definition INDEXER_TILE_M :: int where "INDEXER_TILE_M = 64"

section \<open>Unpacking and access\<close>

text \<open>Tuple unpacking: a wrong number of elements raises \<^verbatim>\<open>ValueError\<close>.\<close>

definition unpack1 :: "'a list \<Rightarrow> 'a result" where
  "unpack1 xs = (case xs of [a] \<Rightarrow> Inr a | _ \<Rightarrow> Inl ValueError)"

definition unpack2 :: "'a list \<Rightarrow> ('a \<times> 'a) result" where
  "unpack2 xs = (case xs of [a, b] \<Rightarrow> Inr (a, b) | _ \<Rightarrow> Inl ValueError)"

definition unpack3 :: "'a list \<Rightarrow> ('a \<times> 'a \<times> 'a) result" where
  "unpack3 xs = (case xs of [a, b, c] \<Rightarrow> Inr (a, b, c) | _ \<Rightarrow> Inl ValueError)"

definition unpack4 :: "'a list \<Rightarrow> ('a \<times> 'a \<times> 'a \<times> 'a) result" where
  "unpack4 xs = (case xs of [a, b, c, d] \<Rightarrow> Inr (a, b, c, d) | _ \<Rightarrow> Inl ValueError)"

definition unpack5 :: "'a list \<Rightarrow> ('a \<times> 'a \<times> 'a \<times> 'a \<times> 'a) result" where
  "unpack5 xs = (case xs of [a, b, c, d, e] \<Rightarrow> Inr (a, b, c, d, e) | _ \<Rightarrow> Inl ValueError)"

text \<open>\<^verbatim>\<open>graph.tensor(op.inputs[i])\<close> and \<^verbatim>\<open>graph.tensor(op.outputs[i])\<close>.\<close>

definition in_tensor :: "Operator \<Rightarrow> OperatorGraph \<Rightarrow> int \<Rightarrow> TensorValue result" where
  "in_tensor op g i = bindr (py_nth (op_inputs op) i) (graph_tensor g)"

definition out_tensor :: "Operator \<Rightarrow> OperatorGraph \<Rightarrow> int \<Rightarrow> TensorValue result" where
  "out_tensor op g i = bindr (py_nth (op_outputs op) i) (graph_tensor g)"

definition opt_tensor :: "Operator \<Rightarrow> OperatorGraph \<Rightarrow> int \<Rightarrow> TensorValue option result" where
  "opt_tensor op g i =
     (if int (length (op_inputs op)) > i then bindr (in_tensor op g i) (\<lambda>t. Inr (Some t))
      else Inr None)"

definition dim :: "TensorValue \<Rightarrow> int \<Rightarrow> int result" where
  "dim tv i = py_nth (tv_shape tv) i"

text \<open>\<^verbatim>\<open>attributes.get(name, default)\<close>, \<^verbatim>\<open>attributes[name]\<close>, truthiness and use as an integer.\<close>

definition attr_get :: "attrs \<Rightarrow> string \<Rightarrow> pyval \<Rightarrow> pyval" where
  "attr_get at name d = (case map_of at name of None \<Rightarrow> d | Some v \<Rightarrow> v)"

definition truthy :: "pyval \<Rightarrow> bool" where
  "truthy v =
     (case v of VInt n \<Rightarrow> n \<noteq> 0 | VStr s \<Rightarrow> s \<noteq> [] | VBool b \<Rightarrow> b
      | VFloat f \<Rightarrow> (case f of FLit m _ \<Rightarrow> m \<noteq> 0 | FRsqrt _ \<Rightarrow> True) | VNone \<Rightarrow> False)"

text \<open>
  An attribute used as an integer.  Strings and \<^verbatim>\<open>None\<close> raise; the recorder stores no float in an
  attribute that is used this way, so that case is an exception here too.
\<close>

definition as_int :: "pyval \<Rightarrow> int result" where
  "as_int v = (case v of VInt n \<Rightarrow> Inr n | VBool b \<Rightarrow> Inr (if b then 1 else 0) | _ \<Rightarrow> Inl TypeError)"

text \<open>\<^verbatim>\<open>f"ph{op.opid:02d}_suffix"\<close>\<close>

definition fam_name :: "Operator \<Rightarrow> string \<Rightarrow> string" where
  "fam_name op suffix = ''ph'' @ dec02 (opid op) @ suffix"

text \<open>
  The \<^verbatim>\<open>TaskFamily\<close> constructor call every lowering makes: the common thread count and the default
  completion contract.
\<close>

definition mk_family ::
  "string \<Rightarrow> string \<Rightarrow> Operator \<Rightarrow> TileDomain \<Rightarrow> string list \<Rightarrow> string list \<Rightarrow> attrs \<Rightarrow> int
    \<Rightarrow> region_fn \<Rightarrow> region_fn \<Rightarrow> TaskFamily" where
  "mk_family fid kind op domn ins outs params scratch reads writes =
     \<lparr>fam_id = fam_name op fid, fam_kind = kind, fam_op = op, fam_domain = domn, fam_inputs = ins,
      fam_outputs = outs, fam_params = params, fam_threads = THREADS_PER_WORKER,
      fam_scratch_bytes = scratch, fam_read_regions = Some reads, fam_write_regions = Some writes,
      fam_completion_contract = TASK_CONTRACT\<rparr>"

section \<open>Region geometry\<close>

definition tile_region :: "TensorValue \<Rightarrow> (int \<times> int) list \<Rightarrow> Region result" where
  "tile_region v bx = region_tile v (map (\<lambda>(lo, hi). (lo, HInt hi)) bx)"

definition gemm_domain :: "TensorValue \<Rightarrow> TensorValue \<Rightarrow> TileDomain result" where
  "gemm_domain x w =
     bindr (dim x 0) (\<lambda>m. bindr (dim w 1) (\<lambda>n.
       Inr (mk_domain [(m, GEMM_TILE_M), (n, GEMM_TILE_N)])))"

definition pair_box :: "TileDomain \<Rightarrow> int list \<Rightarrow> ((int \<times> int) \<times> (int \<times> int)) result" where
  "pair_box domain cs =
     bindr (unpack2 cs) (\<lambda>(m_idx, n_idx).
     bindr (unpack2 (td_dims domain)) (\<lambda>((m_extent, m_tile), (n_extent, n_tile)).
       let m0 = m_idx * m_tile; n0 = n_idx * n_tile
       in Inr ((m0, min (m0 + m_tile) m_extent), (n0, min (n0 + n_tile) n_extent))))"

definition py_divmod :: "int \<Rightarrow> int \<Rightarrow> (int \<times> int) result" where
  "py_divmod a b = (if b = 0 then Inl ZeroDivisionError else Inr (a div b, a mod b))"

definition flat_box :: "TensorValue \<Rightarrow> int \<Rightarrow> int \<Rightarrow> (int \<times> int) list result" where
  "flat_box v lo hi =
     (if \<not> is_contiguous v then Inl ValueError
      else if length (tv_shape v) = 1 then Inr [(lo, hi)]
      else bindr (dim v (-1)) (\<lambda>cols.
           bindr (py_divmod lo cols) (\<lambda>(r0, c0).
           bindr (py_divmod (hi - 1) cols) (\<lambda>(r1, c1).
             Inr [(r0, r1 + 1), (if r0 = r1 then c0 else 0, if r0 = r1 then c1 + 1 else cols)]))))"

text \<open>
  \<^verbatim>\<open>_gdn_tile\<close>: halve the tile until it divides the channel count.  The loop starts at 1024 and
  reaches 1, which divides everything.
\<close>

function gdn_tile_loop :: "int \<Rightarrow> nat \<Rightarrow> nat" where
  "gdn_tile_loop C tile =
     (if tile \<le> 1 \<or> C mod int tile = 0 then tile else gdn_tile_loop C (tile div 2))"
  by pat_completeness auto
termination by (relation "measure snd") auto

declare gdn_tile_loop.simps [simp del]

definition gdn_tile :: "int \<Rightarrow> int" where
  "gdn_tile C = int (gdn_tile_loop C (nat ELEM_TILE))"

text \<open>A tuple of regions, built left to right.\<close>

definition seqr :: "'a result list \<Rightarrow> 'a list result" where
  "seqr rs = mapr (\<lambda>r. r) rs"

text \<open>
  The name of the decode position, formatted into a symbolic bound.  The contract check that runs
  before a lowering raises \<^verbatim>\<open>TypeError\<close> for a position attribute that is not a string.
\<close>

definition pos_name :: "pyval \<Rightarrow> string result" where
  "pos_name v = (case v of VStr s \<Rightarrow> Inr s | _ \<Rightarrow> Inl TypeError)"

text \<open>
  \<^verbatim>\<open>float(v)\<close> of an attribute; a string is taken not to be a numeral.
\<close>

definition py_float :: "pyval \<Rightarrow> pyval result" where
  "py_float v =
     (case v of VFloat f \<Rightarrow> Inr (VFloat f) | VInt n \<Rightarrow> Inr (VFloat (FLit n 0))
      | VBool b \<Rightarrow> Inr (VFloat (FLit (if b then 1 else 0) 0))
      | VStr _ \<Rightarrow> Inl ValueError | VNone \<Rightarrow> Inl TypeError)"

text \<open>\<^verbatim>\<open>v or d\<close>\<close>

definition py_or :: "pyval \<Rightarrow> pyval \<Rightarrow> pyval" where
  "py_or v d = (if truthy v then v else d)"

text \<open>The full box of a view of rank at least \<open>n\<close>: \<^verbatim>\<open>(0, shape[0]), ..., (0, shape[n-1])\<close>.\<close>

definition full_box :: "TensorValue \<Rightarrow> int \<Rightarrow> (int \<times> int) list result" where
  "full_box t n = bindr (mapr (dim t) (urange n)) (\<lambda>ds. Inr (map (\<lambda>d. (0, d)) ds))"

section \<open>Lemmas on the helpers\<close>

lemma unpack_Inr [result_simps]:
  "unpack1 xs = Inr a \<longleftrightarrow> xs = [a]"
  "unpack2 xs = Inr (a, b) \<longleftrightarrow> xs = [a, b]"
  "unpack3 xs = Inr (a, b, c) \<longleftrightarrow> xs = [a, b, c]"
  "unpack4 xs = Inr (a, b, c, d) \<longleftrightarrow> xs = [a, b, c, d]"
  "unpack5 xs = Inr (a, b, c, d, e) \<longleftrightarrow> xs = [a, b, c, d, e]"
  by (auto simp: unpack1_def unpack2_def unpack3_def unpack4_def unpack5_def split: list.splits)

lemma unpack_ok [simp]:
  "unpack1 [a] = Inr a" "unpack2 [a, b] = Inr (a, b)" "unpack3 [a, b, c] = Inr (a, b, c)"
  "unpack4 [a, b, c, d] = Inr (a, b, c, d)"
  by (simp_all add: unpack1_def unpack2_def unpack3_def unpack4_def)

lemma seqr_simps [simp]: "seqr [] = Inr []" "seqr (r # rs) = bindr r (\<lambda>x. bindr (seqr rs) (\<lambda>xs. Inr (x # xs)))"
  by (simp_all add: seqr_def)

lemma mk_family_sel [simp]:
  "fam_domain (mk_family fid k op d ins outs ps sc rd wr) = d"
  "fam_write_regions (mk_family fid k op d ins outs ps sc rd wr) = Some wr"
  "fam_op (mk_family fid k op d ins outs ps sc rd wr) = op"
  "fam_threads (mk_family fid k op d ins outs ps sc rd wr) = THREADS_PER_WORKER"
  "fam_id (mk_family fid k op d ins outs ps sc rd wr) = fam_name op fid"
  "fam_kind (mk_family fid k op d ins outs ps sc rd wr) = k"
  by (simp_all add: mk_family_def)

end
