(* ===== verification/Lowerings_Dense.thy ===== *)
theory Lowerings_Dense
  imports Lowerings_Common
begin

text \<open>
  The dense lowerings of \<^verbatim>\<open>compiler/lowerings/dense.py\<close>: for each operator kind the tile domain and
  the regions a task reads and writes, as functions of the tile coordinates.
\<close>

section \<open>Linear\<close>

definition linear_head_regions ::
  "TensorValue \<Rightarrow> TensorValue \<Rightarrow> int \<Rightarrow> int \<Rightarrow> int \<Rightarrow> int \<Rightarrow> int \<Rightarrow> int \<Rightarrow> int \<Rightarrow> Region list result" where
  "linear_head_regions x w m0 m1 n0 n1 k_g n_g h =
     (let h_n0 = max n0 (h * n_g); h_n1 = min n1 ((h + 1) * n_g) in
      bindr (tile_region x [(m0, m1), (h * k_g, (h + 1) * k_g)]) (\<lambda>rx.
      bindr (tile_region w [(h * k_g, (h + 1) * k_g),
                            (h * n_g + (h_n0 - h * n_g), h * n_g + (h_n1 - h * n_g))]) (\<lambda>rw.
        Inr [rx, rw])))"

definition bias_regions :: "TensorValue option \<Rightarrow> int \<Rightarrow> int \<Rightarrow> Region list result" where
  "bias_regions bias n0 n1 =
     (case bias of None \<Rightarrow> Inr [] | Some b \<Rightarrow> bindr (tile_region b [(n0, n1)]) (\<lambda>r. Inr [r]))"

definition linear_reads ::
  "TensorValue \<Rightarrow> TensorValue \<Rightarrow> TensorValue option \<Rightarrow> int \<Rightarrow> pyval \<Rightarrow> TileDomain \<Rightarrow> region_fn" where
  "linear_reads x w bias k gh domain cs =
     bindr (pair_box domain cs) (\<lambda>((m0, m1), (n0, n1)).
       if truthy gh
       then
         bindr (as_int gh) (\<lambda>g.
         bindr (py_floordiv k g) (\<lambda>k_g.
         bindr (dim w 1) (\<lambda>wn.
         bindr (py_floordiv wn g) (\<lambda>n_g.
         bindr (py_floordiv n0 n_g) (\<lambda>h0.
         bindr (py_floordiv (n1 + n_g - 1) n_g) (\<lambda>h1.
         bindr (mapr (linear_head_regions x w m0 m1 n0 n1 k_g n_g) (urange2 h0 (min g h1))) (\<lambda>rss.
         bindr (bias_regions bias n0 n1) (\<lambda>rb. Inr (concat rss @ rb)))))))))
       else
         bindr (tile_region x [(m0, m1), (0, k)]) (\<lambda>rx.
         bindr (tile_region w [(0, k), (n0, n1)]) (\<lambda>rw.
         bindr (bias_regions bias n0 n1) (\<lambda>rb. Inr ([rx, rw] @ rb)))))"

definition pair_writes :: "TensorValue \<Rightarrow> TileDomain \<Rightarrow> region_fn" where
  "pair_writes y domain cs =
     bindr (pair_box domain cs) (\<lambda>((m0, m1), (n0, n1)).
     bindr (tile_region y [(m0, m1), (n0, n1)]) (\<lambda>r. Inr [r]))"

definition group_params :: "pyval \<Rightarrow> int \<Rightarrow> int \<Rightarrow> attrs result" where
  "group_params gh k wn =
     (if truthy gh
      then bindr (as_int gh) (\<lambda>g. bindr (py_floordiv k g) (\<lambda>k_g. bindr (py_floordiv wn g) (\<lambda>n_g.
             Inr [(''k_g'', VInt k_g), (''n_g'', VInt n_g)])))
      else Inr [])"

definition opt_name :: "TensorValue option \<Rightarrow> string list" where
  "opt_name t = (case t of None \<Rightarrow> [] | Some v \<Rightarrow> [tv_name v])"

definition lower_linear :: "Operator \<Rightarrow> OperatorGraph \<Rightarrow> TaskFamily result" where
  "lower_linear op g =
     bindr (in_tensor op g 0) (\<lambda>x.
     bindr (in_tensor op g 1) (\<lambda>w.
     bindr (opt_tensor op g 2) (\<lambda>bias.
     bindr (out_tensor op g 0) (\<lambda>y.
     bindr (dim x 1) (\<lambda>k.
     let gh = attr_get (op_attributes op) ''grouped_heads'' VNone in
     bindr (gemm_domain x w) (\<lambda>domain.
     bindr (dim w 1) (\<lambda>wn.
     bindr (group_params gh k wn) (\<lambda>gp.
       Inr (mk_family ''_linear'' ''gemm'' op domain
              ([tv_name x, tv_name w] @ opt_name bias) [tv_name y]
              ([(''bias'', VBool (bias \<noteq> None)), (''tile_m'', VInt GEMM_TILE_M),
                (''tile_n'', VInt GEMM_TILE_N), (''grouped_heads'', gh)] @ gp)
              (2 * GEMM_TILE_M * 16 * 4)
              (linear_reads x w bias k gh domain) (pair_writes y domain))))))))))"

definition linear_fp8_reads ::
  "TensorValue \<Rightarrow> TensorValue \<Rightarrow> TensorValue \<Rightarrow> int \<Rightarrow> int \<Rightarrow> int \<Rightarrow> TileDomain \<Rightarrow> region_fn" where
  "linear_fp8_reads x w scale k qb kb domain cs =
     bindr (pair_box domain cs) (\<lambda>((m0, m1), (n0, n1)).
     bindr (py_floordiv n0 qb) (\<lambda>sb.
     bindr (tile_region x [(m0, m1), (0, k)]) (\<lambda>rx.
     bindr (tile_region w [(n0, n1), (0, k)]) (\<lambda>rw.
     bindr (tile_region scale [(sb, sb + 1), (0, kb)]) (\<lambda>rs. Inr [rx, rw, rs])))))"

definition lower_linear_fp8 :: "Operator \<Rightarrow> OperatorGraph \<Rightarrow> TaskFamily result" where
  "lower_linear_fp8 op g =
     bindr (in_tensor op g 0) (\<lambda>x.
     bindr (in_tensor op g 1) (\<lambda>w.
     bindr (in_tensor op g 2) (\<lambda>scale.
     bindr (out_tensor op g 0) (\<lambda>y.
     if attr_get (op_attributes op) ''weight_layout'' VNone \<noteq> VStr ''fp8_block'' then Inl ValueError
     else
     bindr (as_int (attr_get (op_attributes op) ''quant_block'' (VInt 128))) (\<lambda>qb.
     bindr (unpack2 (tv_shape x)) (\<lambda>(m, k).
     bindr (unpack2 (tv_shape w)) (\<lambda>(n, k_w).
     if k_w \<noteq> k then Inl ValueError
     else bindr (py_mod k qb) (\<lambda>kr.
     if kr \<noteq> 0 \<or> n mod GEMV_FP8_TILE_N \<noteq> 0 \<or> \<not> is_contiguous w then Inl ValueError
     else if tv_dtype scale \<noteq> F32 \<or> tv_dtype w \<noteq> F8_E4M3 then Inl ValueError
     else
     let domain = mk_domain [(m, GEMM_TILE_M), (n, GEMV_FP8_TILE_N)] in
     bindr (py_floordiv k qb) (\<lambda>kb.
       Inr (mk_family ''_linear_fp8'' ''gemv_fp8'' op domain
              [tv_name x, tv_name w, tv_name scale] [tv_name y]
              [(''bias'', VBool False), (''tile_m'', VInt GEMM_TILE_M),
               (''tile_n'', VInt GEMV_FP8_TILE_N), (''quant_block'', VInt qb)]
              ((GEMV_FP8_TILE_N + 1) * qb * 4)
              (linear_fp8_reads x w scale k qb kb domain) (pair_writes y domain)))))))))))"

section \<open>Row-wise operators\<close>

text \<open>\<^verbatim>\<open>((c, c + 1), (0, width))\<close> with \<^verbatim>\<open>c = coords[0]\<close>.\<close>

definition row_box :: "int \<Rightarrow> int list \<Rightarrow> (int \<times> int) list result" where
  "row_box width cs = bindr (py_nth cs 0) (\<lambda>r. Inr [(r, r + 1), (0, width)])"

definition row_writes :: "TensorValue \<Rightarrow> int \<Rightarrow> region_fn" where
  "row_writes y width cs =
     bindr (row_box width cs) (\<lambda>bx. bindr (tile_region y bx) (\<lambda>r. Inr [r]))"

text \<open>\<^verbatim>\<open>((b, b + 1), (h, h + 1), (0, D))\<close> with \<^verbatim>\<open>b, h = coords\<close>.\<close>

definition head_box :: "int \<Rightarrow> int list \<Rightarrow> (int \<times> int) list result" where
  "head_box D cs = bindr (unpack2 cs) (\<lambda>(b, h). Inr [(b, b + 1), (h, h + 1), (0, D)])"

definition head_writes :: "TensorValue \<Rightarrow> int \<Rightarrow> region_fn" where
  "head_writes y D cs =
     bindr (head_box D cs) (\<lambda>bx. bindr (tile_region y bx) (\<lambda>r. Inr [r]))"

text \<open>Tile regions of some tensors at one box, then whole regions of others.\<close>

definition box_reads ::
  "(int list \<Rightarrow> (int \<times> int) list result) \<Rightarrow> TensorValue list \<Rightarrow> TensorValue list \<Rightarrow> region_fn" where
  "box_reads bx tiled whole cs =
     bindr (bx cs) (\<lambda>b. bindr (mapr (\<lambda>t. tile_region t b) tiled) (\<lambda>rs.
       Inr (rs @ map region_whole whole)))"

definition row_domain :: "int \<Rightarrow> int \<Rightarrow> TileDomain" where
  "row_domain rows width = mk_domain [(rows, 1), (width, width)]"

definition head_domain :: "int \<Rightarrow> int \<Rightarrow> TileDomain" where
  "head_domain B H = mk_domain [(B, 1), (H, 1)]"

definition lower_layer_norm :: "Operator \<Rightarrow> OperatorGraph \<Rightarrow> TaskFamily result" where
  "lower_layer_norm op g =
     bindr (in_tensor op g 0) (\<lambda>x.
     bindr (in_tensor op g 1) (\<lambda>gamma.
     bindr (in_tensor op g 2) (\<lambda>beta.
     bindr (out_tensor op g 0) (\<lambda>y.
     bindr (unpack2 (tv_shape x)) (\<lambda>(rows, width).
       Inr (mk_family ''_layernorm'' ''layernorm'' op (row_domain rows width)
              [tv_name x, tv_name gamma, tv_name beta] [tv_name y]
              [(''eps'', attr_get (op_attributes op) ''eps'' (VFloat (FLit 1 (-5))))]
              (2 * width * 4)
              (box_reads (row_box width) [x] [gamma, beta]) (row_writes y width)))))))"

definition lower_rms_norm :: "Operator \<Rightarrow> OperatorGraph \<Rightarrow> TaskFamily result" where
  "lower_rms_norm op g =
     bindr (in_tensor op g 0) (\<lambda>x.
     bindr (in_tensor op g 1) (\<lambda>gamma.
     bindr (out_tensor op g 0) (\<lambda>y.
     bindr (if length (tv_shape x) = 3
            then bindr (unpack3 (tv_shape x)) (\<lambda>(B, H, D).
                   Inr (head_domain B H, D, box_reads (head_box D) [x] [gamma], head_writes y D))
            else bindr (unpack2 (tv_shape x)) (\<lambda>(rows, width).
                   Inr (row_domain rows width, width, box_reads (row_box width) [x] [gamma],
                        row_writes y width)))
       (\<lambda>(domain, width, reads, writes).
       Inr (mk_family ''_rmsnorm'' ''rms_norm'' op domain [tv_name x, tv_name gamma] [tv_name y]
              [(''eps'', attr_get (op_attributes op) ''eps'' (VFloat (FLit 1 (-6))))]
              (width * 4) reads writes)))))"

definition lower_rms_norm_gated :: "Operator \<Rightarrow> OperatorGraph \<Rightarrow> TaskFamily result" where
  "lower_rms_norm_gated op g =
     bindr (in_tensor op g 0) (\<lambda>x.
     bindr (in_tensor op g 1) (\<lambda>gate.
     bindr (in_tensor op g 2) (\<lambda>gamma.
     bindr (out_tensor op g 0) (\<lambda>y.
     let activation = attr_get (op_attributes op) ''activation'' (VStr ''sigmoid'') in
     if activation \<noteq> VStr ''sigmoid'' then Inl ValueError
     else if tv_shape gate \<noteq> tv_shape x then Inl ValueError
     else
     bindr (if length (tv_shape x) = 3
            then bindr (unpack3 (tv_shape x)) (\<lambda>(B, H, D).
                   if tv_shape gamma \<noteq> [D] then Inl ValueError
                   else Inr (head_domain B H, D, box_reads (head_box D) [x, gate] [gamma],
                             head_writes y D))
            else bindr (unpack2 (tv_shape x)) (\<lambda>(rows, width).
                   if tv_shape gamma \<noteq> [width] then Inl ValueError
                   else Inr (row_domain rows width, width,
                             box_reads (row_box width) [x, gate] [gamma], row_writes y width)))
       (\<lambda>(domain, width, reads, writes).
       Inr (mk_family ''_rmsnorm_gated'' ''rms_norm_gated'' op domain
              [tv_name x, tv_name gate, tv_name gamma] [tv_name y]
              [(''eps'', attr_get (op_attributes op) ''eps'' (VFloat (FLit 1 (-6)))),
               (''activation'', activation)]
              (2 * width * 4) reads writes))))))"

definition lower_rope :: "Operator \<Rightarrow> OperatorGraph \<Rightarrow> TaskFamily result" where
  "lower_rope op g =
     bindr (in_tensor op g 0) (\<lambda>x.
     bindr (in_tensor op g 1) (\<lambda>cos_t.
     bindr (in_tensor op g 2) (\<lambda>sin_t.
     bindr (out_tensor op g 0) (\<lambda>y.
     bindr (unpack3 (tv_shape x)) (\<lambda>(B, H, D).
     let at = op_attributes op in
       Inr (mk_family ''_rope'' ''rope'' op (head_domain B H)
              [tv_name x, tv_name cos_t, tv_name sin_t] [tv_name y]
              [(''layer'', attr_get at ''layer'' (VInt 0)),
               (''which'', attr_get at ''which'' (VStr ''q'')),
               (''position'', attr_get at ''position'' (VStr ''p'')),
               (''position_form'', attr_get at ''position_form'' (VStr ''scalar'')),
               (''convention'', attr_get at ''convention'' (VStr ''rotate_half'')),
               (''rotary_dim'', attr_get at ''rotary_dim'' (VInt D))]
              (D * 4)
              (box_reads (head_box D) [x] [cos_t, sin_t]) (head_writes y D)))))))"

section \<open>Elementwise operators\<close>

text \<open>The flat tile \<^verbatim>\<open>[c * ELEM_TILE, min((c + 1) * ELEM_TILE, v.numel))\<close> of a view.\<close>

definition elem_box :: "TensorValue \<Rightarrow> int list \<Rightarrow> (int \<times> int) list result" where
  "elem_box v cs =
     bindr (py_nth cs 0) (\<lambda>c. flat_box v (c * ELEM_TILE) (min ((c + 1) * ELEM_TILE) (numel v)))"

definition elem_writes :: "TensorValue \<Rightarrow> region_fn" where
  "elem_writes y cs = bindr (elem_box y cs) (\<lambda>bx. bindr (tile_region y bx) (\<lambda>r. Inr [r]))"

definition elem_domain :: "TensorValue \<Rightarrow> TileDomain" where
  "elem_domain v = mk_domain [(numel v, ELEM_TILE)]"

definition lower_gelu :: "Operator \<Rightarrow> OperatorGraph \<Rightarrow> TaskFamily result" where
  "lower_gelu op g =
     bindr (in_tensor op g 0) (\<lambda>x.
     bindr (out_tensor op g 0) (\<lambda>y.
       Inr (mk_family ''_gelu'' ''elementwise'' op (elem_domain x) [tv_name x] [tv_name y]
              [(''op'', VStr ''gelu'')] 0 (box_reads (elem_box x) [x] []) (elem_writes y))))"

definition lower_swiglu :: "Operator \<Rightarrow> OperatorGraph \<Rightarrow> TaskFamily result" where
  "lower_swiglu op g =
     bindr (in_tensor op g 0) (\<lambda>gate.
     bindr (in_tensor op g 1) (\<lambda>up.
     bindr (out_tensor op g 0) (\<lambda>y.
       Inr (mk_family ''_swiglu'' ''elementwise'' op (elem_domain gate)
              [tv_name gate, tv_name up] [tv_name y]
              [(''op'', VStr ''swiglu'')] 0 (box_reads (elem_box gate) [gate, up] [])
              (elem_writes y)))))"

definition lower_add :: "Operator \<Rightarrow> OperatorGraph \<Rightarrow> TaskFamily result" where
  "lower_add op g =
     bindr (in_tensor op g 0) (\<lambda>a.
     bindr (in_tensor op g 1) (\<lambda>b.
     bindr (out_tensor op g 0) (\<lambda>y.
       Inr (mk_family ''_add'' ''elementwise'' op (elem_domain a) [tv_name a, tv_name b] [tv_name y]
              [(''op'', VStr ''add'')] 0 (box_reads (elem_box a) [a, b] []) (elem_writes y)))))"

section \<open>Embedding\<close>

text \<open>
  The column range of an embedding task; the reads callback computes it as well and does not use it.
\<close>

definition embed_cols :: "TileDomain \<Rightarrow> int \<Rightarrow> int list \<Rightarrow> (int \<times> int) result" where
  "embed_cols domain width cs =
     bindr (task_grid domain) (\<lambda>gr. bindr (py_nth gr 1) (\<lambda>g1.
       if g1 = 1 then Inr (0, width)
       else bindr (py_nth cs 1) (\<lambda>c.
              Inr (c * EMBED_TILE_C, min ((c + 1) * EMBED_TILE_C) width))))"

definition embed_reads ::
  "TensorValue \<Rightarrow> TensorValue \<Rightarrow> TensorValue option \<Rightarrow> TileDomain \<Rightarrow> int \<Rightarrow> region_fn" where
  "embed_reads ids token pos domain width cs =
     bindr (py_nth cs 0) (\<lambda>b.
     bindr (embed_cols domain width cs) (\<lambda>_.
     bindr (tile_region ids [(b, b + 1)]) (\<lambda>ri.
       Inr ([ri, region_whole token] @ (case pos of None \<Rightarrow> [] | Some p \<Rightarrow> [region_whole p])))))"

definition embed_writes :: "TensorValue \<Rightarrow> TileDomain \<Rightarrow> int \<Rightarrow> region_fn" where
  "embed_writes y domain width cs =
     bindr (py_nth cs 0) (\<lambda>b.
     bindr (embed_cols domain width cs) (\<lambda>(c0, c1).
     bindr (tile_region y [(b, b + 1), (c0, c1)]) (\<lambda>r. Inr [r])))"

definition lower_embedding :: "Operator \<Rightarrow> OperatorGraph \<Rightarrow> TaskFamily result" where
  "lower_embedding op g =
     bindr (in_tensor op g 0) (\<lambda>ids.
     bindr (in_tensor op g 1) (\<lambda>token.
     bindr (opt_tensor op g 2) (\<lambda>pos.
     bindr (out_tensor op g 0) (\<lambda>y.
     bindr (unpack2 (tv_shape y)) (\<lambda>(rows, width).
     let domain = mk_domain [(rows, 1), (width, min EMBED_TILE_C width)]; at = op_attributes op in
       Inr (mk_family ''_embedding'' ''embedding'' op domain
              ([tv_name ids, tv_name token] @ opt_name pos) [tv_name y]
              [(''position'', attr_get at ''position'' (VStr ''p'')),
               (''position_form'', attr_get at ''position_form'' (VStr ''scalar'')),
               (''pos_table'', VBool (pos \<noteq> None))]
              0 (embed_reads ids token pos domain width) (embed_writes y domain width)))))))"

section \<open>Mixture of experts\<close>

definition moe_extra :: "Operator \<Rightarrow> pyval \<Rightarrow> pyval \<Rightarrow> string list result" where
  "moe_extra op mode score_fn =
     (if mode = VStr ''hash''
      then bindr (py_nth (op_inputs op) 4) (\<lambda>a. bindr (py_nth (op_inputs op) 5) (\<lambda>b. Inr [a, b]))
      else if score_fn = VStr ''sigmoid_noaux_tc''
      then bindr (py_nth (op_inputs op) 4) (\<lambda>a. Inr [a])
      else Inr [])"

definition moe_route_reads ::
  "OperatorGraph \<Rightarrow> TensorValue \<Rightarrow> TensorValue \<Rightarrow> string list \<Rightarrow> int \<Rightarrow> region_fn" where
  "moe_route_reads g x router_w extra h cs =
     bindr (row_box h cs) (\<lambda>bx.
     bindr (tile_region x bx) (\<lambda>rx.
     bindr (mapr (\<lambda>n. bindr (graph_tensor g n) (\<lambda>t. Inr (region_whole t))) extra) (\<lambda>res.
       Inr ([rx, region_whole router_w] @ res))))"

definition moe_route_writes :: "TensorValue \<Rightarrow> TensorValue \<Rightarrow> int \<Rightarrow> region_fn" where
  "moe_route_writes ids weights k cs =
     bindr (row_box k cs) (\<lambda>bx.
     bindr (tile_region ids bx) (\<lambda>ri. bindr (tile_region weights bx) (\<lambda>rw. Inr [ri, rw])))"

definition lower_moe_route :: "Operator \<Rightarrow> OperatorGraph \<Rightarrow> TaskFamily result" where
  "lower_moe_route op g =
     bindr (in_tensor op g 0) (\<lambda>x.
     bindr (in_tensor op g 1) (\<lambda>router_w.
     bindr (in_tensor op g 2) (\<lambda>ids.
     bindr (in_tensor op g 3) (\<lambda>weights.
     bindr (unpack2 (tv_shape x)) (\<lambda>(b, h).
     bindr (unpack2 (tv_shape router_w)) (\<lambda>(e, h_w).
     bindr (dim ids 1) (\<lambda>k.
     if h_w \<noteq> h then Inl ValueError
     else
     bindr (dict_get (op_attributes op) ''mode'') (\<lambda>mode.
     bindr (dict_get (op_attributes op) ''score_fn'') (\<lambda>score_fn.
     bindr (moe_extra op mode score_fn) (\<lambda>extra.
       Inr (mk_family ''_moe_route'' ''moe_route'' op (mk_domain [(b, 1)])
              ([tv_name x, tv_name router_w, tv_name ids, tv_name weights] @ extra)
              [tv_name ids, tv_name weights] (op_attributes op) (e * 4)
              (moe_route_reads g x router_w extra h) (moe_route_writes ids weights k))))))))))))"

definition moe_expert_reads ::
  "TensorValue \<Rightarrow> TensorValue \<Rightarrow> TensorValue \<Rightarrow> TensorValue \<Rightarrow> int \<Rightarrow> region_fn" where
  "moe_expert_reads x gate_up down ids h cs =
     bindr (unpack2 cs) (\<lambda>(r, s).
     bindr (tile_region x [(r, r + 1), (0, h)]) (\<lambda>rx.
       Inr [rx, region_whole gate_up, region_whole down, region_whole ids]))"

definition lower_moe_expert :: "Operator \<Rightarrow> OperatorGraph \<Rightarrow> TaskFamily result" where
  "lower_moe_expert op g =
     bindr (in_tensor op g 0) (\<lambda>x.
     bindr (in_tensor op g 1) (\<lambda>gate_up.
     bindr (in_tensor op g 2) (\<lambda>down.
     bindr (in_tensor op g 3) (\<lambda>ids.
     bindr (out_tensor op g 0) (\<lambda>partials.
     bindr (unpack2 (tv_shape x)) (\<lambda>(b, h).
     bindr (unpack3 (tv_shape gate_up)) (\<lambda>(e, two_i, h_w).
     let inter = two_i div 2 in
     bindr (dim ids 1) (\<lambda>k.
     if h_w \<noteq> h \<or> tv_shape down \<noteq> [e, h, inter] then Inl ValueError
     else
       Inr (mk_family ''_moe_expert'' ''moe_expert'' op (head_domain b k)
              [tv_name x, tv_name gate_up, tv_name down, tv_name ids] [tv_name partials]
              (op_attributes op) ((two_i + h) * 4)
              (moe_expert_reads x gate_up down ids h) (head_writes partials h))))))))))"

definition moe_combine_reads :: "TensorValue \<Rightarrow> TensorValue \<Rightarrow> TensorValue option \<Rightarrow> region_fn" where
  "moe_combine_reads partials weights shared cs =
     Inr ([region_whole partials, region_whole weights] @
          (case shared of None \<Rightarrow> [] | Some s \<Rightarrow> [region_whole s]))"

definition lower_moe_combine :: "Operator \<Rightarrow> OperatorGraph \<Rightarrow> TaskFamily result" where
  "lower_moe_combine op g =
     bindr (in_tensor op g 0) (\<lambda>partials.
     bindr (in_tensor op g 1) (\<lambda>weights.
     bindr (opt_tensor op g 2) (\<lambda>shared.
     bindr (out_tensor op g 0) (\<lambda>y.
     bindr (unpack3 (tv_shape partials)) (\<lambda>(b, k, h).
       Inr (mk_family ''_moe_combine'' ''moe_combine'' op (mk_domain [(b, 1)])
              ([tv_name partials, tv_name weights] @ opt_name shared) [tv_name y]
              (op_attributes op) 0
              (moe_combine_reads partials weights shared) (row_writes y h)))))))"

end
