(* ===== verification/Lowerings_Attention.thy ===== *)
theory Lowerings_Attention
  imports Lowerings_Dense
begin

text \<open>
  The attention lowerings of \<^verbatim>\<open>compiler/lowerings/attention.py\<close>: indexer, cache append, attention scores
  and values (dense and paged), latent attention, conjugate rope and softmax.
\<close>

section \<open>Indexer\<close>

definition indexer_cols :: "int \<Rightarrow> int list \<Rightarrow> (int \<times> int \<times> int) result" where
  "indexer_cols m cs =
     bindr (unpack2 cs) (\<lambda>(bi, t).
       let m0 = t * INDEXER_TILE_M in Inr (bi, m0, min (m0 + INDEXER_TILE_M) m))"

definition indexer_reads ::
  "TensorValue \<Rightarrow> TensorValue \<Rightarrow> TensorValue \<Rightarrow> int \<Rightarrow> int \<Rightarrow> int \<Rightarrow> region_fn" where
  "indexer_reads q c w h d m cs =
     bindr (indexer_cols m cs) (\<lambda>(bi, m0, m1).
       seqr [tile_region q [(bi, bi + 1), (0, h), (0, d)],
             tile_region c [(bi, bi + 1), (m0, m1), (0, d)],
             tile_region w [(bi, bi + 1), (0, h)]])"

definition indexer_writes :: "TensorValue \<Rightarrow> int \<Rightarrow> region_fn" where
  "indexer_writes s m cs =
     bindr (indexer_cols m cs) (\<lambda>(bi, m0, m1). seqr [tile_region s [(bi, bi + 1), (m0, m1)]])"

definition lower_indexer_scores :: "Operator \<Rightarrow> OperatorGraph \<Rightarrow> TaskFamily result" where
  "lower_indexer_scores op g =
     bindr (in_tensor op g 0) (\<lambda>q.
     bindr (in_tensor op g 1) (\<lambda>c.
     bindr (in_tensor op g 2) (\<lambda>w.
     bindr (out_tensor op g 0) (\<lambda>s.
     bindr (unpack3 (tv_shape q)) (\<lambda>(b, h, d).
     bindr (dim c 1) (\<lambda>m.
     if attr_get (op_attributes op) ''activation'' VNone \<noteq> VStr ''relu'' then Inl ValueError
     else if \<not> is_contiguous c then Inl ValueError
     else
     bindr (dict_get (op_attributes op) ''scale'') (\<lambda>scale.
       Inr (mk_family ''_indexer_scores'' ''indexer_scores'' op
              (mk_domain [(b, 1), (m, INDEXER_TILE_M)])
              [tv_name q, tv_name c, tv_name w] [tv_name s]
              [(''heads'', VInt h), (''head_dim'', VInt d), (''capacity'', VInt m),
               (''scale'', scale), (''tile_m'', VInt INDEXER_TILE_M)]
              ((INDEXER_TILE_M + 1) * d * 4)
              (indexer_reads q c w h d m) (indexer_writes s m)))))))))"

definition topk_reads :: "TensorValue \<Rightarrow> TensorValue \<Rightarrow> int \<Rightarrow> region_fn" where
  "topk_reads s valid m cs =
     bindr (unpack1 cs) (\<lambda>bi.
       seqr [tile_region s [(bi, bi + 1), (0, m)], tile_region valid [(bi, bi + 1)]])"

definition topk_writes :: "TensorValue \<Rightarrow> TensorValue \<Rightarrow> int \<Rightarrow> region_fn" where
  "topk_writes idx bias k cs =
     bindr (unpack1 cs) (\<lambda>bi.
       seqr [tile_region idx [(bi, bi + 1), (0, k)], tile_region bias [(bi, bi + 1), (0, k)]])"

definition lower_index_topk :: "Operator \<Rightarrow> OperatorGraph \<Rightarrow> TaskFamily result" where
  "lower_index_topk op g =
     bindr (in_tensor op g 0) (\<lambda>s.
     bindr (in_tensor op g 1) (\<lambda>valid.
     bindr (out_tensor op g 0) (\<lambda>idx.
     bindr (out_tensor op g 1) (\<lambda>bias.
     bindr (unpack2 (tv_shape s)) (\<lambda>(b, m).
     let kv = attr_get (op_attributes op) ''k'' VNone in
     (case as_int kv of
        Inl _ \<Rightarrow> Inl ValueError
      | Inr k \<Rightarrow>
          if \<not> (1 \<le> k \<and> k \<le> m) then Inl ValueError
          else if attr_get (op_attributes op) ''tie_break'' VNone \<noteq> VStr ''lowest_index''
          then Inl ValueError
          else
            Inr (mk_family ''_index_topk'' ''index_topk'' op (mk_domain [(b, 1)])
                   [tv_name s, tv_name valid] [tv_name idx, tv_name bias]
                   [(''k'', kv), (''capacity'', VInt m), (''tie_break'', VStr ''lowest_index'')]
                   0 (topk_reads s valid m) (topk_writes idx bias k))))))))"

section \<open>Cache append\<close>

text \<open>Tile regions of the new key and value rows.\<close>

definition append_reads :: "TensorValue \<Rightarrow> TensorValue \<Rightarrow> int \<Rightarrow> region_fn" where
  "append_reads k_new v_new D cs =
     bindr (unpack2 cs) (\<lambda>(b, h).
       let row = [(b, b + 1), (h, h + 1), (0, D)]
       in seqr [tile_region k_new row, tile_region v_new row])"

definition append_writes :: "TensorValue \<Rightarrow> TensorValue \<Rightarrow> pyval \<Rightarrow> int \<Rightarrow> region_fn" where
  "append_writes k_cache v_cache p D cs =
     bindr (unpack2 cs) (\<lambda>(b, h).
     bindr (pos_name p) (\<lambda>pn.
       let prefix = [(b, HInt (b + 1)), (h, HInt (h + 1)), (0, HSym (pn @ ''+1'')), (0, HInt D)]
       in seqr [region_tile k_cache prefix, region_tile v_cache prefix]))"

text \<open>The parameters shared by the position consumers.\<close>

definition pos_params :: "attrs \<Rightarrow> pyval \<Rightarrow> attrs" where
  "pos_params at p =
     [(''layer'', attr_get at ''layer'' (VInt 0)), (''position'', p),
      (''position_form'', attr_get at ''position_form'' (VStr ''scalar''))]"

definition lower_cache_append :: "Operator \<Rightarrow> OperatorGraph \<Rightarrow> TaskFamily result" where
  "lower_cache_append op g =
     bindr (in_tensor op g 0) (\<lambda>k_cache.
     bindr (in_tensor op g 1) (\<lambda>v_cache.
     bindr (in_tensor op g 2) (\<lambda>k_new.
     bindr (in_tensor op g 3) (\<lambda>v_new.
     bindr (unpack4 (tv_shape k_cache)) (\<lambda>(B, H, S, D).
     let p = attr_get (op_attributes op) ''position'' (VStr ''p'') in
       Inr (mk_family ''_cache_append'' ''cache_append'' op (head_domain B H)
              [tv_name k_cache, tv_name v_cache, tv_name k_new, tv_name v_new] []
              (pos_params (op_attributes op) p) 0
              (append_reads k_new v_new D) (append_writes k_cache v_cache p D)))))))"

definition paged_append_writes :: "TensorValue \<Rightarrow> TensorValue \<Rightarrow> region_fn" where
  "paged_append_writes k_pool v_pool cs =
     seqr [bindr (full_box k_pool 3) (tile_region k_pool),
           bindr (full_box v_pool 3) (tile_region v_pool)]"

definition lower_cache_append_paged :: "Operator \<Rightarrow> OperatorGraph \<Rightarrow> TaskFamily result" where
  "lower_cache_append_paged op g =
     bindr (in_tensor op g 0) (\<lambda>k_pool.
     bindr (in_tensor op g 1) (\<lambda>v_pool.
     bindr (in_tensor op g 2) (\<lambda>slot_table.
     bindr (in_tensor op g 3) (\<lambda>k_new.
     bindr (in_tensor op g 4) (\<lambda>v_new.
     bindr (unpack3 (tv_shape k_new)) (\<lambda>(B, KVH, D).
     let p = attr_get (op_attributes op) ''position'' (VStr ''p'') in
       Inr (mk_family ''_cache_append_paged'' ''cache_append_paged'' op (head_domain B KVH)
              [tv_name k_pool, tv_name v_pool, tv_name slot_table, tv_name k_new, tv_name v_new] []
              (pos_params (op_attributes op) p) 0
              (append_reads k_new v_new D) (paged_append_writes k_pool v_pool))))))))"

section \<open>Attention scores\<close>

text \<open>\<^verbatim>\<open>kvh = attributes.get("kv_heads", Hq) or Hq\<close> and \<^verbatim>\<open>group = Hq // kvh\<close>.\<close>

definition head_group :: "attrs \<Rightarrow> int \<Rightarrow> (pyval \<times> int) result" where
  "head_group at Hq =
     (let kvh = py_or (attr_get at ''kv_heads'' (VInt Hq)) (VInt Hq) in
      bindr (as_int kvh) (\<lambda>n. bindr (py_floordiv Hq n) (\<lambda>gr. Inr (kvh, gr))))"

definition score_params :: "attrs \<Rightarrow> pyval \<Rightarrow> pyval \<Rightarrow> int \<Rightarrow> attrs result" where
  "score_params at p kvh gr =
     bindr (py_float (py_or (attr_get at ''scale'' VNone) (VFloat (FLit 0 0)))) (\<lambda>scale.
       Inr ([(''scale'', scale)] @ pos_params at p @ [(''kv_heads'', kvh), (''group'', VInt gr)]))"

text \<open>The output row of scores up to the valid length.\<close>

definition score_writes :: "TensorValue \<Rightarrow> pyval \<Rightarrow> region_fn" where
  "score_writes y p cs =
     bindr (unpack2 cs) (\<lambda>(b, h).
     bindr (pos_name p) (\<lambda>pn.
       seqr [region_tile y [(b, HInt (b + 1)), (h, HInt (h + 1)), (0, HSym (pn @ ''+1''))]]))"

definition score_reads ::
  "TensorValue \<Rightarrow> TensorValue \<Rightarrow> pyval \<Rightarrow> int \<Rightarrow> int \<Rightarrow> region_fn" where
  "score_reads q k_cache p gr D cs =
     bindr (unpack2 cs) (\<lambda>(b, h).
     bindr (tile_region q [(b, b + 1), (h, h + 1), (0, D)]) (\<lambda>rq.
     bindr (py_floordiv h gr) (\<lambda>kh.
     bindr (pos_name p) (\<lambda>pn.
     bindr (region_tile k_cache [(b, HInt (b + 1)), (kh, HInt (kh + 1)), (0, HSym (pn @ ''+1'')),
                                 (0, HInt D)]) (\<lambda>rk. Inr [rq, rk])))))"

definition lower_attention_scores :: "Operator \<Rightarrow> OperatorGraph \<Rightarrow> TaskFamily result" where
  "lower_attention_scores op g =
     bindr (in_tensor op g 0) (\<lambda>q.
     bindr (in_tensor op g 1) (\<lambda>k_cache.
     bindr (out_tensor op g 0) (\<lambda>y.
     bindr (dim q 0) (\<lambda>B.
     bindr (dim q 1) (\<lambda>Hq.
     bindr (dim k_cache 2) (\<lambda>S.
     bindr (dim k_cache 3) (\<lambda>D.
     bindr (head_group (op_attributes op) Hq) (\<lambda>(kvh, gr).
     let p = attr_get (op_attributes op) ''position'' (VStr ''p'') in
     bindr (score_params (op_attributes op) p kvh gr) (\<lambda>params.
       Inr (mk_family ''_attn_scores'' ''attention_scores'' op (head_domain B Hq)
              [tv_name q, tv_name k_cache] [tv_name y] params (S * 4)
              (score_reads q k_cache p gr D) (score_writes y p)))))))))))"

definition score_paged_reads :: "TensorValue \<Rightarrow> TensorValue \<Rightarrow> region_fn" where
  "score_paged_reads q k_pool cs =
     bindr (unpack2 cs) (\<lambda>(b, h).
       seqr [bindr (dim q 2) (\<lambda>d. tile_region q [(b, b + 1), (h, h + 1), (0, d)]),
             bindr (full_box k_pool 3) (tile_region k_pool)])"

definition lower_attention_scores_paged :: "Operator \<Rightarrow> OperatorGraph \<Rightarrow> TaskFamily result" where
  "lower_attention_scores_paged op g =
     bindr (in_tensor op g 0) (\<lambda>q.
     bindr (in_tensor op g 1) (\<lambda>k_pool.
     bindr (in_tensor op g 2) (\<lambda>slot_table.
     bindr (out_tensor op g 0) (\<lambda>y.
     bindr (dim q 0) (\<lambda>B.
     bindr (dim q 1) (\<lambda>Hq.
     bindr (dim slot_table 1) (\<lambda>S.
     bindr (head_group (op_attributes op) Hq) (\<lambda>(kvh, gr).
     let p = attr_get (op_attributes op) ''position'' (VStr ''p'') in
     bindr (score_params (op_attributes op) p kvh gr) (\<lambda>params.
       Inr (mk_family ''_attn_scores_paged'' ''attention_scores_paged'' op (head_domain B Hq)
              [tv_name q, tv_name k_pool, tv_name slot_table] [tv_name y] params (S * 4)
              (score_paged_reads q k_pool) (score_writes y p)))))))))))"

section \<open>Latent attention\<close>

definition sink_region :: "TensorValue \<Rightarrow> int \<Rightarrow> int \<Rightarrow> Region result" where
  "sink_region sink bb hh =
     (if length (tv_shape sink) = 2 then tile_region sink [(bb, bb + 1), (hh, hh + 1)]
      else tile_region sink [(hh, hh + 1)])"

definition mla_score_reads ::
  "TensorValue \<Rightarrow> TensorValue \<Rightarrow> TensorValue \<Rightarrow> TensorValue \<Rightarrow> TensorValue \<Rightarrow> TensorValue
    \<Rightarrow> TensorValue option \<Rightarrow> pyval \<Rightarrow> region_fn" where
  "mla_score_reads q latent window_table comp_pool comp_idx sink bias K cs =
     bindr (unpack2 cs) (\<lambda>(bb, hh).
     bindr (seqr
       [bindr (dim q 2) (\<lambda>d. tile_region q [(bb, bb + 1), (hh, hh + 1), (0, d)]),
        bindr (dim latent 1) (\<lambda>n. bindr (dim latent 2) (\<lambda>d.
          tile_region latent [(bb, bb + 1), (0, n), (0, d)])),
        bindr (dim window_table 1) (\<lambda>n. tile_region window_table [(bb, bb + 1), (0, n)]),
        bindr (dim comp_pool 1) (\<lambda>n. bindr (dim comp_pool 2) (\<lambda>d.
          tile_region comp_pool [(bb, bb + 1), (0, n), (0, d)])),
        bindr (as_int K) (\<lambda>k. tile_region comp_idx [(bb, bb + 1), (0, k)]),
        sink_region sink bb hh]) (\<lambda>regs.
     case bias of
       None \<Rightarrow> Inr regs
     | Some bt \<Rightarrow> bindr (as_int K) (\<lambda>k.
         bindr (tile_region bt [(bb, bb + 1), (0, k)]) (\<lambda>r. Inr (regs @ [r])))))"

definition mla_probs_region :: "TensorValue \<Rightarrow> pyval \<Rightarrow> pyval \<Rightarrow> int \<Rightarrow> int \<Rightarrow> Region result" where
  "mla_probs_region probs W K bb hh =
     bindr (as_int W) (\<lambda>w. bindr (as_int K) (\<lambda>k.
       tile_region probs [(bb, bb + 1), (hh, hh + 1), (0, w + k + 1)]))"

definition mla_score_writes :: "TensorValue \<Rightarrow> pyval \<Rightarrow> pyval \<Rightarrow> region_fn" where
  "mla_score_writes probs W K cs =
     bindr (unpack2 cs) (\<lambda>(bb, hh). seqr [mla_probs_region probs W K bb hh])"

definition lower_mla_scores :: "Operator \<Rightarrow> OperatorGraph \<Rightarrow> TaskFamily result" where
  "lower_mla_scores op g =
     bindr (in_tensor op g 0) (\<lambda>q.
     bindr (in_tensor op g 1) (\<lambda>latent.
     bindr (in_tensor op g 2) (\<lambda>window_table.
     bindr (in_tensor op g 3) (\<lambda>comp_pool.
     bindr (in_tensor op g 4) (\<lambda>comp_idx.
     bindr (in_tensor op g 5) (\<lambda>sink.
     bindr (opt_tensor op g 6) (\<lambda>bias.
     bindr (out_tensor op g 0) (\<lambda>probs.
     bindr (unpack3 (tv_shape q)) (\<lambda>(b, h, _).
     let at = op_attributes op in
     bindr (dict_get at ''window'') (\<lambda>W.
     bindr (dict_get at ''comp_slots'') (\<lambda>K.
     bindr (dict_get at ''scale'') (\<lambda>sv.
     bindr (py_float sv) (\<lambda>scale.
     bindr (dict_get at ''layer'') (\<lambda>layer.
     bindr (dict_get at ''position'') (\<lambda>position.
       Inr (mk_family ''_mla_scores'' ''mla_scores'' op (head_domain b h)
              (map tv_name [q, latent, window_table, comp_pool, comp_idx, sink] @ opt_name bias)
              [tv_name probs]
              [(''scale'', scale), (''layer'', layer), (''position'', position), (''window'', W),
               (''comp_slots'', K),
               (''position_form'', attr_get at ''position_form'' (VStr ''scalar''))]
              0
              (mla_score_reads q latent window_table comp_pool comp_idx sink bias K)
              (mla_score_writes probs W K)))))))))))))))))"

definition mla_value_reads ::
  "TensorValue \<Rightarrow> TensorValue \<Rightarrow> TensorValue \<Rightarrow> TensorValue \<Rightarrow> TensorValue \<Rightarrow> pyval \<Rightarrow> pyval \<Rightarrow> int
    \<Rightarrow> region_fn" where
  "mla_value_reads probs latent window_table comp_pool comp_idx W K d cs =
     bindr (unpack2 cs) (\<lambda>(bb, hh).
       seqr
         [mla_probs_region probs W K bb hh,
          bindr (dim latent 1) (\<lambda>n. tile_region latent [(bb, bb + 1), (0, n), (0, d)]),
          bindr (dim window_table 1) (\<lambda>n. tile_region window_table [(bb, bb + 1), (0, n)]),
          bindr (dim comp_pool 1) (\<lambda>n. tile_region comp_pool [(bb, bb + 1), (0, n), (0, d)]),
          bindr (as_int K) (\<lambda>k. tile_region comp_idx [(bb, bb + 1), (0, k)])])"

definition lower_mla_values :: "Operator \<Rightarrow> OperatorGraph \<Rightarrow> TaskFamily result" where
  "lower_mla_values op g =
     bindr (in_tensor op g 0) (\<lambda>probs.
     bindr (in_tensor op g 1) (\<lambda>latent.
     bindr (in_tensor op g 2) (\<lambda>window_table.
     bindr (in_tensor op g 3) (\<lambda>comp_pool.
     bindr (in_tensor op g 4) (\<lambda>comp_idx.
     bindr (out_tensor op g 0) (\<lambda>ctx.
     bindr (unpack3 (tv_shape probs)) (\<lambda>(b, h, _).
     let at = op_attributes op in
     bindr (dict_get at ''window'') (\<lambda>W.
     bindr (dict_get at ''comp_slots'') (\<lambda>K.
     bindr (dim latent 2) (\<lambda>d.
     bindr (dict_get at ''layer'') (\<lambda>layer.
     bindr (dict_get at ''position'') (\<lambda>position.
       Inr (mk_family ''_mla_values'' ''mla_values'' op (head_domain b h)
              [tv_name probs, tv_name latent, tv_name window_table, tv_name comp_pool, tv_name comp_idx]
              [tv_name ctx]
              [(''layer'', layer), (''position'', position), (''window'', W), (''comp_slots'', K),
               (''position_form'', attr_get at ''position_form'' (VStr ''scalar''))]
              0
              (mla_value_reads probs latent window_table comp_pool comp_idx W K d)
              (head_writes ctx d))))))))))))))"

section \<open>Conjugate rope and softmax\<close>

definition conj_rope_reads :: "TensorValue \<Rightarrow> TensorValue \<Rightarrow> TensorValue \<Rightarrow> region_fn" where
  "conj_rope_reads x cos_t sin_t cs =
     bindr (unpack2 cs) (\<lambda>(bb, hh).
       seqr [bindr (dim x 2) (\<lambda>d. tile_region x [(bb, bb + 1), (hh, hh + 1), (0, d)]),
             bindr (full_box cos_t 2) (tile_region cos_t),
             bindr (full_box sin_t 2) (tile_region sin_t)])"

definition conj_rope_writes :: "TensorValue \<Rightarrow> TensorValue \<Rightarrow> region_fn" where
  "conj_rope_writes x y cs =
     bindr (unpack2 cs) (\<lambda>(bb, hh).
       seqr [bindr (dim x 2) (\<lambda>d. tile_region y [(bb, bb + 1), (hh, hh + 1), (0, d)])])"

definition lower_conjugate_rope :: "Operator \<Rightarrow> OperatorGraph \<Rightarrow> TaskFamily result" where
  "lower_conjugate_rope op g =
     bindr (in_tensor op g 0) (\<lambda>x.
     bindr (in_tensor op g 1) (\<lambda>cos_t.
     bindr (in_tensor op g 2) (\<lambda>sin_t.
     bindr (out_tensor op g 0) (\<lambda>y.
     bindr (dim x 0) (\<lambda>b.
     bindr (dim x 1) (\<lambda>h.
     let at = op_attributes op in
     bindr (dict_get at ''layer'') (\<lambda>layer.
     bindr (dict_get at ''which'') (\<lambda>which.
     bindr (dict_get at ''position'') (\<lambda>position.
     bindr (dict_get at ''convention'') (\<lambda>convention.
     bindr (dict_get at ''rotary_dim'') (\<lambda>rotary_dim.
       Inr (mk_family ''_conjugate_rope'' ''conjugate_rope'' op (head_domain b h)
              [tv_name x, tv_name cos_t, tv_name sin_t] [tv_name y]
              [(''layer'', layer), (''which'', which), (''position'', position),
               (''convention'', convention), (''rotary_dim'', rotary_dim),
               (''position_form'', attr_get at ''position_form'' (VStr ''scalar''))]
              0 (conj_rope_reads x cos_t sin_t) (conj_rope_writes x y)))))))))))))"

text \<open>A probability row up to the valid length.\<close>

definition prefix_row :: "TensorValue \<Rightarrow> pyval \<Rightarrow> int \<Rightarrow> int \<Rightarrow> Region result" where
  "prefix_row x p b h =
     bindr (pos_name p) (\<lambda>pn.
       region_tile x [(b, HInt (b + 1)), (h, HInt (h + 1)), (0, HSym (pn @ ''+1''))])"

definition softmax_reads :: "TensorValue \<Rightarrow> pyval \<Rightarrow> region_fn" where
  "softmax_reads x p cs = bindr (unpack2 cs) (\<lambda>(b, h). seqr [prefix_row x p b h])"

definition lower_softmax :: "Operator \<Rightarrow> OperatorGraph \<Rightarrow> TaskFamily result" where
  "lower_softmax op g =
     bindr (in_tensor op g 0) (\<lambda>x.
     bindr (out_tensor op g 0) (\<lambda>y.
     bindr (unpack3 (tv_shape x)) (\<lambda>(B, H, S).
     let p = attr_get (op_attributes op) ''position'' (VStr ''p'') in
       Inr (mk_family ''_softmax'' ''softmax'' op (head_domain B H) [tv_name x] [tv_name y]
              (pos_params (op_attributes op) p) (2 * S * 4)
              (softmax_reads x p) (head_writes y S)))))"

section \<open>Attention values\<close>

definition value_reads ::
  "TensorValue \<Rightarrow> TensorValue \<Rightarrow> TensorValue option \<Rightarrow> pyval \<Rightarrow> int \<Rightarrow> int \<Rightarrow> region_fn" where
  "value_reads probs v_cache gate p gr D cs =
     bindr (unpack2 cs) (\<lambda>(b, h).
     bindr (prefix_row probs p b h) (\<lambda>rp.
     bindr (py_floordiv h gr) (\<lambda>kh.
     bindr (pos_name p) (\<lambda>pn.
     bindr (region_tile v_cache [(b, HInt (b + 1)), (kh, HInt (kh + 1)), (0, HSym (pn @ ''+1'')),
                                 (0, HInt D)]) (\<lambda>rv.
     case gate of
       None \<Rightarrow> Inr [rp, rv]
     | Some gt \<Rightarrow> bindr (tile_region gt [(b, b + 1), (h, h + 1), (0, D)]) (\<lambda>rg. Inr [rp, rv, rg]))))))"

definition lower_attention_values :: "Operator \<Rightarrow> OperatorGraph \<Rightarrow> TaskFamily result" where
  "lower_attention_values op g =
     (let gated = attr_get (op_attributes op) ''gated'' (VBool False) in
     bindr (in_tensor op g 0) (\<lambda>probs.
     bindr (in_tensor op g 1) (\<lambda>v_cache.
     bindr (if truthy gated then bindr (in_tensor op g 2) (\<lambda>t. Inr (Some t)) else Inr None) (\<lambda>gate.
     bindr (out_tensor op g 0) (\<lambda>y.
     bindr (dim probs 0) (\<lambda>B.
     bindr (dim probs 1) (\<lambda>Hq.
     bindr (dim v_cache 3) (\<lambda>D.
     bindr (head_group (op_attributes op) Hq) (\<lambda>(kvh, gr).
     let p = attr_get (op_attributes op) ''position'' (VStr ''p'') in
       Inr (mk_family ''_attn_values'' ''attention_values'' op (head_domain B Hq)
              ([tv_name probs, tv_name v_cache] @ opt_name gate) [tv_name y]
              (pos_params (op_attributes op) p @
               [(''kv_heads'', kvh), (''group'', VInt gr), (''gated'', gated)])
              (D * 4) (value_reads probs v_cache gate p gr D) (head_writes y D)))))))))))"

definition value_paged_reads :: "TensorValue \<Rightarrow> TensorValue \<Rightarrow> pyval \<Rightarrow> region_fn" where
  "value_paged_reads probs v_pool p cs =
     bindr (unpack2 cs) (\<lambda>(b, h).
       seqr [prefix_row probs p b h, bindr (full_box v_pool 3) (tile_region v_pool)])"

definition lower_attention_values_paged :: "Operator \<Rightarrow> OperatorGraph \<Rightarrow> TaskFamily result" where
  "lower_attention_values_paged op g =
     bindr (in_tensor op g 0) (\<lambda>probs.
     bindr (in_tensor op g 1) (\<lambda>v_pool.
     bindr (in_tensor op g 2) (\<lambda>slot_table.
     bindr (out_tensor op g 0) (\<lambda>y.
     bindr (dim probs 0) (\<lambda>B.
     bindr (dim probs 1) (\<lambda>Hq.
     bindr (dim v_pool 2) (\<lambda>D.
     bindr (head_group (op_attributes op) Hq) (\<lambda>(kvh, gr).
     let p = attr_get (op_attributes op) ''position'' (VStr ''p'') in
       Inr (mk_family ''_attn_values_paged'' ''attention_values_paged'' op (head_domain B Hq)
              [tv_name probs, tv_name v_pool, tv_name slot_table] [tv_name y]
              (pos_params (op_attributes op) p @ [(''kv_heads'', kvh), (''group'', VInt gr)])
              (D * 4) (value_paged_reads probs v_pool p) (head_writes y D))))))))))"

end
