(* ===== verification/Lowerings_Recurrent.thy ===== *)
theory Lowerings_Recurrent
  imports Lowerings_Common
begin

text \<open>
  The recurrent lowerings of \<^verbatim>\<open>compiler/lowerings/recurrent.py\<close>: the gated delta rule and its
  convolution, the two KDA forms, the hyper-connection mixing and the compressor append.  Apart from
  the last, the tasks that share a state pool own one tile of it each and update it in place.
\<close>

section \<open>Gated delta network\<close>

definition gdn_conv_cols :: "int \<Rightarrow> int \<Rightarrow> int list \<Rightarrow> (int \<times> int \<times> int) result" where
  "gdn_conv_cols tile C cs =
     bindr (unpack2 cs) (\<lambda>(b, c). Inr (b, c * tile, min ((c + 1) * tile) C))"

definition gdn_conv_reads ::
  "TensorValue \<Rightarrow> TensorValue \<Rightarrow> TensorValue \<Rightarrow> int \<Rightarrow> int \<Rightarrow> int \<Rightarrow> region_fn" where
  "gdn_conv_reads state x w tile Km1 C cs =
     bindr (gdn_conv_cols tile C cs) (\<lambda>(b, c0, c1).
       seqr [tile_region state [(b, b + 1), (0, Km1), (c0, c1)],
             tile_region x [(b, b + 1), (c0, c1)],
             tile_region w [(c0, c1), (0, Km1 + 1)]])"

definition gdn_conv_writes :: "TensorValue \<Rightarrow> TensorValue \<Rightarrow> int \<Rightarrow> int \<Rightarrow> int \<Rightarrow> region_fn" where
  "gdn_conv_writes state out tile Km1 C cs =
     bindr (gdn_conv_cols tile C cs) (\<lambda>(b, c0, c1).
       seqr [tile_region state [(b, b + 1), (0, Km1), (c0, c1)],
             tile_region out [(b, b + 1), (c0, c1)]])"

definition lower_gdn_conv :: "Operator \<Rightarrow> OperatorGraph \<Rightarrow> TaskFamily result" where
  "lower_gdn_conv op g =
     bindr (in_tensor op g 0) (\<lambda>state.
     bindr (in_tensor op g 1) (\<lambda>x.
     bindr (in_tensor op g 2) (\<lambda>w.
     bindr (out_tensor op g 0) (\<lambda>out.
     bindr (unpack3 (tv_shape state)) (\<lambda>(B, Km1, C).
     let K = Km1 + 1 in
     if tv_shape w \<noteq> [C, K] then Inl ValueError
     else
     let tile = gdn_tile C in
       Inr (mk_family ''_gdn_conv'' ''gdn_conv'' op (mk_domain [(B, 1), (C, tile)])
              [tv_name state, tv_name x, tv_name w] [tv_name out]
              [(''layer'', attr_get (op_attributes op) ''layer'' (VInt 0)),
               (''conv_kernel'', VInt K), (''tile'', VInt tile)]
              (tile * 4)
              (gdn_conv_reads state x w tile Km1 C) (gdn_conv_writes state out tile Km1 C)))))))"

text \<open>The key head of value head \<open>h\<close>: \<^verbatim>\<open>h // (NV // NK)\<close>.\<close>

definition key_head :: "int \<Rightarrow> int \<Rightarrow> int \<Rightarrow> int result" where
  "key_head NV NK h = bindr (py_floordiv NV NK) (py_floordiv h)"

definition gdn_delta_reads ::
  "TensorValue \<Rightarrow> TensorValue \<Rightarrow> TensorValue \<Rightarrow> TensorValue \<Rightarrow> TensorValue \<Rightarrow> TensorValue
    \<Rightarrow> TensorValue \<Rightarrow> TensorValue \<Rightarrow> TensorValue \<Rightarrow> TensorValue
    \<Rightarrow> int \<Rightarrow> int \<Rightarrow> int \<Rightarrow> int \<Rightarrow> region_fn" where
  "gdn_delta_reads state q k v z a b a_log dt_bias norm_w NV NK HV HK cs =
     bindr (unpack2 cs) (\<lambda>(bb, h).
     bindr (key_head NV NK h) (\<lambda>kh.
       seqr [tile_region state [(bb, bb + 1), (h, h + 1), (0, HV), (0, HK)],
             tile_region q [(bb, bb + 1), (kh, kh + 1), (0, HK)],
             tile_region k [(bb, bb + 1), (kh, kh + 1), (0, HK)],
             tile_region v [(bb, bb + 1), (h, h + 1), (0, HV)],
             tile_region z [(bb, bb + 1), (h, h + 1), (0, HV)],
             tile_region a [(bb, bb + 1), (h, h + 1)],
             tile_region b [(bb, bb + 1), (h, h + 1)],
             Inr (region_whole a_log), Inr (region_whole dt_bias), Inr (region_whole norm_w)]))"

text \<open>
  The writes of the delta-rule lowerings: the head's state slice, updated in place, and its output
  row.
\<close>

definition delta_writes :: "TensorValue \<Rightarrow> TensorValue \<Rightarrow> int \<Rightarrow> int \<Rightarrow> int \<Rightarrow> region_fn" where
  "delta_writes state out r c rw cs =
     bindr (unpack2 cs) (\<lambda>(bb, h).
       seqr [tile_region state [(bb, bb + 1), (h, h + 1), (0, r), (0, c)],
             tile_region out [(bb, bb + 1), (h, h + 1), (0, rw)]])"

definition lower_gdn_delta :: "Operator \<Rightarrow> OperatorGraph \<Rightarrow> TaskFamily result" where
  "lower_gdn_delta op g =
     bindr (in_tensor op g 0) (\<lambda>state.
     bindr (in_tensor op g 1) (\<lambda>q.
     bindr (in_tensor op g 2) (\<lambda>k.
     bindr (in_tensor op g 3) (\<lambda>v.
     bindr (in_tensor op g 4) (\<lambda>z.
     bindr (in_tensor op g 5) (\<lambda>a.
     bindr (in_tensor op g 6) (\<lambda>b.
     bindr (in_tensor op g 7) (\<lambda>a_log.
     bindr (in_tensor op g 8) (\<lambda>dt_bias.
     bindr (in_tensor op g 9) (\<lambda>norm_w.
     bindr (out_tensor op g 0) (\<lambda>out.
     bindr (unpack4 (tv_shape state)) (\<lambda>(B, NV, HV, HK).
     bindr (dim q 1) (\<lambda>NK.
     bindr (py_mod NV NK) (\<lambda>md.
     if md \<noteq> 0 then Inl ValueError
     else
       Inr (mk_family ''_gdn_delta'' ''gdn_delta'' op (mk_domain [(B, 1), (NV, 1)])
              [tv_name state, tv_name q, tv_name k, tv_name v, tv_name z, tv_name a, tv_name b,
               tv_name a_log, tv_name dt_bias, tv_name norm_w] [tv_name out]
              [(''layer'', attr_get (op_attributes op) ''layer'' (VInt 0)),
               (''scale'', attr_get (op_attributes op) ''scale'' (VFloat (FLit 1 0))),
               (''eps'', attr_get (op_attributes op) ''eps'' (VFloat (FLit 1 (-6))))]
              (HV * HK * 4)
              (gdn_delta_reads state q k v z a b a_log dt_bias norm_w NV NK HV HK)
              (delta_writes state out HV HK HV))))))))))))))))"

section \<open>KDA\<close>

definition kda_delta_reads ::
  "TensorValue \<Rightarrow> TensorValue \<Rightarrow> TensorValue \<Rightarrow> TensorValue \<Rightarrow> TensorValue \<Rightarrow> TensorValue
    \<Rightarrow> TensorValue \<Rightarrow> TensorValue \<Rightarrow> int \<Rightarrow> int \<Rightarrow> region_fn" where
  "kda_delta_reads state q k v f b dt_bias A_log K V cs =
     bindr (unpack2 cs) (\<lambda>(bb, h).
       seqr [tile_region state [(bb, bb + 1), (h, h + 1), (0, K), (0, V)],
             tile_region q [(bb, bb + 1), (h, h + 1), (0, K)],
             tile_region k [(bb, bb + 1), (h, h + 1), (0, K)],
             tile_region v [(bb, bb + 1), (h, h + 1), (0, V)],
             tile_region f [(bb, bb + 1), (h, h + 1), (0, K)],
             tile_region b [(bb, bb + 1), (h, h + 1)],
             Inr (region_whole dt_bias), Inr (region_whole A_log)])"

definition lower_kda_delta :: "Operator \<Rightarrow> OperatorGraph \<Rightarrow> TaskFamily result" where
  "lower_kda_delta op g =
     bindr (in_tensor op g 0) (\<lambda>state.
     bindr (in_tensor op g 1) (\<lambda>q.
     bindr (in_tensor op g 2) (\<lambda>k.
     bindr (in_tensor op g 3) (\<lambda>v.
     bindr (in_tensor op g 4) (\<lambda>f.
     bindr (in_tensor op g 5) (\<lambda>b.
     bindr (in_tensor op g 6) (\<lambda>dt_bias.
     bindr (in_tensor op g 7) (\<lambda>A_log.
     bindr (out_tensor op g 0) (\<lambda>out.
     bindr (unpack4 (tv_shape state)) (\<lambda>(B, H, K, V).
       Inr (mk_family ''_kda_delta'' ''kda_delta'' op (mk_domain [(B, 1), (H, 1)])
              [tv_name state, tv_name q, tv_name k, tv_name v, tv_name f, tv_name b,
               tv_name dt_bias, tv_name A_log] [tv_name out]
              [(''layer'', attr_get (op_attributes op) ''layer'' (VInt 0)),
               (''scale'', attr_get (op_attributes op) ''scale'' (VFloat (FLit 1 0))),
               (''lower_bound'', attr_get (op_attributes op) ''lower_bound'' VNone)]
              (K * V * 4)
              (kda_delta_reads state q k v f b dt_bias A_log K V)
              (delta_writes state out K V V))))))))))))"

definition kda_fused_reads ::
  "TensorValue \<Rightarrow> TensorValue \<Rightarrow> TensorValue \<Rightarrow> TensorValue \<Rightarrow> TensorValue \<Rightarrow> TensorValue
    \<Rightarrow> TensorValue \<Rightarrow> TensorValue \<Rightarrow> TensorValue \<Rightarrow> TensorValue \<Rightarrow> TensorValue
    \<Rightarrow> int \<Rightarrow> int \<Rightarrow> int \<Rightarrow> region_fn" where
  "kda_fused_reads conv ssm slot_ids qkv_raw f_raw b_raw g_raw taps dt_bias A_log o_norm seg K V cs =
     bindr (unpack2 cs) (\<lambda>(bb, h).
       seqr [region_indirect conv slot_ids 0 None,
             region_indirect ssm slot_ids 0 None,
             tile_region slot_ids [(bb, bb + 1)],
             tile_region qkv_raw [(bb, bb + 1), (h * K, (h + 1) * K)],
             tile_region qkv_raw [(bb, bb + 1), (seg + h * K, seg + (h + 1) * K)],
             tile_region qkv_raw [(bb, bb + 1), (2 * seg + h * K, 2 * seg + (h + 1) * K)],
             tile_region f_raw [(bb, bb + 1), (h, h + 1), (0, K)],
             tile_region b_raw [(bb, bb + 1), (h, h + 1)],
             tile_region g_raw [(bb, bb + 1), (h, h + 1), (0, V)],
             Inr (region_whole taps), Inr (region_whole dt_bias), Inr (region_whole A_log),
             Inr (region_whole o_norm)])"

definition kda_fused_writes ::
  "TensorValue \<Rightarrow> TensorValue \<Rightarrow> TensorValue \<Rightarrow> TensorValue \<Rightarrow> int \<Rightarrow> region_fn" where
  "kda_fused_writes conv ssm slot_ids out V cs =
     bindr (unpack2 cs) (\<lambda>(bb, h).
       seqr [region_indirect conv slot_ids 0 None,
             region_indirect ssm slot_ids 0 None,
             tile_region out [(bb, bb + 1), (h, h + 1), (0, V)]])"

definition lower_kda_fused_decode :: "Operator \<Rightarrow> OperatorGraph \<Rightarrow> TaskFamily result" where
  "lower_kda_fused_decode op g =
     bindr (in_tensor op g 0) (\<lambda>conv.
     bindr (in_tensor op g 1) (\<lambda>ssm.
     bindr (in_tensor op g 2) (\<lambda>slot_ids.
     bindr (in_tensor op g 3) (\<lambda>qkv_raw.
     bindr (in_tensor op g 4) (\<lambda>f_raw.
     bindr (in_tensor op g 5) (\<lambda>b_raw.
     bindr (in_tensor op g 6) (\<lambda>g_raw.
     bindr (in_tensor op g 7) (\<lambda>taps.
     bindr (in_tensor op g 8) (\<lambda>dt_bias.
     bindr (in_tensor op g 9) (\<lambda>A_log.
     bindr (in_tensor op g 10) (\<lambda>o_norm.
     bindr (out_tensor op g 0) (\<lambda>out.
     bindr (dim conv 1) (\<lambda>Kw.
     bindr (dim conv 2) (\<lambda>Cc.
     bindr (unpack3 (drop 1 (tv_shape ssm))) (\<lambda>(H, V, K).
     bindr (dim out 0) (\<lambda>B.
     let seg = Cc div 3 in
       Inr (mk_family ''_kda_fused'' ''kda_fused_decode'' op (mk_domain [(B, 1), (H, 1)])
              [tv_name conv, tv_name ssm, tv_name slot_ids, tv_name qkv_raw, tv_name f_raw,
               tv_name b_raw, tv_name g_raw, tv_name taps, tv_name dt_bias, tv_name A_log,
               tv_name o_norm] [tv_name out]
              [(''layer'', attr_get (op_attributes op) ''layer'' (VInt 0)),
               (''scale'', attr_get (op_attributes op) ''scale'' (VFloat (FLit 1 0))),
               (''eps'', attr_get (op_attributes op) ''eps'' (VFloat (FLit 1 (-6)))),
               (''lower_bound'', attr_get (op_attributes op) ''lower_bound'' VNone),
               (''head_dim'', VInt K), (''conv_taps'', VInt (Kw + 1)), (''conv_dim'', VInt Cc)]
              (V * K * 4 + 3 * K * 4)
              (kda_fused_reads conv ssm slot_ids qkv_raw f_raw b_raw g_raw taps dt_bias A_log o_norm
                 seg K V)
              (kda_fused_writes conv ssm slot_ids out V))))))))))))))))))"

section \<open>Hyper-connections\<close>

definition mhc_pre_reads ::
  "TensorValue \<Rightarrow> TensorValue \<Rightarrow> TensorValue \<Rightarrow> TensorValue \<Rightarrow> int \<Rightarrow> int \<Rightarrow> region_fn" where
  "mhc_pre_reads streams fnw base scale hc C cs =
     bindr (unpack1 cs) (\<lambda>bb.
       seqr [tile_region streams [(bb, bb + 1), (0, hc), (0, C)],
             Inr (region_whole fnw), Inr (region_whole base), Inr (region_whole scale)])"

definition mhc_pre_writes ::
  "TensorValue \<Rightarrow> TensorValue \<Rightarrow> TensorValue \<Rightarrow> int \<Rightarrow> int \<Rightarrow> region_fn" where
  "mhc_pre_writes h_in post_w comb hc C cs =
     bindr (unpack1 cs) (\<lambda>bb.
       seqr [tile_region h_in [(bb, bb + 1), (0, C)],
             tile_region post_w [(bb, bb + 1), (0, hc)],
             tile_region comb [(bb, bb + 1), (0, hc), (0, hc)]])"

definition lower_mhc_pre :: "Operator \<Rightarrow> OperatorGraph \<Rightarrow> TaskFamily result" where
  "lower_mhc_pre op g =
     bindr (in_tensor op g 0) (\<lambda>streams.
     bindr (in_tensor op g 1) (\<lambda>fnw.
     bindr (in_tensor op g 2) (\<lambda>base.
     bindr (in_tensor op g 3) (\<lambda>scale.
     bindr (out_tensor op g 0) (\<lambda>h_in.
     bindr (out_tensor op g 1) (\<lambda>post_w.
     bindr (out_tensor op g 2) (\<lambda>comb.
     bindr (unpack3 (tv_shape streams)) (\<lambda>(B, hc, C).
     let mix = (2 + hc) * hc in
     if tv_shape fnw \<noteq> [mix, hc * C] then Inl ValueError
     else
     bindr (py_float (attr_get (op_attributes op) ''eps'' (VFloat (FLit 1 (-6))))) (\<lambda>eps.
     bindr (py_float (attr_get (op_attributes op) ''rms_eps'' (VFloat (FLit 1 (-6))))) (\<lambda>rms_eps.
       Inr (mk_family ''_mhc_pre'' ''mhc_pre'' op (mk_domain [(B, 1)])
              [tv_name streams, tv_name fnw, tv_name base, tv_name scale]
              [tv_name h_in, tv_name post_w, tv_name comb]
              [(''layer'', attr_get (op_attributes op) ''layer'' (VInt 0)), (''hc'', VInt hc),
               (''iters'', attr_get (op_attributes op) ''iters'' (VInt 1)),
               (''eps'', eps), (''rms_eps'', rms_eps)]
              (hc * C * 4)
              (mhc_pre_reads streams fnw base scale hc C)
              (mhc_pre_writes h_in post_w comb hc C))))))))))))"

definition mhc_post_reads ::
  "TensorValue \<Rightarrow> TensorValue \<Rightarrow> TensorValue \<Rightarrow> TensorValue \<Rightarrow> int \<Rightarrow> int \<Rightarrow> region_fn" where
  "mhc_post_reads streams body_out post_w comb hc C cs =
     bindr (unpack2 cs) (\<lambda>(bb, j).
       seqr [tile_region streams [(bb, bb + 1), (0, hc), (0, C)],
             tile_region body_out [(bb, bb + 1), (0, C)],
             tile_region post_w [(bb, bb + 1), (j, j + 1)],
             tile_region comb [(bb, bb + 1), (0, hc), (j, j + 1)]])"

definition mhc_post_writes :: "TensorValue \<Rightarrow> int \<Rightarrow> region_fn" where
  "mhc_post_writes streams_post C cs =
     bindr (unpack2 cs) (\<lambda>(bb, j).
       seqr [tile_region streams_post [(bb, bb + 1), (j, j + 1), (0, C)]])"

definition lower_mhc_post :: "Operator \<Rightarrow> OperatorGraph \<Rightarrow> TaskFamily result" where
  "lower_mhc_post op g =
     bindr (in_tensor op g 0) (\<lambda>streams.
     bindr (in_tensor op g 1) (\<lambda>body_out.
     bindr (in_tensor op g 2) (\<lambda>post_w.
     bindr (in_tensor op g 3) (\<lambda>comb.
     bindr (out_tensor op g 0) (\<lambda>streams_post.
     bindr (unpack3 (tv_shape streams)) (\<lambda>(B, hc, C).
       Inr (mk_family ''_mhc_post'' ''mhc_post'' op (mk_domain [(B, 1), (hc, 1)])
              [tv_name streams, tv_name body_out, tv_name post_w, tv_name comb]
              [tv_name streams_post]
              [(''layer'', attr_get (op_attributes op) ''layer'' (VInt 0)), (''hc'', VInt hc)]
              (C * 4)
              (mhc_post_reads streams body_out post_w comb hc C)
              (mhc_post_writes streams_post C))))))))"

section \<open>Compressor append\<close>

text \<open>\<^verbatim>\<open>isinstance(v, int)\<close> and positive: the integer (booleans are integers), otherwise None.\<close>

definition pos_int :: "pyval \<Rightarrow> int option" where
  "pos_int v =
     (case as_int v of Inl _ \<Rightarrow> None | Inr n \<Rightarrow> if n \<le> 0 then None else Some n)"

definition compressor_reads ::
  "TensorValue \<Rightarrow> TensorValue \<Rightarrow> TensorValue \<Rightarrow> TensorValue \<Rightarrow> TensorValue \<Rightarrow> TensorValue
    \<Rightarrow> int \<Rightarrow> int \<Rightarrow> int \<Rightarrow> region_fn" where
  "compressor_reads window gates rms_w cosn sinn state m d layers cs =
     bindr (unpack2 cs) (\<lambda>(bi, _).
       seqr [tile_region window [(bi, bi + 1), (0, m), (0, d)],
             tile_region gates [(bi, bi + 1), (0, m)],
             tile_region rms_w [(0, d)],
             tile_region cosn [(bi, bi + 1), (0, d div 2)],
             tile_region sinn [(bi, bi + 1), (0, d div 2)],
             tile_region state [(bi, bi + 1), (0, layers), (0, 2)]])"

definition compressor_writes ::
  "TensorValue \<Rightarrow> TensorValue \<Rightarrow> int \<Rightarrow> int \<Rightarrow> int \<Rightarrow> int \<Rightarrow> region_fn" where
  "compressor_writes pool state layers r m d cs =
     bindr (unpack2 cs) (\<lambda>(bi, _).
       seqr [tile_region pool [(bi, bi + 1), (0, layers), (0, 2), (0, r div m), (0, d)],
             tile_region state [(bi, bi + 1), (0, layers), (0, 2)]])"

definition lower_compressor_append :: "Operator \<Rightarrow> OperatorGraph \<Rightarrow> TaskFamily result" where
  "lower_compressor_append op g =
     bindr (in_tensor op g 0) (\<lambda>pool.
     bindr (in_tensor op g 1) (\<lambda>state.
     bindr (in_tensor op g 2) (\<lambda>window.
     bindr (in_tensor op g 3) (\<lambda>gates.
     bindr (in_tensor op g 4) (\<lambda>rms_w.
     bindr (in_tensor op g 5) (\<lambda>cosn.
     bindr (in_tensor op g 6) (\<lambda>sinn.
     bindr (unpack3 (tv_shape window)) (\<lambda>(b, mw, d).
     let mv = attr_get (op_attributes op) ''m'' VNone;
         rv = attr_get (op_attributes op) ''r'' VNone in
     (case pos_int mv of None \<Rightarrow> Inl ValueError | Some m \<Rightarrow>
     (case pos_int rv of None \<Rightarrow> Inl ValueError | Some r \<Rightarrow>
     if r mod m \<noteq> 0 then Inl ValueError
     else if mw \<noteq> m then Inl ValueError
     else
     bindr (unpack5 (tv_shape pool)) (\<lambda>(_, layers, _, _, _).
       Inr (mk_family ''_compressor_append'' ''compressor_append'' op
              (mk_domain [(b, 1), (layers, 1)])
              [tv_name pool, tv_name state, tv_name window, tv_name gates, tv_name rms_w,
               tv_name cosn, tv_name sinn] []
              [(''m'', mv), (''r'', rv),
               (''eps'', attr_get (op_attributes op) ''eps'' (VFloat (FLit 1 (-6)))),
               (''position'', attr_get (op_attributes op) ''position'' (VStr ''p'')),
               (''position_form'', attr_get (op_attributes op) ''position_form'' (VStr ''scalar''))]
              0
              (compressor_reads window gates rms_w cosn sinn state m d layers)
              (compressor_writes pool state layers r m d)))))))))))))"

end
