(* ===== verification/Contracts.thy ===== *)
theory Contracts
  imports Operator_Graph
begin

text \<open>
  The operator contracts of \<^verbatim>\<open>compiler/contracts.py\<close> and the legality check of
  \<^verbatim>\<open>compiler/legality.py\<close> over a recorded graph.  The theorem says which graphs strict mode accepts.
\<close>

section \<open>Contracts\<close>

datatype attr_type = TStr | TBool

record OperatorContract =
  oc_kind :: string
  oc_lowering :: string
  oc_task_kind :: string
  oc_device_template :: string
  oc_attribute_types :: "(string, attr_type) dict"

definition mk_contract ::
  "string \<Rightarrow> string \<Rightarrow> string \<Rightarrow> string \<Rightarrow> (string, attr_type) dict \<Rightarrow> string \<times> OperatorContract" where
  "mk_contract k l t d at =
     (k, \<lparr>oc_kind = k, oc_lowering = l, oc_task_kind = t, oc_device_template = d,
          oc_attribute_types = at\<rparr>)"

definition reference_body :: "OperatorContract \<Rightarrow> string" where
  "reference_body c = ''_body_'' @ oc_task_kind c"

fun has_type :: "pyval \<Rightarrow> attr_type \<Rightarrow> bool" where
  "has_type (VStr _) TStr = True"
| "has_type (VBool _) TBool = True"
| "has_type _ _ = False"

definition validate_attributes :: "OperatorContract \<Rightarrow> attrs \<Rightarrow> unit result" where
  "validate_attributes c at =
     bindr (mapr (\<lambda>(name, expected).
        case map_of at name of
          Some v \<Rightarrow> if \<not> has_type v expected then Inl TypeError else Inr ()
        | None \<Rightarrow> Inr ()) (oc_attribute_types c)) (\<lambda>_. Inr ())"

definition CONTRACTS :: "(string, OperatorContract) dict" where
  "CONTRACTS =
    [mk_contract ''linear'' ''lower_linear'' ''gemm'' ''linear_task'' [],
     mk_contract ''linear_fp8'' ''lower_linear_fp8'' ''gemv_fp8'' ''linear_fp8_task'' [],
     mk_contract ''indexer_scores'' ''lower_indexer_scores'' ''indexer_scores'' ''indexer_scores_task'' [],
     mk_contract ''index_topk'' ''lower_index_topk'' ''index_topk'' ''index_topk_task'' [],
     mk_contract ''layer_norm'' ''lower_layer_norm'' ''layernorm'' ''layernorm_task'' [],
     mk_contract ''rms_norm'' ''lower_rms_norm'' ''rms_norm'' ''rms_norm_task'' [],
     mk_contract ''rms_norm_gated'' ''lower_rms_norm_gated'' ''rms_norm_gated'' ''rms_norm_gated_task'' [(''activation'', TStr)],
     mk_contract ''rope'' ''lower_rope'' ''rope'' ''rope_task'' [(''which'', TStr), (''position'', TStr), (''position_form'', TStr), (''convention'', TStr)],
     mk_contract ''gelu'' ''lower_gelu'' ''elementwise'' ''elementwise_task'' [],
     mk_contract ''swiglu'' ''lower_swiglu'' ''elementwise'' ''elementwise_task'' [],
     mk_contract ''add'' ''lower_add'' ''elementwise'' ''elementwise_task'' [],
     mk_contract ''embedding'' ''lower_embedding'' ''embedding'' ''embedding_task'' [(''position'', TStr), (''position_form'', TStr)],
     mk_contract ''cache_append'' ''lower_cache_append'' ''cache_append'' ''cache_append_task'' [(''position'', TStr), (''position_form'', TStr)],
     mk_contract ''gdn_conv'' ''lower_gdn_conv'' ''gdn_conv'' ''gdn_conv_task'' [],
     mk_contract ''gdn_delta'' ''lower_gdn_delta'' ''gdn_delta'' ''gdn_delta_task'' [],
     mk_contract ''kda_delta'' ''lower_kda_delta'' ''kda_delta'' ''task_kda_delta'' [],
     mk_contract ''kda_fused_decode'' ''lower_kda_fused_decode'' ''kda_fused_decode'' ''task_kda_fused'' [],
     mk_contract ''cache_append_paged'' ''lower_cache_append_paged'' ''cache_append_paged'' ''cache_append_paged_task'' [(''position'', TStr), (''position_form'', TStr)],
     mk_contract ''mhc_pre'' ''lower_mhc_pre'' ''mhc_pre'' ''mhc_pre_task'' [],
     mk_contract ''mhc_post'' ''lower_mhc_post'' ''mhc_post'' ''mhc_post_task'' [],
     mk_contract ''attention_scores'' ''lower_attention_scores'' ''attention_scores'' ''attention_scores_task'' [(''position'', TStr), (''position_form'', TStr)],
     mk_contract ''attention_scores_paged'' ''lower_attention_scores_paged'' ''attention_scores_paged'' ''attention_scores_paged_task'' [(''position'', TStr), (''position_form'', TStr)],
     mk_contract ''mla_scores'' ''lower_mla_scores'' ''mla_scores'' ''mla_scores_task'' [(''position_form'', TStr)],
     mk_contract ''mla_values'' ''lower_mla_values'' ''mla_values'' ''mla_values_task'' [(''position_form'', TStr)],
     mk_contract ''conjugate_rope'' ''lower_conjugate_rope'' ''conjugate_rope'' ''conjugate_rope_task'' [(''position_form'', TStr)],
     mk_contract ''softmax'' ''lower_softmax'' ''softmax'' ''softmax_task'' [(''position'', TStr), (''position_form'', TStr)],
     mk_contract ''attention_values'' ''lower_attention_values'' ''attention_values'' ''attention_values_task'' [(''gated'', TBool), (''position'', TStr), (''position_form'', TStr)],
     mk_contract ''attention_values_paged'' ''lower_attention_values_paged'' ''attention_values_paged'' ''attention_values_paged_task'' [(''position'', TStr), (''position_form'', TStr)],
     mk_contract ''moe_route'' ''lower_moe_route'' ''moe_route'' ''moe_route_task'' [],
     mk_contract ''moe_expert'' ''lower_moe_expert'' ''moe_expert'' ''moe_expert_task'' [],
     mk_contract ''moe_combine'' ''lower_moe_combine'' ''moe_combine'' ''moe_combine_task'' [],
     mk_contract ''compressor_append'' ''lower_compressor_append'' ''compressor_append'' ''compressor_append_task'' [(''position'', TStr), (''position_form'', TStr)]]"

definition ARITHMETIC_OP_KINDS :: "string list" where
  "ARITHMETIC_OP_KINDS = map fst CONTRACTS"

section \<open>Legality\<close>

definition POSITION_CONSUMERS :: "string set" where
  "POSITION_CONSUMERS =
     {''embedding'', ''cache_append'', ''compressor_append'', ''attention_scores'', ''softmax'',
      ''attention_values'', ''rope'', ''cache_append_paged'', ''attention_scores_paged'',
      ''attention_values_paged'', ''mla_scores'', ''mla_values'', ''conjugate_rope''}"

text \<open>A diagnostic without its message text.\<close>

record Diagnostic =
  dg_severity :: string
  dg_code :: string
  dg_location :: string

definition error_diag :: "string \<Rightarrow> string \<Rightarrow> Diagnostic" where
  "error_diag code loc = \<lparr>dg_severity = ''error'', dg_code = code, dg_location = loc\<rparr>"

definition kind_diags :: "Operator \<Rightarrow> Diagnostic list" where
  "kind_diags op =
     (if op_kind op \<notin> set ARITHMETIC_OP_KINDS
      then [error_diag ''unsupported-operator'' (op_source_location op)] else [])"

definition tensor_diags :: "OperatorGraph \<Rightarrow> string \<times> TensorValue \<Rightarrow> Diagnostic list" where
  "tensor_diags g e = (case e of (name, tv) \<Rightarrow>
     (if \<not> list_all (\<lambda>d. d > 0) (tv_shape tv) then [error_diag ''non-static-shape'' name] else []) @
     (if \<not> dict_has (g_storage_sizes g) (tv_storage_id tv)
      then [error_diag ''unregistered-storage'' name] else []))"

text \<open>The attribute values that are strings naming a runtime scalar or a row-position tensor.\<close>

definition consumed_names :: "attrs \<Rightarrow> (string \<Rightarrow> bool) \<Rightarrow> string list" where
  "consumed_names at known =
     concat (map (\<lambda>(_, v). case v of VStr s \<Rightarrow> if known s then [s] else [] | _ \<Rightarrow> []) at)"

definition position_diags :: "OperatorGraph \<Rightarrow> Operator \<Rightarrow> Diagnostic list" where
  "position_diags g op =
     (if consumed_names (op_attributes op) (dict_has (g_scalars g)) \<noteq> []
         \<and> op_kind op \<notin> POSITION_CONSUMERS
      then [error_diag ''symbolic-scalar-consumer'' (op_source_location op)] else []) @
     (if consumed_names (op_attributes op) (\<lambda>s. s \<in> g_row_position_tensors g) \<noteq> []
         \<and> op_kind op \<notin> POSITION_CONSUMERS
      then [error_diag ''row-position-consumer'' (op_source_location op)] else [])"

definition effect_diags :: "Operator \<Rightarrow> Diagnostic list" where
  "effect_diags op =
     (if op_outputs op = [] \<and> op_write_regions op = []
      then [error_diag ''effect-free-op'' (op_source_location op)] else [])"

definition check_graph :: "OperatorGraph \<Rightarrow> Diagnostic list" where
  "check_graph g =
     concat (map kind_diags (g_ops g)) @
     concat (map (tensor_diags g) (g_tensors g)) @
     concat (map (position_diags g) (g_ops g)) @
     concat (map effect_diags (g_ops g)) @
     [\<lparr>dg_severity = ''note'', dg_code = ''numerical-contract'', dg_location = []\<rparr>]"

definition enforce :: "OperatorGraph \<Rightarrow> unit result" where
  "enforce g =
     (if filter (\<lambda>d. dg_severity d = ''error'') (check_graph g) \<noteq> [] then Inl LegalityError
      else Inr ())"

section \<open>What the checks accept\<close>

definition consumes :: "attrs \<Rightarrow> string \<Rightarrow> bool" where
  "consumes at s = (VStr s \<in> snd ` set at)"

lemma consumed_names_iff: "s \<in> set (consumed_names at known) \<longleftrightarrow> consumes at s \<and> known s"
  by (force simp: consumed_names_def consumes_def split: pyval.splits if_splits)

lemma consumed_names_Nil: "consumed_names at known = [] \<longleftrightarrow> (\<forall>s. consumes at s \<longrightarrow> \<not> known s)"
  using consumed_names_iff [of _ at known] by (metis list.set(1) empty_iff list.set_intros(1) neq_Nil_conv)

definition op_legal :: "OperatorGraph \<Rightarrow> Operator \<Rightarrow> bool" where
  "op_legal g op =
     (op_kind op \<in> set ARITHMETIC_OP_KINDS
      \<and> (op_kind op \<notin> POSITION_CONSUMERS \<longrightarrow>
           (\<forall>s. consumes (op_attributes op) s \<longrightarrow>
                \<not> dict_has (g_scalars g) s \<and> s \<notin> g_row_position_tensors g))
      \<and> (op_outputs op \<noteq> [] \<or> op_write_regions op \<noteq> []))"

definition tensor_legal :: "OperatorGraph \<Rightarrow> TensorValue \<Rightarrow> bool" where
  "tensor_legal g tv =
     ((\<forall>d \<in> set (tv_shape tv). 0 < d) \<and> tv_storage_id tv \<in> dom (map_of (g_storage_sizes g)))"

lemma error_free_append:
  "filter (\<lambda>d. dg_severity d = ''error'') (xs @ ys) = [] \<longleftrightarrow>
   filter (\<lambda>d. dg_severity d = ''error'') xs = [] \<and> filter (\<lambda>d. dg_severity d = ''error'') ys = []"
  by simp

lemma error_free_concat:
  "filter (\<lambda>d. dg_severity d = ''error'') (concat (map f xs)) = [] \<longleftrightarrow>
   (\<forall>x \<in> set xs. filter (\<lambda>d. dg_severity d = ''error'') (f x) = [])"
  by (induction xs) auto

lemma enforce_value:
  "enforce g =
     (if (\<forall>op \<in> set (g_ops g). op_legal g op)
         \<and> (\<forall>e \<in> set (g_tensors g). tensor_legal g (snd e))
      then Inr () else Inl LegalityError)"
proof -
  have k: "filter (\<lambda>d. dg_severity d = ''error'') (kind_diags op) = [] \<longleftrightarrow> op_kind op \<in> set ARITHMETIC_OP_KINDS" for op
    by (simp add: kind_diags_def error_diag_def)
  have e: "filter (\<lambda>d. dg_severity d = ''error'') (effect_diags op) = [] \<longleftrightarrow>
      op_outputs op \<noteq> [] \<or> op_write_regions op \<noteq> []" for op
    by (simp add: effect_diags_def error_diag_def)
  have t: "filter (\<lambda>d. dg_severity d = ''error'') (tensor_diags g x) = [] \<longleftrightarrow> tensor_legal g (snd x)" for x
    by (cases x) (auto simp: tensor_diags_def tensor_legal_def error_diag_def dict_has_def list_all_iff)
  have p: "filter (\<lambda>d. dg_severity d = ''error'') (position_diags g op) = [] \<longleftrightarrow>
      (op_kind op \<notin> POSITION_CONSUMERS \<longrightarrow>
           (\<forall>s. consumes (op_attributes op) s \<longrightarrow>
                \<not> dict_has (g_scalars g) s \<and> s \<notin> g_row_position_tensors g))" for op
    by (auto simp: position_diags_def error_diag_def consumed_names_Nil)
  have "filter (\<lambda>d. dg_severity d = ''error'') (check_graph g) = [] \<longleftrightarrow>
      (\<forall>op \<in> set (g_ops g). op_legal g op) \<and> (\<forall>e \<in> set (g_tensors g). tensor_legal g (snd e))"
    unfolding check_graph_def error_free_append error_free_concat k e t p op_legal_def by auto
  then show ?thesis by (simp add: enforce_def)
qed

text \<open>
  Strict mode accepts exactly the supported subset.  \<^verbatim>\<open>enforce\<close> returns normally when every
  operator has a kind with a registered contract, has an output or a write effect, and reads a
  runtime scalar or per-row position tensor only if it is a position consumer, and every tensor has
  positive dimensions and a registered storage; otherwise it raises \<^verbatim>\<open>LegalityError\<close>.
\<close>

theorem enforce_iff:
  "enforce g =
     (if (\<forall>op \<in> set (g_ops g). op_legal g op)
         \<and> (\<forall>e \<in> set (g_tensors g). tensor_legal g (snd e))
      then Inr () else Inl LegalityError)"
  by (rule enforce_value)

theorem enforce_iff_witness:
  "enforce (empty_graph\<lparr>g_tensors := [(''x'', demo_tv [2, 0] [1, 1] 0)]\<rparr>) = Inl LegalityError"
  unfolding enforce_iff by (simp add: tensor_legal_def demo_tv_def)

end
