(* ===== verification/Lowerings.thy ===== *)
theory Lowerings
  imports Lowerings_Dense Lowerings_Attention Lowerings_Recurrent Contracts
begin

text \<open>
  The dispatch of \<^verbatim>\<open>compiler/lowerings/__init__.py\<close>: the lowering table built from the contract
  registry, the lowering of one operator and of a graph, and the common thread-count check.
\<close>

section \<open>The lowering table\<close>

type_synonym lowering = "Operator \<Rightarrow> OperatorGraph \<Rightarrow> TaskFamily result"

text \<open>The module's globals that the contracts name.\<close>

definition lowering_globals :: "(string, lowering) dict" where
  "lowering_globals =
    [(''lower_linear'', lower_linear), (''lower_linear_fp8'', lower_linear_fp8),
     (''lower_layer_norm'', lower_layer_norm), (''lower_rms_norm'', lower_rms_norm),
     (''lower_rms_norm_gated'', lower_rms_norm_gated), (''lower_rope'', lower_rope),
     (''lower_gelu'', lower_gelu), (''lower_swiglu'', lower_swiglu), (''lower_add'', lower_add),
     (''lower_embedding'', lower_embedding), (''lower_moe_route'', lower_moe_route),
     (''lower_moe_expert'', lower_moe_expert), (''lower_moe_combine'', lower_moe_combine),
     (''lower_indexer_scores'', lower_indexer_scores), (''lower_index_topk'', lower_index_topk),
     (''lower_cache_append'', lower_cache_append),
     (''lower_cache_append_paged'', lower_cache_append_paged),
     (''lower_attention_scores'', lower_attention_scores),
     (''lower_attention_scores_paged'', lower_attention_scores_paged),
     (''lower_mla_scores'', lower_mla_scores), (''lower_mla_values'', lower_mla_values),
     (''lower_conjugate_rope'', lower_conjugate_rope), (''lower_softmax'', lower_softmax),
     (''lower_attention_values'', lower_attention_values),
     (''lower_attention_values_paged'', lower_attention_values_paged),
     (''lower_gdn_conv'', lower_gdn_conv), (''lower_gdn_delta'', lower_gdn_delta),
     (''lower_kda_delta'', lower_kda_delta), (''lower_kda_fused_decode'', lower_kda_fused_decode),
     (''lower_mhc_pre'', lower_mhc_pre), (''lower_mhc_post'', lower_mhc_post),
     (''lower_compressor_append'', lower_compressor_append)]"

text \<open>\<^verbatim>\<open>LOWERINGS\<close>; a contract that names no global would raise when the module is loaded.\<close>

definition LOWERINGS :: "(string, lowering) dict result" where
  "LOWERINGS =
     mapr (\<lambda>(name, spec). bindr (dict_get lowering_globals (oc_lowering spec)) (\<lambda>f. Inr (name, f)))
       CONTRACTS"

definition lower_op :: "Operator \<Rightarrow> OperatorGraph \<Rightarrow> TaskFamily result" where
  "lower_op op g =
     bindr (case map_of CONTRACTS (op_kind op) of
              Some spec \<Rightarrow> validate_attributes spec (op_attributes op) | None \<Rightarrow> Inr ()) (\<lambda>_.
     bindr LOWERINGS (\<lambda>table.
       case map_of table (op_kind op) of
         None \<Rightarrow> Inl KeyError
       | Some factory \<Rightarrow> factory op g))"

definition lower_graph :: "OperatorGraph \<Rightarrow> TaskFamily list result" where
  "lower_graph g = mapr (\<lambda>op. lower_op op g) (g_ops g)"

text \<open>\<^verbatim>\<open>check_thread_contract\<close>: one message, given by the sorted thread counts, on disagreement.\<close>

definition check_thread_contract :: "TaskFamily list \<Rightarrow> int list list" where
  "check_thread_contract fams =
     (let threads = remdups (map fam_threads fams)
      in if length threads \<noteq> 1 then [sort threads] else [])"

section \<open>What a lowering stamps on its family\<close>

definition stamped :: "Operator \<Rightarrow> string \<Rightarrow> TaskFamily \<Rightarrow> bool" where
  "stamped op k f =
     (fam_op f = op \<and> fam_kind f = k \<and> fam_threads f = THREADS_PER_WORKER
      \<and> (\<exists>s. fam_id f = fam_name op (CHR ''_'' # s)))"

named_theorems stamps \<open>each lowering stamps its operator, task kind and thread count\<close>

lemma stamped_mk_family [simp]:
  "stamped op k (mk_family (CHR ''_'' # s) k op d ins outs ps sc rd wr)"
  unfolding stamped_def by auto

lemma case_error_Inr:
  "(case r of Inl _ \<Rightarrow> Inl e | Inr x \<Rightarrow> h x) = Inr y \<longleftrightarrow> (\<exists>x. r = Inr x \<and> h x = Inr y)"
  "(case u of None \<Rightarrow> Inl e | Some x \<Rightarrow> h x) = Inr y \<longleftrightarrow> (\<exists>x. u = Some x \<and> h x = Inr y)"
  by (auto split: sum.split option.split)

lemma lower_linear_stamp [stamps]: "lower_linear op g = Inr f \<Longrightarrow> stamped op ''gemm'' f"
  by (auto simp: lower_linear_def result_simps Let_def split: if_splits)

lemma lower_linear_fp8_stamp [stamps]: "lower_linear_fp8 op g = Inr f \<Longrightarrow> stamped op ''gemv_fp8'' f"
  by (auto simp: lower_linear_fp8_def result_simps Let_def split: if_splits)

lemma lower_indexer_scores_stamp [stamps]: "lower_indexer_scores op g = Inr f \<Longrightarrow> stamped op ''indexer_scores'' f"
  by (auto simp: lower_indexer_scores_def result_simps Let_def split: if_splits)

lemma lower_index_topk_stamp [stamps]: "lower_index_topk op g = Inr f \<Longrightarrow> stamped op ''index_topk'' f"
  by (auto simp: lower_index_topk_def result_simps Let_def case_error_Inr split: if_splits)

lemma lower_layer_norm_stamp [stamps]: "lower_layer_norm op g = Inr f \<Longrightarrow> stamped op ''layernorm'' f"
  by (auto simp: lower_layer_norm_def result_simps Let_def split: if_splits)

lemma lower_rms_norm_stamp [stamps]: "lower_rms_norm op g = Inr f \<Longrightarrow> stamped op ''rms_norm'' f"
  by (auto simp: lower_rms_norm_def result_simps Let_def split: if_splits)

lemma lower_rms_norm_gated_stamp [stamps]: "lower_rms_norm_gated op g = Inr f \<Longrightarrow> stamped op ''rms_norm_gated'' f"
  by (auto simp: lower_rms_norm_gated_def result_simps Let_def split: if_splits)

lemma lower_rope_stamp [stamps]: "lower_rope op g = Inr f \<Longrightarrow> stamped op ''rope'' f"
  by (auto simp: lower_rope_def result_simps Let_def split: if_splits)

lemma lower_gelu_stamp [stamps]: "lower_gelu op g = Inr f \<Longrightarrow> stamped op ''elementwise'' f"
  by (auto simp: lower_gelu_def result_simps Let_def split: if_splits)

lemma lower_swiglu_stamp [stamps]: "lower_swiglu op g = Inr f \<Longrightarrow> stamped op ''elementwise'' f"
  by (auto simp: lower_swiglu_def result_simps Let_def split: if_splits)

lemma lower_add_stamp [stamps]: "lower_add op g = Inr f \<Longrightarrow> stamped op ''elementwise'' f"
  by (auto simp: lower_add_def result_simps Let_def split: if_splits)

lemma lower_embedding_stamp [stamps]: "lower_embedding op g = Inr f \<Longrightarrow> stamped op ''embedding'' f"
  by (auto simp: lower_embedding_def result_simps Let_def split: if_splits)

lemma lower_cache_append_stamp [stamps]: "lower_cache_append op g = Inr f \<Longrightarrow> stamped op ''cache_append'' f"
  by (auto simp: lower_cache_append_def result_simps Let_def split: if_splits)

lemma lower_gdn_conv_stamp [stamps]: "lower_gdn_conv op g = Inr f \<Longrightarrow> stamped op ''gdn_conv'' f"
  by (auto simp: lower_gdn_conv_def result_simps Let_def split: if_splits)

lemma lower_gdn_delta_stamp [stamps]: "lower_gdn_delta op g = Inr f \<Longrightarrow> stamped op ''gdn_delta'' f"
  by (auto simp: lower_gdn_delta_def result_simps Let_def split: if_splits)

lemma lower_kda_delta_stamp [stamps]: "lower_kda_delta op g = Inr f \<Longrightarrow> stamped op ''kda_delta'' f"
  by (auto simp: lower_kda_delta_def result_simps Let_def split: if_splits)

lemma lower_kda_fused_decode_stamp [stamps]: "lower_kda_fused_decode op g = Inr f \<Longrightarrow> stamped op ''kda_fused_decode'' f"
  by (auto simp: lower_kda_fused_decode_def result_simps Let_def split: if_splits)

lemma lower_cache_append_paged_stamp [stamps]: "lower_cache_append_paged op g = Inr f \<Longrightarrow> stamped op ''cache_append_paged'' f"
  by (auto simp: lower_cache_append_paged_def result_simps Let_def split: if_splits)

lemma lower_mhc_pre_stamp [stamps]: "lower_mhc_pre op g = Inr f \<Longrightarrow> stamped op ''mhc_pre'' f"
  by (auto simp: lower_mhc_pre_def result_simps Let_def split: if_splits)

lemma lower_mhc_post_stamp [stamps]: "lower_mhc_post op g = Inr f \<Longrightarrow> stamped op ''mhc_post'' f"
  by (auto simp: lower_mhc_post_def result_simps Let_def split: if_splits)

lemma lower_attention_scores_stamp [stamps]: "lower_attention_scores op g = Inr f \<Longrightarrow> stamped op ''attention_scores'' f"
  by (auto simp: lower_attention_scores_def result_simps Let_def split: if_splits)

lemma lower_attention_scores_paged_stamp [stamps]: "lower_attention_scores_paged op g = Inr f \<Longrightarrow> stamped op ''attention_scores_paged'' f"
  by (auto simp: lower_attention_scores_paged_def result_simps Let_def split: if_splits)

lemma lower_mla_scores_stamp [stamps]: "lower_mla_scores op g = Inr f \<Longrightarrow> stamped op ''mla_scores'' f"
  by (auto simp: lower_mla_scores_def result_simps Let_def split: if_splits)

lemma lower_mla_values_stamp [stamps]: "lower_mla_values op g = Inr f \<Longrightarrow> stamped op ''mla_values'' f"
  by (auto simp: lower_mla_values_def result_simps Let_def split: if_splits)

lemma lower_conjugate_rope_stamp [stamps]: "lower_conjugate_rope op g = Inr f \<Longrightarrow> stamped op ''conjugate_rope'' f"
  by (auto simp: lower_conjugate_rope_def result_simps Let_def split: if_splits)

lemma lower_softmax_stamp [stamps]: "lower_softmax op g = Inr f \<Longrightarrow> stamped op ''softmax'' f"
  by (auto simp: lower_softmax_def result_simps Let_def split: if_splits)

lemma lower_attention_values_stamp [stamps]: "lower_attention_values op g = Inr f \<Longrightarrow> stamped op ''attention_values'' f"
  by (auto simp: lower_attention_values_def result_simps Let_def split: if_splits)

lemma lower_attention_values_paged_stamp [stamps]: "lower_attention_values_paged op g = Inr f \<Longrightarrow> stamped op ''attention_values_paged'' f"
  by (auto simp: lower_attention_values_paged_def result_simps Let_def split: if_splits)

lemma lower_moe_route_stamp [stamps]: "lower_moe_route op g = Inr f \<Longrightarrow> stamped op ''moe_route'' f"
  by (auto simp: lower_moe_route_def result_simps Let_def split: if_splits)

lemma lower_moe_expert_stamp [stamps]: "lower_moe_expert op g = Inr f \<Longrightarrow> stamped op ''moe_expert'' f"
  by (auto simp: lower_moe_expert_def result_simps Let_def split: if_splits)

lemma lower_moe_combine_stamp [stamps]: "lower_moe_combine op g = Inr f \<Longrightarrow> stamped op ''moe_combine'' f"
  by (auto simp: lower_moe_combine_def result_simps Let_def split: if_splits)

lemma lower_compressor_append_stamp [stamps]: "lower_compressor_append op g = Inr f \<Longrightarrow> stamped op ''compressor_append'' f"
  by (auto simp: lower_compressor_append_def result_simps Let_def case_error_Inr split: if_splits)

section \<open>Dispatch\<close>

definition lowering_table :: "(string, lowering) dict" where
  "lowering_table =
    [(''linear'', lower_linear),
     (''linear_fp8'', lower_linear_fp8),
     (''indexer_scores'', lower_indexer_scores),
     (''index_topk'', lower_index_topk),
     (''layer_norm'', lower_layer_norm),
     (''rms_norm'', lower_rms_norm),
     (''rms_norm_gated'', lower_rms_norm_gated),
     (''rope'', lower_rope),
     (''gelu'', lower_gelu),
     (''swiglu'', lower_swiglu),
     (''add'', lower_add),
     (''embedding'', lower_embedding),
     (''cache_append'', lower_cache_append),
     (''gdn_conv'', lower_gdn_conv),
     (''gdn_delta'', lower_gdn_delta),
     (''kda_delta'', lower_kda_delta),
     (''kda_fused_decode'', lower_kda_fused_decode),
     (''cache_append_paged'', lower_cache_append_paged),
     (''mhc_pre'', lower_mhc_pre),
     (''mhc_post'', lower_mhc_post),
     (''attention_scores'', lower_attention_scores),
     (''attention_scores_paged'', lower_attention_scores_paged),
     (''mla_scores'', lower_mla_scores),
     (''mla_values'', lower_mla_values),
     (''conjugate_rope'', lower_conjugate_rope),
     (''softmax'', lower_softmax),
     (''attention_values'', lower_attention_values),
     (''attention_values_paged'', lower_attention_values_paged),
     (''moe_route'', lower_moe_route),
     (''moe_expert'', lower_moe_expert),
     (''moe_combine'', lower_moe_combine),
     (''compressor_append'', lower_compressor_append)]"

lemma LOWERINGS_value: "LOWERINGS = Inr lowering_table"
  by (simp add: LOWERINGS_def CONTRACTS_def mk_contract_def lowering_globals_def lowering_table_def dict_get_def)

lemma table_keys: "map fst lowering_table = map fst CONTRACTS"
  by (simp add: lowering_table_def CONTRACTS_def mk_contract_def)

lemma lower_op_eq:
  "lower_op op g =
     (case map_of lowering_table (op_kind op) of
        None \<Rightarrow> Inl KeyError
      | Some factory \<Rightarrow>
          bindr (validate_attributes (the (map_of CONTRACTS (op_kind op))) (op_attributes op))
            (\<lambda>_. factory op g))"
proof -
  have "map_of lowering_table (op_kind op) = None \<longleftrightarrow> map_of CONTRACTS (op_kind op) = None"
    by (metis table_keys map_of_eq_None_iff list.set_map)
  then show ?thesis
    by (cases "map_of CONTRACTS (op_kind op)"; cases "map_of lowering_table (op_kind op)")
       (simp_all add: lower_op_def LOWERINGS_value)
qed

lemma lower_op_Inr:
  assumes "lower_op op g = Inr f"
  shows "\<exists>factory. map_of lowering_table (op_kind op) = Some factory \<and> factory op g = Inr f"
  using assms by (auto simp: lower_op_eq result_simps split: option.split_asm)

definition task_kind_of :: "string \<Rightarrow> string" where
  "task_kind_of k = (case map_of CONTRACTS k of None \<Rightarrow> [] | Some c \<Rightarrow> oc_task_kind c)"

text \<open>Every table entry stamps its contract's task kind.\<close>

lemma distinct_contracts: "distinct (map fst CONTRACTS)"
  by code_simp

lemma table_stamps:
  "list_all2 (\<lambda>(k, l) c. \<forall>op g f. l op g = Inr f \<longrightarrow> stamped op (oc_task_kind (snd c)) f)
     lowering_table CONTRACTS"
  by (simp add: lowering_table_def CONTRACTS_def mk_contract_def stamps)

lemma table_stamped:
  assumes "map_of lowering_table k = Some factory" "factory op g = Inr f"
  shows "stamped op (task_kind_of k) f"
proof -
  from assms(1) obtain i where i: "i < length lowering_table" "lowering_table ! i = (k, factory)"
    by (meson in_set_conv_nth map_of_SomeD)
  have l: "i < length CONTRACTS" using i(1) arg_cong [OF table_keys, of length] by simp
  have "fst (CONTRACTS ! i) = k" using arg_cong [OF table_keys, of "\<lambda>xs. xs ! i"] i l by simp
  then have "map_of CONTRACTS k = Some (snd (CONTRACTS ! i))"
    using distinct_contracts nth_mem [OF l] by (metis map_of_is_SomeI prod.collapse)
  then show ?thesis using list_all2_nthD [OF table_stamps i(1)] i(2) assms(2)
    by (auto simp: task_kind_of_def)
qed

section \<open>Lowering a graph\<close>

lemma fam_name_inj:
  assumes "fam_name a (CHR ''_'' # s) = fam_name b (CHR ''_'' # t)" "0 \<le> opid a" "0 \<le> opid b"
  shows "opid a = opid b"
proof -
  have tw: "takeWhile (\<lambda>c. c \<noteq> CHR ''_'') (dec02 i @ CHR ''_'' # u) = dec02 i" if "0 \<le> i" for i u
    using dec02_no_underscore [OF that] by (subst takeWhile_append2) auto
  have "dec02 (opid a) @ CHR ''_'' # s = dec02 (opid b) @ CHR ''_'' # t"
    using assms(1) by (simp add: fam_name_def)
  then have "dec02 (opid a) = dec02 (opid b)" using tw [OF assms(2), of s] tw [OF assms(3), of t] by simp
  then show ?thesis by (rule dec02_inj [OF assms(2,3)])
qed

lemma lower_op_stamped: "lower_op op g = Inr f \<Longrightarrow> stamped op (task_kind_of (op_kind op)) f"
  using lower_op_Inr [of op g f] table_stamped by blast

lemma lower_graph_nth:
  assumes "lower_graph g = Inr fams" "i < length (g_ops g)"
  shows "lower_op (g_ops g ! i) g = Inr (fams ! i)
    \<and> stamped (g_ops g ! i) (task_kind_of (op_kind (g_ops g ! i))) (fams ! i)"
  using mapr_nth [OF assms(1) [unfolded lower_graph_def] assms(2)] lower_op_stamped by blast

lemma stamped_ids_distinct:
  assumes "list_all2 (\<lambda>op f. \<exists>k. stamped op k f) ops fams" "distinct (map opid ops)"
    and "\<forall>op \<in> set ops. 0 \<le> opid op"
  shows "distinct (map fam_id fams)"
proof -
  have len: "length ops = length fams" using assms(1) by (rule list_all2_lengthD)
  have "fam_id (fams ! i) \<noteq> fam_id (fams ! j)" if ij: "i < length fams" "j < length fams" "i \<noteq> j" for i j
  proof
    assume e: "fam_id (fams ! i) = fam_id (fams ! j)"
    obtain s t where "fam_id (fams ! i) = fam_name (ops ! i) (CHR ''_'' # s)"
      "fam_id (fams ! j) = fam_name (ops ! j) (CHR ''_'' # t)"
      using list_all2_nthD2 [OF assms(1)] ij(1,2) by (force simp: stamped_def)
    with e fam_name_inj assms(3) ij len have "opid (ops ! i) = opid (ops ! j)" by (metis nth_mem)
    then show False using assms(2) ij len by (simp add: distinct_conv_nth)
  qed
  then show ?thesis by (simp add: distinct_conv_nth)
qed

lemma lower_graph_stamps:
  assumes "graph_wf g" and "lower_graph g = Inr fams"
  shows "map fam_op fams = g_ops g
    \<and> map fam_kind fams = map (\<lambda>op. task_kind_of (op_kind op)) (g_ops g)
    \<and> (\<forall>f \<in> set fams. fam_threads f = 256)
    \<and> distinct (map fam_id fams)
    \<and> (g_ops g \<noteq> [] \<longrightarrow> check_thread_contract fams = [])"
proof -
  have len: "length fams = length (g_ops g)" using mapr_length assms(2) by (simp add: lower_graph_def)
  have st: "stamped (g_ops g ! i) (task_kind_of (op_kind (g_ops g ! i))) (fams ! i)"
    if "i < length fams" for i using lower_graph_nth [OF assms(2)] that len by simp
  have ops: "map fam_op fams = g_ops g"
    and kinds: "map fam_kind fams = map (\<lambda>op. task_kind_of (op_kind op)) (g_ops g)"
    using st len by (auto intro!: nth_equalityI simp: stamped_def)
  have thr: "\<forall>f \<in> set fams. fam_threads f = 256"
    using st by (auto simp: in_set_conv_nth stamped_def THREADS_PER_WORKER_def)
  have ids: "map opid (g_ops g) = urange (g_next_opid g)" using assms(1) by (simp add: graph_wf_def)
  have "distinct (map opid (g_ops g))" using ids by simp
  moreover have "\<forall>op \<in> set (g_ops g). 0 \<le> opid op"
  proof
    fix op assume "op \<in> set (g_ops g)"
    then have "opid op \<in> set (urange (g_next_opid g))" using ids by (metis image_eqI list.set_map)
    then show "0 \<le> opid op" by simp
  qed
  ultimately have dist: "distinct (map fam_id fams)"
    using st len by (intro stamped_ids_distinct [of "g_ops g"]) (auto simp: list_all2_conv_all_nth)
  have "check_thread_contract fams = []" if "g_ops g \<noteq> []"
  proof -
    from that len obtain f fs where "fams = f # fs" by (cases fams) auto
    moreover have "remdups (map fam_threads fams) = [256]"
    proof -
      have "map fam_threads fams = replicate (length fams) 256"
        using thr by (auto intro!: nth_equalityI)
      moreover have "remdups (replicate (Suc n) (256 :: int)) = [256]" for n by (induction n) auto
      ultimately show ?thesis using \<open>fams = f # fs\<close> by (metis length_Cons)
    qed
    ultimately show ?thesis by (simp add: check_thread_contract_def)
  qed
  with ops kinds thr dist show ?thesis by blast
qed

text \<open>
  C15: Lowering keeps program order and gives every family the common contract.  For a well-formed
  graph, a successful \<^verbatim>\<open>lower_graph\<close> returns exactly one family per recorded operator, in recording
  order; each family refers to its operator, has the task kind its operator's contract names and the
  common thread count; the family ids are pairwise distinct, and the thread-contract check is
  clean unless the graph has no operator.
\<close>

theorem lower_graph_families:
  assumes "graph_wf g" and "lower_graph g = Inr fams"
  shows "map fam_op fams = g_ops g
    \<and> map fam_kind fams = map (\<lambda>op. task_kind_of (op_kind op)) (g_ops g)
    \<and> (\<forall>f \<in> set fams. fam_threads f = 256)
    \<and> distinct (map fam_id fams)
    \<and> (g_ops g \<noteq> [] \<longrightarrow> check_thread_contract fams = [])"
  by (rule lower_graph_stamps [OF assms])

text \<open>A graph of one linear operator: \<open>y[2, 20] = x[2, 32] w[32, 20]\<close>.\<close>

definition demo_tensor :: "string \<Rightarrow> int \<Rightarrow> int list \<Rightarrow> TensorValue" where
  "demo_tensor name i sh =
     \<lparr>tv_vid = Some i, tv_name = name, tv_shape = sh, tv_dtype = F32, tv_strides = row_major_strides sh,
      tv_storage_id = i, tv_offset = 0, tv_valid_length = None\<rparr>"

definition demo_linear :: Operator where
  "demo_linear =
     \<lparr>opid = 0, op_kind = ''linear'', op_inputs = [''x'', ''w''], op_outputs = [''y''],
      op_attributes = [], op_read_regions = [], op_write_regions = [], op_source_location = ''demo''\<rparr>"

definition demo_graph :: OperatorGraph where
  "demo_graph = empty_graph
     \<lparr>g_tensors := [(''x'', demo_tensor ''x'' 0 [2, 32]), (''w'', demo_tensor ''w'' 1 [32, 20]),
                    (''y'', demo_tensor ''y'' 2 [2, 20])],
      g_ops := [demo_linear], g_next_vid := 3, g_next_opid := 1\<rparr>"

lemma demo_graph_wf: "graph_wf demo_graph"
  by (simp add: graph_wf_def demo_graph_def empty_graph_def demo_linear_def demo_tensor_def
      tensor_entry_ok_def dict_wf_def urange_def)

lemma demo_lower_op: "\<exists>f. lower_op demo_linear demo_graph = Inr f"
  by (simp add: lower_op_eq lowering_table_def demo_linear_def CONTRACTS_def mk_contract_def
      validate_attributes_def lower_linear_def in_tensor_def out_tensor_def opt_tensor_def
      graph_tensor_def dict_get_def py_nth_def demo_graph_def demo_tensor_def dim_def gemm_domain_def
      attr_get_def group_params_def truthy_def Let_def)

theorem lower_graph_families_witness:
  "\<exists>f. lower_graph demo_graph = Inr [f] \<and> fam_op f = demo_linear \<and> fam_kind f = ''gemm''
     \<and> check_thread_contract [f] = []"
proof -
  obtain f where "lower_op demo_linear demo_graph = Inr f" using demo_lower_op by blast
  then have l: "lower_graph demo_graph = Inr [f]" by (simp add: lower_graph_def demo_graph_def)
  have "task_kind_of ''linear'' = ''gemm''" by (simp add: task_kind_of_def CONTRACTS_def mk_contract_def)
  then show ?thesis using lower_graph_families [OF demo_graph_wf l] l
    by (auto simp: demo_graph_def demo_linear_def)
qed

end
