(* ===== verification/Lowering_Ownership.thy ===== *)
theory Lowering_Ownership
  imports Lowerings
begin

text \<open>
  Write ownership of the lowered task families.  The locale \<open>tiled_output\<close> states how a lowering ties
  one of its output's write regions to its tile domain: the region of a task is the task's tile,
  extended by the full range of the output's remaining axes.  Its lemma says that each element of the
  output is written by exactly one task; the interpretations discharge the law for the lowerings.
\<close>

section \<open>The contract\<close>

definition full_axes :: "int list \<Rightarrow> (int \<times> int) list" where
  "full_axes sh = map (\<lambda>d. (0, d)) sh"

definition hi_boxes :: "(int \<times> int) list \<Rightarrow> (int \<times> hi_bound) list" where
  "hi_boxes bx = map (\<lambda>(lo, hi). (lo, HInt hi)) bx"

definition tile_written :: "TaskFamily \<Rightarrow> nat \<Rightarrow> TensorValue \<Rightarrow> int list \<Rightarrow> int list \<Rightarrow> bool" where
  "tile_written f slot y extra cs =
     (\<exists>wfn rs. fam_write_regions f = Some wfn \<and> wfn cs = Inr rs \<and> slot < length rs
        \<and> rs ! slot = plain_region y (hi_boxes (tile_box (td_dims (fam_domain f)) cs @ full_axes extra)))"

definition tiled :: "TaskFamily \<Rightarrow> nat \<Rightarrow> TensorValue \<Rightarrow> bool" where
  "tiled f slot y =
     (wf_domain (fam_domain f)
      \<and> (\<exists>extra. tv_shape y = extent (fam_domain f) @ extra
           \<and> (\<forall>cs. idx_in (grid (fam_domain f)) cs \<longrightarrow> tile_written f slot y extra cs)))"

definition owns :: "TaskFamily \<Rightarrow> nat \<Rightarrow> (hi_bound \<Rightarrow> int) \<Rightarrow> int \<Rightarrow> int \<Rightarrow> bool" where
  "owns f slot \<rho> a t =
     (\<exists>rs. fam_writes f t = Inr rs \<and> slot < length rs \<and> a \<in> region_addrs \<rho> (rs ! slot))"

locale tiled_output =
  fixes lower :: lowering and i :: int and slot :: nat
    and fits :: "Operator \<Rightarrow> OperatorGraph \<Rightarrow> TensorValue \<Rightarrow> bool"
  assumes tiles: "lower op g = Inr f \<Longrightarrow> out_tensor op g i = Inr y \<Longrightarrow> fits op g y
    \<Longrightarrow> \<forall>d \<in> set (tv_shape y). 0 < d \<Longrightarrow> tiled f slot y"

section \<open>Ownership of a tiled output\<close>

lemma in_box_append:
  "length b = length x \<Longrightarrow> in_box (b @ b') (x @ x') \<longleftrightarrow> in_box b x \<and> in_box b' x'"
  by (simp add: in_box_def list_all2_append)

lemma in_box_full_axes: "in_box (full_axes sh) x \<longleftrightarrow> idx_in sh x"
  by (simp add: in_box_def full_axes_def idx_in_def list_all2_map1)

lemma in_box_length: "in_box b x \<Longrightarrow> length x = length b"
  by (auto simp: in_box_def dest: list_all2_lengthD)

text \<open>A box of tiles within the grid lies within the extents.\<close>

lemma tile_box_in_extent:
  assumes "\<forall>(e, t) \<in> set dims. 0 < t" "idx_in (map (\<lambda>(e, t). (e + t - 1) div t) dims) cs"
    and "in_box (tile_box dims cs) x"
  shows "idx_in (map fst dims) x"
  using assms
proof (induction dims arbitrary: cs x)
  case (Cons et dims)
  obtain e t where et: "et = (e, t)" by (cases et)
  from Cons.prems(2) et obtain c cs' where cs: "cs = c # cs'" "0 \<le> c"
    "idx_in (map (\<lambda>(e, t). (e + t - 1) div t) dims) cs'" by (auto simp: idx_in_Cons1)
  with Cons.prems(3) et obtain j x' where x: "x = j # x'" "c * t \<le> j" "j < e"
    "in_box (tile_box dims cs') x'" by (cases x) auto
  have "0 \<le> c * t" using cs(2) Cons.prems(1) et by simp
  with x Cons.IH [OF _ cs(3) x(4)] Cons.prems(1) et show ?case by simp
qed simp

lemma box_idx_hi_boxes:
  assumes "valuation \<rho>" "length b = length sh"
  shows "box_idx \<rho> (hi_boxes b) sh x \<longleftrightarrow> in_box b x \<and> list_all2 (\<lambda>e i. i < e) sh x"
  using assms(2)
proof (induction b sh arbitrary: x rule: list_induct2)
  case Nil
  then show ?case by (simp add: box_idx_def hi_boxes_def)
next
  case (Cons b bs e es)
  then show ?case using assms(1)
    by (cases b; cases x) (auto simp: box_idx_def hi_boxes_def valuation_def)
qed

lemma idx_in_less: "idx_in sh x \<Longrightarrow> list_all2 (\<lambda>e i. i < e) sh x"
  by (auto simp: idx_in_def elim: list_all2_mono)

lemma addr_inj:
  assumes "is_contiguous y" "wf_view y" "idx_in (tv_shape y) a" "idx_in (tv_shape y) b"
    and "addr y a = addr y b"
  shows "a = b"
  using assms contiguous_addr [OF assms(1,2)] flat_inj [OF assms(3,4)] by simp

text \<open>The region of a task's tile contains the address of an element iff the tile contains the element.\<close>

lemma tile_region_addr:
  assumes w: "wf_domain d" and s: "tv_shape y = extent d @ extra" and cs: "idx_in (grid d) cs"
    and x: "idx_in (tv_shape y) (x1 @ x2)" "length x1 = length (td_dims d)"
    and y: "is_contiguous y" "wf_view y" and v: "valuation \<rho>"
  shows "addr y (x1 @ x2) \<in> region_addrs \<rho> (plain_region y (hi_boxes (tile_box (td_dims d) cs @ full_axes extra)))
     \<longleftrightarrow> in_box (tile_box (td_dims d) cs) x1"
proof -
  let ?B = "tile_box (td_dims d) cs @ full_axes extra"
  have lcs: "length cs = length (td_dims d)" using idx_in_length [OF cs] by simp
  have lt: "length (tile_box (td_dims d) cs) = length (td_dims d)" by (simp add: tile_box_def lcs)
  have len: "length ?B = length (tv_shape y)" using lt s by (simp add: full_axes_def extent_def)
  have tp: "\<forall>(e, t) \<in> set (td_dims d). 0 < t" using w by (auto simp: wf_domain_def)
  have x12: "idx_in (extent d) x1" "idx_in extra x2"
    using x s idx_in_append [of "extent d" x1 extra x2] by (auto simp: extent_def)
  have inB: "idx_in (tv_shape y) z" if "in_box ?B z" for z
  proof -
    have lz: "length z = length ?B" using in_box_length [OF that] .
    let ?z1 = "take (length (td_dims d)) z" and ?z2 = "drop (length (td_dims d)) z"
    have "in_box (tile_box (td_dims d) cs) ?z1 \<and> in_box (full_axes extra) ?z2"
      using that in_box_append [of "tile_box (td_dims d) cs" ?z1 "full_axes extra" ?z2] lz lt by simp
    then have "idx_in (extent d) ?z1 \<and> idx_in extra ?z2"
      using tile_box_in_extent [OF tp] cs by (auto simp: extent_def grid_def in_box_full_axes)
    then show ?thesis
      using idx_in_append [of "extent d" ?z1 extra ?z2] s lz len by (simp add: extent_def)
  qed
  have reg: "region_idx \<rho> (plain_region y (hi_boxes ?B)) z \<longleftrightarrow> in_box ?B z" for z
    using box_idx_hi_boxes [OF v len, of z] inB [of z] idx_in_less [of "tv_shape y" z]
    by (auto simp: region_idx_def plain_region_def)
  have "addr y (x1 @ x2) \<in> region_addrs \<rho> (plain_region y (hi_boxes ?B)) \<longleftrightarrow> in_box ?B (x1 @ x2)"
    using reg inB x(1) addr_inj [OF y] by (auto simp: region_addrs_def plain_region_def)
  also have "\<dots> \<longleftrightarrow> in_box (tile_box (td_dims d) cs) x1"
    using in_box_append [of "tile_box (td_dims d) cs" x1 "full_axes extra" x2] lt x(2) x12(2)
    by (simp add: in_box_full_axes)
  finally show ?thesis .
qed

lemma tiled_owner:
  assumes t: "tiled f slot y" and y: "is_contiguous y" "wf_view y" and v: "valuation \<rho>"
    and x: "idx_in (tv_shape y) x"
  shows "\<exists>!t. 0 \<le> t \<and> t < fam_ntasks f \<and> owns f slot \<rho> (addr y x) t"
proof -
  let ?d = "fam_domain f"
  obtain extra where w: "wf_domain ?d" and s: "tv_shape y = extent ?d @ extra"
    and tw: "\<And>cs. idx_in (grid ?d) cs \<Longrightarrow> tile_written f slot y extra cs"
    using t by (auto simp: tiled_def)
  define x1 x2 where "x1 = take (length (td_dims ?d)) x" and "x2 = drop (length (td_dims ?d)) x"
  have x12: "x = x1 @ x2" by (simp add: x1_def x2_def)
  have l1: "length x1 = length (td_dims ?d)"
    using idx_in_length [OF x] s by (simp add: x1_def extent_def)
  have i1: "idx_in (extent ?d) x1"
    using x s x12 idx_in_append [of "extent ?d" x1 extra x2] l1 by (simp add: extent_def)
  have own: "owns f slot \<rho> (addr y x) k \<longleftrightarrow> (\<exists>b. box ?d k = Inr b \<and> in_box b x1)"
    if k: "0 \<le> k" "k < ntasks ?d" for k
  proof -
    let ?cs = "unflat (grid ?d) k"
    have c: "coords ?d k = Inr ?cs" using coords_ok [OF w k] .
    have g: "idx_in (grid ?d) ?cs" using coords_in_grid [OF w c] .
    obtain wfn rs where wr: "fam_write_regions f = Some wfn" "wfn ?cs = Inr rs" "slot < length rs"
      "rs ! slot = plain_region y (hi_boxes (tile_box (td_dims ?d) ?cs @ full_axes extra))"
      using tw [OF g] by (auto simp: tile_written_def)
    have "fam_writes f k = Inr rs" by (simp add: fam_writes_def wr(1,2) fam_coords_def c)
    then have "owns f slot \<rho> (addr y x) k \<longleftrightarrow> addr y x \<in> region_addrs \<rho> (rs ! slot)"
      by (simp add: owns_def wr(3))
    also have "\<dots> \<longleftrightarrow> in_box (tile_box (td_dims ?d) ?cs) x1"
      using tile_region_addr [OF w s g _ l1 y v, of x2] x x12 wr(4) by simp
    finally show ?thesis using box_value [OF w k] by simp
  qed
  have "\<exists>!k. 0 \<le> k \<and> k < ntasks ?d \<and> (\<exists>b. box ?d k = Inr b \<and> in_box b x1)"
    using box_cover [OF w i1] .
  then show ?thesis using own unfolding fam_ntasks_def by (metis (no_types, lifting))
qed

context tiled_output
begin

lemma owner:
  assumes "lower op g = Inr f" "out_tensor op g i = Inr y" "fits op g y"
    and "is_contiguous y" "wf_view y" "valuation \<rho>" "idx_in (tv_shape y) x"
  shows "\<exists>!t. 0 \<le> t \<and> t < fam_ntasks f \<and> owns f slot \<rho> (addr y x) t"
  using tiled_owner [OF tiles [OF assms(1-3) idx_in_pos [OF assms(7)]] assms(4-7)] .

end

section \<open>Tilings the lowerings use\<close>

lemma tiledI:
  assumes "fam_domain f = d" "wf_domain d" "tv_shape y = extent d @ extra" "fam_write_regions f = Some wfn"
    and "\<And>cs. idx_in (grid d) cs \<Longrightarrow> \<exists>rs. wfn cs = Inr rs \<and> slot < length rs
        \<and> rs ! slot = plain_region y (hi_boxes (tile_box (td_dims d) cs @ full_axes extra))"
  shows "tiled f slot y"
  using assms unfolding tiled_def tile_written_def by blast

lemma unit_tiled:
  assumes "fam_domain f = mk_domain (map (\<lambda>e. (e, 1)) es)" "tv_shape y = es @ extra"
    and "\<forall>d \<in> set (tv_shape y). 0 < d" "fam_write_regions f = Some wfn"
    and "\<And>cs. length cs = length es \<Longrightarrow> \<exists>rs. wfn cs = Inr rs \<and> slot < length rs
        \<and> rs ! slot = plain_region y (hi_boxes (map (\<lambda>c. (c, c + 1)) cs @ full_axes extra))"
  shows "tiled f slot y"
proof (rule tiledI [OF assms(1) _ _ assms(4)])
  let ?d = "mk_domain (map (\<lambda>e. (e, 1)) es)"
  show "wf_domain ?d" using assms(2,3) by (auto simp: wf_domain_def mk_domain_def less_imp_le)
  show "tv_shape y = extent ?d @ extra" using assms(2) by (simp add: extent_def mk_domain_def comp_def)
  fix cs assume "idx_in (grid ?d) cs"
  then have c: "idx_in es cs" by (simp add: grid_def mk_domain_def comp_def)
  have "tile_box (td_dims ?d) cs = map (\<lambda>c. (c, c + 1)) cs"
    using c by (induction es arbitrary: cs) (auto simp: mk_domain_def idx_in_Cons1)
  with assms(5) [OF idx_in_length [OF c]]
  show "\<exists>rs. wfn cs = Inr rs \<and> slot < length rs
      \<and> rs ! slot = plain_region y (hi_boxes (tile_box (td_dims ?d) cs @ full_axes extra))" by simp
qed

lemma tile_region_ok: "length bx = length (tv_shape y) \<Longrightarrow> tile_region y bx = Inr (plain_region y (hi_boxes bx))"
  by (simp add: tile_region_def region_tile_def hi_boxes_def)

lemma tile_region_Inr: "tile_region y bx = Inr r \<longleftrightarrow> length bx = length (tv_shape y) \<and> r = plain_region y (hi_boxes bx)"
  by (auto simp: tile_region_def region_tile_def hi_boxes_def)

text \<open>One task per pair of leading indices, and one task per leading index.\<close>

lemma head_tiled:
  assumes "fam_domain f = head_domain B H" "tv_shape y = B # H # extra"
    and "\<forall>d \<in> set (tv_shape y). 0 < d" "fam_write_regions f = Some wfn"
    and "\<And>b h. \<exists>rs. wfn [b, h] = Inr rs \<and> slot < length rs
        \<and> tile_region y ([(b, b + 1), (h, h + 1)] @ full_axes extra) = Inr (rs ! slot)"
  shows "tiled f slot y"
proof (rule unit_tiled [where es = "[B, H]", OF _ _ assms(3,4)])
  show "fam_domain f = mk_domain (map (\<lambda>e. (e, 1)) [B, H])" using assms(1) by (simp add: head_domain_def)
  show "tv_shape y = [B, H] @ extra" using assms(2) by simp
  fix cs :: "int list" assume "length cs = length [B, H]"
  then obtain b h where "cs = [b, h]" by (auto simp: length_Suc_conv)
  with assms(5) [of b h] show "\<exists>rs. wfn cs = Inr rs \<and> slot < length rs
      \<and> rs ! slot = plain_region y (hi_boxes (map (\<lambda>c. (c, c + 1)) cs @ full_axes extra))"
    by (auto simp: tile_region_Inr)
qed

lemma batch_tiled:
  assumes "fam_domain f = mk_domain [(B, 1)]" "tv_shape y = B # extra"
    and "\<forall>d \<in> set (tv_shape y). 0 < d" "fam_write_regions f = Some wfn"
    and "\<And>b. \<exists>rs. wfn [b] = Inr rs \<and> slot < length rs
        \<and> tile_region y ((b, b + 1) # full_axes extra) = Inr (rs ! slot)"
  shows "tiled f slot y"
proof (rule unit_tiled [where es = "[B]", OF _ _ assms(3,4)])
  show "fam_domain f = mk_domain (map (\<lambda>e. (e, 1)) [B])" using assms(1) by simp
  show "tv_shape y = [B] @ extra" using assms(2) by simp
  fix cs :: "int list" assume "length cs = length [B]"
  then obtain b where "cs = [b]" by (auto simp: length_Suc_conv)
  with assms(5) [of b] show "\<exists>rs. wfn cs = Inr rs \<and> slot < length rs
      \<and> rs ! slot = plain_region y (hi_boxes (map (\<lambda>c. (c, c + 1)) cs @ full_axes extra))"
    by (auto simp: tile_region_Inr)
qed

text \<open>Two tiled axes and no other.\<close>

lemma grid_tiled:
  assumes "fam_domain f = mk_domain [(m, tm), (n, tn)]" "tv_shape y = [m, n]" "0 < tm" "0 < tn"
    and "\<forall>d \<in> set (tv_shape y). 0 < d" "fam_write_regions f = Some wfn"
    and "\<And>a b. 0 \<le> a \<Longrightarrow> a < (m + tm - 1) div tm \<Longrightarrow> 0 \<le> b \<Longrightarrow> b < (n + tn - 1) div tn \<Longrightarrow>
        \<exists>rs. wfn [a, b] = Inr rs \<and> slot < length rs
        \<and> tile_region y [(a * tm, min (a * tm + tm) m), (b * tn, min (b * tn + tn) n)] = Inr (rs ! slot)"
  shows "tiled f slot y"
proof (rule tiledI [OF assms(1) _ _ assms(6), where extra = "[]"])
  let ?d = "mk_domain [(m, tm), (n, tn)]"
  show "wf_domain ?d" using assms(2-5) by (auto simp: wf_domain_def mk_domain_def)
  show "tv_shape y = extent ?d @ []" using assms(2) by (simp add: extent_def mk_domain_def)
  fix cs assume "idx_in (grid ?d) cs"
  then obtain a b where cs: "cs = [a, b]" "0 \<le> a" "a < (m + tm - 1) div tm" "0 \<le> b" "b < (n + tn - 1) div tn"
    by (auto simp: grid_def mk_domain_def idx_in_Cons1)
  with assms(7) [of a b] show "\<exists>rs. wfn cs = Inr rs \<and> slot < length rs
      \<and> rs ! slot = plain_region y (hi_boxes (tile_box (td_dims ?d) cs @ full_axes []))"
    by (auto simp: tile_region_Inr mk_domain_def full_axes_def)
qed

lemma pair_writes_tiled:
  assumes "fam_domain f = mk_domain [(m, tm), (n, tn)]" "tv_shape y = [m, n]" "0 < tm" "0 < tn"
    and "\<forall>d \<in> set (tv_shape y). 0 < d"
    and "fam_write_regions f = Some (pair_writes y (mk_domain [(m, tm), (n, tn)]))"
  shows "tiled f 0 y"
  by (rule grid_tiled [OF assms])
     (use assms(2) in \<open>simp add: pair_writes_def pair_box_def unpack2_def mk_domain_def Let_def tile_region_ok\<close>)

lemma row_writes_tiled:
  assumes "fam_domain f = row_domain m n" "tv_shape y = [m, n]"
    and "\<forall>d \<in> set (tv_shape y). 0 < d" "fam_write_regions f = Some (row_writes y n)"
  shows "tiled f 0 y"
proof (rule grid_tiled [where m = m and n = n and tm = 1 and tn = n, OF _ assms(2) _ _ assms(3,4)])
  show "fam_domain f = mk_domain [(m, 1), (n, n)]" using assms(1) by (simp add: row_domain_def)
  show "0 < n" using assms(2,3) by simp
  fix a b assume a: "0 \<le> a" "a < (m + 1 - 1) div (1 :: int)" and b: "0 \<le> b" "b < (n + n - 1) div n"
  have "(n + n - 1) div n < 2" using assms(2,3) by (intro div_less_of_less_mult) simp_all
  then have "b = 0" using b by simp
  with a assms(2) show "\<exists>rs. row_writes y n [a, b] = Inr rs \<and> 0 < length rs
      \<and> tile_region y [(a * 1, min (a * 1 + 1) m), (b * n, min (b * n + n) n)] = Inr (rs ! 0)"
    by (simp add: row_writes_def row_box_def py_nth_def tile_region_ok)
qed simp_all

section \<open>The lowerings meet the contract\<close>

text \<open>
  How the recorder shapes the output of each operator kind, from the shapes of its inputs.
\<close>

definition in_dim :: "Operator \<Rightarrow> OperatorGraph \<Rightarrow> int \<Rightarrow> nat \<Rightarrow> int" where
  "in_dim op g j k = (case in_tensor op g j of Inl _ \<Rightarrow> 0 | Inr t \<Rightarrow> tv_shape t ! k)"

definition like_input :: "Operator \<Rightarrow> OperatorGraph \<Rightarrow> TensorValue \<Rightarrow> bool" where
  "like_input op g y = (case in_tensor op g 0 of Inl _ \<Rightarrow> False | Inr t \<Rightarrow> tv_shape y = tv_shape t)"

definition like_heads :: "Operator \<Rightarrow> OperatorGraph \<Rightarrow> TensorValue \<Rightarrow> bool" where
  "like_heads op g y = (like_input op g y \<and> length (tv_shape y) = 3)"

definition gemm_fits :: "Operator \<Rightarrow> OperatorGraph \<Rightarrow> TensorValue \<Rightarrow> bool" where
  "gemm_fits op g y = (tv_shape y = [in_dim op g 0 0, in_dim op g 1 1])"

definition gemv_fits :: "Operator \<Rightarrow> OperatorGraph \<Rightarrow> TensorValue \<Rightarrow> bool" where
  "gemv_fits op g y = (tv_shape y = [in_dim op g 0 0, in_dim op g 1 0])"

definition rank2 :: "Operator \<Rightarrow> OperatorGraph \<Rightarrow> TensorValue \<Rightarrow> bool" where
  "rank2 op g y = (length (tv_shape y) = 2)"

definition expert_fits :: "Operator \<Rightarrow> OperatorGraph \<Rightarrow> TensorValue \<Rightarrow> bool" where
  "expert_fits op g y = (tv_shape y = [in_dim op g 0 0, in_dim op g 3 1, in_dim op g 0 1])"

definition outer_fits :: "Operator \<Rightarrow> OperatorGraph \<Rightarrow> TensorValue \<Rightarrow> bool" where
  "outer_fits op g y = (tv_shape y = [in_dim op g 0 0, in_dim op g 0 2])"

definition attend_fits :: "nat \<Rightarrow> Operator \<Rightarrow> OperatorGraph \<Rightarrow> TensorValue \<Rightarrow> bool" where
  "attend_fits ax op g y = (tv_shape y = [in_dim op g 0 0, in_dim op g 0 1, in_dim op g 1 ax])"

definition delta_fits :: "nat \<Rightarrow> Operator \<Rightarrow> OperatorGraph \<Rightarrow> TensorValue \<Rightarrow> bool" where
  "delta_fits ax op g y = (tv_shape y = [in_dim op g 0 0, in_dim op g 0 1, in_dim op g 0 ax])"

definition indexer_fits :: "Operator \<Rightarrow> OperatorGraph \<Rightarrow> TensorValue \<Rightarrow> bool" where
  "indexer_fits op g y = (tv_shape y = [in_dim op g 0 0, in_dim op g 1 1])"

definition fused_fits :: "Operator \<Rightarrow> OperatorGraph \<Rightarrow> TensorValue \<Rightarrow> bool" where
  "fused_fits op g y =
     (length (tv_shape y) = 3 \<and> tv_shape y ! 1 = in_dim op g 1 1 \<and> tv_shape y ! 2 = in_dim op g 1 2)"

definition mhc_pre_fits :: "Operator \<Rightarrow> OperatorGraph \<Rightarrow> TensorValue \<Rightarrow> bool" where
  "mhc_pre_fits op g y =
     (outer_fits op g y
      \<and> (case out_tensor op g 1 of Inl _ \<Rightarrow> False | Inr p \<Rightarrow> length (tv_shape p) = 2)
      \<and> (case out_tensor op g 2 of Inl _ \<Rightarrow> False | Inr c \<Rightarrow> length (tv_shape c) = 3))"

definition topk_fits :: "Operator \<Rightarrow> OperatorGraph \<Rightarrow> TensorValue \<Rightarrow> bool" where
  "topk_fits op g y =
     (length (tv_shape y) = 2 \<and> tv_shape y ! 0 = in_dim op g 0 0
      \<and> attr_get (op_attributes op) ''k'' VNone = VInt (tv_shape y ! 1)
      \<and> (case out_tensor op g 1 of Inl _ \<Rightarrow> False | Inr p \<Rightarrow> length (tv_shape p) = 2))"

lemma dim_ok:
  "tv_shape t = a # as \<Longrightarrow> dim t 0 = Inr a"
  "tv_shape t = a # b # as \<Longrightarrow> dim t 1 = Inr b"
  "tv_shape t = a # b # c # as \<Longrightarrow> dim t 2 = Inr c"
  by (simp_all add: dim_def py_nth_def)

lemma dim_Inr: "dim t (int k) = Inr a \<longleftrightarrow> k < length (tv_shape t) \<and> a = tv_shape t ! k"
  by (auto simp: dim_def py_nth_def)

lemmas dim_Inr_numeral = dim_Inr [of _ 0, simplified] dim_Inr [of _ 1, simplified]
  dim_Inr [of _ 2, simplified] dim_Inr [of _ 3, simplified]

lemmas lowering_simps = result_simps dim_Inr_numeral gemm_domain_def in_dim_def like_input_def
  like_heads_def gemm_fits_def gemv_fits_def rank2_def expert_fits_def outer_fits_def attend_fits_def
  delta_fits_def indexer_fits_def fused_fits_def mhc_pre_fits_def topk_fits_def
  Let_def tile_region_ok full_axes_def

lemma head_writes_tiled:
  assumes "fam_domain f = head_domain B H" "tv_shape y = [B, H, D]" "\<forall>d \<in> set (tv_shape y). 0 < d"
    and "fam_write_regions f = Some (head_writes y D)"
  shows "tiled f 0 y"
  by (rule head_tiled [OF assms(1,2,3,4)])
     (use assms(2) in \<open>simp add: head_writes_def head_box_def tile_region_ok full_axes_def\<close>)

lemma norm_writes_tiled:
  assumes "fam_domain f = d \<and> fam_write_regions f = Some w" "\<forall>d \<in> set (tv_shape y). 0 < d"
    and "(\<exists>B H D. tv_shape y = [B, H, D] \<and> d = head_domain B H \<and> w = head_writes y D)
       \<or> (\<exists>m n. tv_shape y = [m, n] \<and> d = row_domain m n \<and> w = row_writes y n)"
  shows "tiled f 0 y"
  using assms head_writes_tiled [of f _ _ y] row_writes_tiled [of f _ _ y] by blast

lemma gdn_tile_pos: "0 < gdn_tile C"
proof -
  have "0 < t \<Longrightarrow> 0 < gdn_tile_loop C t" for t
  proof (induction C t rule: gdn_tile_loop.induct)
    case (1 C t)
    then show ?case by (subst gdn_tile_loop.simps) auto
  qed
  then show ?thesis by (simp add: gdn_tile_def ELEM_TILE_def)
qed

interpretation own_linear: tiled_output lower_linear 0 0 gemm_fits
proof
  fix op g f y
  assume "lower_linear op g = Inr f" "out_tensor op g 0 = Inr y" "gemm_fits op g y"
    "\<forall>d \<in> set (tv_shape y). 0 < d"
  then show "tiled f 0 y"
    by (auto simp: lower_linear_def lowering_simps GEMM_TILE_M_def GEMM_TILE_N_def
        intro!: pair_writes_tiled [where m = "in_dim op g 0 0" and n = "in_dim op g 1 1"
          and tm = 16 and tn = 16])
qed

interpretation own_linear_fp8: tiled_output lower_linear_fp8 0 0 gemv_fits
proof
  fix op g f y
  assume "lower_linear_fp8 op g = Inr f" "out_tensor op g 0 = Inr y" "gemv_fits op g y"
    "\<forall>d \<in> set (tv_shape y). 0 < d"
  then show "tiled f 0 y"
    by (auto simp: lower_linear_fp8_def lowering_simps GEMM_TILE_M_def GEMV_FP8_TILE_N_def
        split: if_splits
        intro!: pair_writes_tiled [where m = "in_dim op g 0 0" and n = "in_dim op g 1 0"
          and tm = 16 and tn = 16])
qed

interpretation own_layer_norm: tiled_output lower_layer_norm 0 0 like_input
proof
  fix op g f y
  assume "lower_layer_norm op g = Inr f" "out_tensor op g 0 = Inr y" "like_input op g y"
    "\<forall>d \<in> set (tv_shape y). 0 < d"
  then show "tiled f 0 y"
    by (auto simp: lower_layer_norm_def lowering_simps
        intro!: row_writes_tiled)
qed

interpretation own_rms_norm: tiled_output lower_rms_norm 0 0 like_input
proof
  fix op g f y
  assume "lower_rms_norm op g = Inr f" "out_tensor op g 0 = Inr y" "like_input op g y"
    "\<forall>d \<in> set (tv_shape y). 0 < d"
  then show "tiled f 0 y"
    by (intro norm_writes_tiled [OF conjI [OF refl] , of f "the (fam_write_regions f)" y])
       (auto simp: lower_rms_norm_def lowering_simps split: if_splits)
qed

interpretation own_rms_norm_gated: tiled_output lower_rms_norm_gated 0 0 like_input
proof
  fix op g f y
  assume "lower_rms_norm_gated op g = Inr f" "out_tensor op g 0 = Inr y" "like_input op g y"
    "\<forall>d \<in> set (tv_shape y). 0 < d"
  then show "tiled f 0 y"
    by (intro norm_writes_tiled [OF conjI [OF refl] , of f "the (fam_write_regions f)" y])
       (auto simp: lower_rms_norm_gated_def lowering_simps split: if_splits)
qed

interpretation own_rope: tiled_output lower_rope 0 0 like_input
proof
  fix op g f y
  assume "lower_rope op g = Inr f" "out_tensor op g 0 = Inr y" "like_input op g y"
    "\<forall>d \<in> set (tv_shape y). 0 < d"
  then show "tiled f 0 y"
    by (auto simp: lower_rope_def lowering_simps
        intro!: head_writes_tiled)
qed

interpretation own_moe_expert: tiled_output lower_moe_expert 0 0 expert_fits
proof
  fix op g f y
  assume "lower_moe_expert op g = Inr f" "out_tensor op g 0 = Inr y" "expert_fits op g y"
    "\<forall>d \<in> set (tv_shape y). 0 < d"
  then show "tiled f 0 y"
    by (auto simp: lower_moe_expert_def lowering_simps
        split: if_splits
        intro!: head_writes_tiled)
qed

interpretation own_moe_combine: tiled_output lower_moe_combine 0 0 outer_fits
proof
  fix op g f y
  assume "lower_moe_combine op g = Inr f" "out_tensor op g 0 = Inr y" "outer_fits op g y"
    "\<forall>d \<in> set (tv_shape y). 0 < d"
  then show "tiled f 0 y"
    by (auto simp: lower_moe_combine_def lowering_simps row_writes_def row_box_def py_nth_def
        intro!: batch_tiled)
qed

interpretation own_softmax: tiled_output lower_softmax 0 0 like_input
proof
  fix op g f y
  assume "lower_softmax op g = Inr f" "out_tensor op g 0 = Inr y" "like_input op g y"
    "\<forall>d \<in> set (tv_shape y). 0 < d"
  then show "tiled f 0 y"
    by (auto simp: lower_softmax_def lowering_simps
        intro!: head_writes_tiled)
qed

interpretation own_attention_values: tiled_output lower_attention_values 0 0 "attend_fits 3"
proof
  fix op g f y
  assume "lower_attention_values op g = Inr f" "out_tensor op g 0 = Inr y" "attend_fits 3 op g y"
    "\<forall>d \<in> set (tv_shape y). 0 < d"
  then show "tiled f 0 y"
    by (auto simp: lower_attention_values_def lowering_simps
        intro!: head_writes_tiled)
qed

interpretation own_attention_values_paged: tiled_output lower_attention_values_paged 0 0 "attend_fits 2"
proof
  fix op g f y
  assume "lower_attention_values_paged op g = Inr f" "out_tensor op g 0 = Inr y" "attend_fits 2 op g y"
    "\<forall>d \<in> set (tv_shape y). 0 < d"
  then show "tiled f 0 y"
    by (auto simp: lower_attention_values_paged_def lowering_simps
        intro!: head_writes_tiled)
qed

interpretation own_mla_values: tiled_output lower_mla_values 0 0 "attend_fits 2"
proof
  fix op g f y
  assume "lower_mla_values op g = Inr f" "out_tensor op g 0 = Inr y" "attend_fits 2 op g y"
    "\<forall>d \<in> set (tv_shape y). 0 < d"
  then show "tiled f 0 y"
    by (auto simp: lower_mla_values_def lowering_simps
        intro!: head_writes_tiled)
qed

interpretation own_gdn_delta: tiled_output lower_gdn_delta 0 1 "delta_fits 2"
proof
  fix op g f y
  assume "lower_gdn_delta op g = Inr f" "out_tensor op g 0 = Inr y" "delta_fits 2 op g y"
    "\<forall>d \<in> set (tv_shape y). 0 < d"
  then show "tiled f 1 y"
    by (auto simp: lower_gdn_delta_def lowering_simps delta_writes_def head_domain_def
        split: if_splits
        intro!: head_tiled)
qed

interpretation own_kda_delta: tiled_output lower_kda_delta 0 1 "delta_fits 3"
proof
  fix op g f y
  assume "lower_kda_delta op g = Inr f" "out_tensor op g 0 = Inr y" "delta_fits 3 op g y"
    "\<forall>d \<in> set (tv_shape y). 0 < d"
  then show "tiled f 1 y"
    by (auto simp: lower_kda_delta_def lowering_simps delta_writes_def head_domain_def
        intro!: head_tiled)
qed

interpretation own_mhc_post: tiled_output lower_mhc_post 0 0 like_input
proof
  fix op g f y
  assume "lower_mhc_post op g = Inr f" "out_tensor op g 0 = Inr y" "like_input op g y"
    "\<forall>d \<in> set (tv_shape y). 0 < d"
  then show "tiled f 0 y"
    by (auto simp: lower_mhc_post_def lowering_simps mhc_post_writes_def head_domain_def
        intro!: head_tiled)
qed

interpretation own_conjugate_rope: tiled_output lower_conjugate_rope 0 0 like_heads
proof
  fix op g f y
  assume "lower_conjugate_rope op g = Inr f" "out_tensor op g 0 = Inr y" "like_heads op g y"
    "\<forall>d \<in> set (tv_shape y). 0 < d"
  moreover then obtain B H D where "tv_shape y = [B, H, D]"
    by (auto simp: like_heads_def length_Suc_conv eval_nat_numeral)
  ultimately show "tiled f 0 y"
    by (auto simp: lower_conjugate_rope_def lowering_simps conj_rope_writes_def split: sum.splits
        intro!: head_tiled)
qed

lemma index_tiles: "(a + 1) * t = a * t + (t :: int)"
  by (simp add: algebra_simps)

interpretation own_indexer_scores: tiled_output lower_indexer_scores 0 0 indexer_fits
proof
  fix op g f y
  assume "lower_indexer_scores op g = Inr f" "out_tensor op g 0 = Inr y" "indexer_fits op g y"
    "\<forall>d \<in> set (tv_shape y). 0 < d"
  then show "tiled f 0 y"
    by (auto simp: lower_indexer_scores_def lowering_simps indexer_writes_def indexer_cols_def
        INDEXER_TILE_M_def split: if_splits
        intro!: grid_tiled [where m = "in_dim op g 0 0" and tm = 1 and n = "in_dim op g 1 1" and tn = 64])
qed

interpretation own_gdn_conv: tiled_output lower_gdn_conv 0 1 outer_fits
proof
  fix op g f y
  assume "lower_gdn_conv op g = Inr f" "out_tensor op g 0 = Inr y" "outer_fits op g y"
    "\<forall>d \<in> set (tv_shape y). 0 < d"
  then show "tiled f 1 y"
    by (auto simp: lower_gdn_conv_def lowering_simps gdn_conv_writes_def gdn_conv_cols_def
        index_tiles gdn_tile_pos split: if_splits
        intro!: grid_tiled [where m = "in_dim op g 0 0" and tm = 1 and n = "in_dim op g 0 2"
          and tn = "gdn_tile (in_dim op g 0 2)"])
qed

interpretation own_kda_fused: tiled_output lower_kda_fused_decode 0 2 fused_fits
proof
  fix op g f y
  assume "lower_kda_fused_decode op g = Inr f" "out_tensor op g 0 = Inr y" "fused_fits op g y"
    "\<forall>d \<in> set (tv_shape y). 0 < d"
  then show "tiled f 2 y"
    by (auto simp: lower_kda_fused_decode_def lowering_simps kda_fused_writes_def region_indirect_def
        head_domain_def length_Suc_conv eval_nat_numeral nth_via_drop drop_Suc
        intro!: head_tiled)
qed

interpretation own_mhc_pre: tiled_output lower_mhc_pre 0 0 mhc_pre_fits
proof
  fix op g f y
  assume "lower_mhc_pre op g = Inr f" "out_tensor op g 0 = Inr y" "mhc_pre_fits op g y"
    "\<forall>d \<in> set (tv_shape y). 0 < d"
  then show "tiled f 0 y"
    by (auto simp: lower_mhc_pre_def lowering_simps mhc_pre_writes_def split: if_splits
        intro!: batch_tiled)
qed

interpretation own_index_topk: tiled_output lower_index_topk 0 0 topk_fits
proof
  fix op g f y
  assume "lower_index_topk op g = Inr f" "out_tensor op g 0 = Inr y" "topk_fits op g y"
    "\<forall>d \<in> set (tv_shape y). 0 < d"
  then show "tiled f 0 y"
    by (auto simp: lower_index_topk_def lowering_simps topk_writes_def as_int_def length_Suc_conv
        eval_nat_numeral split: if_splits intro!: batch_tiled)
qed

lemma embed_cols_tile:
  assumes "0 < w" "0 < m" "0 \<le> b" "b < (w + min EMBED_TILE_C w - 1) div min EMBED_TILE_C w"
  shows "embed_cols (mk_domain [(m, 1), (w, min EMBED_TILE_C w)]) w [a, b] =
    Inr (b * min EMBED_TILE_C w, min (b * min EMBED_TILE_C w + min EMBED_TILE_C w) w)"
proof -
  let ?t = "min EMBED_TILE_C w"
  have tg: "task_grid (mk_domain [(m, 1), (w, ?t)]) = Inr [m, (w + ?t - 1) div ?t]"
    using assms by (simp add: task_grid_def mk_domain_def py_floordiv_def EMBED_TILE_C_def)
  show ?thesis
  proof (cases "w \<le> EMBED_TILE_C")
    case True
    then have t: "?t = w" by simp
    have "(w + w - 1) div w < 2" using assms(1) by (intro div_less_of_less_mult) simp_all
    moreover have "1 * w \<le> w + w - 1" using assms(1) by simp
    then have "1 \<le> (w + w - 1) div w" using int_le_div_iff [OF assms(1), of 1 "w + w - 1"] by blast
    ultimately have "(w + w - 1) div w = 1" by linarith
    moreover from this assms(3,4) t have "b = 0" by simp
    ultimately show ?thesis using tg t by (simp add: embed_cols_def py_nth_def)
  next
    case False
    then have t: "?t = EMBED_TILE_C" by simp
    have "2 * EMBED_TILE_C \<le> w + EMBED_TILE_C - 1" using False by (simp add: EMBED_TILE_C_def)
    then have "2 \<le> (w + EMBED_TILE_C - 1) div EMBED_TILE_C"
      using int_le_div_iff [of EMBED_TILE_C 2] by (simp add: EMBED_TILE_C_def)
    then show ?thesis using tg t by (simp add: embed_cols_def py_nth_def index_tiles)
  qed
qed

interpretation own_embedding: tiled_output lower_embedding 0 0 rank2
proof
  fix op g f y
  assume a: "lower_embedding op g = Inr f" "out_tensor op g 0 = Inr y" "rank2 op g y"
    "\<forall>d \<in> set (tv_shape y). 0 < d"
  then obtain m w where y: "tv_shape y = [m, w]" by (auto simp: rank2_def length_Suc_conv eval_nat_numeral)
  then have p: "0 < m" "0 < w" using a(4) by auto
  let ?d = "mk_domain [(m, 1), (w, min EMBED_TILE_C w)]"
  from a(1,2) y have f: "fam_domain f = ?d" "fam_write_regions f = Some (embed_writes y ?d w)"
    by (auto simp: lower_embedding_def lowering_simps)
  show "tiled f 0 y"
  proof (rule grid_tiled [OF f(1) y _ _ a(4) f(2)])
    show "0 < min EMBED_TILE_C w" using p by (simp add: EMBED_TILE_C_def)
    fix r b assume "0 \<le> r" "r < (m + 1 - 1) div 1" "0 \<le> b"
      "b < (w + min EMBED_TILE_C w - 1) div min EMBED_TILE_C w"
    with embed_cols_tile [OF p(2,1)] y
    show "\<exists>rs. embed_writes y ?d w [r, b] = Inr rs \<and> 0 < length rs
       \<and> tile_region y [(r * 1, min (r * 1 + 1) m),
             (b * min EMBED_TILE_C w, min (b * min EMBED_TILE_C w + min EMBED_TILE_C w) w)] = Inr (rs ! 0)"
      by (simp add: embed_writes_def py_nth_def tile_region_ok)
  qed simp
qed

section \<open>Ownership through the dispatch\<close>

text \<open>
  The operator kinds whose first output is tiled: the position of its region among the task's write
  regions and how the output must be shaped.
\<close>

definition tiled_kinds :: "(string, nat \<times> (Operator \<Rightarrow> OperatorGraph \<Rightarrow> TensorValue \<Rightarrow> bool)) dict" where
  "tiled_kinds =
    [(''linear'', 0, gemm_fits),
     (''linear_fp8'', 0, gemv_fits),
     (''indexer_scores'', 0, indexer_fits),
     (''index_topk'', 0, topk_fits),
     (''layer_norm'', 0, like_input),
     (''rms_norm'', 0, like_input),
     (''rms_norm_gated'', 0, like_input),
     (''rope'', 0, like_input),
     (''embedding'', 0, rank2),
     (''gdn_conv'', 1, outer_fits),
     (''gdn_delta'', 1, delta_fits 2),
     (''kda_delta'', 1, delta_fits 3),
     (''kda_fused_decode'', 2, fused_fits),
     (''mhc_pre'', 0, mhc_pre_fits),
     (''mhc_post'', 0, like_input),
     (''mla_values'', 0, attend_fits 2),
     (''conjugate_rope'', 0, like_heads),
     (''softmax'', 0, like_input),
     (''attention_values'', 0, attend_fits 3),
     (''attention_values_paged'', 0, attend_fits 2),
     (''moe_expert'', 0, expert_fits),
     (''moe_combine'', 0, outer_fits)]"

lemmas tilings = own_linear.tiled_output_axioms
  own_linear_fp8.tiled_output_axioms
  own_indexer_scores.tiled_output_axioms
  own_index_topk.tiled_output_axioms
  own_layer_norm.tiled_output_axioms
  own_rms_norm.tiled_output_axioms
  own_rms_norm_gated.tiled_output_axioms
  own_rope.tiled_output_axioms
  own_embedding.tiled_output_axioms
  own_gdn_conv.tiled_output_axioms
  own_gdn_delta.tiled_output_axioms
  own_kda_delta.tiled_output_axioms
  own_kda_fused.tiled_output_axioms
  own_mhc_pre.tiled_output_axioms
  own_mhc_post.tiled_output_axioms
  own_mla_values.tiled_output_axioms
  own_conjugate_rope.tiled_output_axioms
  own_softmax.tiled_output_axioms
  own_attention_values.tiled_output_axioms
  own_attention_values_paged.tiled_output_axioms
  own_moe_expert.tiled_output_axioms
  own_moe_combine.tiled_output_axioms

lemma tiled_kind_lowering:
  assumes "map_of tiled_kinds k = Some (slot, fits)" "map_of lowering_table k = Some factory"
  shows "tiled_output factory 0 slot fits"
proof -
  let ?is = "[0, 1, 2, 3, 4, 5, 6, 7, 11, 13, 14, 15, 16, 18, 19, 23, 24, 25, 26, 27, 29, 30]"
  have "list_all2 (\<lambda>(k, s, p) i. i < length lowering_table \<and> fst (lowering_table ! i) = k
      \<and> tiled_output (snd (lowering_table ! i)) 0 s p) tiled_kinds ?is"
    by (simp add: tiled_kinds_def lowering_table_def tilings del: One_nat_def)
  then have "\<exists>i. i < length lowering_table \<and> fst (lowering_table ! i) = k
      \<and> tiled_output (snd (lowering_table ! i)) 0 slot fits"
    using map_of_SomeD [OF assms(1)] by (fastforce simp: list_all2_conv_all_nth in_set_conv_nth)
  then obtain i where i: "i < length lowering_table" "fst (lowering_table ! i) = k"
    "tiled_output (snd (lowering_table ! i)) 0 slot fits" by blast
  have "(k, snd (lowering_table ! i)) \<in> set lowering_table"
    using nth_mem [OF i(1)] i(2) by (metis prod.collapse)
  moreover have "distinct (map fst lowering_table)" using distinct_contracts table_keys by simp
  ultimately show ?thesis using assms(2) i(3) by (metis map_of_is_SomeI option.inject)
qed

text \<open>
  C16: Disjoint and complete output ownership.  For every operator kind whose lowering tiles its output (matrix
  products, normalisations, rotary embeddings, token embedding, softmax, attention and latent-attention
  values, indexer, delta-rule and convolution recurrences, hyper-connections, expert and combine
  steps), if the operator lowers and its contiguous output has the shape the kind gives it, then
  every storage element of the output lies in the write region of exactly one task of the family.
\<close>

theorem output_owned_once:
  assumes "lower_op op g = Inr f" and "map_of tiled_kinds (op_kind op) = Some (slot, fits)"
    and "out_tensor op g 0 = Inr y" and "fits op g y"
    and "is_contiguous y" and "wf_view y" and "valuation \<rho>" and "idx_in (tv_shape y) x"
  shows "\<exists>!t. 0 \<le> t \<and> t < fam_ntasks f \<and> owns f slot \<rho> (addr y x) t"
proof -
  obtain factory where fac: "map_of lowering_table (op_kind op) = Some factory" "factory op g = Inr f"
    using lower_op_Inr [OF assms(1)] by blast
  from tiled_kind_lowering [OF assms(2) fac(1)]
  show ?thesis using fac(2) assms(3-8) by (rule tiled_output.owner)
qed

theorem output_owned_once_witness:
  "\<exists>f. lower_op demo_linear demo_graph = Inr f
     \<and> (\<exists>!t. 0 \<le> t \<and> t < fam_ntasks f
          \<and> owns f 0 (\<lambda>h. case h of HInt n \<Rightarrow> n | _ \<Rightarrow> 0) (addr (demo_tensor ''y'' 2 [2, 20]) [1, 17]) t)"
proof -
  obtain f where f: "lower_op demo_linear demo_graph = Inr f" using demo_lower_op by blast
  have "map_of tiled_kinds (op_kind demo_linear) = Some (0, gemm_fits)"
    by (simp add: tiled_kinds_def demo_linear_def)
  moreover have "out_tensor demo_linear demo_graph 0 = Inr (demo_tensor ''y'' 2 [2, 20])"
    by (simp add: out_tensor_def demo_linear_def demo_graph_def py_nth_def graph_tensor_def dict_get_def)
  moreover have "gemm_fits demo_linear demo_graph (demo_tensor ''y'' 2 [2, 20])"
    by (simp add: gemm_fits_def in_dim_def in_tensor_def demo_linear_def demo_graph_def py_nth_def
        graph_tensor_def dict_get_def demo_tensor_def)
  moreover have "is_contiguous (demo_tensor ''y'' 2 [2, 20])" "wf_view (demo_tensor ''y'' 2 [2, 20])"
    "idx_in (tv_shape (demo_tensor ''y'' 2 [2, 20])) [1, 17]"
    by (simp_all add: is_contiguous_def wf_view_def demo_tensor_def)
  ultimately show ?thesis
    using output_owned_once [OF f, of 0 gemm_fits] f by (auto simp: valuation_def)
qed

section \<open>Where ownership fails\<close>

text \<open>
  The compressor append declares one task per batch row and layer, and every task of a row declares
  the row's whole slab: two tasks of one family write the same region.
\<close>

lemma compressor_append_shared:
  assumes "lower_compressor_append op g = Inr f" "fam_write_regions f = Some wfn"
  shows "wfn [b, l] = wfn [b, l']"
  using assms
  by (auto simp: lower_compressor_append_def result_simps Let_def case_error_Inr compressor_writes_def
      mk_family_def split: if_splits)

end
