(* ===== verification/Lowering_Domains.thy ===== *)
theory Lowering_Domains
  imports Lowerings
begin

text \<open>
  The tile domains of the lowered families are well formed on every graph whose tensors have positive
  dimensions, which is what strict mode enforces: a task count and a task-id decoding exist for every
  lowered family.
\<close>

section \<open>Positive dimensions\<close>

definition positive_graph :: "OperatorGraph \<Rightarrow> bool" where
  "positive_graph g = (\<forall>e \<in> set (g_tensors g). \<forall>d \<in> set (tv_shape (snd e)). 0 < d)"

lemma graph_tensor_positive:
  "positive_graph g \<Longrightarrow> graph_tensor g n = Inr t \<Longrightarrow> d \<in> set (tv_shape t) \<Longrightarrow> 0 < d"
  by (auto simp: positive_graph_def graph_tensor_def dest!: map_of_SomeD)

lemma in_tensor_positive:
  "positive_graph g \<Longrightarrow> in_tensor op g i = Inr t \<Longrightarrow> d \<in> set (tv_shape t) \<Longrightarrow> 0 < d"
  by (auto simp: in_tensor_def result_simps intro: graph_tensor_positive)

lemma out_tensor_positive:
  "positive_graph g \<Longrightarrow> out_tensor op g i = Inr t \<Longrightarrow> d \<in> set (tv_shape t) \<Longrightarrow> 0 < d"
  by (auto simp: out_tensor_def result_simps intro: graph_tensor_positive)

lemma dim_mem: "dim t i = Inr d \<Longrightarrow> d \<in> set (tv_shape t)"
  by (auto simp: dim_def py_nth_def split: if_splits)

lemma dim_in_positive: "positive_graph g \<Longrightarrow> in_tensor op g i = Inr t \<Longrightarrow> dim t j = Inr d \<Longrightarrow> 0 < d"
  using in_tensor_positive dim_mem by blast

lemma dim_out_positive: "positive_graph g \<Longrightarrow> out_tensor op g i = Inr t \<Longrightarrow> dim t j = Inr d \<Longrightarrow> 0 < d"
  using out_tensor_positive dim_mem by blast

lemma shape_in_positive:
  "positive_graph g \<Longrightarrow> in_tensor op g i = Inr t \<Longrightarrow> tv_shape t = sh \<Longrightarrow> \<forall>d \<in> set sh. 0 < d"
  using in_tensor_positive by blast

lemma shape_out_positive:
  "positive_graph g \<Longrightarrow> out_tensor op g i = Inr t \<Longrightarrow> tv_shape t = sh \<Longrightarrow> \<forall>d \<in> set sh. 0 < d"
  using out_tensor_positive by blast

lemma numel_in_positive: "positive_graph g \<Longrightarrow> in_tensor op g i = Inr t \<Longrightarrow> 0 < numel t"
  using in_tensor_positive by (auto simp: numel_def intro!: prodl_pos)

lemma wf_domain_mk: "wf_domain (mk_domain ds) \<longleftrightarrow> (\<forall>(e, t) \<in> set ds. 0 < t \<and> 0 \<le> e)"
  by (simp add: wf_domain_def mk_domain_def)

lemma gdn_tile_positive: "0 < gdn_tile C"
proof -
  have "0 < t \<Longrightarrow> 0 < gdn_tile_loop C t" for t
  proof (induction C t rule: gdn_tile_loop.induct)
    case (1 C t)
    then show ?case by (subst gdn_tile_loop.simps) auto
  qed
  then show ?thesis by (simp add: gdn_tile_def ELEM_TILE_def)
qed

named_theorems wf_lowerings \<open>each lowering gives a well-formed domain\<close>

lemmas domain_simps = wf_family_def wf_domain_mk head_domain_def row_domain_def elem_domain_def
  gemm_domain_def result_simps Let_def case_error_Inr GEMM_TILE_M_def GEMM_TILE_N_def ELEM_TILE_def
  EMBED_TILE_C_def GEMV_FP8_TILE_N_def INDEXER_TILE_M_def

lemmas domain_dests = shape_in_positive [where i = 0] shape_out_positive [where i = 0]

lemmas domain_intros = dim_in_positive [THEN less_imp_le] dim_out_positive [THEN less_imp_le]
  numel_in_positive [THEN less_imp_le]

section \<open>The lowerings\<close>

lemma dense_lowerings_wf [wf_lowerings]:
  assumes "positive_graph g"
  shows "lower_linear op g = Inr f \<Longrightarrow> wf_family f"
    "lower_layer_norm op g = Inr f \<Longrightarrow> wf_family f"
    "lower_rms_norm op g = Inr f \<Longrightarrow> wf_family f"
    "lower_rms_norm_gated op g = Inr f \<Longrightarrow> wf_family f"
    "lower_rope op g = Inr f \<Longrightarrow> wf_family f"
    "lower_gelu op g = Inr f \<Longrightarrow> wf_family f"
    "lower_swiglu op g = Inr f \<Longrightarrow> wf_family f"
    "lower_add op g = Inr f \<Longrightarrow> wf_family f"
    "lower_embedding op g = Inr f \<Longrightarrow> wf_family f"
    "lower_moe_route op g = Inr f \<Longrightarrow> wf_family f"
    "lower_moe_combine op g = Inr f \<Longrightarrow> wf_family f"
  using assms
  by (auto simp: lower_linear_def lower_layer_norm_def lower_rms_norm_def lower_rms_norm_gated_def lower_rope_def lower_gelu_def lower_swiglu_def lower_add_def lower_embedding_def lower_moe_route_def lower_moe_combine_def
      domain_simps gdn_tile_positive less_imp_le split: if_splits dest: domain_dests intro: domain_intros)

lemma attention_lowerings_wf [wf_lowerings]:
  assumes "positive_graph g"
  shows "lower_index_topk op g = Inr f \<Longrightarrow> wf_family f"
    "lower_cache_append op g = Inr f \<Longrightarrow> wf_family f"
    "lower_attention_scores op g = Inr f \<Longrightarrow> wf_family f"
    "lower_attention_scores_paged op g = Inr f \<Longrightarrow> wf_family f"
    "lower_mla_scores op g = Inr f \<Longrightarrow> wf_family f"
    "lower_mla_values op g = Inr f \<Longrightarrow> wf_family f"
    "lower_conjugate_rope op g = Inr f \<Longrightarrow> wf_family f"
    "lower_softmax op g = Inr f \<Longrightarrow> wf_family f"
    "lower_attention_values op g = Inr f \<Longrightarrow> wf_family f"
    "lower_attention_values_paged op g = Inr f \<Longrightarrow> wf_family f"
  using assms
  by (auto simp: lower_index_topk_def lower_cache_append_def lower_attention_scores_def lower_attention_scores_paged_def lower_mla_scores_def lower_mla_values_def lower_conjugate_rope_def lower_softmax_def lower_attention_values_def lower_attention_values_paged_def
      domain_simps gdn_tile_positive less_imp_le split: if_splits dest: domain_dests intro: domain_intros)

lemma recurrent_lowerings_wf [wf_lowerings]:
  assumes "positive_graph g"
  shows "lower_gdn_conv op g = Inr f \<Longrightarrow> wf_family f"
    "lower_gdn_delta op g = Inr f \<Longrightarrow> wf_family f"
    "lower_kda_delta op g = Inr f \<Longrightarrow> wf_family f"
    "lower_mhc_pre op g = Inr f \<Longrightarrow> wf_family f"
    "lower_mhc_post op g = Inr f \<Longrightarrow> wf_family f"
  using assms
  by (auto simp: lower_gdn_conv_def lower_gdn_delta_def lower_kda_delta_def lower_mhc_pre_def lower_mhc_post_def
      domain_simps gdn_tile_positive less_imp_le split: if_splits dest: domain_dests intro: domain_intros)

lemma lower_linear_fp8_wf [wf_lowerings]: "positive_graph g \<Longrightarrow> lower_linear_fp8 op g = Inr f \<Longrightarrow> wf_family f"
proof -
  assume p: "positive_graph g" and "lower_linear_fp8 op g = Inr f"
  then obtain x w m k n k' where t: "in_tensor op g 0 = Inr x" "tv_shape x = [m, k]"
    "in_tensor op g 1 = Inr w" "tv_shape w = [n, k']" "fam_domain f = mk_domain [(m, 16), (n, 16)]"
    by (auto simp: lower_linear_fp8_def domain_simps split: if_splits)
  then show "wf_family f"
    using shape_in_positive [OF p t(1,2)] shape_in_positive [OF p t(3,4)] by (simp add: wf_family_def wf_domain_mk)
qed

lemma lower_indexer_scores_wf [wf_lowerings]: "positive_graph g \<Longrightarrow> lower_indexer_scores op g = Inr f \<Longrightarrow> wf_family f"
proof -
  assume p: "positive_graph g" and "lower_indexer_scores op g = Inr f"
  then obtain q c b h d m where t: "in_tensor op g 0 = Inr q" "tv_shape q = [b, h, d]"
    "in_tensor op g 1 = Inr c" "dim c 1 = Inr m" "fam_domain f = mk_domain [(b, 1), (m, 64)]"
    by (auto simp: lower_indexer_scores_def domain_simps split: if_splits)
  then show "wf_family f"
    using shape_in_positive [OF p t(1,2)] dim_in_positive [OF p t(3,4)] by (simp add: wf_family_def wf_domain_mk)
qed

lemma lower_kda_fused_decode_wf [wf_lowerings]: "positive_graph g \<Longrightarrow> lower_kda_fused_decode op g = Inr f \<Longrightarrow> wf_family f"
proof -
  assume p: "positive_graph g" and "lower_kda_fused_decode op g = Inr f"
  then obtain ssm out H V K B where t: "in_tensor op g 1 = Inr ssm" "drop 1 (tv_shape ssm) = [H, V, K]"
    "out_tensor op g 0 = Inr out" "dim out 0 = Inr B" "fam_domain f = mk_domain [(B, 1), (H, 1)]"
    by (auto simp: lower_kda_fused_decode_def result_simps Let_def)
  have "H \<in> set (drop 1 (tv_shape ssm))" unfolding t(2) by simp
  then have "H \<in> set (tv_shape ssm)" by (rule in_set_dropD)
  then have "0 < H" by (rule in_tensor_positive [OF p t(1)])
  moreover have "0 < B" by (rule dim_out_positive [OF p t(3,4)])
  ultimately show "wf_family f" using t(5) by (simp add: wf_family_def wf_domain_mk)
qed

lemma lower_cache_append_paged_wf [wf_lowerings]: "positive_graph g \<Longrightarrow> lower_cache_append_paged op g = Inr f \<Longrightarrow> wf_family f"
  by (auto simp: lower_cache_append_paged_def domain_simps less_imp_le split: if_splits dest: shape_in_positive [where i = 3])

lemma lower_moe_expert_wf [wf_lowerings]:
  assumes p: "positive_graph g" and "lower_moe_expert op g = Inr f"
  shows "wf_family f"
proof -
  obtain x r b h k where t: "in_tensor op g 0 = Inr x" "tv_shape x = [b, h]" "in_tensor op g 3 = Inr r"
    "dim r 1 = Inr k" "fam_domain f = mk_domain [(b, 1), (k, 1)]"
    using assms(2) by (auto simp: lower_moe_expert_def domain_simps split: if_splits)
  then show ?thesis
    using shape_in_positive [OF p t(1,2)] dim_in_positive [OF p t(3,4)] by (simp add: wf_family_def wf_domain_mk)
qed

lemma lower_compressor_append_wf [wf_lowerings]:
  assumes p: "positive_graph g" and "lower_compressor_append op g = Inr f"
  shows "wf_family f"
proof -
  obtain w c b mw d n layers e u v where t: "in_tensor op g 2 = Inr w" "tv_shape w = [b, mw, d]"
    "in_tensor op g 0 = Inr c" "tv_shape c = [n, layers, e, u, v]" "fam_domain f = mk_domain [(b, 1), (layers, 1)]"
    using assms(2) by (auto simp: lower_compressor_append_def domain_simps split: if_splits)
  then show ?thesis
    using shape_in_positive [OF p t(1,2)] shape_in_positive [OF p t(3,4)] by (simp add: wf_family_def wf_domain_mk)
qed

section \<open>Through the dispatch\<close>

lemma table_wf: "list_all (\<lambda>(k, l). \<forall>op g f. positive_graph g \<longrightarrow> l op g = Inr f \<longrightarrow> wf_family f) lowering_table"
  by (simp add: lowering_table_def wf_lowerings)

lemma lower_op_wf:
  assumes "positive_graph g" "lower_op op g = Inr f"
  shows "wf_family f"
proof -
  obtain factory where "map_of lowering_table (op_kind op) = Some factory" "factory op g = Inr f"
    using lower_op_Inr [OF assms(2)] by blast
  then show ?thesis using table_wf assms(1) map_of_SomeD by (fastforce simp: list_all_iff)
qed

lemma lower_graph_wf: "positive_graph g \<Longrightarrow> lower_graph g = Inr fams \<Longrightarrow> f \<in> set fams \<Longrightarrow> wf_family f"
  by (auto simp: lower_graph_def mapr_Inr_iff list_all2_conv_all_nth in_set_conv_nth intro: lower_op_wf)

lemma legal_positive: "\<forall>e \<in> set (g_tensors g). tensor_legal g (snd e) \<Longrightarrow> positive_graph g"
  by (auto simp: positive_graph_def tensor_legal_def)

end
