(* ===== verification/Capture.thy ===== *)
theory Capture
  imports Contracts
begin

text \<open>
  The recording backend of \<^verbatim>\<open>compiler/capture.py\<close>: scalar and external-tensor registration, fresh
  buffers and views, the position guard and the recording of one operator.  A recorder operation maps
  the recorder to a result and the updated recorder, or to an exception; \<^verbatim>\<open>capture_model\<close> does not look at
  the recorder after an exception, so its state at that point is not kept.
\<close>

section \<open>The recorder state\<close>

text \<open>A symbolic tensor is a handle on a tensor value; it is modelled by the value.\<close>

record Recorder =
  rb_graph :: OperatorGraph
  rb_op_counter :: int
  rb_externals :: "(string, TensorValue) dict"

definition new_recorder :: Recorder where
  "new_recorder = \<lparr>rb_graph = empty_graph, rb_op_counter = 0, rb_externals = []\<rparr>"

type_synonym 'a cap = "Recorder \<Rightarrow> ('a \<times> Recorder) result"

definition retc :: "'a \<Rightarrow> 'a cap" where
  "retc x r = Inr (x, r)"

definition failc :: "py_error \<Rightarrow> 'a cap" where
  "failc e r = Inl e"

definition bindc :: "'a cap \<Rightarrow> ('a \<Rightarrow> 'b cap) \<Rightarrow> 'b cap" where
  "bindc m f r = bindr (m r) (\<lambda>(x, r'). f x r')"

definition liftc :: "'a result \<Rightarrow> 'a cap" where
  "liftc res r = bindr res (\<lambda>x. Inr (x, r))"

definition checkc :: "bool \<Rightarrow> py_error \<Rightarrow> unit cap" where
  "checkc b e = (if b then retc () else failc e)"

section \<open>Slicing\<close>

text \<open>\<^verbatim>\<open>xs[:i]\<close> and \<^verbatim>\<open>xs[i:]\<close>: a negative index counts from the end and is clipped at 0.\<close>

definition slice_index :: "'a list \<Rightarrow> int \<Rightarrow> nat" where
  "slice_index xs i = nat (if i < 0 then max 0 (int (length xs) + i) else i)"

definition slice_to :: "'a list \<Rightarrow> int \<Rightarrow> 'a list" where
  "slice_to xs i = take (slice_index xs i) xs"

definition slice_from :: "'a list \<Rightarrow> int \<Rightarrow> 'a list" where
  "slice_from xs i = drop (slice_index xs i) xs"

section \<open>Scalars, external tensors and views\<close>

definition define_position :: "int \<Rightarrow> SymbolicScalar cap" where
  "define_position capacity r =
     (let s = \<lparr>sc_name = ''p'', sc_lo = 0, sc_hi = capacity\<rparr>
      in Inr (s, r\<lparr>rb_graph := add_scalar (rb_graph r) s\<rparr>))"

text \<open>\<^verbatim>\<open>graph.add_tensor\<close> on the recorder's graph, with and without a valid length.\<close>

definition graph_add_view ::
  "string \<Rightarrow> int list \<Rightarrow> DType \<Rightarrow> int \<Rightarrow> int list \<Rightarrow> int \<Rightarrow> ValidLength option \<Rightarrow> TensorValue cap" where
  "graph_add_view name shape dtype sid strides offset valid r =
     bindr (add_tensor (rb_graph r) name shape dtype sid strides offset valid) (\<lambda>(tv, g).
       Inr (tv, r\<lparr>rb_graph := g\<rparr>))"

definition graph_add_tensor ::
  "string \<Rightarrow> int list \<Rightarrow> DType \<Rightarrow> int \<Rightarrow> int list \<Rightarrow> int \<Rightarrow> TensorValue cap" where
  "graph_add_tensor name shape dtype sid strides offset =
     graph_add_view name shape dtype sid strides offset None"

definition external_tensor ::
  "string \<Rightarrow> int list \<Rightarrow> DType \<Rightarrow> int \<Rightarrow> int list option \<Rightarrow> int \<Rightarrow> bool \<Rightarrow> TensorValue cap" where
  "external_tensor name shape dtype storage_id strides offset register_storage r =
     (case map_of (rb_externals r) name of
        Some existing \<Rightarrow>
          if tv_shape existing \<noteq> shape \<or> tv_storage_id existing \<noteq> storage_id then Inl ValueError
          else Inr (existing, r)
      | None \<Rightarrow>
          let st = (case strides of None \<Rightarrow> row_major_strides shape | Some s \<Rightarrow> s);
              r = (if register_storage
                   then r\<lparr>rb_graph := add_external_storage (rb_graph r) storage_id name (prodl shape)\<rparr>
                   else r)
          in bindr (graph_add_tensor name shape dtype storage_id st offset r) (\<lambda>(tv, r).
               Inr (tv, r\<lparr>rb_externals := dict_set name tv (rb_externals r)\<rparr>)))"

definition define_row_positions :: "string \<Rightarrow> int \<Rightarrow> int \<Rightarrow> int \<Rightarrow> TensorValue cap" where
  "define_row_positions name batch capacity storage_id r =
     (if \<not> batch > 0 then Inl CaptureError
      else if capacity \<le> 0 then Inl CaptureError
      else bindr (external_tensor name [batch] I32 storage_id None 0 True r) (\<lambda>(sym, r).
        let g = rb_graph r in
        Inr (sym, r\<lparr>rb_graph := g\<lparr>
          g_row_position_tensors := insert name (g_row_position_tensors g),
          g_row_position_capacity := dict_set name capacity (g_row_position_capacity g)\<rparr>\<rparr>)))"

definition fresh_buffer :: "string \<Rightarrow> int list \<Rightarrow> DType \<Rightarrow> TensorValue cap" where
  "fresh_buffer name shape dtype r =
     (case new_storage (rb_graph r) name (prodl shape) of (sid, g) \<Rightarrow>
        graph_add_tensor name shape dtype sid (row_major_strides shape) 0 (r\<lparr>rb_graph := g\<rparr>))"

definition view_of :: "TensorValue \<Rightarrow> string \<Rightarrow> int list \<Rightarrow> TensorValue cap" where
  "view_of base name shape r =
     bindr (tv_view base name shape) (\<lambda>tv.
       graph_add_tensor name (tv_shape tv) (tv_dtype tv) (tv_storage_id tv) (tv_strides tv)
         (tv_offset tv) r)"

definition narrow :: "TensorValue \<Rightarrow> string \<Rightarrow> int \<Rightarrow> int \<Rightarrow> int \<Rightarrow> TensorValue cap" where
  "narrow bv name axis start len r =
     (if \<not> 0 \<le> start then Inl ValueError
      else bindr (py_nth (tv_shape bv) axis) (\<lambda>d.
        if \<not> start + len \<le> d then Inl ValueError
        else bindr (py_nth (tv_strides bv) axis) (\<lambda>st.
          graph_add_tensor name
            (slice_to (tv_shape bv) axis @ [len] @ slice_from (tv_shape bv) (axis + 1))
            (tv_dtype bv) (tv_storage_id bv) (tv_strides bv) (tv_offset bv + start * st) r)))"

definition transpose_view :: "TensorValue \<Rightarrow> string option \<Rightarrow> TensorValue cap" where
  "transpose_view w name r =
     (let n = (case name of None \<Rightarrow> tv_name w @ ''.T'' | Some s \<Rightarrow> if s = [] then tv_name w @ ''.T'' else s) in
      bindr (transposed w n) (\<lambda>tv.
        graph_add_tensor n (tv_shape tv) (tv_dtype tv) (tv_storage_id tv) (tv_strides tv)
          (tv_offset tv) r))"

section \<open>Recording one operator\<close>

text \<open>\<^verbatim>\<open>_record\<close>: inputs and outputs are given by name.\<close>

definition cap_record ::
  "string \<Rightarrow> string list \<Rightarrow> string list \<Rightarrow> attrs \<Rightarrow> Region list \<Rightarrow> Region list \<Rightarrow> string \<Rightarrow> Operator cap" where
  "cap_record kind inputs outputs attributes reads writes source_location r =
     (if kind \<notin> set ARITHMETIC_OP_KINDS then Inl UnsupportedOperator
      else
        let n = rb_op_counter r + 1;
            loc = (if source_location = [] then ''op#'' @ dec_int n @ '' '' @ kind else source_location)
        in case record_op (rb_graph r) kind inputs outputs attributes reads writes loc of
             (op, g) \<Rightarrow> Inr (op, r\<lparr>rb_graph := g, rb_op_counter := n\<rparr>))"

definition suffix :: "Recorder \<Rightarrow> string" where
  "suffix r = ''_t'' @ dec02 (rb_op_counter r)"

text \<open>\<^verbatim>\<open>out or self.fresh_buffer(f"{name}{self._suffix()}", shape)\<close>\<close>

definition out_or_fresh :: "TensorValue option \<Rightarrow> string \<Rightarrow> int list \<Rightarrow> TensorValue cap" where
  "out_or_fresh out name shape r =
     (case out of Some t \<Rightarrow> Inr (t, r) | None \<Rightarrow> fresh_buffer (name @ suffix r) shape F32 r)"

text \<open>\<^verbatim>\<open>self.fresh_buffer(f"{name}{self._suffix()}", shape, dtype)\<close>\<close>

definition fresh_suffixed :: "string \<Rightarrow> int list \<Rightarrow> DType \<Rightarrow> TensorValue cap" where
  "fresh_suffixed name shape dtype r = fresh_buffer (name @ suffix r) shape dtype r"

text \<open>
  The view an operator that mutates a storage returns: the same view under a name that carries the
  storage version.
\<close>

definition post_view :: "string \<Rightarrow> TensorValue \<Rightarrow> ValidLength option \<Rightarrow> TensorValue cap" where
  "post_view prefix base valid r =
     bindr (dict_get (g_storage_versions (rb_graph r)) (tv_storage_id base)) (\<lambda>v.
       graph_add_view (prefix @ ''_v'' @ dec_int v) (tv_shape base) (tv_dtype base)
         (tv_storage_id base) (tv_strides base) (tv_offset base) valid r)"

section \<open>The decode position\<close>

text \<open>What a model body may pass as a position: the scalar, a per-row tensor, or anything else.\<close>

datatype Position = PosScalar SymbolicScalar | PosRows TensorValue | PosOther

definition require_position :: "Position \<Rightarrow> unit cap" where
  "require_position position r =
     (case position of
        PosRows t \<Rightarrow>
          if tv_name t \<notin> g_row_position_tensors (rb_graph r) then Inl CaptureError
          else if tv_dtype t \<noteq> I32 \<or> length (tv_shape t) \<noteq> 1 then Inl CaptureError
          else Inr ((), r)
      | PosScalar s \<Rightarrow>
          if \<not> dict_has (g_scalars (rb_graph r)) (sc_name s) then Inl CaptureError else Inr ((), r)
      | PosOther \<Rightarrow> Inl CaptureError)"

definition position_name :: "Position \<Rightarrow> string result" where
  "position_name position =
     (case position of PosScalar s \<Rightarrow> Inr (sc_name s) | PosRows t \<Rightarrow> Inr (tv_name t)
      | PosOther \<Rightarrow> Inl AssertionError)"

definition position_form :: "Position \<Rightarrow> string" where
  "position_form position = (case position of PosRows _ \<Rightarrow> ''row'' | _ \<Rightarrow> ''scalar'')"

definition valid_plus_one :: "Position \<Rightarrow> ValidLength cap" where
  "valid_plus_one position =
     bindc (require_position position) (\<lambda>_.
     bindc (liftc (position_name position)) (\<lambda>p.
       liftc (case position of PosRows _ \<Rightarrow> from_positions p
              | _ \<Rightarrow> mk_ValidLength (Some (EStr (p @ ''+1''))) None ''positions'')))"

section \<open>Capturing a model body\<close>

text \<open>
  \<^verbatim>\<open>capture_model\<close> runs the body on a recorder; every exception is a capture error.  An unsupported
  operator is itself a capture error and is passed on unchanged.
\<close>

definition capture_model :: "Recorder option \<Rightarrow> unit cap \<Rightarrow> (OperatorGraph \<times> Recorder) result" where
  "capture_model backend body =
     (let r = (case backend of None \<Rightarrow> new_recorder | Some b \<Rightarrow> b) in
      case body r of
        Inr (_, r) \<Rightarrow> Inr (rb_graph r, r)
      | Inl e \<Rightarrow> Inl (if e \<in> {CaptureError, UnsupportedOperator} then e else CaptureError))"

end
