(* ===== verification/Capture_Dense.thy ===== *)
theory Capture_Dense
  imports Capture Lowerings_Common
begin

text \<open>
  The dense recording rules of \<^verbatim>\<open>compiler/capture_dense.py\<close>: each checks its operands, takes or creates
  the output buffer and records one operator with whole-tensor read and write regions.
\<close>

section \<open>Embedding and normalisation\<close>

definition embedding ::
  "TensorValue \<Rightarrow> TensorValue \<Rightarrow> TensorValue option \<Rightarrow> Position \<Rightarrow> TensorValue option \<Rightarrow> TensorValue cap" where
  "embedding ids token position_emb position out =
     bindc (require_position position) (\<lambda>_.
     bindc (case out of
              Some t \<Rightarrow> retc t
            | None \<Rightarrow> bindc (liftc (dim ids 0)) (\<lambda>b. bindc (liftc (dim token 1)) (\<lambda>c.
                out_or_fresh None ''hidden'' [b, c]))) (\<lambda>y.
     bindc (liftc (position_name position)) (\<lambda>p.
     let extra = (case position_emb of None \<Rightarrow> [] | Some t \<Rightarrow> [t]) in
     bindc (cap_record ''embedding'' (map tv_name ([ids, token] @ extra)) [tv_name y]
              [(''position'', VStr p), (''position_form'', VStr (position_form position)),
               (''pos_table'', VBool (position_emb \<noteq> None))]
              (map region_whole ([token, ids] @ extra)) [region_whole y] ''embedding lookup'') (\<lambda>_.
       retc y))))"

definition layer_norm ::
  "TensorValue \<Rightarrow> TensorValue \<Rightarrow> TensorValue \<Rightarrow> pyval \<Rightarrow> TensorValue option \<Rightarrow> string \<Rightarrow> TensorValue cap" where
  "layer_norm x gamma beta eps out name =
     bindc (out_or_fresh out name (tv_shape x)) (\<lambda>y.
     bindc (cap_record ''layer_norm'' (map tv_name [x, gamma, beta]) [tv_name y] [(''eps'', eps)]
              (map region_whole [x, gamma, beta]) [region_whole y] name) (\<lambda>_. retc y))"

definition rms_norm ::
  "TensorValue \<Rightarrow> TensorValue \<Rightarrow> pyval \<Rightarrow> TensorValue option \<Rightarrow> string \<Rightarrow> TensorValue cap" where
  "rms_norm x gamma eps out name =
     bindc (out_or_fresh out name (tv_shape x)) (\<lambda>y.
     bindc (cap_record ''rms_norm'' (map tv_name [x, gamma]) [tv_name y] [(''eps'', eps)]
              (map region_whole [x, gamma]) [region_whole y] name) (\<lambda>_. retc y))"

definition RMS_GATED_ACTIVATIONS :: "string list" where
  "RMS_GATED_ACTIVATIONS = [''sigmoid'']"

definition rms_norm_gated ::
  "TensorValue \<Rightarrow> TensorValue \<Rightarrow> TensorValue \<Rightarrow> pyval \<Rightarrow> string \<Rightarrow> TensorValue option \<Rightarrow> string
    \<Rightarrow> TensorValue cap" where
  "rms_norm_gated x gate gamma eps activation out name =
     bindc (checkc (activation \<in> set RMS_GATED_ACTIVATIONS) UnsupportedOperator) (\<lambda>_.
     bindc (checkc (tv_shape gate = tv_shape x) CaptureError) (\<lambda>_.
     bindc (checkc (length (tv_shape x) \<in> {2, 3}) CaptureError) (\<lambda>_.
     bindc (liftc (dim gate (-1))) (\<lambda>wg.
     bindc (liftc (dim gamma (-1))) (\<lambda>wm.
     bindc (checkc (\<not> (wg \<noteq> wm \<or> length (tv_shape gamma) \<noteq> 1)) CaptureError) (\<lambda>_.
     bindc (out_or_fresh out name (tv_shape x)) (\<lambda>y.
     bindc (cap_record ''rms_norm_gated'' (map tv_name [x, gate, gamma]) [tv_name y]
              [(''eps'', eps), (''activation'', VStr activation)]
              (map region_whole [x, gate, gamma]) [region_whole y] name) (\<lambda>_. retc y))))))))"

section \<open>Linear maps\<close>

text \<open>Activations of rank above 2 are flattened to a matrix view.\<close>

definition linear_operand :: "TensorValue \<Rightarrow> string \<Rightarrow> int \<Rightarrow> (TensorValue \<times> int) cap" where
  "linear_operand x name m r =
     (if length (tv_shape x) > 2
      then let k = prodl (tl (tv_shape x))
           in bindr (view_of x (name @ ''_flat'' @ suffix r) [m, k] r) (\<lambda>(x', r'). Inr ((x', k), r'))
      else bindr (dim x 1) (\<lambda>k. Inr ((x, k), r)))"

definition linear ::
  "TensorValue \<Rightarrow> TensorValue \<Rightarrow> TensorValue option \<Rightarrow> TensorValue option \<Rightarrow> string \<Rightarrow> int option
    \<Rightarrow> TensorValue cap" where
  "linear x w b out name grouped_heads =
     bindc (liftc (dim x 0)) (\<lambda>m.
     bindc (liftc (dim w 1)) (\<lambda>n.
     bindc (linear_operand x name m) (\<lambda>(x, k).
     bindc (case grouped_heads of
              None \<Rightarrow> retc ()
            | Some h \<Rightarrow> checkc (\<not> (h < 1 \<or> k mod h \<noteq> 0 \<or> n mod h \<noteq> 0)) ValueError) (\<lambda>_.
     bindc (out_or_fresh out name [m, n]) (\<lambda>y.
     let extra = (case b of None \<Rightarrow> [] | Some t \<Rightarrow> [t]) in
     bindc (cap_record ''linear'' (map tv_name ([x, w] @ extra)) [tv_name y]
              ([(''bias'', VBool (b \<noteq> None))] @
               (case grouped_heads of None \<Rightarrow> [] | Some h \<Rightarrow> [(''grouped_heads'', VInt h)]))
              (map region_whole ([x, w] @ extra)) [region_whole y] name) (\<lambda>_. retc y))))))"

definition linear_fp8 ::
  "TensorValue \<Rightarrow> TensorValue \<Rightarrow> TensorValue \<Rightarrow> TensorValue option \<Rightarrow> string \<Rightarrow> int \<Rightarrow> TensorValue cap" where
  "linear_fp8 x w scale out name quant_block =
     bindc (liftc (unpack2 (tv_shape x))) (\<lambda>(m, k).
     bindc (liftc (unpack2 (tv_shape w))) (\<lambda>(n, k_w).
     bindc (checkc (k_w = k) ValueError) (\<lambda>_.
     bindc (liftc (py_mod k quant_block)) (\<lambda>kr.
     bindc (checkc (kr = 0) ValueError) (\<lambda>_.
     bindc (checkc (n mod 16 = 0) ValueError) (\<lambda>_.
     bindc (checkc (tv_shape scale = [- ((- n) div quant_block), k div quant_block]) ValueError) (\<lambda>_.
     bindc (out_or_fresh out name [m, n]) (\<lambda>y.
     bindc (cap_record ''linear_fp8'' (map tv_name [x, w, scale]) [tv_name y]
              [(''weight_layout'', VStr ''fp8_block''), (''quant_block'', VInt quant_block),
               (''bias'', VBool False)]
              (map region_whole [x, w, scale]) [region_whole y] name) (\<lambda>_. retc y)))))))))"

section \<open>Elementwise operators\<close>

definition gelu :: "TensorValue \<Rightarrow> TensorValue option \<Rightarrow> string \<Rightarrow> TensorValue cap" where
  "gelu x out name =
     bindc (out_or_fresh out name (tv_shape x)) (\<lambda>y.
     bindc (cap_record ''gelu'' [tv_name x] [tv_name y] [(''approximation'', VStr ''tanh'')]
              [region_whole x] [region_whole y] name) (\<lambda>_. retc y))"

definition add :: "TensorValue \<Rightarrow> TensorValue \<Rightarrow> string \<Rightarrow> TensorValue cap" where
  "add a b name =
     bindc (out_or_fresh None name (tv_shape a)) (\<lambda>y.
     bindc (cap_record ''add'' (map tv_name [a, b]) [tv_name y] []
              (map region_whole [a, b]) [region_whole y] name) (\<lambda>_. retc y))"

definition swiglu :: "TensorValue \<Rightarrow> TensorValue \<Rightarrow> TensorValue option \<Rightarrow> string \<Rightarrow> TensorValue cap" where
  "swiglu gate up out name =
     bindc (out_or_fresh out name (tv_shape gate)) (\<lambda>y.
     bindc (cap_record ''swiglu'' (map tv_name [gate, up]) [tv_name y] []
              (map region_whole [gate, up]) [region_whole y] name) (\<lambda>_. retc y))"

section \<open>Rotary embedding\<close>

definition rope_partial_ok ::
  "TensorValue \<Rightarrow> TensorValue \<Rightarrow> TensorValue \<Rightarrow> int option \<Rightarrow> unit cap" where
  "rope_partial_ok x cos_table sin_table rotary_dim =
     bindc (liftc (dim x (-1))) (\<lambda>head_dim.
     case rotary_dim of
       None \<Rightarrow> failc CaptureError
     | Some rd \<Rightarrow>
         bindc (checkc (\<not> (rd mod 2 \<noteq> 0 \<or> \<not> (0 < rd \<and> rd \<le> head_dim))) CaptureError) (\<lambda>_.
         bindc (liftc (dim cos_table (-1))) (\<lambda>c.
         bindc (checkc (c = rd div 2) CaptureError) (\<lambda>_.
         bindc (liftc (dim sin_table (-1))) (\<lambda>s.
           checkc (s = rd div 2) CaptureError)))))"

definition rope ::
  "TensorValue \<Rightarrow> TensorValue \<Rightarrow> TensorValue \<Rightarrow> Position \<Rightarrow> int \<Rightarrow> string \<Rightarrow> int option \<Rightarrow> string
    \<Rightarrow> TensorValue cap" where
  "rope x cos_table sin_table position layer which rotary_dim convention =
     bindc (checkc (convention \<in> {''rotate_half'', ''neox_partial'', ''interleaved''}) CaptureError) (\<lambda>_.
     bindc (if convention \<in> {''neox_partial'', ''interleaved''}
            then rope_partial_ok x cos_table sin_table rotary_dim else retc ()) (\<lambda>_.
     bindc (require_position position) (\<lambda>_.
     bindc (out_or_fresh None (''rope_'' @ which @ ''_l'' @ dec_int layer) (tv_shape x)) (\<lambda>y.
     bindc (liftc (position_name position)) (\<lambda>p.
     bindc (cap_record ''rope'' (map tv_name [x, cos_table, sin_table]) [tv_name y]
              ([(''layer'', VInt layer), (''which'', VStr which), (''position'', VStr p),
                (''convention'', VStr convention), (''position_form'', VStr (position_form position))] @
               (case rotary_dim of None \<Rightarrow> [] | Some rd \<Rightarrow> [(''rotary_dim'', VInt rd)]))
              (map region_whole [x, cos_table, sin_table]) [region_whole y]
              (''layer '' @ dec_int layer @ '' rope '' @ which)) (\<lambda>_. retc y))))))"

section \<open>Mixture of experts\<close>

text \<open>The operands and attributes the router family adds, after its checks.\<close>

definition route_family ::
  "string \<Rightarrow> string \<Rightarrow> int \<Rightarrow> int \<Rightarrow> int \<Rightarrow> TensorValue option \<Rightarrow> int \<Rightarrow> int \<Rightarrow> bool
    \<Rightarrow> TensorValue option \<Rightarrow> TensorValue option \<Rightarrow> (TensorValue list \<times> attrs) result" where
  "route_family mode score_fn b e k bias n_group topk_group norm_topk_prob tid2eid token_ids =
     (if mode = ''hash'' then
        (case (tid2eid, token_ids) of
           (Some t, Some i) \<Rightarrow>
             if tv_dtype t \<noteq> I32 then Inl ValueError
             else bindr (dim t 1) (\<lambda>tk.
             if tk \<noteq> k then Inl ValueError
             else if tv_dtype i \<noteq> I32 \<or> tv_shape i \<noteq> [b] then Inl ValueError
             else if score_fn \<noteq> ''sqrtsoftplus'' then Inl ValueError
             else Inr ([t, i], []))
         | _ \<Rightarrow> Inl ValueError)
      else if mode = ''learned'' \<and> score_fn = ''sigmoid_noaux_tc'' then
        (case bias of
           None \<Rightarrow> Inl ValueError
         | Some bt \<Rightarrow>
             if tv_shape bt \<noteq> [e] then Inl ValueError
             else if n_group < 1 \<or> e mod n_group \<noteq> 0 then Inl ValueError
             else if \<not> (1 \<le> topk_group \<and> topk_group \<le> n_group) then Inl ValueError
             else if k > 2 * topk_group * (e div n_group) then Inl ValueError
             else if tv_dtype bt \<noteq> F32 then Inl ValueError
             else Inr ([bt], [(''n_group'', VInt n_group), (''topk_group'', VInt topk_group),
                              (''norm_topk_prob'', VBool norm_topk_prob), (''routed_bias'', VBool True)]))
      else if mode = ''learned'' \<and> score_fn = ''sqrtsoftplus'' then
        Inr ([], [(''norm_topk_prob'', VBool True), (''routed_bias'', VBool False)])
      else Inl ValueError)"

definition moe_route ::
  "TensorValue \<Rightarrow> TensorValue \<Rightarrow> TensorValue \<Rightarrow> TensorValue \<Rightarrow> string \<Rightarrow> string \<Rightarrow> int option \<Rightarrow> pyval
    \<Rightarrow> TensorValue option \<Rightarrow> int \<Rightarrow> int \<Rightarrow> bool \<Rightarrow> TensorValue option \<Rightarrow> TensorValue option \<Rightarrow> string
    \<Rightarrow> (TensorValue \<times> TensorValue) cap" where
  "moe_route x router_w ids weights mode score_fn top_k routed_scaling_factor bias n_group topk_group
     norm_topk_prob tid2eid token_ids name =
     bindc (liftc (unpack2 (tv_shape x))) (\<lambda>(b, h).
     bindc (liftc (unpack2 (tv_shape router_w))) (\<lambda>(e, h_w).
     bindc (checkc (h_w = h) ValueError) (\<lambda>_.
     bindc (liftc (case top_k of Some k \<Rightarrow> Inr k | None \<Rightarrow> dim weights 1)) (\<lambda>k.
     bindc (checkc (\<not> (tv_dtype ids \<noteq> I32 \<or> tv_dtype weights \<noteq> F32)) ValueError) (\<lambda>_.
     bindc (checkc (\<not> (tv_shape ids \<noteq> [b, k] \<or> tv_shape weights \<noteq> [b, k])) ValueError) (\<lambda>_.
     bindc (checkc (\<not> (k < 1 \<or> k > e)) ValueError) (\<lambda>_.
     bindc (liftc (py_float routed_scaling_factor)) (\<lambda>rsf.
     bindc (liftc (route_family mode score_fn b e k bias n_group topk_group norm_topk_prob tid2eid
                     token_ids)) (\<lambda>(extra, family_attrs).
     bindc (cap_record ''moe_route'' (map tv_name ([x, router_w, ids, weights] @ extra))
              [tv_name ids, tv_name weights]
              ([(''mode'', VStr mode), (''score_fn'', VStr score_fn), (''top_k'', VInt k),
                (''num_experts'', VInt e), (''routed_scaling_factor'', rsf)] @ family_attrs)
              (map region_whole ([x, router_w] @ extra)) (map region_whole [ids, weights]) name) (\<lambda>_.
       retc (ids, weights)))))))))))"

definition moe_expert ::
  "TensorValue \<Rightarrow> TensorValue \<Rightarrow> TensorValue \<Rightarrow> TensorValue \<Rightarrow> TensorValue option \<Rightarrow> pyval option \<Rightarrow> string
    \<Rightarrow> TensorValue cap" where
  "moe_expert x gate_up down ids out swiglu_limit name =
     bindc (liftc (unpack2 (tv_shape x))) (\<lambda>(b, h).
     bindc (liftc (unpack3 (tv_shape gate_up))) (\<lambda>(e, two_i, h_w).
     bindc (liftc (unpack3 (tv_shape down))) (\<lambda>(e_d, h_d, i_d).
     bindc (liftc (dim ids 1)) (\<lambda>k.
     bindc (checkc (\<not> (h_w \<noteq> h \<or> e_d \<noteq> e \<or> h_d \<noteq> h \<or> two_i \<noteq> 2 * i_d)) ValueError) (\<lambda>_.
     bindc (checkc (tv_dtype ids = I32) ValueError) (\<lambda>_.
     bindc (checkc (\<not> (tv_dtype gate_up \<noteq> F32 \<or> tv_dtype down \<noteq> F32 \<or> tv_dtype x \<noteq> F32)) ValueError) (\<lambda>_.
     bindc (case out of
              Some t \<Rightarrow> retc t
            | None \<Rightarrow> (\<lambda>r. fresh_buffer (name @ suffix r @ ''_partials'') [b, k, h] F32 r)) (\<lambda>y.
     bindc (checkc (tv_shape y = [b, k, h]) ValueError) (\<lambda>_.
     bindc (liftc (case swiglu_limit of None \<Rightarrow> Inr []
                   | Some l \<Rightarrow> bindr (py_float l) (\<lambda>f. Inr [(''swiglu_limit'', f)]))) (\<lambda>lim.
     bindc (cap_record ''moe_expert'' (map tv_name [x, gate_up, down, ids]) [tv_name y]
              ([(''num_experts'', VInt e), (''intermediate'', VInt i_d), (''top_k'', VInt k)] @ lim)
              (map region_whole [x, gate_up, down, ids]) [region_whole y] name) (\<lambda>_. retc y)))))))))))"

definition moe_combine ::
  "TensorValue \<Rightarrow> TensorValue \<Rightarrow> TensorValue option \<Rightarrow> TensorValue option \<Rightarrow> string \<Rightarrow> TensorValue cap" where
  "moe_combine partials weights shared out name =
     bindc (liftc (unpack3 (tv_shape partials))) (\<lambda>(b, k, h).
     bindc (checkc (\<not> (tv_dtype weights \<noteq> F32 \<or> tv_shape weights \<noteq> [b, k])) ValueError) (\<lambda>_.
     bindc (case shared of None \<Rightarrow> retc () | Some s \<Rightarrow> checkc (tv_shape s = [b, h]) ValueError) (\<lambda>_.
     bindc (out_or_fresh out name [b, h]) (\<lambda>y.
     bindc (checkc (tv_shape y = [b, h]) ValueError) (\<lambda>_.
     let extra = (case shared of None \<Rightarrow> [] | Some s \<Rightarrow> [s]) in
     bindc (cap_record ''moe_combine'' (map tv_name ([partials, weights] @ extra)) [tv_name y]
              [(''top_k'', VInt k), (''shared'', VBool (shared \<noteq> None))]
              (map region_whole ([partials, weights] @ extra)) [region_whole y] name) (\<lambda>_. retc y))))))"

end
