(* ===== verification/Capture_Attention.thy ===== *)
theory Capture_Attention
  imports Capture Lowerings_Common
begin

text \<open>
  The attention recording rules of \<^verbatim>\<open>compiler/capture_attention.py\<close>.  Consecutive guards that raise the
  same exception are one check; the cache and pool updates record write effects and return views of
  the same storage under a name with the bumped storage version.
\<close>

section \<open>Indexer\<close>

text \<open>\<^verbatim>\<open>d ** -0.5\<close>\<close>

definition py_rsqrt :: "int \<Rightarrow> pyval result" where
  "py_rsqrt d = (if d = 0 then Inl ZeroDivisionError else Inr (VFloat (FRsqrt d)))"

definition indexer_scores ::
  "TensorValue \<Rightarrow> TensorValue \<Rightarrow> TensorValue \<Rightarrow> TensorValue option \<Rightarrow> string \<Rightarrow> TensorValue cap" where
  "indexer_scores q entries mix_w out name =
     bindc (liftc (unpack3 (tv_shape q))) (\<lambda>(b, h, d).
     bindc (liftc (unpack3 (tv_shape entries))) (\<lambda>(b_c, m, d_c).
     bindc (checkc ((b_c, d_c) = (b, d) \<and> tv_shape mix_w = [b, h]) ValueError) (\<lambda>_.
     bindc (out_or_fresh out name [b, m]) (\<lambda>y.
     bindc (liftc (py_rsqrt d)) (\<lambda>scale.
     bindc (cap_record ''indexer_scores'' (map tv_name [q, entries, mix_w]) [tv_name y]
              [(''heads'', VInt h), (''head_dim'', VInt d), (''capacity'', VInt m), (''scale'', scale),
               (''activation'', VStr ''relu'')]
              (map region_whole [q, entries, mix_w]) [region_whole y] name) (\<lambda>_. retc y))))))"

text \<open>\<^verbatim>\<open>k\<close> is an \<^verbatim>\<open>int\<close>; \<^verbatim>\<open>idx or fresh\<close> and \<^verbatim>\<open>bias or fresh\<close> take the two outputs.\<close>

definition given_or_fresh :: "TensorValue option \<Rightarrow> string \<Rightarrow> int list \<Rightarrow> DType \<Rightarrow> TensorValue cap" where
  "given_or_fresh t name shape dtype =
     (case t of Some y \<Rightarrow> retc y | None \<Rightarrow> fresh_suffixed name shape dtype)"

definition index_topk ::
  "TensorValue \<Rightarrow> TensorValue \<Rightarrow> int \<Rightarrow> TensorValue option \<Rightarrow> TensorValue option \<Rightarrow> string
    \<Rightarrow> (TensorValue \<times> TensorValue) cap" where
  "index_topk scores valid_counts k idx bias name =
     bindc (liftc (unpack2 (tv_shape scores))) (\<lambda>(b, m).
     bindc (checkc (tv_dtype scores = F32
        \<and> \<not> (tv_shape valid_counts \<noteq> [b] \<or> tv_dtype valid_counts \<noteq> I32)
        \<and> \<not> (k < 1 \<or> k > m)) ValueError) (\<lambda>_.
     bindc (given_or_fresh idx (name @ ''_idx'') [b, k] I32) (\<lambda>i.
     bindc (given_or_fresh bias (name @ ''_bias'') [b, k] F32) (\<lambda>w.
     bindc (cap_record ''index_topk'' (map tv_name [scores, valid_counts]) (map tv_name [i, w])
              [(''k'', VInt k), (''capacity'', VInt m), (''tie_break'', VStr ''lowest_index''),
               (''score_dtype'', VStr ''f32''), (''index_dtype'', VStr ''i32''),
               (''nan_policy'', VStr ''exclude''),
               (''pad'', VStr ''idx=-1, bias=0.0 beyond a row's valid count'')]
              (map region_whole [scores, valid_counts]) (map region_whole [i, w]) name) (\<lambda>_.
       retc (i, w))))))"

section \<open>Contiguous cache\<close>

definition cache_append ::
  "TensorValue \<Rightarrow> TensorValue \<Rightarrow> TensorValue \<Rightarrow> TensorValue \<Rightarrow> Position \<Rightarrow> int
    \<Rightarrow> (TensorValue \<times> TensorValue) cap" where
  "cache_append k_cache v_cache k_new v_new position layer =
     bindc (valid_plus_one position) (\<lambda>valid.
     bindc (liftc (position_name position)) (\<lambda>p.
     bindc (cap_record ''cache_append'' (map tv_name [k_cache, v_cache, k_new, v_new]) []
              [(''layer'', VInt layer), (''position'', VStr p),
               (''position_form'', VStr (if is_row valid then ''row'' else ''scalar''))]
              (map region_whole [k_new, v_new])
              [region_prefix k_cache 2 valid, region_prefix v_cache 2 valid]
              (''layer '' @ dec_int layer @ '' kv cache append'')) (\<lambda>_.
     bindc (post_view (''k_cache_l'' @ dec_int layer) k_cache (Some valid)) (\<lambda>k_post.
     bindc (post_view (''v_cache_l'' @ dec_int layer) v_cache (Some valid)) (\<lambda>v_post.
       retc (k_post, v_post))))))"

text \<open>
  The regions of a grouped cache read: one prefix for plain multi-head attention, else one box per
  key/value head (\<^verbatim>\<open>k_regions\<close> and \<^verbatim>\<open>v_regions\<close>).
\<close>

definition grouped_regions ::
  "TensorValue \<Rightarrow> int \<Rightarrow> int \<Rightarrow> int \<Rightarrow> ValidLength \<Rightarrow> string \<Rightarrow> Region list result" where
  "grouped_regions cache b h kvh valid p =
     (if kvh = h then Inr [region_prefix cache 2 valid]
      else bindr (py_floordiv h kvh) (\<lambda>group.
        mapr (\<lambda>g. bindr (dim cache 3) (\<lambda>d.
          Inr (plain_region cache
            [(0, HInt b), (g * group, HInt ((g + 1) * group)),
             (0, if is_row valid then HRow valid else HSym (p @ ''+1'')), (0, HInt d)])))
          (urange kvh)))"

definition attention_scores ::
  "TensorValue \<Rightarrow> TensorValue \<Rightarrow> Position \<Rightarrow> pyval \<Rightarrow> int \<Rightarrow> int option \<Rightarrow> TensorValue cap" where
  "attention_scores q k_cache position scale layer kv_heads =
     bindc (require_position position) (\<lambda>_.
     bindc (liftc (dim q 0)) (\<lambda>b.
     bindc (liftc (dim q 1)) (\<lambda>h.
     bindc (liftc (dim k_cache 2)) (\<lambda>s.
     bindc (fresh_suffixed (''scores_l'' @ dec_int layer) [b, h, s] F32) (\<lambda>y.
     bindc (liftc (position_name position)) (\<lambda>p.
     bindc (valid_plus_one position) (\<lambda>valid.
     let kvh = (case kv_heads of Some n \<Rightarrow> n | None \<Rightarrow> h) in
     bindc (liftc (py_float scale)) (\<lambda>sc.
     bindc (liftc (grouped_regions k_cache b h kvh valid p)) (\<lambda>ks.
     bindc (liftc (region_tile y [(0, HInt b), (0, HInt h), (0, HInt s)])) (\<lambda>w.
     bindc (cap_record ''attention_scores'' (map tv_name [q, k_cache]) [tv_name y]
              [(''scale'', sc), (''layer'', VInt layer), (''position'', VStr p),
               (''position_form'', VStr (if is_row valid then ''row'' else ''scalar'')),
               (''kv_heads'', VInt kvh)]
              (region_whole q # ks) [w]
              (''layer '' @ dec_int layer @ '' attention scores'')) (\<lambda>_. retc y)))))))))))"

definition softmax :: "TensorValue \<Rightarrow> Position \<Rightarrow> int \<Rightarrow> TensorValue cap" where
  "softmax scores position layer =
     bindc (require_position position) (\<lambda>_.
     bindc (fresh_suffixed (''probs_l'' @ dec_int layer) (tv_shape scores) F32) (\<lambda>y.
     bindc (liftc (position_name position)) (\<lambda>p.
     bindc (valid_plus_one position) (\<lambda>valid.
     bindc (cap_record ''softmax'' [tv_name scores] [tv_name y]
              [(''layer'', VInt layer), (''position'', VStr p),
               (''position_form'', VStr (if is_row valid then ''row'' else ''scalar''))]
              [region_prefix scores 2 valid] [region_whole y]
              (''layer '' @ dec_int layer @ '' softmax'')) (\<lambda>_. retc y)))))"

definition attention_values ::
  "TensorValue \<Rightarrow> TensorValue \<Rightarrow> Position \<Rightarrow> int \<Rightarrow> int option \<Rightarrow> TensorValue option \<Rightarrow> TensorValue cap" where
  "attention_values probs v_cache position layer kv_heads gate =
     bindc (require_position position) (\<lambda>_.
     bindc (liftc (dim probs 0)) (\<lambda>b.
     bindc (liftc (dim probs 1)) (\<lambda>h.
     bindc (liftc (dim v_cache 3)) (\<lambda>d.
     let extra = (case gate of None \<Rightarrow> [] | Some t \<Rightarrow> [t]) in
     bindc (checkc (\<forall>t \<in> set extra. tv_shape t = [b, h, d]) ValueError) (\<lambda>_.
     bindc (fresh_suffixed (''ctx_l'' @ dec_int layer) [b, h, d] F32) (\<lambda>y.
     bindc (liftc (position_name position)) (\<lambda>p.
     bindc (valid_plus_one position) (\<lambda>valid.
     let kvh = (case kv_heads of Some n \<Rightarrow> n | None \<Rightarrow> h) in
     bindc (liftc (grouped_regions v_cache b h kvh valid p)) (\<lambda>vs.
     bindc (cap_record ''attention_values'' (map tv_name ([probs, v_cache] @ extra)) [tv_name y]
              ([(''layer'', VInt layer), (''position'', VStr p),
                (''position_form'', VStr (if is_row valid then ''row'' else ''scalar'')),
                (''kv_heads'', VInt kvh)] @ (if extra = [] then [] else [(''gated'', VBool True)]))
              ([region_prefix probs 2 valid] @ vs @ map region_whole extra) [region_whole y]
              (''layer '' @ dec_int layer @ '' attention values'')) (\<lambda>_. retc y))))))))))"

section \<open>Paged cache\<close>

definition cache_append_paged ::
  "TensorValue \<Rightarrow> TensorValue \<Rightarrow> TensorValue \<Rightarrow> TensorValue \<Rightarrow> TensorValue \<Rightarrow> Position \<Rightarrow> int
    \<Rightarrow> (TensorValue \<times> TensorValue) cap" where
  "cache_append_paged k_pool v_pool slot_table k_new v_new position layer =
     bindc (require_position position) (\<lambda>_.
     bindc (liftc (position_name position)) (\<lambda>p.
     bindc (liftc (unpack3 (tv_shape k_new))) (\<lambda>(b_new, kvh_new, d_new).
     bindc (liftc (dim k_pool 0)) (\<lambda>slots.
     bindc (checkc (tv_shape k_pool = [slots, kvh_new, d_new]) CaptureError) (\<lambda>_.
     bindc (liftc (dim slot_table 0)) (\<lambda>rows.
     bindc (checkc (rows = b_new) CaptureError) (\<lambda>_.
     bindc (liftc (region_indirect k_pool slot_table 0 None)) (\<lambda>kr.
     bindc (liftc (region_indirect v_pool slot_table 0 None)) (\<lambda>vr.
     bindc (cap_record ''cache_append_paged''
              (map tv_name [k_pool, v_pool, slot_table, k_new, v_new]) []
              [(''layer'', VInt layer), (''position'', VStr p),
               (''position_form'', VStr (position_form position))]
              (map region_whole [k_new, v_new]) [kr, vr]
              (''layer '' @ dec_int layer @ '' paged kv cache append'')) (\<lambda>_.
     bindc (post_view (''k_pool_l'' @ dec_int layer) k_pool None) (\<lambda>k_post.
     bindc (post_view (''v_pool_l'' @ dec_int layer) v_pool None) (\<lambda>v_post.
       retc (k_post, v_post)))))))))))))"

definition attention_scores_paged ::
  "TensorValue \<Rightarrow> TensorValue \<Rightarrow> TensorValue \<Rightarrow> Position \<Rightarrow> pyval \<Rightarrow> int \<Rightarrow> int option \<Rightarrow> TensorValue cap" where
  "attention_scores_paged q k_pool slot_table position scale layer kv_heads =
     bindc (require_position position) (\<lambda>_.
     bindc (liftc (dim q 0)) (\<lambda>b.
     bindc (liftc (dim q 1)) (\<lambda>h.
     bindc (liftc (dim slot_table 1)) (\<lambda>s.
     bindc (fresh_suffixed (''scores_l'' @ dec_int layer) [b, h, s] F32) (\<lambda>y.
     bindc (liftc (position_name position)) (\<lambda>p.
     let kvh = (case kv_heads of Some n \<Rightarrow> n | None \<Rightarrow> h) in
     bindc (liftc (py_float scale)) (\<lambda>sc.
     bindc (liftc (region_indirect k_pool slot_table 0 None)) (\<lambda>kr.
     bindc (liftc (region_tile y [(0, HInt b), (0, HInt h), (0, HInt s)])) (\<lambda>w.
     bindc (liftc (if kvh \<noteq> h then py_floordiv h kvh else Inr 0)) (\<lambda>_.
     bindc (cap_record ''attention_scores_paged'' (map tv_name [q, k_pool, slot_table]) [tv_name y]
              [(''scale'', sc), (''layer'', VInt layer), (''position'', VStr p), (''kv_heads'', VInt kvh),
               (''position_form'', VStr (position_form position))]
              [region_whole q, kr] [w]
              (''layer '' @ dec_int layer @ '' paged attention scores'')) (\<lambda>_. retc y)))))))))))"

definition attention_values_paged ::
  "TensorValue \<Rightarrow> TensorValue \<Rightarrow> TensorValue \<Rightarrow> Position \<Rightarrow> int \<Rightarrow> int option \<Rightarrow> TensorValue cap" where
  "attention_values_paged probs v_pool slot_table position layer kv_heads =
     bindc (require_position position) (\<lambda>_.
     bindc (liftc (dim probs 0)) (\<lambda>b.
     bindc (liftc (dim probs 1)) (\<lambda>h.
     bindc (liftc (dim v_pool 2)) (\<lambda>d.
     bindc (fresh_suffixed (''ctx_l'' @ dec_int layer) [b, h, d] F32) (\<lambda>y.
     bindc (liftc (position_name position)) (\<lambda>p.
     let kvh = (case kv_heads of Some n \<Rightarrow> n | None \<Rightarrow> h) in
     bindc (liftc (mk_ValidLength (Some (EStr (p @ ''+1''))) None ''positions'')) (\<lambda>valid.
     bindc (liftc (region_indirect v_pool slot_table 0 None)) (\<lambda>vr.
     bindc (liftc (if kvh \<noteq> h then py_floordiv h kvh else Inr 0)) (\<lambda>_.
     bindc (cap_record ''attention_values_paged'' (map tv_name [probs, v_pool, slot_table]) [tv_name y]
              [(''layer'', VInt layer), (''position'', VStr p), (''kv_heads'', VInt kvh),
               (''position_form'', VStr (position_form position))]
              [region_prefix probs 2 valid, vr] [region_whole y]
              (''layer '' @ dec_int layer @ '' paged attention values'')) (\<lambda>_. retc y))))))))))"

section \<open>Latent attention\<close>

definition conjugate_rope ::
  "TensorValue \<Rightarrow> TensorValue \<Rightarrow> TensorValue \<Rightarrow> Position \<Rightarrow> int \<Rightarrow> string \<Rightarrow> string \<Rightarrow> int option
    \<Rightarrow> TensorValue option \<Rightarrow> TensorValue cap" where
  "conjugate_rope x cos_table sin_table position layer which convention rotary_dim out =
     bindc (checkc (convention \<in> {''interleaved'', ''rotate_half''}) CaptureError) (\<lambda>_.
     bindc (liftc (dim x (-1))) (\<lambda>head_dim.
     bindc (liftc (dim cos_table (-1))) (\<lambda>table_half.
     let rot = (case rotary_dim of Some n \<Rightarrow> n | None \<Rightarrow> table_half * 2) in
     bindc (checkc (tv_shape sin_table = tv_shape cos_table
        \<and> \<not> (rot mod 2 \<noteq> 0 \<or> \<not> (0 < rot \<and> rot \<le> head_dim)) \<and> table_half = rot div 2) CaptureError) (\<lambda>_.
     bindc (require_position position) (\<lambda>_.
     bindc (out_or_fresh out (''crope_'' @ which @ ''_l'' @ dec_int layer) (tv_shape x)) (\<lambda>y.
     bindc (checkc (tv_shape y = tv_shape x) ValueError) (\<lambda>_.
     bindc (liftc (position_name position)) (\<lambda>p.
     bindc (cap_record ''conjugate_rope'' (map tv_name [x, cos_table, sin_table]) [tv_name y]
              [(''layer'', VInt layer), (''which'', VStr which), (''position'', VStr p),
               (''convention'', VStr convention), (''rotary_dim'', VInt rot),
               (''position_form'', VStr (position_form position))]
              (map region_whole [x, cos_table, sin_table]) [region_whole y]
              (''layer '' @ dec_int layer @ '' conjugate rope '' @ which)) (\<lambda>_. retc y)))))))))"

text \<open>The shape guards of \<^verbatim>\<open>mla_scores\<close> in program order; \<^verbatim>\<open>or\<close> short-circuits.\<close>

definition mla_scores_ok ::
  "int \<Rightarrow> int \<Rightarrow> int \<Rightarrow> TensorValue \<Rightarrow> TensorValue \<Rightarrow> TensorValue \<Rightarrow> TensorValue \<Rightarrow> TensorValue
    \<Rightarrow> TensorValue option \<Rightarrow> int \<Rightarrow> int result" where
  "mla_scores_ok b h d latent_pool window_table comp_pool comp_idx sink bias window =
     bindr (dim latent_pool 0) (\<lambda>l0. if l0 \<noteq> b then Inl ValueError else
     bindr (dim latent_pool 2) (\<lambda>l2. if l2 \<noteq> d then Inl ValueError else
     bindr (dim window_table 0) (\<lambda>w0.
     if w0 \<noteq> b \<or> tv_dtype window_table \<noteq> I32 then Inl ValueError else
     bindr (dim latent_pool 1) (\<lambda>l1. bindr (dim window_table 1) (\<lambda>w1.
     if l1 \<noteq> w1 then Inl ValueError else
     bindr (dim comp_pool 0) (\<lambda>c0. if c0 \<noteq> b then Inl ValueError else
     bindr (dim comp_pool 2) (\<lambda>c2. if c2 \<noteq> d then Inl ValueError else
     bindr (dim comp_idx 1) (\<lambda>k. bindr (dim comp_idx 0) (\<lambda>i0.
     if i0 \<noteq> b \<or> tv_dtype comp_idx \<noteq> I32 then Inl ValueError
     else if tv_shape sink \<notin> {[h], [b, h]} then Inl ValueError
     else if (\<exists>t \<in> set_option bias. tv_shape t \<noteq> [b, k] \<or> tv_dtype t \<noteq> F32) then Inl ValueError
     else if window < 1 then Inl ValueError
     else Inr k)))))))))"

definition mla_scores ::
  "TensorValue \<Rightarrow> TensorValue \<Rightarrow> TensorValue \<Rightarrow> TensorValue \<Rightarrow> TensorValue \<Rightarrow> TensorValue \<Rightarrow> Position
    \<Rightarrow> pyval \<Rightarrow> int \<Rightarrow> int \<Rightarrow> TensorValue option \<Rightarrow> TensorValue cap" where
  "mla_scores q latent_pool window_table comp_pool comp_idx sink position scale layer window bias =
     bindc (require_position position) (\<lambda>_.
     bindc (liftc (unpack3 (tv_shape q))) (\<lambda>(b, h, d).
     bindc (liftc (mla_scores_ok b h d latent_pool window_table comp_pool comp_idx sink bias window)) (\<lambda>k.
     let width = window + k + 1; extra = (case bias of None \<Rightarrow> [] | Some t \<Rightarrow> [t]) in
     bindc (fresh_suffixed (''mla_probs_l'' @ dec_int layer) [b, h, width] F32) (\<lambda>y.
     bindc (liftc (position_name position)) (\<lambda>p.
     bindc (liftc (region_indirect latent_pool window_table 1 None)) (\<lambda>lr.
     bindc (liftc (py_float scale)) (\<lambda>sc.
     bindc (cap_record ''mla_scores''
              (map tv_name ([q, latent_pool, window_table, comp_pool, comp_idx, sink] @ extra)) [tv_name y]
              [(''scale'', sc), (''layer'', VInt layer), (''position'', VStr p), (''window'', VInt window),
               (''comp_slots'', VInt k), (''width'', VInt width), (''sink'', VStr ''last''),
               (''position_form'', VStr (position_form position))]
              ([region_whole q, lr] @ map region_whole ([window_table, comp_pool, comp_idx, sink] @ extra))
              [region_whole y] (''layer '' @ dec_int layer @ '' mla scores'')) (\<lambda>_. retc y))))))))"

text \<open>The index table is rejected only when its width differs from the pool and its type is not i32.\<close>

definition mla_values ::
  "TensorValue \<Rightarrow> TensorValue \<Rightarrow> TensorValue \<Rightarrow> TensorValue \<Rightarrow> TensorValue \<Rightarrow> Position \<Rightarrow> int \<Rightarrow> int
    \<Rightarrow> TensorValue option \<Rightarrow> TensorValue cap" where
  "mla_values probs latent_pool window_table comp_pool comp_idx position layer window out =
     bindc (require_position position) (\<lambda>_.
     bindc (liftc (unpack3 (tv_shape probs))) (\<lambda>(b, h, width).
     bindc (liftc (dim latent_pool 2)) (\<lambda>d.
     bindc (liftc (dim comp_pool 2)) (\<lambda>c2.
     bindc (checkc (c2 = d) ValueError) (\<lambda>_.
     bindc (liftc (dim comp_idx 1)) (\<lambda>k.
     bindc (liftc (dim comp_pool 1)) (\<lambda>c1.
     bindc (checkc (\<not> (k \<noteq> c1 \<and> tv_dtype comp_idx \<noteq> I32) \<and> width = window + k + 1) ValueError) (\<lambda>_.
     bindc (out_or_fresh out (''mla_ctx_l'' @ dec_int layer) [b, h, d]) (\<lambda>y.
     bindc (checkc (tv_shape y = [b, h, d]) ValueError) (\<lambda>_.
     bindc (liftc (position_name position)) (\<lambda>p.
     bindc (liftc (region_indirect latent_pool window_table 1 None)) (\<lambda>lr.
     bindc (cap_record ''mla_values''
              (map tv_name [probs, latent_pool, window_table, comp_pool, comp_idx]) [tv_name y]
              [(''layer'', VInt layer), (''position'', VStr p), (''window'', VInt window),
               (''comp_slots'', VInt k), (''width'', VInt width),
               (''position_form'', VStr (position_form position))]
              ([region_whole probs, lr] @ map region_whole [window_table, comp_pool, comp_idx])
              [region_whole y] (''layer '' @ dec_int layer @ '' mla values'')) (\<lambda>_. retc y)))))))))))))"

end
