(* ===== verification/Capture_Recurrent.thy ===== *)
theory Capture_Recurrent
  imports Capture Lowerings_Common
begin

text \<open>
  The recurrent recording rules of \<^verbatim>\<open>compiler/capture_recurrent.py\<close>: state-pool updates record the pool
  among the written regions and return the pool view under its bumped version.
\<close>

section \<open>Compressor and convolution\<close>

definition compressor_append ::
  "TensorValue \<Rightarrow> TensorValue \<Rightarrow> TensorValue \<Rightarrow> TensorValue \<Rightarrow> TensorValue \<Rightarrow> TensorValue \<Rightarrow> TensorValue
    \<Rightarrow> Position \<Rightarrow> int \<Rightarrow> int \<Rightarrow> pyval \<Rightarrow> string \<Rightarrow> (TensorValue \<times> TensorValue) cap" where
  "compressor_append entry_pool series_state window gates rms_weight cos sin position m r eps name =
     bindc (checkc (\<not> (m \<le> 0 \<or> r \<le> 0 \<or> r mod m \<noteq> 0)) CaptureError) (\<lambda>_.
     bindc (liftc (unpack3 (tv_shape window))) (\<lambda>(b, mw, d).
     bindc (checkc (mw = m) CaptureError) (\<lambda>_.
     bindc (liftc (unpack2 (tv_shape gates))) (\<lambda>(bg, mg).
     bindc (checkc ((bg, mg) = (b, m)) CaptureError) (\<lambda>_.
     let R = r div m in
     bindc (liftc (unpack5 (tv_shape entry_pool))) (\<lambda>(be, le, slots, re, de).
     bindc (checkc ((be, slots, re, de) = (b, 2, R, d) \<and> tv_shape series_state = [b, le, 2]
        \<and> tv_shape rms_weight = [d]) CaptureError) (\<lambda>_.
     bindc (liftc (dim cos (-1))) (\<lambda>dh.
     bindc (checkc (\<not> (tv_shape cos \<noteq> [b, dh] \<or> tv_shape sin \<noteq> [b, dh] \<or> 2 * dh \<noteq> d)) CaptureError) (\<lambda>_.
     bindc (valid_plus_one position) (\<lambda>valid.
     bindc (liftc (position_name position)) (\<lambda>p.
     bindc (liftc (region_tile entry_pool
              [(0, HInt b), (0, HInt le), (0, HInt 2), (0, HInt R), (0, HInt d)])) (\<lambda>pr.
     bindc (liftc (region_tile series_state [(0, HInt b), (0, HInt le), (0, HInt 2)])) (\<lambda>sr.
     bindc (cap_record ''compressor_append''
              (map tv_name [entry_pool, series_state, window, gates, rms_weight, cos, sin]) []
              [(''m'', VInt m), (''r'', VInt r), (''eps'', eps), (''position'', VStr p),
               (''position_form'', VStr (if is_row valid then ''row'' else ''scalar''))]
              (map region_whole [window, gates, rms_weight, cos, sin, series_state]) [pr, sr] name) (\<lambda>_.
     bindc (post_view (''entry_pool_s'' @ dec_int (tv_storage_id entry_pool)) entry_pool (Some valid)) (\<lambda>pool_post.
     bindc (post_view (''series_state_s'' @ dec_int (tv_storage_id series_state)) series_state (Some valid)) (\<lambda>state_post.
       retc (pool_post, state_post)))))))))))))))))"

definition gdn_conv ::
  "TensorValue \<Rightarrow> TensorValue \<Rightarrow> TensorValue \<Rightarrow> int \<Rightarrow> (TensorValue \<times> TensorValue) cap" where
  "gdn_conv conv_state x w layer =
     bindc (checkc (length (tv_shape conv_state) = 3 \<and> length (tv_shape x) = 2) CaptureError) (\<lambda>_.
     bindc (liftc (unpack3 (tv_shape conv_state))) (\<lambda>(B, Km1, C).
     let K = Km1 + 1 in
     bindc (checkc (tv_shape x = [B, C] \<and> tv_shape w = [C, K]) CaptureError) (\<lambda>_.
     bindc (fresh_suffixed (''gdn_conv_l'' @ dec_int layer) [B, C] (tv_dtype x)) (\<lambda>y.
     bindc (cap_record ''gdn_conv'' (map tv_name [conv_state, x, w]) [tv_name y]
              [(''layer'', VInt layer), (''conv_kernel'', VInt K)]
              (map region_whole [conv_state, x, w]) (map region_whole [conv_state, y])
              (''layer '' @ dec_int layer @ '' gdn conv'')) (\<lambda>_.
     bindc (post_view (''conv_state_l'' @ dec_int layer) conv_state None) (\<lambda>post.
       retc (y, post)))))))"

section \<open>Hyper-connections\<close>

definition mhc_pre ::
  "TensorValue \<Rightarrow> TensorValue \<Rightarrow> TensorValue \<Rightarrow> TensorValue \<Rightarrow> int \<Rightarrow> int \<Rightarrow> pyval \<Rightarrow> pyval
    \<Rightarrow> (TensorValue \<times> TensorValue \<times> TensorValue) cap" where
  "mhc_pre streams fn base scale layer iters eps rms_eps =
     bindc (checkc (length (tv_shape streams) = 3) CaptureError) (\<lambda>_.
     bindc (liftc (unpack3 (tv_shape streams))) (\<lambda>(B, hc, C).
     let mix = (2 + hc) * hc in
     bindc (checkc (tv_shape fn = [mix, hc * C] \<and> tv_shape base = [mix] \<and> tv_shape scale = [3]
        \<and> \<not> iters < 1) CaptureError) (\<lambda>_.
     bindc (fresh_suffixed (''mhc_h_in_l'' @ dec_int layer) [B, C] (tv_dtype streams)) (\<lambda>h_in.
     bindc (fresh_suffixed (''mhc_post_w_l'' @ dec_int layer) [B, hc] F32) (\<lambda>post.
     bindc (fresh_suffixed (''mhc_comb_l'' @ dec_int layer) [B, hc, hc] F32) (\<lambda>comb.
     bindc (cap_record ''mhc_pre'' (map tv_name [streams, fn, base, scale]) (map tv_name [h_in, post, comb])
              [(''layer'', VInt layer), (''hc'', VInt hc), (''iters'', VInt iters), (''eps'', eps),
               (''rms_eps'', rms_eps)]
              (map region_whole [streams, fn, base, scale]) (map region_whole [h_in, post, comb])
              (''layer '' @ dec_int layer @ '' mhc pre-mix'')) (\<lambda>_. retc (h_in, post, comb))))))))"

definition mhc_post ::
  "TensorValue \<Rightarrow> TensorValue \<Rightarrow> TensorValue \<Rightarrow> TensorValue \<Rightarrow> int \<Rightarrow> TensorValue cap" where
  "mhc_post streams body_out post comb layer =
     bindc (checkc (length (tv_shape streams) = 3) CaptureError) (\<lambda>_.
     bindc (liftc (unpack3 (tv_shape streams))) (\<lambda>(B, hc, C).
     bindc (checkc (tv_shape body_out = [B, C] \<and> tv_shape post = [B, hc]
        \<and> tv_shape comb = [B, hc, hc]) CaptureError) (\<lambda>_.
     bindc (fresh_suffixed (''mhc_streams_l'' @ dec_int layer) [B, hc, C] (tv_dtype streams)) (\<lambda>y.
     bindc (cap_record ''mhc_post'' (map tv_name [streams, body_out, post, comb]) [tv_name y]
              [(''layer'', VInt layer), (''hc'', VInt hc)]
              (map region_whole [streams, body_out, post, comb]) [region_whole y]
              (''layer '' @ dec_int layer @ '' mhc post-compose'')) (\<lambda>_. retc y)))))"

section \<open>Delta rules\<close>

definition gdn_delta ::
  "TensorValue \<Rightarrow> TensorValue \<Rightarrow> TensorValue \<Rightarrow> TensorValue \<Rightarrow> TensorValue \<Rightarrow> TensorValue \<Rightarrow> TensorValue
    \<Rightarrow> TensorValue \<Rightarrow> TensorValue \<Rightarrow> TensorValue \<Rightarrow> int \<Rightarrow> pyval \<Rightarrow> pyval
    \<Rightarrow> (TensorValue \<times> TensorValue) cap" where
  "gdn_delta ssm_state q k v z a b a_log dt_bias norm_w layer scale eps =
     bindc (checkc (length (tv_shape ssm_state) = 4) CaptureError) (\<lambda>_.
     bindc (liftc (unpack4 (tv_shape ssm_state))) (\<lambda>(B, NV, HV, HK).
     bindc (checkc (length (tv_shape q) = 3) CaptureError) (\<lambda>_.
     bindc (liftc (unpack3 (tv_shape q))) (\<lambda>(q0, NK, q2).
     bindc (checkc (\<not> (q0 \<noteq> B \<or> q2 \<noteq> HK) \<and> \<not> (NK < 1 \<or> NV mod NK \<noteq> 0)
        \<and> tv_shape k = [B, NK, HK] \<and> tv_shape v = [B, NV, HV] \<and> tv_shape z = [B, NV, HV]
        \<and> \<not> (tv_shape a \<noteq> [B, NV] \<or> tv_shape b \<noteq> [B, NV])
        \<and> \<not> (tv_shape a_log \<noteq> [NV] \<or> tv_shape dt_bias \<noteq> [NV])
        \<and> tv_shape norm_w = [HV]) CaptureError) (\<lambda>_.
     bindc (fresh_suffixed (''gdn_delta_l'' @ dec_int layer) [B, NV, HV] (tv_dtype v)) (\<lambda>y.
     let ins = [ssm_state, q, k, v, z, a, b, a_log, dt_bias, norm_w] in
     bindc (cap_record ''gdn_delta'' (map tv_name ins) [tv_name y]
              [(''layer'', VInt layer), (''scale'', scale), (''eps'', eps)]
              (map region_whole ins) (map region_whole [ssm_state, y])
              (''layer '' @ dec_int layer @ '' gdn delta rule'')) (\<lambda>_.
     bindc (post_view (''ssm_state_l'' @ dec_int layer) ssm_state None) (\<lambda>post.
       retc (y, post)))))))))"

definition kda_delta ::
  "TensorValue \<Rightarrow> TensorValue \<Rightarrow> TensorValue \<Rightarrow> TensorValue \<Rightarrow> TensorValue \<Rightarrow> TensorValue \<Rightarrow> TensorValue
    \<Rightarrow> TensorValue \<Rightarrow> int \<Rightarrow> pyval \<Rightarrow> pyval \<Rightarrow> (TensorValue \<times> TensorValue) cap" where
  "kda_delta ssm_state q k v f b dt_bias A_log layer scale lower_bound =
     bindc (checkc (length (tv_shape ssm_state) = 4) CaptureError) (\<lambda>_.
     bindc (liftc (unpack4 (tv_shape ssm_state))) (\<lambda>(B, H, K, V).
     bindc (checkc (K = V \<and> tv_shape q = [B, H, K] \<and> tv_shape k = [B, H, K] \<and> tv_shape v = [B, H, V]
        \<and> tv_shape f = [B, H, K] \<and> tv_shape b = [B, H] \<and> tv_shape dt_bias = [H, K]
        \<and> tv_shape A_log = [H]) CaptureError) (\<lambda>_.
     bindc (fresh_suffixed (''kda_delta_l'' @ dec_int layer) [B, H, V] (tv_dtype v)) (\<lambda>y.
     let ins = [ssm_state, q, k, v, f, b, dt_bias, A_log] in
     bindc (cap_record ''kda_delta'' (map tv_name ins) [tv_name y]
              [(''layer'', VInt layer), (''scale'', scale), (''lower_bound'', lower_bound)]
              (map region_whole ins) (map region_whole [ssm_state, y])
              (''layer '' @ dec_int layer @ '' kda delta rule'')) (\<lambda>_.
     bindc (post_view (''kda_state_l'' @ dec_int layer) ssm_state None) (\<lambda>post.
       retc (y, post)))))))"

text \<open>
  The shape guards of \<^verbatim>\<open>kda_fused_decode\<close>; \<^verbatim>\<open>qv.shape[0]\<close> is read only for an i32 slot table, and
  \<^verbatim>\<open>iv.shape[0]\<close> once that table is known to be one-dimensional.
\<close>

definition kda_fused_ok ::
  "TensorValue \<Rightarrow> TensorValue \<Rightarrow> TensorValue \<Rightarrow> TensorValue \<Rightarrow> TensorValue \<Rightarrow> TensorValue \<Rightarrow> TensorValue
    \<Rightarrow> TensorValue \<Rightarrow> TensorValue \<Rightarrow> TensorValue \<Rightarrow> TensorValue \<Rightarrow> (int \<times> int \<times> int) result" where
  "kda_fused_ok cv sv iv qv fv bv gv tv dv av ov =
     (if length (tv_shape cv) \<noteq> 3 then Inl CaptureError
      else bindr (unpack3 (tv_shape cv)) (\<lambda>(slots, Kw, Cc).
      if length (tv_shape sv) \<noteq> 4 then Inl CaptureError
      else bindr (unpack4 (tv_shape sv)) (\<lambda>(s0, H, V, K).
      if s0 \<noteq> slots \<or> K \<noteq> V \<or> Cc \<noteq> 3 * H * K \<or> tv_shape tv \<noteq> [Kw + 1, Cc] then Inl CaptureError
      else if tv_dtype iv \<noteq> I32 then Inl CaptureError
      else bindr (dim qv 0) (\<lambda>B.
      if tv_shape iv \<noteq> [B] \<or> tv_shape qv \<noteq> [B, Cc] \<or> tv_shape fv \<noteq> [B, H, K] \<or> tv_shape bv \<noteq> [B, H]
         \<or> tv_shape gv \<noteq> [B, H, V] \<or> tv_shape dv \<noteq> [H, K] \<or> tv_shape av \<noteq> [H] \<or> tv_shape ov \<noteq> [V]
      then Inl CaptureError
      else Inr (B, H, V)))))"

definition kda_fused_decode ::
  "TensorValue \<Rightarrow> TensorValue \<Rightarrow> TensorValue \<Rightarrow> TensorValue \<Rightarrow> TensorValue \<Rightarrow> TensorValue \<Rightarrow> TensorValue
    \<Rightarrow> TensorValue \<Rightarrow> TensorValue \<Rightarrow> TensorValue \<Rightarrow> TensorValue \<Rightarrow> int \<Rightarrow> pyval \<Rightarrow> pyval \<Rightarrow> pyval
    \<Rightarrow> (TensorValue \<times> TensorValue \<times> TensorValue) cap" where
  "kda_fused_decode conv_pool ssm_pool slot_ids qkv_raw f_raw b_raw g_raw taps dt_bias A_log o_norm
     layer scale eps lower_bound =
     bindc (liftc (kda_fused_ok conv_pool ssm_pool slot_ids qkv_raw f_raw b_raw g_raw taps dt_bias
                     A_log o_norm)) (\<lambda>(B, H, V).
     bindc (fresh_suffixed (''kda_fused_l'' @ dec_int layer) [B, H, V] (tv_dtype qkv_raw)) (\<lambda>y.
     bindc (liftc (region_indirect conv_pool slot_ids 0 None)) (\<lambda>conv_r.
     bindc (liftc (region_indirect ssm_pool slot_ids 0 None)) (\<lambda>ssm_r.
     let rest = [slot_ids, qkv_raw, f_raw, b_raw, g_raw, taps, dt_bias, A_log, o_norm] in
     bindc (cap_record ''kda_fused_decode'' (map tv_name ([conv_pool, ssm_pool] @ rest)) [tv_name y]
              [(''layer'', VInt layer), (''scale'', scale), (''eps'', eps), (''lower_bound'', lower_bound)]
              ([conv_r, ssm_r] @ map region_whole rest) [conv_r, ssm_r, region_whole y]
              (''layer '' @ dec_int layer @ '' kda fused decode'')) (\<lambda>_.
     bindc (post_view (''kda_conv_pool_l'' @ dec_int layer) conv_pool None) (\<lambda>conv_post.
     bindc (post_view (''kda_ssm_pool_l'' @ dec_int layer) ssm_pool None) (\<lambda>ssm_post.
       retc (y, conv_post, ssm_post))))))))"

end
