(* ===== verification/Capture_Invariant.thy ===== *)
theory Capture_Invariant
  imports Capture_Dense Capture_Attention Capture_Recurrent
begin

text \<open>
  What every recording run keeps.  A Hoare triple over the recorder relates the state before and after
  an operation; the invariant says that the graph is well formed, that every recorded operator has a
  registered kind, a write effect and operands in the tensor table, and that only position consumers
  carry strings other than the fixed ones the recorder writes.  The reachable recorders are those a
  model body can produce with the operations of the recorder on handles it has been given.
\<close>

section \<open>Triples\<close>

definition hoare :: "(Recorder \<Rightarrow> bool) \<Rightarrow> 'a cap \<Rightarrow> ('a \<Rightarrow> Recorder \<Rightarrow> bool) \<Rightarrow> bool" where
  "hoare P m Q = (\<forall>r x r'. P r \<longrightarrow> m r = Inr (x, r') \<longrightarrow> Q x r')"

lemma hoareD: "hoare P m Q \<Longrightarrow> P r \<Longrightarrow> m r = Inr (x, r') \<Longrightarrow> Q x r'"
  by (simp add: hoare_def)

lemma hoare_bind:
  "hoare P m Q \<Longrightarrow> (\<And>x. hoare (Q x) (f x) R) \<Longrightarrow> hoare P (bindc m f) R"
  unfolding hoare_def bindc_def by (auto simp: bindr_Inr_iff)

lemma hoare_ret: "(\<And>r. P r \<Longrightarrow> Q x r) \<Longrightarrow> hoare P (retc x) Q"
  by (simp add: hoare_def retc_def)

lemma hoare_fail: "hoare P (failc e) Q"
  by (simp add: hoare_def failc_def)

lemma hoare_lift: "(\<And>x. res = Inr x \<Longrightarrow> hoare P (f x) Q) \<Longrightarrow> hoare P (bindc (liftc res) f) Q"
  unfolding hoare_def bindc_def liftc_def by (fastforce simp: bindr_Inr_iff)

lemma hoare_check: "(b \<Longrightarrow> hoare P (f ()) Q) \<Longrightarrow> hoare P (bindc (checkc b e) f) Q"
  unfolding hoare_def bindc_def checkc_def retc_def failc_def by auto

section \<open>The invariant\<close>

definition handle :: "Recorder \<Rightarrow> TensorValue \<Rightarrow> bool" where
  "handle r t = (map_of (g_tensors (rb_graph r)) (tv_name t) = Some t)"

text \<open>The strings the recording rules store in attributes of operators that consume no position.\<close>

definition fixed_strings :: "string set" where
  "fixed_strings = {''tanh'', ''sigmoid'', ''fp8_block'', ''hash'', ''learned'', ''sqrtsoftplus'',
     ''sigmoid_noaux_tc'', ''relu'', ''lowest_index'', ''f32'', ''i32'', ''exclude'',
     ''idx=-1, bias=0.0 beyond a row's valid count''}"

definition op_recorded :: "OperatorGraph \<Rightarrow> Operator \<Rightarrow> bool" where
  "op_recorded g op =
     (op_kind op \<in> set ARITHMETIC_OP_KINDS \<and> op_write_regions op \<noteq> []
      \<and> set (op_inputs op) \<union> set (op_outputs op) \<subseteq> dom (map_of (g_tensors g))
      \<and> (op_kind op \<in> POSITION_CONSUMERS \<or> {s. consumes (op_attributes op) s} \<subseteq> fixed_strings))"

definition rec_inv :: "Recorder \<Rightarrow> bool" where
  "rec_inv r =
     (graph_wf (rb_graph r) \<and> rb_op_counter r = g_next_opid (rb_graph r)
      \<and> (\<forall>op \<in> set (g_ops (rb_graph r)). op_recorded (rb_graph r) op)
      \<and> dom (map_of (g_scalars (rb_graph r))) \<subseteq> {''p''}
      \<and> (\<forall>n t. map_of (rb_externals r) n = Some t \<longrightarrow> tv_name t = n \<and> handle r t))"

definition inv_with :: "TensorValue set \<Rightarrow> Recorder \<Rightarrow> bool" where
  "inv_with T r = (rec_inv r \<and> (\<forall>t \<in> T. handle r t))"

lemma rec_inv_new: "rec_inv new_recorder"
  using graph_wf_empty by (simp add: rec_inv_def new_recorder_def empty_graph_def)

lemma op_recorded_mono:
  "op_recorded g op \<Longrightarrow> dom (map_of (g_tensors g)) \<subseteq> dom (map_of (g_tensors g')) \<Longrightarrow> op_recorded g' op"
  unfolding op_recorded_def by blast

text \<open>Adding a tensor under a new name keeps the invariant and the handles.\<close>

lemma graph_add_view_inv:
  "hoare (inv_with T) (graph_add_view name sh dt sid st off vl) (\<lambda>y. inv_with (insert y T))"
  unfolding hoare_def
proof (intro allI impI)
  fix r y r'
  assume i: "inv_with T r" and a: "graph_add_view name sh dt sid st off vl r = Inr (y, r')"
  then obtain g' where g': "add_tensor (rb_graph r) name sh dt sid st off vl = Inr (y, g')"
    "r' = r\<lparr>rb_graph := g'\<rparr>" by (auto simp: graph_add_view_def result_simps)
  note t = add_tensor_Inr [OF g'(1)]
  have m: "map_of (g_tensors g') = (map_of (g_tensors (rb_graph r)))(name \<mapsto> y)"
    using t(2,3) by (auto simp: map_add_def fun_eq_iff split: option.split)
  have h: "handle r' t" if "handle r t" for t
    using that t(3) m g'(2) by (auto simp: handle_def)
  have "graph_wf g'" using i graph_wf_add_tensor [OF _ g'(1)] by (simp add: inv_with_def rec_inv_def)
  moreover have "op_recorded g' op" if "op \<in> set (g_ops g')" for op
    using that i t(2) m op_recorded_mono [of "rb_graph r" op g'] by (auto simp: inv_with_def rec_inv_def)
  moreover have "handle r' y" using m t(1) g'(2) by (simp add: handle_def)
  ultimately show "inv_with (insert y T) r'"
    using i h g'(2) t(2) by (auto simp: inv_with_def rec_inv_def)
qed

lemmas graph_add_tensor_inv = graph_add_view_inv [where vl = None, folded graph_add_tensor_def]

text \<open>Changes of the storage and scalar tables keep it too.\<close>

lemma inv_with_graph:
  assumes "inv_with T r" "graph_wf g'" "g_tensors g' = g_tensors (rb_graph r)" "g_ops g' = g_ops (rb_graph r)"
    and "g_next_opid g' = g_next_opid (rb_graph r)" "dom (map_of (g_scalars g')) \<subseteq> {''p''}"
  shows "inv_with T (r\<lparr>rb_graph := g'\<rparr>)"
  using assms by (auto simp: inv_with_def rec_inv_def handle_def op_recorded_def)

lemma inv_withD:
  assumes "inv_with T r"
  shows "graph_wf (rb_graph r)" "dom (map_of (g_scalars (rb_graph r))) \<subseteq> {''p''}"
    "rb_op_counter r = g_next_opid (rb_graph r)"
    "op \<in> set (g_ops (rb_graph r)) \<Longrightarrow> op_recorded (rb_graph r) op" "t \<in> T \<Longrightarrow> handle r t"
    "map_of (rb_externals r) n = Some t \<Longrightarrow> tv_name t = n \<and> handle r t"
  using assms by (auto simp: inv_with_def rec_inv_def)

lemma define_position_inv: "hoare (inv_with T) (define_position c) (\<lambda>_. inv_with T)"
proof -
  have "inv_with T (r\<lparr>rb_graph := add_scalar (rb_graph r) s\<rparr>)" if i: "inv_with T r" and s: "sc_name s = ''p''" for r s
  proof (rule inv_with_graph [OF i graph_wf_add_scalar [OF inv_withD(1) [OF i]]])
    show "dom (map_of (g_scalars (add_scalar (rb_graph r) s))) \<subseteq> {''p''}"
      using inv_withD(2) [OF i] s by (simp add: add_scalar_def)
  qed (simp_all add: add_scalar_def)
  then show ?thesis by (auto simp: hoare_def define_position_def Let_def)
qed

lemma fresh_buffer_inv: "hoare (inv_with T) (fresh_buffer name sh dt) (\<lambda>y. inv_with (insert y T))"
  unfolding hoare_def
proof (intro allI impI)
  fix r y r'
  assume i: "inv_with T r" and f: "fresh_buffer name sh dt r = Inr (y, r')"
  obtain sid g where n: "new_storage (rb_graph r) name (prodl sh) = (sid, g)" by fastforce
  have w: "graph_wf g" using graph_wf_new_storage [OF inv_withD(1) [OF i], of name "prodl sh"] n by simp
  have g: "g_tensors g = g_tensors (rb_graph r)" "g_ops g = g_ops (rb_graph r)"
    "g_next_opid g = g_next_opid (rb_graph r)" "g_scalars g = g_scalars (rb_graph r)"
    using n by (auto simp: new_storage_def Let_def)
  have "inv_with T (r\<lparr>rb_graph := g\<rparr>)"
    by (rule inv_with_graph [OF i w g(1-3)]) (simp only: g(4) inv_withD(2) [OF i])
  with f n show "inv_with (insert y T) r'"
    by (auto simp: fresh_buffer_def intro: hoareD [OF graph_add_tensor_inv])
qed

lemma out_or_fresh_inv:
  assumes "set_option out \<subseteq> T"
  shows "hoare (inv_with T) (out_or_fresh out name sh) (\<lambda>y. inv_with (insert y T))"
proof (cases out)
  case None
  then show ?thesis using fresh_buffer_inv [of T] by (simp add: hoare_def out_or_fresh_def)
next
  case (Some t)
  then show ?thesis using assms by (auto simp: hoare_def out_or_fresh_def inv_with_def)
qed

lemma view_of_inv: "hoare (inv_with T) (view_of b name sh) (\<lambda>y. inv_with (insert y T))"
  unfolding hoare_def view_of_def
  by (auto simp: result_simps intro: hoareD [OF graph_add_tensor_inv])

lemma narrow_inv: "hoare (inv_with T) (narrow b name ax st len) (\<lambda>y. inv_with (insert y T))"
  unfolding hoare_def narrow_def
  by (auto simp: result_simps split: if_splits intro: hoareD [OF graph_add_tensor_inv])

lemma transpose_view_inv: "hoare (inv_with T) (transpose_view w name) (\<lambda>y. inv_with (insert y T))"
  unfolding hoare_def transpose_view_def
  by (auto simp: result_simps Let_def intro: hoareD [OF graph_add_tensor_inv])

lemma external_tensor_inv:
  "hoare (inv_with T) (external_tensor name sh dt sid st off reg) (\<lambda>y. inv_with (insert y T))"
  unfolding hoare_def
proof (intro allI impI)
  fix r y r'
  assume i: "inv_with T r" and e: "external_tensor name sh dt sid st off reg r = Inr (y, r')"
  show "inv_with (insert y T) r'"
  proof (cases "map_of (rb_externals r) name")
    case (Some t)
    then have "y = t" "r' = r" using e by (auto simp: external_tensor_def split: if_splits)
    then show ?thesis using i inv_withD(6) [OF i Some] by (simp add: inv_with_def)
  next
    case None
    define r1 where "r1 = (if reg then r\<lparr>rb_graph := add_external_storage (rb_graph r) sid name (prodl sh)\<rparr> else r)"
    have i1: "inv_with T r1"
    proof (cases reg)
      case True
      have "inv_with T (r\<lparr>rb_graph := add_external_storage (rb_graph r) sid name (prodl sh)\<rparr>)"
        by (rule inv_with_graph [OF i graph_wf_add_external_storage [OF inv_withD(1) [OF i]]])
           (use inv_withD(2) [OF i] in \<open>simp_all add: add_external_storage_def\<close>)
      then show ?thesis using True by (simp add: r1_def)
    qed (simp add: r1_def i)
    let ?st = "case st of None \<Rightarrow> row_major_strides sh | Some s \<Rightarrow> s"
    from e None obtain r2 where g: "graph_add_tensor name sh dt sid ?st off r1 = Inr (y, r2)"
      "r' = r2\<lparr>rb_externals := dict_set name y (rb_externals r2)\<rparr>"
      by (auto simp: external_tensor_def Let_def r1_def result_simps)
    have i2: "inv_with (insert y T) r2" by (rule hoareD [OF graph_add_tensor_inv i1 g(1)])
    have "tv_name y = name" using g(1) by (auto simp: graph_add_tensor_def graph_add_view_def result_simps dest!: add_tensor_Inr(1))
    then show ?thesis using i2 g(2)
      by (auto simp: inv_with_def rec_inv_def handle_def split: if_splits)
  qed
qed

lemma define_row_positions_inv:
  "hoare (inv_with T) (define_row_positions name b c sid) (\<lambda>y. inv_with (insert y T))"
  unfolding hoare_def
proof (intro allI impI)
  fix r y r'
  assume i: "inv_with T r" and d: "define_row_positions name b c sid r = Inr (y, r')"
  from d obtain r1 where e: "external_tensor name [b] I32 sid None 0 True r = Inr (y, r1)"
    and r': "r' = r1\<lparr>rb_graph := (rb_graph r1)\<lparr>
       g_row_position_tensors := insert name (g_row_position_tensors (rb_graph r1)),
       g_row_position_capacity := dict_set name c (g_row_position_capacity (rb_graph r1))\<rparr>\<rparr>"
    by (auto simp: define_row_positions_def result_simps Let_def split: if_splits)
  have i1: "inv_with (insert y T) r1" by (rule hoareD [OF external_tensor_inv i e])
  show "inv_with (insert y T) r'" unfolding r'
    by (rule inv_with_graph [OF i1]) (use inv_withD(1,2) [OF i1] in \<open>simp_all add: graph_wf_def\<close>)
qed

lemma cap_record_inv:
  assumes "set ins \<union> set outs \<subseteq> tv_name ` T" "ws \<noteq> []"
    and "kind \<in> POSITION_CONSUMERS \<or> {s. consumes at s} \<subseteq> fixed_strings"
  shows "hoare (inv_with T) (cap_record kind ins outs at rs ws loc) (\<lambda>_. inv_with T)"
  unfolding hoare_def
proof (intro allI impI)
  fix r op r'
  assume i: "inv_with T r" and c: "cap_record kind ins outs at rs ws loc r = Inr (op, r')"
  let ?loc = "if loc = [] then ''op#'' @ dec_int (rb_op_counter r + 1) @ '' '' @ kind else loc"
  from c obtain g where g: "record_op (rb_graph r) kind ins outs at rs ws ?loc = (op, g)"
    "r' = r\<lparr>rb_graph := g, rb_op_counter := rb_op_counter r + 1\<rparr>" "kind \<in> set ARITHMETIC_OP_KINDS"
    by (auto simp: cap_record_def Let_def split: if_splits prod.splits)
  have w: "graph_wf g"
    using graph_wf_record_op [OF inv_withD(1) [OF i], of kind ins outs at rs ws ?loc] g(1) by simp
  have t: "g_tensors g = g_tensors (rb_graph r)" "g_scalars g = g_scalars (rb_graph r)"
    "g_next_opid g = g_next_opid (rb_graph r) + 1" "g_ops g = g_ops (rb_graph r) @ [op]"
    and o: "op_kind op = kind" "op_inputs op = ins" "op_outputs op = outs" "op_attributes op = at" "op_write_regions op = ws"
    using g(1) by (auto simp: record_op_def Let_def)
  have "tv_name ` T \<subseteq> dom (map_of (g_tensors g))"
    using inv_withD(5) [OF i] t(1) by (auto simp: handle_def)
  then have "set ins \<union> set outs \<subseteq> dom (map_of (g_tensors g))" using assms(1) by (rule order_trans [rotated])
  then have "op_recorded g op" using assms(2,3) g(3) o by (simp add: op_recorded_def)
  moreover have "op_recorded g p" if "p \<in> set (g_ops (rb_graph r))" for p
    using op_recorded_mono [OF inv_withD(4) [OF i that]] t(1) by simp
  ultimately show "inv_with T r'"
    using i w t g(2) by (auto simp: inv_with_def rec_inv_def handle_def)
qed

section \<open>Rules for recording sequences\<close>

text \<open>
  \<open>gives T m\<close>: from a recorder that holds the tensors \<open>T\<close>, the operation keeps the invariant and its
  result is a tensor of the graph.  The rules below take a recording rule apart step by step; the
  remaining goals say that the recorded operands are among the tensors held.
\<close>

definition gives :: "TensorValue set \<Rightarrow> TensorValue cap \<Rightarrow> bool" where
  "gives T m = hoare (inv_with T) m (\<lambda>y. inv_with (insert y T))"

definition pure_cap :: "'a cap \<Rightarrow> bool" where
  "pure_cap m = (\<forall>r x r'. m r = Inr (x, r') \<longrightarrow> r' = r)"

lemma inv_with_insert: "inv_with (insert y T) r \<longleftrightarrow> handle r y \<and> inv_with T r"
  by (auto simp: inv_with_def)

lemma inv_with_mono: "T \<subseteq> U \<Longrightarrow> inv_with U r \<Longrightarrow> inv_with T r"
  by (auto simp: inv_with_def)

lemma hoare_gives: "gives T m \<Longrightarrow> (\<And>y. hoare (inv_with (insert y T)) (f y) Q) \<Longrightarrow> hoare (inv_with T) (bindc m f) Q"
  unfolding gives_def by (rule hoare_bind)

lemma hoare_pure: "pure_cap m \<Longrightarrow> (\<And>x. hoare P (f x) Q) \<Longrightarrow> hoare P (bindc m f) Q"
  unfolding hoare_def pure_cap_def bindc_def by (fastforce simp: bindr_Inr_iff)

lemma hoare_split: "(\<And>a b. p = (a, b) \<Longrightarrow> hoare P (f a b) Q) \<Longrightarrow> hoare P (case_prod f p) Q"
  by (cases p) simp

lemma hoare_record:
  assumes "set ins \<union> set outs \<subseteq> tv_name ` T" "ws \<noteq> []"
    and "kind \<in> POSITION_CONSUMERS \<or> {s. consumes at s} \<subseteq> fixed_strings"
    and "\<And>op. hoare (inv_with T) (f op) Q"
  shows "hoare (inv_with T) (bindc (cap_record kind ins outs at rs ws loc) f) Q"
  by (rule hoare_bind [OF cap_record_inv [OF assms(1-3)] assms(4)])

lemma pure_cap_simps [simp]:
  "pure_cap (retc x)" "pure_cap (failc e)" "pure_cap (checkc b e)" "pure_cap (liftc res)"
  "pure_cap (require_position p)"
  by (auto simp: pure_cap_def retc_def failc_def checkc_def liftc_def bindr_Inr_iff require_position_def
      split: Position.splits if_splits)

lemma pure_cap_bind: "pure_cap m \<Longrightarrow> (\<And>x. pure_cap (f x)) \<Longrightarrow> pure_cap (bindc m f)"
  unfolding pure_cap_def bindc_def by (fastforce simp: bindr_Inr_iff)

lemma pure_valid_plus_one [simp]: "pure_cap (valid_plus_one p)"
  unfolding valid_plus_one_def by (intro pure_cap_bind) simp_all

lemma gives_ret: "t \<in> T \<Longrightarrow> gives T (retc t)"
  by (auto simp: gives_def hoare_def retc_def inv_with_def)

lemma gives_fresh: "gives T (fresh_buffer name sh dt)"
  unfolding gives_def by (rule fresh_buffer_inv)

lemma gives_fresh_suffixed: "gives T (fresh_suffixed name sh dt)"
  using fresh_buffer_inv [of T] by (simp add: gives_def hoare_def fresh_suffixed_def)

lemma gives_out: "set_option out \<subseteq> T \<Longrightarrow> gives T (out_or_fresh out name sh)"
  unfolding gives_def by (rule out_or_fresh_inv)

lemma gives_given: "set_option t \<subseteq> T \<Longrightarrow> gives T (given_or_fresh t name sh dt)"
  by (cases t) (simp_all add: given_or_fresh_def gives_fresh_suffixed gives_ret)

lemma gives_post_view: "gives T (post_view prefix b vl)"
  using graph_add_view_inv [of T]
  by (fastforce simp: gives_def hoare_def post_view_def result_simps)

lemmas gives_rules = gives_fresh gives_fresh_suffixed gives_out gives_given gives_post_view
  gives_ret

lemmas hoare_rules = hoare_lift hoare_check hoare_split hoare_record hoare_ret
  hoare_gives [OF gives_fresh_suffixed] hoare_gives [OF gives_post_view]
  hoare_gives [OF gives_out] hoare_gives [OF gives_given]
  hoare_pure [of "require_position p" for p, simplified] hoare_pure [of "valid_plus_one p" for p, simplified]

lemma consumes_simps [simp]:
  "consumes [] s \<longleftrightarrow> False"
  "consumes ((n, v) # at) s \<longleftrightarrow> v = VStr s \<or> consumes at s"
  "consumes (at @ bt) s \<longleftrightarrow> consumes at s \<or> consumes bt s"
  by (auto simp: consumes_def)

definition no_strings :: "pyval \<Rightarrow> bool" where
  "no_strings v = (\<forall>s. v \<noteq> VStr s)"

lemma py_float_no_string: "py_float v = Inr f \<Longrightarrow> no_strings f"
  by (auto simp: py_float_def no_strings_def split: pyval.splits)

end
