(* ===== verification/Capture_Rules.thy ===== *)
theory Capture_Rules
  imports Capture_Invariant
begin

text \<open>
  Every recording rule keeps the recorder invariant and returns tensors of the graph, provided its
  operands are tensors of the graph: the dense, attention and recurrent rules in turn.
\<close>

definition gives2 :: "TensorValue set \<Rightarrow> (TensorValue \<times> TensorValue) cap \<Rightarrow> bool" where
  "gives2 T m = hoare (inv_with T) m (\<lambda>(y, z). inv_with (insert z (insert y T)))"

definition gives3 :: "TensorValue set \<Rightarrow> (TensorValue \<times> TensorValue \<times> TensorValue) cap \<Rightarrow> bool" where
  "gives3 T m = hoare (inv_with T) m (\<lambda>(x, y, z). inv_with (insert z (insert y (insert x T))))"

lemmas gives_defs = gives_def gives2_def gives3_def

lemma position_consumers [simp]: "k \<in> {''embedding'', ''cache_append'', ''compressor_append'', ''attention_scores'',
   ''softmax'', ''attention_values'', ''rope'', ''cache_append_paged'', ''attention_scores_paged'',
   ''attention_values_paged'', ''mla_scores'', ''mla_values'', ''conjugate_rope''} \<Longrightarrow> k \<in> POSITION_CONSUMERS"
  by (simp add: POSITION_CONSUMERS_def)

named_theorems rule_gives \<open>each recording rule gives tensors of the graph\<close>

lemmas goal_simps = inv_with_insert no_strings_def fixed_strings_def insert_commute

section \<open>Dense rules\<close>

lemma layer_norm_gives [rule_gives]:
  assumes "{x, gamma, beta} \<union> set_option out \<subseteq> T" "no_strings eps"
  shows "gives T (layer_norm x gamma beta eps out name)"
  unfolding layer_norm_def gives_def Let_def
  by (intro hoare_rules) (use assms in \<open>auto simp: goal_simps\<close>)

lemma rms_norm_gives [rule_gives]:
  assumes "{x, gamma} \<union> set_option out \<subseteq> T" "no_strings eps"
  shows "gives T (rms_norm x gamma eps out name)"
  unfolding rms_norm_def gives_def Let_def
  by (intro hoare_rules) (use assms in \<open>auto simp: goal_simps\<close>)

lemma rms_norm_gated_gives [rule_gives]:
  assumes "{x, gate, gamma} \<union> set_option out \<subseteq> T" "no_strings eps"
  shows "gives T (rms_norm_gated x gate gamma eps act out name)"
  unfolding rms_norm_gated_def gives_def Let_def
  by (intro hoare_rules) (use assms in \<open>auto simp: goal_simps RMS_GATED_ACTIVATIONS_def\<close>)

lemma gelu_gives [rule_gives]:
  assumes "{x} \<union> set_option out \<subseteq> T"
  shows "gives T (gelu x out name)"
  unfolding gelu_def gives_def Let_def
  by (intro hoare_rules) (use assms in \<open>auto simp: goal_simps\<close>)

lemma add_gives [rule_gives]:
  assumes "{a, b} \<subseteq> T"
  shows "gives T (add a b name)"
  unfolding add_def gives_def Let_def
  by (intro hoare_rules) (use assms in \<open>auto simp: goal_simps\<close>)

lemma swiglu_gives [rule_gives]:
  assumes "{gate, up} \<union> set_option out \<subseteq> T"
  shows "gives T (swiglu gate up out name)"
  unfolding swiglu_def gives_def Let_def
  by (intro hoare_rules) (use assms in \<open>auto simp: goal_simps\<close>)

lemma linear_fp8_gives [rule_gives]:
  assumes "{x, w, scale} \<union> set_option out \<subseteq> T"
  shows "gives T (linear_fp8 x w scale out name qb)"
  unfolding linear_fp8_def gives_def Let_def
  by (intro hoare_rules) (use assms in \<open>auto simp: goal_simps\<close>)

lemma embedding_gives [rule_gives]:
  assumes "{ids, token} \<union> set_option pos \<union> set_option out \<subseteq> T"
  shows "gives T (embedding ids token pos position out)"
proof -
  have "gives T (case out of Some t \<Rightarrow> retc t
      | None \<Rightarrow> bindc (liftc (dim ids 0)) (\<lambda>b. bindc (liftc (dim token 1)) (\<lambda>c.
          out_or_fresh None ''hidden'' [b, c])))"
  proof (cases out)
    case None
    then show ?thesis using gives_out [of None T] by (auto simp: gives_def intro!: hoare_lift)
  qed (use assms in \<open>simp add: gives_ret\<close>)
  note out = hoare_gives [OF this]
  show ?thesis unfolding embedding_def gives_def Let_def
    by (intro hoare_rules out) (use assms in \<open>auto simp: goal_simps split: option.splits\<close>)
qed

lemma rope_partial_ok_pure: "pure_cap (rope_partial_ok x c s rd)"
  unfolding rope_partial_ok_def by (cases rd) (auto intro!: pure_cap_bind)

lemma rope_gives [rule_gives]:
  assumes "{x, cos_t, sin_t} \<subseteq> T"
  shows "gives T (rope x cos_t sin_t position layer which rd conv)"
  unfolding rope_def gives_def Let_def
  by (intro hoare_rules hoare_pure [of "if c then m else n" for c m n])
     (use assms in \<open>auto simp: goal_simps rope_partial_ok_pure\<close>)

lemma linear_operand_inv:
  "x \<in> T \<Longrightarrow> hoare (inv_with T) (linear_operand x name m) (\<lambda>(x', k). inv_with (insert x' T))"
  unfolding hoare_def linear_operand_def
  by (auto simp: result_simps Let_def insert_absorb split: if_splits dest: hoareD [OF view_of_inv])

lemma linear_gives [rule_gives]:
  assumes "{x, w} \<union> set_option b \<union> set_option out \<subseteq> T"
  shows "gives T (linear x w b out name gh)"
  unfolding linear_def gives_def Let_def
proof (intro hoare_lift, rule hoare_bind [OF linear_operand_inv], goal_cases)
  case (2 m n p)
  obtain x' k where "p = (x', k)" by (cases p)
  then show ?case
    by (simp only: prod.case, intro hoare_rules hoare_pure [of "case gh of None \<Rightarrow> r | Some h \<Rightarrow> c h" for r c])
       (use assms in \<open>auto simp: goal_simps split: option.splits\<close>)
qed (use assms in auto)

lemma route_family_Inr:
  assumes "route_family mode score_fn b e k bias ng tg norm tid tok = Inr (extra, eat)"
  shows "{mode, score_fn} \<subseteq> fixed_strings" "{s. consumes eat s} = {}"
    "set extra \<subseteq> set_option bias \<union> set_option tid \<union> set_option tok"
  using assms
  by (auto simp: route_family_def fixed_strings_def result_simps split: if_splits option.splits)

lemma moe_route_gives [rule_gives]:
  assumes "{x, router_w, ids, weights} \<union> set_option bias \<union> set_option tid \<union> set_option tok \<subseteq> T"
  shows "gives2 T (moe_route x router_w ids weights mode score_fn top_k rsf bias ng tg norm tid tok name)"
  unfolding moe_route_def gives2_def Let_def
  by (intro hoare_rules)
     (use assms in \<open>auto simp: inv_with_def no_strings_def dest: route_family_Inr py_float_no_string\<close>)

lemma limit_no_strings:
  assumes "(case lim of None \<Rightarrow> Inr []
    | Some l \<Rightarrow> bindr (py_float l) (\<lambda>f. Inr [(''swiglu_limit'', f)])) = Inr at"
  shows "\<not> consumes at s"
  using assms by (auto simp: result_simps no_strings_def dest!: py_float_no_string split: option.splits)

lemma moe_expert_gives [rule_gives]:
  assumes "{x, gate_up, down, ids} \<union> set_option out \<subseteq> T"
  shows "gives T (moe_expert x gate_up down ids out lim name)"
proof -
  have "gives T (case out of Some t \<Rightarrow> retc t
      | None \<Rightarrow> (\<lambda>r. fresh_buffer (name @ suffix r @ ''_partials'') sh F32 r))" for sh
  proof (cases out)
    case None
    then show ?thesis using fresh_buffer_inv [of T] by (simp add: gives_def hoare_def)
  qed (use assms in \<open>simp add: gives_ret\<close>)
  note out = hoare_gives [OF this]
  show ?thesis unfolding moe_expert_def gives_def Let_def
    by (intro hoare_rules out) (use assms in \<open>auto simp: goal_simps dest: limit_no_strings\<close>)
qed

lemma moe_combine_gives [rule_gives]:
  assumes "{partials, weights} \<union> set_option shared \<union> set_option out \<subseteq> T"
  shows "gives T (moe_combine partials weights shared out name)"
  unfolding moe_combine_def gives_def Let_def
  by (intro hoare_rules hoare_pure [of "case shared of None \<Rightarrow> m | Some s \<Rightarrow> n s" for m n])
     (use assms in \<open>auto simp: goal_simps split: option.splits\<close>)

section \<open>Attention rules\<close>

lemma indexer_scores_gives [rule_gives]:
  assumes "{q, entries, mix_w} \<union> set_option out \<subseteq> T"
  shows "gives T (indexer_scores q entries mix_w out name)"
  unfolding indexer_scores_def gives_def Let_def
  by (intro hoare_rules) (use assms in \<open>auto simp: goal_simps py_rsqrt_def split: if_splits\<close>)

lemma index_topk_gives [rule_gives]:
  assumes "{scores, counts} \<union> set_option idx \<union> set_option bias \<subseteq> T"
  shows "gives2 T (index_topk scores counts k idx bias name)"
  unfolding index_topk_def gives2_def Let_def
  by (intro hoare_rules) (use assms in \<open>auto simp: goal_simps\<close>)

lemma cache_append_gives [rule_gives]:
  assumes "{k_cache, v_cache, k_new, v_new} \<subseteq> T"
  shows "gives2 T (cache_append k_cache v_cache k_new v_new position layer)"
  unfolding cache_append_def gives2_def Let_def
  by (intro hoare_rules) (use assms in \<open>auto simp: goal_simps\<close>)

lemma attention_scores_gives [rule_gives]:
  assumes "{q, k_cache} \<subseteq> T"
  shows "gives T (attention_scores q k_cache position scale layer kv_heads)"
  unfolding attention_scores_def gives_def Let_def
  by (intro hoare_rules) (use assms in \<open>auto simp: goal_simps\<close>)

lemma softmax_gives [rule_gives]:
  assumes "{scores} \<subseteq> T"
  shows "gives T (softmax scores position layer)"
  unfolding softmax_def gives_def Let_def
  by (intro hoare_rules) (use assms in \<open>auto simp: goal_simps\<close>)

lemma attention_values_gives [rule_gives]:
  assumes "{probs, v_cache} \<union> set_option gate \<subseteq> T"
  shows "gives T (attention_values probs v_cache position layer kv_heads gate)"
  unfolding attention_values_def gives_def Let_def
  by (intro hoare_rules) (use assms in \<open>auto simp: goal_simps split: option.splits\<close>)

lemma cache_append_paged_gives [rule_gives]:
  assumes "{k_pool, v_pool, slot_table, k_new, v_new} \<subseteq> T"
  shows "gives2 T (cache_append_paged k_pool v_pool slot_table k_new v_new position layer)"
  unfolding cache_append_paged_def gives2_def Let_def
  by (intro hoare_rules) (use assms in \<open>auto simp: goal_simps\<close>)

lemma attention_scores_paged_gives [rule_gives]:
  assumes "{q, k_pool, slot_table} \<subseteq> T"
  shows "gives T (attention_scores_paged q k_pool slot_table position scale layer kv_heads)"
  unfolding attention_scores_paged_def gives_def Let_def
  by (intro hoare_rules) (use assms in \<open>auto simp: goal_simps\<close>)

lemma attention_values_paged_gives [rule_gives]:
  assumes "{probs, v_pool, slot_table} \<subseteq> T"
  shows "gives T (attention_values_paged probs v_pool slot_table position layer kv_heads)"
  unfolding attention_values_paged_def gives_def Let_def
  by (intro hoare_rules) (use assms in \<open>auto simp: goal_simps\<close>)

lemma conjugate_rope_gives [rule_gives]:
  assumes "{x, cos_table, sin_table} \<union> set_option out \<subseteq> T"
  shows "gives T (conjugate_rope x cos_table sin_table position layer which conv rd out)"
  unfolding conjugate_rope_def gives_def Let_def
  by (intro hoare_rules) (use assms in \<open>auto simp: goal_simps\<close>)

lemma mla_scores_gives [rule_gives]:
  assumes "{q, latent, wt, cp, ci, sink} \<union> set_option bias \<subseteq> T"
  shows "gives T (mla_scores q latent wt cp ci sink position scale layer window bias)"
  unfolding mla_scores_def gives_def Let_def
  by (intro hoare_rules) (use assms in \<open>auto simp: goal_simps split: option.splits\<close>)

lemma mla_values_gives [rule_gives]:
  assumes "{probs, latent, wt, cp, ci} \<union> set_option out \<subseteq> T"
  shows "gives T (mla_values probs latent wt cp ci position layer window out)"
  unfolding mla_values_def gives_def Let_def
  by (intro hoare_rules) (use assms in \<open>auto simp: goal_simps\<close>)

section \<open>Recurrent rules\<close>

lemma compressor_append_gives [rule_gives]:
  assumes "{pool, state, window, gates, rms_weight, cos, sin} \<subseteq> T"
  shows "gives2 T (compressor_append pool state window gates rms_weight cos sin position m r eps name)"
  unfolding compressor_append_def gives2_def Let_def
  by (intro hoare_rules) (use assms in \<open>auto simp: goal_simps\<close>)

lemma gdn_conv_gives [rule_gives]:
  assumes "{conv_state, x, w} \<subseteq> T"
  shows "gives2 T (gdn_conv conv_state x w layer)"
  unfolding gdn_conv_def gives2_def Let_def
  by (intro hoare_rules) (use assms in \<open>auto simp: goal_simps\<close>)

lemma mhc_pre_gives [rule_gives]:
  assumes "{streams, fn, base, scale} \<subseteq> T" "no_strings eps" "no_strings rms_eps"
  shows "gives3 T (mhc_pre streams fn base scale layer iters eps rms_eps)"
  unfolding mhc_pre_def gives3_def Let_def
  by (intro hoare_rules) (use assms in \<open>auto simp: goal_simps\<close>)

lemma mhc_post_gives [rule_gives]:
  assumes "{streams, body_out, post, comb} \<subseteq> T"
  shows "gives T (mhc_post streams body_out post comb layer)"
  unfolding mhc_post_def gives_def Let_def
  by (intro hoare_rules) (use assms in \<open>auto simp: goal_simps\<close>)

lemma gdn_delta_gives [rule_gives]:
  assumes "{state, q, k, v, z, a, b, a_log, dt_bias, norm_w} \<subseteq> T" "no_strings scale" "no_strings eps"
  shows "gives2 T (gdn_delta state q k v z a b a_log dt_bias norm_w layer scale eps)"
  unfolding gdn_delta_def gives2_def Let_def
  by (intro hoare_rules) (use assms in \<open>auto simp: goal_simps\<close>)

lemma kda_delta_gives [rule_gives]:
  assumes "{state, q, k, v, f, b, dt_bias, A_log} \<subseteq> T" "no_strings scale" "no_strings lower_bound"
  shows "gives2 T (kda_delta state q k v f b dt_bias A_log layer scale lower_bound)"
  unfolding kda_delta_def gives2_def Let_def
  by (intro hoare_rules) (use assms in \<open>auto simp: goal_simps\<close>)

lemma kda_fused_decode_gives [rule_gives]:
  assumes "{cp, sp, slot_ids, qkv, f, b, g, taps, dt_bias, A_log, o_norm} \<subseteq> T" "no_strings scale" "no_strings eps" "no_strings lower_bound"
  shows "gives3 T (kda_fused_decode cp sp slot_ids qkv f b g taps dt_bias A_log o_norm layer scale eps lower_bound)"
  unfolding kda_fused_decode_def gives3_def Let_def
  by (intro hoare_rules) (use assms in \<open>auto simp: goal_simps\<close>)

end
