(* ===== verification/Capture_Reach.thy ===== *)
theory Capture_Reach
  imports Capture_Rules
begin

text \<open>
  The recorders a model body can reach with calls of the recorder's interface on tensors it has been
  given, and what strict mode says about the graphs they hold.
\<close>

section \<open>Calls\<close>

definition voidc :: "'a cap \<Rightarrow> unit cap" where
  "voidc m = bindc m (\<lambda>_. retc ())"

text \<open>One call of the recorder's interface, with the set of tensors it is passed.\<close>

inductive rec_call :: "TensorValue set \<Rightarrow> unit cap \<Rightarrow> bool" where
  c_position: "rec_call {} (voidc (define_position c))"
| c_row_positions: "rec_call {} (voidc (define_row_positions name b c sid))"
| c_external: "rec_call {} (voidc (external_tensor name sh dt sid st off reg))"
| c_fresh: "rec_call {} (voidc (fresh_buffer name sh dt))"
| c_view: "rec_call {t} (voidc (view_of t name sh))"
| c_narrow: "rec_call {t} (voidc (narrow t name ax start len))"
| c_transpose: "rec_call {t} (voidc (transpose_view t name'))"
| c_layer_norm: "no_strings eps \<Longrightarrow> rec_call ({x, gamma, beta} \<union> set_option out) (voidc (layer_norm x gamma beta eps out name))"
| c_rms_norm: "no_strings eps \<Longrightarrow> rec_call ({x, gamma} \<union> set_option out) (voidc (rms_norm x gamma eps out name))"
| c_rms_norm_gated: "no_strings eps \<Longrightarrow> rec_call ({x, gate, gamma} \<union> set_option out) (voidc (rms_norm_gated x gate gamma eps act out name))"
| c_gelu: "rec_call ({x} \<union> set_option out) (voidc (gelu x out name))"
| c_add: "rec_call ({a, b}) (voidc (add a b name))"
| c_swiglu: "rec_call ({gate, up} \<union> set_option out) (voidc (swiglu gate up out name))"
| c_linear_fp8: "rec_call ({x, w, scale} \<union> set_option out) (voidc (linear_fp8 x w scale out name qb))"
| c_embedding: "rec_call ({ids, token} \<union> set_option pos \<union> set_option out) (voidc (embedding ids token pos position out))"
| c_rope: "rec_call ({x, cos_t, sin_t}) (voidc (rope x cos_t sin_t position layer which rd conv))"
| c_linear: "rec_call ({x, w} \<union> set_option b \<union> set_option out) (voidc (linear x w b out name gh))"
| c_moe_route: "rec_call ({x, router_w, ids, weights} \<union> set_option bias \<union> set_option tid \<union> set_option tok) (voidc (moe_route x router_w ids weights mode score_fn top_k rsf bias ng tg norm tid tok name))"
| c_moe_expert: "rec_call ({x, gate_up, down, ids} \<union> set_option out) (voidc (moe_expert x gate_up down ids out lim name))"
| c_moe_combine: "rec_call ({partials, weights} \<union> set_option shared \<union> set_option out) (voidc (moe_combine partials weights shared out name))"
| c_indexer_scores: "rec_call ({q, entries, mix_w} \<union> set_option out) (voidc (indexer_scores q entries mix_w out name))"
| c_index_topk: "rec_call ({scores, counts} \<union> set_option idx \<union> set_option bias) (voidc (index_topk scores counts k idx bias name))"
| c_cache_append: "rec_call ({k_cache, v_cache, k_new, v_new}) (voidc (cache_append k_cache v_cache k_new v_new position layer))"
| c_attention_scores: "rec_call ({q, k_cache}) (voidc (attention_scores q k_cache position scale layer kv_heads))"
| c_softmax: "rec_call ({scores}) (voidc (softmax scores position layer))"
| c_attention_values: "rec_call ({probs, v_cache} \<union> set_option gate) (voidc (attention_values probs v_cache position layer kv_heads gate))"
| c_cache_append_paged: "rec_call ({k_pool, v_pool, slot_table, k_new, v_new}) (voidc (cache_append_paged k_pool v_pool slot_table k_new v_new position layer))"
| c_attention_scores_paged: "rec_call ({q, k_pool, slot_table}) (voidc (attention_scores_paged q k_pool slot_table position scale layer kv_heads))"
| c_attention_values_paged: "rec_call ({probs, v_pool, slot_table}) (voidc (attention_values_paged probs v_pool slot_table position layer kv_heads))"
| c_conjugate_rope: "rec_call ({x, cos_table, sin_table} \<union> set_option out) (voidc (conjugate_rope x cos_table sin_table position layer which conv rd out))"
| c_mla_scores: "rec_call ({q, latent, wt, cp, ci, sink} \<union> set_option bias) (voidc (mla_scores q latent wt cp ci sink position scale layer window bias))"
| c_mla_values: "rec_call ({probs, latent, wt, cp, ci} \<union> set_option out) (voidc (mla_values probs latent wt cp ci position layer window out))"
| c_compressor_append: "rec_call ({pool, state, window, gates, rms_weight, cos, sin}) (voidc (compressor_append pool state window gates rms_weight cos sin position m rr eps name))"
| c_gdn_conv: "rec_call ({conv_state, x, w}) (voidc (gdn_conv conv_state x w layer))"
| c_mhc_pre: "no_strings eps \<Longrightarrow> no_strings rms_eps \<Longrightarrow> rec_call ({streams, fn, base, scale}) (voidc (mhc_pre streams fn base scale layer iters eps rms_eps))"
| c_mhc_post: "rec_call ({streams, body_out, post, comb}) (voidc (mhc_post streams body_out post comb layer))"
| c_gdn_delta: "no_strings scale \<Longrightarrow> no_strings eps \<Longrightarrow> rec_call ({state, q, k, v, z, a, b, a_log, dt_bias, norm_w}) (voidc (gdn_delta state q k v z a b a_log dt_bias norm_w layer scale eps))"
| c_kda_delta: "no_strings scale \<Longrightarrow> no_strings lower_bound \<Longrightarrow> rec_call ({state, q, k, v, f, b, dt_bias, A_log}) (voidc (kda_delta state q k v f b dt_bias A_log layer scale lower_bound))"
| c_kda_fused_decode: "no_strings scale \<Longrightarrow> no_strings eps \<Longrightarrow> no_strings lower_bound \<Longrightarrow> rec_call ({cp, sp, slot_ids, qkv, f, b, g, taps, dt_bias, A_log, o_norm}) (voidc (kda_fused_decode cp sp slot_ids qkv f b g taps dt_bias A_log o_norm layer scale eps lower_bound))"

definition given :: "Recorder \<Rightarrow> TensorValue set \<Rightarrow> bool" where
  "given r T = (\<forall>t \<in> T. handle r t)"

inductive rec_step :: "Recorder \<Rightarrow> Recorder \<Rightarrow> bool" where
  call: "rec_call T m \<Longrightarrow> given r T \<Longrightarrow> m r = Inr ((), r') \<Longrightarrow> rec_step r r'"

inductive rec_reach :: "Recorder \<Rightarrow> bool" where
  start: "rec_reach new_recorder"
| step: "rec_reach r \<Longrightarrow> rec_step r r' \<Longrightarrow> rec_reach r'"

inductive_cases rec_stepE: "rec_step r r'"

section \<open>Reachable recorders keep the invariant\<close>

lemma voidc_Inr: "voidc m r = Inr ((), r') \<longleftrightarrow> (\<exists>y. m r = Inr (y, r'))"
  by (auto simp: voidc_def bindc_def retc_def bindr_Inr_iff)

lemma hoare_void: "hoare (inv_with T) m Q \<Longrightarrow> (\<And>y r. Q y r \<Longrightarrow> inv_with T r) \<Longrightarrow> hoare (inv_with T) (voidc m) (\<lambda>_. inv_with T)"
  unfolding hoare_def by (auto simp: voidc_Inr)

lemma gives_void:
  "gives T m \<Longrightarrow> hoare (inv_with T) (voidc m) (\<lambda>_. inv_with T)"
  "gives2 T m2 \<Longrightarrow> hoare (inv_with T) (voidc m2) (\<lambda>_. inv_with T)"
  "gives3 T m3 \<Longrightarrow> hoare (inv_with T) (voidc m3) (\<lambda>_. inv_with T)"
  by (auto simp: gives_defs inv_with_insert elim!: hoare_void)

lemma base_gives: "gives T (define_row_positions name b c sid)" "gives T (external_tensor name sh dt sid st off reg)"
  "gives T (fresh_buffer name sh dt)" "gives T (view_of t name sh)" "gives T (narrow t name ax start len)"
  "gives T (transpose_view t n)"
  by (simp_all add: gives_def define_row_positions_inv external_tensor_inv fresh_buffer_inv view_of_inv narrow_inv
      transpose_view_inv)

lemma rec_call_keeps: "rec_call T m \<Longrightarrow> hoare (inv_with T) m (\<lambda>_. inv_with T)"
proof (induction rule: rec_call.induct)
  case c_position
  show ?case by (rule hoare_void [OF define_position_inv])
qed (rule gives_void; (rule base_gives | (rule rule_gives; (rule order_refl | assumption))))+

lemma rec_step_inv: "rec_step r r' \<Longrightarrow> rec_inv r \<Longrightarrow> rec_inv r'"
proof (elim rec_stepE)
  fix T m assume c: "rec_call T m" "given r T" "m r = Inr ((), r')" and i: "rec_inv r"
  have "inv_with T r" using c(2) i by (simp add: inv_with_def given_def)
  then show "rec_inv r'" using hoareD [OF rec_call_keeps [OF c(1)] _ c(3)] by (simp add: inv_with_def)
qed

lemma rec_reach_inv: "rec_reach r \<Longrightarrow> rec_inv r"
  by (induction rule: rec_reach.induct) (auto intro: rec_inv_new rec_step_inv)

lemma recorded_op_legal:
  assumes "rec_inv r" "g_row_position_tensors (rb_graph r) \<inter> fixed_strings = {}" "op \<in> set (g_ops (rb_graph r))"
  shows "op_legal (rb_graph r) op"
proof -
  have o: "op_recorded (rb_graph r) op" and s: "dom (map_of (g_scalars (rb_graph r))) \<subseteq> {''p''}"
    using assms by (auto simp: rec_inv_def)
  have "\<not> dict_has (g_scalars (rb_graph r)) t \<and> t \<notin> g_row_position_tensors (rb_graph r)"
    if "t \<in> fixed_strings" for t
  proof -
    have "t \<noteq> ''p''" using that by (auto simp: fixed_strings_def)
    then have "map_of (g_scalars (rb_graph r)) t = None" using s by blast
    then show ?thesis using that assms(2) by (auto simp: dict_has_def)
  qed
  then show ?thesis using o by (auto simp: op_legal_def op_recorded_def)
qed

text \<open>
  C17: Recorded graphs are well formed and legal.  Whatever sequence of recorder calls a model body
  makes on tensors it has been given, the recorded graph keeps its invariant, the operands and results
  of every recorded operator are in the tensor table, and strict mode raises exactly when some tensor
  has a non-positive dimension or an unregistered storage, provided no per-row position tensor is
  named like one of the fixed attribute strings.
\<close>

theorem recorded_graph_legal:
  assumes "rec_reach r" and "g_row_position_tensors (rb_graph r) \<inter> fixed_strings = {}"
  shows "graph_wf (rb_graph r)
    \<and> (\<forall>op \<in> set (g_ops (rb_graph r)). \<forall>n \<in> set (op_inputs op) \<union> set (op_outputs op).
          \<exists>t. graph_tensor (rb_graph r) n = Inr t)
    \<and> enforce (rb_graph r) =
        (if \<forall>e \<in> set (g_tensors (rb_graph r)). tensor_legal (rb_graph r) (snd e)
         then Inr () else Inl LegalityError)"
proof (intro conjI)
  have i: "rec_inv r" by (rule rec_reach_inv [OF assms(1)])
  then show "graph_wf (rb_graph r)" by (simp add: rec_inv_def)
  show "\<forall>op \<in> set (g_ops (rb_graph r)). \<forall>n \<in> set (op_inputs op) \<union> set (op_outputs op).
      \<exists>t. graph_tensor (rb_graph r) n = Inr t"
    using i by (fastforce simp: rec_inv_def op_recorded_def graph_tensor_def)
  have "\<forall>op \<in> set (g_ops (rb_graph r)). op_legal (rb_graph r) op"
    using recorded_op_legal [OF i assms(2)] by blast
  then show "enforce (rb_graph r) =
      (if \<forall>e \<in> set (g_tensors (rb_graph r)). tensor_legal (rb_graph r) (snd e)
       then Inr () else Inl LegalityError)"
    using enforce_value [of "rb_graph r"] by simp
qed

text \<open>A body that registers one input and applies an activation to it.\<close>

definition demo_body :: "TensorValue cap" where
  "demo_body = bindc (external_tensor ''x'' [2, 4] F32 100 None 0 True) (\<lambda>x. gelu x None ''act'')"

lemma demo_body_reach: "demo_body new_recorder = Inr (y, r) \<Longrightarrow> rec_reach r"
proof -
  assume "demo_body new_recorder = Inr (y, r)"
  then obtain x r1 where e: "external_tensor ''x'' [2, 4] F32 100 None 0 True new_recorder = Inr (x, r1)"
    and g: "gelu x None ''act'' r1 = Inr (y, r)" by (auto simp: demo_body_def bindc_def result_simps)
  have "rec_reach r1"
    using step [OF start call [OF c_external]] e by (force simp: given_def voidc_Inr)
  moreover have "given r1 ({x} \<union> set_option None)"
    using hoareD [OF external_tensor_inv [of "{}"] _ e] rec_inv_new by (simp add: inv_with_def given_def)
  ultimately show "rec_reach r" using g by (meson voidc_Inr c_gelu call step)
qed

lemma demo_body_runs:
  "\<exists>y r. demo_body new_recorder = Inr (y, r) \<and> map op_kind (g_ops (rb_graph r)) = [''gelu'']
     \<and> g_row_position_tensors (rb_graph r) = {}
     \<and> (\<forall>e \<in> set (g_tensors (rb_graph r)). tensor_legal (rb_graph r) (snd e))"
  by (simp add: demo_body_def bindc_def external_tensor_def new_recorder_def empty_graph_def
      graph_add_tensor_def graph_add_view_def add_tensor_def dict_has_def dict_set_def add_external_storage_def
      dict_setdefault_def gelu_def out_or_fresh_def fresh_buffer_def new_storage_def Let_def
      cap_record_def ARITHMETIC_OP_KINDS_def CONTRACTS_def mk_contract_def record_op_def retc_def
      tensor_legal_def)

theorem recorded_graph_legal_witness:
  "\<exists>y r. demo_body new_recorder = Inr (y, r) \<and> map op_kind (g_ops (rb_graph r)) = [''gelu'']
     \<and> enforce (rb_graph r) = Inr ()"
proof -
  obtain y r where r: "demo_body new_recorder = Inr (y, r)" "map op_kind (g_ops (rb_graph r)) = [''gelu'']"
    "g_row_position_tensors (rb_graph r) = {}"
    "\<forall>e \<in> set (g_tensors (rb_graph r)). tensor_legal (rb_graph r) (snd e)"
    using demo_body_runs by (elim exE conjE)
  then show ?thesis using recorded_graph_legal [OF demo_body_reach [OF r(1)]] by auto
qed

end
