(* ===== verification/Float_Formats.thy ===== *)
theory Float_Formats
  imports Complex_Main "HOL-Library.Word"
begin

text \<open>
  The bit-level number formats of \<^verbatim>\<open>compiler/reference_types.py\<close> and \<^verbatim>\<open>torch_ops/bf16_oracle.py\<close>: rounding
  of binary32 and binary64 patterns to the bfloat16 grid, and decoding of 8-bit e4m3 floats.  A NumPy or
  torch element is its bit pattern, a word of the element's width; the values of patterns are
  rationals, since every finite binary float is one and the decoders compute exactly.
\<close>

unbundle bit_operations_syntax

section \<open>Rounding a binary32 pattern\<close>

definition bf16_round :: "32 word \<Rightarrow> 32 word" where
  "bf16_round a =
     (let u = ucast a :: 64 word;
          r = u + 0x7FFF + (drop_bit 16 u AND 1)
      in ucast (r AND 0xFFFF0000))"

section \<open>Rounding a binary64 pattern\<close>

text \<open>
  The int64 tensors of \<^verbatim>\<open>bf16_round_fp64\<close> are integers here: \<^verbatim>\<open>>>\<close> is the arithmetic shift, and no
  intermediate value leaves the signed 64-bit range.  The input is the signed view of the pattern, the
  output is truncated to 32 bits by the conversion to int32.
\<close>

definition rne_up :: "int \<Rightarrow> int \<Rightarrow> int \<Rightarrow> bool" where
  "rne_up remainder half keep = (remainder > half \<or> (remainder = half \<and> keep AND 1 = 1))"

definition fp64_normal_bits :: "int \<Rightarrow> int \<Rightarrow> int \<Rightarrow> int" where
  "fp64_normal_bits sign32 exp32 mantissa =
     (let keep = drop_bit 45 mantissa;
          remainder = mantissa AND (2 ^ 45 - 1);
          keep = (if rne_up remainder (2 ^ 44) keep then keep + 1 else keep);
          carry = drop_bit 7 keep;
          keep = keep AND 0x7F
      in sign32 OR push_bit 23 (exp32 + carry) OR push_bit 16 keep)"

definition fp64_subnormal_bits :: "int \<Rightarrow> int \<Rightarrow> int \<Rightarrow> int" where
  "fp64_subnormal_bits sign32 exp32 mantissa =
     (let virtual = mantissa OR 2 ^ 52;
          shift_true = 46 - exp32;
          representable = shift_true \<le> 53;
          shift = nat (min 53 (max 0 shift_true));
          sub_keep = drop_bit shift virtual;
          sub_remainder = virtual AND (2 ^ shift - 1);
          sub_keep = (if rne_up sub_remainder (2 ^ (shift - 1)) sub_keep then sub_keep + 1 else sub_keep);
          sub_keep = (if representable then sub_keep else 0)
      in if sub_keep \<ge> 128 then sign32 OR 2 ^ 23 else sign32 OR push_bit 16 sub_keep)"

definition bf16_round_fp64 :: "64 word \<Rightarrow> 32 word" where
  "bf16_round_fp64 x =
     (let bits = sint x;
          sign32 = drop_bit 32 bits AND 0x80000000;
          magnitude = bits AND (2 ^ 63 - 1);
          exponent = drop_bit 52 magnitude AND 0x7FF;
          mantissa = magnitude AND (2 ^ 52 - 1);
          exp32 = exponent - 1023 + 127;
          is_nan = (exponent = 0x7FF \<and> mantissa \<noteq> 0);
          is_inf = ((exponent = 0x7FF \<and> mantissa = 0) \<or> exp32 \<ge> 0xFF);
          is_zero = (exponent = 0);
          normal = (exponent \<noteq> 0 \<and> exp32 \<ge> 1 \<and> exp32 \<le> 0xFE \<and> \<not> is_inf);
          subnormal = (exponent \<noteq> 0 \<and> exp32 \<le> 0 \<and> \<not> is_inf)
      in word_of_int
           (if normal then fp64_normal_bits sign32 exp32 mantissa
            else if subnormal then fp64_subnormal_bits sign32 exp32 mantissa
            else if is_zero then sign32
            else if is_nan then sign32 OR 0x7FC00000 else sign32 OR push_bit 23 0xFF))"

text \<open>
  The test oracle \<^verbatim>\<open>_fraction_rne_bf16\<close> on a finite value.  The largest power of two below the value is
  taken exactly (\<^verbatim>\<open>floor (log2 value)\<close>).
\<close>

definition fraction_rne :: "rat \<Rightarrow> int" where
  "fraction_rne exact =
     (let floor_x = \<lfloor>exact\<rfloor>; remainder = exact - of_int floor_x
      in if remainder > 1 / 2 \<or> (remainder = 1 / 2 \<and> floor_x mod 2 = 1) then floor_x + 1 else floor_x)"

definition fraction_grid :: "int \<Rightarrow> rat" where
  "fraction_grid exponent = (if exponent \<ge> -126 then 2 powi (exponent - 7) else 2 powi (-133))"

text \<open>\<^verbatim>\<open>math.floor(math.log2(value))\<close> of a positive value.\<close>

fun bit_length :: "nat \<Rightarrow> nat" where
  "bit_length n = (if n = 0 then 0 else Suc (bit_length (n div 2)))"

declare bit_length.simps [simp del]

definition floor_log2 :: "rat \<Rightarrow> int" where
  "floor_log2 v =
     (case quotient_of v of (p, q) \<Rightarrow>
        let e = int (bit_length (nat p)) - int (bit_length (nat q))
        in if 2 powi e \<le> v then e else e - 1)"

text \<open>
  \<^term>\<open>None\<close> is the infinity of the value's sign; the final conversion to a Python float is exact, since
  the product is a multiple of a power of two with at most nine significant bits.
\<close>

definition fraction_rne_bf16 :: "rat \<Rightarrow> rat option" where
  "fraction_rne_bf16 value =
     (let sign = (if value < 0 then -1 else 1); v = \<bar>value\<bar> in
      if v = 0 then Some 0
      else let e = floor_log2 v in
        if e > 127 \<or> (e = 128 \<and> v \<ge> 2 ^ 128) then None
        else let grid = fraction_grid e
             in Some (sign * (of_int (fraction_rne (v / grid)) * grid)))"

section \<open>Decoding e4m3\<close>

text \<open>\<^term>\<open>None\<close> is NaN.\<close>

definition decode_e4m3 :: "8 word \<Rightarrow> rat option" where
  "decode_e4m3 b =
     (let sign = (if b AND 0x80 \<noteq> 0 then -1 else 1);
          ex = uint (drop_bit 3 b AND 0xF);
          mant = of_int (uint (b AND 0x7));
          normal = 2 powi (ex - 7) * (1 + mant / 8);
          sub = 2 powi (-6) * (mant / 8)
      in if ex = 0xF \<and> mant = 7 then None
         else Some (sign * (if ex = 0 then sub else normal)))"

section \<open>What the patterns denote\<close>

text \<open>Sign, exponent and mantissa fields and the value of a finite binary64 and binary32 pattern.\<close>

definition f64_sign :: "64 word \<Rightarrow> int" where "f64_sign x = uint x div 2 ^ 63"
definition f64_exp :: "64 word \<Rightarrow> int" where "f64_exp x = uint x div 2 ^ 52 mod 2 ^ 11"
definition f64_man :: "64 word \<Rightarrow> int" where "f64_man x = uint x mod 2 ^ 52"

definition f64_val :: "64 word \<Rightarrow> rat" where
  "f64_val x = (if f64_sign x = 1 then -1 else 1) *
     (if f64_exp x = 0 then of_int (f64_man x) * 2 powi (-1074)
      else of_int (2 ^ 52 + f64_man x) * 2 powi (f64_exp x - 1075))"

definition f32_sign :: "32 word \<Rightarrow> int" where "f32_sign r = uint r div 2 ^ 31"
definition f32_exp :: "32 word \<Rightarrow> int" where "f32_exp r = uint r div 2 ^ 23 mod 2 ^ 8"
definition f32_man :: "32 word \<Rightarrow> int" where "f32_man r = uint r mod 2 ^ 23"

definition f32_val :: "32 word \<Rightarrow> rat" where
  "f32_val r = (if f32_sign r = 1 then -1 else 1) *
     (if f32_exp r = 0 then of_int (f32_man r) * 2 powi (-149)
      else of_int (2 ^ 23 + f32_man r) * 2 powi (f32_exp r - 150))"

definition is_nan32 :: "32 word \<Rightarrow> bool" where
  "is_nan32 a = (uint a mod 2 ^ 31 > 0x7F800000)"

section \<open>Rounding binary32\<close>

lemma and_high: "(r :: 64 word) AND 0xFFFF0000 = push_bit 16 (take_bit 16 (drop_bit 16 r))"
proof -
  have "(0xFFFF0000 :: 64 word) = push_bit 16 (mask 16)" by (simp add: mask_numeral)
  then show ?thesis
    by (simp add: bit_eq_iff bit_simps) (auto simp: bit_simps)
qed

lemma uint_and_high: "uint (ucast ((r :: 64 word) AND 0xFFFF0000) :: 32 word) = uint r div 2 ^ 16 mod 2 ^ 16 * 2 ^ 16"
proof -
  have "uint (ucast (r AND 0xFFFF0000) :: 32 word) = push_bit 16 (take_bit 16 (drop_bit 16 (uint r)))"
    unfolding and_high by (rule bit_eqI) (auto simp: bit_simps)
  then show ?thesis by (simp add: push_bit_eq_mult take_bit_eq_mod drop_bit_eq_div)
qed

lemma uint_bf16_round:
  "uint (bf16_round a) = (uint a + 0x7FFF + uint a div 2 ^ 16 mod 2) div 2 ^ 16 mod 2 ^ 16 * 2 ^ 16"
proof -
  define n where "n = uint a"
  have n: "0 \<le> n" "n < 2 ^ 32" using uint_bounded [of a] by (simp_all add: n_def)
  let ?u = "ucast a :: 64 word"
  have u: "uint ?u = n" by (simp add: n_def uint_up_ucast is_up)
  have l: "uint (drop_bit 16 ?u AND 1) = n div 2 ^ 16 mod 2"
    by (simp add: drop_bit_eq_div and_one_eq uint_div uint_mod u)
  have "uint (?u + 0x7FFF + (drop_bit 16 ?u AND 1)) = n + 0x7FFF + n div 2 ^ 16 mod 2"
    using n by (simp add: uint_word_ariths u l take_bit_int_eq_self)
  then show ?thesis by (simp add: bf16_round_def Let_def uint_and_high n_def)
qed

text \<open>The sum that rounds a pattern, split into sign, upper half, lower half and carry.\<close>

lemma bf16_split:
  fixes n :: int
  assumes "0 \<le> n" "n < 4294967296"
  obtains s g r c where "n = s * 2147483648 + g * 65536 + r" "0 \<le> s" "s \<le> 1" "0 \<le> g" "g < 32768"
    "0 \<le> r" "r < 65536" "0 \<le> c" "c \<le> 1" "c * 65536 \<le> r + 32767 + g mod 2"
    "r + 32767 + g mod 2 < c * 65536 + 65536"
    "(n + 32767 + n div 65536 mod 2) div 65536 = s * 32768 + g + c"
proof -
  define s where "s = n div 2147483648"
  define g where "g = n mod 2147483648 div 65536"
  define r where "r = n mod 65536"
  have r: "0 \<le> r" "r < 65536" by (simp_all add: r_def)
  have nm: "n mod 2147483648 = g * 65536 + r" unfolding g_def r_def
    using mod_mult_div_eq [of "n mod 2147483648" 65536] by (simp add: mod_mod_cancel)
  have n: "n = s * 2147483648 + g * 65536 + r"
    using nm mult_div_mod_eq [of 2147483648 n] unfolding s_def by linarith
  have g: "0 \<le> g" "g < 32768" using pos_mod_bound [of 2147483648 n] pos_mod_sign [of 2147483648 n] nm r
    by linarith+
  have s: "0 \<le> s" "s \<le> 1" using assms n g r by linarith+
  have q: "n div 65536 = s * 32768 + g" using n r by simp
  have qb: "n div 65536 mod 2 = g mod 2" unfolding q by presburger
  define b where "b = g mod 2"
  have b: "0 \<le> b" "b \<le> 1" by (simp_all add: b_def)
  define c where "c = (r + 32767 + b) div 65536"
  have c: "0 \<le> c" "c \<le> 1" "c * 65536 \<le> r + 32767 + b" "r + 32767 + b < c * 65536 + 65536"
    using r b mult_div_mod_eq [of 65536 "r + 32767 + b"] pos_mod_bound [of 65536 "r + 32767 + b"]
      pos_mod_sign [of 65536 "r + 32767 + b"] unfolding c_def [symmetric] by linarith+
  have "n + 32767 + b = (r + 32767 + b) + (s * 32768 + g) * 65536" using n by (simp add: algebra_simps)
  then have "(n + 32767 + n div 65536 mod 2) div 65536 = s * 32768 + g + c"
    unfolding qb b_def [symmetric] c_def by simp
  then show thesis by (rule that [OF n s g r c [unfolded b_def]])
qed

lemma bf16_arith:
  fixes n :: int
  defines "m \<equiv> (n + 32767 + n div 65536 mod 2) div 65536 mod 65536 * 65536"
  assumes "0 \<le> n" "n < 4294967296" "n mod 2147483648 \<le> 2139095040"
  shows "\<bar>m - n\<bar> \<le> 32768" "\<bar>m - n\<bar> = 32768 \<Longrightarrow> even (m div 65536)"
    "m div 2147483648 = n div 2147483648" "m mod 2147483648 \<le> 2139095040"
proof -
  obtain s g r c where n: "n = s * 2147483648 + g * 65536 + r" and s: "0 \<le> s" "s \<le> 1"
    and g0: "0 \<le> g" "g < 32768" and r: "0 \<le> r" "r < 65536" and c: "0 \<le> c" "c \<le> 1"
      "c * 65536 \<le> r + 32767 + g mod 2" "r + 32767 + g mod 2 < c * 65536 + 65536"
    and d: "(n + 32767 + n div 65536 mod 2) div 65536 = s * 32768 + g + c"
    by (rule bf16_split [OF assms(2,3)])
  have b: "0 \<le> g mod 2" "g mod 2 \<le> 1" by simp_all
  have k: "0 \<le> g * 65536 + r" "g * 65536 + r < 2147483648" using g0 r by linarith+
  have "n = (g * 65536 + r) + s * 2147483648" using n by linarith
  then have nd: "n mod 2147483648 = g * 65536 + r" "n div 2147483648 = s" using k by simp_all
  have g: "g \<le> 32640" "g = 32640 \<Longrightarrow> r = 0" using nd(1) assms(4) r by linarith+
  have "s * 32768 + g + c < 65536" "0 \<le> s * 32768 + g + c" using s g g0 c by linarith+
  then have m: "m = (s * 32768 + g + c) * 65536" unfolding m_def d by simp
  have mn: "m - n = c * 65536 - r" using m n by (simp add: algebra_simps)
  show "\<bar>m - n\<bar> \<le> 32768" unfolding mn using c r b by linarith
  have "even (g + c)" if "\<bar>m - n\<bar> = 32768"
  proof -
    have "g mod 2 = c" using that c r b unfolding mn by linarith
    then show ?thesis by presburger
  qed
  moreover have "m div 65536 = s * 32768 + (g + c)" unfolding m by simp
  ultimately show "\<bar>m - n\<bar> = 32768 \<Longrightarrow> even (m div 65536)" by simp
  have "g + c \<le> 32640"
  proof (cases "g = 32640")
    case True
    then show ?thesis using g(2) c b by linarith
  qed (use g c in linarith)
  then have gc: "0 \<le> (g + c) * 65536" "(g + c) * 65536 \<le> 2139095040" using g0 c by simp_all
  have m': "m = (g + c) * 65536 + s * 2147483648" using m by (simp add: algebra_simps)
  show "m div 2147483648 = n div 2147483648" unfolding nd(2) m' using gc by simp
  show "m mod 2147483648 \<le> 2139095040" unfolding m' using gc by simp
qed

lemma bf16_nan_arith:
  fixes n :: int
  assumes "0 \<le> n" "n < 4294967296" "n mod 2147483648 > 2139095040"
  shows "(n + 32767 + n div 65536 mod 2) div 65536 mod 65536 * 65536 mod 2147483648 > 2139095040 \<longleftrightarrow>
    2139127809 \<le> n mod 2147483648 \<and> n mod 2147483648 < 2147450880"
proof -
  obtain s g r c where n: "n = s * 2147483648 + g * 65536 + r" and s: "0 \<le> s" "s \<le> 1"
    and g0: "0 \<le> g" "g < 32768" and r: "0 \<le> r" "r < 65536" and c0: "0 \<le> c" "c \<le> 1"
      "c * 65536 \<le> r + 32767 + g mod 2" "r + 32767 + g mod 2 < c * 65536 + 65536"
    and d: "(n + 32767 + n div 65536 mod 2) div 65536 = s * 32768 + g + c"
    by (rule bf16_split [OF assms(1,2)])
  define b where "b = g mod 2"
  have b: "0 \<le> b" "b \<le> 1" by (simp_all add: b_def)
  note c = c0 [folded b_def]
  have k: "0 \<le> g * 65536 + r" "g * 65536 + r < 2147483648" using g0 r by linarith+
  have "n = (g * 65536 + r) + s * 2147483648" using n by linarith
  then have nd: "n mod 2147483648 = g * 65536 + r" using k by simp
  have g: "g \<ge> 32640" using assms(3) r unfolding nd by linarith
  have "(s * 32768 + g + c) mod 65536 * 65536 mod 2147483648 = (g + c) mod 32768 * 65536"
  proof -
    have "(s * 32768 + g + c) mod 65536 * 65536 mod 2147483648 = (s * 32768 + g + c) mod 65536 mod 32768 * 65536"
      using mult_mod_right [of 65536 "(s * 32768 + g + c) mod 65536" 32768] by (simp add: ac_simps)
    also have "\<dots> = ((g + c) + s * 32768) mod 32768 * 65536" by (simp add: mod_mod_cancel ac_simps)
    finally show ?thesis by simp
  qed
  moreover have "(g + c) mod 32768 > 32640 \<longleftrightarrow> 32641 \<le> g + c \<and> g + c < 32768"
  proof (cases "g + c = 32768")
    case False
    then have "(g + c) mod 32768 = g + c" using g0 c by (intro mod_pos_pos_trivial) linarith+
    then show ?thesis using False g0 c by linarith
  qed simp
  moreover have cr: "c = 1 \<longleftrightarrow> r \<ge> 32769 - b" using c r b by linarith
  moreover have "32641 \<le> g + c \<longleftrightarrow> 2139127809 \<le> g * 65536 + r"
  proof (cases "g = 32640")
    case True
    then have "b = 0" by (simp add: b_def)
    then show ?thesis using True cr c r by linarith
  qed (use g c r in linarith)
  moreover have "g + c < 32768 \<longleftrightarrow> g * 65536 + r < 2147450880"
  proof (cases "g = 32767")
    case True
    then have "b = 1" by (simp add: b_def)
    then show ?thesis using True cr c r by linarith
  qed (use g0 c r in linarith)
  ultimately show ?thesis unfolding d nd by linarith
qed

lemma uint_bf16_round':
  "uint (bf16_round a) = (uint a + 32767 + uint a div 65536 mod 2) div 65536 mod 65536 * 65536"
  using uint_bf16_round [of a] by simp

lemma bf16_round_idem: "bf16_round (bf16_round a) = bf16_round a"
proof (rule word_uint_eqI)
  define k where "k = (uint a + 32767 + uint a div 65536 mod 2) div 65536 mod 65536"
  have k: "uint (bf16_round a) = k * 65536" "k mod 65536 = k" by (simp_all only: uint_bf16_round' k_def mod_mod_trivial)
  have "0 \<le> k mod 2" "k mod 2 \<le> 1" by simp_all
  then have "(32767 + k mod 2) div 65536 = 0" by (intro div_pos_pos_trivial) linarith+
  moreover have "k * 65536 + 32767 + k mod 2 = (32767 + k mod 2) + k * 65536" by simp
  ultimately have "(k * 65536 + 32767 + k mod 2) div 65536 = k" by (simp only: div_mult_self1)
  then show "uint (bf16_round (bf16_round a)) = uint (bf16_round a)"
    by (simp only: uint_bf16_round' [of "bf16_round a"] k(1)) (simp add: k(2))
qed

text \<open>
  C19: Rounding to bfloat16 is round to nearest, ties to even.  For every binary32 pattern that is not a
  NaN, \<^verbatim>\<open>bf16_round\<close> keeps the sign, clears the low half, moves the pattern by at most half a bfloat16 step
  and in a tie to the even neighbour; the result is not a NaN, and rounding again changes nothing.
\<close>

theorem bf16_round_nearest_even:
  assumes "\<not> is_nan32 a"
  shows "\<not> is_nan32 (bf16_round a)
    \<and> uint (bf16_round a) div 2 ^ 31 = uint a div 2 ^ 31
    \<and> 2 ^ 16 dvd uint (bf16_round a)
    \<and> \<bar>uint (bf16_round a) - uint a\<bar> \<le> 2 ^ 15
    \<and> (\<bar>uint (bf16_round a) - uint a\<bar> = 2 ^ 15 \<longrightarrow> even (uint (bf16_round a) div 2 ^ 16))
    \<and> bf16_round (bf16_round a) = bf16_round a"
proof -
  have n: "0 \<le> uint a" "uint a < 4294967296" using uint_bounded [of a] by simp_all
  have "uint a mod 2147483648 \<le> 2139095040" using assms by (simp add: is_nan32_def)
  note ar = bf16_arith [OF n this, folded uint_bf16_round']
  have "\<not> is_nan32 (bf16_round a)" using ar(4) unfolding is_nan32_def by simp
  moreover have "2 ^ 16 dvd uint (bf16_round a)" unfolding uint_bf16_round' by simp
  moreover have "(2 :: int) ^ 31 = 2147483648" "(2 :: int) ^ 15 = 32768" "(2 :: int) ^ 16 = 65536" by simp_all
  ultimately show ?thesis using ar(1-3) bf16_round_idem by metis
qed

theorem bf16_round_nearest_even_witness:
  "bf16_round 0x3F808000 = 0x3F800000 \<and> bf16_round 0x3F818000 = 0x3F820000
   \<and> bf16_round (bf16_round 0x3F808000) = bf16_round 0x3F808000"
proof -
  have "\<not> is_nan32 0x3F808000" by (simp add: is_nan32_def)
  then show ?thesis using bf16_round_nearest_even [of "0x3F808000"] by (simp add: bf16_round_def)
qed

text \<open>
  Which NaNs survive.  A NaN pattern is mapped to a NaN exactly when its magnitude lies strictly
  between 0x7F808000 and 0x7FFF8000; the other NaNs become an infinity, or a zero of either sign.
\<close>

theorem bf16_round_nan_lost:
  assumes "is_nan32 a"
  shows "is_nan32 (bf16_round a) \<longleftrightarrow> 0x7F808001 \<le> uint a mod 2 ^ 31 \<and> uint a mod 2 ^ 31 < 0x7FFF8000"
proof -
  have n: "0 \<le> uint a" "uint a < 4294967296" using uint_bounded [of a] by simp_all
  have "uint a mod 2147483648 > 2139095040" using assms by (simp add: is_nan32_def)
  then show ?thesis using bf16_nan_arith [OF n, folded uint_bf16_round'] by (simp add: is_nan32_def)
qed

theorem bf16_round_nan_lost_witness:
  "\<not> is_nan32 (bf16_round 0x7FFFFFFF) \<and> bf16_round 0x7FFFFFFF = 0x80000000
   \<and> bf16_round 0x7F800001 = 0x7F800000"
proof -
  have "is_nan32 0x7FFFFFFF" by (simp add: is_nan32_def)
  then show ?thesis using bf16_round_nan_lost [of "0x7FFFFFFF"] by (simp add: bf16_round_def)
qed

section \<open>The e4m3 grid\<close>

text \<open>The magnitude of a byte in units of the smallest subnormal, \<open>2 powi (-9)\<close>.\<close>

definition e4m3_units :: "int \<Rightarrow> int" where
  "e4m3_units n = (if n < 8 then n else (8 + n mod 8) * 2 ^ nat (n div 8 - 1))"

lemma e4m3_fields:
  "b AND 0x80 = 0 \<longleftrightarrow> uint b < 128" "uint (drop_bit 3 b AND 0xF) = uint b div 8 mod 16"
  "uint (b AND 7) = uint b mod 8" for b :: "8 word"
proof -
  have m: "(0xF :: 8 word) = mask 4" "(7 :: 8 word) = mask 3" by (simp_all add: mask_numeral)
  have u: "0 \<le> uint b" "uint b < 256" using uint_bounded [of b] by simp_all
  have "b AND 0x80 = 0 \<longleftrightarrow> \<not> bit (uint b) 7"
    using and_exp_eq_0_iff_not_bit [of b 7] by (simp add: bit_uint_iff)
  also have "\<dots> \<longleftrightarrow> uint b < 128"
  proof -
    define n where "n = uint b"
    have "0 \<le> n" "n < 256" using u by (simp_all add: n_def)
    then have "odd (n div 128) \<longleftrightarrow> \<not> n < 128" by presburger
    then show ?thesis unfolding bit_iff_odd n_def by simp
  qed
  finally show "b AND 0x80 = 0 \<longleftrightarrow> uint b < 128" .
  have "uint (b AND 7) = take_bit 3 (uint b)"
    unfolding m take_bit_eq_mask [symmetric] by (rule bit_eqI) (auto simp: bit_simps)
  then show "uint (b AND 7) = uint b mod 8" by (simp add: take_bit_eq_mod)
  have "uint (drop_bit 3 b AND 0xF) = take_bit 4 (drop_bit 3 (uint b))"
    unfolding m take_bit_eq_mask [symmetric] by (rule bit_eqI) (auto simp: bit_simps)
  then show "uint (drop_bit 3 b AND 0xF) = uint b div 8 mod 16" by (simp add: take_bit_eq_mod drop_bit_eq_div)
qed

lemma decode_e4m3_units:
  "decode_e4m3 b = (if uint b mod 128 = 127 then None
     else Some ((if uint b < 128 then 1 else -1) * (of_int (e4m3_units (uint b mod 128)) / 512)))"
proof -
  define e m where "e = uint b div 8 mod 16" and "m = uint b mod 8"
  have em: "0 \<le> e" "0 \<le> m" "m < 8" by (simp_all add: e_def m_def)
  have n: "uint b mod 128 = 8 * e + m" unfolding e_def m_def using zmod_zmult2_eq [of 16 "uint b" 8] by simp
  have "2 powi (e - 7) * (1 + of_int m / 8) = (of_int ((8 + m) * 2 ^ nat (e - 1)) / 512 :: rat)" if "e \<noteq> 0"
  proof -
    have "(2 :: rat) powi (e - 7) = 2 powi (e - 1) / 2 powi 6" using power_int_diff [of "2 :: rat" "e - 1" 6] by simp
    moreover have "(2 :: rat) powi (e - 1) = 2 ^ nat (e - 1)" using that em by (simp add: power_int_def)
    ultimately have p: "(2 :: rat) powi (e - 7) = 2 ^ nat (e - 1) / 64" by simp
    show ?thesis unfolding p by (simp add: field_simps)
  qed
  moreover have "e4m3_units (8 * e + m) = (if e = 0 then m else (8 + m) * 2 ^ nat (e - 1))"
    using em by (auto simp: e4m3_units_def)
  moreover have "8 * e + m = 127 \<longleftrightarrow> e = 15 \<and> m = 7" using em by presburger
  moreover have "(of_int m :: rat) = 7 \<longleftrightarrow> m = 7" by linarith
  ultimately show ?thesis
    unfolding decode_e4m3_def Let_def e4m3_fields n
    by (simp add: e_def [symmetric] m_def [symmetric] power_int_minus)
qed

lemma e4m3_units_step: "0 \<le> k \<Longrightarrow> e4m3_units k < e4m3_units (k + 1)"
proof -
  assume k: "0 \<le> k"
  define e m where "e = k div 8" and "m = k mod 8"
  have em: "k = 8 * e + m" "0 \<le> e" "0 \<le> m" "m < 8" using k by (simp_all add: e_def m_def)
  show ?thesis
  proof (cases "m = 7")
    case True
    then have "(k + 1) div 8 = e + 1" "(k + 1) mod 8 = 0" using em by simp_all
    then have "e4m3_units (k + 1) = 8 * 2 ^ nat e" using em True by (simp add: e4m3_units_def)
    moreover have "e4m3_units k = (if e = 0 then 7 else 15 * 2 ^ (nat e - 1))"
      using em True by (simp add: e4m3_units_def e_def [symmetric] m_def [symmetric] nat_diff_distrib)
    moreover have "(2 :: int) ^ nat e = 2 * 2 ^ (nat e - 1)" if "e \<noteq> 0"
      using that em by (simp flip: power_Suc)
    ultimately show ?thesis by (cases "e = 0") simp_all
  next
    case False
    then have "0 \<le> m + 1" "m + 1 < 8" "k + 1 = (m + 1) + e * 8" using em by simp_all
    then have "(k + 1) div 8 = e" "(k + 1) mod 8 = m + 1" by (simp_all only: div_mult_self1 mod_mult_self1) simp_all
    then show ?thesis using em by (auto simp: e4m3_units_def e_def [symmetric] m_def [symmetric])
  qed
qed

lemma e4m3_units_mono: "0 \<le> m \<Longrightarrow> m < n \<Longrightarrow> e4m3_units m < e4m3_units n"
proof -
  assume m: "0 \<le> m" and "m < n"
  from \<open>m < n\<close> show ?thesis
  proof (induction n rule: int_gr_induct)
    case base
    show ?case using m by (rule e4m3_units_step)
  next
    case (step i)
    then show ?case using m e4m3_units_step [of i] by simp
  qed
qed

text \<open>
  The decoded bytes are the e4m3 grid.  Exactly the two bytes 0x7F and 0xFF decode to NaN, every
  other value is at most 448 in magnitude, positive bytes decode strictly increasingly (so the
  encoding is one to one), and setting the sign bit negates the value.
\<close>

theorem decode_e4m3_grid:
  "(decode_e4m3 b = None \<longleftrightarrow> b = 0x7F \<or> b = 0xFF)
   \<and> (\<forall>v. decode_e4m3 b = Some v \<longrightarrow> \<bar>v\<bar> \<le> 448)
   \<and> (c < b \<and> b < 0x7F \<longrightarrow> the (decode_e4m3 c) < the (decode_e4m3 b))
   \<and> (b < 0x7F \<longrightarrow> decode_e4m3 (b + 0x80) = map_option uminus (decode_e4m3 b))"
proof (intro conjI impI allI)
  have ub: "0 \<le> uint b" "uint b < 256" using uint_bounded [of b] by simp_all
  have "uint b mod 128 = 127 \<longleftrightarrow> uint b = 127 \<or> uint b = 255" using ub by presburger
  also have "\<dots> \<longleftrightarrow> b = 0x7F \<or> b = 0xFF" by (simp add: word_uint_eq_iff)
  finally show "decode_e4m3 b = None \<longleftrightarrow> b = 0x7F \<or> b = 0xFF" by (simp add: decode_e4m3_units)
  fix v assume v: "decode_e4m3 b = Some v"
  define n where "n = uint b mod 128"
  have n: "0 \<le> n" "n < 128" "n \<noteq> 127" using v by (auto simp: decode_e4m3_units n_def split: if_splits)
  have "e4m3_units n \<le> 229376 \<and> 0 \<le> e4m3_units n"
    using e4m3_units_mono [of n 126] n by (cases "n = 126") (auto simp: e4m3_units_def)
  then have "\<bar>of_int (e4m3_units n) :: rat\<bar> \<le> of_int 229376" by (simp only: of_int_abs [symmetric] of_int_le_iff) simp
  then show "\<bar>v\<bar> \<le> 448" using v by (auto simp: decode_e4m3_units n_def abs_mult split: if_splits)
next
  assume "c < b \<and> b < 0x7F"
  then have "uint c < uint b" "uint b < 127" "0 \<le> uint c" by (simp_all add: word_less_alt)
  then show "the (decode_e4m3 c) < the (decode_e4m3 b)"
    using e4m3_units_mono [of "uint c" "uint b"] by (simp add: decode_e4m3_units)
next
  assume "b < 0x7F"
  then have b: "uint b < 127" "0 \<le> uint b" by (simp_all add: word_less_alt)
  then have "uint (b + 0x80) = uint b + 128" by (simp add: uint_word_ariths)
  then show "decode_e4m3 (b + 0x80) = map_option uminus (decode_e4m3 b)" using b by (simp add: decode_e4m3_units)
qed

theorem decode_e4m3_grid_witness:
  "decode_e4m3 0x7E = Some 448 \<and> the (decode_e4m3 0x08) < the (decode_e4m3 0x7E)
   \<and> decode_e4m3 (0x7E + 0x80) = Some (- 448)"
proof -
  have "decode_e4m3 0x7E = Some 448" by code_simp
  then show ?thesis using decode_e4m3_grid [of "0x7E" "0x08"] by simp
qed

end
