(* ===== verification/Float_Oracle.thy ===== *)
theory Float_Oracle
  imports Float_Formats
begin

text \<open>
  The binary64 rounding of \<^verbatim>\<open>torch_ops/bf16_oracle.py\<close> against its exact-fraction test oracle: the integer
  shifts and masks of the fast routine compute the same round-to-nearest-even value.
\<close>

section \<open>Fields and rounding by shifts\<close>

lemma and_exp_bit: "(a :: int) AND 2 ^ k = of_bool (bit a k) * 2 ^ k"
  by (rule bit_eqI) (auto simp: bit_simps)

lemma f64_fields:
  "drop_bit 32 (sint x) AND 0x80000000 = f64_sign x * 2 ^ 31"
  "sint x AND (2 ^ 63 - 1) = uint x mod 2 ^ 63"
  for x :: "64 word"
proof -
  have "(2 ^ 63 - 1 :: int) = mask 63" by (simp add: mask_eq_exp_minus_1)
  then have "sint x AND (2 ^ 63 - 1) = take_bit 63 (sint x)" by (simp add: take_bit_eq_mask)
  also have "\<dots> = take_bit 63 (uint x)" by (rule bit_eqI) (auto simp: bit_simps min_def)
  finally show "sint x AND (2 ^ 63 - 1) = uint x mod 2 ^ 63" by (simp add: take_bit_eq_mod)
  have b: "f64_sign x = of_bool (bit x 63)"
  proof -
    have "0 \<le> f64_sign x" "f64_sign x < 2" using uint_bounded [of x] by (auto simp: f64_sign_def div_int_pos_iff)
    moreover have "bit x 63 \<longleftrightarrow> odd (f64_sign x)" unfolding f64_sign_def using bit_uint_iff [of x 63] by (simp only: bit_iff_odd [of "uint x"]) simp
    moreover have "f64_sign x = 0 \<or> f64_sign x = 1" using calculation(1,2) by linarith
    ultimately show ?thesis by auto
  qed
  have "drop_bit 32 (sint x) AND 2 ^ 31 = of_bool (bit (drop_bit 32 (sint x)) 31) * 2 ^ 31" by (rule and_exp_bit)
  then show "drop_bit 32 (sint x) AND 0x80000000 = f64_sign x * 2 ^ 31"
    by (simp add: b bit_drop_bit_eq bit_sint_iff)
qed

lemma half_of_int:
  fixes q h :: int
  assumes "0 < h"
  shows "(of_int q / (2 * of_int h) :: rat) > 1 / 2 \<longleftrightarrow> q > h"
    "(of_int q / (2 * of_int h) :: rat) = 1 / 2 \<longleftrightarrow> q = h"
  using assms by (auto simp: field_simps)

lemma rne_fraction:
  fixes m :: int
  assumes "0 < s"
  shows "drop_bit s m + (if rne_up (m AND (2 ^ s - 1)) (2 ^ (s - 1)) (drop_bit s m) then 1 else 0)
    = fraction_rne (of_int m / 2 ^ s)"
proof -
  define h where "h = (2 :: int) ^ (s - 1)"
  define q r where "q = m div (2 * h)" and "r = m mod (2 * h)"
  have h: "0 < h" "(2 :: int) ^ s = 2 * h" "(2 :: rat) ^ s = 2 * of_int h"
    using assms by (simp_all add: h_def flip: power_Suc)
  have a: "m AND (2 ^ s - 1) = r" "drop_bit s m = q"
    unfolding r_def q_def h(2) [symmetric]
    by (simp_all only: mask_eq_exp_minus_1 [symmetric] take_bit_eq_mask [symmetric] drop_bit_eq_div take_bit_eq_mod)
  have m: "(of_int m :: rat) = of_int q * (2 * of_int h) + of_int r"
  proof -
    have "m = q * (2 * h) + r" unfolding q_def r_def by (rule div_mult_mod_eq [symmetric])
    then have "(of_int m :: rat) = of_int (q * (2 * h) + r)" by (rule arg_cong)
    then show ?thesis by simp
  qed
  have f: "\<lfloor>of_int m / (2 * of_int h :: rat)\<rfloor> = q"
    unfolding q_def using floor_divide_of_int_eq [of m "2 * h", where 'a = rat] by simp
  have r: "of_int m / (2 * of_int h :: rat) - of_int q = of_int r / (2 * of_int h)"
    using h(1) m by (simp add: field_simps)
  show ?thesis
    unfolding a h_def [symmetric] h(3) fraction_rne_def Let_def f r half_of_int [OF h(1)] rne_up_def
    by (simp add: and_one_eq)
qed

lemma bit_length_bounds: "0 < n \<Longrightarrow> 2 ^ (bit_length n - 1) \<le> n \<and> n < 2 ^ bit_length n \<and> 0 < bit_length n"
proof (induction n rule: bit_length.induct)
  case (1 n)
  show ?case
  proof (cases "n div 2 = 0")
    case True
    then have "n = 1" using 1(2) by auto
    then show ?thesis by (simp add: bit_length.simps)
  next
    case False
    then have "2 ^ (bit_length (n div 2) - 1) \<le> n div 2" "n div 2 < 2 ^ bit_length (n div 2)" "0 < bit_length (n div 2)"
      using 1 by auto
    moreover have "bit_length n = Suc (bit_length (n div 2))" using 1(2) by (simp add: bit_length.simps)
    moreover obtain k where "bit_length (n div 2) = Suc k" using calculation(3) by (cases "bit_length (n div 2)") auto
    ultimately show ?thesis by auto
  qed
qed

lemma floor_log2_bounds:
  assumes "0 < v"
  shows "2 powi floor_log2 v \<le> v" "v < 2 powi (floor_log2 v + 1)"
proof -
  obtain p q where pq: "quotient_of v = (p, q)" by fastforce
  then have q: "0 < q" and v: "v = of_int p / of_int q" using quotient_of_denom_pos quotient_of_div by blast+
  then have p: "0 < p" using assms by (simp add: zero_less_divide_iff)
  define a b where "a = bit_length (nat p)" and "b = bit_length (nat q)"
  have "2 ^ (a - 1) \<le> nat p \<and> nat p < 2 ^ a \<and> 0 < a" "2 ^ (b - 1) \<le> nat q \<and> nat q < 2 ^ b \<and> 0 < b"
    using bit_length_bounds [of "nat p"] bit_length_bounds [of "nat q"] p q unfolding a_def b_def by simp_all
  then have "(2 :: int) ^ (a - 1) \<le> p \<and> p < 2 ^ a \<and> 0 < a" "(2 :: int) ^ (b - 1) \<le> q \<and> q < 2 ^ b \<and> 0 < b"
    using p q by (auto simp: le_nat_iff nat_less_iff)
  then have r: "(2 :: rat) ^ (a - 1) \<le> of_int p" "(of_int p :: rat) < 2 ^ a" "(2 :: rat) ^ (b - 1) \<le> of_int q"
    "(of_int q :: rat) < 2 ^ b" "0 < a" "0 < b"
    by (simp_all flip: of_int_power_le_of_int_cancel_iff of_int_less_of_int_power_cancel_iff add: of_int_le_iff)
  have qr: "0 < (of_int q :: rat)" using q by simp
  have "(2 :: rat) ^ (a - 1) / 2 ^ b < v"
    unfolding v using r qr by (intro frac_less2) auto
  moreover have "(2 :: rat) ^ (a - 1) / 2 ^ b = 2 powi (int a - int b - 1)"
    using r(5) by (simp add: power_int_diff power_diff)
  moreover have "v < 2 ^ a / 2 ^ (b - 1)" unfolding v using r qr p by (intro frac_less) auto
  moreover have "(2 :: rat) ^ a / 2 ^ (b - 1) = 2 powi (int a - int b + 1)"
    using r(6) by (simp add: power_int_diff power_int_add power_diff)
  ultimately show "2 powi floor_log2 v \<le> v" "v < 2 powi (floor_log2 v + 1)"
    by (auto simp: floor_log2_def pq Let_def a_def [symmetric] b_def [symmetric])
qed

lemma floor_log2_eq:
  assumes "2 powi e \<le> v" "v < 2 powi (e + 1)"
  shows "floor_log2 v = e"
proof -
  have "0 < v" using assms(1) zero_less_power_int [of "2 :: rat" e] by linarith
  note b = floor_log2_bounds [OF this]
  have mono: "a < b" if "(2 :: rat) powi a < 2 powi b" for a b
    using that power_int_increasing [of b a "2 :: rat"] by (cases "a < b") auto
  have "e < floor_log2 v + 1" "floor_log2 v < e + 1"
    using mono [of e "floor_log2 v + 1"] mono [of "floor_log2 v" "e + 1"] assms b by linarith+
  then show ?thesis by linarith
qed

section \<open>Patterns\<close>

lemma or_sum: "0 \<le> b \<Longrightarrow> b < 2 ^ n \<Longrightarrow> (a * 2 ^ n) OR b = a * 2 ^ n + b" for a b :: int
proof -
  assume b: "0 \<le> b" "b < 2 ^ n"
  then have "b = take_bit n b" by (simp add: take_bit_int_eq_self)
  then have "\<not> bit b m" if "n \<le> m" for m using that by (metis bit_take_bit_iff not_less)
  then show ?thesis
    by (intro disjunctive_add [symmetric]) (auto simp: push_bit_eq_mult [symmetric] bit_push_bit_iff)
qed

lemma f32_pattern:
  assumes "0 \<le> S" "S \<le> 1" "0 \<le> e" "e \<le> 255" "0 \<le> k" "k \<le> 127"
  defines "r \<equiv> word_of_int (S * 2 ^ 31 + (e * 2 ^ 23 + k * 2 ^ 16)) :: 32 word"
  shows "f32_sign r = S" "f32_exp r = e" "f32_man r = k * 65536" "2 ^ 16 dvd uint r"
    "S * 2 ^ 31 OR push_bit 23 e OR push_bit 16 k = S * 2 ^ 31 + (e * 2 ^ 23 + k * 2 ^ 16)"
proof -
  have ek: "0 \<le> e * 8388608 + k * 65536" "e * 8388608 + k * 65536 < 2147483648" using assms by linarith+
  then have u: "uint r = S * 2147483648 + (e * 8388608 + k * 65536)"
    unfolding r_def using assms(1,2) by (simp only: uint_word_of_int) simp
  then have "uint r = (e * 8388608 + k * 65536) + S * 2147483648" by simp
  then show "f32_sign r = S" unfolding f32_sign_def using ek by simp
  define q where "q = e + S * 256"
  have uq: "uint r = k * 65536 + q * 8388608" using u by (simp add: q_def)
  have k: "0 \<le> k * 65536" "k * 65536 < 8388608" "q mod 256 = e" using assms by (simp_all add: q_def)
  show "f32_exp r = e" "f32_man r = k * 65536" unfolding f32_exp_def f32_man_def uq using k by simp_all
  have "uint r = (S * 32768 + e * 128 + k) * 65536" using u by simp
  then show "2 ^ 16 dvd uint r" by simp
  have "push_bit 23 e OR push_bit 16 k = e * 2 ^ 23 + k * 2 ^ 16"
    unfolding push_bit_eq_mult using assms by (intro or_sum) auto
  then show "S * 2 ^ 31 OR push_bit 23 e OR push_bit 16 k = S * 2 ^ 31 + (e * 2 ^ 23 + k * 2 ^ 16)"
    using or_sum [of "e * 2 ^ 23 + k * 2 ^ 16" 31 S] ek by simp
qed

text \<open>Rounding 52 mantissa bits to 7.\<close>

definition man_rne :: "int \<Rightarrow> int" where
  "man_rne M = drop_bit 45 M + (if rne_up (M AND (2 ^ 45 - 1)) (2 ^ 44) (drop_bit 45 M) then 1 else 0)"

lemma man_rne_fraction: "fraction_rne (of_int (2 ^ 52 + M) / 2 ^ 45) = 128 + man_rne M"
proof -
  define P where "P = (2 :: int) ^ 45"
  have e: "2 ^ 52 + M = M + 128 * P" "P \<noteq> 0" by (simp_all add: P_def)
  have d: "drop_bit 45 (2 ^ 52 + M) = 128 + drop_bit 45 M"
    unfolding drop_bit_eq_div P_def [symmetric] e using e(2) by simp
  have m: "x AND (2 ^ 45 - 1) = x mod P" for x
    by (simp only: P_def mask_eq_exp_minus_1 [symmetric] take_bit_eq_mask [symmetric] take_bit_eq_mod)
  have a: "(2 ^ 52 + M) AND (2 ^ 45 - 1) = M AND (2 ^ 45 - 1)" unfolding m e by simp
  have p: "(128 + x) AND 1 = x AND 1" for x :: int unfolding and_one_eq by presburger
  show ?thesis
    using rne_fraction [of 45 "2 ^ 52 + M"] unfolding d a man_rne_def rne_up_def p by simp
qed

lemma man_rne_bounds: "0 \<le> M \<Longrightarrow> M < 2 ^ 52 \<Longrightarrow> 0 \<le> man_rne M \<and> man_rne M \<le> 128"
  by (auto simp: man_rne_def drop_bit_eq_div)

lemma f64_bounds: "0 \<le> f64_sign x" "f64_sign x \<le> 1" "0 \<le> f64_exp x" "f64_exp x \<le> 2047" "0 \<le> f64_man x" "f64_man x < 2 ^ 52"
proof -
  have "0 \<le> f64_sign x" "f64_sign x < 2" using uint_bounded [of x] by (auto simp: f64_sign_def div_int_pos_iff)
  moreover have "f64_exp x < 2 ^ 11" unfolding f64_exp_def by (rule pos_mod_bound) simp
  ultimately show "0 \<le> f64_sign x" "f64_sign x \<le> 1" "0 \<le> f64_exp x" "f64_exp x \<le> 2047" "0 \<le> f64_man x" "f64_man x < 2 ^ 52"
    by (simp_all add: f64_exp_def f64_man_def)
qed

lemma bf16_round_fp64_fields:
  "bf16_round_fp64 x = word_of_int
     (let S = f64_sign x * 2 ^ 31; E = f64_exp x; M = f64_man x; e = E - 896 in
      if E = 0 then S
      else if E \<le> 896 then fp64_subnormal_bits S e M
      else if E \<le> 1150 then fp64_normal_bits S e M
      else if E = 2047 \<and> M \<noteq> 0 then S OR 0x7FC00000 else S OR push_bit 23 0xFF)"
proof -
  define m where "m = uint x mod 2 ^ 63"
  have "m AND (2 ^ 52 - 1) = m mod 2 ^ 52"
    by (simp only: mask_eq_exp_minus_1 [symmetric] take_bit_eq_mask [symmetric] take_bit_eq_mod)
  also have "\<dots> = f64_man x" unfolding m_def f64_man_def by (simp add: mod_mod_cancel)
  finally have man: "m AND (2 ^ 52 - 1) = f64_man x" .
  have "(0x7FF :: int) = mask 11" "m = take_bit 63 (uint x)" by (simp_all add: mask_numeral m_def take_bit_eq_mod)
  then have "drop_bit 52 m AND 0x7FF = take_bit 11 (drop_bit 52 (take_bit 63 (uint x)))"
    by (simp only: take_bit_eq_mask [of 11])
  also have "\<dots> = take_bit 11 (drop_bit 52 (uint x))" by (rule bit_eqI) (auto simp: bit_simps)
  also have "\<dots> = f64_exp x" by (simp only: f64_exp_def take_bit_eq_mod drop_bit_eq_div)
  finally have ex: "drop_bit 52 m AND 0x7FF = f64_exp x" .
  show ?thesis
    unfolding bf16_round_fp64_def Let_def f64_fields m_def [symmetric] man ex
    using f64_bounds [of x] by auto
qed

lemma normal_pattern:
  assumes "0 \<le> M" "M < 2 ^ 52" "0 \<le> S" "S \<le> 1" "1 \<le> e" "e \<le> 254"
  shows "fp64_normal_bits (S * 2 ^ 31) e M = S * 2 ^ 31 + ((e + man_rne M div 128) * 2 ^ 23 + man_rne M mod 128 * 2 ^ 16)"
    "0 \<le> e + man_rne M div 128" "e + man_rne M div 128 \<le> 255"
proof -
  have b: "0 \<le> man_rne M div 128" "man_rne M div 128 \<le> 1" using man_rne_bounds [OF assms(1,2)] by auto
  then show c: "0 \<le> e + man_rne M div 128" "e + man_rne M div 128 \<le> 255" using assms by linarith+
  have "man_rne M AND 0x7F = man_rne M mod 128"
  proof -
    have "(0x7F :: int) = mask 7" by (simp add: mask_numeral)
    then have "man_rne M AND 0x7F = take_bit 7 (man_rne M)" by (simp only: take_bit_eq_mask)
    then show ?thesis by (simp add: take_bit_eq_mod)
  qed
  moreover have "(if rne_up (M AND (2 ^ 45 - 1)) (2 ^ 44) (drop_bit 45 M) then drop_bit 45 M + 1 else drop_bit 45 M) = man_rne M"
    by (simp add: man_rne_def)
  moreover have "man_rne M mod 128 \<le> 127" by simp
  ultimately show "fp64_normal_bits (S * 2 ^ 31) e M = S * 2 ^ 31 + ((e + man_rne M div 128) * 2 ^ 23 + man_rne M mod 128 * 2 ^ 16)"
    unfolding fp64_normal_bits_def Let_def
    using f32_pattern(5) [OF assms(3,4) c, of "man_rne M mod 128"] by (simp only: drop_bit_eq_div) simp
qed

lemma fraction_rne_bounds: "0 \<le> t \<Longrightarrow> t < of_int n \<Longrightarrow> 0 \<le> fraction_rne t \<and> fraction_rne t \<le> n"
proof -
  assume "0 \<le> t" "t < of_int n"
  then have "0 \<le> \<lfloor>t\<rfloor>" "\<lfloor>t\<rfloor> < n" by (simp_all add: floor_less_iff)
  then show ?thesis by (simp add: fraction_rne_def Let_def)
qed

lemma fraction_rne_small: "0 \<le> t \<Longrightarrow> t < 1 / 2 \<Longrightarrow> fraction_rne t = 0"
proof -
  assume "0 \<le> t" "t < 1 / 2"
  then have "\<lfloor>t\<rfloor> = 0" by (simp add: floor_eq_iff)
  then show ?thesis using \<open>t < 1 / 2\<close> by (simp add: fraction_rne_def)
qed

lemma subnormal_pattern:
  assumes "0 \<le> M" "M < 2 ^ 52" "0 \<le> S" "S \<le> 1" "e \<le> 0"
  defines "k \<equiv> fraction_rne (of_int (2 ^ 52 + M) / 2 ^ nat (46 - e))"
  shows "fp64_subnormal_bits (S * 2 ^ 31) e M = S * 2 ^ 31 + (k div 128 * 2 ^ 23 + k mod 128 * 2 ^ 16)" "0 \<le> k" "k \<le> 128"
proof -
  have v: "M OR 2 ^ 52 = 2 ^ 52 + M" using or_sum [of M 52 1] assms(1,2) by (simp add: or.commute)
  define s where "s = nat (46 - e)"
  have s: "46 \<le> s" "int s = 46 - e" using assms(5) by (simp_all add: s_def)
  define t :: rat where "t = of_int (2 ^ 52 + M) / 2 ^ s"
  have M: "0 < (of_int (2 ^ 52 + M) :: rat)" "(of_int (2 ^ 52 + M) :: rat) < 2 ^ 53"
    using assms(1,2) by (simp_all add: of_int_less_iff [of _ "2 ^ 52", symmetric, where 'a = rat] del: of_int_less_iff)
  have t: "0 \<le> t" "t < 128"
  proof -
    have "(2 :: rat) ^ 46 \<le> 2 ^ s" using s(1) by (intro power_increasing) auto
    then have "of_int (2 ^ 52 + M) < (128 :: rat) * 2 ^ s" using M(2) by simp
    then show "0 \<le> t" "t < 128" using M(1) by (simp_all add: t_def field_simps)
  qed
  have kt: "k = fraction_rne t" by (simp add: k_def t_def s_def)
  show k: "0 \<le> k" "k \<le> 128" using fraction_rne_bounds [of t 128] t unfolding kt by simp_all
  have z: "k = 0" if "53 < s"
  proof -
    have "(2 :: rat) ^ 54 \<le> 2 ^ s" using that by (intro power_increasing) auto
    then have "of_int (2 ^ 52 + M) * 2 < (2 :: rat) ^ s" using M(2) by simp
    then have "t < 1 / 2" by (simp add: t_def field_simps)
    then show ?thesis using fraction_rne_small t(1) by (simp add: kt)
  qed
  have r: "drop_bit s (2 ^ 52 + M) + (if rne_up ((2 ^ 52 + M) AND (2 ^ s - 1)) (2 ^ (s - 1)) (drop_bit s (2 ^ 52 + M)) then 1 else 0) = k"
    unfolding kt t_def using s(1) by (intro rne_fraction) simp
  have if1: "(if c then a + 1 else a) = a + (if c then 1 else 0)" for c and a :: int by simp
  have "fp64_subnormal_bits (S * 2 ^ 31) e M = (if 128 \<le> k then S * 2 ^ 31 OR 2 ^ 23 else S * 2 ^ 31 OR push_bit 16 k)"
  proof (cases "s \<le> 53")
    case True
    then have "nat (min 53 (max 0 (46 - e))) = s" "46 - e \<le> 53" using s by simp_all
    then show ?thesis unfolding fp64_subnormal_bits_def Let_def v if1 by (simp only: r if_True)
  next
    case False
    then have "\<not> 46 - e \<le> 53" using s by simp
    then show ?thesis unfolding fp64_subnormal_bits_def Let_def using z False by simp
  qed
  also have "\<dots> = S * 2 ^ 31 + (k div 128 * 2 ^ 23 + k mod 128 * 2 ^ 16)"
  proof (cases "k = 128")
    case True
    then show ?thesis using or_sum [of "2 ^ 23" 31 S] by simp
  next
    case False
    then have "k div 128 = 0" "k mod 128 = k" "\<not> 128 \<le> k" using k by simp_all
    then show ?thesis using or_sum [of "k * 2 ^ 16" 31 S] k by (simp add: push_bit_eq_mult)
  qed
  finally show "fp64_subnormal_bits (S * 2 ^ 31) e M = S * 2 ^ 31 + (k div 128 * 2 ^ 23 + k mod 128 * 2 ^ 16)" .
qed

section \<open>Agreement\<close>

lemma f64_normal:
  assumes "f64_exp x \<noteq> 0"
  defines "w \<equiv> of_int (2 ^ 52 + f64_man x) * 2 powi (f64_exp x - 1075) :: rat"
  shows "\<bar>f64_val x\<bar> = w" "f64_val x < 0 \<longleftrightarrow> f64_sign x = 1" "0 < w" "floor_log2 w = f64_exp x - 1023"
proof -
  define m where "m = (of_int (2 ^ 52 + f64_man x) :: rat)"
  define p where "p = (2 powi (f64_exp x - 1075) :: rat)"
  have p: "0 < p" unfolding p_def by simp
  have wd: "w = m * p" by (simp only: w_def m_def p_def)
  have m: "2 ^ 52 \<le> m" "m < 2 ^ 53"
  proof -
    have "(2 :: int) ^ 52 \<le> 2 ^ 52 + f64_man x" "2 ^ 52 + f64_man x < (2 :: int) ^ 53" using f64_bounds(5,6) [of x] by simp_all
    then have "(of_int (2 ^ 52) :: rat) \<le> m" "m < of_int (2 ^ 53)" unfolding m_def by (simp_all only: of_int_le_iff of_int_less_iff)
    then show "2 ^ 52 \<le> m" "m < 2 ^ 53" by simp_all
  qed
  then show w0: "0 < w" using p unfolding wd by (intro mult_pos_pos) (linarith | simp)+
  have v: "f64_val x = (if f64_sign x = 1 then -1 else 1) * w" using assms(1) by (simp add: f64_val_def w_def)
  show "\<bar>f64_val x\<bar> = w" "f64_val x < 0 \<longleftrightarrow> f64_sign x = 1" using w0 unfolding v by (simp_all split: if_splits)
  have e: "(2 :: rat) powi (f64_exp x - 1023) = 2 ^ 52 * p" "(2 :: rat) powi (f64_exp x - 1023 + 1) = 2 ^ 53 * p"
    using power_int_add [of "2 :: rat" 52 "f64_exp x - 1075"] power_int_add [of "2 :: rat" 53 "f64_exp x - 1075"]
    unfolding p_def by simp_all
  show "floor_log2 w = f64_exp x - 1023"
    by (rule floor_log2_eq; unfold e wd) (use m p in simp_all)
qed

lemma powi_quotient: "b = a + int n \<Longrightarrow> m * 2 powi a / 2 powi b = m / (2 :: rat) ^ n"
  by (simp add: power_int_add)

lemma powi_scale: "a = b + int n \<Longrightarrow> m * 2 powi a = m * 2 ^ n * (2 :: rat) powi b"
  by (simp add: power_int_add)

lemma fraction_f64:
  assumes "f64_exp x \<noteq> 0" "f64_exp x \<le> 1150"
  shows "fraction_rne_bf16 (f64_val x) = Some ((if f64_sign x = 1 then -1 else 1) *
    (if f64_exp x \<le> 896 then of_int (fraction_rne (of_int (2 ^ 52 + f64_man x) / 2 ^ nat (46 - (f64_exp x - 896)))) * 2 powi (-133)
     else of_int (128 + man_rne (f64_man x)) * 2 powi (f64_exp x - 1030)))"
proof -
  define m where "m = (of_int (2 ^ 52 + f64_man x) :: rat)"
  define w where "w = m * 2 powi (f64_exp x - 1075)"
  note n = f64_normal [OF assms(1), folded m_def, folded w_def]
  have f: "fraction_rne_bf16 (f64_val x) = Some ((if f64_sign x = 1 then -1 else 1) *
     (of_int (fraction_rne (w / fraction_grid (f64_exp x - 1023))) * fraction_grid (f64_exp x - 1023)))"
    using n assms(2) unfolding fraction_rne_bf16_def Let_def by simp
  show ?thesis
  proof (cases "f64_exp x \<le> 896")
    case True
    then have g: "fraction_grid (f64_exp x - 1023) = 2 powi (-133)" by (simp add: fraction_grid_def)
    have "w / fraction_grid (f64_exp x - 1023) = m / 2 ^ nat (46 - (f64_exp x - 896))"
      unfolding w_def g using True by (intro powi_quotient) simp
    then show ?thesis using f True unfolding m_def g by (simp only: if_True)
  next
    case False
    then have g: "fraction_grid (f64_exp x - 1023) = 2 powi (f64_exp x - 1030)" by (simp add: fraction_grid_def)
    have "w / fraction_grid (f64_exp x - 1023) = m / 2 ^ 45"
      unfolding w_def g by (intro powi_quotient) simp
    then have "fraction_rne (w / fraction_grid (f64_exp x - 1023)) = 128 + man_rne (f64_man x)"
      using man_rne_fraction [of "f64_man x"] unfolding m_def by (simp only:)
    then show ?thesis using f False unfolding g by (simp only: if_False)
  qed
qed

text \<open>The value and fields of a rounded pattern with grid index \<open>128 + k\<close> or \<open>k\<close>.\<close>

lemma f32_val_pattern:
  assumes "0 \<le> S" "S \<le> 1" "0 \<le> e" "e \<le> 255" "0 \<le> k" "k \<le> 127"
  shows "f32_val (word_of_int (S * 2 ^ 31 + (e * 2 ^ 23 + k * 2 ^ 16))) = (if S = 1 then -1 else 1) *
    (if e = 0 then of_int k * 2 powi (-133) else of_int (128 + k) * 2 powi (e - 134))"
proof -
  have "of_int (k * 65536) * 2 powi (-149) = (of_int k :: rat) * 2 powi (-133)"
    using powi_scale [of "-133" "-149" 16 "of_int k"] by simp
  moreover have "(of_int (2 ^ 23 + k * 65536) :: rat) * 2 powi (e - 150) = of_int (128 + k) * 2 powi (e - 134)"
    using powi_scale [of "e - 134" "e - 150" 16 "of_int (128 + k)"] by (simp add: algebra_simps)
  ultimately show ?thesis
    unfolding f32_val_def f32_pattern(1-3) [OF assms] by (simp only:)
qed

lemma normal_value:
  assumes "0 \<le> S" "S \<le> 1" "1 \<le> e" "e + K div 128 \<le> 255" "0 \<le> K" "K \<le> 128"
  shows "f32_val (word_of_int (S * 2 ^ 31 + ((e + K div 128) * 2 ^ 23 + K mod 128 * 2 ^ 16)))
    = (if S = 1 then -1 else 1) * (of_int (128 + K) * 2 powi (e - 134))"
proof -
  have "e + K div 128 \<noteq> 0" "0 \<le> e + K div 128" using assms by (simp_all add: pos_imp_zdiv_nonneg_iff)
  moreover have "(of_int (128 + K mod 128) :: rat) * 2 powi (e + K div 128 - 134) = of_int (128 + K) * 2 powi (e - 134)"
  proof (cases "K = 128")
    case True
    then show ?thesis using powi_scale [of "e + 1 - 134" "e - 134" 1 128] by simp
  next
    case False
    then have "K div 128 = 0" "K mod 128 = K" using assms by simp_all
    then show ?thesis by simp
  qed
  moreover have "K mod 128 \<le> 127" "0 \<le> K mod 128" by simp_all
  ultimately show ?thesis using f32_val_pattern [OF assms(1,2), of "e + K div 128" "K mod 128"] assms(4)
    by (simp only: if_False)
qed

lemma subnormal_value:
  assumes "0 \<le> S" "S \<le> 1" "0 \<le> k" "k \<le> 128"
  shows "f32_val (word_of_int (S * 2 ^ 31 + (k div 128 * 2 ^ 23 + k mod 128 * 2 ^ 16)))
    = (if S = 1 then -1 else 1) * (of_int k * 2 powi (-133))"
proof (cases "k = 128")
  case True
  then show ?thesis using f32_val_pattern [OF assms(1,2), of 1 0] by simp
next
  case False
  then have "k div 128 = 0" "k mod 128 = k" using assms by simp_all
  then show ?thesis using f32_val_pattern [OF assms(1,2), of 0 k] assms False by simp
qed

lemma man_rne_full: "0 \<le> M \<Longrightarrow> M < 2 ^ 52 \<Longrightarrow> man_rne M = 128 \<longleftrightarrow> 255 * 2 ^ 44 \<le> M"
proof -
  assume M: "0 \<le> M" "M < 2 ^ 52"
  define q r where "q = M div 2 ^ 45" and "r = M mod 2 ^ 45"
  have "M = q * 35184372088832 + r" using div_mult_mod_eq [of M "2 ^ 45"] unfolding q_def r_def by simp
  moreover have "0 \<le> r" "r < 35184372088832" by (simp_all add: r_def)
  moreover have qb: "0 \<le> q" "q \<le> 127" using M by (simp_all add: q_def)
  moreover have "M AND (2 ^ 45 - 1) = r"
    unfolding r_def by (simp only: mask_eq_exp_minus_1 [symmetric] take_bit_eq_mask [symmetric] take_bit_eq_mod)
  then have "man_rne M = q + (if r > 17592186044416 \<or> (r = 17592186044416 \<and> q mod 2 = 1) then 1 else 0)"
    unfolding man_rne_def rne_up_def by (simp only: drop_bit_eq_div q_def [symmetric] and_one_eq) simp
  moreover have "q = 127 \<Longrightarrow> q mod 2 = 1" by simp
  ultimately show ?thesis by (cases "q = 127") (auto split: if_splits)
qed

lemma f64_top_value:
  assumes "f64_exp x = 1150"
  shows "\<bar>f64_val x\<bar> < 2 ^ 128 - 2 ^ 119 \<longleftrightarrow> f64_man x < 255 * 2 ^ 44"
proof -
  have "\<bar>f64_val x\<bar> = of_int (2 ^ 52 + f64_man x) * 2 ^ 75" using f64_normal(1) [of x] assms by simp
  also have "\<dots> < 2 ^ 128 - 2 ^ 119 \<longleftrightarrow> (of_int (2 ^ 52 + f64_man x) :: rat) < of_int (2 ^ 53 - 2 ^ 44)" by simp
  also have "\<dots> \<longleftrightarrow> f64_man x < 255 * 2 ^ 44" unfolding of_int_less_iff by simp
  finally show ?thesis .
qed

lemma f64_small_exp:
  assumes "\<bar>f64_val x\<bar> < 2 ^ 128"
  shows "f64_exp x \<le> 1150"
proof (rule ccontr)
  assume "\<not> f64_exp x \<le> 1150"
  then have e: "1151 \<le> f64_exp x" by simp
  then have n: "f64_exp x \<noteq> 0" by simp
  have "(2 :: rat) powi 128 \<le> 2 powi (f64_exp x - 1023)" using e by (intro power_int_increasing) auto
  also have "\<dots> \<le> \<bar>f64_val x\<bar>"
    using floor_log2_bounds(1) [of "\<bar>f64_val x\<bar>"] f64_normal(1,3,4) [OF n] by simp
  finally show False using assms by simp
qed

lemma fraction_tiny:
  assumes "\<bar>v\<bar> < 2 powi (-134)"
  shows "fraction_rne_bf16 v = Some 0"
proof (cases "v = 0")
  case False
  then have v: "0 < \<bar>v\<bar>" by simp
  have "floor_log2 \<bar>v\<bar> < -126"
  proof (rule ccontr)
    assume "\<not> floor_log2 \<bar>v\<bar> < -126"
    then have "(2 :: rat) powi (-134) \<le> 2 powi floor_log2 \<bar>v\<bar>" by (intro power_int_increasing) auto
    then show False using floor_log2_bounds(1) [OF v] assms by linarith
  qed
  moreover have "\<bar>v\<bar> / 2 powi (-133) < 1 / 2"
  proof -
    have "(2 :: rat) powi (-134) = 1 / 2 * 2 powi (-133)" by simp
    then have "\<bar>v\<bar> < 1 / 2 * 2 powi (-133)" using assms by simp
    then show ?thesis by (subst pos_divide_less_eq) simp_all
  qed
  moreover have "0 \<le> \<bar>v\<bar> / 2 powi (-133)" by simp
  ultimately show ?thesis using fraction_rne_small [of "\<bar>v\<bar> / 2 powi (-133)"] False
    unfolding fraction_rne_bf16_def Let_def fraction_grid_def by simp
qed (simp add: fraction_rne_bf16_def)

lemma f64_tiny:
  assumes "f64_exp x = 0"
  shows "\<bar>f64_val x\<bar> < 2 powi (-134)"
proof -
  have "(of_int (f64_man x) :: rat) < of_int (2 ^ 52)" using f64_bounds(6) [of x] by (simp only: of_int_less_iff)
  then have "of_int (f64_man x) * 2 powi (-1074) < (2 ^ 52 :: rat) * 2 powi (-1074)" by (intro mult_strict_right_mono) simp_all
  also have "\<dots> = 2 powi (-1022)" using powi_scale [of "-1022" "-1074" 52 1] by simp
  also have "\<dots> < 2 powi (-134)" by (rule power_int_strict_increasing) simp_all
  finally have "of_int (f64_man x) * 2 powi (-1074) < (2 :: rat) powi (-134)" .
  moreover have "0 \<le> of_int (f64_man x) * (2 :: rat) powi (-1074)" using f64_bounds(5) [of x] by simp
  ultimately show ?thesis using assms unfolding f64_val_def by (simp add: abs_mult)
qed

text \<open>
  C18: The fast rounding equals the exact oracle.  For every finite binary64 value of magnitude below the
  rounding overflow threshold, \<^verbatim>\<open>bf16_round_fp64\<close> returns a finite pattern on the bfloat16 grid with the
  sign of its argument, whose value is the one \<^verbatim>\<open>_fraction_rne_bf16\<close> computes with exact fractions.
\<close>

theorem bf16_round_fp64_rne:
  assumes "f64_exp x < 2047" "\<bar>f64_val x\<bar> < 2 ^ 128 - 2 ^ 119"
  shows "fraction_rne_bf16 (f64_val x) = Some (f32_val (bf16_round_fp64 x))
    \<and> f32_exp (bf16_round_fp64 x) < 255 \<and> 2 ^ 16 dvd uint (bf16_round_fp64 x)
    \<and> f32_sign (bf16_round_fp64 x) = f64_sign x"
proof -
  define S E M where "S = f64_sign x" and "E = f64_exp x" and "M = f64_man x"
  note b = f64_bounds [of x, folded S_def E_def M_def]
  have E: "E \<le> 1150" using f64_small_exp [of x] assms(2) by (simp add: E_def)
  have r: "bf16_round_fp64 x = word_of_int (if E = 0 then S * 2 ^ 31
      else if E \<le> 896 then fp64_subnormal_bits (S * 2 ^ 31) (E - 896) M
      else fp64_normal_bits (S * 2 ^ 31) (E - 896) M)"
    using bf16_round_fp64_fields [of x] E by (simp add: Let_def S_def E_def M_def)
  consider (z) "E = 0" | (s) "E \<noteq> 0" "E \<le> 896" | (n) "896 < E" by linarith
  then show ?thesis
  proof cases
    case z
    have "bf16_round_fp64 x = word_of_int (S * 2 ^ 31 + (0 * 2 ^ 23 + 0 * 2 ^ 16))" using r z by simp
    moreover have "fraction_rne_bf16 (f64_val x) = Some 0"
      by (rule fraction_tiny [OF f64_tiny]) (use z in \<open>simp add: E_def\<close>)
    ultimately show ?thesis using f32_pattern [OF b(1,2), of 0 0] f32_val_pattern [OF b(1,2), of 0 0]
      by (simp add: S_def)
  next
    case s
    define k where "k = fraction_rne (of_int (2 ^ 52 + M) / 2 ^ nat (46 - (E - 896)))"
    have "E - 896 \<le> 0" using s by simp
    note p = subnormal_pattern [OF b(5,6,1,2) this, folded k_def]
    have kd: "0 \<le> k div 128" "k div 128 \<le> 255" "k div 128 < 255" "0 \<le> k mod 128" "k mod 128 \<le> 127" using p(2,3) by simp_all
    note f = f32_pattern [OF b(1,2) kd(1,2,4,5)]
    have r': "bf16_round_fp64 x = word_of_int (S * 2 ^ 31 + (k div 128 * 2 ^ 23 + k mod 128 * 2 ^ 16))"
      using r s p(1) by simp
    show ?thesis unfolding r' subnormal_value [OF b(1,2) p(2,3)]
      using f(1,2,4) kd fraction_f64 [of x] s E by (simp add: S_def E_def M_def k_def)
  next
    case n
    define K where "K = man_rne M"
    have K: "0 \<le> K" "K \<le> 128" using man_rne_bounds [OF b(5,6)] by (simp_all add: K_def)
    have e: "1 \<le> E - 896" "E - 896 \<le> 254" using n E by simp_all
    note p = normal_pattern [OF b(5,6,1,2) e, folded K_def]
    have "E = 1150 \<Longrightarrow> K < 128"
      using f64_top_value [of x] assms(2) man_rne_full [OF b(5,6)] K unfolding E_def M_def K_def by linarith
    then have fin: "E - 896 + K div 128 < 255" using E K by (cases "K = 128"; cases "E = 1150") auto
    have kd: "0 \<le> K mod 128" "K mod 128 \<le> 127" by simp_all
    note f = f32_pattern [OF b(1,2) p(2,3) kd]
    have r': "bf16_round_fp64 x = word_of_int (S * 2 ^ 31 + ((E - 896 + K div 128) * 2 ^ 23 + K mod 128 * 2 ^ 16))"
      using r n p(1) by simp
    show ?thesis unfolding r' normal_value [OF b(1,2) e(1) p(3) K]
      using f(1,2,4) fin fraction_f64 [of x] n E by (simp add: S_def E_def M_def K_def)
  qed
qed

theorem bf16_round_fp64_rne_witness:
  "f64_val 0x3FF0100000000001 = 1 + 2 powi (-8) + 2 powi (-52)
   \<and> fraction_rne_bf16 (f64_val 0x3FF0100000000001) = Some (f32_val (bf16_round_fp64 0x3FF0100000000001))
   \<and> bf16_round_fp64 0x3FF0100000000001 = 0x3F810000"
proof -
  have e: "f64_exp 0x3FF0100000000001 < 2047" "\<bar>f64_val 0x3FF0100000000001\<bar> < 2 ^ 128 - 2 ^ 119" by code_simp+
  moreover have "f64_val 0x3FF0100000000001 = 1 + 2 powi (-8) + 2 powi (-52)" by code_simp
  moreover have "bf16_round_fp64 0x3FF0100000000001 = 0x3F810000" by code_simp
  ultimately show ?thesis using bf16_round_fp64_rne [OF e] by blast
qed

text \<open>
  Overflow.  From the threshold on, \<^verbatim>\<open>bf16_round_fp64\<close> returns the infinity of the argument's sign; the
  fraction oracle returns the finite value \<open>2 ^ 128\<close>, which is no bfloat16, as long as the argument is below
  that value.
\<close>

theorem bf16_round_fp64_overflow:
  assumes "f64_exp x < 2047" "2 ^ 128 - 2 ^ 119 \<le> \<bar>f64_val x\<bar>"
  shows "bf16_round_fp64 x = word_of_int (f64_sign x * 2 ^ 31 + 0x7F800000)
    \<and> fraction_rne_bf16 (f64_val x) =
        (if \<bar>f64_val x\<bar> < 2 ^ 128 then Some (if f64_sign x = 1 then - (2 ^ 128) else 2 ^ 128) else None)"
proof -
  define S E M where "S = f64_sign x" and "E = f64_exp x" and "M = f64_man x"
  note b = f64_bounds [of x, folded S_def E_def M_def]
  have nz: "f64_exp x \<noteq> 0"
  proof
    assume "f64_exp x = 0"
    from f64_tiny [OF this] have "\<bar>f64_val x\<bar> < 1"
      using power_int_increasing [of "-134" 0 "2 :: rat"] by simp
    then show False using assms(2) by simp
  qed
  note n = f64_normal [OF nz]
  have E: "1150 \<le> E"
  proof (rule ccontr)
    assume "\<not> 1150 \<le> E"
    then have "(2 :: rat) powi (E - 1022) \<le> 2 powi 127" by (intro power_int_increasing) auto
    then have "\<bar>f64_val x\<bar> < 2 powi 127"
      using floor_log2_bounds(2) [OF n(3)] n(1,4) by (simp add: E_def)
    then show False using assms(2) by simp
  qed
  show ?thesis
  proof (cases "E = 1150")
    case True
    have "man_rne M = 128" using f64_top_value [of x] man_rne_full [OF b(5,6)] assms(2) True by (simp add: E_def M_def)
    moreover have "E - 896 = 254" using True by simp
    moreover have "bf16_round_fp64 x = word_of_int (fp64_normal_bits (S * 2 ^ 31) (E - 896) M)"
      using bf16_round_fp64_fields [of x] True by (simp add: Let_def S_def E_def M_def)
    ultimately have "bf16_round_fp64 x = word_of_int (S * 2 ^ 31 + 0x7F800000)"
      using normal_pattern(1) [OF b(5,6,1,2), where e = 254] by simp
    moreover have "\<bar>f64_val x\<bar> < 2 ^ 128"
      using floor_log2_bounds(2) [OF n(3)] n(1,4) True by (simp add: E_def)
    ultimately show ?thesis using fraction_f64 [OF nz] \<open>man_rne M = 128\<close> True by (simp add: S_def E_def M_def)
  next
    case False
    then have E2: "1150 < E" using E by simp
    then have "bf16_round_fp64 x = word_of_int (S * 2 ^ 31 OR push_bit 23 0xFF)"
      using bf16_round_fp64_fields [of x] assms(1) by (simp add: Let_def S_def E_def M_def)
    also have "S * 2 ^ 31 OR push_bit 23 0xFF = S * 2 ^ 31 + 0x7F800000" using or_sum [of "0x7F800000" 31 S] by simp
    finally have "bf16_round_fp64 x = word_of_int (S * 2 ^ 31 + 0x7F800000)" .
    moreover have "\<not> \<bar>f64_val x\<bar> < 2 ^ 128" using f64_small_exp [of x] E2 unfolding E_def by (metis not_le)
    moreover have "fraction_rne_bf16 (f64_val x) = None"
    proof -
      have "0 < \<bar>f64_val x\<bar>" "floor_log2 \<bar>f64_val x\<bar> > 127" using n E2 unfolding E_def by (simp_all only: n)
      then show ?thesis unfolding fraction_rne_bf16_def Let_def by simp
    qed
    ultimately show ?thesis by (simp add: S_def)
  qed
qed

theorem bf16_round_fp64_overflow_witness:
  "bf16_round_fp64 0x47EFF00000000000 = 0x7F800000
   \<and> fraction_rne_bf16 (f64_val 0x47EFF00000000000) = Some (2 ^ 128)"
proof -
  have e: "f64_exp 0x47EFF00000000000 < 2047" "2 ^ 128 - 2 ^ 119 \<le> \<bar>f64_val 0x47EFF00000000000\<bar>"
    "\<bar>f64_val 0x47EFF00000000000\<bar> < 2 ^ 128" "f64_sign 0x47EFF00000000000 = 0" by code_simp+
  then show ?thesis using bf16_round_fp64_overflow [OF e(1,2)] by simp
qed

end
