(* ===== verification/Op_Cache.thy ===== *)
theory Op_Cache
  imports Prelude Complex_Main "HOL-Library.Char_ord"
begin

text \<open>
  The op-config cache of \<^verbatim>\<open>tuning/cache.py\<close>: a launch configuration per (operator, device, source
  fingerprint, shape class) is resolved once, from the process memo, the declared default, a stored
  record or a bounded benchmark sweep, and then frozen for the process.

  The process state is the memo, the cache of parsed files and the files on disk; environment
  variables, the capture state of the stream, the clock, the benchmark and the outcome of writes are
  fields of an environment passed to each call.  Calls are serialised by the module lock, so they are
  steps here.  Configurations are values of a type \<open>'c\<close> with their canonical JSON key; record fields
  have the types of the schema or are missing.
\<close>

section \<open>State\<close>

text \<open>The identity triple (capability, multiprocessor count, name).\<close>

type_synonym identity = "string option \<times> int option \<times> string option"

record 'c Rec =
  rec_config :: "'c option"
  rec_status :: "string option"
  rec_time :: "rat option"
  rec_device :: "identity option"
  rec_source :: "string option"
  rec_tuned_at :: string
  rec_origin :: string
  rec_reason :: "string option"
  rec_measured :: "(string, rat) dict"

type_synonym 'c records = "(string, 'c Rec) dict"

text \<open>
  What reading a store file gives: nothing parseable, a JSON value that is no object, or an object with
  its schema and record map.
\<close>

datatype 'c disk_file = Unreadable | NotObject | Doc "string option" "'c records option"

type_synonym path = "string \<times> string"

type_synonym memo_key = "string \<times> identity \<times> string \<times> string"

record 'c Cache =
  memo :: "(memo_key, 'c \<times> string) dict"
  files :: "(string \<times> string \<times> path, 'c records) dict"
  disk :: "(path, 'c disk_file) dict"
  benched :: "'c list"

text \<open>
  \<^const>\<open>benched\<close> is a ghost field: the candidates benchmarked so far.  A benchmark raises, returns a
  value that is not finite, or returns milliseconds.
\<close>

datatype bench_out = BRaise | BNotFinite | BMs rat

text \<open>
  How far a write gets: the directory and the lock, the temporary file, the rename.  Each failure is an
  \<^verbatim>\<open>OSError\<close> and is swallowed.
\<close>

datatype io_out = IoOk | IoNoDir | IoNoTemp | IoNoRename

record 'c Env =
  env_on :: bool
  env_capturing :: bool
  env_root :: string
  env_limit :: rat
  env_clock :: "nat \<Rightarrow> rat"
  env_bench :: "('c \<Rightarrow> bench_out) option"
  env_json :: "'c \<Rightarrow> bool"
  env_key :: "'c \<Rightarrow> string"
  env_io :: io_out
  env_now :: string

definition TUNED :: string where "TUNED = ''tuned''"
definition SEEDED :: string where "SEEDED = ''seeded''"
definition DEFAULT :: string where "DEFAULT = ''default''"
definition OFF :: string where "OFF = ''off''"
definition CAPTURE :: string where "CAPTURE = ''capture''"
definition SCHEMA :: string where "SCHEMA = ''vk-op-config-cache/1''"

section \<open>Store files\<close>

definition keep_char :: "char \<Rightarrow> bool" where
  "keep_char c =
     (CHR ''0'' \<le> c \<and> c \<le> CHR ''9'' \<or> CHR ''a'' \<le> c \<and> c \<le> CHR ''z'' \<or> CHR ''A'' \<le> c \<and> c \<le> CHR ''Z''
      \<or> c \<in> set ''._-'')"

text \<open>\<^verbatim>\<open>_sanitize\<close> on ASCII names.\<close>

definition sanitize :: "string \<Rightarrow> string" where
  "sanitize name = map (\<lambda>c. if keep_char c then c else CHR ''-'') name"

definition store_path :: "'c Env \<Rightarrow> string \<Rightarrow> identity \<Rightarrow> path" where
  "store_path env op dev =
     (env_root env, sanitize op @ ''.'' @
        sanitize (case fst dev of Some s \<Rightarrow> if s = [] then ''unknown'' else s | None \<Rightarrow> ''unknown'') @ ''.json'')"

definition file_key :: "'c Env \<Rightarrow> string \<Rightarrow> identity \<Rightarrow> string \<times> string \<times> path" where
  "file_key env op dev = (op, (case fst dev of Some s \<Rightarrow> s | None \<Rightarrow> ''None''), store_path env op dev)"

text \<open>The record map a store file holds, as both the reader and the writer parse it.\<close>

definition disk_records :: "'c Env \<Rightarrow> string \<Rightarrow> identity \<Rightarrow> 'c Cache \<Rightarrow> 'c records result" where
  "disk_records env op dev st =
     (case map_of (disk st) (store_path env op dev) of
        None \<Rightarrow> Inr []
      | Some Unreadable \<Rightarrow> Inr []
      | Some NotObject \<Rightarrow> Inl AttributeError
      | Some (Doc schema rs) \<Rightarrow>
          Inr (if schema = Some SCHEMA then (case rs of Some r \<Rightarrow> r | None \<Rightarrow> []) else []))"

text \<open>\<^verbatim>\<open>_load_records\<close>\<close>

definition load_records :: "'c Env \<Rightarrow> string \<Rightarrow> identity \<Rightarrow> 'c Cache \<Rightarrow> ('c records \<times> 'c Cache) result" where
  "load_records env op dev st =
     (case map_of (files st) (file_key env op dev) of
        Some rs \<Rightarrow> Inr (rs, st)
      | None \<Rightarrow>
          bindr (disk_records env op dev st)
            (\<lambda>rs. Inr (rs, st\<lparr>files := dict_set (file_key env op dev) rs (files st)\<rparr>)))"

text \<open>\<^verbatim>\<open>merged = dict(disk); merged.update(records)\<close>\<close>

definition dict_update :: "('k, 'v) dict \<Rightarrow> ('k, 'v) dict \<Rightarrow> ('k, 'v) dict" where
  "dict_update d new = foldl (\<lambda>d (k, v). dict_set k v d) d new"

definition json_records :: "'c Env \<Rightarrow> 'c records \<Rightarrow> bool" where
  "json_records env rs =
     list_all (\<lambda>(_, r). case rec_config r of Some c \<Rightarrow> env_json env c | None \<Rightarrow> True) rs"

text \<open>
  \<^verbatim>\<open>_write_records\<close>: a failing write leaves the old file and the file cache as they were; a new
  configuration that is not JSON escapes as a \<^verbatim>\<open>TypeError\<close>.
\<close>

definition write_records ::
  "'c Env \<Rightarrow> string \<Rightarrow> identity \<Rightarrow> 'c records \<Rightarrow> 'c Cache \<Rightarrow> (bool \<times> 'c Cache) result" where
  "write_records env op dev rs st =
     (if env_io env = IoNoDir then Inr (False, st)
      else bindr (disk_records env op dev st) (\<lambda>old.
        let merged = dict_update old rs in
        if env_io env = IoNoTemp then Inr (False, st)
        else if \<not> json_records env rs then Inl TypeError
        else if env_io env = IoNoRename then Inr (False, st)
        else Inr (True,
          st\<lparr>disk := dict_set (store_path env op dev) (Doc (Some SCHEMA) (Some merged)) (disk st),
             files := dict_set (file_key env op dev) merged (files st)\<rparr>)))"

section \<open>Resolution\<close>

text \<open>\<^verbatim>\<open>reset_memo\<close>\<close>

definition reset_memo :: "string option \<Rightarrow> 'c Cache \<Rightarrow> 'c Cache" where
  "reset_memo op st =
     (case op of None \<Rightarrow> st\<lparr>memo := []\<rparr>
      | Some p \<Rightarrow> st\<lparr>memo := filter (\<lambda>(k, _). fst k \<noteq> p) (memo st)\<rparr>)"

definition persist ::
  "'c Env \<Rightarrow> string \<Rightarrow> string \<Rightarrow> identity \<Rightarrow> string \<Rightarrow> 'c \<Rightarrow> string \<Rightarrow> rat option \<Rightarrow> string option
    \<Rightarrow> (string, rat) dict \<Rightarrow> 'c Cache \<Rightarrow> 'c Cache result" where
  "persist env op shape_class dev fp config status time_ms reason measured st =
     bindr (write_records env op dev
       [(shape_class, \<lparr>rec_config = Some config, rec_status = Some status, rec_time = time_ms,
          rec_device = Some dev, rec_source = Some fp, rec_tuned_at = env_now env,
          rec_origin = ''op-config-tune'', rec_reason = reason, rec_measured = measured\<rparr>)] st)
       (\<lambda>(_, st). Inr st)"

text \<open>
  The sweep: the clock is read before each candidate, \<open>i\<close> counts the readings.  Returned are the winner
  with its time, the measured times, the benchmarked candidates and whether the budget ran out.
\<close>

fun bench_sweep ::
  "'c Env \<Rightarrow> ('c \<Rightarrow> bench_out) \<Rightarrow> nat \<Rightarrow> 'c list \<Rightarrow> ('c \<times> rat) option \<Rightarrow> (string, rat) dict
    \<Rightarrow> ('c \<times> rat) option \<times> (string, rat) dict \<times> 'c list \<times> bool" where
  "bench_sweep env bench i [] winner measured = (winner, measured, [], False)"
| "bench_sweep env bench i (cand # cands) winner measured =
     (if (env_clock env i - env_clock env 0) * 1000 \<ge> env_limit env then (winner, measured, [], True)
      else case (case bench cand of
                   BRaise \<Rightarrow> bench_sweep env bench (Suc i) cands winner measured
                 | BNotFinite \<Rightarrow> bench_sweep env bench (Suc i) cands winner measured
                 | BMs ms \<Rightarrow>
                     if ms \<le> 0 then bench_sweep env bench (Suc i) cands winner measured
                     else bench_sweep env bench (Suc i) cands
                            (case winner of
                               None \<Rightarrow> Some (cand, ms)
                             | Some (w, t) \<Rightarrow> if ms < t then Some (cand, ms) else Some (w, t))
                            (dict_set (env_key env cand) ms measured))
           of (w, m, tried, ex) \<Rightarrow> (w, m, cand # tried, ex))"

definition stored_hit :: "identity \<Rightarrow> string \<Rightarrow> 'c Rec option \<Rightarrow> ('c \<times> string) option" where
  "stored_hit dev fp r =
     (case r of
        None \<Rightarrow> None
      | Some r \<Rightarrow>
          if rec_source r = Some fp
             \<and> (case rec_device r of Some d \<Rightarrow> d | None \<Rightarrow> (None, None, None)) = dev
          then (case (rec_status r, rec_config r) of
                  (Some s, Some c) \<Rightarrow> if s \<in> {TUNED, SEEDED, DEFAULT} then Some (c, s) else None
                | _ \<Rightarrow> None)
          else None)"

definition resolve_config ::
  "'c Env \<Rightarrow> string \<Rightarrow> string \<Rightarrow> 'c \<Rightarrow> 'c list \<Rightarrow> string \<Rightarrow> identity \<Rightarrow> 'c Cache
    \<Rightarrow> (('c \<times> string) \<times> 'c Cache) result" where
  "resolve_config env op shape_class dflt cands fp dev st =
     (if \<not> (env_json env dflt \<and> list_all (env_json env) cands) then Inl TypeError
      else if \<not> env_on env then Inr ((dflt, OFF), st)
      else if env_capturing env then Inr ((dflt, CAPTURE), st)
      else bindr (load_records env op dev st) (\<lambda>(rs, st).
        case stored_hit dev fp (map_of rs shape_class) of
          Some hit \<Rightarrow> Inr (hit, st)
        | None \<Rightarrow>
            (case (cands, env_bench env) of
               (_ # _, Some bench) \<Rightarrow>
                 (case bench_sweep env bench 1 cands None [] of (winner, measured, tried, exhausted) \<Rightarrow>
                    let st = st\<lparr>benched := benched st @ tried\<rparr> in
                    case (exhausted, winner) of
                      (False, Some (w, ms)) \<Rightarrow>
                        bindr (persist env op shape_class dev fp w TUNED (Some ms) None measured st)
                          (\<lambda>st. Inr ((w, TUNED), st))
                    | _ \<Rightarrow>
                        bindr (persist env op shape_class dev fp dflt DEFAULT None
                                 (Some (if exhausted then ''budget-exhausted'' else ''bench-failed''))
                                 measured st)
                          (\<lambda>st. Inr ((dflt, DEFAULT), st)))
             | _ \<Rightarrow>
                 bindr (persist env op shape_class dev fp dflt DEFAULT None
                          (Some (if cands = [] then ''no-candidates'' else ''no-bench'')) [] st)
                   (\<lambda>st. Inr ((dflt, DEFAULT), st)))))"

text \<open>
  \<^verbatim>\<open>op_config\<close> with the source fingerprint and the device identity already computed; a default that is
  no dictionary (\<^term>\<open>None\<close>) is a \<^verbatim>\<open>TypeError\<close>.
\<close>

definition op_config ::
  "'c Env \<Rightarrow> string \<Rightarrow> string \<Rightarrow> 'c option \<Rightarrow> 'c list \<Rightarrow> string \<Rightarrow> identity \<Rightarrow> 'c Cache
    \<Rightarrow> (('c \<times> string) \<times> 'c Cache) result" where
  "op_config env op shape_class dflt cands fp dev st =
     (case dflt of
        None \<Rightarrow> Inl TypeError
      | Some d \<Rightarrow>
          (case map_of (memo st) (op, dev, fp, shape_class) of
             Some hit \<Rightarrow> Inr (hit, st)
           | None \<Rightarrow>
               bindr (resolve_config env op shape_class d cands fp dev st) (\<lambda>(r, st).
                 Inr (r, st\<lparr>memo := dict_set (op, dev, fp, shape_class) r (memo st)\<rparr>))))"

section \<open>Seeding\<close>

text \<open>An entry carries a configuration (a missing one is a \<^verbatim>\<open>KeyError\<close>), a time and an origin.\<close>

type_synonym 'c seed_entry = "'c option \<times> rat option \<times> string option"

definition seed_record :: "'c Env \<Rightarrow> identity \<Rightarrow> string \<Rightarrow> string \<Rightarrow> 'c seed_entry \<Rightarrow> 'c Rec result" where
  "seed_record env dev fp producer e =
     (case e of
        (None, _, _) \<Rightarrow> Inl KeyError
      | (Some config, time_ms, origin) \<Rightarrow> Inr
        \<lparr>rec_config = Some config, rec_status = Some SEEDED, rec_time = time_ms, rec_device = Some dev,
         rec_source = Some fp, rec_tuned_at = env_now env,
         rec_origin = (case origin of Some s \<Rightarrow> if s = [] then producer else s | None \<Rightarrow> producer),
         rec_reason = Some ''seeded'', rec_measured = []\<rparr>)"

definition seed_step ::
  "'c Env \<Rightarrow> identity \<Rightarrow> string \<Rightarrow> string \<Rightarrow> bool \<Rightarrow> 'c records \<times> 'c records \<Rightarrow> string \<times> 'c seed_entry
    \<Rightarrow> ('c records \<times> 'c records) result" where
  "seed_step env dev fp producer force acc entry =
     (case acc of (rs, landed) \<Rightarrow> case entry of (shape_class, e) \<Rightarrow>
        if (case map_of rs shape_class of Some r \<Rightarrow> rec_status r = Some TUNED | None \<Rightarrow> False) \<and> \<not> force
        then Inr acc
        else bindr (seed_record env dev fp producer e) (\<lambda>r.
               Inr (dict_set shape_class r rs, dict_set shape_class r landed)))"

definition seed ::
  "'c Env \<Rightarrow> string \<Rightarrow> (string, 'c seed_entry) dict \<Rightarrow> string \<Rightarrow> bool \<Rightarrow> string \<Rightarrow> identity \<Rightarrow> 'c Cache
    \<Rightarrow> ('c records \<times> 'c Cache) result" where
  "seed env op entries producer force fp dev st =
     (if \<not> env_on env then Inr ([], st)
      else bindr (load_records env op dev st) (\<lambda>(rs, st).
        bindr (foldr_res (seed_step env dev fp producer force) (rs, []) entries) (\<lambda>(rs, landed).
          if landed = [] then Inr (rs, st)
          else bindr (write_records env op dev landed st) (\<lambda>(ok, st).
            Inr (rs, if ok then reset_memo (Some op) st else st)))))"

definition stored_records :: "'c Env \<Rightarrow> string \<Rightarrow> identity \<Rightarrow> 'c Cache \<Rightarrow> ('c records \<times> 'c Cache) result" where
  "stored_records env op dev st = load_records env op dev st"

section \<open>Store lemmas\<close>

named_theorems cache_simps \<open>the operations of the store, unfolded\<close>

lemmas [cache_simps] = load_records_def write_records_def persist_def resolve_config_def op_config_def

lemma map_of_dict_update_single [simp]: "dict_update d [(k, v)] = dict_set k v d"
  by (simp add: dict_update_def)

lemma map_of_dict_update:
  "distinct (map fst new) \<Longrightarrow> map_of (dict_update d new) = map_of d ++ map_of new"
proof (induction new arbitrary: d)
  case Nil
  then show ?case by (simp add: dict_update_def)
next
  case (Cons kv new)
  obtain k v where kv: "kv = (k, v)" by fastforce
  have "dict_update d (kv # new) = dict_update (dict_set k v d) new" by (simp add: dict_update_def kv)
  then have "map_of (dict_update d (kv # new)) = map_of (dict_set k v d) ++ map_of new"
    using Cons by simp
  also have "map_of new k = None" using Cons.prems by (simp add: kv map_of_eq_None_iff)
  then have "map_of (dict_set k v d) ++ map_of new = map_of d ++ map_of (kv # new)"
    by (auto simp: kv map_add_def fun_eq_iff split: option.split)
  finally show ?case .
qed

text \<open>
  The cached record map of a file agrees with the file: true of a fresh process, and until another
  process writes the file.
\<close>

definition coherent :: "'c Env \<Rightarrow> string \<Rightarrow> identity \<Rightarrow> 'c Cache \<Rightarrow> bool" where
  "coherent env op dev st =
     (case map_of (files st) (file_key env op dev) of
        None \<Rightarrow> True
      | Some rs \<Rightarrow> disk_records env op dev st = Inr rs)"

lemma load_records_coherent:
  assumes "load_records env op dev st = Inr (rs, st')" "coherent env op dev st"
  shows "disk_records env op dev st = Inr rs"
  using assms by (auto simp: load_records_def coherent_def result_simps split: option.splits)

lemma load_records_frame:
  assumes "load_records env op dev st = Inr (rs, st')"
  shows "memo st' = memo st" "disk st' = disk st" "benched st' = benched st"
  using assms by (auto simp: load_records_def result_simps split: option.splits)

lemma disk_records_cong:
  "disk st = disk st' \<Longrightarrow> env_root env = env_root env' \<Longrightarrow>
     disk_records env op dev st = disk_records env' op dev st'"
  by (simp add: disk_records_def store_path_def)

lemma write_records_frame:
  assumes "write_records env op dev rs st = Inr (ok, st')"
  shows "memo st' = memo st" "benched st' = benched st"
  using assms by (auto simp: write_records_def Let_def result_simps split: if_splits)

text \<open>What a successful write leaves on disk: the old records, overridden by the new ones.\<close>

lemma write_records_disk:
  assumes "write_records env op dev rs st = Inr (True, st')" "disk_records env op dev st = Inr old"
  shows "disk_records env op dev st' = Inr (dict_update old rs)" "coherent env op dev st'"
  using assms by (auto simp: write_records_def disk_records_def coherent_def Let_def split: if_splits)

lemma write_records_fails:
  assumes "write_records env op dev rs st = Inr (False, st')"
  shows "st' = st"
  using assms by (auto simp: write_records_def Let_def result_simps split: if_splits)

section \<open>The sweep\<close>

text \<open>A candidate counts when its benchmark returns finite positive milliseconds.\<close>

definition bench_ms :: "('c \<Rightarrow> bench_out) \<Rightarrow> 'c \<Rightarrow> rat option" where
  "bench_ms bench c = (case bench c of BMs ms \<Rightarrow> if 0 < ms then Some ms else None | _ \<Rightarrow> None)"

definition timed :: "('c \<Rightarrow> bench_out) \<Rightarrow> 'c list \<Rightarrow> ('c \<times> rat) list" where
  "timed bench cands = [(c, the (bench_ms bench c)). c \<leftarrow> cands, bench_ms bench c \<noteq> None]"

text \<open>The specification of the winner: the fastest of the measured candidates, the first on ties.\<close>

definition first_fastest :: "('c \<times> rat) list \<Rightarrow> 'c \<times> rat \<Rightarrow> bool" where
  "first_fastest cts ct \<longleftrightarrow>
     (\<exists>pre post. cts = pre @ ct # post \<and> (\<forall>x \<in> set pre. snd ct < snd x) \<and> (\<forall>x \<in> set post. snd ct \<le> snd x))"

definition better :: "('c \<times> rat) option \<Rightarrow> 'c \<times> rat \<Rightarrow> ('c \<times> rat) option" where
  "better winner ct =
     (case winner of None \<Rightarrow> Some ct | Some (w, t) \<Rightarrow> if snd ct < t then Some ct else Some (w, t))"

lemma better_simps [simp]:
  "better None ct = Some ct"
  "better (Some ct) ct' = Some (if snd ct' < snd ct then ct' else ct)"
  by (simp_all add: better_def split: prod.split)

lemma sweep_Cons:
  "bench_sweep env bench i (cand # cands) winner measured =
     (if (env_clock env i - env_clock env 0) * 1000 \<ge> env_limit env then (winner, measured, [], True)
      else case (case bench_ms bench cand of
                   None \<Rightarrow> bench_sweep env bench (Suc i) cands winner measured
                 | Some ms \<Rightarrow> bench_sweep env bench (Suc i) cands (better winner (cand, ms))
                     (dict_set (env_key env cand) ms measured))
           of (w, m, tried, ex) \<Rightarrow> (w, m, cand # tried, ex))"
  by (auto simp: bench_ms_def better_def split: bench_out.splits option.splits prod.splits)

lemma sweep_complete:
  assumes "bench_sweep env bench i cands winner measured = (w, m, tried, False)"
  shows "w = foldl better winner (timed bench cands)
         \<and> tried = cands"
  using assms
proof (induction cands arbitrary: i winner measured w m tried)
  case Nil
  then show ?case by (simp add: timed_def)
next
  case (Cons c cands)
  show ?case using Cons.prems
    by (auto simp: sweep_Cons timed_def simp del: bench_sweep.simps split: if_splits option.splits prod.splits
        dest: Cons.IH)
qed

definition over_budget :: "'c Env \<Rightarrow> nat \<Rightarrow> bool" where
  "over_budget env k \<longleftrightarrow> env_limit env \<le> (env_clock env k - env_clock env 0) * 1000"

lemma sweep_exhausted:
  "snd (snd (snd (bench_sweep env bench i cands winner measured)))
     \<longleftrightarrow> (\<exists>k \<in> {i..<i + length cands}. over_budget env k)"
proof (induction cands arbitrary: i winner measured)
  case Nil
  then show ?case by simp
next
  case (Cons c cands)
  have "{i..<i + length (c # cands)} = insert i {Suc i..<Suc i + length cands}" by auto
  then show ?case
    by (simp add: sweep_Cons Cons.IH [of "Suc i"] over_budget_def del: bench_sweep.simps
        split: option.split) (auto simp: case_prod_beta Cons.IH over_budget_def)
qed

lemma foldl_better_first_fastest:
  "\<exists>ct'. foldl better (Some ct) cts = Some ct' \<and> first_fastest (ct # cts) ct'"
proof (induction cts arbitrary: ct)
  case Nil
  show ?case by (auto simp: first_fastest_def intro: exI [of _ "[]"])
next
  case (Cons x cts)
  define y where "y = (if snd x < snd ct then x else ct)"
  obtain ct' pre post where f: "foldl better (Some y) cts = Some ct'"
    and split: "y # cts = pre @ ct' # post" and pre: "\<forall>z \<in> set pre. snd ct' < snd z"
    and post: "\<forall>z \<in> set post. snd ct' \<le> snd z"
    using Cons.IH [of y] by (auto simp: first_fastest_def)
  have "first_fastest (ct # x # cts) ct'"
  proof (cases pre)
    case Nil
    with split have y: "y = ct'" "cts = post" by auto
    show ?thesis
    proof (cases "snd x < snd ct")
      case True
      then show ?thesis using y post unfolding first_fastest_def y_def
        by (intro exI [of _ "[ct]"] exI [of _ post]) auto
    next
      case False
      then show ?thesis using y post unfolding first_fastest_def y_def
        by (intro exI [of _ "[]"] exI [of _ "x # post"]) auto
    qed
  next
    case (Cons z zs)
    with split pre have "y = z" "cts = zs @ ct' # post" "snd ct' < snd y" by auto
    then show ?thesis using pre post Cons unfolding first_fastest_def y_def
      by (intro exI [of _ "ct # x # zs"] exI [of _ post]) (auto split: if_splits)
  qed
  with f show ?case by (auto simp: y_def)
qed

lemma foldl_better_None:
  "foldl better None cts = None \<and> cts = [] \<or> (\<exists>ct. foldl better None cts = Some ct \<and> first_fastest cts ct)"
  using foldl_better_first_fastest by (cases cts) auto

section \<open>Properties of resolution\<close>

text \<open>The environment of the witnesses: configurations are numbers, the clock never moves.\<close>

definition sample_env :: "nat Env" where
  "sample_env =
     \<lparr>env_on = True, env_capturing = False, env_root = ''/c'', env_limit = 2000, env_clock = (\<lambda>_. 0),
      env_bench = Some (\<lambda>c. if c = 0 then BRaise else BMs (of_nat (5 - c))), env_json = (\<lambda>_. True),
      env_key = (\<lambda>c. [char_of (48 + c)]), env_io = IoOk, env_now = ''now''\<rparr>"

definition fresh_process :: "'c Cache \<Rightarrow> 'c Cache" where
  "fresh_process st = st\<lparr>memo := [], files := [], benched := []\<rparr>"

definition sample_cache :: "nat Cache" where
  "sample_cache = \<lparr>memo = [], files = [], disk = [], benched = []\<rparr>"

definition sample_dev :: identity where
  "sample_dev = (Some ''sm90'', Some 132, Some ''H100'')"

definition sample_after :: "nat Cache" where
  "sample_after =
     (case op_config sample_env ''g.x'' ''t8'' (Some 0) [0, 1, 3] ''fp'' sample_dev sample_cache of
        Inr (_, st) \<Rightarrow> st | Inl _ \<Rightarrow> sample_cache)"

lemma sample_resolves:
  "op_config sample_env ''g.x'' ''t8'' (Some 0) [0, 1, 3] ''fp'' sample_dev sample_cache
     = Inr ((3, TUNED), sample_after)"
  by code_simp

lemma op_config_memo:
  assumes "op_config env op sc (Some d) cands fp dev st = Inr (r, st')"
  shows "map_of (memo st') (op, dev, fp, sc) = Some r"
  using assms by (auto simp: op_config_def result_simps split: option.splits)

lemma persist_frame:
  assumes "persist env op sc dev fp c s t rea m st = Inr st'"
  shows "memo st' = memo st" "benched st' = benched st"
  using assms by (auto simp: persist_def result_simps dest: write_records_frame)

text \<open>
  What a store miss decides: the configuration and status that are returned and persisted, with the
  time, reason, measurements and benchmarked candidates that go with them.
\<close>

definition decide ::
  "'c Env \<Rightarrow> 'c \<Rightarrow> 'c list
    \<Rightarrow> 'c \<times> string \<times> rat option \<times> string option \<times> (string, rat) dict \<times> 'c list" where
  "decide env d cands =
     (case (cands, env_bench env) of
        (_ # _, Some bench) \<Rightarrow>
          (case bench_sweep env bench 1 cands None [] of (winner, measured, tried, exhausted) \<Rightarrow>
             case (exhausted, winner) of
               (False, Some (w, ms)) \<Rightarrow> (w, TUNED, Some ms, None, measured, tried)
             | _ \<Rightarrow> (d, DEFAULT, None,
                     Some (if exhausted then ''budget-exhausted'' else ''bench-failed''), measured, tried))
      | _ \<Rightarrow> (d, DEFAULT, None, Some (if cands = [] then ''no-candidates'' else ''no-bench''), [], []))"

lemma resolve_config_decide:
  "resolve_config env op sc d cands fp dev st =
     (if \<not> (env_json env d \<and> list_all (env_json env) cands) then Inl TypeError
      else if \<not> env_on env then Inr ((d, OFF), st)
      else if env_capturing env then Inr ((d, CAPTURE), st)
      else bindr (load_records env op dev st) (\<lambda>(rs, st).
        case stored_hit dev fp (map_of rs sc) of
          Some hit \<Rightarrow> Inr (hit, st)
        | None \<Rightarrow>
            (case decide env d cands of (c, s, t, rea, m, tried) \<Rightarrow>
               bindr (persist env op sc dev fp c s t rea m (st\<lparr>benched := benched st @ tried\<rparr>))
                 (\<lambda>st. Inr ((c, s), st)))))"
  unfolding resolve_config_def decide_def Let_def
  by (cases cands; cases "env_bench env")
    (auto intro!: bindr_cong split: option.split prod.split bool.split simp del: bench_sweep.simps)

text \<open>The cases of a first resolution that returns.\<close>

lemma resolve_config_elim:
  assumes "resolve_config env op sc d cands fp dev st = Inr (r, st')"
  obtains (off) "\<not> env_on env" "r = (d, OFF)" "st' = st"
  | (capture) "env_on env" "env_capturing env" "r = (d, CAPTURE)" "st' = st"
  | (stored) rs where "env_on env" "\<not> env_capturing env" "load_records env op dev st = Inr (rs, st')"
      "stored_hit dev fp (map_of rs sc) = Some r"
  | (miss) rs st1 c s t rea m tried where "env_on env" "\<not> env_capturing env"
      "load_records env op dev st = Inr (rs, st1)" "stored_hit dev fp (map_of rs sc) = None"
      "decide env d cands = (c, s, t, rea, m, tried)" "r = (c, s)"
      "persist env op sc dev fp c s t rea m (st1\<lparr>benched := benched st1 @ tried\<rparr>) = Inr st'"
proof -
  obtain c s t rea m tried where dec: "decide env d cands = (c, s, t, rea, m, tried)"
    by (metis prod_cases6)
  show thesis
  proof (cases "env_on env \<and> \<not> env_capturing env")
    case True
    then obtain rs st1 where "load_records env op dev st = Inr (rs, st1)"
      using assms by (auto simp: resolve_config_decide result_simps split: if_splits)
    with True dec show ?thesis using assms stored [of rs] miss [of rs st1 c s t rea m tried]
      by (cases "stored_hit dev fp (map_of rs sc)")
        (auto simp: resolve_config_decide result_simps split: if_splits)
  next
    case False
    then show ?thesis using assms off capture
      by (auto simp: resolve_config_decide split: if_splits)
  qed
qed

lemma resolve_config_memo_frame:
  assumes "resolve_config env op sc d cands fp dev st = Inr (r, st')"
  shows "memo st' = memo st"
  using assms by (cases rule: resolve_config_elim) (auto dest!: persist_frame(1) load_records_frame(1))

lemma op_config_keeps:
  assumes "op_config env op sc d cands fp dev st = Inr (r, st')" "map_of (memo st) k = Some v"
  shows "map_of (memo st') k = Some v"
  using assms
  by (auto simp: op_config_def result_simps resolve_config_memo_frame split: option.splits)

text \<open>
  The steps of a process that may follow a resolution for \<open>op\<close>: further resolutions, seeding and
  forgetting of other operators, and anything that leaves the memo alone (inspection, a call that
  raises, other processes writing the store).
\<close>

inductive proc_step :: "string \<Rightarrow> 'c Cache \<Rightarrow> 'c Cache \<Rightarrow> bool" for op where
  resolve: "op_config env op' sc d cands fp dev st = Inr (r, st') \<Longrightarrow> proc_step op st st'"
| seeded: "seed env op' entries producer force fp dev st = Inr (rs, st') \<Longrightarrow> op' \<noteq> op \<Longrightarrow> proc_step op st st'"
| forget: "op' \<noteq> op \<Longrightarrow> proc_step op st (reset_memo (Some op') st)"
| silent: "memo st' = memo st \<Longrightarrow> proc_step op st st'"

lemma map_of_filter_key:
  "P k \<Longrightarrow> map_of (filter (\<lambda>(x, _). P x) xs) k = map_of xs k"
  by (induction xs) auto

lemma reset_memo_other:
  "op' \<noteq> op \<Longrightarrow> map_of (memo (reset_memo (Some op') st)) (op, x) = map_of (memo st) (op, x)"
  by (simp add: reset_memo_def map_of_filter_key [where P = "\<lambda>k. fst k \<noteq> op'"])

lemma seed_elim:
  assumes "seed env op entries producer force fp dev st = Inr (rs, st')"
  obtains (off) "\<not> env_on env" "rs = []" "st' = st"
  | (on) rs0 st1 landed where "env_on env" "load_records env op dev st = Inr (rs0, st1)"
      "foldr_res (seed_step env dev fp producer force) (rs0, []) entries = Inr (rs, landed)"
      "landed = [] \<and> st' = st1 \<or>
       (\<exists>ok st2. write_records env op dev landed st1 = Inr (ok, st2)
          \<and> st' = (if ok then reset_memo (Some op) st2 else st2))"
proof (cases "env_on env")
  case True
  with assms obtain rs0 st1 where ld: "load_records env op dev st = Inr (rs0, st1)"
    by (cases "load_records env op dev st") (auto simp: seed_def)
  with assms True obtain rs1 landed
    where fo: "foldr_res (seed_step env dev fp producer force) (rs0, []) entries = Inr (rs1, landed)"
    by (cases "foldr_res (seed_step env dev fp producer force) (rs0, []) entries") (auto simp: seed_def)
  show thesis
  proof (cases "landed = []")
    case True
    have "rs = rs1 \<and> st' = st1" using assms by (simp add: seed_def \<open>env_on env\<close> ld fo True)
    with True ld fo \<open>env_on env\<close> show ?thesis using on [of rs0 st1 landed] by simp
  next
    case False
    have "bindr (write_records env op dev landed st1)
        (\<lambda>(ok, st). Inr (rs1, if ok then reset_memo (Some op) st else st)) = Inr (rs, st')"
      using assms by (simp add: seed_def \<open>env_on env\<close> ld fo False)
    then obtain w where w: "write_records env op dev landed st1 = Inr w"
        "(rs, st') = (rs1, if fst w then reset_memo (Some op) (snd w) else snd w)"
      by (cases "write_records env op dev landed st1") (simp_all add: case_prod_beta)
    then have "rs = rs1 \<and> (\<exists>ok st2. write_records env op dev landed st1 = Inr (ok, st2)
        \<and> st' = (if ok then reset_memo (Some op) st2 else st2))"
      by (intro conjI exI [of _ "fst w"] exI [of _ "snd w"]) simp_all
    with ld fo \<open>env_on env\<close> show ?thesis using on [of rs0 st1 landed] by simp
  qed
next
  case False
  with assms off show ?thesis by (auto simp: seed_def)
qed

lemma seed_memo_other:
  assumes "seed env op' entries producer force fp dev st = Inr (rs, st')" "op' \<noteq> op"
  shows "map_of (memo st') (op, x) = map_of (memo st) (op, x)"
  using assms(1)
proof (cases rule: seed_elim)
  case (on rs0 st1 landed)
  have "memo st1 = memo st" by (rule load_records_frame(1) [OF on(2)])
  with on(4) show ?thesis by (auto simp: reset_memo_other [OF assms(2)] write_records_frame(1))
qed simp

lemma proc_steps_keep:
  assumes "(proc_step op)\<^sup>*\<^sup>* st st'" "map_of (memo st) (op, x) = Some v"
  shows "map_of (memo st') (op, x) = Some v"
  using assms
proof (induction rule: rtranclp_induct)
  case (step y z)
  from step.hyps(2) show ?case
    by cases (use step in \<open>auto simp: reset_memo_other seed_memo_other intro: op_config_keeps\<close>)
qed simp

text \<open>
  C22: A resolved configuration is frozen for the process: once \<^verbatim>\<open>op_config\<close> has returned a
  configuration and status for an operator, device, source and shape class, every later call for
  them returns the same pair and changes nothing (no benchmark, no write), whatever the environment,
  default, candidates and benchmark of the later call, and whatever resolutions, seeds of other
  operators and writes of other processes come in between.
\<close>

theorem op_config_frozen:
  assumes "op_config env op sc (Some d) cands fp dev st = Inr (r, st1)"
    and "(proc_step op)\<^sup>*\<^sup>* st1 st2"
  shows "op_config env' op sc (Some d') cands' fp dev st2 = Inr (r, st2)"
  using proc_steps_keep [OF assms(2) op_config_memo [OF assms(1)]] by (simp add: op_config_def)

theorem op_config_frozen_witness:
  "op_config (sample_env\<lparr>env_capturing := True, env_bench := None\<rparr>) ''g.x'' ''t8'' (Some 7) [] ''fp''
     sample_dev (sample_after\<lparr>disk := []\<rparr>) = Inr ((3, TUNED), sample_after\<lparr>disk := []\<rparr>)"
  by (rule op_config_frozen [OF sample_resolves r_into_rtranclp [where r = "proc_step ''g.x''"]])
    (rule proc_step.silent, simp)

text \<open>
  While the stream captures a graph, resolution is a lookup: it returns the memoised pair or the
  declared default, benchmarks nothing, and neither reads nor writes the store.
\<close>

theorem op_config_capture_safe:
  assumes "env_capturing env"
    and "op_config env op sc (Some d) cands fp dev st = Inr (r, st')"
  shows "disk st' = disk st \<and> files st' = files st \<and> benched st' = benched st
    \<and> (map_of (memo st) (op, dev, fp, sc) = Some r
       \<or> r = (d, if env_on env then CAPTURE else OFF) \<and> map_of (memo st) (op, dev, fp, sc) = None)"
  using assms by (auto simp: op_config_def resolve_config_decide result_simps split: option.splits if_splits)

theorem op_config_capture_safe_witness:
  "\<exists>r st'. op_config (sample_env\<lparr>env_capturing := True\<rparr>) ''g.x'' ''t8'' (Some 0) [0, 1, 3] ''fp''
       sample_dev sample_cache = Inr (r, st') \<and> disk st' = [] \<and> benched st' = [] \<and> r = (0, CAPTURE)"
proof -
  define env where "env = sample_env\<lparr>env_capturing := True\<rparr>"
  have c: "env_capturing env" by (simp add: env_def)
  obtain r st' where r: "op_config env ''g.x'' ''t8'' (Some 0) [0, 1, 3] ''fp'' sample_dev sample_cache = Inr (r, st')"
    by (simp add: op_config_def resolve_config_def sample_cache_def sample_env_def env_def)
  from op_config_capture_safe [OF c r] r show ?thesis
    by (auto simp: sample_cache_def env_def sample_env_def)
qed

text \<open>
  C21: A store miss is decided by a complete sweep or not at all: when the budget holds through the
  last candidate and some benchmark gives a finite positive time, every candidate is benchmarked and
  the result is the fastest one, the first of them on ties; when the budget runs out before any
  candidate, or none can be measured, the result is the declared default.  A partial winner is never
  returned.
\<close>

theorem op_config_tunes_fastest:
  assumes "op_config env op sc (Some d) cands fp dev st = Inr ((c, s), st')"
    and "map_of (memo st) (op, dev, fp, sc) = None" "env_on env" "\<not> env_capturing env"
    and "load_records env op dev st = Inr (rs, st1)" "stored_hit dev fp (map_of rs sc) = None"
    and "env_bench env = Some bench" "cands \<noteq> []"
  shows "if (\<exists>k \<in> {1..length cands}. over_budget env k) \<or> timed bench cands = []
         then s = DEFAULT \<and> c = d
         else s = TUNED \<and> (\<exists>ms. first_fastest (timed bench cands) (c, ms))
              \<and> benched st' = benched st @ cands"
proof -
  obtain w m tried ex where sw: "bench_sweep env bench 1 cands None [] = (w, m, tried, ex)"
    by (metis prod_cases4)
  have ex: "ex \<longleftrightarrow> (\<exists>k \<in> {1..length cands}. over_budget env k)"
    using sweep_exhausted [of env bench 1 cands None "[]"] sw by (simp add: atLeastLessThanSuc_atLeastAtMost)
  obtain c' s' t rea m' tried' where dec: "decide env d cands = (c', s', t, rea, m', tried')"
    by (metis prod_cases6)
  then have cs: "c' = c" "s' = s" "benched st' = benched st @ tried'"
    using assms by (auto simp: op_config_def resolve_config_decide result_simps split: if_splits
        dest!: persist_frame(2) load_records_frame(3))
  show ?thesis
  proof (cases "ex \<or> timed bench cands = []")
    case True
    then have "ex \<or> w = None"
      using sweep_complete [of env bench 1 cands None "[]" w m tried] sw by (cases ex) auto
    then have "s' = DEFAULT \<and> c' = d" using dec assms sw
      by (auto simp: decide_def simp del: bench_sweep.simps split: list.splits option.splits bool.splits)
    then show ?thesis unfolding ex [symmetric] using True cs by auto
  next
    case False
    then have "w = foldl better None (timed bench cands)" "tried = cands"
      using sweep_complete [of env bench 1 cands None "[]" w m tried] sw by simp_all
    moreover from this obtain ct where "w = Some ct" "first_fastest (timed bench cands) ct"
      using foldl_better_None False by metis
    moreover obtain c0 t0 where "ct = (c0, t0)" by fastforce
    ultimately have "s' = TUNED \<and> first_fastest (timed bench cands) (c', t0) \<and> tried' = cands"
      using dec assms sw False
      by (auto simp: decide_def simp del: bench_sweep.simps split: list.splits option.splits bool.splits)
    then show ?thesis unfolding ex [symmetric] using False cs by auto
  qed
qed

theorem op_config_tunes_fastest_witness:
  "\<exists>ms. first_fastest (timed (the (env_bench sample_env)) [0, 1, 3]) (3, ms)"
proof -
  have "load_records sample_env ''g.x'' sample_dev sample_cache
      = Inr ([], sample_cache\<lparr>files := [(file_key sample_env ''g.x'' sample_dev, [])]\<rparr>)"
    by (simp add: load_records_def disk_records_def sample_cache_def dict_set_def)
  from op_config_tunes_fastest [OF sample_resolves _ _ _ this, where bench = "the (env_bench sample_env)"]
  show ?thesis
    by (auto simp: sample_cache_def sample_env_def stored_hit_def over_budget_def timed_def bench_ms_def
        split: if_splits)
qed

lemma decide_status:
  "decide env d cands = (c, s, t, rea, m, tried) \<Longrightarrow> s \<in> {TUNED, SEEDED, DEFAULT}"
  by (auto simp: decide_def simp del: bench_sweep.simps split: list.splits option.splits bool.splits prod.splits)

text \<open>What a resolution with working writes leaves on disk is a hit for the same key.\<close>

lemma persist_then_hit:
  assumes "persist env op sc dev fp c s t rea m st = Inr st'" "env_io env = IoOk"
    and "s \<in> {TUNED, SEEDED, DEFAULT}"
  shows "\<exists>rs. disk_records env op dev st' = Inr rs \<and> stored_hit dev fp (map_of rs sc) = Some (c, s)"
proof -
  obtain rs1 ok where w: "write_records env op dev [(sc, rs1)] st = Inr (ok, st')"
      and r: "stored_hit dev fp (Some rs1) = Some (c, s)"
    using assms by (auto simp: persist_def result_simps stored_hit_def)
  from w assms(2) obtain old where old: "disk_records env op dev st = Inr old" and ok: "ok = True"
    by (auto simp: write_records_def result_simps Let_def split: if_splits)
  from write_records_disk(1) [OF w [unfolded ok] old] r show ?thesis by simp
qed

lemma resolve_config_leaves_hit:
  assumes "resolve_config env op sc d cands fp dev st = Inr (r, st')"
    and "env_on env" "\<not> env_capturing env" "env_io env = IoOk" "coherent env op dev st"
  shows "\<exists>rs. disk_records env op dev st' = Inr rs \<and> stored_hit dev fp (map_of rs sc) = Some r"
  using assms(1)
proof (cases rule: resolve_config_elim)
  case (stored rs)
  have "disk_records env op dev st' = disk_records env op dev st"
    by (rule disk_records_cong [OF load_records_frame(2) [OF stored(3)] refl])
  with load_records_coherent [OF stored(3) assms(5)] stored(4) show ?thesis by auto
next
  case (miss rs st1 c s t rea m tried)
  with persist_then_hit [OF miss(7) assms(4) decide_status [OF miss(5)]] show ?thesis by simp
qed (use assms in auto)



lemma seed_step_keeps_tuned:
  assumes "seed_step env dev fp producer False (rs, landed) entry = Inr (rs', landed')"
    and "map_of rs sc = Some r" "rec_status r = Some TUNED" "map_of landed sc = None" "dict_wf landed"
  shows "map_of rs' sc = Some r \<and> map_of landed' sc = None \<and> dict_wf landed'"
  using assms by (auto simp: seed_step_def result_simps split: prod.splits option.splits if_splits)

lemma seed_steps_keep_tuned:
  assumes "foldr_res (seed_step env dev fp producer False) (rs, []) entries = Inr (rs', landed)"
    and "map_of rs sc = Some r" "rec_status r = Some TUNED"
  shows "map_of rs' sc = Some r \<and> map_of landed sc = None \<and> dict_wf landed"
proof -
  define I where "I = (\<lambda>(rs :: 'a records, landed :: 'a records).
    map_of rs sc = Some r \<and> map_of landed sc = None \<and> dict_wf landed)"
  have "I (rs', landed)"
    by (rule foldr_res_inv [OF assms(1)])
      (use assms seed_step_keeps_tuned in \<open>fastforce simp: I_def dict_wf_def\<close>)+
  then show ?thesis by (simp add: I_def)
qed

text \<open>
  Seeding without \<^verbatim>\<open>force\<close> never replaces a locally tuned record: when the cached record map
  agrees with the store file, every record of the file with status \<^verbatim>\<open>tuned\<close> is still there, unchanged,
  after the call.
\<close>

theorem seed_keeps_tuned:
  assumes "seed env op entries producer False fp dev st = Inr (rs, st')"
    and "coherent env op dev st" "disk_records env op dev st = Inr old"
    and "map_of old sc = Some r" "rec_status r = Some TUNED"
  shows "\<exists>new. disk_records env op dev st' = Inr new \<and> map_of new sc = Some r"
  using assms(1)
proof (cases rule: seed_elim)
  case off
  with assms show ?thesis by auto
next
  case (on rs0 st1 landed)
  have rs0: "rs0 = old" using load_records_coherent [OF on(2) assms(2)] assms(3) by simp
  have d1: "disk_records env op dev st1 = Inr old"
    using disk_records_cong [OF load_records_frame(2) [OF on(2)] refl] assms(3) by metis
  have keep: "map_of landed sc = None" "dict_wf landed"
    using seed_steps_keep_tuned [OF on(3)] rs0 assms(4,5) by auto
  from on(4) show ?thesis
  proof (elim disjE exE conjE)
    fix ok st2
    assume w: "write_records env op dev landed st1 = Inr (ok, st2)"
      and st': "st' = (if ok then reset_memo (Some op) st2 else st2)"
    show ?thesis
    proof (cases ok)
      case True
      have "disk_records env op dev st' = disk_records env op dev st2"
        by (rule disk_records_cong) (simp_all add: st' reset_memo_def)
      with write_records_disk(1) [OF w [unfolded \<open>ok\<close> [THEN eqTrueI]] d1] show ?thesis
        using keep assms(4) by (auto simp: map_of_dict_update dict_wf_def map_add_def)
    next
      case False
      with w write_records_fails d1 assms(4) st' show ?thesis by fastforce
    qed
  qed (use d1 assms(4) in auto)
qed

theorem seed_keeps_tuned_witness:
  "\<exists>rs st' new r. seed sample_env ''g.x'' [(''t8'', Some 1, None, None), (''t9'', Some 1, None, None)]
       ''seeded'' False ''fp'' sample_dev sample_after = Inr (rs, st')
     \<and> disk_records sample_env ''g.x'' sample_dev st' = Inr new \<and> map_of new ''t8'' = Some r
     \<and> rec_config r = Some 3"
proof -
  define out where "out = seed sample_env ''g.x'' [(''t8'', Some 1, None, None), (''t9'', Some 1, None, None)]
       ''seeded'' False ''fp'' sample_dev sample_after"
  have "is_ok out" unfolding out_def by code_simp
  then obtain rs st' where o: "out = Inr (rs, st')" by (auto simp: is_ok_iff)
  define old where "old = projr (disk_records sample_env ''g.x'' sample_dev sample_after)"
  define r where "r = the (map_of old ''t8'')"
  have f: "coherent sample_env ''g.x'' sample_dev sample_after"
      "disk_records sample_env ''g.x'' sample_dev sample_after = Inr old"
      "map_of old ''t8'' = Some r" "rec_status r = Some TUNED" "rec_config r = Some 3"
    unfolding r_def old_def by code_simp+
  from seed_keeps_tuned [OF o [unfolded out_def] f(1-4)] o f(5) show ?thesis
    unfolding out_def by blast
qed

text \<open>
  The leniency of the store has a hole: a store file that parses to a JSON value other than an
  object makes the first resolution that reads it raise \<^verbatim>\<open>AttributeError\<close>, although store failures are
  meant never to reach the launch path.
\<close>

theorem op_config_not_object_raises:
  assumes "map_of (disk st) (store_path env op dev) = Some NotObject"
    and "map_of (files st) (file_key env op dev) = None" "map_of (memo st) (op, dev, fp, sc) = None"
    and "env_on env" "\<not> env_capturing env" "env_json env d" "list_all (env_json env) cands"
  shows "op_config env op sc (Some d) cands fp dev st = Inl AttributeError"
  using assms by (simp add: op_config_def resolve_config_def load_records_def disk_records_def)

theorem op_config_not_object_raises_witness:
  "op_config sample_env ''g.x'' ''t8'' (Some 0) [0] ''fp'' sample_dev
     (sample_cache\<lparr>disk := [(store_path sample_env ''g.x'' sample_dev, NotObject)]\<rparr>) = Inl AttributeError"
  by (rule op_config_not_object_raises) (simp_all add: sample_cache_def sample_env_def)

end
