(* ===== verification/Reference_Exec.thy ===== *)
theory Reference_Exec
  imports Memory_Plan Grid_Barrier Contracts
begin

text \<open>
  The reference executor of \<^verbatim>\<open>compiler/reference_exec.py\<close>, with the trace of
  \<^verbatim>\<open>compiler/reference_types.py\<close>: workspace slices, the phase loop with its barrier, the dispatch of
  one task to its body, and the NaN canary over the workspace.

  A cell of memory is a number or NaN (\<^term>\<open>None\<close>).  The numeric task bodies are an argument
  \<open>methods\<close>, by the method name the contract registry gives; the lemmas say what is assumed of them.
  Slice bounds are not negative.
\<close>

section \<open>Memory and traces\<close>

type_synonym 'v cell = "'v option"

record 'v Mem =
  mem_ws :: "'v cell list"
  mem_ext :: "(int, 'v cell list) dict"

text \<open>What a storage id is bound to: a slice of the workspace or a caller-owned array.\<close>

datatype arr_ref = WsSlice int int | ExtArr int

definition arr_get :: "arr_ref \<Rightarrow> 'v Mem \<Rightarrow> 'v cell list" where
  "arr_get a m =
     (case a of
        WsSlice lo hi \<Rightarrow> take (nat (hi - lo)) (drop (nat lo) (mem_ws m))
      | ExtArr s \<Rightarrow> (case map_of (mem_ext m) s of None \<Rightarrow> [] | Some cs \<Rightarrow> cs))"

definition fill_nan :: "int \<Rightarrow> int \<Rightarrow> 'v cell list \<Rightarrow> 'v cell list" where
  "fill_nan lo hi cs = map (\<lambda>(i, c). if lo \<le> int i \<and> int i < hi then None else c) (enumerate 0 cs)"

definition arr_fill_nan :: "arr_ref \<Rightarrow> 'v Mem \<Rightarrow> 'v Mem" where
  "arr_fill_nan a m =
     (case a of
        WsSlice lo hi \<Rightarrow> m\<lparr>mem_ws := fill_nan lo hi (mem_ws m)\<rparr>
      | ExtArr s \<Rightarrow> m\<lparr>mem_ext := map (\<lambda>(k, cs). (k, if k = s then map (\<lambda>_. None) cs else cs)) (mem_ext m)\<rparr>)"

record PhaseStat =
  pst_index :: int
  pst_kind :: string
  pst_tasks :: int
  pst_per_worker :: "int list"
  pst_generation :: int

definition idle_workers :: "PhaseStat \<Rightarrow> int" where
  "idle_workers st = int (length (filter (\<lambda>c. c = 0) (pst_per_worker st)))"

definition max_tasks_per_worker :: "PhaseStat \<Rightarrow> int result" where
  "max_tasks_per_worker st =
     (if pst_per_worker st = [] then Inl ValueError else Inr (list_max (pst_per_worker st)))"

record ExecutionTrace =
  tr_kernel_launches :: int
  tr_grid_barriers :: int
  tr_phases :: "PhaseStat list"
  tr_task_executions :: int

definition empty_trace :: ExecutionTrace where
  "empty_trace = \<lparr>tr_kernel_launches = 0, tr_grid_barriers = 0, tr_phases = [], tr_task_executions = 0\<rparr>"

section \<open>The executor\<close>

record Executor =
  ex_schedule :: PhaseSchedule
  ex_workers :: int
  ex_graph :: OperatorGraph
  ex_plan :: "WorkspacePlan option"
  ex_canary :: bool
  ex_storage :: "(int, arr_ref) dict"

type_synonym 'v body = "TaskFamily \<Rightarrow> int list \<Rightarrow> (string, int) dict \<Rightarrow> 'v Mem \<Rightarrow> 'v Mem result"

text \<open>A strided tensor view: array, offset, shape and strides.\<close>

type_synonym tensor_array = "arr_ref \<times> int \<times> int list \<times> int list"

definition materialize_tensors :: "Executor \<Rightarrow> (string, tensor_array) dict result" where
  "materialize_tensors ex =
     mapr (\<lambda>(name, tv).
        case map_of (ex_storage ex) (tv_storage_id tv) of
          None \<Rightarrow> Inl ExecutorError
        | Some base \<Rightarrow> Inr (name, base, tv_offset tv, tv_shape tv, tv_strides tv)) (g_tensors (ex_graph ex))"

text \<open>A new invocation arms every canary.\<close>

definition arm_canaries :: "(int, arr_ref) dict \<Rightarrow> BufferPlan list \<Rightarrow> 'v Mem \<Rightarrow> 'v Mem result" where
  "arm_canaries storage bufs m =
     foldr_res (\<lambda>m b. bindr (dict_get storage (buf_storage_id b)) (\<lambda>a. Inr (arr_fill_nan a m))) m bufs"

definition new_executor ::
  "PhaseSchedule \<Rightarrow> int \<Rightarrow> (int, arr_ref) dict \<Rightarrow> OperatorGraph \<Rightarrow> WorkspacePlan option \<Rightarrow> bool
    \<Rightarrow> 'v Mem \<Rightarrow> (Executor \<times> 'v Mem) result" where
  "new_executor schedule workers storage graph plan canary m =
     (let ex = \<lparr>ex_schedule = schedule, ex_workers = workers, ex_graph = graph, ex_plan = plan,
                ex_canary = canary, ex_storage = storage\<rparr> in
      bindr (case plan of
               None \<Rightarrow> Inr m
             | Some wp \<Rightarrow> if canary then arm_canaries storage (wp_buffers wp) m else Inr m) (\<lambda>m.
      bindr (materialize_tensors ex) (\<lambda>_. Inr (ex, m))))"

definition executor_bodies :: "(string \<Rightarrow> 'v body) \<Rightarrow> (string, 'v body) dict" where
  "executor_bodies methods =
     foldl (\<lambda>d (_, spec). dict_set (oc_task_kind spec) (methods (reference_body spec)) d) [] CONTRACTS"

definition execute_task ::
  "(string \<Rightarrow> 'v body) \<Rightarrow> PhasePlan \<Rightarrow> (string, int) dict \<Rightarrow> 'v Mem \<Rightarrow> int \<Rightarrow> 'v Mem result" where
  "execute_task methods phase scalars m task_id =
     bindr (family_of phase task_id) (\<lambda>family.
     bindr (local_id phase task_id) (\<lambda>local.
     bindr (fam_coords family local) (\<lambda>cs.
       case map_of (executor_bodies methods) (fam_kind family) of
         None \<Rightarrow> Inl ExecutorError
       | Some body \<Rightarrow> body family cs scalars m)))"

definition has_live_cooccupant :: "WorkspacePlan \<Rightarrow> BufferPlan \<Rightarrow> int \<Rightarrow> bool" where
  "has_live_cooccupant wp b k =
     list_ex (\<lambda>other.
        \<not> (other = b \<or> \<not> (buf_first_phase other \<le> k \<and> k \<le> buf_last_phase other))
        \<and> buf_offset b < buf_offset other + buf_numel other
        \<and> buf_offset other < buf_offset b + buf_numel b) (wp_buffers wp)"

definition canary_buffer ::
  "Executor \<Rightarrow> WorkspacePlan \<Rightarrow> int \<Rightarrow> 'v Mem \<Rightarrow> BufferPlan \<Rightarrow> 'v Mem result" where
  "canary_buffer ex wp k m b =
     bindr (dict_get (ex_storage ex) (buf_storage_id b)) (\<lambda>arr.
       if buf_first_phase b > k then
         if has_live_cooccupant wp b k then Inr m
         else if \<not> list_all (\<lambda>c. c = None) (arr_get arr m) then Inl ExecutorError
         else Inr m
       else if buf_last_phase b = k \<and> \<not> buf_live_at_end b then Inr (arr_fill_nan arr m)
       else Inr m)"

definition canary_check :: "Executor \<Rightarrow> PhasePlan \<Rightarrow> 'v Mem \<Rightarrow> 'v Mem result" where
  "canary_check ex phase m =
     (case ex_plan ex of
        None \<Rightarrow> Inr m
      | Some wp \<Rightarrow>
          if \<not> ex_canary ex then Inr m
          else foldr_res (canary_buffer ex wp (ph_index phase)) m (wp_buffers wp))"

text \<open>The turn of one worker in a phase: its tasks, then its arrival at the barrier.\<close>

definition run_worker ::
  "Executor \<Rightarrow> (string \<Rightarrow> 'v body) \<Rightarrow> PhasePlan \<Rightarrow> (string, int) dict
    \<Rightarrow> 'v Mem \<times> int list \<times> SimulatedGridBarrier \<Rightarrow> int \<Rightarrow> ('v Mem \<times> int list \<times> SimulatedGridBarrier) result" where
  "run_worker ex methods phase scalars acc w =
     (case acc of (m, per_worker, bar) \<Rightarrow>
        bindr (worker_task_ids phase w (ex_workers ex)) (\<lambda>tids.
        bindr (foldr_res (\<lambda>(m, count) tid.
                 bindr (execute_task methods phase scalars m tid) (\<lambda>m. Inr (m, count + 1))) (m, 0) tids)
          (\<lambda>(m, count).
        bindr (arrive bar w) (\<lambda>bar. Inr (m, per_worker @ [count], bar)))))"

definition run_phase ::
  "Executor \<Rightarrow> (string \<Rightarrow> 'v body) \<Rightarrow> (string, int) dict
    \<Rightarrow> 'v Mem \<times> ExecutionTrace \<times> SimulatedGridBarrier \<Rightarrow> PhasePlan
    \<Rightarrow> ('v Mem \<times> ExecutionTrace \<times> SimulatedGridBarrier) result" where
  "run_phase ex methods scalars acc phase =
     (case acc of (m, trace, bar) \<Rightarrow>
        bindr (foldr_res (run_worker ex methods phase scalars) (m, [], bar) (urange (ex_workers ex)))
          (\<lambda>(m, per_worker, bar).
        bindr (release bar) (\<lambda>(gen, bar).
        bindr (phase_task_count phase) (\<lambda>n.
          let trace = trace\<lparr>tr_grid_barriers := tr_grid_barriers trace + 1,
                tr_task_executions := tr_task_executions trace + sum_list per_worker,
                tr_phases := tr_phases trace @
                  [\<lparr>pst_index = ph_index phase, pst_kind = phase_kind phase, pst_tasks = n,
                    pst_per_worker = per_worker, pst_generation = gen\<rparr>]\<rparr> in
          bindr (canary_check ex phase m) (\<lambda>m. Inr (m, trace, bar))))))"

definition executor_run ::
  "Executor \<Rightarrow> (string \<Rightarrow> 'v body) \<Rightarrow> (string, int) dict \<Rightarrow> ExecutionTrace \<Rightarrow> 'v Mem
    \<Rightarrow> (ExecutionTrace \<times> 'v Mem) result" where
  "executor_run ex methods scalars trace m =
     bindr (foldr_res (run_phase ex methods scalars)
              (m, trace\<lparr>tr_kernel_launches := tr_kernel_launches trace + 1\<rparr>, mk_barrier (ex_workers ex))
              (ps_phases (ex_schedule ex)))
       (\<lambda>(m, trace, _). Inr (trace, m))"

text \<open>\<^verbatim>\<open>_gemm_box\<close>: the unpacking demands a two-dimensional domain.\<close>

definition gemm_box :: "TaskFamily \<Rightarrow> int list \<Rightarrow> ((int \<times> int) \<times> (int \<times> int)) result" where
  "gemm_box fam cs =
     (case td_dims (fam_domain fam) of
        [(m_extent, m_tile), (n_extent, n_tile)] \<Rightarrow>
          bindr (py_nth cs 0) (\<lambda>c0. bindr (py_nth cs 1) (\<lambda>c1.
            let m0 = c0 * m_tile; n0 = c1 * n_tile in
            Inr ((m0, min (m0 + m_tile) m_extent), (n0, min (n0 + n_tile) n_extent))))
      | _ \<Rightarrow> Inl ValueError)"

section \<open>The run as a sequence of tasks\<close>

text \<open>The order in which one phase runs its tasks, and its effect on memory.\<close>

definition phase_order :: "int \<Rightarrow> PhasePlan \<Rightarrow> int list" where
  "phase_order P phase = concat (map (\<lambda>w. phase_ids.share phase w P) (urange P))"

definition phase_effect ::
  "Executor \<Rightarrow> (string \<Rightarrow> 'v body) \<Rightarrow> (string, int) dict \<Rightarrow> 'v Mem \<Rightarrow> PhasePlan \<Rightarrow> 'v Mem result" where
  "phase_effect ex methods scalars m phase =
     bindr (foldr_res (execute_task methods phase scalars) m (phase_order (ex_workers ex) phase))
       (canary_check ex phase)"

definition share_counts :: "int \<Rightarrow> PhasePlan \<Rightarrow> int list" where
  "share_counts P phase = map (\<lambda>w. int (length (phase_ids.share phase w P))) (urange P)"

definition phase_stat :: "int \<Rightarrow> int \<Rightarrow> PhasePlan \<Rightarrow> PhaseStat" where
  "phase_stat P gen phase =
     \<lparr>pst_index = ph_index phase, pst_kind = phase_kind phase, pst_tasks = phase_ntasks phase,
      pst_per_worker = share_counts P phase, pst_generation = gen\<rparr>"

lemma foldr_res_count:
  "foldr_res (\<lambda>(m, count) tid. bindr (f m tid) (\<lambda>m. Inr (m, count + 1))) (m, c :: int) tids
     = bindr (foldr_res f m tids) (\<lambda>m. Inr (m, c + int (length tids)))"
  by (induction tids arbitrary: m c) (auto simp: bindr_assoc intro!: bindr_cong)

lemma workers_turn:
  assumes "wf_phase phase" "distinct ws" "set ws \<inter> sb_arrivals b = {}" "set ws \<subseteq> {0..<P}"
    and "sb_workers b = P" "ex_workers ex = P"
  shows "foldr_res (run_worker ex methods phase scalars) (m, cnts, b) ws =
    bindr (foldr_res (execute_task methods phase scalars) m (concat (map (\<lambda>w. phase_ids.share phase w P) ws)))
      (\<lambda>m. Inr (m, cnts @ map (\<lambda>w. int (length (phase_ids.share phase w P))) ws,
                b\<lparr>sb_arrivals := sb_arrivals b \<union> set ws\<rparr>))"
  using assms
proof (induction ws arbitrary: m cnts b)
  case Nil
  then show ?case by simp
next
  case (Cons w ws)
  have w: "0 \<le> w" "w < P" and a: "arrive b w = Inr (b\<lparr>sb_arrivals := insert w (sb_arrivals b)\<rparr>)"
    using Cons.prems by (auto simp: arrive_def)
  let ?b = "b\<lparr>sb_arrivals := insert w (sb_arrivals b)\<rparr>"
  have "run_worker ex methods phase scalars (m, cnts, b) w =
      bindr (foldr_res (execute_task methods phase scalars) m (phase_ids.share phase w P))
        (\<lambda>m. Inr (m, cnts @ [int (length (phase_ids.share phase w P))], ?b))"
    using phase_ids.assign_eq [OF Cons.prems(1) w] Cons.prems(6)
    by (simp add: run_worker_def foldr_res_count bindr_assoc a)
  moreover have "foldr_res (run_worker ex methods phase scalars) (m', cnts', ?b) ws =
      bindr (foldr_res (execute_task methods phase scalars) m' (concat (map (\<lambda>w. phase_ids.share phase w P) ws)))
      (\<lambda>m. Inr (m, cnts' @ map (\<lambda>w. int (length (phase_ids.share phase w P))) ws,
                ?b\<lparr>sb_arrivals := sb_arrivals ?b \<union> set ws\<rparr>))" for m' cnts'
    by (rule Cons.IH) (use Cons.prems in auto)
  ultimately show ?case
    by (simp add: bindr_assoc foldr_res_append insert_commute Un_commute)
qed

lemma length_concat_int: "int (length (concat (map f ws))) = sum_list (map (\<lambda>w. int (length (f w))) ws)"
  by (induction ws) auto

lemma share_counts_sum:
  assumes "wf_phase phase" "0 < P"
  shows "sum_list (share_counts P phase) = phase_ntasks phase"
proof -
  have "sum_list (share_counts P phase) = int (length (phase_order P phase))"
    by (simp add: share_counts_def phase_order_def length_concat_int)
  also have "length (phase_order P phase) = length (urange (phase_ntasks phase))"
    using phase_ids.shares_mset [OF assms(1) phase_task_count_ok [OF assms(1)] assms(2)]
    by (metis phase_order_def size_mset)
  finally show ?thesis using phase_ntasks_nonneg [OF assms(1)] by simp
qed

lemma run_phase_value:
  assumes "wf_phase phase" "ex_workers ex = P" "0 < P" "sb_workers b = P" "sb_arrivals b = {}"
  shows "run_phase ex methods scalars (m, tr, b) phase =
    bindr (phase_effect ex methods scalars m phase) (\<lambda>m.
      Inr (m, tr\<lparr>tr_grid_barriers := tr_grid_barriers tr + 1,
             tr_task_executions := tr_task_executions tr + phase_ntasks phase,
             tr_phases := tr_phases tr @ [phase_stat P (sb_generation b) phase]\<rparr>,
           b\<lparr>sb_generation := sb_generation b + 1\<rparr>))"
proof -
  have w: "foldr_res (run_worker ex methods phase scalars) (m, [], b) (urange P) =
    bindr (foldr_res (execute_task methods phase scalars) m (phase_order P phase))
      (\<lambda>m. Inr (m, share_counts P phase, b\<lparr>sb_arrivals := {0..<P}\<rparr>))"
    using workers_turn [OF assms(1), of "urange P" b P ex methods scalars m "[]"] assms
    by (simp add: phase_order_def share_counts_def)
  have r: "release (b\<lparr>sb_arrivals := {0..<P}\<rparr>) = Inr (sb_generation b, b\<lparr>sb_generation := sb_generation b + 1\<rparr>)"
    using assms by (simp add: release_def)
  show ?thesis
    using assms w by (simp add: run_phase_def bindr_assoc r phase_effect_def phase_stat_def share_counts_sum Let_def)
qed

lemma run_phases_value:
  assumes "\<forall>p \<in> set phases. wf_phase p" "ex_workers ex = P" "0 < P" "sb_workers b = P" "sb_arrivals b = {}"
  shows "foldr_res (run_phase ex methods scalars) (m, tr, b) phases =
    bindr (foldr_res (phase_effect ex methods scalars) m phases) (\<lambda>m.
      Inr (m, tr\<lparr>tr_grid_barriers := tr_grid_barriers tr + int (length phases),
             tr_task_executions := tr_task_executions tr + sum_list (map phase_ntasks phases),
             tr_phases := tr_phases tr @
               map (\<lambda>(i, p). phase_stat P (sb_generation b + int i) p) (enumerate 0 phases)\<rparr>,
           b\<lparr>sb_generation := sb_generation b + int (length phases)\<rparr>))"
  using assms
proof (induction phases arbitrary: m tr b)
  case Nil
  then show ?case by simp
next
  case (Cons p ps)
  let ?tr = "tr\<lparr>tr_grid_barriers := tr_grid_barriers tr + 1,
             tr_task_executions := tr_task_executions tr + phase_ntasks p,
             tr_phases := tr_phases tr @ [phase_stat P (sb_generation b) p]\<rparr>"
  let ?b = "b\<lparr>sb_generation := sb_generation b + 1\<rparr>"
  have e: "enumerate 0 (p # ps) = (0, p) # map (\<lambda>(i, p). (Suc i, p)) (enumerate 0 ps)"
    by (auto simp: enumerate_Suc_eq)
  have "foldr_res (run_phase ex methods scalars) (m', ?tr, ?b) ps =
      bindr (foldr_res (phase_effect ex methods scalars) m' ps) (\<lambda>m.
      Inr (m, ?tr\<lparr>tr_grid_barriers := tr_grid_barriers ?tr + int (length ps),
             tr_task_executions := tr_task_executions ?tr + sum_list (map phase_ntasks ps),
             tr_phases := tr_phases ?tr @
               map (\<lambda>(i, p). phase_stat P (sb_generation ?b + int i) p) (enumerate 0 ps)\<rparr>,
           ?b\<lparr>sb_generation := sb_generation ?b + int (length ps)\<rparr>))" for m'
    by (rule Cons.IH) (use Cons.prems in auto)
  moreover have "run_phase ex methods scalars (m, tr, b) p =
      bindr (phase_effect ex methods scalars m p) (\<lambda>m. Inr (m, ?tr, ?b))"
    by (rule run_phase_value) (use Cons.prems in auto)
  ultimately show ?case unfolding e
    by (simp add: bindr_assoc add.assoc comp_def case_prod_beta' add.commute [of 1])
qed

lemma executor_run_value:
  assumes "\<forall>p \<in> set (ps_phases (ex_schedule ex)). wf_phase p" "0 < ex_workers ex"
  shows "executor_run ex methods scalars empty_trace m =
    bindr (foldr_res (phase_effect ex methods scalars) m (ps_phases (ex_schedule ex))) (\<lambda>m.
      Inr (\<lparr>tr_kernel_launches = 1, tr_grid_barriers = num_phases (ex_schedule ex),
            tr_phases = map (\<lambda>(i, p). phase_stat (ex_workers ex) (int i) p)
              (enumerate 0 (ps_phases (ex_schedule ex))),
            tr_task_executions = sum_list (map phase_ntasks (ps_phases (ex_schedule ex)))\<rparr>, m))"
  using run_phases_value [OF assms(1) refl assms(2), of "mk_barrier (ex_workers ex)" methods scalars m
      "empty_trace\<lparr>tr_kernel_launches := tr_kernel_launches empty_trace + 1\<rparr>"]
  by (simp add: executor_run_def mk_barrier_def empty_trace_def bindr_assoc num_phases_def)

section \<open>The canary\<close>

text \<open>
  Each buffer of the plan is bound to its slice of the workspace, as \<^verbatim>\<open>CompiledExecutable.run\<close> does.
\<close>

definition wired :: "Executor \<Rightarrow> WorkspacePlan \<Rightarrow> bool" where
  "wired ex wp \<longleftrightarrow> ex_plan ex = Some wp \<and> (\<forall>b \<in> set (wp_buffers wp). 0 \<le> buf_offset b \<and>
     map_of (ex_storage ex) (buf_storage_id b) = Some (WsSlice (buf_offset b) (buf_offset b + buf_numel b)))"

definition in_buf :: "BufferPlan \<Rightarrow> nat \<Rightarrow> bool" where
  "in_buf b i \<longleftrightarrow> buf_offset b \<le> int i \<and> int i < buf_offset b + buf_numel b"

definition live_in :: "int \<Rightarrow> BufferPlan \<Rightarrow> bool" where
  "live_in k b \<longleftrightarrow> buf_first_phase b \<le> k \<and> k \<le> buf_last_phase b"

text \<open>A buffer whose content is still needed after phase \<open>k\<close>.\<close>

definition survives :: "int \<Rightarrow> BufferPlan \<Rightarrow> bool" where
  "survives k b \<longleftrightarrow> buf_first_phase b \<le> k \<and> (k < buf_last_phase b \<or> buf_live_at_end b)"

text \<open>Numbers in planned cells lie only in buffers that satisfy \<open>Q\<close>.\<close>

definition clean :: "(BufferPlan \<Rightarrow> bool) \<Rightarrow> WorkspacePlan \<Rightarrow> 'v Mem \<Rightarrow> bool" where
  "clean Q wp m \<longleftrightarrow>
     (\<forall>i < length (mem_ws m). mem_ws m ! i \<noteq> None \<longrightarrow> (\<exists>b \<in> set (wp_buffers wp). in_buf b i)
        \<longrightarrow> (\<exists>b \<in> set (wp_buffers wp). Q b \<and> in_buf b i))"

lemma fill_nan_nth [simp]:
  "length (fill_nan lo hi cs) = length cs"
  "i < length cs \<Longrightarrow> fill_nan lo hi cs ! i = (if lo \<le> int i \<and> int i < hi then None else cs ! i)"
  by (simp_all add: fill_nan_def nth_enumerate_eq)

lemma fill_buf_nth:
  "i < length (mem_ws m) \<Longrightarrow>
   mem_ws (arr_fill_nan (WsSlice (buf_offset b) (buf_offset b + buf_numel b)) m) ! i
     = (if in_buf b i then None else mem_ws m ! i)"
  "length (mem_ws (arr_fill_nan (WsSlice lo hi) m)) = length (mem_ws m)"
  "mem_ext (arr_fill_nan (WsSlice lo hi) m) = mem_ext m"
  by (simp_all add: arr_fill_nan_def in_buf_def)

text \<open>What the canary poisons after phase \<open>k\<close>, buffer by buffer.\<close>

definition poison :: "int \<Rightarrow> 'v Mem \<Rightarrow> BufferPlan \<Rightarrow> 'v Mem" where
  "poison k m b =
     (if buf_first_phase b \<le> k \<and> buf_last_phase b = k \<and> \<not> buf_live_at_end b
      then arr_fill_nan (WsSlice (buf_offset b) (buf_offset b + buf_numel b)) m else m)"

definition poisoned :: "int \<Rightarrow> BufferPlan list \<Rightarrow> nat \<Rightarrow> bool" where
  "poisoned k bs i \<longleftrightarrow> (\<exists>b \<in> set bs. buf_first_phase b \<le> k \<and> buf_last_phase b = k \<and> \<not> buf_live_at_end b \<and> in_buf b i)"

lemma poison_simps:
  "length (mem_ws (poison k m b)) = length (mem_ws m)"
  "mem_ext (poison k m b) = mem_ext m"
  "i < length (mem_ws m) \<Longrightarrow>
    mem_ws (poison k m b) ! i = (if poisoned k [b] i then None else mem_ws m ! i)"
  by (auto simp: poison_def fill_buf_nth poisoned_def)

lemma poison_fold:
  "length (mem_ws (foldl (poison k) m bs)) = length (mem_ws m)"
  "mem_ext (foldl (poison k) m bs) = mem_ext m"
  by (induction bs arbitrary: m) (simp_all add: poison_simps)

lemma poison_fold_nth:
  "i < length (mem_ws m) \<Longrightarrow>
    mem_ws (foldl (poison k) m bs) ! i = (if poisoned k bs i then None else mem_ws m ! i)"
  by (induction bs arbitrary: m) (auto simp: poison_simps poisoned_def)

lemma clean_nan:
  assumes "clean (live_in k) wp m" "b \<in> set (wp_buffers wp)" "k < buf_first_phase b"
    and "\<not> has_live_cooccupant wp b k" "0 \<le> buf_offset b"
  shows "list_all (\<lambda>c. c = None) (arr_get (WsSlice (buf_offset b) (buf_offset b + buf_numel b)) m)"
proof -
  have "mem_ws m ! i = None" if i: "i < length (mem_ws m)" "in_buf b i" for i
  proof (rule ccontr)
    assume "mem_ws m ! i \<noteq> None"
    with assms(1,2) i obtain b' where b': "b' \<in> set (wp_buffers wp)" "live_in k b'" "in_buf b' i"
      by (auto simp: clean_def)
    with i assms(3,4) show False
      by (auto simp: has_live_cooccupant_def list_ex_iff live_in_def in_buf_def)
  qed
  then show ?thesis using assms(5)
    by (auto simp: list_all_length arr_get_def in_buf_def)
qed

lemma clean_poison: "clean Q wp m \<Longrightarrow> clean Q wp (poison k m b)"
  by (auto simp: clean_def poison_simps split: if_splits)

lemma canary_fold:
  assumes "wired ex wp" "set bs \<subseteq> set (wp_buffers wp)" "clean (live_in k) wp m"
  shows "foldr_res (canary_buffer ex wp k) m bs = Inr (foldl (poison k) m bs)"
  using assms
proof (induction bs arbitrary: m)
  case Nil
  then show ?case by simp
next
  case (Cons b bs)
  have "canary_buffer ex wp k m b = Inr (poison k m b)"
    using Cons.prems clean_nan [of k wp m b]
    by (auto simp: canary_buffer_def wired_def dict_get_def poison_def)
  then show ?case using Cons clean_poison by fastforce
qed

text \<open>After the check only surviving buffers hold numbers; it leaves their cells alone when buffers
  of overlapping lifetimes are apart.\<close>

lemma canary_check_value:
  assumes "wired ex wp" "ex_canary ex" "clean (live_in (ph_index p)) wp m"
  shows "canary_check ex p m = Inr (foldl (poison (ph_index p)) m (wp_buffers wp))"
  using canary_fold [OF assms(1) _ assms(3), of "wp_buffers wp"] assms by (simp add: canary_check_def wired_def)

lemma clean_after_check:
  assumes "clean (live_in k) wp m"
  shows "clean (survives k) wp (foldl (poison k) m (wp_buffers wp))"
  unfolding clean_def poison_fold
proof (intro allI impI)
  fix i
  assume i: "i < length (mem_ws m)" "mem_ws (foldl (poison k) m (wp_buffers wp)) ! i \<noteq> None"
    "\<exists>b \<in> set (wp_buffers wp). in_buf b i"
  then have n: "mem_ws m ! i \<noteq> None" "\<not> poisoned k (wp_buffers wp) i"
    by (auto simp: poison_fold_nth split: if_splits)
  with assms i obtain b where "b \<in> set (wp_buffers wp)" "live_in k b" "in_buf b i" by (auto simp: clean_def)
  with n(2) show "\<exists>b \<in> set (wp_buffers wp). survives k b \<and> in_buf b i"
    by (intro bexI [of _ b]) (auto simp: live_in_def survives_def poisoned_def)
qed

lemma check_keeps_survivors:
  assumes "\<forall>b \<in> set (wp_buffers wp). \<forall>b' \<in> set (wp_buffers wp). b \<noteq> b' \<and> overlaps_lifetime b b' \<longrightarrow> buffers_apart b b'"
    and "b \<in> set (wp_buffers wp)" "survives k b" "k \<le> buf_last_phase b" "in_buf b i" "i < length (mem_ws m)"
  shows "mem_ws (foldl (poison k) m (wp_buffers wp)) ! i = mem_ws m ! i"
proof -
  have "\<not> poisoned k (wp_buffers wp) i"
  proof
    assume "poisoned k (wp_buffers wp) i"
    then obtain b' where b': "b' \<in> set (wp_buffers wp)" "buf_first_phase b' \<le> k" "buf_last_phase b' = k"
      "\<not> buf_live_at_end b'" "in_buf b' i" by (auto simp: poisoned_def)
    have "b \<noteq> b'" using b' assms(3) by (auto simp: survives_def)
    moreover have "overlaps_lifetime b b'"
      using b' assms(3,4) by (auto simp: overlaps_lifetime_def lifetime_def survives_def)
    ultimately have "buffers_apart b b'" using assms(1,2) b'(1) by blast
    with b'(5) assms(5) show False
      using align_up_ge [of ALIGN_ELEMENTS "buf_numel b"] align_up_ge [of ALIGN_ELEMENTS "buf_numel b'"]
      by (auto simp: buffers_apart_def in_buf_def buf_end_def ALIGN_ELEMENTS_def)
  qed
  with assms(6) show ?thesis by (simp add: poison_fold_nth)
qed

section \<open>Running a schedule\<close>

text \<open>
  What is assumed of the numeric bodies: on coordinates of its grid a body that returns keeps the size
  of the workspace and writes workspace cells of buffers that are live in the phase.
\<close>

definition confined_write :: "(BufferPlan \<Rightarrow> bool) \<Rightarrow> WorkspacePlan \<Rightarrow> 'v Mem \<Rightarrow> 'v Mem \<Rightarrow> bool" where
  "confined_write Q wp m m' \<longleftrightarrow> length (mem_ws m') = length (mem_ws m) \<and>
     (\<forall>i < length (mem_ws m). mem_ws m' ! i \<noteq> mem_ws m ! i
        \<longrightarrow> (\<exists>b \<in> set (wp_buffers wp). Q b \<and> in_buf b i))"

definition confined_bodies ::
  "(string \<Rightarrow> 'v body) \<Rightarrow> (string, int) dict \<Rightarrow> WorkspacePlan \<Rightarrow> PhasePlan \<Rightarrow> bool" where
  "confined_bodies methods scalars wp p \<longleftrightarrow>
     (\<forall>f \<in> set (ph_families p). \<forall>cs m m'. idx_in (grid (fam_domain f)) cs \<longrightarrow>
        methods (''_body_'' @ fam_kind f) f cs scalars m = Inr m'
          \<longrightarrow> confined_write (live_in (ph_index p)) wp m m')"

text \<open>Some task of the families can raise \<open>e\<close>.\<close>

definition body_raises ::
  "(string \<Rightarrow> 'v body) \<Rightarrow> (string, int) dict \<Rightarrow> TaskFamily list \<Rightarrow> py_error \<Rightarrow> bool" where
  "body_raises methods scalars fams e \<longleftrightarrow>
     (\<exists>f \<in> set fams. \<exists>cs m. idx_in (grid (fam_domain f)) cs
        \<and> methods (''_body_'' @ fam_kind f) f cs scalars m = Inl e)"

definition known_kinds :: "PhasePlan \<Rightarrow> bool" where
  "known_kinds p \<longleftrightarrow> (\<forall>f \<in> set (ph_families p). fam_kind f \<in> set (map (oc_task_kind \<circ> snd) CONTRACTS))"

lemma executor_bodies_known:
  "k \<in> set (map (oc_task_kind \<circ> snd) CONTRACTS) \<Longrightarrow>
     map_of (executor_bodies methods) k = Some (methods (''_body_'' @ k))"
proof -
  have "map_of (foldl (\<lambda>d (_, spec). dict_set (oc_task_kind spec) (methods (reference_body spec)) d) d cs) k =
      (if k \<in> set (map (oc_task_kind \<circ> snd) cs) then Some (methods (''_body_'' @ k)) else map_of d k)"
    for d and cs :: "(string \<times> OperatorContract) list"
    by (induction cs arbitrary: d) (auto simp: reference_body_def)
  then show "k \<in> set (map (oc_task_kind \<circ> snd) CONTRACTS) \<Longrightarrow> ?thesis"
    unfolding executor_bodies_def by presburger
qed

text \<open>A task runs the body of its family on the family's coordinates.\<close>

lemma execute_task_value:
  assumes "wf_phase p" "known_kinds p" "0 \<le> t" "t < phase_ntasks p"
  shows "\<exists>i l. locates (ph_families p) t i l
    \<and> idx_in (grid (fam_domain (ph_families p ! i))) (unflat (grid (fam_domain (ph_families p ! i))) l)
    \<and> (\<forall>m. execute_task methods p scalars m t = methods (''_body_'' @ fam_kind (ph_families p ! i)) (ph_families p ! i)
          (unflat (grid (fam_domain (ph_families p ! i))) l) scalars m)"
proof -
  obtain i l where l: "locates (ph_families p) t i l" "family_of p t = Inr (ph_families p ! i)" "local_id p t = Inr l"
    using family_local_loop [of "ph_families p" t] assms
    by (auto simp: wf_phase_def family_of_def local_id_def phase_ntasks_def)
  let ?f = "ph_families p ! i"
  have f: "?f \<in> set (ph_families p)" "wf_family ?f" using l(1) assms(1) by (auto simp: locates_def wf_phase_def)
  then have c: "fam_coords ?f l = Inr (unflat (grid (fam_domain ?f)) l)"
    using l(1) by (simp add: fam_coords_def wf_family_def locates_def fam_ntasks_def coords_Inr_iff)
  have "idx_in (grid (fam_domain ?f)) (unflat (grid (fam_domain ?f)) l)"
    using coords_in_grid c f(2) by (simp add: fam_coords_def wf_family_def)
  moreover have "map_of (executor_bodies methods) (fam_kind ?f) = Some (methods (''_body_'' @ fam_kind ?f))"
    using assms(2) f by (intro executor_bodies_known) (auto simp: known_kinds_def)
  ultimately show ?thesis using l c by (intro exI [of _ i] exI [of _ l]) (simp add: execute_task_def)
qed

lemma execute_task_confined:
  assumes "wf_phase p" "known_kinds p" "confined_bodies methods scalars wp p" "0 \<le> t" "t < phase_ntasks p"
  shows "outcome (confined_write (live_in (ph_index p)) wp m) (body_raises methods scalars (ph_families p))
    (execute_task methods p scalars m t)"
proof -
  obtain i l where l: "locates (ph_families p) t i l"
      "idx_in (grid (fam_domain (ph_families p ! i))) (unflat (grid (fam_domain (ph_families p ! i))) l)"
    and e: "execute_task methods p scalars m t = methods (''_body_'' @ fam_kind (ph_families p ! i)) (ph_families p ! i)
          (unflat (grid (fam_domain (ph_families p ! i))) l) scalars m"
    using execute_task_value [OF assms(1,2,4,5), of methods scalars] by blast
  have "ph_families p ! i \<in> set (ph_families p)" using l(1) by (simp add: locates_def)
  with assms(3) l(2) show ?thesis
    unfolding e confined_bodies_def body_raises_def outcome_def by (auto split: sum.split)
qed

lemma confined_write_trans:
  "confined_write Q wp m m' \<Longrightarrow> confined_write Q wp m' m'' \<Longrightarrow> confined_write Q wp m m''"
  unfolding confined_write_def by metis

lemma phase_order_set: "wf_phase p \<Longrightarrow> 0 < P \<Longrightarrow> set (phase_order P p) = {0..<phase_ntasks p}"
  using phase_ids.shares_cover [of p "phase_ntasks p" P] by (simp add: phase_order_def)

lemma clean_write:
  "clean Q wp m \<Longrightarrow> confined_write Q wp m m' \<Longrightarrow> clean Q wp m'"
  unfolding clean_def confined_write_def by metis

lemma phase_effect_clean:
  assumes "wf_phase p" "known_kinds p" "confined_bodies methods scalars wp p" "0 < ex_workers ex"
    and "wired ex wp" "ex_canary ex" "clean (live_in (ph_index p)) wp m"
  shows "outcome (\<lambda>m'. clean (survives (ph_index p)) wp m' \<and> length (mem_ws m') = length (mem_ws m))
    (body_raises methods scalars (ph_families p)) (phase_effect ex methods scalars m p)"
  unfolding phase_effect_def
proof (rule outcome_bind)
  show "outcome (confined_write (live_in (ph_index p)) wp m) (body_raises methods scalars (ph_families p))
      (foldr_res (execute_task methods p scalars) m (phase_order (ex_workers ex) p))"
  proof (rule outcome_fold)
    fix m' t assume t: "t \<in> set (phase_order (ex_workers ex) p)" "confined_write (live_in (ph_index p)) wp m m'"
    show "outcome (confined_write (live_in (ph_index p)) wp m) (body_raises methods scalars (ph_families p))
        (execute_task methods p scalars m' t)"
      by (rule outcome_mono [OF execute_task_confined [OF assms(1-3)]])
        (use t phase_order_set [OF assms(1,4)] confined_write_trans in auto)
  qed (simp add: confined_write_def)
  fix m1 assume m1: "confined_write (live_in (ph_index p)) wp m m1"
  have c: "clean (live_in (ph_index p)) wp m1" by (rule clean_write [OF assms(7) m1])
  show "outcome (\<lambda>m'. clean (survives (ph_index p)) wp m' \<and> length (mem_ws m') = length (mem_ws m))
      (body_raises methods scalars (ph_families p)) (canary_check ex p m1)"
    using m1 canary_check_value [OF assms(5,6) c] clean_after_check [OF c]
    by (simp add: confined_write_def poison_fold)
qed

text \<open>Lifetimes end with the schedule, and the buffers that end with it are the ones kept.\<close>

definition plan_ends :: "WorkspacePlan \<Rightarrow> int \<Rightarrow> bool" where
  "plan_ends wp n \<longleftrightarrow> (\<forall>b \<in> set (wp_buffers wp). buf_last_phase b < n \<and> (buf_live_at_end b \<longrightarrow> buf_last_phase b = n - 1))"

lemma clean_mono:
  "clean Q wp m \<Longrightarrow> (\<And>b. b \<in> set (wp_buffers wp) \<Longrightarrow> Q b \<Longrightarrow> R b) \<Longrightarrow> clean R wp m"
  unfolding clean_def by blast

lemma phases_clean:
  assumes "\<forall>p \<in> set ps. wf_phase p \<and> known_kinds p \<and> confined_bodies methods scalars wp p" "0 < ex_workers ex"
    and "wired ex wp" "ex_canary ex" "plan_ends wp (k + int (length ps))"
    and "map ph_index ps = map (\<lambda>i. k + int i) [0..<length ps]" "clean (survives (k - 1)) wp m"
  shows "outcome (\<lambda>m'. clean buf_live_at_end wp m' \<and> length (mem_ws m') = length (mem_ws m))
    (body_raises methods scalars (concat (map ph_families ps))) (foldr_res (phase_effect ex methods scalars) m ps)"
  using assms
proof (induction ps arbitrary: k m)
  case Nil
  have "clean buf_live_at_end wp m"
    by (rule clean_mono [OF Nil.prems(7)]) (use Nil.prems(5) in \<open>auto simp: plan_ends_def survives_def\<close>)
  then show ?case by simp
next
  case (Cons p ps)
  have idx: "ph_index p = k" "map ph_index ps = map (\<lambda>i. (k + 1) + int i) [0..<length ps]"
    using Cons.prems(6) by (auto simp: upt_conv_Cons map_Suc_upt [symmetric] simp del: upt_Suc)
  have raises: "body_raises methods scalars fs e \<Longrightarrow> set fs \<subseteq> set (concat (map ph_families (p # ps)))
      \<Longrightarrow> body_raises methods scalars (concat (map ph_families (p # ps))) e" for fs e
    unfolding body_raises_def by blast
  have "clean (live_in (ph_index p)) wp m"
    by (rule clean_mono [OF Cons.prems(7)])
      (use Cons.prems(5) idx(1) in \<open>auto simp: live_in_def survives_def plan_ends_def\<close>)
  then have "outcome (\<lambda>m'. clean (survives k) wp m' \<and> length (mem_ws m') = length (mem_ws m))
      (body_raises methods scalars (concat (map ph_families (p # ps)))) (phase_effect ex methods scalars m p)"
    using outcome_mono [OF phase_effect_clean [of p methods scalars wp ex m] _ raises] Cons.prems idx(1) by simp
  then show ?case unfolding foldr_res.simps
  proof (rule outcome_bind)
    fix m1 :: "'a Mem" assume m1: "clean (survives k) wp m1 \<and> length (mem_ws m1) = length (mem_ws m)"
    have "outcome (\<lambda>m'. clean buf_live_at_end wp m' \<and> length (mem_ws m') = length (mem_ws m1))
        (body_raises methods scalars (concat (map ph_families ps))) (foldr_res (phase_effect ex methods scalars) m1 ps)"
      by (rule Cons.IH [of "k + 1"]) (use Cons.prems idx m1 in \<open>auto simp: add.commute add.left_commute\<close>)
    then show "outcome (\<lambda>m'. clean buf_live_at_end wp m' \<and> length (mem_ws m') = length (mem_ws m))
        (body_raises methods scalars (concat (map ph_families (p # ps)))) (foldr_res (phase_effect ex methods scalars) m1 ps)"
      by (rule outcome_mono) (use m1 raises in auto)
  qed
qed

lemma arm_canaries_clean:
  assumes "\<forall>b \<in> set bs. map_of storage (buf_storage_id b) = Some (WsSlice (buf_offset b) (buf_offset b + buf_numel b))"
  shows "\<exists>m'. arm_canaries storage bs m = Inr m' \<and> length (mem_ws m') = length (mem_ws m)
    \<and> (\<forall>i < length (mem_ws m). mem_ws m' ! i = (if \<exists>b \<in> set bs. in_buf b i then None else mem_ws m ! i))"
  using assms
proof (induction bs arbitrary: m)
  case Nil
  then show ?case by (simp add: arm_canaries_def)
next
  case (Cons b bs)
  let ?m = "arr_fill_nan (WsSlice (buf_offset b) (buf_offset b + buf_numel b)) m"
  obtain m' where "arm_canaries storage bs ?m = Inr m'" "length (mem_ws m') = length (mem_ws ?m)"
    "\<forall>i < length (mem_ws ?m). mem_ws m' ! i = (if \<exists>b \<in> set bs. in_buf b i then None else mem_ws ?m ! i)"
    using Cons by fastforce
  moreover have "arm_canaries storage (b # bs) m = arm_canaries storage bs ?m"
    using Cons.prems by (simp add: arm_canaries_def dict_get_def)
  ultimately show ?case by (auto simp: fill_buf_nth)
qed

end
