(* ===== verification/Compile.thy ===== *)
theory Compile
  imports Reference_Exec Lowering_Domains Launch
begin

text \<open>
  The compilation pipeline of \<^verbatim>\<open>compiler/compile.py\<close> from a captured graph to an executable, the tables of
  the generated source (\<^verbatim>\<open>compiler/codegen_cute.py\<close>), and the reference run of the executable with its
  host guards.

  The captured graph, or the exception of capture, is an argument, as are the arrays the caller binds
  to external storages and the device's SM count.  The specialisation key (a hash) and the texts of
  the generated module and of the capability notes are not kept.
\<close>

section \<open>Generated tables\<close>

definition TEMPLATE_NAMES :: "(string, string) dict" where
  "TEMPLATE_NAMES =
     foldl (\<lambda>d (_, spec). dict_set (oc_task_kind spec) (oc_device_template spec) d) [] CONTRACTS"

record MegakernelSource =
  ms_num_phases :: int
  ms_threads_per_worker :: int
  ms_scratch_bytes :: int
  ms_workspace_elements :: int
  ms_phases :: "(string \<times> string \<times> int \<times> attrs) list"
  ms_buffers :: "(string \<times> int \<times> int \<times> int \<times> int \<times> bool) list"

definition phase_row :: "PhasePlan \<Rightarrow> (string \<times> string \<times> int \<times> attrs) result" where
  "phase_row phase =
     bindr (py_nth (ph_families phase) 0) (\<lambda>fam.
     bindr (dict_get TEMPLATE_NAMES (fam_kind fam)) (\<lambda>template.
     bindr (fam_task_count fam) (\<lambda>n. Inr (fam_kind fam, template, n, fam_params fam))))"

definition emit_megakernel_source ::
  "PhaseSchedule \<Rightarrow> WorkspacePlan \<Rightarrow> int \<Rightarrow> int \<Rightarrow> MegakernelSource result" where
  "emit_megakernel_source schedule plan threads scratch =
     bindr (total_tasks schedule) (\<lambda>_.
     bindr (mapr phase_row (ps_phases schedule)) (\<lambda>rows.
       Inr \<lparr>ms_num_phases = num_phases schedule, ms_threads_per_worker = threads,
            ms_scratch_bytes = scratch, ms_workspace_elements = wp_total_elements plan,
            ms_phases = rows,
            ms_buffers = map (\<lambda>b. (buf_name b, buf_offset b, buf_numel b, buf_first_phase b,
                                   buf_last_phase b, buf_live_at_end b)) (wp_buffers plan)\<rparr>))"

section \<open>Compilation\<close>

text \<open>The fields of a model configuration that compilation reads.\<close>

record ModelConfig =
  mc_layers :: int
  mc_batch :: int
  mc_cache_capacity :: int
  mc_hidden :: int
  mc_kv_heads :: int
  mc_head_dim :: int
  mc_is_qwen3 :: bool

definition kv_width :: "ModelConfig \<Rightarrow> int" where
  "kv_width c = (if mc_is_qwen3 c then mc_kv_heads c * mc_head_dim c else mc_hidden c)"

record CompilationReport =
  rp_target :: string
  rp_schedule_kind :: string
  rp_num_phases :: int
  rp_total_tasks :: int
  rp_workspace_bytes :: int
  rp_workspace_naive_bytes :: int
  rp_scratch_bytes_per_worker :: int
  rp_threads_per_worker :: int
  rp_kv_cache_bytes :: int
  rp_diagnostics :: "Diagnostic list"
  rp_strict_note :: bool
  rp_generated_source :: MegakernelSource

record CompiledExecutable =
  ce_graph :: OperatorGraph
  ce_config :: ModelConfig
  ce_schedule :: PhaseSchedule
  ce_families :: "TaskFamily list"
  ce_workspace_plan :: WorkspacePlan
  ce_scratch_plan :: ScratchPlan
  ce_report :: CompilationReport
  ce_workers :: int
  ce_manifest :: LaunchManifest

text \<open>The constructor derives the launch manifest.\<close>

definition mk_executable ::
  "int option \<Rightarrow> OperatorGraph \<Rightarrow> ModelConfig \<Rightarrow> PhaseSchedule \<Rightarrow> TaskFamily list \<Rightarrow> WorkspacePlan \<Rightarrow> ScratchPlan
    \<Rightarrow> CompilationReport \<Rightarrow> int \<Rightarrow> CompiledExecutable" where
  "mk_executable device_sms graph config schedule families wp sp report workers =
     \<lparr>ce_graph = graph, ce_config = config, ce_schedule = schedule, ce_families = families,
      ce_workspace_plan = wp, ce_scratch_plan = sp, ce_report = report, ce_workers = workers,
      ce_manifest = \<lparr>lm_workers = workers, lm_threads_per_worker = THREADS_PER_WORKER,
        lm_cooperative = True, lm_shared_scratch_bytes = per_worker_bytes sp,
        lm_workspace_bytes = total_bytes wp, lm_num_sms = query_device_sms device_sms,
        lm_capability_notes = []\<rparr>\<rparr>"

definition compile_model ::
  "int option \<Rightarrow> string \<Rightarrow> string \<Rightarrow> bool \<Rightarrow> int option \<Rightarrow> ModelConfig \<Rightarrow> OperatorGraph result
    \<Rightarrow> CompiledExecutable result" where
  "compile_model device_sms target schedule strict workers config captured =
     (if schedule \<noteq> ''phase'' then Inl ValueError
      else if target \<notin> set [''cute_persistent'', ''triton_persistent'', ''reference''] then Inl ValueError
      else bindr captured (\<lambda>graph.
        let diags = check_graph graph in
        if filter (\<lambda>d. dg_severity d = ''error'') diags \<noteq> [] then Inl LegalityError
        else bindr (lower_graph graph) (\<lambda>families.
          if check_thread_contract families \<noteq> [] then Inl LegalityError
          else bindr (mapr fam_task_count families) (\<lambda>counts.
          if counts = [] then Inl ValueError
          else bindr (choose_worker_count device_sms workers None (list_max counts)) (\<lambda>chosen.
          bindr (from_families families chosen) (\<lambda>phase_schedule.
          bindr (plan_memory graph phase_schedule families) (\<lambda>(wp, sp).
          bindr (emit_megakernel_source phase_schedule wp THREADS_PER_WORKER (per_worker_bytes sp)) (\<lambda>source.
          bindr (total_tasks phase_schedule) (\<lambda>tasks.
            Inr (mk_executable device_sms graph config phase_schedule families wp sp
              \<lparr>rp_target = target, rp_schedule_kind = schedule, rp_num_phases = num_phases phase_schedule,
               rp_total_tasks = tasks, rp_workspace_bytes = total_bytes wp,
               rp_workspace_naive_bytes = naive_bytes wp,
               rp_scratch_bytes_per_worker = per_worker_bytes sp,
               rp_threads_per_worker = THREADS_PER_WORKER,
               rp_kv_cache_bytes = kv_cache_bytes (mc_layers config) (mc_batch config)
                 (mc_cache_capacity config) (kv_width config) 4,
               rp_diagnostics = diags, rp_strict_note = strict, rp_generated_source = source\<rparr>
              chosen))))))))))"

section \<open>Running an executable\<close>

definition allocate_workspace :: "CompiledExecutable \<Rightarrow> 'v cell list" where
  "allocate_workspace ce = replicate (nat (wp_total_elements (ce_workspace_plan ce))) None"

text \<open>\<open>arrays\<close> are the weights, the ids and the caches by registered name.\<close>

definition external_storage_arrays ::
  "OperatorGraph \<Rightarrow> (string, 'v cell list) dict \<Rightarrow> (int, 'v cell list) dict result" where
  "external_storage_arrays g arrays =
     foldr_res (\<lambda>d (sid, name).
        if sid \<in> g_fresh_storages g then Inr d
        else case map_of arrays name of
               None \<Rightarrow> Inl DeviceUnavailable
             | Some arr \<Rightarrow> Inr (dict_set sid arr d)) [] (g_storage_names g)"

text \<open>Externals by id, then one workspace slice per planned buffer.\<close>

definition bind_storages :: "(int, 'v cell list) dict \<Rightarrow> BufferPlan list \<Rightarrow> (int, arr_ref) dict" where
  "bind_storages ext bufs =
     foldl (\<lambda>d b. dict_set (buf_storage_id b) (WsSlice (buf_offset b) (buf_offset b + buf_numel b)) d)
       (map (\<lambda>(sid, _). (sid, ExtArr sid)) ext) bufs"

definition final_output :: "Executor \<Rightarrow> tensor_array result" where
  "final_output ex =
     bindr (py_nth (g_ops (ex_graph ex)) (- 1)) (\<lambda>op.
     bindr (py_nth (op_outputs op) 0) (\<lambda>name.
     bindr (materialize_tensors ex) (\<lambda>tensors. dict_get tensors name)))"

text \<open>
  \<^verbatim>\<open>CompiledExecutable.run\<close> in reference mode: the view of the logits, the trace, the memory and the
  cache's new valid length.  The bodies are methods of the executor: they see its tensor views.
\<close>

definition run_reference ::
  "CompiledExecutable \<Rightarrow> ((string, tensor_array) dict \<Rightarrow> string \<Rightarrow> 'v body) \<Rightarrow> int list \<Rightarrow> (string, 'v cell list) dict \<Rightarrow> int
    \<Rightarrow> 'v cell list option \<Rightarrow> int option \<Rightarrow> bool
    \<Rightarrow> (tensor_array \<times> ExecutionTrace \<times> 'v Mem \<times> int) result" where
  "run_reference ce methods ids_shape arrays position workspace workers canary =
     bindr (dict_get (g_scalars (ce_graph ce)) ''p'') (\<lambda>p.
     bindr (guard p position) (\<lambda>_.
     if ids_shape \<noteq> [mc_batch (ce_config ce)] then Inl ValueError
     else let P = (case workers of None \<Rightarrow> ce_workers ce | Some w \<Rightarrow> w) in
     bindr (if P = ps_workers (ce_schedule ce) then Inr (ce_schedule ce)
            else from_families (concat (map ph_families (ps_phases (ce_schedule ce)))) P) (\<lambda>schedule.
     bindr (case workspace of
              None \<Rightarrow> Inr (allocate_workspace ce)
            | Some ws \<Rightarrow> if int (length ws) \<noteq> wp_total_elements (ce_workspace_plan ce)
                         then Inl ValueError else Inr ws) (\<lambda>ws.
     bindr (external_storage_arrays (ce_graph ce) arrays) (\<lambda>ext.
     bindr (new_executor schedule P (bind_storages ext (wp_buffers (ce_workspace_plan ce)))
              (ce_graph ce) (Some (ce_workspace_plan ce)) canary \<lparr>mem_ws = ws, mem_ext = ext\<rparr>) (\<lambda>(ex, m).
     bindr (materialize_tensors ex) (\<lambda>tensors.
     bindr (executor_run ex (methods tensors) [(''p'', position)] empty_trace m) (\<lambda>(trace, m).
     if tr_kernel_launches trace \<noteq> 1 then Inl DeviceUnavailable
     else bindr (final_output ex) (\<lambda>logits. Inr (logits, trace, m, position + 1))))))))))"

text \<open>
  The device branch: \<open>runner\<close> is the prepared runner's worker and barrier count, \<open>owned\<close> says the
  caller passed that runner as the cache.
\<close>

definition run_device ::
  "(int \<times> int) option \<Rightarrow> bool \<Rightarrow> bool \<Rightarrow> int option \<Rightarrow> ExecutionTrace result" where
  "run_device runner owned has_workspace workers =
     (case runner of
        None \<Rightarrow> Inl DeviceUnavailable
      | Some (rw, barriers) \<Rightarrow>
          if \<not> owned \<or> has_workspace \<or> \<not> (workers = None \<or> workers = Some rw) then Inl ValueError
          else Inr (empty_trace\<lparr>tr_kernel_launches := 1, tr_grid_barriers := barriers\<rparr>))"

section \<open>What compilation produces\<close>

text \<open>The phase of each operator when every operator has one family.\<close>

lemma phase_of_op_fold:
  "map_of (foldl (\<lambda>d phase. foldl (\<lambda>d fam. dict_set (fam_opid fam) (ph_index phase) d) d (ph_families phase)) d
      (map (\<lambda>(i, f). \<lparr>ph_index = int i, ph_families = [f]\<rparr>) ifs))
    = map_of d ++ map_of (rev (map (\<lambda>(i, f). (fam_opid f, int i)) ifs))"
  by (induction ifs arbitrary: d) (auto simp: map_add_assoc [symmetric])

lemma map_of_enumerated:
  assumes "map f xs = urange (int (length xs))"
  shows "map_of (rev (map (\<lambda>(i, x). (f x, int i)) (zip [0..<length xs] xs))) k =
    (if 0 \<le> k \<and> k < int (length xs) then Some k else None)"
proof -
  let ?l = "rev (map (\<lambda>(i, x). (f x, int i)) (zip [0..<length xs] xs))"
  have "map (\<lambda>(i, x). (f x, int i)) (zip [0..<length xs] xs) = map (\<lambda>i. (int i, int i)) [0..<length xs]"
  proof (rule nth_equalityI)
    fix i assume "i < length (map (\<lambda>(i, x). (f x, int i)) (zip [0..<length xs] xs))"
    moreover from this have "map f xs ! i = int i" using assms by simp
    ultimately show "map (\<lambda>(i, x). (f x, int i)) (zip [0..<length xs] xs) ! i
        = map (\<lambda>i. (int i, int i)) [0..<length xs] ! i" by simp
  qed simp
  then have l: "?l = rev (map (\<lambda>i. (int i, int i)) [0..<length xs])" by simp
  have d: "distinct (map fst ?l)" unfolding l
    by (simp add: rev_map [symmetric] comp_def distinct_map inj_on_def)
  have "map_of ?l k = Some v \<longleftrightarrow> v = k \<and> 0 \<le> k \<and> k < int (length xs)" for v
    unfolding map_of_eq_Some_iff [OF d] unfolding l
    by (auto simp: image_iff) (metis nat_0_le nat_less_iff atLeast0LessThan lessThan_iff)
  then show ?thesis by (metis (full_types) not_None_eq)
qed

lemma phase_of_op_value:
  assumes "map fam_opid fams = urange (int (length fams))"
  shows "map_of (phase_of_op \<lparr>ps_phases = phase_list fams, ps_workers = P\<rparr>) k =
    (if 0 \<le> k \<and> k < int (length fams) then Some k else None)"
proof -
  have "distinct (map fam_opid fams)" using assms by simp
  then show ?thesis
    unfolding phase_of_op_def
    using map_of_enumerated [OF assms, of k]
    by (simp add: phase_list_distinct phase_of_op_fold del: rev_map)
qed

lemma phase_list_nth:
  assumes "map fam_opid fams = urange (int (length fams))" "i < length fams"
  shows "phase_list fams ! i = \<lparr>ph_index = int i, ph_families = [fams ! i]\<rparr>"
  using assms by (simp add: phase_list_distinct)

lemma length_phase_list:
  "map fam_opid fams = urange (int (length fams)) \<Longrightarrow> length (phase_list fams) = length fams"
  by (simp add: phase_list_distinct)

lemma lowered_ids:
  assumes "graph_wf g" "lower_graph g = Inr fams"
  shows "map fam_op fams = g_ops g" "map fam_opid fams = urange (int (length fams))"
proof -
  show o: "map fam_op fams = g_ops g" using lower_graph_stamps [OF assms] by blast
  have u: "map opid (g_ops g) = urange (g_next_opid g)" "0 \<le> g_next_opid g" using assms(1) by (auto simp: graph_wf_def)
  have "length fams = length (g_ops g)" using o by (metis length_map)
  also have "\<dots> = nat (g_next_opid g)" using arg_cong [OF u(1), of length] by simp
  finally have "int (length fams) = g_next_opid g" using u(2) by simp
  then show "map fam_opid fams = urange (int (length fams))"
    using u(1) by (simp flip: o add: comp_def)
qed

lemma phase_list_singletons:
  assumes "map fam_opid fams = urange (int (length fams))" "p \<in> set (phase_list fams)"
  obtains i where "i < length fams" "p = \<lparr>ph_index = int i, ph_families = [fams ! i]\<rparr>"
  using assms phase_list_nth length_phase_list by (metis in_set_conv_nth)

lemma phase_list_counts:
  assumes "map fam_opid fams = urange (int (length fams))"
  shows "map phase_ntasks (phase_list fams) = map fam_ntasks fams"
  by (rule nth_equalityI) (use assms in \<open>simp_all add: length_phase_list phase_list_nth phase_ntasks_def\<close>)

lemma total_tasks_value:
  assumes "map fam_opid fams = urange (int (length fams))" "\<forall>f \<in> set fams. wf_family f"
  shows "total_tasks \<lparr>ps_phases = phase_list fams, ps_workers = P\<rparr> = Inr (sum_list (map fam_ntasks fams))"
proof -
  have "mapr phase_task_count (phase_list fams) = Inr (map phase_ntasks (phase_list fams))"
    by (rule mapr_ok_pure) (use phase_list_wf [OF assms(2)] in auto)
  then show ?thesis by (simp add: total_tasks_def phase_list_counts [OF assms(1)])
qed

text \<open>The executable a compilation of \<open>g\<close> with families \<open>fams\<close> and \<open>P\<close> workers returns.\<close>

definition compiled_as ::
  "CompiledExecutable \<Rightarrow> OperatorGraph \<Rightarrow> ModelConfig \<Rightarrow> TaskFamily list \<Rightarrow> int \<Rightarrow> bool" where
  "compiled_as ce g cfg fams P \<longleftrightarrow>
     lower_graph g = Inr fams \<and> fams \<noteq> [] \<and> 1 \<le> P
     \<and> (\<forall>e \<in> set (g_tensors g). tensor_legal g (snd e))
     \<and> ce_graph ce = g \<and> ce_config ce = cfg \<and> ce_families ce = fams \<and> ce_workers ce = P
     \<and> ce_schedule ce = \<lparr>ps_phases = phase_list fams, ps_workers = P\<rparr>
     \<and> plan_memory g (ce_schedule ce) fams = Inr (ce_workspace_plan ce, ce_scratch_plan ce)
     \<and> rp_num_phases (ce_report ce) = int (length fams)
     \<and> rp_total_tasks (ce_report ce) = sum_list (map fam_ntasks fams)"

lemma error_free_legal:
  "filter (\<lambda>d. dg_severity d = ''error'') (check_graph g) = [] \<longleftrightarrow>
     (\<forall>op \<in> set (g_ops g). op_legal g op) \<and> (\<forall>e \<in> set (g_tensors g). tensor_legal g (snd e))"
  using enforce_value [of g] by (auto simp: enforce_def split: if_splits)

lemma choose_worker_count_bounds:
  "choose_worker_count sms workers num w = Inr P \<Longrightarrow> 1 \<le> P"
  by (auto simp: choose_worker_count_def Let_def split: if_splits option.splits)

lemma compile_model_facts:
  assumes "compile_model sms target sched strict workers cfg (Inr g) = Inr ce" "graph_wf g"
  shows "\<exists>fams P. compiled_as ce g cfg fams P"
proof -
  have t: "sched = ''phase''" "target \<in> set [''cute_persistent'', ''triton_persistent'', ''reference'']"
    "filter (\<lambda>d. dg_severity d = ''error'') (check_graph g) = []"
    using assms(1) by (auto simp: compile_model_def Let_def split: if_splits)
  note c = assms(1) [unfolded compile_model_def Let_def bindr.simps(2), simplified t(1)]
  obtain fams counts P where f: "lower_graph g = Inr fams" "mapr fam_task_count fams = Inr counts" "counts \<noteq> []"
      "check_thread_contract fams = []" "choose_worker_count sms workers None (list_max counts) = Inr P"
    using c t by (auto simp: result_simps split: if_splits)
  obtain s wp sp src tasks where r: "from_families fams P = Inr s" "plan_memory g s fams = Inr (wp, sp)"
      "emit_megakernel_source s wp THREADS_PER_WORKER (per_worker_bytes sp) = Inr src" "total_tasks s = Inr tasks"
      "ce_graph ce = g" "ce_config ce = cfg" "ce_families ce = fams" "ce_workers ce = P" "ce_schedule ce = s"
      "ce_workspace_plan ce = wp" "ce_scratch_plan ce = sp" "rp_num_phases (ce_report ce) = num_phases s"
      "rp_total_tasks (ce_report ce) = tasks"
    using c t f by (auto simp: result_simps mk_executable_def)
  have legal: "\<forall>e \<in> set (g_tensors g). tensor_legal g (snd e)" using t(3) by (simp add: error_free_legal)
  have wf: "\<forall>x \<in> set fams. wf_family x" using lower_graph_wf [OF legal_positive [OF legal] f(1)] by blast
  have ids: "map fam_opid fams = urange (int (length fams))" by (rule lowered_ids(2) [OF assms(2) f(1)])
  have s: "s = \<lparr>ps_phases = phase_list fams, ps_workers = P\<rparr>" "1 \<le> P"
    using r(1) choose_worker_count_bounds [OF f(5)] by (auto simp: from_families_value [OF wf])
  have "fams \<noteq> []" using f(2,3) by auto
  then have "compiled_as ce g cfg fams P" unfolding compiled_as_def
    using f(1) legal r s total_tasks_value [OF ids wf] length_phase_list [OF ids]
    by (simp add: num_phases_def)
  then show ?thesis by blast
qed

lemma template_known:
  "k \<in> set (map (oc_task_kind \<circ> snd) CONTRACTS) \<Longrightarrow> k \<in> dom (map_of TEMPLATE_NAMES)"
proof -
  have "dom (map_of (foldl (\<lambda>d (_, spec). dict_set (oc_task_kind spec) (oc_device_template spec) d) d cs)) =
      set (map (oc_task_kind \<circ> snd) cs) \<union> dom (map_of d)" for d and cs :: "(string \<times> OperatorContract) list"
  proof (induction cs arbitrary: d)
    case (Cons c cs)
    have "dom (map_of (dict_set k v d)) = insert k (dom (map_of d))" for k and v :: string by auto
    then show ?case by (cases c) (simp del: map_of_dict_set add: Cons.IH)
  qed simp
  then show "k \<in> set (map (oc_task_kind \<circ> snd) CONTRACTS) \<Longrightarrow> ?thesis"
    unfolding TEMPLATE_NAMES_def by blast
qed

lemma table_dom: "dom (map_of lowering_table) = dom (map_of CONTRACTS)"
  by (metis dom_map_of_conv_image_fst list.set_map table_keys)

lemma lowered_kind_known:
  assumes "lower_graph g = Inr fams" "i < length (g_ops g)"
  shows "fam_kind (fams ! i) \<in> set (map (oc_task_kind \<circ> snd) CONTRACTS)"
proof -
  let ?k = "op_kind (g_ops g ! i)"
  have l: "lower_op (g_ops g ! i) g = Inr (fams ! i)" "fam_kind (fams ! i) = task_kind_of ?k"
    using lower_graph_nth [OF assms] by (auto simp: stamped_def)
  from lower_op_Inr [OF l(1)] have "?k \<in> dom (map_of CONTRACTS)" unfolding table_dom [symmetric] by blast
  then obtain spec where spec: "map_of CONTRACTS ?k = Some spec" by blast
  then have "spec \<in> snd ` set CONTRACTS" by (metis map_of_SomeD image_eqI snd_conv)
  then have "oc_task_kind spec \<in> set (map (oc_task_kind \<circ> snd) CONTRACTS)"
    unfolding set_map image_comp [symmetric] by blast
  then show ?thesis using l(2) spec by (simp only: task_kind_of_def option.case)
qed

definition source_row :: "TaskFamily \<Rightarrow> string \<times> string \<times> int \<times> attrs" where
  "source_row f = (fam_kind f, the (map_of TEMPLATE_NAMES (fam_kind f)), fam_ntasks f, fam_params f)"

lemma phase_rows_value:
  assumes "map fam_opid fams = urange (int (length fams))" "\<forall>f \<in> set fams. wf_family f"
    and "\<forall>f \<in> set fams. fam_kind f \<in> dom (map_of TEMPLATE_NAMES)"
  shows "mapr phase_row (phase_list fams) = Inr (map source_row fams)"
proof -
  have "mapr phase_row (phase_list fams) = Inr (map (\<lambda>p. source_row (hd (ph_families p))) (phase_list fams))"
  proof (rule mapr_ok_pure)
    fix p assume "p \<in> set (phase_list fams)"
    then obtain i where i: "i < length fams" "p = \<lparr>ph_index = int i, ph_families = [fams ! i]\<rparr>"
      using phase_list_singletons [OF assms(1)] by blast
    then have f: "fams ! i \<in> set fams" by simp
    with assms(3) obtain t where t: "map_of TEMPLATE_NAMES (fam_kind (fams ! i)) = Some t" by blast
    with f assms(2) show "phase_row p = Inr (source_row (hd (ph_families p)))"
      by (simp add: i phase_row_def py_nth_def dict_get_def source_row_def)
  qed
  also have "map (\<lambda>p. source_row (hd (ph_families p))) (phase_list fams) = map source_row fams"
    by (rule nth_equalityI) (simp_all add: length_phase_list [OF assms(1)] phase_list_nth [OF assms(1)])
  finally show ?thesis .
qed

lemma choose_worker_count_ok:
  assumes "workers = None \<or> (\<exists>r \<ge> 1. workers = Some r)"
  shows "\<exists>P. choose_worker_count sms workers None w = Inr P \<and> 1 \<le> P \<and> P \<le> max 1 (query_device_sms sms)"
  using assms by (auto simp: choose_worker_count_def Let_def min_def max_def split: if_splits)

lemma compile_model_ok:
  assumes "graph_wf g" "lower_graph g = Inr fams" "g_ops g \<noteq> []"
    and "target \<in> {''cute_persistent'', ''triton_persistent'', ''reference''}"
    and "\<forall>op \<in> set (g_ops g). op_legal g op" "\<forall>e \<in> set (g_tensors g). tensor_legal g (snd e)"
    and "workers = None \<or> (\<exists>r \<ge> 1. workers = Some r)"
  shows "\<exists>ce P. compile_model sms target ''phase'' strict workers cfg (Inr g) = Inr ce
    \<and> compiled_as ce g cfg fams P \<and> P \<le> max 1 (query_device_sms sms)
    \<and> ms_phases (rp_generated_source (ce_report ce)) = map source_row fams"
proof -
  note ids = lowered_ids [OF assms(1,2)]
  have n: "length (g_ops g) = length fams" using arg_cong [OF ids(1), of length] by simp
  have ne: "fams \<noteq> []" using n assms(3) by auto
  have wf: "\<forall>x \<in> set fams. wf_family x" using lower_graph_wf [OF legal_positive [OF assms(6)] assms(2)] by blast
  have known: "\<forall>f \<in> set fams. fam_kind f \<in> dom (map_of TEMPLATE_NAMES)"
    using lowered_kind_known [OF assms(2)] template_known n by (metis in_set_conv_nth)
  have counts: "mapr fam_task_count fams = Inr (map fam_ntasks fams)" by (rule mapr_ok_pure) (use wf in auto)
  obtain P where P: "choose_worker_count sms workers None (list_max (map fam_ntasks fams)) = Inr P" "1 \<le> P"
      "P \<le> max 1 (query_device_sms sms)"
    using choose_worker_count_ok [OF assms(7)] by blast
  define s where "s = \<lparr>ps_phases = phase_list fams, ps_workers = P\<rparr>"
  have s: "from_families fams P = Inr s" using P(2) by (simp add: from_families_value [OF wf] s_def)
  have "\<forall>op \<in> set (g_ops g). opid op \<in> dom (map_of (phase_of_op s))"
  proof
    fix op assume "op \<in> set (g_ops g)"
    then have "opid op \<in> set (map fam_opid fams)" unfolding ids(1) [symmetric] by force
    then show "opid op \<in> dom (map_of (phase_of_op s))"
      unfolding ids(2) s_def by (simp add: phase_of_op_value [OF ids(2)] domIff)
  qed
  then obtain wp sp where pl: "plan_memory g s fams = Inr (wp, sp)"
    using plan_memory_value [of g s fams] by (simp add: Let_def)
  have tt: "total_tasks s = Inr (sum_list (map fam_ntasks fams))"
    unfolding s_def by (rule total_tasks_value [OF ids(2) wf])
  have src: "emit_megakernel_source s wp th sc = Inr \<lparr>ms_num_phases = num_phases s, ms_threads_per_worker = th,
            ms_scratch_bytes = sc, ms_workspace_elements = wp_total_elements wp, ms_phases = map source_row fams,
            ms_buffers = map (\<lambda>b. (buf_name b, buf_offset b, buf_numel b, buf_first_phase b,
                                   buf_last_phase b, buf_live_at_end b)) (wp_buffers wp)\<rparr>" for th sc
    using phase_rows_value [OF ids(2) wf known] tt by (simp add: emit_megakernel_source_def s_def)
  have thr: "check_thread_contract fams = []" using lower_graph_stamps [OF assms(1,2)] assms(3) by blast
  obtain ce where ce: "compile_model sms target ''phase'' strict workers cfg (Inr g) = Inr ce"
      "ms_phases (rp_generated_source (ce_report ce)) = map source_row fams" "ce_workers ce = P"
    using assms(4) assms(2) thr counts ne P(1) s pl tt
    by (simp add: compile_model_def Let_def error_free_legal assms(5,6) src mk_executable_def)
  obtain fams' P' where "compiled_as ce g cfg fams' P'" using compile_model_facts [OF ce(1) assms(1)] by blast
  moreover from this have "fams' = fams" "P' = P" using assms(2) ce(3) by (auto simp: compiled_as_def)
  ultimately show ?thesis using ce P(3) by blast
qed

section \<open>Binding storages\<close>

definition buffer_slice :: "BufferPlan \<Rightarrow> int \<times> arr_ref" where
  "buffer_slice b = (buf_storage_id b, WsSlice (buf_offset b) (buf_offset b + buf_numel b))"

lemma bind_storages_map:
  "map_of (bind_storages ext bs) =
     map_of (map (\<lambda>(sid, _). (sid, ExtArr sid)) ext) ++ map_of (rev (map buffer_slice bs))"
proof -
  have "map_of (foldl (\<lambda>d b. dict_set (buf_storage_id b) (WsSlice (buf_offset b) (buf_offset b + buf_numel b)) d) d bs)
      = map_of d ++ map_of (rev (map buffer_slice bs))" for d
    by (induction bs arbitrary: d) (simp_all add: buffer_slice_def map_add_assoc [symmetric])
  then show ?thesis by (simp add: bind_storages_def)
qed

lemma bind_storages_buffer:
  assumes "distinct (map buf_storage_id bs)" "b \<in> set bs"
  shows "map_of (bind_storages ext bs) (buf_storage_id b) = Some (WsSlice (buf_offset b) (buf_offset b + buf_numel b))"
proof -
  have "map_of (rev (map buffer_slice bs)) (buf_storage_id b)
      = Some (WsSlice (buf_offset b) (buf_offset b + buf_numel b))"
    by (rule map_of_is_SomeI) (use assms in \<open>auto simp: rev_map [symmetric] comp_def buffer_slice_def\<close>)
  then show ?thesis by (simp add: bind_storages_map)
qed

lemma bind_storages_dom:
  "dom (map_of (bind_storages ext bs)) = dom (map_of ext) \<union> set (map buf_storage_id bs)"
  by (simp add: bind_storages_map dom_map_of_conv_image_fst image_image buffer_slice_def case_prod_beta' Un_commute)

lemma external_storage_ok:
  assumes "\<forall>(sid, name) \<in> set names. sid \<in> F \<or> name \<in> dom (map_of arrays)"
  shows "\<exists>ext. foldr_res (\<lambda>d (sid, name). if sid \<in> F then Inr d
        else case map_of arrays name of None \<Rightarrow> Inl DeviceUnavailable | Some arr \<Rightarrow> Inr (dict_set sid arr d)) d names = Inr ext
    \<and> dom (map_of ext) = dom (map_of d) \<union> (fst ` set names - F)"
  using assms
proof (induction names arbitrary: d)
  case Nil
  then show ?case by simp
next
  case (Cons e names)
  obtain sid name where e: "e = (sid, name)" by fastforce
  show ?case
  proof (cases "sid \<in> F")
    case True
    then show ?thesis using Cons.IH [of d] Cons.prems by (auto simp: e)
  next
    case False
    then obtain arr where "map_of arrays name = Some arr" using Cons.prems by (auto simp: e)
    moreover have "dom (map_of (dict_set sid arr d)) = insert sid (dom (map_of d))" by auto
    ultimately show ?thesis using Cons.IH [of "dict_set sid arr d"] Cons.prems False
      by (simp del: map_of_dict_set add: e insert_Diff_if)
  qed
qed

text \<open>The views a run binds: a planned storage is its slice of the workspace, another an external array.\<close>

definition executable_tensors :: "OperatorGraph \<Rightarrow> WorkspacePlan \<Rightarrow> (string, tensor_array) dict" where
  "executable_tensors g wp =
     map (\<lambda>(name, tv).
       (name, (case map_of (map buffer_slice (wp_buffers wp)) (tv_storage_id tv) of
                 Some a \<Rightarrow> a | None \<Rightarrow> ExtArr (tv_storage_id tv)),
        tv_offset tv, tv_shape tv, tv_strides tv)) (g_tensors g)"

lemma map_of_externals: "map_of (map (\<lambda>(sid, _). (sid, ExtArr sid)) ext) k = (if k \<in> dom (map_of ext) then Some (ExtArr k) else None)"
  by (induction ext) (auto split: if_splits)

lemma bind_storages_value:
  assumes "distinct (map buf_storage_id bs)" "k \<in> dom (map_of (bind_storages ext bs))"
  shows "map_of (bind_storages ext bs) k = Some (case map_of (map buffer_slice bs) k of Some a \<Rightarrow> a | None \<Rightarrow> ExtArr k)"
proof -
  have "distinct (map fst (map buffer_slice bs))" using assms(1) by (simp add: buffer_slice_def comp_def)
  then have "map_of (rev (map buffer_slice bs)) = map_of (map buffer_slice bs)"
    by (subst map_of_inject_set) (simp_all add: rev_map [symmetric])
  with assms(2) show ?thesis
    by (auto simp: bind_storages_map map_of_externals map_add_def split: option.splits if_splits)
qed

lemma materialize_ok:
  assumes "\<forall>e \<in> set (g_tensors (ex_graph ex)). tv_storage_id (snd e) \<in> dom (map_of (ex_storage ex))"
    and "ex_storage ex = bind_storages ext (wp_buffers wp)" "distinct (map buf_storage_id (wp_buffers wp))"
  shows "materialize_tensors ex = Inr (executable_tensors (ex_graph ex) wp)"
  unfolding materialize_tensors_def executable_tensors_def
proof (rule mapr_ok_pure, clarify)
  fix name tv assume "(name, tv) \<in> set (g_tensors (ex_graph ex))"
  with assms(1) have "tv_storage_id tv \<in> dom (map_of (bind_storages ext (wp_buffers wp)))" unfolding assms(2) by force
  from bind_storages_value [OF assms(3) this]
  show "(case map_of (ex_storage ex) (tv_storage_id tv) of None \<Rightarrow> Inl ExecutorError
      | Some base \<Rightarrow> Inr (name, base, tv_offset tv, tv_shape tv, tv_strides tv)) =
    Inr (name, (case map_of (map buffer_slice (wp_buffers wp)) (tv_storage_id tv) of
        Some a \<Rightarrow> a | None \<Rightarrow> ExtArr (tv_storage_id tv)), tv_offset tv, tv_shape tv, tv_strides tv)"
    by (simp add: assms(2))
qed

lemma workspace_total_nonneg: "0 \<le> workspace_total bs"
  using workspace_total_fold [of bs 0] by (auto simp: workspace_total_def)

section \<open>Running what was compiled\<close>

text \<open>
  What is assumed of the bodies of an executable: on coordinates of its grid the body of a family that
  returns writes workspace cells only of buffers its operator records an effect on.
\<close>

definition bodies_confined ::
  "(string \<Rightarrow> 'v body) \<Rightarrow> (string, int) dict \<Rightarrow> CompiledExecutable \<Rightarrow> bool" where
  "bodies_confined methods scalars ce \<longleftrightarrow>
     (\<forall>f \<in> set (ce_families ce). \<forall>cs m m'. idx_in (grid (fam_domain f)) cs \<longrightarrow>
        methods (''_body_'' @ fam_kind f) f cs scalars m = Inr m' \<longrightarrow>
        confined_write (\<lambda>b. touches (fam_op f) (buf_storage_id b)) (ce_workspace_plan ce) m m')"

text \<open>Every external storage has a runtime array, and storages are named when they are sized.\<close>

definition externals_bound :: "OperatorGraph \<Rightarrow> (string, 'v cell list) dict \<Rightarrow> bool" where
  "externals_bound g arrays \<longleftrightarrow>
     (\<forall>(sid, name) \<in> set (g_storage_names g). sid \<in> g_fresh_storages g \<or> name \<in> dom (map_of arrays))
     \<and> dom (map_of (g_storage_sizes g)) \<subseteq> dom (map_of (g_storage_names g))"

lemma confined_write_mono:
  "confined_write Q wp m m' \<Longrightarrow> (\<And>b. b \<in> set (wp_buffers wp) \<Longrightarrow> Q b \<Longrightarrow> R b) \<Longrightarrow> confined_write R wp m m'"
  unfolding confined_write_def by blast

lemma ops_have_phases:
  assumes "compiled_as ce g cfg fams P" "graph_wf g"
  shows "\<forall>op \<in> set (g_ops g). opid op \<in> dom (map_of (phase_of_op (ce_schedule ce)))"
    and "i < length fams \<Longrightarrow> map_of (phase_of_op (ce_schedule ce)) (fam_opid (fams ! i)) = Some (int i)"
    and "ran (map_of (phase_of_op (ce_schedule ce))) \<subseteq> {0..<int (length fams)}"
proof -
  have l: "lower_graph g = Inr fams" and s: "ce_schedule ce = \<lparr>ps_phases = phase_list fams, ps_workers = P\<rparr>"
    using assms(1) by (simp_all add: compiled_as_def)
  note ids = lowered_ids(2) [OF assms(2) l]
  show i: "map_of (phase_of_op (ce_schedule ce)) (fam_opid (fams ! i)) = Some (int i)" if "i < length fams" for i
  proof -
    have "fam_opid (fams ! i) = int i" using arg_cong [OF ids, of "\<lambda>xs. xs ! i"] that by simp
    then show ?thesis using that by (simp add: s phase_of_op_value [OF ids])
  qed
  show "\<forall>op \<in> set (g_ops g). opid op \<in> dom (map_of (phase_of_op (ce_schedule ce)))"
    using i unfolding lowered_ids(1) [OF assms(2) l, symmetric] by (auto simp: in_set_conv_nth)
  show "ran (map_of (phase_of_op (ce_schedule ce))) \<subseteq> {0..<int (length fams)}"
    by (auto simp: s phase_of_op_value [OF ids] ran_def split: if_splits)
qed

lemma planned_workspace:
  assumes "compiled_as ce g cfg fams P" "graph_wf g"
    and "workspace = None \<or> (\<exists>ws. workspace = Some ws \<and> int (length ws) = wp_total_elements (ce_workspace_plan ce))"
  shows "\<exists>ws. int (length ws) = wp_total_elements (ce_workspace_plan ce)
    \<and> (case workspace of None \<Rightarrow> Inr (allocate_workspace ce)
        | Some ws \<Rightarrow> if int (length ws) \<noteq> wp_total_elements (ce_workspace_plan ce) then Inl ValueError else Inr ws) = Inr ws"
proof (cases workspace)
  case None
  have "plan_memory g (ce_schedule ce) fams = Inr (ce_workspace_plan ce, ce_scratch_plan ce)"
    using assms(1) unfolding compiled_as_def by blast
  from plan_memory_buffers(2) [OF ops_have_phases(1) [OF assms(1,2)] this]
  have "0 \<le> wp_total_elements (ce_workspace_plan ce)" by (simp add: workspace_total_nonneg)
  with None show ?thesis by (intro exI [of _ "allocate_workspace ce"]) (simp add: allocate_workspace_def)
qed (use assms(3) in auto)

lemma compiled_phases:
  assumes "compiled_as ce g cfg fams P" "graph_wf g" "bodies_confined methods scalars ce"
    and "p \<in> set (phase_list fams)"
  shows "wf_phase p \<and> known_kinds p \<and> confined_bodies methods scalars (ce_workspace_plan ce) p"
proof -
  have c: "lower_graph g = Inr fams" "\<forall>e \<in> set (g_tensors g). tensor_legal g (snd e)" "ce_families ce = fams"
      and pl: "plan_memory g (ce_schedule ce) fams = Inr (ce_workspace_plan ce, ce_scratch_plan ce)"
    using assms(1) unfolding compiled_as_def by blast+
  note ids = lowered_ids(2) [OF assms(2) c(1)] and ops = lowered_ids(1) [OF assms(2) c(1)]
  obtain i where i: "i < length fams" "p = \<lparr>ph_index = int i, ph_families = [fams ! i]\<rparr>"
    by (rule phase_list_singletons [OF ids assms(4)])
  have f: "fams ! i \<in> set fams" using i(1) by simp
  have fo: "fam_op (fams ! i) \<in> set (g_ops g)" unfolding ops [symmetric] using f by simp
  have "wf_phase p" using lower_graph_wf [OF legal_positive [OF c(2)] c(1)] f by (simp add: i wf_phase_def)
  moreover have "known_kinds p"
  proof -
    have "i < length (g_ops g)" using i(1) arg_cong [OF ops, of length] by simp
    from lowered_kind_known [OF c(1) this] show ?thesis by (simp add: known_kinds_def i(2))
  qed
  moreover have "confined_bodies methods scalars (ce_workspace_plan ce) p"
  proof -
    have "live_in (int i) b" if "b \<in> set (wp_buffers (ce_workspace_plan ce))"
        "touches (fam_op (fams ! i)) (buf_storage_id b)" for b
      unfolding live_in_def
      by (rule plan_lifetimes [OF ops_have_phases(1) [OF assms(1,2)] pl that(1) fo that(2)
          ops_have_phases(2) [OF assms(1,2) i(1)]])
    then have mono: "confined_write (\<lambda>b. touches (fam_op (fams ! i)) (buf_storage_id b)) (ce_workspace_plan ce) m m'
        \<Longrightarrow> confined_write (live_in (int i)) (ce_workspace_plan ce) m m'" for m m' :: "'a Mem"
      using confined_write_mono by blast
    have "confined_write (live_in (int i)) (ce_workspace_plan ce) m m'"
      if "idx_in (grid (fam_domain (fams ! i))) cs" "methods (''_body_'' @ fam_kind (fams ! i)) (fams ! i) cs scalars m = Inr m'" for cs m m'
      using assms(3) f that mono unfolding bodies_confined_def c(3) by blast
    then show ?thesis unfolding confined_bodies_def i(2) by simp
  qed
  ultimately show ?thesis by blast
qed

text \<open>The executor a reference run builds, and its memory.\<close>

lemma map_phase_families:
  assumes "map fam_opid fams = urange (int (length fams))"
  shows "map ph_families (phase_list fams) = map (\<lambda>f. [f]) fams"
  by (rule nth_equalityI) (use assms in \<open>simp_all add: length_phase_list phase_list_nth\<close>)

lemma concat_phase_list:
  assumes "map fam_opid fams = urange (int (length fams))"
  shows "concat (map ph_families (phase_list fams)) = fams"
  by (simp add: map_phase_families [OF assms])

lemma compiled_executor:
  assumes "compiled_as ce g cfg fams P" "graph_wf g" "externals_bound g arrays"
    and "int (length ws) = wp_total_elements (ce_workspace_plan ce)"
  shows "\<exists>ext ex m. external_storage_arrays g arrays = Inr ext
    \<and> new_executor s Q (bind_storages ext (wp_buffers (ce_workspace_plan ce))) g
        (Some (ce_workspace_plan ce)) True \<lparr>mem_ws = ws, mem_ext = ext\<rparr> = Inr (ex, m)
    \<and> ex_schedule ex = s \<and> ex_workers ex = Q \<and> ex_graph ex = g \<and> ex_canary ex
    \<and> wired ex (ce_workspace_plan ce) \<and> clean (\<lambda>_. False) (ce_workspace_plan ce) m
    \<and> length (mem_ws m) = length ws
    \<and> materialize_tensors ex = Inr (executable_tensors g (ce_workspace_plan ce))"
proof -
  let ?wp = "ce_workspace_plan ce"
  have pl: "plan_memory g (ce_schedule ce) fams = Inr (?wp, ce_scratch_plan ce)"
    and legal: "\<forall>e \<in> set (g_tensors g). tensor_legal g (snd e)"
    using assms(1) unfolding compiled_as_def by blast+
  note ph = ops_have_phases(1) [OF assms(1,2)]
  note ids = plan_storage_ids [OF ph pl]
  obtain ext where ext: "external_storage_arrays g arrays = Inr ext"
      "dom (map_of ext) = fst ` set (g_storage_names g) - g_fresh_storages g"
    using external_storage_ok [of "g_storage_names g" "g_fresh_storages g" arrays "[]"] assms(3)
    by (auto simp: externals_bound_def external_storage_arrays_def)
  let ?st = "bind_storages ext (wp_buffers ?wp)"
  let ?ex = "\<lparr>ex_schedule = s, ex_workers = Q, ex_graph = g, ex_plan = Some ?wp, ex_canary = True, ex_storage = ?st\<rparr>"
  have slice: "map_of ?st (buf_storage_id b) = Some (WsSlice (buf_offset b) (buf_offset b + buf_numel b))"
    if "b \<in> set (wp_buffers ?wp)" for b by (rule bind_storages_buffer [OF ids(1) that])
  obtain m where m: "arm_canaries ?st (wp_buffers ?wp) \<lparr>mem_ws = ws, mem_ext = ext\<rparr> = Inr m"
      "length (mem_ws m) = length ws"
      "\<forall>i < length ws. mem_ws m ! i = (if \<exists>b \<in> set (wp_buffers ?wp). in_buf b i then None else ws ! i)"
    using arm_canaries_clean [of "wp_buffers ?wp" ?st "\<lparr>mem_ws = ws, mem_ext = ext\<rparr>"] slice by auto
  have "tv_storage_id (snd e) \<in> dom (map_of ?st)" if e: "e \<in> set (g_tensors g)" for e
  proof (cases "tv_storage_id (snd e) \<in> g_fresh_storages g")
    case True
    then have "tv_storage_id (snd e) \<in> set (map buf_storage_id (wp_buffers ?wp))" unfolding ids(2) using e by blast
    then show ?thesis by (simp only: bind_storages_dom Un_iff) simp
  next
    case False
    have "tv_storage_id (snd e) \<in> dom (map_of (g_storage_names g))"
      using legal e assms(3) unfolding tensor_legal_def externals_bound_def by blast
    with False show ?thesis unfolding bind_storages_dom ext(2) by (simp add: dom_map_of_conv_image_fst)
  qed
  then have ts: "materialize_tensors ?ex = Inr (executable_tensors g ?wp)"
    using materialize_ok [of ?ex ext ?wp] ids(1) by simp
  have "wired ?ex ?wp" using slice plan_offsets [OF ph pl] by (simp add: wired_def)
  moreover have "clean (\<lambda>_. False) ?wp m" using m by (auto simp: clean_def)
  ultimately show ?thesis using ext(1) m(1,2) ts
    by (intro exI [of _ ext] exI [of _ ?ex] exI [of _ m]) (simp add: new_executor_def)
qed

lemma compiled_executor_run:
  assumes "compiled_as ce g cfg fams P" "graph_wf g"
    and "ex_schedule ex = \<lparr>ps_phases = phase_list fams, ps_workers = Q\<rparr>" "ex_workers ex = Q" "ex_graph ex = g" "ex_canary ex"
      "wired ex (ce_workspace_plan ce)" "clean (\<lambda>_. False) (ce_workspace_plan ce) m0" "1 \<le> Q"
    and "bodies_confined methods scalars ce"
  shows "outcome (\<lambda>(trace, m). trace = \<lparr>tr_kernel_launches = 1, tr_grid_barriers = int (length fams),
            tr_phases = map (\<lambda>(i, p). phase_stat Q (int i) p) (enumerate 0 (phase_list fams)),
            tr_task_executions = sum_list (map fam_ntasks fams)\<rparr>
      \<and> clean buf_live_at_end (ce_workspace_plan ce) m)
      (body_raises methods scalars fams) (executor_run ex methods scalars empty_trace m0)"
proof -
  let ?wp = "ce_workspace_plan ce"
  have l: "lower_graph g = Inr fams" "fams \<noteq> []" and s: "ce_schedule ce = \<lparr>ps_phases = phase_list fams, ps_workers = P\<rparr>"
    and pl: "plan_memory g (ce_schedule ce) fams = Inr (?wp, ce_scratch_plan ce)"
    using assms(1) unfolding compiled_as_def by blast+
  note ids = lowered_ids(2) [OF assms(2) l(1)]
  have ph: "\<forall>p \<in> set (phase_list fams). wf_phase p \<and> known_kinds p \<and> confined_bodies methods scalars ?wp p"
    using compiled_phases [OF assms(1,2,10)] by blast
  have "num_phases (ce_schedule ce) = int (length fams)" by (simp add: s num_phases_def length_phase_list [OF ids])
  then have ends: "plan_ends ?wp (0 + int (length (phase_list fams)))"
    unfolding plan_ends_def length_phase_list [OF ids]
    using plan_lifetime_ends [OF ops_have_phases(1) [OF assms(1,2)] pl _ ops_have_phases(3) [OF assms(1,2)]] l(2)
    by auto
  have idx: "map ph_index (phase_list fams) = map (\<lambda>i. 0 + int i) [0..<length (phase_list fams)]"
    by (rule nth_equalityI) (simp_all add: length_phase_list [OF ids] phase_list_nth [OF ids])
  have m: "outcome (\<lambda>m. clean buf_live_at_end ?wp m \<and> length (mem_ws m) = length (mem_ws m0)) (body_raises methods scalars fams)
      (foldr_res (phase_effect ex methods scalars) m0 (phase_list fams))"
    using phases_clean [OF ph _ assms(7,6) ends idx clean_mono [OF assms(8)]] assms(4,9)
    by (simp add: concat_phase_list [OF ids])
  have "\<forall>p \<in> set (ps_phases (ex_schedule ex)). wf_phase p" using ph assms(3) by simp
  from executor_run_value [OF this, of methods scalars m0] show ?thesis
    using assms(3,4,9) phase_list_counts [OF ids] length_phase_list [OF ids]
    by (simp add: num_phases_def) (rule outcome_bind [OF m], simp)
qed

lemma final_output_ok:
  assumes "materialize_tensors ex = Inr (executable_tensors (ex_graph ex) wp)"
    and "g_ops (ex_graph ex) \<noteq> []" "op_outputs (last (g_ops (ex_graph ex))) \<noteq> []"
    and "hd (op_outputs (last (g_ops (ex_graph ex)))) \<in> dom (map_of (g_tensors (ex_graph ex)))"
  shows "\<exists>logits. final_output ex = Inr logits"
proof -
  have fst: "map fst (executable_tensors (ex_graph ex) wp) = map fst (g_tensors (ex_graph ex))"
    by (simp add: executable_tensors_def comp_def case_prod_beta')
  let ?ops = "g_ops (ex_graph ex)" and ?out = "op_outputs (last (g_ops (ex_graph ex)))"
  have "py_nth ?ops (- 1) = Inr (last ?ops)"
    using assms(2) by (auto simp: py_nth_def last_conv_nth nat_diff_distrib Suc_le_eq)
  moreover have "py_nth ?out 0 = Inr (hd ?out)" using assms(3) by (simp add: py_nth_def hd_conv_nth)
  moreover have "hd ?out \<in> dom (map_of (executable_tensors (ex_graph ex) wp))"
    using fst assms(4) by (metis dom_map_of_conv_image_fst list.set_map)
  ultimately show ?thesis using assms(1) by (auto simp: final_output_def dict_get_def)
qed

lemma trace_facts:
  assumes "map fam_opid fams = urange (int (length fams))" "\<forall>f \<in> set fams. wf_family f" "1 \<le> Q"
  defines "sts \<equiv> map (\<lambda>(i, p). phase_stat Q (int i) p) (enumerate 0 (phase_list fams))"
  shows "map pst_index sts = urange (int (length fams))" "map pst_generation sts = urange (int (length fams))"
    and "\<forall>st \<in> set sts. sum_list (pst_per_worker st) = pst_tasks st"
proof -
  have n: "length sts = length fams" "i < length fams \<Longrightarrow> sts ! i = phase_stat Q (int i) (phase_list fams ! i)" for i
    by (simp_all add: sts_def length_phase_list [OF assms(1)] nth_enumerate_eq)
  show "map pst_index sts = urange (int (length fams))" "map pst_generation sts = urange (int (length fams))"
    by (rule nth_equalityI; simp add: n phase_stat_def phase_list_nth [OF assms(1)])+
  have "sum_list (pst_per_worker (sts ! i)) = pst_tasks (sts ! i)" if "i < length fams" for i
    using that phase_list_wf [OF assms(2)] assms(3) length_phase_list [OF assms(1)]
    by (simp add: n phase_stat_def share_counts_sum)
  then show "\<forall>st \<in> set sts. sum_list (pst_per_worker st) = pst_tasks st"
    using n(1) by (metis in_set_conv_nth)
qed

lemma compiled_as_outcome:
  assumes "compiled_as ce g cfg fams P" "graph_wf g"
  shows "map ph_families (ps_phases (ce_schedule ce)) = map (\<lambda>f. [f]) fams" "map fam_op fams = g_ops g"
    and "1 \<le> P" "ce_workers ce = P" "rp_num_phases (ce_report ce) = int (length (g_ops g))"
    and "rp_total_tasks (ce_report ce) = sum_list (map fam_ntasks fams)"
    and "\<forall>b \<in> set (wp_buffers (ce_workspace_plan ce)). \<forall>b' \<in> set (wp_buffers (ce_workspace_plan ce)).
      b \<noteq> b' \<and> overlaps_lifetime b b' \<longrightarrow> buffers_apart b b'"
proof -
  have l: "lower_graph g = Inr fams" and s: "ce_schedule ce = \<lparr>ps_phases = phase_list fams, ps_workers = P\<rparr>"
    and pl: "plan_memory g (ce_schedule ce) fams = Inr (ce_workspace_plan ce, ce_scratch_plan ce)"
    and r: "1 \<le> P" "ce_workers ce = P" "rp_num_phases (ce_report ce) = int (length fams)"
      "rp_total_tasks (ce_report ce) = sum_list (map fam_ntasks fams)"
    using assms(1) unfolding compiled_as_def by blast+
  note ids = lowered_ids [OF assms(2) l]
  show "1 \<le> P" "ce_workers ce = P" "rp_total_tasks (ce_report ce) = sum_list (map fam_ntasks fams)" by (fact r)+
  show o: "map fam_op fams = g_ops g" by (fact ids(1))
  show "rp_num_phases (ce_report ce) = int (length (g_ops g))" using r(3) arg_cong [OF o, of length] by simp
  show "map ph_families (ps_phases (ce_schedule ce)) = map (\<lambda>f. [f]) fams"
    by (simp add: s map_phase_families [OF ids(2)])
  show "\<forall>b \<in> set (wp_buffers (ce_workspace_plan ce)). \<forall>b' \<in> set (wp_buffers (ce_workspace_plan ce)).
      b \<noteq> b' \<and> overlaps_lifetime b b' \<longrightarrow> buffers_apart b b'"
    using plan_apart [OF ops_have_phases(1) [OF assms] pl] by blast
qed

lemma compile_bad_workers:
  assumes "graph_wf g" "lower_graph g = Inr fams" "g_ops g \<noteq> []"
    and "target \<in> {''cute_persistent'', ''triton_persistent'', ''reference''}"
    and "filter (\<lambda>d. dg_severity d = ''error'') (check_graph g) = []"
    and "\<not> (workers = None \<or> (\<exists>r \<ge> 1. workers = Some r))"
  shows "compile_model sms target ''phase'' strict workers cfg (Inr g) = Inl ValueError"
proof -
  have legal: "\<forall>e \<in> set (g_tensors g). tensor_legal g (snd e)" using assms(5) unfolding error_free_legal by blast
  have wf: "\<forall>x \<in> set fams. wf_family x" using lower_graph_wf [OF legal_positive [OF legal] assms(2)] by blast
  have counts: "mapr fam_task_count fams = Inr (map fam_ntasks fams)" by (rule mapr_ok_pure) (use wf in auto)
  have st: "check_thread_contract fams = []" "map fam_op fams = g_ops g"
    using lower_graph_stamps [OF assms(1,2)] assms(3) by blast+
  then have "fams \<noteq> []" using assms(3) by auto
  moreover obtain r where "workers = Some r" "r < 1" using assms(6) by (cases workers) auto
  then have "choose_worker_count sms workers None w = Inl ValueError" for w
    by (simp add: choose_worker_count_def)
  ultimately show ?thesis using assms(2,4,5) counts st(1) by (auto simp: compile_model_def Let_def)
qed

text \<open>
  C24: What a compilation returns.  For a well-formed, non-empty captured graph, \<^verbatim>\<open>compile_model\<close> with the
  phase schedule and a known target raises \<^verbatim>\<open>LegalityError\<close> when the graph is outside the supported
  subset, raises what a lowering raises, raises \<^verbatim>\<open>ValueError\<close> for a requested worker count below 1, and
  otherwise returns an executable: one phase per operator in recording order, between 1 and one worker per SM,
  the reported totals, one row of the generated phase table per family with its device template and
  task count, and a workspace plan in which buffers with overlapping lifetimes are apart.
\<close>

theorem compile_model_outcome:
  assumes "graph_wf g" "g_ops g \<noteq> []" "target \<in> {''cute_persistent'', ''triton_persistent'', ''reference''}"
  shows "if \<not> ((\<forall>op \<in> set (g_ops g). op_legal g op) \<and> (\<forall>e \<in> set (g_tensors g). tensor_legal g (snd e)))
    then compile_model sms target ''phase'' strict workers cfg (Inr g) = Inl LegalityError
    else case lower_graph g of
      Inl e \<Rightarrow> compile_model sms target ''phase'' strict workers cfg (Inr g) = Inl e
    | Inr fams \<Rightarrow>
        if \<not> (workers = None \<or> (\<exists>r \<ge> 1. workers = Some r))
        then compile_model sms target ''phase'' strict workers cfg (Inr g) = Inl ValueError
        else \<exists>ce. compile_model sms target ''phase'' strict workers cfg (Inr g) = Inr ce
          \<and> map ph_families (ps_phases (ce_schedule ce)) = map (\<lambda>f. [f]) fams \<and> map fam_op fams = g_ops g
          \<and> 1 \<le> ce_workers ce \<and> ce_workers ce \<le> max 1 (query_device_sms sms)
          \<and> rp_num_phases (ce_report ce) = int (length (g_ops g))
          \<and> rp_total_tasks (ce_report ce) = sum_list (map fam_ntasks fams)
          \<and> ms_phases (rp_generated_source (ce_report ce)) = map source_row fams
          \<and> (\<forall>b \<in> set (wp_buffers (ce_workspace_plan ce)). \<forall>b' \<in> set (wp_buffers (ce_workspace_plan ce)).
                b \<noteq> b' \<and> overlaps_lifetime b b' \<longrightarrow> buffers_apart b b')"
proof (cases "(\<forall>op \<in> set (g_ops g). op_legal g op) \<and> (\<forall>e \<in> set (g_tensors g). tensor_legal g (snd e))")
  case False
  then have "filter (\<lambda>d. dg_severity d = ''error'') (check_graph g) \<noteq> []" unfolding error_free_legal .
  with False assms(3) show ?thesis by (auto simp: compile_model_def Let_def)
next
  case legal: True
  then have ef: "filter (\<lambda>d. dg_severity d = ''error'') (check_graph g) = []" unfolding error_free_legal .
  show ?thesis
  proof (cases "lower_graph g")
    case (Inl e)
    with legal ef assms(3) show ?thesis by (auto simp: compile_model_def Let_def)
  next
    case (Inr fams)
    show ?thesis
    proof (cases "workers = None \<or> (\<exists>r \<ge> 1. workers = Some r)")
      case True
      obtain ce P where ce: "compile_model sms target ''phase'' strict workers cfg (Inr g) = Inr ce"
          "compiled_as ce g cfg fams P" "P \<le> max 1 (query_device_sms sms)"
          "ms_phases (rp_generated_source (ce_report ce)) = map source_row fams"
        using compile_model_ok [OF assms(1) Inr assms(2,3) _ _ True] legal by blast
      note f = compiled_as_outcome [OF ce(2) assms(1)]
      show ?thesis using legal True Inr ce f by simp
    next
      case False
      with legal Inr compile_bad_workers [OF assms(1) Inr assms(2,3) ef False] show ?thesis by simp
    qed
  qed
qed

text \<open>
  What a reference run of an executable returns, and the exceptions it can end with.
\<close>

definition run_report :: "CompiledExecutable \<Rightarrow> OperatorGraph \<Rightarrow> int \<Rightarrow> tensor_array \<times> ExecutionTrace \<times> 'v Mem \<times> int \<Rightarrow> bool" where
  "run_report ce g pos = (\<lambda>(logits, trace, m, len). len = pos + 1
    \<and> tr_kernel_launches trace = 1
    \<and> tr_grid_barriers trace = int (length (g_ops g))
    \<and> tr_task_executions trace = rp_total_tasks (ce_report ce)
    \<and> map pst_index (tr_phases trace) = urange (int (length (g_ops g)))
    \<and> map pst_generation (tr_phases trace) = urange (int (length (g_ops g)))
    \<and> (\<forall>st \<in> set (tr_phases trace). sum_list (pst_per_worker st) = pst_tasks st)
    \<and> clean buf_live_at_end (ce_workspace_plan ce) m)"

text \<open>The arguments of a run are accepted by the host guards.\<close>

definition run_args ::
  "CompiledExecutable \<Rightarrow> OperatorGraph \<Rightarrow> (string, 'v cell list) dict \<Rightarrow> int \<Rightarrow> 'v cell list option \<Rightarrow> int option \<Rightarrow> bool" where
  "run_args ce g arrays pos workspace workers \<longleftrightarrow>
     (\<exists>p. map_of (g_scalars g) ''p'' = Some p \<and> sc_lo p \<le> pos \<and> pos < sc_hi p)
     \<and> (workers = None \<or> (\<exists>Q \<ge> 1. workers = Some Q))
     \<and> (workspace = None \<or> (\<exists>ws. workspace = Some ws \<and> int (length ws) = wp_total_elements (ce_workspace_plan ce)))
     \<and> externals_bound g arrays
     \<and> op_outputs (last (g_ops g)) \<noteq> [] \<and> hd (op_outputs (last (g_ops g))) \<in> dom (map_of (g_tensors g))"

lemma compiled_run_outcome:
  assumes "compile_model sms target sched strict w cfg (Inr g) = Inr ce" "graph_wf g"
    and "run_args ce g arrays pos workspace workers"
    and "bodies_confined (methods (executable_tensors g (ce_workspace_plan ce))) [(''p'', pos)] ce"
  shows "outcome (run_report ce g pos)
    (body_raises (methods (executable_tensors g (ce_workspace_plan ce))) [(''p'', pos)] (ce_families ce))
    (run_reference ce methods [mc_batch cfg] arrays pos workspace workers True)"
proof -
  obtain fams P where c: "compiled_as ce g cfg fams P" using compile_model_facts [OF assms(1,2)] by blast
  then have l: "lower_graph g = Inr fams" "fams \<noteq> []" "1 \<le> P" "ce_graph ce = g" "ce_config ce = cfg" "ce_workers ce = P"
      and s: "ce_schedule ce = \<lparr>ps_phases = phase_list fams, ps_workers = P\<rparr>"
      and tt: "rp_total_tasks (ce_report ce) = sum_list (map fam_ntasks fams)" and cf: "ce_families ce = fams"
    unfolding compiled_as_def by blast+
  obtain p where p: "map_of (g_scalars g) ''p'' = Some p" "sc_lo p \<le> pos" "pos < sc_hi p"
    and ar: "workers = None \<or> (\<exists>Q \<ge> 1. workers = Some Q)"
      "workspace = None \<or> (\<exists>ws. workspace = Some ws \<and> int (length ws) = wp_total_elements (ce_workspace_plan ce))"
      "externals_bound g arrays" "op_outputs (last (g_ops g)) \<noteq> []" "hd (op_outputs (last (g_ops g))) \<in> dom (map_of (g_tensors g))"
    using assms(3) unfolding run_args_def by blast
  note ids = lowered_ids(2) [OF assms(2) l(1)]
  have n: "length (g_ops g) = length fams" using lowered_ids(1) [OF assms(2) l(1)] by (metis length_map)
  then have ne: "g_ops g \<noteq> []" using l(2) by auto
  define Q where "Q = (case workers of None \<Rightarrow> P | Some w \<Rightarrow> w)"
  have Q: "1 \<le> Q" using ar(1) l(3) by (auto simp: Q_def)
  have wf: "\<forall>x \<in> set fams. wf_family x"
    using c lower_graph_wf [OF legal_positive l(1)] unfolding compiled_as_def by blast
  define sch where "sch = \<lparr>ps_phases = phase_list fams, ps_workers = Q\<rparr>"
  have sch: "(if Q = ps_workers (ce_schedule ce) then Inr (ce_schedule ce)
      else from_families (concat (map ph_families (ps_phases (ce_schedule ce)))) Q) = Inr sch"
    using Q by (simp add: s sch_def concat_phase_list [OF ids] from_families_value [OF wf])
  obtain ws where ws: "int (length ws) = wp_total_elements (ce_workspace_plan ce)"
      "(case workspace of None \<Rightarrow> Inr (allocate_workspace ce)
        | Some ws \<Rightarrow> if int (length ws) \<noteq> wp_total_elements (ce_workspace_plan ce) then Inl ValueError else Inr ws) = Inr ws"
    using planned_workspace [OF c assms(2) ar(2)] by blast
  obtain ext ex m0 where x: "external_storage_arrays g arrays = Inr ext"
      "new_executor sch Q (bind_storages ext (wp_buffers (ce_workspace_plan ce))) g
        (Some (ce_workspace_plan ce)) True \<lparr>mem_ws = ws, mem_ext = ext\<rparr> = Inr (ex, m0)"
      "ex_schedule ex = sch" "ex_workers ex = Q" "ex_graph ex = g" "ex_canary ex"
      "wired ex (ce_workspace_plan ce)" "clean (\<lambda>_. False) (ce_workspace_plan ce) m0"
      "materialize_tensors ex = Inr (executable_tensors g (ce_workspace_plan ce))"
    using compiled_executor [OF c assms(2) ar(3) ws(1)] by blast
  obtain logits where lo: "final_output ex = Inr logits"
    using final_output_ok [of ex "ce_workspace_plan ce"] x(5,9) ar(4,5) ne by auto
  have "run_reference ce methods [mc_batch cfg] arrays pos workspace workers True =
      bindr (executor_run ex (methods (executable_tensors g (ce_workspace_plan ce))) [(''p'', pos)] empty_trace m0) (\<lambda>(trace, m).
        if tr_kernel_launches trace \<noteq> 1 then Inl DeviceUnavailable else Inr (logits, trace, m, pos + 1))"
    unfolding run_reference_def l(4-6) Q_def [symmetric] Let_def sch ws(2)
    using p x(1,2,9) lo by (simp add: guard_def dict_get_def cong: if_cong)
  then show ?thesis unfolding cf
    by simp (rule outcome_bind [OF compiled_executor_run [OF c assms(2) x(3-8) [unfolded sch_def] Q assms(4)]],
      use tt trace_facts [OF ids wf Q] in \<open>auto simp: run_report_def n\<close>)
qed


definition demo_compiled_graph :: OperatorGraph where
  "demo_compiled_graph = empty_graph
     \<lparr>g_tensors := [(''x'', (demo_tensor ''x'' 1 [2, 32])), (''w'', demo_tensor ''w'' 2 [32, 20]),
                    (''y'', (demo_tensor ''y'' 0 [2, 20]))],
      g_storage_sizes := [(0, 40), (1, 64), (2, 640)], g_storage_names := [(0, ''y''), (1, ''x''), (2, ''w'')],
      g_storage_versions := [(0, 0), (1, 0), (2, 0)], g_fresh_storages := {0}, g_next_storage := 1,
      g_scalars := [(''p'', \<lparr>sc_name = ''p'', sc_lo = 0, sc_hi = 8\<rparr>)],
      g_ops := [demo_linear], g_next_vid := 3, g_next_opid := 1\<rparr>"

definition demo_config :: ModelConfig where
  "demo_config = \<lparr>mc_layers = 1, mc_batch = 2, mc_cache_capacity = 8, mc_hidden = 4, mc_kv_heads = 1,
     mc_head_dim = 4, mc_is_qwen3 = False\<rparr>"

lemma demo_compiled_wf: "graph_wf demo_compiled_graph"
  by (auto simp: graph_wf_def demo_compiled_graph_def empty_graph_def demo_linear_def demo_tensor_def
      tensor_entry_ok_def dict_wf_def urange_def)

lemma demo_compiled_facts:
  "g_ops demo_compiled_graph = [demo_linear]"
  "\<forall>op \<in> set (g_ops demo_compiled_graph). op_legal demo_compiled_graph op"
  "\<forall>e \<in> set (g_tensors demo_compiled_graph). tensor_legal demo_compiled_graph (snd e)"
  "\<exists>f. lower_graph demo_compiled_graph = Inr [f]"
  by (simp_all add: demo_compiled_graph_def empty_graph_def demo_linear_def demo_tensor_def
      op_legal_def tensor_legal_def ARITHMETIC_OP_KINDS_def consumes_def
      lower_graph_def lower_op_eq lowering_table_def CONTRACTS_def mk_contract_def
      validate_attributes_def lower_linear_def in_tensor_def out_tensor_def opt_tensor_def
      graph_tensor_def dict_get_def py_nth_def dim_def gemm_domain_def
      attr_get_def group_params_def truthy_def Let_def)

lemma demo_compiles:
  "\<exists>ce. compile_model (Some 4) ''reference'' ''phase'' True None demo_config (Inr demo_compiled_graph) = Inr ce"
  using compile_model_ok [OF demo_compiled_wf _ _ _ demo_compiled_facts(2,3), of _ "''reference''" None "Some 4" True demo_config]
    demo_compiled_facts(1,4) by auto

theorem compile_model_outcome_witness:
  "\<exists>ce. compile_model (Some 4) ''reference'' ''phase'' True None demo_config (Inr demo_compiled_graph) = Inr ce
     \<and> rp_num_phases (ce_report ce) = 1 \<and> ce_workers ce \<le> 4"
proof -
  obtain f where f: "lower_graph demo_compiled_graph = Inr [f]" using demo_compiled_facts(4) by blast
  have "g_ops demo_compiled_graph \<noteq> []" by (simp add: demo_compiled_facts(1))
  from compile_model_outcome [OF demo_compiled_wf this, of "''reference''" "Some 4" True None demo_config]
  show ?thesis using f demo_compiled_facts(2,3)
    by (simp add: query_device_sms_def) (auto simp: demo_compiled_facts(1))
qed


end
