(* ===== verification/Numpy.thy ===== *)
theory Numpy
  imports Reference_Exec Lowerings_Common Float_Formats
begin

text \<open>
  The part of NumPy the numeric task bodies use: strided views of memory cells, basic and integer-array
  indexing, broadcasting, element-wise functions, reductions and products.

  Floating-point arithmetic itself is a parameter (\<open>numpy\<close>): a cell is a NumPy scalar of its
  array's dtype or NaN, and the record holds the functions on cells.  A reduction and a product are
  functions of the reduced values in order; the bodies multiply vectors and matrices only.
\<close>

section \<open>Arithmetic as a parameter\<close>

datatype ufunc1 =
  UNeg | UExp | ULog | ULog1p | USqrt | UReciprocal | UTanh | USquare | UCube

datatype ufunc2 = UAdd | USub | UMul | UDiv | UMaximum | UMinimum | ULogaddexp

datatype reduction = RSum | RMean | RMax

text \<open>
  \<open>np_float\<close>, \<open>np_int\<close> and \<open>np_rat\<close> are the scalars of a Python float, an integer and an exactly
  representable fraction; \<open>np_f64\<close> is \<^verbatim>\<open>astype(np.float64)\<close>, \<open>np_store\<close> the conversion to the dtype of
  an array; \<open>np_to_int\<close> is \<^verbatim>\<open>int(x)\<close>; the last three read a byte and the bits of an fp32 value.
\<close>

record 'v numpy =
  np_float :: "pyfloat \<Rightarrow> 'v"
  np_int :: "int \<Rightarrow> 'v"
  np_rat :: "rat \<Rightarrow> 'v"
  np_pi :: 'v
  np_inf :: 'v
  np_f64 :: "'v cell \<Rightarrow> 'v cell"
  np_store :: "arr_ref \<Rightarrow> 'v cell \<Rightarrow> 'v cell"
  np_u1 :: "ufunc1 \<Rightarrow> 'v cell \<Rightarrow> 'v cell"
  np_u2 :: "ufunc2 \<Rightarrow> 'v cell \<Rightarrow> 'v cell \<Rightarrow> 'v cell"
  np_reduce :: "reduction \<Rightarrow> 'v cell list \<Rightarrow> 'v cell"
  np_dot :: "'v cell list \<Rightarrow> 'v cell list \<Rightarrow> 'v cell"
  np_less :: "'v cell \<Rightarrow> 'v cell \<Rightarrow> bool"
  np_equal :: "'v cell \<Rightarrow> 'v cell \<Rightarrow> bool"
  np_isfinite :: "'v cell \<Rightarrow> bool"
  np_to_int :: "'v cell \<Rightarrow> int result"
  np_byte :: "'v cell \<Rightarrow> 8 word"
  np_f32_bits :: "'v cell \<Rightarrow> 32 word"
  np_of_f32_bits :: "32 word \<Rightarrow> 'v cell"

section \<open>Memory cells\<close>

text \<open>A location: a cell of the workspace or of a caller-owned array.\<close>

type_synonym loc = "int option \<times> int"

definition mem_cells :: "'v Mem \<Rightarrow> int option \<Rightarrow> 'v cell list" where
  "mem_cells m r =
     (case r of
        None \<Rightarrow> mem_ws m
      | Some s \<Rightarrow> (case map_of (mem_ext m) s of None \<Rightarrow> [] | Some cs \<Rightarrow> cs))"

definition loc_ok :: "'v Mem \<Rightarrow> loc \<Rightarrow> bool" where
  "loc_ok m l \<longleftrightarrow> 0 \<le> snd l \<and> snd l < int (length (mem_cells m (fst l)))"

definition mem_get :: "'v Mem \<Rightarrow> loc \<Rightarrow> 'v cell" where
  "mem_get m l = mem_cells m (fst l) ! nat (snd l)"

definition mem_put :: "loc \<Rightarrow> 'v cell \<Rightarrow> 'v Mem \<Rightarrow> 'v Mem" where
  "mem_put l c m =
     (case fst l of
        None \<Rightarrow> m\<lparr>mem_ws := (mem_ws m)[nat (snd l) := c]\<rparr>
      | Some s \<Rightarrow> m\<lparr>mem_ext := map (\<lambda>(k, cs). (k, if k = s then cs[nat (snd l) := c] else cs)) (mem_ext m)\<rparr>)"

text \<open>\<^verbatim>\<open>as_strided\<close> over \<^verbatim>\<open>base[offset:]\<close>: element addresses are not checked against the slice.\<close>

definition ta_loc :: "tensor_array \<Rightarrow> int list \<Rightarrow> loc" where
  "ta_loc ta i =
     (case ta of (a, off, sh, ss) \<Rightarrow>
        case a of
          WsSlice lo hi \<Rightarrow> (None, lo + off + dot i ss)
        | ExtArr s \<Rightarrow> (Some s, off + dot i ss))"

definition ta_arr :: "tensor_array \<Rightarrow> arr_ref" where "ta_arr ta = fst ta"
definition ta_shape :: "tensor_array \<Rightarrow> int list" where "ta_shape ta = fst (snd (snd ta))"

text \<open>The indices of a shape in row-major order.\<close>

fun idxs :: "int list \<Rightarrow> int list list" where
  "idxs [] = [[]]"
| "idxs (n # ns) = concat (map (\<lambda>i. map ((#) i) (idxs ns)) (urange n))"

lemma set_idxs: "set (idxs sh) = {i. idx_in sh i}"
  by (induction sh) (auto simp: idx_in_Cons1)

lemma distinct_idxs: "distinct (idxs sh)"
  by (induction sh) (auto intro!: distinct_concat_map simp: distinct_map)

section \<open>Arrays and indexing\<close>

record 'v nd =
  nd_shape :: "int list"
  nd_at :: "int list \<Rightarrow> 'v cell"

definition mk_nd :: "int list \<Rightarrow> (int list \<Rightarrow> 'v cell) \<Rightarrow> 'v nd" where
  "mk_nd sh f = \<lparr>nd_shape = sh, nd_at = f\<rparr>"

lemma mk_nd_sel [simp]: "nd_shape (mk_nd sh f) = sh" "nd_at (mk_nd sh f) = f"
  by (simp_all add: mk_nd_def)

definition nd_scalar :: "'v cell \<Rightarrow> 'v nd" where "nd_scalar c = mk_nd [] (\<lambda>_. c)"

text \<open>One index item: an integer, a slice with a positive step, a new axis, an integer array.\<close>

datatype ix = At int | Rng "int option" "int option" int | NewAxis | Gather "int list"

abbreviation Slc :: "int \<Rightarrow> int \<Rightarrow> ix" where "Slc lo hi \<equiv> Rng (Some lo) (Some hi) 1"
abbreviation Upto :: "int \<Rightarrow> ix" where "Upto hi \<equiv> Rng None (Some hi) 1"
abbreviation From :: "int \<Rightarrow> ix" where "From lo \<equiv> Rng (Some lo) None 1"
abbreviation Full :: ix where "Full \<equiv> Rng None None 1"

definition wrap_bound :: "int \<Rightarrow> int \<Rightarrow> int" where
  "wrap_bound n i = (if i < 0 then max 0 (i + n) else min i n)"

definition slice_start :: "int \<Rightarrow> int option \<Rightarrow> int" where
  "slice_start n lo = (case lo of None \<Rightarrow> 0 | Some i \<Rightarrow> wrap_bound n i)"

definition slice_stop :: "int \<Rightarrow> int option \<Rightarrow> int" where
  "slice_stop n hi = (case hi of None \<Rightarrow> n | Some i \<Rightarrow> wrap_bound n i)"

definition slice_len :: "int \<Rightarrow> int option \<Rightarrow> int option \<Rightarrow> int \<Rightarrow> int" where
  "slice_len n lo hi st = max 0 ((slice_stop n hi - slice_start n lo + st - 1) div st)"

definition wrap_index :: "int \<Rightarrow> int \<Rightarrow> int result" where
  "wrap_index n i = (if i < - n \<or> n \<le> i then Inl IndexError else Inr (if i < 0 then i + n else i))"

text \<open>The result shape and, for a result index, the source index.\<close>

fun nd_ix :: "ix list \<Rightarrow> int list \<Rightarrow> (int list \<times> (int list \<Rightarrow> int list)) result" where
  "nd_ix [] ns = Inr (ns, \<lambda>j. j)"
| "nd_ix (NewAxis # is) ns = bindr (nd_ix is ns) (\<lambda>(sh, f). Inr (1 # sh, \<lambda>j. f (tl j)))"
| "nd_ix (At i # is) (n # ns) =
     bindr (wrap_index n i) (\<lambda>k.
     bindr (nd_ix is ns) (\<lambda>(sh, f). Inr (sh, \<lambda>j. k # f j)))"
| "nd_ix (Rng lo hi st # is) (n # ns) =
     bindr (nd_ix is ns) (\<lambda>(sh, f).
       Inr (slice_len n lo hi st # sh, \<lambda>j. (slice_start n lo + hd j * st) # f (tl j)))"
| "nd_ix (Gather xs # is) (n # ns) =
     bindr (mapr (wrap_index n) xs) (\<lambda>ks.
     bindr (nd_ix is ns) (\<lambda>(sh, f). Inr (int (length ks) # sh, \<lambda>j. (ks ! nat (hd j)) # f (tl j))))"
| "nd_ix (_ # is) [] = Inl IndexError"

definition nd_index :: "ix list \<Rightarrow> 'v nd \<Rightarrow> 'v nd result" where
  "nd_index is a = bindr (nd_ix is (nd_shape a)) (\<lambda>(sh, f). Inr (mk_nd sh (\<lambda>j. nd_at a (f j))))"

section \<open>Broadcasting\<close>

fun bc_rev :: "int list \<Rightarrow> int list \<Rightarrow> int list result" where
  "bc_rev [] ns = Inr ns"
| "bc_rev ms [] = Inr ms"
| "bc_rev (m # ms) (n # ns) =
     (if m = n \<or> n = 1 then bindr (bc_rev ms ns) (\<lambda>r. Inr (m # r))
      else if m = 1 then bindr (bc_rev ms ns) (\<lambda>r. Inr (n # r))
      else Inl ValueError)"

definition bc_shape :: "int list \<Rightarrow> int list \<Rightarrow> int list result" where
  "bc_shape ms ns = bindr (bc_rev (rev ms) (rev ns)) (\<lambda>r. Inr (rev r))"

text \<open>The source index of a broadcast: missing leading axes are dropped, axes of length one stay at 0.\<close>

definition bc_index :: "int list \<Rightarrow> int list \<Rightarrow> int list" where
  "bc_index sh i = map2 (\<lambda>n k. if n = 1 then 0 else k) sh (drop (length i - length sh) i)"

definition nd_map :: "('v cell \<Rightarrow> 'v cell) \<Rightarrow> 'v nd \<Rightarrow> 'v nd" where
  "nd_map f a = mk_nd (nd_shape a) (\<lambda>i. f (nd_at a i))"

definition nd_map2 :: "('v cell \<Rightarrow> 'v cell \<Rightarrow> 'v cell) \<Rightarrow> 'v nd \<Rightarrow> 'v nd \<Rightarrow> 'v nd result" where
  "nd_map2 f a b =
     bindr (bc_shape (nd_shape a) (nd_shape b)) (\<lambda>sh.
       Inr (mk_nd sh (\<lambda>i. f (nd_at a (bc_index (nd_shape a) i)) (nd_at b (bc_index (nd_shape b) i)))))"

text \<open>
  Assignment to a selection: the value broadcasts to the selection's shape; leading axes of length
  one in excess of it are dropped.
\<close>

definition fit_to :: "int list \<Rightarrow> 'v nd \<Rightarrow> (int list \<Rightarrow> 'v cell) result" where
  "fit_to sh v =
     (let k = length (nd_shape v) - length sh; vs = drop k (nd_shape v) in
      if \<not> list_all (\<lambda>n. n = 1) (take k (nd_shape v)) then Inl ValueError
      else bindr (bc_shape sh vs) (\<lambda>r.
        if r \<noteq> sh then Inl ValueError
        else Inr (\<lambda>i. nd_at v (replicate k 0 @ bc_index vs i))))"

definition nd_put :: "ix list \<Rightarrow> 'v nd \<Rightarrow> 'v nd \<Rightarrow> 'v nd result" where
  "nd_put is v a =
     bindr (nd_ix is (nd_shape a)) (\<lambda>(sh, f).
     bindr (fit_to sh v) (\<lambda>g.
       Inr (mk_nd (nd_shape a) (foldl (\<lambda>h j. h(f j := g j)) (nd_at a) (idxs sh)))))"

section \<open>Expressions\<close>

text \<open>
  \<open>Red0\<close> and \<open>RedLast\<close> reduce the first and the last axis, the \<open>K\<close> forms with \<^verbatim>\<open>keepdims\<close>.
\<close>

datatype 'v nexp =
    V "'v nd" | Lit int int | Fn1 ufunc1 "'v nexp" | Bin ufunc2 "'v nexp" "'v nexp"
  | RedAll reduction "'v nexp" | Red0 reduction "'v nexp" | RedLast reduction "'v nexp"
  | Red0K reduction "'v nexp" | RedLastK reduction "'v nexp"
  | MatMul "'v nexp" "'v nexp" | Ix "'v nexp" "ix list" | Transp "'v nexp"
  | Concat0 "'v nexp" "'v nexp" | AsF64 "'v nexp" | Reshape "int list" "'v nexp"

abbreviation nadd where "nadd \<equiv> Bin UAdd"
abbreviation nsub where "nsub \<equiv> Bin USub"
abbreviation nmul where "nmul \<equiv> Bin UMul"
abbreviation ndiv where "ndiv \<equiv> Bin UDiv"

definition cells_of :: "'v nd \<Rightarrow> 'v cell list" where
  "cells_of a = map (nd_at a) (idxs (nd_shape a))"

text \<open>\<^verbatim>\<open>max\<close> of nothing raises; the sum of nothing is 0 and the mean NaN.\<close>

definition red_axis_ok :: "reduction \<Rightarrow> int \<Rightarrow> bool" where
  "red_axis_ok r n \<longleftrightarrow> r \<noteq> RMax \<or> 0 < n"

definition nd_red_all :: "'v numpy \<Rightarrow> reduction \<Rightarrow> 'v nd \<Rightarrow> 'v nd result" where
  "nd_red_all np r a =
     (if red_axis_ok r (prodl (nd_shape a)) then Inr (nd_scalar (np_reduce np r (cells_of a)))
      else Inl ValueError)"

definition nd_red0 :: "'v numpy \<Rightarrow> bool \<Rightarrow> reduction \<Rightarrow> 'v nd \<Rightarrow> 'v nd result" where
  "nd_red0 np keep r a =
     (case nd_shape a of
        [] \<Rightarrow> Inl ValueError
      | n # ns \<Rightarrow>
          if \<not> red_axis_ok r n \<and> prodl ns \<noteq> 0 then Inl ValueError
          else let f = (\<lambda>j. np_reduce np r (map (\<lambda>k. nd_at a (k # j)) (urange n))) in
               Inr (if keep then mk_nd (1 # ns) (\<lambda>j. f (tl j)) else mk_nd ns f))"

definition nd_red_last :: "'v numpy \<Rightarrow> bool \<Rightarrow> reduction \<Rightarrow> 'v nd \<Rightarrow> 'v nd result" where
  "nd_red_last np keep r a =
     (case nd_shape a of
        [] \<Rightarrow> Inl ValueError
      | sh \<Rightarrow>
          if \<not> red_axis_ok r (last sh) \<and> prodl (butlast sh) \<noteq> 0 then Inl ValueError
          else let f = (\<lambda>j. np_reduce np r (map (\<lambda>k. nd_at a (j @ [k])) (urange (last sh)))) in
               Inr (if keep then mk_nd (butlast sh @ [1]) (\<lambda>j. f (butlast j)) else mk_nd (butlast sh) f))"

definition nd_matmul :: "'v numpy \<Rightarrow> 'v nd \<Rightarrow> 'v nd \<Rightarrow> 'v nd result" where
  "nd_matmul np a b =
     (let inner = (\<lambda>k k' r. if k = k' then Inr r else Inl ValueError) in
      case (nd_shape a, nd_shape b) of
        ([k], [k']) \<Rightarrow> inner k k' (nd_scalar (np_dot np (cells_of a) (cells_of b)))
      | ([n, k], [k']) \<Rightarrow>
          inner k k' (mk_nd [n] (\<lambda>j. np_dot np (map (\<lambda>t. nd_at a [hd j, t]) (urange k)) (cells_of b)))
      | ([k], [k', n]) \<Rightarrow>
          inner k k' (mk_nd [n] (\<lambda>j. np_dot np (cells_of a) (map (\<lambda>t. nd_at b [t, hd j]) (urange k))))
      | ([n, k], [k', l]) \<Rightarrow>
          inner k k' (mk_nd [n, l] (\<lambda>j. np_dot np (map (\<lambda>t. nd_at a [hd j, t]) (urange k))
                                          (map (\<lambda>t. nd_at b [t, hd (tl j)]) (urange k))))
      | _ \<Rightarrow> Inl ValueError)"

definition nd_transp :: "'v nd \<Rightarrow> 'v nd" where
  "nd_transp a = mk_nd (rev (nd_shape a)) (\<lambda>j. nd_at a (rev j))"

definition nd_concat0 :: "'v nd \<Rightarrow> 'v nd \<Rightarrow> 'v nd result" where
  "nd_concat0 a b =
     (case (nd_shape a, nd_shape b) of
        (m # ms, n # ns) \<Rightarrow>
          if ms \<noteq> ns then Inl ValueError
          else Inr (mk_nd ((m + n) # ms)
                 (\<lambda>j. if hd j < m then nd_at a j else nd_at b ((hd j - m) # tl j)))
      | _ \<Rightarrow> Inl ValueError)"

text \<open>\<^verbatim>\<open>reshape\<close> keeps the row-major order; \<^term>\<open>[- 1]\<close> flattens.\<close>

definition nd_reshape :: "int list \<Rightarrow> 'v nd \<Rightarrow> 'v nd result" where
  "nd_reshape sh a =
     (let sh = (if sh = [-1] then [prodl (nd_shape a)] else sh) in
      if prodl sh \<noteq> prodl (nd_shape a) then Inl ValueError
      else Inr (mk_nd sh (\<lambda>j. nd_at a (unflat (nd_shape a) (flat sh j)))))"

primrec ev :: "'v numpy \<Rightarrow> 'v nexp \<Rightarrow> 'v nd result" where
  "ev np (V a) = Inr a"
| "ev np (Lit d e) = Inr (nd_scalar (Some (np_float np (FLit d e))))"
| "ev np (Fn1 u x) = bindr (ev np x) (\<lambda>a. Inr (nd_map (np_u1 np u) a))"
| "ev np (Bin u x y) = bindr (ev np x) (\<lambda>a. bindr (ev np y) (nd_map2 (np_u2 np u) a))"
| "ev np (RedAll r x) = bindr (ev np x) (nd_red_all np r)"
| "ev np (Red0 r x) = bindr (ev np x) (nd_red0 np False r)"
| "ev np (RedLast r x) = bindr (ev np x) (nd_red_last np False r)"
| "ev np (Red0K r x) = bindr (ev np x) (nd_red0 np True r)"
| "ev np (RedLastK r x) = bindr (ev np x) (nd_red_last np True r)"
| "ev np (MatMul x y) = bindr (ev np x) (\<lambda>a. bindr (ev np y) (nd_matmul np a))"
| "ev np (Ix x is) = bindr (ev np x) (nd_index is)"
| "ev np (Transp x) = bindr (ev np x) (\<lambda>a. Inr (nd_transp a))"
| "ev np (Concat0 x y) = bindr (ev np x) (\<lambda>a. bindr (ev np y) (nd_concat0 a))"
| "ev np (AsF64 x) = bindr (ev np x) (\<lambda>a. Inr (nd_map (np_f64 np) a))"
| "ev np (Reshape sh x) = bindr (ev np x) (nd_reshape sh)"

text \<open>\<^verbatim>\<open>float(x)\<close> and \<^verbatim>\<open>int(x)\<close> of an array element.\<close>

definition nd_item :: "'v nd \<Rightarrow> 'v cell result" where
  "nd_item a =
     (if prodl (nd_shape a) = 1 then Inr (nd_at a (map (\<lambda>_. 0) (nd_shape a))) else Inl TypeError)"

definition ev_float :: "'v numpy \<Rightarrow> 'v nexp \<Rightarrow> 'v nd result" where
  "ev_float np x = bindr (ev np x) (\<lambda>a. bindr (nd_item a) (\<lambda>c. Inr (nd_scalar (np_f64 np c))))"

definition ev_int :: "'v numpy \<Rightarrow> 'v nexp \<Rightarrow> int result" where
  "ev_int np x = bindr (ev np x) (\<lambda>a. bindr (nd_item a) (np_to_int np))"

text \<open>\<^verbatim>\<open>x.astype(np.int64)\<close> of an integer vector.\<close>

definition ev_ints :: "'v numpy \<Rightarrow> 'v nexp \<Rightarrow> int list result" where
  "ev_ints np x = bindr (ev np x) (\<lambda>a. mapr (np_to_int np) (cells_of a))"

section \<open>Access of the task bodies to memory\<close>

definition view :: "'v Mem \<Rightarrow> tensor_array \<Rightarrow> 'v nd result" where
  "view m ta =
     (if list_all (\<lambda>i. loc_ok m (ta_loc ta i)) (idxs (ta_shape ta))
      then Inr (mk_nd (ta_shape ta) (\<lambda>i. mem_get m (ta_loc ta i)))
      else Inl MemoryFault)"

type_synonym tensors = "(string, tensor_array) dict"

definition tin :: "tensors \<Rightarrow> TaskFamily \<Rightarrow> int \<Rightarrow> tensor_array result" where
  "tin tas fam k = bindr (py_nth (fam_inputs fam) k) (dict_get tas)"

definition tout :: "tensors \<Rightarrow> TaskFamily \<Rightarrow> int \<Rightarrow> tensor_array result" where
  "tout tas fam k = bindr (py_nth (fam_outputs fam) k) (dict_get tas)"

text \<open>\<^verbatim>\<open>self.tensor(fam.inputs[k])\<close> and the same with \<^verbatim>\<open>.astype(np.float64)\<close>.\<close>

definition rd :: "tensors \<Rightarrow> TaskFamily \<Rightarrow> 'v Mem \<Rightarrow> int \<Rightarrow> 'v nd result" where
  "rd tas fam m k = bindr (tin tas fam k) (view m)"

definition rd64 :: "'v numpy \<Rightarrow> tensors \<Rightarrow> TaskFamily \<Rightarrow> 'v Mem \<Rightarrow> int \<Rightarrow> 'v nd result" where
  "rd64 np tas fam m k = bindr (rd tas fam m k) (\<lambda>a. Inr (nd_map (np_f64 np) a))"

text \<open>\<^verbatim>\<open>t[is] = v.astype(t.dtype)\<close>.\<close>

definition store :: "'v numpy \<Rightarrow> tensor_array \<Rightarrow> ix list \<Rightarrow> 'v nd \<Rightarrow> 'v Mem \<Rightarrow> 'v Mem result" where
  "store np ta is v m =
     bindr (nd_ix is (ta_shape ta)) (\<lambda>(sh, f).
     bindr (fit_to sh v) (\<lambda>g.
       foldr_res (\<lambda>m j.
         let l = ta_loc ta (f j) in
         if loc_ok m l then Inr (mem_put l (np_store np (ta_arr ta) (g j)) m) else Inl MemoryFault)
         m (idxs sh)))"

text \<open>
  \<^verbatim>\<open>t.reshape(-1)[lo:hi] = v\<close>: a view when the axes collapse to one stride, and otherwise a copy, so
  that the assignment does not reach the memory of the tensor.
\<close>

fun collapsible :: "(int \<times> int) list \<Rightarrow> bool" where
  "collapsible ((n, s) # (n', s') # r) \<longleftrightarrow> s = n' * s' \<and> collapsible ((n', s') # r)"
| "collapsible _ \<longleftrightarrow> True"

definition flat_view :: "tensor_array \<Rightarrow> tensor_array option" where
  "flat_view ta =
     (case ta of (a, off, sh, ss) \<Rightarrow>
        let ds = filter (\<lambda>(n, s). n \<noteq> 1) (zip sh ss) in
        if prodl sh = 0 then Some (a, off, [0], [1])
        else if collapsible ds then Some (a, off, [prodl sh], [if ds = [] then 1 else snd (last ds)])
        else None)"

definition store_flat :: "'v numpy \<Rightarrow> tensor_array \<Rightarrow> int \<Rightarrow> int \<Rightarrow> 'v nd \<Rightarrow> 'v Mem \<Rightarrow> 'v Mem result" where
  "store_flat np ta lo hi v m =
     (case flat_view ta of
        Some ta' \<Rightarrow> store np ta' [Slc lo hi] v m
      | None \<Rightarrow> bindr (nd_ix [Slc lo hi] [prodl (ta_shape ta)]) (\<lambda>(sh, _).
                bindr (fit_to sh v) (\<lambda>_. Inr m)))"

text \<open>A parameter or attribute used as a number.\<close>

definition num_param :: "'v numpy \<Rightarrow> pyval \<Rightarrow> 'v nd result" where
  "num_param np v =
     (case v of
        VFloat f \<Rightarrow> Inr (nd_scalar (Some (np_float np f)))
      | VInt i \<Rightarrow> Inr (nd_scalar (Some (np_int np i)))
      | VBool b \<Rightarrow> Inr (nd_scalar (Some (np_int np (if b then 1 else 0))))
      | _ \<Rightarrow> Inl TypeError)"

definition np_le :: "'v numpy \<Rightarrow> 'v cell \<Rightarrow> 'v cell \<Rightarrow> bool" where
  "np_le np a b \<longleftrightarrow> np_less np a b \<or> np_equal np a b"

definition nd_const :: "int list \<Rightarrow> 'v cell \<Rightarrow> 'v nd result" where
  "nd_const sh c = (if list_all (\<lambda>n. 0 \<le> n) sh then Inr (mk_nd sh (\<lambda>_. c)) else Inl ValueError)"

text \<open>\<^verbatim>\<open>np.zeros\<close>; an array of integers.\<close>

definition nd_zeros :: "'v numpy \<Rightarrow> int list \<Rightarrow> 'v nd result" where
  "nd_zeros np sh = nd_const sh (Some (np_float np (FLit 0 0)))"

definition nd_ints :: "'v numpy \<Rightarrow> int list \<Rightarrow> 'v nd" where
  "nd_ints np ks = mk_nd [int (length ks)] (\<lambda>j. Some (np_int np (ks ! nat (hd j))))"

text \<open>Stable sorting: NaN sorts last; \<open>argsort\<close> gives positions.\<close>

definition sort_less :: "'v numpy \<Rightarrow> 'v cell \<Rightarrow> 'v cell \<Rightarrow> bool" where
  "sort_less np a b \<longleftrightarrow> np_less np a b \<or> (a \<noteq> None \<and> b = None)"

fun insert_by :: "('a \<Rightarrow> 'a \<Rightarrow> bool) \<Rightarrow> 'a \<Rightarrow> 'a list \<Rightarrow> 'a list" where
  "insert_by lt x [] = [x]"
| "insert_by lt x (y # ys) = (if lt y x then y # insert_by lt x ys else x # y # ys)"

definition sort_by :: "('a \<Rightarrow> 'a \<Rightarrow> bool) \<Rightarrow> 'a list \<Rightarrow> 'a list" where
  "sort_by lt xs = foldr (insert_by lt) xs []"

definition argsort :: "'v numpy \<Rightarrow> 'v cell list \<Rightarrow> int list" where
  "argsort np cs = sort_by (\<lambda>i j. sort_less np (cs ! nat i) (cs ! nat j)) (urange (int (length cs)))"

text \<open>\<^verbatim>\<open>xs[:k]\<close> of a list.\<close>

definition py_upto :: "int \<Rightarrow> 'a list \<Rightarrow> 'a list" where
  "py_upto k xs = take (nat (wrap_bound (int (length xs)) k)) xs"

section \<open>Numeric helpers of the executor\<close>

definition stable_sigmoid_cell :: "'v numpy \<Rightarrow> 'v cell \<Rightarrow> 'v cell" where
  "stable_sigmoid_cell np c =
     (let one = Some (np_float np (FLit 1 0)); zero = Some (np_float np (FLit 0 0)) in
      if np_le np zero c then np_u2 np UDiv one (np_u2 np UAdd one (np_u1 np UExp (np_u1 np UNeg c)))
      else let eg = np_u1 np UExp c in np_u2 np UDiv eg (np_u2 np UAdd one eg))"

definition stable_sigmoid :: "'v numpy \<Rightarrow> 'v nd \<Rightarrow> 'v nd" where
  "stable_sigmoid np g = nd_map (stable_sigmoid_cell np) (nd_map (np_f64 np) g)"

definition bf16_round_nd :: "'v numpy \<Rightarrow> 'v nd \<Rightarrow> 'v nd" where
  "bf16_round_nd np a = nd_map (\<lambda>c. np_f64 np (np_of_f32_bits np (bf16_round (np_f32_bits np c)))) a"

definition decode_e4m3_nd :: "'v numpy \<Rightarrow> 'v nd \<Rightarrow> 'v nd" where
  "decode_e4m3_nd np a = nd_map (\<lambda>c. map_option (np_rat np) (decode_e4m3 (np_byte np c))) a"

definition row_pos_value ::
  "'v numpy \<Rightarrow> tensors \<Rightarrow> TaskFamily \<Rightarrow> int \<Rightarrow> (string, int) dict \<Rightarrow> 'v Mem \<Rightarrow> int result" where
  "row_pos_value np tas fam b scalars m =
     (if attr_get (fam_params fam) ''position_form'' (VStr ''scalar'') = VStr ''row''
      then bindr (dict_get (fam_params fam) ''position'') (\<lambda>name.
           bindr (case name of VStr s \<Rightarrow> dict_get tas s | _ \<Rightarrow> Inl KeyError) (\<lambda>pos_t.
           bindr (view m pos_t) (\<lambda>a. ev_int np (Ix (V a) [At b]))))
      else dict_get scalars ''p'')"

definition valid_len ::
  "'v numpy \<Rightarrow> tensors \<Rightarrow> TaskFamily \<Rightarrow> int \<Rightarrow> (string, int) dict \<Rightarrow> 'v Mem \<Rightarrow> int result" where
  "valid_len np tas fam b scalars m = bindr (row_pos_value np tas fam b scalars m) (\<lambda>p. Inr (p + 1))"

section \<open>Integer arithmetic as an instance\<close>

text \<open>
  A concrete arithmetic for examples: integers, with fractions cut off and the transcendental functions
  replaced by simple integer functions.
\<close>

definition int_float :: "pyfloat \<Rightarrow> int" where
  "int_float f = (case f of FLit m e \<Rightarrow> (if 0 \<le> e then m * 10 ^ nat e else m div 10 ^ nat (- e)) | FRsqrt n \<Rightarrow> 1 div n)"

definition lift1 :: "(int \<Rightarrow> int) \<Rightarrow> int cell \<Rightarrow> int cell" where
  "lift1 f c = (case c of None \<Rightarrow> None | Some a \<Rightarrow> Some (f a))"

definition lift2 :: "(int \<Rightarrow> int \<Rightarrow> int) \<Rightarrow> int cell \<Rightarrow> int cell \<Rightarrow> int cell" where
  "lift2 f c d = (case c of None \<Rightarrow> None | Some a \<Rightarrow> (case d of None \<Rightarrow> None | Some b \<Rightarrow> Some (f a b)))"

definition int_u1 :: "ufunc1 \<Rightarrow> int \<Rightarrow> int" where
  "int_u1 u a = (case u of UNeg \<Rightarrow> - a | USquare \<Rightarrow> a * a | UCube \<Rightarrow> a * a * a | UReciprocal \<Rightarrow> 1 div a
     | UExp \<Rightarrow> (if a < 0 then 0 else 2 ^ nat a) | _ \<Rightarrow> a)"

definition int_u2 :: "ufunc2 \<Rightarrow> int \<Rightarrow> int \<Rightarrow> int" where
  "int_u2 u a b = (case u of UAdd \<Rightarrow> a + b | USub \<Rightarrow> a - b | UMul \<Rightarrow> a * b | UDiv \<Rightarrow> a div b
     | UMaximum \<Rightarrow> max a b | UMinimum \<Rightarrow> min a b | ULogaddexp \<Rightarrow> max a b)"

definition int_sum :: "int cell list \<Rightarrow> int cell" where
  "int_sum cs = foldl (lift2 (+)) (Some 0) cs"

definition int_reduce :: "reduction \<Rightarrow> int cell list \<Rightarrow> int cell" where
  "int_reduce r cs = (case r of RSum \<Rightarrow> int_sum cs
     | RMean \<Rightarrow> lift2 (div) (int_sum cs) (Some (int (length cs)))
     | RMax \<Rightarrow> foldl (lift2 max) (case cs of [] \<Rightarrow> None | c # _ \<Rightarrow> c) cs)"

definition int_numpy :: "int numpy" where
  "int_numpy =
     \<lparr>np_float = int_float, np_int = (\<lambda>i. i), np_rat = (\<lambda>q. \<lfloor>q\<rfloor>), np_pi = 3, np_inf = 1000000,
      np_f64 = (\<lambda>c. c), np_store = (\<lambda>_ c. c), np_u1 = (\<lambda>u. lift1 (int_u1 u)), np_u2 = (\<lambda>u. lift2 (int_u2 u)),
      np_reduce = int_reduce, np_dot = (\<lambda>cs ds. int_sum (map2 (lift2 (*)) cs ds)),
      np_less = (\<lambda>c d. case c of None \<Rightarrow> False | Some a \<Rightarrow> (case d of None \<Rightarrow> False | Some b \<Rightarrow> a < b)),
      np_equal = (\<lambda>c d. c \<noteq> None \<and> c = d), np_isfinite = (\<lambda>c. c \<noteq> None),
      np_to_int = (\<lambda>c. case c of None \<Rightarrow> Inl ValueError | Some a \<Rightarrow> Inr a),
      np_byte = (\<lambda>c. case c of None \<Rightarrow> 0 | Some a \<Rightarrow> word_of_int a),
      np_f32_bits = (\<lambda>c. case c of None \<Rightarrow> 0 | Some a \<Rightarrow> word_of_int a), np_of_f32_bits = (\<lambda>w. Some (uint w))\<rparr>"

end
