(* ===== verification/Bodies_Dense.thy ===== *)
theory Bodies_Dense
  imports Numpy
begin

text \<open>
  The dense task bodies of \<^verbatim>\<open>compiler/reference_dense.py\<close>, statement by statement over \<open>Numpy\<close>.  A body
  takes the arithmetic, the tensor views, the task family, the task's grid coordinates, the runtime
  scalars and the memory, and returns the memory after its stores or the exception it raises.
\<close>

section \<open>Matrix products\<close>

text \<open>One head of a grouped product: only the head's diagonal block is read.\<close>

definition gemm_head ::
  "'v numpy \<Rightarrow> 'v nd \<Rightarrow> 'v nd \<Rightarrow> int \<Rightarrow> int \<Rightarrow> int \<Rightarrow> int \<Rightarrow> int \<Rightarrow> int \<Rightarrow> 'v nd \<Rightarrow> int \<Rightarrow> 'v nd result" where
  "gemm_head np x w m0 m1 n0 n1 k_g n_g acc h =
     (let h_n0 = max n0 (h * n_g); h_n1 = min n1 ((h + 1) * n_g) in
      bindr (ev np (AsF64 (Ix (V x) [Slc m0 m1, Slc (h * k_g) ((h + 1) * k_g)]))) (\<lambda>x_blk.
      bindr (ev np (AsF64 (Ix (V w) [Slc (h * k_g) ((h + 1) * k_g),
               Slc (h * n_g + (h_n0 - h * n_g)) (h * n_g + (h_n1 - h * n_g))]))) (\<lambda>w_blk.
      bindr (ev np (MatMul (V x_blk) (V w_blk))) (\<lambda>p.
        nd_put [Full, Slc (h_n0 - n0) (h_n1 - n0)] p acc))))"

definition gemm_grouped ::
  "'v numpy \<Rightarrow> 'v nd \<Rightarrow> 'v nd \<Rightarrow> int \<Rightarrow> int \<Rightarrow> int \<Rightarrow> int \<Rightarrow> int \<Rightarrow> 'v nd result" where
  "gemm_grouped np x w m0 m1 n0 n1 gh =
     bindr (py_nth (nd_shape x) 1) (\<lambda>xk.
     bindr (py_floordiv xk gh) (\<lambda>k_g.
     bindr (py_nth (nd_shape w) 1) (\<lambda>wn.
     bindr (py_floordiv wn gh) (\<lambda>n_g.
     bindr (nd_zeros np [m1 - m0, n1 - n0]) (\<lambda>acc.
     bindr (py_floordiv n0 n_g) (\<lambda>h0.
     bindr (py_floordiv (n1 + n_g - 1) n_g) (\<lambda>h1.
       foldr_res (gemm_head np x w m0 m1 n0 n1 k_g n_g) acc (urange2 h0 (min gh h1)))))))))"

definition add_bias :: "'v numpy \<Rightarrow> 'v nd option \<Rightarrow> int \<Rightarrow> int \<Rightarrow> 'v nd \<Rightarrow> 'v nd result" where
  "add_bias np bias n0 n1 acc =
     (case bias of None \<Rightarrow> Inr acc | Some b \<Rightarrow> ev np (nadd (V acc) (Ix (V b) [Slc n0 n1])))"

definition body_gemm :: "'v numpy \<Rightarrow> tensors \<Rightarrow> 'v body" where
  "body_gemm np tas fam cs scalars m =
     bindr (rd tas fam m 0) (\<lambda>x.
     bindr (rd tas fam m 1) (\<lambda>w.
     bindr (tout tas fam 0) (\<lambda>y.
     bindr (dict_get (fam_params fam) ''bias'') (\<lambda>pb.
     bindr (if truthy pb then bindr (rd tas fam m 2) (\<lambda>b. Inr (Some b)) else Inr None) (\<lambda>bias.
     bindr (gemm_box fam cs) (\<lambda>((m0, m1), (n0, n1)).
     let gh = attr_get (fam_params fam) ''grouped_heads'' VNone in
     bindr (if truthy gh then bindr (as_int gh) (gemm_grouped np x w m0 m1 n0 n1)
            else ev np (MatMul (AsF64 (Ix (V x) [Slc m0 m1, Full])) (AsF64 (Ix (V w) [Full, Slc n0 n1])))) (\<lambda>acc.
     bindr (add_bias np bias n0 n1 acc) (\<lambda>acc.
       store np y [Slc m0 m1, Slc n0 n1] acc m))))))))"

text \<open>\<^verbatim>\<open>np.repeat\<close> of a vector.\<close>

definition nd_repeat :: "int \<Rightarrow> 'v nd \<Rightarrow> 'v nd result" where
  "nd_repeat q a =
     (if q < 0 then Inl ValueError
      else Inr (mk_nd [prodl (nd_shape a) * q] (\<lambda>j. nd_at a (unflat (nd_shape a) (hd j div q)))))"

definition body_gemv_fp8 :: "'v numpy \<Rightarrow> tensors \<Rightarrow> 'v body" where
  "body_gemv_fp8 np tas fam cs scalars m =
     bindr (rd64 np tas fam m 0) (\<lambda>x.
     bindr (rd tas fam m 1) (\<lambda>w.
     bindr (rd64 np tas fam m 2) (\<lambda>scale.
     bindr (tout tas fam 0) (\<lambda>y.
     bindr (as_int (attr_get (fam_params fam) ''quant_block'' (VInt 128))) (\<lambda>qb.
     bindr (gemm_box fam cs) (\<lambda>((m0, m1), (n0, n1)).
     bindr (ev np (Ix (V w) [Slc n0 n1, Full])) (\<lambda>wb.
     let wt = decode_e4m3_nd np wb in
     bindr (py_nth (nd_shape wt) 1) (\<lambda>k.
     bindr (py_floordiv n0 qb) (\<lambda>blk.
     bindr (ev np (Ix (V scale) [At blk, Full])) (\<lambda>srow.
     bindr (nd_repeat qb srow) (\<lambda>srep.
     bindr (ev np (Ix (V srep) [Upto k])) (\<lambda>s.
     bindr (ev np (MatMul (Ix (V x) [Slc m0 m1, Full])
                          (Transp (nmul (V wt) (Ix (V s) [NewAxis, Full]))))) (\<lambda>acc.
       store np y [Slc m0 m1, Slc n0 n1] acc m)))))))))))))"

section \<open>Normalisations\<close>

definition body_layernorm :: "'v numpy \<Rightarrow> tensors \<Rightarrow> 'v body" where
  "body_layernorm np tas fam cs scalars m =
     bindr (rd64 np tas fam m 0) (\<lambda>x.
     bindr (rd tas fam m 1) (\<lambda>g.
     bindr (rd tas fam m 2) (\<lambda>b.
     bindr (tout tas fam 0) (\<lambda>y.
     bindr (bindr (dict_get (fam_params fam) ''eps'') (num_param np)) (\<lambda>eps.
     bindr (py_nth cs 0) (\<lambda>r.
     bindr (ev np (Ix (V x) [At r])) (\<lambda>row.
     bindr (ev np (RedAll RMean (V row))) (\<lambda>mean.
     bindr (ev np (RedAll RMean (Fn1 USquare (nsub (V row) (V mean))))) (\<lambda>var.
     bindr (ev np (nadd (nmul (ndiv (nsub (V row) (V mean)) (Fn1 USqrt (nadd (V var) (V eps)))) (V g)) (V b))) (\<lambda>v.
       store np y [At r] v m))))))))))"

text \<open>\<^verbatim>\<open>row * np.reciprocal(np.sqrt((row * row).mean() + eps)) * g\<close>\<close>

definition rms_row :: "'v nd \<Rightarrow> 'v nd \<Rightarrow> 'v nd \<Rightarrow> 'v nexp" where
  "rms_row row eps g =
     nmul (nmul (V row) (Fn1 UReciprocal (Fn1 USqrt (nadd (RedAll RMean (nmul (V row) (V row))) (V eps))))) (V g)"

text \<open>The row selected by the coordinates: a head row of a 3-D tensor, otherwise a row.\<close>

definition row_sel :: "'v nd \<Rightarrow> int list \<Rightarrow> ix list result" where
  "row_sel x cs =
     (if length (nd_shape x) = 3 then bindr (unpack2 cs) (\<lambda>(b, h). Inr [At b, At h])
      else bindr (py_nth cs 0) (\<lambda>r. Inr [At r]))"

definition body_rms_norm :: "'v numpy \<Rightarrow> tensors \<Rightarrow> 'v body" where
  "body_rms_norm np tas fam cs scalars m =
     bindr (rd64 np tas fam m 0) (\<lambda>x.
     bindr (rd tas fam m 1) (\<lambda>g.
     bindr (tout tas fam 0) (\<lambda>y.
     bindr (bindr (dict_get (fam_params fam) ''eps'') (num_param np)) (\<lambda>eps.
     bindr (row_sel x cs) (\<lambda>sel.
     bindr (ev np (Ix (V x) sel)) (\<lambda>row.
     bindr (ev np (rms_row row eps g)) (\<lambda>v. store np y sel v m)))))))"

definition body_rms_norm_gated :: "'v numpy \<Rightarrow> tensors \<Rightarrow> 'v body" where
  "body_rms_norm_gated np tas fam cs scalars m =
     bindr (rd64 np tas fam m 0) (\<lambda>x.
     bindr (rd64 np tas fam m 1) (\<lambda>gate.
     bindr (rd tas fam m 2) (\<lambda>g.
     bindr (tout tas fam 0) (\<lambda>y.
     bindr (bindr (dict_get (fam_params fam) ''eps'') (num_param np)) (\<lambda>eps.
     bindr (row_sel x cs) (\<lambda>sel.
     bindr (ev np (Ix (V x) sel)) (\<lambda>row.
     bindr (ev np (Ix (V gate) sel)) (\<lambda>g_row.
     bindr (ev np (nmul (rms_row row eps g) (V (stable_sigmoid np g_row)))) (\<lambda>v.
       store np y sel v m)))))))))"

section \<open>Rotary embedding\<close>

text \<open>\<^verbatim>\<open>np.concatenate((-row[half:], row[:half]))\<close>\<close>

definition rotated :: "'v nd \<Rightarrow> int \<Rightarrow> 'v nexp" where
  "rotated row half = Concat0 (Fn1 UNeg (Ix (V row) [From half])) (Ix (V row) [Upto half])"

definition last_dim :: "'v nd \<Rightarrow> int result" where
  "last_dim a = py_nth (nd_shape a) (-1)"

text \<open>The angle rows of position \<open>p\<close> cut to \<open>half\<close> columns.\<close>

definition half_angles ::
  "'v numpy \<Rightarrow> 'v nd \<Rightarrow> 'v nd \<Rightarrow> int \<Rightarrow> int \<Rightarrow> ('v nd \<times> 'v nd) result" where
  "half_angles np cos_t sin_t p half =
     bindr (ev np (AsF64 (Ix (Ix (V cos_t) [At p]) [Upto half]))) (\<lambda>c.
     bindr (ev np (AsF64 (Ix (Ix (V sin_t) [At p]) [Upto half]))) (\<lambda>s. Inr (c, s)))"

definition rope_pairs ::
  "'v numpy \<Rightarrow> 'v nd \<Rightarrow> ix \<Rightarrow> ix \<Rightarrow> 'v nd \<Rightarrow> 'v nd \<Rightarrow> 'v nd result" where
  "rope_pairs np row i1 i2 c s =
     bindr (ev np (Ix (V row) [i1])) (\<lambda>x1.
     bindr (ev np (Ix (V row) [i2])) (\<lambda>x2.
     bindr (ev np (nsub (nmul (V x1) (V c)) (nmul (V x2) (V s)))) (\<lambda>y1.
     bindr (nd_put [i1] y1 row) (\<lambda>out.
     bindr (ev np (nadd (nmul (V x2) (V c)) (nmul (V x1) (V s)))) (\<lambda>y2.
       nd_put [i2] y2 out)))))"

definition rope_row ::
  "'v numpy \<Rightarrow> TaskFamily \<Rightarrow> 'v nd \<Rightarrow> 'v nd \<Rightarrow> 'v nd \<Rightarrow> int \<Rightarrow> 'v nd result" where
  "rope_row np fam row cos_t sin_t p =
     (let conv = attr_get (fam_params fam) ''convention'' (VStr ''rotate_half'') in
      if conv = VStr ''neox_partial'' then
        bindr (bindr (dict_get (fam_params fam) ''rotary_dim'') as_int) (\<lambda>rot.
        bindr (half_angles np cos_t sin_t p (rot div 2)) (\<lambda>(c, s).
          rope_pairs np row (Upto (rot div 2)) (Slc (rot div 2) rot) c s))
      else if conv = VStr ''interleaved'' then
        bindr (bindr (dict_get (fam_params fam) ''rotary_dim'') as_int) (\<lambda>rot.
        bindr (half_angles np cos_t sin_t p (rot div 2)) (\<lambda>(c, s).
          rope_pairs np row (Rng (Some 0) (Some rot) 2) (Rng (Some 1) (Some rot) 2) c s))
      else
        bindr (last_dim row) (\<lambda>d.
        bindr (ev np (rotated row (d div 2))) (\<lambda>rt.
          ev np (nadd (nmul (V row) (AsF64 (Ix (V cos_t) [At p])))
                      (nmul (V rt) (AsF64 (Ix (V sin_t) [At p])))))))"

definition body_rope :: "'v numpy \<Rightarrow> tensors \<Rightarrow> 'v body" where
  "body_rope np tas fam cs scalars m =
     bindr (rd64 np tas fam m 0) (\<lambda>x.
     bindr (rd tas fam m 1) (\<lambda>cos_t.
     bindr (rd tas fam m 2) (\<lambda>sin_t.
     bindr (tout tas fam 0) (\<lambda>y.
     bindr (unpack2 cs) (\<lambda>(b, h).
     bindr (row_pos_value np tas fam b scalars m) (\<lambda>p.
     bindr (ev np (Ix (V x) [At b, At h])) (\<lambda>row.
     bindr (rope_row np fam row cos_t sin_t p) (\<lambda>out.
       store np y [At b, At h] out m))))))))"

section \<open>Element-wise operators and embedding\<close>

text \<open>\<^verbatim>\<open>g / (1.0 + np.exp(-g))\<close>\<close>

definition silu_div :: "'v nexp \<Rightarrow> 'v nexp" where
  "silu_div g = ndiv g (nadd (Lit 1 0) (Fn1 UExp (Fn1 UNeg g)))"

definition gelu_exp :: "'v numpy \<Rightarrow> 'v nd \<Rightarrow> 'v nexp" where
  "gelu_exp np x =
     nmul (nmul (Lit 5 (-1)) (V x))
       (nadd (Lit 1 0) (Fn1 UTanh
         (nmul (Fn1 USqrt (ndiv (Lit 2 0) (V (nd_scalar (Some (np_pi np))))))
               (nadd (V x) (nmul (Lit 44715 (-6)) (Fn1 UCube (V x)))))))"

definition flat_slice :: "'v nd \<Rightarrow> int \<Rightarrow> int \<Rightarrow> 'v nexp" where
  "flat_slice x lo hi = Ix (Reshape [-1] (V x)) [Slc lo hi]"

definition body_elementwise :: "'v numpy \<Rightarrow> tensors \<Rightarrow> 'v body" where
  "body_elementwise np tas fam cs scalars m =
     bindr (dict_get (fam_params fam) ''op'') (\<lambda>op.
     bindr (py_nth (td_dims (fam_domain fam)) 0) (\<lambda>(_, tile).
     bindr (py_nth cs 0) (\<lambda>c0.
     bindr (tin tas fam 0) (\<lambda>x_t.
     let lo = c0 * tile; hi = min (lo + tile) (prodl (ta_shape x_t)) in
     if op = VStr ''gelu'' then
       bindr (rd64 np tas fam m 0) (\<lambda>x.
       bindr (tout tas fam 0) (\<lambda>y.
       bindr (ev np (flat_slice x lo hi)) (\<lambda>flat_x.
       bindr (ev np (gelu_exp np flat_x)) (\<lambda>v. store_flat np y lo hi v m))))
     else if op = VStr ''swiglu'' then
       bindr (rd64 np tas fam m 0) (\<lambda>gate.
       bindr (rd64 np tas fam m 1) (\<lambda>up.
       bindr (tout tas fam 0) (\<lambda>out.
       bindr (ev np (flat_slice gate lo hi)) (\<lambda>g.
       bindr (ev np (flat_slice up lo hi)) (\<lambda>u.
       bindr (ev np (nmul (silu_div (V g)) (V u))) (\<lambda>v. store_flat np out lo hi v m))))))
     else
       bindr (rd tas fam m 0) (\<lambda>a.
       bindr (rd tas fam m 1) (\<lambda>b.
       bindr (tout tas fam 0) (\<lambda>out.
       bindr (ev np (nadd (flat_slice a lo hi) (flat_slice b lo hi))) (\<lambda>v. store_flat np out lo hi v m))))))))"

definition body_embedding :: "'v numpy \<Rightarrow> tensors \<Rightarrow> 'v body" where
  "body_embedding np tas fam cs scalars m =
     bindr (rd tas fam m 0) (\<lambda>ids.
     bindr (rd tas fam m 1) (\<lambda>token.
     bindr (if length (fam_inputs fam) > 2 then bindr (rd tas fam m 2) (\<lambda>p. Inr (Some p)) else Inr None) (\<lambda>pos.
     bindr (tout tas fam 0) (\<lambda>y.
     bindr (py_nth cs 0) (\<lambda>b.
     bindr (py_nth (ta_shape y) (-1)) (\<lambda>width.
     bindr (py_nth (td_dims (fam_domain fam)) 1) (\<lambda>(_, tile_c).
     bindr (bindr (task_grid (fam_domain fam)) (\<lambda>gr. py_nth gr 1)) (\<lambda>g1.
     bindr (if g1 = 1 then Inr 0 else bindr (py_nth cs 1) (\<lambda>c. Inr (c * tile_c))) (\<lambda>c0.
     let c1 = (if g1 = 1 then width else min (c0 + tile_c) width) in
     bindr (ev_int np (Ix (V ids) [At b])) (\<lambda>tok.
     bindr (ev np (AsF64 (Ix (V token) [At tok, Slc c0 c1]))) (\<lambda>row.
     bindr (case pos of
              None \<Rightarrow> Inr row
            | Some pt \<Rightarrow> bindr (row_pos_value np tas fam b scalars m) (\<lambda>p.
                ev np (nadd (V row) (AsF64 (Ix (V pt) [At p, Slc c0 c1]))))) (\<lambda>row.
       store np y [At b, Slc c0 c1] row m))))))))))))"

section \<open>Mixture of experts\<close>

definition moe_scores :: "'v numpy \<Rightarrow> 'v nd \<Rightarrow> TaskFamily \<Rightarrow> 'v nd result" where
  "moe_scores np logits fam =
     bindr (dict_get (fam_params fam) ''score_fn'') (\<lambda>sf.
       if sf = VStr ''sigmoid_noaux_tc''
       then ev np (Fn1 UExp (Fn1 UNeg (Bin ULogaddexp (Lit 0 0) (Fn1 UNeg (V logits)))))
       else ev np (Fn1 USqrt (Bin ULogaddexp (Lit 0 0) (V logits))))"

definition moe_topk_stable :: "'v numpy \<Rightarrow> 'v cell list \<Rightarrow> int \<Rightarrow> int list" where
  "moe_topk_stable np choice k = py_upto k (argsort np (map (np_u1 np UNeg) choice))"

text \<open>The groups' sums of their two best scores, and the mask of the chosen groups.\<close>

definition group_scores :: "'v numpy \<Rightarrow> 'v nd \<Rightarrow> 'v cell list" where
  "group_scores np groups =
     map (\<lambda>g. np_reduce np RSum (take 2 (rev (sort_by (sort_less np)
                 (map (\<lambda>i. nd_at groups [g, i]) (urange (nd_shape groups ! 1)))))))
       (urange (nd_shape groups ! 0))"

definition group_mask :: "'v numpy \<Rightarrow> int \<Rightarrow> int \<Rightarrow> int list \<Rightarrow> 'v nd result" where
  "group_mask np e w g_order =
     bindr (nd_const [e] (np_u1 np UNeg (Some (np_inf np)))) (\<lambda>mask.
       foldr_res (\<lambda>mask g. nd_put [Slc (g * w) ((g + 1) * w)]
                              (nd_scalar (Some (np_float np (FLit 0 0)))) mask) mask g_order)"

definition restrict_groups :: "'v numpy \<Rightarrow> TaskFamily \<Rightarrow> 'v nd \<Rightarrow> 'v nd result" where
  "restrict_groups np fam choice =
     bindr (dict_get (fam_params fam) ''score_fn'') (\<lambda>sf.
     if sf \<noteq> VStr ''sigmoid_noaux_tc'' then Inr choice
     else
       bindr (bindr (dict_get (fam_params fam) ''n_group'') as_int) (\<lambda>n_group.
       if n_group \<le> 1 then Inr choice
       else
         bindr (bindr (dict_get (fam_params fam) ''topk_group'') as_int) (\<lambda>topk_group.
         bindr (py_nth (nd_shape choice) 0) (\<lambda>e.
         bindr (nd_reshape [n_group, e div n_group] choice) (\<lambda>groups.
         bindr (group_mask np e (e div n_group)
                  (moe_topk_stable np (group_scores np groups) topk_group)) (\<lambda>mask.
           ev np (nadd (V choice) (V mask))))))))"

text \<open>\<^verbatim>\<open>w / (w.sum() + 1e-20)\<close>\<close>

definition renorm :: "'v nd \<Rightarrow> 'v nexp" where
  "renorm w = ndiv (V w) (nadd (RedAll RSum (V w)) (Lit 1 (-20)))"

definition route_hash ::
  "'v numpy \<Rightarrow> tensors \<Rightarrow> TaskFamily \<Rightarrow> int \<Rightarrow> 'v nd \<Rightarrow> 'v Mem \<Rightarrow> (int list \<times> 'v nd) result" where
  "route_hash np tas fam r scores m =
     bindr (rd tas fam m 4) (\<lambda>tid2eid.
     bindr (rd tas fam m 5) (\<lambda>token_ids.
     bindr (ev_int np (Ix (V token_ids) [At r])) (\<lambda>tok.
     bindr (ev_ints np (Ix (V tid2eid) [At tok, Full])) (\<lambda>sel.
     bindr (ev np (Ix (V scores) [Gather sel])) (\<lambda>w.
     bindr (ev np (renorm w)) (\<lambda>w. Inr (sel, w)))))))"

definition route_learned ::
  "'v numpy \<Rightarrow> tensors \<Rightarrow> TaskFamily \<Rightarrow> int \<Rightarrow> 'v nd \<Rightarrow> 'v Mem \<Rightarrow> (int list \<times> 'v nd) result" where
  "route_learned np tas fam k scores m =
     bindr (if truthy (attr_get (fam_params fam) ''routed_bias'' VNone)
            then bindr (rd64 np tas fam m 4) (\<lambda>b. ev np (nadd (V scores) (V b))) else Inr scores) (\<lambda>choice.
     bindr (restrict_groups np fam choice) (\<lambda>choice.
     let sel = moe_topk_stable np (cells_of choice) k in
     bindr (ev np (Ix (V scores) [Gather sel])) (\<lambda>w.
     bindr (if truthy (attr_get (fam_params fam) ''norm_topk_prob'' (VBool False)) then ev np (renorm w)
            else Inr w) (\<lambda>w. Inr (sel, w)))))"

definition body_moe_route :: "'v numpy \<Rightarrow> tensors \<Rightarrow> 'v body" where
  "body_moe_route np tas fam cs scalars m =
     bindr (rd64 np tas fam m 0) (\<lambda>x.
     bindr (rd64 np tas fam m 1) (\<lambda>router_w.
     bindr (tin tas fam 2) (\<lambda>ids.
     bindr (tin tas fam 3) (\<lambda>weights.
     bindr (py_nth cs 0) (\<lambda>r.
     bindr (bindr (dict_get (fam_params fam) ''top_k'') as_int) (\<lambda>k.
     bindr (bindr (dict_get (fam_params fam) ''routed_scaling_factor'') (num_param np)) (\<lambda>rsf.
     bindr (ev np (MatMul (V router_w) (Ix (V x) [At r]))) (\<lambda>logits.
     bindr (moe_scores np logits fam) (\<lambda>scores.
     bindr (dict_get (fam_params fam) ''mode'') (\<lambda>mode.
     bindr (if mode = VStr ''hash'' then route_hash np tas fam r scores m
            else route_learned np tas fam k scores m) (\<lambda>(sel, w).
     bindr (store np ids [At r, Full] (nd_ints np sel) m) (\<lambda>m.
     bindr (ev np (nmul (V w) (V rsf))) (\<lambda>v.
       store np weights [At r, Full] v m)))))))))))))"

definition clamp_swiglu :: "'v numpy \<Rightarrow> pyval \<Rightarrow> 'v nd \<Rightarrow> 'v nd \<Rightarrow> ('v nd \<times> 'v nd) result" where
  "clamp_swiglu np limit g u =
     (if limit = VNone then Inr (g, u)
      else bindr (num_param np limit) (\<lambda>lim.
           bindr (ev np (Bin UMinimum (V g) (V lim))) (\<lambda>g.
           bindr (ev np (Bin UMinimum (Bin UMaximum (V u) (Fn1 UNeg (V lim))) (V lim))) (\<lambda>u. Inr (g, u)))))"

definition body_moe_expert :: "'v numpy \<Rightarrow> tensors \<Rightarrow> 'v body" where
  "body_moe_expert np tas fam cs scalars m =
     bindr (rd64 np tas fam m 0) (\<lambda>x.
     bindr (rd64 np tas fam m 1) (\<lambda>gate_up.
     bindr (rd64 np tas fam m 2) (\<lambda>down.
     bindr (rd tas fam m 3) (\<lambda>ids.
     bindr (tout tas fam 0) (\<lambda>partials.
     bindr (unpack2 cs) (\<lambda>(r, s).
     bindr (ev_int np (Ix (V ids) [At r, At s])) (\<lambda>e.
     bindr (ev np (MatMul (Ix (V gate_up) [At e]) (Ix (V x) [At r]))) (\<lambda>gu.
     bindr (py_nth (nd_shape gu) 0) (\<lambda>n.
     bindr (ev np (Ix (V gu) [Upto (n div 2)])) (\<lambda>g.
     bindr (ev np (Ix (V gu) [From (n div 2)])) (\<lambda>u.
     bindr (clamp_swiglu np (attr_get (fam_params fam) ''swiglu_limit'' VNone) g u) (\<lambda>(g, u).
     bindr (ev np (nmul (silu_div (V g)) (V u))) (\<lambda>act.
     bindr (ev np (MatMul (Ix (V down) [At e]) (V act))) (\<lambda>v.
       store np partials [At r, At s, Full] v m))))))))))))))"

definition body_moe_combine :: "'v numpy \<Rightarrow> tensors \<Rightarrow> 'v body" where
  "body_moe_combine np tas fam cs scalars m =
     bindr (rd64 np tas fam m 0) (\<lambda>partials.
     bindr (rd64 np tas fam m 1) (\<lambda>weights.
     bindr (tout tas fam 0) (\<lambda>y.
     bindr (py_nth cs 0) (\<lambda>r.
     bindr (py_nth (nd_shape partials) 1) (\<lambda>k.
     bindr (py_nth (nd_shape partials) 2) (\<lambda>c.
     bindr (nd_zeros np [c]) (\<lambda>acc.
     bindr (foldr_res (\<lambda>acc s. ev np (nadd (V acc)
              (nmul (Ix (V weights) [At r, At s]) (Ix (V partials) [At r, At s])))) acc (urange k)) (\<lambda>acc.
     bindr (if length (fam_inputs fam) > 2
            then bindr (rd64 np tas fam m 2) (\<lambda>d. ev np (nadd (V acc) (Ix (V d) [At r]))) else Inr acc) (\<lambda>acc.
       store np y [At r, Full] acc m)))))))))"

end
