(* ===== verification/Bodies_Attention.thy ===== *)
theory Bodies_Attention
  imports Bodies_Dense
begin

text \<open>
  The attention task bodies of \<^verbatim>\<open>compiler/reference_attention.py\<close>.  A view is read when the code reads
  it: after a store the model reads the stored memory.
\<close>

section \<open>Output-side rotation\<close>

definition conjugate_row ::
  "'v numpy \<Rightarrow> TaskFamily \<Rightarrow> 'v nd \<Rightarrow> 'v nd \<Rightarrow> 'v nd \<Rightarrow> 'v nd \<Rightarrow> 'v nd \<Rightarrow> int \<Rightarrow> int \<Rightarrow> 'v nd result" where
  "conjugate_row np fam row cos_t sin_t c s p rot =
     (if attr_get (fam_params fam) ''convention'' (VStr ''interleaved'') = VStr ''interleaved'' then
        bindr (ev np (Ix (V row) [Rng (Some 0) (Some rot) 2])) (\<lambda>x_even.
        bindr (ev np (Ix (V row) [Rng (Some 1) (Some rot) 2])) (\<lambda>x_odd.
        bindr (ev np (nadd (nmul (V x_even) (V c)) (nmul (V x_odd) (V s)))) (\<lambda>y0.
        bindr (nd_put [Rng (Some 0) (Some rot) 2] y0 row) (\<lambda>out.
        bindr (ev np (nsub (nmul (V x_odd) (V c)) (nmul (V x_even) (V s)))) (\<lambda>y1.
          nd_put [Rng (Some 1) (Some rot) 2] y1 out)))))
      else
        bindr (last_dim row) (\<lambda>d.
        bindr (ev np (rotated row (d div 2))) (\<lambda>rt.
          ev np (nsub (nmul (V row) (AsF64 (Ix (V cos_t) [At p])))
                      (nmul (V rt) (AsF64 (Ix (V sin_t) [At p])))))))"

definition body_conjugate_rope :: "'v numpy \<Rightarrow> tensors \<Rightarrow> 'v body" where
  "body_conjugate_rope np tas fam cs scalars m =
     bindr (rd64 np tas fam m 0) (\<lambda>x.
     bindr (rd tas fam m 1) (\<lambda>cos_t.
     bindr (rd tas fam m 2) (\<lambda>sin_t.
     bindr (tout tas fam 0) (\<lambda>y.
     bindr (unpack2 cs) (\<lambda>(b, h).
     bindr (row_pos_value np tas fam b scalars m) (\<lambda>p.
     bindr (bindr (dict_get (fam_params fam) ''rotary_dim'') as_int) (\<lambda>rot.
     bindr (half_angles np cos_t sin_t p (rot div 2)) (\<lambda>(c, s).
     bindr (ev np (Ix (V x) [At b, At h])) (\<lambda>row.
     bindr (conjugate_row np fam row cos_t sin_t c s p rot) (\<lambda>out.
       store np y [At b, At h] out m))))))))))"

section \<open>Multi-head latent attention\<close>

definition neg_inf :: "'v numpy \<Rightarrow> 'v cell" where
  "neg_inf np = np_u1 np UNeg (Some (np_inf np))"

text \<open>The logical window positions: \<^verbatim>\<open>(i, t)\<close> for the slots that hold a valid position.\<close>

definition window_slots :: "int \<Rightarrow> int \<Rightarrow> (int \<times> int) list" where
  "window_slots W p =
     filter (\<lambda>(i, t). max 0 (p - W + 1) \<le> t \<and> t \<le> p) (map (\<lambda>i. (i, p - W + 1 + i)) (urange W))"

definition mla_window_logit ::
  "'v numpy \<Rightarrow> 'v nd \<Rightarrow> 'v nd \<Rightarrow> 'v nd \<Rightarrow> 'v nd \<Rightarrow> int \<Rightarrow> 'v nd \<Rightarrow> int \<times> int \<Rightarrow> 'v nd result" where
  "mla_window_logit np latent window_table qb scale b logits it =
     bindr (ev_int np (Ix (V window_table) [At b, At (snd it)])) (\<lambda>slot.
     bindr (ev np (Ix (V latent) [At b, At slot])) (\<lambda>row.
     bindr (ev_float np (MatMul (V row) (V qb))) (\<lambda>d.
     bindr (ev np (nmul (V d) (V scale))) (\<lambda>lg. nd_put [At (fst it)] lg logits))))"

definition mla_comp_logit ::
  "'v numpy \<Rightarrow> 'v nd \<Rightarrow> 'v nd \<Rightarrow> 'v nd option \<Rightarrow> 'v nd \<Rightarrow> 'v nd \<Rightarrow> int \<Rightarrow> int \<Rightarrow> 'v nd \<Rightarrow> int \<Rightarrow> 'v nd result" where
  "mla_comp_logit np comp_pool comp_idx bias qb scale b W logits j =
     bindr (ev_int np (Ix (V comp_idx) [At b, At j])) (\<lambda>e.
     if e < 0 then Inr logits
     else
       bindr (ev_float np (MatMul (Ix (V comp_pool) [At b, At e]) (V qb))) (\<lambda>d.
       bindr (ev np (nmul (V d) (V scale))) (\<lambda>lg.
       bindr (case bias of
                None \<Rightarrow> Inr lg
              | Some bs \<Rightarrow> bindr (ev_float np (Ix (V bs) [At b, At j])) (\<lambda>f. ev np (nadd (V lg) (V f)))) (\<lambda>lg.
         nd_put [At (W + j)] lg logits))))"

definition masked_softmax :: "'v numpy \<Rightarrow> 'v nd \<Rightarrow> 'v nd result" where
  "masked_softmax np logits =
     bindr (ev np (RedAll RMax (V logits))) (\<lambda>mx.
     bindr (ev np (Fn1 UExp (nsub (V logits) (V mx)))) (\<lambda>e.
     let e = mk_nd (nd_shape e) (\<lambda>i. if np_isfinite np (nd_at logits i) then nd_at e i
                                     else Some (np_float np (FLit 0 0))) in
       ev np (ndiv (V e) (RedAll RSum (V e)))))"

definition body_mla_scores :: "'v numpy \<Rightarrow> tensors \<Rightarrow> 'v body" where
  "body_mla_scores np tas fam cs scalars m =
     bindr (rd64 np tas fam m 0) (\<lambda>q.
     bindr (rd64 np tas fam m 1) (\<lambda>latent.
     bindr (rd tas fam m 2) (\<lambda>window_table.
     bindr (rd64 np tas fam m 3) (\<lambda>comp_pool.
     bindr (rd tas fam m 4) (\<lambda>comp_idx.
     bindr (rd64 np tas fam m 5) (\<lambda>sink.
     bindr (if length (fam_inputs fam) > 6 then bindr (rd64 np tas fam m 6) (\<lambda>a. Inr (Some a)) else Inr None) (\<lambda>bias.
     bindr (tout tas fam 0) (\<lambda>y.
     bindr (unpack2 cs) (\<lambda>(b, h).
     bindr (row_pos_value np tas fam b scalars m) (\<lambda>p.
     bindr (bindr (dict_get (fam_params fam) ''window'') as_int) (\<lambda>W.
     bindr (bindr (dict_get (fam_params fam) ''comp_slots'') as_int) (\<lambda>K.
     bindr (bindr (dict_get (fam_params fam) ''scale'') (num_param np)) (\<lambda>scale.
     bindr (ev np (Ix (V q) [At b, At h])) (\<lambda>qb.
     bindr (nd_const [W + K + 1] (neg_inf np)) (\<lambda>logits.
     bindr (foldr_res (mla_window_logit np latent window_table qb scale b) logits (window_slots W p)) (\<lambda>logits.
     bindr (foldr_res (mla_comp_logit np comp_pool comp_idx bias qb scale b W) logits (urange K)) (\<lambda>logits.
     bindr (ev_float np (Ix (V sink) (if length (nd_shape sink) = 2 then [At b, At h] else [At h]))) (\<lambda>sk.
     bindr (nd_put [At (W + K)] sk logits) (\<lambda>logits.
     bindr (masked_softmax np logits) (\<lambda>v.
       store np y [At b, At h, Full] v m))))))))))))))))))))"

definition body_mla_values :: "'v numpy \<Rightarrow> tensors \<Rightarrow> 'v body" where
  "body_mla_values np tas fam cs scalars m =
     bindr (rd64 np tas fam m 0) (\<lambda>probs.
     bindr (rd64 np tas fam m 1) (\<lambda>latent.
     bindr (rd tas fam m 2) (\<lambda>window_table.
     bindr (rd64 np tas fam m 3) (\<lambda>comp_pool.
     bindr (rd tas fam m 4) (\<lambda>comp_idx.
     bindr (tout tas fam 0) (\<lambda>y.
     bindr (unpack2 cs) (\<lambda>(b, h).
     bindr (row_pos_value np tas fam b scalars m) (\<lambda>p.
     bindr (bindr (dict_get (fam_params fam) ''window'') as_int) (\<lambda>W.
     bindr (bindr (dict_get (fam_params fam) ''comp_slots'') as_int) (\<lambda>K.
     bindr (py_nth (ta_shape y) 2) (\<lambda>d.
     bindr (nd_zeros np [d]) (\<lambda>acc.
     bindr (foldr_res (\<lambda>acc (i, t).
              bindr (ev_int np (Ix (V window_table) [At b, At t])) (\<lambda>slot.
                ev np (nadd (V acc) (nmul (Ix (V probs) [At b, At h, At i]) (Ix (V latent) [At b, At slot])))))
              acc (window_slots W p)) (\<lambda>acc.
     bindr (foldr_res (\<lambda>acc j.
              bindr (ev_int np (Ix (V comp_idx) [At b, At j])) (\<lambda>e.
                if e < 0 then Inr acc
                else ev np (nadd (V acc) (nmul (Ix (V probs) [At b, At h, At (W + j)])
                                               (Ix (V comp_pool) [At b, At e])))))
              acc (urange K)) (\<lambda>acc.
       store np y [At b, At h, Full] acc m))))))))))))))"

section \<open>Indexer\<close>

definition body_indexer_scores :: "'v numpy \<Rightarrow> tensors \<Rightarrow> 'v body" where
  "body_indexer_scores np tas fam cs scalars m =
     bindr (rd64 np tas fam m 0) (\<lambda>q.
     bindr (rd64 np tas fam m 1) (\<lambda>c.
     bindr (rd64 np tas fam m 2) (\<lambda>w.
     bindr (tout tas fam 0) (\<lambda>s.
     bindr (bindr (dict_get (fam_params fam) ''scale'') (num_param np)) (\<lambda>scale.
     bindr (py_nth (td_dims (fam_domain fam)) 1) (\<lambda>(m_extent, m_tile).
     bindr (unpack2 cs) (\<lambda>(b, t).
     let m0 = t * m_tile; m1 = min (t * m_tile + m_tile) m_extent in
     bindr (ev np (nmul (Bin UMaximum (MatMul (Ix (V q) [At b]) (Transp (Ix (V c) [At b, Slc m0 m1]))) (Lit 0 0))
                        (V scale))) (\<lambda>scores.
     bindr (ev np (Red0 RSum (nmul (V scores) (Ix (Ix (V w) [At b]) [Full, NewAxis])))) (\<lambda>v.
       store np s [At b, Slc m0 m1] v m)))))))))"

text \<open>
  Top-k by comparison counting: \<open>cand\<close> marks the finite scores of the valid prefix and the rank of \<open>j\<close>
  counts the better candidates and the equal ones before it.
\<close>

definition topk_cand :: "'v numpy \<Rightarrow> 'v cell list \<Rightarrow> int \<Rightarrow> int \<Rightarrow> bool" where
  "topk_cand np row vc i \<longleftrightarrow> i < vc \<and> np_isfinite np (row ! nat i)"

definition topk_rank :: "'v numpy \<Rightarrow> 'v cell list \<Rightarrow> int \<Rightarrow> int \<Rightarrow> int" where
  "topk_rank np row vc j =
     (let idx = urange (int (length row)) in
      int (length (filter (\<lambda>i. np_less np (row ! nat j) (row ! nat i) \<and> topk_cand np row vc i) idx))
      + int (length (filter (\<lambda>i. np_equal np (row ! nat i) (row ! nat j) \<and> topk_cand np row vc i \<and> i < j) idx)))"

definition topk_sel :: "'v numpy \<Rightarrow> 'v cell list \<Rightarrow> int \<Rightarrow> int \<Rightarrow> int list" where
  "topk_sel np row vc k =
     filter (\<lambda>j. topk_cand np row vc j \<and> topk_rank np row vc j < k) (urange (int (length row)))"

text \<open>\<^verbatim>\<open>out[rank[sel]] = f(sel)\<close>.\<close>

definition scatter_rank :: "(int \<Rightarrow> int) \<Rightarrow> (int \<Rightarrow> 'a) \<Rightarrow> int list \<Rightarrow> 'a list \<Rightarrow> 'a list" where
  "scatter_rank rank f sel out = foldl (\<lambda>out j. out[nat (rank j) := f j]) out sel"

definition topk_norm :: "'v numpy \<Rightarrow> 'v cell list \<Rightarrow> int \<Rightarrow> 'v cell" where
  "topk_norm np row vc =
     (let vf = filter (np_isfinite np) (take (nat vc) row) in
      if vc > 0 \<and> vf \<noteq> [] then np_u1 np USqrt (np_reduce np RSum (map (np_u1 np USquare) vf))
      else Some (np_float np (FLit 0 0)))"

definition topk_row :: "'v numpy \<Rightarrow> 'v cell list \<Rightarrow> int \<Rightarrow> int \<Rightarrow> int list \<times> 'v cell list" where
  "topk_row np row vc k =
     (let zero = Some (np_float np (FLit 0 0)); sel = topk_sel np row vc k; norm = topk_norm np row vc in
      (scatter_rank (topk_rank np row vc) (\<lambda>j. j) sel (replicate (nat k) (-1)),
       if np_less np zero norm
       then scatter_rank (topk_rank np row vc) (\<lambda>j. np_u2 np UDiv (row ! nat j) norm) sel (replicate (nat k) zero)
       else replicate (nat k) zero))"

definition nd_list :: "'v cell list \<Rightarrow> 'v nd" where
  "nd_list cs = mk_nd [int (length cs)] (\<lambda>j. cs ! nat (hd j))"

definition body_index_topk :: "'v numpy \<Rightarrow> tensors \<Rightarrow> 'v body" where
  "body_index_topk np tas fam cs scalars m =
     bindr (rd64 np tas fam m 0) (\<lambda>s.
     bindr (rd tas fam m 1) (\<lambda>valid.
     bindr (tout tas fam 0) (\<lambda>idx.
     bindr (tout tas fam 1) (\<lambda>bias.
     bindr (bindr (dict_get (fam_params fam) ''k'') as_int) (\<lambda>k.
     bindr (unpack1 cs) (\<lambda>b.
     bindr (ev np (Ix (V s) [At b])) (\<lambda>row.
     bindr (py_nth (nd_shape row) 0) (\<lambda>n.
     bindr (ev_int np (Ix (V valid) [At b])) (\<lambda>vc.
     let vc = max 0 (min vc n) in
     if k < 0 then Inl ValueError
     else
     case topk_row np (cells_of row) vc k of (idx_row, bias_row) \<Rightarrow>
     bindr (store np idx [At b, Full] (nd_ints np idx_row) m) (\<lambda>m.
       store np bias [At b, Full] (nd_list bias_row) m))))))))))"

section \<open>Cache append\<close>

definition body_cache_append :: "'v numpy \<Rightarrow> tensors \<Rightarrow> 'v body" where
  "body_cache_append np tas fam cs scalars m =
     bindr (tin tas fam 0) (\<lambda>k_cache.
     bindr (tin tas fam 1) (\<lambda>v_cache.
     bindr (rd tas fam m 2) (\<lambda>k_new.
     bindr (tin tas fam 3) (\<lambda>_.
     bindr (unpack2 cs) (\<lambda>(b, h).
     bindr (row_pos_value np tas fam b scalars m) (\<lambda>p.
     bindr (ev np (Ix (V k_new) [At b, At h, Full])) (\<lambda>kv.
     bindr (store np k_cache [At b, At h, At p, Full] kv m) (\<lambda>m.
     bindr (rd tas fam m 3) (\<lambda>v_new.
     bindr (ev np (Ix (V v_new) [At b, At h, Full])) (\<lambda>vv.
       store np v_cache [At b, At h, At p, Full] vv m))))))))))"

definition body_cache_append_paged :: "'v numpy \<Rightarrow> tensors \<Rightarrow> 'v body" where
  "body_cache_append_paged np tas fam cs scalars m =
     bindr (tin tas fam 0) (\<lambda>k_pool.
     bindr (tin tas fam 1) (\<lambda>v_pool.
     bindr (rd tas fam m 2) (\<lambda>table.
     bindr (rd tas fam m 3) (\<lambda>k_new.
     bindr (tin tas fam 4) (\<lambda>_.
     bindr (unpack2 cs) (\<lambda>(b, h).
     bindr (row_pos_value np tas fam b scalars m) (\<lambda>p.
     bindr (ev_int np (Ix (V table) [At b, At p])) (\<lambda>slot.
     bindr (ev np (Ix (V k_new) [At b, At h, Full])) (\<lambda>kv.
     bindr (store np k_pool [At slot, At h, Full] kv m) (\<lambda>m.
     bindr (rd tas fam m 4) (\<lambda>v_new.
     bindr (ev np (Ix (V v_new) [At b, At h, Full])) (\<lambda>vv.
       store np v_pool [At slot, At h, Full] vv m))))))))))))"

section \<open>Scores, softmax and values\<close>

text \<open>\<^verbatim>\<open>h // group if group > 1 else h\<close>\<close>

definition kv_head :: "TaskFamily \<Rightarrow> int \<Rightarrow> int result" where
  "kv_head fam h =
     bindr (as_int (attr_get (fam_params fam) ''group'' (VInt 1))) (\<lambda>g. Inr (if g > 1 then h div g else h))"

definition body_attention_scores_paged :: "'v numpy \<Rightarrow> tensors \<Rightarrow> 'v body" where
  "body_attention_scores_paged np tas fam cs scalars m =
     bindr (rd64 np tas fam m 0) (\<lambda>q.
     bindr (rd64 np tas fam m 1) (\<lambda>k_pool.
     bindr (rd tas fam m 2) (\<lambda>table.
     bindr (tout tas fam 0) (\<lambda>y.
     bindr (unpack2 cs) (\<lambda>(b, h).
     bindr (kv_head fam h) (\<lambda>kvh.
     bindr (row_pos_value np tas fam b scalars m) (\<lambda>p.
     bindr (bindr (dict_get (fam_params fam) ''scale'') (num_param np)) (\<lambda>scale.
     bindr (ev_ints np (Ix (V table) [At b, Upto (p + 1)])) (\<lambda>slots.
     bindr (ev np (nmul (MatMul (Ix (V k_pool) [Gather slots, At kvh, Full]) (Ix (V q) [At b, At h, Full]))
                        (V scale))) (\<lambda>v.
       store np y [At b, At h, Upto (p + 1)] v m))))))))))"

definition body_attention_values_paged :: "'v numpy \<Rightarrow> tensors \<Rightarrow> 'v body" where
  "body_attention_values_paged np tas fam cs scalars m =
     bindr (rd64 np tas fam m 0) (\<lambda>probs.
     bindr (rd64 np tas fam m 1) (\<lambda>v_pool.
     bindr (rd tas fam m 2) (\<lambda>table.
     bindr (tout tas fam 0) (\<lambda>y.
     bindr (unpack2 cs) (\<lambda>(b, h).
     bindr (kv_head fam h) (\<lambda>kvh.
     bindr (row_pos_value np tas fam b scalars m) (\<lambda>p.
     bindr (ev_ints np (Ix (V table) [At b, Upto (p + 1)])) (\<lambda>slots.
     bindr (ev np (MatMul (Ix (V probs) [At b, At h, Upto (p + 1)]) (Ix (V v_pool) [Gather slots, At kvh, Full]))) (\<lambda>v.
       store np y [At b, At h, Full] v m)))))))))"

definition body_attention_scores :: "'v numpy \<Rightarrow> tensors \<Rightarrow> 'v body" where
  "body_attention_scores np tas fam cs scalars m =
     bindr (rd64 np tas fam m 0) (\<lambda>q.
     bindr (rd64 np tas fam m 1) (\<lambda>k_cache.
     bindr (tout tas fam 0) (\<lambda>y.
     bindr (unpack2 cs) (\<lambda>(b, h).
     bindr (kv_head fam h) (\<lambda>kvh.
     bindr (valid_len np tas fam b scalars m) (\<lambda>vlen.
     bindr (bindr (dict_get (fam_params fam) ''scale'') (num_param np)) (\<lambda>scale.
     bindr (ev np (nmul (MatMul (Ix (V k_cache) [At b, At kvh, Upto vlen, Full]) (Ix (V q) [At b, At h, Full]))
                        (V scale))) (\<lambda>v.
       store np y [At b, At h, Upto vlen] v m))))))))"

definition body_softmax :: "'v numpy \<Rightarrow> tensors \<Rightarrow> 'v body" where
  "body_softmax np tas fam cs scalars m =
     bindr (rd64 np tas fam m 0) (\<lambda>x.
     bindr (tout tas fam 0) (\<lambda>y.
     bindr (unpack2 cs) (\<lambda>(b, h).
     bindr (valid_len np tas fam b scalars m) (\<lambda>vlen.
     bindr (ev np (Ix (V x) [At b, At h, Upto vlen])) (\<lambda>row.
     bindr (ev np (nsub (V row) (RedAll RMax (V row)))) (\<lambda>row.
     bindr (ev np (Fn1 UExp (V row))) (\<lambda>e.
     bindr (ev np (ndiv (V e) (RedAll RSum (V e)))) (\<lambda>v.
     bindr (store np y [At b, At h, Upto vlen] v m) (\<lambda>m.
       store np y [At b, At h, From vlen] (nd_scalar (Some (np_float np (FLit 0 0)))) m)))))))))"

definition body_attention_values :: "'v numpy \<Rightarrow> tensors \<Rightarrow> 'v body" where
  "body_attention_values np tas fam cs scalars m =
     bindr (rd64 np tas fam m 0) (\<lambda>probs.
     bindr (rd64 np tas fam m 1) (\<lambda>v_cache.
     bindr (tout tas fam 0) (\<lambda>y.
     bindr (unpack2 cs) (\<lambda>(b, h).
     bindr (kv_head fam h) (\<lambda>kvh.
     bindr (valid_len np tas fam b scalars m) (\<lambda>vlen.
     bindr (ev np (MatMul (Ix (V probs) [At b, At h, Upto vlen]) (Ix (V v_cache) [At b, At kvh, Upto vlen, Full]))) (\<lambda>acc.
     bindr (if truthy (attr_get (fam_params fam) ''gated'' (VBool False))
            then bindr (rd64 np tas fam m 2) (\<lambda>gate.
                 bindr (ev np (Ix (V gate) [At b, At h, Full])) (\<lambda>g.
                   ev np (nmul (V acc) (V (stable_sigmoid np g)))))
            else Inr acc) (\<lambda>acc.
       store np y [At b, At h, Full] acc m))))))))"

end
