(* ===== verification/Bodies_Recurrent.thy ===== *)
theory Bodies_Recurrent
  imports Bodies_Attention
begin

text \<open>
  The recurrent task bodies of \<^verbatim>\<open>compiler/reference_recurrent.py\<close>: the compressed-entry append, short
  convolutions, hyper-connections and the delta rules with their in-place state.
\<close>

section \<open>Compressed entries\<close>

text \<open>The emitted entry: softmax-weighted window, RMS norm and rotation by halves.\<close>

definition compressor_entry ::
  "'v numpy \<Rightarrow> 'v nd \<Rightarrow> 'v nd \<Rightarrow> 'v nd \<Rightarrow> 'v nd \<Rightarrow> 'v nd \<Rightarrow> 'v nd \<Rightarrow> int \<Rightarrow> 'v nd result" where
  "compressor_entry np window gates rms_w cos_r sin_r eps b =
     bindr (ev np (AsF64 (Ix (V gates) [At b]))) (\<lambda>g.
     bindr (ev np (RedAll RMax (V g))) (\<lambda>gmax.
     bindr (ev np (Fn1 UExp (nsub (V g) (V gmax)))) (\<lambda>ex.
     bindr (ev np (ndiv (V ex) (RedAll RSum (V ex)))) (\<lambda>w.
     bindr (ev np (Red0 RSum (nmul (Ix (V w) [Full, NewAxis]) (AsF64 (Ix (V window) [At b]))))) (\<lambda>e.
     bindr (ev np (nmul (nmul (V e) (Fn1 UReciprocal (Fn1 USqrt (nadd (RedAll RMean (nmul (V e) (V e))) (V eps)))))
                        (AsF64 (V rms_w)))) (\<lambda>e.
     bindr (py_nth (nd_shape e) 0) (\<lambda>n.
     bindr (ev np (AsF64 (Ix (V cos_r) [At b]))) (\<lambda>ch.
     bindr (ev np (AsF64 (Ix (V sin_r) [At b]))) (\<lambda>sh.
     bindr (ev np (Ix (V e) [Upto (n div 2)])) (\<lambda>e1.
     bindr (ev np (Ix (V e) [From (n div 2)])) (\<lambda>e2.
       ev np (Concat0 (nsub (nmul (V e1) (V ch)) (nmul (V e2) (V sh)))
                      (nadd (nmul (V e2) (V ch)) (nmul (V e1) (V sh)))))))))))))))"

text \<open>The series bookkeeping: a completed series swaps the slots.\<close>

definition compressor_advance ::
  "'v numpy \<Rightarrow> tensor_array \<Rightarrow> int \<Rightarrow> int \<Rightarrow> int \<Rightarrow> int \<Rightarrow> int \<Rightarrow> 'v Mem \<Rightarrow> 'v Mem result" where
  "compressor_advance np state b l slot cb_len R m =
     (if cb_len = R then
        bindr (store np state [At b, At l, At 0] (nd_scalar (Some (np_int np (1 - slot)))) m) (\<lambda>m.
          store np state [At b, At l, At 1] (nd_scalar (Some (np_int np 0))) m)
      else store np state [At b, At l, At 1] (nd_scalar (Some (np_int np cb_len))) m)"

definition body_compressor_append :: "'v numpy \<Rightarrow> tensors \<Rightarrow> 'v body" where
  "body_compressor_append np tas fam cs scalars m =
     bindr (tin tas fam 0) (\<lambda>pool.
     bindr (tin tas fam 1) (\<lambda>state.
     bindr (rd tas fam m 1) (\<lambda>st.
     bindr (rd tas fam m 2) (\<lambda>window.
     bindr (rd tas fam m 3) (\<lambda>gates.
     bindr (rd tas fam m 4) (\<lambda>rms_w.
     bindr (rd tas fam m 5) (\<lambda>cos_r.
     bindr (rd tas fam m 6) (\<lambda>sin_r.
     bindr (unpack2 cs) (\<lambda>(b, l).
     bindr (row_pos_value np tas fam b scalars m) (\<lambda>p.
     bindr (bindr (dict_get (fam_params fam) ''m'') as_int) (\<lambda>mm.
     bindr (py_mod p mm) (\<lambda>pm.
     if pm \<noteq> mm - 1 then Inr m
     else
     bindr (bindr (dict_get (fam_params fam) ''r'') as_int) (\<lambda>r.
     bindr (py_floordiv r mm) (\<lambda>R.
     bindr (bindr (dict_get (fam_params fam) ''eps'') (num_param np)) (\<lambda>eps.
     bindr (ev_int np (Ix (V st) [At b, At l, At 0])) (\<lambda>slot.
     bindr (ev_int np (Ix (V st) [At b, At l, At 1])) (\<lambda>cb_len.
     bindr (compressor_entry np window gates rms_w cos_r sin_r eps b) (\<lambda>e_rot.
     bindr (store np pool [At b, At l, At slot, At cb_len, Full] e_rot m) (\<lambda>m.
       compressor_advance np state b l slot (cb_len + 1) R m)))))))))))))))))))"

section \<open>Short convolution\<close>

text \<open>\<^verbatim>\<open>np.einsum("jt,tj->t", a, b)\<close> and \<^verbatim>\<open>np.einsum("jc,jc->c", a, b)\<close>.\<close>

definition einsum_jt_tj :: "'v numpy \<Rightarrow> 'v nd \<Rightarrow> 'v nd \<Rightarrow> 'v nd result" where
  "einsum_jt_tj np a b =
     (case (nd_shape a, nd_shape b) of
        ([j, t], [t', j']) \<Rightarrow>
          if j = j' \<and> t = t'
          then Inr (mk_nd [t] (\<lambda>i. np_dot np (map (\<lambda>k. nd_at a [k, hd i]) (urange j)) (map (\<lambda>k. nd_at b [hd i, k]) (urange j))))
          else Inl ValueError
      | _ \<Rightarrow> Inl ValueError)"

definition einsum_jc_jc :: "'v numpy \<Rightarrow> 'v nd \<Rightarrow> 'v nd \<Rightarrow> 'v nd result" where
  "einsum_jc_jc np a b =
     (case (nd_shape a, nd_shape b) of
        ([j, c], [j', c']) \<Rightarrow>
          if j = j' \<and> c = c'
          then Inr (mk_nd [c] (\<lambda>i. np_dot np (map (\<lambda>k. nd_at a [k, hd i]) (urange j)) (map (\<lambda>k. nd_at b [k, hd i]) (urange j))))
          else Inl ValueError
      | _ \<Rightarrow> Inl ValueError)"

definition body_gdn_conv :: "'v numpy \<Rightarrow> tensors \<Rightarrow> 'v body" where
  "body_gdn_conv np tas fam cs scalars m =
     bindr (tin tas fam 0) (\<lambda>state.
     bindr (rd tas fam m 0) (\<lambda>stv.
     bindr (rd64 np tas fam m 1) (\<lambda>x.
     bindr (rd64 np tas fam m 2) (\<lambda>w.
     bindr (tout tas fam 0) (\<lambda>out.
     bindr (unpack2 cs) (\<lambda>(b, c).
     bindr (bindr (dict_get (fam_params fam) ''tile'') as_int) (\<lambda>tile.
     bindr (bindr (dict_get (fam_params fam) ''conv_kernel'') as_int) (\<lambda>K.
     bindr (last_dim stv) (\<lambda>C.
     let c0 = c * tile; c1 = min ((c + 1) * tile) C in
     bindr (ev np (AsF64 (Ix (V stv) [At b, Full, Slc c0 c1]))) (\<lambda>st.
     bindr (ev np (Ix (V x) [At b, Slc c0 c1])) (\<lambda>xs.
     bindr (ev np (Ix (V w) [Slc c0 c1, Full])) (\<lambda>ws.
     bindr (bindr (ev np (Ix (V ws) [Full, Upto (-1)])) (einsum_jt_tj np st)) (\<lambda>fir.
     bindr (ev np (nadd (V fir) (nmul (V xs) (Ix (V ws) [Full, At (K - 1)])))) (\<lambda>acc.
     bindr (ev np (silu_div (V acc))) (\<lambda>v.
     bindr (store np out [At b, Slc c0 c1] v m) (\<lambda>m.
     bindr (ev np (Concat0 (Ix (V st) [From 1]) (Ix (V xs) [NewAxis, Full]))) (\<lambda>shifted.
       store np state [At b, Full, Slc c0 c1] shifted m)))))))))))))))))"

section \<open>Hyper-connections\<close>

definition sinkhorn_pass :: "'v numpy \<Rightarrow> 'v nd \<Rightarrow> 'v nd \<Rightarrow> int \<Rightarrow> 'v nd result" where
  "sinkhorn_pass np eps comb i =
     bindr (ev np (ndiv (V comb) (nadd (RedLastK RSum (V comb)) (V eps)))) (\<lambda>comb.
       ev np (ndiv (V comb) (nadd (Red0K RSum (V comb)) (V eps))))"

definition mhc_comb :: "'v numpy \<Rightarrow> 'v nexp \<Rightarrow> 'v nd \<Rightarrow> int \<Rightarrow> 'v nd result" where
  "mhc_comb np logits eps iters =
     bindr (ev np logits) (\<lambda>cl.
     bindr (ev np (nsub (V cl) (RedLastK RMax (V cl)))) (\<lambda>cl.
     bindr (ev np (Fn1 UExp (V cl))) (\<lambda>comb.
     bindr (ev np (nadd (ndiv (V comb) (RedLastK RSum (V comb))) (V eps))) (\<lambda>comb.
     bindr (ev np (ndiv (V comb) (nadd (Red0K RSum (V comb)) (V eps)))) (\<lambda>comb.
       foldr_res (sinkhorn_pass np eps) comb (urange (iters - 1)))))))"

text \<open>\<^verbatim>\<open>c / (1.0 + np.exp(-(w * s + b)))\<close>\<close>

definition mhc_gate :: "int \<Rightarrow> 'v nd \<Rightarrow> 'v nd \<Rightarrow> 'v nd \<Rightarrow> 'v nexp" where
  "mhc_gate c w s b =
     ndiv (Lit c 0) (nadd (Lit 1 0) (Fn1 UExp (Fn1 UNeg (nadd (nmul (V w) (V s)) (V b)))))"

definition body_mhc_pre :: "'v numpy \<Rightarrow> tensors \<Rightarrow> 'v body" where
  "body_mhc_pre np tas fam cs scalars m =
     bindr (rd tas fam m 0) (\<lambda>streams.
     bindr (rd tas fam m 1) (\<lambda>fn.
     bindr (rd tas fam m 2) (\<lambda>base.
     bindr (rd tas fam m 3) (\<lambda>scale.
     bindr (tout tas fam 0) (\<lambda>h_in.
     bindr (tout tas fam 1) (\<lambda>post_o.
     bindr (tout tas fam 2) (\<lambda>comb_out.
     bindr (unpack1 cs) (\<lambda>bb.
     bindr (py_nth (nd_shape streams) 1) (\<lambda>hc.
     bindr (bindr (dict_get (fam_params fam) ''iters'') as_int) (\<lambda>iters.
     bindr (bindr (dict_get (fam_params fam) ''eps'') (num_param np)) (\<lambda>eps.
     bindr (bindr (dict_get (fam_params fam) ''rms_eps'') (num_param np)) (\<lambda>rms_eps.
     bindr (ev np (Reshape [-1] (AsF64 (Ix (V streams) [At bb])))) (\<lambda>fl.
     bindr (ev np (ndiv (V fl) (Fn1 USqrt (nadd (RedAll RMean (nmul (V fl) (V fl))) (V rms_eps))))) (\<lambda>fl.
     bindr (ev np (MatMul (AsF64 (V fn)) (V fl))) (\<lambda>logits.
     bindr (ev np (Ix (V logits) [Upto hc])) (\<lambda>pre_w.
     bindr (ev np (Ix (V logits) [Slc hc (2 * hc)])) (\<lambda>post_w.
     bindr (ev np (Reshape [hc, hc] (Ix (V logits) [From (2 * hc)]))) (\<lambda>comb_w.
     bindr (ev_float np (Ix (V scale) [At 0])) (\<lambda>pre_s.
     bindr (ev_float np (Ix (V scale) [At 1])) (\<lambda>post_s.
     bindr (ev_float np (Ix (V scale) [At 2])) (\<lambda>comb_s.
     bindr (ev np (Ix (AsF64 (V base)) [Upto hc])) (\<lambda>pre_b.
     bindr (ev np (Ix (AsF64 (V base)) [Slc hc (2 * hc)])) (\<lambda>post_b.
     bindr (ev np (Reshape [hc, hc] (Ix (AsF64 (V base)) [From (2 * hc)]))) (\<lambda>comb_b.
     bindr (ev np (nadd (mhc_gate 1 pre_w pre_s pre_b) (V eps))) (\<lambda>pre.
     bindr (ev np (mhc_gate 2 post_w post_s post_b)) (\<lambda>post.
     bindr (mhc_comb np (nadd (nmul (V comb_w) (V comb_s)) (V comb_b)) eps iters) (\<lambda>comb.
     bindr (ev np (Red0 RSum (nmul (Ix (V pre) [Full, NewAxis]) (AsF64 (Ix (V streams) [At bb]))))) (\<lambda>hv.
     bindr (store np h_in [At bb] hv m) (\<lambda>m.
     bindr (store np post_o [At bb] post m) (\<lambda>m.
       store np comb_out [At bb] comb m))))))))))))))))))))))))))))))"

definition body_mhc_post :: "'v numpy \<Rightarrow> tensors \<Rightarrow> 'v body" where
  "body_mhc_post np tas fam cs scalars m =
     bindr (rd tas fam m 0) (\<lambda>streams.
     bindr (rd tas fam m 1) (\<lambda>body_out.
     bindr (rd tas fam m 2) (\<lambda>post_w.
     bindr (rd tas fam m 3) (\<lambda>comb.
     bindr (tout tas fam 0) (\<lambda>streams_post.
     bindr (unpack2 cs) (\<lambda>(bb, j).
     bindr (ev np (Red0 RSum (nmul (Ix (AsF64 (Ix (V comb) [At bb, Full, At j])) [Full, NewAxis])
                                   (AsF64 (Ix (V streams) [At bb]))))) (\<lambda>acc.
     bindr (ev_float np (Ix (V post_w) [At bb, At j])) (\<lambda>pw.
     bindr (ev np (nadd (V acc) (nmul (V pw) (AsF64 (Ix (V body_out) [At bb]))))) (\<lambda>acc.
       store np streams_post [At bb, At j] acc m)))))))))"

section \<open>Delta rules\<close>

text \<open>\<^verbatim>\<open>1.0 / (1.0 + np.exp(-x))\<close>\<close>

definition sigm :: "'v nexp \<Rightarrow> 'v nexp" where
  "sigm x = ndiv (Lit 1 0) (nadd (Lit 1 0) (Fn1 UExp (Fn1 UNeg x)))"

text \<open>\<^verbatim>\<open>x / np.sqrt(np.dot(x, x) + 1e-6)\<close>\<close>

definition l2norm :: "'v nd \<Rightarrow> 'v nexp" where
  "l2norm x = ndiv (V x) (Fn1 USqrt (nadd (MatMul (V x) (V x)) (Lit 1 (-6))))"

text \<open>\<^verbatim>\<open>np.log(1.0 + np.exp(x))\<close>, and \<open>x\<close> itself above 20.\<close>

definition softplus_guard :: "'v numpy \<Rightarrow> 'v nd \<Rightarrow> 'v nd result" where
  "softplus_guard np x =
     bindr (ev np (Fn1 ULog (nadd (Lit 1 0) (Fn1 UExp (V x))))) (\<lambda>sp.
       Inr (mk_nd (nd_shape x) (\<lambda>i. if np_le np (nd_at x i) (Some (np_float np (FLit 20 0)))
                                    then nd_at sp i else nd_at x i)))"

definition body_gdn_delta :: "'v numpy \<Rightarrow> tensors \<Rightarrow> 'v body" where
  "body_gdn_delta np tas fam cs scalars m =
     bindr (tin tas fam 0) (\<lambda>state_t.
     bindr (rd tas fam m 0) (\<lambda>state.
     bindr (rd tas fam m 1) (\<lambda>q.
     bindr (rd tas fam m 2) (\<lambda>k.
     bindr (rd tas fam m 3) (\<lambda>v.
     bindr (rd tas fam m 4) (\<lambda>z.
     bindr (rd tas fam m 5) (\<lambda>a.
     bindr (rd tas fam m 6) (\<lambda>b.
     bindr (rd tas fam m 7) (\<lambda>a_log.
     bindr (rd tas fam m 8) (\<lambda>dt_bias.
     bindr (tin tas fam 9) (\<lambda>_.
     bindr (tout tas fam 0) (\<lambda>out.
     bindr (unpack2 cs) (\<lambda>(bb, h).
     bindr (py_nth (nd_shape state) 1) (\<lambda>NV.
     bindr (py_nth (nd_shape q) 1) (\<lambda>NK.
     bindr (py_floordiv NV NK) (\<lambda>grp.
     bindr (py_floordiv h grp) (\<lambda>kh.
     bindr (bindr (dict_get (fam_params fam) ''scale'') (num_param np)) (\<lambda>scale.
     bindr (bindr (dict_get (fam_params fam) ''eps'') (num_param np)) (\<lambda>eps.
     bindr (ev np (AsF64 (Ix (V state) [At bb, At h]))) (\<lambda>s.
     bindr (ev np (AsF64 (Ix (V q) [At bb, At kh]))) (\<lambda>qf.
     bindr (ev np (AsF64 (Ix (V k) [At bb, At kh]))) (\<lambda>kf.
     bindr (ev np (AsF64 (Ix (V v) [At bb, At h]))) (\<lambda>vf.
     bindr (ev np (AsF64 (Ix (V z) [At bb, At h]))) (\<lambda>zf.
     bindr (ev_float np (Ix (V a) [At bb, At h])) (\<lambda>ax.
     bindr (ev_float np (Ix (V dt_bias) [At h])) (\<lambda>dx.
     bindr (ev np (nadd (V ax) (V dx))) (\<lambda>x_dt.
     bindr (softplus_guard np x_dt) (\<lambda>softplus_x.
     bindr (ev_float np (Fn1 UExp (Ix (V a_log) [At h]))) (\<lambda>A.
     bindr (ev_float np (Fn1 UExp (nmul (Fn1 UNeg (V A)) (V softplus_x)))) (\<lambda>decay.
     bindr (ev_float np (Ix (V b) [At bb, At h])) (\<lambda>bx.
     bindr (ev np (sigm (V bx))) (\<lambda>beta.
     bindr (ev np (nmul (l2norm qf) (V scale))) (\<lambda>qn.
     bindr (ev np (l2norm kf)) (\<lambda>kn.
     bindr (ev np (nmul (V s) (V decay))) (\<lambda>s.
     bindr (ev np (MatMul (V s) (V kn))) (\<lambda>sk.
     bindr (ev np (nadd (V s) (nmul (Ix (nmul (V beta) (nsub (V vf) (V sk))) [Full, NewAxis])
                                    (Ix (V kn) [NewAxis, Full])))) (\<lambda>s.
     bindr (store np state_t [At bb, At h] s m) (\<lambda>m.
     bindr (ev np (MatMul (V s) (V qn))) (\<lambda>o'.
     bindr (rd tas fam m 9) (\<lambda>norm_w.
     bindr (ev np (nmul (ndiv (V o') (Fn1 USqrt (nadd (RedAll RMean (nmul (V o') (V o'))) (V eps))))
                        (AsF64 (V norm_w)))) (\<lambda>on.
     bindr (ev np (nmul (V on) (silu_div (V zf)))) (\<lambda>og.
       store np out [At bb, At h] og m))))))))))))))))))))))))))))))))))))))))))"

text \<open>The forget gate in log space.\<close>

definition kda_gate :: "'v numpy \<Rightarrow> pyval \<Rightarrow> 'v nd \<Rightarrow> 'v nd \<Rightarrow> 'v nd result" where
  "kda_gate np lower_bound A x_dt =
     (if lower_bound \<noteq> VNone then
        bindr (num_param np lower_bound) (\<lambda>lb.
          ev np (ndiv (V lb) (nadd (Lit 1 0) (Fn1 UExp (nmul (Fn1 UNeg (V A)) (V x_dt))))))
      else
        bindr (softplus_guard np x_dt) (\<lambda>sp. ev np (nmul (Fn1 UNeg (V A)) (V sp))))"

definition body_kda_delta :: "'v numpy \<Rightarrow> tensors \<Rightarrow> 'v body" where
  "body_kda_delta np tas fam cs scalars m =
     bindr (tin tas fam 0) (\<lambda>state_t.
     bindr (rd tas fam m 0) (\<lambda>state.
     bindr (rd tas fam m 1) (\<lambda>q.
     bindr (rd tas fam m 2) (\<lambda>k.
     bindr (rd tas fam m 3) (\<lambda>v.
     bindr (rd tas fam m 4) (\<lambda>f.
     bindr (rd tas fam m 5) (\<lambda>b.
     bindr (rd tas fam m 6) (\<lambda>dt_bias.
     bindr (rd tas fam m 7) (\<lambda>a_log.
     bindr (tout tas fam 0) (\<lambda>out.
     bindr (unpack2 cs) (\<lambda>(bb, h).
     bindr (bindr (dict_get (fam_params fam) ''scale'') (num_param np)) (\<lambda>scale.
     bindr (ev np (AsF64 (Ix (V state) [At bb, At h]))) (\<lambda>s.
     bindr (ev np (AsF64 (Ix (V q) [At bb, At h]))) (\<lambda>qf.
     bindr (ev np (AsF64 (Ix (V k) [At bb, At h]))) (\<lambda>kf.
     bindr (ev np (AsF64 (Ix (V v) [At bb, At h]))) (\<lambda>vf.
     bindr (ev np (AsF64 (Ix (V f) [At bb, At h]))) (\<lambda>ff.
     bindr (ev np (AsF64 (Ix (V dt_bias) [At h]))) (\<lambda>dt.
     bindr (ev_float np (Fn1 UExp (Ix (V a_log) [At h]))) (\<lambda>A.
     bindr (ev np (nadd (V ff) (V dt))) (\<lambda>x_dt.
     bindr (kda_gate np (attr_get (fam_params fam) ''lower_bound'' VNone) A x_dt) (\<lambda>g.
     bindr (ev_float np (Ix (V b) [At bb, At h])) (\<lambda>bx.
     bindr (ev np (sigm (V bx))) (\<lambda>beta.
     bindr (ev np (nmul (l2norm qf) (V scale))) (\<lambda>qn.
     bindr (ev np (l2norm kf)) (\<lambda>kn.
     bindr (ev np (nmul (V s) (Ix (Fn1 UExp (V g)) [Full, NewAxis]))) (\<lambda>s.
     bindr (ev np (Red0 RSum (nmul (V s) (Ix (V kn) [Full, NewAxis])))) (\<lambda>kv_mem.
     bindr (ev np (nadd (V s) (nmul (Ix (V kn) [Full, NewAxis])
                                    (Ix (nmul (V beta) (nsub (V vf) (V kv_mem))) [NewAxis, Full])))) (\<lambda>s.
     bindr (store np state_t [At bb, At h] s m) (\<lambda>m.
     bindr (ev np (Red0 RSum (nmul (V s) (Ix (V qn) [Full, NewAxis])))) (\<lambda>o'.
       store np out [At bb, At h] o' m))))))))))))))))))))))))))))))"

section \<open>Fused decode\<close>

text \<open>The q, k and v channel stripes of head \<open>h\<close>.\<close>

definition head_cols :: "int \<Rightarrow> int \<Rightarrow> int \<Rightarrow> int list" where
  "head_cols seg lo hi =
     urange2 lo hi @ map (\<lambda>c. seg + c) (urange2 lo hi) @ map (\<lambda>c. 2 * seg + c) (urange2 lo hi)"

definition fused_decay :: "'v numpy \<Rightarrow> pyval \<Rightarrow> 'v nd \<Rightarrow> 'v nd \<Rightarrow> 'v nd result" where
  "fused_decay np lower_bound A xx =
     (if lower_bound \<noteq> VNone then
        bindr (num_param np lower_bound) (\<lambda>lb.
          ev np (Fn1 UExp (nmul (V lb)
            (ndiv (Lit 1 0) (nadd (Lit 1 0) (Fn1 UExp (nmul (Fn1 UNeg (V A)) (V xx))))))))
      else
        bindr (ev np (Fn1 ULog1p (Fn1 UExp (Bin UMinimum (V xx) (Lit 20 0))))) (\<lambda>l1p.
        let sp = mk_nd (nd_shape xx) (\<lambda>i. if np_le np (nd_at xx i) (Some (np_float np (FLit 20 0)))
                                          then nd_at l1p i else nd_at xx i) in
          ev np (Fn1 UExp (nmul (Fn1 UNeg (V A)) (V sp)))))"

text \<open>The convolution update; it returns the activated row and the memory.\<close>

definition fused_conv ::
  "'v numpy \<Rightarrow> tensors \<Rightarrow> TaskFamily \<Rightarrow> tensor_array \<Rightarrow> int \<Rightarrow> int \<Rightarrow> int \<Rightarrow> int list \<Rightarrow> 'v Mem
    \<Rightarrow> ('v nd \<times> 'v Mem) result" where
  "fused_conv np tas fam conv_t slot bb Kw cols m =
     bindr (rd tas fam m 0) (\<lambda>conv.
     bindr (rd tas fam m 3) (\<lambda>qkv_raw.
     bindr (rd tas fam m 7) (\<lambda>taps.
     bindr (ev np (AsF64 (Ix (V qkv_raw) [At bb, Gather cols]))) (\<lambda>xr.
     let x = bf16_round_nd np xr in
     bindr (ev np (AsF64 (Ix (V taps) [Full, Gather cols]))) (\<lambda>w.
     bindr (ev np (AsF64 (Ix (Ix (V conv) [At slot]) [Full, Gather cols]))) (\<lambda>st.
     bindr (bindr (ev np (Ix (V w) [Upto Kw])) (\<lambda>wk. einsum_jc_jc np wk st)) (\<lambda>fir.
     bindr (ev np (nadd (V fir) (nmul (Ix (V w) [At Kw]) (V x)))) (\<lambda>acc.
     bindr (ev np (nmul (V acc) (sigm (V acc)))) (\<lambda>y.
     bindr (ev np (Concat0 (Ix (V st) [From 1]) (Ix (V x) [NewAxis, Full]))) (\<lambda>shifted.
     bindr (store np conv_t [At slot, Full, Gather cols] shifted m) (\<lambda>m. Inr (y, m))))))))))))"

definition body_kda_fused_decode :: "'v numpy \<Rightarrow> tensors \<Rightarrow> 'v body" where
  "body_kda_fused_decode np tas fam cs scalars m =
     bindr (tin tas fam 0) (\<lambda>conv_t.
     bindr (tin tas fam 1) (\<lambda>ssm_t.
     bindr (rd tas fam m 2) (\<lambda>slot_ids.
     bindr (mapr (tin tas fam) (urange2 3 11)) (\<lambda>_.
     bindr (tout tas fam 0) (\<lambda>out.
     bindr (unpack2 cs) (\<lambda>(bb, h).
     bindr (bindr (dict_get (fam_params fam) ''scale'') (num_param np)) (\<lambda>scale.
     bindr (bindr (dict_get (fam_params fam) ''eps'') (num_param np)) (\<lambda>eps.
     let lower_bound = attr_get (fam_params fam) ''lower_bound'' VNone in
     bindr (ev_int np (Ix (V slot_ids) [At bb])) (\<lambda>slot.
     if slot < 0 then store np out [At bb, At h] (nd_scalar (Some (np_float np (FLit 0 0)))) m
     else
     bindr (py_nth (ta_shape ssm_t) (-1)) (\<lambda>K.
     bindr (py_nth (ta_shape conv_t) 1) (\<lambda>Kw.
     bindr (py_nth (ta_shape conv_t) (-1)) (\<lambda>cc.
     bindr (fused_conv np tas fam conv_t slot bb Kw (head_cols (cc div 3) (h * K) ((h + 1) * K)) m) (\<lambda>(y, m).
     bindr (ev np (Ix (V y) [Upto K])) (\<lambda>q.
     bindr (ev np (Ix (V y) [Slc K (2 * K)])) (\<lambda>k.
     bindr (ev np (Ix (V y) [From (2 * K)])) (\<lambda>v.
     bindr (rd tas fam m 4) (\<lambda>f_raw.
     bindr (rd tas fam m 8) (\<lambda>dt_bias.
     bindr (rd tas fam m 9) (\<lambda>a_log.
     bindr (rd tas fam m 5) (\<lambda>b_raw.
     bindr (ev np (AsF64 (Ix (V f_raw) [At bb, At h]))) (\<lambda>fr.
     bindr (ev np (nadd (V (bf16_round_nd np fr)) (AsF64 (Ix (V dt_bias) [At h])))) (\<lambda>xx.
     bindr (ev_float np (Fn1 UExp (Ix (V a_log) [At h]))) (\<lambda>A.
     bindr (fused_decay np lower_bound A xx) (\<lambda>decay.
     bindr (ev np (Ix (V b_raw) [At bb, At h])) (\<lambda>br.
     bindr (ev_float np (V (bf16_round_nd np br))) (\<lambda>bx.
     bindr (ev np (sigm (V bx))) (\<lambda>beta.
     bindr (ev np (nmul (ndiv (V q) (Fn1 USqrt (nadd (RedAll RSum (nmul (V q) (V q))) (Lit 1 (-6))))) (V scale))) (\<lambda>qn.
     bindr (ev np (ndiv (V k) (Fn1 USqrt (nadd (RedAll RSum (nmul (V k) (V k))) (Lit 1 (-6)))))) (\<lambda>kn.
     bindr (rd tas fam m 1) (\<lambda>ssm.
     bindr (ev np (AsF64 (Ix (V ssm) [At slot, At h]))) (\<lambda>s.
     bindr (ev np (nmul (V s) (Ix (V decay) [NewAxis, Full]))) (\<lambda>s.
     bindr (ev np (RedLast RSum (nmul (V s) (Ix (V kn) [NewAxis, Full])))) (\<lambda>t.
     bindr (ev np (nadd (V s) (nmul (Ix (nmul (V beta) (nsub (V v) (V t))) [Full, NewAxis])
                                    (Ix (V kn) [NewAxis, Full])))) (\<lambda>s.
     bindr (store np ssm_t [At slot, At h] s m) (\<lambda>m.
     bindr (ev np (RedLast RSum (nmul (V s) (Ix (V qn) [NewAxis, Full])))) (\<lambda>o'.
     bindr (ev np (ndiv (Lit 1 0) (Fn1 USqrt (nadd (RedAll RMean (nmul (V o') (V o'))) (V eps))))) (\<lambda>rstd.
     bindr (rd tas fam m 6) (\<lambda>g_raw.
     bindr (rd tas fam m 10) (\<lambda>o_norm.
     bindr (ev np (AsF64 (Ix (V g_raw) [At bb, At h]))) (\<lambda>gr.
     bindr (ev np (sigm (V (bf16_round_nd np gr)))) (\<lambda>gate.
     bindr (ev np (nmul (nmul (nmul (V o') (V rstd)) (AsF64 (V o_norm))) (V gate))) (\<lambda>yv.
       store np out [At bb, At h] (bf16_round_nd np yv) m))))))))))))))))))))))))))))))))))))))))))"

end
