(* ===== verification/Body_Frames.thy ===== *)
theory Body_Frames
  imports Bodies_Recurrent
begin

text \<open>
  What the task bodies may write.  The first part gives the laws of cells, views and assignments; the
  second a small calculus for the cells a computation may change; the last applies it to every body of
  the executor's table.
\<close>

section \<open>Cells\<close>

definition unchanged_outside :: "loc set \<Rightarrow> 'v Mem \<Rightarrow> 'v Mem \<Rightarrow> bool" where
  "unchanged_outside L m m' \<longleftrightarrow>
     (\<forall>r. length (mem_cells m' r) = length (mem_cells m r)) \<and>
     (\<forall>l. loc_ok m l \<and> l \<notin> L \<longrightarrow> mem_get m' l = mem_get m l)"

lemma map_of_update_cells:
  "map_of (map (\<lambda>(k, cs). (k, if k = s then g cs else cs)) d) k =
     (if k = s then map_option g (map_of d k) else map_of d k)"
  by (induction d) auto

lemma mem_cells_put:
  "mem_cells (mem_put l c m) r =
     (if r = fst l then (mem_cells m r)[nat (snd l) := c] else mem_cells m r)"
  by (cases r; cases "fst l")
    (auto simp: mem_cells_def mem_put_def map_of_update_cells split: option.split)

lemma loc_ok_put [simp]: "loc_ok (mem_put l c m) l' = loc_ok m l'"
  by (simp add: loc_ok_def mem_cells_put)

lemma mem_get_put:
  "loc_ok m l \<Longrightarrow> loc_ok m l' \<Longrightarrow> mem_get (mem_put l c m) l' = (if l' = l then c else mem_get m l')"
  by (auto simp: loc_ok_def mem_get_def mem_cells_put nth_list_update prod_eq_iff eq_nat_nat_iff)

lemma unchanged_refl [simp]: "unchanged_outside L m m"
  by (simp add: unchanged_outside_def)

lemma unchangedD: "unchanged_outside L m m' \<Longrightarrow> loc_ok m l \<Longrightarrow> l \<notin> L \<Longrightarrow> mem_get m' l = mem_get m l"
  unfolding unchanged_outside_def by blast

lemma unchanged_loc_ok: "unchanged_outside L m m' \<Longrightarrow> loc_ok m' l = loc_ok m l"
  by (simp add: unchanged_outside_def loc_ok_def)

lemma unchanged_trans:
  "unchanged_outside L m m' \<Longrightarrow> unchanged_outside L m' m'' \<Longrightarrow> unchanged_outside L m m''"
  using unchanged_loc_ok [of L m m'] by (auto simp: unchanged_outside_def)

lemma unchanged_put: "l \<in> L \<Longrightarrow> loc_ok m l \<Longrightarrow> unchanged_outside L m (mem_put l c m)"
  by (auto simp: unchanged_outside_def mem_cells_put mem_get_put)

lemma unchanged_mono: "unchanged_outside L m m' \<Longrightarrow> L \<subseteq> L' \<Longrightarrow> unchanged_outside L' m m'"
  by (auto simp: unchanged_outside_def)

section \<open>Selections stay inside the shape\<close>

definition ix_pos :: "ix list \<Rightarrow> bool" where
  "ix_pos is = list_all (\<lambda>i. case i of Rng _ _ st \<Rightarrow> 0 < st | _ \<Rightarrow> True) is"

lemma ix_pos_simps [simp]:
  "ix_pos []" "ix_pos (At k # is) = ix_pos is" "ix_pos (NewAxis # is) = ix_pos is"
  "ix_pos (Gather ks # is) = ix_pos is" "ix_pos (Rng lo hi st # is) \<longleftrightarrow> 0 < st \<and> ix_pos is"
  by (simp_all add: ix_pos_def)

lemma slice_in:
  assumes "0 \<le> n" "0 < st" "0 \<le> k" "k < slice_len n lo hi st"
  shows "0 \<le> slice_start n lo + k * st" "slice_start n lo + k * st < n"
proof -
  have s: "0 \<le> slice_start n lo" "slice_stop n hi \<le> n"
    using assms(1) by (auto simp: slice_start_def slice_stop_def wrap_bound_def split: option.split)
  then show "0 \<le> slice_start n lo + k * st" using assms by simp
  have "k + 1 \<le> (slice_stop n hi - slice_start n lo + st - 1) div st"
    using assms by (simp add: slice_len_def max_def split: if_splits)
  then have "(k + 1) * st \<le> slice_stop n hi - slice_start n lo + st - 1"
    using int_le_div_iff [OF assms(2)] by blast
  with s(2) show "slice_start n lo + k * st < n" by (simp add: algebra_simps)
qed

lemma wrap_index_in: "wrap_index n i = Inr k \<Longrightarrow> 0 \<le> n \<Longrightarrow> 0 \<le> k \<and> k < n"
  by (auto simp: wrap_index_def split: if_splits)

lemma nd_ix_in:
  assumes "nd_ix is ns = Inr (sh, f)" "ix_pos is" "\<forall>n \<in> set ns. 0 \<le> n" "idx_in sh j"
  shows "idx_in ns (f j)"
  using assms
proof (induction "is" ns arbitrary: sh f j rule: nd_ix.induct)
  case (2 "is" ns)
  then show ?case by (auto simp: result_simps idx_in_Cons1)
next
  case (3 i "is" n ns)
  then show ?case using wrap_index_in by (fastforce simp: result_simps)
next
  case (4 lo hi st "is" n ns)
  then show ?case using slice_in [of n st "hd j" lo hi] by (fastforce simp: result_simps idx_in_Cons1)
next
  case (5 xs "is" n ns)
  then obtain ks sh' f' where k: "mapr (wrap_index n) xs = Inr ks" "nd_ix is ns = Inr (sh', f')"
      "sh = int (length ks) # sh'" "f = (\<lambda>j. (ks ! nat (hd j)) # f' (tl j))"
    by (auto simp: result_simps)
  obtain a r where j: "j = a # r" "0 \<le> a" "a < int (length ks)" "idx_in sh' r"
    using 5(5) k(3) by (auto simp: idx_in_Cons1)
  have "wrap_index n (xs ! nat a) = Inr (ks ! nat a)"
    using mapr_nth [OF k(1)] mapr_length [OF k(1)] j by simp
  then have "0 \<le> ks ! nat a \<and> ks ! nat a < n" using wrap_index_in 5(4) by simp
  moreover have "idx_in ns (f' r)" using "5.IH" [OF k(1) k(2)] 5(3,4) j(4) by auto
  ultimately show ?case using k(4) j(1) by simp
qed (auto simp: result_simps)

section \<open>The cells of a tensor\<close>

definition ta_cells :: "tensor_array \<Rightarrow> loc set" where
  "ta_cells ta = {ta_loc ta i |i. idx_in (ta_shape ta) i}"

definition ta_wf :: "tensor_array \<Rightarrow> bool" where
  "ta_wf ta \<longleftrightarrow> (\<forall>n \<in> set (ta_shape ta). 0 \<le> n)"

lemma ta_simps [simp]:
  "ta_shape (a, off, sh, ss) = sh" "ta_arr (a, off, sh, ss) = a"
  by (simp_all add: ta_shape_def ta_arr_def)

lemma fold_puts_unchanged:
  assumes "foldr_res (\<lambda>m j. let l = h j in if loc_ok m l then Inr (mem_put l (c j) m) else Inl MemoryFault) m js = Inr m'"
    and "\<And>j. j \<in> set js \<Longrightarrow> h j \<in> L"
  shows "unchanged_outside L m m'"
  by (rule foldr_res_inv [OF assms(1)])
    (auto simp: Let_def split: if_splits intro: unchanged_trans unchanged_put assms(2))

lemma store_unchanged:
  assumes "store np ta is v m = Inr m'" "ix_pos is" "ta_wf ta" "ta_cells ta \<subseteq> L"
  shows "unchanged_outside L m m'"
proof -
  obtain sh f g where s: "nd_ix is (ta_shape ta) = Inr (sh, f)"
      "foldr_res (\<lambda>m j. let l = ta_loc ta (f j) in
         if loc_ok m l then Inr (mem_put l (np_store np (ta_arr ta) (g j)) m) else Inl MemoryFault) m (idxs sh) = Inr m'"
    using assms(1) by (auto simp: store_def result_simps)
  show ?thesis
    by (rule fold_puts_unchanged [OF s(2)])
      (use nd_ix_in [OF s(1) assms(2)] assms(3,4) in \<open>auto simp: set_idxs ta_cells_def ta_wf_def\<close>)
qed

text \<open>The flattened view addresses the cells of the tensor.\<close>

lemma collapsible_product:
  "collapsible ((n, s) # r) \<Longrightarrow>
     prodl (map fst ((n, s) # r)) * snd (last ((n, s) # r)) = n * s"
  by (induction r arbitrary: n s) (auto simp: ac_simps)

lemma prodl_ones: "prodl (map fst (filter (\<lambda>(n, s). n \<noteq> 1) (zip sh ss))) = prodl (map fst (zip sh ss))"
  by (induction sh arbitrary: ss; case_tac ss) auto

lemma collapsible_dot:
  assumes "collapsible (filter (\<lambda>(n, s). n \<noteq> 1) (zip sh ss))" "idx_in sh i" "length ss = length sh"
  shows "dot i ss = flat sh i * (let ds = filter (\<lambda>(n, s). n \<noteq> 1) (zip sh ss) in if ds = [] then 1 else snd (last ds))"
  using assms
proof (induction sh arbitrary: i ss)
  case Nil
  then show ?case by simp
next
  case (Cons n ns)
  obtain k r where i: "i = k # r" "0 \<le> k" "k < n" "idx_in ns r" using Cons.prems(2) by (auto simp: idx_in_Cons1)
  obtain s t where ss: "ss = s # t" "length t = length ns" using Cons.prems(3) by (cases ss) auto
  let ?d = "filter (\<lambda>(n, s). n \<noteq> 1) (zip ns t)"
  have c: "collapsible ?d" using Cons.prems(1) ss by (cases ?d) (auto split: if_splits)
  note IH = Cons.IH [OF c i(4) ss(2)]
  have p: "prodl (map fst ?d) = prodl ns" using prodl_ones [of ns t] ss(2) by simp
  show ?case
  proof (cases "n = 1")
    case True
    then have "k = 0" using i by simp
    with IH i(1) ss True show ?thesis by simp
  next
    case n: False
    show ?thesis
    proof (cases "?d")
      case Nil
      then have "prodl ns = 1" using p by simp
      then have "flat ns r = 0" "prodl ns = 1" using flat_bounds [OF i(4)] by auto
      with IH i(1) ss n Nil show ?thesis by simp
    next
      case (Cons d ds)
      obtain n' s' where d: "d = (n', s')" by fastforce
      have "prodl ns * snd (last ?d) = n' * s'" using collapsible_product [of n' s' ds] c p unfolding Cons d by metis
      moreover have "s = n' * s'" using Cons.prems(1) ss n Cons d by simp
      ultimately show ?thesis using IH i ss n Cons d by (simp add: algebra_simps)
    qed
  qed
qed

lemma flat_view_cells:
  assumes "flat_view (a, off, sh, ss) = Some ta'" "\<forall>n \<in> set sh. 0 \<le> n" "length ss = length sh"
  shows "ta_cells ta' \<subseteq> ta_cells (a, off, sh, ss)" "ta_wf ta'"
proof -
  let ?d = "filter (\<lambda>(n, s). n \<noteq> 1) (zip sh ss)"
  show "ta_wf ta'"
    using assms prodl_nonneg [OF assms(2)] by (auto simp: flat_view_def ta_wf_def Let_def split: if_splits)
  show "ta_cells ta' \<subseteq> ta_cells (a, off, sh, ss)"
  proof
    fix l
    assume l: "l \<in> ta_cells ta'"
    have nz: "prodl sh \<noteq> 0"
      using l assms(1) by (auto simp: flat_view_def ta_cells_def idx_in_Cons1 Let_def split: if_splits)
    then have t: "collapsible ?d" "ta' = (a, off, [prodl sh], [if ?d = [] then 1 else snd (last ?d)])"
      using assms(1) by (auto simp: flat_view_def Let_def split: if_splits)
    obtain k where k: "0 \<le> k" "k < prodl sh" "l = ta_loc ta' [k]" using l t(2) by (auto simp: ta_cells_def idx_in_Cons1)
    have "0 \<notin> set sh" using nz by (induction sh) auto
    then have pos: "\<forall>n \<in> set sh. 0 < n" using assms(2) by (metis order_le_less)
    have i: "idx_in sh (unflat sh k)" by (rule unflat_in [OF pos k(1,2)])
    have "dot (unflat sh k) ss = k * (if ?d = [] then 1 else snd (last ?d))"
      using collapsible_dot [OF t(1) i assms(3)] flat_unflat [OF pos k(1,2)] by (simp add: Let_def)
    then have "l = ta_loc (a, off, sh, ss) (unflat sh k)" using k(3) t(2) by (cases a) (simp_all add: ta_loc_def)
    with i show "l \<in> ta_cells (a, off, sh, ss)" by (auto simp: ta_cells_def)
  qed
qed

section \<open>A calculus of writes\<close>

definition writes_only :: "loc set \<Rightarrow> 'v Mem \<Rightarrow> 'v Mem result \<Rightarrow> bool" where
  "writes_only L m r \<longleftrightarrow> (\<forall>m'. r = Inr m' \<longrightarrow> unchanged_outside L m m')"

text \<open>The tensors a body writes: operand positions among the inputs and among the outputs.\<close>

type_synonym targets = "int list \<times> int list"

definition is_target :: "tensors \<Rightarrow> TaskFamily \<Rightarrow> targets \<Rightarrow> tensor_array \<Rightarrow> bool" where
  "is_target tas fam T ta \<longleftrightarrow>
     (\<exists>k \<in> set (fst T). tin tas fam k = Inr ta) \<or> (\<exists>k \<in> set (snd T). tout tas fam k = Inr ta)"

definition target_cells :: "tensors \<Rightarrow> TaskFamily \<Rightarrow> targets \<Rightarrow> loc set" where
  "target_cells tas fam T = \<Union> {ta_cells ta |ta. is_target tas fam T ta}"

definition tensors_wf :: "tensors \<Rightarrow> bool" where
  "tensors_wf tas = list_all (\<lambda>(_, a, off, sh, ss). list_all (\<lambda>n. 0 \<le> n) sh \<and> length ss = length sh) tas"

lemma is_target_wf:
  assumes "tensors_wf tas" "is_target tas fam T ta"
  shows "ta_wf ta" "ta_cells ta \<subseteq> target_cells tas fam T"
    and "\<exists>a off sh ss. ta = (a, off, sh, ss) \<and> (\<forall>n \<in> set sh. 0 \<le> n) \<and> length ss = length sh"
proof -
  obtain name where "map_of tas name = Some ta"
    using assms(2) by (auto simp: is_target_def tin_def tout_def result_simps)
  then have "(name, ta) \<in> set tas" by (rule map_of_SomeD)
  then show "\<exists>a off sh ss. ta = (a, off, sh, ss) \<and> (\<forall>n \<in> set sh. 0 \<le> n) \<and> length ss = length sh"
    using assms(1) unfolding tensors_wf_def list_all_iff by (cases ta) fastforce
  then show "ta_wf ta" by (auto simp: ta_wf_def)
  show "ta_cells ta \<subseteq> target_cells tas fam T" using assms(2) unfolding target_cells_def by blast
qed

lemma writes_store:
  "tensors_wf tas \<Longrightarrow> is_target tas fam T ta \<Longrightarrow> ix_pos is \<Longrightarrow> writes_only (target_cells tas fam T) m (store np ta is v m)"
  using store_unchanged is_target_wf unfolding writes_only_def by metis

lemma writes_store_flat:
  assumes "tensors_wf tas" "is_target tas fam T ta"
  shows "writes_only (target_cells tas fam T) m (store_flat np ta lo hi v m)"
proof -
  obtain a off sh ss where ta: "ta = (a, off, sh, ss)" "\<forall>n \<in> set sh. 0 \<le> n" "length ss = length sh"
    using is_target_wf(3) [OF assms] by auto
  have "unchanged_outside (target_cells tas fam T) m m'" if "store_flat np ta lo hi v m = Inr m'" for m'
  proof (cases "flat_view ta")
    case None
    then show ?thesis using that by (auto simp: store_flat_def result_simps)
  next
    case (Some ta')
    have "ta_cells ta' \<subseteq> target_cells tas fam T" "ta_wf ta'"
      using flat_view_cells [OF _ ta(2,3), of a off ta'] Some ta(1) is_target_wf(2) [OF assms] by auto
    then show ?thesis using that Some store_unchanged [of np ta' "[Slc lo hi]" v m m'] by (simp add: store_flat_def)
  qed
  then show ?thesis by (simp add: writes_only_def)
qed

lemma writes_seq:
  "writes_only L m r \<Longrightarrow> (\<And>m'. writes_only L m' (f m')) \<Longrightarrow> writes_only L m (bindr r f)"
  by (auto simp: writes_only_def result_simps intro: unchanged_trans)

lemma writes_store_seq:
  "tensors_wf tas \<Longrightarrow> is_target tas fam T ta \<Longrightarrow> ix_pos is \<Longrightarrow> (\<And>m'. writes_only (target_cells tas fam T) m' (f m'))
     \<Longrightarrow> writes_only (target_cells tas fam T) m (bindr (store np ta is v m) f)"
  by (rule writes_seq [OF writes_store])

lemma writes_bind: "(\<And>x. r = Inr x \<Longrightarrow> writes_only L m (f x)) \<Longrightarrow> writes_only L m (bindr r f)"
  by (auto simp: writes_only_def result_simps)

lemma writes_if: "(b \<Longrightarrow> writes_only L m x) \<Longrightarrow> (\<not> b \<Longrightarrow> writes_only L m y) \<Longrightarrow> writes_only L m (if b then x else y)"
  by simp

lemma writes_case_prod: "(\<And>a b. p = (a, b) \<Longrightarrow> writes_only L m (f a b)) \<Longrightarrow> writes_only L m (case p of (a, b) \<Rightarrow> f a b)"
  by (cases p) simp

lemma writes_case_prod_app:
  "(\<And>a b. p = (a, b) \<Longrightarrow> writes_only L m (f a b z)) \<Longrightarrow> writes_only L m ((case p of (a, b) \<Rightarrow> f a b) z)"
  by (cases p) simp

lemma writes_return: "writes_only L m (Inr m)"
  by (simp add: writes_only_def)

lemma writes_raise: "writes_only L m (Inl e)"
  by (simp add: writes_only_def)

lemmas writes_rules =
  writes_store_seq writes_store writes_store_flat writes_if writes_case_prod writes_case_prod_app writes_return writes_raise writes_bind

lemma row_sel_pos: "row_sel x cs = Inr sel \<Longrightarrow> ix_pos sel"
  by (auto simp: row_sel_def result_simps split: if_splits)

lemma target_in: "tin tas fam k = Inr ta \<Longrightarrow> k \<in> set (fst T) \<Longrightarrow> is_target tas fam T ta"
  by (auto simp: is_target_def)

lemma target_out: "tout tas fam k = Inr ta \<Longrightarrow> k \<in> set (snd T) \<Longrightarrow> is_target tas fam T ta"
  by (auto simp: is_target_def)

end
