(* ===== verification/Bodies.thy ===== *)
theory Bodies
  imports Body_Frames
begin

text \<open>
  The executor's table of task bodies, and the cells each of them may change: the tensors it stores
  into, by operand position.
\<close>

section \<open>The table\<close>

definition kind_bodies :: "'v numpy \<Rightarrow> tensors \<Rightarrow> (string, 'v body) dict" where
  "kind_bodies np tas =
    [(''gemm'', body_gemm np tas),
     (''gemv_fp8'', body_gemv_fp8 np tas),
     (''layernorm'', body_layernorm np tas),
     (''rms_norm'', body_rms_norm np tas),
     (''rms_norm_gated'', body_rms_norm_gated np tas),
     (''rope'', body_rope np tas),
     (''elementwise'', body_elementwise np tas),
     (''embedding'', body_embedding np tas),
     (''moe_route'', body_moe_route np tas),
     (''moe_expert'', body_moe_expert np tas),
     (''moe_combine'', body_moe_combine np tas),
     (''conjugate_rope'', body_conjugate_rope np tas),
     (''mla_scores'', body_mla_scores np tas),
     (''mla_values'', body_mla_values np tas),
     (''indexer_scores'', body_indexer_scores np tas),
     (''index_topk'', body_index_topk np tas),
     (''cache_append'', body_cache_append np tas),
     (''cache_append_paged'', body_cache_append_paged np tas),
     (''attention_scores_paged'', body_attention_scores_paged np tas),
     (''attention_values_paged'', body_attention_values_paged np tas),
     (''attention_scores'', body_attention_scores np tas),
     (''softmax'', body_softmax np tas),
     (''attention_values'', body_attention_values np tas),
     (''compressor_append'', body_compressor_append np tas),
     (''gdn_conv'', body_gdn_conv np tas),
     (''mhc_pre'', body_mhc_pre np tas),
     (''mhc_post'', body_mhc_post np tas),
     (''gdn_delta'', body_gdn_delta np tas),
     (''kda_delta'', body_kda_delta np tas),
     (''kda_fused_decode'', body_kda_fused_decode np tas)]"

definition body_table :: "'v numpy \<Rightarrow> tensors \<Rightarrow> (string, 'v body) dict" where
  "body_table np tas = map (\<lambda>(k, b). (''_body_'' @ k, b)) (kind_bodies np tas)"

text \<open>\<^verbatim>\<open>getattr(self, name)\<close>\<close>

definition body_method :: "'v numpy \<Rightarrow> tensors \<Rightarrow> string \<Rightarrow> 'v body" where
  "body_method np tas name =
     (case map_of (body_table np tas) name of
        Some b \<Rightarrow> b
      | None \<Rightarrow> (\<lambda>fam cs scalars m. Inl AttributeError))"

text \<open>The operands a body stores into; every other body stores into its first output only.\<close>

definition in_place_targets :: "(string, targets) dict" where
  "in_place_targets =
    [(''moe_route'', ([2, 3], [])),
     (''index_topk'', ([], [0, 1])),
     (''cache_append'', ([0, 1], [])),
     (''cache_append_paged'', ([0, 1], [])),
     (''compressor_append'', ([0, 1], [])),
     (''gdn_conv'', ([0], [0])),
     (''mhc_pre'', ([], [0, 1, 2])),
     (''gdn_delta'', ([0], [0])),
     (''kda_delta'', ([0], [0])),
     (''kda_fused_decode'', ([0, 1], [0]))]"

definition body_targets :: "string \<Rightarrow> targets" where
  "body_targets kind = (case map_of in_place_targets kind of Some T \<Rightarrow> T | None \<Rightarrow> ([], [0]))"

section \<open>Every body writes its targets only\<close>

lemma frame_gemm:
  "tensors_wf tas \<Longrightarrow> writes_only (target_cells tas fam ([], [0])) m (body_gemm np tas fam cs scalars m)"
  unfolding body_gemm_def Let_def by (rule writes_rules | assumption | simp | erule target_in target_out row_sel_pos)+

lemma frame_gemv_fp8:
  "tensors_wf tas \<Longrightarrow> writes_only (target_cells tas fam ([], [0])) m (body_gemv_fp8 np tas fam cs scalars m)"
  unfolding body_gemv_fp8_def Let_def by (rule writes_rules | assumption | simp | erule target_in target_out row_sel_pos)+

lemma frame_layernorm:
  "tensors_wf tas \<Longrightarrow> writes_only (target_cells tas fam ([], [0])) m (body_layernorm np tas fam cs scalars m)"
  unfolding body_layernorm_def Let_def by (rule writes_rules | assumption | simp | erule target_in target_out row_sel_pos)+

lemma frame_rms_norm:
  "tensors_wf tas \<Longrightarrow> writes_only (target_cells tas fam ([], [0])) m (body_rms_norm np tas fam cs scalars m)"
  unfolding body_rms_norm_def Let_def by (rule writes_rules | assumption | simp | erule target_in target_out row_sel_pos)+

lemma frame_rms_norm_gated:
  "tensors_wf tas \<Longrightarrow> writes_only (target_cells tas fam ([], [0])) m (body_rms_norm_gated np tas fam cs scalars m)"
  unfolding body_rms_norm_gated_def Let_def by (rule writes_rules | assumption | simp | erule target_in target_out row_sel_pos)+

lemma frame_rope:
  "tensors_wf tas \<Longrightarrow> writes_only (target_cells tas fam ([], [0])) m (body_rope np tas fam cs scalars m)"
  unfolding body_rope_def Let_def by (rule writes_rules | assumption | simp | erule target_in target_out row_sel_pos)+

lemma frame_elementwise:
  "tensors_wf tas \<Longrightarrow> writes_only (target_cells tas fam ([], [0])) m (body_elementwise np tas fam cs scalars m)"
  unfolding body_elementwise_def Let_def by (rule writes_rules | assumption | simp | erule target_in target_out row_sel_pos)+

lemma frame_embedding:
  "tensors_wf tas \<Longrightarrow> writes_only (target_cells tas fam ([], [0])) m (body_embedding np tas fam cs scalars m)"
  unfolding body_embedding_def Let_def by (rule writes_rules | assumption | simp | erule target_in target_out row_sel_pos)+

lemma frame_moe_route:
  "tensors_wf tas \<Longrightarrow> writes_only (target_cells tas fam ([2, 3], [])) m (body_moe_route np tas fam cs scalars m)"
  unfolding body_moe_route_def Let_def by (rule writes_rules | assumption | simp | erule target_in target_out row_sel_pos)+

lemma frame_moe_expert:
  "tensors_wf tas \<Longrightarrow> writes_only (target_cells tas fam ([], [0])) m (body_moe_expert np tas fam cs scalars m)"
  unfolding body_moe_expert_def Let_def by (rule writes_rules | assumption | simp | erule target_in target_out row_sel_pos)+

lemma frame_moe_combine:
  "tensors_wf tas \<Longrightarrow> writes_only (target_cells tas fam ([], [0])) m (body_moe_combine np tas fam cs scalars m)"
  unfolding body_moe_combine_def Let_def by (rule writes_rules | assumption | simp | erule target_in target_out row_sel_pos)+

lemma frame_conjugate_rope:
  "tensors_wf tas \<Longrightarrow> writes_only (target_cells tas fam ([], [0])) m (body_conjugate_rope np tas fam cs scalars m)"
  unfolding body_conjugate_rope_def Let_def by (rule writes_rules | assumption | simp | erule target_in target_out row_sel_pos)+

lemma frame_mla_scores:
  "tensors_wf tas \<Longrightarrow> writes_only (target_cells tas fam ([], [0])) m (body_mla_scores np tas fam cs scalars m)"
  unfolding body_mla_scores_def Let_def by (rule writes_rules | assumption | simp | erule target_in target_out row_sel_pos)+

lemma frame_mla_values:
  "tensors_wf tas \<Longrightarrow> writes_only (target_cells tas fam ([], [0])) m (body_mla_values np tas fam cs scalars m)"
  unfolding body_mla_values_def Let_def by (rule writes_rules | assumption | simp | erule target_in target_out row_sel_pos)+

lemma frame_indexer_scores:
  "tensors_wf tas \<Longrightarrow> writes_only (target_cells tas fam ([], [0])) m (body_indexer_scores np tas fam cs scalars m)"
  unfolding body_indexer_scores_def Let_def by (rule writes_rules | assumption | simp | erule target_in target_out row_sel_pos)+

lemma frame_index_topk:
  "tensors_wf tas \<Longrightarrow> writes_only (target_cells tas fam ([], [0, 1])) m (body_index_topk np tas fam cs scalars m)"
  unfolding body_index_topk_def Let_def by (rule writes_rules | assumption | simp | erule target_in target_out row_sel_pos)+

lemma frame_cache_append:
  "tensors_wf tas \<Longrightarrow> writes_only (target_cells tas fam ([0, 1], [])) m (body_cache_append np tas fam cs scalars m)"
  unfolding body_cache_append_def Let_def by (rule writes_rules | assumption | simp | erule target_in target_out row_sel_pos)+

lemma frame_cache_append_paged:
  "tensors_wf tas \<Longrightarrow> writes_only (target_cells tas fam ([0, 1], [])) m (body_cache_append_paged np tas fam cs scalars m)"
  unfolding body_cache_append_paged_def Let_def by (rule writes_rules | assumption | simp | erule target_in target_out row_sel_pos)+

lemma frame_attention_scores_paged:
  "tensors_wf tas \<Longrightarrow> writes_only (target_cells tas fam ([], [0])) m (body_attention_scores_paged np tas fam cs scalars m)"
  unfolding body_attention_scores_paged_def Let_def by (rule writes_rules | assumption | simp | erule target_in target_out row_sel_pos)+

lemma frame_attention_values_paged:
  "tensors_wf tas \<Longrightarrow> writes_only (target_cells tas fam ([], [0])) m (body_attention_values_paged np tas fam cs scalars m)"
  unfolding body_attention_values_paged_def Let_def by (rule writes_rules | assumption | simp | erule target_in target_out row_sel_pos)+

lemma frame_attention_scores:
  "tensors_wf tas \<Longrightarrow> writes_only (target_cells tas fam ([], [0])) m (body_attention_scores np tas fam cs scalars m)"
  unfolding body_attention_scores_def Let_def by (rule writes_rules | assumption | simp | erule target_in target_out row_sel_pos)+

lemma frame_softmax:
  "tensors_wf tas \<Longrightarrow> writes_only (target_cells tas fam ([], [0])) m (body_softmax np tas fam cs scalars m)"
  unfolding body_softmax_def Let_def by (rule writes_rules | assumption | simp | erule target_in target_out row_sel_pos)+

lemma frame_attention_values:
  "tensors_wf tas \<Longrightarrow> writes_only (target_cells tas fam ([], [0])) m (body_attention_values np tas fam cs scalars m)"
  unfolding body_attention_values_def Let_def by (rule writes_rules | assumption | simp | erule target_in target_out row_sel_pos)+

lemma frame_gdn_conv:
  "tensors_wf tas \<Longrightarrow> writes_only (target_cells tas fam ([0], [0])) m (body_gdn_conv np tas fam cs scalars m)"
  unfolding body_gdn_conv_def Let_def by (rule writes_rules | assumption | simp | erule target_in target_out row_sel_pos)+

lemma frame_mhc_pre:
  "tensors_wf tas \<Longrightarrow> writes_only (target_cells tas fam ([], [0, 1, 2])) m (body_mhc_pre np tas fam cs scalars m)"
  unfolding body_mhc_pre_def Let_def by (rule writes_rules | assumption | simp | erule target_in target_out row_sel_pos)+

lemma frame_mhc_post:
  "tensors_wf tas \<Longrightarrow> writes_only (target_cells tas fam ([], [0])) m (body_mhc_post np tas fam cs scalars m)"
  unfolding body_mhc_post_def Let_def by (rule writes_rules | assumption | simp | erule target_in target_out row_sel_pos)+

lemma frame_gdn_delta:
  "tensors_wf tas \<Longrightarrow> writes_only (target_cells tas fam ([0], [0])) m (body_gdn_delta np tas fam cs scalars m)"
  unfolding body_gdn_delta_def Let_def by (rule writes_rules | assumption | simp | erule target_in target_out row_sel_pos)+

lemma frame_kda_delta:
  "tensors_wf tas \<Longrightarrow> writes_only (target_cells tas fam ([0], [0])) m (body_kda_delta np tas fam cs scalars m)"
  unfolding body_kda_delta_def Let_def by (rule writes_rules | assumption | simp | erule target_in target_out row_sel_pos)+

lemma writes_advance:
  "tensors_wf tas \<Longrightarrow> is_target tas fam T state
     \<Longrightarrow> writes_only (target_cells tas fam T) m (compressor_advance np state b l slot cb_len R m)"
  unfolding compressor_advance_def by (rule writes_rules | assumption | simp)+

lemma frame_compressor_append:
  "tensors_wf tas \<Longrightarrow> writes_only (target_cells tas fam ([0, 1], [])) m (body_compressor_append np tas fam cs scalars m)"
  unfolding body_compressor_append_def
  by (rule writes_rules writes_advance | assumption | simp | erule target_in target_out)+

lemma fused_conv_unchanged:
  assumes "fused_conv np tas fam conv_t slot bb Kw cols m = Inr (y, m')" "tensors_wf tas" "is_target tas fam T conv_t"
  shows "unchanged_outside (target_cells tas fam T) m m'"
proof -
  obtain v where "store np conv_t [At slot, Full, Gather cols] v m = Inr m'"
    using assms(1) by (auto simp: fused_conv_def Let_def result_simps)
  then show ?thesis using writes_store [OF assms(2,3), of "[At slot, Full, Gather cols]" m np v] by (simp add: writes_only_def)
qed

lemma writes_fused_conv:
  assumes "tensors_wf tas" "is_target tas fam T conv_t" "\<And>y m'. writes_only (target_cells tas fam T) m' (f y m')"
  shows "writes_only (target_cells tas fam T) m
    (bindr (fused_conv np tas fam conv_t slot bb Kw cols m) (\<lambda>(y, m). f y m))"
  using assms(3) fused_conv_unchanged [OF _ assms(1,2)] unchanged_trans
  unfolding writes_only_def by (fastforce simp: result_simps)

lemma frame_kda_fused_decode:
  "tensors_wf tas \<Longrightarrow> writes_only (target_cells tas fam ([0, 1], [0])) m (body_kda_fused_decode np tas fam cs scalars m)"
  unfolding body_kda_fused_decode_def Let_def
  by (rule writes_fused_conv writes_rules | assumption | simp | erule target_in target_out)+

lemmas frame_rules = frame_gemm frame_gemv_fp8 frame_layernorm frame_rms_norm frame_rms_norm_gated frame_rope frame_elementwise frame_embedding frame_moe_route frame_moe_expert frame_moe_combine frame_conjugate_rope frame_mla_scores frame_mla_values frame_indexer_scores frame_index_topk frame_cache_append frame_cache_append_paged frame_attention_scores_paged frame_attention_values_paged frame_attention_scores frame_softmax frame_attention_values frame_compressor_append frame_gdn_conv frame_mhc_pre frame_mhc_post frame_gdn_delta frame_kda_delta frame_kda_fused_decode

lemma body_targets_values:
  "body_targets ''gemm'' = ([], [0])"
  "body_targets ''gemv_fp8'' = ([], [0])"
  "body_targets ''layernorm'' = ([], [0])"
  "body_targets ''rms_norm'' = ([], [0])"
  "body_targets ''rms_norm_gated'' = ([], [0])"
  "body_targets ''rope'' = ([], [0])"
  "body_targets ''elementwise'' = ([], [0])"
  "body_targets ''embedding'' = ([], [0])"
  "body_targets ''moe_route'' = ([2, 3], [])"
  "body_targets ''moe_expert'' = ([], [0])"
  "body_targets ''moe_combine'' = ([], [0])"
  "body_targets ''conjugate_rope'' = ([], [0])"
  "body_targets ''mla_scores'' = ([], [0])"
  "body_targets ''mla_values'' = ([], [0])"
  "body_targets ''indexer_scores'' = ([], [0])"
  "body_targets ''index_topk'' = ([], [0, 1])"
  "body_targets ''cache_append'' = ([0, 1], [])"
  "body_targets ''cache_append_paged'' = ([0, 1], [])"
  "body_targets ''attention_scores_paged'' = ([], [0])"
  "body_targets ''attention_values_paged'' = ([], [0])"
  "body_targets ''attention_scores'' = ([], [0])"
  "body_targets ''softmax'' = ([], [0])"
  "body_targets ''attention_values'' = ([], [0])"
  "body_targets ''compressor_append'' = ([0, 1], [])"
  "body_targets ''gdn_conv'' = ([0], [0])"
  "body_targets ''mhc_pre'' = ([], [0, 1, 2])"
  "body_targets ''mhc_post'' = ([], [0])"
  "body_targets ''gdn_delta'' = ([0], [0])"
  "body_targets ''kda_delta'' = ([0], [0])"
  "body_targets ''kda_fused_decode'' = ([0, 1], [0])"
  by (code_simp)+

lemma map_of_prefixed: "map_of (map (\<lambda>(k, b). (p @ k, b)) d) (p @ k) = map_of d k"
  by (induction d) auto

lemma map_of_body_table: "map_of (body_table np tas) (''_body_'' @ k) = map_of (kind_bodies np tas) k"
  unfolding body_table_def by (rule map_of_prefixed)

lemma kind_bodies_frame:
  assumes "tensors_wf tas"
  shows "list_all (\<lambda>(k, b). writes_only (target_cells tas fam (body_targets k)) m (b fam cs scalars m)) (kind_bodies np tas)"
  unfolding kind_bodies_def
  by (simp only: list.pred_inject case_prod_conv body_targets_values frame_rules [OF assms] simp_thms)

text \<open>The bodies of the registered task kinds are in the table.\<close>

lemma task_kinds_listed:
  "list_all (\<lambda>k. k \<in> set (map fst (kind_bodies np tas))) (map (oc_task_kind \<circ> snd) CONTRACTS)"
  unfolding kind_bodies_def list.map fst_conv by code_simp

lemma body_method_kind:
  "body_method np tas (''_body_'' @ k) =
     (case map_of (kind_bodies np tas) k of Some b \<Rightarrow> b | None \<Rightarrow> (\<lambda>fam cs scalars m. Inl AttributeError))"
  unfolding body_method_def map_of_body_table ..

lemma body_frame:
  assumes "tensors_wf tas"
  shows "writes_only (target_cells tas fam (body_targets kind)) m
    (body_method np tas (''_body_'' @ kind) fam cs scalars m)"
proof (cases "map_of (kind_bodies np tas) kind")
  case None
  then show ?thesis unfolding body_method_kind by (simp add: writes_raise)
next
  case (Some b)
  then have "(kind, b) \<in> set (kind_bodies np tas)" by (rule map_of_SomeD)
  with kind_bodies_frame [OF assms, of fam m cs scalars np] Some show ?thesis
    unfolding body_method_kind by (auto simp: list_all_iff)
qed

text \<open>
  C28: What a task may change.  For every registered task kind, a task body that returns leaves every memory
  cell as it was except cells of the tensors it stores into: its first output for most kinds, its
  outputs for the hyper-connection and top-k tasks, the cache and state operands of the appends,
  convolutions and delta rules, the id and weight operands of the router.  Array sizes do not change.
\<close>

theorem bodies_write_targets:
  assumes "tensors_wf tas" "body_method np tas (''_body_'' @ kind) fam cs scalars m = Inr m'"
    and "\<forall>ta i. is_target tas fam (body_targets kind) ta \<and> idx_in (ta_shape ta) i \<longrightarrow> l \<noteq> ta_loc ta i"
  shows "length (mem_cells m' r) = length (mem_cells m r)
    \<and> (loc_ok m l \<longrightarrow> mem_get m' l = mem_get m l)"
proof -
  have "unchanged_outside (target_cells tas fam (body_targets kind)) m m'"
    using body_frame [OF assms(1), of fam kind m np cs scalars] assms(2) unfolding writes_only_def by blast
  moreover have "l \<notin> target_cells tas fam (body_targets kind)"
    using assms(3) unfolding target_cells_def ta_cells_def by blast
  ultimately show ?thesis unfolding unchanged_outside_def by blast
qed

text \<open>A product of 2 by 2 matrices in tiles of one element.\<close>

definition demo_gemm :: TaskFamily where
  "demo_gemm = mk_family ''_linear'' ''gemm'' (demo_op 0) (mk_domain [(2, 1), (2, 1)]) [''x'', ''w''] [''y'']
     [(''bias'', VBool False)] 0 (\<lambda>_. Inr []) (\<lambda>_. Inr [])"

definition demo_tensors :: tensors where
  "demo_tensors = [(''x'', ExtArr 1, 0, [2, 2], [2, 1]), (''w'', ExtArr 2, 0, [2, 2], [2, 1]), (''y'', WsSlice 3 7, 0, [2, 2], [2, 1])]"

definition demo_mem :: "int Mem" where
  "demo_mem = \<lparr>mem_ws = replicate 8 None, mem_ext = [(1, map Some [1, 2, 3, 4]), (2, map Some [5, 6, 7, 8])]\<rparr>"

theorem bodies_write_targets_witness:
  "\<exists>m'. body_method int_numpy demo_tensors (''_body_'' @ ''gemm'') demo_gemm [1, 0] [] demo_mem = Inr m'
     \<and> mem_get m' (None, 5) = Some 43 \<and> mem_get m' (Some 1, 2) = Some 3"
proof -
  let ?r = "body_method int_numpy demo_tensors (''_body_'' @ ''gemm'') demo_gemm [1, 0] [] demo_mem"
  have "bindr ?r (\<lambda>m'. Inr (mem_get m' (None, 5))) = Inr (Some 43)" by code_simp
  then obtain m' where m': "?r = Inr m'" "mem_get m' (None, 5) = Some 43" by (auto simp: bindr_Inr_iff)
  have w: "tensors_wf demo_tensors" by code_simp
  have t: "body_targets ''gemm'' = ([], [0])" by (rule body_targets_values)
  have n: "\<forall>ta i. is_target demo_tensors demo_gemm (body_targets ''gemm'') ta \<and> idx_in (ta_shape ta) i \<longrightarrow> (Some 1, 2) \<noteq> ta_loc ta i"
    unfolding t by (auto simp: is_target_def tout_def py_nth_def dict_get_def demo_gemm_def mk_family_def demo_tensors_def ta_loc_def)
  have "mem_get m' (Some 1, 2) = mem_get demo_mem (Some 1, 2)"
    using bodies_write_targets [OF w m'(1) n] by (simp add: loc_ok_def mem_cells_def demo_mem_def)
  moreover have "mem_get demo_mem (Some 1, 2) = Some 3" by code_simp
  ultimately show ?thesis using m' by auto
qed

end
