(* ===== verification/Body_Values.thy ===== *)
theory Body_Values
  imports Bodies
begin

text \<open>
  What a phase of tasks computes.  A locale states the contract of a family whose tasks own disjoint
  parts of the output: the value of a cell does not depend on the order of the tasks, so every
  assignment of tasks to workers gives the same memory.
\<close>

section \<open>Exact effect of a store\<close>

lemma fold_puts_exact:
  assumes "distinct js" "inj_on h (set js)" "\<And>j. j \<in> set js \<Longrightarrow> loc_ok m (h j)"
  shows "\<exists>m'. foldr_res (\<lambda>m j. let l = h j in if loc_ok m l then Inr (mem_put l (c j) m) else Inl MemoryFault) m js = Inr m'
    \<and> unchanged_outside (h ` set js) m m' \<and> (\<forall>j \<in> set js. mem_get m' (h j) = c j)"
  using assms
proof (induction js arbitrary: m)
  case Nil
  then show ?case by simp
next
  case (Cons j js)
  let ?m = "mem_put (h j) (c j) m"
  have "inj_on h (set js)" "\<And>i. i \<in> set js \<Longrightarrow> loc_ok ?m (h i)" using Cons.prems by auto
  then obtain m' where m': "foldr_res (\<lambda>m j. let l = h j in if loc_ok m l then Inr (mem_put l (c j) m) else Inl MemoryFault) ?m js = Inr m'"
      "unchanged_outside (h ` set js) ?m m'" "\<forall>i \<in> set js. mem_get m' (h i) = c i"
    using Cons.IH [of ?m] Cons.prems(1) by auto
  have j: "loc_ok m (h j)" using Cons.prems(3) by simp
  have "h j \<notin> h ` set js" using Cons.prems(1,2) by (auto dest: inj_onD)
  then have "mem_get m' (h j) = c j" using unchangedD [OF m'(2)] j mem_get_put [OF j j] by simp
  moreover have "unchanged_outside (h ` set (j # js)) m m'"
    by (rule unchanged_trans [OF unchanged_put unchanged_mono [OF m'(2)]]) (use j in auto)
  ultimately show ?case using m'(1,3) j by (intro exI [of _ m']) (simp add: Let_def)
qed

lemma store_exact:
  assumes "nd_ix is (ta_shape ta) = Inr (sh, f)" "fit_to sh v = Inr g"
    and "inj_on (\<lambda>j. ta_loc ta (f j)) {j. idx_in sh j}" "\<And>j. idx_in sh j \<Longrightarrow> loc_ok m (ta_loc ta (f j))"
  shows "\<exists>m'. store np ta is v m = Inr m' \<and> unchanged_outside {ta_loc ta (f j) |j. idx_in sh j} m m'
    \<and> (\<forall>j. idx_in sh j \<longrightarrow> mem_get m' (ta_loc ta (f j)) = np_store np (ta_arr ta) (g j))"
proof -
  have "{ta_loc ta (f j) |j. idx_in sh j} = (\<lambda>j. ta_loc ta (f j)) ` set (idxs sh)" by (auto simp: set_idxs)
  with fold_puts_exact [OF distinct_idxs, of "\<lambda>j. ta_loc ta (f j)" sh m "\<lambda>j. np_store np (ta_arr ta) (g j)"] assms
  show ?thesis unfolding store_def by (auto simp: set_idxs)
qed

section \<open>Slices and broadcasting on matching shapes\<close>

lemma slice_simps:
  "0 \<le> lo \<Longrightarrow> lo \<le> n \<Longrightarrow> slice_start n (Some lo) = lo" "slice_start n None = 0"
  "0 \<le> lo \<Longrightarrow> lo \<le> hi \<Longrightarrow> hi \<le> n \<Longrightarrow> slice_len n (Some lo) (Some hi) 1 = hi - lo"
  "0 \<le> n \<Longrightarrow> slice_len n None None 1 = n"
  by (auto simp: slice_start_def slice_stop_def slice_len_def wrap_bound_def)

lemma bc_rev_same: "bc_rev sh sh = Inr sh"
  by (induction sh) auto

lemma bc_shape_same [simp]: "bc_shape sh sh = Inr sh"
  by (simp add: bc_shape_def bc_rev_same)

lemma bc_index_same [simp]: "idx_in sh i \<Longrightarrow> bc_index sh i = i"
proof -
  have "idx_in sh i \<Longrightarrow> map2 (\<lambda>n k. if n = 1 then 0 else k) sh i = i"
    by (induction sh arbitrary: i) (auto simp: idx_in_Cons1)
  then show "idx_in sh i \<Longrightarrow> bc_index sh i = i" by (simp add: bc_index_def idx_in_length)
qed

lemma fit_to_same: "\<exists>g. fit_to (nd_shape v) v = Inr g \<and> (\<forall>i. idx_in (nd_shape v) i \<longrightarrow> g i = nd_at v i)"
  by (simp add: fit_to_def)

section \<open>Tasks that own their output\<close>

text \<open>
  \<open>exec e t\<close> runs task \<open>t\<close> of family \<open>e\<close>; \<open>ready e m\<close> says that \<open>m\<close> is a memory the family can start
  from; \<open>own e t\<close> are the output indices of task \<open>t\<close>, \<open>place e i\<close> the cell of an index and \<open>val e m i\<close>
  its value, computed from the memory the family started from.
\<close>

locale owner_computes =
  fixes exec :: "'e \<Rightarrow> 't \<Rightarrow> 'v Mem \<Rightarrow> 'v Mem result"
    and ready :: "'e \<Rightarrow> 'v Mem \<Rightarrow> bool"
    and tasks :: "'e \<Rightarrow> 't set"
    and place :: "'e \<Rightarrow> 'i \<Rightarrow> loc"
    and own :: "'e \<Rightarrow> 't \<Rightarrow> 'i set"
    and val :: "'e \<Rightarrow> 'v Mem \<Rightarrow> 'i \<Rightarrow> 'v cell"
  assumes own_ok: "ready e m0 \<Longrightarrow> t \<in> tasks e \<Longrightarrow> i \<in> own e t \<Longrightarrow> loc_ok m0 (place e i)"
    and place_inj: "ready e m0 \<Longrightarrow> inj_on (place e) (\<Union> (own e ` tasks e))"
    and step: "ready e m0 \<Longrightarrow> t \<in> tasks e \<Longrightarrow> unchanged_outside (place e ` \<Union> (own e ` tasks e)) m0 m \<Longrightarrow>
      \<exists>m'. exec e t m = Inr m' \<and> unchanged_outside (place e ` own e t) m m'
        \<and> (\<forall>i \<in> own e t. mem_get m' (place e i) = val e m0 i)"
begin

lemma run_from:
  assumes "ready e m0" "set ts \<subseteq> tasks e" "unchanged_outside (place e ` \<Union> (own e ` tasks e)) m0 m"
  shows "\<exists>m'. foldr_res (\<lambda>m t. exec e t m) m ts = Inr m' \<and> unchanged_outside (place e ` \<Union> (own e ` set ts)) m m'
    \<and> (\<forall>t \<in> set ts. \<forall>i \<in> own e t. mem_get m' (place e i) = val e m0 i)"
  using assms
proof (induction ts arbitrary: m)
  case Nil
  then show ?case by simp
next
  case (Cons t ts)
  have t: "t \<in> tasks e" and ts: "set ts \<subseteq> tasks e" using Cons.prems(2) by auto
  obtain m1 where m1: "exec e t m = Inr m1" "unchanged_outside (place e ` own e t) m m1"
      "\<forall>i \<in> own e t. mem_get m1 (place e i) = val e m0 i"
    using step [OF Cons.prems(1) t Cons.prems(3)] by blast
  have sub: "place e ` own e t \<subseteq> place e ` \<Union> (own e ` tasks e)" using t by blast
  have u1: "unchanged_outside (place e ` \<Union> (own e ` tasks e)) m0 m1"
    by (rule unchanged_trans [OF Cons.prems(3) unchanged_mono [OF m1(2) sub]])
  obtain m' where m': "foldr_res (\<lambda>m t. exec e t m) m1 ts = Inr m'" "unchanged_outside (place e ` \<Union> (own e ` set ts)) m1 m'"
      "\<forall>t \<in> set ts. \<forall>i \<in> own e t. mem_get m' (place e i) = val e m0 i"
    using Cons.IH [OF Cons.prems(1) ts u1] by blast
  have "unchanged_outside (place e ` \<Union> (own e ` set (t # ts))) m m'"
    by (rule unchanged_trans [OF unchanged_mono [OF m1(2)] unchanged_mono [OF m'(2)]]) auto
  moreover have "mem_get m' (place e i) = val e m0 i" if i: "i \<in> own e t" for i
  proof (cases "place e i \<in> place e ` \<Union> (own e ` set ts)")
    case True
    then obtain t' i' where i': "t' \<in> set ts" "i' \<in> own e t'" "place e i' = place e i" by auto
    then have "i' = i" using inj_onD [OF place_inj [OF Cons.prems(1)] i'(3)] i t ts by blast
    then show ?thesis using m'(3) i' by blast
  next
    case False
    have "loc_ok m1 (place e i)" using own_ok [OF Cons.prems(1) t i] unchanged_loc_ok [OF u1] by blast
    then show ?thesis using unchangedD [OF m'(2) _ False] m1(3) i by simp
  qed
  ultimately show ?case using m1(1) m'(1,3) by (intro exI [of _ m']) auto
qed

text \<open>Every order of the tasks computes every owned cell.\<close>

lemma run_all:
  assumes "ready e m0" "set ts = tasks e"
  shows "\<exists>m'. foldr_res (\<lambda>m t. exec e t m) m0 ts = Inr m' \<and> unchanged_outside (place e ` \<Union> (own e ` tasks e)) m0 m'
    \<and> (\<forall>t \<in> tasks e. \<forall>i \<in> own e t. mem_get m' (place e i) = val e m0 i)"
  using run_from [OF assms(1) _ unchanged_refl, of ts] assms(2) by simp

end

section \<open>Matrix products\<close>

definition ta_ok :: "'v Mem \<Rightarrow> tensor_array \<Rightarrow> bool" where
  "ta_ok m ta \<longleftrightarrow> (\<forall>i. idx_in (ta_shape ta) i \<longrightarrow> loc_ok m (ta_loc ta i))"

definition ta_inj :: "tensor_array \<Rightarrow> bool" where
  "ta_inj ta \<longleftrightarrow> inj_on (ta_loc ta) {i. idx_in (ta_shape ta) i}"

lemma view_ok: "ta_ok m ta \<Longrightarrow> view m ta = Inr (mk_nd (ta_shape ta) (\<lambda>i. mem_get m (ta_loc ta i)))"
  by (simp add: view_def ta_ok_def list_all_iff set_idxs)

lemma ta_ok_unchanged: "unchanged_outside L m m' \<Longrightarrow> ta_ok m' ta = ta_ok m ta"
  by (simp add: ta_ok_def unchanged_loc_ok)

text \<open>The operands of an ungrouped product: \<open>x\<close> is \<open>M\<close> by \<open>K\<close>, \<open>w\<close> is \<open>K\<close> by \<open>N\<close>, \<open>y\<close> is \<open>M\<close> by \<open>N\<close>.\<close>

record gemm_args =
  ga_x :: tensor_array
  ga_w :: tensor_array
  ga_bias :: "tensor_array option"
  ga_y :: tensor_array
  ga_m :: int
  ga_k :: int
  ga_n :: int

type_synonym 'v gemm_env = "'v numpy \<times> tensors \<times> TaskFamily \<times> (string, int) dict \<times> gemm_args"

definition gemm_family :: "tensors \<Rightarrow> TaskFamily \<Rightarrow> gemm_args \<Rightarrow> bool" where
  "gemm_family tas f a \<longleftrightarrow>
     tin tas f 0 = Inr (ga_x a) \<and> tin tas f 1 = Inr (ga_w a) \<and> tout tas f 0 = Inr (ga_y a)
     \<and> (\<exists>pb. map_of (fam_params f) ''bias'' = Some pb \<and>
          (case ga_bias a of None \<Rightarrow> \<not> truthy pb | Some b \<Rightarrow> truthy pb \<and> tin tas f 2 = Inr b))
     \<and> \<not> truthy (attr_get (fam_params f) ''grouped_heads'' VNone)
     \<and> (\<exists>tm tn. td_dims (fam_domain f) = [(ga_m a, tm), (ga_n a, tn)] \<and> 0 < tm \<and> 0 < tn)"

definition gemm_ready :: "'v gemm_env \<Rightarrow> 'v Mem \<Rightarrow> bool" where
  "gemm_ready e m = (case e of (np, tas, f, sc, a) \<Rightarrow>
     gemm_family tas f a \<and> 0 \<le> ga_m a \<and> 0 \<le> ga_k a \<and> 0 \<le> ga_n a
     \<and> ta_shape (ga_x a) = [ga_m a, ga_k a] \<and> ta_shape (ga_w a) = [ga_k a, ga_n a] \<and> ta_shape (ga_y a) = [ga_m a, ga_n a]
     \<and> ta_ok m (ga_x a) \<and> ta_ok m (ga_w a) \<and> ta_ok m (ga_y a) \<and> ta_inj (ga_y a)
     \<and> ta_cells (ga_x a) \<inter> ta_cells (ga_y a) = {} \<and> ta_cells (ga_w a) \<inter> ta_cells (ga_y a) = {}
     \<and> (case ga_bias a of None \<Rightarrow> True
        | Some b \<Rightarrow> ta_shape b = [ga_n a] \<and> ta_ok m b \<and> ta_cells b \<inter> ta_cells (ga_y a) = {}))"

text \<open>One cell of \<^verbatim>\<open>x.astype(f64) @ w.astype(f64) + bias\<close>, before and after the store conversion.\<close>

definition gemm_acc :: "'v numpy \<Rightarrow> gemm_args \<Rightarrow> 'v Mem \<Rightarrow> int \<Rightarrow> int \<Rightarrow> 'v cell" where
  "gemm_acc np a m i j =
     (let d = np_dot np (map (\<lambda>k. np_f64 np (mem_get m (ta_loc (ga_x a) [i, k]))) (urange (ga_k a)))
                        (map (\<lambda>k. np_f64 np (mem_get m (ta_loc (ga_w a) [k, j]))) (urange (ga_k a))) in
      case ga_bias a of None \<Rightarrow> d | Some b \<Rightarrow> np_u2 np UAdd d (mem_get m (ta_loc b [j])))"

definition gemm_val :: "'v gemm_env \<Rightarrow> 'v Mem \<Rightarrow> int list \<Rightarrow> 'v cell" where
  "gemm_val e m i = (case e of (np, tas, f, sc, a) \<Rightarrow> np_store np (ta_arr (ga_y a)) (gemm_acc np a m (i ! 0) (i ! 1)))"

definition gemm_exec :: "'v gemm_env \<Rightarrow> int list \<Rightarrow> 'v Mem \<Rightarrow> 'v Mem result" where
  "gemm_exec e cs m = (case e of (np, tas, f, sc, a) \<Rightarrow> body_gemm np tas f cs sc m)"

definition gemm_place :: "'v gemm_env \<Rightarrow> int list \<Rightarrow> loc" where
  "gemm_place e i = (case e of (np, tas, f, sc, a) \<Rightarrow> ta_loc (ga_y a) i)"

definition gemm_tasks :: "'v gemm_env \<Rightarrow> int list set" where
  "gemm_tasks e = (case e of (np, tas, f, sc, a) \<Rightarrow> {cs. idx_in (grid (fam_domain f)) cs})"

text \<open>The tile of a task.\<close>

definition gemm_own :: "'v gemm_env \<Rightarrow> int list \<Rightarrow> int list set" where
  "gemm_own e cs = (case e of (np, tas, f, sc, a) \<Rightarrow>
     (case gemm_box f cs of
        Inr ((m0, m1), (n0, n1)) \<Rightarrow> {[i, j] |i j. m0 \<le> i \<and> i < m1 \<and> n0 \<le> j \<and> j < n1}
      | Inl _ \<Rightarrow> {}))"

lemma ceil_tile:
  fixes c t e :: int
  assumes "0 < t" "c < (e + t - 1) div t"
  shows "c * t < e"
proof -
  have "c + 1 \<le> (e + t - 1) div t" using assms(2) by simp
  then have "(c + 1) * t \<le> e + t - 1" using int_le_div_iff [OF assms(1)] by blast
  then show ?thesis by (simp add: algebra_simps)
qed

lemma gemm_box_value:
  assumes "td_dims (fam_domain f) = [(M, tm), (N, tn)]" "0 < tm" "0 < tn" "idx_in (grid (fam_domain f)) cs"
  shows "\<exists>m0 m1 n0 n1. gemm_box f cs = Inr ((m0, m1), (n0, n1)) \<and> 0 \<le> m0 \<and> m0 \<le> m1 \<and> m1 \<le> M \<and> 0 \<le> n0 \<and> n0 \<le> n1 \<and> n1 \<le> N"
proof -
  obtain a b where cs: "cs = [a, b]" "0 \<le> a" "a < (M + tm - 1) div tm" "0 \<le> b" "b < (N + tn - 1) div tn"
    using assms(1,4) by (auto simp: grid_def idx_in_Cons1)
  then have "a * tm < M" "b * tn < N" using ceil_tile assms(2,3) by blast+
  then show ?thesis using assms cs by (auto simp: gemm_box_def py_nth_def Let_def)
qed

lemma bc_shape_row: "bc_shape [p, q] [q] = Inr [p, q]"
  by (simp add: bc_shape_def)

lemma gemm_tile_value:
  assumes "ta_shape x = [M, K]" "ta_shape w = [K, N]" "0 \<le> m0" "m0 \<le> m1" "m1 \<le> M" "0 \<le> n0" "n0 \<le> n1" "n1 \<le> N" "0 \<le> K"
  shows "ev np (MatMul (AsF64 (Ix (V (mk_nd [M, K] xv)) [Slc m0 m1, Full])) (AsF64 (Ix (V (mk_nd [K, N] wv)) [Full, Slc n0 n1])))
    = Inr (mk_nd [m1 - m0, n1 - n0] (\<lambda>j. np_dot np (map (\<lambda>k. np_f64 np (xv [m0 + hd j, k])) (urange K))
                                        (map (\<lambda>k. np_f64 np (wv [k, n0 + hd (tl j)])) (urange K))))"
  using assms by (simp add: nd_index_def nd_matmul_def nd_map_def slice_simps Let_def)

lemma add_bias_value:
  assumes "0 \<le> n0" "n0 \<le> n1" "n1 \<le> N"
  shows "\<exists>A. add_bias np (map_option (mk_nd [N]) bv) n0 n1 (mk_nd [p, n1 - n0] d) = Inr A \<and> nd_shape A = [p, n1 - n0]
    \<and> (\<forall>i j. idx_in [p, n1 - n0] [i, j] \<longrightarrow>
        nd_at A [i, j] = (case bv of None \<Rightarrow> d [i, j] | Some b \<Rightarrow> np_u2 np UAdd (d [i, j]) (b [n0 + j])))"
proof (cases bv)
  case None
  then show ?thesis by (simp add: add_bias_def)
next
  case (Some b)
  have "bc_index [n1 - n0] [i, j] = [j]" if "idx_in [p, n1 - n0] [i, j]" for i j
    using that by (auto simp: bc_index_def)
  then show ?thesis using assms Some
    by (simp add: add_bias_def nd_index_def nd_map2_def slice_simps bc_shape_row)
qed

lemma gemm_body_exact:
  assumes "gemm_ready (np, tas, f, sc, a) m" "gemm_box f cs = Inr ((m0, m1), (n0, n1))"
    and "0 \<le> m0" "m0 \<le> m1" "m1 \<le> ga_m a" "0 \<le> n0" "n0 \<le> n1" "n1 \<le> ga_n a"
  shows "\<exists>m'. body_gemm np tas f cs sc m = Inr m'
    \<and> unchanged_outside {ta_loc (ga_y a) [i, j] |i j. m0 \<le> i \<and> i < m1 \<and> n0 \<le> j \<and> j < n1} m m'
    \<and> (\<forall>i j. m0 \<le> i \<and> i < m1 \<and> n0 \<le> j \<and> j < n1 \<longrightarrow>
        mem_get m' (ta_loc (ga_y a) [i, j]) = np_store np (ta_arr (ga_y a)) (gemm_acc np a m i j))"
proof -
  note r = assms(1) [unfolded gemm_ready_def gemm_family_def prod.case]
  have op: "tin tas f 0 = Inr (ga_x a)" "tin tas f 1 = Inr (ga_w a)" "tout tas f 0 = Inr (ga_y a)"
    and gh: "\<not> truthy (attr_get (fam_params f) ''grouped_heads'' VNone)" and k: "0 \<le> ga_k a"
    and sh: "ta_shape (ga_x a) = [ga_m a, ga_k a]" "ta_shape (ga_w a) = [ga_k a, ga_n a]" "ta_shape (ga_y a) = [ga_m a, ga_n a]"
    and ok: "ta_ok m (ga_x a)" "ta_ok m (ga_w a)" "ta_ok m (ga_y a)" and inj: "ta_inj (ga_y a)"
    and bok: "case ga_bias a of None \<Rightarrow> True | Some b \<Rightarrow> ta_shape b = [ga_n a] \<and> ta_ok m b \<and> ta_cells b \<inter> ta_cells (ga_y a) = {}"
    using r by blast+
  let ?x = "mk_nd [ga_m a, ga_k a] (\<lambda>i. mem_get m (ta_loc (ga_x a) i))"
  let ?w = "mk_nd [ga_k a, ga_n a] (\<lambda>i. mem_get m (ta_loc (ga_w a) i))"
  let ?bv = "map_option (\<lambda>b i. mem_get m (ta_loc b i)) (ga_bias a)"
  let ?d = "\<lambda>j. np_dot np (map (\<lambda>k. np_f64 np (mem_get m (ta_loc (ga_x a) [m0 + hd j, k]))) (urange (ga_k a)))
      (map (\<lambda>k. np_f64 np (mem_get m (ta_loc (ga_w a) [k, n0 + hd (tl j)]))) (urange (ga_k a)))"
  have acc: "(case ?bv of None \<Rightarrow> ?d [i, j] | Some b \<Rightarrow> np_u2 np UAdd (?d [i, j]) (b [n0 + j])) = gemm_acc np a m (m0 + i) (n0 + j)" for i j
    by (cases "ga_bias a") (simp_all add: gemm_acc_def)
  obtain A where A: "add_bias np (map_option (mk_nd [ga_n a]) ?bv) n0 n1 (mk_nd [m1 - m0, n1 - n0] ?d) = Inr A"
      "nd_shape A = [m1 - m0, n1 - n0]"
      "\<forall>i j. idx_in [m1 - m0, n1 - n0] [i, j] \<longrightarrow> nd_at A [i, j] = gemm_acc np a m (m0 + i) (n0 + j)"
    using add_bias_value [OF assms(6-8), of np ?bv "m1 - m0" ?d] unfolding acc by blast
  obtain pb where pb: "map_of (fam_params f) ''bias'' = Some pb"
      "case ga_bias a of None \<Rightarrow> \<not> truthy pb | Some b \<Rightarrow> truthy pb \<and> tin tas f 2 = Inr b"
    using r by blast
  have bias: "(if truthy pb then bindr (rd tas f m 2) (\<lambda>b. Inr (Some b)) else Inr None) = Inr (map_option (mk_nd [ga_n a]) ?bv)"
    using bok pb(2) by (cases "ga_bias a") (simp_all add: rd_def view_ok)
  have rdx: "rd tas f m 0 = Inr ?x" "rd tas f m 1 = Inr ?w"
    by (simp_all add: rd_def op view_ok [OF ok(1)] view_ok [OF ok(2)] sh)
  have body: "body_gemm np tas f cs sc m = store np (ga_y a) [Slc m0 m1, Slc n0 n1] A m"
    using gh pb(1) assms(2) A(1)
    unfolding body_gemm_def
    by (simp add: rdx op(3) bias dict_get_def gemm_tile_value [OF sh(1,2) assms(3-8) k] del: ev.simps split del: if_split)
  obtain g where g: "fit_to [m1 - m0, n1 - n0] A = Inr g" "\<forall>i. idx_in [m1 - m0, n1 - n0] i \<longrightarrow> g i = nd_at A i"
    using fit_to_same [of A] A(2) by auto
  let ?f = "\<lambda>j. [m0 + hd j, n0 + hd (tl j)] @ tl (tl j)"
  have ix: "nd_ix [Slc m0 m1, Slc n0 n1] (ta_shape (ga_y a)) = Inr ([m1 - m0, n1 - n0], ?f)"
    using assms(3-8) by (simp add: sh slice_simps)
  have idx: "idx_in (ta_shape (ga_y a)) (?f j)" if "idx_in [m1 - m0, n1 - n0] j" for j
    using that assms(3-8) by (auto simp: sh idx_in_Cons1)
  have "inj_on (\<lambda>j. ta_loc (ga_y a) (?f j)) {j. idx_in [m1 - m0, n1 - n0] j}"
  proof (rule inj_onI, clarify)
    fix j j' assume j: "idx_in [m1 - m0, n1 - n0] j" "idx_in [m1 - m0, n1 - n0] j'"
      and e: "ta_loc (ga_y a) (?f j) = ta_loc (ga_y a) (?f j')"
    have "?f j = ?f j'" using inj_onD [OF inj [unfolded ta_inj_def] e] idx [OF j(1)] idx [OF j(2)] by blast
    then show "j = j'" using j by (auto simp: idx_in_Cons1)
  qed
  from store_exact [OF ix g(1) this, of m np] ok(3) idx obtain m' where m': "body_gemm np tas f cs sc m = Inr m'"
      "unchanged_outside {ta_loc (ga_y a) (?f j) |j. idx_in [m1 - m0, n1 - n0] j} m m'"
      "\<forall>j. idx_in [m1 - m0, n1 - n0] j \<longrightarrow> mem_get m' (ta_loc (ga_y a) (?f j)) = np_store np (ta_arr (ga_y a)) (g j)"
    unfolding body ta_ok_def by blast
  have "{ta_loc (ga_y a) (?f j) |j. idx_in [m1 - m0, n1 - n0] j}
      \<subseteq> {ta_loc (ga_y a) [i, j] |i j. m0 \<le> i \<and> i < m1 \<and> n0 \<le> j \<and> j < n1}"
    by (fastforce simp: idx_in_Cons1)
  moreover have "mem_get m' (ta_loc (ga_y a) [i, j]) = np_store np (ta_arr (ga_y a)) (gemm_acc np a m i j)"
    if "m0 \<le> i" "i < m1" "n0 \<le> j" "j < n1" for i j
    using m'(3) [rule_format, of "[i - m0, j - n0]"] g(2) A(3) [rule_format, of "i - m0" "j - n0"] that by simp
  ultimately show ?thesis using m'(1) unchanged_mono [OF m'(2)] by blast
qed

lemma gemm_dims:
  assumes "gemm_ready (np, tas, f, sc, a) m"
  obtains tm tn where "td_dims (fam_domain f) = [(ga_m a, tm), (ga_n a, tn)]" "0 < tm" "0 < tn"
  using assms unfolding gemm_ready_def gemm_family_def prod.case by blast

lemma gemm_own_value:
  assumes "gemm_ready (np, tas, f, sc, a) m" "idx_in (grid (fam_domain f)) cs"
  shows "\<exists>m0 m1 n0 n1. gemm_box f cs = Inr ((m0, m1), (n0, n1)) \<and> 0 \<le> m0 \<and> m0 \<le> m1 \<and> m1 \<le> ga_m a \<and> 0 \<le> n0 \<and> n0 \<le> n1 \<and> n1 \<le> ga_n a
    \<and> gemm_own (np, tas, f, sc, a) cs = {[i, j] |i j. m0 \<le> i \<and> i < m1 \<and> n0 \<le> j \<and> j < n1}"
proof -
  obtain tm tn where d: "td_dims (fam_domain f) = [(ga_m a, tm), (ga_n a, tn)]" "0 < tm" "0 < tn"
    by (rule gemm_dims [OF assms(1)])
  from gemm_box_value [OF d assms(2)] show ?thesis by (auto simp: gemm_own_def)
qed

lemma gemm_own_inside:
  assumes "gemm_ready (np, tas, f, sc, a) m"
  shows "\<Union> (gemm_own (np, tas, f, sc, a) ` gemm_tasks (np, tas, f, sc, a)) \<subseteq> {i. idx_in (ta_shape (ga_y a)) i}"
proof -
  have sh: "ta_shape (ga_y a) = [ga_m a, ga_n a]" using assms unfolding gemm_ready_def prod.case by blast
  show ?thesis using gemm_own_value [OF assms] unfolding sh gemm_tasks_def by fastforce
qed

text \<open>Reads see the memory the family started from: the operands do not share cells with the output.\<close>

lemma gemm_ready_step:
  assumes "gemm_ready (np, tas, f, sc, a) m0" "unchanged_outside L m0 m" "L \<subseteq> ta_cells (ga_y a)"
  shows "gemm_ready (np, tas, f, sc, a) m"
    and "0 \<le> i \<Longrightarrow> i < ga_m a \<Longrightarrow> 0 \<le> j \<Longrightarrow> j < ga_n a \<Longrightarrow> gemm_acc np a m i j = gemm_acc np a m0 i j"
proof -
  note r = assms(1) [unfolded gemm_ready_def prod.case]
  show "gemm_ready (np, tas, f, sc, a) m" using assms(1) unfolding gemm_ready_def ta_ok_unchanged [OF assms(2)] .
  assume ij: "0 \<le> i" "i < ga_m a" "0 \<le> j" "j < ga_n a"
  have same: "mem_get m (ta_loc t l) = mem_get m0 (ta_loc t l)"
    if "ta_ok m0 t" "ta_cells t \<inter> ta_cells (ga_y a) = {}" "idx_in (ta_shape t) l" for t l
  proof (rule unchangedD [OF assms(2)])
    show "loc_ok m0 (ta_loc t l)" using that unfolding ta_ok_def by blast
    show "ta_loc t l \<notin> L" using that assms(3) unfolding ta_cells_def by blast
  qed
  have x: "mem_get m (ta_loc (ga_x a) [i, k]) = mem_get m0 (ta_loc (ga_x a) [i, k])" if "k \<in> set (urange (ga_k a))" for k
    by (rule same) (use r ij that in auto)
  have w: "mem_get m (ta_loc (ga_w a) [k, j]) = mem_get m0 (ta_loc (ga_w a) [k, j])" if "k \<in> set (urange (ga_k a))" for k
    by (rule same) (use r ij that in auto)
  have b: "mem_get m (ta_loc b [j]) = mem_get m0 (ta_loc b [j])" if "ga_bias a = Some b" for b
    by (rule same) (use r ij that in auto)
  have xs: "map (\<lambda>k. np_f64 np (mem_get m (ta_loc (ga_x a) [i, k]))) (urange (ga_k a))
      = map (\<lambda>k. np_f64 np (mem_get m0 (ta_loc (ga_x a) [i, k]))) (urange (ga_k a))"
    by (rule map_cong [OF refl]) (simp only: x)
  have ws: "map (\<lambda>k. np_f64 np (mem_get m (ta_loc (ga_w a) [k, j]))) (urange (ga_k a))
      = map (\<lambda>k. np_f64 np (mem_get m0 (ta_loc (ga_w a) [k, j]))) (urange (ga_k a))"
    by (rule map_cong [OF refl]) (simp only: w)
  show "gemm_acc np a m i j = gemm_acc np a m0 i j"
    unfolding gemm_acc_def using b by (cases "ga_bias a") (simp_all add: xs ws)
qed

interpretation gemm: owner_computes gemm_exec gemm_ready gemm_tasks gemm_place gemm_own gemm_val
proof (unfold_locales, goal_cases)
  case (1 e m0 cs i)
  obtain np tas f sc a where e: "e = (np, tas, f, sc, a)" by (cases e) auto
  have "idx_in (ta_shape (ga_y a)) i" using gemm_own_inside [of np tas f sc a m0] 1 unfolding e by blast
  moreover have "ta_ok m0 (ga_y a)" using 1(1) unfolding e gemm_ready_def prod.case by blast
  ultimately show ?case unfolding e gemm_place_def ta_ok_def by simp
next
  case (2 e m0)
  obtain np tas f sc a where e: "e = (np, tas, f, sc, a)" by (cases e) auto
  have "ta_inj (ga_y a)" using 2 unfolding e gemm_ready_def prod.case by blast
  then have "inj_on (ta_loc (ga_y a)) (\<Union> (gemm_own e ` gemm_tasks e))"
    unfolding ta_inj_def by (rule inj_on_subset) (use gemm_own_inside 2 in \<open>unfold e, blast\<close>)
  then show ?case by (simp add: e gemm_place_def inj_on_def)
next
  case (3 e m0 cs m)
  obtain np tas f sc a where e: "e = (np, tas, f, sc, a)" by (cases e) auto
  have L: "gemm_place e ` \<Union> (gemm_own e ` gemm_tasks e) \<subseteq> ta_cells (ga_y a)"
    using gemm_own_inside [of np tas f sc a m0] 3(1) by (auto simp: e gemm_place_def ta_cells_def)
  note st = gemm_ready_step [OF 3(1,3) [unfolded e] L [unfolded e]]
  obtain m0' m1 n0 n1 where bx: "gemm_box f cs = Inr ((m0', m1), (n0, n1))" "0 \<le> m0'" "m0' \<le> m1" "m1 \<le> ga_m a"
      "0 \<le> n0" "n0 \<le> n1" "n1 \<le> ga_n a"
      "gemm_own e cs = {[i, j] |i j. m0' \<le> i \<and> i < m1 \<and> n0 \<le> j \<and> j < n1}"
    using gemm_own_value [of np tas f sc a m0 cs] 3(1,2) unfolding e gemm_tasks_def by auto
  obtain m' where m': "body_gemm np tas f cs sc m = Inr m'"
      "unchanged_outside {ta_loc (ga_y a) [i, j] |i j. m0' \<le> i \<and> i < m1 \<and> n0 \<le> j \<and> j < n1} m m'"
      "\<forall>i j. m0' \<le> i \<and> i < m1 \<and> n0 \<le> j \<and> j < n1 \<longrightarrow>
        mem_get m' (ta_loc (ga_y a) [i, j]) = np_store np (ta_arr (ga_y a)) (gemm_acc np a m i j)"
    using gemm_body_exact [OF st(1) bx(1-7)] by blast
  have "gemm_place e ` gemm_own e cs = {ta_loc (ga_y a) [i, j] |i j. m0' \<le> i \<and> i < m1 \<and> n0 \<le> j \<and> j < n1}"
    unfolding bx(8) by (auto simp: e gemm_place_def)
  moreover have "\<forall>i \<in> gemm_own e cs. mem_get m' (gemm_place e i) = gemm_val e m0 i"
    unfolding bx(8) using m'(3) bx(2-7) by (auto simp: e gemm_place_def gemm_val_def st(2))
  ultimately show ?case using m'(1,2) by (intro exI [of _ m']) (simp add: gemm_exec_def e)
qed

section \<open>Phases of one family\<close>

definition single_phase :: "int \<Rightarrow> TaskFamily \<Rightarrow> PhasePlan" where
  "single_phase k f = \<lparr>ph_index = k, ph_families = [f]\<rparr>"

lemma foldr_res_cong_set:
  "(\<And>s x. x \<in> set xs \<Longrightarrow> f s x = g s x) \<Longrightarrow> foldr_res f s xs = foldr_res g s xs"
  by (induction xs arbitrary: s) (auto intro: bindr_cong)

lemma unflat_image:
  assumes "wf_domain d"
  shows "unflat (grid d) ` {0..<ntasks d} = {cs. idx_in (grid d) cs}"
proof
  show "unflat (grid d) ` {0..<ntasks d} \<subseteq> {cs. idx_in (grid d) cs}"
    using coords_in_grid [OF assms] coords_Inr_iff [OF assms] by auto
  show "{cs. idx_in (grid d) cs} \<subseteq> unflat (grid d) ` {0..<ntasks d}"
  proof
    fix cs assume "cs \<in> {cs. idx_in (grid d) cs}"
    then have "idx_in (grid d) cs" by simp
    then show "cs \<in> unflat (grid d) ` {0..<ntasks d}"
      using flat_bounds [of "grid d" cs] unflat_flat [of "grid d" cs] by (auto simp: ntasks_def image_iff intro!: bexI [of _ "flat (grid d) cs"])
  qed
qed

lemma single_phase_tasks:
  assumes "wf_family f" "fam_kind f \<in> set (map (oc_task_kind \<circ> snd) CONTRACTS)" "0 < P"
  shows "\<exists>css. set css = {cs. idx_in (grid (fam_domain f)) cs} \<and>
    (\<forall>m. foldr_res (execute_task methods (single_phase k f) sc) m (phase_order P (single_phase k f)) =
      foldr_res (\<lambda>m cs. methods (''_body_'' @ fam_kind f) f cs sc m) m css)"
proof -
  let ?p = "single_phase k f" and ?u = "unflat (grid (fam_domain f))"
  have p: "wf_phase ?p" "known_kinds ?p" "phase_ntasks ?p = ntasks (fam_domain f)"
    using assms(1,2) by (simp_all add: wf_phase_def known_kinds_def single_phase_def phase_ntasks_def fam_ntasks_def)
  have o: "set (phase_order P ?p) = {0..<ntasks (fam_domain f)}" using phase_order_set [OF p(1) assms(3)] p(3) by simp
  have "execute_task methods ?p sc m t = methods (''_body_'' @ fam_kind f) f (?u t) sc m" if "t \<in> set (phase_order P ?p)" for m t
    using execute_task_value [OF p(1,2), of t methods sc] that unfolding o p(3) by (auto simp: single_phase_def locates_def)
  then have "foldr_res (execute_task methods ?p sc) m (phase_order P ?p) =
      foldr_res (\<lambda>m cs. methods (''_body_'' @ fam_kind f) f cs sc m) m (map ?u (phase_order P ?p))" for m
    unfolding foldr_res_map by (rule foldr_res_cong_set)
  moreover have "set (map ?u (phase_order P ?p)) = {cs. idx_in (grid (fam_domain f)) cs}"
    using unflat_image assms(1) by (simp add: o wf_family_def)
  ultimately show ?thesis by blast
qed

text \<open>Every element of the output is in some tile.\<close>

lemma gemm_own_cover:
  assumes "gemm_ready (np, tas, f, sc, a) m" "0 \<le> i" "i < ga_m a" "0 \<le> j" "j < ga_n a"
  shows "\<exists>cs \<in> gemm_tasks (np, tas, f, sc, a). [i, j] \<in> gemm_own (np, tas, f, sc, a) cs"
proof -
  obtain tm tn where d: "td_dims (fam_domain f) = [(ga_m a, tm), (ga_n a, tn)]" "0 < tm" "0 < tn"
    by (rule gemm_dims [OF assms(1)])
  have c: "0 \<le> k div t \<and> k div t < (e + t - 1) div t \<and> k div t * t \<le> k \<and> k < k div t * t + t" if "0 \<le> k" "k < e" "0 < t" for k e t :: int
  proof -
    have "k div t + 1 = (k + t) div t" using that(3) by simp
    also have "\<dots> \<le> (e + t - 1) div t" using that by (intro zdiv_mono1) auto
    finally have "k div t < (e + t - 1) div t" by simp
    moreover have "k div t * t + k mod t = k" "0 \<le> k mod t" "k mod t < t" using that(3) by simp_all
    moreover have "0 \<le> k div t" using that by (simp add: pos_imp_zdiv_nonneg_iff)
    ultimately show ?thesis by (intro conjI; linarith)
  qed
  let ?cs = "[i div tm, j div tn]"
  have "?cs \<in> gemm_tasks (np, tas, f, sc, a)"
    using c [OF assms(2,3) d(2)] c [OF assms(4,5) d(3)] by (simp add: gemm_tasks_def grid_def d(1))
  moreover have "[i, j] \<in> gemm_own (np, tas, f, sc, a) ?cs"
    using c [OF assms(2,3) d(2)] c [OF assms(4,5) d(3)] assms
    by (simp add: gemm_own_def gemm_box_def d(1) py_nth_def Let_def)
  ultimately show ?thesis by blast
qed

lemma gemm_wf_family: "gemm_ready (np, tas, f, sc, a) m \<Longrightarrow> wf_family f"
  by (auto simp: gemm_ready_def gemm_family_def wf_family_def wf_domain_def)

lemma gemm_method: "body_method np tas (''_body_'' @ ''gemm'') = body_gemm np tas"
  unfolding body_method_kind by (simp add: kind_bodies_def)

text \<open>
  C26: A phase of matrix-product tasks computes the whole product.  Let a task family of kind \<^verbatim>\<open>gemm\<close> have
  operands \<open>x\<close>, \<open>w\<close>, an optional bias and an output \<open>y\<close> of matching shapes whose views lie in memory, no
  grouping, distinct cells for the elements of \<open>y\<close> and no cell of \<open>y\<close> among the operands.  Then the
  executor's phase over that family, with any positive number of workers, returns; every element of
  \<open>y\<close> is the converted dot product of its row of \<open>x\<close> and its column of \<open>w\<close> in float64, plus its bias,
  computed from the memory before the phase, and no other cell has changed.
\<close>

theorem gemm_phase_computes:
  assumes "gemm_ready (np, tas, f, sc, a) m" "fam_kind f = ''gemm''" "0 < P"
  shows "\<exists>m'. foldr_res (execute_task (body_method np tas) (single_phase k f) sc) m (phase_order P (single_phase k f)) = Inr m'
    \<and> (\<forall>i j. 0 \<le> i \<and> i < ga_m a \<and> 0 \<le> j \<and> j < ga_n a \<longrightarrow>
        mem_get m' (ta_loc (ga_y a) [i, j]) = np_store np (ta_arr (ga_y a)) (gemm_acc np a m i j))
    \<and> unchanged_outside (ta_cells (ga_y a)) m m'"
proof -
  let ?e = "(np, tas, f, sc, a)"
  have "fam_kind f \<in> set (map (oc_task_kind \<circ> snd) CONTRACTS)" unfolding assms(2) by (simp add: CONTRACTS_def mk_contract_def)
  then obtain css where css: "set css = gemm_tasks ?e"
      "foldr_res (execute_task (body_method np tas) (single_phase k f) sc) m (phase_order P (single_phase k f)) =
        foldr_res (\<lambda>m cs. gemm_exec ?e cs m) m css"
    using single_phase_tasks [OF gemm_wf_family [OF assms(1)] _ assms(3), of "body_method np tas" k sc]
    unfolding assms(2) gemm_method gemm_tasks_def gemm_exec_def prod.case by metis
  obtain m' where m': "foldr_res (\<lambda>m cs. gemm_exec ?e cs m) m css = Inr m'"
      "unchanged_outside (gemm_place ?e ` \<Union> (gemm_own ?e ` gemm_tasks ?e)) m m'"
      "\<forall>cs \<in> gemm_tasks ?e. \<forall>i \<in> gemm_own ?e cs. mem_get m' (gemm_place ?e i) = gemm_val ?e m i"
    using gemm.run_all [OF assms(1) css(1)] by blast
  have "mem_get m' (ta_loc (ga_y a) [i, j]) = np_store np (ta_arr (ga_y a)) (gemm_acc np a m i j)"
    if ij: "0 \<le> i \<and> i < ga_m a \<and> 0 \<le> j \<and> j < ga_n a" for i j
  proof -
    obtain cs where "cs \<in> gemm_tasks ?e" "[i, j] \<in> gemm_own ?e cs" using gemm_own_cover [OF assms(1)] ij by blast
    with m'(3) have "mem_get m' (gemm_place ?e [i, j]) = gemm_val ?e m [i, j]" by blast
    then show ?thesis by (simp add: gemm_place_def gemm_val_def)
  qed
  moreover have "unchanged_outside (ta_cells (ga_y a)) m m'"
    by (rule unchanged_mono [OF m'(2)]) (use gemm_own_inside [OF assms(1)] in \<open>auto simp: gemm_place_def ta_cells_def\<close>)
  ultimately show ?thesis unfolding css(2) using m'(1) by blast
qed

definition demo_args :: gemm_args where
  "demo_args = \<lparr>ga_x = (ExtArr 1, 0, [2, 2], [2, 1]), ga_w = (ExtArr 2, 0, [2, 2], [2, 1]), ga_bias = None,
     ga_y = (WsSlice 3 7, 0, [2, 2], [2, 1]), ga_m = 2, ga_k = 2, ga_n = 2\<rparr>"

theorem gemm_phase_computes_witness:
  "\<exists>m'. foldr_res (execute_task (body_method int_numpy demo_tensors) (single_phase 0 demo_gemm) []) demo_mem
        (phase_order 3 (single_phase 0 demo_gemm)) = Inr m'
     \<and> map (\<lambda>k. mem_get m' (None, k)) [3, 4, 5, 6] = map Some [19, 22, 43, 50]
     \<and> mem_get m' (None, 2) = None"
proof -
  have r: "gemm_ready (int_numpy, demo_tensors, demo_gemm, [], demo_args) demo_mem"
    by (auto simp: gemm_ready_def gemm_family_def demo_tensors_def demo_gemm_def demo_args_def demo_mem_def mk_family_def
        mk_domain_def tin_def tout_def py_nth_def dict_get_def truthy_def attr_get_def ta_ok_def ta_inj_def inj_on_def
        ta_cells_def ta_loc_def idx_in_Cons1 loc_ok_def mem_cells_def; presburger)
  have k: "fam_kind demo_gemm = ''gemm''" by (simp add: demo_gemm_def mk_family_def)
  obtain m' where m': "foldr_res (execute_task (body_method int_numpy demo_tensors) (single_phase 0 demo_gemm) []) demo_mem
        (phase_order 3 (single_phase 0 demo_gemm)) = Inr m'"
      "\<And>i j. 0 \<le> i \<and> i < 2 \<and> 0 \<le> j \<and> j < 2 \<Longrightarrow> mem_get m' (None, 3 + (i * 2 + j)) = gemm_acc int_numpy demo_args demo_mem i j"
      "unchanged_outside (ta_cells (ga_y demo_args)) demo_mem m'"
    using gemm_phase_computes [OF r k, of 3 0] by (auto simp: demo_args_def ta_loc_def int_numpy_def)
  have "mem_get demo_mem (None, 2) = None" by code_simp
  moreover have "mem_get m' (None, 2) = mem_get demo_mem (None, 2)"
    by (rule unchangedD [OF m'(3)])
      (auto simp: demo_mem_def loc_ok_def mem_cells_def demo_args_def ta_cells_def ta_loc_def idx_in_Cons1)
  moreover have "gemm_acc int_numpy demo_args demo_mem 0 0 = Some 19" "gemm_acc int_numpy demo_args demo_mem 0 1 = Some 22"
    "gemm_acc int_numpy demo_args demo_mem 1 0 = Some 43" "gemm_acc int_numpy demo_args demo_mem 1 1 = Some 50"
    by code_simp+
  ultimately show ?thesis
    using m'(1) m'(2) [of 0 0] m'(2) [of 0 1] m'(2) [of 1 0] m'(2) [of 1 1]
    by (intro exI [of _ m']) simp
qed

end
