(* ===== verification/Topk.thy ===== *)
theory Topk
  imports Bodies_Attention
begin

text \<open>
  The indexer's top-k.  The code ranks candidates by counting comparisons and scatters each selected
  index to its rank; the specification is the first \<open>k\<close> elements of the stable descending order of the
  valid finite candidates.
\<close>

section \<open>Stable sorting\<close>

definition strict_weak :: "'a set \<Rightarrow> ('a \<Rightarrow> 'a \<Rightarrow> bool) \<Rightarrow> bool" where
  "strict_weak S lt \<longleftrightarrow> (\<forall>a \<in> S. \<not> lt a a)
     \<and> (\<forall>a \<in> S. \<forall>b \<in> S. \<forall>c \<in> S. lt a b \<longrightarrow> lt b c \<longrightarrow> lt a c)
     \<and> (\<forall>a \<in> S. \<forall>b \<in> S. \<forall>c \<in> S. lt a b \<longrightarrow> lt a c \<or> lt c b)"

text \<open>The order of a stable sort: by \<open>lt\<close>, ties in the order of the input, here by index.\<close>

definition stable_before :: "(int \<Rightarrow> int \<Rightarrow> bool) \<Rightarrow> int \<Rightarrow> int \<Rightarrow> bool" where
  "stable_before lt i j \<longleftrightarrow> lt i j \<or> (\<not> lt j i \<and> i < j)"

lemma set_insert_by [simp]: "set (insert_by lt x ys) = insert x (set ys)"
  by (induction ys) auto

lemma length_insert_by [simp]: "length (insert_by lt x ys) = Suc (length ys)"
  by (induction ys) auto

lemma sort_by_simps [simp]: "sort_by lt [] = []" "sort_by lt (x # xs) = insert_by lt x (sort_by lt xs)"
  by (simp_all add: sort_by_def)

lemma set_sort_by [simp]: "set (sort_by lt xs) = set xs"
  by (induction xs) auto

lemma length_sort_by [simp]: "length (sort_by lt xs) = length xs"
  by (induction xs) auto

lemma strict_weak_mono: "strict_weak S lt \<Longrightarrow> T \<subseteq> S \<Longrightarrow> strict_weak T lt"
  unfolding strict_weak_def by blast

lemma insert_by_sorted:
  assumes "strict_weak S lt" "insert x (set ys) \<subseteq> S" "sorted_wrt (stable_before lt) ys" "\<forall>y \<in> set ys. x < y"
  shows "sorted_wrt (stable_before lt) (insert_by lt x ys)"
  using assms(2-4)
proof (induction ys)
  case Nil
  then show ?case by simp
next
  case (Cons y ys)
  show ?case
  proof (cases "lt y x")
    case True
    then show ?thesis using Cons by (auto simp: stable_before_def)
  next
    case False
    have "\<not> lt z x" if "z \<in> set ys" for z
    proof
      assume "lt z x"
      moreover have "x \<in> S" "y \<in> S" "z \<in> S" using Cons.prems(1) that by auto
      moreover have "lt y z \<or> \<not> lt z y" using Cons.prems(2) that by (auto simp: stable_before_def)
      ultimately show False using assms(1) False unfolding strict_weak_def by blast
    qed
    with False Cons.prems show ?thesis by (auto simp: stable_before_def)
  qed
qed

lemma sort_by_sorted:
  assumes "strict_weak (set xs) lt" "sorted_wrt (<) xs"
  shows "sorted_wrt (stable_before lt) (sort_by lt xs)"
  using assms
proof (induction xs)
  case Nil
  then show ?case by simp
next
  case (Cons x xs)
  have "sorted_wrt (stable_before lt) (sort_by lt xs)"
    using Cons.IH strict_weak_mono [OF Cons.prems(1)] Cons.prems(2) by auto
  then show ?case using insert_by_sorted [OF Cons.prems(1), of x "sort_by lt xs"] Cons.prems(2) by simp
qed

lemma stable_before_asym:
  assumes "strict_weak S lt" "i \<in> S" "j \<in> S" "stable_before lt i j"
  shows "\<not> stable_before lt j i"
  using assms unfolding strict_weak_def stable_before_def by (metis less_asym)

text \<open>In a list sorted by an asymmetric relation the elements before the \<open>p\<close>-th are its predecessors.\<close>

lemma sorted_predecessors:
  assumes "sorted_wrt R js" "\<And>i j. i \<in> set js \<Longrightarrow> j \<in> set js \<Longrightarrow> R i j \<Longrightarrow> \<not> R j i" "p < length js"
  shows "{i \<in> set js. R i (js ! p)} = set (take p js)"
proof
  show "set (take p js) \<subseteq> {i \<in> set js. R i (js ! p)}"
  proof
    fix i assume "i \<in> set (take p js)"
    then obtain q where "q < p" "i = js ! q" using assms(3) by (auto simp: in_set_conv_nth)
    then show "i \<in> {i \<in> set js. R i (js ! p)}" using assms(1,3) by (simp add: sorted_wrt_iff_nth_less)
  qed
  show "{i \<in> set js. R i (js ! p)} \<subseteq> set (take p js)"
  proof clarify
    fix i assume "i \<in> set js" and r: "R i (js ! p)"
    then obtain q where q: "q < length js" "i = js ! q" by (auto simp: in_set_conv_nth)
    have "q < p"
    proof (rule ccontr)
      assume "\<not> q < p"
      then have "p = q \<or> R (js ! p) (js ! q)"
        using sorted_wrt_nth_less [OF assms(1), of p q] q(1) by (cases "p = q") auto
      then show False using assms(2) [of "js ! q" "js ! p"] r q assms(3) by auto
    qed
    then show "i \<in> set (take p js)" using q assms(3) by (auto simp: in_set_conv_nth)
  qed
qed

lemma sorted_distinct:
  assumes "sorted_wrt R js" "\<And>i. i \<in> set js \<Longrightarrow> \<not> R i i"
  shows "distinct js"
  using assms by (induction js) auto

section \<open>Ranks\<close>

text \<open>Comparison of finite numbers is a total order up to equality of values.\<close>

definition np_ordered :: "'v numpy \<Rightarrow> bool" where
  "np_ordered np \<longleftrightarrow> strict_weak {c. np_isfinite np c} (np_less np)
     \<and> (\<forall>a b. np_isfinite np a \<longrightarrow> np_isfinite np b \<longrightarrow> np_equal np a b = (\<not> np_less np a b \<and> \<not> np_less np b a))"

definition topk_better :: "'v numpy \<Rightarrow> 'v cell list \<Rightarrow> int \<Rightarrow> int \<Rightarrow> bool" where
  "topk_better np row i j \<longleftrightarrow> np_less np (row ! nat j) (row ! nat i)"

text \<open>The valid candidates, best first, ties to the lower index.\<close>

definition topk_order :: "'v numpy \<Rightarrow> 'v cell list \<Rightarrow> int \<Rightarrow> int list" where
  "topk_order np row vc = sort_by (topk_better np row) (filter (topk_cand np row vc) (urange (int (length row))))"

lemma topk_better_weak:
  assumes "np_ordered np"
  shows "strict_weak {j. topk_cand np row vc j} (topk_better np row)"
proof -
  have "strict_weak {c. np_isfinite np c} (np_less np)" using assms by (simp add: np_ordered_def)
  then show ?thesis unfolding strict_weak_def topk_better_def topk_cand_def by blast
qed

lemma sorted_urange_filter: "sorted_wrt (<) (filter P (urange n))"
  by (rule sorted_wrt_filter) (simp add: urange_def sorted_wrt_map sorted_wrt_upt)

lemma topk_rank_before:
  assumes "np_ordered np" "topk_cand np row vc j"
  shows "topk_rank np row vc j =
    int (card {i. 0 \<le> i \<and> i < int (length row) \<and> topk_cand np row vc i \<and> stable_before (topk_better np row) i j})"
proof -
  let ?A = "{i. 0 \<le> i \<and> i < int (length row) \<and> np_less np (row ! nat j) (row ! nat i) \<and> topk_cand np row vc i}"
  let ?B = "{i. 0 \<le> i \<and> i < int (length row) \<and> np_equal np (row ! nat i) (row ! nat j) \<and> topk_cand np row vc i \<and> i < j}"
  have len: "length (filter P (urange n)) = card {i. 0 \<le> i \<and> i < n \<and> P i}" for P n
  proof -
    have "length (filter P (urange n)) = card (set (filter P (urange n)))"
      by (rule distinct_card [symmetric]) (simp add: distinct_filter)
    also have "set (filter P (urange n)) = {i. 0 \<le> i \<and> i < n \<and> P i}" by auto
    finally show ?thesis .
  qed
  have eq: "np_equal np (row ! nat i) (row ! nat j) \<longleftrightarrow> \<not> topk_better np row i j \<and> \<not> topk_better np row j i"
    if "topk_cand np row vc i" for i
    using assms that unfolding np_ordered_def topk_cand_def topk_better_def by blast
  have fin: "finite ?A" "finite ?B" by (rule finite_subset [of _ "{0..<int (length row)}"]; auto)+
  have "?A \<inter> ?B = {}" using eq unfolding topk_better_def by blast
  then have "card ?A + card ?B = card (?A \<union> ?B)" using card_Un_disjoint [OF fin] by simp
  also have "?A \<union> ?B = {i. 0 \<le> i \<and> i < int (length row) \<and> topk_cand np row vc i \<and> stable_before (topk_better np row) i j}"
    using eq unfolding stable_before_def by (auto simp: topk_better_def)
  finally show ?thesis by (simp add: topk_rank_def Let_def len)
qed

lemma topk_order_facts:
  fixes row :: "'v cell list" and vc :: int
  assumes "np_ordered np"
  defines "js \<equiv> topk_order np row vc"
  shows "distinct js" "set js = {i. 0 \<le> i \<and> i < int (length row) \<and> topk_cand np row vc i}"
    and "p < length js \<Longrightarrow> topk_rank np row vc (js ! p) = int p"
proof -
  let ?S = "{j. topk_cand np row vc j}" and ?lt = "topk_better np row"
  note w = topk_better_weak [OF assms(1), of row vc]
  show s: "set js = {i. 0 \<le> i \<and> i < int (length row) \<and> topk_cand np row vc i}" by (auto simp: js_def topk_order_def)
  have srt: "sorted_wrt (stable_before ?lt) js"
    unfolding js_def topk_order_def
    by (rule sort_by_sorted [OF strict_weak_mono [OF w] sorted_urange_filter]) auto
  have asym: "\<not> stable_before ?lt j i" if "i \<in> set js" "j \<in> set js" "stable_before ?lt i j" for i j
    using stable_before_asym [OF w] that s by blast
  show d: "distinct js" by (rule sorted_distinct [OF srt]) (use asym in blast)
  assume p: "p < length js"
  have "topk_cand np row vc (js ! p)" using s nth_mem [OF p] by blast
  moreover have "{i. 0 \<le> i \<and> i < int (length row) \<and> topk_cand np row vc i \<and> stable_before ?lt i (js ! p)}
      = {i \<in> set js. stable_before ?lt i (js ! p)}" using s by blast
  moreover have "card (set (take p js)) = p" using distinct_card [OF distinct_take [OF d]] p by simp
  ultimately show "topk_rank np row vc (js ! p) = int p"
    using topk_rank_before [OF assms(1)] sorted_predecessors [OF srt asym p] by simp
qed

lemma scatter_length [simp]: "length (scatter_rank rank f sel out) = length out"
  unfolding scatter_rank_def by (induction sel rule: rev_induct) auto

lemma find_member: "find P xs = Some x \<Longrightarrow> x \<in> set xs \<and> P x"
  by (induction xs) (auto split: if_splits)

lemma scatter_nth:
  assumes "distinct sel" "inj_on rank (set sel)" "\<forall>j \<in> set sel. 0 \<le> rank j \<and> rank j < int (length out)" "p < length out"
  shows "j \<in> set sel \<Longrightarrow> rank j = int p \<Longrightarrow> scatter_rank rank f sel out ! p = f j"
    and "(\<And>j. j \<in> set sel \<Longrightarrow> rank j \<noteq> int p) \<Longrightarrow> scatter_rank rank f sel out ! p = out ! p"
proof -
  have v: "scatter_rank rank f sel out ! p = (case find (\<lambda>j. rank j = int p) (rev sel) of Some j \<Rightarrow> f j | None \<Rightarrow> out ! p)"
    using assms(3,4)
  proof (induction sel rule: rev_induct)
    case Nil
    then show ?case by (simp add: scatter_rank_def)
  next
    case (snoc j sel)
    have l: "length (foldl (\<lambda>out j. out[nat (rank j) := f j]) out sel) = length out"
      using scatter_length [of rank f sel out] by (simp add: scatter_rank_def)
    show ?case using snoc by (auto simp: scatter_rank_def nth_list_update l)
  qed
  show "scatter_rank rank f sel out ! p = f j" if j: "j \<in> set sel" "rank j = int p"
  proof -
    obtain j' where f: "find (\<lambda>j. rank j = int p) (rev sel) = Some j'"
      using j by (cases "find (\<lambda>j. rank j = int p) (rev sel)") (auto simp: find_None_iff)
    then have "j' \<in> set sel" "rank j' = int p" using find_member [OF f] by auto
    then show ?thesis using v f j inj_onD [OF assms(2), of j' j] by simp
  qed
  show "scatter_rank rank f sel out ! p = out ! p" if "\<And>j. j \<in> set sel \<Longrightarrow> rank j \<noteq> int p"
  proof -
    have "find (\<lambda>j. rank j = int p) (rev sel) = None" using that by (simp add: find_None_iff)
    then show ?thesis using v by simp
  qed
qed

section \<open>The selected row\<close>

lemma topk_selected:
  fixes row :: "'v cell list" and vc k :: int
  assumes "np_ordered np"
  defines "js \<equiv> topk_order np row vc"
  shows "set (topk_sel np row vc k) = set (take (nat k) js)"
    and "inj_on (topk_rank np row vc) (set (topk_sel np row vc k))"
    and "\<forall>j \<in> set (topk_sel np row vc k). 0 \<le> topk_rank np row vc j \<and> topk_rank np row vc j < k"
proof -
  note o = topk_order_facts [OF assms(1), where row = row and vc = vc, folded js_def]
  have sel: "set (topk_sel np row vc k) = {j \<in> set js. topk_rank np row vc j < k}" by (auto simp: topk_sel_def o(2))
  have "j \<in> set (take (nat k) js) \<longleftrightarrow> j \<in> set js \<and> topk_rank np row vc j < k" for j
  proof
    assume "j \<in> set (take (nat k) js)"
    then obtain p where "p < nat k" "p < length js" "j = js ! p" by (auto simp: in_set_conv_nth)
    then show "j \<in> set js \<and> topk_rank np row vc j < k" using o(3) by simp
  next
    assume j: "j \<in> set js \<and> topk_rank np row vc j < k"
    then obtain p where p: "p < length js" "j = js ! p" by (auto simp: in_set_conv_nth)
    then have "p < nat k" using o(3) [OF p(1)] j by simp
    then show "j \<in> set (take (nat k) js)" using p by (auto simp: in_set_conv_nth)
  qed
  then show "set (topk_sel np row vc k) = set (take (nat k) js)" unfolding sel by blast
  show "inj_on (topk_rank np row vc) (set (topk_sel np row vc k))"
    unfolding sel using o(3) by (auto simp: inj_on_def in_set_conv_nth)
  show "\<forall>j \<in> set (topk_sel np row vc k). 0 \<le> topk_rank np row vc j \<and> topk_rank np row vc j < k"
    unfolding sel using o(3) by (auto simp: in_set_conv_nth)
qed

text \<open>A scatter by rank is the order of the candidates, cut to \<open>k\<close> and padded.\<close>

lemma topk_scatter:
  assumes "np_ordered np" "0 \<le> k"
  shows "scatter_rank (topk_rank np row vc) f (topk_sel np row vc k) (replicate (nat k) d) =
    map f (take (nat k) (topk_order np row vc)) @ replicate (nat k - length (topk_order np row vc)) d"
proof (rule nth_equalityI)
  let ?js = "topk_order np row vc" and ?sel = "topk_sel np row vc k" and ?out = "replicate (nat k) d"
  note s = topk_selected [OF assms(1), where row = row and vc = vc and k = k] and o = topk_order_facts [OF assms(1), where row = row and vc = vc]
  have dist: "distinct ?sel" by (simp add: topk_sel_def distinct_filter)
  have rk: "\<forall>j \<in> set ?sel. 0 \<le> topk_rank np row vc j \<and> topk_rank np row vc j < int (length ?out)" using s(3) assms(2) by simp
  show "length (scatter_rank (topk_rank np row vc) f ?sel ?out) =
      length (map f (take (nat k) ?js) @ replicate (nat k - length ?js) d)"
    by simp
  fix p assume "p < length (scatter_rank (topk_rank np row vc) f ?sel ?out)"
  then have p: "p < length ?out" by simp
  show "scatter_rank (topk_rank np row vc) f ?sel ?out ! p =
      (map f (take (nat k) ?js) @ replicate (nat k - length ?js) d) ! p"
  proof (cases "p < length ?js")
    case True
    then have "?js ! p \<in> set ?sel" using s(1) p by (auto simp: in_set_conv_nth)
    then have "scatter_rank (topk_rank np row vc) f ?sel ?out ! p = f (?js ! p)"
      using scatter_nth(1) [OF dist s(2) rk p] o(3) [OF True] by blast
    then show ?thesis using True p by (simp add: nth_append)
  next
    case False
    have "topk_rank np row vc j \<noteq> int p" if "j \<in> set ?sel" for j
      using that s(1) o(3) False by (auto simp: in_set_conv_nth)
    then have "scatter_rank (topk_rank np row vc) f ?sel ?out ! p = ?out ! p" by (rule scatter_nth(2) [OF dist s(2) rk p])
    then show ?thesis using False p by (simp add: nth_append)
  qed
qed

text \<open>
  C27: Top-k by comparison counting.  When comparison orders the finite scores, the index row the top-k
  task writes is the list of valid finite candidates in descending score order, ties to the lower
  index, cut to the first \<open>k\<close> and padded with -1; the bias row holds the scores in the same order
  divided by the norm of the valid finite scores (or zeros when the norm is not positive), padded
  with zeros.  Candidates at or beyond the valid count and non-finite scores never appear.
\<close>

theorem index_topk_sorts:
  assumes "np_ordered np" "0 \<le> k"
  shows "let js = topk_order np row vc; pad = nat k - length js; zero = Some (np_float np (FLit 0 0)) in
    topk_row np row vc k =
      (take (nat k) js @ replicate pad (-1),
       (if np_less np zero (topk_norm np row vc)
        then map (\<lambda>j. np_u2 np UDiv (row ! nat j) (topk_norm np row vc)) (take (nat k) js) @ replicate pad zero
        else replicate (nat k) zero))
    \<and> (\<forall>j. j \<in> set js \<longleftrightarrow> 0 \<le> j \<and> j < int (length row) \<and> j < vc \<and> np_isfinite np (row ! nat j))
    \<and> distinct js
    \<and> sorted_wrt (\<lambda>i j. np_less np (row ! nat j) (row ! nat i) \<or> (\<not> np_less np (row ! nat i) (row ! nat j) \<and> i < j)) js"
proof -
  note o = topk_order_facts [OF assms(1), where row = row and vc = vc]
  have "sorted_wrt (stable_before (topk_better np row)) (topk_order np row vc)"
    unfolding topk_order_def
    by (rule sort_by_sorted [OF strict_weak_mono [OF topk_better_weak [OF assms(1), of row vc]] sorted_urange_filter]) auto
  then have "sorted_wrt (\<lambda>i j. np_less np (row ! nat j) (row ! nat i) \<or> (\<not> np_less np (row ! nat i) (row ! nat j) \<and> i < j))
      (topk_order np row vc)" unfolding stable_before_def topk_better_def .
  then show ?thesis
    using o(1,2) topk_scatter [OF assms, of row vc "\<lambda>j. j" "-1"]
      topk_scatter [OF assms, of row vc "\<lambda>j. np_u2 np UDiv (row ! nat j) (topk_norm np row vc)" "Some (np_float np (FLit 0 0))"]
    by (simp add: topk_row_def Let_def topk_cand_def)
qed

lemma int_ordered: "np_ordered int_numpy"
  by (auto simp: np_ordered_def strict_weak_def int_numpy_def)

theorem index_topk_sorts_witness:
  "topk_row int_numpy [Some 3, None, Some 7, Some 3, Some 9] 4 4 = ([2, 0, 3, -1], [Some 0, Some 0, Some 0, Some 0])
   \<and> topk_order int_numpy [Some 3, None, Some 7, Some 3, Some 9] 4 = [2, 0, 3]"
proof -
  have o: "topk_order int_numpy [Some 3, None, Some 7, Some 3, Some 9] 4 = [2, 0, 3]" by code_simp
  have n: "topk_norm int_numpy [Some 3, None, Some 7, Some 3, Some 9] 4 = Some 67" by code_simp
  show ?thesis
    using index_topk_sorts [OF int_ordered, of 4 "[Some 3, None, Some 7, Some 3, Some 9]" 4]
    by (simp add: o n Let_def) (simp add: int_numpy_def int_float_def lift2_def int_u2_def)
qed

end
