(* ===== verification/Run_Bodies.thy ===== *)
theory Run_Bodies
  imports Compile Bodies
begin

text \<open>
  Runs of compiled programs with the numeric bodies of the executor: the cells a body may write are cells
  of buffers its operator records an effect on, so such a run ends with its report or with an
  exception of a numeric body, never with the canary.
\<close>

section \<open>Bodies keep to the buffers of their operators\<close>

text \<open>The names of the tensors at operand positions, and those the tasks of a family store into.\<close>

definition operand_names :: "TaskFamily \<Rightarrow> targets \<Rightarrow> string set" where
  "operand_names f T =
     {n. \<exists>k \<in> set (fst T). py_nth (fam_inputs f) k = Inr n} \<union> {n. \<exists>k \<in> set (snd T). py_nth (fam_outputs f) k = Inr n}"

definition target_names :: "TaskFamily \<Rightarrow> string set" where
  "target_names f = operand_names f (body_targets (fam_kind f))"

text \<open>The operator of a family records an effect on the storages its tasks store into.\<close>

definition effects_recorded :: "OperatorGraph \<Rightarrow> TaskFamily \<Rightarrow> bool" where
  "effects_recorded g f \<longleftrightarrow>
     (\<forall>n \<in> target_names f. \<forall>tv. map_of (g_tensors g) n = Some tv \<longrightarrow> touches (fam_op f) (tv_storage_id tv))"

text \<open>The views of a planned storage stay inside its buffer.\<close>

definition views_inside :: "OperatorGraph \<Rightarrow> WorkspacePlan \<Rightarrow> bool" where
  "views_inside g wp \<longleftrightarrow>
     (\<forall>(n, tv) \<in> set (g_tensors g). length (tv_strides tv) = length (tv_shape tv) \<and>
        (\<forall>b \<in> set (wp_buffers wp). buf_storage_id b = tv_storage_id tv \<longrightarrow>
          (\<forall>i. idx_in (tv_shape tv) i \<longrightarrow>
             0 \<le> tv_offset tv + dot i (tv_strides tv) \<and> tv_offset tv + dot i (tv_strides tv) < buf_numel b)))"

lemma executable_tensor:
  assumes "map_of (executable_tensors g wp) n = Some ta"
  shows "\<exists>tv. map_of (g_tensors g) n = Some tv \<and> ta = ((case map_of (map buffer_slice (wp_buffers wp)) (tv_storage_id tv) of
       Some a \<Rightarrow> a | None \<Rightarrow> ExtArr (tv_storage_id tv)), tv_offset tv, tv_shape tv, tv_strides tv)"
  using assms by (auto simp: executable_tensors_def map_of_map)

lemma workspace_target:
  assumes "(None, a) \<in> target_cells (executable_tensors g wp) f T" "views_inside g wp"
  shows "\<exists>n tv b. n \<in> operand_names f T \<and> map_of (g_tensors g) n = Some tv \<and> b \<in> set (wp_buffers wp) \<and> buf_storage_id b = tv_storage_id tv
    \<and> buf_offset b \<le> a \<and> a < buf_offset b + buf_numel b"
proof -
  obtain ta i where ta: "is_target (executable_tensors g wp) f T ta" "idx_in (ta_shape ta) i" "(None, a) = ta_loc ta i"
    using assms(1) unfolding target_cells_def ta_cells_def by blast
  obtain n where n: "n \<in> operand_names f T" "map_of (executable_tensors g wp) n = Some ta"
    using ta(1) unfolding is_target_def operand_names_def tin_def tout_def bindr_Inr_iff dict_get_Inr_iff by blast
  obtain tv where tv: "map_of (g_tensors g) n = Some tv"
      "ta = ((case map_of (map buffer_slice (wp_buffers wp)) (tv_storage_id tv) of
         Some a \<Rightarrow> a | None \<Rightarrow> ExtArr (tv_storage_id tv)), tv_offset tv, tv_shape tv, tv_strides tv)"
    using executable_tensor [OF n(2)] by blast
  obtain r where r: "map_of (map buffer_slice (wp_buffers wp)) (tv_storage_id tv) = Some r"
    using ta(3) tv(2) by (cases "map_of (map buffer_slice (wp_buffers wp)) (tv_storage_id tv)") (auto simp: ta_loc_def)
  obtain b where b: "b \<in> set (wp_buffers wp)" "(tv_storage_id tv, r) = buffer_slice b" using map_of_SomeD [OF r] by auto
  have "(n, tv) \<in> set (g_tensors g)" by (rule map_of_SomeD [OF tv(1)])
  then have "0 \<le> tv_offset tv + dot i (tv_strides tv)" "tv_offset tv + dot i (tv_strides tv) < buf_numel b"
    using assms(2) b ta(2) tv(2) unfolding views_inside_def buffer_slice_def by fastforce+
  moreover have "a = buf_offset b + tv_offset tv + dot i (tv_strides tv)"
    using ta(3) tv(2) r b(2) by (simp add: ta_loc_def buffer_slice_def)
  ultimately show ?thesis using n(1) tv(1) b
    by (intro exI [of _ n] exI [of _ tv] exI [of _ b]) (simp add: buffer_slice_def)
qed

lemma body_confined:
  assumes "tensors_wf (executable_tensors g wp)" "views_inside g wp" "effects_recorded g f"
    and "body_method np (executable_tensors g wp) (''_body_'' @ fam_kind f) f cs scalars m = Inr m'"
  shows "confined_write (\<lambda>b. touches (fam_op f) (buf_storage_id b)) wp m m'"
proof -
  let ?L = "target_cells (executable_tensors g wp) f (body_targets (fam_kind f))"
  have u: "unchanged_outside ?L m m'"
    using body_frame [OF assms(1), of f "fam_kind f" m np cs scalars] assms(4) unfolding writes_only_def by blast
  have "\<exists>b \<in> set (wp_buffers wp). touches (fam_op f) (buf_storage_id b) \<and> in_buf b i"
    if i: "i < length (mem_ws m)" "mem_ws m' ! i \<noteq> mem_ws m ! i" for i
  proof -
    have "loc_ok m (None, int i)" "mem_get m' (None, int i) \<noteq> mem_get m (None, int i)"
      using i by (simp_all add: loc_ok_def mem_get_def mem_cells_def)
    then have "(None, int i) \<in> ?L" using u unfolding unchanged_outside_def by blast
    from workspace_target [OF this assms(2)] assms(3) show ?thesis
      unfolding effects_recorded_def target_names_def in_buf_def by metis
  qed
  moreover have "length (mem_cells m' None) = length (mem_cells m None)" using u unfolding unchanged_outside_def by blast
  ultimately show ?thesis unfolding confined_write_def by (simp add: mem_cells_def)
qed

lemma executable_tensors_wf:
  assumes "views_inside g wp" "\<forall>e \<in> set (g_tensors g). tensor_legal g (snd e)"
  shows "tensors_wf (executable_tensors g wp)"
proof -
  have "list_all (\<lambda>n. 0 \<le> n) (tv_shape tv) \<and> length (tv_strides tv) = length (tv_shape tv)"
    if "(n, tv) \<in> set (g_tensors g)" for n tv
    using that assms unfolding views_inside_def tensor_legal_def list_all_iff by fastforce
  then show ?thesis unfolding tensors_wf_def executable_tensors_def list_all_iff by fastforce
qed

lemma compiled_bodies_confined:
  assumes "compiled_as ce g cfg fams P" "views_inside g (ce_workspace_plan ce)" "\<forall>f \<in> set fams. effects_recorded g f"
  shows "bodies_confined (body_method np (executable_tensors g (ce_workspace_plan ce))) scalars ce"
proof -
  have "ce_families ce = fams" "\<forall>e \<in> set (g_tensors g). tensor_legal g (snd e)"
    using assms(1) unfolding compiled_as_def by blast+
  then show ?thesis
    using body_confined [OF executable_tensors_wf [OF assms(2)] assms(2)] assms(3) unfolding bodies_confined_def by blast
qed


section \<open>A run\<close>

text \<open>One recorded product of 2 by 2 matrices.\<close>

definition run_linear :: Operator where
  "run_linear =
     \<lparr>opid = 0, op_kind = ''linear'', op_inputs = [''x'', ''w''], op_outputs = [''y''], op_attributes = [],
      op_read_regions = [region_whole (demo_tensor ''x'' 1 [2, 2]), region_whole (demo_tensor ''w'' 2 [2, 2])],
      op_write_regions = [region_whole (demo_tensor ''y'' 0 [2, 2])], op_source_location = ''demo''\<rparr>"

definition run_graph :: OperatorGraph where
  "run_graph = empty_graph
     \<lparr>g_tensors := [(''x'', demo_tensor ''x'' 1 [2, 2]), (''w'', demo_tensor ''w'' 2 [2, 2]), (''y'', demo_tensor ''y'' 0 [2, 2])],
      g_storage_sizes := [(0, 4), (1, 4), (2, 4)], g_storage_names := [(0, ''y''), (1, ''x''), (2, ''w'')],
      g_storage_versions := [(0, 0), (1, 0), (2, 0)], g_fresh_storages := {0}, g_next_storage := 1,
      g_scalars := [(''p'', \<lparr>sc_name = ''p'', sc_lo = 0, sc_hi = 8\<rparr>)],
      g_ops := [run_linear], g_next_vid := 3, g_next_opid := 1\<rparr>"

definition run_arrays :: "(string, int cell list) dict" where
  "run_arrays = [(''x'', map Some [1, 2, 3, 4]), (''w'', map Some [5, 6, 7, 8])]"

lemma run_graph_wf: "graph_wf run_graph"
  by (auto simp: graph_wf_def run_graph_def empty_graph_def run_linear_def demo_tensor_def
      tensor_entry_ok_def dict_wf_def urange_def)

lemma run_graph_runs:
  "bindr (compile_model (Some 4) ''reference'' ''phase'' True None demo_config (Inr run_graph)) (\<lambda>ce.
     bindr (run_reference ce (body_method int_numpy) [2] run_arrays 3 None (Some 2) True) (\<lambda>(logits, trace, m, len).
       Inr (logits, mem_ws m, len))) =
   Inr ((WsSlice 0 4, 0, [2, 2], [2, 1]), [Some 19, Some 22, Some 43, Some 50], 4)"
  by code_simp

lemma run_graph_lowered:
  assumes "lower_graph run_graph = Inr fams"
  shows "map fam_kind fams = [''gemm'']" "map fam_inputs fams = [[''x'', ''w'']]" "map fam_outputs fams = [[''y'']]"
proof -
  have "bindr (lower_graph run_graph) (\<lambda>fams. Inr (map fam_kind fams, map fam_inputs fams, map fam_outputs fams))
      = Inr ([''gemm''], [[''x'', ''w'']], [[''y'']])" by code_simp
  with assms show "map fam_kind fams = [''gemm'']" "map fam_inputs fams = [[''x'', ''w'']]" "map fam_outputs fams = [[''y'']]"
    by simp_all
qed

lemma run_graph_ready:
  assumes "compiled_as ce run_graph demo_config fams P"
  shows "views_inside run_graph (ce_workspace_plan ce)" "\<forall>f \<in> set (ce_families ce). effects_recorded run_graph f"
proof -
  have c: "lower_graph run_graph = Inr fams" "ce_families ce = fams"
    and pl: "plan_memory run_graph (ce_schedule ce) fams = Inr (ce_workspace_plan ce, ce_scratch_plan ce)"
    using assms unfolding compiled_as_def by blast+
  have t: "fresh_table run_graph = [(0, ''y'', 4)]" by code_simp
  have b: "buf_storage_id b = 0 \<and> buf_numel b = 4" if "b \<in> set (wp_buffers (ce_workspace_plan ce))" for b
    using plan_numel [OF ops_have_phases(1) [OF assms run_graph_wf] pl that] unfolding t by simp
  have st: "row_major_strides [2, 2] = [2, 1]" by code_simp
  show "views_inside run_graph (ce_workspace_plan ce)"
    using b by (auto simp: views_inside_def run_graph_def demo_tensor_def st idx_in_Cons1)
  have o: "map fam_op fams = [run_linear]" using lowered_ids(1) [OF run_graph_wf c(1)] by (simp add: run_graph_def)
  obtain f where f: "fams = [f]" using o by (cases fams) auto
  have "body_targets ''gemm'' = ([], [0])" by (rule body_targets_values)
  then have "target_names f = {''y''}"
    using run_graph_lowered [OF c(1)] f by (simp add: target_names_def operand_names_def py_nth_def)
  then show "\<forall>f \<in> set (ce_families ce). effects_recorded run_graph f"
    using o f by (simp add: c(2) effects_recorded_def touches_def run_graph_def run_linear_def demo_tensor_def
        region_whole_def plain_region_def)
qed


end
