(* ===== verification/Ring_Network.thy ===== *)
theory Ring_Network
  imports Prelude
begin

text \<open>
  A ring of processes with one queue per edge.  In round \<open>k\<close> a process sends a message computed from its
  state and then receives one from its predecessor.  The state after \<open>k\<close> rounds is then a function of the
  initial states alone.
\<close>

definition ring_prev :: "nat \<Rightarrow> nat \<Rightarrow> nat" where
  "ring_prev W r = (r + W - 1) mod W"

definition ring_next :: "nat \<Rightarrow> nat \<Rightarrow> nat" where
  "ring_next W r = (r + 1) mod W"

primrec ring_local ::
  "nat \<Rightarrow> (nat \<Rightarrow> nat \<Rightarrow> 's \<Rightarrow> 'm) \<Rightarrow> (nat \<Rightarrow> nat \<Rightarrow> 's \<Rightarrow> 'm \<Rightarrow> 's) \<Rightarrow> (nat \<Rightarrow> 's) \<Rightarrow> nat \<Rightarrow> nat \<Rightarrow> 's" where
  "ring_local W out inp x 0 = x"
| "ring_local W out inp x (Suc k) = (\<lambda>r. inp r k (ring_local W out inp x k r)
     (out (ring_prev W r) k (ring_local W out inp x k (ring_prev W r))))"

lemma ring_prev_less: "0 < W \<Longrightarrow> ring_prev W r < W" "0 < W \<Longrightarrow> ring_next W r < W"
  by (simp_all add: ring_prev_def ring_next_def)

lemma ring_next_prev: "r < W \<Longrightarrow> ring_next W (ring_prev W r) = r"
  by (simp add: ring_prev_def ring_next_def mod_Suc_eq flip: Suc_eq_plus1) 

lemma ring_prev_next: "r < W \<Longrightarrow> ring_prev W (ring_next W r) = r"
  by (cases "r + 1 = W") (auto simp: ring_prev_def ring_next_def)

definition ring_sends ::
  "(nat \<Rightarrow> nat \<Rightarrow> 's \<Rightarrow> 'm) \<Rightarrow> nat \<Rightarrow> (nat \<Rightarrow> nat) \<times> (nat \<Rightarrow> nat) \<times> (nat \<Rightarrow> 's) \<times> (nat \<Rightarrow> 'm list)
    \<Rightarrow> (nat \<Rightarrow> nat) \<times> (nat \<Rightarrow> nat) \<times> (nat \<Rightarrow> 's) \<times> (nat \<Rightarrow> 'm list) \<Rightarrow> bool" where
  "ring_sends out r = (\<lambda>(sent, rcvd, lcl, edge) (sent', rcvd', lcl', edge').
     sent r = rcvd r \<and> sent' = sent(r := Suc (sent r)) \<and> rcvd' = rcvd \<and> lcl' = lcl
     \<and> edge' = edge(r := edge r @ [out r (sent r) (lcl r)]))"

definition ring_receives ::
  "nat \<Rightarrow> (nat \<Rightarrow> nat \<Rightarrow> 's \<Rightarrow> 'm \<Rightarrow> 's) \<Rightarrow> nat \<Rightarrow> (nat \<Rightarrow> nat) \<times> (nat \<Rightarrow> nat) \<times> (nat \<Rightarrow> 's) \<times> (nat \<Rightarrow> 'm list)
    \<Rightarrow> (nat \<Rightarrow> nat) \<times> (nat \<Rightarrow> nat) \<times> (nat \<Rightarrow> 's) \<times> (nat \<Rightarrow> 'm list) \<Rightarrow> bool" where
  "ring_receives W inp r = (\<lambda>(sent, rcvd, lcl, edge) (sent', rcvd', lcl', edge').
     rcvd r < sent r \<and> sent' = sent \<and> rcvd' = rcvd(r := Suc (rcvd r))
     \<and> (\<exists>m ms. edge (ring_prev W r) = m # ms \<and> edge' = edge(ring_prev W r := ms)
          \<and> lcl' = lcl(r := inp r (rcvd r) (lcl r) m)))"

locale fifo_ring =
  fixes W K :: nat
    and good :: "'r \<Rightarrow> bool"
    and stp :: "'r \<Rightarrow> 'r \<Rightarrow> bool"
    and sent rcvd :: "'r \<Rightarrow> nat \<Rightarrow> nat"
    and lcl :: "'r \<Rightarrow> nat \<Rightarrow> 's"
    and edge :: "'r \<Rightarrow> nat \<Rightarrow> 'm list"
    and out :: "nat \<Rightarrow> nat \<Rightarrow> 's \<Rightarrow> 'm"
    and inp :: "nat \<Rightarrow> nat \<Rightarrow> 's \<Rightarrow> 'm \<Rightarrow> 's"
  assumes keeps: "good R \<Longrightarrow> stp R R' \<Longrightarrow> good R'"
    and moves: "good R \<Longrightarrow> stp R R' \<Longrightarrow> \<exists>r < W.
       rcvd R r < K \<and> (ring_sends out r (sent R, rcvd R, lcl R, edge R) (sent R', rcvd R', lcl R', edge R')
       \<or> ring_receives W inp r (sent R, rcvd R, lcl R, edge R) (sent R', rcvd R', lcl R', edge R'))"
    and can_send: "good R \<Longrightarrow> r < W \<Longrightarrow> sent R r = rcvd R r \<Longrightarrow> rcvd R r < K \<Longrightarrow> \<exists>R'. stp R R'"
    and can_receive: "good R \<Longrightarrow> r < W \<Longrightarrow> rcvd R r < sent R r \<Longrightarrow> edge R (ring_prev W r) \<noteq> [] \<Longrightarrow> \<exists>R'. stp R R'"
begin

definition at_start :: "(nat \<Rightarrow> 's) \<Rightarrow> 'r \<Rightarrow> bool" where
  "at_start x R \<longleftrightarrow> good R \<and> (\<forall>r < W. sent R r = 0 \<and> rcvd R r = 0 \<and> lcl R r = x r \<and> edge R r = [])"

definition ring_inv :: "(nat \<Rightarrow> 's) \<Rightarrow> 'r \<Rightarrow> bool" where
  "ring_inv x R \<longleftrightarrow> good R \<and> (\<forall>r < W.
     lcl R r = ring_local W out inp x (rcvd R r) r
     \<and> rcvd R r \<le> sent R r \<and> sent R r \<le> Suc (rcvd R r) \<and> sent R r \<le> K \<and> rcvd R (ring_next W r) \<le> sent R r
     \<and> edge R r = map (\<lambda>k. out r k (ring_local W out inp x k r)) [rcvd R (ring_next W r)..<sent R r])"

lemma inv_start: "0 < W \<Longrightarrow> at_start x R \<Longrightarrow> ring_inv x R"
  by (simp add: at_start_def ring_inv_def ring_prev_less)

lemma inv_sends:
  assumes "ring_inv x R" "good R'" "r < W" "rcvd R r < K"
    and "ring_sends out r (sent R, rcvd R, lcl R, edge R) (sent R', rcvd R', lcl R', edge R')"
  shows "ring_inv x R'"
proof -
  have s: "sent R r = rcvd R r" "sent R' = (sent R)(r := Suc (sent R r))" "rcvd R' = rcvd R" "lcl R' = lcl R"
      "edge R' = (edge R)(r := edge R r @ [out r (sent R r) (lcl R r)])"
    using assms(5) by (simp_all add: ring_sends_def)
  have "rcvd R (ring_next W r) \<le> rcvd R r" using assms(1,3) s(1) unfolding ring_inv_def by metis
  then show ?thesis using assms(1-4) s unfolding ring_inv_def by simp
qed

lemma inv_receives:
  assumes "ring_inv x R" "good R'" "r < W"
    and "ring_receives W inp r (sent R, rcvd R, lcl R, edge R) (sent R', rcvd R', lcl R', edge R')"
  shows "ring_inv x R'"
proof -
  let ?p = "ring_prev W r"
  obtain m ms where s: "rcvd R r < sent R r" "sent R' = sent R" "rcvd R' = (rcvd R)(r := Suc (rcvd R r))"
      "edge R ?p = m # ms" "edge R' = (edge R)(?p := ms)" "lcl R' = (lcl R)(r := inp r (rcvd R r) (lcl R r) m)"
    using assms(4) by (auto simp: ring_receives_def)
  have p: "?p < W" "ring_next W ?p = r" using assms(3) by (simp_all add: ring_prev_less ring_next_prev)
  have e: "edge R ?p = map (\<lambda>k. out ?p k (ring_local W out inp x k ?p)) [rcvd R r..<sent R ?p]"
    using assms(1) p unfolding ring_inv_def by metis
  then have less: "rcvd R r < sent R ?p" using s(4) by (cases "rcvd R r < sent R ?p") simp_all
  then have m: "m = out ?p (rcvd R r) (ring_local W out inp x (rcvd R r) ?p)"
      "ms = map (\<lambda>k. out ?p k (ring_local W out inp x k ?p)) [Suc (rcvd R r)..<sent R ?p]"
    using e s(4) by (simp_all add: upt_conv_Cons)
  have other: "ring_next W j \<noteq> r" if "j < W" "j \<noteq> ?p" for j
    using that ring_prev_next [of j W] by metis
  show ?thesis unfolding ring_inv_def
  proof (intro conjI allI impI)
    fix j assume j: "j < W"
    then have i: "lcl R j = ring_local W out inp x (rcvd R j) j" "rcvd R j \<le> sent R j" "sent R j \<le> Suc (rcvd R j)"
        "sent R j \<le> K" "rcvd R (ring_next W j) \<le> sent R j"
        "edge R j = map (\<lambda>k. out j k (ring_local W out inp x k j)) [rcvd R (ring_next W j)..<sent R j]"
      using assms(1) unfolding ring_inv_def by blast+
    show "lcl R' j = ring_local W out inp x (rcvd R' j) j" using i(1) s(3,6) m(1) by (cases "j = r") simp_all
    show "rcvd R' j \<le> sent R' j" "sent R' j \<le> Suc (rcvd R' j)" "sent R' j \<le> K" using i s by auto
    show "rcvd R' (ring_next W j) \<le> sent R' j" using i(5) s less other [OF j] p by (cases "j = ?p") auto
    show "edge R' j = map (\<lambda>k. out j k (ring_local W out inp x k j)) [rcvd R' (ring_next W j)..<sent R' j]"
      using i(6) s m(2) other [OF j] p by (cases "j = ?p") auto
  qed (rule assms(2))
qed

lemma inv_step: "ring_inv x R \<Longrightarrow> stp R R' \<Longrightarrow> ring_inv x R'"
proof -
  assume i: "ring_inv x R" and s: "stp R R'"
  have g: "good R" using i unfolding ring_inv_def by blast
  show "ring_inv x R'" using moves [OF g s] inv_sends [OF i keeps [OF g s]] inv_receives [OF i keeps [OF g s]] by blast
qed

definition work :: "'r \<Rightarrow> nat" where
  "work R = (\<Sum>r < W. sent R r + rcvd R r)"

lemma work_step:
  assumes "good R" "stp R R'"
  shows "work R' = Suc (work R)"
proof -
  obtain r where r: "r < W" "ring_sends out r (sent R, rcvd R, lcl R, edge R) (sent R', rcvd R', lcl R', edge R')
      \<or> ring_receives W inp r (sent R, rcvd R, lcl R, edge R) (sent R', rcvd R', lcl R', edge R')"
    using moves [OF assms] by blast
  then have c: "sent R' r + rcvd R' r = Suc (sent R r + rcvd R r)" "\<And>j. j \<noteq> r \<Longrightarrow> sent R' j + rcvd R' j = sent R j + rcvd R j"
    by (auto simp: ring_sends_def ring_receives_def)
  have "(\<Sum>j \<in> {..<W} - {r}. sent R' j + rcvd R' j) = (\<Sum>j \<in> {..<W} - {r}. sent R j + rcvd R j)"
    using c(2) by (intro sum.cong) auto
  then show ?thesis using c(1) r(1) by (simp add: work_def sum.remove [of "{..<W}" r])
qed

lemma steps_inv:
  assumes "0 < W" "at_start x R0" "(stp ^^ n) R0 R"
  shows "ring_inv x R \<and> work R = n"
  using assms(3)
proof (induction n arbitrary: R)
  case 0
  then show ?case using inv_start [OF assms(1,2)] assms(2) by (simp add: work_def at_start_def)
next
  case (Suc n)
  then obtain R1 where s: "(stp ^^ n) R0 R1" "stp R1 R" by (auto elim: relpowp_Suc_E)
  have i: "ring_inv x R1" "work R1 = n" using Suc.IH [OF s(1)] by blast+
  have "good R1" using i(1) unfolding ring_inv_def by blast
  then show ?case using inv_step [OF i(1) s(2)] work_step [OF _ s(2)] i(2) by simp
qed

lemma work_bound:
  assumes "ring_inv x R"
  shows "work R \<le> W * (2 * K)" "work R = W * (2 * K) \<longleftrightarrow> (\<forall>r < W. rcvd R r = K)"
proof -
  have i: "sent R r + rcvd R r \<le> 2 * K" "sent R r + rcvd R r = 2 * K \<longleftrightarrow> rcvd R r = K" if "r < W" for r
  proof -
    have "rcvd R r \<le> sent R r" "sent R r \<le> K" using assms that unfolding ring_inv_def by blast+
    then show "sent R r + rcvd R r \<le> 2 * K" "sent R r + rcvd R r = 2 * K \<longleftrightarrow> rcvd R r = K" by auto
  qed
  have total: "(\<Sum>r < W. 2 * K) = W * (2 * K)" by simp
  have le: "(\<Sum>r < W. sent R r + rcvd R r) \<le> (\<Sum>r < W. 2 * K)" by (rule sum_mono) (simp add: i)
  show "work R \<le> W * (2 * K)" using le unfolding work_def total .
  have "(\<Sum>r < W. sent R r + rcvd R r) < (\<Sum>r < W. 2 * K)" if r: "r < W" "rcvd R r \<noteq> K" for r
    using i by (intro sum_strict_mono_ex1) (use r i in \<open>auto intro!: bexI [of _ r] le_neq_implies_less\<close>)
  moreover have "(\<Sum>r < W. sent R r + rcvd R r) = (\<Sum>r < W. 2 * K)" if "\<forall>r < W. rcvd R r = K"
    using that i by (intro sum.cong) auto
  ultimately show "work R = W * (2 * K) \<longleftrightarrow> (\<forall>r < W. rcvd R r = K)" unfolding work_def total by (metis less_irrefl)
qed

lemma not_stuck:
  assumes "ring_inv x R" "r < W" "rcvd R r \<noteq> K"
  shows "\<exists>R'. stp R R'"
proof (cases "\<exists>j < W. sent R j = rcvd R j \<and> rcvd R j < K")
  case True
  then show ?thesis using can_send assms(1) unfolding ring_inv_def by blast
next
  case False
  have g: "good R" using assms(1) unfolding ring_inv_def by blast
  have i: "rcvd R j \<le> sent R j" "sent R j \<le> Suc (rcvd R j)" "sent R j \<le> K"
      "edge R j = map (\<lambda>k. out j k (ring_local W out inp x k j)) [rcvd R (ring_next W j)..<sent R j]" if "j < W" for j
    using assms(1) that unfolding ring_inv_def by blast+
  have finite: "finite (rcvd R ` {..<W})" "rcvd R ` {..<W} \<noteq> {}" using assms(2) by auto
  obtain j where j: "j < W" "rcvd R j = Min (rcvd R ` {..<W})" using Min_in [OF finite] by auto
  have least: "rcvd R j \<le> rcvd R k" if "k < W" for k using that Min_le [OF finite(1)] j(2) by auto
  have "rcvd R j < K" using least [OF assms(2)] i [OF assms(2)] assms(3) by linarith
  then have sj: "rcvd R j < sent R j" using False i(1) [OF j(1)] j(1) by (metis le_neq_implies_less)
  let ?p = "ring_prev W j"
  have p: "?p < W" "ring_next W ?p = j" using j(1) by (simp_all add: ring_prev_less ring_next_prev)
  have "rcvd R j < sent R ?p"
    using False least [OF p(1)] i [OF p(1)] p(1) \<open>rcvd R j < K\<close> by (metis le_less_trans le_neq_implies_less not_le)
  then have "edge R ?p \<noteq> []" using i(4) [OF p(1)] p(2) by simp
  then show ?thesis using can_receive [OF g j(1) sj] by blast
qed

lemma outcome_of_run:
  assumes "0 < W" "at_start x R0" "(stp ^^ n) R0 R"
  shows "n \<le> W * (2 * K)"
    and "n < W * (2 * K) \<Longrightarrow> \<exists>R'. stp R R'"
    and "n = W * (2 * K) \<Longrightarrow> r < W \<Longrightarrow> rcvd R r = K \<and> lcl R r = ring_local W out inp x K r"
    and "good R" "n = W * (2 * K) \<longleftrightarrow> (\<forall>r < W. rcvd R r = K)"
proof -
  have i: "ring_inv x R" "work R = n" using steps_inv [OF assms] by blast+
  show "n \<le> W * (2 * K)" "n = W * (2 * K) \<longleftrightarrow> (\<forall>r < W. rcvd R r = K)" using work_bound [OF i(1)] i(2) by simp_all
  show "good R" using i(1) unfolding ring_inv_def by blast
  show "\<exists>R'. stp R R'" if "n < W * (2 * K)"
    using that work_bound(2) [OF i(1)] i(2) not_stuck [OF i(1)] by (metis less_irrefl)
  show "rcvd R r = K \<and> lcl R r = ring_local W out inp x K r" if "n = W * (2 * K)" "r < W"
    using that work_bound(2) [OF i(1)] i unfolding ring_inv_def by metis
qed

end

end
