(* ===== verification/Ring_Allreduce.thy ===== *)
theory Ring_Allreduce
  imports Ring_Network
begin

text \<open>
  The in-process communication of \<^verbatim>\<open>_fallback.py\<close> (public entry points in \<^verbatim>\<open>comm.py\<close>): ring topology,
  blocking queues and channels, and the ring all-reduce, whose ranks are threads.

  A thread is a program counter with its local array; one step of a thread is one \<^verbatim>\<open>send\<close> or one \<^verbatim>\<open>recv\<close> with the
  update that follows it, which touches no shared state.  A thread whose \<^verbatim>\<open>recv\<close> finds an empty queue
  waits.  Values are 32-bit floats of any kind; their addition is the argument \<open>fadd\<close>.
\<close>

section \<open>Topology\<close>

record Topology =
  tp_rank :: int
  tp_world :: int
  tp_next :: int
  tp_prev :: int

definition ring_rank :: "int \<Rightarrow> int \<Rightarrow> Topology result" where
  "ring_rank rank world =
     (if world \<le> 0 then Inl ValueError
      else if \<not> (0 \<le> rank \<and> rank < world) then Inl ValueError
      else Inr \<lparr>tp_rank = rank, tp_world = world, tp_next = (rank + 1) mod world, tp_prev = (rank - 1) mod world\<rparr>)"

definition build_ring_topology :: "int \<Rightarrow> Topology list result" where
  "build_ring_topology world =
     (if world \<le> 0 then Inl ValueError else mapr (\<lambda>r. ring_rank r world) (urange world))"

section \<open>Queues and channels\<close>

record 'v BlockingQueue =
  bq_items :: "'v list list"
  bq_closed :: bool

definition new_queue :: "'v BlockingQueue" where
  "new_queue = \<lparr>bq_items = [], bq_closed = False\<rparr>"

definition bq_push :: "'v list \<Rightarrow> 'v BlockingQueue \<Rightarrow> 'v BlockingQueue" where
  "bq_push chunk q = q\<lparr>bq_items := bq_items q @ [chunk]\<rparr>"

text \<open>\<^verbatim>\<open>pop\<close> waits while the queue is empty, closed or not.\<close>

definition bq_pop :: "'v BlockingQueue \<Rightarrow> ('v list \<times> 'v BlockingQueue) option" where
  "bq_pop q = (case bq_items q of [] \<Rightarrow> None | c # cs \<Rightarrow> Some (c, q\<lparr>bq_items := cs\<rparr>))"

definition bq_close :: "'v BlockingQueue \<Rightarrow> 'v BlockingQueue" where
  "bq_close q = q\<lparr>bq_closed := True\<rparr>"

text \<open>A channel names its two queues by their positions among the edges of the ring.\<close>

record MockChannel =
  ch_out :: nat
  ch_in :: nat

type_synonym 'v edges = "'v BlockingQueue list"

definition ch_send :: "MockChannel \<Rightarrow> 'v list \<Rightarrow> 'v edges \<Rightarrow> 'v edges" where
  "ch_send c chunk es = es[ch_out c := bq_push chunk (es ! ch_out c)]"

definition ch_recv :: "MockChannel \<Rightarrow> 'v edges \<Rightarrow> ('v list \<times> 'v edges) option" where
  "ch_recv c es = (case bq_pop (es ! ch_in c) of None \<Rightarrow> None | Some (m, q) \<Rightarrow> Some (m, es[ch_in c := q]))"

definition ch_closed :: "MockChannel \<Rightarrow> 'v edges \<Rightarrow> bool" where
  "ch_closed c es = bq_closed (es ! ch_in c)"

definition make_ring_channels :: "int \<Rightarrow> (MockChannel list \<times> 'v edges) result" where
  "make_ring_channels world =
     (if world \<le> 0 then Inl ValueError
      else Inr (map (\<lambda>r. \<lparr>ch_out = nat r, ch_in = nat ((r - 1) mod world)\<rparr>) (urange world),
                map (\<lambda>_. new_queue) (urange world)))"

section \<open>One rank\<close>

text \<open>\<^verbatim>\<open>local[c * chunk : (c + 1) * chunk]\<close>, its replacement, and the sum of two one-dimensional arrays.\<close>

definition chunk_of :: "int \<Rightarrow> int \<Rightarrow> 'v list \<Rightarrow> 'v list" where
  "chunk_of chunk c xs = take (nat chunk) (drop (nat (c * chunk)) xs)"

definition np_spread :: "int \<Rightarrow> 'v list \<Rightarrow> 'v list result" where
  "np_spread n v =
     (if int (length v) = n then Inr v
      else case v of [x] \<Rightarrow> Inr (replicate (nat n) x) | _ \<Rightarrow> Inl ValueError)"

definition replace_chunk :: "int \<Rightarrow> int \<Rightarrow> 'v list \<Rightarrow> 'v list \<Rightarrow> 'v list result" where
  "replace_chunk chunk c v xs =
     bindr (np_spread chunk v) (\<lambda>v. Inr (take (nat (c * chunk)) xs @ v @ drop (nat (c * chunk) + nat chunk) xs))"

definition np_plus :: "('v \<Rightarrow> 'v \<Rightarrow> 'v) \<Rightarrow> 'v list \<Rightarrow> 'v list \<Rightarrow> 'v list result" where
  "np_plus fadd a b =
     (if length a = length b then Inr (map2 fadd a b)
      else case a of [x] \<Rightarrow> Inr (map (fadd x) b)
           | _ \<Rightarrow> (case b of [y] \<Rightarrow> Inr (map (\<lambda>x. fadd x y) a) | _ \<Rightarrow> Inl ValueError))"

text \<open>Where a rank is: before the send or the receive of a round of one of its two loops, or at its end.\<close>

datatype RankPc = RSend int | RRecv int | GSend int | GRecv int | RDone | RFailed py_error

record 'v RankState =
  rk_pc :: RankPc
  rk_local :: "'v list"

definition rank_enter :: "'v list \<Rightarrow> int \<Rightarrow> int \<Rightarrow> 'v RankState" where
  "rank_enter xs rank world =
     \<lparr>rk_pc =
        (if world \<le> 0 then RFailed ValueError
         else if \<not> (0 \<le> rank \<and> rank < world) then RFailed ValueError
         else if int (length xs) mod world \<noteq> 0 then RFailed ValueError
         else if world = 1 then RDone
         else RSend 0),
      rk_local = xs\<rparr>"

definition after_reduce :: "int \<Rightarrow> int \<Rightarrow> RankPc" where
  "after_reduce world t = (if t + 1 < world - 1 then RSend (t + 1) else GSend 0)"

definition after_gather :: "int \<Rightarrow> int \<Rightarrow> RankPc" where
  "after_gather world t = (if t + 1 < world - 1 then GSend (t + 1) else RDone)"

text \<open>The end of a loop body: the new array, or the exception that ends the thread.\<close>

definition rank_update :: "'v RankState \<Rightarrow> 'v list result \<Rightarrow> RankPc \<Rightarrow> 'v RankState" where
  "rank_update s res pc = (case res of Inr xs \<Rightarrow> \<lparr>rk_pc = pc, rk_local = xs\<rparr> | Inl e \<Rightarrow> s\<lparr>rk_pc := RFailed e\<rparr>)"

text \<open>One step of a rank; \<^term>\<open>None\<close> when it waits or has ended.\<close>

definition rank_step ::
  "('v \<Rightarrow> 'v \<Rightarrow> 'v) \<Rightarrow> int \<Rightarrow> int \<Rightarrow> MockChannel \<Rightarrow> 'v RankState \<Rightarrow> 'v edges \<Rightarrow> ('v RankState \<times> 'v edges) option" where
  "rank_step fadd world rank ch s es =
     (let xs = rk_local s; chunk = int (length xs) div world in
      case rk_pc s of
        RSend t \<Rightarrow> Some (s\<lparr>rk_pc := RRecv t\<rparr>, ch_send ch (chunk_of chunk ((rank - t) mod world) xs) es)
      | RRecv t \<Rightarrow>
          (case ch_recv ch es of
             None \<Rightarrow> None
           | Some (got, es) \<Rightarrow>
               let c = (rank - t - 1) mod world in
               Some (rank_update s (bindr (np_plus fadd (chunk_of chunk c xs) got) (\<lambda>v. replace_chunk chunk c v xs))
                       (after_reduce world t), es))
      | GSend t \<Rightarrow> Some (s\<lparr>rk_pc := GRecv t\<rparr>, ch_send ch (chunk_of chunk ((rank - t + 1) mod world) xs) es)
      | GRecv t \<Rightarrow>
          (case ch_recv ch es of
             None \<Rightarrow> None
           | Some (got, es) \<Rightarrow>
               Some (rank_update s (replace_chunk chunk ((rank - t) mod world) got xs) (after_gather world t), es))
      | _ \<Rightarrow> None)"

section \<open>All ranks\<close>

record 'v Ring =
  rg_channels :: "MockChannel list"
  rg_ranks :: "'v RankState list"
  rg_edges :: "'v edges"

definition ring_start :: "'v list list \<Rightarrow> 'v Ring result" where
  "ring_start locals =
     (let world = int (length locals) in
      if world \<le> 0 then Inl ValueError
      else let len = length (hd locals) in
        if \<exists>v \<in> set locals. length v \<noteq> len then Inl ValueError
        else if int len mod world \<noteq> 0 then Inl ValueError
        else bindr (make_ring_channels world) (\<lambda>(chs, es).
          Inr \<lparr>rg_channels = chs,
               rg_ranks = map (\<lambda>r. rank_enter (locals ! nat r) r world) (urange world),
               rg_edges = es\<rparr>))"

text \<open>The step of rank \<open>r\<close>, and the interleavings of all threads.\<close>

definition ring_sched :: "('v \<Rightarrow> 'v \<Rightarrow> 'v) \<Rightarrow> nat \<Rightarrow> 'v Ring \<Rightarrow> 'v Ring option" where
  "ring_sched fadd r R =
     (case rank_step fadd (int (length (rg_ranks R))) (int r) (rg_channels R ! r) (rg_ranks R ! r) (rg_edges R) of
        None \<Rightarrow> None
      | Some (s, es) \<Rightarrow> Some (R\<lparr>rg_ranks := (rg_ranks R)[r := s], rg_edges := es\<rparr>))"

inductive ring_step :: "('v \<Rightarrow> 'v \<Rightarrow> 'v) \<Rightarrow> 'v Ring \<Rightarrow> 'v Ring \<Rightarrow> bool" for fadd where
  sched: "r < length (rg_ranks R) \<Longrightarrow> ring_sched fadd r R = Some R' \<Longrightarrow> ring_step fadd R R'"

inductive_cases ring_stepE: "ring_step fadd R R'"

definition ring_joined :: "'v Ring \<Rightarrow> bool" where
  "ring_joined R = list_all (\<lambda>s. case rk_pc s of RDone \<Rightarrow> True | RFailed _ \<Rightarrow> True | _ \<Rightarrow> False) (rg_ranks R)"

text \<open>\<^verbatim>\<open>ring_allreduce\<close> returns the buffers once every thread has ended.\<close>

definition ring_buffers :: "'v Ring \<Rightarrow> 'v list list" where
  "ring_buffers R = map rk_local (rg_ranks R)"

text \<open>A run under a given schedule, every step of which must be possible.\<close>

fun ring_run :: "('v \<Rightarrow> 'v \<Rightarrow> 'v) \<Rightarrow> nat list \<Rightarrow> 'v Ring \<Rightarrow> 'v Ring option" where
  "ring_run fadd [] R = Some R"
| "ring_run fadd (r # rs) R =
     (if r < length (rg_ranks R)
      then case ring_sched fadd r R of None \<Rightarrow> None | Some R' \<Rightarrow> ring_run fadd rs R'
      else None)"

lemma ring_run_steps: "ring_run fadd rs R = Some R' \<Longrightarrow> (ring_step fadd ^^ length rs) R R'"
proof (induction rs arbitrary: R)
  case (Cons r rs)
  then obtain R1 where R1: "r < length (rg_ranks R)" "ring_sched fadd r R = Some R1" "ring_run fadd rs R1 = Some R'"
    by (auto split: if_splits option.splits)
  have "ring_step fadd R R1" "(ring_step fadd ^^ length rs) R1 R'"
    by (rule ring_step.sched [OF R1(1,2)], rule Cons.IH [OF R1(3)])
  then show ?case using relpowp_Suc_I2 [of "ring_step fadd" R R1 "length rs" R'] by simp
qed simp

section \<open>The all-reduce as such a ring\<close>

fun pc_rcvd :: "nat \<Rightarrow> RankPc \<Rightarrow> nat" where
  "pc_rcvd W (RSend t) = nat t"
| "pc_rcvd W (RRecv t) = nat t"
| "pc_rcvd W (GSend t) = W - 1 + nat t"
| "pc_rcvd W (GRecv t) = W - 1 + nat t"
| "pc_rcvd W RDone = 2 * (W - 1)"
| "pc_rcvd W (RFailed e) = 0"

fun pc_sent :: "nat \<Rightarrow> RankPc \<Rightarrow> nat" where
  "pc_sent W (RRecv t) = Suc (nat t)"
| "pc_sent W (GRecv t) = Suc (W - 1 + nat t)"
| "pc_sent W pc = pc_rcvd W pc"

fun pc_ok :: "nat \<Rightarrow> RankPc \<Rightarrow> bool" where
  "pc_ok W (RSend t) \<longleftrightarrow> 0 \<le> t \<and> t < int W - 1"
| "pc_ok W (RRecv t) \<longleftrightarrow> 0 \<le> t \<and> t < int W - 1"
| "pc_ok W (GSend t) \<longleftrightarrow> 0 \<le> t \<and> t < int W - 1"
| "pc_ok W (GRecv t) \<longleftrightarrow> 0 \<le> t \<and> t < int W - 1"
| "pc_ok W RDone \<longleftrightarrow> True"
| "pc_ok W (RFailed e) \<longleftrightarrow> False"

text \<open>The chunk a rank sends and the chunk it updates in round \<open>k\<close>.\<close>

definition send_chunk :: "nat \<Rightarrow> nat \<Rightarrow> nat \<Rightarrow> int" where
  "send_chunk W r k = (if k < W - 1 then (int r - int k) mod int W else (int r - int (k - (W - 1)) + 1) mod int W)"

definition recv_chunk :: "nat \<Rightarrow> nat \<Rightarrow> nat \<Rightarrow> int" where
  "recv_chunk W r k = (if k < W - 1 then (int r - int k - 1) mod int W else (int r - int (k - (W - 1))) mod int W)"

definition put_chunk :: "int \<Rightarrow> int \<Rightarrow> 'v list \<Rightarrow> 'v list \<Rightarrow> 'v list" where
  "put_chunk chunk c v xs = take (nat (c * chunk)) xs @ v @ drop (nat (c * chunk) + nat chunk) xs"

definition rank_out :: "nat \<Rightarrow> nat \<Rightarrow> nat \<Rightarrow> nat \<Rightarrow> 'v list \<Rightarrow> 'v list" where
  "rank_out W n r k xs = chunk_of (int n div int W) (send_chunk W r k) xs"

definition rank_in :: "('v \<Rightarrow> 'v \<Rightarrow> 'v) \<Rightarrow> nat \<Rightarrow> nat \<Rightarrow> nat \<Rightarrow> nat \<Rightarrow> 'v list \<Rightarrow> 'v list \<Rightarrow> 'v list" where
  "rank_in fadd W n r k xs m =
     (let chunk = int n div int W; c = recv_chunk W r k in
      put_chunk chunk c (if k < W - 1 then map2 fadd (chunk_of chunk c xs) m else m) xs)"

definition ring_channel :: "nat \<Rightarrow> nat \<Rightarrow> MockChannel" where
  "ring_channel W r = \<lparr>ch_out = r, ch_in = ring_prev W r\<rparr>"

definition ring_good :: "nat \<Rightarrow> nat \<Rightarrow> 'v Ring \<Rightarrow> bool" where
  "ring_good W n R \<longleftrightarrow> W dvd n \<and> length (rg_ranks R) = W \<and> length (rg_edges R) = W
     \<and> rg_channels R = map (ring_channel W) [0..<W]
     \<and> (\<forall>r < W. pc_ok W (rk_pc (rg_ranks R ! r)) \<and> length (rk_local (rg_ranks R ! r)) = n
          \<and> (\<forall>m \<in> set (bq_items (rg_edges R ! r)). length m = n div W))"

lemma chunk_bounds:
  assumes "W dvd n" "0 \<le> c" "c < int W"
  shows "nat (c * (int n div int W)) + n div W \<le> n"
proof -
  obtain q where q: "n = W * q" using assms(1) by blast
  have "(c + 1) * int q \<le> int W * int q" using assms(3) by (intro mult_right_mono) simp_all
  then have "c * int q + int q \<le> int n" using q by (simp add: distrib_right)
  moreover have "int n div int W = int q" "n div W = q" "0 \<le> c * int q" using q assms(2,3) by simp_all
  ultimately show ?thesis by (simp only: nat_le_iff flip: of_nat_le_iff [where 'a = int])
qed

lemma length_chunk_of:
  assumes "W dvd n" "0 \<le> c" "c < int W" "length xs = n"
  shows "length (chunk_of (int n div int W) c xs) = n div W"
proof -
  have "nat (int n div int W) = n div W" by (simp flip: zdiv_int)
  then show ?thesis using chunk_bounds [OF assms(1-3)] assms(4) by (simp add: chunk_of_def)
qed

lemma length_put_chunk:
  assumes "W dvd n" "0 \<le> c" "c < int W" "length xs = n" "length v = n div W"
  shows "length (put_chunk (int n div int W) c v xs) = n"
proof -
  have "nat (int n div int W) = n div W" by (simp flip: zdiv_int)
  then show ?thesis using chunk_bounds [OF assms(1-3)] assms(4,5) by (simp add: put_chunk_def)
qed

lemma chunk_index: "0 < W \<Longrightarrow> 0 \<le> send_chunk W r k" "0 < W \<Longrightarrow> send_chunk W r k < int W"
    "0 < W \<Longrightarrow> 0 \<le> recv_chunk W r k" "0 < W \<Longrightarrow> recv_chunk W r k < int W"
  by (simp_all add: send_chunk_def recv_chunk_def)

lemma length_rank_out:
  "W dvd n \<Longrightarrow> 0 < W \<Longrightarrow> length xs = n \<Longrightarrow> length (rank_out W n r k xs) = n div W"
  by (simp add: rank_out_def length_chunk_of chunk_index)

lemma length_rank_in:
  "W dvd n \<Longrightarrow> 0 < W \<Longrightarrow> length xs = n \<Longrightarrow> length m = n div W \<Longrightarrow> length (rank_in fadd W n r k xs m) = n"
  by (simp add: rank_in_def Let_def length_put_chunk length_chunk_of chunk_index)

text \<open>A round of the code: the send and the receive do what the ring needs and no exception is raised.\<close>

lemma replace_chunk_value:
  "W dvd n \<Longrightarrow> length v = n div W \<Longrightarrow> replace_chunk (int n div int W) c v xs = Inr (put_chunk (int n div int W) c v xs)"
  by (simp add: replace_chunk_def np_spread_def put_chunk_def zdiv_int)

lemma reduce_value:
  assumes "W dvd n" "0 < W" "length xs = n" "length m = n div W" "0 \<le> t" "t < int W - 1"
  shows "(let c = (int r - t - 1) mod int W in
      bindr (np_plus fadd (chunk_of (int n div int W) c xs) m) (\<lambda>v. replace_chunk (int n div int W) c v xs))
    = Inr (rank_in fadd W n r (nat t) xs m)"
proof -
  have c: "recv_chunk W r (nat t) = (int r - t - 1) mod int W" and t: "nat t < W - 1"
    using assms(5,6) by (auto simp: recv_chunk_def)
  then show ?thesis
    using assms(1-4) length_chunk_of [OF assms(1) chunk_index(3,4) [OF assms(2)] assms(3), of r "nat t"]
    by (simp add: np_plus_def Let_def rank_in_def replace_chunk_value)
qed

lemma gather_value:
  assumes "W dvd n" "length m = n div W" "0 \<le> t"
  shows "replace_chunk (int n div int W) ((int r - t) mod int W) m xs = Inr (rank_in fadd W n r (W - 1 + nat t) xs m)"
  using assms by (simp add: rank_in_def recv_chunk_def replace_chunk_value Let_def)

lemma after_counts:
  assumes "0 \<le> t" "t < int W - 1"
  shows "pc_rcvd W (after_reduce (int W) t) = Suc (nat t)" "pc_sent W (after_reduce (int W) t) = Suc (nat t)"
    "pc_ok W (after_reduce (int W) t)"
    "pc_rcvd W (after_gather (int W) t) = Suc (W - 1 + nat t)" "pc_sent W (after_gather (int W) t) = Suc (W - 1 + nat t)"
    "pc_ok W (after_gather (int W) t)"
  using assms by (auto simp: after_reduce_def after_gather_def)

text \<open>What a step of one rank is, by its program counter.\<close>

lemma rank_step_cases:
  assumes "ring_good W n R" "r < W"
    and "rank_step fadd (int W) (int r) (ring_channel W r) (rg_ranks R ! r) (rg_edges R) = Some (s', es')"
  defines "s \<equiv> rg_ranks R ! r"
  shows "pc_ok W (rk_pc s') \<and> pc_rcvd W (rk_pc s) < 2 * (W - 1) \<and>
     (pc_sent W (rk_pc s) = pc_rcvd W (rk_pc s) \<and> pc_sent W (rk_pc s') = Suc (pc_sent W (rk_pc s))
       \<and> pc_rcvd W (rk_pc s') = pc_rcvd W (rk_pc s) \<and> rk_local s' = rk_local s
       \<and> es' = (rg_edges R)[r := bq_push (rank_out W n r (pc_sent W (rk_pc s)) (rk_local s)) (rg_edges R ! r)]
     \<or> pc_sent W (rk_pc s) = Suc (pc_rcvd W (rk_pc s)) \<and> pc_sent W (rk_pc s') = pc_sent W (rk_pc s)
       \<and> pc_rcvd W (rk_pc s') = Suc (pc_rcvd W (rk_pc s))
       \<and> (\<exists>m q. bq_pop (rg_edges R ! ring_prev W r) = Some (m, q) \<and> es' = (rg_edges R)[ring_prev W r := q]
            \<and> rk_local s' = rank_in fadd W n r (pc_rcvd W (rk_pc s)) (rk_local s) m))"
proof -
  have W: "0 < W" using assms(2) by simp
  have g: "W dvd n" "length (rk_local s) = n" "pc_ok W (rk_pc s)"
    using assms(1,2) by (auto simp: ring_good_def s_def)
  have items: "length m = n div W" if "m \<in> set (bq_items (rg_edges R ! ring_prev W r))" for m
    using assms(1) that ring_prev_less(1) [OF W, of r] by (auto simp: ring_good_def)
  have got: "length m = n div W" if "bq_pop (rg_edges R ! ring_prev W r) = Some (m, q)" for m q
    using that items by (auto simp: bq_pop_def split: list.splits)
  note st = assms(3) [folded s_def, unfolded rank_step_def Let_def g(2)]
  show ?thesis
  proof (cases "rk_pc s")
    case (RSend t)
    then show ?thesis using st g(3)
      by (auto simp: ch_send_def ring_channel_def rank_out_def send_chunk_def)
  next
    case (GSend t)
    then show ?thesis using st g(3)
      by (auto simp: ch_send_def ring_channel_def rank_out_def send_chunk_def)
  next
    case (RRecv t)
    then obtain m q where m: "bq_pop (rg_edges R ! ring_prev W r) = Some (m, q)"
      and e: "es' = (rg_edges R)[ring_prev W r := q]"
      using st by (auto simp: ch_recv_def ring_channel_def split: option.splits)
    have t: "0 \<le> t" "t < int W - 1" using g(3) RRecv by auto
    have "s' = \<lparr>rk_pc = after_reduce (int W) t, rk_local = rank_in fadd W n r (nat t) (rk_local s) m\<rparr>"
      using st RRecv m reduce_value [OF g(1) W g(2) got [OF m] t, of r fadd]
      by (simp add: ch_recv_def ring_channel_def rank_update_def Let_def)
    then show ?thesis using m e t RRecv after_counts [OF t] by auto
  next
    case (GRecv t)
    then obtain m q where m: "bq_pop (rg_edges R ! ring_prev W r) = Some (m, q)"
      and e: "es' = (rg_edges R)[ring_prev W r := q]"
      using st by (auto simp: ch_recv_def ring_channel_def split: option.splits)
    have t: "0 \<le> t" "t < int W - 1" using g(3) GRecv by auto
    have "s' = \<lparr>rk_pc = after_gather (int W) t, rk_local = rank_in fadd W n r (W - 1 + nat t) (rk_local s) m\<rparr>"
      using st GRecv m gather_value [OF g(1) got [OF m] t(1), of r "rk_local s" fadd]
      by (simp add: ch_recv_def ring_channel_def rank_update_def Let_def)
    then show ?thesis using m e t GRecv after_counts [OF t] by auto
  qed (use st g(3) in auto)
qed

definition ring_sent :: "nat \<Rightarrow> 'v Ring \<Rightarrow> nat \<Rightarrow> nat" where
  "ring_sent W R r = pc_sent W (rk_pc (rg_ranks R ! r))"

definition ring_rcvd :: "nat \<Rightarrow> 'v Ring \<Rightarrow> nat \<Rightarrow> nat" where
  "ring_rcvd W R r = pc_rcvd W (rk_pc (rg_ranks R ! r))"

definition ring_lcl :: "'v Ring \<Rightarrow> nat \<Rightarrow> 'v list" where
  "ring_lcl R r = rk_local (rg_ranks R ! r)"

definition ring_edge :: "'v Ring \<Rightarrow> nat \<Rightarrow> 'v list list" where
  "ring_edge R r = bq_items (rg_edges R ! r)"

lemma ring_sched_step:
  assumes "ring_good W n R" "ring_step fadd R R'"
  obtains r s' es' where "r < W" "rank_step fadd (int W) (int r) (ring_channel W r) (rg_ranks R ! r) (rg_edges R) = Some (s', es')"
    "R' = R\<lparr>rg_ranks := (rg_ranks R)[r := s'], rg_edges := es'\<rparr>"
  using assms(2)
proof (cases rule: ring_step.cases)
  case (sched r)
  then show ?thesis using that assms(1) by (auto simp: ring_good_def ring_sched_def split: option.splits)
qed

lemma ring_good_step:
  assumes "ring_good W n R" "ring_step fadd R R'"
  shows "ring_good W n R'"
proof -
  obtain r s' es' where r: "r < W"
      "rank_step fadd (int W) (int r) (ring_channel W r) (rg_ranks R ! r) (rg_edges R) = Some (s', es')"
      "R' = R\<lparr>rg_ranks := (rg_ranks R)[r := s'], rg_edges := es'\<rparr>"
    by (rule ring_sched_step [OF assms])
  have W: "0 < W" "ring_prev W r < W" using r(1) by (simp_all add: ring_prev_less)
  have g: "W dvd n" "length (rg_ranks R) = W" "length (rg_edges R) = W"
      "\<And>j. j < W \<Longrightarrow> length (rk_local (rg_ranks R ! j)) = n"
      "\<And>j m. j < W \<Longrightarrow> m \<in> set (bq_items (rg_edges R ! j)) \<Longrightarrow> length m = n div W"
    using assms(1) unfolding ring_good_def by blast+
  let ?s = "rg_ranks R ! r"
  have "length (rk_local s') = n \<and> length es' = W \<and> (\<forall>j < W. \<forall>m \<in> set (bq_items (es' ! j)). length m = n div W)"
    using rank_step_cases [OF assms(1) r(1,2)]
  proof (elim conjE disjE exE)
    assume "rk_local s' = rk_local ?s"
      "es' = (rg_edges R)[r := bq_push (rank_out W n r (pc_sent W (rk_pc ?s)) (rk_local ?s)) (rg_edges R ! r)]"
    then show ?thesis using g r(1) length_rank_out [OF g(1) W(1) g(4) [OF r(1)]]
      by (auto simp: bq_push_def nth_list_update split: if_splits)
  next
    fix m q assume m: "bq_pop (rg_edges R ! ring_prev W r) = Some (m, q)" "es' = (rg_edges R)[ring_prev W r := q]"
      "rk_local s' = rank_in fadd W n r (pc_rcvd W (rk_pc ?s)) (rk_local ?s) m"
    have q: "bq_items (rg_edges R ! ring_prev W r) = m # bq_items q" using m(1) by (auto simp: bq_pop_def split: list.splits)
    have "length m = n div W" using g(5) [OF W(2), of m] q by simp
    then show ?thesis using g m(2,3) q W length_rank_in [OF g(1) W(1) g(4) [OF r(1)]]
      by (auto simp: nth_list_update split: if_splits)
  qed
  moreover have "pc_ok W (rk_pc s')" using rank_step_cases [OF assms(1) r(1,2)] by blast
  ultimately show ?thesis using assms(1) r(1,3) unfolding ring_good_def by (auto simp: nth_list_update)
qed

lemma ring_moves:
  assumes "ring_good W n R" "ring_step fadd R R'"
  shows "\<exists>r < W. ring_rcvd W R r < 2 * (W - 1) \<and>
    (ring_sends (rank_out W n) r (ring_sent W R, ring_rcvd W R, ring_lcl R, ring_edge R)
       (ring_sent W R', ring_rcvd W R', ring_lcl R', ring_edge R')
     \<or> ring_receives W (rank_in fadd W n) r (ring_sent W R, ring_rcvd W R, ring_lcl R, ring_edge R)
       (ring_sent W R', ring_rcvd W R', ring_lcl R', ring_edge R'))"
proof -
  obtain r s' es' where r: "r < W"
      "rank_step fadd (int W) (int r) (ring_channel W r) (rg_ranks R ! r) (rg_edges R) = Some (s', es')"
      "R' = R\<lparr>rg_ranks := (rg_ranks R)[r := s'], rg_edges := es'\<rparr>"
    by (rule ring_sched_step [OF assms])
  have g: "length (rg_ranks R) = W" "length (rg_edges R) = W" using assms(1) unfolding ring_good_def by blast+
  have p: "ring_prev W r < W" using r(1) by (simp add: ring_prev_less)
  let ?s = "rg_ranks R ! r"
  have u: "ring_sent W R' = (ring_sent W R)(r := pc_sent W (rk_pc s'))" "ring_rcvd W R' = (ring_rcvd W R)(r := pc_rcvd W (rk_pc s'))"
      "ring_lcl R' = (ring_lcl R)(r := rk_local s')"
    using r(1,3) g(1) by (auto simp: fun_eq_iff ring_sent_def ring_rcvd_def ring_lcl_def)
  have c: "pc_rcvd W (rk_pc ?s) < 2 * (W - 1)" using rank_step_cases [OF assms(1) r(1,2)] by blast
  have "ring_sends (rank_out W n) r (ring_sent W R, ring_rcvd W R, ring_lcl R, ring_edge R)
       (ring_sent W R', ring_rcvd W R', ring_lcl R', ring_edge R')
     \<or> ring_receives W (rank_in fadd W n) r (ring_sent W R, ring_rcvd W R, ring_lcl R, ring_edge R)
       (ring_sent W R', ring_rcvd W R', ring_lcl R', ring_edge R')"
    using rank_step_cases [OF assms(1) r(1,2)]
  proof (elim conjE disjE exE)
    assume s: "pc_sent W (rk_pc ?s) = pc_rcvd W (rk_pc ?s)" "pc_sent W (rk_pc s') = Suc (pc_sent W (rk_pc ?s))"
      "pc_rcvd W (rk_pc s') = pc_rcvd W (rk_pc ?s)" "rk_local s' = rk_local ?s"
      "es' = (rg_edges R)[r := bq_push (rank_out W n r (pc_sent W (rk_pc ?s)) (rk_local ?s)) (rg_edges R ! r)]"
    have "ring_edge R' = (ring_edge R)(r := ring_edge R r @ [rank_out W n r (ring_sent W R r) (ring_lcl R r)])"
      using r(1,3) g(2) s(5) by (auto simp: fun_eq_iff ring_edge_def bq_push_def ring_sent_def ring_lcl_def)
    then show ?thesis using u s(1-4) by (simp add: ring_sends_def ring_sent_def ring_rcvd_def ring_lcl_def fun_eq_iff)
  next
    fix m q assume s: "pc_sent W (rk_pc ?s) = Suc (pc_rcvd W (rk_pc ?s))" "pc_sent W (rk_pc s') = pc_sent W (rk_pc ?s)"
      "pc_rcvd W (rk_pc s') = Suc (pc_rcvd W (rk_pc ?s))" "bq_pop (rg_edges R ! ring_prev W r) = Some (m, q)"
      "es' = (rg_edges R)[ring_prev W r := q]" "rk_local s' = rank_in fadd W n r (pc_rcvd W (rk_pc ?s)) (rk_local ?s) m"
    have e: "ring_edge R (ring_prev W r) = m # bq_items q" using s(4) by (auto simp: ring_edge_def bq_pop_def split: list.splits)
    have "ring_edge R' = (ring_edge R)(ring_prev W r := bq_items q)"
      using p r(3) g(2) s(5) by (auto simp: fun_eq_iff ring_edge_def)
    then show ?thesis using u s(1-3,6) e by (simp add: ring_receives_def ring_sent_def ring_rcvd_def ring_lcl_def fun_eq_iff)
  qed
  then show ?thesis using r(1) c unfolding ring_rcvd_def by blast
qed

lemma ring_can_step:
  assumes "ring_good W n R" "r < W"
    and "ring_sent W R r = ring_rcvd W R r \<and> ring_rcvd W R r < 2 * (W - 1)
       \<or> ring_rcvd W R r < ring_sent W R r \<and> ring_edge R (ring_prev W r) \<noteq> []"
  shows "\<exists>R'. ring_step fadd R R'"
proof -
  let ?s = "rg_ranks R ! r"
  have g: "length (rg_ranks R) = W" "rg_channels R ! r = ring_channel W r" "pc_ok W (rk_pc ?s)"
    using assms(1,2) unfolding ring_good_def by auto
  have "rank_step fadd (int W) (int r) (ring_channel W r) ?s (rg_edges R) \<noteq> None"
    using assms(3) g(3)
    by (cases "rk_pc ?s") (auto simp: rank_step_def Let_def ch_recv_def ring_channel_def bq_pop_def ring_sent_def
      ring_rcvd_def ring_edge_def split: list.splits)
  then have "ring_sched fadd r R \<noteq> None" using g(1,2) by (auto simp: ring_sched_def split: option.splits)
  then obtain R' where "ring_sched fadd r R = Some R'" by blast
  then show ?thesis using ring_step.sched [of r R fadd R'] assms(2) g(1) by blast
qed

interpretation allreduce: fifo_ring W "2 * (W - 1)" "ring_good W n" "ring_step fadd" "ring_sent W" "ring_rcvd W"
  ring_lcl ring_edge "rank_out W n" "rank_in fadd W n"
  for W n :: nat and fadd :: "'v \<Rightarrow> 'v \<Rightarrow> 'v"
proof
  fix R R' :: "'v Ring"
  assume g: "ring_good W n R"
  show "ring_good W n R'" if "ring_step fadd R R'" by (rule ring_good_step [OF g that])
  show "\<exists>r < W. ring_rcvd W R r < 2 * (W - 1) \<and>
    (ring_sends (rank_out W n) r (ring_sent W R, ring_rcvd W R, ring_lcl R, ring_edge R)
       (ring_sent W R', ring_rcvd W R', ring_lcl R', ring_edge R')
     \<or> ring_receives W (rank_in fadd W n) r (ring_sent W R, ring_rcvd W R, ring_lcl R, ring_edge R)
       (ring_sent W R', ring_rcvd W R', ring_lcl R', ring_edge R'))" if "ring_step fadd R R'"
    by (rule ring_moves [OF g that])
qed (use ring_can_step in \<open>blast+\<close>)

section \<open>What the ranks compute\<close>

text \<open>
  The sum the ring forms of element \<open>e\<close> of chunk \<open>c\<close>: rank \<open>c\<close> starts it and each next rank adds its own
  element in front.
\<close>

primrec ring_partial :: "('v \<Rightarrow> 'v \<Rightarrow> 'v) \<Rightarrow> nat \<Rightarrow> (nat \<Rightarrow> 'v list) \<Rightarrow> nat \<Rightarrow> nat \<Rightarrow> nat \<Rightarrow> 'v" where
  "ring_partial fadd W x c e 0 = x c ! e"
| "ring_partial fadd W x c e (Suc j) = fadd (x ((c + Suc j) mod W) ! e) (ring_partial fadd W x c e j)"

lemma put_chunk_nth:
  assumes "length xs = W * q" "length v = q" "c < W" "e < W * q"
  shows "put_chunk (int q) (int c) v xs ! e = (if e div q = c then v ! (e mod q) else xs ! e)"
proof -
  have q: "0 < q" using assms(4) by (cases q) simp_all
  have n: "nat (int c * int q) = c * q" by (simp flip: of_nat_mult)
  have "c * q + q \<le> W * q" using mult_le_mono1 [of "Suc c" W q] assms(3) by simp
  then have len: "length (take (c * q) xs) = c * q" using assms(1) by simp
  consider "e < c * q" | "c * q \<le> e" "e < c * q + q" | "c * q + q \<le> e" by linarith
  then show ?thesis
  proof cases
    case 1
    then have "e div q < c" using q by (simp add: div_less_iff_less_mult)
    with 1 show ?thesis using len by (simp add: put_chunk_def n nth_append)
  next
    case 2
    then have d: "e div q = c" using q by (auto intro!: div_nat_eqI simp: mult.commute)
    then have "e mod q = e - c * q" by (metis minus_div_mult_eq_mod)
    moreover have "e - c * q < q" using 2 by linarith
    ultimately show ?thesis using 2 d len assms(2) by (simp add: put_chunk_def n nth_append)
  next
    case 3
    then have "c < e div q" using q by (simp add: less_eq_div_iff_mult_less_eq Suc_le_eq [symmetric] add.commute)
    moreover have "\<not> e - c * q < q" using 3 by linarith
    ultimately show ?thesis using 3 len assms(1,2,4) by (simp add: put_chunk_def n nth_append)
  qed
qed

lemma chunk_of_nth:
  assumes "length xs = W * q" "c < W" "e < W * q" "e div q = c"
  shows "chunk_of (int q) (int c) xs ! (e mod q) = xs ! e"
proof -
  have q: "0 < q" using assms(3) by (cases q) simp_all
  have n: "nat (int c * int q) = c * q" by (simp flip: of_nat_mult)
  have "c * q + e mod q = e" using assms(4) by auto
  moreover from this have "drop (c * q) xs ! (e mod q) = xs ! (c * q + e mod q)" using assms(1,2) by (intro nth_drop) simp
  ultimately show ?thesis using q by (simp add: chunk_of_def n)
qed

lemma int_ring_prev: "r < W \<Longrightarrow> int (ring_prev W r) = (int r - 1) mod int W"
proof -
  assume r: "r < W"
  have "int (r + W - 1) = (int r - 1) + int W" using r by simp
  then show ?thesis unfolding ring_prev_def zmod_int by (metis mod_add_self2)
qed

text \<open>How far behind rank \<open>r\<close> the rank is that starts chunk \<open>c\<close>.\<close>

definition behind :: "nat \<Rightarrow> nat \<Rightarrow> nat \<Rightarrow> nat" where
  "behind W r c = nat ((int r - int c) mod int W)"

lemma behind_less: "0 < W \<Longrightarrow> behind W r c < W"
  by (simp add: behind_def nat_less_iff)

lemma behind_iff:
  assumes "c < W" "j < W"
  shows "behind W r c = j \<longleftrightarrow> int c = (int r - int j) mod int W"
proof
  assume "behind W r c = j"
  then have "int j = (int r - int c) mod int W" using assms by (auto simp: behind_def)
  then have "(int r - int j) mod int W = int c mod int W" by (simp add: mod_simps)
  then show "int c = (int r - int j) mod int W" using assms(1) by simp
next
  assume "int c = (int r - int j) mod int W"
  then have "(int r - int c) mod int W = int j mod int W" by (simp add: mod_simps)
  then show "behind W r c = j" using assms(2) by (simp add: behind_def)
qed

lemma behind_prev:
  assumes "r < W" "c < W" "behind W r c = Suc j"
  shows "behind W (ring_prev W r) c = j" "(c + Suc j) mod W = r"
proof -
  have j: "Suc j < W" using behind_less [of W r c] assms by simp
  have c: "int c = (int r - int (Suc j)) mod int W" using behind_iff [OF assms(2) j] assms(3) by blast
  have "(int (ring_prev W r) - int j) mod int W = (int r - int (Suc j)) mod int W"
    using assms(1) by (simp add: int_ring_prev mod_simps algebra_simps)
  then show "behind W (ring_prev W r) c = j" using behind_iff [OF assms(2), of j] c j by simp
  have "int ((c + Suc j) mod W) = ((int r - int (Suc j)) mod int W + int (Suc j)) mod int W" 
    unfolding zmod_int of_nat_add c ..
  also have "\<dots> = int r mod int W" unfolding mod_add_left_eq by simp
  finally have "int ((c + Suc j) mod W) = int r mod int W" .
  then show "(c + Suc j) mod W = r" using assms(1) by simp
qed

lemma rank_in_nth:
  assumes "0 < W" "length xs = W * q" "length ys = W * q" "e < W * q" "send_chunk W p k = recv_chunk W r k"
  shows "rank_in fadd W (W * q) r k xs (rank_out W (W * q) p k ys) ! e =
    (if int (e div q) = recv_chunk W r k then if k < W - 1 then fadd (xs ! e) (ys ! e) else ys ! e else xs ! e)"
proof -
  obtain c where c: "recv_chunk W r k = int c" "c < W"
    using chunk_index(3,4) [OF assms(1), of r k] by (metis nonneg_int_cases of_nat_less_iff)
  have q: "0 < q" using assms(4) by (cases q) simp_all
  have w: "int (W * q) div int W = int q" using assms(1) by simp
  have len: "length (chunk_of (int q) (int c) zs) = q" if "length zs = W * q" for zs :: "'a list"
    using length_chunk_of [of W "W * q" "int c" zs] that c(2) w assms(1) by simp
  have "map2 fadd (chunk_of (int q) (int c) xs) (chunk_of (int q) (int c) ys) ! (e mod q) = fadd (xs ! e) (ys ! e)"
    if "e div q = c"
    using that assms(2,3) len q by (simp add: chunk_of_nth [OF _ c(2) assms(4)])
  then show ?thesis
    using assms len c q w
    by (simp add: rank_in_def rank_out_def Let_def put_chunk_nth chunk_of_nth [OF _ c(2) assms(4)])
qed

lemma send_recv_chunk:
  assumes "r < W"
  shows "send_chunk W (ring_prev W r) k = recv_chunk W r k"
proof -
  have "(int (ring_prev W r) - a) mod int W = (int r - 1 - a) mod int W" for a
    by (simp only: int_ring_prev [OF assms] mod_diff_left_eq)
  from this [of "int k"] this [of "int (k - (W - 1)) - 1"] show ?thesis
    unfolding send_chunk_def recv_chunk_def by (simp add: algebra_simps del: of_nat_diff)
qed

lemma length_ring_local:
  assumes "0 < W" "\<And>r. r < W \<Longrightarrow> length (x r) = W * q" "r < W"
  shows "length (ring_local W (rank_out W (W * q)) (rank_in fadd W (W * q)) x k r) = W * q"
  using assms(3)
proof (induction k arbitrary: r)
  case (Suc k)
  then show ?case using assms(1) by (simp add: length_rank_in length_rank_out ring_prev_less)
qed (simp add: assms(2))

lemma ring_local_Suc:
  fixes fadd :: "'v \<Rightarrow> 'v \<Rightarrow> 'v"
  assumes "0 < W" "\<And>r. r < W \<Longrightarrow> length (x r) = W * q" "r < W" "e < W * q"
  defines "L \<equiv> ring_local W (rank_out W (W * q)) (rank_in fadd W (W * q)) x"
  shows "L (Suc k) r ! e = (if int (e div q) = recv_chunk W r k
      then if k < W - 1 then fadd (L k r ! e) (L k (ring_prev W r) ! e) else L k (ring_prev W r) ! e else L k r ! e)"
proof -
  have len: "length (L k j) = W * q" if "j < W" for j
    unfolding L_def using assms(1,2) that by (rule length_ring_local)
  show ?thesis
    using rank_in_nth [OF assms(1) len [OF assms(3)] len [OF ring_prev_less(1) [OF assms(1)]] assms(4) send_recv_chunk [OF assms(3)]]
    unfolding L_def by simp
qed

lemma reduce_scatter_values:
  fixes fadd :: "'v \<Rightarrow> 'v \<Rightarrow> 'v"
  assumes "0 < W" "\<And>r. r < W \<Longrightarrow> length (x r) = W * q" "r < W" "e < W * q" "k \<le> W - 1"
  defines "L \<equiv> ring_local W (rank_out W (W * q)) (rank_in fadd W (W * q)) x"
  shows "L k r ! e = (if behind W r (e div q) \<le> k then ring_partial fadd W x (e div q) e (behind W r (e div q)) else x r ! e)"
  using assms(3,5)
proof (induction k arbitrary: r)
  case 0
  have c: "e div q < W" using assms(4) by (cases q) (simp_all add: div_less_iff_less_mult)
  have "e div q = r" if "behind W r (e div q) = 0" using that behind_iff [OF c assms(1), of r] 0 by simp
  then show ?case by (auto simp: L_def)
next
  case (Suc k)
  have c: "e div q < W" using assms(4) by (cases q) (simp_all add: div_less_iff_less_mult)
  have k: "Suc k < W" "k < W - 1" using Suc.prems assms(1) by auto
  have hit: "int (e div q) = recv_chunk W r k \<longleftrightarrow> behind W r (e div q) = Suc k"
    using behind_iff [OF c k(1), of r] k(2) by (simp add: recv_chunk_def algebra_simps)
  have IH: "L k j ! e = (if behind W j (e div q) \<le> k then ring_partial fadd W x (e div q) e (behind W j (e div q)) else x j ! e)"
    if "j < W" for j using Suc.IH [OF that] k by simp
  show ?case
  proof (cases "behind W r (e div q) = Suc k")
    case True
    note b = behind_prev [OF Suc.prems(1) c True]
    have p: "ring_prev W r < W" using assms(1) by (rule ring_prev_less)
    show ?thesis
      using True hit k IH [OF Suc.prems(1)] IH [OF p] b ring_local_Suc [OF assms(1,2) Suc.prems(1) assms(4), where fadd = fadd and k = k]
      unfolding L_def by simp
  next
    case False
    then show ?thesis
      using hit IH [OF Suc.prems(1)] ring_local_Suc [OF assms(1,2) Suc.prems(1) assms(4), where fadd = fadd and k = k]
      unfolding L_def by (simp add: le_Suc_eq)
  qed
qed

lemma all_gather_values:
  fixes fadd :: "'v \<Rightarrow> 'v \<Rightarrow> 'v"
  assumes "0 < W" "\<And>r. r < W \<Longrightarrow> length (x r) = W * q" "r < W" "e < W * q" "t \<le> W - 1"
    and "behind W (Suc r) (e div q) \<le> t"
  defines "L \<equiv> ring_local W (rank_out W (W * q)) (rank_in fadd W (W * q)) x"
  shows "L (W - 1 + t) r ! e = ring_partial fadd W x (e div q) e (W - 1)"
  using assms(3,5,6)
proof (induction t arbitrary: r)
  case 0
  have c: "e div q < W" using assms(4) by (cases q) (simp_all add: div_less_iff_less_mult)
  have "int (e div q) = (int (Suc r) - int 0) mod int W" using behind_iff [OF c assms(1), of "Suc r"] 0 by simp
  also have "\<dots> = (int r - int (W - 1)) mod int W"
    using assms(1) mod_add_self2 [of "int r - int (W - 1)" "int W"] by (simp add: of_nat_diff add.commute)
  finally have "behind W r (e div q) = W - 1" using behind_iff [OF c, of "W - 1" r] assms(1) by simp
  then show ?case using reduce_scatter_values [where x = x and k = "W - 1" and fadd = fadd, OF assms(1,2) 0(1) assms(4)] unfolding L_def by simp
next
  case (Suc t)
  have c: "e div q < W" using assms(4) by (cases q) (simp_all add: div_less_iff_less_mult)
  have t: "Suc t < W" using Suc.prems(2) assms(1) by simp
  have hit: "int (e div q) = recv_chunk W r (W - 1 + t) \<longleftrightarrow> behind W (Suc r) (e div q) = Suc t"
    using behind_iff [OF c t, of "Suc r"] by (simp add: recv_chunk_def)
  have step: "L (W - 1 + Suc t) r ! e = (if behind W (Suc r) (e div q) = Suc t then L (W - 1 + t) (ring_prev W r) ! e else L (W - 1 + t) r ! e)"
    using ring_local_Suc [OF assms(1,2) Suc.prems(1) assms(4), where fadd = fadd and k = "W - 1 + t"] hit
    unfolding L_def by simp
  show ?case
  proof (cases "behind W (Suc r) (e div q) = Suc t")
    case True
    have p: "ring_prev W r < W" using assms(1) by (rule ring_prev_less)
    have "int (e div q) = (int (Suc (ring_prev W r)) - int t) mod int W"
    proof -
      have "(int (Suc (ring_prev W r)) - int t) mod int W = ((int r - 1) mod int W - (int t - 1)) mod int W"
        using int_ring_prev [OF Suc.prems(1)] by (simp add: algebra_simps)
      also have "\<dots> = (int (Suc r) - int (Suc t)) mod int W" unfolding mod_diff_left_eq by simp
      finally show ?thesis using True behind_iff [OF c t, of "Suc r"] by simp
    qed
    then have "behind W (Suc (ring_prev W r)) (e div q) = t" using behind_iff [OF c, of t] t by simp
    then show ?thesis using step True Suc.IH [OF p] Suc.prems(2) by simp
  next
    case False
    then show ?thesis using step Suc.IH [OF Suc.prems(1)] Suc.prems(2,3) by simp
  qed
qed

text \<open>The array every rank ends with.\<close>

definition ring_total :: "('v \<Rightarrow> 'v \<Rightarrow> 'v) \<Rightarrow> 'v list list \<Rightarrow> 'v list" where
  "ring_total fadd locals =
     (let W = length locals; n = length (hd locals) in
      map (\<lambda>e. ring_partial fadd W (\<lambda>r. locals ! r) (e div (n div W)) e (W - 1)) [0..<n])"

lemma ring_final_value:
  assumes "0 < length xs" "\<And>v. v \<in> set xs \<Longrightarrow> length v = length (hd xs)" "length xs dvd length (hd xs)" "r < length xs"
  shows "ring_local (length xs) (rank_out (length xs) (length (hd xs))) (rank_in fadd (length xs) (length (hd xs)))
    (\<lambda>r. xs ! r) (2 * (length xs - 1)) r = ring_total fadd xs"
proof -
  let ?W = "length xs"
  define q where "q = length (hd xs) div ?W"
  have n: "length (hd xs) = ?W * q" using assms(3) by (simp add: q_def)
  have len: "length (xs ! r) = ?W * q" if "r < ?W" for r using assms(2) [of "xs ! r"] that n by simp
  have "length (ring_local ?W (rank_out ?W (?W * q)) (rank_in fadd ?W (?W * q)) (\<lambda>r. xs ! r) (2 * (?W - 1)) r) = ?W * q"
    by (rule length_ring_local [where x = "(!) xs", OF assms(1) len assms(4)])
  moreover have "ring_local ?W (rank_out ?W (?W * q)) (rank_in fadd ?W (?W * q)) (\<lambda>r. xs ! r) (2 * (?W - 1)) r ! e
      = ring_partial fadd ?W (\<lambda>r. xs ! r) (e div q) e (?W - 1)" if "e < ?W * q" for e
    using all_gather_values [where x = "(!) xs", OF assms(1) len assms(4) that, of "?W - 1" fadd] behind_less [OF assms(1), of "Suc r" "e div q"]
    by (simp add: mult_2 le_diff_conv less_Suc_eq_le [symmetric])
  ultimately show ?thesis unfolding ring_total_def Let_def n
    by (intro nth_equalityI) (use n assms(1) in \<open>auto\<close>)
qed

lemma if_split_Inr: "(if b then Inl e else res) = Inr y \<longleftrightarrow> \<not> b \<and> res = Inr y"
  by simp

lemma ring_start_value:
  assumes "ring_start xs = Inr R0"
  shows "0 < length xs" "\<And>v. v \<in> set xs \<Longrightarrow> length v = length (hd xs)" "length xs dvd length (hd xs)"
    "allreduce.at_start (length xs) (length (hd xs)) (\<lambda>r. xs ! r) R0"
proof -
  let ?W = "length xs"
  have ne: "\<not> int ?W \<le> 0" "\<not> (\<exists>v \<in> set xs. length v \<noteq> length (hd xs))" "int (length (hd xs)) mod int ?W = 0"
    and m: "bindr (make_ring_channels (int ?W)) (\<lambda>(chs, es). Inr \<lparr>rg_channels = chs,
       rg_ranks = map (\<lambda>r. rank_enter (xs ! nat r) r (int ?W)) (urange (int ?W)), rg_edges = es\<rparr>) = Inr R0"
    using assms unfolding ring_start_def Let_def if_split_Inr by blast+
  show c: "0 < ?W" "\<And>v. v \<in> set xs \<Longrightarrow> length v = length (hd xs)" using ne(1,2) by (simp, blast)
  show d: "?W dvd length (hd xs)" using ne(3) by (simp add: mod_eq_0_iff_dvd)
  have R: "R0 = \<lparr>rg_channels = map (\<lambda>r. \<lparr>ch_out = nat r, ch_in = nat ((r - 1) mod int ?W)\<rparr>) (urange (int ?W)),
      rg_ranks = map (\<lambda>r. rank_enter (xs ! nat r) r (int ?W)) (urange (int ?W)),
      rg_edges = map (\<lambda>_. new_queue) (urange (int ?W))\<rparr>"
    using m ne(1) by (simp add: make_ring_channels_def)
  have pr: "nat ((int r - 1) mod int ?W) = ring_prev ?W r" if "r < ?W" for r using int_ring_prev [OF that] by (metis nat_int)
  have ch: "rg_channels R0 = map (ring_channel ?W) [0..<?W]"
    unfolding R using pr by (simp add: urange_def ring_channel_def)
  have rk: "rg_ranks R0 ! r = rank_enter (xs ! r) (int r) (int ?W)" if "r < ?W" for r
    using that unfolding R by simp
  have e: "rg_edges R0 ! r = new_queue" if "r < ?W" for r using that unfolding R by simp
  have pc: "rank_enter (xs ! r) (int r) (int ?W) = \<lparr>rk_pc = (if ?W = 1 then RDone else RSend 0), rk_local = xs ! r\<rparr>" if "r < ?W" for r
    using that c(1) c(2) [of "xs ! r"] ne(3) by (simp add: rank_enter_def)
  have l: "length (rg_ranks R0) = ?W" "length (rg_edges R0) = ?W" unfolding R by simp_all
  have "ring_good ?W (length (hd xs)) R0"
    unfolding ring_good_def
  proof (intro conjI allI impI)
    fix r assume r: "r < ?W"
    then have s: "rg_ranks R0 ! r = \<lparr>rk_pc = (if ?W = 1 then RDone else RSend 0), rk_local = xs ! r\<rparr>" using rk pc by simp
    show "pc_ok ?W (rk_pc (rg_ranks R0 ! r))" unfolding s using r by (cases "?W = 1") auto
    show "length (rk_local (rg_ranks R0 ! r)) = length (hd xs)" unfolding s using c(2) r by simp
    show "\<forall>m \<in> set (bq_items (rg_edges R0 ! r)). length m = length (hd xs) div ?W" using e [OF r] by (simp add: new_queue_def)
  qed (rule d l ch)+
  then show "allreduce.at_start ?W (length (hd xs)) (\<lambda>r. xs ! r) R0"
    unfolding allreduce.at_start_def ring_sent_def ring_rcvd_def ring_lcl_def ring_edge_def
    using rk e pc by (simp add: new_queue_def)
qed

lemma pc_done: "pc_ok W pc \<Longrightarrow> pc_rcvd W pc = 2 * (W - 1) \<longleftrightarrow> pc = RDone"
  by (cases pc) auto

lemma joined_iff:
  assumes "ring_good W n R"
  shows "ring_joined R \<longleftrightarrow> (\<forall>r < W. ring_rcvd W R r = 2 * (W - 1))"
proof -
  have g: "length (rg_ranks R) = W" "\<And>r. r < W \<Longrightarrow> pc_ok W (rk_pc (rg_ranks R ! r))"
    using assms unfolding ring_good_def by blast+
  have "(case pc of RDone \<Rightarrow> True | RFailed e \<Rightarrow> True | _ \<Rightarrow> False) \<longleftrightarrow> pc_rcvd W pc = 2 * (W - 1)" if "pc_ok W pc" for pc
    using pc_done [OF that] that by (cases pc) auto
  then show ?thesis using g unfolding ring_joined_def list_all_length ring_rcvd_def by simp
qed

lemma behind_add:
  assumes "c < W" "i < W"
  shows "behind W ((c + i) mod W) c = i" "(c + behind W i c) mod W = i"
proof -
  have "(int ((c + i) mod W) - int c) mod int W = int i mod int W" by (simp add: zmod_int mod_simps)
  then show "behind W ((c + i) mod W) c = i" using assms(2) by (simp add: behind_def)
  have "int c = (int i - int (behind W i c)) mod int W" using behind_iff [OF assms(1), of "behind W i c" i] behind_less assms by simp
  then have "(int c + int (behind W i c)) mod int W = int i mod int W" by (metis diff_add_cancel mod_add_left_eq)
  then show "(c + behind W i c) mod W = i" using assms(2) by (metis mod_less nat_int of_nat_add zmod_int)
qed

text \<open>With an associative and commutative addition the order of the summands does not matter.\<close>

lemma ring_partial_sum:
  fixes x :: "nat \<Rightarrow> 'a :: comm_monoid_add list"
  assumes "c < W"
  shows "ring_partial (+) W x c e j = (\<Sum>i \<le> j. x ((c + i) mod W) ! e)"
  by (induction j) (simp_all add: assms add.commute)

lemma ring_total_sum:
  fixes xs :: "'a :: comm_monoid_add list list"
  assumes "xs \<noteq> []" "\<And>v. v \<in> set xs \<Longrightarrow> length v = length (hd xs)" "length xs dvd length (hd xs)"
  shows "ring_total (+) xs = map (\<lambda>e. \<Sum>v \<leftarrow> xs. v ! e) [0..<length (hd xs)]"
proof -
  let ?W = "length xs"
  have "ring_partial (+) ?W ((!) xs) (e div (length (hd xs) div ?W)) e (?W - 1) = (\<Sum>v \<leftarrow> xs. v ! e)"
    if e: "e < length (hd xs)" for e
  proof -
    define c where "c = e div (length (hd xs) div ?W)"
    have c: "c < ?W" 
    proof -
      have n: "?W * (length (hd xs) div ?W) = length (hd xs)" using assms(3) by simp
      then have "0 < length (hd xs) div ?W" using e by (metis gr0I mult_0_right not_less0)
      then show ?thesis using e n by (simp add: c_def div_less_iff_less_mult)
    qed
    have "bij_betw (\<lambda>i. (c + i) mod ?W) {..<?W} {..<?W}"
      by (rule bij_betw_byWitness [where f' = "\<lambda>r. behind ?W r c"])
        (use assms(1) behind_less behind_add [OF c] in auto)
    then have "(\<Sum>i < ?W. xs ! ((c + i) mod ?W) ! e) = (\<Sum>i < ?W. xs ! i ! e)"
      by (rule sum.reindex_bij_betw)
    moreover have "{..?W - 1} = {..<?W}" using assms(1) by (cases xs) auto
    ultimately show ?thesis using ring_partial_sum [OF c, of "(!) xs" e "?W - 1"] assms(1)
      unfolding c_def by (simp add: sum_list_sum_nth atLeast0LessThan)
  qed
  then show ?thesis by (simp add: ring_total_def Let_def)
qed

text \<open>
  C29: Ring all-reduce under every interleaving.  For inputs \<^verbatim>\<open>ring_allreduce\<close> accepts, run the rank threads in
  any order.  A run has at most 4 W (W - 1) sends and receives; as long as some thread has not ended,
  some thread can take a step, so there is no deadlock; and when all have ended, no thread has raised,
  and all W buffers are the same array, whatever the floating point addition: element e of chunk c
  is the sum that starts with rank c and adds the next ranks' elements in ring order.
\<close>

theorem ring_allreduce_correct:
  assumes "ring_start xs = Inr R0" "(ring_step fadd ^^ n) R0 R"
  shows "n \<le> 4 * length xs * (length xs - 1)
    \<and> (ring_joined R \<longleftrightarrow> n = 4 * length xs * (length xs - 1))
    \<and> (if ring_joined R
        then list_all (\<lambda>s. rk_pc s = RDone) (rg_ranks R) \<and> ring_buffers R = replicate (length xs) (ring_total fadd xs)
        else \<exists>R'. ring_step fadd R R')"
proof -
  let ?W = "length xs"
  note st = ring_start_value [OF assms(1)]
  note o = allreduce.outcome_of_run [OF st(1,4) assms(2)]
  have W: "?W * (2 * (2 * (?W - 1))) = 4 * ?W * (?W - 1)" by simp
  have j: "ring_joined R \<longleftrightarrow> n = 4 * ?W * (?W - 1)" using o(5) joined_iff [OF o(4)] unfolding W by blast
  have g: "length (rg_ranks R) = ?W" "\<And>r. r < ?W \<Longrightarrow> pc_ok ?W (rk_pc (rg_ranks R ! r))"
    using o(4) unfolding ring_good_def by blast+
  have "rk_pc (rg_ranks R ! r) = RDone \<and> rk_local (rg_ranks R ! r) = ring_total fadd xs" if "ring_joined R" "r < ?W" for r
    using o(3) [OF _ that(2)] j that W pc_done [OF g(2) [OF that(2)]] ring_final_value [OF st(1-3) that(2), of fadd]
    unfolding ring_rcvd_def ring_lcl_def by simp
  then have "list_all (\<lambda>s. rk_pc s = RDone) (rg_ranks R) \<and> ring_buffers R = replicate ?W (ring_total fadd xs)" if "ring_joined R"
    using that g(1) unfolding ring_buffers_def list_all_length by (auto intro!: nth_equalityI)
  then show ?thesis using o(1,2) j W by (auto simp: le_less)
qed

theorem ring_allreduce_correct_witness:
  "\<exists>R0 R. ring_start [[1, 2, 3], [10, 20, 30], [100, 200, 300 :: int]] = Inr R0
     \<and> (ring_step (+) ^^ 24) R0 R \<and> ring_joined R
     \<and> ring_buffers R = replicate 3 (ring_total (+) [[1, 2, 3], [10, 20, 30], [100, 200, 300]])
     \<and> ring_total (+) [[1, 2, 3], [10, 20, 30], [100, 200, 300 :: int]] = [111, 222, 333]"
proof -
  let ?xs = "[[1, 2, 3], [10, 20, 30], [100, 200, 300 :: int]]"
  let ?rs = "[0, 2, 0, 1, 2, 1, 2, 0, 0, 1, 1, 2, 0, 2, 1, 2, 2, 1, 1, 2, 0, 0, 0, 1]"
  have "\<not> is_ok (ring_start ?xs) \<or> (case ring_start ?xs of Inr R0 \<Rightarrow> ring_run (+) ?rs R0 \<noteq> None | _ \<Rightarrow> False)"
    by code_simp
  moreover have "is_ok (ring_start ?xs)" by code_simp
  ultimately obtain R0 R where R: "ring_start ?xs = Inr R0" "ring_run (+) ?rs R0 = Some R"
    by (cases "ring_start ?xs") auto
  have len: "length ?rs = 24" by simp
  have "(ring_step (+) ^^ 24) R0 R" using ring_run_steps [OF R(2)] unfolding len .
  moreover have "ring_total (+) ?xs = [111, 222, 333]" by code_simp
  moreover from calculation have "ring_joined R" "ring_buffers R = replicate 3 (ring_total (+) ?xs)"
    using ring_allreduce_correct [OF R(1), where n = 24 and R = R and fadd = "(+)"] by (simp_all add: numeral_3_eq_3)
  ultimately show ?thesis using R(1) by blast
qed

end
