(* ===== verification/Streams.thy ===== *)
theory Streams
  imports Prelude
begin

text \<open>
  Streams of \<^verbatim>\<open>_fallback.py\<close> (public class in \<^verbatim>\<open>core.py\<close>): a queue of tasks served by one worker thread,
  and the executor of \<^verbatim>\<open>comm.py\<close> that overlaps computation on one stream with communication on another.

  A step of a worker is one critical section of its loop or the call of a task.  A task reads and writes
  the shared state \<open>'w\<close>; it returns, raises, or cannot return yet (\<^term>\<open>None\<close>), as a task that waits for a
  future does.
\<close>

section \<open>A stream and its worker\<close>

text \<open>Where the worker is: waiting for a task, calling one, after the call, before publishing its completion, or ended.\<close>

datatype 't Worker = WIdle | WRunning 't | WRan "py_error option" | WPublish | WEnded

record 't Stream =
  sm_queue :: "'t list"
  sm_outstanding :: int
  sm_total :: int
  sm_failure :: "py_error option"
  sm_stop :: bool
  sm_worker :: "'t Worker"

definition new_stream :: "'t Stream" where
  "new_stream = \<lparr>sm_queue = [], sm_outstanding = 0, sm_total = 0, sm_failure = None, sm_stop = False, sm_worker = WIdle\<rparr>"

type_synonym ('t, 'w) task_run = "'t \<Rightarrow> 'w \<Rightarrow> (py_error option \<times> 'w) option"

definition worker_step :: "('t, 'w) task_run \<Rightarrow> 't Stream \<Rightarrow> 'w \<Rightarrow> ('t Stream \<times> 'w) option" where
  "worker_step run s w =
     (case sm_worker s of
        WIdle \<Rightarrow>
          (case sm_queue s of
             [] \<Rightarrow> if sm_stop s then Some (s\<lparr>sm_worker := WEnded\<rparr>, w) else None
           | t # ts \<Rightarrow> Some (s\<lparr>sm_queue := ts, sm_worker := WRunning t\<rparr>, w))
      | WRunning t \<Rightarrow> (case run t w of None \<Rightarrow> None | Some (res, w') \<Rightarrow> Some (s\<lparr>sm_worker := WRan res\<rparr>, w'))
      | WRan res \<Rightarrow>
          Some (s\<lparr>sm_failure := (case sm_failure s of None \<Rightarrow> res | Some e \<Rightarrow> Some e), sm_worker := WPublish\<rparr>, w)
      | WPublish \<Rightarrow> Some (s\<lparr>sm_outstanding := sm_outstanding s - 1, sm_worker := WIdle\<rparr>, w)
      | WEnded \<Rightarrow> None)"

definition submit :: "'t \<Rightarrow> 't Stream \<Rightarrow> 't Stream" where
  "submit t s = s\<lparr>sm_queue := sm_queue s @ [t], sm_outstanding := sm_outstanding s + 1, sm_total := sm_total s + 1\<rparr>"

text \<open>\<^verbatim>\<open>wait\<close> blocks while tasks are outstanding, then hands over the recorded failure, if any, to be raised.\<close>

definition wait :: "'t Stream \<Rightarrow> (py_error option \<times> 't Stream) option" where
  "wait s = (if sm_outstanding s = 0 then Some (sm_failure s, s\<lparr>sm_failure := None\<rparr>) else None)"

definition submitted :: "'t Stream \<Rightarrow> int" where
  "submitted s = sm_total s"

text \<open>\<^verbatim>\<open>close\<close> asks the worker to stop; the join that follows waits for it to end.\<close>

definition close :: "'t Stream \<Rightarrow> 't Stream" where
  "close s = s\<lparr>sm_stop := True\<rparr>"

section \<open>Histories of a stream\<close>

text \<open>What has happened on a stream: tasks submitted, tasks called with what they raised, calls before the last wait.\<close>

record 't Hist =
  h_subs :: "'t list"
  h_called :: "('t \<times> py_error option) list"
  h_waited :: nat

definition new_hist :: "'t Hist" where
  "new_hist = \<lparr>h_subs = [], h_called = [], h_waited = 0\<rparr>"

definition note_call :: "'t Stream \<Rightarrow> 't Stream \<Rightarrow> 't Hist \<Rightarrow> 't Hist" where
  "note_call s s' h =
     (case (sm_worker s, sm_worker s') of
        (WRunning t, WRan res) \<Rightarrow> h\<lparr>h_called := h_called h @ [(t, res)]\<rparr>
      | _ \<Rightarrow> h)"

text \<open>Any number of client threads submit, wait and close while the worker runs.\<close>

inductive stream_step :: "('t, 'w) task_run \<Rightarrow> 't Stream \<times> 'w \<times> 't Hist \<Rightarrow> 't Stream \<times> 'w \<times> 't Hist \<Rightarrow> bool" for run where
  s_submit: "stream_step run (s, w, h) (submit t s, w, h\<lparr>h_subs := h_subs h @ [t]\<rparr>)"
| s_work: "worker_step run s w = Some (s', w') \<Longrightarrow> stream_step run (s, w, h) (s', w', note_call s s' h)"
| s_wait: "wait s = Some (f, s') \<Longrightarrow> stream_step run (s, w, h) (s', w, h\<lparr>h_waited := length (h_called h)\<rparr>)"
| s_close: "stream_step run (s, w, h) (close s, w, h)"

text \<open>A run given by the sequence of what happens.\<close>

datatype 't Action = Submit 't | Work | Wait | Close

fun stream_run :: "('t, 'w) task_run \<Rightarrow> 't Action list \<Rightarrow> 't Stream \<times> 'w \<times> 't Hist \<Rightarrow> ('t Stream \<times> 'w \<times> 't Hist) option" where
  "stream_run run [] st = Some st"
| "stream_run run (Submit t # as) (s, w, h) = stream_run run as (submit t s, w, h\<lparr>h_subs := h_subs h @ [t]\<rparr>)"
| "stream_run run (Work # as) (s, w, h) =
     (case worker_step run s w of None \<Rightarrow> None | Some (s', w') \<Rightarrow> stream_run run as (s', w', note_call s s' h))"
| "stream_run run (Wait # as) (s, w, h) =
     (case wait s of None \<Rightarrow> None | Some (f, s') \<Rightarrow> stream_run run as (s', w, h\<lparr>h_waited := length (h_called h)\<rparr>))"
| "stream_run run (Close # as) (s, w, h) = stream_run run as (close s, w, h)"

lemma stream_run_reach: "stream_run run as st = Some st' \<Longrightarrow> (stream_step run)\<^sup>*\<^sup>* st st'"
proof (induction run as st rule: stream_run.induct)
  case (3 run as s w h)
  then obtain s1 w1 where "worker_step run s w = Some (s1, w1)" "(stream_step run)\<^sup>*\<^sup>* (s1, w1, note_call s s1 h) st'"
    by (auto split: option.splits)
  then show ?case by (meson converse_rtranclp_into_rtranclp s_work)
next
  case (4 run as s w h)
  then obtain f s1 where "wait s = Some (f, s1)" "(stream_step run)\<^sup>*\<^sup>* (s1, w, h\<lparr>h_waited := length (h_called h)\<rparr>) st'"
    by (auto split: option.splits)
  then show ?case by (blast intro: converse_rtranclp_into_rtranclp s_wait)
qed (auto intro: converse_rtranclp_into_rtranclp s_submit s_close)

definition busy :: "'t Stream \<Rightarrow> bool" where
  "busy s \<longleftrightarrow> sm_worker s \<noteq> WIdle \<and> sm_worker s \<noteq> WEnded"

definition in_call :: "'t Stream \<Rightarrow> 't list" where
  "in_call s = (case sm_worker s of WRunning t \<Rightarrow> [t] | _ \<Rightarrow> [])"

fun first_error :: "('t \<times> py_error option) list \<Rightarrow> py_error option" where
  "first_error [] = None"
| "first_error ((t, None) # cs) = first_error cs"
| "first_error ((t, Some e) # cs) = Some e"

text \<open>The calls whose outcome the worker has recorded since the last wait.\<close>

definition recorded :: "'t Stream \<Rightarrow> 't Hist \<Rightarrow> ('t \<times> py_error option) list" where
  "recorded s h = drop (h_waited h) (case sm_worker s of WRan _ \<Rightarrow> butlast (h_called h) | _ \<Rightarrow> h_called h)"

definition stream_inv :: "'t Stream \<Rightarrow> 't Hist \<Rightarrow> bool" where
  "stream_inv s h \<longleftrightarrow>
     h_subs h = map fst (h_called h) @ in_call s @ sm_queue s
     \<and> sm_outstanding s = int (length (sm_queue s)) + (if busy s then 1 else 0)
     \<and> sm_total s = int (length (h_subs h))
     \<and> sm_failure s = first_error (recorded s h)
     \<and> (\<forall>res. sm_worker s = WRan res \<longrightarrow> (\<exists>t cs. h_called h = cs @ [(t, res)] \<and> h_waited h \<le> length cs))
     \<and> h_waited h \<le> length (h_called h)
     \<and> (sm_worker s = WEnded \<longrightarrow> sm_stop s)"

lemma first_error_append:
  "first_error (cs @ ds) = (case first_error cs of None \<Rightarrow> first_error ds | Some e \<Rightarrow> Some e)"
  by (induction cs rule: first_error.induct) simp_all

lemma stream_inv_init: "stream_inv new_stream new_hist"
  by (simp add: stream_inv_def new_stream_def new_hist_def in_call_def busy_def recorded_def)

lemma stream_inv_submit: "stream_inv s h \<Longrightarrow> stream_inv (submit t s) (h\<lparr>h_subs := h_subs h @ [t]\<rparr>)"
  by (cases "sm_worker s") (simp_all add: stream_inv_def submit_def in_call_def busy_def recorded_def)

lemma stream_inv_close: "stream_inv s h \<Longrightarrow> stream_inv (close s) h"
  by (simp add: stream_inv_def close_def in_call_def busy_def recorded_def)

lemma wait_idle:
  assumes "stream_inv s h" "wait s = Some (f, s')"
  shows "sm_queue s = []" "\<not> busy s" "f = first_error (drop (h_waited h) (h_called h))" "h_subs h = map fst (h_called h)"
    "s' = s\<lparr>sm_failure := None\<rparr>"
proof -
  have o: "sm_outstanding s = 0" "f = sm_failure s" "s' = s\<lparr>sm_failure := None\<rparr>" using assms(2) by (auto simp: wait_def split: if_splits)
  then show q: "sm_queue s = []" "\<not> busy s" "s' = s\<lparr>sm_failure := None\<rparr>" using assms(1) by (auto simp: stream_inv_def split: if_splits)
  then show "h_subs h = map fst (h_called h)" "f = first_error (drop (h_waited h) (h_called h))"
    using assms(1) o(2) by (auto simp: stream_inv_def in_call_def recorded_def busy_def split: Worker.splits)
qed

lemma stream_inv_wait:
  assumes "stream_inv s h" "wait s = Some (f, s')"
  shows "stream_inv s' (h\<lparr>h_waited := length (h_called h)\<rparr>)"
  using wait_idle [OF assms] assms(1)
  by (auto simp: stream_inv_def in_call_def busy_def recorded_def split: Worker.splits)

lemma stream_inv_work:
  assumes "stream_inv s h" "worker_step run s w = Some (s', w')"
  shows "stream_inv s' (note_call s s' h)"
proof (cases "sm_worker s")
  case WIdle
  then show ?thesis using assms
    by (auto simp: stream_inv_def worker_step_def note_call_def in_call_def busy_def recorded_def split: list.splits if_splits)
next
  case (WRunning t)
  then obtain res where "s' = s\<lparr>sm_worker := WRan res\<rparr>" using assms(2) by (auto simp: worker_step_def split: option.splits)
  then show ?thesis using assms(1) WRunning
    by (auto simp: stream_inv_def note_call_def in_call_def busy_def recorded_def)
next
  case (WRan res)
  then obtain t cs where "h_called h = cs @ [(t, res)]" "h_waited h \<le> length cs" using assms(1) by (auto simp: stream_inv_def)
  then show ?thesis using assms WRan
    by (cases res) (auto simp: stream_inv_def worker_step_def note_call_def in_call_def busy_def recorded_def first_error_append
      split: option.splits)
next
  case WPublish
  then show ?thesis using assms
    by (auto simp: stream_inv_def worker_step_def note_call_def in_call_def busy_def recorded_def)
next
  case WEnded
  then show ?thesis using assms by (simp add: worker_step_def)
qed

lemma stream_step_inv: "stream_step run (s, w, h) (s', w', h') \<Longrightarrow> stream_inv s h \<Longrightarrow> stream_inv s' h'"
  by (cases rule: stream_step.cases, assumption)
    (auto intro: stream_inv_submit stream_inv_work stream_inv_wait stream_inv_close)

lemma stream_reach_inv:
  assumes "(stream_step run)\<^sup>*\<^sup>* (new_stream, w0, new_hist) (s, w, h)"
  shows "stream_inv s h"
proof -
  have "stream_inv (fst st) (snd (snd st))" if "(stream_step run)\<^sup>*\<^sup>* (new_stream, w0, new_hist) st" for st
    using that
  proof (induction rule: rtranclp_induct)
    case base
    show ?case using stream_inv_init by simp
  next
    case (step y z)
    then show ?case using stream_step_inv by (cases y, cases z) fastforce
  qed
  from this [OF assms] show ?thesis by simp
qed

text \<open>Worker steps until everything submitted has completed.\<close>

definition worker_left :: "'t Stream \<Rightarrow> nat" where
  "worker_left s = 4 * length (sm_queue s) +
     (case sm_worker s of WRunning _ \<Rightarrow> 3 | WRan _ \<Rightarrow> 2 | WPublish \<Rightarrow> 1 | _ \<Rightarrow> 0)"

definition work_only :: "('t, 'w) task_run \<Rightarrow> 't Stream \<times> 'w \<Rightarrow> 't Stream \<times> 'w \<Rightarrow> bool" where
  "work_only run = (\<lambda>(s, w) st. worker_step run s w = Some st)"

lemma worker_left_step:
  assumes "worker_step run s w = Some (s', w')" "0 < worker_left s"
  shows "worker_left s = Suc (worker_left s')" "sm_worker s' \<noteq> WEnded"
  using assms by (auto simp: worker_step_def worker_left_def split: Worker.splits list.splits option.splits if_splits)

lemma worker_can_step:
  assumes "\<And>t w. run t w \<noteq> None" "sm_worker s \<noteq> WEnded" "0 < worker_left s"
  shows "\<exists>st. worker_step run s w = Some st"
proof (cases "sm_worker s")
  case WIdle
  then show ?thesis using assms(3) by (cases "sm_queue s") (simp_all add: worker_step_def worker_left_def)
next
  case (WRunning t)
  obtain res w' where "run t w = Some (res, w')" using assms(1) [of t w] by auto
  then show ?thesis using WRunning by (simp add: worker_step_def)
qed (use assms(2) in \<open>simp_all add: worker_step_def\<close>)

lemma worker_drains:
  assumes "\<And>t w. run t w \<noteq> None" "sm_worker s \<noteq> WEnded"
  shows "\<exists>s' w'. (work_only run ^^ worker_left s) (s, w) (s', w') \<and> worker_left s' = 0"
  using assms(2)
proof (induction "worker_left s" arbitrary: s w)
  case 0
  then show ?case by auto
next
  case (Suc n)
  obtain s1 w1 where st: "worker_step run s w = Some (s1, w1)"
    using worker_can_step [where run = run and w = w, OF assms(1) Suc.prems] Suc.hyps(2) by auto
  have l: "worker_left s1 = n" "sm_worker s1 \<noteq> WEnded" using worker_left_step [OF st] Suc.hyps(2) by simp_all
  obtain s' w' where d: "(work_only run ^^ n) (s1, w1) (s', w')" "worker_left s' = 0"
    using Suc.hyps(1) [OF l(1) [symmetric] l(2)] l(1) by blast
  have "work_only run (s, w) (s1, w1)" using st by (simp add: work_only_def)
  from relpowp_Suc_I2 [OF this d(1)] d(2) show ?case using Suc.hyps(2) by auto
qed

lemma work_only_reach:
  assumes "(work_only run ^^ n) (s, w) (s', w')"
  shows "\<exists>h'. (stream_step run)\<^sup>*\<^sup>* (s, w, h) (s', w', h') \<and> h_subs h' = h_subs h \<and> h_waited h' = h_waited h"
  using assms
proof (induction n arbitrary: s' w')
  case 0
  then show ?case by auto
next
  case (Suc n)
  then obtain s1 w1 where st: "(work_only run ^^ n) (s, w) (s1, w1)" "work_only run (s1, w1) (s', w')"
    by (auto elim: relpowp_Suc_E)
  obtain h1 where h1: "(stream_step run)\<^sup>*\<^sup>* (s, w, h) (s1, w1, h1)" "h_subs h1 = h_subs h" "h_waited h1 = h_waited h"
    using Suc.IH [OF st(1)] by blast
  have "stream_step run (s1, w1, h1) (s', w', note_call s1 s' h1)" using st(2) by (auto simp: work_only_def intro: s_work)
  moreover have "h_subs (note_call s1 s' h1) = h_subs h1" "h_waited (note_call s1 s' h1) = h_waited h1"
    by (simp_all add: note_call_def split: Worker.splits)
  ultimately show ?case using h1 by (metis rtranclp.rtrancl_into_rtrancl)
qed



text \<open>A stream whose worker has ended accepts tasks that no worker will call; waiting for them never returns.\<close>

lemma ended_stream_hangs:
  assumes "(stream_step run)\<^sup>*\<^sup>* (s, w, h) (s', w', h')" "stream_inv s h" "sm_worker s = WEnded" "sm_queue s \<noteq> []"
  shows "wait s' = None"
proof -
  have "stream_inv (fst st) (snd (snd st)) \<and> sm_worker (fst st) = WEnded \<and> sm_queue (fst st) \<noteq> []"
    if "(stream_step run)\<^sup>*\<^sup>* (s, w, h) st" for st
    using that
  proof (induction rule: rtranclp_induct)
    case base
    show ?case using assms(2-4) by simp
  next
    case (step y z)
    from step(2) step.IH show ?case
    proof cases
      case (s_wait s f s' w h)
      with step.IH show ?thesis using wait_idle(1) [of s h f s'] by simp
    qed (auto simp: worker_step_def submit_def close_def intro: stream_inv_submit stream_inv_close [unfolded close_def]
        stream_inv_submit [unfolded submit_def])
  qed
  from this [OF assms(1)] show ?thesis using wait_idle(1) [of s' h'] by (cases "wait s'") auto
qed

end
