(* ===== verification/Overlap.thy ===== *)
theory Overlap
  imports Streams
begin

text \<open>
  The overlap executor of \<^verbatim>\<open>_fallback.py\<close>: the main thread submits one computation and one communication
  task per iteration to two streams, the communication task waits for the future of its iteration, and
  the main thread then waits for both streams.

  What \<^verbatim>\<open>compute\<close> and \<^verbatim>\<open>comm_fn\<close> return or raise is a function of their arguments; each is called at most once per
  iteration, so every behaviour of the two callbacks in a run is covered.  The log and the histories
  record what happened; the executor does not read them.
\<close>

section \<open>The executor\<close>

datatype 'a Event = Computed int "'a result" | Communicated int 'a "py_error option"

record 'a OverlapWorld =
  ow_ready :: "int \<Rightarrow> 'a result option"
  ow_log :: "'a Event list"

definition do_compute :: "(int \<Rightarrow> 'a result) \<Rightarrow> (int, 'a OverlapWorld) task_run" where
  "do_compute compute i w =
     (let r = compute i; w = w\<lparr>ow_ready := (ow_ready w)(i \<mapsto> r), ow_log := ow_log w @ [Computed i r]\<rparr> in
      case r of Inr _ \<Rightarrow> Some (None, w) | Inl e \<Rightarrow> Some (Some e, w))"

definition do_comm :: "(int \<Rightarrow> 'a \<Rightarrow> py_error option) \<Rightarrow> (int, 'a OverlapWorld) task_run" where
  "do_comm comm_fn i w =
     (case ow_ready w i of
        None \<Rightarrow> None
      | Some (Inl e) \<Rightarrow> Some (Some e, w)
      | Some (Inr v) \<Rightarrow> Some (comm_fn i v, w\<lparr>ow_log := ow_log w @ [Communicated i v (comm_fn i v)]\<rparr>))"

text \<open>Where the main thread is; \<^verbatim>\<open>Result(iters, iters)\<close> is the pair of its counts.\<close>

datatype OverlapPc = OLoop int | OComm int | OWaitCompute | OWaitComm "py_error option" | OEnd "(int \<times> int) result"

record 'a Overlap =
  ov_pc :: OverlapPc
  ov_compute :: "int Stream"
  ov_comm :: "int Stream"
  ov_world :: "'a OverlapWorld"
  ov_compute_hist :: "int Hist"
  ov_comm_hist :: "int Hist"

definition new_overlap :: "'a Overlap" where
  "new_overlap =
     \<lparr>ov_pc = OLoop 0, ov_compute = new_stream, ov_comm = new_stream,
      ov_world = \<lparr>ow_ready = (\<lambda>_. None), ow_log = []\<rparr>, ov_compute_hist = new_hist, ov_comm_hist = new_hist\<rparr>"

definition hist_submit :: "'t \<Rightarrow> 't Hist \<Rightarrow> 't Hist" where
  "hist_submit t h = h\<lparr>h_subs := h_subs h @ [t]\<rparr>"

definition hist_wait :: "'t Hist \<Rightarrow> 't Hist" where
  "hist_wait h = h\<lparr>h_waited := length (h_called h)\<rparr>"

text \<open>One step of the main thread, of the compute worker and of the communication worker.\<close>

definition overlap_main :: "int \<Rightarrow> 'a Overlap \<Rightarrow> 'a Overlap option" where
  "overlap_main iters s =
     (case ov_pc s of
        OLoop i \<Rightarrow>
          Some (if i < iters
                then s\<lparr>ov_pc := OComm i, ov_compute := submit i (ov_compute s), ov_compute_hist := hist_submit i (ov_compute_hist s)\<rparr>
                else s\<lparr>ov_pc := OWaitCompute\<rparr>)
      | OComm i \<Rightarrow>
          Some (s\<lparr>ov_pc := OLoop (i + 1), ov_comm := submit i (ov_comm s), ov_comm_hist := hist_submit i (ov_comm_hist s)\<rparr>)
      | OWaitCompute \<Rightarrow>
          (case wait (ov_compute s) of
             None \<Rightarrow> None
           | Some (f, st) \<Rightarrow> Some (s\<lparr>ov_pc := OWaitComm f, ov_compute := st, ov_compute_hist := hist_wait (ov_compute_hist s)\<rparr>))
      | OWaitComm failure \<Rightarrow>
          (case wait (ov_comm s) of
             None \<Rightarrow> None
           | Some (f, st) \<Rightarrow>
               let failure = (case failure of None \<Rightarrow> f | Some e \<Rightarrow> Some e) in
               Some (s\<lparr>ov_pc := OEnd (case failure of None \<Rightarrow> Inr (iters, iters) | Some e \<Rightarrow> Inl e),
                       ov_comm := st, ov_comm_hist := hist_wait (ov_comm_hist s)\<rparr>))
      | OEnd _ \<Rightarrow> None)"

definition overlap_compute :: "(int \<Rightarrow> 'a result) \<Rightarrow> 'a Overlap \<Rightarrow> 'a Overlap option" where
  "overlap_compute compute s =
     (case worker_step (do_compute compute) (ov_compute s) (ov_world s) of
        None \<Rightarrow> None
      | Some (st, w) \<Rightarrow>
          Some (s\<lparr>ov_compute := st, ov_world := w, ov_compute_hist := note_call (ov_compute s) st (ov_compute_hist s)\<rparr>))"

definition overlap_comm :: "(int \<Rightarrow> 'a \<Rightarrow> py_error option) \<Rightarrow> 'a Overlap \<Rightarrow> 'a Overlap option" where
  "overlap_comm comm_fn s =
     (case worker_step (do_comm comm_fn) (ov_comm s) (ov_world s) of
        None \<Rightarrow> None
      | Some (st, w) \<Rightarrow>
          Some (s\<lparr>ov_comm := st, ov_world := w, ov_comm_hist := note_call (ov_comm s) st (ov_comm_hist s)\<rparr>))"

inductive overlap_step ::
  "(int \<Rightarrow> 'a result) \<Rightarrow> (int \<Rightarrow> 'a \<Rightarrow> py_error option) \<Rightarrow> int \<Rightarrow> 'a Overlap \<Rightarrow> 'a Overlap \<Rightarrow> bool"
  for compute comm_fn iters where
  o_main: "overlap_main iters s = Some s' \<Longrightarrow> overlap_step compute comm_fn iters s s'"
| o_compute: "overlap_compute compute s = Some s' \<Longrightarrow> overlap_step compute comm_fn iters s s'"
| o_comm: "overlap_comm comm_fn s = Some s' \<Longrightarrow> overlap_step compute comm_fn iters s s'"

text \<open>A run under a given schedule of the three threads, every step of which must be possible.\<close>

datatype Thread = TMain | TCompute | TComm

fun overlap_sched :: "(int \<Rightarrow> 'a result) \<Rightarrow> (int \<Rightarrow> 'a \<Rightarrow> py_error option) \<Rightarrow> int \<Rightarrow> Thread list \<Rightarrow> 'a Overlap \<Rightarrow> 'a Overlap option" where
  "overlap_sched compute comm_fn iters [] s = Some s"
| "overlap_sched compute comm_fn iters (t # ts) s =
     (case (case t of TMain \<Rightarrow> overlap_main iters s | TCompute \<Rightarrow> overlap_compute compute s | TComm \<Rightarrow> overlap_comm comm_fn s) of
        None \<Rightarrow> None
      | Some s' \<Rightarrow> overlap_sched compute comm_fn iters ts s')"

lemma overlap_sched_steps:
  "overlap_sched compute comm_fn iters ts s = Some s' \<Longrightarrow> (overlap_step compute comm_fn iters ^^ length ts) s s'"
proof (induction ts arbitrary: s)
  case (Cons t ts)
  then obtain s1 where s1: "overlap_step compute comm_fn iters s s1" "overlap_sched compute comm_fn iters ts s1 = Some s'"
    by (cases t) (auto split: option.splits intro: overlap_step.intros)
  from relpowp_Suc_I2 [OF s1(1) Cons.IH [OF s1(2)]] show ?case by simp
qed simp

section \<open>What a run does\<close>

definition err_of :: "'a result \<Rightarrow> py_error option" where
  "err_of r = (case r of Inl e \<Rightarrow> Some e | Inr _ \<Rightarrow> None)"

text \<open>What the communication task of an iteration ends with.\<close>

definition comm_err :: "(int \<Rightarrow> 'a result) \<Rightarrow> (int \<Rightarrow> 'a \<Rightarrow> py_error option) \<Rightarrow> int \<Rightarrow> py_error option" where
  "comm_err compute comm_fn i = (case compute i of Inl e \<Rightarrow> Some e | Inr v \<Rightarrow> comm_fn i v)"

definition overlap_result :: "(int \<Rightarrow> 'a result) \<Rightarrow> (int \<Rightarrow> 'a \<Rightarrow> py_error option) \<Rightarrow> int \<Rightarrow> (int \<times> int) result" where
  "overlap_result compute comm_fn iters =
     (case first_error (map (\<lambda>i. (i, err_of (compute i))) (urange iters)) of
        Some e \<Rightarrow> Inl e
      | None \<Rightarrow> (case first_error (map (\<lambda>i. (i, comm_err compute comm_fn i)) (urange iters)) of
                   Some e \<Rightarrow> Inl e | None \<Rightarrow> Inr (iters, iters)))"

definition computed_events :: "(int \<Rightarrow> 'a result) \<Rightarrow> int \<Rightarrow> 'a Event list" where
  "computed_events compute n = map (\<lambda>i. Computed i (compute i)) (urange n)"

definition comm_events :: "(int \<Rightarrow> 'a result) \<Rightarrow> (int \<Rightarrow> 'a \<Rightarrow> py_error option) \<Rightarrow> int \<Rightarrow> 'a Event list" where
  "comm_events compute comm_fn n =
     concat (map (\<lambda>i. case compute i of Inr v \<Rightarrow> [Communicated i v (comm_fn i v)] | Inl _ \<Rightarrow> []) (urange n))"

fun is_computed :: "'a Event \<Rightarrow> bool" where
  "is_computed (Computed i r) = True"
| "is_computed (Communicated i v r) = False"

text \<open>A value is communicated only after the computation that produced it.\<close>

definition comm_after_compute :: "'a Event list \<Rightarrow> bool" where
  "comm_after_compute l \<longleftrightarrow> (\<forall>p < length l. \<forall>i v r. l ! p = Communicated i v r \<longrightarrow> (\<exists>q < p. l ! q = Computed i (Inr v)))"

section \<open>The invariant\<close>

fun pc_subs :: "int \<Rightarrow> OverlapPc \<Rightarrow> nat \<times> nat" where
  "pc_subs iters (OLoop i) = (nat i, nat i)"
| "pc_subs iters (OComm i) = (nat i + 1, nat i)"
| "pc_subs iters pc = (nat iters, nat iters)"

fun pc_waits :: "OverlapPc \<Rightarrow> bool \<times> bool" where
  "pc_waits (OWaitComm f) = (True, False)"
| "pc_waits (OEnd r) = (True, True)"
| "pc_waits pc = (False, False)"

definition lane :: "(int \<Rightarrow> py_error option) \<Rightarrow> nat \<Rightarrow> bool \<Rightarrow> int Stream \<Rightarrow> int Hist \<Rightarrow> bool" where
  "lane out n waited s h \<longleftrightarrow> stream_inv s h \<and> \<not> sm_stop s \<and> h_subs h = map int [0..<n]
     \<and> h_called h = map (\<lambda>i. (int i, out (int i))) [0..<length (h_called h)]
     \<and> h_waited h = (if waited then n else 0) \<and> (waited \<longrightarrow> wait s = Some (None, s))"

definition overlap_inv ::
  "(int \<Rightarrow> 'a result) \<Rightarrow> (int \<Rightarrow> 'a \<Rightarrow> py_error option) \<Rightarrow> int \<Rightarrow> 'a Overlap \<Rightarrow> bool" where
  "overlap_inv compute comm_fn iters s \<longleftrightarrow>
     (let x = length (h_called (ov_compute_hist s)); y = length (h_called (ov_comm_hist s)); l = ow_log (ov_world s) in
      lane (\<lambda>i. err_of (compute i)) (fst (pc_subs iters (ov_pc s))) (fst (pc_waits (ov_pc s))) (ov_compute s) (ov_compute_hist s)
      \<and> lane (comm_err compute comm_fn) (snd (pc_subs iters (ov_pc s))) (snd (pc_waits (ov_pc s))) (ov_comm s) (ov_comm_hist s)
      \<and> (\<forall>i. ow_ready (ov_world s) i = (if 0 \<le> i \<and> i < int x then Some (compute i) else None))
      \<and> filter is_computed l = computed_events compute (int x)
      \<and> filter (\<lambda>e. \<not> is_computed e) l = comm_events compute comm_fn (int y)
      \<and> comm_after_compute l
      \<and> (case ov_pc s of
           OLoop i \<Rightarrow> 0 \<le> i \<and> i \<le> max 0 iters
         | OComm i \<Rightarrow> 0 \<le> i \<and> i < iters
         | OWaitCompute \<Rightarrow> True
         | OWaitComm f \<Rightarrow> f = first_error (map (\<lambda>i. (i, err_of (compute i))) (urange iters))
         | OEnd r \<Rightarrow> r = overlap_result compute comm_fn iters))"

lemma lane_submit:
  "lane out n False s h \<Longrightarrow> lane out (Suc n) False (submit (int n) s) (hist_submit (int n) h)"
  using stream_inv_submit [of s h "int n"] by (simp add: lane_def hist_submit_def submit_def)

lemma lane_called_le: "lane out n wt s h \<Longrightarrow> length (h_called h) \<le> n"
  unfolding lane_def stream_inv_def
  by (metis append.assoc diff_zero le_add1 length_append length_map length_upt)

lemma lane_idle:
  assumes "lane out n wt s h" "wait s = Some (f, s')"
  shows "length (h_called h) = n" "worker_left s = 0" "worker_step run s w = None"
proof -
  have i: "stream_inv s h" "\<not> sm_stop s" "h_subs h = map int [0..<n]" using assms(1) unfolding lane_def by blast+
  note w = wait_idle [OF i(1) assms(2)]
  show "length (h_called h) = n" using w(4) i(3) by (metis diff_zero length_map length_upt)
  show "worker_left s = 0" "worker_step run s w = None"
    using w(1,2) i(1,2) by (auto simp: worker_left_def worker_step_def busy_def stream_inv_def split: Worker.splits)
qed

lemma lane_wait:
  assumes "lane out n False s h" "wait s = Some (f, s')"
  shows "lane out n True s' (hist_wait h)" "f = first_error (map (\<lambda>i. (i, out i)) (map int [0..<n]))"
proof -
  have i: "stream_inv s h" "\<not> sm_stop s" "h_subs h = map int [0..<n]" "h_waited h = 0"
      "h_called h = map (\<lambda>i. (int i, out (int i))) [0..<length (h_called h)]"
    using assms(1) unfolding lane_def by (simp only: simp_thms if_False)+
  note w = wait_idle [OF i(1) assms(2)]
  have n: "length (h_called h) = n" by (rule lane_idle [OF assms])
  have s': "s' = s\<lparr>sm_failure := None\<rparr>" "sm_outstanding s = 0" using assms(2) by (auto simp: wait_def split: if_splits)
  show "f = first_error (map (\<lambda>i. (i, out i)) (map int [0..<n]))" using w(3) i(4,5) n by (simp add: comp_def)
  show "lane out n True s' (hist_wait h)"
    using stream_inv_wait [OF i(1) assms(2)] i(2,3,5) n s' unfolding lane_def by (simp add: hist_wait_def wait_def)
qed

text \<open>A worker step either calls the next task or leaves the calls and the shared state alone.\<close>

lemma lane_work:
  assumes "lane out n wt s h" "worker_step run s w = Some (s', w')"
    and "\<And>t r w'. run t w = Some (r, w') \<Longrightarrow> sm_worker s = WRunning t \<Longrightarrow> t = int (length (h_called h)) \<Longrightarrow> r = out t"
  shows "lane out n wt s' (note_call s s' h)" "0 < worker_left s"
    and "note_call s s' h = h \<and> w' = w
      \<or> (\<exists>t. t = int (length (h_called h)) \<and> length (h_called h) < n \<and> run t w = Some (out t, w')
          \<and> h_called (note_call s s' h) = h_called h @ [(t, out t)])"
proof -
  have i: "stream_inv s h" "\<not> sm_stop s" "h_subs h = map int [0..<n]"
      "h_called h = map (\<lambda>i. (int i, out (int i))) [0..<length (h_called h)]" "h_waited h = (if wt then n else 0)"
    using assms(1) unfolding lane_def by blast+
  have nw: "\<not> wt" using assms(1,2) lane_idle(3) [OF assms(1), of None s run w] unfolding lane_def by auto
  show left: "0 < worker_left s"
    using assms(2) i(2) by (auto simp: worker_left_def worker_step_def split: Worker.splits list.splits if_splits)
  have j: "stream_inv s' (note_call s s' h)" by (rule stream_inv_work [OF i(1) assms(2)])
  have stop: "\<not> sm_stop s'" using assms(2) i(2)
    by (auto simp: worker_step_def split: Worker.splits list.splits option.splits if_splits)
  show call: "note_call s s' h = h \<and> w' = w
      \<or> (\<exists>t. t = int (length (h_called h)) \<and> length (h_called h) < n \<and> run t w = Some (out t, w')
          \<and> h_called (note_call s s' h) = h_called h @ [(t, out t)])"
  proof (cases "sm_worker s")
    case (WRunning t)
    then obtain r where r: "run t w = Some (r, w')" "s' = s\<lparr>sm_worker := WRan r\<rparr>"
      using assms(2) by (auto simp: worker_step_def split: option.splits)
    have split: "map int [0..<n] = map fst (h_called h) @ t # sm_queue s"
      using i(1,3) WRunning by (simp add: stream_inv_def in_call_def)
    then have len: "n = length (h_called h) + Suc (length (sm_queue s))" by (metis diff_zero length_Cons length_append length_map length_upt)
    have "t = map int [0..<n] ! length (map fst (h_called h))" unfolding split nth_append_length ..
    moreover have lt: "length (h_called h) < n" using len by simp
    ultimately have t: "t = int (length (h_called h))" by simp
    then show ?thesis using assms(3) [OF r(1) WRunning t] r WRunning lt by (simp add: note_call_def)
  qed (use assms(2) in \<open>auto simp: worker_step_def note_call_def split: list.splits if_splits\<close>)
  have "h_subs (note_call s s' h) = h_subs h" "h_waited (note_call s s' h) = h_waited h"
    by (simp_all add: note_call_def split: Worker.splits)
  moreover have "h_called (note_call s s' h) = map (\<lambda>i. (int i, out (int i))) [0..<length (h_called (note_call s s' h))]"
    using call i(4) by auto
  ultimately show "lane out n wt s' (note_call s s' h)" using j stop i(3,5) nw unfolding lane_def by simp
qed

lemma comm_after_snoc:
  "comm_after_compute (l @ [e]) \<longleftrightarrow>
     comm_after_compute l \<and> (\<forall>i v r. e = Communicated i v r \<longrightarrow> Computed i (Inr v) \<in> set l)"
proof -
  have "(\<forall>p < length (l @ [e]). P p ((l @ [e]) ! p)) \<longleftrightarrow> (\<forall>p < length l. P p (l ! p)) \<and> P (length l) e" for P
    by (auto simp: nth_append less_Suc_eq)
  moreover have "(\<exists>q < p. (l @ [e]) ! q = a) \<longleftrightarrow> (\<exists>q < p. l ! q = a)" if "p \<le> length l" for p a
    using that by (metis nth_append order_less_le_trans)
  ultimately show ?thesis unfolding comm_after_compute_def in_set_conv_nth by (simp add: less_imp_le_nat)
qed

lemma urange_snoc: "0 \<le> n \<Longrightarrow> urange (1 + n) = urange n @ [n]"
  by (simp add: urange_def nat_add_distrib)

lemma events_snoc:
  "computed_events compute (1 + int n) = computed_events compute (int n) @ [Computed (int n) (compute (int n))]"
  "comm_events compute comm_fn (1 + int n) = comm_events compute comm_fn (int n) @
     (case compute (int n) of Inr v \<Rightarrow> [Communicated (int n) v (comm_fn (int n) v)] | Inl _ \<Rightarrow> [])"
  by (simp_all add: computed_events_def comm_events_def urange_snoc)

lemma overlap_compute_inv:
  assumes "overlap_inv compute comm_fn iters s" "overlap_compute compute s = Some s'"
  shows "overlap_inv compute comm_fn iters s'"
proof -
  let ?out = "\<lambda>i. err_of (compute i)" and ?h = "ov_compute_hist s" and ?w = "ov_world s"
  obtain st w where st: "worker_step (do_compute compute) (ov_compute s) ?w = Some (st, w)"
      "s' = s\<lparr>ov_compute := st, ov_world := w, ov_compute_hist := note_call (ov_compute s) st ?h\<rparr>"
    using assms(2) by (auto simp: overlap_compute_def split: option.splits)
  have i: "lane ?out (fst (pc_subs iters (ov_pc s))) (fst (pc_waits (ov_pc s))) (ov_compute s) ?h"
      "filter is_computed (ow_log ?w) = computed_events compute (int (length (h_called ?h)))"
    using assms(1) unfolding overlap_inv_def Let_def by blast+
  have run: "do_compute compute t ?w = Some (?out t, ?w\<lparr>ow_ready := (ow_ready ?w)(t \<mapsto> compute t), ow_log := ow_log ?w @ [Computed t (compute t)]\<rparr>)" for t
    by (cases "compute t") (simp_all add: do_compute_def err_of_def Let_def)
  note lw = lane_work [OF i(1) st(1)]
  have lane: "lane ?out (fst (pc_subs iters (ov_pc s))) (fst (pc_waits (ov_pc s))) st (note_call (ov_compute s) st ?h)"
    by (rule lw(1)) (simp add: run)
  have "note_call (ov_compute s) st ?h = ?h \<and> w = ?w
      \<or> (\<exists>t. t = int (length (h_called ?h)) \<and> w = ?w\<lparr>ow_ready := (ow_ready ?w)(t \<mapsto> compute t), ow_log := ow_log ?w @ [Computed t (compute t)]\<rparr>
          \<and> h_called (note_call (ov_compute s) st ?h) = h_called ?h @ [(t, ?out t)])"
    using lw(3) run by fastforce
  then show ?thesis using assms(1) lane st(2)
    by (elim disjE) (auto simp: overlap_inv_def Let_def events_snoc comm_after_snoc)
qed

lemma overlap_comm_inv:
  assumes "overlap_inv compute comm_fn iters s" "overlap_comm comm_fn s = Some s'"
  shows "overlap_inv compute comm_fn iters s'"
proof -
  let ?out = "comm_err compute comm_fn" and ?h = "ov_comm_hist s" and ?w = "ov_world s"
  let ?x = "length (h_called (ov_compute_hist s))"
  obtain st w where st: "worker_step (do_comm comm_fn) (ov_comm s) ?w = Some (st, w)"
      "s' = s\<lparr>ov_comm := st, ov_world := w, ov_comm_hist := note_call (ov_comm s) st ?h\<rparr>"
    using assms(2) by (auto simp: overlap_comm_def split: option.splits)
  have i: "lane ?out (snd (pc_subs iters (ov_pc s))) (snd (pc_waits (ov_pc s))) (ov_comm s) ?h"
      "\<And>i. ow_ready ?w i = (if 0 \<le> i \<and> i < int ?x then Some (compute i) else None)"
      "filter is_computed (ow_log ?w) = computed_events compute (int ?x)"
    using assms(1) unfolding overlap_inv_def Let_def by blast+
  have run: "do_comm comm_fn t ?w = Some (r, w') \<Longrightarrow> 0 \<le> t \<and> t < int ?x \<and> r = ?out t \<and> w' =
      (case compute t of Inl e \<Rightarrow> ?w | Inr v \<Rightarrow> ?w\<lparr>ow_log := ow_log ?w @ [Communicated t v (comm_fn t v)]\<rparr>)" for t r w'
    by (cases "compute t") (auto simp: do_comm_def i(2) comm_err_def split: if_splits)
  note lw = lane_work [OF i(1) st(1)]
  have lane: "lane ?out (snd (pc_subs iters (ov_pc s))) (snd (pc_waits (ov_pc s))) st (note_call (ov_comm s) st ?h)"
    by (rule lw(1)) (use run in blast)
  have seen: "Computed t (compute t) \<in> set (ow_log ?w)" if "0 \<le> t" "t < int ?x" for t
  proof -
    have "Computed t (compute t) \<in> set (filter is_computed (ow_log ?w))" unfolding i(3) computed_events_def using that by simp
    then show ?thesis by simp
  qed
  have "note_call (ov_comm s) st ?h = ?h \<and> w = ?w
      \<or> (\<exists>t. t = int (length (h_called ?h)) \<and> t < int ?x \<and> w =
          (case compute t of Inl e \<Rightarrow> ?w | Inr v \<Rightarrow> ?w\<lparr>ow_log := ow_log ?w @ [Communicated t v (comm_fn t v)]\<rparr>)
          \<and> h_called (note_call (ov_comm s) st ?h) = h_called ?h @ [(t, ?out t)])"
    using lw(3) run by blast
  then show ?thesis
  proof (elim disjE exE conjE)
    fix t assume t: "t = int (length (h_called ?h))" "t < int ?x"
      "w = (case compute t of Inl e \<Rightarrow> ?w | Inr v \<Rightarrow> ?w\<lparr>ow_log := ow_log ?w @ [Communicated t v (comm_fn t v)]\<rparr>)"
      "h_called (note_call (ov_comm s) st ?h) = h_called ?h @ [(t, ?out t)]"
    show ?thesis using assms(1) lane st(2) t seen [of t]
      by (cases "compute t") (auto simp: overlap_inv_def Let_def events_snoc comm_after_snoc)
  qed (use assms(1) lane st(2) in \<open>auto simp: overlap_inv_def Let_def\<close>)
qed

lemma overlap_main_inv:
  assumes "overlap_inv compute comm_fn iters s" "overlap_main iters s = Some s'"
  shows "overlap_inv compute comm_fn iters s'"
proof -
  let ?c = "\<lambda>i. err_of (compute i)" and ?m = "comm_err compute comm_fn"
  have i: "lane ?c (fst (pc_subs iters (ov_pc s))) (fst (pc_waits (ov_pc s))) (ov_compute s) (ov_compute_hist s)"
      "lane ?m (snd (pc_subs iters (ov_pc s))) (snd (pc_waits (ov_pc s))) (ov_comm s) (ov_comm_hist s)"
    using assms(1) unfolding overlap_inv_def Let_def by blast+
  show ?thesis
  proof (cases "ov_pc s")
    case (OLoop i)
    then have "0 \<le> i" "i \<le> max 0 iters" using assms(1) by (auto simp: overlap_inv_def Let_def)
    moreover from this have "nat iters = nat i" if "\<not> i < iters" using that by auto
    ultimately show ?thesis using assms OLoop i lane_submit [of ?c "nat i"]
      by (cases "i < iters") (auto simp: overlap_inv_def overlap_main_def Let_def hist_submit_def)
  next
    case (OComm i)
    then have "0 \<le> i" "i < iters" using assms(1) by (auto simp: overlap_inv_def Let_def)
    then show ?thesis using assms OComm i lane_submit [of ?m "nat i"]
      by (auto simp: overlap_inv_def overlap_main_def Let_def hist_submit_def nat_add_distrib)
  next
    case OWaitCompute
    then obtain f st where w: "wait (ov_compute s) = Some (f, st)"
        "s' = s\<lparr>ov_pc := OWaitComm f, ov_compute := st, ov_compute_hist := hist_wait (ov_compute_hist s)\<rparr>"
      using assms(2) by (auto simp: overlap_main_def split: option.splits)
    then show ?thesis using assms(1) OWaitCompute i lane_wait [OF _ w(1), of ?c "nat iters" "ov_compute_hist s"]
      by (auto simp: overlap_inv_def Let_def hist_wait_def urange_def)
  next
    case (OWaitComm g)
    then obtain f st where w: "wait (ov_comm s) = Some (f, st)"
        "s' = s\<lparr>ov_pc := OEnd (case (case g of None \<Rightarrow> f | Some e \<Rightarrow> Some e) of None \<Rightarrow> Inr (iters, iters) | Some e \<Rightarrow> Inl e),
           ov_comm := st, ov_comm_hist := hist_wait (ov_comm_hist s)\<rparr>"
      using assms(2) by (auto simp: overlap_main_def Let_def split: option.splits)
    have "g = first_error (map (\<lambda>i. (i, ?c i)) (urange iters))" using assms(1) OWaitComm by (simp add: overlap_inv_def Let_def)
    moreover have "lane ?m (nat iters) True st (hist_wait (ov_comm_hist s))" "f = first_error (map (\<lambda>i. (i, ?m i)) (urange iters))"
      using lane_wait [OF _ w(1), of ?m "nat iters" "ov_comm_hist s"] i(2) OWaitComm by (auto simp: urange_def)
    ultimately show ?thesis using assms(1) OWaitComm w(2)
      by (auto simp: overlap_inv_def Let_def hist_wait_def overlap_result_def split: option.splits)
  qed (use assms(2) in \<open>simp add: overlap_main_def\<close>)
qed

lemma overlap_inv_init: "overlap_inv compute comm_fn iters new_overlap"
  using stream_inv_init
  by (auto simp: overlap_inv_def new_overlap_def lane_def new_hist_def new_stream_def computed_events_def comm_events_def
      comm_after_compute_def urange_def)

lemma overlap_step_inv:
  "overlap_step compute comm_fn iters s s' \<Longrightarrow> overlap_inv compute comm_fn iters s \<Longrightarrow> overlap_inv compute comm_fn iters s'"
  by (auto elim!: overlap_step.cases intro: overlap_main_inv overlap_compute_inv overlap_comm_inv)

section \<open>Progress\<close>

fun pc_count :: "int \<Rightarrow> OverlapPc \<Rightarrow> nat" where
  "pc_count iters (OLoop i) = 2 * nat i"
| "pc_count iters (OComm i) = 2 * nat i + 1"
| "pc_count iters OWaitCompute = 2 * nat iters + 1"
| "pc_count iters (OWaitComm f) = 2 * nat iters + 2"
| "pc_count iters (OEnd r) = 2 * nat iters + 3"

definition overlap_count :: "int \<Rightarrow> 'a Overlap \<Rightarrow> nat" where
  "overlap_count iters s = pc_count iters (ov_pc s) + 4 * fst (pc_subs iters (ov_pc s)) + 4 * snd (pc_subs iters (ov_pc s))"

definition overlap_left :: "'a Overlap \<Rightarrow> nat" where
  "overlap_left s = worker_left (ov_compute s) + worker_left (ov_comm s)"

lemma overlap_inv_lanes:
  assumes "overlap_inv compute comm_fn iters s"
  shows "lane (\<lambda>i. err_of (compute i)) (fst (pc_subs iters (ov_pc s))) (fst (pc_waits (ov_pc s))) (ov_compute s) (ov_compute_hist s)"
    "lane (comm_err compute comm_fn) (snd (pc_subs iters (ov_pc s))) (snd (pc_waits (ov_pc s))) (ov_comm s) (ov_comm_hist s)"
    "\<And>i. ow_ready (ov_world s) i = (if 0 \<le> i \<and> i < int (length (h_called (ov_compute_hist s))) then Some (compute i) else None)"
    "ov_pc s = OLoop i \<Longrightarrow> 0 \<le> i \<and> i \<le> max 0 iters" "ov_pc s = OComm i \<Longrightarrow> 0 \<le> i \<and> i < iters"
    "ov_pc s = OEnd r \<Longrightarrow> r = overlap_result compute comm_fn iters"
  using assms by (simp_all add: overlap_inv_def Let_def)

lemma lane_not_ended: "lane out n wt s h \<Longrightarrow> sm_worker s \<noteq> WEnded"
  unfolding lane_def stream_inv_def by blast

lemma lane_step_left:
  assumes "lane out n wt s h" "worker_step run s w = Some (s', w')"
  shows "worker_left s = Suc (worker_left s')"
proof -
  have "\<not> sm_stop s" using assms(1) unfolding lane_def by blast
  then have "0 < worker_left s"
    using assms(2) by (auto simp: worker_left_def worker_step_def split: Worker.splits list.splits if_splits)
  then show ?thesis using worker_left_step [OF assms(2)] by blast
qed

lemma overlap_count_step:
  assumes "overlap_inv compute comm_fn iters s" "overlap_step compute comm_fn iters s s'"
  shows "overlap_count iters s' + overlap_left s = Suc (overlap_count iters s + overlap_left s')"
  using assms(2)
proof cases
  case o_main
  note i = overlap_inv_lanes [OF assms(1)]
  have "worker_left (submit t st) = 4 + worker_left st" for t and st :: "int Stream" by (simp add: worker_left_def submit_def)
  moreover have "worker_left st' = worker_left st" if "wait st = Some (f, st')" for f and st st' :: "int Stream"
    using that by (auto simp: wait_def worker_left_def split: if_splits)
  ultimately show ?thesis using o_main i(4,5)
    by (cases "ov_pc s") (auto simp: overlap_main_def overlap_count_def overlap_left_def Let_def nat_add_distrib split: if_splits option.splits)
next
  case o_compute
  then show ?thesis using lane_step_left [OF overlap_inv_lanes(1) [OF assms(1)]]
    by (auto simp: overlap_compute_def overlap_count_def overlap_left_def split: option.splits)
next
  case o_comm
  then show ?thesis using lane_step_left [OF overlap_inv_lanes(2) [OF assms(1)]]
    by (auto simp: overlap_comm_def overlap_count_def overlap_left_def split: option.splits)
qed

lemma overlap_steps:
  assumes "(overlap_step compute comm_fn iters ^^ n) new_overlap s"
  shows "overlap_inv compute comm_fn iters s \<and> n + overlap_left s = overlap_count iters s"
  using assms
proof (induction n arbitrary: s)
  case 0
  then show ?case using overlap_inv_init by (auto simp: overlap_left_def overlap_count_def new_overlap_def worker_left_def new_stream_def)
next
  case (Suc n)
  then obtain t where t: "(overlap_step compute comm_fn iters ^^ n) new_overlap t" "overlap_step compute comm_fn iters t s"
    by (auto elim: relpowp_Suc_E)
  have i: "overlap_inv compute comm_fn iters t" "n + overlap_left t = overlap_count iters t" using Suc.IH [OF t(1)] by blast+
  show ?case using overlap_step_inv [OF t(2) i(1)] overlap_count_step [OF i(1) t(2)] i(2) by simp
qed

lemma lane_wait_or_left: "lane out n wt s h \<Longrightarrow> wait s = None \<Longrightarrow> 0 < worker_left s"
  by (auto simp: lane_def stream_inv_def wait_def worker_left_def busy_def split: Worker.splits if_splits)

lemma overlap_can_step:
  assumes i: "overlap_inv compute comm_fn iters s" and e: "\<And>r. ov_pc s \<noteq> OEnd r"
  shows "\<exists>s'. overlap_step compute comm_fn iters s s'"
proof (cases "overlap_main iters s")
  case (Some s')
  then show ?thesis by (blast intro: o_main)
next
  case None
  note l = overlap_inv_lanes [OF i]
  show ?thesis
  proof (cases "ov_pc s")
    case OWaitCompute
    then have "wait (ov_compute s) = None" using None by (auto simp: overlap_main_def split: option.splits)
    then have "0 < worker_left (ov_compute s)" by (rule lane_wait_or_left [OF l(1)])
    moreover have "do_compute compute t w \<noteq> None" for t w by (cases "compute t") (simp_all add: do_compute_def Let_def)
    ultimately obtain st where "worker_step (do_compute compute) (ov_compute s) (ov_world s) = Some st"
      using worker_can_step [where run = "do_compute compute", OF _ lane_not_ended [OF l(1)]] by blast
    then have "overlap_compute compute s \<noteq> None" by (cases st) (simp add: overlap_compute_def)
    then show ?thesis by (blast intro: o_compute)
  next
    case (OWaitComm f)
    then have "wait (ov_comm s) = None" using None by (auto simp: overlap_main_def Let_def split: option.splits)
    then have left: "0 < worker_left (ov_comm s)" by (rule lane_wait_or_left [OF l(2)])
    have "wait (ov_compute s) = Some (None, ov_compute s)" using l(1) OWaitComm unfolding lane_def by simp
    then have x: "length (h_called (ov_compute_hist s)) = nat iters" using lane_idle(1) [OF l(1)] OWaitComm by simp
    have "do_comm comm_fn t (ov_world s) \<noteq> None" if "sm_worker (ov_comm s) = WRunning t" for t
    proof -
      have "t \<in> set (h_subs (ov_comm_hist s))" using l(2) that by (simp add: lane_def stream_inv_def in_call_def)
      then have "0 \<le> t" "t < int (nat iters)" using l(2) OWaitComm by (auto simp: lane_def)
      then show ?thesis using l(3) [of t] x by (simp add: do_comm_def split: sum.splits)
    qed
    then have "worker_step (do_comm comm_fn) (ov_comm s) (ov_world s) \<noteq> None"
      using left lane_not_ended [OF l(2)]
      by (auto simp: worker_step_def worker_left_def split: Worker.splits list.splits option.splits)
    then have "overlap_comm comm_fn s \<noteq> None" by (auto simp: overlap_comm_def)
    then show ?thesis by (blast intro: o_comm)
  qed (use None e in \<open>simp_all add: overlap_main_def\<close>)
qed

lemma overlap_count_bound:
  assumes "overlap_inv compute comm_fn iters s"
  shows "overlap_count iters s \<le> 10 * nat iters + 3" "overlap_count iters s = 10 * nat iters + 3 \<longleftrightarrow> (\<exists>r. ov_pc s = OEnd r)"
  using overlap_inv_lanes(4,5) [OF assms] by (cases "ov_pc s"; force simp: overlap_count_def)+

text \<open>
  C31: The overlap executor under every interleaving of the main thread and its two workers.  A run
  has at most 10 steps per iteration and 3 more, and until \<^verbatim>\<open>run\<close> has returned some thread can take a
  step.  When it has returned, it raised the first exception of \<^verbatim>\<open>compute\<close>, else the first of \<^verbatim>\<open>comm_fn\<close>, else it returned
  the two counts; \<^verbatim>\<open>compute\<close> was called for all iterations in order, \<^verbatim>\<open>comm_fn\<close> in order for exactly the
  iterations whose computation returned, with its value.  At every moment, a value has been communicated
  only after it was computed.
\<close>

theorem overlap_run_correct:
  assumes "(overlap_step compute comm_fn iters ^^ n) new_overlap s"
  shows "n \<le> 10 * nat iters + 3 \<and> comm_after_compute (ow_log (ov_world s))
    \<and> (case ov_pc s of
         OEnd r \<Rightarrow> n = 10 * nat iters + 3 \<and> r = overlap_result compute comm_fn iters
           \<and> filter is_computed (ow_log (ov_world s)) = computed_events compute iters
           \<and> filter (\<lambda>e. \<not> is_computed e) (ow_log (ov_world s)) = comm_events compute comm_fn iters
       | _ \<Rightarrow> \<exists>s'. overlap_step compute comm_fn iters s s')"
proof -
  have i: "overlap_inv compute comm_fn iters s" "n + overlap_left s = overlap_count iters s" using overlap_steps [OF assms] by blast+
  have log: "comm_after_compute (ow_log (ov_world s))"
      "filter is_computed (ow_log (ov_world s)) = computed_events compute (int (length (h_called (ov_compute_hist s))))"
      "filter (\<lambda>e. \<not> is_computed e) (ow_log (ov_world s)) = comm_events compute comm_fn (int (length (h_called (ov_comm_hist s))))"
    using i(1) unfolding overlap_inv_def Let_def by blast+
  have n: "n \<le> 10 * nat iters + 3" using overlap_count_bound(1) [OF i(1)] i(2) by simp
  show ?thesis
  proof (cases "\<exists>r. ov_pc s = OEnd r")
    case True
    then obtain r where r: "ov_pc s = OEnd r" by blast
    note l = overlap_inv_lanes [OF i(1)]
    have w: "wait (ov_compute s) = Some (None, ov_compute s)" "wait (ov_comm s) = Some (None, ov_comm s)"
      using l(1,2) r unfolding lane_def by simp_all
    have z: "overlap_left s = 0" "length (h_called (ov_compute_hist s)) = nat iters" "length (h_called (ov_comm_hist s)) = nat iters"
      using lane_idle(1,2) [OF l(1) w(1)] lane_idle(1,2) [OF l(2) w(2)] r by (simp_all add: overlap_left_def)
    have u: "urange (int (nat iters)) = urange iters" by (simp add: urange_def)
    show ?thesis using r log n l(6) [OF r] i(2) z u overlap_count_bound(2) [OF i(1)] True
      by (simp add: computed_events_def comm_events_def)
  next
    case False
    then show ?thesis using n log(1) overlap_can_step [OF i(1)] by (cases "ov_pc s") auto
  qed
qed

text \<open>Three iterations: the computation of iteration 1 raises, the communication of iteration 2 raises.\<close>

theorem overlap_run_correct_witness:
  "\<exists>s. (overlap_step (\<lambda>i. if i = 1 then Inl KeyError else Inr (10 * i)) (\<lambda>i v. if v = 20 then Some ValueError else None) 3 ^^ 33)
      new_overlap s
    \<and> ov_pc s = OEnd (Inl KeyError)
    \<and> filter (\<lambda>e. \<not> is_computed e) (ow_log (ov_world s)) = [Communicated 0 0 None, Communicated 2 20 (Some ValueError)]"
proof -
  let ?c = "\<lambda>i. if i = 1 then Inl KeyError else Inr (10 * i :: int)" and ?m = "\<lambda>i v. if v = 20 then Some ValueError else (None :: py_error option)"
  let ?ts = "[TMain, TMain, TComm, TCompute, TMain, TCompute, TComm, TCompute, TMain, TCompute, TCompute, TMain, TComm, TComm,
     TMain, TMain, TCompute, TCompute, TCompute, TComm, TComm, TComm, TComm, TCompute, TCompute, TCompute, TCompute, TMain,
     TComm, TComm, TComm, TComm, TMain]"
  have "(case overlap_sched ?c ?m 3 ?ts new_overlap of Some s \<Rightarrow> (case ov_pc s of OEnd _ \<Rightarrow> True | _ \<Rightarrow> False) | None \<Rightarrow> False)"
    by code_simp
  then obtain s r where s: "overlap_sched ?c ?m 3 ?ts new_overlap = Some s" "ov_pc s = OEnd r"
    by (auto split: option.splits OverlapPc.splits)
  have len: "length ?ts = 33" by simp
  have st: "(overlap_step ?c ?m 3 ^^ 33) new_overlap s" using overlap_sched_steps [OF s(1)] unfolding len .
  have "r = overlap_result ?c ?m 3" "filter (\<lambda>e. \<not> is_computed e) (ow_log (ov_world s)) = comm_events ?c ?m 3"
    using overlap_run_correct [OF st] unfolding s(2) by simp_all
  moreover have "overlap_result ?c ?m 3 = Inl KeyError" "comm_events ?c ?m 3 = [Communicated 0 0 None, Communicated 2 20 (Some ValueError)]"
    by code_simp+
  ultimately show ?thesis using st s(2) by (intro exI [of _ s]) simp
qed

end
