(* ===== verification/P2P_Gather.thy ===== *)
theory P2P_Gather
  imports Operator_IR "HOL-Library.Product_Lexorder"
begin

text \<open>
  The run-list gathers of \<^verbatim>\<open>comm.py\<close> and \<^verbatim>\<open>_fallback.py\<close>: argument checks, staging of one- and two-dimensional
  copy runs, and the copies as tasks that run at once or on a stream.

  Memory maps a byte address to a byte; an access to an unmapped address is \<^term>\<open>MemoryFault\<close>.
\<close>

section \<open>Arguments\<close>

text \<open>The destination array: what the code looks at of it, its address and its size in bytes.\<close>

record DstArray =
  da_uint8 :: bool
  da_contiguous :: bool
  da_writeable :: bool
  da_base :: int
  da_nbytes :: int

definition as_index :: "pyval \<Rightarrow> int result" where
  "as_index v =
     (case v of VInt i \<Rightarrow> if i < 0 then Inl ValueError else Inr i | _ \<Rightarrow> Inl TypeError)"

definition as_addrs :: "pyval list \<Rightarrow> int list result" where
  "as_addrs vs = mapr as_index vs"

definition as_counts :: "pyval list \<Rightarrow> int list result" where
  "as_counts vs = mapr as_index vs"

definition as_dst :: "DstArray \<Rightarrow> bool \<Rightarrow> DstArray result" where
  "as_dst dst writable =
     (if \<not> da_uint8 dst then Inl TypeError
      else if \<not> da_contiguous dst then Inl ValueError
      else if writable \<and> \<not> da_writeable dst then Inl ValueError
      else Inr dst)"

text \<open>\<^verbatim>\<open>from_buffer\<close> needs a writable buffer; its address is that of the array.\<close>

definition dst_buffer :: "DstArray \<Rightarrow> int result" where
  "dst_buffer dst = (if da_writeable dst then Inr (da_base dst) else Inl TypeError)"

section \<open>Staging\<close>

record StagedRun1D =
  s1_src :: int
  s1_dst_offset :: int
  s1_length :: int

definition stage_one :: "int \<Rightarrow> int \<Rightarrow> int \<times> int \<times> int \<Rightarrow> StagedRun1D list result" where
  "stage_one base capacity = (\<lambda>(s, off, len).
     if len = 0 then Inr []
     else if off > capacity \<or> capacity - off < len then Inl ValueError
     else if s = 0 then Inl ValueError
     else let d = base + off in
       if \<not> (s + len \<le> d \<or> s \<ge> d + len) then Inl ValueError
       else Inr [\<lparr>s1_src = s, s1_dst_offset = off, s1_length = len\<rparr>])"

fun spans_disjoint :: "(int \<times> int) list \<Rightarrow> bool" where
  "spans_disjoint (p # q # ps) = (\<not> snd p > fst q \<and> spans_disjoint (q # ps))"
| "spans_disjoint _ = True"

definition run_span :: "StagedRun1D \<Rightarrow> int \<times> int" where
  "run_span r = (s1_dst_offset r, s1_dst_offset r + s1_length r)"

definition stage_runs_1d :: "DstArray \<Rightarrow> int list \<Rightarrow> int list \<Rightarrow> int list \<Rightarrow> StagedRun1D list result" where
  "stage_runs_1d dst src_ptrs dst_offsets lengths =
     (if length dst_offsets \<noteq> length src_ptrs \<or> length lengths \<noteq> length src_ptrs then Inl ValueError
      else bindr (dst_buffer dst) (\<lambda>base.
        bindr (mapr (stage_one base (da_nbytes dst)) (zip src_ptrs (zip dst_offsets lengths))) (\<lambda>rss.
          let runs = concat rss in
          if spans_disjoint (sort (map run_span runs)) then Inr runs else Inl ValueError)))"

record Gather2DRun =
  g2_src :: int
  g2_src_stride :: int
  g2_dst_offset :: int
  g2_dst_stride :: int
  g2_width :: int
  g2_height :: int

text \<open>What a caller may put in a run list, and its normal form.\<close>

datatype run_arg = RunObj Gather2DRun | RunTuple "int list" | RunOther

definition unpack_run :: "run_arg \<Rightarrow> Gather2DRun result" where
  "unpack_run r =
     (case r of
        RunObj g \<Rightarrow> Inr g
      | RunTuple [a, b, c, d, e, f] \<Rightarrow>
          Inr \<lparr>g2_src = a, g2_src_stride = b, g2_dst_offset = c, g2_dst_stride = d, g2_width = e, g2_height = f\<rparr>
      | _ \<Rightarrow> Inl TypeError)"

definition stage_tile :: "int \<Rightarrow> Gather2DRun \<Rightarrow> Gather2DRun list result" where
  "stage_tile capacity g =
     (if g2_width g = 0 \<or> g2_height g = 0 then Inr []
      else if g2_width g > g2_src_stride g then Inl ValueError
      else if g2_width g > g2_dst_stride g then Inl ValueError
      else if g2_src g = 0 then Inl ValueError
      else let off = g2_dst_offset g in
        if off > capacity then Inl ValueError
        else let rows = g2_height g - 1 in
          bindr (py_floordiv (capacity - off) (g2_dst_stride g)) (\<lambda>q.
            if rows > q then Inl ValueError
            else let row_span = rows * g2_dst_stride g in
              if g2_width g > capacity - off - row_span then Inl ValueError
              else Inr [g]))"

definition stage_runs_2d :: "DstArray \<Rightarrow> Gather2DRun list \<Rightarrow> Gather2DRun list result" where
  "stage_runs_2d dst runs = bindr (mapr (stage_tile (da_nbytes dst)) runs) (\<lambda>rss. Inr (concat rss))"

section \<open>Copies\<close>

type_synonym 'b bytes = "int \<Rightarrow> 'b option"

text \<open>
  \<^verbatim>\<open>memmove(d, s, n)\<close>: the source is read before the destination is written.  A negative size is a huge unsigned
  one to the C function.
\<close>

record Copy =
  cp_dst :: int
  cp_src :: int
  cp_len :: int

definition memmove :: "Copy \<Rightarrow> 'b bytes \<Rightarrow> 'b bytes result" where
  "memmove c m =
     (if 0 \<le> cp_len c \<and> list_all (\<lambda>k. m (cp_src c + k) \<noteq> None \<and> m (cp_dst c + k) \<noteq> None) (urange (cp_len c))
      then Inr (\<lambda>a. if cp_dst c \<le> a \<and> a < cp_dst c + cp_len c then m (cp_src c + (a - cp_dst c)) else m a)
      else Inl MemoryFault)"

definition run_copies :: "Copy list \<Rightarrow> 'b bytes \<Rightarrow> 'b bytes result" where
  "run_copies cs m = foldr_res (\<lambda>m c. memmove c m) m cs"

text \<open>
  The tasks a gather consists of, each a list of copies: run one after the other when no stream is
  given, else submitted to the stream in this order.
\<close>

definition copy_of_run :: "int \<Rightarrow> StagedRun1D \<Rightarrow> Copy" where
  "copy_of_run base r = \<lparr>cp_dst = base + s1_dst_offset r, cp_src = s1_src r, cp_len = s1_length r\<rparr>"

definition p2p_gather_runs :: "DstArray \<Rightarrow> pyval list \<Rightarrow> pyval list \<Rightarrow> pyval list \<Rightarrow> Copy list list result" where
  "p2p_gather_runs dst src_ptrs dst_offsets lengths =
     bindr (as_dst dst True) (\<lambda>dst.
     bindr (as_addrs src_ptrs) (\<lambda>ps. bindr (as_counts dst_offsets) (\<lambda>offs. bindr (as_counts lengths) (\<lambda>lens.
     bindr (stage_runs_1d dst ps offs lens) (\<lambda>staged.
     if staged = [] then Inr []
     else bindr (dst_buffer dst) (\<lambda>base. Inr [map (copy_of_run base) staged]))))))"

definition memcpy_peer_batch_async :: "DstArray \<Rightarrow> pyval list \<Rightarrow> pyval list \<Rightarrow> pyval list \<Rightarrow> Copy list list result" where
  "memcpy_peer_batch_async dst src_ptrs dst_offsets lengths =
     bindr (as_dst dst True) (\<lambda>dst.
     bindr (as_addrs src_ptrs) (\<lambda>ps. bindr (as_counts dst_offsets) (\<lambda>offs. bindr (as_counts lengths) (\<lambda>lens.
     bindr (stage_runs_1d dst ps offs lens) (\<lambda>staged.
     if staged = [] then Inr []
     else bindr (dst_buffer dst) (\<lambda>base. Inr (map (\<lambda>r. [copy_of_run base r]) staged)))))))"

definition tile_copies :: "int \<Rightarrow> Gather2DRun \<Rightarrow> Copy list" where
  "tile_copies base g =
     map (\<lambda>y. \<lparr>cp_dst = base + (g2_dst_offset g + y * g2_dst_stride g), cp_src = g2_src g + y * g2_src_stride g,
               cp_len = g2_width g\<rparr>) (urange (g2_height g))"

definition p2p_gather_runs_2d :: "DstArray \<Rightarrow> run_arg list \<Rightarrow> Copy list list result" where
  "p2p_gather_runs_2d dst runs =
     bindr (as_dst dst True) (\<lambda>dst.
     bindr (mapr unpack_run runs) (\<lambda>runs.
     bindr (stage_runs_2d dst runs) (\<lambda>staged.
     if staged = [] then Inr []
     else bindr (dst_buffer dst) (\<lambda>base. Inr [concat (map (tile_copies base) staged)]))))"

section \<open>What staging accepts\<close>

definition apart :: "int \<times> int \<Rightarrow> int \<times> int \<Rightarrow> bool" where
  "apart p q \<longleftrightarrow> snd p \<le> fst q \<or> snd q \<le> fst p"

lemma sorted_wrt_sym_perm:
  assumes "\<And>x y. D x y \<Longrightarrow> D y x" "mset xs = mset ys"
  shows "sorted_wrt D xs \<longleftrightarrow> sorted_wrt D ys"
proof -
  have all: "sorted_wrt D zs \<longleftrightarrow> (\<forall>x \<in># mset zs. \<forall>y \<in># mset zs - {#x#}. D x y)" for zs
  proof (induction zs)
    case (Cons z zs)
    have "(\<forall>x \<in># mset (z # zs). \<forall>y \<in># mset (z # zs) - {#x#}. D x y)
      \<longleftrightarrow> (\<forall>y \<in> set zs. D z y) \<and> (\<forall>x \<in> set zs. D x z) \<and> (\<forall>x \<in># mset zs. \<forall>y \<in># mset zs - {#x#}. D x y)"
      by (auto simp: multi_member_split dest!: multi_member_split split: if_splits)
    then show ?case using Cons assms(1) by auto
  qed simp
  show ?thesis unfolding all [of xs] all [of ys] assms(2) ..
qed

lemma spans_disjoint_apart:
  assumes "sorted xs" "\<forall>p \<in> set xs. fst p < snd p"
  shows "spans_disjoint xs \<longleftrightarrow> sorted_wrt apart xs"
  using assms
proof (induction xs rule: spans_disjoint.induct)
  case (1 p q ps)
  have le: "\<And>r. r \<in> set ps \<Longrightarrow> fst q \<le> fst r" "fst p \<le> fst q" "\<And>r. r \<in> set (p # q # ps) \<Longrightarrow> fst r < snd r"
    using 1(2,3) unfolding sorted2 sorted_simps less_eq_prod_def by fastforce+
  have IH: "spans_disjoint (q # ps) \<longleftrightarrow> sorted_wrt apart (q # ps)" using 1(2,3) by (intro 1(1)) simp_all
  have "apart p q \<longleftrightarrow> snd p \<le> fst q" using le(2) le(3) [of q] unfolding apart_def by auto
  moreover have "apart p r" if "snd p \<le> fst q" "r \<in> set ps" for r
    using that(1) le(1) [OF that(2)] unfolding apart_def by auto
  ultimately show ?case unfolding spans_disjoint.simps(1) IH by auto
qed simp_all

text \<open>The runs that copy something, in order.\<close>

definition live_runs :: "int list \<Rightarrow> int list \<Rightarrow> int list \<Rightarrow> StagedRun1D list" where
  "live_runs src_ptrs dst_offsets lengths =
     map (\<lambda>(s, off, len). \<lparr>s1_src = s, s1_dst_offset = off, s1_length = len\<rparr>)
       (filter (\<lambda>(s, off, len). len \<noteq> 0) (zip src_ptrs (zip dst_offsets lengths)))"

lemma live_run_nonneg:
  assumes "r \<in> set (live_runs src_ptrs dst_offsets lengths)"
  shows "s1_dst_offset r \<in> set dst_offsets" "s1_length r \<in> set lengths" "s1_length r \<noteq> 0"
proof -
  obtain s off len where z: "(s, off, len) \<in> set (zip src_ptrs (zip dst_offsets lengths))" "len \<noteq> 0"
      "r = \<lparr>s1_src = s, s1_dst_offset = off, s1_length = len\<rparr>"
    using assms unfolding live_runs_def by auto
  have "(off, len) \<in> set (zip dst_offsets lengths)" by (rule set_zip_rightD [OF z(1)])
  from set_zip_leftD [OF this] set_zip_rightD [OF this] z(2,3)
  show "s1_dst_offset r \<in> set dst_offsets" "s1_length r \<in> set lengths" "s1_length r \<noteq> 0" by simp_all
qed

definition run_legal :: "int \<Rightarrow> int \<Rightarrow> StagedRun1D \<Rightarrow> bool" where
  "run_legal base capacity r \<longleftrightarrow>
     s1_dst_offset r + s1_length r \<le> capacity \<and> s1_src r \<noteq> 0
     \<and> apart (s1_src r, s1_src r + s1_length r) (base + s1_dst_offset r, base + s1_dst_offset r + s1_length r)"

lemma stage_one_value:
  assumes "0 \<le> len"
  shows "stage_one base capacity (s, off, len) =
    (if len = 0 then Inr []
     else if run_legal base capacity \<lparr>s1_src = s, s1_dst_offset = off, s1_length = len\<rparr>
       then Inr [\<lparr>s1_src = s, s1_dst_offset = off, s1_length = len\<rparr>] else Inl ValueError)"
  using assms by (auto simp: stage_one_def run_legal_def apart_def Let_def)

lemma stage_all_value:
  assumes "\<forall>(s, off, len) \<in> set ts. 0 \<le> len"
  defines "live \<equiv> map (\<lambda>(s, off, len). \<lparr>s1_src = s, s1_dst_offset = off, s1_length = len\<rparr>) (filter (\<lambda>(s, off, len). len \<noteq> 0) ts)"
  shows "bindr (mapr (stage_one base capacity) ts) (\<lambda>rss. Inr (concat rss)) =
    (if list_all (run_legal base capacity) live then Inr live else Inl ValueError)"
  using assms(1) unfolding live_def
proof (induction ts)
  case (Cons t ts)
  obtain s off len where t: "t = (s, off, len)" by (cases t)
  let ?live = "map (\<lambda>(s, off, len). \<lparr>s1_src = s, s1_dst_offset = off, s1_length = len\<rparr>) (filter (\<lambda>(s, off, len). len \<noteq> 0) ts)"
  have IH: "bindr (mapr (stage_one base capacity) ts) (\<lambda>rss. Inr (concat rss)) =
      (if list_all (run_legal base capacity) ?live then Inr ?live else Inl ValueError)" using Cons by simp
  have v: "stage_one base capacity t = (if len = 0 then Inr []
     else if run_legal base capacity \<lparr>s1_src = s, s1_dst_offset = off, s1_length = len\<rparr>
       then Inr [\<lparr>s1_src = s, s1_dst_offset = off, s1_length = len\<rparr>] else Inl ValueError)"
    using stage_one_value Cons.prems unfolding t by auto
  show ?case
  proof (cases "mapr (stage_one base capacity) ts")
    case (Inl e)
    then show ?thesis using IH v t by (auto split: if_splits)
  next
    case (Inr rss)
    then show ?thesis using IH v t by (auto split: if_splits)
  qed
qed simp

lemma stage_runs_value:
  assumes "\<forall>l \<in> set lengths. 0 \<le> l" "length dst_offsets = length src_ptrs" "length lengths = length src_ptrs"
  defines "runs \<equiv> live_runs src_ptrs dst_offsets lengths"
  shows "stage_runs_1d dst src_ptrs dst_offsets lengths =
    (if \<not> da_writeable dst then Inl TypeError
     else if list_all (run_legal (da_base dst) (da_nbytes dst)) runs \<and> sorted_wrt apart (map run_span runs)
       then Inr runs else Inl ValueError)"
proof -
  let ?ts = "zip src_ptrs (zip dst_offsets lengths)"
  have "\<forall>(s, off, len) \<in> set ?ts. 0 \<le> len" using assms(1) by (auto dest!: set_zip_rightD)
  from stage_all_value [OF this] have v: "bindr (mapr (stage_one b c) ?ts) (\<lambda>rss. Inr (concat rss)) =
      (if list_all (run_legal b c) runs then Inr runs else Inl ValueError)" for b c
    unfolding runs_def live_runs_def .
  have "\<forall>r \<in> set runs. 0 < s1_length r" using assms(1)
    by (fastforce simp: runs_def live_runs_def dest!: set_zip_rightD)
  then have "\<forall>p \<in> set (sort (map run_span runs)). fst p < snd p" by (auto simp: run_span_def)
  then have d: "spans_disjoint (sort (map run_span runs)) \<longleftrightarrow> sorted_wrt apart (map run_span runs)"
    using spans_disjoint_apart [of "sort (map run_span runs)"]
      sorted_wrt_sym_perm [of apart "sort (map run_span runs)" "map run_span runs"] by (auto simp: apart_def)
  have "stage_runs_1d dst src_ptrs dst_offsets lengths = bindr (dst_buffer dst) (\<lambda>base.
      bindr (bindr (mapr (stage_one base (da_nbytes dst)) ?ts) (\<lambda>rss. Inr (concat rss))) (\<lambda>runs.
        if spans_disjoint (sort (map run_span runs)) then Inr runs else Inl ValueError))"
    using assms(2,3) by (simp add: stage_runs_1d_def Let_def bindr_assoc)
  then show ?thesis unfolding v using d by (simp add: dst_buffer_def)
qed

lemma as_index_all: "mapr as_index (map VInt is) = (if \<forall>i \<in> set is. 0 \<le> i then Inr is else Inl ValueError)"
  by (induction "is") (auto simp: as_index_def)

text \<open>Both gathers check their arguments in the same way and stage the same runs.\<close>

lemma gather_args_value:
  "bindr (as_dst dst True) (\<lambda>dst.
     bindr (as_addrs (map VInt ps)) (\<lambda>ps. bindr (as_counts (map VInt offs)) (\<lambda>offs. bindr (as_counts (map VInt lens)) (\<lambda>lens.
     bindr (stage_runs_1d dst ps offs lens) (K dst)))))  =
   (if \<not> da_uint8 dst then Inl TypeError
    else if da_contiguous dst \<and> da_writeable dst \<and> list_all (\<lambda>i. 0 \<le> i) (ps @ offs @ lens)
       \<and> length offs = length ps \<and> length lens = length ps
       \<and> list_all (run_legal (da_base dst) (da_nbytes dst)) (live_runs ps offs lens)
       \<and> sorted_wrt apart (map run_span (live_runs ps offs lens))
      then K dst (live_runs ps offs lens) else Inl ValueError)"
proof -
  note args = as_dst_def as_addrs_def as_counts_def as_index_all list_all_iff
  show ?thesis
  proof (cases "length offs = length ps \<and> length lens = length ps")
    case True
    then show ?thesis using stage_runs_value [of lens offs ps dst] by (auto simp: args)
  next
    case False
    then have "stage_runs_1d dst ps offs lens = Inl ValueError" by (simp add: stage_runs_1d_def)
    then show ?thesis using False by (auto simp: args)
  qed
qed


section \<open>What the copies do\<close>

definition cp_target :: "Copy \<Rightarrow> int \<times> int" where
  "cp_target c = (cp_dst c, cp_dst c + cp_len c)"

definition cp_source :: "Copy \<Rightarrow> int \<times> int" where
  "cp_source c = (cp_src c, cp_src c + cp_len c)"

definition in_span :: "int \<times> int \<Rightarrow> int \<Rightarrow> bool" where
  "in_span p a \<longleftrightarrow> fst p \<le> a \<and> a < snd p"

definition mapped :: "'b bytes \<Rightarrow> int \<times> int \<Rightarrow> bool" where
  "mapped m p \<longleftrightarrow> (\<forall>a. in_span p a \<longrightarrow> m a \<noteq> None)"

lemma apart_span: "apart p q \<Longrightarrow> in_span p a \<Longrightarrow> \<not> in_span q a"
  by (auto simp: apart_def in_span_def)

lemma memmove_value:
  assumes "0 \<le> cp_len c" "mapped m (cp_source c)" "mapped m (cp_target c)"
  shows "memmove c m = Inr (\<lambda>a. if in_span (cp_target c) a then m (cp_src c + (a - cp_dst c)) else m a)"
  using assms by (auto simp: memmove_def list_all_iff mapped_def in_span_def cp_target_def cp_source_def fun_eq_iff)

lemma run_copies_value:
  assumes "\<And>c. c \<in> set cs \<Longrightarrow> 0 \<le> cp_len c \<and> mapped m (cp_source c) \<and> mapped m (cp_target c)"
    and "\<And>c d. c \<in> set cs \<Longrightarrow> d \<in> set cs \<Longrightarrow> apart (cp_source c) (cp_target d)"
    and "sorted_wrt apart (map cp_target cs)"
  shows "\<exists>m'. run_copies cs m = Inr m'
    \<and> (\<forall>c \<in> set cs. \<forall>a. in_span (cp_target c) a \<longrightarrow> m' a = m (cp_src c + (a - cp_dst c)))
    \<and> (\<forall>a. (\<forall>c \<in> set cs. \<not> in_span (cp_target c) a) \<longrightarrow> m' a = m a)"
  using assms
proof (induction cs arbitrary: m)
  case Nil
  then show ?case by (simp add: run_copies_def)
next
  case (Cons c cs)
  define m1 where "m1 = (\<lambda>a. if in_span (cp_target c) a then m (cp_src c + (a - cp_dst c)) else m a)"
  have mv: "memmove c m = Inr m1" unfolding m1_def using Cons.prems(1) by (intro memmove_value) simp_all
  have src: "m1 a = m a" if "d \<in> set cs" "in_span (cp_source d) a" for d a
    using apart_span [OF Cons.prems(2) that(2)] that(1) by (simp add: m1_def)
  have dst: "m1 a = m a" if "d \<in> set cs" "in_span (cp_target d) a" for d a
    using Cons.prems(3) that apart_span [of "cp_target c" "cp_target d" a] by (auto simp: m1_def)
  have ok: "0 \<le> cp_len d \<and> mapped m1 (cp_source d) \<and> mapped m1 (cp_target d)" if "d \<in> set cs" for d
    using Cons.prems(1) [of d] that src [OF that] dst [OF that] by (simp add: mapped_def)
  obtain m' where m': "run_copies cs m1 = Inr m'"
      "\<And>d a. d \<in> set cs \<Longrightarrow> in_span (cp_target d) a \<Longrightarrow> m' a = m1 (cp_src d + (a - cp_dst d))"
      "\<And>a. (\<forall>d \<in> set cs. \<not> in_span (cp_target d) a) \<Longrightarrow> m' a = m1 a"
    using Cons.IH [of m1, OF ok] Cons.prems(2,3) by auto
  have "run_copies (c # cs) m = Inr m'" using mv m'(1) by (simp add: run_copies_def)
  moreover have "m' a = m (cp_src d + (a - cp_dst d))" if d: "d \<in> set cs" "in_span (cp_target d) a" for d a
  proof -
    have "in_span (cp_source d) (cp_src d + (a - cp_dst d))" using d(2) by (simp add: in_span_def cp_source_def cp_target_def)
    then show ?thesis using m'(2) [OF d] src [OF d(1)] by simp
  qed
  moreover have "m' a = m (cp_src c + (a - cp_dst c))" if a: "in_span (cp_target c) a" for a
  proof -
    have "\<not> in_span (cp_target d) a" if "d \<in> set cs" for d
      using Cons.prems(3) that apart_span [OF _ a] by auto
    then show ?thesis using m'(3) [of a] a by (simp add: m1_def)
  qed
  moreover have "m' a = m a" if "\<forall>d \<in> set (c # cs). \<not> in_span (cp_target d) a" for a
    using m'(3) [of a] that by (simp add: m1_def)
  ultimately show ?case by (intro exI [of _ m']) auto
qed

text \<open>
  C33: Effect of a run-list gather.  When \<^verbatim>\<open>p2p_gather_runs\<close> accepts its arguments, the destination is mapped
  memory and every source range is mapped and lies outside the destination buffer, its copies succeed,
  put byte k of every source at byte k of its destination range, and change no other byte.
\<close>

theorem p2p_gather_copies:
  assumes "p2p_gather_runs dst (map VInt ps) (map VInt offs) (map VInt lens) = Inr tasks"
    and "mapped m (da_base dst, da_base dst + da_nbytes dst)"
    and "\<And>r. r \<in> set (live_runs ps offs lens) \<Longrightarrow> mapped m (s1_src r, s1_src r + s1_length r)
       \<and> apart (s1_src r, s1_src r + s1_length r) (da_base dst, da_base dst + da_nbytes dst)"
  shows "\<exists>m'. run_copies (concat tasks) m = Inr m'
    \<and> (\<forall>r \<in> set (live_runs ps offs lens). \<forall>k. 0 \<le> k \<and> k < s1_length r \<longrightarrow>
         m' (da_base dst + s1_dst_offset r + k) = m (s1_src r + k))
    \<and> (\<forall>a. (\<forall>r \<in> set (live_runs ps offs lens). \<not> in_span (run_span r) (a - da_base dst)) \<longrightarrow> m' a = m a)"
proof -
  let ?rs = "live_runs ps offs lens" and ?base = "da_base dst" and ?cs = "map (copy_of_run (da_base dst)) (live_runs ps offs lens)"
  have ok: "list_all (\<lambda>i. 0 \<le> i) (ps @ offs @ lens)" "list_all (run_legal ?base (da_nbytes dst)) ?rs" "sorted_wrt apart (map run_span ?rs)"
    and cs: "concat tasks = ?cs"
    using assms(1) unfolding p2p_gather_runs_def gather_args_value by (auto simp: dst_buffer_def split: if_splits)
  have pos: "0 \<le> s1_dst_offset r" "0 < s1_length r" if "r \<in> set ?rs" for r
    using live_run_nonneg [OF that] ok(1) unfolding list_all_iff by (auto simp: less_le)
  have tgt: "cp_target (copy_of_run ?base r) = (?base + s1_dst_offset r, ?base + s1_dst_offset r + s1_length r)"
    and src: "cp_source (copy_of_run ?base r) = (s1_src r, s1_src r + s1_length r)" for r
    by (simp_all add: cp_target_def cp_source_def copy_of_run_def)
  have inside: "?base \<le> fst (cp_target (copy_of_run ?base r))" "snd (cp_target (copy_of_run ?base r)) \<le> ?base + da_nbytes dst"
    if "r \<in> set ?rs" for r
    using ok(2) pos [OF that] that by (auto simp: list_all_iff run_legal_def tgt)
  have "\<exists>m'. run_copies ?cs m = Inr m'
    \<and> (\<forall>c \<in> set ?cs. \<forall>a. in_span (cp_target c) a \<longrightarrow> m' a = m (cp_src c + (a - cp_dst c)))
    \<and> (\<forall>a. (\<forall>c \<in> set ?cs. \<not> in_span (cp_target c) a) \<longrightarrow> m' a = m a)"
  proof (rule run_copies_value)
    fix c assume "c \<in> set ?cs"
    then obtain r where r: "r \<in> set ?rs" "c = copy_of_run ?base r" by auto
    have "mapped m (cp_target c)" using assms(2) inside [OF r(1)] unfolding r(2) mapped_def in_span_def by auto
    then show "0 \<le> cp_len c \<and> mapped m (cp_source c) \<and> mapped m (cp_target c)"
      using assms(3) [OF r(1)] pos [OF r(1)] unfolding r(2) src by (simp add: copy_of_run_def)
  next
    fix c d assume "c \<in> set ?cs" "d \<in> set ?cs"
    then obtain r q where r: "r \<in> set ?rs" "c = copy_of_run ?base r" "q \<in> set ?rs" "d = copy_of_run ?base q" by auto
    show "apart (cp_source c) (cp_target d)"
      using assms(3) [OF r(1)] inside [OF r(3)] unfolding r(2,4) src apart_def by auto
  next
    have "sorted_wrt (\<lambda>p q. apart (?base + fst p, ?base + snd p) (?base + fst q, ?base + snd q)) (map run_span ?rs)"
      by (rule sorted_wrt_mono_rel [OF _ ok(3)]) (simp add: apart_def)
    then show "sorted_wrt apart (map cp_target ?cs)" by (simp add: sorted_wrt_map tgt run_span_def add.assoc)
  qed
  then obtain m' where m': "run_copies ?cs m = Inr m'"
      "\<And>r a. r \<in> set ?rs \<Longrightarrow> in_span (cp_target (copy_of_run ?base r)) a \<Longrightarrow> m' a = m (s1_src r + (a - (?base + s1_dst_offset r)))"
      "\<And>a. (\<forall>r \<in> set ?rs. \<not> in_span (cp_target (copy_of_run ?base r)) a) \<Longrightarrow> m' a = m a"
    by (auto simp: copy_of_run_def)
  have sp: "in_span (cp_target (copy_of_run ?base r)) a \<longleftrightarrow> in_span (run_span r) (a - ?base)" for r a
    by (auto simp: in_span_def tgt run_span_def)
  have "m' (?base + s1_dst_offset r + k) = m (s1_src r + k)" if "r \<in> set ?rs" "0 \<le> k \<and> k < s1_length r" for r k
    using m'(2) [OF that(1), of "?base + s1_dst_offset r + k"] that(2) by (simp add: in_span_def tgt)
  then show ?thesis unfolding cs using m'(1,3) unfolding sp by blast
qed

text \<open>A destination of 6 bytes at address 100, sources at 10 and 20, one empty run.\<close>

definition demo_dst :: DstArray where
  "demo_dst = \<lparr>da_uint8 = True, da_contiguous = True, da_writeable = True, da_base = 100, da_nbytes = 6\<rparr>"

definition demo_bytes :: "int bytes" where
  "demo_bytes a = (if 0 \<le> a \<and> a < 200 then Some a else None)"

theorem p2p_gather_copies_witness:
  "\<exists>m'. run_copies (concat [[\<lparr>cp_dst = 104, cp_src = 10, cp_len = 2\<rparr>, \<lparr>cp_dst = 101, cp_src = 20, cp_len = 3\<rparr>]]) demo_bytes = Inr m'
     \<and> m' 105 = Some 11 \<and> m' 101 = Some 20 \<and> m' 103 = Some 22 \<and> m' 100 = Some 100"
proof -
  let ?ps = "[10, 7, 20]" and ?offs = "[4, 90, 1]" and ?lens = "[2, 0, 3]"
  let ?tasks = "[[\<lparr>cp_dst = 104, cp_src = 10, cp_len = 2\<rparr>, \<lparr>cp_dst = 101, cp_src = 20, cp_len = 3\<rparr>]]"
  have g: "p2p_gather_runs demo_dst (map VInt ?ps) (map VInt ?offs) (map VInt ?lens) = Inr ?tasks" by code_simp
  have l: "live_runs ?ps ?offs ?lens =
      [\<lparr>s1_src = 10, s1_dst_offset = 4, s1_length = 2\<rparr>, \<lparr>s1_src = 20, s1_dst_offset = 1, s1_length = 3\<rparr>]" by code_simp
  have "\<exists>m'. run_copies (concat ?tasks) demo_bytes = Inr m'
    \<and> (\<forall>r \<in> set (live_runs ?ps ?offs ?lens). \<forall>k. 0 \<le> k \<and> k < s1_length r \<longrightarrow>
         m' (da_base demo_dst + s1_dst_offset r + k) = demo_bytes (s1_src r + k))
    \<and> (\<forall>a. (\<forall>r \<in> set (live_runs ?ps ?offs ?lens). \<not> in_span (run_span r) (a - da_base demo_dst)) \<longrightarrow> m' a = demo_bytes a)"
    by (rule p2p_gather_copies [OF g]) (auto simp: l mapped_def in_span_def demo_bytes_def demo_dst_def apart_def)
  then obtain m' where m': "run_copies (concat ?tasks) demo_bytes = Inr m'"
      "\<And>k. 0 \<le> k \<and> k < 2 \<Longrightarrow> m' (104 + k) = demo_bytes (10 + k)" "\<And>k. 0 \<le> k \<and> k < 3 \<Longrightarrow> m' (101 + k) = demo_bytes (20 + k)"
      "m' 100 = demo_bytes 100"
    unfolding l by (auto simp: demo_dst_def in_span_def run_span_def)
  from m'(2) [of 1] m'(3) [of 0] m'(3) [of 2] m'(1,4) show ?thesis by (auto simp: demo_bytes_def)
qed

section \<open>Tiles\<close>

text \<open>
  C34: Bounds of two-dimensional runs.  For a tile with a destination offset that is not negative and at
  least one byte, staging accepts exactly the tiles whose rows fit their strides, whose source is not
  null and whose last byte is inside the destination; the capacity check divides instead of
  multiplying and loses nothing by it.  Every copy of an accepted tile then writes inside the
  destination.
\<close>

theorem stage_tile_exact:
  assumes "0 \<le> g2_dst_offset g" "0 < g2_width g" "0 < g2_height g"
  shows "stage_tile capacity g =
      (if g2_width g \<le> g2_src_stride g \<and> g2_width g \<le> g2_dst_stride g \<and> g2_src g \<noteq> 0
          \<and> g2_dst_offset g + (g2_height g - 1) * g2_dst_stride g + g2_width g \<le> capacity
       then Inr [g] else Inl ValueError)
    \<and> (stage_tile capacity g = Inr [g] \<longrightarrow>
        list_all (\<lambda>c. base \<le> cp_dst c \<and> cp_dst c + cp_len c \<le> base + capacity) (tile_copies base g))"
proof -
  let ?d = "g2_dst_stride g" and ?off = "g2_dst_offset g" and ?w = "g2_width g" and ?h = "g2_height g"
  have fits: "\<not> ?off > capacity \<and> \<not> ?h - 1 > (capacity - ?off) div ?d \<and> \<not> ?w > capacity - ?off - (?h - 1) * ?d
      \<longleftrightarrow> ?off + (?h - 1) * ?d + ?w \<le> capacity" if d: "?w \<le> ?d"
  proof -
    have pos: "0 < ?d" "0 \<le> (?h - 1) * ?d" using d assms by simp_all
    have "?h - 1 \<le> (capacity - ?off) div ?d \<longleftrightarrow> (?h - 1) * ?d \<le> capacity - ?off"
      using pos(1) by (rule int_le_div_iff)
    then show ?thesis using pos assms(2) by linarith
  qed
  have v: "stage_tile capacity g =
      (if ?w \<le> g2_src_stride g \<and> ?w \<le> ?d \<and> g2_src g \<noteq> 0 \<and> ?off + (?h - 1) * ?d + ?w \<le> capacity
       then Inr [g] else Inl ValueError)"
    using assms(2,3) fits by (auto simp: stage_tile_def Let_def py_floordiv_def)
  have "base + (?off + y * ?d) + ?w \<le> base + capacity \<and> base \<le> base + (?off + y * ?d)"
    if "?w \<le> ?d" "?off + (?h - 1) * ?d + ?w \<le> capacity" "0 \<le> y" "y < ?h" for y
  proof -
    have "y * ?d \<le> (?h - 1) * ?d" "0 \<le> y * ?d" using that assms by (auto intro!: mult_right_mono)
    then show ?thesis using that(2) assms(1) by linarith
  qed
  then show ?thesis unfolding v by (auto simp: list_all_iff tile_copies_def)
qed

theorem stage_tile_exact_witness:
  "stage_tile 20 \<lparr>g2_src = 64, g2_src_stride = 8, g2_dst_offset = 2, g2_dst_stride = 6, g2_width = 4, g2_height = 3\<rparr> =
     Inr [\<lparr>g2_src = 64, g2_src_stride = 8, g2_dst_offset = 2, g2_dst_stride = 6, g2_width = 4, g2_height = 3\<rparr>]
   \<and> stage_tile 17 \<lparr>g2_src = 64, g2_src_stride = 8, g2_dst_offset = 2, g2_dst_stride = 6, g2_width = 4, g2_height = 3\<rparr> = Inl ValueError"
  using stage_tile_exact [of "\<lparr>g2_src = 64, g2_src_stride = 8, g2_dst_offset = 2, g2_dst_stride = 6, g2_width = 4, g2_height = 3\<rparr>" 20]
    stage_tile_exact [of "\<lparr>g2_src = 64, g2_src_stride = 8, g2_dst_offset = 2, g2_dst_stride = 6, g2_width = 4, g2_height = 3\<rparr>" 17]
  by simp

text \<open>
  The two-dimensional entry point does not check signs: a tile with a negative offset is staged and
  its copy writes below the destination.
\<close>

lemma negative_offset_writes_outside:
  "p2p_gather_runs_2d demo_dst [RunTuple [10, 4, -4, 4, 4, 1]] = Inr [[\<lparr>cp_dst = 96, cp_src = 10, cp_len = 4\<rparr>]]"
  by code_simp

text \<open>Nor are tiles checked against each other: two tiles may write the same bytes.\<close>

lemma overlapping_tiles_accepted:
  "p2p_gather_runs_2d demo_dst [RunTuple [10, 4, 0, 4, 4, 1], RunTuple [20, 4, 2, 4, 4, 1]] =
     Inr [[\<lparr>cp_dst = 100, cp_src = 10, cp_len = 4\<rparr>, \<lparr>cp_dst = 102, cp_src = 20, cp_len = 4\<rparr>]]"
  by code_simp

text \<open>
  A source may lie in another run's destination: only a run's own ranges are compared, and the later
  run then copies what the earlier one wrote.
\<close>

lemma source_in_other_destination:
  "bindr (p2p_gather_runs demo_dst [VInt 10, VInt 100] [VInt 0, VInt 3] [VInt 2, VInt 2]) (\<lambda>ts.
     bindr (run_copies (concat ts) demo_bytes) (\<lambda>m'. Inr (m' 103, demo_bytes 100))) = Inr (Some 10, Some 100)"
  by code_simp

end
