(* ===== verification/KV_Pages.thy ===== *)
theory KV_Pages
  imports Prelude
begin

text \<open>
  The fused K/V layer gather and scatter of \<^verbatim>\<open>_fallback.py\<close> (entry points in \<^verbatim>\<open>comm.py\<close>): pool slots are packed
  into pages and pages are written back to slots, byte for byte.  The arrays of one call do not share
  memory.
\<close>

section \<open>Arrays\<close>

datatype KvDtype = DFloat16 | DUInt16 | DInt16 | DInt32 | DInt64 | DOther

definition KV_DTYPES :: "KvDtype list" where
  "KV_DTYPES = [DFloat16, DUInt16, DInt16]"

text \<open>An array of 2-byte elements with its bytes in memory order.\<close>

record 'b KvArray =
  ka_dtype :: KvDtype
  ka_shape :: "int list"
  ka_contiguous :: bool
  ka_writeable :: bool
  ka_bytes :: "'b list"

record SlotArray =
  sl_dtype :: KvDtype
  sl_shape :: "int list"
  sl_contiguous :: bool
  sl_ids :: "int list"

definition as_kv_array :: "'b KvArray \<Rightarrow> 'b KvArray result" where
  "as_kv_array x =
     (if ka_dtype x \<notin> set KV_DTYPES then Inl TypeError
      else if length (ka_shape x) \<noteq> 3 then Inl ValueError
      else if \<not> ka_contiguous x then Inl ValueError
      else Inr x)"

definition as_slot_ids :: "SlotArray \<Rightarrow> SlotArray result" where
  "as_slot_ids x =
     (if sl_dtype x \<notin> {DInt32, DInt64} then Inl TypeError
      else if length (sl_shape x) \<noteq> 2 then Inl ValueError
      else if \<not> sl_contiguous x then Inl ValueError
      else Inr x)"

text \<open>Row \<open>i\<close> of a byte array viewed as rows of \<open>sb\<close> bytes, and its replacement.\<close>

definition kv_row :: "int \<Rightarrow> 'b list \<Rightarrow> int \<Rightarrow> 'b list" where
  "kv_row sb bs i = take (nat sb) (drop (nat (i * sb)) bs)"

definition set_kv_row :: "int \<Rightarrow> 'b list \<Rightarrow> int \<Rightarrow> 'b list \<Rightarrow> 'b list" where
  "set_kv_row sb bs i r = take (nat (i * sb)) bs @ r @ drop (nat (i * sb) + nat sb) bs"

text \<open>\<^verbatim>\<open>a[ids] = rows\<close>: one row after the other.\<close>

definition set_kv_rows :: "int \<Rightarrow> (int \<times> 'b list) list \<Rightarrow> 'b list \<Rightarrow> 'b list" where
  "set_kv_rows sb irs bs = foldl (\<lambda>bs (i, r). set_kv_row sb bs i r) bs irs"

section \<open>Checks shared by both directions\<close>

text \<open>The shape and range checks, after the per-array checks; \<^term>\<open>None\<close> is the early return of an empty transfer.\<close>

definition kv_geometry :: "'b KvArray \<Rightarrow> SlotArray \<Rightarrow> 'b KvArray \<Rightarrow> bool \<Rightarrow> (int \<times> int list) option result" where
  "kv_geometry k slots pages unique =
     (case (ka_shape k, sl_shape slots) of
        ([num_slots, num_kv_heads, head_dim], [num_pages, page_size]) \<Rightarrow>
          if ka_shape pages \<noteq> [num_pages, page_size, 2, num_kv_heads, head_dim] then Inl ValueError
          else if num_pages = 0 then Inr None
          else if page_size = 0 then Inr None
          else if num_slots = 0 then Inl ValueError
          else if num_kv_heads = 0 \<or> head_dim = 0 then Inl ValueError
          else if \<exists>i \<in> set (sl_ids slots). i < 0 \<or> i \<ge> num_slots then Inl ValueError
          else if unique \<and> \<not> distinct (sl_ids slots) then Inl ValueError
          else Inr (Some (num_kv_heads * head_dim * 2, sl_ids slots))
      | _ \<Rightarrow> Inl ValueError)"

section \<open>Gather and scatter\<close>

definition kv_gather_layer ::
  "'b KvArray \<Rightarrow> 'b KvArray \<Rightarrow> SlotArray \<Rightarrow> 'b KvArray \<Rightarrow> 'b KvArray result" where
  "kv_gather_layer k_src v_src slot_ids dst =
     bindr (as_kv_array k_src) (\<lambda>k. bindr (as_kv_array v_src) (\<lambda>v. bindr (as_slot_ids slot_ids) (\<lambda>slots.
     if ka_dtype dst \<noteq> ka_dtype k then Inl TypeError
     else if length (ka_shape dst) \<noteq> 5 then Inl ValueError
     else if \<not> ka_contiguous dst then Inl ValueError
     else if \<not> ka_writeable dst then Inl ValueError
     else if ka_shape k \<noteq> ka_shape v then Inl ValueError
     else if ka_dtype k \<noteq> ka_dtype v then Inl TypeError
     else bindr (kv_geometry k slots dst False) (\<lambda>g.
       case g of
         None \<Rightarrow> Inr dst
       | Some (sb, ids) \<Rightarrow>
           let n = map int [0..<length ids];
               gathered_k = map (kv_row sb (ka_bytes k)) ids;
               gathered_v = map (kv_row sb (ka_bytes v)) ids;
               d = set_kv_rows sb (zip (map (\<lambda>i. 2 * i) n) gathered_k) (ka_bytes dst);
               d = set_kv_rows sb (zip (map (\<lambda>i. 2 * i + 1) n) gathered_v) d
           in Inr (dst\<lparr>ka_bytes := d\<rparr>)))))"

definition kv_scatter_layer ::
  "'b KvArray \<Rightarrow> 'b KvArray \<Rightarrow> SlotArray \<Rightarrow> 'b KvArray \<Rightarrow> ('b KvArray \<times> 'b KvArray) result" where
  "kv_scatter_layer k_dst v_dst slot_ids src =
     bindr (as_kv_array k_dst) (\<lambda>k. bindr (as_kv_array v_dst) (\<lambda>v. bindr (as_slot_ids slot_ids) (\<lambda>slots.
     if ka_dtype src \<noteq> ka_dtype k then Inl TypeError
     else if length (ka_shape src) \<noteq> 5 then Inl ValueError
     else if \<not> ka_contiguous src then Inl ValueError
     else if \<not> ka_writeable k then Inl ValueError
     else if \<not> ka_writeable v then Inl ValueError
     else if ka_shape k \<noteq> ka_shape v then Inl ValueError
     else if ka_dtype k \<noteq> ka_dtype v then Inl TypeError
     else bindr (kv_geometry k slots src True) (\<lambda>g.
       case g of
         None \<Rightarrow> Inr (k, v)
       | Some (sb, ids) \<Rightarrow>
           let n = map int [0..<length ids];
               k_rows = map (\<lambda>i. kv_row sb (ka_bytes src) (2 * i)) n;
               v_rows = map (\<lambda>i. kv_row sb (ka_bytes src) (2 * i + 1)) n
           in Inr (k\<lparr>ka_bytes := set_kv_rows sb (zip ids k_rows) (ka_bytes k)\<rparr>,
                   v\<lparr>ka_bytes := set_kv_rows sb (zip ids v_rows) (ka_bytes v)\<rparr>)))))"

section \<open>Rows\<close>

lemma row_nat: "kv_row (int q) bs (int n) = take q (drop (n * q) bs)"
  "set_kv_row (int q) bs (int n) r = take (n * q) bs @ r @ drop (n * q + q) bs"
  by (simp_all add: kv_row_def set_kv_row_def flip: of_nat_mult)

lemma row_bound: "n < N \<Longrightarrow> n * q + q \<le> N * (q :: nat)"
  using mult_le_mono1 [of "Suc n" N q] by simp

lemma length_row: "length bs = N * q \<Longrightarrow> n < N \<Longrightarrow> length (kv_row (int q) bs (int n)) = q"
  using row_bound [of n N q] by (simp add: row_nat)

lemma length_set_row: "length bs = N * q \<Longrightarrow> n < N \<Longrightarrow> length r = q \<Longrightarrow> length (set_kv_row (int q) bs (int n) r) = N * q"
  using row_bound [of n N q] by (simp add: row_nat)

lemma row_nth: "length bs = N * q \<Longrightarrow> n < N \<Longrightarrow> k < q \<Longrightarrow> kv_row (int q) bs (int n) ! k = bs ! (n * q + k)"
  using row_bound [of n N q] by (simp add: row_nat)

lemma set_row_nth:
  assumes "length bs = N * q" "n < N" "length r = q" "j < N" "k < q"
  shows "set_kv_row (int q) bs (int n) r ! (j * q + k) = (if j = n then r ! k else bs ! (j * q + k))"
proof -
  have b: "n * q + q \<le> N * q" "j * q + q \<le> N * q" using assms(2,4) by (simp_all add: row_bound)
  consider "j = n" | "j < n" | "n < j" by linarith
  then show ?thesis
  proof cases
    case 2
    then have "j * q + q \<le> n * q" by (rule row_bound)
    then show ?thesis using 2 b assms by (simp add: row_nat nth_append)
  next
    case 3
    then have "n * q + q \<le> j * q" by (rule row_bound)
    moreover from this have "\<not> j * q + k - n * q < q" by linarith
    ultimately show ?thesis using 3 b assms by (simp add: row_nat nth_append)
  qed (use b assms in \<open>simp add: row_nat nth_append\<close>)
qed

lemma row_set_row:
  assumes "length bs = N * q" "n < N" "length r = q" "j < N"
  shows "kv_row (int q) (set_kv_row (int q) bs (int n) r) (int j) = (if j = n then r else kv_row (int q) bs (int j))"
proof (rule nth_equalityI)
  have l: "length (set_kv_row (int q) bs (int n) r) = N * q" by (rule length_set_row [OF assms(1-3)])
  show "length (kv_row (int q) (set_kv_row (int q) bs (int n) r) (int j)) = length (if j = n then r else kv_row (int q) bs (int j))"
    using length_row [OF l assms(4)] length_row [OF assms(1,4)] assms(3) by simp
  fix k assume "k < length (kv_row (int q) (set_kv_row (int q) bs (int n) r) (int j))"
  then have k: "k < q" using length_row [OF l assms(4)] by simp
  show "kv_row (int q) (set_kv_row (int q) bs (int n) r) (int j) ! k = (if j = n then r else kv_row (int q) bs (int j)) ! k"
    using row_nth [OF l assms(4) k] row_nth [OF assms(1,4) k] set_row_nth [OF assms k] by simp
qed

text \<open>Bytes are determined by their rows.\<close>

lemma rows_eqI:
  assumes "length a = N * q" "length b = N * q" "\<And>j. j < N \<Longrightarrow> kv_row (int q) a (int j) = kv_row (int q) b (int j)"
  shows "a = b"
proof (rule nth_equalityI)
  fix i assume i: "i < length a"
  then have q: "0 < q" using assms(1) by (cases q) simp_all
  have j: "i div q < N" "i mod q < q" using i assms(1) q by (simp_all add: div_less_iff_less_mult)
  have "i = i div q * q + i mod q" by simp
  then show "a ! i = b ! i" using row_nth [OF assms(1) j] row_nth [OF assms(2) j] assms(3) [OF j(1)] by simp
qed (simp add: assms)

lemma set_rows_value:
  assumes "length bs = N * q" "\<And>i r. (i, r) \<in> set irs \<Longrightarrow> 0 \<le> i \<and> i < int N \<and> length r = q" "distinct (map fst irs)"
  shows "length (set_kv_rows (int q) irs bs) = N * q"
    and "j < N \<Longrightarrow> kv_row (int q) (set_kv_rows (int q) irs bs) (int j) =
      (case map_of irs (int j) of Some r \<Rightarrow> r | None \<Rightarrow> kv_row (int q) bs (int j))"
proof -
  have "length (set_kv_rows (int q) irs bs) = N * q \<and> (\<forall>j < N. kv_row (int q) (set_kv_rows (int q) irs bs) (int j) =
      (case map_of irs (int j) of Some r \<Rightarrow> r | None \<Rightarrow> kv_row (int q) bs (int j)))"
    using assms
  proof (induction irs arbitrary: bs)
    case Nil
    then show ?case by (simp add: set_kv_rows_def)
  next
    case (Cons ir irs)
    obtain n r where ir: "ir = (int n, r)" "n < N" "length r = q"
      using Cons.prems(2) [of "fst ir" "snd ir"] by (cases ir) (auto elim: nonneg_int_cases)
    let ?bs = "set_kv_row (int q) bs (int n) r"
    have l: "length ?bs = N * q" by (rule length_set_row [OF Cons.prems(1) ir(2,3)])
    have IH: "length (set_kv_rows (int q) irs ?bs) = N * q \<and> (\<forall>j < N. kv_row (int q) (set_kv_rows (int q) irs ?bs) (int j) =
        (case map_of irs (int j) of Some r \<Rightarrow> r | None \<Rightarrow> kv_row (int q) ?bs (int j)))"
      using Cons.prems(2,3) by (intro Cons.IH [OF l]) auto
    have s: "set_kv_rows (int q) (ir # irs) bs = set_kv_rows (int q) irs ?bs" by (simp add: set_kv_rows_def ir(1))
    have "map_of irs (int n) = None" using Cons.prems(3) ir(1) by (auto simp: map_of_eq_None_iff)
    then show ?case unfolding s using IH row_set_row [OF Cons.prems(1) ir(2,3)] ir(1) by (auto split: option.splits)
  qed
  then show "length (set_kv_rows (int q) irs bs) = N * q"
    and "j < N \<Longrightarrow> kv_row (int q) (set_kv_rows (int q) irs bs) (int j) =
      (case map_of irs (int j) of Some r \<Rightarrow> r | None \<Rightarrow> kv_row (int q) bs (int j))" by blast+
qed

section \<open>Transfers\<close>

definition kv_wf :: "'b KvArray \<Rightarrow> bool" where
  "kv_wf a \<longleftrightarrow> list_all (\<lambda>d. 0 \<le> d) (ka_shape a) \<and> int (length (ka_bytes a)) = 2 * prodl (ka_shape a)"

definition slots_wf :: "SlotArray \<Rightarrow> bool" where
  "slots_wf a \<longleftrightarrow> list_all (\<lambda>d. 0 \<le> d) (sl_shape a) \<and> int (length (sl_ids a)) = prodl (sl_shape a)"

definition slot_bytes :: "'b KvArray \<Rightarrow> int" where
  "slot_bytes a = 2 * prodl (tl (ka_shape a))"

definition num_slots :: "'b KvArray \<Rightarrow> int" where
  "num_slots a = hd (ka_shape a)"

text \<open>The pool keeps every slot outside a set.\<close>

definition same_slots_outside :: "int set \<Rightarrow> 'b KvArray \<Rightarrow> 'b KvArray \<Rightarrow> bool" where
  "same_slots_outside S a b \<longleftrightarrow>
     (\<forall>j. 0 \<le> j \<and> j < num_slots a \<and> j \<notin> S \<longrightarrow> kv_row (slot_bytes a) (ka_bytes a) j = kv_row (slot_bytes a) (ka_bytes b) j)"

definition same_layout :: "'b KvArray \<Rightarrow> 'b KvArray \<Rightarrow> bool" where
  "same_layout a b \<longleftrightarrow> ka_dtype a = ka_dtype b \<and> ka_shape a = ka_shape b \<and> ka_contiguous a = ka_contiguous b"

text \<open>What both directions check: the pools, the slot map and the pages fit together.\<close>

definition kv_args :: "'b KvArray \<Rightarrow> 'b KvArray \<Rightarrow> SlotArray \<Rightarrow> 'b KvArray \<Rightarrow> bool" where
  "kv_args k v slots pages \<longleftrightarrow>
     ka_dtype k \<in> set KV_DTYPES \<and> ka_dtype v = ka_dtype k \<and> ka_dtype pages = ka_dtype k
     \<and> ka_contiguous k \<and> ka_contiguous v \<and> ka_contiguous pages \<and> sl_contiguous slots \<and> sl_dtype slots \<in> {DInt32, DInt64}
     \<and> ka_shape v = ka_shape k \<and> length (ka_shape k) = 3 \<and> length (sl_shape slots) = 2
     \<and> ka_shape pages = sl_shape slots @ 2 # tl (ka_shape k)
     \<and> (0 \<in> set (sl_shape slots) \<or> 0 \<notin> set (ka_shape k) \<and> (\<forall>i \<in> set (sl_ids slots). 0 \<le> i \<and> i < num_slots k))"

lemma list3: "length xs = 3 \<Longrightarrow> \<exists>a b c. xs = [a, b, c]" and list2: "length ys = 2 \<Longrightarrow> \<exists>a b. ys = [a, b]"
  by (auto simp: numeral_3_eq_3 numeral_2_eq_2 length_Suc_conv)

lemma kv_geometry_value:
  assumes "length (ka_shape k) = 3" "length (sl_shape slots) = 2"
  shows "kv_geometry k slots pages unique =
    (if ka_shape pages = sl_shape slots @ 2 # tl (ka_shape k)
        \<and> (0 \<in> set (sl_shape slots) \<or> 0 \<notin> set (ka_shape k) \<and> (\<forall>i \<in> set (sl_ids slots). 0 \<le> i \<and> i < num_slots k)
             \<and> (unique \<longrightarrow> distinct (sl_ids slots)))
     then Inr (if 0 \<in> set (sl_shape slots) then None else Some (slot_bytes k, sl_ids slots))
     else Inl ValueError)"
proof -
  obtain n h d p q where sh: "ka_shape k = [n, h, d]" "sl_shape slots = [p, q]"
    using list3 [OF assms(1)] list2 [OF assms(2)] by blast
  show ?thesis by (auto simp: kv_geometry_def sh num_slots_def slot_bytes_def not_le not_less)
qed

lemma gather_ok_iff:
  "is_ok (kv_gather_layer k v slots dst) \<longleftrightarrow> kv_args k v slots dst \<and> ka_writeable dst"
proof (cases "length (ka_shape k) = 3 \<and> length (sl_shape slots) = 2")
  case True
  then show ?thesis
    using kv_geometry_value [of k slots dst False]
    by (auto simp: kv_gather_layer_def as_kv_array_def as_slot_ids_def kv_args_def split: if_splits option.splits)
next
  case False
  then show ?thesis by (auto simp: kv_gather_layer_def as_kv_array_def as_slot_ids_def kv_args_def)
qed

lemma kv_sizes:
  assumes "kv_args k v slots pages" "kv_wf k" "kv_wf v" "kv_wf pages" "slots_wf slots"
  obtains q N where "slot_bytes k = int q" "num_slots k = int N" "length (ka_bytes k) = N * q" "length (ka_bytes v) = N * q"
    "length (ka_bytes pages) = (2 * length (sl_ids slots)) * q"
proof -
  obtain n h d p q where sh: "ka_shape k = [n, h, d]" "sl_shape slots = [p, q]"
    using assms(1) list3 list2 unfolding kv_args_def by blast
  have sp: "ka_shape v = [n, h, d]" "ka_shape pages = [p, q, 2, h, d]" using assms(1) sh unfolding kv_args_def by simp_all
  have pos: "0 \<le> n" "0 \<le> h" "0 \<le> d" "int (length (sl_ids slots)) = p * q" using assms(2,5) sh by (simp_all add: kv_wf_def slots_wf_def)
  define sb where "sb = nat (2 * (h * d))"
  have sb: "2 * (h * d) = int sb" "slot_bytes k = int sb" "num_slots k = int (nat n)"
    using pos sh by (simp_all add: slot_bytes_def num_slots_def sb_def)
  have b: "int (length (ka_bytes k)) = int (nat n) * int sb" "int (length (ka_bytes v)) = int (nat n) * int sb"
      "int (length (ka_bytes pages)) = int (2 * length (sl_ids slots)) * int sb"
    using assms(2-4) sh sp pos unfolding sb(1) [symmetric] by (simp_all add: kv_wf_def algebra_simps)
  show ?thesis by (rule that [OF sb(2,3)]) (use b in \<open>simp_all only: of_nat_eq_iff flip: of_nat_mult\<close>)
qed

lemma zip_update_rows:
  assumes "length bs = N * q" "length rs = length ids" "distinct ids" "\<forall>i \<in> set ids. 0 \<le> i \<and> i < int N" "\<forall>r \<in> set rs. length r = q"
  shows "length (set_kv_rows (int q) (zip ids rs) bs) = N * q"
    "n < length ids \<Longrightarrow> kv_row (int q) (set_kv_rows (int q) (zip ids rs) bs) (ids ! n) = rs ! n"
    "0 \<le> j \<Longrightarrow> j < int N \<Longrightarrow> j \<notin> set ids \<Longrightarrow> kv_row (int q) (set_kv_rows (int q) (zip ids rs) bs) j = kv_row (int q) bs j"
proof -
  have p: "0 \<le> i \<and> i < int N \<and> length r = q" if "(i, r) \<in> set (zip ids rs)" for i r
    using assms(4,5) set_zip_leftD [OF that] set_zip_rightD [OF that] by blast
  have d: "distinct (map fst (zip ids rs))" using assms(2,3) by simp
  note v = set_rows_value [OF assms(1) p d]
  show "length (set_kv_rows (int q) (zip ids rs) bs) = N * q" by (rule v(1))
  show "kv_row (int q) (set_kv_rows (int q) (zip ids rs) bs) (ids ! n) = rs ! n" if n: "n < length ids"
  proof -
    have i: "0 \<le> ids ! n" "ids ! n < int N" using assms(4) n by auto
    then show ?thesis using v(2) [of "nat (ids ! n)"] map_of_zip_nth [of ids rs n] assms(2,3) n by simp
  qed
  show "kv_row (int q) (set_kv_rows (int q) (zip ids rs) bs) j = kv_row (int q) bs j" if "0 \<le> j" "j < int N" "j \<notin> set ids"
  proof -
    have "map_of (zip ids rs) j = None" using that(3) assms(2) by (simp add: map_of_zip_is_None)
    then show ?thesis using v(2) [of "nat j"] that by simp
  qed
qed

lemma slot_rows_length:
  assumes "length bs = N * q" "\<forall>i \<in> set ids. 0 \<le> i \<and> i < int N"
  shows "\<forall>r \<in> set (map (kv_row (int q) bs) ids). length r = q"
proof
  fix x assume "x \<in> set (map (kv_row (int q) bs) ids)"
  then obtain i where i: "i \<in> set ids" "x = kv_row (int q) bs i" by auto
  then have "i = int (nat i)" "nat i < N" using assms(2) by auto
  then show "length x = q" using length_row [OF assms(1)] i(2) by metis
qed

text \<open>The pages a gather returns: row \<open>2 n\<close> is the K row of slot \<open>n\<close> of the slot map, row \<open>2 n + 1\<close> its V row.\<close>

lemma kv_gather_value:
  assumes "kv_gather_layer k v slots dst = Inr d" "kv_wf k" "kv_wf v" "kv_wf dst" "slots_wf slots"
  shows "kv_args k v slots dst" "same_layout d dst" "ka_writeable d = ka_writeable dst" "length (ka_bytes d) = length (ka_bytes dst)"
    "n < length (sl_ids slots) \<Longrightarrow> kv_row (slot_bytes k) (ka_bytes d) (2 * int n) = kv_row (slot_bytes k) (ka_bytes k) (sl_ids slots ! n)"
    "n < length (sl_ids slots) \<Longrightarrow> kv_row (slot_bytes k) (ka_bytes d) (2 * int n + 1) = kv_row (slot_bytes k) (ka_bytes v) (sl_ids slots ! n)"
proof -
  let ?ids = "sl_ids slots"
  show a: "kv_args k v slots dst" using gather_ok_iff [of k v slots dst] assms(1) by simp
  obtain q N where z: "slot_bytes k = int q" "num_slots k = int N" "length (ka_bytes k) = N * q" "length (ka_bytes v) = N * q"
      "length (ka_bytes dst) = (2 * length ?ids) * q" by (rule kv_sizes [OF a assms(2-5)])
  have sh: "length (ka_shape k) = 3" "length (sl_shape slots) = 2" using a unfolding kv_args_def by blast+
  let ?es = "map (\<lambda>i. 2 * i) (map int [0..<length ?ids])" and ?os = "map (\<lambda>i. 2 * i + 1) (map int [0..<length ?ids])"
  let ?d1 = "set_kv_rows (int q) (zip ?es (map (kv_row (int q) (ka_bytes k)) ?ids)) (ka_bytes dst)"
  let ?d2 = "set_kv_rows (int q) (zip ?os (map (kv_row (int q) (ka_bytes v)) ?ids)) ?d1"
  have d: "d = (if 0 \<in> set (sl_shape slots) then dst else dst\<lparr>ka_bytes := ?d2\<rparr>)"
    using assms(1) kv_geometry_value [OF sh, of dst False] a z(1)
    unfolding kv_gather_layer_def as_kv_array_def as_slot_ids_def kv_args_def
    by (auto simp: Let_def split: if_splits)
  have e: "?ids = []" if "0 \<in> set (sl_shape slots)"
    using assms(5) list2 [OF sh(2)] that by (auto simp: slots_wf_def)
  have r: "\<forall>i \<in> set ?ids. 0 \<le> i \<and> i < int N"
  proof (cases "0 \<in> set (sl_shape slots)")
    case False
    then show ?thesis using a z(2) unfolding kv_args_def by simp
  qed (simp add: e)
  have inj: "distinct ?es" "distinct ?os" by (auto simp: distinct_map inj_on_def)
  have rng: "\<forall>i \<in> set ?es. 0 \<le> i \<and> i < int (2 * length ?ids)" "\<forall>i \<in> set ?os. 0 \<le> i \<and> i < int (2 * length ?ids)" by auto
  have l: "length (map f ?ids) = length ?es" "length (map f ?ids) = length ?os" for f :: "int \<Rightarrow> 'a list" by simp_all
  note u1 = zip_update_rows [OF z(5) l(1) inj(1) rng(1) slot_rows_length [OF z(3) r]]
  note u2 = zip_update_rows [OF u1(1) l(2) inj(2) rng(2) slot_rows_length [OF z(4) r]]
  show "same_layout d dst" "ka_writeable d = ka_writeable dst" unfolding d by (simp_all add: same_layout_def)
  show "length (ka_bytes d) = length (ka_bytes dst)" unfolding d using u2(1) z(5) by simp
  show "kv_row (slot_bytes k) (ka_bytes d) (2 * int n + 1) = kv_row (slot_bytes k) (ka_bytes v) (?ids ! n)" if n: "n < length ?ids"
    using u2(2) [of n] n e unfolding d by (auto simp: z(1))
  show "kv_row (slot_bytes k) (ka_bytes d) (2 * int n) = kv_row (slot_bytes k) (ka_bytes k) (?ids ! n)" if n: "n < length ?ids"
  proof -
    have "2 * int n \<notin> set ?os" by auto presburger
    then show ?thesis using u2(3) [of "2 * int n"] u1(2) [of n] n e unfolding d by (auto simp: z(1))
  qed
qed

lemma scatter_ok_iff:
  "is_ok (kv_scatter_layer k v slots src) \<longleftrightarrow>
     kv_args k v slots src \<and> ka_writeable k \<and> ka_writeable v \<and> (0 \<in> set (sl_shape slots) \<or> distinct (sl_ids slots))"
proof (cases "length (ka_shape k) = 3 \<and> length (sl_shape slots) = 2")
  case True
  then show ?thesis
    using kv_geometry_value [of k slots src True]
    by (auto simp: kv_scatter_layer_def as_kv_array_def as_slot_ids_def kv_args_def split: if_splits option.splits)
next
  case False
  then show ?thesis by (auto simp: kv_scatter_layer_def as_kv_array_def as_slot_ids_def kv_args_def)
qed

lemma page_rows_length:
  assumes "length bs = (2 * m) * q" "c \<in> {0, 1}"
  shows "\<forall>r \<in> set (map (\<lambda>i. kv_row (int q) bs (2 * i + c)) (map int [0..<m])). length r = q"
proof
  fix x assume "x \<in> set (map (\<lambda>i. kv_row (int q) bs (2 * i + c)) (map int [0..<m]))"
  then obtain n where n: "n < m" "x = kv_row (int q) bs (2 * int n + c)" by auto
  have "2 * int n + c = int (2 * n + nat c)" "2 * n + nat c < 2 * m" using n(1) assms(2) by auto
  then show "length x = q" using length_row [OF assms(1), of "2 * n + nat c"] n(2) by simp
qed

text \<open>The pools after a scatter: slot \<open>n\<close> of the slot map holds page rows \<open>2 n\<close> and \<open>2 n + 1\<close>, other slots are unchanged.\<close>

lemma kv_scatter_value:
  assumes "kv_scatter_layer k v slots src = Inr (k', v')" "kv_wf k" "kv_wf v" "kv_wf src" "slots_wf slots"
  shows "kv_args k v slots src" "\<exists>b. k' = k\<lparr>ka_bytes := b\<rparr> \<and> length b = length (ka_bytes k)"
    "\<exists>b. v' = v\<lparr>ka_bytes := b\<rparr> \<and> length b = length (ka_bytes v)"
    "n < length (sl_ids slots) \<Longrightarrow> kv_row (slot_bytes k) (ka_bytes k') (sl_ids slots ! n) = kv_row (slot_bytes k) (ka_bytes src) (2 * int n)"
    "n < length (sl_ids slots) \<Longrightarrow> kv_row (slot_bytes k) (ka_bytes v') (sl_ids slots ! n) = kv_row (slot_bytes k) (ka_bytes src) (2 * int n + 1)"
    "0 \<le> j \<Longrightarrow> j < num_slots k \<Longrightarrow> j \<notin> set (sl_ids slots) \<Longrightarrow>
       kv_row (slot_bytes k) (ka_bytes k') j = kv_row (slot_bytes k) (ka_bytes k) j
       \<and> kv_row (slot_bytes k) (ka_bytes v') j = kv_row (slot_bytes k) (ka_bytes v) j"
proof -
  let ?ids = "sl_ids slots"
  have ok: "kv_args k v slots src \<and> ka_writeable k \<and> ka_writeable v \<and> (0 \<in> set (sl_shape slots) \<or> distinct ?ids)"
    using scatter_ok_iff [of k v slots src] assms(1) by simp
  then show a: "kv_args k v slots src" by blast
  obtain q N where z: "slot_bytes k = int q" "num_slots k = int N" "length (ka_bytes k) = N * q" "length (ka_bytes v) = N * q"
      "length (ka_bytes src) = (2 * length ?ids) * q" by (rule kv_sizes [OF a assms(2-5)])
  have sh: "length (ka_shape k) = 3" "length (sl_shape slots) = 2" using a unfolding kv_args_def by blast+
  let ?ns = "map int [0..<length ?ids]"
  let ?kr = "map (\<lambda>i. kv_row (int q) (ka_bytes src) (2 * i + 0)) ?ns" and ?vr = "map (\<lambda>i. kv_row (int q) (ka_bytes src) (2 * i + 1)) ?ns"
  have d: "(k', v') = (if 0 \<in> set (sl_shape slots) then (k, v)
      else (k\<lparr>ka_bytes := set_kv_rows (int q) (zip ?ids ?kr) (ka_bytes k)\<rparr>, v\<lparr>ka_bytes := set_kv_rows (int q) (zip ?ids ?vr) (ka_bytes v)\<rparr>))"
    using assms(1) kv_geometry_value [OF sh, of src True] ok z(1)
    unfolding kv_scatter_layer_def as_kv_array_def as_slot_ids_def kv_args_def
    by (auto simp: Let_def split: if_splits)
  have e: "?ids = []" if "0 \<in> set (sl_shape slots)"
    using assms(5) list2 [OF sh(2)] that by (auto simp: slots_wf_def)
  have r: "\<forall>i \<in> set ?ids. 0 \<le> i \<and> i < int N" "distinct ?ids"
    using a z(2) ok e unfolding kv_args_def by (cases "0 \<in> set (sl_shape slots)"; simp)+
  have l: "length (map f ?ns) = length ?ids" for f :: "int \<Rightarrow> 'a list" by simp
  note u = zip_update_rows [OF z(3) l r(2,1) page_rows_length [OF z(5), of 0]]
    zip_update_rows [OF z(4) l r(2,1) page_rows_length [OF z(5), of 1]]
  show "\<exists>b. k' = k\<lparr>ka_bytes := b\<rparr> \<and> length b = length (ka_bytes k)" using d u(1) z(3)
    by (intro exI [of _ "ka_bytes k'"]) (auto split: if_splits)
  show "\<exists>b. v' = v\<lparr>ka_bytes := b\<rparr> \<and> length b = length (ka_bytes v)" using d u(4) z(4)
    by (intro exI [of _ "ka_bytes v'"]) (auto split: if_splits)
  show "kv_row (slot_bytes k) (ka_bytes k') (?ids ! n) = kv_row (slot_bytes k) (ka_bytes src) (2 * int n)" if n: "n < length ?ids"
    using u(2) [of n] n e d by (auto simp: z(1) split: if_splits)
  show "kv_row (slot_bytes k) (ka_bytes v') (?ids ! n) = kv_row (slot_bytes k) (ka_bytes src) (2 * int n + 1)" if n: "n < length ?ids"
    using u(5) [of n] n e d by (auto simp: z(1) split: if_splits)
  show "kv_row (slot_bytes k) (ka_bytes k') j = kv_row (slot_bytes k) (ka_bytes k) j
       \<and> kv_row (slot_bytes k) (ka_bytes v') j = kv_row (slot_bytes k) (ka_bytes v) j"
    if "0 \<le> j" "j < num_slots k" "j \<notin> set ?ids"
    using u(3) [of j] u(6) [of j] that d by (auto simp: z(1,2) split: if_splits)
qed

lemma kv_array_eqI:
  assumes "length a = N * q" "length b = N * q" "\<And>j. 0 \<le> j \<Longrightarrow> j < int N \<Longrightarrow> kv_row (int q) a j = kv_row (int q) b j"
  shows "a = b"
  using assms by (intro rows_eqI [of a N q b]) simp_all

section \<open>Eviction and restore\<close>

text \<open>
  C35: Eviction and restore of cache pages.  Let \<^verbatim>\<open>kv_gather_layer\<close> pack distinct slots of the K and V pools into pages.
  Whatever then happens to those slots, \<^verbatim>\<open>kv_scatter_layer\<close> with the same slot map accepts the pages and brings
  both pools back to the bytes they had, provided their other slots still hold them.
\<close>

theorem kv_evict_restore:
  assumes "kv_gather_layer k v slots pages = Inr d" "distinct (sl_ids slots)"
    and "kv_wf k" "kv_wf v" "kv_wf pages" "slots_wf slots" "kv_wf k2" "kv_wf v2"
    and "same_layout k2 k" "same_layout v2 v" "ka_writeable k2" "ka_writeable v2"
    and "same_slots_outside (set (sl_ids slots)) k k2" "same_slots_outside (set (sl_ids slots)) v v2"
  shows "kv_scatter_layer k2 v2 slots d = Inr (k2\<lparr>ka_bytes := ka_bytes k\<rparr>, v2\<lparr>ka_bytes := ka_bytes v\<rparr>)"
proof -
  note g = kv_gather_value [OF assms(1,3-6)]
  have lay: "ka_dtype k2 = ka_dtype k" "ka_shape k2 = ka_shape k" "ka_contiguous k2 = ka_contiguous k"
      "ka_dtype v2 = ka_dtype v" "ka_shape v2 = ka_shape v" "ka_contiguous v2 = ka_contiguous v"
      "ka_dtype d = ka_dtype pages" "ka_shape d = ka_shape pages" "ka_contiguous d = ka_contiguous pages"
    using assms(9,10) g(2) unfolding same_layout_def by blast+
  have sb: "slot_bytes k2 = slot_bytes k" "num_slots k2 = num_slots k" "slot_bytes v = slot_bytes k" "num_slots v = num_slots k"
    using lay g(1) by (simp_all add: slot_bytes_def num_slots_def kv_args_def)
  have a: "kv_args k2 v2 slots d" using g(1) sb(2) unfolding kv_args_def lay by simp
  have wd: "kv_wf d" using assms(5) g(4) lay(8) by (simp add: kv_wf_def)
  from scatter_ok_iff [of k2 v2 slots d] a assms(2,11,12)
  obtain k' v' where s: "kv_scatter_layer k2 v2 slots d = Inr (k', v')" by (auto simp: is_ok_def split: sum.splits)
  note c = kv_scatter_value [OF s assms(7,8) wd assms(6)]
  obtain q N where z: "slot_bytes k = int q" "num_slots k = int N" "length (ka_bytes k) = N * q" "length (ka_bytes v) = N * q"
      "length (ka_bytes pages) = (2 * length (sl_ids slots)) * q" by (rule kv_sizes [OF g(1) assms(3-6)])
  have l2: "length (ka_bytes k2) = length (ka_bytes k)" "length (ka_bytes v2) = length (ka_bytes v)"
    using assms(3,4,7,8) lay(2,5) by (simp_all add: kv_wf_def)
  have lens: "length (ka_bytes k') = N * q" "length (ka_bytes v') = N * q" using c(2,3) l2 z(3,4) by auto
  have row: "kv_row (int q) (ka_bytes k') j = kv_row (int q) (ka_bytes k) j \<and> kv_row (int q) (ka_bytes v') j = kv_row (int q) (ka_bytes v) j"
    if j: "0 \<le> j" "j < int N" for j
  proof (cases "j \<in> set (sl_ids slots)")
    case True
    then obtain n where "n < length (sl_ids slots)" "sl_ids slots ! n = j" by (auto simp: in_set_conv_nth)
    then show ?thesis using c(4,5) [of n] g(5,6) [of n] sb z(1) by simp
  next
    case False
    then show ?thesis using c(6) [of j] assms(13,14) j sb z(1,2) unfolding same_slots_outside_def by simp
  qed
  have "ka_bytes k' = ka_bytes k" by (rule kv_array_eqI [OF lens(1) z(3)]) (use row in blast)
  moreover have "ka_bytes v' = ka_bytes v" by (rule kv_array_eqI [OF lens(2) z(4)]) (use row in blast)
  ultimately show ?thesis using s c(2,3) by auto
qed

definition demo_pool :: "nat list \<Rightarrow> nat KvArray" where
  "demo_pool bs = \<lparr>ka_dtype = DFloat16, ka_shape = [3, 1, 1], ka_contiguous = True, ka_writeable = True, ka_bytes = bs\<rparr>"

definition demo_slots :: SlotArray where
  "demo_slots = \<lparr>sl_dtype = DInt32, sl_shape = [1, 2], sl_contiguous = True, sl_ids = [2, 0]\<rparr>"

definition demo_pages :: "nat list \<Rightarrow> nat KvArray" where
  "demo_pages bs = \<lparr>ka_dtype = DFloat16, ka_shape = [1, 2, 2, 1, 1], ka_contiguous = True, ka_writeable = True, ka_bytes = bs\<rparr>"

lemma demo_outside:
  "same_slots_outside {2, 0} (demo_pool [a0, a1, a2, a3, a4, a5]) (demo_pool [b0, b1, a2, a3, b4, b5])"
proof -
  have "kv_row 2 [a0, a1, a2, a3, a4, a5] j = kv_row 2 [b0, b1, a2, a3, b4, b5] j"
    if "0 \<le> j" "j < 3" "j \<notin> {2, 0}" for j
  proof -
    have "j = 1" using that by auto
    then show ?thesis by (simp add: kv_row_def)
  qed
  then show ?thesis by (simp add: same_slots_outside_def num_slots_def slot_bytes_def demo_pool_def)
qed

theorem kv_evict_restore_witness:
  "kv_gather_layer (demo_pool [1, 2, 3, 4, 5, 6]) (demo_pool [7, 8, 9, 10, 11, 12]) demo_slots (demo_pages [0, 0, 0, 0, 0, 0, 0, 0])
     = Inr (demo_pages [5, 6, 11, 12, 1, 2, 7, 8])
   \<and> kv_scatter_layer (demo_pool [0, 0, 3, 4, 0, 0]) (demo_pool [0, 0, 9, 10, 0, 0]) demo_slots (demo_pages [5, 6, 11, 12, 1, 2, 7, 8])
     = Inr (demo_pool [1, 2, 3, 4, 5, 6], demo_pool [7, 8, 9, 10, 11, 12])"
proof -
  have g: "kv_gather_layer (demo_pool [1, 2, 3, 4, 5, 6]) (demo_pool [7, 8, 9, 10, 11, 12]) demo_slots (demo_pages [0, 0, 0, 0, 0, 0, 0, 0])
     = Inr (demo_pages [5, 6, 11, 12, 1, 2, 7, 8])" by code_simp
  have s: "same_slots_outside (set (sl_ids demo_slots)) (demo_pool [1, 2, 3, 4, 5, 6]) (demo_pool [0, 0, 3, 4, 0, 0])"
      "same_slots_outside (set (sl_ids demo_slots)) (demo_pool [7, 8, 9, 10, 11, 12]) (demo_pool [0, 0, 9, 10, 0, 0])"
    unfolding demo_slots_def using demo_outside by simp_all
  from kv_evict_restore [OF g _ _ _ _ _ _ _ _ _ _ _ s] g show ?thesis
    by (simp add: demo_slots_def demo_pool_def demo_pages_def kv_wf_def slots_wf_def same_layout_def)
qed

text \<open>
  Restore then eviction.  After \<^verbatim>\<open>kv_scatter_layer\<close> has written pages to the pools, \<^verbatim>\<open>kv_gather_layer\<close> with the same slot
  map accepts every writable buffer of the same layout and returns the pages byte for byte.
\<close>

theorem kv_restore_evict:
  assumes "kv_scatter_layer k v slots src = Inr (k', v')"
    and "kv_wf k" "kv_wf v" "kv_wf src" "slots_wf slots" "kv_wf dst" "same_layout dst src" "ka_writeable dst"
  shows "kv_gather_layer k' v' slots dst = Inr (dst\<lparr>ka_bytes := ka_bytes src\<rparr>)"
proof -
  note c = kv_scatter_value [OF assms(1-5)]
  obtain bk bv where kv: "k' = k\<lparr>ka_bytes := bk\<rparr>" "length bk = length (ka_bytes k)" "v' = v\<lparr>ka_bytes := bv\<rparr>" "length bv = length (ka_bytes v)"
    using c(2,3) by blast
  have lay: "ka_dtype dst = ka_dtype src" "ka_shape dst = ka_shape src" "ka_contiguous dst = ka_contiguous src"
    using assms(7) unfolding same_layout_def by blast+
  have sb: "slot_bytes k' = slot_bytes k" by (simp add: kv slot_bytes_def)
  have a: "kv_args k' v' slots dst" using c(1) unfolding kv_args_def lay by (simp add: kv num_slots_def)
  have w: "kv_wf k'" "kv_wf v'" using assms(2,3) kv(2,4) by (simp_all add: kv(1,3) kv_wf_def)
  from gather_ok_iff [of k' v' slots dst] a assms(8) obtain d where g0: "kv_gather_layer k' v' slots dst = Inr d"
    by (auto simp: is_ok_iff)
  note g = kv_gather_value [OF g0 w assms(6,5)]
  obtain q N where z: "slot_bytes k' = int q" "num_slots k' = int N" "length (ka_bytes k') = N * q" "length (ka_bytes v') = N * q"
      "length (ka_bytes dst) = (2 * length (sl_ids slots)) * q" by (rule kv_sizes [OF a w assms(6,5)])
  have "length (ka_bytes src) = length (ka_bytes dst)" using assms(4,6) lay(2) by (simp add: kv_wf_def)
  then have ls: "length (ka_bytes src) = (2 * length (sl_ids slots)) * q" using z(5) by simp
  have "kv_row (int q) (ka_bytes d) j = kv_row (int q) (ka_bytes src) j" if "0 \<le> j" "j < int (2 * length (sl_ids slots))" for j
  proof -
    define n where "n = nat (j div 2)"
    have n: "n < length (sl_ids slots)" using that by (simp add: n_def)
    have "j = 2 * int n \<or> j = 2 * int n + 1" using that(1) by (simp add: n_def) presburger
    then show ?thesis using g(5,6) [OF n] c(4,5) [OF n] sb z(1) by auto
  qed
  from kv_array_eqI [OF _ ls this] have "ka_bytes d = ka_bytes src" using g(4) z(5) by simp
  moreover have "d = dst\<lparr>ka_bytes := ka_bytes d\<rparr>"
    using g(2,3) unfolding same_layout_def by (cases d; cases dst) simp
  ultimately show ?thesis using g0 by simp
qed

theorem kv_restore_evict_witness:
  "kv_scatter_layer (demo_pool [0, 0, 3, 4, 0, 0]) (demo_pool [0, 0, 9, 10, 0, 0]) demo_slots (demo_pages [5, 6, 11, 12, 1, 2, 7, 8])
     = Inr (demo_pool [1, 2, 3, 4, 5, 6], demo_pool [7, 8, 9, 10, 11, 12])
   \<and> kv_gather_layer (demo_pool [1, 2, 3, 4, 5, 6]) (demo_pool [7, 8, 9, 10, 11, 12]) demo_slots (demo_pages [0, 0, 0, 0, 0, 0, 0, 0])
     = Inr (demo_pages [5, 6, 11, 12, 1, 2, 7, 8])"
proof -
  have s: "kv_scatter_layer (demo_pool [0, 0, 3, 4, 0, 0]) (demo_pool [0, 0, 9, 10, 0, 0]) demo_slots (demo_pages [5, 6, 11, 12, 1, 2, 7, 8])
     = Inr (demo_pool [1, 2, 3, 4, 5, 6], demo_pool [7, 8, 9, 10, 11, 12])" by code_simp
  from kv_restore_evict [OF s, of "demo_pages [0, 0, 0, 0, 0, 0, 0, 0]"] s show ?thesis
    by (simp add: demo_slots_def demo_pool_def demo_pages_def kv_wf_def slots_wf_def same_layout_def)
qed

end
