(* ===== verification/Kernel_Registry.thy ===== *)
theory Kernel_Registry
  imports Prelude "HOL-Library.List_Lexorder" "HOL-Library.Char_ord" "HOL-Library.Product_Lexorder"
begin

text \<open>
  Kernel selection from metadata (\<^verbatim>\<open>registry.py\<close>, \<^verbatim>\<open>signature.py\<close>): requests, registered implementations with their
  capability gates, validation of a registry, and the choice by priority.

  Selection reads metadata only; loading an entry point imports code and is not modelled.  The result
  of \<^verbatim>\<open>explain\<close> is cached by its arguments, which changes nothing for pure predicates.
\<close>

section \<open>Requests\<close>

record TensorMetadata =
  tm_shape :: "int list"
  tm_dtype :: string
  tm_device :: string
  tm_contiguous :: bool

text \<open>Values of request parameters; a finite float is \<open>m * 2 ^ e\<close>.\<close>

datatype ParamValue = PInt int | PBool bool | PStr string | PFloat int int | PInf | PNan

record KernelRequest =
  kr_operation :: string
  kr_tensors :: "TensorMetadata list"
  kr_architecture :: string
  kr_backends :: "string set"
  kr_graph_capture :: bool
  kr_workspace_bytes :: int
  kr_parameters :: "(string \<times> ParamValue) list"

text \<open>\<^verbatim>\<open>s.split(c)\<close>: the fields between the separators, at least one.\<close>

fun py_split :: "char \<Rightarrow> string \<Rightarrow> string list" where
  "py_split c [] = [[]]"
| "py_split c (x # xs) =
     (if x = c then [] # py_split c xs
      else case py_split c xs of [] \<Rightarrow> [[x]] | f # fs \<Rightarrow> (x # f) # fs)"

definition py_join :: "string \<Rightarrow> string list \<Rightarrow> string" where
  "py_join sep ss = (case ss of [] \<Rightarrow> [] | s # rest \<Rightarrow> s @ concat (map (\<lambda>t. sep @ t) rest))"

section \<open>Format signatures\<close>

record FormatSignature =
  fs_roles :: "string list"
  fs_dtypes :: "string set list"
  fs_layout :: string

definition mk_signature :: "string list \<Rightarrow> string set list \<Rightarrow> string \<Rightarrow> FormatSignature result" where
  "mk_signature roles dtypes layout =
     (if length roles \<noteq> length dtypes then Inl ValueError
      else if list_ex (\<lambda>accepted. accepted = {}) dtypes then Inl ValueError
      else Inr \<lparr>fs_roles = roles, fs_dtypes = dtypes, fs_layout = layout\<rparr>)"

definition sig_matches :: "FormatSignature \<Rightarrow> TensorMetadata list \<Rightarrow> string list" where
  "sig_matches sg tensors =
     (if length tensors \<noteq> length (fs_roles sg)
      then [''expected '' @ dec_int (int (length (fs_roles sg))) @ '' tensors ('' @ py_join '', '' (fs_roles sg) @ ''), got ''
            @ dec_int (int (length tensors))]
      else concat (map (\<lambda>(role, accepted, tensor).
             if tm_dtype tensor \<notin> accepted then [role @ '' requires '' @ py_join ''/'' (sorted_list_of_set accepted)] else [])
             (zip (fs_roles sg) (zip (fs_dtypes sg) tensors))))"

section \<open>Implementations and priorities\<close>

definition PRIORITY_MAX :: int where
  "PRIORITY_MAX = 20"

datatype Priority = REFERENCE | PORTABLE | PERFORMANT | SPECIALIZED | PLUGIN

fun prio :: "Priority \<Rightarrow> int" where
  "prio REFERENCE = 0"
| "prio PORTABLE = 4"
| "prio PERFORMANT = 8"
| "prio SPECIALIZED = 12"
| "prio PLUGIN = 16"

text \<open>The last band, in ascending order, that starts at or below the value.\<close>

definition band_of :: "int \<Rightarrow> Priority" where
  "band_of v = foldl (\<lambda>b c. if prio c \<le> v then c else b) REFERENCE [REFERENCE, PORTABLE, PERFORMANT, SPECIALIZED, PLUGIN]"

record KernelImplementation =
  ki_operation :: string
  ki_name :: string
  ki_entrypoint :: string
  ki_check :: "KernelRequest \<Rightarrow> string list result"
  ki_backend :: string
  ki_priority :: int
  ki_architectures :: "string list"
  ki_graph_capture :: bool
  ki_workspace_bytes :: int
  ki_reference :: bool
  ki_signature :: "FormatSignature option"
  ki_weight_preprocessor :: "string option"

section \<open>Registries\<close>

definition good_entrypoint :: "string \<Rightarrow> bool" where
  "good_entrypoint s = (length (py_split (CHR '':'') s) = 2 \<and> list_all (\<lambda>f. f \<noteq> []) (py_split (CHR '':'') s))"

definition impl_valid :: "KernelImplementation \<Rightarrow> bool" where
  "impl_valid impl =
     (good_entrypoint (ki_entrypoint impl)
      \<and> (case ki_weight_preprocessor impl of None \<Rightarrow> True | Some s \<Rightarrow> good_entrypoint s)
      \<and> \<not> ki_workspace_bytes impl < 0
      \<and> 0 \<le> ki_priority impl \<and> ki_priority impl < PRIORITY_MAX)"

record KernelRegistry =
  kg_implementations :: "KernelImplementation list"

definition mk_registry :: "KernelImplementation list \<Rightarrow> KernelRegistry result" where
  "mk_registry impls =
     (if \<not> distinct (map (\<lambda>i. (ki_operation i, ki_name i)) impls) then Inl ValueError
      else if list_all impl_valid impls then Inr \<lparr>kg_implementations = impls\<rparr>
      else Inl ValueError)"

text \<open>Why a candidate is rejected; texts of checks and signatures are kept as such.\<close>

datatype Reason = NeedsReference | NoBackend string | NoArchitecture string | NoCapture | NeedsWorkspace int | Because string

record SelectionExplanation =
  se_request :: KernelRequest
  se_override :: "string option"
  se_selected :: "KernelImplementation option"
  se_candidates :: "(KernelImplementation \<times> Reason list) list"

definition gate_reasons :: "KernelRequest \<Rightarrow> bool \<Rightarrow> KernelImplementation \<Rightarrow> Reason list" where
  "gate_reasons rq allow_reference impl =
     (if ki_reference impl \<and> \<not> allow_reference then [NeedsReference] else [])
     @ (if ki_backend impl \<notin> kr_backends rq then [NoBackend (ki_backend impl)] else [])
     @ (if ki_architectures impl \<noteq> [] \<and> kr_architecture rq \<notin> set (ki_architectures impl) then [NoArchitecture (kr_architecture rq)] else [])
     @ (if kr_graph_capture rq \<and> \<not> ki_graph_capture impl then [NoCapture] else [])
     @ (if kr_workspace_bytes rq < ki_workspace_bytes impl then [NeedsWorkspace (ki_workspace_bytes impl)] else [])"

definition impl_reasons :: "KernelRequest \<Rightarrow> bool \<Rightarrow> KernelImplementation \<Rightarrow> Reason list result" where
  "impl_reasons rq allow_reference impl =
     bindr (ki_check impl rq) (\<lambda>found.
       Inr (gate_reasons rq allow_reference impl @ map Because found
            @ (case ki_signature impl of None \<Rightarrow> [] | Some sg \<Rightarrow> map Because (sig_matches sg (kr_tensors rq)))))"

definition impl_key :: "KernelImplementation \<Rightarrow> int \<times> string" where
  "impl_key impl = (- ki_priority impl, ki_name impl)"

definition explain_step ::
  "KernelRequest \<Rightarrow> string option \<Rightarrow> bool \<Rightarrow> KernelImplementation option \<times> (KernelImplementation \<times> Reason list) list
     \<Rightarrow> KernelImplementation \<Rightarrow> (KernelImplementation option \<times> (KernelImplementation \<times> Reason list) list) result" where
  "explain_step rq override allow_reference st impl =
     (if ki_operation impl \<noteq> kr_operation rq then Inr st
      else bindr (impl_reasons rq allow_reference impl) (\<lambda>reasons.
        Inr (if reasons = [] \<and> fst st = None \<and> (override = None \<or> override = Some (ki_name impl)) then Some impl else fst st,
             snd st @ [(impl, reasons)])))"

definition explain :: "KernelRegistry \<Rightarrow> KernelRequest \<Rightarrow> string option \<Rightarrow> bool \<Rightarrow> SelectionExplanation result" where
  "explain reg rq override allow_reference =
     (if kr_workspace_bytes rq < 0 then Inl ValueError
      else bindr (foldr_res (explain_step rq override allow_reference) (None, []) (sort_key impl_key (kg_implementations reg)))
        (\<lambda>(selected, candidates).
          Inr \<lparr>se_request = rq, se_override = override, se_selected = selected, se_candidates = candidates\<rparr>))"

definition select :: "KernelRegistry \<Rightarrow> KernelRequest \<Rightarrow> string option \<Rightarrow> bool \<Rightarrow> KernelImplementation result" where
  "select reg rq override allow_reference =
     bindr (explain reg rq override allow_reference) (\<lambda>explanation.
       case se_selected explanation of None \<Rightarrow> Inl KernelSelectionError | Some impl \<Rightarrow> Inr impl)"

section \<open>Selection\<close>

text \<open>The bands cover the priorities: the band of a valid priority starts at most three below it.\<close>

lemma band_of_bounds:
  assumes "0 \<le> v" "v < PRIORITY_MAX"
  shows "prio (band_of v) \<le> v \<and> v < prio (band_of v) + 4"
  using assms unfolding band_of_def PRIORITY_MAX_def by simp

text \<open>The candidates of an operation in the order in which they are tried.\<close>

definition candidates :: "KernelImplementation list \<Rightarrow> string \<Rightarrow> KernelImplementation list" where
  "candidates impls oper = sort_key impl_key (filter (\<lambda>i. ki_operation i = oper) impls)"

definition wanted :: "string option \<Rightarrow> KernelImplementation \<Rightarrow> bool" where
  "wanted override i \<longleftrightarrow> override = None \<or> override = Some (ki_name i)"

lemma explain_step_value:
  "ki_operation i \<noteq> kr_operation rq \<Longrightarrow> explain_step rq override al st i = Inr st"
  "ki_operation i = kr_operation rq \<Longrightarrow> explain_step rq override al (sel, cs) i = bindr (impl_reasons rq al i) (\<lambda>rs.
     Inr (if rs = [] \<and> sel = None \<and> wanted override i then Some i else sel, cs @ [(i, rs)]))"
  by (simp_all add: explain_step_def wanted_def cong: if_cong)

lemma explain_loop_value:
  "foldr_res (explain_step rq override al) (sel, cs) is =
     bindr (mapr (\<lambda>i. bindr (impl_reasons rq al i) (\<lambda>rs. Inr (i, rs))) (filter (\<lambda>i. ki_operation i = kr_operation rq) is)) (\<lambda>new.
       Inr (case sel of Some i \<Rightarrow> Some i | None \<Rightarrow> map_option fst (find (\<lambda>c. snd c = [] \<and> wanted override (fst c)) new), cs @ new))"
proof (induction "is" arbitrary: sel cs)
  case (Cons i "is")
  show ?case
  proof (cases "ki_operation i = kr_operation rq")
    case True
    show ?thesis
    proof (cases "impl_reasons rq al i")
      case (Inr rs)
      show ?thesis
        by (cases "rs = [] \<and> wanted override i"; cases sel) (simp_all add: explain_step_value(2) True Inr Cons.IH bindr_assoc del: de_Morgan_conj)
    qed (simp add: explain_step_value(2) True)
  qed (simp add: explain_step_value(1) Cons.IH)
qed (simp split: option.splits)

lemma explain_value:
  "explain reg rq override al =
     (if kr_workspace_bytes rq < 0 then Inl ValueError
      else bindr (mapr (\<lambda>i. bindr (impl_reasons rq al i) (\<lambda>rs. Inr (i, rs))) (candidates (kg_implementations reg) (kr_operation rq)))
        (\<lambda>cs. Inr \<lparr>se_request = rq, se_override = override,
                   se_selected = map_option fst (find (\<lambda>c. snd c = [] \<and> wanted override (fst c)) cs), se_candidates = cs\<rparr>))"
  unfolding explain_def explain_loop_value candidates_def filter_sort by (simp add: bindr_assoc)

text \<open>What it takes to be chosen, gate by gate.\<close>

definition eligible :: "KernelRequest \<Rightarrow> bool \<Rightarrow> KernelImplementation \<Rightarrow> bool" where
  "eligible rq al i \<longleftrightarrow>
     ki_operation i = kr_operation rq \<and> (ki_reference i \<longrightarrow> al) \<and> ki_backend i \<in> kr_backends rq
     \<and> (ki_architectures i = [] \<or> kr_architecture rq \<in> set (ki_architectures i))
     \<and> (kr_graph_capture rq \<longrightarrow> ki_graph_capture i) \<and> ki_workspace_bytes i \<le> kr_workspace_bytes rq
     \<and> ki_check i rq = Inr [] \<and> (\<forall>sg. ki_signature i = Some sg \<longrightarrow> sig_matches sg (kr_tensors rq) = [])"

lemma impl_reasons_Nil:
  "ki_operation i = kr_operation rq \<Longrightarrow> impl_reasons rq al i = Inr [] \<longleftrightarrow> eligible rq al i"
  by (cases "ki_check i rq") (auto simp: impl_reasons_def gate_reasons_def eligible_def not_less split: option.splits)

lemma impl_reasons_ok: "is_ok (impl_reasons rq al i) \<longleftrightarrow> is_ok (ki_check i rq)"
  by (cases "ki_check i rq") (auto simp: impl_reasons_def)

lemma find_first_key:
  fixes f :: "'a \<Rightarrow> 'k::linorder"
  assumes "sorted (map f xs)" "inj_on f (set xs)"
  shows "find P xs = Some x \<longleftrightarrow> x \<in> set xs \<and> P x \<and> (\<forall>y \<in> set xs. P y \<longrightarrow> f x \<le> f y)"
    and "find P xs = None \<longleftrightarrow> (\<forall>y \<in> set xs. \<not> P y)"
proof -
  show "find P xs = Some x \<longleftrightarrow> x \<in> set xs \<and> P x \<and> (\<forall>y \<in> set xs. P y \<longrightarrow> f x \<le> f y)"
    using assms
  proof (induction xs)
    case (Cons a xs)
    have le: "f a \<le> f y" if "y \<in> set xs" for y using Cons.prems(1) that by auto
    have eq: "x = a" if "x \<in> set xs" "f x \<le> f a"
      using le [OF that(1)] that Cons.prems(2) by (auto simp: inj_on_def)
    show ?case using Cons le eq by auto
  qed simp
qed (auto simp: find_None_iff)

lemma registry_keys:
  assumes "mk_registry impls = Inr reg"
  shows "kg_implementations reg = impls" "inj_on impl_key (set (candidates impls oper))"
    "distinct (map (\<lambda>i. (ki_operation i, ki_name i)) impls)"
proof -
  show "kg_implementations reg = impls" and d: "distinct (map (\<lambda>i. (ki_operation i, ki_name i)) impls)"
    using assms by (auto simp: mk_registry_def split: if_splits)
  then show "inj_on impl_key (set (candidates impls oper))"
    by (auto simp: candidates_def impl_key_def inj_on_def distinct_map)
qed

lemma explain_ok:
  assumes "0 \<le> kr_workspace_bytes rq" "\<And>i. i \<in> set cands \<Longrightarrow> is_ok (ki_check i rq)"
  obtains cs where "mapr (\<lambda>i. bindr (impl_reasons rq al i) (\<lambda>rs. Inr (i, rs))) cands = Inr cs" "map fst cs = cands"
    "\<And>c. c \<in> set cs \<Longrightarrow> impl_reasons rq al (fst c) = Inr (snd c)"
proof -
  have "\<exists>cs. mapr (\<lambda>i. bindr (impl_reasons rq al i) (\<lambda>rs. Inr (i, rs))) cands = Inr cs \<and> map fst cs = cands
      \<and> (\<forall>c \<in> set cs. impl_reasons rq al (fst c) = Inr (snd c))"
    using assms(2)
  proof (induction cands)
    case (Cons i cands)
    then obtain cs where cs: "mapr (\<lambda>i. bindr (impl_reasons rq al i) (\<lambda>rs. Inr (i, rs))) cands = Inr cs" "map fst cs = cands"
        "\<forall>c \<in> set cs. impl_reasons rq al (fst c) = Inr (snd c)" by auto
    obtain rs where "impl_reasons rq al i = Inr rs" using Cons.prems [of i] impl_reasons_ok [of rq al i] by (auto simp: is_ok_iff)
    then show ?case using cs by auto
  qed simp
  then show ?thesis using that by blast
qed

text \<open>Without exceptions, the selected implementation is the first eligible and wanted candidate.\<close>

lemma select_value:
  assumes "0 \<le> kr_workspace_bytes rq" "\<And>i. i \<in> set (candidates (kg_implementations reg) (kr_operation rq)) \<Longrightarrow> is_ok (ki_check i rq)"
  shows "select reg rq override al =
    (case find (\<lambda>i. eligible rq al i \<and> wanted override i) (candidates (kg_implementations reg) (kr_operation rq)) of
       None \<Rightarrow> Inl KernelSelectionError | Some i \<Rightarrow> Inr i)"
proof -
  let ?cands = "candidates (kg_implementations reg) (kr_operation rq)"
  obtain cs where cs: "mapr (\<lambda>i. bindr (impl_reasons rq al i) (\<lambda>rs. Inr (i, rs))) ?cands = Inr cs" "map fst cs = ?cands"
      "\<And>c. c \<in> set cs \<Longrightarrow> impl_reasons rq al (fst c) = Inr (snd c)" using explain_ok [where al = al, OF assms] by blast
  have oper: "ki_operation (fst c) = kr_operation rq" if "c \<in> set cs" for c
  proof -
    have "fst c \<in> set ?cands" using that unfolding cs(2) [symmetric] by simp
    then show ?thesis by (simp add: candidates_def)
  qed
  have "map_option fst (find (\<lambda>c. snd c = [] \<and> wanted override (fst c)) cs) = find (\<lambda>i. eligible rq al i \<and> wanted override i) (map fst cs)"
    using cs(3) oper
  proof (induction cs)
    case (Cons c cs)
    have "snd c = [] \<longleftrightarrow> eligible rq al (fst c)" using Cons.prems(1) [of c] impl_reasons_Nil [of "fst c" rq al] Cons.prems(2) [of c] by simp
    then show ?case using Cons by simp
  qed simp
  then show ?thesis using assms(1) unfolding select_def explain_value cs by (simp split: option.splits)
qed

text \<open>
  C36: Kernel selection.  In a registry that passed validation, and when no capability check of the
  requested operation raises, \<^verbatim>\<open>select\<close> returns an implementation exactly when it passes every gate, is not
  excluded by the override, and no other such implementation has a higher priority, or the same
  priority and a smaller name; when nothing passes, it raises the selection error.
\<close>

theorem select_best:
  assumes "mk_registry impls = Inr reg" "0 \<le> kr_workspace_bytes rq"
    and "\<And>i. i \<in> set impls \<Longrightarrow> ki_operation i = kr_operation rq \<Longrightarrow> is_ok (ki_check i rq)"
  shows "(select reg rq override al = Inr i \<longleftrightarrow>
      i \<in> set impls \<and> eligible rq al i \<and> (override = None \<or> override = Some (ki_name i))
      \<and> (\<forall>j \<in> set impls. eligible rq al j \<and> (override = None \<or> override = Some (ki_name j)) \<longrightarrow>
           ki_priority j < ki_priority i \<or> ki_priority j = ki_priority i \<and> ki_name i \<le> ki_name j))
    \<and> (select reg rq override al = Inl e \<longleftrightarrow>
      e = KernelSelectionError \<and> (\<forall>j \<in> set impls. \<not> (eligible rq al j \<and> (override = None \<or> override = Some (ki_name j)))))"
proof -
  note r = registry_keys(1) [OF assms(1)] registry_keys(2) [OF assms(1), of "kr_operation rq"]
  let ?cands = "candidates impls (kr_operation rq)" and ?P = "\<lambda>i. eligible rq al i \<and> wanted override i"
  have mem: "i \<in> set ?cands \<and> ?P i \<longleftrightarrow> i \<in> set impls \<and> ?P i" for i by (auto simp: candidates_def eligible_def)
  have sv: "select reg rq override al = (case find ?P ?cands of None \<Rightarrow> Inl KernelSelectionError | Some i \<Rightarrow> Inr i)"
    unfolding r(1) [symmetric] by (rule select_value [OF assms(2)]) (use assms(3) in \<open>simp add: r(1) candidates_def\<close>)
  have s: "sorted (map impl_key ?cands)" by (simp add: candidates_def)
  have key: "impl_key i \<le> impl_key j \<longleftrightarrow> ki_priority j < ki_priority i \<or> ki_priority j = ki_priority i \<and> ki_name i \<le> ki_name j" for i j
    by (auto simp: impl_key_def less_eq_prod_def)
  have some: "find ?P ?cands = Some i \<longleftrightarrow> i \<in> set impls \<and> ?P i \<and> (\<forall>j \<in> set impls. ?P j \<longrightarrow> impl_key i \<le> impl_key j)"
    unfolding find_first_key(1) [OF s r(2)] using mem by blast
  have none: "find ?P ?cands = None \<longleftrightarrow> (\<forall>j \<in> set impls. \<not> ?P j)" unfolding find_first_key(2) [OF s r(2)] using mem by blast
  show ?thesis using some none unfolding sv key wanted_def by (auto split: option.splits)
qed

definition demo_impl :: "string \<Rightarrow> int \<Rightarrow> KernelImplementation" where
  "demo_impl name p =
     \<lparr>ki_operation = ''gemm'', ki_name = name, ki_entrypoint = ''m:f'', ki_check = (\<lambda>rq. Inr []), ki_backend = ''triton'',
      ki_priority = p, ki_architectures = [], ki_graph_capture = False, ki_workspace_bytes = 0, ki_reference = False,
      ki_signature = None, ki_weight_preprocessor = None\<rparr>"

definition demo_request :: KernelRequest where
  "demo_request =
     \<lparr>kr_operation = ''gemm'', kr_tensors = [], kr_architecture = ''gfx942'', kr_backends = {''triton''}, kr_graph_capture = False,
      kr_workspace_bytes = 0, kr_parameters = []\<rparr>"

lemma demo_registry: "p \<in> {0..<20} \<Longrightarrow> q \<in> {0..<20} \<Longrightarrow>
    mk_registry [demo_impl ''a'' p, demo_impl ''b'' q] = Inr \<lparr>kg_implementations = [demo_impl ''a'' p, demo_impl ''b'' q]\<rparr>"
  by (simp add: mk_registry_def demo_impl_def impl_valid_def good_entrypoint_def PRIORITY_MAX_def)

lemma demo_eligible: "eligible demo_request al (demo_impl n p)"
  by (simp add: eligible_def demo_request_def demo_impl_def)

theorem select_best_witness:
  "\<exists>reg. mk_registry [demo_impl ''a'' 4, demo_impl ''b'' 8] = Inr reg \<and> select reg demo_request None False = Inr (demo_impl ''b'' 8)
     \<and> select reg demo_request (Some ''a'') False = Inr (demo_impl ''a'' 4)"
proof -
  let ?reg = "\<lparr>kg_implementations = [demo_impl ''a'' 4, demo_impl ''b'' 8]\<rparr>"
  have r: "mk_registry [demo_impl ''a'' 4, demo_impl ''b'' 8] = Inr ?reg" by (rule demo_registry) simp_all
  have ok: "is_ok (ki_check i demo_request)" if "i \<in> set [demo_impl ''a'' 4, demo_impl ''b'' 8]" for i
    using that by (auto simp: demo_impl_def)
  have w: "0 \<le> kr_workspace_bytes demo_request" by (simp add: demo_request_def)
  have n: "ki_name (demo_impl m p) = m" "ki_priority (demo_impl m p) = p" for m p by (simp_all add: demo_impl_def)
  have "select ?reg demo_request None False = Inr (demo_impl ''b'' 8)" "select ?reg demo_request (Some ''a'') False = Inr (demo_impl ''a'' 4)"
    using select_best [OF r w ok, of None False] select_best [OF r w ok, of "Some ''a''" False] by (simp_all add: demo_eligible n)
  then show ?thesis using r by blast
qed

text \<open>
  C37: Registration order.  Two lists that register the same implementations in different orders are both
  valid or both not, and every request then gets the same explanation, the same candidates in
  the same order, and the same selection or exception.
\<close>

theorem registration_order_irrelevant:
  assumes "mset impls = mset impls'" "mk_registry impls = Inr reg"
  shows "\<exists>reg'. mk_registry impls' = Inr reg' \<and> explain reg' rq override al = explain reg rq override al
    \<and> select reg' rq override al = select reg rq override al"
proof -
  note r = registry_keys [OF assms(2)]
  have d: "distinct (map (\<lambda>i. (ki_operation i, ki_name i)) impls')"
    using r(3) assms(1) by (metis mset_eq_imp_distinct_iff mset_map)
  have "set impls' = set impls" using assms(1) by (metis mset_eq_setD)
  then have ok: "mk_registry impls' = Inr \<lparr>kg_implementations = impls'\<rparr>"
    using assms(2) d by (auto simp: mk_registry_def list_all_iff split: if_splits)
  have "candidates impls' oper = candidates impls oper" for oper
    unfolding candidates_def [of impls']
  proof (rule sort_key_inj_key_eq)
    show "mset (filter (\<lambda>i. ki_operation i = oper) impls') = mset (candidates impls oper)"
      using assms(1) by (simp add: candidates_def mset_filter)
    show "inj_on impl_key (set (filter (\<lambda>i. ki_operation i = oper) impls'))"
      using registry_keys(2) [OF assms(2), of oper] \<open>set impls' = set impls\<close> by (simp add: candidates_def)
  qed (simp add: candidates_def)
  then have "explain \<lparr>kg_implementations = impls'\<rparr> rq override al = explain reg rq override al" for rq
    by (simp add: explain_value r(1))
  then show ?thesis using ok by (auto simp: select_def)
qed


theorem registration_order_irrelevant_witness:
  "\<exists>reg reg'. mk_registry [demo_impl ''a'' 4, demo_impl ''b'' 8] = Inr reg \<and> mk_registry [demo_impl ''b'' 8, demo_impl ''a'' 4] = Inr reg'
     \<and> reg \<noteq> reg' \<and> select reg' demo_request None False = select reg demo_request None False"
proof -
  let ?reg = "\<lparr>kg_implementations = [demo_impl ''a'' 4, demo_impl ''b'' 8]\<rparr>"
  have r: "mk_registry [demo_impl ''a'' 4, demo_impl ''b'' 8] = Inr ?reg" by (rule demo_registry) simp_all
  have m: "mset [demo_impl ''a'' 4, demo_impl ''b'' 8] = mset [demo_impl ''b'' 8, demo_impl ''a'' 4]" by simp
  obtain reg' where r': "mk_registry [demo_impl ''b'' 8, demo_impl ''a'' 4] = Inr reg'"
      "select reg' demo_request None False = select ?reg demo_request None False"
    using registration_order_irrelevant [OF m r, of demo_request None False] by blast
  have "demo_impl ''a'' 4 \<noteq> demo_impl ''b'' 8" by (simp add: demo_impl_def)
  then have "?reg \<noteq> reg'" using registry_keys(1) [OF r'(1)] by auto
  with r r' show ?thesis by blast
qed

end
