(* ===== verification/Torch_Registries.thy ===== *)
theory Torch_Registries
  imports Kernel_Registry
begin

text \<open>
  The registries of \<^verbatim>\<open>torch_ops/\<close>: their format signatures, their capability checks, and their registered
  implementations.
\<close>

section \<open>Shared pieces\<close>

text \<open>\<^verbatim>\<open>int(v)\<close> of a parameter value: truncation of floats, decimal text with blanks, a sign and single underscores.\<close>

fun digits_value :: "int \<Rightarrow> bool \<Rightarrow> string \<Rightarrow> int result" where
  "digits_value acc digit [] = (if digit then Inr acc else Inl ValueError)"
| "digits_value acc digit (c # cs) =
     (if 48 \<le> (of_char c :: int) \<and> (of_char c :: int) \<le> 57 then digits_value (10 * acc + (of_char c - 48)) True cs
      else if c = CHR ''_'' \<and> digit \<and> cs \<noteq> [] then digits_value acc False cs
      else Inl ValueError)"

definition blank :: "char \<Rightarrow> bool" where
  "blank c = (let n = of_char c :: int in n \<in> {32, 133, 160} \<or> 9 \<le> n \<and> n \<le> 13 \<or> 28 \<le> n \<and> n \<le> 31)"

definition py_int_text :: "string \<Rightarrow> int result" where
  "py_int_text s =
     (let body = rev (dropWhile blank (rev (dropWhile blank s))) in
      case body of
        [] \<Rightarrow> Inl ValueError
      | c # cs \<Rightarrow>
          if c = CHR ''-'' then bindr (digits_value 0 False cs) (\<lambda>n. Inr (- n))
          else if c = CHR ''+'' then digits_value 0 False cs
          else digits_value 0 False body)"

definition py_int :: "ParamValue \<Rightarrow> int result" where
  "py_int v =
     (case v of
        PInt i \<Rightarrow> Inr i
      | PBool b \<Rightarrow> Inr (if b then 1 else 0)
      | PStr s \<Rightarrow> py_int_text s
      | PFloat m e \<Rightarrow> Inr (if 0 \<le> e then m * 2 ^ nat e else sgn m * (\<bar>m\<bar> div 2 ^ nat (- e)))
      | PInf \<Rightarrow> Inl OverflowError
      | PNan \<Rightarrow> Inl ValueError)"

definition device_kind :: "TensorMetadata \<Rightarrow> string" where
  "device_kind t = hd (py_split (CHR '':'') (tm_device t))"

definition reject :: "bool \<Rightarrow> string \<Rightarrow> string list" where
  "reject b reason = (if b then [reason] else [])"

text \<open>An implementation with the default fields.\<close>

definition kernel_impl :: "string \<Rightarrow> string \<Rightarrow> string \<Rightarrow> (KernelRequest \<Rightarrow> string list result) \<Rightarrow> string \<Rightarrow> KernelImplementation" where
  "kernel_impl operation name backend check entrypoint =
     \<lparr>ki_operation = operation, ki_name = name, ki_entrypoint = entrypoint, ki_check = check, ki_backend = backend,
      ki_priority = 0, ki_architectures = [], ki_graph_capture = False, ki_workspace_bytes = 0, ki_reference = False,
      ki_signature = None, ki_weight_preprocessor = None\<rparr>"

definition captured :: "int \<Rightarrow> FormatSignature \<Rightarrow> KernelImplementation \<Rightarrow> KernelImplementation" where
  "captured p sg i = i\<lparr>ki_priority := p, ki_graph_capture := True, ki_signature := Some sg\<rparr>"

section \<open>MoE combine\<close>

definition MOE_COMBINE_SIGNATURE :: "FormatSignature result" where
  "MOE_COMBINE_SIGNATURE =
     mk_signature [''activations'', ''weights''] [{''bfloat16'', ''float16'', ''float32''}, {''float32''}] ''dense''"

definition combine_check :: "KernelRequest \<Rightarrow> string list result" where
  "combine_check rq =
     (case kr_tensors rq of
        [out, weights] \<Rightarrow>
          Inr (reject (length (tm_shape out) \<noteq> 3 \<or> length (tm_shape weights) \<noteq> 2 \<or> take 2 (tm_shape out) \<noteq> tm_shape weights)
                 ''expected activations [T,K,H] and weights [T,K]''
               @ reject (length (tm_shape out) = 3 \<and> tm_shape out ! 2 \<le> 0) ''hidden dimension must be positive''
               @ reject (tm_device out \<noteq> tm_device weights) ''inputs must share a device'')
      | _ \<Rightarrow> Inr [''expected activation and weight metadata''])"

definition combine_check_triton :: "KernelRequest \<Rightarrow> string list result" where
  "combine_check_triton rq =
     bindr (combine_check rq) (\<lambda>reasons.
       Inr (reasons @ reject (kr_tensors rq \<noteq> [] \<and> device_kind (hd (kr_tensors rq)) \<noteq> ''cuda'')
              ''CUDA-resident inputs required (including torch HIP devices)''))"

definition MOE_COMBINE_REGISTRY :: "KernelRegistry result" where
  "MOE_COMBINE_REGISTRY =
     bindr MOE_COMBINE_SIGNATURE (\<lambda>sg. mk_registry
       [captured (prio PERFORMANT) sg (kernel_impl ''moe_weighted_sum'' ''triton'' ''triton'' combine_check_triton
          ''vkernels.torch_ops.moe_combine:_moe_weighted_sum_triton''),
        (kernel_impl ''moe_weighted_sum'' ''torch_reference'' ''torch'' combine_check
          ''vkernels.torch_ops.moe_combine:moe_weighted_sum_reference'')\<lparr>ki_reference := True, ki_signature := Some sg\<rparr>])"

section \<open>Latent attention\<close>

definition ATTN_DTYPES :: "string set" where
  "ATTN_DTYPES = {''float16'', ''bfloat16'', ''float8_e4m3fn'', ''float8_e5m2'', ''float8_e4m3fnuz''}"

definition gpu_resident :: "TensorMetadata \<Rightarrow> bool" where
  "gpu_resident t = (device_kind t \<in> {''cuda'', ''hip'', ''rocm''})"

definition paged_layout_check :: "KernelRequest \<Rightarrow> string list result" where
  "paged_layout_check rq = Inr (reject (\<not> list_all gpu_resident (kr_tensors rq)) ''GPU-resident tensors required'')"

definition kv_head_grouping :: "KernelRequest \<Rightarrow> string list result" where
  "kv_head_grouping rq =
     (case kr_tensors rq of
        [q, k, _] \<Rightarrow>
          bindr (py_nth (tm_shape q) 1) (\<lambda>q_heads. bindr (py_nth (tm_shape k) 1) (\<lambda>kv_heads.
            Inr (reject (kv_heads \<noteq> 0 \<and> q_heads mod kv_heads \<noteq> 0)
                   (''num_q_heads ('' @ dec_int q_heads @ '') must be divisible by num_kv_heads ('' @ dec_int kv_heads @ '')''))))
      | _ \<Rightarrow> Inr [])"

definition decode_shapes :: "KernelRequest \<Rightarrow> string list result" where
  "decode_shapes rq =
     (case kr_tensors rq of
        [q, kv] \<Rightarrow>
          Inr ((if length (tm_shape q) \<noteq> 4 then [''q must be [B, 1, H, lora+rope]'']
                else reject (tm_shape q ! 1 \<noteq> 1) ''triton MLA decode supports q_len == 1'')
               @ reject (length (tm_shape kv) \<notin> {3, 4}) ''kv_cache must be 3-D or 4-D paged latent cache'')
      | _ \<Rightarrow> Inr [])"

definition MLA_PREFILL_REGISTRY :: "KernelRegistry result" where
  "MLA_PREFILL_REGISTRY =
     bindr (mk_signature [''q'', ''k'', ''v''] [ATTN_DTYPES, ATTN_DTYPES, ATTN_DTYPES] ''dense'') (\<lambda>sg. mk_registry
       [captured (prio PORTABLE) sg (kernel_impl ''mla_prefill'' ''triton'' ''triton'' kv_head_grouping
          ''vkernels.torch_ops.tokenspeed_mla:triton_mla_prefill'')])"

definition MLA_DECODE_REGISTRY :: "KernelRegistry result" where
  "MLA_DECODE_REGISTRY =
     bindr (mk_signature [''q'', ''kv_cache''] [ATTN_DTYPES, ATTN_DTYPES] ''paged'') (\<lambda>sg. mk_registry
       [captured (prio PORTABLE) sg (kernel_impl ''mla_decode'' ''triton'' ''triton'' decode_shapes
          ''vkernels.torch_ops.tokenspeed_mla:triton_mla_decode_with_kvcache'')])"

definition MLA_REGISTRY :: "KernelRegistry result" where
  "MLA_REGISTRY =
     bindr MLA_PREFILL_REGISTRY (\<lambda>p. bindr MLA_DECODE_REGISTRY (\<lambda>d. mk_registry (kg_implementations p @ kg_implementations d)))"

section \<open>Sparse attention\<close>

definition dsa_check :: "KernelRequest \<Rightarrow> string list result" where
  "dsa_check rq =
     (if length (kr_tensors rq) \<in> {2, 3}
      then let q = tm_shape (hd (kr_tensors rq)) in
        Inr ((if length q \<noteq> 3 then [''q must be [tokens, H, lora+rope]'']
              else reject (q ! 2 \<le> 0 \<or> q ! 1 \<le> 0) ''q heads and head dim must be positive'')
             @ reject (\<not> list_all gpu_resident (kr_tensors rq)) ''GPU-resident tensors required'')
      else Inr [])"

definition dsa_impl :: "FormatSignature \<Rightarrow> string \<Rightarrow> string \<Rightarrow> KernelImplementation" where
  "dsa_impl sg name entrypoint = captured (prio PORTABLE) sg (kernel_impl ''dsa_attention'' name ''triton'' dsa_check entrypoint)"

definition DSA_REGISTRY :: "KernelRegistry result" where
  "DSA_REGISTRY =
     bindr (mk_signature [''q'', ''kv''] [ATTN_DTYPES, ATTN_DTYPES] ''paged'') (\<lambda>sg. mk_registry
       [dsa_impl sg ''triton_dense_kv'' ''vkernels.torch_ops.tokenspeed_dsa:triton_dsa_prefill'',
        dsa_impl sg ''triton_packed_kv'' ''vkernels.torch_ops.tokenspeed_dsa:triton_dsa_decode''])"

section \<open>Selected-expert products\<close>

definition EXPERT_GEMV_SIGNATURES :: "FormatSignature result" where
  "EXPERT_GEMV_SIGNATURES =
     mk_signature [''x'', ''weights'', ''scales'', ''indices'']
       [{''bfloat16''}, {''float8_e4m3fn'', ''float8_e4m3fnuz''}, {''float32''}, {''int64''}] ''dense''"

definition expert_check :: "KernelRequest \<Rightarrow> string list result" where
  "expert_check rq =
     (case kr_tensors rq of
        [x, weights, scales, indices] \<Rightarrow>
          (case (tm_shape weights, tm_shape indices) of
             ([e, out, i], [t, k]) \<Rightarrow>
               bindr (case map_of (rev (kr_parameters rq)) ''t_cap'' of None \<Rightarrow> Inr 2 | Some v \<Rightarrow> py_int v) (\<lambda>c.
                 let cap = max 2 c in
                 Inr (reject (min e (min out i) \<le> 0 \<or> out mod 128 \<noteq> 0 \<or> i mod 128 \<noteq> 0 \<or> t > cap)
                        (''requires positive block-128 dimensions and T<='' @ dec_int cap)
                      @ reject (tm_shape x \<notin> {[t, i], [t, k, i]} \<or> tm_shape scales \<noteq> [e, out div 128, i div 128])
                          ''activation or block-scale shape mismatch''
                      @ reject (list_ex (\<lambda>tensor. tm_device tensor \<noteq> tm_device x) (kr_tensors rq)) ''inputs must share a device''
                      @ reject (list_ex (\<lambda>tensor. \<not> tm_contiguous tensor) (kr_tensors rq)) ''inputs must be contiguous''))
           | _ \<Rightarrow> Inr [''expected weights [E,O,I] and indices [T,K]''])
      | _ \<Rightarrow> Inr [''expected activations, weights, scales and expert indices''])"

definition expert_gpu :: "KernelRequest \<Rightarrow> string list result" where
  "expert_gpu rq =
     bindr (expert_check rq) (\<lambda>reasons.
       Inr (reasons @ reject (kr_tensors rq \<noteq> [] \<and> device_kind (hd (kr_tensors rq)) \<noteq> ''cuda'') ''GPU inputs required''))"

text \<open>A further reason unless the weights of a four-tensor request have the given storage.\<close>

definition storage_reason :: "string \<Rightarrow> string \<Rightarrow> KernelRequest \<Rightarrow> string list \<Rightarrow> string list" where
  "storage_reason dtype reason rq reasons =
     reasons @ reject (length (kr_tensors rq) = 4 \<and> tm_dtype (kr_tensors rq ! 1) \<noteq> dtype) reason"

definition expert_native :: "KernelRequest \<Rightarrow> string list result" where
  "expert_native rq = bindr (expert_gpu rq) (\<lambda>rs.
     Inr (storage_reason ''float8_e4m3fn'' ''native CUDA decoding requires E4M3FN storage'' rq rs))"

definition expert_reference :: "KernelRequest \<Rightarrow> string list result" where
  "expert_reference rq = bindr (expert_check rq) (\<lambda>rs.
     Inr (storage_reason ''float8_e4m3fn'' ''reference oracle requires E4M3FN storage'' rq rs))"

definition expert_check_fnuz :: "KernelRequest \<Rightarrow> string list result" where
  "expert_check_fnuz rq = bindr (expert_gpu rq) (\<lambda>rs.
     Inr (storage_reason ''float8_e4m3fnuz'' ''fnuz variant requires in-place converted E4M3FNUZ storage'' rq rs))"

definition expert_impls :: "FormatSignature \<Rightarrow> KernelImplementation list" where
  "expert_impls sg =
     [captured (prio SPECIALIZED) sg (kernel_impl ''expert_gemv'' ''cuda_native'' ''triton_cuda'' expert_native
        ''vkernels.torch_ops.glm_expert_gemv:_launch_native''),
      captured (prio PORTABLE) sg (kernel_impl ''expert_gemv'' ''portable'' ''triton'' expert_gpu
        ''vkernels.torch_ops.glm_expert_gemv:_launch_portable''),
      (captured (prio PORTABLE + 1) sg (kernel_impl ''expert_gemv'' ''portable_fnuz'' ''triton'' expert_check_fnuz
        ''vkernels.torch_ops.glm_expert_gemv:_launch_portable''))
        \<lparr>ki_weight_preprocessor := Some ''vkernels.torch_ops.glm_fp8_blockwise_gemm:e4m3fn_to_fnuz_inplace''\<rparr>,
      (kernel_impl ''expert_gemv'' ''torch_reference'' ''torch'' expert_reference
        ''vkernels.torch_ops.glm_expert_gemv:expert_gemv_reference'')\<lparr>ki_reference := True\<rparr>]"

definition EXPERT_GEMV_REGISTRY :: "KernelRegistry result" where
  "EXPERT_GEMV_REGISTRY = bindr EXPERT_GEMV_SIGNATURES (\<lambda>sg. mk_registry (expert_impls sg))"


section \<open>TokenSpeed AMD\<close>

definition FLOAT_DTYPES :: "string set" where
  "FLOAT_DTYPES = {''float16'', ''bfloat16'', ''float32''}"

definition gpu_check :: "KernelRequest \<Rightarrow> string list" where
  "gpu_check rq = reject (\<not> list_all gpu_resident (kr_tensors rq)) ''GPU-resident tensors required''"

definition router_check :: "KernelRequest \<Rightarrow> string list result" where
  "router_check rq =
     Inr (gpu_check rq @ (case kr_tensors rq of
        [] \<Rightarrow> []
      | logits # _ \<Rightarrow>
          if length (tm_shape logits) \<noteq> 2 then [''router logits must be [M, E]'']
          else reject (\<not> (0 < tm_shape logits ! 1 \<and> tm_shape logits ! 1 \<le> 1024)) ''num_experts must be in (0, 1024]''))"

definition sorting_check :: "KernelRequest \<Rightarrow> string list result" where
  "sorting_check rq =
     Inr (gpu_check rq @ (case kr_tensors rq of
        [ids, weights] \<Rightarrow>
          reject (tm_shape ids \<noteq> tm_shape weights \<or> length (tm_shape ids) \<noteq> 2) ''topk_ids/topk_weights must be matching [M, TOPK]''
      | _ \<Rightarrow> [''moe sorting needs (topk_ids, topk_weights)'']))"

definition argmax_check :: "KernelRequest \<Rightarrow> string list result" where
  "argmax_check rq =
     Inr (gpu_check rq @ (case kr_tensors rq of
        [] \<Rightarrow> [] | logits # _ \<Rightarrow> reject (length (tm_shape logits) \<noteq> 2) ''argmax logits must be [M, N]''))"

definition hadamard_check :: "KernelRequest \<Rightarrow> string list result" where
  "hadamard_check rq =
     Inr (gpu_check rq @ (case kr_tensors rq of
        [] \<Rightarrow> []
      | x # _ \<Rightarrow> reject (tm_shape x = [] \<or> last (tm_shape x) \<noteq> 128) ''hadamard_128 requires contiguous length-128 rows''))"

definition mhc_check :: "KernelRequest \<Rightarrow> string list result" where
  "mhc_check rq =
     Inr (gpu_check rq @
       (if 4 \<le> length (kr_tensors rq)
        then let residual = tm_shape (kr_tensors rq ! 2); layer_input = tm_shape (kr_tensors rq ! 3) in
          (if length residual \<noteq> 3 \<or> residual ! 1 \<noteq> 4 then [''mhc residual must be [tokens, 4, hidden]'']
           else if residual ! 2 \<notin> {4096, 7168} then [''mhc gluon specialization requires hidden 4096 or 7168'']
           else reject (residual ! 0 > 64) ''mhc gluon specialization is decode-shaped (<=64 tokens)'')
          @ reject (length layer_input \<noteq> 2) ''mhc layer_input must be [tokens, hidden]''
        else []))"

definition router_impls :: "FormatSignature \<Rightarrow> KernelImplementation list" where
  "router_impls sg =
     [captured (prio PORTABLE) sg (kernel_impl ''router_topk'' ''gluon-softmax'' ''gluon'' router_check
        ''vkernels.torch_ops.tokenspeed_amd.routing:invoke_softmax_topk_route_gluon''),
      captured (prio PORTABLE) sg (kernel_impl ''router_topk'' ''gluon-sigmoid-bias'' ''gluon'' router_check
        ''vkernels.torch_ops.tokenspeed_amd.routing:invoke_sigmoid_bias_topk_route_gluon'')]"

definition ROUTER_TOPK_REGISTRY :: "KernelRegistry result" where
  "ROUTER_TOPK_REGISTRY = bindr (mk_signature [''logits''] [FLOAT_DTYPES] ''dense'') (\<lambda>sg. mk_registry (router_impls sg))"

definition MOE_SORTING_REGISTRY :: "KernelRegistry result" where
  "MOE_SORTING_REGISTRY =
     bindr (mk_signature [''topk_ids'', ''topk_weights''] [{''int32''}, {''float32''}] ''dense'') (\<lambda>sg. mk_registry
       [captured (prio PORTABLE) sg (kernel_impl ''moe_sorting'' ''gluon'' ''gluon'' sorting_check
          ''vkernels.torch_ops.tokenspeed_amd.moe_sorting:gluon_moe_sorting'')])"

definition SAMPLING_ARGMAX_REGISTRY :: "KernelRegistry result" where
  "SAMPLING_ARGMAX_REGISTRY =
     bindr (mk_signature [''logits''] [FLOAT_DTYPES] ''dense'') (\<lambda>sg. mk_registry
       [captured (prio PORTABLE) sg (kernel_impl ''sampling_argmax'' ''gluon'' ''gluon'' argmax_check
          ''vkernels.torch_ops.tokenspeed_amd.argmax:launch_gluon_argmax_gfx950'')])"

definition HADAMARD_TRANSFORM_REGISTRY :: "KernelRegistry result" where
  "HADAMARD_TRANSFORM_REGISTRY =
     bindr (mk_signature [''x''] [{''bfloat16'', ''float16'', ''float32''}] ''dense'') (\<lambda>sg. mk_registry
       [captured (prio PORTABLE) sg (kernel_impl ''hadamard_transform'' ''gluon-128'' ''gluon'' hadamard_check
          ''vkernels.torch_ops.tokenspeed_amd.hadamard:launch_gluon_hadamard_transform_128_gfx950'')])"

definition MHC_PRE_REGISTRY :: "KernelRegistry result" where
  "MHC_PRE_REGISTRY =
     bindr (mk_signature [''gemm_out_mul'', ''gemm_out_sqrsum'', ''residual'', ''layer_input'']
              [FLOAT_DTYPES, FLOAT_DTYPES, FLOAT_DTYPES, {''bfloat16''}] ''dense'') (\<lambda>sg. mk_registry
       [captured (prio PORTABLE) sg (kernel_impl ''mhc_pre'' ''gluon'' ''gluon'' mhc_check
          ''vkernels.torch_ops.tokenspeed_amd.mhc:gluon_mhc_pre_reduce_apply_gfx950'')])"

definition TOKENSPEED_AMD_REGISTRY :: "KernelRegistry result" where
  "TOKENSPEED_AMD_REGISTRY =
     bindr (mapr (\<lambda>r. r) [ROUTER_TOPK_REGISTRY, MOE_SORTING_REGISTRY, SAMPLING_ARGMAX_REGISTRY, HADAMARD_TRANSFORM_REGISTRY, MHC_PRE_REGISTRY])
       (\<lambda>rs. mk_registry (concat (map kg_implementations rs)))"

section \<open>What the registries offer\<close>

definition torch_registries :: "KernelRegistry result list" where
  "torch_registries = [MOE_COMBINE_REGISTRY, MLA_PREFILL_REGISTRY, MLA_DECODE_REGISTRY, MLA_REGISTRY, DSA_REGISTRY,
     EXPERT_GEMV_REGISTRY, TOKENSPEED_AMD_REGISTRY]"

text \<open>
  Every registry passes validation, none uses the band reserved for plug-ins, and every reference
  implementation sits in the reference band.
\<close>

lemma registries_valid:
  "list_all (\<lambda>r. case r of Inl _ \<Rightarrow> False | Inr reg \<Rightarrow>
      list_all (\<lambda>i. band_of (ki_priority i) \<noteq> PLUGIN \<and> (ki_reference i \<longrightarrow> band_of (ki_priority i) = REFERENCE)) (kg_implementations reg))
     torch_registries"
  by code_simp

lemma select_Inr_ok:
  assumes "mk_registry impls = Inr reg" "select reg rq override al = Inr i"
  shows "0 \<le> kr_workspace_bytes rq" "j \<in> set impls \<Longrightarrow> ki_operation j = kr_operation rq \<Longrightarrow> is_ok (ki_check j rq)"
proof -
  have k: "kg_implementations reg = impls" by (rule registry_keys(1) [OF assms(1)])
  obtain ex where ex: "explain reg rq override al = Inr ex" using assms(2) by (auto simp: select_def result_simps)
  then show "0 \<le> kr_workspace_bytes rq" by (auto simp: explain_def split: if_splits)
  show "is_ok (ki_check j rq)" if j: "j \<in> set impls" "ki_operation j = kr_operation rq"
  proof -
    have "j \<in> set (candidates impls (kr_operation rq))" using j by (simp add: candidates_def)
    moreover have "\<forall>x \<in> set xs. is_ok (f x)" if "mapr f xs = Inr ys" for f :: "KernelImplementation \<Rightarrow> 'b result" and xs ys
      using that by (induction xs arbitrary: ys) (auto simp: result_simps)
    ultimately have "is_ok (bindr (impl_reasons rq al j) (\<lambda>rs. Inr (j, rs)))"
      using ex unfolding explain_value k by (fastforce simp: result_simps split: if_splits)
    then show ?thesis using impl_reasons_ok [of rq al j] by (cases "impl_reasons rq al j") auto
  qed
qed

lemma select_find:
  assumes "mk_registry impls = Inr reg" "select reg rq override al = Inr i"
  shows "find (\<lambda>i. eligible rq al i \<and> wanted override i) (candidates impls (kr_operation rq)) = Some i"
proof -
  have k: "kg_implementations reg = impls" by (rule registry_keys(1) [OF assms(1)])
  note ok = select_Inr_ok [OF assms]
  have "select reg rq override al =
      (case find (\<lambda>i. eligible rq al i \<and> wanted override i) (candidates impls (kr_operation rq)) of
         None \<Rightarrow> Inl KernelSelectionError | Some i \<Rightarrow> Inr i)"
    unfolding k [symmetric] by (rule select_value [OF ok(1)]) (use ok(2) in \<open>simp add: k candidates_def\<close>)
  then show ?thesis using assms(2) by (simp split: option.splits)
qed

lemma find_SomeD: "find P xs = Some x \<Longrightarrow> x \<in> set xs \<and> P x"
  by (induction xs) (auto split: if_splits)

lemma select_mem:
  assumes "mk_registry impls = Inr reg" "select reg rq override al = Inr i"
  shows "i \<in> set impls" "eligible rq al i"
  using find_SomeD [OF select_find [OF assms]] by (simp_all add: candidates_def)

text \<open>An implementation is never selected by default when another one passes whenever it does and comes first.\<close>

lemma shadowed:
  assumes "mk_registry impls = Inr reg" "select reg rq None al = Inr j" "i \<in> set impls"
    and "eligible rq al j \<Longrightarrow> eligible rq al i"
  shows "impl_key j \<le> impl_key i"
proof -
  have "sorted (map impl_key (candidates impls (kr_operation rq)))" by (simp add: candidates_def)
  note first = select_find [OF assms(1,2), unfolded find_first_key(1) [OF this registry_keys(2) [OF assms(1)]]]
  then have ei: "eligible rq al i" using assms(4) by simp
  then have "i \<in> set (candidates impls (kr_operation rq))" using assms(3) unfolding candidates_def eligible_def by simp
  with first ei show ?thesis unfolding wanted_def by simp
qed

text \<open>
  Two pairs of registrations differ in name and entry point only, so the one with the larger name is never
  selected without an override: the softmax router, and the packed form of sparse attention.
\<close>

lemma router_softmax_shadowed:
  assumes "ROUTER_TOPK_REGISTRY = Inr reg" "select reg rq None al = Inr j"
  shows "ki_name j \<noteq> ''gluon-softmax''"
proof -
  obtain sg where r: "mk_registry (router_impls sg) = Inr reg" using assms(1) by (auto simp: ROUTER_TOPK_REGISTRY_def result_simps)
  let ?i = "router_impls sg ! 1"
  have "impl_key j \<le> impl_key ?i" if "j = router_impls sg ! 0"
    by (rule shadowed [OF r assms(2)]) (simp_all add: that router_impls_def captured_def kernel_impl_def eligible_def)
  moreover have "\<not> impl_key (router_impls sg ! 0) \<le> impl_key ?i"
    unfolding router_impls_def captured_def kernel_impl_def impl_key_def by code_simp
  moreover have "j \<in> set (router_impls sg)" by (rule select_mem(1) [OF r assms(2)])
  ultimately show ?thesis by (auto simp: router_impls_def captured_def kernel_impl_def)
qed


lemma dsa_packed_shadowed:
  assumes "DSA_REGISTRY = Inr reg" "select reg rq None al = Inr j"
  shows "ki_name j \<noteq> ''triton_packed_kv''"
proof -
  let ?impls = "\<lambda>sg. [dsa_impl sg ''triton_dense_kv'' ''vkernels.torch_ops.tokenspeed_dsa:triton_dsa_prefill'',
        dsa_impl sg ''triton_packed_kv'' ''vkernels.torch_ops.tokenspeed_dsa:triton_dsa_decode'']"
  obtain sg where r: "mk_registry (?impls sg) = Inr reg" using assms(1) by (auto simp: DSA_REGISTRY_def result_simps)
  let ?i = "?impls sg ! 0"
  have "impl_key j \<le> impl_key ?i" if "j = ?impls sg ! 1"
    by (rule shadowed [OF r assms(2)]) (simp_all add: that dsa_impl_def captured_def kernel_impl_def eligible_def)
  moreover have "\<not> impl_key (?impls sg ! 1) \<le> impl_key ?i"
    unfolding dsa_impl_def captured_def kernel_impl_def impl_key_def by code_simp
  moreover have "j \<in> set (?impls sg)" by (rule select_mem(1) [OF r assms(2)])
  ultimately show ?thesis by (auto simp: dsa_impl_def captured_def kernel_impl_def)
qed

text \<open>
  Choice of the selected-expert product.  For a request that carries the four tensors in the declared
  formats and passes the shared shape and device check, the default selection is: for weights stored as
  e4m3fn, the native kernel when its back end is available, else the portable one; for weights converted
  to e4m3fnuz, the variant that declares the conversion; without a usable back end the request is refused.
\<close>

lemma expert_gemv_choice:
  assumes "EXPERT_GEMV_REGISTRY = Inr reg" "EXPERT_GEMV_SIGNATURES = Inr sg"
    and "kr_operation rq = ''expert_gemv''" "0 \<le> kr_workspace_bytes rq"
    and "expert_gpu rq = Inr []" "sig_matches sg (kr_tensors rq) = []"
  shows "bindr (select reg rq None False) (\<lambda>i. Inr (ki_name i)) =
    (if tm_dtype (kr_tensors rq ! 1) = ''float8_e4m3fn'' \<and> ''triton_cuda'' \<in> kr_backends rq then Inr ''cuda_native''
     else if ''triton'' \<notin> kr_backends rq then Inl KernelSelectionError
     else if tm_dtype (kr_tensors rq ! 1) = ''float8_e4m3fnuz'' then Inr ''portable_fnuz''
     else Inr ''portable'')"
proof -
  have r: "mk_registry (expert_impls sg) = Inr reg" using assms(1) unfolding EXPERT_GEMV_REGISTRY_def assms(2) by simp
  have k: "kg_implementations reg = expert_impls sg" by (rule registry_keys(1) [OF r])
  have sgv: "fs_roles sg = [''x'', ''weights'', ''scales'', ''indices'']" using assms(2) by (auto simp: EXPERT_GEMV_SIGNATURES_def mk_signature_def split: if_splits)
  have four: "length (kr_tensors rq) = 4" using assms(6) sgv by (auto simp: sig_matches_def split: if_splits)
  have chk: "expert_check rq = Inr []" using assms(5) by (auto simp: expert_gpu_def result_simps)
  have c: "candidates (expert_impls sg) ''expert_gemv'' = [expert_impls sg ! 0, expert_impls sg ! 2, expert_impls sg ! 1, expert_impls sg ! 3]"
    unfolding candidates_def
  proof (rule sort_key_inj_key_eq)
    have "map impl_key [expert_impls sg ! 0, expert_impls sg ! 2, expert_impls sg ! 1, expert_impls sg ! 3] =
        [(- 12, ''cuda_native''), (- 5, ''portable_fnuz''), (- 4, ''portable''), (0, ''torch_reference'')]"
      by (simp add: expert_impls_def captured_def kernel_impl_def impl_key_def)
    also have "sorted \<dots>" by code_simp
    finally show "sorted (map impl_key [expert_impls sg ! 0, expert_impls sg ! 2, expert_impls sg ! 1, expert_impls sg ! 3])" .
    show "inj_on impl_key (set (filter (\<lambda>i. ki_operation i = ''expert_gemv'') (expert_impls sg)))"
      using registry_keys(2) [OF r, of "''expert_gemv''"] by (simp add: candidates_def)
  qed (simp add: expert_impls_def captured_def kernel_impl_def)
  have e: "ki_check (expert_impls sg ! 0) rq = Inr (reject (tm_dtype (kr_tensors rq ! 1) \<noteq> ''float8_e4m3fn'') ''native CUDA decoding requires E4M3FN storage'')"
      "ki_check (expert_impls sg ! 1) rq = Inr []"
      "ki_check (expert_impls sg ! 2) rq = Inr (reject (tm_dtype (kr_tensors rq ! 1) \<noteq> ''float8_e4m3fnuz'') ''fnuz variant requires in-place converted E4M3FNUZ storage'')"
      "ki_check (expert_impls sg ! 3) rq = Inr (reject (tm_dtype (kr_tensors rq ! 1) \<noteq> ''float8_e4m3fn'') ''reference oracle requires E4M3FN storage'')"
    using assms(5) chk four
    by (simp_all add: expert_impls_def captured_def kernel_impl_def expert_native_def expert_check_fnuz_def expert_reference_def storage_reason_def)
  let ?el = "\<lambda>n. eligible rq False (expert_impls sg ! n)" and ?w = "tm_dtype (kr_tensors rq ! 1)"
  have el: "?el 0 \<longleftrightarrow> ?w = ''float8_e4m3fn'' \<and> ''triton_cuda'' \<in> kr_backends rq" "?el 1 \<longleftrightarrow> ''triton'' \<in> kr_backends rq"
      "?el 2 \<longleftrightarrow> ?w = ''float8_e4m3fnuz'' \<and> ''triton'' \<in> kr_backends rq" "\<not> ?el 3"
    unfolding eligible_def e using assms(3,4,6)
    by (auto simp: expert_impls_def captured_def kernel_impl_def reject_def)
  have nm: "map (\<lambda>n. ki_name (expert_impls sg ! n)) [0, 1, 2, 3] = [''cuda_native'', ''portable'', ''portable_fnuz'', ''torch_reference'']"
    by (simp add: expert_impls_def captured_def kernel_impl_def)
  have "select reg rq None False =
      (case find (\<lambda>i. eligible rq False i \<and> wanted None i) (candidates (expert_impls sg) ''expert_gemv'') of
         None \<Rightarrow> Inl KernelSelectionError | Some i \<Rightarrow> Inr i)"
    unfolding k [symmetric] assms(3) [symmetric]
  proof (rule select_value [OF assms(4)])
    fix i assume "i \<in> set (candidates (kg_implementations reg) (kr_operation rq))"
    then have "i \<in> set (map (\<lambda>n. expert_impls sg ! n) [0, 2, 1, 3])" unfolding k assms(3) c by simp
    then show "is_ok (ki_check i rq)" using e by auto
  qed
  then show ?thesis unfolding c using el nm by (auto simp: wanted_def)
qed

end
