(* ===== verification/Moe_Align.thy ===== *)
theory Moe_Align
  imports Prelude
begin

text \<open>
  Routing of tokens to experts for the grouped products of \<^verbatim>\<open>_fallback.py\<close> and \<^verbatim>\<open>dist.py\<close>: block alignment of a routing
  table, the expert ranges of the ranks, and the dispatch of one rank.

  A routing table has one entry per (token, selection), in flat order; an entry that names no expert
  is dropped.  \<^verbatim>\<open>np.empty\<close> leaves its cells unspecified: they are the argument \<open>junk\<close>.
\<close>

section \<open>Block alignment\<close>

definition per_expert :: "int list \<Rightarrow> int \<Rightarrow> nat list list" where
  "per_expert ids num_experts =
     foldl (\<lambda>per i. let e = ids ! i in if 0 \<le> e \<and> e < num_experts then per[nat e := per ! nat e @ [i]] else per)
       (replicate (nat num_experts) []) [0..<length ids]"

definition ceil_blocks :: "int \<Rightarrow> int \<Rightarrow> int" where
  "ceil_blocks n block_size = (n + block_size - 1) div block_size"

text \<open>\<^verbatim>\<open>arr[idx] = v; idx += 1\<close>\<close>

definition put :: "int \<times> 'a list \<Rightarrow> 'a \<Rightarrow> (int \<times> 'a list) result" where
  "put st v = (if fst st < int (length (snd st)) then Inr (fst st + 1, (snd st)[nat (fst st) := v]) else Inl IndexError)"

definition put_all :: "int \<times> 'a list \<Rightarrow> 'a list \<Rightarrow> (int \<times> 'a list) result" where
  "put_all st vs = foldr_res put st vs"

definition fill_expert :: "int \<Rightarrow> int \<Rightarrow> int \<times> int list \<Rightarrow> nat list \<Rightarrow> (int \<times> int list) result" where
  "fill_expert N block_size st tokens =
     (let nt = int (length tokens) in
      bindr (put_all st (map int tokens)) (\<lambda>st.
        put_all st (map (\<lambda>_. N) (urange2 nt (ceil_blocks nt block_size * block_size)))))"

definition fill_blocks :: "int \<Rightarrow> int \<times> int list \<Rightarrow> int \<times> nat list \<Rightarrow> (int \<times> int list) result" where
  "fill_blocks block_size st et =
     (let nt = int (length (snd et)) in
      put_all st (map (\<lambda>b. if b * block_size < nt then fst et else - 1) (urange (ceil_blocks nt block_size))))"

definition moe_align_block_size ::
  "int \<Rightarrow> int list \<Rightarrow> int \<Rightarrow> int \<Rightarrow> int \<Rightarrow> int \<Rightarrow> (int list \<times> int list \<times> int) result" where
  "moe_align_block_size junk ids M top_k block_size num_experts =
     (if int (length ids) \<noteq> M * top_k then Inl ValueError
      else if block_size \<le> 0 then Inl ValueError
      else
        let N = M * top_k;
            per = per_expert ids num_experts;
            EM = foldl (\<lambda>em v. em + ceil_blocks (int (length v)) block_size * block_size) 0 per
        in bindr (foldr_res (fill_expert N block_size) (0, replicate (nat EM) junk) per) (\<lambda>(_, sorted_ids).
           bindr (foldr_res (fill_blocks block_size) (0, replicate (nat (EM div block_size)) (- 1)) (zip (urange num_experts) per))
             (\<lambda>(_, expert_ids). Inr (sorted_ids, expert_ids, EM))))"

section \<open>Expert parallelism\<close>

record EpPlan =
  pl_ep :: int
  pl_rank :: int
  pl_expert_begin :: int
  pl_expert_end :: int
  pl_num_local :: int

definition ep_plan :: "int \<Rightarrow> int \<Rightarrow> int \<Rightarrow> EpPlan result" where
  "ep_plan num_experts ep rank =
     (if ep \<le> 0 then Inl ValueError
      else if rank < 0 \<or> rank \<ge> ep then Inl ValueError
      else if num_experts < ep then Inl ValueError
      else
        let base = num_experts div ep; rm = num_experts mod ep;
            begin' = rank * base + (if rank < rm then rank else rm);
            end' = begin' + base + (if rank < rm then 1 else 0)
        in Inr \<lparr>pl_ep = ep, pl_rank = rank, pl_expert_begin = begin', pl_expert_end = end', pl_num_local = end' - begin'\<rparr>)"

definition ep_mask :: "EpPlan \<Rightarrow> int list \<Rightarrow> int list" where
  "ep_mask plan ids = map (\<lambda>e. if pl_expert_begin plan \<le> e \<and> e < pl_expert_end plan then e else - 1) ids"

text \<open>The routing table has shape \<open>[M, top_k]\<close>; the public entry point takes both numbers from it.\<close>

definition ep_dispatch ::
  "int \<Rightarrow> int list \<Rightarrow> int \<Rightarrow> int \<Rightarrow> EpPlan \<Rightarrow> int \<Rightarrow> int \<Rightarrow> (int list \<times> int list \<times> int) result" where
  "ep_dispatch junk topk_ids M top_k plan num_experts block_size =
     bindr (moe_align_block_size junk (ep_mask plan topk_ids) M top_k block_size num_experts) (\<lambda>(sorted_ids, expert_ids, EM).
       Inr (sorted_ids, map (\<lambda>e. if e \<ge> 0 then e - pl_expert_begin plan else e) expert_ids, EM))"

section \<open>Tensor parallelism\<close>

record TpPlan =
  tpl_tp :: int
  tpl_hidden :: int
  tpl_ispp :: int
  tpl_hidden_shard :: int
  tpl_ispp_shard :: int
  tpl_w13_shard_bytes :: int
  tpl_w13s_shard_bytes :: int
  tpl_w2_shard_bytes :: int
  tpl_w2s_shard_bytes :: int

definition tp_plan :: "int \<Rightarrow> int \<Rightarrow> int \<Rightarrow> int \<Rightarrow> TpPlan result" where
  "tp_plan hidden ispp tp group_size =
     (if tp \<le> 0 then Inl ValueError
      else if hidden mod tp \<noteq> 0 \<or> ispp mod tp \<noteq> 0 then Inl ValueError
      else
        let hs = hidden div tp; ps = ispp div tp in
        if hs mod 64 \<noteq> 0 \<or> ps mod 64 \<noteq> 0 then Inl ValueError
        else if group_size = 0 then Inl ZeroDivisionError
        else if hs mod group_size \<noteq> 0 \<or> ps mod group_size \<noteq> 0 then Inl ValueError
        else Inr \<lparr>tpl_tp = tp, tpl_hidden = hidden, tpl_ispp = ispp, tpl_hidden_shard = hs, tpl_ispp_shard = ps,
                  tpl_w13_shard_bytes = 2 * ispp * (hs div 2), tpl_w13s_shard_bytes = 2 * ispp * (hs div group_size),
                  tpl_w2_shard_bytes = hidden * (ps div 2), tpl_w2s_shard_bytes = hidden * (ps div group_size)\<rparr>)"

section \<open>The layout\<close>

lemma ceil_blocks_bounds:
  assumes "0 < bs" "0 \<le> n"
  shows "n \<le> ceil_blocks n bs * bs" "ceil_blocks n bs * bs < n + bs" "0 \<le> ceil_blocks n bs"
proof -
  have "(n + bs - 1) div bs * bs + (n + bs - 1) mod bs = n + bs - 1" by simp
  moreover have "0 \<le> (n + bs - 1) mod bs" "(n + bs - 1) mod bs < bs" using assms by simp_all
  ultimately show "n \<le> ceil_blocks n bs * bs" "ceil_blocks n bs * bs < n + bs" unfolding ceil_blocks_def by linarith+
  show "0 \<le> ceil_blocks n bs" using assms by (simp add: ceil_blocks_def div_int_pos_iff)
qed

lemma ceil_blocks_less_iff:
  assumes "0 < bs" "0 \<le> n" "0 \<le> b"
  shows "b < ceil_blocks n bs \<longleftrightarrow> b * bs < n"
proof
  assume "b < ceil_blocks n bs"
  then have "(b + 1) * bs \<le> ceil_blocks n bs * bs" using assms(1) by (intro mult_right_mono) auto
  then show "b * bs < n" using ceil_blocks_bounds(2) [OF assms(1,2)] by (simp add: algebra_simps)
next
  assume "b * bs < n"
  then have "b * bs < ceil_blocks n bs * bs" using ceil_blocks_bounds(1) [OF assms(1,2)] by linarith
  then show "b < ceil_blocks n bs" using assms(1) by simp
qed

text \<open>The tokens of an expert, and its rows and blocks in the aligned layout.\<close>

definition tokens_of :: "int list \<Rightarrow> int \<Rightarrow> nat list" where
  "tokens_of ids e = filter (\<lambda>i. ids ! i = e) [0..<length ids]"

definition expert_rows :: "int \<Rightarrow> int list \<Rightarrow> int \<Rightarrow> int list" where
  "expert_rows bs ids e =
     map int (tokens_of ids e)
     @ replicate (nat (ceil_blocks (int (length (tokens_of ids e))) bs * bs) - length (tokens_of ids e)) (int (length ids))"

definition expert_blocks :: "int \<Rightarrow> int list \<Rightarrow> int \<Rightarrow> int list" where
  "expert_blocks bs ids e = replicate (nat (ceil_blocks (int (length (tokens_of ids e))) bs)) e"

lemma per_expert_value: "per_expert ids E = map (tokens_of ids) (urange E)"
proof -
  have "foldl (\<lambda>per i. let e = ids ! i in if 0 \<le> e \<and> e < E then per[nat e := per ! nat e @ [i]] else per) (replicate (nat E) []) [0..<n]
      = map (\<lambda>e. filter (\<lambda>i. ids ! i = e) [0..<n]) (urange E)" for n
  proof (induction n)
    case 0
    show ?case by (rule nth_equalityI) (auto simp: urange_def)
  next
    case (Suc n)
    show ?case
    proof (rule nth_equalityI)
      fix k assume "k < length (foldl (\<lambda>per i. let e = ids ! i in if 0 \<le> e \<and> e < E then per[nat e := per ! nat e @ [i]] else per) (replicate (nat E) []) [0..<Suc n])"
      then have k: "k < nat E" using Suc by (auto simp: Let_def urange_def split: if_splits)
      show "foldl (\<lambda>per i. let e = ids ! i in if 0 \<le> e \<and> e < E then per[nat e := per ! nat e @ [i]] else per) (replicate (nat E) []) [0..<Suc n] ! k
          = map (\<lambda>e. filter (\<lambda>i. ids ! i = e) [0..<Suc n]) (urange E) ! k"
        using Suc k by (auto simp: Let_def urange_def nth_list_update)
    qed (use Suc in \<open>auto simp: Let_def urange_def\<close>)
  qed
  then show ?thesis unfolding per_expert_def tokens_of_def by simp
qed

lemma put_all_value:
  assumes "int (length arr) = int k + int (length vs) + r" "0 \<le> r" "k \<le> length arr"
  shows "put_all (int k, arr) vs = Inr (int (k + length vs), take k arr @ vs @ drop (k + length vs) arr)"
  using assms unfolding put_all_def
proof (induction vs arbitrary: k arr)
  case (Cons v vs)
  have k: "k < length arr" using Cons.prems by simp
  have "put (int k, arr) v = Inr (int (Suc k), arr[k := v])" using k by (simp add: put_def)
  moreover have "foldr_res put (int (Suc k), arr[k := v]) vs =
      Inr (int (Suc k + length vs), take (Suc k) (arr[k := v]) @ vs @ drop (Suc k + length vs) (arr[k := v]))"
    using Cons.prems k by (intro Cons.IH) simp_all
  moreover have "take (Suc k) (arr[k := v]) = take k arr @ [v]" using k by (simp add: take_Suc_conv_app_nth)
  ultimately show ?case using k by simp
qed simp

text \<open>Filling an array part by part gives the parts in sequence.\<close>

lemma fill_value:
  assumes "\<And>k arr x. x \<in> set xs \<Longrightarrow> k + length (g x) \<le> length arr \<Longrightarrow>
       f (int k, arr) x = Inr (int (k + length (g x)), take k arr @ g x @ drop (k + length (g x)) arr)"
    and "length arr = k + length (concat (map g xs))"
  shows "foldr_res f (int k, arr) xs = Inr (int (length arr), take k arr @ concat (map g xs))"
  using assms
proof (induction xs arbitrary: k arr)
  case (Cons x xs)
  let ?arr = "take k arr @ g x @ drop (k + length (g x)) arr"
  have s: "f (int k, arr) x = Inr (int (k + length (g x)), ?arr)" using Cons.prems by simp
  have l: "length ?arr = length arr" using Cons.prems(2) by simp
  have "foldr_res f (int (k + length (g x)), ?arr) xs = Inr (int (length ?arr), take (k + length (g x)) ?arr @ concat (map g xs))"
    using Cons.prems l by (intro Cons.IH) simp_all
  then show ?case using s l Cons.prems(2) by simp
qed simp

lemma length_expert_rows:
  assumes "0 < bs"
  shows "int (length (expert_rows bs ids e)) = ceil_blocks (int (length (tokens_of ids e))) bs * bs"
    "length (expert_rows bs ids e) = length (expert_blocks bs ids e) * nat bs"
proof -
  have c: "int (length (tokens_of ids e)) \<le> ceil_blocks (int (length (tokens_of ids e))) bs * bs" "0 \<le> ceil_blocks (int (length (tokens_of ids e))) bs"
    using ceil_blocks_bounds [OF assms] by simp_all
  then show a: "int (length (expert_rows bs ids e)) = ceil_blocks (int (length (tokens_of ids e))) bs * bs"
    by (simp add: expert_rows_def nat_le_iff of_nat_diff)
  have "int (length (expert_blocks bs ids e) * nat bs) = ceil_blocks (int (length (tokens_of ids e))) bs * bs"
    using c(2) assms by (simp add: expert_blocks_def)
  then show "length (expert_rows bs ids e) = length (expert_blocks bs ids e) * nat bs" using a by linarith
qed

lemma put_all_app:
  assumes "k + length vs \<le> length arr"
  shows "put_all (int k, arr) vs = Inr (int (k + length vs), take k arr @ vs @ drop (k + length vs) arr)"
  using put_all_value [of arr k vs "int (length arr) - int k - int (length vs)"] assms by simp

lemma fill_expert_value:
  assumes "0 < bs" "k + length (expert_rows bs ids e) \<le> length arr"
  shows "fill_expert (int (length ids)) bs (int k, arr) (tokens_of ids e) =
    Inr (int (k + length (expert_rows bs ids e)), take k arr @ expert_rows bs ids e @ drop (k + length (expert_rows bs ids e)) arr)"
proof -
  let ?ts = "map int (tokens_of ids e)" and ?n = "length (tokens_of ids e)"
  let ?p = "nat (ceil_blocks (int ?n) bs * bs) - ?n"
  let ?pad = "replicate ?p (int (length ids))"
  have rows: "expert_rows bs ids e = ?ts @ ?pad" by (simp add: expert_rows_def)
  have pad: "map (\<lambda>_. int (length ids)) (urange2 (int ?n) (ceil_blocks (int ?n) bs * bs)) = ?pad"
    by (simp add: urange2_def map_replicate_const nat_diff_distrib')
  let ?arr = "take k arr @ ?ts @ drop (k + ?n) arr"
  have l: "k + ?n + ?p \<le> length arr" using assms(2) unfolding rows by simp
  have 1: "put_all (int k, arr) ?ts = Inr (int (k + ?n), ?arr)" using put_all_app [of k ?ts arr] l by simp
  have 2: "put_all (int (k + ?n), ?arr) ?pad = Inr (int (k + ?n + ?p), take (k + ?n) ?arr @ ?pad @ drop (k + ?n + ?p) ?arr)"
    using put_all_app [of "k + ?n" ?pad ?arr] l by simp
  have 3: "take (k + ?n) ?arr = take k arr @ ?ts" "drop (k + ?n + ?p) ?arr = drop (k + ?n + ?p) arr"
    using l by (simp_all add: add.commute)
  show ?thesis unfolding fill_expert_def Let_def 1 bindr.simps pad 2 3 rows by (simp add: add.assoc)
qed

lemma fill_blocks_value:
  assumes "0 < bs" "k + length (expert_blocks bs ids e) \<le> length arr"
  shows "fill_blocks bs (int k, arr) (e, tokens_of ids e) =
    Inr (int (k + length (expert_blocks bs ids e)), take k arr @ expert_blocks bs ids e @ drop (k + length (expert_blocks bs ids e)) arr)"
proof -
  let ?n = "int (length (tokens_of ids e))"
  have "map (\<lambda>b. if b * bs < ?n then e else - 1) (urange (ceil_blocks ?n bs)) = expert_blocks bs ids e"
  proof (rule nth_equalityI)
    fix b assume "b < length (map (\<lambda>b. if b * bs < ?n then e else - 1) (urange (ceil_blocks ?n bs)))"
    then have "int b < ceil_blocks ?n bs" by (simp add: urange_def)
    then show "map (\<lambda>b. if b * bs < ?n then e else - 1) (urange (ceil_blocks ?n bs)) ! b = expert_blocks bs ids e ! b"
      using ceil_blocks_less_iff [OF assms(1), of ?n "int b"] by (simp add: urange_def expert_blocks_def)
  qed (simp add: urange_def expert_blocks_def)
  then show ?thesis using put_all_app [OF assms(2)] unfolding fill_blocks_def Let_def fst_conv snd_conv by simp
qed

lemma align_value:
  "moe_align_block_size junk ids M top_k bs E =
     (if int (length ids) \<noteq> M * top_k \<or> bs \<le> 0 then Inl ValueError
      else Inr (concat (map (expert_rows bs ids) (urange E)), concat (map (expert_blocks bs ids) (urange E)),
                int (length (concat (map (expert_rows bs ids) (urange E))))))"
proof (cases "int (length ids) \<noteq> M * top_k \<or> bs \<le> 0")
  case False
  then have bs: "0 < bs" and N: "M * top_k = int (length ids)" by auto
  let ?rows = "concat (map (expert_rows bs ids) (urange E))" and ?blocks = "concat (map (expert_blocks bs ids) (urange E))"
  let ?EM = "foldl (\<lambda>em v. em + ceil_blocks (int (length v)) bs * bs) 0 (per_expert ids E)"
  have fold_sum: "foldl (\<lambda>em v. em + g v) a xs = a + sum_list (map g xs)" for g :: "nat list \<Rightarrow> int" and a xs
    by (induction xs arbitrary: a) (simp_all add: algebra_simps)
  have EM: "?EM = int (length ?rows)"
    unfolding fold_sum per_expert_value by (simp add: length_concat comp_def length_expert_rows(1) [OF bs] flip: sum_list_of_nat)
  have "length ?rows = length ?blocks * nat bs"
    by (simp add: length_concat comp_def length_expert_rows(2) [OF bs] sum_list_mult_const)
  then have EMb: "nat (int (length ?rows) div bs) = length ?blocks" using bs by (simp add: nat_div_distrib)
  have r: "foldr_res (fill_expert (int (length ids)) bs) (int 0, replicate (length ?rows) junk) (map (tokens_of ids) (urange E)) =
      Inr (int (length ?rows), ?rows)"
    unfolding foldr_res_map
    by (subst fill_value [where g = "expert_rows bs ids"]) (simp_all add: fill_expert_value [OF bs])
  have z: "zip (urange E) (map (tokens_of ids) (urange E)) = map (\<lambda>e. (e, tokens_of ids e)) (urange E)"
    by (simp add: zip_map2 zip_same_conv_map)
  have b: "foldr_res (fill_blocks bs) (int 0, replicate (length ?blocks) (- 1)) (zip (urange E) (map (tokens_of ids) (urange E))) =
      Inr (int (length ?blocks), ?blocks)"
    unfolding z foldr_res_map
    by (subst fill_value [where g = "expert_blocks bs ids"]) (simp_all add: fill_blocks_value [OF bs])
  show ?thesis using bs r b N unfolding moe_align_block_size_def Let_def EM N EMb unfolding per_expert_value by simp
qed (auto simp: moe_align_block_size_def)


section \<open>What alignment guarantees\<close>

text \<open>Blocks of \<open>q\<close> rows each, every row related to the expert and to its place in its block.\<close>

definition aligned :: "nat \<Rightarrow> (int \<Rightarrow> nat \<Rightarrow> int \<Rightarrow> bool) \<Rightarrow> int list \<Rightarrow> int list \<Rightarrow> bool" where
  "aligned q P eids rows \<longleftrightarrow> length rows = length eids * q \<and> (\<forall>r < length rows. P (eids ! (r div q)) (r mod q) (rows ! r))"

lemma aligned_append:
  assumes "aligned q P es rs" "aligned q P es' rs'"
  shows "aligned q P (es @ es') (rs @ rs')"
proof -
  have "P ((es @ es') ! (r div q)) (r mod q) ((rs @ rs') ! r)" if r: "r < length (rs @ rs')" for r
  proof (cases "r < length rs")
    case True
    then have "r div q < length es" using assms(1) by (simp add: aligned_def less_mult_imp_div_less)
    then show ?thesis using True assms(1) by (simp add: aligned_def nth_append)
  next
    case False
    define x where "x = r - length rs"
    have x: "r = length es * q + x" "x < length rs'" using False r assms(1) by (simp_all add: x_def aligned_def)
    then have "0 < q" using assms(2) by (cases q) (simp_all add: aligned_def)
    then have "r div q = length es + x div q" "r mod q = x mod q" unfolding x(1) by (simp_all add: add.commute)
    then show ?thesis using False x assms by (simp add: aligned_def nth_append)
  qed
  then show ?thesis using assms by (simp add: aligned_def add_mult_distrib)
qed

lemma aligned_concat:
  assumes "\<And>e. e \<in> set es \<Longrightarrow> aligned q P (f e) (g e)"
  shows "aligned q P (concat (map f es)) (concat (map g es))"
  using assms by (induction es) (simp_all add: aligned_append, simp add: aligned_def)

lemma set_tokens_of: "i \<in> set (tokens_of ids e) \<longleftrightarrow> i < length ids \<and> ids ! i = e"
  by (auto simp: tokens_of_def)

lemma expert_rows_start:
  assumes "0 < bs" "r < length (expert_rows bs ids e)" "r mod nat bs = 0"
  shows "expert_rows bs ids e ! r < int (length ids)"
proof -
  let ?n = "length (tokens_of ids e)"
  have "r div nat bs < length (expert_blocks bs ids e)" using assms(2) length_expert_rows(2) [OF assms(1)] by (simp add: less_mult_imp_div_less)
  then have "int (r div nat bs) < ceil_blocks (int ?n) bs" by (simp add: expert_blocks_def)
  then have "int (r div nat bs) * bs < int ?n" using ceil_blocks_less_iff [OF assms(1), of "int ?n" "int (r div nat bs)"] by simp
  moreover have "int (r div nat bs) * bs = int r" using assms(1,3) div_mult_mod_eq [of r "nat bs"] by (metis add.right_neutral int_nat_eq less_le_not_le of_nat_mult)
  ultimately have r: "r < ?n" by linarith
  then have "tokens_of ids e ! r < length ids" using set_tokens_of nth_mem by blast
  then show ?thesis using r by (simp add: expert_rows_def nth_append)
qed

lemma expert_rows_aligned:
  assumes "0 < bs" "\<And>i. i < length ids \<Longrightarrow> ids ! i = e \<Longrightarrow> P e (int i)" "P e (int (length ids))"
  shows "aligned (nat bs) (\<lambda>e k t. P e t \<and> (k = 0 \<longrightarrow> t < int (length ids))) (expert_blocks bs ids e) (expert_rows bs ids e)"
proof -
  have l: "length (expert_rows bs ids e) = length (expert_blocks bs ids e) * nat bs" by (rule length_expert_rows(2) [OF assms(1)])
  have "P (expert_blocks bs ids e ! (r div nat bs)) (expert_rows bs ids e ! r)" if r: "r < length (expert_rows bs ids e)" for r
  proof -
    have "r div nat bs < length (expert_blocks bs ids e)" using r l by (simp add: less_mult_imp_div_less)
    moreover have "expert_rows bs ids e ! r \<in> set (expert_rows bs ids e)" using r by simp
    then have "P e (expert_rows bs ids e ! r)" using assms(2,3) by (auto simp: expert_rows_def set_tokens_of)
    ultimately show ?thesis by (simp add: expert_blocks_def)
  qed
  with l expert_rows_start [OF assms(1)] show ?thesis by (simp add: aligned_def)
qed

lemma sorted_blocks: "sorted es \<Longrightarrow> sorted (concat (map (expert_blocks bs ids) es))"
  by (induction es) (auto simp: sorted_append expert_blocks_def)

lemma sorted_urange: "sorted (urange n)"
  by (simp add: urange_def sorted_map sorted_wrt_upt)

lemma expert_rows_tokens: "filter (\<lambda>t. t < int (length ids)) (expert_rows bs ids e) = map int (tokens_of ids e)"
proof -
  have "filter (\<lambda>t. t < int (length ids)) (map int (tokens_of ids e)) = map int (tokens_of ids e)"
    by (simp add: filter_id_conv set_tokens_of)
  then show ?thesis by (simp add: expert_rows_def)
qed

lemma distinct_tokens: "distinct es \<Longrightarrow> distinct (concat (map (tokens_of ids) es))"
  by (induction es) (auto simp: set_tokens_of tokens_of_def)

lemma urange_mem: "e \<in> set (urange n) \<longleftrightarrow> 0 \<le> e \<and> e < n"
  by (auto simp: urange_def intro!: image_eqI [of _ _ "nat e"])

lemma urange_distinct: "distinct (urange n)"
  by (simp add: urange_def distinct_map)

lemma rows_bound:
  assumes "0 < bs"
  shows "int (length (concat (map (expert_rows bs ids) (urange E)))) \<le> int (length ids) + int (nat E) * (bs - 1)"
proof -
  have r: "int (length (expert_rows bs ids e)) \<le> int (length (tokens_of ids e)) + (bs - 1)" for e
    using length_expert_rows(1) [OF assms, of ids e] ceil_blocks_bounds(2) [OF assms, of "int (length (tokens_of ids e))"] by simp
  have "int (length (concat (map (expert_rows bs ids) es))) \<le> int (length (concat (map (tokens_of ids) es))) + int (length es) * (bs - 1)" for es
  proof (induction es)
    case (Cons e es)
    then show ?case using r [of e] by (simp add: algebra_simps)
  qed simp
  from this [of "urange E"] have "int (length (concat (map (expert_rows bs ids) (urange E))))
      \<le> int (length (concat (map (tokens_of ids) (urange E)))) + int (nat E) * (bs - 1)" by (simp add: urange_def)
  moreover have "length (concat (map (tokens_of ids) (urange E))) \<le> length ids"
  proof -
    have "card (set (concat (map (tokens_of ids) (urange E)))) \<le> card {..<length ids}"
      by (rule card_mono) (auto simp: set_tokens_of)
    then show ?thesis using distinct_card [OF distinct_tokens [OF urange_distinct, of ids E]] by simp
  qed
  ultimately show ?thesis by linarith
qed

text \<open>
  C38: Block alignment of a routing table.  For a table with the announced number of entries and a positive
  block size, alignment succeeds whatever the fresh array held.  It returns whole blocks; every block
  belongs to one expert, starts with a token, and holds only tokens routed to that expert or the padding
  value N; every entry that names an expert occurs exactly once, in ascending order within an expert, and
  experts in ascending order; and the padding is less than one block per expert.
\<close>

theorem moe_align_exact:
  assumes "int (length ids) = M * top_k" "0 < bs"
  shows "\<exists>rows eids. moe_align_block_size junk ids M top_k bs E = Inr (rows, eids, int (length rows))
    \<and> int (length rows) = int (length eids) * bs \<and> sorted eids
    \<and> (\<forall>r < length rows. let e = eids ! (r div nat bs); t = rows ! r in
         0 \<le> e \<and> e < E \<and> (t = int (length ids) \<or> 0 \<le> t \<and> t < int (length ids) \<and> ids ! nat t = e))
    \<and> (\<forall>b < length eids. rows ! (b * nat bs) < int (length ids))
    \<and> filter (\<lambda>t. t < int (length ids)) rows = concat (map (\<lambda>e. map int (filter (\<lambda>i. ids ! i = e) [0..<length ids])) (urange E))
    \<and> distinct (filter (\<lambda>t. t < int (length ids)) rows)
    \<and> set (filter (\<lambda>t. t < int (length ids)) rows) = int ` {i. i < length ids \<and> 0 \<le> ids ! i \<and> ids ! i < E}
    \<and> int (length rows) \<le> int (length ids) + int (nat E) * (bs - 1)"
proof -
  let ?rows = "concat (map (expert_rows bs ids) (urange E))" and ?eids = "concat (map (expert_blocks bs ids) (urange E))"
  let ?N = "int (length ids)"
  let ?Q = "\<lambda>e t. 0 \<le> e \<and> e < E \<and> (t = ?N \<or> 0 \<le> t \<and> t < ?N \<and> ids ! nat t = e)"
  have v: "moe_align_block_size junk ids M top_k bs E = Inr (?rows, ?eids, int (length ?rows))" using assms by (simp add: align_value)
  have a: "aligned (nat bs) (\<lambda>e k t. ?Q e t \<and> (k = 0 \<longrightarrow> t < ?N)) ?eids ?rows"
    by (rule aligned_concat, rule expert_rows_aligned [OF assms(2)]) (auto simp: urange_mem)
  have l: "int (length ?rows) = int (length ?eids) * bs" using a assms(2) by (simp add: aligned_def)
  have so: "sorted ?eids" by (rule sorted_blocks [OF sorted_urange])
  have st: "?rows ! (b * nat bs) < ?N" if "b < length ?eids" for b
  proof -
    have "b * nat bs < length ?rows" using a assms(2) that by (simp add: aligned_def)
    then show ?thesis using a unfolding aligned_def by (metis mod_mult_self2_is_0)
  qed
  have f: "filter (\<lambda>t. t < ?N) ?rows = concat (map (\<lambda>e. map int (tokens_of ids e)) (urange E))"
    unfolding filter_concat map_map comp_def expert_rows_tokens ..
  have fm: "\<dots> = map int (concat (map (tokens_of ids) (urange E)))" by (simp add: map_concat comp_def)
  have d: "distinct (filter (\<lambda>t. t < ?N) ?rows)" unfolding f fm by (simp only: distinct_map) (simp add: distinct_tokens urange_distinct)
  have s: "set (filter (\<lambda>t. t < ?N) ?rows) = int ` {i. i < length ids \<and> 0 \<le> ids ! i \<and> ids ! i < E}"
    unfolding f fm by (auto simp: set_tokens_of urange_mem)
  have b: "int (length ?rows) \<le> ?N + int (nat E) * (bs - 1)" by (rule rows_bound [OF assms(2)])
  have q: "\<forall>r < length ?rows. ?Q (?eids ! (r div nat bs)) (?rows ! r)" using a unfolding aligned_def by blast
  show ?thesis
    by (intro exI [of _ ?rows] exI [of _ ?eids] conjI v l so d s b)
      (use q st in \<open>simp_all add: Let_def f tokens_of_def\<close>)
qed


theorem moe_align_exact_witness:
  "moe_align_block_size 99 [0, 2, 2, 7, 2, 0] 3 2 2 3 = Inr ([0, 5, 1, 2, 4, 6], [0, 2, 2], 6)
   \<and> int (length [0, 5, 1, 2, 4, 6 :: int]) = int (length [0, 2, 2 :: int]) * 2 \<and> distinct (filter (\<lambda>t. t < 6) [0, 5, 1, 2, 4, 6 :: int])"
proof -
  have v: "moe_align_block_size 99 [0, 2, 2, 7, 2, 0] 3 2 2 3 = Inr ([0, 5, 1, 2, 4, 6], [0, 2, 2], 6)" by code_simp
  obtain rows eids where w: "moe_align_block_size 99 [0, 2, 2, 7, 2, 0] 3 2 2 3 = Inr (rows, eids, int (length rows))"
      "int (length rows) = int (length eids) * 2" "distinct (filter (\<lambda>t. t < int (length [0, 2, 2, 7, 2, 0 :: int])) rows)"
    using moe_align_exact [of "[0, 2, 2, 7, 2, 0]" 3 2 2 99 3] by auto
  from w(1) have "rows = [0, 5, 1, 2, 4, 6]" "eids = [0, 2, 2]" unfolding v by simp_all
  with v w(2,3) show ?thesis by simp
qed

section \<open>Expert ranges\<close>

definition rank_begin :: "int \<Rightarrow> int \<Rightarrow> int \<Rightarrow> int" where
  "rank_begin E ep r = r * (E div ep) + min r (E mod ep)"

lemma ep_plan_value:
  assumes "0 < ep" "ep \<le> E" "0 \<le> r" "r < ep"
  shows "ep_plan E ep r = Inr \<lparr>pl_ep = ep, pl_rank = r, pl_expert_begin = rank_begin E ep r, pl_expert_end = rank_begin E ep (r + 1),
      pl_num_local = rank_begin E ep (r + 1) - rank_begin E ep r\<rparr>"
  using assms by (auto simp: ep_plan_def rank_begin_def Let_def algebra_simps)

lemma rank_begin_ends: "0 < ep \<Longrightarrow> 0 \<le> E \<Longrightarrow> rank_begin E ep 0 = 0 \<and> rank_begin E ep ep = E"
  using pos_mod_bound [of ep E] by (simp add: rank_begin_def)

lemma rank_begin_step:
  assumes "0 < ep" "0 \<le> E"
  shows "rank_begin E ep r + E div ep \<le> rank_begin E ep (r + 1)" "rank_begin E ep (r + 1) \<le> rank_begin E ep r + E div ep + 1"
  by (simp_all add: rank_begin_def algebra_simps)

lemma rank_begin_mono:
  assumes "0 < ep" "0 \<le> E" "r \<le> s"
  shows "rank_begin E ep r \<le> rank_begin E ep s"
proof -
  have "r * (E div ep) \<le> s * (E div ep)" using assms by (intro mult_right_mono) (simp_all add: pos_imp_zdiv_nonneg_iff)
  then show ?thesis using assms(3) unfolding rank_begin_def by linarith
qed

lemma urange2_append: "a \<le> b \<Longrightarrow> b \<le> c \<Longrightarrow> urange2 a b @ urange2 b c = urange2 a c"
proof (rule nth_equalityI)
  fix i assume "a \<le> b" "b \<le> c" "i < length (urange2 a b @ urange2 b c)"
  then show "(urange2 a b @ urange2 b c) ! i = urange2 a c ! i" by (auto simp: urange2_def nth_append)
qed (auto simp: urange2_def)

lemma rank_ranges:
  assumes "0 < ep" "0 \<le> E"
  shows "concat (map (\<lambda>r. urange2 (rank_begin E ep r) (rank_begin E ep (r + 1))) (urange ep)) = urange E"
proof -
  have "concat (map (\<lambda>r. urange2 (rank_begin E ep r) (rank_begin E ep (r + 1))) (map int [0..<n])) = urange2 0 (rank_begin E ep (int n))" for n
  proof (induction n)
    case 0
    show ?case using rank_begin_ends [OF assms] by (simp add: urange2_def)
  next
    case (Suc n)
    have "0 \<le> rank_begin E ep (int n)" using rank_begin_mono [OF assms, of 0 "int n"] rank_begin_ends [OF assms] by simp
    then show ?case using Suc urange2_append rank_begin_mono [OF assms, of "int n" "int n + 1"] by (simp add: add.commute)
  qed
  from this [of "nat ep"] show ?thesis using assms rank_begin_ends [OF assms] by (simp add: urange_def urange2_def)
qed

lemma tokens_of_mask:
  assumes "0 \<le> e"
  shows "tokens_of (ep_mask plan ids) e = (if pl_expert_begin plan \<le> e \<and> e < pl_expert_end plan then tokens_of ids e else [])"
proof -
  have m: "i < length ids \<Longrightarrow> ep_mask plan ids ! i = e \<longleftrightarrow> pl_expert_begin plan \<le> e \<and> e < pl_expert_end plan \<and> ids ! i = e" for i
    using assms by (auto simp: ep_mask_def)
  have l: "length (ep_mask plan ids) = length ids" by (simp add: ep_mask_def)
  have "filter (\<lambda>i. ep_mask plan ids ! i = e) [0..<length ids] =
      filter (\<lambda>i. pl_expert_begin plan \<le> e \<and> e < pl_expert_end plan \<and> ids ! i = e) [0..<length ids]"
    by (rule filter_cong) (simp_all add: m)
  then show ?thesis unfolding tokens_of_def l by (auto simp: filter_empty_conv)
qed

lemma no_tokens: "0 < bs \<Longrightarrow> tokens_of ids e = [] \<Longrightarrow> expert_rows bs ids e = [] \<and> expert_blocks bs ids e = []"
  by (simp add: expert_rows_def expert_blocks_def ceil_blocks_def)

lemma mask_rows:
  assumes "0 < bs" "0 \<le> e"
  shows "expert_rows bs (ep_mask plan ids) e = (if pl_expert_begin plan \<le> e \<and> e < pl_expert_end plan then expert_rows bs ids e else [])"
    "expert_blocks bs (ep_mask plan ids) e = (if pl_expert_begin plan \<le> e \<and> e < pl_expert_end plan then expert_blocks bs ids e else [])"
proof -
  have l: "length (ep_mask plan ids) = length ids" by (simp add: ep_mask_def)
  show "expert_rows bs (ep_mask plan ids) e = (if pl_expert_begin plan \<le> e \<and> e < pl_expert_end plan then expert_rows bs ids e else [])"
    "expert_blocks bs (ep_mask plan ids) e = (if pl_expert_begin plan \<le> e \<and> e < pl_expert_end plan then expert_blocks bs ids e else [])"
    using no_tokens [OF assms(1), of "ep_mask plan ids" e] tokens_of_mask [OF assms(2), of plan ids]
    by (auto simp: expert_rows_def expert_blocks_def l)
qed

lemma urange2_mem: "e \<in> set (urange2 a b) \<longleftrightarrow> a \<le> e \<and> e < b"
  by (auto simp: urange2_def intro!: image_eqI [of _ _ "nat (e - a)"])

lemma concat_range_only:
  assumes "0 \<le> a" "a \<le> b" "b \<le> E"
  shows "concat (map (\<lambda>e. if a \<le> e \<and> e < b then f e else []) (urange E)) = concat (map f (urange2 a b))"
proof -
  have u: "urange E = urange2 0 a @ urange2 a b @ urange2 b E"
    using assms urange2_append [of a b E] urange2_append [of 0 a E] by (simp add: urange_def urange2_def)
  have n: "concat (map (\<lambda>e. if a \<le> e \<and> e < b then f e else []) xs) = []" if "\<And>e. e \<in> set xs \<Longrightarrow> \<not> (a \<le> e \<and> e < b)" for xs
    using that by (induction xs) auto
  have m: "map (\<lambda>e. if a \<le> e \<and> e < b then f e else []) (urange2 a b) = map f (urange2 a b)" by (simp add: urange2_mem)
  show ?thesis unfolding u map_append concat_append m by (subst (1 2) n) (simp_all add: urange2_mem)
qed

lemma ep_dispatch_value:
  assumes "int (length ids) = M * top_k" "0 < bs" "0 \<le> pl_expert_begin plan" "pl_expert_begin plan \<le> pl_expert_end plan" "pl_expert_end plan \<le> E"
  defines "es \<equiv> urange2 (pl_expert_begin plan) (pl_expert_end plan)"
  shows "ep_dispatch junk ids M top_k plan E bs =
    Inr (concat (map (expert_rows bs ids) es), map (\<lambda>e. e - pl_expert_begin plan) (concat (map (expert_blocks bs ids) es)),
         int (length (concat (map (expert_rows bs ids) es))))"
proof -
  have l: "int (length (ep_mask plan ids)) = M * top_k" using assms(1) by (simp add: ep_mask_def)
  have r: "concat (map (expert_rows bs (ep_mask plan ids)) (urange E)) = concat (map (expert_rows bs ids) es)"
      "concat (map (expert_blocks bs (ep_mask plan ids)) (urange E)) = concat (map (expert_blocks bs ids) es)"
    unfolding es_def concat_range_only [OF assms(3-5), symmetric]
    by (rule arg_cong [where f = concat], rule map_cong [OF refl], simp add: mask_rows [OF assms(2)] urange_mem)+
  have "e \<ge> 0" if "e \<in> set (concat (map (expert_blocks bs ids) es))" for e
    using that assms(3) by (auto simp: es_def urange2_mem expert_blocks_def)
  then have "map (\<lambda>e. if e \<ge> 0 then e - pl_expert_begin plan else e) (concat (map (expert_blocks bs ids) es)) =
      map (\<lambda>e. e - pl_expert_begin plan) (concat (map (expert_blocks bs ids) es))" by (intro map_cong) simp_all
  then show ?thesis using l assms(2) unfolding ep_dispatch_def align_value r by simp
qed


lemma mapr_over_map: "mapr f (map g xs) = mapr (\<lambda>x. f (g x)) xs"
  by (induction xs) simp_all

lemma concat_map_concat: "concat (map f (concat xss)) = concat (map (\<lambda>xs. concat (map f xs)) xss)"
  by (induction xss) simp_all

text \<open>
  Expert parallelism partitions the aligned layout.  For at least as many experts as ranks, all plans
  and dispatches succeed; the ranks' row lists in rank order are exactly the row list of the single-rank
  alignment, their block experts, shifted by the first expert of the rank, are its block experts, and their
  row counts add up; every local expert id is below the number of local experts, and these numbers
  differ by at most one.
\<close>

theorem ep_dispatch_partition:
  assumes "int (length ids) = M * top_k" "0 < bs" "0 < ep" "ep \<le> E"
  shows "\<exists>plans parts. mapr (ep_plan E ep) (urange ep) = Inr plans
    \<and> mapr (\<lambda>p. ep_dispatch junk ids M top_k p E bs) plans = Inr parts
    \<and> moe_align_block_size junk ids M top_k bs E =
        Inr (concat (map fst parts), concat (map2 (\<lambda>p part. map (\<lambda>e. e + pl_expert_begin p) (fst (snd part))) plans parts),
             sum_list (map (\<lambda>part. snd (snd part)) parts))
    \<and> list_all2 (\<lambda>p part. list_all (\<lambda>e. 0 \<le> e \<and> e < pl_num_local p) (fst (snd part))) plans parts
    \<and> list_all (\<lambda>p. E div ep \<le> pl_num_local p \<and> pl_num_local p \<le> E div ep + 1) plans"
proof -
  let ?b = "rank_begin E ep"
  let ?plan = "\<lambda>r. \<lparr>pl_ep = ep, pl_rank = r, pl_expert_begin = ?b r, pl_expert_end = ?b (r + 1), pl_num_local = ?b (r + 1) - ?b r\<rparr>"
  let ?es = "\<lambda>r. urange2 (?b r) (?b (r + 1))"
  let ?part = "\<lambda>r. (concat (map (expert_rows bs ids) (?es r)), map (\<lambda>e. e - ?b r) (concat (map (expert_blocks bs ids) (?es r))),
      int (length (concat (map (expert_rows bs ids) (?es r)))))"
  have E: "0 \<le> E" using assms by simp
  have pl: "mapr (ep_plan E ep) (urange ep) = Inr (map ?plan (urange ep))"
    by (rule mapr_ok_pure) (use assms in \<open>simp add: ep_plan_value urange_mem\<close>)
  have bounds: "0 \<le> ?b r" "?b r \<le> ?b (r + 1)" "?b (r + 1) \<le> E" if "r \<in> set (urange ep)" for r
    using rank_begin_mono [OF assms(3) E, of 0 r] rank_begin_mono [OF assms(3) E, of r "r + 1"] rank_begin_mono [OF assms(3) E, of "r + 1" ep]
      rank_begin_ends [OF assms(3) E] that by (simp_all add: urange_mem)
  have dp: "mapr (\<lambda>p. ep_dispatch junk ids M top_k p E bs) (map ?plan (urange ep)) = Inr (map ?part (urange ep))"
    unfolding mapr_over_map by (rule mapr_ok_pure) (use ep_dispatch_value [OF assms(1,2)] bounds in simp)
  have cat: "concat (map f (urange E)) = concat (map (\<lambda>r. concat (map f (?es r))) (urange ep))" for f :: "int \<Rightarrow> int list"
    unfolding rank_ranges [OF assms(3) E, symmetric] concat_map_concat by (simp add: comp_def)
  have ints: "int (sum_list (map f xs)) = sum_list (map (\<lambda>x. int (f x)) xs)" for f :: "int \<Rightarrow> nat" and xs by (induction xs) simp_all
  have al: "moe_align_block_size junk ids M top_k bs E =
        Inr (concat (map fst (map ?part (urange ep))),
             concat (map2 (\<lambda>p part. map (\<lambda>e. e + pl_expert_begin p) (fst (snd part))) (map ?plan (urange ep)) (map ?part (urange ep))),
             sum_list (map (\<lambda>part. snd (snd part)) (map ?part (urange ep))))"
    using assms(1,2) unfolding align_value cat map2_map_map by (simp add: comp_def length_concat ints)
  have loc: "list_all2 (\<lambda>p part. list_all (\<lambda>e. 0 \<le> e \<and> e < pl_num_local p) (fst (snd part))) (map ?plan (urange ep)) (map ?part (urange ep))"
    unfolding list_all2_map1 list_all2_map2 by (rule list_all2_refl) (auto simp: list_all_iff urange2_mem expert_blocks_def)
  have bal: "list_all (\<lambda>p. E div ep \<le> pl_num_local p \<and> pl_num_local p \<le> E div ep + 1) (map ?plan (urange ep))"
    using rank_begin_step [OF assms(3) E] by (simp add: list_all_iff algebra_simps)
  show ?thesis by (rule exI, rule exI, intro conjI) (rule pl dp al loc bal)+
qed

theorem ep_dispatch_partition_witness:
  "\<exists>plans parts. mapr (ep_plan 5 2) (urange 2) = Inr plans
    \<and> mapr (\<lambda>p. ep_dispatch 0 [4, 1, 3, 1] 2 2 p 5 2) plans = Inr parts \<and> concat (map fst parts) = [1, 3, 2, 4, 0, 4]"
proof -
  have v: "moe_align_block_size 0 [4, 1, 3, 1] 2 2 2 5 = Inr ([1, 3, 2, 4, 0, 4], [1, 3, 4], 6)" by code_simp
  show ?thesis using ep_dispatch_partition [of "[4, 1, 3, 1]" 2 2 2 2 5 0] unfolding v by auto
qed

end
