(* ===== verification/Moe_Forward.thy ===== *)
theory Moe_Forward
  imports Moe_Align Ring_Allreduce
begin

text \<open>
  The stages of the grouped expert products of \<^verbatim>\<open>dist.py\<close>: gate and up projection, activation, down projection, routed
  combination.  Arrays are flat lists, as in the source; float arithmetic is a record of operations, and one
  element of a matrix product is a function of a row and a column.
\<close>

section \<open>Arithmetic\<close>

datatype flit = FDec int int | FInf | FNegInf | FNan

text \<open>\<open>'h\<close> are 16-bit values, \<open>'v\<close> 32-bit values; \<^term>\<open>FDec m e\<close> is the literal \<open>m * 10 ^ e\<close>.\<close>

record ('h, 'v) arith =
  ar_add :: "'v \<Rightarrow> 'v \<Rightarrow> 'v"
  ar_mul :: "'v \<Rightarrow> 'v \<Rightarrow> 'v"
  ar_div :: "'v \<Rightarrow> 'v \<Rightarrow> 'v"
  ar_neg :: "'v \<Rightarrow> 'v"
  ar_exp :: "'v \<Rightarrow> 'v"
  ar_exp2 :: "'v \<Rightarrow> 'v"
  ar_tanh :: "'v \<Rightarrow> 'v"
  ar_min :: "'v \<Rightarrow> 'v \<Rightarrow> 'v"
  ar_max :: "'v \<Rightarrow> 'v \<Rightarrow> 'v"
  ar_positive :: "'v \<Rightarrow> bool"
  ar_lit :: "flit \<Rightarrow> 'v"
  ar_of_int :: "int \<Rightarrow> 'v"
  ar_dot :: "'v list \<Rightarrow> 'v list \<Rightarrow> 'v"
  ar_round :: "'v \<Rightarrow> 'h"
  ar_widen :: "'h \<Rightarrow> 'v"
  ar_hzero :: 'h

definition ar_zero :: "('h, 'v) arith \<Rightarrow> 'v" where
  "ar_zero ar = ar_lit ar (FDec 0 0)"

definition ar_one :: "('h, 'v) arith \<Rightarrow> 'v" where
  "ar_one ar = ar_lit ar (FDec 1 0)"

definition FP4_VALUES :: "flit list" where
  "FP4_VALUES =
     [FDec 0 0, FDec 25 (- 2), FDec 1 0, FDec 15 (- 1), FDec 2 0, FDec 3 0, FInf, FNan,
      FDec 0 0, FDec (- 25) (- 2), FDec (- 1) 0, FDec (- 15) (- 1), FDec (- 2) 0, FDec (- 3) 0, FNegInf, FNan]"

text \<open>\<^verbatim>\<open>exp2(where(s == 0xFF, 0.0, s - 127))\<close>\<close>

definition ue8m0_to_float :: "('h, 'v) arith \<Rightarrow> int \<Rightarrow> 'v" where
  "ue8m0_to_float ar s = ar_exp2 ar (if s = 255 then ar_zero ar else ar_of_int ar (s - 127))"

section \<open>Slices\<close>

text \<open>\<^verbatim>\<open>xs[a:b]\<close>: bounds count from the end when negative, and are clipped.\<close>

definition slice_bound :: "int \<Rightarrow> int \<Rightarrow> int" where
  "slice_bound n i = (if i < 0 then max 0 (n + i) else min i n)"

definition py_slice :: "'a list \<Rightarrow> int \<Rightarrow> int \<Rightarrow> 'a list" where
  "py_slice xs a b =
     (let n = int (length xs); lo = slice_bound n a; hi = slice_bound n b in
      take (nat (hi - lo)) (drop (nat lo) xs))"

text \<open>\<^verbatim>\<open>xs[a:b] = vs\<close> and \<^verbatim>\<open>xs[a:b] += vs\<close> on a one-dimensional array: a vector of one element spreads, any other length must fit.\<close>

definition update_slice :: "('a \<Rightarrow> 'b \<Rightarrow> 'a) \<Rightarrow> 'a list \<Rightarrow> int \<Rightarrow> int \<Rightarrow> 'b list \<Rightarrow> 'a list result" where
  "update_slice f xs a b vs =
     (let n = int (length xs); lo = slice_bound n a; hi = max lo (slice_bound n b) in
      bindr (np_spread (hi - lo) vs) (\<lambda>vs.
        Inr (take (nat lo) xs @ map2 f (drop (nat lo) xs) vs @ drop (nat hi) xs)))"

definition store_slice :: "'a list \<Rightarrow> int \<Rightarrow> int \<Rightarrow> 'a list \<Rightarrow> 'a list result" where
  "store_slice xs a b vs = update_slice (\<lambda>_ v. v) xs a b vs"

text \<open>\<^verbatim>\<open>xs.reshape(rows, cols)\<close>\<close>

definition reshape2 :: "'a list \<Rightarrow> int \<Rightarrow> int \<Rightarrow> 'a list list result" where
  "reshape2 xs rows cols =
     (if rows < 0 \<or> cols < 0 \<or> int (length xs) \<noteq> rows * cols then Inl ValueError
      else Inr (map (\<lambda>r. take (nat cols) (drop (nat (r * cols)) xs)) (urange rows)))"

section \<open>Dequantization\<close>

text \<open>Two values per byte, low nibble first; one scale per group of columns; rounded once.\<close>

definition dequant_row :: "('h, 'v) arith \<Rightarrow> int \<Rightarrow> int \<Rightarrow> int list \<Rightarrow> int list \<Rightarrow> 'h list result" where
  "dequant_row ar k group_size packed scales =
     (let vals = concat (map (\<lambda>b. [ar_lit ar (FP4_VALUES ! nat (b mod 16)), ar_lit ar (FP4_VALUES ! nat (b div 16))]) packed) in
      if int (length vals) \<noteq> k then Inl ValueError
      else bindr (np_plus (ar_mul ar) vals (concat (map (\<lambda>s. replicate (nat group_size) (ue8m0_to_float ar s)) scales)))
        (\<lambda>vs. Inr (map (ar_round ar) vs)))"

definition dequant_full ::
  "('h, 'v) arith \<Rightarrow> int list \<Rightarrow> int list \<Rightarrow> int \<Rightarrow> int \<Rightarrow> int \<Rightarrow> int \<Rightarrow> int \<Rightarrow> 'h list list result" where
  "dequant_full ar packed scale n_rows k stride_packed stride_scale group_size =
     bindr (reshape2 packed n_rows stride_packed) (\<lambda>pb.
     bindr (reshape2 scale n_rows stride_scale) (\<lambda>sc.
       mapr (\<lambda>(p, s). dequant_row ar k group_size p s) (zip pb sc)))"

section \<open>The stages\<close>

definition BLOCK_M :: int where "BLOCK_M = 16"
definition BLOCK_N :: int where "BLOCK_N = 64"

text \<open>A row of the tile: a slice of the source for a token, zeros for padding.\<close>

definition tile_row :: "('h, 'v) arith \<Rightarrow> 'h list \<Rightarrow> bool \<Rightarrow> int \<Rightarrow> int \<Rightarrow> 'h list result" where
  "tile_row ar src live base k = (if live then np_spread k (py_slice src base (base + k)) else Inr (replicate (nat k) (ar_hzero ar)))"

definition products :: "('h, 'v) arith \<Rightarrow> 'h list \<Rightarrow> 'h list list \<Rightarrow> 'v list" where
  "products ar a ws = map (\<lambda>w. ar_dot ar (map (ar_widen ar) a) (map (ar_widen ar) w)) ws"

text \<open>The blocks of a stage: for block \<open>mb\<close> with an expert, the body; blocks without expert are skipped.\<close>

definition over_blocks :: "(int \<Rightarrow> int \<Rightarrow> 's \<Rightarrow> 's result) \<Rightarrow> int list \<Rightarrow> int \<Rightarrow> 's \<Rightarrow> 's result" where
  "over_blocks body expert_ids EM s =
     foldr_res (\<lambda>s mb. bindr (py_nth expert_ids mb) (\<lambda>expert. if expert < 0 then Inr s else body mb expert s))
       s (urange (EM div BLOCK_M))"

definition moe_gateup ::
  "('h, 'v) arith \<Rightarrow> 'h list \<Rightarrow> int list \<Rightarrow> int list \<Rightarrow> int list \<Rightarrow> int list \<Rightarrow> 'v list
   \<Rightarrow> int \<Rightarrow> int \<Rightarrow> int \<Rightarrow> int \<Rightarrow> int \<Rightarrow> int \<Rightarrow> int \<Rightarrow> int \<Rightarrow> 'v list result" where
  "moe_gateup ar A w13 w13_scale sorted_ids expert_ids gate_up M a_stride k_base hidden_k ispp top_k EM group_size =
     bindr (py_floordiv hidden_k group_size) (\<lambda>stride_scale.
     let N = M * top_k; stride_packed = hidden_k div 2;
         w13_e = 2 * ispp * stride_packed; w13s_e = 2 * ispp * stride_scale
     in over_blocks (\<lambda>mb expert gate_up.
          let tb = mb * BLOCK_M in
          bindr (dequant_full ar (py_slice w13 (expert * w13_e) (expert * w13_e + w13_e))
                   (py_slice w13_scale (expert * w13s_e) (expert * w13s_e + w13s_e))
                   (2 * ispp) hidden_k stride_packed stride_scale group_size) (\<lambda>wf.
          let wg = py_slice wf 0 ispp; wu = py_slice wf ispp (int (length wf)) in
          foldr_res (\<lambda>gate_up nb.
            bindr (mapr (\<lambda>m. bindr (py_nth sorted_ids (tb + m)) (\<lambda>f.
                     bindr (if f < N then py_floordiv f top_k else Inr 0) (\<lambda>token.
                       tile_row ar A (f < N) (token * a_stride + k_base) hidden_k))) (urange BLOCK_M)) (\<lambda>tA.
            let n0 = nb * BLOCK_N; n1 = (nb + 1) * BLOCK_N in
            foldr_res (\<lambda>gate_up m.
              let r0 = (tb + m) * 2 * ispp + n0 in
              bindr (store_slice gate_up r0 (r0 + BLOCK_N) (products ar (tA ! nat m) (py_slice wg n0 n1))) (\<lambda>gate_up.
                store_slice gate_up (r0 + ispp) (r0 + ispp + BLOCK_N) (products ar (tA ! nat m) (py_slice wu n0 n1))))
              gate_up (urange BLOCK_M)))
            gate_up (urange (ispp div BLOCK_N))))
        expert_ids EM gate_up)"

definition activate :: "('h, 'v) arith \<Rightarrow> string \<Rightarrow> 'v \<Rightarrow> 'v \<Rightarrow> 'v \<Rightarrow> 'v \<Rightarrow> 'v \<Rightarrow> 'h" where
  "activate ar activation swiglu_limit beta linear_beta g u =
     ar_round ar
      (if activation = ''situ''
       then let sig = ar_div ar (ar_one ar) (ar_add ar (ar_one ar) (ar_exp ar (ar_neg ar g)));
                gate_out = ar_mul ar (ar_mul ar beta (ar_tanh ar (ar_div ar g beta))) sig;
                up_out = (if ar_positive ar linear_beta then ar_mul ar linear_beta (ar_tanh ar (ar_div ar u linear_beta)) else u)
            in ar_mul ar gate_out up_out
       else let gl = (if ar_positive ar swiglu_limit then ar_min ar g swiglu_limit else g);
                ul = (if ar_positive ar swiglu_limit then ar_min ar (ar_max ar u (ar_neg ar swiglu_limit)) swiglu_limit else u)
            in ar_mul ar (ar_div ar gl (ar_add ar (ar_one ar) (ar_exp ar (ar_neg ar gl)))) ul)"

text \<open>\<^verbatim>\<open>v += b[expert, lo:hi]\<close> when there is a bias.\<close>

definition add_bias_row :: "('h, 'v) arith \<Rightarrow> 'v list list option \<Rightarrow> int \<Rightarrow> int \<Rightarrow> int \<Rightarrow> 'v list \<Rightarrow> 'v list result" where
  "add_bias_row ar bias expert lo hi v =
     (case bias of None \<Rightarrow> Inr v
      | Some b \<Rightarrow> bindr (py_nth b expert) (\<lambda>r.
          bindr (np_spread (int (length v)) (py_slice r lo hi)) (\<lambda>r. Inr (map2 (ar_add ar) v r))))"

definition moe_act_epilogue ::
  "('h, 'v) arith \<Rightarrow> ('v \<Rightarrow> 'v \<Rightarrow> 'h) \<Rightarrow> 'v list \<Rightarrow> 'v list list option \<Rightarrow> 'h list \<Rightarrow> int list \<Rightarrow> int list
   \<Rightarrow> int \<Rightarrow> int \<Rightarrow> int \<Rightarrow> int \<Rightarrow> 'h list result" where
  "moe_act_epilogue ar actf gate_up b13 act sorted_ids expert_ids M top_k EM ispp =
     (let N = M * top_k in
      over_blocks (\<lambda>mb expert act.
        let tb = mb * BLOCK_M in
        foldr_res (\<lambda>act nb.
          foldr_res (\<lambda>act m.
            bindr (py_nth sorted_ids (tb + m)) (\<lambda>f.
            if f \<ge> N then Inr act
            else let n0 = nb * BLOCK_N; r0 = (tb + m) * 2 * ispp in
              bindr (add_bias_row ar b13 expert n0 (n0 + BLOCK_N) (py_slice gate_up (r0 + n0) (r0 + n0 + BLOCK_N))) (\<lambda>g.
              bindr (add_bias_row ar b13 expert (ispp + n0) (ispp + n0 + BLOCK_N)
                       (py_slice gate_up (r0 + ispp + n0) (r0 + ispp + n0 + BLOCK_N))) (\<lambda>u.
                store_slice act ((tb + m) * ispp + n0) ((tb + m) * ispp + n0 + BLOCK_N) (map2 actf g u)))))
            act (urange BLOCK_M))
          act (urange (ispp div BLOCK_N)))
        expert_ids EM act)"

definition moe_down ::
  "('h, 'v) arith \<Rightarrow> 'h list \<Rightarrow> int list \<Rightarrow> int list \<Rightarrow> int list \<Rightarrow> int list \<Rightarrow> 'v list
   \<Rightarrow> int \<Rightarrow> int \<Rightarrow> int \<Rightarrow> int \<Rightarrow> int \<Rightarrow> int \<Rightarrow> int \<Rightarrow> int \<Rightarrow> 'v list result" where
  "moe_down ar act w2 w2_scale sorted_ids expert_ids partial M a_stride k_base ispp_k hidden top_k EM group_size =
     bindr (py_floordiv ispp_k group_size) (\<lambda>stride_scale.
     let N = M * top_k; stride_packed = ispp_k div 2;
         w2_e = hidden * stride_packed; w2s_e = hidden * stride_scale
     in over_blocks (\<lambda>mb expert partial.
          let tb = mb * BLOCK_M in
          bindr (dequant_full ar (py_slice w2 (expert * w2_e) ((expert + 1) * w2_e))
                   (py_slice w2_scale (expert * w2s_e) ((expert + 1) * w2s_e))
                   hidden ispp_k stride_packed stride_scale group_size) (\<lambda>wf.
          foldr_res (\<lambda>partial nb.
            bindr (mapr (\<lambda>m. bindr (py_nth sorted_ids (tb + m)) (\<lambda>f.
                     tile_row ar act (f < N) ((tb + m) * a_stride + k_base) ispp_k)) (urange BLOCK_M)) (\<lambda>tA.
            let n0 = nb * BLOCK_N; n1 = (nb + 1) * BLOCK_N in
            foldr_res (\<lambda>partial m.
              let r0 = (tb + m) * hidden + n0 in
              store_slice partial r0 (r0 + BLOCK_N) (products ar (tA ! nat m) (py_slice wf n0 n1)))
              partial (urange BLOCK_M)))
            partial (urange (hidden div BLOCK_N))))
        expert_ids EM partial)"

definition moe_combine_stage ::
  "('h, 'v) arith \<Rightarrow> 'v list \<Rightarrow> 'v list list option \<Rightarrow> 'v list \<Rightarrow> int list \<Rightarrow> int list \<Rightarrow> 'v list
   \<Rightarrow> int \<Rightarrow> int \<Rightarrow> int \<Rightarrow> int \<Rightarrow> 'v list result" where
  "moe_combine_stage ar partial b2 topk_w_sorted sorted_ids expert_ids out M hidden top_k EM =
     (let N = M * top_k in
      over_blocks (\<lambda>mb expert out.
        let tb = mb * BLOCK_M in
        foldr_res (\<lambda>out nb.
          foldr_res (\<lambda>out m.
            bindr (py_nth sorted_ids (tb + m)) (\<lambda>f.
            if f \<ge> N then Inr out
            else bindr (py_floordiv f top_k) (\<lambda>token.
              bindr (py_nth topk_w_sorted (tb + m)) (\<lambda>weight.
              let n0 = nb * BLOCK_N in
              bindr (add_bias_row ar b2 expert n0 (n0 + BLOCK_N) (py_slice partial ((tb + m) * hidden + n0) ((tb + m) * hidden + n0 + BLOCK_N))) (\<lambda>val.
                update_slice (ar_add ar) out (token * hidden + n0) (token * hidden + n0 + BLOCK_N) (map (\<lambda>v. ar_mul ar v weight) val))))))
            out (urange BLOCK_M))
          out (urange (hidden div BLOCK_N)))
        expert_ids EM out)"

text \<open>One rank's forward on its own experts; \<open>junk\<close> is what the fresh activation array holds.\<close>

definition moe_local_forward ::
  "('h, 'v) arith \<Rightarrow> ('v \<Rightarrow> 'v \<Rightarrow> 'h) \<Rightarrow> 'h \<Rightarrow> 'h list \<Rightarrow> int list \<Rightarrow> int list \<Rightarrow> int list \<Rightarrow> int list
   \<Rightarrow> int list \<Rightarrow> 'v list \<Rightarrow> int list \<Rightarrow> 'v list \<Rightarrow> int \<Rightarrow> int \<Rightarrow> int \<Rightarrow> int \<Rightarrow> int \<Rightarrow> int
   \<Rightarrow> 'v list list option \<Rightarrow> 'v list list option \<Rightarrow> 'v list result" where
  "moe_local_forward ar actf junk A w13 w13_scale w2 w2_scale sorted_ids sorted_w expert_ids out EM M hidden ispp top_k group_size b13 b2 =
     bindr (moe_gateup ar A w13 w13_scale sorted_ids expert_ids (replicate (nat (EM * 2 * ispp)) (ar_zero ar))
              M hidden 0 hidden ispp top_k EM group_size) (\<lambda>gate_up.
     bindr (moe_act_epilogue ar actf gate_up b13 (replicate (nat (EM * ispp)) junk) sorted_ids expert_ids M top_k EM ispp) (\<lambda>act.
     bindr (moe_down ar act w2 w2_scale sorted_ids expert_ids (replicate (nat (EM * hidden)) (ar_zero ar))
              M ispp 0 ispp hidden top_k EM group_size) (\<lambda>partial.
       moe_combine_stage ar partial b2 sorted_w sorted_ids expert_ids out M hidden top_k EM)))"

end
