(* ===== verification/Moe_Updates.thy ===== *)
theory Moe_Updates
  imports Moe_Forward
begin

text \<open>
  Sequences of slice updates: what each cell of an array holds after them, and the loops of the stages as such
  sequences.
\<close>

section \<open>Slices in range\<close>

lemma py_slice_in:
  assumes "a + n \<le> length xs"
  shows "py_slice xs (int a) (int a + int n) = take n (drop a xs)"
  using assms by (simp add: py_slice_def slice_bound_def)

lemma update_slice_in:
  assumes "a + length vs \<le> length xs"
  shows "update_slice f xs (int a) (int a + int (length vs)) vs = Inr (take a xs @ map2 f (drop a xs) vs @ drop (a + length vs) xs)"
proof -
  have b: "slice_bound (int (length xs)) (int a) = int a" "slice_bound (int (length xs)) (int a + int (length vs)) = int (a + length vs)"
    using assms by (simp_all add: slice_bound_def)
  have s: "np_spread (max (int a) (int (a + length vs)) - int a) vs = Inr vs" by (simp add: np_spread_def)
  have m: "nat (max (int a) (int (a + length vs))) = a + length vs" by simp
  show ?thesis unfolding update_slice_def Let_def b s m by simp
qed

definition apply_updates :: "('a \<Rightarrow> 'b \<Rightarrow> 'a) \<Rightarrow> 'a list \<Rightarrow> (nat \<times> 'b list) list \<Rightarrow> 'a list result" where
  "apply_updates f xs ups = foldr_res (\<lambda>xs u. update_slice f xs (int (fst u)) (int (fst u) + int (length (snd u))) (snd u)) xs ups"

definition covers :: "nat \<times> 'b list \<Rightarrow> nat \<Rightarrow> bool" where
  "covers u i \<longleftrightarrow> fst u \<le> i \<and> i < fst u + length (snd u)"

text \<open>What is written to a cell, in order.\<close>

definition hits :: "nat \<Rightarrow> (nat \<times> 'b list) list \<Rightarrow> 'b list" where
  "hits i ups = concat (map (\<lambda>u. if covers u i then [snd u ! (i - fst u)] else []) ups)"

lemma hits_append [simp]: "hits i (us @ vs) = hits i us @ hits i vs"
  by (simp add: hits_def)

lemma hits_concat: "hits i (concat uss) = concat (map (hits i) uss)"
  by (induction uss) (simp_all add: hits_def)

lemma hits_Nil [simp]: "hits i [] = []"
  by (simp add: hits_def)

lemma hits_single [simp]: "hits i [u] = (if covers u i then [snd u ! (i - fst u)] else [])"
  by (simp add: hits_def)

lemma apply_updates_value:
  assumes "\<forall>u \<in> set ups. fst u + length (snd u) \<le> length xs"
  shows "\<exists>ys. apply_updates f xs ups = Inr ys \<and> length ys = length xs \<and> (\<forall>i < length xs. ys ! i = foldl f (xs ! i) (hits i ups))"
  using assms unfolding apply_updates_def
proof (induction ups arbitrary: xs)
  case (Cons u ups)
  obtain a vs where u: "u = (a, vs)" by (cases u)
  let ?ys = "take a xs @ map2 f (drop a xs) vs @ drop (a + length vs) xs"
  have b: "a + length vs \<le> length xs" using Cons.prems u by simp
  have l: "length ?ys = length xs" using b by simp
  have c: "?ys ! i = foldl f (xs ! i) (hits i [u])" if "i < length xs" for i
    using that b unfolding u by (auto simp: covers_def nth_append min_def)
  have "\<forall>u \<in> set ups. fst u + length (snd u) \<le> length ?ys" using Cons.prems l by simp
  from Cons.IH [OF this] obtain zs where z: "foldr_res (\<lambda>xs u. update_slice f xs (int (fst u)) (int (fst u) + int (length (snd u))) (snd u)) ?ys ups = Inr zs"
      "length zs = length ?ys" "\<forall>i < length ?ys. zs ! i = foldl f (?ys ! i) (hits i ups)" by blast
  have "zs ! i = foldl f (xs ! i) (hits i (u # ups))" if "i < length xs" for i
    using z(3) that l c [OF that] hits_append [of i "[u]" ups] by simp
  then show ?case using z(1,2) l update_slice_in [OF b, of f] u by simp
qed simp

lemma apply_updates_append: "apply_updates f xs (us @ vs) = bindr (apply_updates f xs us) (\<lambda>xs. apply_updates f xs vs)"
  unfolding apply_updates_def by (induction us arbitrary: xs) (simp_all add: bindr_assoc)

lemma apply_updates_single: "apply_updates f xs [(a, vs)] = update_slice f xs (int a) (int a + int (length vs)) vs"
  by (simp add: apply_updates_def)

text \<open>A loop whose body is a sequence of updates is one.\<close>

lemma loop_updates:
  assumes "\<And>x s. x \<in> set xs \<Longrightarrow> body s x = apply_updates f s (us x)"
  shows "foldr_res body s xs = apply_updates f s (concat (map us xs))"
  using assms
proof (induction xs arbitrary: s)
  case (Cons x xs)
  then show ?case by (simp add: apply_updates_append)
qed (simp add: apply_updates_def)

lemma over_blocks_updates:
  assumes "length eids = nb" "\<And>mb s. mb < nb \<Longrightarrow> 0 \<le> eids ! mb \<and> body (int mb) (eids ! mb) s = apply_updates f s (us mb)"
  shows "over_blocks body eids (int (16 * nb)) s = apply_updates f s (concat (map us [0..<nb]))"
proof -
  have u: "urange (int (16 * nb) div BLOCK_M) = map int [0..<nb]" by (simp add: urange_def BLOCK_M_def)
  have "foldr_res (\<lambda>s x. bindr (py_nth eids (int x)) (\<lambda>expert. if expert < 0 then Inr s else body (int x) expert s)) s [0..<nb] =
      apply_updates f s (concat (map us [0..<nb]))"
  proof (rule loop_updates)
    fix x s assume "x \<in> set [0..<nb]"
    then have x: "x < nb" by simp
    have "py_nth eids (int x) = Inr (eids ! x)" using x assms(1) by (simp add: py_nth_def)
    then show "bindr (py_nth eids (int x)) (\<lambda>expert. if expert < 0 then Inr s else body (int x) expert s) = apply_updates f s (us x)"
      using assms(2) [OF x, of s] by simp
  qed
  then show ?thesis unfolding over_blocks_def u foldr_res_map .
qed

text \<open>A cell that updates overwrite holds the value they agree on.\<close>

lemma foldl_overwrite:
  assumes "\<And>v. v \<in> set vs \<Longrightarrow> v = w" "vs \<noteq> []"
  shows "foldl (\<lambda>_ v. v) x vs = w"
proof -
  have "foldl (\<lambda>_ v. v) x vs = last vs" using assms(2) by (induction vs arbitrary: x) auto
  then show ?thesis using assms(1) [OF last_in_set [OF assms(2)]] by simp
qed

lemma set_hits: "v \<in> set (hits i ups) \<longleftrightarrow> (\<exists>u \<in> set ups. covers u i \<and> v = snd u ! (i - fst u))"
  unfolding hits_def set_concat set_map by (simp add: image_iff) blast

lemma overwritten_cell:
  assumes "\<And>u. u \<in> set ups \<Longrightarrow> covers u i \<Longrightarrow> snd u ! (i - fst u) = w" "\<exists>u \<in> set ups. covers u i"
  shows "foldl (\<lambda>_ v. v) x (hits i ups) = w"
proof (rule foldl_overwrite)
  show "v = w" if "v \<in> set (hits i ups)" for v using that assms(1) unfolding set_hits by blast
  obtain u where "u \<in> set ups" "covers u i" using assms(2) by blast
  then have "snd u ! (i - fst u) \<in> set (hits i ups)" unfolding set_hits by blast
  then show "hits i ups \<noteq> []" by (metis empty_iff list.set(1))
qed

text \<open>A cell covered by two-dimensional addresses \<open>r * w + c\<close>.\<close>

lemma grid_cell:
  assumes "j < w" "c + n \<le> w"
  shows "r * w + c \<le> r' * w + j \<and> r' * w + j < r * w + c + n \<longleftrightarrow> r = r' \<and> c \<le> j \<and> j < (c :: nat) + n"
proof -
  have "r = r'" if "r * w + c \<le> r' * w + j" "r' * w + j < r * w + c + n"
  proof (rule ccontr)
    assume "r \<noteq> r'"
    then consider "r < r'" | "r' < r" by linarith
    then show False
    proof cases
      case 1
      then have "Suc r * w \<le> r' * w" by (intro mult_le_mono1) simp
      then show False using that(2) assms(2) by simp
    next
      case 2
      then have "Suc r' * w \<le> r * w" by (intro mult_le_mono1) simp
      then show False using that(1) assms(1) by simp
    qed
  qed
  then show ?thesis by auto
qed

lemma covers_grid:
  assumes "j < w" "c + length vs \<le> w"
  shows "covers (r * w + c, vs) (r' * w + j) \<longleftrightarrow> r = r' \<and> c \<le> j \<and> j < c + length vs"
proof -
  have "r * w + c \<le> r' * w + j \<and> r' * w + j < r * w + c + length vs \<longleftrightarrow> r = r' \<and> c \<le> j \<and> j < c + length vs"
    by (rule grid_cell [OF assms])
  then show ?thesis by (simp add: covers_def)
qed


text \<open>Updates of a row-major array of width \<open>w\<close>, each inside one row and writing the values of a function of row and column.\<close>

lemma grid_fill:
  assumes "length xs = R * w"
    and "\<And>u. u \<in> set ups \<Longrightarrow> \<exists>r c. r < R \<and> fst u = r * w + c \<and> c + length (snd u) \<le> w \<and> (\<forall>k < length (snd u). snd u ! k = F r (c + k))"
  shows "\<exists>ys. apply_updates (\<lambda>_ v. v) xs ups = Inr ys \<and> length ys = R * w
    \<and> (\<forall>r < R. \<forall>j < w. (\<exists>u \<in> set ups. covers u (r * w + j)) \<longrightarrow> ys ! (r * w + j) = F r j)"
proof -
  have row: "r * w + w \<le> R * w" if "r < R" for r using mult_le_mono1 [of "Suc r" R w] that by simp
  have "\<forall>u \<in> set ups. fst u + length (snd u) \<le> length xs"
  proof
    fix u assume "u \<in> set ups"
    then obtain r c where "r < R" "fst u = r * w + c" "c + length (snd u) \<le> w" using assms(2) by blast
    then show "fst u + length (snd u) \<le> length xs" using row [of r] assms(1) by simp
  qed
  from apply_updates_value [OF this, of "\<lambda>_ v. v"] obtain ys where ys: "apply_updates (\<lambda>_ v. v) xs ups = Inr ys" "length ys = length xs"
      "\<forall>i < length xs. ys ! i = foldl (\<lambda>_ v. v) (xs ! i) (hits i ups)" by blast
  have "ys ! (r * w + j) = F r j" if r: "r < R" and j: "j < w" and c: "\<exists>u \<in> set ups. covers u (r * w + j)" for r j
  proof -
    have "snd u ! (r * w + j - fst u) = F r j" if u: "u \<in> set ups" "covers u (r * w + j)" for u
    proof -
      obtain r' c where rc: "fst u = r' * w + c" "c + length (snd u) \<le> w" "\<forall>k < length (snd u). snd u ! k = F r' (c + k)"
        using assms(2) [OF u(1)] by blast
      have "covers (r' * w + c, snd u) (r * w + j)" using u(2) rc(1) by (simp add: covers_def)
      then have m: "r' = r" "c \<le> j" "j < c + length (snd u)" using covers_grid [OF j rc(2)] by blast+
      then have "snd u ! (j - c) = F r (c + (j - c))" using rc(3) by (metis le_add_diff_inverse nat_add_left_cancel_less)
      then show ?thesis using m rc(1) by simp
    qed
    then have "foldl (\<lambda>_ v. v) (xs ! (r * w + j)) (hits (r * w + j) ups) = F r j" by (rule overwritten_cell [OF _ c])
    moreover have "r * w + j < length xs" using row [OF r] j assms(1) by simp
    ultimately show ?thesis using ys(3) by simp
  qed
  then show ?thesis using ys(1,2) assms(1) by (intro exI [of _ ys] conjI allI impI) simp_all
qed

section \<open>The loops of a stage\<close>

text \<open>All updates of a stage: blocks of rows, tiles of columns, rows of a block.\<close>

definition tiles :: "(nat \<Rightarrow> nat \<Rightarrow> nat \<Rightarrow> 'u list) \<Rightarrow> nat \<Rightarrow> nat \<Rightarrow> 'u list" where
  "tiles us nb cb = concat (map (\<lambda>mb. concat (map (\<lambda>n. concat (map (us mb n) [0..<16])) [0..<cb])) [0..<nb])"

lemma set_tiles: "u \<in> set (tiles us nb cb) \<longleftrightarrow> (\<exists>mb < nb. \<exists>n < cb. \<exists>m < 16. u \<in> set (us mb n m))"
  unfolding tiles_def by (simp add: Bex_def)

lemma tiles_row:
  assumes "r < 16 * nb" "n < cb" "u \<in> set (us (r div 16) n (r mod 16))"
  shows "u \<in> set (tiles us nb cb)"
proof -
  have "r div 16 < nb" using assms(1) by linarith
  then show ?thesis unfolding set_tiles using assms(2,3) by (metis mod_less_divisor zero_less_numeral)
qed

lemma row_split: "m < 16 \<Longrightarrow> (16 * mb + m) div 16 = mb \<and> (16 * mb + m) mod 16 = (m :: nat)"
  by simp

lemma stage_loops:
  assumes "length eids = nb"
    and "\<And>mb s. mb < nb \<Longrightarrow> 0 \<le> eids ! mb \<and> body (int mb) (eids ! mb) s = foldr_res (\<lambda>s n. inner mb (int n) s) s [0..<cb]"
    and "\<And>mb n s. mb < nb \<Longrightarrow> n < cb \<Longrightarrow> inner mb (int n) s = foldr_res (\<lambda>s m. rowb mb n (int m) s) s [0..<16]"
    and "\<And>mb n m s. mb < nb \<Longrightarrow> n < cb \<Longrightarrow> m < 16 \<Longrightarrow> rowb mb n (int m) s = apply_updates f s (us mb n m)"
  shows "over_blocks body eids (int (16 * nb)) s = apply_updates f s (tiles us nb cb)"
  unfolding tiles_def
proof (rule over_blocks_updates [OF assms(1)])
  fix mb s assume mb: "mb < nb"
  have "foldr_res (\<lambda>s n. inner mb (int n) s) s [0..<cb] = apply_updates f s (concat (map (\<lambda>n. concat (map (us mb n) [0..<16])) [0..<cb]))"
  proof (rule loop_updates)
    fix n s assume "n \<in> set [0..<cb]"
    then have n: "n < cb" by simp
    have "foldr_res (\<lambda>s m. rowb mb n (int m) s) s [0..<16] = apply_updates f s (concat (map (us mb n) [0..<16]))"
      by (rule loop_updates) (simp add: assms(4) mb n)
    then show "inner mb (int n) s = apply_updates f s (concat (map (us mb n) [0..<16]))" using assms(3) [OF mb n] by simp
  qed
  then show "0 \<le> eids ! mb \<and> body (int mb) (eids ! mb) s = apply_updates f s (concat (map (\<lambda>n. concat (map (us mb n) [0..<16])) [0..<cb]))"
    using assms(2) [OF mb] by simp
qed


text \<open>Column tiles of 64.\<close>

lemma column_cover:
  assumes "j < 64 * cb"
  shows "\<exists>n < cb. 64 * n \<le> j \<and> j < 64 * n + (64 :: nat)"
proof -
  have "j < cb * 64" using assms by simp
  then have "j div 64 < cb" by (rule less_mult_imp_div_less)
  moreover have "j div 64 * 64 + j mod 64 = j" "j mod 64 < 64" by simp_all
  then have "64 * (j div 64) \<le> j" "j < 64 * (j div 64) + 64" by linarith+
  ultimately show ?thesis by blast
qed

lemma column_fits: "n < cb \<Longrightarrow> 64 * n + 64 \<le> 64 * (cb :: nat)"
  by simp

text \<open>
  A stage that writes, for every live row and every column tile, a vector of 64 values at each of some column
  offsets: the cells of live rows hold the values of a function of row and column.
\<close>

lemma stage_grid:
  assumes "length xs = 16 * nb * w"
    and us: "\<And>mb n m. mb < nb \<Longrightarrow> n < cb \<Longrightarrow> m < 16 \<Longrightarrow> us mb n m =
        (if live (16 * mb + m) then map (\<lambda>off. ((16 * mb + m) * w + (off + 64 * n), vals (16 * mb + m) (off + 64 * n))) offs else [])"
    and vals: "\<And>r c. r < 16 * nb \<Longrightarrow> live r \<Longrightarrow> c + 64 \<le> w \<Longrightarrow> length (vals r c) = 64 \<and> (\<forall>k < 64. vals r c ! k = F r (c + k))"
    and offs: "\<And>off. off \<in> set offs \<Longrightarrow> off + 64 * cb \<le> w"
  shows "\<exists>ys. apply_updates (\<lambda>_ v. v) xs (tiles us nb cb) = Inr ys \<and> length ys = 16 * nb * w
    \<and> (\<forall>r < 16 * nb. \<forall>j < w. live r \<and> (\<exists>off \<in> set offs. off \<le> j \<and> j < off + 64 * cb) \<longrightarrow> ys ! (r * w + j) = F r j)"
proof -
  have fit: "off + 64 * n + 64 \<le> w" if "off \<in> set offs" "n < cb" for off n
    using offs [OF that(1)] column_fits [OF that(2)] by linarith
  have ups: "\<exists>r c. r < 16 * nb \<and> fst u = r * w + c \<and> c + length (snd u) \<le> w \<and> (\<forall>k < length (snd u). snd u ! k = F r (c + k))"
    if "u \<in> set (tiles us nb cb)" for u
  proof -
    obtain mb n m where b: "mb < nb" "n < cb" "m < 16" and u: "u \<in> set (us mb n m)" using \<open>u \<in> set (tiles us nb cb)\<close> unfolding set_tiles by blast
    then obtain off where off: "live (16 * mb + m)" "off \<in> set offs" "u = ((16 * mb + m) * w + (off + 64 * n), vals (16 * mb + m) (off + 64 * n))"
      unfolding us [OF b] by (auto split: if_splits)
    have "Suc mb \<le> nb" using b(1) by simp
    then have r: "16 * mb + m < 16 * nb" using b(3) by linarith
    from vals [OF r off(1) fit [OF off(2) b(2)]] fit [OF off(2) b(2)] show ?thesis
      by (intro exI [of _ "16 * mb + m"] exI [of _ "off + 64 * n"] conjI r) (simp_all add: off(3))
  qed
  obtain ys where ys: "apply_updates (\<lambda>_ v. v) xs (tiles us nb cb) = Inr ys" "length ys = 16 * nb * w"
      "\<forall>r < 16 * nb. \<forall>j < w. (\<exists>u \<in> set (tiles us nb cb). covers u (r * w + j)) \<longrightarrow> ys ! (r * w + j) = F r j"
    using grid_fill [OF assms(1) ups] by blast
  have "ys ! (r * w + j) = F r j" if r: "r < 16 * nb" "live r" and j: "j < w" and o: "off \<in> set offs" "off \<le> j" "j < off + 64 * cb" for r j off
  proof -
    have "j - off < 64 * cb" using o by linarith
    then obtain n where n: "n < cb" "64 * n \<le> j - off" "j - off < 64 * n + 64" using column_cover by blast
    have mb: "r div 16 < nb" "r mod 16 < 16" using r(1) by linarith simp
    have r16: "16 * (r div 16) + r mod 16 = r" by simp
    let ?u = "(r * w + (off + 64 * n), vals r (off + 64 * n))"
    have "?u \<in> set (us (r div 16) n (r mod 16))" unfolding us [OF mb(1) n(1) mb(2)] r16 using r(2) o(1) by simp
    then have "?u \<in> set (tiles us nb cb)" by (rule tiles_row [OF r(1) n(1)])
    moreover have "off + 64 * n \<le> j" "j < off + 64 * n + 64" using n(2,3) o(2) by linarith+
    moreover have "length (vals r (off + 64 * n)) = 64" using vals [OF r fit [OF o(1) n(1)]] by blast
    ultimately have "covers ?u (r * w + j)" "?u \<in> set (tiles us nb cb)"
      using covers_grid [OF j, of "off + 64 * n" "vals r (off + 64 * n)" r r] fit [OF o(1) n(1)] by simp_all
    then show ?thesis using ys(3) r(1) j by blast
  qed
  then show ?thesis using ys(1,2) by (intro exI [of _ ys] conjI allI impI) blast+
qed

end
