(* ===== verification/Moe_Values.thy ===== *)
theory Moe_Values
  imports Moe_Updates
begin

text \<open>
  What the stages compute on well-shaped inputs, row by row and column by column.
\<close>

section \<open>Shapes\<close>

lemma py_nth_int: "k < length xs \<Longrightarrow> py_nth xs (int k) = Inr (xs ! k)"
  by (simp add: py_nth_def)

text \<open>A routing layout of \<open>nb\<close> whole blocks: every block has an expert, every row a flat index or padding.\<close>

definition layout_ok :: "int \<Rightarrow> int \<Rightarrow> int list \<Rightarrow> int list \<Rightarrow> nat \<Rightarrow> bool" where
  "layout_ok E N ids eids nb \<longleftrightarrow>
     length eids = nb \<and> length ids = 16 * nb \<and> (\<forall>e \<in> set eids. 0 \<le> e \<and> e < E) \<and> (\<forall>f \<in> set ids. 0 \<le> f)"

lemma layout_nth:
  assumes "layout_ok E N ids eids nb" "mb < nb" "m < 16"
  shows "py_nth ids (int mb * BLOCK_M + int m) = Inr (ids ! (16 * mb + m))" "0 \<le> ids ! (16 * mb + m)"
    "0 \<le> eids ! mb" "eids ! mb < E" "16 * mb + m < 16 * nb"
proof -
  have "Suc mb \<le> nb" using assms(2) by simp
  then show b: "16 * mb + m < 16 * nb" using assms(3) by linarith
  have i: "int mb * BLOCK_M + int m = int (16 * mb + m)" by (simp add: BLOCK_M_def)
  show "py_nth ids (int mb * BLOCK_M + int m) = Inr (ids ! (16 * mb + m))"
    unfolding i by (rule py_nth_int) (use b assms(1) in \<open>simp add: layout_ok_def\<close>)
  show "0 \<le> ids ! (16 * mb + m)" "0 \<le> eids ! mb" "eids ! mb < E" using b assms(1,2) by (simp_all add: layout_ok_def)
qed

definition tile_value :: "('h, 'v) arith \<Rightarrow> 'h list \<Rightarrow> bool \<Rightarrow> nat \<Rightarrow> nat \<Rightarrow> 'h list" where
  "tile_value ar src live base k = (if live then take k (drop base src) else replicate k (ar_hzero ar))"

lemma tile_row_value:
  assumes "live \<Longrightarrow> base + k \<le> length src"
  shows "tile_row ar src live (int base) (int k) = Inr (tile_value ar src live base k)"
  using assms by (auto simp: tile_row_def tile_value_def py_slice_in np_spread_def)

lemma length_tile_value: "(live \<Longrightarrow> base + k \<le> length src) \<Longrightarrow> length (tile_value ar src live base k) = k"
  by (auto simp: tile_value_def)

lemma urange_16: "urange BLOCK_M = map int [0..<16]" "BLOCK_N = int 64" and urange_64: "urange (int (64 * cb) div BLOCK_N) = map int [0..<cb]"
  by (simp_all add: urange_def BLOCK_M_def BLOCK_N_def)

text \<open>The rows of a tile are loaded before the tile is written.\<close>

lemma load_rows:
  assumes "\<And>m. m < 16 \<Longrightarrow> load (int m) = Inr (t m)"
  shows "mapr load (urange BLOCK_M) = Inr (map t [0..<16])" "m < 16 \<Longrightarrow> map t [0..<16] ! nat (int m) = t m"
proof -
  have "mapr (\<lambda>m. load (int m)) [0..<16] = Inr (map t [0..<16])" by (rule mapr_ok_pure) (simp add: assms)
  then show "mapr load (urange BLOCK_M) = Inr (map t [0..<16])" by (simp add: urange_16 mapr_over_map)
  show "map t [0..<16] ! nat (int m) = t m" if "m < 16" using that by simp
qed

lemma column_tile:
  assumes "length ws = w" "64 * n + 64 \<le> w"
  shows "py_slice ws (int n * BLOCK_N) ((int n + 1) * BLOCK_N) = take 64 (drop (64 * n) ws)"
    "length (take 64 (drop (64 * n) ws)) = 64" "k < 64 \<Longrightarrow> take 64 (drop (64 * n) ws) ! k = ws ! (64 * n + k)"
proof -
  have "py_slice ws (int (64 * n)) (int (64 * n) + int 64) = take 64 (drop (64 * n) ws)" by (rule py_slice_in) (use assms in simp)
  then show "py_slice ws (int n * BLOCK_N) ((int n + 1) * BLOCK_N) = take 64 (drop (64 * n) ws)"
    by (simp add: BLOCK_N_def algebra_simps)
qed (use assms in simp_all)

lemma store_update: "length vs = n \<Longrightarrow> store_slice xs (int a) (int a + int n) vs = apply_updates (\<lambda>_ v. v) xs [(a, vs)]"
  by (simp add: store_slice_def apply_updates_single)

section \<open>Gate and up projection\<close>

definition dotw :: "('h, 'v) arith \<Rightarrow> 'h list \<Rightarrow> 'h list \<Rightarrow> 'v" where
  "dotw ar a w = ar_dot ar (map (ar_widen ar) a) (map (ar_widen ar) w)"

lemma products_nth: "k < length ws \<Longrightarrow> products ar a ws ! k = dotw ar a (ws ! k)"
  and length_products: "length (products ar a ws) = length ws"
  by (simp_all add: products_def dotw_def)

text \<open>The row of the activations that a flat index reads.\<close>

definition token_row :: "('h, 'v) arith \<Rightarrow> 'h list \<Rightarrow> int \<Rightarrow> nat \<Rightarrow> nat \<Rightarrow> nat \<Rightarrow> nat \<Rightarrow> int \<Rightarrow> 'h list" where
  "token_row ar A N top_k a_stride k_base k f = tile_value ar A (f < N) (nat f div top_k * a_stride + k_base) k"

lemma gateup_value:
  fixes M T K P Pb nb a_stride k_base :: nat
  assumes lay: "layout_ok E (int (M * T)) ids eids nb" and T: "0 < T" and gs: "0 < group_size" and P: "P = 64 * Pb"
    and A: "M * a_stride \<le> length A" "k_base + K \<le> a_stride"
    and G: "\<And>e. 0 \<le> e \<Longrightarrow> e < E \<Longrightarrow> dequant_full ar
        (py_slice w13 (e * (2 * int P * (int K div 2))) (e * (2 * int P * (int K div 2)) + 2 * int P * (int K div 2)))
        (py_slice w13_scale (e * (2 * int P * (int K div group_size))) (e * (2 * int P * (int K div group_size)) + 2 * int P * (int K div group_size)))
        (2 * int P) (int K) (int K div 2) (int K div group_size) group_size = Inr (G e) \<and> length (G e) = 2 * P"
    and gu: "length gu = 16 * nb * (2 * P)"
  shows "\<exists>gu'. moe_gateup ar A w13 w13_scale ids eids gu (int M) (int a_stride) (int k_base) (int K) (int P) (int T) (int (16 * nb)) group_size = Inr gu'
    \<and> length gu' = 16 * nb * (2 * P)
    \<and> (\<forall>r < 16 * nb. \<forall>j < 2 * P. gu' ! (r * (2 * P) + j) = dotw ar (token_row ar A (int (M * T)) T a_stride k_base K (ids ! r)) (G (eids ! (r div 16)) ! j))"
proof -
  let ?N = "int (M * T)"
  let ?t = "\<lambda>r. token_row ar A ?N T a_stride k_base K (ids ! r)"
  let ?vals = "\<lambda>r c. products ar (?t r) (take 64 (drop c (G (eids ! (r div 16)))))"
  define us where "us = (\<lambda>mb n m. map (\<lambda>off. ((16 * mb + m) * (2 * P) + (off + 64 * n), ?vals (16 * mb + m) (off + 64 * n))) [0, P])"
  have token: "nat f div T < M" if "0 \<le> f" "f < ?N" for f
  proof -
    have "nat f < M * T" using that by linarith
    then show ?thesis by (simp add: less_mult_imp_div_less)
  qed
  have row: "bindr (py_nth ids (int mb * BLOCK_M + int m)) (\<lambda>f. bindr (if f < int M * int T then py_floordiv f (int T) else Inr 0) (\<lambda>token.
       tile_row ar A (f < int M * int T) (token * int a_stride + int k_base) (int K))) = Inr (?t (16 * mb + m))" if "mb < nb" "m < 16" for mb m
  proof -
    note n = layout_nth [OF lay that]
    let ?f = "ids ! (16 * mb + m)"
    show ?thesis
    proof (cases "?f < ?N")
      case True
      have d: "?f div int T = int (nat ?f div T)" using n(2) by (simp add: zdiv_int)
      have "nat ?f div T * a_stride + a_stride \<le> M * a_stride" using mult_le_mono1 [of "Suc (nat ?f div T)" M a_stride] token [OF n(2) True] by simp
      then have "tile_row ar A True (int (nat ?f div T * a_stride + k_base)) (int K) = Inr (tile_value ar A True (nat ?f div T * a_stride + k_base) K)"
        using A by (intro tile_row_value) simp
      then show ?thesis using True T n(1) d by (simp add: py_floordiv_def token_row_def)
    next
      case False
      then show ?thesis using n(1) by (simp add: token_row_def tile_row_def tile_value_def)
    qed
  qed
  let ?load = "\<lambda>mb m. bindr (py_nth ids (int mb * BLOCK_M + m)) (\<lambda>f. bindr (if f < int M * int T then py_floordiv f (int T) else Inr 0) (\<lambda>token.
       tile_row ar A (f < int M * int T) (token * int a_stride + int k_base) (int K)))"
  let ?wg = "\<lambda>mb. py_slice (G (eids ! mb)) 0 (int P)" and ?wu = "\<lambda>mb. py_slice (G (eids ! mb)) (int P) (int (length (G (eids ! mb))))"
  let ?row = "\<lambda>mb n (tA :: 'a list list) m gu. let r0 = (int mb * BLOCK_M + m) * 2 * int P + n * BLOCK_N in
      bindr (store_slice gu r0 (r0 + BLOCK_N) (products ar (tA ! nat m) (py_slice (?wg mb) (n * BLOCK_N) ((n + 1) * BLOCK_N)))) (\<lambda>gu.
        store_slice gu (r0 + int P) (r0 + int P + BLOCK_N) (products ar (tA ! nat m) (py_slice (?wu mb) (n * BLOCK_N) ((n + 1) * BLOCK_N))))"
  have cols: "py_slice (?wg mb) (int n * BLOCK_N) ((int n + 1) * BLOCK_N) = take 64 (drop (64 * n) (G (eids ! mb)))"
      "py_slice (?wu mb) (int n * BLOCK_N) ((int n + 1) * BLOCK_N) = take 64 (drop (P + 64 * n) (G (eids ! mb)))"
      "length (take 64 (drop (64 * n) (G (eids ! mb)))) = 64" "length (take 64 (drop (P + 64 * n) (G (eids ! mb)))) = 64"
    if "mb < nb" "n < Pb" for mb n
  proof -
    have l: "length (G (eids ! mb)) = 2 * P" using G layout_nth(3,4) [OF lay that(1), of 0] by simp
    have f: "64 * n + 64 \<le> P" using column_fits [OF that(2)] P by simp
    have g: "?wg mb = take P (G (eids ! mb))" using py_slice_in [of 0 P "G (eids ! mb)"] l by simp
    have u: "?wu mb = drop P (G (eids ! mb))" using py_slice_in [of P P "G (eids ! mb)"] l by simp
    show "py_slice (?wg mb) (int n * BLOCK_N) ((int n + 1) * BLOCK_N) = take 64 (drop (64 * n) (G (eids ! mb)))"
      unfolding g using column_tile(1) [of "take P (G (eids ! mb))" P n] l f by (simp add: drop_take)
    show "py_slice (?wu mb) (int n * BLOCK_N) ((int n + 1) * BLOCK_N) = take 64 (drop (P + 64 * n) (G (eids ! mb)))"
      unfolding u using column_tile(1) [of "drop P (G (eids ! mb))" P n] l f by (simp add: add.commute)
    show "length (take 64 (drop (64 * n) (G (eids ! mb)))) = 64" "length (take 64 (drop (P + 64 * n) (G (eids ! mb)))) = 64" using l f by simp_all
  qed
  have updates: "?row mb (int n) (map (\<lambda>m. ?t (16 * mb + m)) [0..<16]) (int m) s = apply_updates (\<lambda>_ v. v) s (us mb n m)"
    if "mb < nb" "n < Pb" "m < 16" for mb n m s
  proof -
    let ?r = "16 * mb + m"
    let ?u1 = "(?r * (2 * P) + 64 * n, products ar (?t ?r) (take 64 (drop (64 * n) (G (eids ! mb)))))"
      and ?u2 = "(?r * (2 * P) + (P + 64 * n), products ar (?t ?r) (take 64 (drop (P + 64 * n) (G (eids ! mb)))))"
    have a: "(int mb * BLOCK_M + int m) * 2 * int P + int n * BLOCK_N = int (?r * (2 * P) + 64 * n)"
        "int (?r * (2 * P) + 64 * n) + int P = int (?r * (2 * P) + (P + 64 * n))"
      by (simp_all add: BLOCK_M_def BLOCK_N_def algebra_simps)
    have tm: "map (\<lambda>m. ?t (16 * mb + m)) [0..<16] ! nat (int m) = ?t ?r" using that(3) by simp
    have l: "length (snd ?u1) = 64" "length (snd ?u2) = 64" using cols(3,4) [OF that(1,2)] by (simp_all add: length_products)
    have "?row mb (int n) (map (\<lambda>m. ?t (16 * mb + m)) [0..<16]) (int m) s =
        bindr (apply_updates (\<lambda>_ v. v) s [?u1]) (\<lambda>s. apply_updates (\<lambda>_ v. v) s [?u2])"
      unfolding Let_def
      unfolding a
      unfolding tm cols(1,2) [OF that(1,2)]
      unfolding urange_16(2) store_update [OF l(1) [unfolded snd_conv]] store_update [OF l(2) [unfolded snd_conv]] ..
    also have "\<dots> = apply_updates (\<lambda>_ v. v) s ([?u1] @ [?u2])" unfolding apply_updates_append ..
    finally show ?thesis using that(3) by (simp add: us_def)
  qed
  have "moe_gateup ar A w13 w13_scale ids eids gu (int M) (int a_stride) (int k_base) (int K) (int P) (int T) (int (16 * nb)) group_size
      = apply_updates (\<lambda>_ v. v) gu (tiles us nb Pb)"
  proof -
    have fl: "py_floordiv (int K) group_size = Inr (int K div group_size)" using gs by (simp add: py_floordiv_def)
    have eids: "length eids = nb" using lay by (simp add: layout_ok_def)
    have uP: "urange (int P div BLOCK_N) = map int [0..<Pb]" unfolding P by (rule urange_64)
    have e0: "0 \<le> eids ! mb" if "mb < nb" for mb using layout_nth(3) [OF lay that, of 0] by simp
    have dq: "dequant_full ar
        (py_slice w13 (eids ! mb * (2 * int P * (int K div 2))) (eids ! mb * (2 * int P * (int K div 2)) + 2 * int P * (int K div 2)))
        (py_slice w13_scale (eids ! mb * (2 * int P * (int K div group_size))) (eids ! mb * (2 * int P * (int K div group_size)) + 2 * int P * (int K div group_size)))
        (2 * int P) (int K) (int K div 2) (int K div group_size) group_size = Inr (G (eids ! mb))" if "mb < nb" for mb
      using G layout_nth(3,4) [OF lay that, of 0] by simp
    show ?thesis unfolding moe_gateup_def fl bindr.simps Let_def
    proof (rule stage_loops [where inner = "\<lambda>mb n gu. bindr (mapr (?load mb) (urange BLOCK_M)) (\<lambda>tA. foldr_res (\<lambda>gu m. ?row mb n tA m gu) gu (urange BLOCK_M))"
          and rowb = "\<lambda>mb n m gu. ?row mb (int n) (map (\<lambda>m. ?t (16 * mb + m)) [0..<16]) m gu", OF eids])
      show "?row mb (int n) (map (\<lambda>m. ?t (16 * mb + m)) [0..<16]) (int m) s = apply_updates (\<lambda>_ v. v) s (us mb n m)"
        if "mb < nb" "n < Pb" "m < 16" for mb n m s by (rule updates [OF that])
      show "bindr (mapr (?load mb) (urange BLOCK_M)) (\<lambda>tA. foldr_res (\<lambda>gu m. ?row mb (int n) tA m gu) s (urange BLOCK_M)) =
          foldr_res (\<lambda>s m. ?row mb (int n) (map (\<lambda>m. ?t (16 * mb + m)) [0..<16]) (int m) s) s [0..<16]"
        if "mb < nb" "n < Pb" for mb n s
      proof -
        have "mapr (?load mb) (urange BLOCK_M) = Inr (map (\<lambda>m. ?t (16 * mb + m)) [0..<16])"
          by (rule load_rows(1)) (rule row [OF that(1)])
        then show ?thesis unfolding urange_16(1) foldr_res_map by simp
      qed
    qed (simp only: dq bindr.simps uP foldr_res_map e0 simp_thms Let_def)
  qed
  moreover have "\<exists>ys. apply_updates (\<lambda>_ v. v) gu (tiles us nb Pb) = Inr ys \<and> length ys = 16 * nb * (2 * P)
    \<and> (\<forall>r < 16 * nb. \<forall>j < 2 * P. True \<and> (\<exists>off \<in> set [0, P]. off \<le> j \<and> j < off + 64 * Pb) \<longrightarrow>
         ys ! (r * (2 * P) + j) = dotw ar (?t r) (G (eids ! (r div 16)) ! j))"
  proof (rule stage_grid [OF gu, where vals = ?vals])
    fix r c assume r: "r < 16 * nb" and c: "c + 64 \<le> 2 * P"
    have "r div 16 < nb" using r by linarith
    then have "length (G (eids ! (r div 16))) = 2 * P" using G layout_nth(3,4) [OF lay, of "r div 16" 0] by simp
    then show "length (?vals r c) = 64 \<and> (\<forall>k < 64. ?vals r c ! k = dotw ar (?t r) (G (eids ! (r div 16)) ! (c + k)))"
      using c by (simp add: length_products products_nth)
  qed (use P in \<open>auto simp: us_def\<close>)
  moreover have "\<exists>off \<in> set [0, P]. off \<le> j \<and> j < off + 64 * Pb" if "j < 2 * P" for j using that P by (cases "j < P") auto
  ultimately show ?thesis by (metis (no_types, lifting))
qed


section \<open>Down projection\<close>

lemma down_value:
  fixes M T K H Hb nb a_stride k_base :: nat
  assumes lay: "layout_ok E (int (M * T)) ids eids nb" and gs: "0 < group_size" and H: "H = 64 * Hb"
    and act: "length act = 16 * nb * a_stride" "k_base + K \<le> a_stride"
    and D: "\<And>e. 0 \<le> e \<Longrightarrow> e < E \<Longrightarrow> dequant_full ar
        (py_slice w2 (e * (int H * (int K div 2))) ((e + 1) * (int H * (int K div 2))))
        (py_slice w2_scale (e * (int H * (int K div group_size))) ((e + 1) * (int H * (int K div group_size))))
        (int H) (int K) (int K div 2) (int K div group_size) group_size = Inr (D e) \<and> length (D e) = H"
    and partial: "length partial = 16 * nb * H"
  shows "\<exists>partial'. moe_down ar act w2 w2_scale ids eids partial (int M) (int a_stride) (int k_base) (int K) (int H) (int T) (int (16 * nb)) group_size = Inr partial'
    \<and> length partial' = 16 * nb * H
    \<and> (\<forall>r < 16 * nb. \<forall>h < H. partial' ! (r * H + h) =
         dotw ar (tile_value ar act (ids ! r < int (M * T)) (r * a_stride + k_base) K) (D (eids ! (r div 16)) ! h))"
proof -
  let ?t = "\<lambda>r. tile_value ar act (ids ! r < int (M * T)) (r * a_stride + k_base) K"
  let ?vals = "\<lambda>r c. products ar (?t r) (take 64 (drop c (D (eids ! (r div 16)))))"
  define us where "us = (\<lambda>mb n m. map (\<lambda>off. ((16 * mb + m) * H + (off + 64 * n), ?vals (16 * mb + m) (off + 64 * n))) [0])"
  let ?load = "\<lambda>mb m. bindr (py_nth ids (int mb * BLOCK_M + m)) (\<lambda>f.
       tile_row ar act (f < int M * int T) ((int mb * BLOCK_M + m) * int a_stride + int k_base) (int K))"
  let ?row = "\<lambda>mb n (tA :: 'a list list) m s. let r0 = (int mb * BLOCK_M + m) * int H + n * BLOCK_N in
      store_slice s r0 (r0 + BLOCK_N) (products ar (tA ! nat m) (py_slice (D (eids ! mb)) (n * BLOCK_N) ((n + 1) * BLOCK_N)))"
  have row: "?load mb (int m) = Inr (?t (16 * mb + m))" if "mb < nb" "m < 16" for mb m
  proof -
    note n = layout_nth [OF lay that]
    have "(16 * mb + m) * a_stride + a_stride \<le> 16 * nb * a_stride" using mult_le_mono1 [of "Suc (16 * mb + m)" "16 * nb" a_stride] n(5) by simp
    then have "(16 * mb + m) * a_stride + k_base + K \<le> length act" using act by linarith
    then have v: "tile_row ar act live (int ((16 * mb + m) * a_stride + k_base)) (int K) = Inr (tile_value ar act live ((16 * mb + m) * a_stride + k_base) K)" for live
      by (rule tile_row_value)
    have i: "(int mb * BLOCK_M + int m) * int a_stride + int k_base = int ((16 * mb + m) * a_stride + k_base)"
      by (simp add: BLOCK_M_def algebra_simps)
    show ?thesis unfolding n(1) bindr.simps i v by simp
  qed
  have len: "length (D (eids ! mb)) = H" if "mb < nb" for mb using D layout_nth(3,4) [OF lay that, of 0] by simp
  have updates: "?row mb (int n) (map (\<lambda>m. ?t (16 * mb + m)) [0..<16]) (int m) s = apply_updates (\<lambda>_ v. v) s (us mb n m)"
    if "mb < nb" "n < Hb" "m < 16" for mb n m s
  proof -
    have a: "(int mb * BLOCK_M + int m) * int H + int n * BLOCK_N = int ((16 * mb + m) * H + 64 * n)"
      by (simp add: BLOCK_M_def BLOCK_N_def algebra_simps)
    have tm: "map (\<lambda>m. ?t (16 * mb + m)) [0..<16] ! nat (int m) = ?t (16 * mb + m)" using that(3) by simp
    have f: "64 * n + 64 \<le> H" using column_fits [OF that(2)] H by simp
    have l: "length (products ar (?t (16 * mb + m)) (take 64 (drop (64 * n) (D (eids ! mb))))) = 64"
      using column_tile(2) [OF len [OF that(1)] f] by (simp add: length_products)
    have "?row mb (int n) (map (\<lambda>m. ?t (16 * mb + m)) [0..<16]) (int m) s =
        apply_updates (\<lambda>_ v. v) s [((16 * mb + m) * H + 64 * n, products ar (?t (16 * mb + m)) (take 64 (drop (64 * n) (D (eids ! mb)))))]"
      unfolding Let_def
      unfolding a
      unfolding tm column_tile(1) [OF len [OF that(1)] f]
      unfolding urange_16(2) store_update [OF l] ..
    then show ?thesis using that(3) by (simp add: us_def)
  qed
  have "moe_down ar act w2 w2_scale ids eids partial (int M) (int a_stride) (int k_base) (int K) (int H) (int T) (int (16 * nb)) group_size
      = apply_updates (\<lambda>_ v. v) partial (tiles us nb Hb)"
  proof -
    have fl: "py_floordiv (int K) group_size = Inr (int K div group_size)" using gs by (simp add: py_floordiv_def)
    have eids: "length eids = nb" using lay by (simp add: layout_ok_def)
    have uH: "urange (int H div BLOCK_N) = map int [0..<Hb]" unfolding H by (rule urange_64)
    have e0: "0 \<le> eids ! mb" if "mb < nb" for mb using layout_nth(3) [OF lay that, of 0] by simp
    have dq: "dequant_full ar
        (py_slice w2 (eids ! mb * (int H * (int K div 2))) ((eids ! mb + 1) * (int H * (int K div 2))))
        (py_slice w2_scale (eids ! mb * (int H * (int K div group_size))) ((eids ! mb + 1) * (int H * (int K div group_size))))
        (int H) (int K) (int K div 2) (int K div group_size) group_size = Inr (D (eids ! mb))" if "mb < nb" for mb
      using D layout_nth(3,4) [OF lay that, of 0] by simp
    show ?thesis unfolding moe_down_def fl bindr.simps Let_def
    proof (rule stage_loops [where inner = "\<lambda>mb n s. bindr (mapr (?load mb) (urange BLOCK_M)) (\<lambda>tA. foldr_res (\<lambda>s m. ?row mb n tA m s) s (urange BLOCK_M))"
          and rowb = "\<lambda>mb n m s. ?row mb (int n) (map (\<lambda>m. ?t (16 * mb + m)) [0..<16]) m s", OF eids])
      show "?row mb (int n) (map (\<lambda>m. ?t (16 * mb + m)) [0..<16]) (int m) s = apply_updates (\<lambda>_ v. v) s (us mb n m)"
        if "mb < nb" "n < Hb" "m < 16" for mb n m s by (rule updates [OF that])
      show "bindr (mapr (?load mb) (urange BLOCK_M)) (\<lambda>tA. foldr_res (\<lambda>s m. ?row mb (int n) tA m s) s (urange BLOCK_M)) =
          foldr_res (\<lambda>s m. ?row mb (int n) (map (\<lambda>m. ?t (16 * mb + m)) [0..<16]) (int m) s) s [0..<16]"
        if "mb < nb" "n < Hb" for mb n s
      proof -
        have "mapr (?load mb) (urange BLOCK_M) = Inr (map (\<lambda>m. ?t (16 * mb + m)) [0..<16])"
          by (rule load_rows(1)) (rule row [OF that(1)])
        then show ?thesis unfolding urange_16(1) foldr_res_map by simp
      qed
    qed (simp only: dq bindr.simps uH foldr_res_map e0 simp_thms Let_def)
  qed
  moreover have "\<exists>ys. apply_updates (\<lambda>_ v. v) partial (tiles us nb Hb) = Inr ys \<and> length ys = 16 * nb * H
    \<and> (\<forall>r < 16 * nb. \<forall>j < H. True \<and> (\<exists>off \<in> set [0]. off \<le> j \<and> j < off + 64 * Hb) \<longrightarrow>
         ys ! (r * H + j) = dotw ar (?t r) (D (eids ! (r div 16)) ! j))"
  proof (rule stage_grid [OF partial, where vals = ?vals])
    fix r c assume r: "r < 16 * nb" and c: "c + 64 \<le> H"
    have "r div 16 < nb" using r by linarith
    then show "length (?vals r c) = 64 \<and> (\<forall>k < 64. ?vals r c ! k = dotw ar (?t r) (D (eids ! (r div 16)) ! (c + k)))"
      using c len by (simp add: length_products products_nth)
  qed (use H in \<open>auto simp: us_def\<close>)
  ultimately show ?thesis using H by (metis (no_types, lifting) add_0 le0 list.set_intros(1))
qed

section \<open>Activation\<close>

definition biased :: "('h, 'v) arith \<Rightarrow> 'v list list option \<Rightarrow> int \<Rightarrow> nat \<Rightarrow> 'v \<Rightarrow> 'v" where
  "biased ar bias e j v = (case bias of None \<Rightarrow> v | Some b \<Rightarrow> ar_add ar v (b ! nat e ! j))"

definition bias_ok :: "int \<Rightarrow> nat \<Rightarrow> 'v list list option \<Rightarrow> bool" where
  "bias_ok E w bias \<longleftrightarrow> (case bias of None \<Rightarrow> True | Some b \<Rightarrow> int (length b) = E \<and> (\<forall>r \<in> set b. length r = w))"

lemma add_bias_row_value:
  assumes "bias_ok E w bias" "0 \<le> e" "e < E" "lo + n \<le> w" "length v = n"
  shows "add_bias_row ar bias e (int lo) (int lo + int n) v = Inr (map (\<lambda>k. biased ar bias e (lo + k) (v ! k)) [0..<n])"
proof (cases bias)
  case None
  have "map ((!) v) [0..<n] = v" using map_nth [of v] assms(5) by simp
  then show ?thesis using None by (simp add: add_bias_row_def biased_def)
next
  case (Some b)
  then have b: "nat e < length b" "length (b ! nat e) = w" using assms(1-3) by (auto simp: bias_ok_def)
  have p: "py_nth b e = Inr (b ! nat e)" using py_nth_int [OF b(1)] assms(2) by simp
  have sl: "py_slice (b ! nat e) (int lo) (int lo + int n) = take n (drop lo (b ! nat e))" using b(2) assms(4) by (simp add: py_slice_in)
  have sp: "np_spread (int (length v)) (take n (drop lo (b ! nat e))) = Inr (take n (drop lo (b ! nat e)))"
    using b(2) assms(4,5) by (simp add: np_spread_def)
  have m: "map2 (ar_add ar) v (take n (drop lo (b ! nat e))) = map (\<lambda>k. biased ar bias e (lo + k) (v ! k)) [0..<n]"
    by (rule nth_equalityI) (use b(2) assms(4,5) Some in \<open>auto simp: biased_def\<close>)
  show ?thesis unfolding add_bias_row_def Some option.case p bindr.simps sl sp using m Some by simp
qed


lemma act_value:
  fixes M T P Pb nb :: nat
  assumes lay: "layout_ok E (int (M * T)) ids eids nb" and P: "P = 64 * Pb"
    and gu: "length gu = 16 * nb * (2 * P)" and act: "length act = 16 * nb * P" and b13: "bias_ok E (2 * P) b13"
  shows "\<exists>act'. moe_act_epilogue ar actf gu b13 act ids eids (int M) (int T) (int (16 * nb)) (int P) = Inr act'
    \<and> length act' = 16 * nb * P
    \<and> (\<forall>r < 16 * nb. \<forall>j < P. ids ! r < int (M * T) \<longrightarrow> act' ! (r * P + j) =
         actf (biased ar b13 (eids ! (r div 16)) j (gu ! (r * (2 * P) + j)))
              (biased ar b13 (eids ! (r div 16)) (P + j) (gu ! (r * (2 * P) + (P + j)))))"
proof -
  let ?live = "\<lambda>r. ids ! r < int (M * T)"
  let ?cell = "\<lambda>r c. biased ar b13 (eids ! (r div 16)) c (gu ! (r * (2 * P) + c))"
  let ?vals = "\<lambda>r c. map (\<lambda>k. actf (?cell r (c + k)) (?cell r (P + c + k))) [0..<64]"
  define us where "us = (\<lambda>mb n m. if ?live (16 * mb + m) then map (\<lambda>off. ((16 * mb + m) * P + (off + 64 * n), ?vals (16 * mb + m) (off + 64 * n))) [0] else [])"
  let ?row = "\<lambda>mb n m s. bindr (py_nth ids (int mb * BLOCK_M + m)) (\<lambda>f.
      if f \<ge> int M * int T then Inr s
      else let n0 = n * BLOCK_N; r0 = (int mb * BLOCK_M + m) * 2 * int P in
        bindr (add_bias_row ar b13 (eids ! mb) n0 (n0 + BLOCK_N) (py_slice gu (r0 + n0) (r0 + n0 + BLOCK_N))) (\<lambda>g.
        bindr (add_bias_row ar b13 (eids ! mb) (int P + n0) (int P + n0 + BLOCK_N)
                 (py_slice gu (r0 + int P + n0) (r0 + int P + n0 + BLOCK_N))) (\<lambda>u.
          store_slice s ((int mb * BLOCK_M + m) * int P + n0) ((int mb * BLOCK_M + m) * int P + n0 + BLOCK_N) (map2 actf g u))))"
  have updates: "?row mb (int n) (int m) s = apply_updates (\<lambda>_ v. v) s (us mb n m)" if b: "mb < nb" "n < Pb" "m < 16" for mb n m s
  proof (cases "?live (16 * mb + m)")
    case False
    then show ?thesis using layout_nth(1) [OF lay b(1,3)] by (simp add: us_def apply_updates_def)
  next
    case True
    let ?r = "16 * mb + m"
    note l = layout_nth [OF lay b(1,3)]
    have rd: "?r div 16 = mb" using b(3) by simp
    have f: "64 * n + 64 \<le> P" using column_fits [OF b(2)] P by simp
    have rw: "?r * (2 * P) + 2 * P \<le> length gu" using mult_le_mono1 [of "Suc ?r" "16 * nb" "2 * P"] l(5) gu by simp
    have side: "bindr (add_bias_row ar b13 (eids ! mb) (int c) (int c + int 64) (py_slice gu (int (?r * (2 * P) + c)) (int (?r * (2 * P) + c) + int 64))) h
        = h (map (\<lambda>k. ?cell ?r (c + k)) [0..<64])" if "c + 64 \<le> 2 * P" for c h
    proof -
      have fit: "?r * (2 * P) + c + 64 \<le> length gu" using rw that by linarith
      have s: "py_slice gu (int (?r * (2 * P) + c)) (int (?r * (2 * P) + c) + int 64) = take 64 (drop (?r * (2 * P) + c) gu)"
          "length (take 64 (drop (?r * (2 * P) + c) gu)) = 64" "\<And>k. k < 64 \<Longrightarrow> take 64 (drop (?r * (2 * P) + c) gu) ! k = gu ! (?r * (2 * P) + c + k)"
        by (rule py_slice_in [OF fit]) (use fit in simp_all)
      have me: "map (\<lambda>k. biased ar b13 (eids ! mb) (c + k) (take 64 (drop (?r * (2 * P) + c) gu) ! k)) [0..<64] = map (\<lambda>k. ?cell ?r (c + k)) [0..<64]"
        by (rule map_cong [OF refl]) (simp only: s(3) set_upt atLeastLessThan_iff rd add.assoc)
      show ?thesis unfolding s(1) add_bias_row_value [OF b13 l(3,4) that s(2)] me bindr.simps ..
    qed
    have a: "(int mb * BLOCK_M + int m) * int P + int n * BLOCK_N = int (?r * P + 64 * n)" "int n * BLOCK_N = int (64 * n)"
        "(int mb * BLOCK_M + int m) * 2 * int P + int (64 * n) = int (?r * (2 * P) + 64 * n)" "int P + int (64 * n) = int (P + 64 * n)"
        "(int mb * BLOCK_M + int m) * 2 * int P + int P + int (64 * n) = int (?r * (2 * P) + (P + 64 * n))"
      by (simp_all add: BLOCK_M_def BLOCK_N_def algebra_simps)
    have nl: "\<not> int M * int T \<le> ids ! ?r" using True by simp
    have v: "map2 actf (map (\<lambda>k. ?cell ?r (64 * n + k)) [0..<64]) (map (\<lambda>k. ?cell ?r (P + 64 * n + k)) [0..<64]) = ?vals ?r (64 * n)"
      by (rule nth_equalityI) (simp_all add: add.assoc)
    have lv: "length (?vals ?r (64 * n)) = 64" by simp
    have f1: "64 * n + 64 \<le> 2 * P" and f2: "P + 64 * n + 64 \<le> 2 * P" using f by simp_all
    have "?row mb (int n) (int m) s = apply_updates (\<lambda>_ v. v) s [(?r * P + 64 * n, ?vals ?r (64 * n))]"
      unfolding l(1) bindr.simps if_not_P [OF nl] Let_def
      unfolding a(1)
      unfolding a(2)
      unfolding a(3-5) urange_16(2)
      unfolding side [OF f1] side [OF f2] v
      by (rule store_update [OF lv])
    then show ?thesis using True by (simp add: us_def)
  qed
  have "moe_act_epilogue ar actf gu b13 act ids eids (int M) (int T) (int (16 * nb)) (int P) = apply_updates (\<lambda>_ v. v) act (tiles us nb Pb)"
  proof -
    have eids: "length eids = nb" using lay by (simp add: layout_ok_def)
    have uP: "urange (int P div BLOCK_N) = map int [0..<Pb]" unfolding P by (rule urange_64)
    have e0: "0 \<le> eids ! mb" if "mb < nb" for mb using layout_nth(3) [OF lay that, of 0] by simp
    show ?thesis unfolding moe_act_epilogue_def Let_def
    proof (rule stage_loops [where inner = "\<lambda>mb n s. foldr_res (\<lambda>s m. ?row mb n m s) s (urange BLOCK_M)"
          and rowb = "\<lambda>mb n m s. ?row mb (int n) m s", OF eids])
      show "?row mb (int n) (int m) s = apply_updates (\<lambda>_ v. v) s (us mb n m)" if "mb < nb" "n < Pb" "m < 16" for mb n m s
        by (rule updates [OF that])
    qed (simp_all only: uP urange_16(1) foldr_res_map e0 simp_thms Let_def)
  qed
  moreover have "\<exists>ys. apply_updates (\<lambda>_ v. v) act (tiles us nb Pb) = Inr ys \<and> length ys = 16 * nb * P
    \<and> (\<forall>r < 16 * nb. \<forall>j < P. ?live r \<and> (\<exists>off \<in> set [0]. off \<le> j \<and> j < off + 64 * Pb) \<longrightarrow>
         ys ! (r * P + j) = actf (?cell r j) (?cell r (P + j)))"
    by (rule stage_grid [OF act, where vals = ?vals]) (use P in \<open>auto simp: us_def add.assoc\<close>)
  ultimately show ?thesis using P by (metis (no_types, lifting) add_0 le0 list.set_intros(1))
qed


section \<open>Routed combination\<close>

lemma concat_one: "c < n \<Longrightarrow> concat (map (\<lambda>k. if k = c then X else []) [0..<n]) = X"
proof (induction n)
  case (Suc n)
  have "concat (map (\<lambda>k. if k = c then X else []) [0..<c]) = []" by simp
  then show ?case using Suc by (cases "c = n") auto
qed simp

lemma column_index: "64 * n \<le> h \<and> h < 64 * n + 64 \<longleftrightarrow> n = h div (64 :: nat)"
proof
  assume "64 * n \<le> h \<and> h < 64 * n + 64"
  then show "n = h div 64" using div_nat_eqI [of 64 n h] by simp
next
  assume "n = h div 64"
  moreover have "h div 64 * 64 + h mod 64 = h" "h mod 64 < 64" by simp_all
  ultimately show "64 * n \<le> h \<and> h < 64 * n + 64" by simp
qed

lemma concat_blocks: "concat (map (\<lambda>mb. concat (map (\<lambda>m. g (16 * mb + m)) [0..<16])) [0..<nb]) = concat (map g [0..<16 * nb])"
proof (induction nb)
  case (Suc nb)
  have "[0..<16 * Suc nb] = [0..<16 * nb] @ map (\<lambda>m. 16 * nb + m) [0..<16]"
    using upt_add_eq_append [of 0 "16 * nb" 16] map_add_upt [of "16 * nb" 16] by (simp add: add.commute)
  moreover have "[0..<Suc nb] = [0..<nb] @ [nb]" by simp
  ultimately show ?case using Suc by (simp add: comp_def del: upt_Suc upt_conv_Cons)
qed simp

text \<open>What row \<open>r\<close> adds to column \<open>h\<close> of its token.\<close>

lemma combine_value:
  fixes M T H Hb nb :: nat
  assumes lay: "layout_ok E (int (M * T)) ids eids nb" and T: "0 < T" and H: "H = 64 * Hb"
    and partial: "length partial = 16 * nb * H" and sw: "length sw = 16 * nb" and out: "length out = M * H" and b2: "bias_ok E H b2"
  shows "\<exists>out'. moe_combine_stage ar partial b2 sw ids eids out (int M) (int H) (int T) (int (16 * nb)) = Inr out'
    \<and> length out' = M * H
    \<and> (\<forall>t < M. \<forall>h < H. out' ! (t * H + h) = foldl (ar_add ar) (out ! (t * H + h))
         (concat (map (\<lambda>r. if ids ! r < int (M * T) \<and> nat (ids ! r) div T = t
             then [ar_mul ar (biased ar b2 (eids ! (r div 16)) h (partial ! (r * H + h))) (sw ! r)] else []) [0..<16 * nb])))"
proof -
  let ?live = "\<lambda>r. ids ! r < int (M * T)" and ?tok = "\<lambda>r. nat (ids ! r) div T"
  let ?c = "\<lambda>r h. ar_mul ar (biased ar b2 (eids ! (r div 16)) h (partial ! (r * H + h))) (sw ! r)"
  let ?vals = "\<lambda>r c. map (\<lambda>k. ?c r (c + k)) [0..<64]"
  define us where "us = (\<lambda>mb n m. if ?live (16 * mb + m) then [(?tok (16 * mb + m) * H + 64 * n, ?vals (16 * mb + m) (64 * n))] else [])"
  let ?row = "\<lambda>mb n m s. bindr (py_nth ids (int mb * BLOCK_M + m)) (\<lambda>f.
      if f \<ge> int M * int T then Inr s
      else bindr (py_floordiv f (int T)) (\<lambda>token.
        bindr (py_nth sw (int mb * BLOCK_M + m)) (\<lambda>weight.
        let n0 = n * BLOCK_N in
        bindr (add_bias_row ar b2 (eids ! mb) n0 (n0 + BLOCK_N) (py_slice partial ((int mb * BLOCK_M + m) * int H + n0) ((int mb * BLOCK_M + m) * int H + n0 + BLOCK_N))) (\<lambda>val.
          update_slice (ar_add ar) s (token * int H + n0) (token * int H + n0 + BLOCK_N) (map (\<lambda>v. ar_mul ar v weight) val)))))"
  have updates: "?row mb (int n) (int m) s = apply_updates (ar_add ar) s (us mb n m)" if b: "mb < nb" "n < Hb" "m < 16" for mb n m s
  proof (cases "?live (16 * mb + m)")
    case False
    then show ?thesis using layout_nth(1) [OF lay b(1,3)] by (simp add: us_def apply_updates_def)
  next
    case True
    let ?r = "16 * mb + m"
    note l = layout_nth [OF lay b(1,3)]
    have rd: "?r div 16 = mb" using b(3) by simp
    have f: "64 * n + 64 \<le> H" using column_fits [OF b(2)] H by simp
    have rw: "?r * H + H \<le> length partial" using mult_le_mono1 [of "Suc ?r" "16 * nb" H] l(5) partial by simp
    have fit: "?r * H + 64 * n + 64 \<le> length partial" using rw f by linarith
    have s: "py_slice partial (int (?r * H + 64 * n)) (int (?r * H + 64 * n) + int 64) = take 64 (drop (?r * H + 64 * n) partial)"
        "length (take 64 (drop (?r * H + 64 * n) partial)) = 64" "\<And>k. k < 64 \<Longrightarrow> take 64 (drop (?r * H + 64 * n) partial) ! k = partial ! (?r * H + 64 * n + k)"
      by (rule py_slice_in [OF fit]) (use fit in simp_all)
    have nl: "\<not> int M * int T \<le> ids ! ?r" using True by simp
    have tok: "py_floordiv (ids ! ?r) (int T) = Inr (int (?tok ?r))" using T l(2) by (simp add: py_floordiv_def zdiv_int)
    have i: "int mb * BLOCK_M + int m = int ?r" by (simp add: BLOCK_M_def)
    have w: "py_nth sw (int ?r) = Inr (sw ! ?r)" by (rule py_nth_int) (use l(5) sw in simp)
    have a: "int n * BLOCK_N = int (64 * n)" "int ?r * int H + int (64 * n) = int (?r * H + 64 * n)" "int (?tok ?r) * int H + int (64 * n) = int (?tok ?r * H + 64 * n)"
      by (simp_all add: BLOCK_N_def)
    have v: "map (\<lambda>v. ar_mul ar v (sw ! ?r)) (map (\<lambda>k. biased ar b2 (eids ! mb) (64 * n + k) (take 64 (drop (?r * H + 64 * n) partial) ! k)) [0..<64]) = ?vals ?r (64 * n)"
      unfolding map_map comp_def by (rule map_cong [OF refl]) (simp only: s(3) set_upt atLeastLessThan_iff rd add.assoc)
    have lv: "int (length (?vals ?r (64 * n))) = int 64" by simp
    have "?row mb (int n) (int m) s = apply_updates (ar_add ar) s [(?tok ?r * H + 64 * n, ?vals ?r (64 * n))]"
      unfolding l(1) bindr.simps if_not_P [OF nl] tok Let_def
      unfolding i w a(1) bindr.simps
      unfolding a(2,3) urange_16(2) s(1) add_bias_row_value [OF b2 l(3,4) f s(2)] bindr.simps v
      unfolding apply_updates_single lv ..
    then show ?thesis using True by (simp add: us_def)
  qed
  have run: "moe_combine_stage ar partial b2 sw ids eids out (int M) (int H) (int T) (int (16 * nb)) = apply_updates (ar_add ar) out (tiles us nb Hb)"
  proof -
    have eids: "length eids = nb" using lay by (simp add: layout_ok_def)
    have uH: "urange (int H div BLOCK_N) = map int [0..<Hb]" unfolding H by (rule urange_64)
    have e0: "0 \<le> eids ! mb" if "mb < nb" for mb using layout_nth(3) [OF lay that, of 0] by simp
    show ?thesis unfolding moe_combine_stage_def Let_def
    proof (rule stage_loops [where inner = "\<lambda>mb n s. foldr_res (\<lambda>s m. ?row mb n m s) s (urange BLOCK_M)"
          and rowb = "\<lambda>mb n m s. ?row mb (int n) m s", OF eids])
      show "?row mb (int n) (int m) s = apply_updates (ar_add ar) s (us mb n m)" if "mb < nb" "n < Hb" "m < 16" for mb n m s
        by (rule updates [OF that])
    qed (simp_all only: uH urange_16(1) foldr_res_map e0 simp_thms Let_def)
  qed
  have token: "?tok r < M" if "r < 16 * nb" "?live r" for r
  proof -
    have "0 \<le> ids ! r" using that lay by (simp add: layout_ok_def)
    then have "nat (ids ! r) < M * T" using that(2) by linarith
    then show ?thesis by (simp add: less_mult_imp_div_less)
  qed
  have "\<forall>u \<in> set (tiles us nb Hb). fst u + length (snd u) \<le> length out"
  proof
    fix u assume "u \<in> set (tiles us nb Hb)"
    then obtain mb n m where b: "mb < nb" "n < Hb" "m < 16" and u: "u \<in> set (us mb n m)" unfolding set_tiles by blast
    then have r: "?live (16 * mb + m)" "u = (?tok (16 * mb + m) * H + 64 * n, ?vals (16 * mb + m) (64 * n))" by (auto simp: us_def split: if_splits)
    have "Suc (?tok (16 * mb + m)) * H \<le> M * H" using token [OF layout_nth(5) [OF lay b(1,3)] r(1)] by (intro mult_le_mono1) simp
    then show "fst u + length (snd u) \<le> length out" unfolding r(2) out using column_fits [OF b(2)] H by simp
  qed
  from apply_updates_value [OF this, of "ar_add ar"] obtain ys where ys: "apply_updates (ar_add ar) out (tiles us nb Hb) = Inr ys" "length ys = length out"
      "\<forall>i < length out. ys ! i = foldl (ar_add ar) (out ! i) (hits i (tiles us nb Hb))" by blast
  let ?g = "\<lambda>t h r. if ?live r \<and> ?tok r = t then [?c r h] else []"
  have hit: "hits (t * H + h) (tiles us nb Hb) = concat (map (?g t h) [0..<16 * nb])" if h: "h < H" for t h
  proof -
    have hd: "h div 64 < Hb" using h H by (simp add: less_mult_imp_div_less)
    have one: "hits (t * H + h) (us mb n m) = (if n = h div 64 then ?g t h (16 * mb + m) else [])" if "n < Hb" for mb n m
    proof (cases "?live (16 * mb + m)")
      case True
      have "64 * n + 64 \<le> H" using column_fits [OF that] H by simp
      then have "covers (?tok (16 * mb + m) * H + 64 * n, ?vals (16 * mb + m) (64 * n)) (t * H + h) \<longleftrightarrow> ?tok (16 * mb + m) = t \<and> 64 * n \<le> h \<and> h < 64 * n + 64"
        by (subst covers_grid [OF h]) simp_all
      moreover have "64 * n \<le> h \<and> h < 64 * n + 64 \<longleftrightarrow> n = h div 64" by (rule column_index)
      ultimately show ?thesis using True by (auto simp: us_def)
    qed (simp add: us_def)
    have "hits (t * H + h) (tiles us nb Hb) =
        concat (map (\<lambda>mb. concat (map (\<lambda>n. concat (map (\<lambda>m. hits (t * H + h) (us mb n m)) [0..<16])) [0..<Hb])) [0..<nb])"
      unfolding tiles_def hits_concat map_map comp_def ..
    also have "\<dots> = concat (map (\<lambda>mb. concat (map (\<lambda>m. ?g t h (16 * mb + m)) [0..<16])) [0..<nb])"
    proof (rule arg_cong [where f = concat], rule map_cong [OF refl])
      fix mb
      have me: "map (\<lambda>n. concat (map (\<lambda>m. hits (t * H + h) (us mb n m)) [0..<16])) [0..<Hb] =
          map (\<lambda>n. if n = h div 64 then concat (map (\<lambda>m. ?g t h (16 * mb + m)) [0..<16]) else []) [0..<Hb]"
        by (rule map_cong [OF refl]) (auto simp: one)
      show "concat (map (\<lambda>n. concat (map (\<lambda>m. hits (t * H + h) (us mb n m)) [0..<16])) [0..<Hb]) =
          concat (map (\<lambda>m. ?g t h (16 * mb + m)) [0..<16])" unfolding me by (rule concat_one [OF hd])
    qed
    also have "\<dots> = concat (map (?g t h) [0..<16 * nb])" by (rule concat_blocks)
    finally show ?thesis .
  qed
  have "ys ! (t * H + h) = foldl (ar_add ar) (out ! (t * H + h)) (concat (map (?g t h) [0..<16 * nb]))" if "t < M" "h < H" for t h
  proof -
    have "Suc t * H \<le> M * H" using that(1) by (intro mult_le_mono1) simp
    then have "t * H + h < length out" using that(2) out by simp
    then show ?thesis unfolding hit [OF that(2), symmetric] by (rule ys(3) [rule_format])
  qed
  then show ?thesis using run ys(1,2) out by (intro exI [of _ ys] conjI allI impI) simp_all
qed


section \<open>The forward pass of one rank\<close>

definition expert_act :: "('h, 'v) arith \<Rightarrow> ('v \<Rightarrow> 'v \<Rightarrow> 'h) \<Rightarrow> 'h list \<Rightarrow> 'h list list \<Rightarrow> 'v list list option \<Rightarrow> int \<Rightarrow> nat \<Rightarrow> 'h list" where
  "expert_act ar actf row g b13 e P =
     map (\<lambda>j. actf (biased ar b13 e j (dotw ar row (g ! j))) (biased ar b13 e (P + j) (dotw ar row (g ! (P + j))))) [0..<P]"

text \<open>Column \<open>h\<close> of expert \<open>e\<close>'s output for an activation row.\<close>

definition expert_out ::
  "('h, 'v) arith \<Rightarrow> ('v \<Rightarrow> 'v \<Rightarrow> 'h) \<Rightarrow> 'h list \<Rightarrow> 'h list list \<Rightarrow> 'h list list \<Rightarrow> 'v list list option \<Rightarrow> 'v list list option \<Rightarrow> int \<Rightarrow> nat \<Rightarrow> nat \<Rightarrow> 'v" where
  "expert_out ar actf row g d b13 b2 e P h = biased ar b2 e h (dotw ar (expert_act ar actf row g b13 e P) (d ! h))"

definition token_slice :: "'h list \<Rightarrow> nat \<Rightarrow> nat \<Rightarrow> int \<Rightarrow> 'h list" where
  "token_slice A T H f = take H (drop (nat f div T * H) A)"

lemma take_drop_map: "a + n \<le> length xs \<Longrightarrow> take n (drop a xs) = map (\<lambda>j. xs ! (a + j)) [0..<n]"
  by (rule nth_equalityI) simp_all

text \<open>The dequantized weights of all experts, as the stages read them from the flat arrays.\<close>

definition gate_weights :: "('h, 'v) arith \<Rightarrow> int list \<Rightarrow> int list \<Rightarrow> nat \<Rightarrow> nat \<Rightarrow> int \<Rightarrow> int \<Rightarrow> (int \<Rightarrow> 'h list list) \<Rightarrow> bool" where
  "gate_weights ar w s P K gs E G \<longleftrightarrow> (\<forall>e. 0 \<le> e \<and> e < E \<longrightarrow>
     dequant_full ar
       (py_slice w (e * (2 * int P * (int K div 2))) (e * (2 * int P * (int K div 2)) + 2 * int P * (int K div 2)))
       (py_slice s (e * (2 * int P * (int K div gs))) (e * (2 * int P * (int K div gs)) + 2 * int P * (int K div gs)))
       (2 * int P) (int K) (int K div 2) (int K div gs) gs = Inr (G e) \<and> length (G e) = 2 * P)"

definition down_weights :: "('h, 'v) arith \<Rightarrow> int list \<Rightarrow> int list \<Rightarrow> nat \<Rightarrow> nat \<Rightarrow> int \<Rightarrow> int \<Rightarrow> (int \<Rightarrow> 'h list list) \<Rightarrow> bool" where
  "down_weights ar w s H K gs E D \<longleftrightarrow> (\<forall>e. 0 \<le> e \<and> e < E \<longrightarrow>
     dequant_full ar
       (py_slice w (e * (int H * (int K div 2))) ((e + 1) * (int H * (int K div 2))))
       (py_slice s (e * (int H * (int K div gs))) ((e + 1) * (int H * (int K div gs))))
       (int H) (int K) (int K div 2) (int K div gs) gs = Inr (D e) \<and> length (D e) = H)"

lemma epilogue_value:
  fixes M T H Hb P Pb nb :: nat
  assumes lay: "layout_ok E (int (M * T)) ids eids nb" and T: "0 < T" and H: "H = 64 * Hb" and P: "P = 64 * Pb" and gs: "0 < gs"
    and gu: "length gu = 16 * nb * (2 * P)"
      "\<And>r j. r < 16 * nb \<Longrightarrow> ids ! r < int (M * T) \<Longrightarrow> j < 2 * P \<Longrightarrow> gu ! (r * (2 * P) + j) = dotw ar (token_slice A T H (ids ! r)) (G (eids ! (r div 16)) ! j)"
    and b13: "bias_ok E (2 * P) b13"
  shows "\<exists>act. moe_act_epilogue ar actf gu b13 (replicate (nat (int (16 * nb) * int P)) junk) ids eids (int M) (int T) (int (16 * nb)) (int P) = Inr act
    \<and> length act = 16 * nb * P
    \<and> (\<forall>r < 16 * nb. ids ! r < int (M * T) \<longrightarrow> take P (drop (r * P) act) = expert_act ar actf (token_slice A T H (ids ! r)) (G (eids ! (r div 16))) b13 (eids ! (r div 16)) P)"
proof -
  have j: "length (replicate (nat (int (16 * nb) * int P)) junk) = 16 * nb * P" by (simp flip: of_nat_mult)
  obtain act where act: "moe_act_epilogue ar actf gu b13 (replicate (nat (int (16 * nb) * int P)) junk) ids eids (int M) (int T) (int (16 * nb)) (int P) = Inr act"
      "length act = 16 * nb * P"
      "\<forall>r < 16 * nb. \<forall>j < P. ids ! r < int (M * T) \<longrightarrow> act ! (r * P + j) =
         actf (biased ar b13 (eids ! (r div 16)) j (gu ! (r * (2 * P) + j)))
              (biased ar b13 (eids ! (r div 16)) (P + j) (gu ! (r * (2 * P) + (P + j))))"
    using act_value [OF lay P gu(1) j b13, of ar actf] by blast
  have "take P (drop (r * P) act) = expert_act ar actf (token_slice A T H (ids ! r)) (G (eids ! (r div 16))) b13 (eids ! (r div 16)) P"
    if r: "r < 16 * nb" "ids ! r < int (M * T)" for r
  proof -
    have "Suc r * P \<le> 16 * nb * P" using r(1) by (intro mult_le_mono1) simp
    then have f: "r * P + P \<le> length act" using act(2) by simp
    show ?thesis unfolding take_drop_map [OF f] expert_act_def
    proof (rule map_cong [OF refl])
      fix j assume "j \<in> set [0..<P]"
      then have j: "j < P" "j < 2 * P" "P + j < 2 * P" by simp_all
      show "act ! (r * P + j) = actf (biased ar b13 (eids ! (r div 16)) j (dotw ar (token_slice A T H (ids ! r)) (G (eids ! (r div 16)) ! j)))
          (biased ar b13 (eids ! (r div 16)) (P + j) (dotw ar (token_slice A T H (ids ! r)) (G (eids ! (r div 16)) ! (P + j))))"
        using act(3) r j(1) unfolding gu(2) [OF r j(2), symmetric] gu(2) [OF r j(3), symmetric] by blast
    qed
  qed
  then show ?thesis using act(1,2) by blast
qed

text \<open>The sum of a cell of the output over the rows of its token.\<close>

definition routed_terms :: "(nat \<Rightarrow> 'v) \<Rightarrow> int \<Rightarrow> nat \<Rightarrow> int list \<Rightarrow> nat \<Rightarrow> 'v list" where
  "routed_terms contrib N T ids t =
     concat (map (\<lambda>r. if ids ! r < N \<and> nat (ids ! r) div T = t then [contrib r] else []) [0..<length ids])"

lemma finish_value:
  fixes M T H Hb P Pb nb :: nat
  assumes lay: "layout_ok E (int (M * T)) ids eids nb" and T: "0 < T" and H: "H = 64 * Hb"
    and partial: "length partial = 16 * nb * H"
      "\<And>r h. r < 16 * nb \<Longrightarrow> ids ! r < int (M * T) \<Longrightarrow> h < H \<Longrightarrow> partial ! (r * H + h) = F r h"
    and sw: "length sw = 16 * nb" and b2: "bias_ok E H b2"
  shows "\<exists>out. moe_combine_stage ar partial b2 sw ids eids (replicate (M * H) (ar_zero ar)) (int M) (int H) (int T) (int (16 * nb)) = Inr out
    \<and> length out = M * H
    \<and> (\<forall>t < M. \<forall>h < H. out ! (t * H + h) = foldl (ar_add ar) (ar_zero ar)
         (routed_terms (\<lambda>r. ar_mul ar (biased ar b2 (eids ! (r div 16)) h (F r h)) (sw ! r)) (int (M * T)) T ids t))"
proof -
  have l: "length ids = 16 * nb" using lay by (simp add: layout_ok_def)
  have z: "length (replicate (M * H) (ar_zero ar)) = M * H" by simp
  obtain out where out: "moe_combine_stage ar partial b2 sw ids eids (replicate (M * H) (ar_zero ar)) (int M) (int H) (int T) (int (16 * nb)) = Inr out"
      "length out = M * H"
      "\<forall>t < M. \<forall>h < H. out ! (t * H + h) = foldl (ar_add ar) (replicate (M * H) (ar_zero ar) ! (t * H + h))
         (concat (map (\<lambda>r. if ids ! r < int (M * T) \<and> nat (ids ! r) div T = t
             then [ar_mul ar (biased ar b2 (eids ! (r div 16)) h (partial ! (r * H + h))) (sw ! r)] else []) [0..<16 * nb]))"
    using combine_value [OF lay T H partial(1) sw z b2] by blast
  have "out ! (t * H + h) = foldl (ar_add ar) (ar_zero ar)
         (routed_terms (\<lambda>r. ar_mul ar (biased ar b2 (eids ! (r div 16)) h (F r h)) (sw ! r)) (int (M * T)) T ids t)" if "t < M" "h < H" for t h
  proof -
    have "Suc t * H \<le> M * H" using that(1) by (intro mult_le_mono1) simp
    then have c: "replicate (M * H) (ar_zero ar) ! (t * H + h) = ar_zero ar" using that(2) by simp
    have "map (\<lambda>r. if ids ! r < int (M * T) \<and> nat (ids ! r) div T = t
             then [ar_mul ar (biased ar b2 (eids ! (r div 16)) h (partial ! (r * H + h))) (sw ! r)] else []) [0..<16 * nb] =
        map (\<lambda>r. if ids ! r < int (M * T) \<and> nat (ids ! r) div T = t
             then [ar_mul ar (biased ar b2 (eids ! (r div 16)) h (F r h)) (sw ! r)] else []) [0..<length ids]"
      unfolding l by (rule map_cong [OF refl]) (use partial(2) that(2) in auto)
    then show ?thesis using out(3) that c unfolding routed_terms_def by simp
  qed
  then show ?thesis using out(1,2) by blast
qed

lemma forward_value:
  fixes M T H Hb P Pb nb :: nat
  assumes lay: "layout_ok E (int (M * T)) ids eids nb" and T: "0 < T" and H: "H = 64 * Hb" and P: "P = 64 * Pb" and gs: "0 < gs"
    and A: "length A = M * H" and G: "gate_weights ar w13 w13s P H gs E G" and D: "down_weights ar w2 w2s H P gs E D"
    and b13: "bias_ok E (2 * P) b13" and b2: "bias_ok E H b2" and sw: "length sw = 16 * nb"
  shows "\<exists>out. moe_local_forward ar actf junk A w13 w13s w2 w2s ids sw eids (replicate (M * H) (ar_zero ar)) (int (16 * nb)) (int M) (int H) (int P) (int T) gs b13 b2 = Inr out
    \<and> length out = M * H
    \<and> (\<forall>t < M. \<forall>h < H. out ! (t * H + h) = foldl (ar_add ar) (ar_zero ar)
         (routed_terms (\<lambda>r. ar_mul ar (expert_out ar actf (token_slice A T H (ids ! r)) (G (eids ! (r div 16))) (D (eids ! (r div 16))) b13 b2 (eids ! (r div 16)) P h) (sw ! r))
            (int (M * T)) T ids t))"
proof -
  let ?N = "int (M * T)"
  have lg: "length (replicate (nat (int (16 * nb) * 2 * int P)) (ar_zero ar)) = 16 * nb * (2 * P)"
    and lp: "length (replicate (nat (int (16 * nb) * int H)) (ar_zero ar)) = 16 * nb * H"
    by (simp_all add: nat_mult_distrib)
  have "M * H \<le> length A" "0 + H \<le> H" using A by simp_all
  from gateup_value [OF lay T gs P this G [unfolded gate_weights_def, rule_format, OF conjI] lg]
  obtain gu where gu: "moe_gateup ar A w13 w13s ids eids (replicate (nat (int (16 * nb) * 2 * int P)) (ar_zero ar)) (int M) (int H) (int 0) (int H) (int P) (int T) (int (16 * nb)) gs = Inr gu"
      "length gu = 16 * nb * (2 * P)"
      "\<forall>r < 16 * nb. \<forall>j < 2 * P. gu ! (r * (2 * P) + j) = dotw ar (token_row ar A ?N T H 0 H (ids ! r)) (G (eids ! (r div 16)) ! j)" by blast
  have "gu ! (r * (2 * P) + j) = dotw ar (token_slice A T H (ids ! r)) (G (eids ! (r div 16)) ! j)"
    if "r < 16 * nb" "ids ! r < ?N" "j < 2 * P" for r j
    using gu(3) that by (simp add: token_row_def token_slice_def tile_value_def)
  from epilogue_value [OF lay T H P gs gu(2) this b13, of actf junk]
  obtain act where act: "moe_act_epilogue ar actf gu b13 (replicate (nat (int (16 * nb) * int P)) junk) ids eids (int M) (int T) (int (16 * nb)) (int P) = Inr act"
      "length act = 16 * nb * P"
      "\<forall>r < 16 * nb. ids ! r < ?N \<longrightarrow> take P (drop (r * P) act) = expert_act ar actf (token_slice A T H (ids ! r)) (G (eids ! (r div 16))) b13 (eids ! (r div 16)) P"
    by blast
  have "0 + P \<le> P" by simp
  from down_value [OF lay gs H act(2) this D [unfolded down_weights_def, rule_format, OF conjI] lp]
  obtain partial where partial: "moe_down ar act w2 w2s ids eids (replicate (nat (int (16 * nb) * int H)) (ar_zero ar)) (int M) (int P) (int 0) (int P) (int H) (int T) (int (16 * nb)) gs = Inr partial"
      "length partial = 16 * nb * H"
      "\<forall>r < 16 * nb. \<forall>h < H. partial ! (r * H + h) = dotw ar (tile_value ar act (ids ! r < ?N) (r * P + 0) P) (D (eids ! (r div 16)) ! h)" by blast
  have "partial ! (r * H + h) = dotw ar (expert_act ar actf (token_slice A T H (ids ! r)) (G (eids ! (r div 16))) b13 (eids ! (r div 16)) P) (D (eids ! (r div 16)) ! h)"
    if "r < 16 * nb" "ids ! r < ?N" "h < H" for r h
    using partial(3) act(3) that by (simp add: tile_value_def)
  from finish_value [OF lay T H partial(2) this sw b2]
  obtain out where out: "moe_combine_stage ar partial b2 sw ids eids (replicate (M * H) (ar_zero ar)) (int M) (int H) (int T) (int (16 * nb)) = Inr out"
      "length out = M * H"
      "\<forall>t < M. \<forall>h < H. out ! (t * H + h) = foldl (ar_add ar) (ar_zero ar)
         (routed_terms (\<lambda>r. ar_mul ar (biased ar b2 (eids ! (r div 16)) h
            (dotw ar (expert_act ar actf (token_slice A T H (ids ! r)) (G (eids ! (r div 16))) b13 (eids ! (r div 16)) P) (D (eids ! (r div 16)) ! h))) (sw ! r)) ?N T ids t)"
    by blast
  have "moe_local_forward ar actf junk A w13 w13s w2 w2s ids sw eids (replicate (M * H) (ar_zero ar)) (int (16 * nb)) (int M) (int H) (int P) (int T) gs b13 b2 = Inr out"
    unfolding moe_local_forward_def
    using gu(1) act(1) partial(1) out(1) by simp
  then show ?thesis using out(2,3) unfolding expert_out_def by blast
qed

end
