(* ===== verification/Moe_Parallel.thy ===== *)
theory Moe_Parallel
  imports Moe_Values
begin

text \<open>
  The expert-parallel and the tensor-parallel forward of \<^verbatim>\<open>dist.py\<close>, the sharding of the weights, and the transfer between
  pipeline stages.  Weights are three-dimensional arrays: a shape and the cells in row-major order.
\<close>

section \<open>Arrays of three dimensions\<close>

record 'a array3 =
  a3_d0 :: int
  a3_d1 :: int
  a3_d2 :: int
  a3_cells :: "'a list"

text \<open>\<^verbatim>\<open>w[a:b].ravel()\<close>\<close>

definition slice_experts :: "'a array3 \<Rightarrow> int \<Rightarrow> int \<Rightarrow> 'a list" where
  "slice_experts w a b =
     (let lo = slice_bound (a3_d0 w) a; hi = max lo (slice_bound (a3_d0 w) b); n = a3_d1 w * a3_d2 w in
      take (nat ((hi - lo) * n)) (drop (nat (lo * n)) (a3_cells w)))"

text \<open>\<^verbatim>\<open>w[:, :, a:b].ravel()\<close>\<close>

definition slice_columns :: "'a array3 \<Rightarrow> int \<Rightarrow> int \<Rightarrow> 'a list" where
  "slice_columns w a b =
     concat (map (\<lambda>r. py_slice (take (nat (a3_d2 w)) (drop (nat (r * a3_d2 w)) (a3_cells w))) a b) (urange (a3_d0 w * a3_d1 w)))"

text \<open>\<^verbatim>\<open>sum(arrays)\<close> starts from the number 0, which spreads over the first array.\<close>

definition sum_arrays :: "('h, 'v) arith \<Rightarrow> 'v list list \<Rightarrow> 'v list result" where
  "sum_arrays ar ps = foldr_res (np_plus (ar_add ar)) [ar_zero ar] ps"

definition py_lower :: "string \<Rightarrow> string" where
  "py_lower s = map (\<lambda>c. let n = of_char c :: nat in if 65 \<le> n \<and> n \<le> 90 then char_of (n + 32) else c) s"

section \<open>Routing weights in layout order\<close>

text \<open>Padding rows are clamped before the weights are indexed, and masked after.\<close>

definition sorted_weights :: "('h, 'v) arith \<Rightarrow> 'v list \<Rightarrow> int list \<Rightarrow> int \<Rightarrow> 'v list result" where
  "sorted_weights ar topk_w sorted_ids nflat =
     bindr (mapr (\<lambda>s. py_nth topk_w (min s (nflat - 1))) sorted_ids) (\<lambda>ws.
       Inr (map2 (\<lambda>s w. if 0 \<le> s \<and> s < nflat then w else ar_zero ar) sorted_ids ws))"

section \<open>Expert parallelism\<close>

text \<open>A routing table with its shape; the scalars of the activation.\<close>

record routing =
  rt_ids :: "int list"
  rt_M :: int
  rt_top_k :: int

record 'v act_params =
  ap_activation :: string
  ap_swiglu_limit :: 'v
  ap_beta :: 'v
  ap_linear_beta :: 'v

definition act_fun :: "('h, 'v) arith \<Rightarrow> 'v act_params \<Rightarrow> 'v \<Rightarrow> 'v \<Rightarrow> 'h" where
  "act_fun ar ap = activate ar (py_lower (ap_activation ap)) (ap_swiglu_limit ap) (ap_beta ap) (ap_linear_beta ap)"

record moe_weights =
  mw_w13 :: "int array3"
  mw_w13_scale :: "int array3"
  mw_w2 :: "int array3"
  mw_w2_scale :: "int array3"

definition slice_bias :: "'v list list option \<Rightarrow> int \<Rightarrow> int \<Rightarrow> 'v list list option" where
  "slice_bias bias a b = map_option (\<lambda>rows. py_slice rows a b) bias"

text \<open>The body of the rank loop; \<open>ji\<close> and \<open>jh\<close> are what fresh arrays hold.\<close>

definition ep_rank ::
  "('h, 'v) arith \<Rightarrow> int \<Rightarrow> 'h \<Rightarrow> 'h list \<Rightarrow> int \<Rightarrow> int \<Rightarrow> moe_weights \<Rightarrow> routing \<Rightarrow> 'v list
   \<Rightarrow> 'v list list option \<Rightarrow> 'v list list option \<Rightarrow> int \<Rightarrow> int \<Rightarrow> int \<Rightarrow> 'v act_params \<Rightarrow> int \<Rightarrow> int \<Rightarrow> 'v list list result" where
  "ep_rank ar ji jh A M hidden mw rt topk_w b13 b2 top_k ep group_size ap block_size rank =
     (let E = a3_d0 (mw_w13 mw); ispp = a3_d1 (mw_w13 mw) div 2 in
      bindr (ep_plan E ep rank) (\<lambda>plan.
      bindr (ep_dispatch ji (rt_ids rt) (rt_M rt) (rt_top_k rt) plan E block_size) (\<lambda>(sorted_ids, expert_ids, EM).
      bindr (sorted_weights ar topk_w sorted_ids (M * top_k)) (\<lambda>sorted_w.
      let b0 = pl_expert_begin plan; b1 = pl_expert_end plan in
      bindr (moe_local_forward ar (act_fun ar ap) jh A (slice_experts (mw_w13 mw) b0 b1) (slice_experts (mw_w13_scale mw) b0 b1)
               (slice_experts (mw_w2 mw) b0 b1) (slice_experts (mw_w2_scale mw) b0 b1) sorted_ids sorted_w expert_ids
               (replicate (nat (M * hidden)) (ar_zero ar)) EM M hidden ispp top_k group_size (slice_bias b13 b0 b1) (slice_bias b2 b0 b1)) (\<lambda>out.
        reshape2 out M hidden)))))"

definition dist_moe_ep ::
  "('h, 'v) arith \<Rightarrow> int \<Rightarrow> 'h \<Rightarrow> 'h list \<Rightarrow> int \<Rightarrow> int \<Rightarrow> moe_weights \<Rightarrow> routing \<Rightarrow> 'v list
   \<Rightarrow> 'v list list option \<Rightarrow> 'v list list option \<Rightarrow> int \<Rightarrow> int \<Rightarrow> int \<Rightarrow> 'v act_params \<Rightarrow> int \<Rightarrow> 'v list list list result" where
  "dist_moe_ep ar ji jh A M hidden mw rt topk_w b13 b2 top_k ep group_size ap block_size =
     (if ep \<le> 0 then Inl ValueError
      else mapr (ep_rank ar ji jh A M hidden mw rt topk_w b13 b2 top_k ep group_size ap block_size) (urange ep))"

section \<open>Tensor parallelism\<close>

definition tp_shard_weights ::
  "moe_weights \<Rightarrow> int \<Rightarrow> int \<Rightarrow> (int list \<times> int list \<times> int list \<times> int list) list result" where
  "tp_shard_weights mw tp group_size =
     (let hidden = 2 * a3_d2 (mw_w13 mw); ispp = a3_d1 (mw_w13 mw) div 2 in
      bindr (tp_plan hidden ispp tp group_size) (\<lambda>plan.
        let hs = tpl_hidden_shard plan; ps = tpl_ispp_shard plan in
        Inr (map (\<lambda>r. (slice_columns (mw_w13 mw) (r * hs div 2) ((r + 1) * hs div 2),
                       slice_columns (mw_w13_scale mw) (r * hs div group_size) ((r + 1) * hs div group_size),
                       slice_columns (mw_w2 mw) (r * ps div 2) ((r + 1) * ps div 2),
                       slice_columns (mw_w2_scale mw) (r * ps div group_size) ((r + 1) * ps div group_size))) (urange tp))))"

definition dist_moe_tp ::
  "('h, 'v) arith \<Rightarrow> int \<Rightarrow> 'h \<Rightarrow> 'h list \<Rightarrow> int \<Rightarrow> int \<Rightarrow> moe_weights \<Rightarrow> routing \<Rightarrow> 'v list
   \<Rightarrow> 'v list list option \<Rightarrow> 'v list list option \<Rightarrow> int \<Rightarrow> int \<Rightarrow> int \<Rightarrow> 'v act_params \<Rightarrow> int \<Rightarrow> 'v list list list result" where
  "dist_moe_tp ar ji jh A M hidden mw rt topk_w b13 b2 top_k tp group_size ap block_size =
     (let E = a3_d0 (mw_w13 mw); ispp = a3_d1 (mw_w13 mw) div 2 in
      if rt_top_k rt \<noteq> top_k then Inl ValueError
      else
      bindr (tp_plan hidden ispp tp group_size) (\<lambda>plan.
      bindr (moe_align_block_size ji (rt_ids rt) (rt_M rt) (rt_top_k rt) block_size E) (\<lambda>(sorted_ids, expert_ids, EM).
      bindr (sorted_weights ar topk_w sorted_ids (M * top_k)) (\<lambda>sorted_w.
      if py_lower (ap_activation ap) \<notin> {''swiglu'', ''situ''} then Inl ValueError
      else
      bindr (tp_shard_weights mw tp group_size) (\<lambda>shards.
      let hs = tpl_hidden_shard plan; ps = tpl_ispp_shard plan in
      bindr (mapr (\<lambda>(rank, w13_r, w13s_r, _, _).
               moe_gateup ar A w13_r w13s_r sorted_ids expert_ids (replicate (nat (EM * 2 * ispp)) (ar_zero ar))
                 M hidden (rank * hs) hs ispp top_k EM group_size) (zip (urange (int (length shards))) shards)) (\<lambda>gate_up_partials.
      bindr (sum_arrays ar gate_up_partials) (\<lambda>gate_up.
      bindr (moe_act_epilogue ar (act_fun ar ap) gate_up b13 (replicate (nat (EM * ispp)) jh) sorted_ids expert_ids M top_k EM ispp) (\<lambda>act.
      bindr (mapr (\<lambda>(rank, _, _, w2_r, w2s_r).
               moe_down ar act w2_r w2s_r sorted_ids expert_ids (replicate (nat (EM * hidden)) (ar_zero ar))
                 M ispp (rank * ps) ps hidden top_k EM group_size) (zip (urange (int (length shards))) shards)) (\<lambda>down_partials.
      bindr (sum_arrays ar down_partials) (\<lambda>partial.
      bindr (moe_combine_stage ar partial b2 sorted_w sorted_ids expert_ids (replicate (nat (M * hidden)) (ar_zero ar)) M hidden top_k EM) (\<lambda>out.
      bindr (reshape2 out M hidden) (\<lambda>out. Inr (replicate (nat tp) out)))))))))))))"

section \<open>Pipeline parallelism\<close>

text \<open>The activations that a stage sends on, rounded to the format of the next stage.\<close>

definition round_bf16 :: "('h, 'v) arith \<Rightarrow> 'v list \<Rightarrow> 'h list" where
  "round_bf16 ar x = map (ar_round ar) x"

definition pp_boundary_send :: "'v list list \<Rightarrow> 'v BlockingQueue \<Rightarrow> 'v BlockingQueue" where
  "pp_boundary_send state q = bq_push (concat state) q"

text \<open>\<^const>\<open>None\<close> while the queue is empty: the caller waits.\<close>

definition pp_boundary_recv :: "'v BlockingQueue \<Rightarrow> int \<Rightarrow> int \<Rightarrow> ('v list list result \<times> 'v BlockingQueue) option" where
  "pp_boundary_recv q M hidden =
     (case bq_pop q of None \<Rightarrow> None
      | Some (got, q) \<Rightarrow> Some (if int (length got) \<noteq> M * hidden then Inl ValueError else reshape2 got M hidden, q))"

end
