(* ===== verification/Moe_Weights.thy ===== *)
theory Moe_Weights
  imports Moe_Parallel
begin

text \<open>
  What the stages dequantize: the rows of the full weights, for the slices of the experts and for the slices of the
  columns.
\<close>

section \<open>Rows of flat arrays\<close>

definition nth_chunk :: "nat \<Rightarrow> nat \<Rightarrow> 'a list \<Rightarrow> 'a list" where
  "nth_chunk c i xs = take c (drop (i * c) xs)"

lemma length_nth_chunk: "i < n \<Longrightarrow> length xs = n * c \<Longrightarrow> length (nth_chunk c i xs) = c"
proof -
  assume i: "i < n" and l: "length xs = n * c"
  have "Suc i * c \<le> n * c" using i by (intro mult_le_mono1) simp
  then show ?thesis using l by (simp add: nth_chunk_def)
qed

lemma nth_chunk_map: "nth_chunk c i (map f xs) = map f (nth_chunk c i xs)"
  by (simp add: nth_chunk_def take_map drop_map)

lemma nth_chunk_part: "i < n \<Longrightarrow> nth_chunk c i (take (n * c) (drop (a * c) xs)) = nth_chunk c (a + i) xs"
proof -
  assume i: "i < n"
  have "Suc i * c \<le> n * c" using i by (intro mult_le_mono1) simp
  then show ?thesis by (simp add: nth_chunk_def take_drop add.commute distrib_right min_def)
qed

lemma nth_chunk_inner: "c * k \<le> m \<Longrightarrow> i < k \<Longrightarrow> nth_chunk c i (take m xs) = nth_chunk c i xs"
proof -
  assume i: "i < k" and m: "c * k \<le> m"
  have "Suc i * c \<le> k * c" using i by (intro mult_le_mono1) simp
  then have "i * c + c \<le> m" using m by (simp add: mult.commute)
  then show ?thesis by (simp add: nth_chunk_def take_drop min_def)
qed

lemma nth_chunk_concat:
  assumes "\<And>x. x \<in> set xss \<Longrightarrow> length x = c" "i < length xss"
  shows "nth_chunk c i (concat xss) = xss ! i"
  using assms
proof (induction xss arbitrary: i)
  case (Cons x xss)
  then show ?case by (cases i) (auto simp: nth_chunk_def)
qed simp

lemma length_concat_const: "(\<And>x. x \<in> set xss \<Longrightarrow> length x = c) \<Longrightarrow> length (concat xss) = length xss * c"
  by (induction xss) auto

lemma take_chunks: "take (Suc n * c) xs = take (n * c) xs @ nth_chunk c n xs"
  using take_add [of "n * c" c xs] by (simp add: nth_chunk_def add.commute)

lemma reshape2_value: "length xs = n * c \<Longrightarrow> reshape2 xs (int n) (int c) = Inr (map (\<lambda>j. nth_chunk c j xs) [0..<n])"
proof -
  assume l: "length xs = n * c"
  have "nat (int i * int c) = i * c" for i by (simp flip: of_nat_mult)
  then show ?thesis using l by (simp add: reshape2_def urange_def nth_chunk_def comp_def flip: of_nat_mult)
qed

section \<open>Dequantized rows\<close>

definition fp4_row :: "('h, 'v) arith \<Rightarrow> int list \<Rightarrow> 'v list" where
  "fp4_row ar packed = concat (map (\<lambda>b. [ar_lit ar (FP4_VALUES ! nat (b mod 16)), ar_lit ar (FP4_VALUES ! nat (b div 16))]) packed)"

definition scale_row :: "('h, 'v) arith \<Rightarrow> nat \<Rightarrow> int list \<Rightarrow> 'v list" where
  "scale_row ar gs scales = concat (map (\<lambda>s. replicate gs (ue8m0_to_float ar s)) scales)"

definition dq_row :: "('h, 'v) arith \<Rightarrow> nat \<Rightarrow> int list \<Rightarrow> int list \<Rightarrow> 'h list" where
  "dq_row ar gs packed scales = map (ar_round ar) (map2 (ar_mul ar) (fp4_row ar packed) (scale_row ar gs scales))"

lemma length_fp4_row [simp]: "length (fp4_row ar p) = 2 * length p"
  unfolding fp4_row_def by (induction p) simp_all

lemma length_scale_row [simp]: "length (scale_row ar gs s) = gs * length s"
  unfolding scale_row_def by (induction s) simp_all


lemma concat_drop: "(\<And>x. length (f x) = k) \<Longrightarrow> drop (k * a) (concat (map f xs)) = concat (map f (drop a xs))"
proof (induction xs arbitrary: a)
  case (Cons x xs)
  then show ?case by (cases a) (simp_all add: algebra_simps)
qed simp

lemma concat_take: "(\<And>x. length (f x) = k) \<Longrightarrow> take (k * a) (concat (map f xs)) = concat (map f (take a xs))"
proof (induction xs arbitrary: a)
  case (Cons x xs)
  then show ?case by (cases a) (simp_all add: algebra_simps)
qed simp

lemma fp4_row_chunk: "nth_chunk (2 * c) i (fp4_row ar p) = fp4_row ar (nth_chunk c i p)"
proof -
  have "drop (2 * (i * c)) (fp4_row ar p) = fp4_row ar (drop (i * c) p)" "take (2 * c) (fp4_row ar q) = fp4_row ar (take c q)" for q
    unfolding fp4_row_def by (intro concat_drop concat_take, simp)+
  then show ?thesis by (simp add: nth_chunk_def mult.left_commute)
qed

lemma scale_row_chunk: "nth_chunk (gs * c) i (scale_row ar gs s) = scale_row ar gs (nth_chunk c i s)"
proof -
  have "drop (gs * (i * c)) (scale_row ar gs s) = scale_row ar gs (drop (i * c) s)" "take (gs * c) (scale_row ar gs q) = scale_row ar gs (take c q)" for q
    unfolding scale_row_def by (intro concat_drop concat_take, simp)+
  then show ?thesis by (simp add: nth_chunk_def mult.left_commute)
qed

lemma dq_row_chunk:
  assumes "2 * c = gs * sc"
  shows "dq_row ar gs (nth_chunk c i p) (nth_chunk sc i s) = nth_chunk (2 * c) i (dq_row ar gs p s)"
  unfolding dq_row_def fp4_row_chunk [symmetric] scale_row_chunk [symmetric] assms
  by (simp add: nth_chunk_def take_map drop_map take_zip drop_zip)

lemma length_dq_row: "2 * length p = gs * length s \<Longrightarrow> length (dq_row ar gs p s) = 2 * length p"
  by (simp add: dq_row_def)

lemma dequant_row_value:
  assumes "2 * length p = gs * length s"
  shows "dequant_row ar (int (2 * length p)) (int gs) p s = Inr (dq_row ar gs p s)"
  using assms unfolding dequant_row_def fp4_row_def [symmetric] nat_int scale_row_def [symmetric] Let_def
  by (simp add: np_plus_def dq_row_def)

lemma dequant_full_value:
  assumes "length p = n * c" "length s = n * sc" "2 * c = gs * sc"
  shows "dequant_full ar p s (int n) (int (2 * c)) (int c) (int sc) (int gs) = Inr (map (\<lambda>j. dq_row ar gs (nth_chunk c j p) (nth_chunk sc j s)) [0..<n])"
proof -
  have z: "zip (map (\<lambda>j. nth_chunk c j p) [0..<n]) (map (\<lambda>j. nth_chunk sc j s) [0..<n]) = map (\<lambda>j. (nth_chunk c j p, nth_chunk sc j s)) [0..<n]"
    by (simp add: zip_map_map zip_same_conv_map)
  show ?thesis unfolding dequant_full_def reshape2_value [OF assms(1)] reshape2_value [OF assms(2)] bindr.simps z mapr_over_map prod.case
  proof (rule mapr_ok_pure)
    fix j assume "j \<in> set [0..<n]"
    then have l: "length (nth_chunk c j p) = c" "length (nth_chunk sc j s) = sc" using length_nth_chunk assms(1,2) by auto
    show "dequant_row ar (int (2 * c)) (int gs) (nth_chunk c j p) (nth_chunk sc j s) = Inr (dq_row ar gs (nth_chunk c j p) (nth_chunk sc j s))"
      using dequant_row_value [of "nth_chunk c j p" gs "nth_chunk sc j s" ar] l assms(3) by simp
  qed
qed

text \<open>Expert \<open>e\<close> of a flat array of experts with \<open>n\<close> rows each.\<close>

definition dq_expert :: "('h, 'v) arith \<Rightarrow> nat \<Rightarrow> nat \<Rightarrow> nat \<Rightarrow> nat \<Rightarrow> int list \<Rightarrow> int list \<Rightarrow> nat \<Rightarrow> 'h list list" where
  "dq_expert ar gs n c sc w s e = map (\<lambda>j. dq_row ar gs (nth_chunk c (e * n + j) w) (nth_chunk sc (e * n + j) s)) [0..<n]"

lemma length_dq_expert [simp]: "length (dq_expert ar gs n c sc w s e) = n"
  by (simp add: dq_expert_def)

lemma expert_in: "e < (E :: nat) \<Longrightarrow> e * (n * c) + n * c \<le> E * n * c"
  using mult_le_mono1 [of "Suc e" E "n * c"] by (simp add: mult.assoc add.commute)

lemma expert_dequant:
  assumes "length w = E * n * c" "length s = E * n * sc" "2 * c = gs * sc" "e < E"
  shows "dequant_full ar (py_slice w (int (e * (n * c))) (int (e * (n * c)) + int (n * c))) (py_slice s (int (e * (n * sc))) (int (e * (n * sc)) + int (n * sc)))
      (int n) (int (2 * c)) (int c) (int sc) (int gs) = Inr (dq_expert ar gs n c sc w s e)"
proof -
  have f: "e * (n * c) + n * c \<le> length w" "e * (n * sc) + n * sc \<le> length s" using expert_in [OF assms(4)] assms(1,2) by simp_all
  have l: "length (take (n * c) (drop (e * (n * c)) w)) = n * c" "length (take (n * sc) (drop (e * (n * sc)) s)) = n * sc" using f by simp_all
  have c: "nth_chunk c j (take (n * c) (drop (e * (n * c)) w)) = nth_chunk c (e * n + j) w"
    "nth_chunk sc j (take (n * sc) (drop (e * (n * sc)) s)) = nth_chunk sc (e * n + j) s" if "j < n" for j
    using nth_chunk_part [OF that, of c "e * n" w] nth_chunk_part [OF that, of sc "e * n" s] by (simp_all add: mult.assoc)
  show ?thesis unfolding py_slice_in [OF f(1)] py_slice_in [OF f(2)] dequant_full_value [OF l assms(3)] dq_expert_def
    by (rule arg_cong [where f = Inr], rule map_cong [OF refl]) (simp add: c)
qed

end
