(* ===== verification/Moe_Ranks.thy ===== *)
theory Moe_Ranks
  imports Moe_Weights
begin

text \<open>
  The output of the expert-parallel forward: what each rank computes, and that the ranks together compute the
  routed sum over all experts.
\<close>

section \<open>Well-shaped inputs\<close>

definition array3_ok :: "'a array3 \<Rightarrow> nat \<Rightarrow> nat \<Rightarrow> nat \<Rightarrow> bool" where
  "array3_ok w d0 d1 d2 \<longleftrightarrow> a3_d0 w = int d0 \<and> a3_d1 w = int d1 \<and> a3_d2 w = int d2 \<and> length (a3_cells w) = d0 * d1 * d2"

definition moe_inputs ::
  "nat \<Rightarrow> nat \<Rightarrow> nat \<Rightarrow> nat \<Rightarrow> nat \<Rightarrow> nat \<Rightarrow> 'h list \<Rightarrow> moe_weights \<Rightarrow> routing \<Rightarrow> 'v list \<Rightarrow> 'v list list option \<Rightarrow> 'v list list option \<Rightarrow> bool" where
  "moe_inputs M T H P E gs A mw rt topk_w b13 b2 \<longleftrightarrow>
     0 < T \<and> 64 dvd H \<and> 64 dvd P \<and> 0 < gs \<and> gs dvd H \<and> gs dvd P \<and> length A = M * H
     \<and> array3_ok (mw_w13 mw) E (2 * P) (H div 2) \<and> array3_ok (mw_w13_scale mw) E (2 * P) (H div gs)
     \<and> array3_ok (mw_w2 mw) E H (P div 2) \<and> array3_ok (mw_w2_scale mw) E H (P div gs)
     \<and> rt_M rt = int M \<and> rt_top_k rt = int T \<and> length (rt_ids rt) = M * T \<and> length topk_w = M * T
     \<and> bias_ok (int E) (2 * P) b13 \<and> bias_ok (int E) H b2"

section \<open>The specification\<close>

text \<open>Column \<open>h\<close> of the output of expert \<open>e\<close> for the token of flat index \<open>i\<close>.\<close>

definition gate_expert :: "('h, 'v) arith \<Rightarrow> nat \<Rightarrow> nat \<Rightarrow> nat \<Rightarrow> moe_weights \<Rightarrow> nat \<Rightarrow> 'h list list" where
  "gate_expert ar H P gs mw e = dq_expert ar gs (2 * P) (H div 2) (H div gs) (a3_cells (mw_w13 mw)) (a3_cells (mw_w13_scale mw)) e"

definition down_expert :: "('h, 'v) arith \<Rightarrow> nat \<Rightarrow> nat \<Rightarrow> nat \<Rightarrow> moe_weights \<Rightarrow> nat \<Rightarrow> 'h list list" where
  "down_expert ar H P gs mw e = dq_expert ar gs H (P div 2) (P div gs) (a3_cells (mw_w2 mw)) (a3_cells (mw_w2_scale mw)) e"

definition expert_column ::
  "('h, 'v) arith \<Rightarrow> 'v act_params \<Rightarrow> nat \<Rightarrow> nat \<Rightarrow> nat \<Rightarrow> nat \<Rightarrow> 'h list \<Rightarrow> moe_weights \<Rightarrow> 'v list list option \<Rightarrow> 'v list list option
   \<Rightarrow> int \<Rightarrow> int \<Rightarrow> nat \<Rightarrow> 'v" where
  "expert_column ar ap T H P gs A mw b13 b2 e i h =
     expert_out ar (act_fun ar ap) (token_slice A T H i) (gate_expert ar H P gs mw (nat e)) (down_expert ar H P gs mw (nat e)) b13 b2 e P h"

text \<open>The weighted contributions of a list of experts to a token, and their sum over all experts.\<close>

definition moe_terms :: "(int \<Rightarrow> int \<Rightarrow> 'v) \<Rightarrow> nat \<Rightarrow> int list \<Rightarrow> int list \<Rightarrow> nat \<Rightarrow> 'v list" where
  "moe_terms contribution T ids es t = concat (map (\<lambda>e. map (\<lambda>i. contribution e (int i)) (filter (\<lambda>i. i div T = t) (tokens_of ids e))) es)"

definition moe_cell ::
  "('h, 'v) arith \<Rightarrow> 'v act_params \<Rightarrow> nat \<Rightarrow> nat \<Rightarrow> nat \<Rightarrow> nat \<Rightarrow> 'h list \<Rightarrow> moe_weights \<Rightarrow> routing \<Rightarrow> 'v list \<Rightarrow> 'v list list option \<Rightarrow> 'v list list option
   \<Rightarrow> int list \<Rightarrow> nat \<Rightarrow> nat \<Rightarrow> 'v" where
  "moe_cell ar ap T H P gs A mw rt topk_w b13 b2 es t h =
     foldl (ar_add ar) (ar_zero ar)
       (moe_terms (\<lambda>e i. ar_mul ar (expert_column ar ap T H P gs A mw b13 b2 e i h) (topk_w ! nat i)) T (rt_ids rt) es t)"

section \<open>Rows of the layout\<close>

lemma block_rows: "length (expert_rows 16 ids e) = 16 * length (expert_blocks 16 ids e)"
proof -
  have "length (tokens_of ids e) \<le> nat (ceil_blocks (int (length (tokens_of ids e))) 16 * 16)"
    using ceil_blocks_bounds(1) [of 16 "int (length (tokens_of ids e))"] by linarith
  then show ?thesis using ceil_blocks_bounds(3) [of 16 "int (length (tokens_of ids e))"]
    by (simp add: expert_rows_def expert_blocks_def nat_mult_distrib)
qed

lemma all_rows: "length (concat (map (expert_rows 16 ids) es)) = 16 * length (concat (map (expert_blocks 16 ids) es))"
  by (induction es) (simp_all add: block_rows)

lemma layout_walk:
  "map (\<lambda>r. h (concat (map (expert_blocks 16 ids) es) ! (r div 16)) (concat (map (expert_rows 16 ids) es) ! r)) [0..<length (concat (map (expert_rows 16 ids) es))]
   = concat (map (\<lambda>e. map (h e) (expert_rows 16 ids e)) es)"
proof (induction es)
  case (Cons e es)
  let ?R = "expert_rows 16 ids e" and ?B = "expert_blocks 16 ids e"
  let ?rows = "concat (map (expert_rows 16 ids) es)" and ?eids = "concat (map (expert_blocks 16 ids) es)"
  have first: "map (\<lambda>r. h ((?B @ ?eids) ! (r div 16)) ((?R @ ?rows) ! r)) [0..<length ?R] = map (h e) ?R"
  proof (rule nth_equalityI)
    fix r assume "r < length (map (\<lambda>r. h ((?B @ ?eids) ! (r div 16)) ((?R @ ?rows) ! r)) [0..<length ?R])"
    then have r: "r < length ?R" by simp
    then have "r div 16 < length ?B" unfolding block_rows by linarith
    then show "map (\<lambda>r. h ((?B @ ?eids) ! (r div 16)) ((?R @ ?rows) ! r)) [0..<length ?R] ! r = map (h e) ?R ! r"
      using r by (simp add: nth_append) (simp add: expert_blocks_def)
  qed simp
  have rest: "map (\<lambda>r. h ((?B @ ?eids) ! (r div 16)) ((?R @ ?rows) ! r)) (map (\<lambda>r. length ?R + r) [0..<length ?rows])
      = map (\<lambda>r. h (?eids ! (r div 16)) (?rows ! r)) [0..<length ?rows]"
  proof -
    have "(length ?R + r) div 16 = length ?B + r div 16" for r unfolding block_rows by simp
    then show ?thesis by (simp add: comp_def nth_append)
  qed
  have u: "[0..<length (?R @ ?rows)] = [0..<length ?R] @ map (\<lambda>r. length ?R + r) [0..<length ?rows]"
    using upt_add_eq_append [of 0 "length ?R" "length ?rows"] map_add_upt [of "length ?R" "length ?rows"] by (simp add: add.commute)
  have "map (\<lambda>r. h ((?B @ ?eids) ! (r div 16)) ((?R @ ?rows) ! r)) [0..<length (?R @ ?rows)] = map (h e) ?R @ concat (map (\<lambda>e. map (h e) (expert_rows 16 ids e)) es)"
    unfolding u map_append first rest Cons.IH ..
  then show ?case by simp
qed simp

lemma live_rows:
  "concat (map (\<lambda>f. if f < int (length ids) \<and> nat f div T = t then [g f] else []) (expert_rows bs ids e)) = map (\<lambda>i. g (int i)) (filter (\<lambda>i. i div T = t) (tokens_of ids e))"
proof -
  have "i < length ids" if "i \<in> set (tokens_of ids e)" for i using that by (simp add: set_tokens_of)
  then have "concat (map (\<lambda>f. if f < int (length ids) \<and> nat f div T = t then [g f] else []) (map int is)) = map (\<lambda>i. g (int i)) (filter (\<lambda>i. i div T = t) is)"
    if "set is \<subseteq> set (tokens_of ids e)" for "is" using that by (induction "is") auto
  then show ?thesis unfolding expert_rows_def map_append concat_append by simp
qed

lemma routed_layout:
  assumes "\<And>r. r < length (concat (map (expert_rows 16 ids) es)) \<Longrightarrow> concat (map (expert_rows 16 ids) es) ! r < int (length ids) \<Longrightarrow>
      contrib r = contribution (concat (map (expert_blocks 16 ids) es) ! (r div 16)) (concat (map (expert_rows 16 ids) es) ! r)"
  shows "routed_terms contrib (int (length ids)) T (concat (map (expert_rows 16 ids) es)) t = moe_terms contribution T ids es t"
proof -
  let ?rows = "concat (map (expert_rows 16 ids) es)" and ?eids = "concat (map (expert_blocks 16 ids) es)"
  let ?h = "\<lambda>e f. if f < int (length ids) \<and> nat f div T = t then [contribution e f] else []"
  have "routed_terms contrib (int (length ids)) T ?rows t = concat (map (\<lambda>r. ?h (?eids ! (r div 16)) (?rows ! r)) [0..<length ?rows])"
    unfolding routed_terms_def by (rule arg_cong [where f = concat], rule map_cong [OF refl]) (use assms in auto)
  also have "\<dots> = concat (concat (map (\<lambda>e. map (?h e) (expert_rows 16 ids e)) es))"
    by (rule arg_cong [where f = concat]) (rule layout_walk [where h = ?h])
  also have "\<dots> = concat (map (\<lambda>e. concat (map (?h e) (expert_rows 16 ids e))) es)" by (induction es) simp_all
  finally show ?thesis unfolding live_rows moe_terms_def .
qed

lemma rows_range:
  assumes "\<forall>e \<in> set es. a \<le> e \<and> e < b"
  shows "\<forall>e \<in> set (concat (map (expert_blocks 16 ids) es)). a \<le> e \<and> e < b"
    "\<forall>f \<in> set (concat (map (expert_rows 16 ids) es)). 0 \<le> f \<and> f \<le> int (length ids)"
    "concat (map (expert_rows 16 ids) es) \<noteq> [] \<Longrightarrow> ids \<noteq> []"
proof -
  show "\<forall>e \<in> set (concat (map (expert_blocks 16 ids) es)). a \<le> e \<and> e < b" using assms by (auto simp: expert_blocks_def)
  show "\<forall>f \<in> set (concat (map (expert_rows 16 ids) es)). 0 \<le> f \<and> f \<le> int (length ids)"
    by (auto simp: expert_rows_def set_tokens_of split: if_splits)
  show "concat (map (expert_rows 16 ids) es) \<noteq> [] \<Longrightarrow> ids \<noteq> []"
    by (auto simp: expert_rows_def tokens_of_def ceil_blocks_def)
qed

lemma py_nth_in: "0 \<le> k \<Longrightarrow> k < int (length xs) \<Longrightarrow> py_nth xs k = Inr (xs ! nat k)"
  by (simp add: py_nth_def)

lemma sorted_weights_value:
  assumes "\<forall>f \<in> set rows. 0 \<le> f \<and> f \<le> int (length ids)" "rows \<noteq> [] \<Longrightarrow> ids \<noteq> []" "length topk_w = length ids"
  shows "sorted_weights ar topk_w rows (int (length ids)) = Inr (map (\<lambda>f. if f < int (length ids) then topk_w ! nat f else ar_zero ar) rows)"
proof -
  let ?w = "\<lambda>f. topk_w ! nat (min f (int (length ids) - 1))"
  have "mapr (\<lambda>s. py_nth topk_w (min s (int (length ids) - 1))) rows = Inr (map ?w rows)"
  proof (rule mapr_ok_pure)
    fix f assume f: "f \<in> set rows"
    then have "rows \<noteq> []" by auto
    then have "ids \<noteq> []" by (rule assms(2))
    then have "0 \<le> min f (int (length ids) - 1)" "min f (int (length ids) - 1) < int (length topk_w)" using assms(1,3) f
      by (auto simp: Suc_le_eq)
    then show "py_nth topk_w (min f (int (length ids) - 1)) = Inr (?w f)" by (rule py_nth_in)
  qed
  moreover have "map2 (\<lambda>s w. if 0 \<le> s \<and> s < int (length ids) then w else ar_zero ar) rows (map ?w rows) = map (\<lambda>f. if f < int (length ids) then topk_w ! nat f else ar_zero ar) rows"
    by (rule nth_equalityI) (use assms(1) in \<open>auto simp: min_def\<close>)
  ultimately show ?thesis unfolding sorted_weights_def by simp
qed

section \<open>One rank\<close>

lemma slice_experts_value:
  assumes "array3_ok w d0 d1 d2" "a \<le> b" "b \<le> d0"
  shows "slice_experts w (int a) (int b) = take ((b - a) * d1 * d2) (drop (a * d1 * d2) (a3_cells w))"
proof -
  have "slice_bound (int d0) (int a) = int a" "slice_bound (int d0) (int b) = int b" using assms(2,3) by (simp_all add: slice_bound_def)
  moreover have "nat (int a * (int d1 * int d2)) = a * d1 * d2" "nat ((int b - int a) * (int d1 * int d2)) = (b - a) * d1 * d2"
    using assms(2) by (simp_all add: mult.assoc flip: of_nat_mult of_nat_diff)
  ultimately show ?thesis using assms(1,2) unfolding slice_experts_def array3_ok_def by (simp add: max_def Let_def)
qed

lemma slice_length:
  assumes "array3_ok w d0 d1 d2" "a \<le> b" "b \<le> d0"
  shows "length (slice_experts w (int a) (int b)) = (b - a) * d1 * d2"
proof -
  have "a * d1 * d2 + (b - a) * d1 * d2 \<le> d0 * d1 * d2"
    using mult_le_mono1 [OF assms(3), of "d1 * d2"] assms(2) by (simp add: mult.assoc flip: distrib_right)
  then show ?thesis using assms by (simp add: slice_experts_value array3_ok_def)
qed

lemma slice_chunk:
  assumes "array3_ok w d0 d1 d2" "a \<le> b" "b \<le> d0" "e < b - a" "j < d1"
  shows "nth_chunk d2 (e * d1 + j) (slice_experts w (int a) (int b)) = nth_chunk d2 ((a + e) * d1 + j) (a3_cells w)"
proof -
  have "e * d1 + d1 \<le> (b - a) * d1" using mult_le_mono1 [of "Suc e" "b - a" d1] assms(4) by simp
  then have "e * d1 + j < (b - a) * d1" using assms(5) by simp
  then show ?thesis unfolding slice_experts_value [OF assms(1-3)]
    using nth_chunk_part [of "e * d1 + j" "(b - a) * d1" d2 "a * d1" "a3_cells w"] by (simp add: algebra_simps)
qed

lemma slice_dequant:
  assumes "array3_ok w d0 d1 c" "array3_ok s d0 d1 sc" "a \<le> b" "b \<le> d0" "e < b - a"
  shows "dq_expert ar gs d1 c sc (slice_experts w (int a) (int b)) (slice_experts s (int a) (int b)) e = dq_expert ar gs d1 c sc (a3_cells w) (a3_cells s) (a + e)"
  unfolding dq_expert_def
  by (rule map_cong [OF refl]) (use assms in \<open>simp add: slice_chunk\<close>)

lemma even_64: "64 dvd (n :: nat) \<Longrightarrow> 2 * (n div 2) = n \<and> n mod 64 = 0"
  by (auto elim!: dvdE)

lemma int_div_nat: "int (m * n) = int m * int n" "int m div 2 = int (m div 2)" "int m div int n = int (m div n)"
  by (simp_all add: zdiv_int)

lemma gate_weights_hold:
  assumes "length w = E * (2 * P) * (K div 2)" "length s = E * (2 * P) * (K div gs)" "2 * (K div 2) = K" "gs * (K div gs) = K"
  shows "gate_weights ar w s P K (int gs) (int E) (\<lambda>e. dq_expert ar gs (2 * P) (K div 2) (K div gs) w s (nat e))"
  unfolding gate_weights_def
proof (intro allI impI)
  fix e :: int assume "0 \<le> e \<and> e < int E"
  then obtain k where e: "e = int k" "k < E" by (metis nat_less_iff int_nat_eq)
  have d: "2 * (K div 2) = gs * (K div gs)" using assms(3,4) by simp
  have i: "2 * int P = int (2 * P)" by simp
  show "dequant_full ar
       (py_slice w (e * (2 * int P * (int K div 2))) (e * (2 * int P * (int K div 2)) + 2 * int P * (int K div 2)))
       (py_slice s (e * (2 * int P * (int K div int gs))) (e * (2 * int P * (int K div int gs)) + 2 * int P * (int K div int gs)))
       (2 * int P) (int K) (int K div 2) (int K div int gs) (int gs) = Inr (dq_expert ar gs (2 * P) (K div 2) (K div gs) w s (nat e))
      \<and> length (dq_expert ar gs (2 * P) (K div 2) (K div gs) w s (nat e)) = 2 * P"
    using expert_dequant [OF assms(1,2) d e(2), of ar] unfolding e(1) i int_div_nat(2,3) of_nat_mult [symmetric] assms(3) by simp
qed

lemma down_weights_hold:
  assumes "length w = E * H * (K div 2)" "length s = E * H * (K div gs)" "2 * (K div 2) = K" "gs * (K div gs) = K"
  shows "down_weights ar w s H K (int gs) (int E) (\<lambda>e. dq_expert ar gs H (K div 2) (K div gs) w s (nat e))"
  unfolding down_weights_def
proof (intro allI impI)
  fix e :: int assume "0 \<le> e \<and> e < int E"
  then obtain k where e: "e = int k" "k < E" by (metis nat_less_iff int_nat_eq)
  have d: "2 * (K div 2) = gs * (K div gs)" using assms(3,4) by simp
  have n: "(e + 1) * (int H * x) = e * (int H * x) + int H * x" for x by (simp add: algebra_simps)
  show "dequant_full ar
       (py_slice w (e * (int H * (int K div 2))) ((e + 1) * (int H * (int K div 2))))
       (py_slice s (e * (int H * (int K div int gs))) ((e + 1) * (int H * (int K div int gs))))
       (int H) (int K) (int K div 2) (int K div int gs) (int gs) = Inr (dq_expert ar gs H (K div 2) (K div gs) w s (nat e))
      \<and> length (dq_expert ar gs H (K div 2) (K div gs) w s (nat e)) = H"
    using expert_dequant [OF assms(1,2) d e(2), of ar] unfolding n
    unfolding e(1) int_div_nat(2,3) of_nat_mult [symmetric] assms(3) by simp
qed

lemma biased_slice:
  assumes "bias_ok (int E) w bias" "a \<le> b" "b \<le> E" "int a \<le> e" "e < int b"
  shows "biased ar (slice_bias bias (int a) (int b)) (e - int a) j v = biased ar bias e j v"
proof (cases bias)
  case (Some rows)
  then have l: "length rows = E" using assms(1) by (simp add: bias_ok_def)
  have k: "a + nat (e - int a) = nat e" "nat (e - int a) < b - a" using assms(2,4,5) by linarith+
  have "py_slice rows (int a) (int a + int (b - a)) = take (b - a) (drop a rows)" by (rule py_slice_in) (use l assms(2,3) in simp)
  then have "py_slice rows (int a) (int b) ! nat (e - int a) = rows ! nat e" using k l assms(2,3) by simp
  then show ?thesis using Some by (simp add: slice_bias_def biased_def)
qed (simp add: slice_bias_def biased_def)

lemma bias_ok_slice:
  assumes "bias_ok (int E) w bias" "a \<le> b" "b \<le> E"
  shows "bias_ok (int (b - a)) w (slice_bias bias (int a) (int b))"
proof (cases bias)
  case (Some rows)
  then have l: "length rows = E" "\<forall>r \<in> set rows. length r = w" using assms(1) by (simp_all add: bias_ok_def)
  have "py_slice rows (int a) (int a + int (b - a)) = take (b - a) (drop a rows)" by (rule py_slice_in) (use l assms(2,3) in simp)
  then have v: "py_slice rows (int a) (int b) = take (b - a) (drop a rows)" using assms(2) by simp
  have "\<forall>r \<in> set (take (b - a) (drop a rows)). length r = w" using l(2) by (meson in_set_dropD in_set_takeD)
  then show ?thesis using Some l(1) assms(2,3) by (simp add: slice_bias_def bias_ok_def v)
qed (simp add: slice_bias_def bias_ok_def)

lemma expert_out_cong:
  assumes "\<And>j v. biased ar b13' e' j v = biased ar b13 e j v" "\<And>j v. biased ar b2' e' j v = biased ar b2 e j v"
  shows "expert_out ar actf row g d b13' b2' e' P h = expert_out ar actf row g d b13 b2 e P h"
  unfolding expert_out_def expert_act_def assms ..

lemma moe_inputs_shapes:
  assumes "moe_inputs M T H P E gs A mw rt topk_w b13 b2"
  shows "0 < T" "0 < gs" "H = 64 * (H div 64)" "P = 64 * (P div 64)" "2 * (H div 2) = H" "2 * (P div 2) = P" "gs * (H div gs) = H" "gs * (P div gs) = P"
    "length A = M * H" "array3_ok (mw_w13 mw) E (2 * P) (H div 2)" "array3_ok (mw_w13_scale mw) E (2 * P) (H div gs)"
    "array3_ok (mw_w2 mw) E H (P div 2)" "array3_ok (mw_w2_scale mw) E H (P div gs)"
    "rt_M rt = int M" "rt_top_k rt = int T" "length (rt_ids rt) = M * T" "length topk_w = M * T" "bias_ok (int E) (2 * P) b13" "bias_ok (int E) H b2"
  using assms even_64 [of H] even_64 [of P] unfolding moe_inputs_def by simp_all

lemma rank_forward:
  fixes b0 b1 :: nat and ar :: "('h, 'v) arith"
  assumes "moe_inputs M T H P E gs A mw rt topk_w b13 b2" "b0 \<le> b1" "b1 \<le> E"
  defines "es \<equiv> urange2 (int b0) (int b1)"
  defines "rows \<equiv> concat (map (expert_rows 16 (rt_ids rt)) es)" and "eids \<equiv> concat (map (expert_blocks 16 (rt_ids rt)) es)"
  defines "sw \<equiv> map (\<lambda>f. if f < int (length (rt_ids rt)) then topk_w ! nat f else ar_zero ar) rows"
  shows "\<exists>out. moe_local_forward ar (act_fun ar ap) jh A (slice_experts (mw_w13 mw) (int b0) (int b1)) (slice_experts (mw_w13_scale mw) (int b0) (int b1))
      (slice_experts (mw_w2 mw) (int b0) (int b1)) (slice_experts (mw_w2_scale mw) (int b0) (int b1)) rows sw (map (\<lambda>e. e - int b0) eids)
      (replicate (M * H) (ar_zero ar)) (int (length rows)) (int M) (int H) (int P) (int T) (int gs)
      (slice_bias b13 (int b0) (int b1)) (slice_bias b2 (int b0) (int b1)) = Inr out
    \<and> length out = M * H \<and> (\<forall>t < M. \<forall>h < H. out ! (t * H + h) = moe_cell ar ap T H P gs A mw rt topk_w b13 b2 es t h)"
proof -
  note i = moe_inputs_shapes [OF assms(1)]
  let ?ids = "rt_ids rt" and ?n = "b1 - b0"
  let ?leids = "map (\<lambda>e. e - int b0) eids"
  let ?G = "\<lambda>e. dq_expert ar gs (2 * P) (H div 2) (H div gs) (slice_experts (mw_w13 mw) (int b0) (int b1)) (slice_experts (mw_w13_scale mw) (int b0) (int b1)) (nat e)"
  let ?D = "\<lambda>e. dq_expert ar gs H (P div 2) (P div gs) (slice_experts (mw_w2 mw) (int b0) (int b1)) (slice_experts (mw_w2_scale mw) (int b0) (int b1)) (nat e)"
  have es: "\<forall>e \<in> set es. int b0 \<le> e \<and> e < int b1" by (simp add: es_def urange2_mem)
  note rr = rows_range [OF es, of ?ids, folded rows_def eids_def]
  have lr: "length rows = 16 * length eids" unfolding rows_def eids_def by (rule all_rows)
  have lay: "layout_ok (int ?n) (int (M * T)) rows ?leids (length eids)"
    unfolding layout_ok_def using lr rr(1,2) by auto
  have G: "gate_weights ar (slice_experts (mw_w13 mw) (int b0) (int b1)) (slice_experts (mw_w13_scale mw) (int b0) (int b1)) P H (int gs) (int ?n) ?G"
    by (rule gate_weights_hold [OF slice_length [OF i(10) assms(2,3)] slice_length [OF i(11) assms(2,3)] i(5,7)])
  have D: "down_weights ar (slice_experts (mw_w2 mw) (int b0) (int b1)) (slice_experts (mw_w2_scale mw) (int b0) (int b1)) H P (int gs) (int ?n) ?D"
    by (rule down_weights_hold [OF slice_length [OF i(12) assms(2,3)] slice_length [OF i(13) assms(2,3)] i(6,8)])
  have lsw: "length sw = 16 * length eids" unfolding sw_def using lr by simp
  have gs: "0 < int gs" using i(2) by simp
  from forward_value [OF lay i(1,3,4) gs i(9) G D bias_ok_slice [OF i(18) assms(2,3)] bias_ok_slice [OF i(19) assms(2,3)] lsw, of "act_fun ar ap" jh, folded lr]
  obtain out where out: "moe_local_forward ar (act_fun ar ap) jh A (slice_experts (mw_w13 mw) (int b0) (int b1)) (slice_experts (mw_w13_scale mw) (int b0) (int b1))
      (slice_experts (mw_w2 mw) (int b0) (int b1)) (slice_experts (mw_w2_scale mw) (int b0) (int b1)) rows sw ?leids
      (replicate (M * H) (ar_zero ar)) (int (length rows)) (int M) (int H) (int P) (int T) (int gs)
      (slice_bias b13 (int b0) (int b1)) (slice_bias b2 (int b0) (int b1)) = Inr out" "length out = M * H"
    "\<forall>t < M. \<forall>h < H. out ! (t * H + h) = foldl (ar_add ar) (ar_zero ar)
         (routed_terms (\<lambda>r. ar_mul ar (expert_out ar (act_fun ar ap) (token_slice A T H (rows ! r)) (?G (?leids ! (r div 16))) (?D (?leids ! (r div 16)))
              (slice_bias b13 (int b0) (int b1)) (slice_bias b2 (int b0) (int b1)) (?leids ! (r div 16)) P h) (sw ! r)) (int (M * T)) T rows t)"
    by blast
  have "out ! (t * H + h) = moe_cell ar ap T H P gs A mw rt topk_w b13 b2 es t h" if "t < M" "h < H" for t h
  proof -
    let ?contribution = "\<lambda>e i. ar_mul ar (expert_column ar ap T H P gs A mw b13 b2 e i h) (topk_w ! nat i)"
    have "routed_terms (\<lambda>r. ar_mul ar (expert_out ar (act_fun ar ap) (token_slice A T H (rows ! r)) (?G (?leids ! (r div 16))) (?D (?leids ! (r div 16)))
              (slice_bias b13 (int b0) (int b1)) (slice_bias b2 (int b0) (int b1)) (?leids ! (r div 16)) P h) (sw ! r)) (int (length ?ids)) T rows t
        = moe_terms ?contribution T ?ids es t"
      unfolding rows_def
    proof (rule routed_layout, unfold rows_def [symmetric] eids_def [symmetric])
      fix r assume r: "r < length rows" "rows ! r < int (length ?ids)"
      have q: "r div 16 < length eids" using r(1) lr by linarith
      let ?e = "eids ! (r div 16)"
      have e: "int b0 \<le> ?e" "?e < int b1" using rr(1) nth_mem [OF q] by auto
      have k: "nat (?e - int b0) < b1 - b0" "b0 + nat (?e - int b0) = nat ?e" using e by linarith+
      have g: "?G (?e - int b0) = gate_expert ar H P gs mw (nat ?e)"
        unfolding slice_dequant [OF i(10,11) assms(2,3) k(1)] k(2) gate_expert_def ..
      have d: "?D (?e - int b0) = down_expert ar H P gs mw (nat ?e)"
        unfolding slice_dequant [OF i(12,13) assms(2,3) k(1)] k(2) down_expert_def ..
      have l: "?leids ! (r div 16) = ?e - int b0" using q by simp
      have w: "sw ! r = topk_w ! nat (rows ! r)" unfolding sw_def using r by simp
      show "ar_mul ar (expert_out ar (act_fun ar ap) (token_slice A T H (rows ! r)) (?G (?leids ! (r div 16))) (?D (?leids ! (r div 16)))
              (slice_bias b13 (int b0) (int b1)) (slice_bias b2 (int b0) (int b1)) (?leids ! (r div 16)) P h) (sw ! r) = ?contribution ?e (rows ! r)"
        unfolding l g d w expert_column_def
        by (rule arg_cong [where f = "\<lambda>x. ar_mul ar x _"], rule expert_out_cong; rule biased_slice [OF _ assms(2,3) e]; rule i(18) i(19))
    qed
    then show ?thesis using out(3) that unfolding moe_cell_def i(16) by simp
  qed
  then show ?thesis using out(1,2) by blast
qed

lemma ep_rank_value:
  fixes rank :: int
  assumes "moe_inputs M T H P E gs A mw rt topk_w b13 b2" "0 < ep" "ep \<le> int E" "0 \<le> rank" "rank < ep"
  shows "\<exists>out. ep_rank ar ji jh A (int M) (int H) mw rt topk_w b13 b2 (int T) ep (int gs) ap 16 rank = Inr out
    \<and> length out = M \<and> (\<forall>t < M. length (out ! t) = H \<and> (\<forall>h < H. out ! t ! h =
        moe_cell ar ap T H P gs A mw rt topk_w b13 b2 (urange2 (rank_begin (int E) ep rank) (rank_begin (int E) ep (rank + 1))) t h))"
proof -
  note i = moe_inputs_shapes [OF assms(1)]
  have E: "0 \<le> int E" by simp
  have b: "0 \<le> rank_begin (int E) ep rank" "rank_begin (int E) ep rank \<le> rank_begin (int E) ep (rank + 1)" "rank_begin (int E) ep (rank + 1) \<le> int E"
    using rank_begin_mono [OF assms(2) E, of 0 rank] rank_begin_mono [OF assms(2) E, of rank "rank + 1"] rank_begin_mono [OF assms(2) E, of "rank + 1" ep]
      rank_begin_ends [OF assms(2) E] assms(4,5) by simp_all
  define b0 b1 where "b0 = nat (rank_begin (int E) ep rank)" and "b1 = nat (rank_begin (int E) ep (rank + 1))"
  have bb: "rank_begin (int E) ep rank = int b0" "rank_begin (int E) ep (rank + 1) = int b1" "b0 \<le> b1" "b1 \<le> E"
    using b by (simp_all add: b0_def b1_def)
  let ?es = "urange2 (int b0) (int b1)"
  let ?rows = "concat (map (expert_rows 16 (rt_ids rt)) ?es)" and ?eids = "concat (map (expert_blocks 16 (rt_ids rt)) ?es)"
  obtain out where out: "moe_local_forward ar (act_fun ar ap) jh A (slice_experts (mw_w13 mw) (int b0) (int b1)) (slice_experts (mw_w13_scale mw) (int b0) (int b1))
      (slice_experts (mw_w2 mw) (int b0) (int b1)) (slice_experts (mw_w2_scale mw) (int b0) (int b1)) ?rows
      (map (\<lambda>f. if f < int (length (rt_ids rt)) then topk_w ! nat f else ar_zero ar) ?rows) (map (\<lambda>e. e - int b0) ?eids)
      (replicate (M * H) (ar_zero ar)) (int (length ?rows)) (int M) (int H) (int P) (int T) (int gs)
      (slice_bias b13 (int b0) (int b1)) (slice_bias b2 (int b0) (int b1)) = Inr out" "length out = M * H"
      "\<forall>t < M. \<forall>h < H. out ! (t * H + h) = moe_cell ar ap T H P gs A mw rt topk_w b13 b2 ?es t h"
    using rank_forward [OF assms(1) bb(3,4), of ar ap jh] by blast
  have pl: "ep_plan (int E) ep rank = Inr \<lparr>pl_ep = ep, pl_rank = rank, pl_expert_begin = int b0, pl_expert_end = int b1, pl_num_local = int b1 - int b0\<rparr>"
    (is "_ = Inr ?plan") using ep_plan_value [OF assms(2-5)] unfolding bb(1,2) .
  have di: "ep_dispatch ji (rt_ids rt) (int M) (int T) ?plan (int E) 16 = Inr (?rows, map (\<lambda>e. e - int b0) ?eids, int (length ?rows))"
    using ep_dispatch_value [of "rt_ids rt" "int M" "int T" 16 ?plan "int E" ji] i(16) bb(3,4) by simp
  have sr: "\<forall>e \<in> set ?es. int b0 \<le> e \<and> e < int b1" by (simp add: urange2_mem)
  note rr = rows_range [OF sr, of "rt_ids rt"]
  have lw: "length topk_w = length (rt_ids rt)" using i(16,17) by simp
  have sw: "sorted_weights ar topk_w ?rows (int M * int T) = Inr (map (\<lambda>f. if f < int (length (rt_ids rt)) then topk_w ! nat f else ar_zero ar) ?rows)"
    using sorted_weights_value [OF rr(2,3) lw, of ar] i(16) by simp
  have dims: "a3_d0 (mw_w13 mw) = int E" "a3_d1 (mw_w13 mw) div 2 = int P" using i(10) by (simp_all add: array3_ok_def)
  have mh: "nat (int M * int H) = M * H" by (simp flip: of_nat_mult)
  have "ep_rank ar ji jh A (int M) (int H) mw rt topk_w b13 b2 (int T) ep (int gs) ap 16 rank = Inr (map (\<lambda>t. nth_chunk H t out) [0..<M])"
    unfolding ep_rank_def Let_def dims i(14,15) pl bindr.simps di prod.case sw EpPlan.simps mh out(1) reshape2_value [OF out(2)] ..
  moreover have "nth_chunk H t out ! h = out ! (t * H + h)" "length (nth_chunk H t out) = H" if "t < M" "h < H" for t h
  proof -
    show "length (nth_chunk H t out) = H" by (rule length_nth_chunk [OF that(1) out(2)])
    then show "nth_chunk H t out ! h = out ! (t * H + h)" using that(2) unfolding nth_chunk_def by simp
  qed
  moreover have "length (nth_chunk H t out) = H" if "t < M" for t by (rule length_nth_chunk [OF that out(2)])
  ultimately show ?thesis using out(3) unfolding bb(1,2) by (intro exI [of _ "map (\<lambda>t. nth_chunk H t out) [0..<M]"]) simp
qed

end
