(* ===== verification/Moe_Outputs.thy ===== *)
theory Moe_Outputs
  imports Moe_Ranks
begin

text \<open>
  The outputs of the parallel forwards: the partial outputs of the expert ranks add up to the routed sum over all
  experts, and every tensor rank holds that sum.
\<close>

section \<open>Expert parallelism\<close>

lemma foldl_from:
  assumes "\<And>a b c. f (f a b) c = f a (f b c)" "\<And>a. f z a = a" "\<And>a. f a z = a"
  shows "foldl f x ys = f x (foldl f z ys)"
proof (induction ys arbitrary: x)
  case (Cons y ys)
  show ?case unfolding foldl_Cons Cons.IH [of "f x y"] assms(2) Cons.IH [of y] assms(1) ..
qed (simp add: assms(3))

lemma foldl_parts:
  assumes "\<And>a b c. f (f a b) c = f a (f b c)" "\<And>a. f z a = a" "\<And>a. f a z = a"
  shows "foldl f z (concat xss) = foldl f z (map (foldl f z) xss)"
proof (induction xss)
  case (Cons xs xss)
  show ?case unfolding concat.simps foldl_append foldl_from [OF assms, of "foldl f z xs"] Cons.IH list.map foldl_Cons assms(2)
    unfolding foldl_from [OF assms, of "foldl f z xs"] ..
qed simp

lemma moe_terms_concat: "moe_terms contribution T ids (concat ess) t = concat (map (\<lambda>es. moe_terms contribution T ids es t) ess)"
  unfolding moe_terms_def concat_map_concat ..


section \<open>Column shards\<close>

lemma mod_64_nat: "(64 :: int) dvd int n \<Longrightarrow> n mod 64 = 0"
  by presburger

lemma tp_plan_facts:
  assumes "tp_plan (int H) (int P) (int tp) (int gs) = Inr plan" "0 < gs"
  shows "0 < tp" "tp * (H div tp) = H" "tp * (P div tp) = P" "2 * (H div tp div 2) = H div tp" "2 * (P div tp div 2) = P div tp"
    "gs * (H div tp div gs) = H div tp" "gs * (P div tp div gs) = P div tp"
    "tpl_hidden_shard plan = int (H div tp)" "tpl_ispp_shard plan = int (P div tp)"
proof -
  have "tp \<noteq> 0" "H mod tp = 0" "P mod tp = 0" "H div tp mod 64 = 0" "P div tp mod 64 = 0" "H div tp mod gs = 0" "P div tp mod gs = 0"
    "tpl_hidden_shard plan = int H div int tp" "tpl_ispp_shard plan = int P div int tp"
    using assms by (auto simp: tp_plan_def Let_def mod_64_nat split: if_splits simp flip: of_nat_mod of_nat_div)
  then show "0 < tp" "tp * (H div tp) = H" "tp * (P div tp) = P" "2 * (H div tp div 2) = H div tp" "2 * (P div tp div 2) = P div tp"
    "gs * (H div tp div gs) = H div tp" "gs * (P div tp div gs) = P div tp"
    "tpl_hidden_shard plan = int (H div tp)" "tpl_ispp_shard plan = int (P div tp)"
    using even_64 [of "H div tp"] even_64 [of "P div tp"] by (auto simp: zdiv_int mod_eq_0_iff_dvd)
qed

lemma slice_columns_value:
  assumes "array3_ok w d0 d1 (tp * c)" "k < tp"
  shows "slice_columns w (int (k * c)) (int ((k + 1) * c)) = concat (map (\<lambda>r. nth_chunk c k (nth_chunk (tp * c) r (a3_cells w))) [0..<d0 * d1])"
proof -
  have row: "py_slice (take (nat (a3_d2 w)) (drop (nat (int r * a3_d2 w)) (a3_cells w))) (int (k * c)) (int ((k + 1) * c)) = nth_chunk c k (nth_chunk (tp * c) r (a3_cells w))"
    if "r < d0 * d1" for r
  proof -
    have d: "take (nat (a3_d2 w)) (drop (nat (int r * a3_d2 w)) (a3_cells w)) = nth_chunk (tp * c) r (a3_cells w)"
      using assms(1) by (simp add: array3_ok_def nth_chunk_def nat_mult_distrib)
    have l: "length (nth_chunk (tp * c) r (a3_cells w)) = tp * c"
      by (rule length_nth_chunk [OF that]) (use assms(1) in \<open>simp add: array3_ok_def\<close>)
    have "Suc k * c \<le> tp * c" using assms(2) by (intro mult_le_mono1) simp
    then have "k * c + c \<le> length (nth_chunk (tp * c) r (a3_cells w))" using l by simp
    from py_slice_in [OF this] show ?thesis unfolding d by (simp add: nth_chunk_def algebra_simps)
  qed
  have u: "urange (a3_d0 w * a3_d1 w) = map int [0..<d0 * d1]" using assms(1) by (simp add: array3_ok_def urange_def nat_mult_distrib)
  show ?thesis unfolding slice_columns_def u map_map comp_def by (rule arg_cong [where f = concat], rule map_cong [OF refl]) (use row in simp)
qed

lemma column_rows:
  assumes "array3_ok w d0 d1 (tp * c)" "k < tp"
  shows "length (slice_columns w (int (k * c)) (int ((k + 1) * c))) = d0 * d1 * c"
    "i < d0 * d1 \<Longrightarrow> nth_chunk c i (slice_columns w (int (k * c)) (int ((k + 1) * c))) = nth_chunk c k (nth_chunk (tp * c) i (a3_cells w))"
proof -
  let ?rows = "map (\<lambda>r. nth_chunk c k (nth_chunk (tp * c) r (a3_cells w))) [0..<d0 * d1]"
  have l: "length x = c" if x: "x \<in> set ?rows" for x
  proof -
    obtain r where r: "r < d0 * d1" "x = nth_chunk c k (nth_chunk (tp * c) r (a3_cells w))" using x by auto
    have "length (nth_chunk (tp * c) r (a3_cells w)) = tp * c" by (rule length_nth_chunk [OF r(1)]) (use assms(1) in \<open>simp add: array3_ok_def\<close>)
    then show ?thesis unfolding r(2) by (rule length_nth_chunk [OF assms(2)])
  qed
  show "length (slice_columns w (int (k * c)) (int ((k + 1) * c))) = d0 * d1 * c"
    unfolding slice_columns_value [OF assms] by (subst length_concat_const [where c = c]) (rule l, assumption, simp)
  show "i < d0 * d1 \<Longrightarrow> nth_chunk c i (slice_columns w (int (k * c)) (int ((k + 1) * c))) = nth_chunk c k (nth_chunk (tp * c) i (a3_cells w))"
    unfolding slice_columns_value [OF assms] by (subst nth_chunk_concat [OF l]) simp_all
qed

text \<open>A dequantized shard is a column range of the dequantized matrix.\<close>

lemma column_dequant:
  assumes "array3_ok w d0 n (tp * c)" "array3_ok s d0 n (tp * sc)" "k < tp" "2 * c = gs * sc" "e < d0" "j < n"
  shows "dq_expert ar gs n c sc (slice_columns w (int (k * c)) (int ((k + 1) * c))) (slice_columns s (int (k * sc)) (int ((k + 1) * sc))) e ! j
    = nth_chunk (2 * c) k (dq_expert ar gs n (tp * c) (tp * sc) (a3_cells w) (a3_cells s) e ! j)"
proof -
  have "e * n + n \<le> d0 * n" using mult_le_mono1 [of "Suc e" d0 n] assms(5) by simp
  then have i: "e * n + j < d0 * n" using assms(6) by simp
  show ?thesis using column_rows(2) [OF assms(1,3) i] column_rows(2) [OF assms(2,3) i] dq_row_chunk [OF assms(4)] assms(6)
    by (simp add: dq_expert_def)
qed

section \<open>Sums of partial products\<close>

lemma sum_arrays_value:
  assumes "ps \<noteq> []" "\<forall>p \<in> set ps. length p = n"
  shows "\<exists>s. sum_arrays ar ps = Inr s \<and> length s = n \<and> (\<forall>i < n. s ! i = foldl (ar_add ar) (ar_zero ar) (map (\<lambda>p. p ! i) ps))"
proof -
  have go: "\<exists>s. foldr_res (np_plus (ar_add ar)) x ps = Inr s \<and> length s = n \<and> (\<forall>i < n. s ! i = foldl (ar_add ar) (x ! i) (map (\<lambda>p. p ! i) ps))"
    if "length x = n" "\<forall>p \<in> set ps. length p = n" for x ps
    using that
  proof (induction ps arbitrary: x)
    case (Cons p ps)
    have "np_plus (ar_add ar) x p = Inr (map2 (ar_add ar) x p)" using Cons.prems by (simp add: np_plus_def)
    moreover have "length (map2 (ar_add ar) x p) = n" using Cons.prems by simp
    ultimately show ?case using Cons.IH [of "map2 (ar_add ar) x p"] Cons.prems by simp
  qed simp
  obtain p qs where ps: "ps = p # qs" using assms(1) by (cases ps) auto
  have "np_plus (ar_add ar) [ar_zero ar] p = Inr (map (ar_add ar (ar_zero ar)) p)"
    by (cases p) (auto simp: np_plus_def)
  moreover obtain s where "foldr_res (np_plus (ar_add ar)) (map (ar_add ar (ar_zero ar)) p) qs = Inr s" "length s = n"
      "\<forall>i < n. s ! i = foldl (ar_add ar) (map (ar_add ar (ar_zero ar)) p ! i) (map (\<lambda>p. p ! i) qs)"
    using go [of "map (ar_add ar (ar_zero ar)) p" qs] assms(2) ps by auto
  ultimately show ?thesis using assms(2) ps unfolding sum_arrays_def by (intro exI [of _ s]) simp
qed

lemma dot_chunks:
  assumes dot: "\<And>a b c d. length a = length c \<Longrightarrow> length b = length d \<Longrightarrow> ar_dot ar (a @ b) (c @ d) = ar_add ar (ar_dot ar a c) (ar_dot ar b d)"
    and nil: "ar_dot ar [] [] = ar_zero ar" and l: "length x = n * c" "length y = n * c"
  shows "foldl (ar_add ar) (ar_zero ar) (map (\<lambda>k. dotw ar (nth_chunk c k x) (nth_chunk c k y)) [0..<n]) = dotw ar x y"
proof -
  have "foldl (ar_add ar) (ar_zero ar) (map (\<lambda>k. dotw ar (nth_chunk c k x) (nth_chunk c k y)) [0..<m]) = dotw ar (take (m * c) x) (take (m * c) y)" if "m \<le> n" for m
    using that
  proof (induction m)
    case 0
    then show ?case by (simp add: dotw_def nil)
  next
    case (Suc m)
    have "m * c \<le> n * c" using Suc.prems by (intro mult_le_mono1) simp
    moreover have "length (nth_chunk c m x) = c" "length (nth_chunk c m y) = c" using Suc.prems by (auto intro!: length_nth_chunk [OF _ l(1)] length_nth_chunk [OF _ l(2)])
    ultimately have "dotw ar (take (Suc m * c) x) (take (Suc m * c) y) = ar_add ar (dotw ar (take (m * c) x) (take (m * c) y)) (dotw ar (nth_chunk c m x) (nth_chunk c m y))"
      unfolding take_chunks dotw_def map_append using l by (intro dot) simp_all
    then show ?case using Suc by simp
  qed
  from this [of n] l show ?thesis by simp
qed

section \<open>Tensor parallelism\<close>

definition dot_additive :: "('h, 'v) arith \<Rightarrow> bool" where
  "dot_additive ar \<longleftrightarrow> ar_dot ar [] [] = ar_zero ar
     \<and> (\<forall>a b c d. length a = length c \<and> length b = length d \<longrightarrow> ar_dot ar (a @ b) (c @ d) = ar_add ar (ar_dot ar a c) (ar_dot ar b d))"

lemma dot_chunks_additive:
  "dot_additive ar \<Longrightarrow> length x = n * c \<Longrightarrow> length y = n * c \<Longrightarrow>
   foldl (ar_add ar) (ar_zero ar) (map (\<lambda>k. dotw ar (nth_chunk c k x) (nth_chunk c k y)) [0..<n]) = dotw ar x y"
  by (rule dot_chunks) (auto simp: dot_additive_def)

text \<open>The sum of the ranks' partial arrays, when each rank contributes a chunk of a product.\<close>

lemma reduced_products:
  assumes "dot_additive ar" "0 < tp"
    and "\<And>k. k < tp \<Longrightarrow> \<exists>p. part k = Inr p \<and> length p = n \<and> (\<forall>i < n. live i \<longrightarrow> p ! i = dotw ar (nth_chunk c k (x i)) (nth_chunk c k (y i)))"
    and "\<And>i. i < n \<Longrightarrow> live i \<Longrightarrow> length (x i) = tp * c \<and> length (y i) = tp * c"
  shows "\<exists>ps s. mapr part [0..<tp] = Inr ps \<and> sum_arrays ar ps = Inr s \<and> length s = n \<and> (\<forall>i < n. live i \<longrightarrow> s ! i = dotw ar (x i) (y i))"
proof -
  have "\<forall>k \<in> {..<tp}. \<exists>p. part k = Inr p \<and> length p = n \<and> (\<forall>i < n. live i \<longrightarrow> p ! i = dotw ar (nth_chunk c k (x i)) (nth_chunk c k (y i)))"
    using assms(3) by simp
  from bchoice [OF this] obtain f where f: "\<forall>k \<in> {..<tp}. part k = Inr (f k) \<and> length (f k) = n \<and> (\<forall>i < n. live i \<longrightarrow> f k ! i = dotw ar (nth_chunk c k (x i)) (nth_chunk c k (y i)))"
    by blast
  have m: "mapr part [0..<tp] = Inr (map f [0..<tp])" by (rule mapr_ok_pure) (use f in simp)
  have ne: "map f [0..<tp] \<noteq> []" "\<forall>p \<in> set (map f [0..<tp]). length p = n" using f assms(2) by auto
  obtain s where s: "sum_arrays ar (map f [0..<tp]) = Inr s" "length s = n" "\<forall>i < n. s ! i = foldl (ar_add ar) (ar_zero ar) (map (\<lambda>p. p ! i) (map f [0..<tp]))"
    using sum_arrays_value [OF ne, of ar] by blast
  have "s ! i = dotw ar (x i) (y i)" if i: "i < n" "live i" for i
  proof -
    have cells: "map (\<lambda>p. p ! i) (map f [0..<tp]) = map (\<lambda>k. dotw ar (nth_chunk c k (x i)) (nth_chunk c k (y i))) [0..<tp]" using f i by simp
    have "s ! i = foldl (ar_add ar) (ar_zero ar) (map (\<lambda>p. p ! i) (map f [0..<tp]))" using s(3) i(1) by blast
    then show ?thesis unfolding cells using dot_chunks_additive [OF assms(1), of "x i" tp c "y i"] assms(4) [OF i] by simp
  qed
  then show ?thesis using m s(1,2) by blast
qed

lemma token_chunk:
  assumes "f < N" "k < tp" "tp * c = H"
  shows "token_row ar A N T H (k * c) c f = nth_chunk c k (token_slice A T H f)"
proof -
  have m: "c * tp \<le> H" using assms(3) by (simp add: mult.commute)
  show ?thesis unfolding token_row_def token_slice_def nth_chunk_inner [OF m assms(2)]
    using assms(1) by (simp add: tile_value_def nth_chunk_def add.commute)
qed

lemma row_index:
  assumes "i < R * (W :: nat)"
  shows "i div W < R" "i mod W < W" "i div W * W + i mod W = i"
proof -
  have "0 < W" using assms by (cases W) auto
  then show "i div W < R" "i mod W < W" "i div W * W + i mod W = i" using assms by (simp_all add: less_mult_imp_div_less)
qed

lemma length_dq_expert_row:
  assumes "array3_ok w d0 n c" "array3_ok s d0 n sc" "2 * c = gs * sc" "e < d0" "j < n"
  shows "length (dq_expert ar gs n c sc (a3_cells w) (a3_cells s) e ! j) = 2 * c"
proof -
  have "e * n + n \<le> d0 * n" using mult_le_mono1 [of "Suc e" d0 n] assms(4) by simp
  then have i: "e * n + j < d0 * n" using assms(5) by simp
  have "length (nth_chunk c (e * n + j) (a3_cells w)) = c" "length (nth_chunk sc (e * n + j) (a3_cells s)) = sc"
    by (rule length_nth_chunk [OF i], use assms(1,2) in \<open>simp add: array3_ok_def\<close>)+
  then show ?thesis using assms(3,5) length_dq_row [of "nth_chunk c (e * n + j) (a3_cells w)" gs "nth_chunk sc (e * n + j) (a3_cells s)"]
    by (simp add: dq_expert_def)
qed

text \<open>The shard of rank \<open>k\<close> along the last dimension, for \<open>c\<close> columns per rank.\<close>

abbreviation shard :: "'a array3 \<Rightarrow> nat \<Rightarrow> nat \<Rightarrow> 'a list" where
  "shard w c k \<equiv> slice_columns w (int (k * c)) (int ((k + 1) * c))"

lemma shard_sizes:
  fixes tp H gs :: nat
  assumes "tp * (H div tp) = H" "2 * (H div tp div 2) = H div tp" "gs * (H div tp div gs) = H div tp" "2 * (H div 2) = H" "gs * (H div gs) = H" "0 < gs"
  shows "tp * (H div tp div 2) = H div 2" "tp * (H div tp div gs) = H div gs" "2 * (H div tp div 2) = gs * (H div tp div gs)"
proof -
  have "2 * (tp * (H div tp div 2)) = tp * (2 * (H div tp div 2))" "gs * (tp * (H div tp div gs)) = tp * (gs * (H div tp div gs))" by simp_all
  then have "2 * (tp * (H div tp div 2)) = 2 * (H div 2)" "gs * (tp * (H div tp div gs)) = gs * (H div gs)" using assms by simp_all
  then show "tp * (H div tp div 2) = H div 2" "tp * (H div tp div gs) = H div gs" using assms(6) by simp_all
  show "2 * (H div tp div 2) = gs * (H div tp div gs)" using assms by simp
qed

lemma tp_gateup:
  fixes M T H P E gs tp nb :: nat
  assumes inp: "moe_inputs M T H P E gs A mw rt topk_w b13 b2" and plan: "tp_plan (int H) (int P) (int tp) (int gs) = Inr plan" and ad: "dot_additive ar"
    and lay: "layout_ok (int E) (int (M * T)) ids eids nb"
  defines "hs \<equiv> H div tp"
  shows "\<exists>ps gu. mapr (\<lambda>k. moe_gateup ar A (shard (mw_w13 mw) (hs div 2) k) (shard (mw_w13_scale mw) (hs div gs) k) ids eids
        (replicate (16 * nb * (2 * P)) (ar_zero ar)) (int M) (int H) (int (k * hs)) (int hs) (int P) (int T) (int (16 * nb)) (int gs)) [0..<tp] = Inr ps
    \<and> sum_arrays ar ps = Inr gu \<and> length gu = 16 * nb * (2 * P)
    \<and> (\<forall>r < 16 * nb. \<forall>j < 2 * P. ids ! r < int (M * T) \<longrightarrow>
         gu ! (r * (2 * P) + j) = dotw ar (token_slice A T H (ids ! r)) (gate_expert ar H P gs mw (nat (eids ! (r div 16))) ! j))"
proof -
  note i = moe_inputs_shapes [OF inp] and p = tp_plan_facts [OF plan moe_inputs_shapes(2) [OF inp], folded hs_def]
  note z = shard_sizes [OF p(2,4,6) [unfolded hs_def] i(5,7,2), folded hs_def]
  let ?W = "2 * P"
  let ?live = "\<lambda>i. ids ! (i div ?W) < int (M * T)"
  let ?e = "\<lambda>i. nat (eids ! (i div ?W div 16))"
  let ?x = "\<lambda>i. token_slice A T H (ids ! (i div ?W))" and ?y = "\<lambda>i. gate_expert ar H P gs mw (?e i) ! (i mod ?W)"
  let ?G = "\<lambda>k e. dq_expert ar gs ?W (hs div 2) (hs div gs) (shard (mw_w13 mw) (hs div 2) k) (shard (mw_w13_scale mw) (hs div gs) k) (nat e)"
  let ?part = "\<lambda>k. moe_gateup ar A (shard (mw_w13 mw) (hs div 2) k) (shard (mw_w13_scale mw) (hs div gs) k) ids eids
        (replicate (16 * nb * ?W) (ar_zero ar)) (int M) (int H) (int (k * hs)) (int hs) (int P) (int T) (int (16 * nb)) (int gs)"
  have a3: "array3_ok (mw_w13 mw) E ?W (tp * (hs div 2))" "array3_ok (mw_w13_scale mw) E ?W (tp * (hs div gs))"
    using i(10,11) unfolding z(1,2) .
  have cell: "?e k < E" "k div ?W < 16 * nb" "k mod ?W < ?W" "k div ?W * ?W + k mod ?W = k" if "k < 16 * nb * ?W" for k
  proof -
    note q = row_index [OF that]
    then show "k div ?W < 16 * nb" "k mod ?W < ?W" "k div ?W * ?W + k mod ?W = k" by blast+
    have "k div ?W div 16 < nb" using q(1) by linarith
    then show "?e k < E" using layout_nth(3,4) [OF lay, of "k div ?W div 16" 0] by simp
  qed
  have "\<exists>q. ?part k = Inr q \<and> length q = 16 * nb * ?W \<and> (\<forall>i < 16 * nb * ?W. ?live i \<longrightarrow> q ! i = dotw ar (nth_chunk hs k (?x i)) (nth_chunk hs k (?y i)))" if k: "k < tp" for k
  proof -
    have fits: "M * H \<le> length A" "k * hs + hs \<le> H" using i(9) mult_le_mono1 [of "Suc k" tp hs] k p(2) by simp_all
    have "gate_weights ar (shard (mw_w13 mw) (hs div 2) k) (shard (mw_w13_scale mw) (hs div gs) k) P hs (int gs) (int E) (?G k)"
      by (rule gate_weights_hold [OF column_rows(1) [OF a3(1) k] column_rows(1) [OF a3(2) k] p(4,6)])
    note G = this [unfolded gate_weights_def, rule_format, OF conjI]
    have gs: "0 < int gs" using i(2) by simp
    have l: "length (replicate (16 * nb * ?W) (ar_zero ar)) = 16 * nb * ?W" by simp
    obtain q where q: "?part k = Inr q" "length q = 16 * nb * ?W"
        "\<forall>r < 16 * nb. \<forall>j < ?W. q ! (r * ?W + j) = dotw ar (token_row ar A (int (M * T)) T H (k * hs) hs (ids ! r)) (?G k (eids ! (r div 16)) ! j)"
      using gateup_value [OF lay i(1) gs i(4) fits G l] by blast
    have "q ! n = dotw ar (nth_chunk hs k (?x n)) (nth_chunk hs k (?y n))" if n: "n < 16 * nb * ?W" "?live n" for n
    proof -
      have y: "?G k (eids ! (n div ?W div 16)) ! (n mod ?W) = nth_chunk hs k (?y n)"
        using column_dequant [OF a3 k z(3) cell(1,3) [OF n(1)]] unfolding gate_expert_def z(1,2) p(4) .
      have "q ! n = dotw ar (token_row ar A (int (M * T)) T H (k * hs) hs (ids ! (n div ?W))) (?G k (eids ! (n div ?W div 16)) ! (n mod ?W))"
        using q(3) [rule_format, OF cell(2,3) [OF n(1)]] unfolding cell(4) [OF n(1)] .
      then show ?thesis unfolding y token_chunk [OF n(2) k p(2)] .
    qed
    then show ?thesis using q(1,2) by blast
  qed
  moreover have "length (?x n) = tp * hs \<and> length (?y n) = tp * hs" if n: "n < 16 * nb * ?W" "?live n" for n
  proof
    have d: "2 * (H div 2) = gs * (H div gs)" using i(5,7) by simp
    show "length (?y n) = tp * hs"
      unfolding gate_expert_def length_dq_expert_row [OF i(10,11) d cell(1,3) [OF n(1)]] i(5) p(2) ..
    have f0: "0 \<le> ids ! (n div ?W)" using lay cell(2) [OF n(1)] by (simp add: layout_ok_def)
    then have "nat (ids ! (n div ?W)) < M * T" using n(2) by linarith
    then have "nat (ids ! (n div ?W)) div T < M" by (simp add: less_mult_imp_div_less)
    from length_nth_chunk [OF this i(9)] show "length (?x n) = tp * hs" unfolding nth_chunk_def token_slice_def p(2) .
  qed
  ultimately obtain ps gu where r: "mapr ?part [0..<tp] = Inr ps" "sum_arrays ar ps = Inr gu" "length gu = 16 * nb * ?W" "\<forall>i < 16 * nb * ?W. ?live i \<longrightarrow> gu ! i = dotw ar (?x i) (?y i)"
    using reduced_products [OF ad p(1), of ?part "16 * nb * ?W" ?live hs ?x ?y] by blast
  have "gu ! (r' * ?W + j) = dotw ar (token_slice A T H (ids ! r')) (gate_expert ar H P gs mw (nat (eids ! (r' div 16))) ! j)"
    if "r' < 16 * nb" "j < ?W" "ids ! r' < int (M * T)" for r' j
  proof -
    have "r' * ?W + j < 16 * nb * ?W" using mult_le_mono1 [of "Suc r'" "16 * nb" ?W] that(1,2) by simp
    moreover have "(r' * ?W + j) div ?W = r'" "(r' * ?W + j) mod ?W = j" using that(2) by simp_all
    ultimately show ?thesis using r(4) that(3) by force
  qed
  then show ?thesis using r(1-3) by blast
qed

lemma act_chunk:
  assumes "k < tp" "tp * c = P"
  shows "tile_value ar act True (r * P + k * c) c = nth_chunk c k (nth_chunk P r act)"
proof -
  have m: "c * tp \<le> P" using assms(2) by (simp add: mult.commute)
  show ?thesis unfolding nth_chunk_def [of P] nth_chunk_inner [OF m assms(1)] by (simp add: tile_value_def nth_chunk_def add.commute)
qed

lemma tp_down:
  fixes M T H P E gs tp nb :: nat
  assumes inp: "moe_inputs M T H P E gs A mw rt topk_w b13 b2" and plan: "tp_plan (int H) (int P) (int tp) (int gs) = Inr plan" and ad: "dot_additive ar"
    and lay: "layout_ok (int E) (int (M * T)) ids eids nb" and act: "length act = 16 * nb * P"
  defines "ps \<equiv> P div tp"
  shows "\<exists>qs partial. mapr (\<lambda>k. moe_down ar act (shard (mw_w2 mw) (ps div 2) k) (shard (mw_w2_scale mw) (ps div gs) k) ids eids
        (replicate (16 * nb * H) (ar_zero ar)) (int M) (int P) (int (k * ps)) (int ps) (int H) (int T) (int (16 * nb)) (int gs)) [0..<tp] = Inr qs
    \<and> sum_arrays ar qs = Inr partial \<and> length partial = 16 * nb * H
    \<and> (\<forall>r < 16 * nb. \<forall>h < H. ids ! r < int (M * T) \<longrightarrow>
         partial ! (r * H + h) = dotw ar (nth_chunk P r act) (down_expert ar H P gs mw (nat (eids ! (r div 16))) ! h))"
proof -
  note i = moe_inputs_shapes [OF inp] and p = tp_plan_facts [OF plan moe_inputs_shapes(2) [OF inp], folded ps_def]
  note z = shard_sizes [OF p(3,5,7) [unfolded ps_def] i(6,8,2), folded ps_def]
  let ?live = "\<lambda>i. ids ! (i div H) < int (M * T)"
  let ?e = "\<lambda>i. nat (eids ! (i div H div 16))"
  let ?x = "\<lambda>i. nth_chunk P (i div H) act" and ?y = "\<lambda>i. down_expert ar H P gs mw (?e i) ! (i mod H)"
  let ?D = "\<lambda>k e. dq_expert ar gs H (ps div 2) (ps div gs) (shard (mw_w2 mw) (ps div 2) k) (shard (mw_w2_scale mw) (ps div gs) k) (nat e)"
  let ?part = "\<lambda>k. moe_down ar act (shard (mw_w2 mw) (ps div 2) k) (shard (mw_w2_scale mw) (ps div gs) k) ids eids
        (replicate (16 * nb * H) (ar_zero ar)) (int M) (int P) (int (k * ps)) (int ps) (int H) (int T) (int (16 * nb)) (int gs)"
  have a3: "array3_ok (mw_w2 mw) E H (tp * (ps div 2))" "array3_ok (mw_w2_scale mw) E H (tp * (ps div gs))"
    using i(12,13) unfolding z(1,2) .
  have cell: "?e k < E" "k div H < 16 * nb" "k mod H < H" "k div H * H + k mod H = k" if "k < 16 * nb * H" for k
  proof -
    note q = row_index [OF that]
    then show "k div H < 16 * nb" "k mod H < H" "k div H * H + k mod H = k" by blast+
    have "k div H div 16 < nb" using q(1) by linarith
    then show "?e k < E" using layout_nth(3,4) [OF lay, of "k div H div 16" 0] by simp
  qed
  have "\<exists>q. ?part k = Inr q \<and> length q = 16 * nb * H \<and> (\<forall>i < 16 * nb * H. ?live i \<longrightarrow> q ! i = dotw ar (nth_chunk ps k (?x i)) (nth_chunk ps k (?y i)))" if k: "k < tp" for k
  proof -
    have fits: "k * ps + ps \<le> P" using mult_le_mono1 [of "Suc k" tp ps] k p(3) by simp
    have "down_weights ar (shard (mw_w2 mw) (ps div 2) k) (shard (mw_w2_scale mw) (ps div gs) k) H ps (int gs) (int E) (?D k)"
      by (rule down_weights_hold [OF column_rows(1) [OF a3(1) k] column_rows(1) [OF a3(2) k] p(5,7)])
    note D = this [unfolded down_weights_def, rule_format, OF conjI]
    have gs: "0 < int gs" using i(2) by simp
    have l: "length (replicate (16 * nb * H) (ar_zero ar)) = 16 * nb * H" by simp
    obtain q where q: "?part k = Inr q" "length q = 16 * nb * H"
        "\<forall>r < 16 * nb. \<forall>h < H. q ! (r * H + h) = dotw ar (tile_value ar act (ids ! r < int (M * T)) (r * P + k * ps) ps) (?D k (eids ! (r div 16)) ! h)"
      using down_value [OF lay gs i(3) act fits D l] by blast
    have "q ! n = dotw ar (nth_chunk ps k (?x n)) (nth_chunk ps k (?y n))" if n: "n < 16 * nb * H" "?live n" for n
    proof -
      have y: "?D k (eids ! (n div H div 16)) ! (n mod H) = nth_chunk ps k (?y n)"
        using column_dequant [OF a3 k z(3) cell(1,3) [OF n(1)]] unfolding down_expert_def z(1,2) p(5) .
      have "q ! n = dotw ar (tile_value ar act (?live n) (n div H * P + k * ps) ps) (?D k (eids ! (n div H div 16)) ! (n mod H))"
        using q(3) [rule_format, OF cell(2,3) [OF n(1)]] unfolding cell(4) [OF n(1)] .
      moreover have "?live n = True" using n(2) by simp
      ultimately show ?thesis unfolding y act_chunk [OF k p(3), of ar act, symmetric] by simp
    qed
    then show ?thesis using q(1,2) by blast
  qed
  moreover have "length (?x n) = tp * ps \<and> length (?y n) = tp * ps" if n: "n < 16 * nb * H" "?live n" for n
  proof
    have d: "2 * (P div 2) = gs * (P div gs)" using i(6,8) by simp
    show "length (?y n) = tp * ps"
      unfolding down_expert_def length_dq_expert_row [OF i(12,13) d cell(1,3) [OF n(1)]] i(6) p(3) ..
    show "length (?x n) = tp * ps" unfolding p(3) by (rule length_nth_chunk [OF cell(2) [OF n(1)] act])
  qed
  ultimately obtain qs partial where r: "mapr ?part [0..<tp] = Inr qs" "sum_arrays ar qs = Inr partial" "length partial = 16 * nb * H" "\<forall>i < 16 * nb * H. ?live i \<longrightarrow> partial ! i = dotw ar (?x i) (?y i)"
    using reduced_products [OF ad p(1), of ?part "16 * nb * H" ?live ps ?x ?y] by blast
  have "partial ! (r' * H + h) = dotw ar (nth_chunk P r' act) (down_expert ar H P gs mw (nat (eids ! (r' div 16))) ! h)"
    if "r' < 16 * nb" "h < H" "ids ! r' < int (M * T)" for r' h
  proof -
    have "r' * H + h < 16 * nb * H" using mult_le_mono1 [of "Suc r'" "16 * nb" H] that(1,2) by simp
    moreover have "(r' * H + h) div H = r'" "(r' * H + h) mod H = h" using that(2) by simp_all
    ultimately show ?thesis using r(4) that(3) by force
  qed
  then show ?thesis using r(1-3) by blast
qed

text \<open>The shards of the ranks.\<close>

lemma shard_bound:
  assumes "g * c = hs" "0 < g"
  shows "int k * int hs div int g = int (k * c)" "(int k + 1) * int hs div int g = int ((k + 1) * c)"
proof -
  have e: "int n * int hs div int g = int (n * c)" for n
  proof -
    have q: "int n * int hs = int (n * c) * int g" unfolding assms(1) [symmetric] by (simp add: algebra_simps)
    show ?thesis unfolding q by (rule nonzero_mult_div_cancel_right) (use assms(2) in simp)
  qed
  show "int k * int hs div int g = int (k * c)" by (rule e)
  show "(int k + 1) * int hs div int g = int ((k + 1) * c)" using e [of "k + 1"] by (simp only: of_nat_add of_nat_1)
qed

lemma tp_shards_value:
  assumes inp: "moe_inputs M T H P E gs A mw rt topk_w b13 b2" and plan: "tp_plan (int H) (int P) (int tp) (int gs) = Inr plan"
  shows "tp_shard_weights mw (int tp) (int gs) = Inr (map (\<lambda>k. (shard (mw_w13 mw) (H div tp div 2) k, shard (mw_w13_scale mw) (H div tp div gs) k,
      shard (mw_w2 mw) (P div tp div 2) k, shard (mw_w2_scale mw) (P div tp div gs) k)) [0..<tp])"
proof -
  note i = moe_inputs_shapes [OF inp] and p = tp_plan_facts [OF plan moe_inputs_shapes(2) [OF inp]]
  have dims: "2 * a3_d2 (mw_w13 mw) = int H" "a3_d1 (mw_w13 mw) div 2 = int P"
    using i(5,10) by (simp_all add: array3_ok_def)
  have two: "(0 :: nat) < 2" by simp
  have bounds: "int k * int (H div tp) div 2 = int (k * (H div tp div 2))" "(int k + 1) * int (H div tp) div 2 = int ((k + 1) * (H div tp div 2))"
    "int k * int (P div tp) div 2 = int (k * (P div tp div 2))" "(int k + 1) * int (P div tp) div 2 = int ((k + 1) * (P div tp div 2))" for k
    using shard_bound [OF p(4) two] shard_bound [OF p(5) two] by simp_all
  show ?thesis unfolding tp_shard_weights_def Let_def dims plan bindr.simps p(8,9)
    by (simp only: urange_def nat_int map_map comp_def bounds shard_bound [OF p(6) i(2)] shard_bound [OF p(7) i(2)])
qed

lemma forward_rows:
  fixes ar :: "('h, 'v) arith"
  assumes inp: "moe_inputs M T H P E gs A mw rt topk_w b13 b2" and plan: "tp_plan (int H) (int P) (int tp) (int gs) = Inr plan" and ad: "dot_additive ar"
  defines "rows \<equiv> concat (map (expert_rows 16 (rt_ids rt)) (urange (int E)))" and "eids \<equiv> concat (map (expert_blocks 16 (rt_ids rt)) (urange (int E)))"
  defines "sw \<equiv> map (\<lambda>f. if f < int (length (rt_ids rt)) then topk_w ! nat f else ar_zero ar) rows" and "hs \<equiv> H div tp" and "ps \<equiv> P div tp" and "EM \<equiv> int (length rows)"
  shows "\<exists>gs_parts gu act ds_parts partial out.
      mapr (\<lambda>k. moe_gateup ar A (shard (mw_w13 mw) (hs div 2) k) (shard (mw_w13_scale mw) (hs div gs) k) rows eids
        (replicate (nat (EM * 2 * int P)) (ar_zero ar)) (int M) (int H) (int (k * hs)) (int hs) (int P) (int T) EM (int gs)) [0..<tp] = Inr gs_parts
    \<and> sum_arrays ar gs_parts = Inr gu
    \<and> moe_act_epilogue ar (act_fun ar ap) gu b13 (replicate (nat (EM * int P)) jh) rows eids (int M) (int T) EM (int P) = Inr act
    \<and> mapr (\<lambda>k. moe_down ar act (shard (mw_w2 mw) (ps div 2) k) (shard (mw_w2_scale mw) (ps div gs) k) rows eids
        (replicate (nat (EM * int H)) (ar_zero ar)) (int M) (int P) (int (k * ps)) (int ps) (int H) (int T) EM (int gs)) [0..<tp] = Inr ds_parts
    \<and> sum_arrays ar ds_parts = Inr partial
    \<and> moe_combine_stage ar partial b2 sw rows eids (replicate (nat (int M * int H)) (ar_zero ar)) (int M) (int H) (int T) EM = Inr out
    \<and> length out = M * H \<and> (\<forall>t < M. \<forall>h < H. out ! (t * H + h) = moe_cell ar ap T H P gs A mw rt topk_w b13 b2 (urange (int E)) t h)"
proof -
  note i = moe_inputs_shapes [OF inp]
  let ?ids = "rt_ids rt" and ?nb = "length eids"
  have es: "\<forall>e \<in> set (urange (int E)). 0 \<le> e \<and> e < int E" by (simp add: urange_mem)
  note rr = rows_range [OF es, of ?ids, folded rows_def eids_def]
  have lr: "length rows = 16 * ?nb" unfolding rows_def eids_def by (rule all_rows)
  have lay: "layout_ok (int E) (int (M * T)) rows eids ?nb" unfolding layout_ok_def using lr rr(1,2) by auto
  have em: "EM = int (16 * ?nb)" "nat (EM * 2 * int P) = 16 * ?nb * (2 * P)" "nat (EM * int P) = nat (int (16 * ?nb) * int P)" "nat (EM * int H) = 16 * ?nb * H" "nat (int M * int H) = M * H"
    unfolding EM_def lr by (simp_all add: nat_mult_distrib)
  have gs: "0 < int gs" using i(2) by simp
  obtain gp gu where gu: "mapr (\<lambda>k. moe_gateup ar A (shard (mw_w13 mw) (hs div 2) k) (shard (mw_w13_scale mw) (hs div gs) k) rows eids
        (replicate (16 * ?nb * (2 * P)) (ar_zero ar)) (int M) (int H) (int (k * hs)) (int hs) (int P) (int T) (int (16 * ?nb)) (int gs)) [0..<tp] = Inr gp"
      "sum_arrays ar gp = Inr gu" "length gu = 16 * ?nb * (2 * P)"
      "\<forall>r < 16 * ?nb. \<forall>j < 2 * P. rows ! r < int (M * T) \<longrightarrow> gu ! (r * (2 * P) + j) = dotw ar (token_slice A T H (rows ! r)) (gate_expert ar H P gs mw (nat (eids ! (r div 16))) ! j)"
    using tp_gateup [OF inp plan ad lay] unfolding hs_def by blast
  obtain act where act: "moe_act_epilogue ar (act_fun ar ap) gu b13 (replicate (nat (int (16 * ?nb) * int P)) jh) rows eids (int M) (int T) (int (16 * ?nb)) (int P) = Inr act"
      "length act = 16 * ?nb * P"
      "\<forall>r < 16 * ?nb. rows ! r < int (M * T) \<longrightarrow> take P (drop (r * P) act) =
         expert_act ar (act_fun ar ap) (token_slice A T H (rows ! r)) (gate_expert ar H P gs mw (nat (eids ! (r div 16)))) b13 (eids ! (r div 16)) P"
    using epilogue_value [OF lay i(1,3,4) gs gu(3), of ar A "\<lambda>e. gate_expert ar H P gs mw (nat e)" b13 "act_fun ar ap" jh] gu(4) i(18) by blast
  obtain dp partial where pa: "mapr (\<lambda>k. moe_down ar act (shard (mw_w2 mw) (ps div 2) k) (shard (mw_w2_scale mw) (ps div gs) k) rows eids
        (replicate (16 * ?nb * H) (ar_zero ar)) (int M) (int P) (int (k * ps)) (int ps) (int H) (int T) (int (16 * ?nb)) (int gs)) [0..<tp] = Inr dp"
      "sum_arrays ar dp = Inr partial" "length partial = 16 * ?nb * H"
      "\<forall>r < 16 * ?nb. \<forall>h < H. rows ! r < int (M * T) \<longrightarrow> partial ! (r * H + h) = dotw ar (nth_chunk P r act) (down_expert ar H P gs mw (nat (eids ! (r div 16))) ! h)"
    using tp_down [OF inp plan ad lay act(2)] unfolding ps_def by blast
  let ?F = "\<lambda>r h. dotw ar (expert_act ar (act_fun ar ap) (token_slice A T H (rows ! r)) (gate_expert ar H P gs mw (nat (eids ! (r div 16)))) b13 (eids ! (r div 16)) P)
      (down_expert ar H P gs mw (nat (eids ! (r div 16))) ! h)"
  have F: "partial ! (r * H + h) = ?F r h" if "r < 16 * ?nb" "rows ! r < int (M * T)" "h < H" for r h
    using pa(4) act(3) that unfolding nth_chunk_def by simp
  have lsw: "length sw = 16 * ?nb" unfolding sw_def using lr by simp
  obtain out where out: "moe_combine_stage ar partial b2 sw rows eids (replicate (M * H) (ar_zero ar)) (int M) (int H) (int T) (int (16 * ?nb)) = Inr out" "length out = M * H"
      "\<forall>t < M. \<forall>h < H. out ! (t * H + h) = foldl (ar_add ar) (ar_zero ar)
         (routed_terms (\<lambda>r. ar_mul ar (biased ar b2 (eids ! (r div 16)) h (?F r h)) (sw ! r)) (int (M * T)) T rows t)"
    using finish_value [OF lay i(1,3) pa(3) F lsw i(19)] by blast
  have "out ! (t * H + h) = moe_cell ar ap T H P gs A mw rt topk_w b13 b2 (urange (int E)) t h" if "t < M" "h < H" for t h
  proof -
    have "routed_terms (\<lambda>r. ar_mul ar (biased ar b2 (eids ! (r div 16)) h (?F r h)) (sw ! r)) (int (length ?ids)) T rows t
        = moe_terms (\<lambda>e i. ar_mul ar (expert_column ar ap T H P gs A mw b13 b2 e i h) (topk_w ! nat i)) T ?ids (urange (int E)) t"
      unfolding rows_def
    proof (rule routed_layout, unfold rows_def [symmetric] eids_def [symmetric])
      fix r assume r: "r < length rows" "rows ! r < int (length ?ids)"
      have w: "sw ! r = topk_w ! nat (rows ! r)" unfolding sw_def using r by simp
      show "ar_mul ar (biased ar b2 (eids ! (r div 16)) h (?F r h)) (sw ! r) =
          ar_mul ar (expert_column ar ap T H P gs A mw b13 b2 (eids ! (r div 16)) (rows ! r) h) (topk_w ! nat (rows ! r))"
        unfolding w expert_column_def expert_out_def ..
    qed
    then show ?thesis using out(3) that unfolding moe_cell_def i(16) by simp
  qed
  then show ?thesis using gu(1,2) act(1) pa(1,2) out(1,2) unfolding em(2-5) unfolding em(1) by blast
qed


section \<open>Pipeline stages\<close>

text \<open>A state that is sent over an empty queue arrives as it was, with the queue empty again; another shape is refused.\<close>

lemma pp_boundary_round_trip:
  assumes "bq_items q = []" "length state = M" "\<forall>row \<in> set state. length row = H"
  shows "pp_boundary_recv (pp_boundary_send state q) (int M) (int H) = Some (Inr state, q)"
    "int M' * int H' \<noteq> int M * int H \<Longrightarrow> pp_boundary_recv (pp_boundary_send state q) (int M') (int H') = Some (Inl ValueError, q)"
proof -
  have l: "length (concat state) = M * H" using length_concat_const [of state H] assms(2,3) by simp
  have "map (\<lambda>j. nth_chunk H j (concat state)) [0..<M] = state"
    by (rule nth_equalityI) (use assms(2,3) nth_chunk_concat [of state H] in simp_all)
  then have "reshape2 (concat state) (int M) (int H) = Inr state" by (simp add: reshape2_value [OF l])
  moreover have "bq_pop (pp_boundary_send state q) = Some (concat state, q)"
    using assms(1) by (cases q) (simp add: pp_boundary_send_def bq_push_def bq_pop_def)
  ultimately show "pp_boundary_recv (pp_boundary_send state q) (int M) (int H) = Some (Inr state, q)"
    "int M' * int H' \<noteq> int M * int H \<Longrightarrow> pp_boundary_recv (pp_boundary_send state q) (int M') (int H') = Some (Inl ValueError, q)"
    using l by (auto simp: pp_boundary_recv_def)
qed

section \<open>Samples\<close>

text \<open>Integer arithmetic, two experts, one token.\<close>

definition int_arith :: "(int, int) arith" where
  "int_arith = \<lparr>ar_add = (+), ar_mul = (*), ar_div = (div), ar_neg = uminus, ar_exp = id, ar_exp2 = id, ar_tanh = id, ar_min = min, ar_max = max,
     ar_positive = (\<lambda>x. 0 < x), ar_lit = (\<lambda>l. case l of FDec m e \<Rightarrow> m | _ \<Rightarrow> 0), ar_of_int = id,
     ar_dot = (\<lambda>a b. sum_list (map2 (*) a b)), ar_round = id, ar_widen = id, ar_hzero = 0\<rparr>"

definition sample_weights :: moe_weights where
  "sample_weights = \<lparr>mw_w13 = \<lparr>a3_d0 = 2, a3_d1 = 256, a3_d2 = 64, a3_cells = replicate 32768 33\<rparr>,
     mw_w13_scale = \<lparr>a3_d0 = 2, a3_d1 = 256, a3_d2 = 4, a3_cells = replicate 2048 128\<rparr>,
     mw_w2 = \<lparr>a3_d0 = 2, a3_d1 = 128, a3_d2 = 64, a3_cells = replicate 16384 33\<rparr>,
     mw_w2_scale = \<lparr>a3_d0 = 2, a3_d1 = 128, a3_d2 = 4, a3_cells = replicate 1024 128\<rparr>\<rparr>"

definition sample_routing :: routing where
  "sample_routing = \<lparr>rt_ids = [1, 0], rt_M = 1, rt_top_k = 2\<rparr>"

definition sample_act :: "int act_params" where
  "sample_act = \<lparr>ap_activation = ''SwiGLU'', ap_swiglu_limit = 0, ap_beta = 4, ap_linear_beta = 25\<rparr>"

lemma sample_inputs: "moe_inputs 1 2 128 128 2 32 (replicate 128 1) sample_weights sample_routing [1, 2] None None"
  by (simp add: moe_inputs_def array3_ok_def sample_weights_def sample_routing_def bias_ok_def)

lemma sample_arith:
  "ar_add int_arith (ar_add int_arith a b) c = ar_add int_arith a (ar_add int_arith b c)"
  "ar_add int_arith (ar_zero int_arith) a = a" "ar_add int_arith a (ar_zero int_arith) = a" "dot_additive int_arith"
  by (simp_all add: int_arith_def ar_zero_def dot_additive_def)

lemma sample_activation: "py_lower (ap_activation sample_act) \<in> {''swiglu'', ''situ''}"
  by code_simp



end
