(* ===== verification/Spec2Isabelle.thy ===== *)
theory Spec2Isabelle
  imports Tile_Dependencies Task_Queue Memory_Plan Grid_Barrier Launch Lowering_Ownership Lowering_Domains
    Capture_Reach Float_Oracle Op_Cache Compile Body_Values Topk Run_Bodies
    Ring_Allreduce Overlap P2P_Gather KV_Pages Torch_Registries Moe_Outputs
begin

text \<open>
  A verification library for the megakernel compiler of vkernels (\<^verbatim>\<open>src/src/python/vkernels/compiler\<close>) and
  for the parts of the package beside it that have state or ordering of their own: the op-config cache
  (\<^verbatim>\<open>tuning/cache.py\<close>), the communication and stream layer (\<^verbatim>\<open>comm.py\<close>, \<^verbatim>\<open>core.py\<close>, \<^verbatim>\<open>_fallback.py\<close>), the kernel registries (\<^verbatim>\<open>registry.py\<close>,
  \<^verbatim>\<open>torch_ops/\<close>), and the distributed mixture-of-experts layer (\<^verbatim>\<open>dist.py\<close>).

  \<^bold>\<open>The program.\<close>  A model body calls a recorder, which builds an operator graph (tensors with layout,
  storages, recorded regions).  Legality checks the graph, lowering turns every operator into one family
  of tile tasks, the phase schedule gives each operator a phase and each worker a stride of its task
  ids, the memory planner packs the compiler's buffers into one workspace, code generation emits the phase
  table, and the reference executor runs the schedule on the CPU with one grid barrier per phase and
  a NaN canary over the workspace.  A tile-dependency graph, a static worker schedule and a
  ready-task queue are the alternative schedules.  Next to the compiler, the package has streams
  (a task queue with one worker thread each), an executor that overlaps computation and communication on two
  streams, a ring all-reduce between rank threads, batched memory copies into one destination buffer, and a host
  reference of the distributed mixture-of-experts layer.

  \<^bold>\<open>Theories and sources.\<close>
  \<^item> \<^verbatim>\<open>Prelude\<close>: exceptions as values, results, Python integers, ranges, decimal text, ordered dictionaries.
  \<^item> \<^verbatim>\<open>Index_Space\<close>: row-major decoding of ids, shared by views and task grids.
  \<^item> \<^verbatim>\<open>Operator_IR\<close>, \<^verbatim>\<open>Operator_Graph\<close> (\<^verbatim>\<open>operator_ir.py\<close>): tensor views, regions, overlap, hazards; the graph and its
    invariant.
  \<^item> \<^verbatim>\<open>Task_IR\<close> (\<^verbatim>\<open>task_ir.py\<close>): tile domains, task ids, boxes, families.
  \<^item> \<^verbatim>\<open>Schedule_Phase\<close> (\<^verbatim>\<open>schedule_phase.py\<close>): phases, the strided assignment (locale \<open>task_partition\<close>), the
    invariant check.
  \<^item> \<^verbatim>\<open>Kahn\<close>: the locale \<open>kahn_graph\<close> of in-degree elimination, interpreted three times: in \<^verbatim>\<open>Schedule_Static\<close> for the
    dependency graph and for the augmented graph (\<^verbatim>\<open>schedule_static.py\<close>), and in \<^verbatim>\<open>Task_Queue\<close>
    (\<^verbatim>\<open>runtime/task_queue.py\<close>), which also has the step relation of concurrent claims and completions.
  \<^item> \<^verbatim>\<open>Tile_Dependencies\<close> (\<^verbatim>\<open>schedule_static.py\<close>): tile-level dependencies from recorded regions.
  \<^item> \<^verbatim>\<open>Memory_Plan\<close> (\<^verbatim>\<open>memory.py\<close>): lifetimes and first-fit packing (locale \<open>packer\<close>).
  \<^item> \<^verbatim>\<open>Grid_Barrier\<close>, \<^verbatim>\<open>Launch\<close> (\<^verbatim>\<open>runtime/\<close>): the barrier (locale \<open>barrier\<close>) and the worker count.
  \<^item> \<^verbatim>\<open>Contracts\<close> (\<^verbatim>\<open>contracts.py\<close>, \<^verbatim>\<open>legality.py\<close>); \<^verbatim>\<open>Lowerings_Common\<close>, \<^verbatim>\<open>_Dense\<close>, \<^verbatim>\<open>_Attention\<close>, \<^verbatim>\<open>_Recurrent\<close>,
    \<^verbatim>\<open>Lowerings\<close> (\<^verbatim>\<open>lowerings/\<close>): one definition per lowering; \<^verbatim>\<open>Lowering_Domains\<close> shows their grids well formed,
    \<^verbatim>\<open>Lowering_Ownership\<close> that tiles own their output elements (locale \<open>tiled_output\<close>).
  \<^item> \<^verbatim>\<open>Capture\<close>, \<^verbatim>\<open>Capture_Dense\<close>, \<^verbatim>\<open>_Attention\<close>, \<^verbatim>\<open>_Recurrent\<close> (\<^verbatim>\<open>capture*.py\<close>): the recorder and its 32 rules;
    \<^verbatim>\<open>Capture_Invariant\<close>, \<^verbatim>\<open>Capture_Rules\<close>, \<^verbatim>\<open>Capture_Reach\<close>: a small logic of recorder programs, a rule per operator, and the
    invariant of every reachable recorder.
  \<^item> \<^verbatim>\<open>Reference_Exec\<close> (\<^verbatim>\<open>reference_exec.py\<close>): the executor and its canary; \<^verbatim>\<open>Compile\<close> (\<^verbatim>\<open>compile.py\<close>, \<^verbatim>\<open>codegen_cute.py\<close>):
    the pipeline and the run of an executable, where the components meet.
  \<^item> \<^verbatim>\<open>Numpy\<close>: what the task bodies use of NumPy (shapes, broadcasting, slices, reductions, views and stores), over a
    parameter record of scalar operations; \<^verbatim>\<open>Bodies_Dense\<close>, \<^verbatim>\<open>_Attention\<close>, \<^verbatim>\<open>_Recurrent\<close> (\<^verbatim>\<open>reference_dense.py\<close>,
    \<^verbatim>\<open>reference_attention.py\<close>, \<^verbatim>\<open>reference_recurrent.py\<close>): the 30 numeric task bodies.  \<^verbatim>\<open>Body_Frames\<close> and \<^verbatim>\<open>Bodies\<close> bound
    which cells each body may write, \<^verbatim>\<open>Body_Values\<close> (locale \<open>owner_computes\<close>) shows that the tiles of a GEMM phase
    together compute the whole product, \<^verbatim>\<open>Topk\<close> that the ranking loop of the indexer is a stable descending sort,
    and \<^verbatim>\<open>Run_Bodies\<close> runs compiled executables on these bodies.
  \<^item> \<^verbatim>\<open>Float_Formats\<close>, \<^verbatim>\<open>Float_Oracle\<close> (\<^verbatim>\<open>reference_types.py\<close>, \<^verbatim>\<open>torch_ops/bf16_oracle.py\<close>): bf16 rounding and e4m3 decoding on bit
    patterns.
  \<^item> \<^verbatim>\<open>Op_Cache\<close> (\<^verbatim>\<open>tuning/cache.py\<close>): memo, store files, tuning sweep, seeding.
  \<^item> \<^verbatim>\<open>Ring_Network\<close>: the locale \<open>fifo_ring\<close> of processes that send to the next and receive from the previous one through
    unbounded queues, in which every interleaving reaches the same final state after the same number of steps; \<^verbatim>\<open>Ring_Allreduce\<close>
    (\<^verbatim>\<open>_fallback.py\<close>, \<^verbatim>\<open>comm.py\<close>) interprets it on the ring all-reduce.
  \<^item> \<^verbatim>\<open>Streams\<close>, \<^verbatim>\<open>Overlap\<close> (\<^verbatim>\<open>_fallback.py\<close>, \<^verbatim>\<open>core.py\<close>): a stream and its worker as a step relation with histories; the overlap
    executor as the interleaving of its main thread and two workers.
  \<^item> \<^verbatim>\<open>P2P_Gather\<close> (\<^verbatim>\<open>comm.py\<close>, \<^verbatim>\<open>_fallback.py\<close>): validation, staging and copies of run lists over byte-addressed memory;
    \<^verbatim>\<open>KV_Pages\<close>: packing cache slots into pages and back.
  \<^item> \<^verbatim>\<open>Kernel_Registry\<close> (\<^verbatim>\<open>registry.py\<close>, \<^verbatim>\<open>signature.py\<close>): gates and selection of kernel implementations from metadata;
    \<^verbatim>\<open>Torch_Registries\<close>: the registries of \<^verbatim>\<open>torch_ops/\<close>.
  \<^item> \<^verbatim>\<open>Moe_Align\<close> (\<^verbatim>\<open>_fallback.py\<close>, \<^verbatim>\<open>dist.py\<close>): the block-aligned layout of a routing table and its partition between expert
    ranks; \<^verbatim>\<open>Moe_Forward\<close>, \<^verbatim>\<open>Moe_Parallel\<close> (\<^verbatim>\<open>dist.py\<close>): the stages of the expert products on flat arrays, and the expert-,
    tensor- and pipeline-parallel forwards.  \<^verbatim>\<open>Moe_Updates\<close> turns the loops of a stage into sequences of slice updates,
    \<^verbatim>\<open>Moe_Values\<close> and \<^verbatim>\<open>Moe_Weights\<close> give the cells that the stages compute, \<^verbatim>\<open>Moe_Ranks\<close> the specification (the routed sum
    \<open>moe_cell\<close>), and \<^verbatim>\<open>Moe_Outputs\<close> shows that both forwards return it.

  \<^bold>\<open>Termination.\<close>  No model uses fuel: the loops of the sources are structural recursions, or functions with
  a proved measure (first fit, queue drain, Kahn elimination).

  \<^bold>\<open>Numbers.\<close>  Floating point arithmetic is a parameter (the record of \<^verbatim>\<open>Numpy\<close>): theorems about the bodies hold for
  every choice of the scalar operations, so they say which cells receive which expression and not how
  large the rounding error is.  The theorems about the distributed layer compare different orders of summation, so
  they assume the law they need (an associative addition, or a row product that is additive over
  concatenation), which holds for exact arithmetic and for floats up to rounding.  The bit-level theories \<^verbatim>\<open>Float_Formats\<close> and \<^verbatim>\<open>Float_Oracle\<close> are about the formats themselves.

  \<^bold>\<open>Concurrency.\<close>  Threads (rank threads, stream workers, queue workers, the main thread of the overlap executor) are
  programs with a program counter; a step is one critical section or one private action, and the
  theorems quantify over all interleavings of steps.

  \<^bold>\<open>Not modelled.\<close>  GPU source text (Triton, CuTe, HIP) and what third-party compilers make of it; the compiled extension
  that replaces the Python implementations when it is built; torch operators and weight loading; process
  control, timing and argument parsing of the command line; error message texts.
\<close>

end
